(* ===== verification/Xd3_Prelude.thy ===== *)
theory Xd3_Prelude
  imports Main "HOL-Library.Word"
begin

text \<open>
  Shared ground of the development: the C integer types, the return codes of the xdelta3
  library, the sequencing of calls that may fail, and the generic lemmas on words, byte
  lists and byte buffers that the components use.

  The return type has one constructor per code of \<open>xd3_rvalues\<close> (xdelta3.h), one per system
  error the library returns, \<open>XD3_OK\<close> for 0, and two outcomes that C has no code for:
  \<open>C_UB\<close> is a step with undefined behaviour (a read or write outside an object, a freed
  object used again) and \<open>C_LOOP\<close> is a loop that never ends.
\<close>

unbundle bit_operations_syntax

section \<open>Integer types\<close>

type_synonym u8 = "8 word"
type_synonym u16 = "16 word"
type_synonym u32 = "32 word"
type_synonym u64 = "64 word"

text \<open>\<open>usize_t\<close> is \<open>uint32_t\<close> and, with \<open>XD3_USE_LARGEFILE64\<close> on by default, \<open>xoff_t\<close> is
  \<open>uint64_t\<close>.\<close>

type_synonym usize_t = u32
type_synonym xoff_t = u64

named_theorems xd3_simps \<open>equations of the model that component proofs unfold\<close>
named_theorems xd3_bounds \<open>bounds on machine integers, stated over nat\<close>

section \<open>Return codes\<close>

datatype xd3_ret =
    XD3_OK
  | XD3_INPUT
  | XD3_OUTPUT
  | XD3_GETSRCBLK
  | XD3_GOTHEADER
  | XD3_WINSTART
  | XD3_WINFINISH
  | XD3_TOOFARBACK
  | XD3_INTERNAL
  | XD3_INVALID
  | XD3_INVALID_INPUT
  | XD3_NOSECOND
  | XD3_UNIMPLEMENTED
  | ENOMEM
  | ENOSPC
  | C_UB
  | C_LOOP

definition xd3_rvalues :: "(xd3_ret \<times> int) list" where
  "xd3_rvalues =
    [(XD3_INPUT, -17703), (XD3_OUTPUT, -17704), (XD3_GETSRCBLK, -17705),
     (XD3_GOTHEADER, -17706), (XD3_WINSTART, -17707), (XD3_WINFINISH, -17708),
     (XD3_TOOFARBACK, -17709), (XD3_INTERNAL, -17710), (XD3_INVALID, -17711),
     (XD3_INVALID_INPUT, -17712), (XD3_NOSECOND, -17713), (XD3_UNIMPLEMENTED, -17714)]"

definition xd3_strerror :: "int \<Rightarrow> string option" where
  "xd3_strerror ret =
    (if ret = -17703 then Some ''XD3_INPUT''
     else if ret = -17704 then Some ''XD3_OUTPUT''
     else if ret = -17705 then Some ''XD3_GETSRCBLK''
     else if ret = -17706 then Some ''XD3_GOTHEADER''
     else if ret = -17707 then Some ''XD3_WINSTART''
     else if ret = -17708 then Some ''XD3_WINFINISH''
     else if ret = -17709 then Some ''XD3_TOOFARBACK''
     else if ret = -17710 then Some ''XD3_INTERNAL''
     else if ret = -17711 then Some ''XD3_INVALID''
     else if ret = -17712 then Some ''XD3_INVALID_INPUT''
     else if ret = -17713 then Some ''XD3_NOSECOND''
     else if ret = -17714 then Some ''XD3_UNIMPLEMENTED''
     else None)"

section \<open>Calls that may fail\<close>

text \<open>\<open>if ((ret = f (stream))) { return ret; }\<close> followed by the rest of the function.\<close>

definition bind_ok :: "xd3_ret \<times> 's \<Rightarrow> ('s \<Rightarrow> xd3_ret \<times> 's) \<Rightarrow> xd3_ret \<times> 's" where
  "bind_ok m k = (case m of (r, s) \<Rightarrow> if r = XD3_OK then k s else (r, s))"

lemma bind_ok_simps [simp]:
  "bind_ok (XD3_OK, s) k = k s"
  "r \<noteq> XD3_OK \<Longrightarrow> bind_ok (r, s) k = (r, s)"
  by (simp_all add: bind_ok_def)

lemma bind_ok_assoc: "bind_ok (bind_ok m f) g = bind_ok m (\<lambda>s. bind_ok (f s) g)"
  by (simp add: bind_ok_def split: prod.split)

lemma bind_ok_eqE:
  assumes "bind_ok m k = (r, t)"
  obtains (ok) s where "m = (XD3_OK, s)" "k s = (r, t)"
    | (err) "r \<noteq> XD3_OK" "m = (r, t)"
  using assms by (cases m) (auto simp: bind_ok_def split: if_splits)

lemma bind_ok_OK_iff:
  "bind_ok m k = (XD3_OK, t) \<longleftrightarrow> (\<exists>s. m = (XD3_OK, s) \<and> k s = (XD3_OK, t))"
  by (cases m) (auto simp: bind_ok_def)

lemma bind_ok_inv:
  assumes "P (snd m)" and "\<And>s. m = (XD3_OK, s) \<Longrightarrow> P s \<Longrightarrow> P (snd (k s))"
  shows "P (snd (bind_ok m k))"
  using assms by (cases m) (auto simp: bind_ok_def)

lemma bind_ok_no_ub:
  assumes "fst m \<noteq> C_UB" and "\<And>s. m = (XD3_OK, s) \<Longrightarrow> fst (k s) \<noteq> C_UB"
  shows "fst (bind_ok m k) \<noteq> C_UB"
  using assms by (cases m) (auto simp: bind_ok_def)

section \<open>Lists\<close>

text \<open>A finite table is checked by evaluation over a list and used by membership.\<close>

lemma list_all_uptD: "list_all P [a ..< b] \<Longrightarrow> a \<le> i \<Longrightarrow> i < b \<Longrightarrow> P i"
  by (simp add: list_all_iff)

section \<open>Words\<close>

lemma unat_of_nat_small:
  "n < 2 ^ LENGTH('a) \<Longrightarrow> unat (of_nat n :: 'a::len word) = n"
  by (simp add: unat_of_nat take_bit_nat_eq_self)

lemma unat_u32_less [xd3_bounds]: "unat (x :: u32) < 4294967296"
  using unsigned_less [of x] by simp

lemma unat_u64_less [xd3_bounds]: "unat (x :: u64) < 18446744073709551616"
  using unsigned_less [of x] by simp

lemma unat_u8_less [xd3_bounds]: "unat (x :: u8) < 256"
  using unsigned_less [of x] by simp

lemma unat_ucast_u8_u32 [simp]: "unat (ucast (b :: u8) :: u32) = unat b"
  using unat_u8_less [of b] by (simp add: unsigned_ucast_eq take_bit_nat_eq_self)

lemma unat_ucast_u32_u64 [simp]: "unat (ucast (b :: u32) :: u64) = unat b"
  using unat_u32_less [of b] by (simp add: unsigned_ucast_eq take_bit_nat_eq_self)

lemma word_zero_iff_unat: "(x :: 'a::len word) = 0 \<longleftrightarrow> unat x = 0"
  by (simp add: unat_eq_0)

lemma unat_add_u32:
  "unat x + unat y < 4294967296 \<Longrightarrow> unat (x + y :: u32) = unat x + unat y"
  using unat_add_lem [of x y] by simp

lemma unat_add_u32_mod: "unat (x + y :: u32) = (unat x + unat y) mod 4294967296"
  by (simp add: unat_word_ariths)

lemma unat_add_u64:
  "unat x + unat y < 18446744073709551616 \<Longrightarrow> unat (x + y :: u64) = unat x + unat y"
  using unat_add_lem [of x y] by simp

lemma unat_sub_le: "y \<le> x \<Longrightarrow> unat (x - y :: 'a::len word) = unat x - unat y"
  by (simp add: unat_sub)

lemma div_round_up:
  fixes n b :: nat
  assumes "0 < b"
  shows "(n + (b - 1)) div b = (if n mod b = 0 then n div b else n div b + 1)"
proof -
  define q r where "q = n div b" and "r = n mod b"
  have n: "n = b * q + r" "r < b" using assms by (simp_all add: q_def r_def)
  have "(b * q + r + (b - 1)) div b = (if r = 0 then q else q + 1)"
    using assms n(2) by (intro div_nat_eqI) (auto simp: algebra_simps)
  then show ?thesis by (simp add: q_def [symmetric] r_def [symmetric] n(1) [symmetric])
qed

lemma unat_drop_bit_div: "unat (drop_bit n (w :: 'a::len word)) = unat w div 2 ^ n"
  by (simp only: unat_drop_bit_eq drop_bit_nat_def)

lemma unat_and_mask_mod: "unat ((w :: 'a::len word) AND mask n) = unat w mod 2 ^ n"
  by (simp add: unsigned_take_bit_eq take_bit_nat_def flip: take_bit_eq_mask)

lemma unat_u8_and_127 [simp]: "unat ((b :: u8) AND 127) = unat b mod 128"
  using unat_and_mask_mod [of b 7] by (simp add: mask_numeral)

lemma and_not_mask_zero_iff:
  "(v :: 'a::len word) AND NOT (mask n) = 0 \<longleftrightarrow> unat v < 2 ^ n"
proof -
  have "(v AND mask n) + (v AND NOT (mask n)) = (v AND mask n) OR (v AND NOT (mask n))"
    by (rule disjunctive_add) (auto simp: bit_simps)
  also have "\<dots> = v"
    by (simp flip: bit.conj_disj_distrib)
  finally have "v = (v AND mask n) + (v AND NOT (mask n))" by simp
  then have "v AND NOT (mask n) = 0 \<longleftrightarrow> v AND mask n = v"
    by (metis add.right_neutral add_left_imp_eq)
  also have "\<dots> \<longleftrightarrow> take_bit n v = v"
    by (simp add: take_bit_eq_mask)
  also have "\<dots> \<longleftrightarrow> unat v < 2 ^ n"
    by (metis take_bit_nat_eq_self_iff unsigned_take_bit_eq word_unat_eq_iff)
  finally show ?thesis .
qed

end
