(* ===== verification/Xd3_Integer.thy ===== *)
theory Xd3_Integer
  imports Xd3_Prelude
begin

text \<open>
  The variable-length integers of VCDIFF (xdelta3.c, "Integer encoder/decoder functions").
  The C code writes each routine once as a macro over the word type and the overflow mask
  (\<open>READ_INTEGER_TYPE\<close>, \<open>DECODE_INTEGER_TYPE\<close>, \<open>EMIT_INTEGER_TYPE\<close>); the model writes each
  once over \<open>'w::len word\<close> and instantiates it at 32 and 64 bits as the C does.  What the two
  instances share is the contract \<open>varint\<close>: the mask tests exactly the seven top bits.
\<close>

section \<open>Routines\<close>

definition UINT32_OFLOW_MASK :: u32 where "UINT32_OFLOW_MASK = 0xfe000000"
definition UINT64_OFLOW_MASK :: u64 where "UINT64_OFLOW_MASK = 0xfe00000000000000"

text \<open>\<open>next & 127\<close> widened to the type of the value, and the accumulation step.\<close>

definition low7 :: "u8 \<Rightarrow> 'w::len word" where
  "low7 b = ucast (b AND 127)"

definition shift_in :: "'w::len word \<Rightarrow> u8 \<Rightarrow> 'w word" where
  "shift_in part b = (push_bit 7 part) OR low7 b"

text \<open>\<open>READ_INTEGER_TYPE\<close>: the list is the memory from \<open>*inpp\<close> up to \<open>max\<close>.  An error carries
  the message; success carries the value and the new \<open>*inpp\<close>.\<close>

fun read_integer_type :: "'w::len word \<Rightarrow> 'w word \<Rightarrow> u8 list \<Rightarrow> string + ('w word \<times> u8 list)" where
  "read_integer_type oflow val [] = Inl ''end-of-input in read_integer''"
| "read_integer_type oflow val (next # inp) =
    (if val AND oflow \<noteq> 0 then Inl ''overflow in read_intger''
     else let val' = shift_in val next in
       if next AND 128 \<noteq> 0 then read_integer_type oflow val' inp
       else Inr (val', inp))"

definition xd3_read_uint32_t :: "u8 list \<Rightarrow> string + (u32 \<times> u8 list)" where
  "xd3_read_uint32_t inp = read_integer_type UINT32_OFLOW_MASK 0 inp"

definition xd3_read_uint64_t :: "u8 list \<Rightarrow> string + (u64 \<times> u8 list)" where
  "xd3_read_uint64_t inp = read_integer_type UINT64_OFLOW_MASK 0 inp"

text \<open>\<open>EMIT_INTEGER_TYPE\<close>: \<open>buf\<close> is filled from its end, so the accumulator is the tail of the
  array already written; the final step turns off the top bit of \<open>buf[9]\<close>.\<close>

function emit_integer_loop :: "'w::len word \<Rightarrow> u8 list \<Rightarrow> u8 list" where
  "emit_integer_loop num buf =
    (let buf' = (ucast (num AND 127) OR 128) # buf; num' = drop_bit 7 num in
     if num' \<noteq> 0 then emit_integer_loop num' buf' else buf')"
  by pat_completeness auto
termination
proof (relation "measure (\<lambda>(num, buf). unat num)", simp)
  fix num num' :: "'w::len word" and buf buf' :: "u8 list"
  assume num': "num' = drop_bit 7 num" "num' \<noteq> 0"
  then have "unat num' = unat num div 128"
    by (simp add: unat_drop_bit_div)
  moreover have "unat num \<noteq> 0"
    using num' by (metis drop_bit_of_0 unat_eq_0)
  ultimately show "((num', buf'), num, buf) \<in> measure (\<lambda>(num, buf). unat num)"
    by simp
qed

declare emit_integer_loop.simps [simp del]

definition emit_integer_type :: "'w::len word \<Rightarrow> u8 list" where
  "emit_integer_type num =
    (let buf = emit_integer_loop num [] in butlast buf @ [last buf AND 127])"

definition xd3_sizeof_uint32_t :: "u32 \<Rightarrow> u32" where
  "xd3_sizeof_uint32_t num =
    (if num < push_bit (7 * 1) 1 then 1
     else if num < push_bit (7 * 2) 1 then 2
     else if num < push_bit (7 * 3) 1 then 3
     else if num < push_bit (7 * 4) 1 then 4
     else 5)"

definition xd3_sizeof_uint64_t :: "u64 \<Rightarrow> u32" where
  "xd3_sizeof_uint64_t num =
    (if num < push_bit (7 * 1) 1 then 1
     else if num < push_bit (7 * 2) 1 then 2
     else if num < push_bit (7 * 3) 1 then 3
     else if num < push_bit (7 * 4) 1 then 4
     else if num < push_bit (7 * 5) 1 then 5
     else if num < push_bit (7 * 6) 1 then 6
     else if num < push_bit (7 * 7) 1 then 7
     else if num < push_bit (7 * 8) 1 then 8
     else if num < push_bit (7 * 9) 1 then 9
     else 10)"

section \<open>Base-128 numerals\<close>

text \<open>The abstract meaning: a byte string denotes the base-128 numeral of its low seven bits,
  most significant byte first.\<close>

definition digit7 :: "u8 \<Rightarrow> nat" where
  "digit7 b = unat b mod 128"

definition numeral7 :: "nat \<Rightarrow> u8 list \<Rightarrow> nat" where
  "numeral7 acc bs = foldl (\<lambda>a b. a * 128 + digit7 b) acc bs"

text \<open>A well-formed encoding has the top bit on in every byte but the last.\<close>

definition wf_int :: "u8 list \<Rightarrow> bool" where
  "wf_int bs \<longleftrightarrow> bs \<noteq> [] \<and> (\<forall>b \<in> set (butlast bs). b AND 128 \<noteq> 0) \<and> last bs AND 128 = 0"

lemma numeral7_simps [simp]:
  "numeral7 a [] = a"
  "numeral7 a (b # bs) = numeral7 (a * 128 + digit7 b) bs"
  "numeral7 a (bs @ cs) = numeral7 (numeral7 a bs) cs"
  by (simp_all add: numeral7_def)

lemma wf_int_Cons:
  "wf_int (b # bs) \<longleftrightarrow> (if b AND 128 \<noteq> 0 then wf_int bs else bs = [])"
  by (auto simp: wf_int_def)

lemma numeral7_ge: "a \<le> numeral7 a bs"
proof (induction bs arbitrary: a)
  case (Cons b bs)
  have "a \<le> a * 128 + digit7 b" by simp
  also have "\<dots> \<le> numeral7 (a * 128 + digit7 b) bs" by (rule Cons.IH)
  finally show ?case by simp
qed simp

lemma numeral7_0_less: "numeral7 0 bs < 128 ^ length bs"
proof -
  have "numeral7 a bs < (a + 1) * 128 ^ length bs" for a
  proof (induction bs arbitrary: a)
    case (Cons b bs)
    have "numeral7 (a * 128 + digit7 b) bs < (a * 128 + digit7 b + 1) * 128 ^ length bs"
      by (rule Cons.IH)
    also have "\<dots> \<le> ((a + 1) * 128) * 128 ^ length bs"
      by (rule mult_right_mono) (auto simp: digit7_def less_Suc_eq_le [symmetric])
    finally show ?case by (simp add: algebra_simps)
  qed simp
  from this [of 0] show ?thesis by simp
qed

lemma u8_and_128: "b AND 128 = 0 \<longleftrightarrow> unat b < 128" for b :: u8
proof -
  have m: "(128 :: u8) = NOT (mask 7)" by (simp add: mask_numeral)
  show ?thesis unfolding m by (simp only: and_not_mask_zero_iff) simp
qed

lemma digit7_set_top [simp]: "digit7 (b OR 128) = digit7 b"
  and digit7_clear_top [simp]: "digit7 (b AND 127) = digit7 b"
proof -
  have "(b OR 128) AND 127 = b AND 127"
    by (simp add: bit.conj_disj_distrib2)
  then have "unat ((b OR 128) AND 127) = unat (b AND 127)" by simp
  then show "digit7 (b OR 128) = digit7 b" by (simp add: digit7_def)
qed (simp add: digit7_def)

section \<open>The contract of the two instances\<close>

locale varint =
  fixes oflow :: "'w::len word"
  assumes len7: "7 < LENGTH('w)"
    and oflow_iff: "v AND oflow = 0 \<longleftrightarrow> unat v < 2 ^ (LENGTH('w) - 7)"
begin

lemma pow_split: "(2::nat) ^ LENGTH('w) = 2 ^ (LENGTH('w) - 7) * 128"
  using power_add [of "2::nat" "LENGTH('w) - 7" 7] len7 by simp

lemma unat_low7: "unat (low7 b :: 'w word) = digit7 b"
proof -
  have "(2::nat) ^ 8 \<le> 2 ^ LENGTH('w)"
    using len7 by (intro power_increasing) auto
  then show ?thesis
    using unat_u8_less [of b]
    by (simp add: low7_def digit7_def unsigned_ucast_eq take_bit_nat_eq_self_iff)
qed

lemma unat_shift_in:
  assumes "unat part < 2 ^ (LENGTH('w) - 7)"
  shows "unat (shift_in part b :: 'w word) = unat part * 128 + digit7 b"
proof -
  have d: "digit7 b < 128" by (simp add: digit7_def)
  from assms have "unat part + 1 \<le> 2 ^ (LENGTH('w) - 7)" by simp
  then have "(unat part + 1) * 128 \<le> 2 ^ LENGTH('w)"
    unfolding pow_split by (rule mult_right_mono) simp
  with d have fits: "unat part * 128 + digit7 b < 2 ^ LENGTH('w)" by simp
  have pb: "unat (push_bit 7 part) = unat part * 128"
    using fits
    by (simp add: unsigned_push_bit_eq push_bit_nat_def take_bit_nat_eq_self_iff del: push_bit_numeral)
  have m: "(127 :: u8) = mask 7" by (simp add: mask_numeral)
  have "shift_in part b = push_bit 7 part + (low7 b :: 'w word)"
    unfolding shift_in_def low7_def m
    by (rule disjunctive_add [symmetric]) (auto simp: bit_simps)
  then show ?thesis
    using fits by (simp add: unat_word_ariths pb unat_low7 del: push_bit_numeral)
qed

lemma read_sound:
  assumes "read_integer_type oflow v bs = Inr (w, rest)"
  shows "\<exists>enc. bs = enc @ rest \<and> wf_int enc \<and> unat w = numeral7 (unat v) enc"
  using assms
proof (induction bs arbitrary: v)
  case (Cons b bs)
  from Cons.prems have small: "unat v < 2 ^ (LENGTH('w) - 7)"
    by (auto simp: oflow_iff split: if_splits)
  note val = unat_shift_in [OF small, of b]
  show ?case
  proof (cases "b AND 128 = 0")
    case True
    with Cons.prems small have "w = shift_in v b" "rest = bs"
      by (auto simp: oflow_iff Let_def)
    with True val show ?thesis
      by (intro exI [of _ "[b]"]) (simp add: wf_int_def)
  next
    case False
    with Cons.prems small have "read_integer_type oflow (shift_in v b) bs = Inr (w, rest)"
      by (auto simp: oflow_iff Let_def)
    from Cons.IH [OF this] obtain enc where
      "bs = enc @ rest" "wf_int enc" "unat w = numeral7 (unat (shift_in v b)) enc" by blast
    with False val show ?thesis
      by (intro exI [of _ "b # enc"]) (simp add: wf_int_Cons)
  qed
qed simp

lemma read_complete:
  assumes "wf_int enc" and "numeral7 (unat v) enc < 2 ^ LENGTH('w)"
  shows "read_integer_type oflow v (enc @ rest) = Inr (of_nat (numeral7 (unat v) enc), rest)"
  using assms
proof (induction enc arbitrary: v)
  case Nil
  then show ?case by (simp add: wf_int_def)
next
  case (Cons b enc)
  have "unat v * 128 \<le> numeral7 (unat v * 128 + digit7 b) enc"
    using numeral7_ge [of "unat v * 128 + digit7 b" enc] by simp
  also have "\<dots> < 2 ^ (LENGTH('w) - 7) * 128"
    using Cons.prems(2) pow_split by simp
  finally have small: "unat v < 2 ^ (LENGTH('w) - 7)" by simp
  note val = unat_shift_in [OF small, of b]
  show ?case
  proof (cases "b AND 128 = 0")
    case True
    with Cons.prems(1) have "enc = []" by (simp add: wf_int_Cons)
    with True small val show ?thesis
      by (simp add: oflow_iff Let_def flip: word_unat_eq_iff val)
  next
    case False
    with Cons.prems(1) have wf: "wf_int enc" by (simp add: wf_int_Cons)
    from Cons.prems(2) val have "numeral7 (unat (shift_in v b)) enc < 2 ^ LENGTH('w)"
      by simp
    from Cons.IH [OF wf this] False small val show ?thesis
      by (simp add: oflow_iff Let_def)
  qed
qed

lemma emit_loop_props:
  "\<exists>ds. emit_integer_loop num buf = ds @ buf \<and> ds \<noteq> [] \<and> (\<forall>d \<in> set ds. d AND 128 \<noteq> 0)
     \<and> numeral7 0 ds = unat (num :: 'w word) \<and> (length ds = 1 \<or> 128 ^ (length ds - 1) \<le> unat num)"
proof (induction num buf rule: emit_integer_loop.induct)
  case (1 num buf)
  define d :: u8 where "d = ucast (num AND 127) OR 128"
  have top: "d AND 128 \<noteq> 0"
  proof
    assume "d AND 128 = 0"
    then have "bit (d AND 128) 7 = bit (0 :: u8) 7" by simp
    then show False by (simp add: d_def bit_simps)
  qed
  have m: "(127 :: 'w word) = mask 7" by (simp add: mask_numeral)
  have "unat (ucast (num AND 127) :: u8) = unat num mod 128"
    unfolding m by (simp add: unsigned_ucast_eq take_bit_nat_def unat_and_mask_mod)
  then have dig: "digit7 d = unat num mod 128"
    by (simp add: d_def digit7_def [of "ucast _"])
  show ?case
  proof (cases "drop_bit 7 num = 0")
    case True
    then have "unat num div 128 = 0" using unat_drop_bit_div [of 7 num] by simp
    with True top dig show ?thesis
      by (intro exI [of _ "[d]"]) (simp add: emit_integer_loop.simps [of num buf] d_def [symmetric])
  next
    case False
    with "1.IH" [OF refl refl] obtain ds where
      ds: "emit_integer_loop (drop_bit 7 num) (d # buf) = ds @ d # buf" "ds \<noteq> []"
        "\<forall>d \<in> set ds. d AND 128 \<noteq> 0" "numeral7 0 ds = unat num div 128"
        "length ds = 1 \<or> 128 ^ (length ds - 1) \<le> unat num div 128"
      unfolding d_def [symmetric] by (auto simp: unat_drop_bit_div)
    have pos: "1 \<le> unat num div 128"
      using False unat_drop_bit_div [of 7 num] by (simp add: word_zero_iff_unat Suc_le_eq)
    have "128 ^ length ds \<le> unat num"
    proof -
      have "128 ^ (length ds - 1) \<le> unat num div 128" using ds(5) pos by auto
      then have "128 ^ (length ds - 1) * 128 \<le> unat num" by (simp add: less_eq_div_iff_mult_less_eq)
      with ds(2) show ?thesis by (cases ds) simp_all
    qed
    moreover have "emit_integer_loop num buf = (ds @ [d]) @ buf"
      using False ds(1) by (simp add: emit_integer_loop.simps [of num buf] d_def [symmetric])
    ultimately show ?thesis
      using ds top dig by (intro exI [of _ "ds @ [d]"]) auto
  qed
qed

lemma emit_props:
  "wf_int (emit_integer_type (num :: 'w word))"
  "numeral7 0 (emit_integer_type num) = unat num"
  "length (emit_integer_type num) = 1 \<or> 128 ^ (length (emit_integer_type num) - 1) \<le> unat num"
proof -
  obtain ds where ds: "emit_integer_loop num [] = ds" "ds \<noteq> []"
      "\<forall>d \<in> set ds. d AND 128 \<noteq> 0" "numeral7 0 ds = unat num"
      "length ds = 1 \<or> 128 ^ (length ds - 1) \<le> unat num"
    using emit_loop_props [of num "[]"] by auto
  then have emit: "emit_integer_type num = butlast ds @ [last ds AND 127]"
    by (simp add: emit_integer_type_def Let_def)
  have "numeral7 0 (butlast ds @ [last ds]) = unat num" using ds(2,4) by simp
  then show "numeral7 0 (emit_integer_type num) = unat num" by (simp add: emit)
  have "(last ds AND 127) AND 128 = 0" by (simp add: u8_and_128)
  with ds show "wf_int (emit_integer_type num)"
    by (auto simp: emit wf_int_def dest: in_set_butlastD)
  show "length (emit_integer_type num) = 1 \<or> 128 ^ (length (emit_integer_type num) - 1) \<le> unat num"
    using ds(2,5) by (simp add: emit)
qed

lemma read_emit: "read_integer_type oflow 0 (emit_integer_type num @ rest) = Inr (num, rest)"
  using read_complete [of "emit_integer_type num" 0 rest] emit_props [of num]
    unsigned_less [of num] by simp

lemma emit_shortest:
  assumes "numeral7 0 enc = unat (num :: 'w word)" and "enc \<noteq> []"
  shows "length (emit_integer_type num) \<le> length enc"
proof (cases "length (emit_integer_type num) = 1")
  case True
  with assms(2) show ?thesis by (cases enc) simp_all
next
  case False
  then have "128 ^ (length (emit_integer_type num) - 1) \<le> unat num"
    using emit_props(3) [of num] by simp
  also have "\<dots> < 128 ^ length enc" using numeral7_0_less [of enc] assms(1) by simp
  finally have "length (emit_integer_type num) - 1 < length enc" by simp
  then show ?thesis by simp
qed

lemma emit_length:
  assumes "unat (num :: 'w word) < 128 ^ k" and "k = 1 \<or> 128 ^ (k - 1) \<le> unat num" and "0 < k"
  shows "length (emit_integer_type num) = k"
proof -
  let ?l = "length (emit_integer_type num)"
  have up: "unat num < 128 ^ ?l"
    using numeral7_0_less [of "emit_integer_type num"] emit_props(2) [of num] by simp
  have pos: "0 < ?l" using emit_props(1) [of num] by (simp add: wf_int_def)
  have "k \<le> ?l"
  proof (cases "k = 1")
    case False
    with assms(2) have "128 ^ (k - 1) \<le> unat num" by simp
    also note up
    finally have "k - 1 < ?l" by simp
    then show ?thesis by simp
  qed (use pos in linarith)
  moreover have "?l \<le> k"
  proof (cases "?l = 1")
    case False
    then have "128 ^ (?l - 1) \<le> unat num" using emit_props(3) [of num] by simp
    also note assms(1)
    finally have "?l - 1 < k" by simp
    then show ?thesis by simp
  qed (use assms(3) in simp)
  ultimately show ?thesis by simp
qed

end

text \<open>Both instances of the macros meet the contract.\<close>

interpretation varint32: varint UINT32_OFLOW_MASK
proof
  show "7 < LENGTH(32)" by simp
  fix v :: u32
  have m: "UINT32_OFLOW_MASK = NOT (mask 25)" by (simp add: UINT32_OFLOW_MASK_def mask_numeral)
  show "v AND UINT32_OFLOW_MASK = 0 \<longleftrightarrow> unat v < 2 ^ (LENGTH(32) - 7)"
    unfolding m by (simp only: and_not_mask_zero_iff) simp
qed

interpretation varint64: varint UINT64_OFLOW_MASK
proof
  show "7 < LENGTH(64)" by simp
  fix v :: u64
  have m: "UINT64_OFLOW_MASK = NOT (mask 57)" by (simp add: UINT64_OFLOW_MASK_def mask_numeral)
  show "v AND UINT64_OFLOW_MASK = 0 \<longleftrightarrow> unat v < 2 ^ (LENGTH(64) - 7)"
    unfolding m by (simp only: and_not_mask_zero_iff) simp
qed

lemma unat_sizeof_uint32_t: "unat (xd3_sizeof_uint32_t num) = length (emit_integer_type num)"
  using unat_u32_less [of num]
  by (auto simp: xd3_sizeof_uint32_t_def word_less_nat_alt)
    (rule varint32.emit_length [symmetric] varint32.emit_length; simp)+

lemma unat_sizeof_uint64_t: "unat (xd3_sizeof_uint64_t num) = length (emit_integer_type num)"
  using unat_u64_less [of num]
  by (auto simp: xd3_sizeof_uint64_t_def word_less_nat_alt)
    (rule varint64.emit_length [symmetric] varint64.emit_length; simp)+

section \<open>Properties\<close>

text \<open>C22. Whatever a 32-bit value is, what \<open>xd3_emit_uint32_t\<close> writes is read back by
  \<open>xd3_read_uint32_t\<close> as the same value, and the reader stops exactly behind it.\<close>

theorem read_emit_uint32:
  "xd3_read_uint32_t (emit_integer_type num @ rest) = Inr (num, rest)"
  unfolding xd3_read_uint32_t_def by (rule varint32.read_emit)

text \<open>C31. The size the encoder predicts with \<open>xd3_sizeof_uint32_t\<close> (on which the redundant window
  length field rests) is the number of bytes \<open>EMIT_INTEGER_TYPE\<close> produces, it fits the ten-byte
  stack buffer, and no other encoding of the value is shorter.\<close>

theorem sizeof_uint32_exact:
  "unat (xd3_sizeof_uint32_t num) = length (emit_integer_type num)
   \<and> length (emit_integer_type num) \<le> 10
   \<and> (enc \<noteq> [] \<longrightarrow> numeral7 0 enc = unat num \<longrightarrow> length (emit_integer_type num) \<le> length enc)"
proof -
  have "unat (xd3_sizeof_uint32_t num) \<le> 5" by (simp add: xd3_sizeof_uint32_t_def)
  then show ?thesis
    using unat_sizeof_uint32_t [of num] varint32.emit_shortest by auto
qed

theorem sizeof_uint32_exact_witness:
  "unat (xd3_sizeof_uint32_t 300) = length (emit_integer_type (300 :: u32))
   \<and> length (emit_integer_type (300 :: u32)) \<le> length [0x80, 0x82, 0x2c :: u8]"
proof -
  have "numeral7 0 [0x80, 0x82, 0x2c :: u8] = unat (300 :: u32)" by (simp add: digit7_def)
  then show ?thesis using sizeof_uint32_exact [of 300 "[0x80, 0x82, 0x2c]"] by simp
qed

text \<open>C30. The reader never truncates: what it accepts is a maximal byte run with the continuation
  bits set, and the value returned is the number that run denotes, computed without any
  wrap-around; conversely every run whose number fits in 32 bits is accepted.\<close>

theorem read_uint32_exact:
  "xd3_read_uint32_t bs = Inr (v, rest) \<longleftrightarrow>
   (\<exists>enc. bs = enc @ rest \<and> wf_int enc \<and> numeral7 0 enc = unat v)"
proof
  assume "xd3_read_uint32_t bs = Inr (v, rest)"
  then show "\<exists>enc. bs = enc @ rest \<and> wf_int enc \<and> numeral7 0 enc = unat v"
    unfolding xd3_read_uint32_t_def by (auto dest!: varint32.read_sound)
next
  assume "\<exists>enc. bs = enc @ rest \<and> wf_int enc \<and> numeral7 0 enc = unat v"
  then obtain enc where "bs = enc @ rest" "wf_int enc" "numeral7 0 enc = unat v" by blast
  then show "xd3_read_uint32_t bs = Inr (v, rest)"
    unfolding xd3_read_uint32_t_def
    using varint32.read_complete [of enc 0 rest] unsigned_less [of v] by simp
qed

end
