(* ===== verification/Xd3_Arith.thy ===== *)
theory Xd3_Arith
  imports Xd3_Prelude
begin

text \<open>
  The integer helpers of xdelta3.c and xdelta3.h: overflow tests, powers of two, rounding to
  an allocation unit, and the division of a file offset into block number and block offset.

  \<open>size_t\<close> is 64 bits wide (LP64).  A loop of the C code that does not end for some argument
  has the value \<open>None\<close> there.
\<close>

section \<open>Definitions\<close>

definition USIZE_T_MAX :: u32 where "USIZE_T_MAX = 0xffffffff"
definition XOFF_T_MAX :: u64 where "XOFF_T_MAX = 0xffffffffffffffff"

definition USIZE_T_OVERFLOW :: "u32 \<Rightarrow> u32 \<Rightarrow> bool" where
  "USIZE_T_OVERFLOW a b \<longleftrightarrow> USIZE_T_MAX - a < b"

definition XOFF_T_OVERFLOW :: "u64 \<Rightarrow> u64 \<Rightarrow> bool" where
  "XOFF_T_OVERFLOW a b \<longleftrightarrow> XOFF_T_MAX - a < b"

definition XD3_ALLOCSIZE :: u32 where "XD3_ALLOCSIZE = push_bit 14 1"
definition XD3_HARDMAXWINSIZE :: u32 where "XD3_HARDMAXWINSIZE = push_bit 24 1"
definition XD3_DEFAULT_WINSIZE :: u32 where "XD3_DEFAULT_WINSIZE = push_bit 23 1"
definition XD3_DEFAULT_SPREVSZ :: u32 where "XD3_DEFAULT_SPREVSZ = push_bit 18 1"
definition XD3_DEFAULT_IOPT_SIZE :: u32 where "XD3_DEFAULT_IOPT_SIZE = push_bit 15 1"

text \<open>What a left shift by one uses up: the positions above the lowest set bit.\<close>

definition shl_rank :: "'w::len word \<Rightarrow> nat" where
  "shl_rank x = (if x = 0 then 0 else LENGTH('w) - (LEAST n. bit x n))"

lemma shl_rank_decreases:
  assumes "x \<noteq> 0"
  shows "shl_rank (push_bit 1 x) < shl_rank (x :: 'w::len word)"
proof -
  obtain n where "bit x n" using assms by (auto simp: bit_eq_iff)
  then have low: "bit x (LEAST n. bit x n)" by (rule LeastI)
  then have lt: "(LEAST n. bit x n) < LENGTH('w)" by (rule bit_imp_le_length)
  show ?thesis
  proof (cases "push_bit 1 x = 0")
    case True
    with assms lt show ?thesis by (simp add: shl_rank_def)
  next
    case False
    then obtain m where "bit (push_bit 1 x) m" by (auto simp: bit_eq_iff)
    then have "bit (push_bit 1 x) (LEAST m. bit (push_bit 1 x) m)" by (rule LeastI)
    then have "1 \<le> (LEAST m. bit (push_bit 1 x) m)" "bit x ((LEAST m. bit (push_bit 1 x) m) - 1)"
        "(LEAST m. bit (push_bit 1 x) m) < LENGTH('w)"
      by (auto simp only: bit_push_bit_iff possible_bit_word)
    then have "(LEAST n. bit x n) < (LEAST m. bit (push_bit 1 x) m)"
      using Least_le [of "bit x" "(LEAST m. bit (push_bit 1 x) m) - 1"] by linarith
    with assms False lt show ?thesis by (simp add: shl_rank_def)
  qed
qed

text \<open>\<open>xd3_check_pow2\<close>: 0 and the logarithm for a power of two, \<open>XD3_INTERNAL\<close> otherwise; the
  counter of the loop is left in \<open>*logof\<close> either way.\<close>

function check_pow2_loop :: "u64 \<Rightarrow> u64 \<Rightarrow> u32 \<Rightarrow> xd3_ret \<times> u32" where
  "check_pow2_loop value x logof =
    (if x \<noteq> 0 then
       (if x = value then (XD3_OK, logof)
        else check_pow2_loop value (push_bit 1 x) (logof + 1))
     else (XD3_INTERNAL, logof))"
  by pat_completeness auto
termination
  by (relation "measure (\<lambda>(value, x, logof). shl_rank x)") (simp, auto simp only: in_measure case_prod_conv intro: shl_rank_decreases)

declare check_pow2_loop.simps [simp del]

definition xd3_check_pow2 :: "u64 \<Rightarrow> xd3_ret \<times> u32" where
  "xd3_check_pow2 value = check_pow2_loop value 1 0"

text \<open>\<open>while (x > i) { i <<= 1U; }\<close>: once the only bit is shifted out, \<open>i\<close> stays 0 and the loop
  does not end.\<close>

function roundup_loop :: "u64 \<Rightarrow> u64 \<Rightarrow> u64 option" where
  "roundup_loop x i =
    (if x > i then (if i = 0 then None else roundup_loop x (push_bit 1 i)) else Some i)"
  by pat_completeness auto
termination
  by (relation "measure (\<lambda>(x, i). shl_rank i)") (simp, auto simp only: in_measure case_prod_conv intro: shl_rank_decreases)

declare roundup_loop.simps [simp del]

definition xd3_pow2_roundup :: "u64 \<Rightarrow> u64 option" where
  "xd3_pow2_roundup x = roundup_loop x 1"

definition xd3_xoff_roundup :: "u64 \<Rightarrow> u64 option" where
  "xd3_xoff_roundup x = roundup_loop x 1"

definition xd3_round_blksize :: "u32 \<Rightarrow> u32 \<Rightarrow> u32" where
  "xd3_round_blksize sz blksz =
    (let m = sz AND (blksz - 1) in if m \<noteq> 0 then sz + (blksz - m) else sz)"

text \<open>\<open>xd3_blksize_div\<close> and \<open>xd3_blksize_add\<close> on a source's \<open>shiftby\<close> and \<open>maskby\<close>; \<open>maskby\<close> is a
  C \<open>int\<close> and is sign-extended where it meets a 64-bit offset.\<close>

definition xd3_blksize_div :: "u64 \<Rightarrow> nat \<Rightarrow> u32 \<Rightarrow> u64 \<times> u32" where
  "xd3_blksize_div offset shiftby maskby =
    (drop_bit shiftby offset, ucast (offset AND scast maskby))"

definition xd3_blksize_add :: "u64 \<Rightarrow> u32 \<Rightarrow> nat \<Rightarrow> u32 \<Rightarrow> u32 \<Rightarrow> u64 \<times> u32" where
  "xd3_blksize_add blkno blkoff shiftby maskby add =
    (let blkoff' = blkoff + add; blkdiff = drop_bit shiftby blkoff' in
     if blkdiff \<noteq> 0 then (blkno + ucast blkdiff, blkoff' AND maskby)
     else (blkno, blkoff'))"

section \<open>Lemmas\<close>

lemma usize_overflow_iff [xd3_bounds]:
  "USIZE_T_OVERFLOW a b \<longleftrightarrow> 4294967296 \<le> unat a + unat b"
proof -
  have "unat (USIZE_T_MAX - a) = 4294967295 - unat a"
    unfolding USIZE_T_MAX_def
    by (subst unat_sub) (use unat_u32_less [of a] in \<open>simp_all add: word_le_nat_alt\<close>)
  then show ?thesis
    using unat_u32_less [of a] by (auto simp: USIZE_T_OVERFLOW_def word_less_nat_alt)
qed

lemma xoff_overflow_iff [xd3_bounds]:
  "XOFF_T_OVERFLOW a b \<longleftrightarrow> 18446744073709551616 \<le> unat a + unat b"
proof -
  have "unat (XOFF_T_MAX - a) = 18446744073709551615 - unat a"
    unfolding XOFF_T_MAX_def
    by (subst unat_sub) (use unat_u64_less [of a] in \<open>simp_all add: word_le_nat_alt\<close>)
  then show ?thesis
    using unat_u64_less [of a] by (auto simp: XOFF_T_OVERFLOW_def word_less_nat_alt)
qed

lemma unat_pow2: "k < LENGTH('w) \<Longrightarrow> unat (push_bit k 1 :: 'w::len word) = 2 ^ k"
  using unat_of_nat_small [of "2 ^ k", where 'a = 'w] by (simp add: push_bit_of_1)

lemma push_bit_1_pow2: "push_bit 1 (push_bit k 1 :: 'w::len word) = push_bit (Suc k) 1"
  by (simp add: push_bit_push_bit)

lemma pow2_nonzero: "k < LENGTH('w) \<Longrightarrow> (push_bit k 1 :: 'w::len word) \<noteq> 0"
  using unat_pow2 [where 'w = 'w, of k] by (simp add: word_zero_iff_unat)

text \<open>The round-up loop from a power of two that is still too small by at most one doubling.\<close>

lemma roundup_loop_props:
  assumes "unat x \<le> 2 ^ 63" and "k \<le> 63" and "k = 0 \<or> 2 ^ (k - 1) < unat x"
  shows "\<exists>j \<le> 63. roundup_loop x (push_bit k 1) = Some (push_bit j 1) \<and> unat x \<le> 2 ^ j
           \<and> (j = 0 \<or> 2 ^ (j - 1) < unat x)"
  using assms(2,3)
proof (induction "63 - k" arbitrary: k)
  case (0 k)
  then have "k = 63" by simp
  with 0 assms(1) have "\<not> x > push_bit k 1"
    using unat_pow2 [where 'w = 64, of k] by (simp add: word_less_nat_alt del: push_bit_of_1)
  then have "roundup_loop x (push_bit k 1) = Some (push_bit k 1)"
    by (subst roundup_loop.simps) (simp del: push_bit_of_1)
  with 0 assms(1) \<open>k = 63\<close> show ?case by (intro exI [of _ k]) (simp del: push_bit_of_1)
next
  case (Suc d k)
  then have k: "k < 63" by simp
  have u: "unat (push_bit k 1 :: u64) = 2 ^ k" using k by (intro unat_pow2) simp
  show ?case
  proof (cases "x > push_bit k 1")
    case True
    then have big: "Suc k = 0 \<or> 2 ^ (Suc k - 1) < unat x"
      by (simp add: word_less_nat_alt u del: push_bit_of_1)
    have "d = 63 - Suc k" "Suc k \<le> 63" using Suc(2) k by simp_all
    from Suc(1) [OF this big] obtain j where
      "j \<le> 63" "roundup_loop x (push_bit (Suc k) 1) = Some (push_bit j 1)" "unat x \<le> 2 ^ j"
      "j = 0 \<or> 2 ^ (j - 1) < unat x" by blast
    moreover have "(push_bit k 1 :: u64) \<noteq> 0" using k by (intro pow2_nonzero) simp
    ultimately show ?thesis
      using True
      by (intro exI [of _ j]) (simp add: roundup_loop.simps [of x "push_bit k 1"] push_bit_1_pow2 del: push_bit_of_1)
  next
    case False
    then have "unat x \<le> 2 ^ k" by (simp add: word_less_nat_alt u del: push_bit_of_1)
    with False Suc.prems show ?thesis
      by (intro exI [of _ k]) (simp add: roundup_loop.simps [of x "push_bit k 1"] del: push_bit_of_1)
  qed
qed

lemma check_pow2_loop_found:
  assumes "j \<le> n" and "n < 64"
  shows "check_pow2_loop (push_bit n 1) (push_bit j 1) (of_nat j) = (XD3_OK, of_nat n)"
  using assms
proof (induction "n - j" arbitrary: j)
  case 0
  then show ?case
    using pow2_nonzero [where 'w = 64, of n]
    by (simp add: check_pow2_loop.simps [of _ "push_bit j 1"] del: push_bit_of_1)
next
  case (Suc d j)
  then have j: "j < n" by simp
  then have ne: "(push_bit j 1 :: u64) \<noteq> push_bit n 1"
    using unat_pow2 [where 'w = 64, of j] unat_pow2 [where 'w = 64, of n] Suc.prems
    by (auto simp del: push_bit_of_1)
  have "check_pow2_loop (push_bit n 1) (push_bit (Suc j) 1) (of_nat (Suc j)) = (XD3_OK, of_nat n)"
    using Suc(1) [of "Suc j"] Suc(2) Suc.prems j by auto
  with ne j Suc.prems show ?case
    using pow2_nonzero [where 'w = 64, of j]
    by (simp add: check_pow2_loop.simps [of _ "push_bit j 1"] push_bit_1_pow2 add.commute del: push_bit_of_1)
qed

lemma check_pow2_loop_not_found:
  assumes "\<forall>n < 64. value \<noteq> push_bit n 1" and "j \<le> 64"
  shows "check_pow2_loop value (push_bit j 1) (of_nat j) = (XD3_INTERNAL, 64)"
  using assms(2)
proof (induction "64 - j" arbitrary: j)
  case 0
  then have "j = 64" by simp
  moreover have "(push_bit 64 1 :: u64) = 0" by simp
  ultimately show ?case
    by (simp add: check_pow2_loop.simps [of _ 0] del: push_bit_of_1)
next
  case (Suc d j)
  then have j: "j < 64" by simp
  then have "check_pow2_loop value (push_bit (Suc j) 1) (of_nat (Suc j)) = (XD3_INTERNAL, 64)"
    using Suc(1) [of "Suc j"] Suc(2) by auto
  with assms(1) j show ?case
    using pow2_nonzero [where 'w = 64, of j]
    by (auto simp add: check_pow2_loop.simps [of _ "push_bit j 1"] push_bit_1_pow2 add.commute simp del: push_bit_of_1)
qed

lemma xd3_check_pow2_pow2: "n < 64 \<Longrightarrow> xd3_check_pow2 (push_bit n 1) = (XD3_OK, of_nat n)"
  using check_pow2_loop_found [of 0 n] by (simp add: xd3_check_pow2_def del: push_bit_of_1)

lemma unat_u64_pow2_cases:
  "(\<exists>n < 64. v = push_bit n 1) \<longleftrightarrow> (\<exists>n. unat (v :: u64) = 2 ^ n)"
proof
  assume "\<exists>n. unat v = 2 ^ n"
  then obtain n where n: "unat v = 2 ^ n" by blast
  then have "(2::nat) ^ n < 2 ^ 64" using unat_u64_less [of v] by simp
  then have "n < 64" by (rule power_less_imp_less_exp [rotated]) simp
  then have "v = push_bit n 1"
    using n unat_pow2 [where 'w = 64, of n] by (simp add: word_unat_eq_iff del: push_bit_of_1)
  with \<open>n < 64\<close> show "\<exists>n < 64. v = push_bit n 1" by blast
qed (use unat_pow2 [where 'w = 64] in \<open>auto simp del: push_bit_of_1\<close>)

lemma and_pow2_minus_1: "k < LENGTH('w) \<Longrightarrow> unat (v AND (push_bit k 1 - 1 :: 'w::len word)) = unat v mod 2 ^ k"
  by (simp add: mask_eq_exp_minus_1 [symmetric] push_bit_of_1 unat_and_mask_mod)

lemma unat_round_blksize:
  assumes "k < 32" and "unat sz + 2 ^ k \<le> 4294967296"
  shows "unat (xd3_round_blksize sz (push_bit k 1)) = (unat sz + (2 ^ k - 1)) div 2 ^ k * 2 ^ k"
proof -
  let ?m = "sz AND (push_bit k 1 - 1)" and ?b = "2 ^ k :: nat"
  have m: "unat ?m = unat sz mod ?b" using assms(1) by (intro and_pow2_minus_1) simp
  have b: "unat (push_bit k 1 :: u32) = ?b" using assms(1) by (intro unat_pow2) simp
  have b0: "0 < ?b" by simp
  have split: "unat sz = ?b * (unat sz div ?b) + unat sz mod ?b" by (rule mult_div_mod_eq [symmetric])
  show ?thesis
  proof (cases "?m = 0")
    case True
    then have "unat sz mod ?b = 0" using m by simp
    then have "(unat sz + (?b - 1)) div ?b = unat sz div ?b"
      using div_round_up [OF b0, of "unat sz"] by simp
    moreover have "unat sz = unat sz div ?b * ?b"
      using split \<open>unat sz mod ?b = 0\<close> by (simp add: mult.commute)
    ultimately show ?thesis
      using True by (simp add: xd3_round_blksize_def Let_def del: push_bit_of_1)
  next
    case False
    then have r: "0 < unat sz mod ?b" using m by (simp add: word_zero_iff_unat)
    have le: "?m \<le> push_bit k 1"
      using m b mod_less_divisor [of ?b "unat sz"] by (simp add: word_le_nat_alt less_imp_le del: push_bit_of_1)
    have diff: "unat (push_bit k 1 - ?m) = ?b - unat sz mod ?b"
      using unat_sub [OF le] m b by simp
    have q: "(unat sz + (?b - 1)) div ?b = unat sz div ?b + 1"
      using div_round_up [OF b0, of "unat sz"] r by simp
    have "unat sz + (?b - unat sz mod ?b) < 4294967296"
      using assms(2) r mod_less_divisor [OF b0, of "unat sz"] by simp
    with diff have "unat (sz + (push_bit k 1 - ?m)) = unat sz + (?b - unat sz mod ?b)"
      by (simp add: unat_add_u32 del: push_bit_of_1)
    also have "\<dots> = ?b * (unat sz div ?b) + ?b"
      using split mod_less_divisor [OF b0, of "unat sz"] by linarith
    also have "\<dots> = (unat sz div ?b + 1) * ?b" by (simp add: algebra_simps)
    finally show ?thesis using False q by (simp add: xd3_round_blksize_def Let_def del: push_bit_of_1)
  qed
qed

lemma scast_pow2_minus_1: "k < 31 \<Longrightarrow> (scast (push_bit k 1 - 1 :: u32) :: u64) = push_bit k 1 - 1"
  unfolding push_bit_of_1 mask_eq_exp_minus_1 [symmetric]
  by (rule bit_word_eqI) (auto simp: bit_simps)

lemma blksize_div_exact:
  assumes "k < 31"
  shows "unat (fst (xd3_blksize_div offset k (push_bit k 1 - 1))) = unat offset div 2 ^ k"
    and "unat (snd (xd3_blksize_div offset k (push_bit k 1 - 1))) = unat offset mod 2 ^ k"
proof -
  show "unat (fst (xd3_blksize_div offset k (push_bit k 1 - 1))) = unat offset div 2 ^ k"
    by (simp add: xd3_blksize_div_def unat_drop_bit_div)
  have "unat (offset AND (push_bit k 1 - 1)) = unat offset mod 2 ^ k"
    using assms by (intro and_pow2_minus_1) simp
  moreover have "unat offset mod 2 ^ k < 2 ^ 32"
  proof -
    have "unat offset mod 2 ^ k < 2 ^ k" by simp
    also have "(2::nat) ^ k \<le> 2 ^ 32" using assms by (intro power_increasing) simp_all
    finally show ?thesis .
  qed
  ultimately show "unat (snd (xd3_blksize_div offset k (push_bit k 1 - 1))) = unat offset mod 2 ^ k"
    using assms
    by (simp add: xd3_blksize_div_def scast_pow2_minus_1 unsigned_ucast_eq take_bit_nat_eq_self del: push_bit_of_1)
qed

lemma blksize_add_lands:
  assumes "k < 31" and "xd3_blksize_div offset k (push_bit k 1 - 1) = (blk, off)"
    and "unat off + unat add < 2 ^ 32" and "unat offset + unat add < 2 ^ 64"
    and "xd3_blksize_add blk off k (push_bit k 1 - 1) add = (blk', off')"
  shows "unat off' < 2 ^ k \<and> unat blk' * 2 ^ k + unat off' = unat offset + unat add"
proof -
  let ?b = "2 ^ k :: nat" and ?m = "push_bit k 1 - 1 :: u32"
  have blk: "unat blk = unat offset div ?b" and off: "unat off = unat offset mod ?b"
    using assms(2) blksize_div_exact [OF assms(1), of offset] by simp_all
  have t: "unat (off + add) = unat off + unat add"
    using assms(3) by (simp add: unat_add_u32)
  have sum: "unat blk * ?b + unat (off + add) = unat offset + unat add"
    using blk off t by (simp add: div_mult_mod_eq)
  have d: "unat (drop_bit k (off + add)) = unat (off + add) div ?b"
    by (rule unat_drop_bit_div)
  show ?thesis
  proof (cases "drop_bit k (off + add) = 0")
    case True
    with d have "unat (off + add) < ?b" by (simp add: div_eq_0_iff)
    with True assms(5) sum show ?thesis by (auto simp: xd3_blksize_add_def Let_def)
  next
    case False
    then have b': "blk' = blk + ucast (drop_bit k (off + add))" and o': "off' = (off + add) AND ?m"
      using assms(5) by (auto simp: xd3_blksize_add_def Let_def)
    have mod: "unat off' = unat (off + add) mod ?b"
      unfolding o' using assms(1) by (intro and_pow2_minus_1) simp
    have "unat blk + unat (off + add) div ?b \<le> unat blk * ?b + unat (off + add)"
      by (intro add_mono) simp_all
    then have "unat blk + unat (off + add) div ?b < 18446744073709551616"
      using sum assms(4) by simp
    then have "unat blk' = unat blk + unat (off + add) div ?b"
      unfolding b' using d by (simp add: unat_add_u64)
    with mod sum show ?thesis by (simp add: algebra_simps)
  qed
qed

section \<open>Properties\<close>

text \<open>\<open>xd3_check_pow2\<close> decides powers of two: it returns 0 exactly on \<open>2 ^ n\<close>, with the logarithm
  in \<open>*logof\<close>, and \<open>XD3_INTERNAL\<close> on every other value, 0 included.\<close>

theorem check_pow2_decides:
  "fst (xd3_check_pow2 v) = (if \<exists>n. unat v = 2 ^ n then XD3_OK else XD3_INTERNAL)
   \<and> (fst (xd3_check_pow2 v) = XD3_OK \<longrightarrow> unat v = 2 ^ unat (snd (xd3_check_pow2 v)))"
proof (cases "\<exists>n < 64. v = push_bit n 1")
  case True
  then obtain n where n: "n < 64" "v = push_bit n 1" by blast
  then have "unat (of_nat n :: u32) = n" by (intro unat_of_nat_small) simp
  with n show ?thesis
    using xd3_check_pow2_pow2 [of n] unat_pow2 [where 'w = 64, of n] by (auto simp del: push_bit_of_1)
next
  case False
  then have "xd3_check_pow2 v = (XD3_INTERNAL, 64)"
    using check_pow2_loop_not_found [of v 0] by (simp add: xd3_check_pow2_def del: push_bit_of_1)
  with False show ?thesis by (simp add: unat_u64_pow2_cases [symmetric] del: push_bit_of_1)
qed

theorem check_pow2_decides_witness:
  "fst (xd3_check_pow2 8) = XD3_OK \<and> unat (8 :: u64) = 2 ^ unat (snd (xd3_check_pow2 8))"
proof -
  have "\<exists>n. unat (8 :: u64) = 2 ^ n" by (rule exI [of _ 3]) simp
  then show ?thesis using check_pow2_decides [of 8] by simp
qed

text \<open>C33. The round-up loops end exactly for arguments up to \<open>2 ^ 63\<close>, and then yield the least power
  of two that is not smaller; for a larger argument they never end.\<close>

theorem pow2_roundup_total:
  "xd3_pow2_roundup x = xd3_xoff_roundup x
   \<and> (case xd3_pow2_roundup x of
        Some r \<Rightarrow> unat x \<le> unat r \<and> (\<exists>k. unat r = 2 ^ k \<and> (k = 0 \<or> 2 ^ (k - 1) < unat x))
      | None \<Rightarrow> 2 ^ 63 < unat x)
   \<and> (unat x \<le> 2 ^ 63 \<longrightarrow> xd3_pow2_roundup x \<noteq> None)"
proof (cases "unat x \<le> 2 ^ 63")
  case True
  from roundup_loop_props [OF this, of 0] obtain j where
    "j \<le> 63" "roundup_loop x 1 = Some (push_bit j 1)" "unat x \<le> 2 ^ j" "j = 0 \<or> 2 ^ (j - 1) < unat x"
    by (auto simp del: push_bit_of_1)
  moreover have "unat (push_bit j 1 :: u64) = 2 ^ j" using \<open>j \<le> 63\<close> by (intro unat_pow2) simp
  ultimately show ?thesis
    by (auto simp: xd3_pow2_roundup_def xd3_xoff_roundup_def simp del: push_bit_of_1)
next
  case False
  have "roundup_loop x (push_bit k 1) = None" if "k \<le> 64" for k
    using that
  proof (induction "64 - k" arbitrary: k)
    case 0
    then have "k = 64" by simp
    then have z: "(push_bit k 1 :: u64) = 0" by simp
    have "x > 0" using False by (simp add: word_less_nat_alt)
    then show ?case unfolding z by (subst roundup_loop.simps) simp
  next
    case (Suc d k)
    then have k: "k < 64" "d = 64 - Suc k" "Suc k \<le> 64" by simp_all
    have "(2::nat) ^ k \<le> 2 ^ 63" using k by (intro power_increasing) auto
    then have "x > push_bit k 1" "(push_bit k 1 :: u64) \<noteq> 0"
      using False unat_pow2 [where 'w = 64, of k] pow2_nonzero [where 'w = 64, of k] k
      by (simp_all add: word_less_nat_alt del: push_bit_of_1)
    with Suc(1) [OF k(2,3)] show ?case
      by (subst roundup_loop.simps) (simp add: push_bit_1_pow2 del: push_bit_of_1)
  qed
  from this [of 0] False show ?thesis
    by (simp add: xd3_pow2_roundup_def xd3_xoff_roundup_def)
qed

theorem pow2_roundup_total_witness: "xd3_pow2_roundup 3 \<noteq> None"
  by (rule pow2_roundup_total [of 3, THEN conjunct2, THEN conjunct2, THEN mp]) simp

text \<open>C29. Dividing a file offset by a power-of-two block size, below 2^31, and adding a distance inside the copy
  window lands on the block and the in-block offset of the sum: the shift-and-mask arithmetic of
  \<open>xd3_blksize_div\<close> and \<open>xd3_blksize_add\<close> is exact as long as neither the 32-bit block offset plus the
  distance nor the 64-bit file offset plus the distance wraps.\<close>

theorem blksize_add_exact:
  assumes "k < 31" and "xd3_blksize_div offset k (push_bit k 1 - 1) = (blk, off)"
    and "unat off + unat add < 2 ^ 32" and "unat offset + unat add < 2 ^ 64"
    and "xd3_blksize_add blk off k (push_bit k 1 - 1) add = (blk', off')"
  shows "unat off' < 2 ^ k \<and> unat blk' * 2 ^ k + unat off' = unat offset + unat add"
  using assms by (rule blksize_add_lands)

theorem blksize_add_exact_witness:
  "unat (snd (xd3_blksize_add 4 3 3 7 6)) < 2 ^ 3
   \<and> unat (fst (xd3_blksize_add 4 3 3 7 6)) * 2 ^ 3 + unat (snd (xd3_blksize_add 4 3 3 7 6)) = unat (35 :: u64) + unat (6 :: u32)"
  by (rule blksize_add_exact [of 3 35 4 3 6])
    (simp_all add: xd3_blksize_div_def xd3_blksize_add_def drop_bit_eq_div)

end
