(* ===== verification/Xd3_Adler.thy ===== *)
theory Xd3_Adler
  imports Xd3_Prelude
begin

text \<open>
  The Adler-32 checksum of xdelta3.c.  The C code sums in an \<open>unsigned long\<close>, whose width
  depends on the platform; the model is over any word of at least 32 bits.  Reads past the
  buffer are excluded by the hypothesis \<open>len \<le> length buf\<close> of the results.
\<close>

section \<open>Definitions\<close>

definition A32_BASE :: "'w::len word" where "A32_BASE = 65521"
definition A32_NMAX :: nat where "A32_NMAX = 5552"

text \<open>The unrolled step macros on the pair \<open>(s1, s2)\<close>.\<close>

definition A32_DO1 :: "u8 list \<Rightarrow> nat \<Rightarrow> 'w::len word \<times> 'w word \<Rightarrow> 'w word \<times> 'w word" where
  "A32_DO1 buf i st = (let s1 = fst st + ucast (buf ! i) in (s1, snd st + s1))"

definition A32_DO2 :: "u8 list \<Rightarrow> nat \<Rightarrow> 'w::len word \<times> 'w word \<Rightarrow> 'w word \<times> 'w word" where
  "A32_DO2 buf i st = A32_DO1 buf (i + 1) (A32_DO1 buf i st)"

definition A32_DO4 :: "u8 list \<Rightarrow> nat \<Rightarrow> 'w::len word \<times> 'w word \<Rightarrow> 'w word \<times> 'w word" where
  "A32_DO4 buf i st = A32_DO2 buf (i + 2) (A32_DO2 buf i st)"

definition A32_DO8 :: "u8 list \<Rightarrow> nat \<Rightarrow> 'w::len word \<times> 'w word \<Rightarrow> 'w word \<times> 'w word" where
  "A32_DO8 buf i st = A32_DO4 buf (i + 4) (A32_DO4 buf i st)"

definition A32_DO16 :: "u8 list \<Rightarrow> 'w::len word \<times> 'w word \<Rightarrow> 'w word \<times> 'w word" where
  "A32_DO16 buf st = A32_DO8 buf 8 (A32_DO8 buf 0 st)"

text \<open>\<open>do { s1 += *buf++; s2 += s1; } while (--k);\<close>\<close>

fun adler32_tail :: "nat \<Rightarrow> u8 list \<Rightarrow> 'w::len word \<times> 'w word \<Rightarrow> ('w word \<times> 'w word) \<times> u8 list" where
  "adler32_tail 0 buf st = (st, buf)"
| "adler32_tail (Suc k) buf st = adler32_tail k (drop 1 buf) (A32_DO1 buf 0 st)"

text \<open>The loop over sixteen bytes at a time and the rest.\<close>

fun adler32_inner :: "nat \<Rightarrow> u8 list \<Rightarrow> 'w::len word \<times> 'w word \<Rightarrow> ('w word \<times> 'w word) \<times> u8 list" where
  "adler32_inner k buf st =
    (if 16 \<le> k then adler32_inner (k - 16) (drop 16 buf) (A32_DO16 buf st)
     else adler32_tail k buf st)"

declare adler32_inner.simps [simp del]

function adler32_loop :: "nat \<Rightarrow> u8 list \<Rightarrow> 'w::len word \<times> 'w word \<Rightarrow> 'w word \<times> 'w word" where
  "adler32_loop len buf st =
    (if len > 0 then
       let k = (if len < A32_NMAX then len else A32_NMAX);
           ((s1, s2), buf') = adler32_inner k buf st
       in adler32_loop (len - k) buf' (s1 mod A32_BASE, s2 mod A32_BASE)
     else st)"
  by pat_completeness auto
termination
  by (relation "measure (\<lambda>(len, buf, st). len)") (auto simp: A32_NMAX_def)

declare adler32_loop.simps [simp del]

definition adler32 :: "'w::len word \<Rightarrow> u8 list \<Rightarrow> u32 \<Rightarrow> 'w word" where
  "adler32 adler buf len =
    (let (s1, s2) = adler32_loop (unat len) buf (adler AND 0xffff, drop_bit 16 adler AND 0xffff)
     in push_bit 16 s2 OR s1)"

section \<open>Reference definition\<close>

text \<open>RFC 1950: two sums modulo 65521, over unbounded naturals, one byte at a time.\<close>

fun adler_ref :: "nat \<times> nat \<Rightarrow> u8 list \<Rightarrow> nat \<times> nat" where
  "adler_ref (a, b) [] = (a mod 65521, b mod 65521)"
| "adler_ref (a, b) (x # xs) =
     (let a' = (a + unat x) mod 65521 in adler_ref (a', (b + a') mod 65521) xs)"

text \<open>The same sums without reduction.\<close>

fun adler_sum :: "nat \<times> nat \<Rightarrow> u8 list \<Rightarrow> nat \<times> nat" where
  "adler_sum (a, b) [] = (a, b)"
| "adler_sum (a, b) (x # xs) = adler_sum (a + unat x, b + (a + unat x)) xs"

section \<open>Lemmas\<close>

lemma adler_ref_cong:
  "a mod 65521 = a' mod 65521 \<Longrightarrow> b mod 65521 = b' mod 65521 \<Longrightarrow>
   adler_ref (a, b) xs = adler_ref (a', b') xs"
proof (induction xs arbitrary: a b a' b')
  case (Cons x xs)
  have 1: "(a + unat x) mod 65521 = (a' + unat x) mod 65521"
    using Cons.prems(1) by (metis mod_add_cong)
  have 2: "(b + (a' + unat x) mod 65521) mod 65521 = (b' + (a' + unat x) mod 65521) mod 65521"
    using Cons.prems(2) by (metis mod_add_cong)
  show ?case by (simp only: adler_ref.simps Let_def 1 2)
qed simp

lemma adler_ref_sum: "adler_ref (adler_sum (a, b) xs) ys = adler_ref (a, b) (xs @ ys)"
proof (induction xs arbitrary: a b)
  case (Cons x xs)
  have "adler_ref (a, b) ((x # xs) @ ys) = adler_ref (a + unat x, b + (a + unat x)) (xs @ ys)"
    by (simp add: Let_def) (rule adler_ref_cong; simp add: mod_simps)
  with Cons.IH show ?case by simp
qed simp

text \<open>Growth of the sums over \<open>n\<close> bytes; \<open>NMAX\<close> is the largest \<open>n\<close> for which this fits 32 bits.\<close>

lemma adler_sum_bound:
  "adler_sum (a, b) xs = (a', b') \<Longrightarrow>
   a' \<le> a + 255 * length xs \<and> 2 * b' \<le> 2 * b + 2 * (length xs * a) + 255 * (length xs * (length xs + 1))"
proof (induction xs arbitrary: a b)
  case (Cons x xs)
  from Cons.IH [of "a + unat x" "b + (a + unat x)"] Cons.prems
  have ih: "a' \<le> a + unat x + 255 * length xs"
      "2 * b' \<le> 2 * (b + (a + unat x)) + 2 * (length xs * (a + unat x)) + 255 * (length xs * (length xs + 1))"
    by simp_all
  have x: "unat x \<le> 255" using unat_u8_less [of x] by simp
  then have h: "length xs * unat x \<le> length xs * 255" by (rule mult_left_mono) simp
  have "2 * (b + (a + unat x)) + 2 * (length xs * (a + unat x)) + 255 * (length xs * (length xs + 1))
      \<le> 2 * b + 2 * (length (x # xs) * a) + 255 * (length (x # xs) * (length (x # xs) + 1))"
    using x h by (simp only: length_Cons mult_Suc mult_Suc_right add_mult_distrib add_mult_distrib2 add_Suc)
  with x ih show ?case by simp
qed simp

text \<open>The word sums over a whole run of bytes.\<close>

definition word_sum :: "'w::len word \<times> 'w word \<Rightarrow> u8 list \<Rightarrow> 'w word \<times> 'w word" where
  "word_sum st xs = foldl (\<lambda>st x. let s1 = fst st + ucast x in (s1, snd st + s1)) st xs"

lemma word_sum_append: "word_sum st (xs @ ys) = word_sum (word_sum st xs) ys"
  by (simp add: word_sum_def)

lemma word_sum_take_add:
  "word_sum (word_sum st (take m xs)) (take n (drop m xs)) = word_sum st (take (m + n) xs)"
  by (simp add: take_add word_sum_append)

lemma A32_DO1_sum: "i < length buf \<Longrightarrow> A32_DO1 buf i st = word_sum st (take (Suc 0) (drop i buf))"
  by (simp add: A32_DO1_def word_sum_def take_Suc_conv_app_nth Let_def)

lemma A32_DO16_sum:
  assumes "16 \<le> length buf"
  shows "A32_DO16 buf st = word_sum st (take 16 buf)"
proof -
  have d2: "A32_DO2 buf i st = word_sum st (take 2 (drop i buf))" if "i + 2 \<le> length buf" for i st
    using that word_sum_take_add [of st 1 "drop i buf" 1]
    by (simp add: A32_DO2_def A32_DO1_sum add.commute numeral_2_eq_2)
  have d4: "A32_DO4 buf i st = word_sum st (take 4 (drop i buf))" if "i + 4 \<le> length buf" for i st
    using that word_sum_take_add [of st 2 "drop i buf" 2]
    by (simp add: A32_DO4_def d2 add.commute)
  have d8: "A32_DO8 buf i st = word_sum st (take 8 (drop i buf))" if "i + 8 \<le> length buf" for i st
    using that word_sum_take_add [of st 4 "drop i buf" 4]
    by (simp add: A32_DO8_def d4 add.commute)
  show ?thesis
    using assms word_sum_take_add [of st 8 buf 8] by (simp add: A32_DO16_def d8)
qed

lemma adler32_tail_sum:
  "k \<le> length buf \<Longrightarrow> adler32_tail k buf st = (word_sum st (take k buf), drop k buf)"
proof (induction k buf st rule: adler32_tail.induct)
  case (2 k buf st)
  then have "0 < length buf" by (cases buf) simp_all
  from A32_DO1_sum [OF this, of st] 2 show ?case
    using word_sum_take_add [of st 1 buf k] by simp
qed (simp add: word_sum_def)

lemma adler32_inner_sum:
  "k \<le> length buf \<Longrightarrow> adler32_inner k buf st = (word_sum st (take k buf), drop k buf)"
proof (induction k buf st rule: adler32_inner.induct)
  case (1 k buf st)
  show ?case
  proof (cases "16 \<le> k")
    case True
    with 1 have "adler32_inner k buf st = adler32_inner (k - 16) (drop 16 buf) (word_sum st (take 16 buf))"
      by (simp add: adler32_inner.simps [of k] A32_DO16_sum)
    also have "\<dots> = (word_sum st (take k buf), drop k buf)"
      using 1 True word_sum_take_add [of st 16 buf "k - 16"] by (simp add: A32_DO16_sum)
    finally show ?thesis .
  next
    case False
    with 1 show ?thesis by (simp add: adler32_inner.simps [of k] adler32_tail_sum)
  qed
qed

lemma word_sum_of_nat:
  "word_sum (of_nat a, of_nat b) xs =
   (of_nat (fst (adler_sum (a, b) xs)), of_nat (snd (adler_sum (a, b) xs)) :: 'w::len word)"
proof (induction xs arbitrary: a b)
  case (Cons x xs)
  have "ucast x = (of_nat (unat x) :: 'w word)" by simp
  then have "word_sum (of_nat a, of_nat b) (x # xs) =
      word_sum (of_nat (a + unat x), of_nat (b + (a + unat x)) :: 'w word) xs"
    by (simp add: word_sum_def Let_def del: of_nat_unat)
  with Cons.IH show ?case by (simp del: of_nat_add)
qed (simp add: word_sum_def)

text \<open>One outer round: at most \<open>NMAX\<close> bytes from sums below \<open>2 ^ 16\<close> never overflow 32 bits.\<close>

lemma adler_round:
  assumes "32 \<le> LENGTH('w::len)" and "a < 65536" and "b < 65536" and "length xs \<le> 5552"
    and "adler_sum (a, b) xs = (a', b')"
  shows "(of_nat a' :: 'w word) mod A32_BASE = of_nat (a' mod 65521)
         \<and> (of_nat b' :: 'w word) mod A32_BASE = of_nat (b' mod 65521)"
proof -
  let ?n = "length xs"
  note bd = adler_sum_bound [OF assms(5)]
  have "?n * a \<le> 5552 * 65535" using assms(2,4) by (intro mult_mono) simp_all
  moreover have "?n * (?n + 1) \<le> 5552 * 5553" using assms(4) by (intro mult_mono) simp_all
  ultimately have "a' < 2 ^ 32" "b' < 2 ^ 32" using bd assms(2-4) by simp_all
  moreover have "(2::nat) ^ 32 \<le> 2 ^ LENGTH('w)" using assms(1) by (intro power_increasing) simp_all
  ultimately have fit: "a' < 2 ^ LENGTH('w)" "b' < 2 ^ LENGTH('w)" by simp_all
  have m: "(of_nat c :: 'w word) mod A32_BASE = of_nat (c mod 65521)" if "c < 2 ^ LENGTH('w)" for c
  proof -
    have "c mod 65521 < 2 ^ LENGTH('w)" using that by (meson le_less_trans mod_less_eq_dividend)
    moreover have "unat (A32_BASE :: 'w word) = 65521"
      using unat_of_nat_small [of 65521, where 'a = 'w] \<open>2 ^ 32 \<le> 2 ^ LENGTH('w)\<close>
      by (simp add: A32_BASE_def)
    ultimately show ?thesis
      using that by (simp add: word_unat_eq_iff unat_mod_distrib unat_of_nat_small)
  qed
  show ?thesis using fit by (simp add: m)
qed

lemma adler_ref_less: "adler_ref (a, b) xs = (x, y) \<Longrightarrow> x < 65521 \<and> y < 65521"
  by (induction xs arbitrary: a b) (auto simp: Let_def)

lemma adler32_loop_ref:
  assumes "32 \<le> LENGTH('w::len)" and "len \<le> length buf" and "a < 65521" and "b < 65521"
  shows "adler32_loop len buf (of_nat a, of_nat b :: 'w word) =
         (of_nat (fst (adler_ref (a, b) (take len buf))), of_nat (snd (adler_ref (a, b) (take len buf))))"
  using assms(2-4)
proof (induction len arbitrary: buf a b rule: less_induct)
  case (less len)
  show ?case
  proof (cases "len = 0")
    case True
    with less.prems show ?thesis by (subst adler32_loop.simps) simp
  next
    case False
    define k where "k = (if len < A32_NMAX then len else A32_NMAX)"
    have k: "0 < k" "k \<le> len" "k \<le> 5552" using False by (auto simp: k_def A32_NMAX_def)
    obtain a' b' where s: "adler_sum (a, b) (take k buf) = (a', b')" by fastforce
    have "adler32_inner k buf (of_nat a, of_nat b :: 'w word) = ((of_nat a', of_nat b'), drop k buf)"
      using less.prems(1) k(2) s by (simp add: adler32_inner_sum word_sum_of_nat)
    then have "adler32_loop len buf (of_nat a, of_nat b :: 'w word) =
        adler32_loop (len - k) (drop k buf) (of_nat a' mod A32_BASE, of_nat b' mod A32_BASE)"
      using False by (subst adler32_loop.simps) (simp add: k_def [symmetric] Let_def)
    also have "\<dots> = adler32_loop (len - k) (drop k buf) (of_nat (a' mod 65521), of_nat (b' mod 65521))"
      using adler_round [OF assms(1) _ _ _ s] less.prems(2,3) k(3) by simp
    also have "\<dots> = (of_nat (fst (adler_ref (a' mod 65521, b' mod 65521) (take (len - k) (drop k buf)))),
        of_nat (snd (adler_ref (a' mod 65521, b' mod 65521) (take (len - k) (drop k buf)))))"
      using k less.prems(1) by (intro less.IH) simp_all
    also have "adler_ref (a' mod 65521, b' mod 65521) (take (len - k) (drop k buf))
        = adler_ref (a', b') (take (len - k) (drop k buf))"
      by (rule adler_ref_cong) simp_all
    also have "\<dots> = adler_ref (a, b) (take k buf @ take (len - k) (drop k buf))"
      using adler_ref_sum [of a b "take k buf"] s by simp
    also have "take k buf @ take (len - k) (drop k buf) = take len buf"
      using k(2) take_add [of k "len - k" buf] by simp
    finally show ?thesis .
  qed
qed

lemma adler32_value:
  assumes "32 \<le> LENGTH('w::len)" and "unat len \<le> length buf"
    and "adler_ref (1, 0) (take (unat len) buf) = (s1, s2)"
  shows "unat (adler32 (1 :: 'w word) buf len) = s2 * 65536 + s1"
proof -
  have less: "s1 < 65521" "s2 < 65521" using adler_ref_less [OF assms(3)] by simp_all
  have loop: "adler32_loop (unat len) buf (1, 0 :: 'w word) = (of_nat s1, of_nat s2)"
    using adler32_loop_ref [OF assms(1,2), of 1 0] assms(3) by simp
  have "(1 :: 'w word) AND 0xffff = 1" "drop_bit 16 (1 :: 'w word) AND 0xffff = 0"
    by simp_all
  then have "adler32 (1 :: 'w word) buf len = push_bit 16 (of_nat s2) OR of_nat s1"
    using loop by (simp add: adler32_def del: push_bit_numeral)
  also have "\<dots> = push_bit 16 (of_nat s2) + (of_nat s1 :: 'w word)"
  proof (rule disjunctive_add [symmetric])
    fix n
    have "\<not> bit (of_nat s1 :: 'w word) n" if "16 \<le> n"
    proof
      assume "bit (of_nat s1 :: 'w word) n"
      then have "bit s1 n" by (simp add: bit_simps)
      then have "odd (s1 div 2 ^ n)" by (simp add: bit_iff_odd)
      moreover have "s1 < 2 ^ n" using less(1) power_increasing [OF that, of "2::nat"] by simp
      ultimately show False by simp
    qed
    then show "\<not> bit (push_bit 16 (of_nat s2) :: 'w word) n \<or> \<not> bit (of_nat s1 :: 'w word) n"
      by (auto simp: bit_push_bit_iff simp del: push_bit_numeral)
  qed
  also have "\<dots> = of_nat (s2 * 65536 + s1)" by (simp add: push_bit_eq_mult)
  finally have res: "adler32 (1 :: 'w word) buf len = of_nat (s2 * 65536 + s1)" .
  have "(2::nat) ^ 32 \<le> 2 ^ LENGTH('w)" using assms(1) by (intro power_increasing) simp_all
  then have "s2 * 65536 + s1 < 2 ^ LENGTH('w)" using less by simp
  then show ?thesis unfolding res by (rule unat_of_nat_small)
qed

section \<open>Properties\<close>

text \<open>C21. \<open>adler32\<close>, with its sixteen-fold unrolling and its reduction only every 5552 bytes, computes
  the checksum RFC 1950 defines: on any platform whose \<open>unsigned long\<close> has at least 32 bits no
  partial sum wraps, and the two halves of the result are the sums modulo 65521.\<close>

theorem adler32_correct:
  assumes "32 \<le> LENGTH('w::len)" and "unat len \<le> length buf"
    and "adler_ref (1, 0) (take (unat len) buf) = (s1, s2)"
  shows "unat (adler32 (1 :: 'w word) buf len) = s2 * 65536 + s1"
  using assms by (rule adler32_value)

theorem adler32_correct_witness:
  "unat (adler32 (1 :: 64 word) [97, 98, 99] 3) = 0x024d0127"
  by (subst adler32_correct [of 3 "[97, 98, 99]" 295 589]) simp_all

end
