(* ===== verification/Xd3_Codetable.thy ===== *)
theory Xd3_Codetable
  imports Xd3_Prelude
begin

text \<open>
  The VCDIFF instruction code tables (xdelta3.c, "Instruction tables" and "Instruction table
  encoder/decoder"): the parametrised description of a table, the construction of its 256
  entries, the choice of an opcode for an instruction and its predecessor, in the version
  hard-coded for the default table and in the generic one, and the 1536-byte string form in which
  a table travels inside a VCDIFF file.
\<close>

section \<open>Data\<close>

definition XD3_NOOP :: u8 where "XD3_NOOP = 0"
definition XD3_ADD :: u8 where "XD3_ADD = 1"
definition XD3_RUN :: u8 where "XD3_RUN = 2"
definition XD3_CPY :: u8 where "XD3_CPY = 3"

definition MIN_MATCH :: nat where "MIN_MATCH = 4"
definition MIN_ADD :: nat where "MIN_ADD = 1"
definition MAX_MODES :: nat where "MAX_MODES = 9"

lemmas inst_consts = XD3_NOOP_def XD3_ADD_def XD3_RUN_def XD3_CPY_def MIN_MATCH_def MIN_ADD_def

text \<open>The code-table form of a single or double instruction.\<close>

record xd3_dinst =
  type1 :: u8
  size1 :: u8
  type2 :: u8
  size2 :: u8

text \<open>The raw encoding of an instruction in the instruction-optimising buffer, but for its list
  link.\<close>

record xd3_rinst =
  r_type :: u8
  r_xtra :: u8
  r_code1 :: u8
  r_code2 :: u8
  r_pos :: u32
  r_size :: u32
  r_addr :: u64

record xd3_code_table_sizes =
  cpy_max :: u8
  code_offset :: u8
  code_mult :: u8

record xd3_code_table_desc =
  add_sizes :: u8
  near_modes :: u8
  same_modes :: u8
  cpy_sizes :: u8
  addcopy_add_max :: u8
  addcopy_near_cpy_max :: u8
  addcopy_same_cpy_max :: u8
  copyadd_add_max :: u8
  copyadd_near_cpy_max :: u8
  copyadd_same_cpy_max :: u8
  addcopy_max_sizes :: "xd3_code_table_sizes list"
  copyadd_max_sizes :: "xd3_code_table_sizes list"

definition cts :: "u8 \<Rightarrow> u8 \<Rightarrow> u8 \<Rightarrow> xd3_code_table_sizes" where
  "cts m off k = \<lparr>cpy_max = m, code_offset = off, code_mult = k\<rparr>"

definition rfc3284_code_table_desc :: xd3_code_table_desc where
  "rfc3284_code_table_desc = \<lparr>
     add_sizes = 17, near_modes = 4, same_modes = 3, cpy_sizes = 15,
     addcopy_add_max = 4, addcopy_near_cpy_max = 6, addcopy_same_cpy_max = 4,
     copyadd_add_max = 1, copyadd_near_cpy_max = 4, copyadd_same_cpy_max = 4,
     addcopy_max_sizes = [cts 6 163 3, cts 6 175 3, cts 6 187 3, cts 6 199 3, cts 6 211 3,
       cts 6 223 3, cts 4 235 1, cts 4 239 1, cts 4 243 1],
     copyadd_max_sizes = [cts 4 247 1, cts 4 248 1, cts 4 249 1, cts 4 250 1, cts 4 251 1,
       cts 4 252 1, cts 4 253 1, cts 4 254 1, cts 4 255 1]\<rparr>"

definition alternate_code_table_desc :: xd3_code_table_desc where
  "alternate_code_table_desc = \<lparr>
     add_sizes = 23, near_modes = 5, same_modes = 0, cpy_sizes = 17,
     addcopy_add_max = 4, addcopy_near_cpy_max = 6, addcopy_same_cpy_max = 0,
     copyadd_add_max = 3, copyadd_near_cpy_max = 4, copyadd_same_cpy_max = 0,
     addcopy_max_sizes = [cts 6 151 3, cts 6 163 3, cts 6 175 3, cts 6 187 3, cts 6 199 3,
       cts 6 211 3, cts 6 223 3, cts 0 0 0, cts 0 0 0],
     copyadd_max_sizes = [cts 4 235 1, cts 4 238 1, cts 4 241 1, cts 4 244 1, cts 4 247 1,
       cts 4 250 1, cts 4 253 1, cts 0 0 0, cts 0 0 0]\<rparr>"

section \<open>Building a table\<close>

text \<open>The C code walks a pointer \<open>d\<close> over a zeroed array; the model lists the entries in the order
  they are written, with 0 in the fields the code leaves alone.\<close>

definition dinst :: "u8 \<Rightarrow> nat \<Rightarrow> u8 \<Rightarrow> nat \<Rightarrow> xd3_dinst" where
  "dinst t1 s1 t2 s2 = \<lparr>type1 = t1, size1 = of_nat s1, type2 = t2, size2 = of_nat s2\<rparr>"

definition xd3_build_code_table :: "xd3_code_table_desc \<Rightarrow> xd3_dinst list" where
  "xd3_build_code_table desc =
    (let cpy_modes = 2 + unat (near_modes desc) + unat (same_modes desc);
         cpy = (\<lambda>mode. XD3_CPY + of_nat mode);
         upto = (\<lambda>a b. [a ..< Suc b])
     in [dinst XD3_RUN 0 XD3_NOOP 0, dinst XD3_ADD 0 XD3_NOOP 0]
      @ map (\<lambda>size1. dinst XD3_ADD size1 XD3_NOOP 0) (upto 1 (unat (add_sizes desc)))
      @ concat (map (\<lambda>mode.
          dinst (cpy mode) 0 XD3_NOOP 0 #
          map (\<lambda>size1. dinst (cpy mode) size1 XD3_NOOP 0)
            [MIN_MATCH ..< MIN_MATCH + unat (cpy_sizes desc)])
          [0 ..< cpy_modes])
      @ concat (map (\<lambda>mode.
          concat (map (\<lambda>size1.
            map (\<lambda>size2. dinst XD3_ADD size1 (cpy mode) size2)
              (upto MIN_MATCH
                (if mode < 2 + unat (near_modes desc) then unat (addcopy_near_cpy_max desc)
                 else unat (addcopy_same_cpy_max desc))))
            (upto 1 (unat (addcopy_add_max desc)))))
          [0 ..< cpy_modes])
      @ concat (map (\<lambda>mode.
          concat (map (\<lambda>size1.
            map (\<lambda>size2. dinst (cpy mode) size1 XD3_ADD size2)
              (upto 1 (unat (copyadd_add_max desc))))
            (upto MIN_MATCH
              (if mode < 2 + unat (near_modes desc) then unat (copyadd_near_cpy_max desc)
               else unat (copyadd_same_cpy_max desc)))))
          [0 ..< cpy_modes]))"

definition xd3_rfc3284_code_table :: "xd3_dinst list" where
  "xd3_rfc3284_code_table = xd3_build_code_table rfc3284_code_table_desc"

definition xd3_alternate_code_table :: "xd3_dinst list" where
  "xd3_alternate_code_table = xd3_build_code_table alternate_code_table_desc"

section \<open>Choosing an opcode\<close>

text \<open>\<open>prev\<close> is \<open>NULL\<close> or the instruction waiting to be emitted.  Both instructions come back with
  their code fields set; the assignments truncate to eight bits.  This is the version hard-coded
  for the default table, the one that is compiled.\<close>

definition xd3_choose_instruction ::
    "xd3_rinst option \<Rightarrow> xd3_rinst \<Rightarrow> xd3_rinst option \<times> xd3_rinst" where
  "xd3_choose_instruction prev inst =
    (if r_type inst = XD3_RUN then (prev, inst\<lparr>r_code1 := 0\<rparr>)
     else if r_type inst = XD3_ADD then
       (if r_size inst \<le> 17 then
          ((case prev of
              None \<Rightarrow> None
            | Some p \<Rightarrow>
                Some (if r_size inst = 1 \<and> r_size p = 4 \<and> r_type p \<ge> XD3_CPY
                      then p\<lparr>r_code2 := 247 + (r_type p - XD3_CPY)\<rparr> else p)),
           inst\<lparr>r_code1 := 1 + ucast (r_size inst)\<rparr>)
        else (prev, inst\<lparr>r_code1 := 1\<rparr>))
     else
       (let mode = r_type inst - XD3_CPY in
        if r_size inst \<le> 18 \<and> r_size inst \<ge> 4 then
          ((case prev of
              None \<Rightarrow> None
            | Some p \<Rightarrow>
                Some (if r_type p = XD3_ADD \<and> r_size p \<le> 4 then
                        (if r_size inst \<le> 6 \<and> mode \<le> 5 then
                           p\<lparr>r_code2 := 163 + mode * 12 + 3 * (ucast (r_size p) - 1)
                                 + (ucast (r_size inst) - 4)\<rparr>
                         else if r_size inst = 4 \<and> mode \<ge> 6 then
                           p\<lparr>r_code2 := 235 + (mode - 6) * 4 + (ucast (r_size p) - 1)\<rparr>
                         else p)
                      else p)),
           inst\<lparr>r_code1 := 19 + 16 * mode + (ucast (r_size inst) - 3)\<rparr>)
        else (prev, inst\<lparr>r_code1 := 19 + 16 * mode\<rparr>)))"

text \<open>The version for \<open>GENERIC_ENCODE_TABLES\<close>, driven by a table description.  The C compares
  \<open>prev_mode >= 0\<close> as an \<open>int\<close>.\<close>

definition xd3_choose_instruction_generic ::
    "xd3_code_table_desc \<Rightarrow> xd3_rinst option \<Rightarrow> xd3_rinst \<Rightarrow> xd3_rinst option \<times> xd3_rinst" where
  "xd3_choose_instruction_generic desc prev inst =
    (if r_type inst = XD3_RUN then (prev, inst\<lparr>r_code1 := 0\<rparr>)
     else if r_type inst = XD3_ADD then
       (if r_size inst > ucast (add_sizes desc) then (prev, inst\<lparr>r_code1 := 1\<rparr>)
        else
          ((case prev of
              None \<Rightarrow> None
            | Some p \<Rightarrow>
                Some (if r_type p \<ge> XD3_CPY \<and> r_size inst \<le> ucast (copyadd_add_max desc) then
                        (let sizes = copyadd_max_sizes desc ! unat (r_type p - XD3_CPY) in
                         if r_size p \<le> ucast (cpy_max sizes) then
                           p\<lparr>r_code2 := code_offset sizes
                               + code_mult sizes * (ucast (r_size p) - of_nat MIN_MATCH)
                               + (ucast (r_size inst) - of_nat MIN_ADD)\<rparr>
                         else p)
                      else p)),
           inst\<lparr>r_code1 := 1 + ucast (r_size inst)\<rparr>))
     else
       (let mode = r_type inst - XD3_CPY;
            code1 = 2 + add_sizes desc + (1 + cpy_sizes desc) * mode in
        if r_size inst < of_nat MIN_MATCH + ucast (cpy_sizes desc) \<and> r_size inst \<ge> of_nat MIN_MATCH then
          ((case prev of
              None \<Rightarrow> None
            | Some p \<Rightarrow>
                Some (if r_type p = XD3_ADD \<and> r_size p \<le> ucast (addcopy_add_max desc) then
                        (let sizes = addcopy_max_sizes desc ! unat mode in
                         if r_size inst \<le> ucast (cpy_max sizes) then
                           p\<lparr>r_code2 := code_offset sizes
                               + code_mult sizes * (ucast (r_size p) - of_nat MIN_ADD)
                               + (ucast (r_size inst) - of_nat MIN_MATCH)\<rparr>
                         else p)
                      else p)),
           inst\<lparr>r_code1 := code1 + (ucast (r_size inst) + 1 - of_nat MIN_MATCH)\<rparr>)
        else (prev, inst\<lparr>r_code1 := code1\<rparr>)))"

section \<open>The string form of a table\<close>

definition CODE_TABLE_STRING_SIZE :: nat where "CODE_TABLE_STRING_SIZE = 6 * 256"

definition code_table_string_byte :: "nat \<Rightarrow> xd3_dinst \<Rightarrow> u8" where
  "code_table_string_byte s d =
    (if s = 0 then (if type1 d \<ge> XD3_CPY then XD3_CPY else type1 d)
     else if s = 1 then (if type2 d \<ge> XD3_CPY then XD3_CPY else type2 d)
     else if s = 2 then size1 d
     else if s = 3 then size2 d
     else if s = 4 then (if type1 d \<ge> XD3_CPY then type1 d - XD3_CPY else 0)
     else (if type2 d \<ge> XD3_CPY then type2 d - XD3_CPY else 0))"

definition xd3_compute_code_table_string :: "xd3_dinst list \<Rightarrow> u8 list" where
  "xd3_compute_code_table_string code_table =
     concat (map (\<lambda>s. map (code_table_string_byte s) (take 256 code_table)) [0 ..< 6])"

text \<open>One step of \<open>xd3_apply_table_string\<close>: section \<open>s\<close> gives entry \<open>d\<close> the byte \<open>c\<close>, or the message
  with which the function fails.\<close>

definition apply_table_byte :: "u32 \<Rightarrow> nat \<Rightarrow> u8 \<Rightarrow> xd3_dinst \<Rightarrow> string + xd3_dinst" where
  "apply_table_byte modes s c d =
    (if s = 0 then
       (if c > XD3_CPY then Inl ''invalid code-table opcode'' else Inr (d\<lparr>type1 := c\<rparr>))
     else if s = 1 then
       (if c > XD3_CPY then Inl ''invalid code-table opcode'' else Inr (d\<lparr>type2 := c\<rparr>))
     else if s = 2 then
       (if c \<noteq> 0 \<and> type1 d = XD3_NOOP then Inl ''invalid code-table size'' else Inr (d\<lparr>size1 := c\<rparr>))
     else if s = 3 then
       (if c \<noteq> 0 \<and> type2 d = XD3_NOOP then Inl ''invalid code-table size'' else Inr (d\<lparr>size2 := c\<rparr>))
     else if s = 4 then
       (if ucast c \<ge> modes then Inl ''invalid code-table mode''
        else if c \<noteq> 0 \<and> type1 d \<noteq> XD3_CPY then Inl ''invalid code-table mode''
        else Inr (d\<lparr>type1 := type1 d + c\<rparr>))
     else
       (if ucast c \<ge> modes then Inl ''invalid code-table mode''
        else if c \<noteq> 0 \<and> type2 d \<noteq> XD3_CPY then Inl ''invalid code-table mode''
        else Inr (d\<lparr>type2 := type2 d + c\<rparr>)))"

text \<open>The inner loop over the entries, reading \<open>*code_string++\<close> at each; a string that ends early
  is a read past the buffer, which the caller's size check excludes.\<close>

fun apply_table_row :: "u32 \<Rightarrow> nat \<Rightarrow> u8 list \<Rightarrow> xd3_dinst list \<Rightarrow> string + (xd3_dinst list \<times> u8 list)" where
  "apply_table_row modes s str [] = Inr ([], str)"
| "apply_table_row modes s [] (d # ds) = Inl ''out of bounds''"
| "apply_table_row modes s (c # str) (d # ds) =
    (case apply_table_byte modes s c d of
       Inl e \<Rightarrow> Inl e
     | Inr d' \<Rightarrow>
        (case apply_table_row modes s str ds of
           Inl e \<Rightarrow> Inl e
         | Inr (ds', str') \<Rightarrow> Inr (d' # ds', str')))"

fun apply_table_rows :: "u32 \<Rightarrow> nat list \<Rightarrow> u8 list \<Rightarrow> xd3_dinst list \<Rightarrow> string + xd3_dinst list" where
  "apply_table_rows modes [] str tbl = Inr tbl"
| "apply_table_rows modes (s # ss) str tbl =
    (case apply_table_row modes s str tbl of
       Inl e \<Rightarrow> Inl e
     | Inr (tbl', str') \<Rightarrow> apply_table_rows modes ss str' tbl')"

text \<open>\<open>modes\<close> is \<open>TOTAL_MODES (stream)\<close>; \<open>fresh\<close> is the content of the freshly allocated table, which
  every row overwrites.\<close>

definition xd3_apply_table_string :: "u32 \<Rightarrow> xd3_dinst list \<Rightarrow> u8 list \<Rightarrow> string + xd3_dinst list" where
  "xd3_apply_table_string modes fresh code_string = apply_table_rows modes [0 ..< 6] code_string fresh"

section \<open>The default table, entry by entry\<close>

lemma rfc3284_length: "length xd3_rfc3284_code_table = 256"
  by code_simp

lemma rfc3284_run: "xd3_rfc3284_code_table ! 0 = dinst XD3_RUN 0 XD3_NOOP 0"
  and rfc3284_add0: "xd3_rfc3284_code_table ! 1 = dinst XD3_ADD 0 XD3_NOOP 0"
  by code_simp+

lemma rfc3284_add:
  assumes "s \<in> {1 ..< 18}"
  shows "xd3_rfc3284_code_table ! (1 + s) = dinst XD3_ADD s XD3_NOOP 0"
proof -
  have "list_all (\<lambda>s. xd3_rfc3284_code_table ! (1 + s) = dinst XD3_ADD s XD3_NOOP 0) [1 ..< 18]"
    by code_simp
  from list_all_uptD [OF this] assms show ?thesis by simp
qed

lemma rfc3284_cpy0:
  assumes "m < 9"
  shows "xd3_rfc3284_code_table ! (19 + 16 * m) = dinst (XD3_CPY + of_nat m) 0 XD3_NOOP 0"
proof -
  have "list_all (\<lambda>m. xd3_rfc3284_code_table ! (19 + 16 * m) = dinst (XD3_CPY + of_nat m) 0 XD3_NOOP 0) [0 ..< 9]"
    by code_simp
  from list_all_uptD [OF this] assms show ?thesis by simp
qed

lemma rfc3284_cpy:
  assumes "m < 9" and "s \<in> {4 ..< 19}"
  shows "xd3_rfc3284_code_table ! (19 + 16 * m + (s - 3)) = dinst (XD3_CPY + of_nat m) s XD3_NOOP 0"
proof -
  have "list_all (\<lambda>m. list_all (\<lambda>s. xd3_rfc3284_code_table ! (19 + 16 * m + (s - 3))
          = dinst (XD3_CPY + of_nat m) s XD3_NOOP 0) [4 ..< 19]) [0 ..< 9]"
    by code_simp
  from list_all_uptD [OF list_all_uptD [OF this]] assms show ?thesis by simp
qed

lemma rfc3284_addcpy_near:
  assumes "m < 6" and "a \<in> {1 ..< 5}" and "s \<in> {4 ..< 7}"
  shows "xd3_rfc3284_code_table ! (163 + m * 12 + 3 * (a - 1) + (s - 4)) = dinst XD3_ADD a (XD3_CPY + of_nat m) s"
proof -
  have "list_all (\<lambda>m. list_all (\<lambda>a. list_all (\<lambda>s.
          xd3_rfc3284_code_table ! (163 + m * 12 + 3 * (a - 1) + (s - 4))
          = dinst XD3_ADD a (XD3_CPY + of_nat m) s) [4 ..< 7]) [1 ..< 5]) [0 ..< 6]"
    by code_simp
  from list_all_uptD [OF list_all_uptD [OF list_all_uptD [OF this]]] assms show ?thesis by simp
qed

lemma rfc3284_addcpy_same:
  assumes "m \<in> {6 ..< 9}" and "a \<in> {1 ..< 5}"
  shows "xd3_rfc3284_code_table ! (235 + (m - 6) * 4 + (a - 1)) = dinst XD3_ADD a (XD3_CPY + of_nat m) 4"
proof -
  have "list_all (\<lambda>m. list_all (\<lambda>a. xd3_rfc3284_code_table ! (235 + (m - 6) * 4 + (a - 1))
          = dinst XD3_ADD a (XD3_CPY + of_nat m) 4) [1 ..< 5]) [6 ..< 9]"
    by code_simp
  from list_all_uptD [OF list_all_uptD [OF this]] assms show ?thesis by simp
qed

lemma rfc3284_cpyadd:
  assumes "m < 9"
  shows "xd3_rfc3284_code_table ! (247 + m) = dinst (XD3_CPY + of_nat m) 4 XD3_ADD 1"
proof -
  have "list_all (\<lambda>m. xd3_rfc3284_code_table ! (247 + m) = dinst (XD3_CPY + of_nat m) 4 XD3_ADD 1) [0 ..< 9]"
    by code_simp
  from list_all_uptD [OF this] assms show ?thesis by simp
qed

lemmas rfc3284_entries = rfc3284_run rfc3284_add0 rfc3284_add rfc3284_cpy0 rfc3284_cpy
  rfc3284_addcpy_near rfc3284_addcpy_same rfc3284_cpyadd

section \<open>The chosen opcode\<close>

text \<open>An instruction the default table can express: RUN, ADD or a copy in one of its nine modes.\<close>

definition rfc3284_type :: "u8 \<Rightarrow> bool" where
  "rfc3284_type t \<longleftrightarrow> t = XD3_RUN \<or> t = XD3_ADD \<or> (XD3_CPY \<le> t \<and> t < 12)"

lemma u8_of_nat_code: "n < 256 \<Longrightarrow> unat (of_nat n :: u8) = n"
  by (rule unat_of_nat_small) simp

lemma cpy_mode_cases:
  assumes "rfc3284_type t" and "t \<noteq> XD3_RUN" and "t \<noteq> XD3_ADD"
  obtains m where "m < 9" and "t = XD3_CPY + of_nat m" and "t - XD3_CPY = of_nat m"
proof
  have "XD3_CPY \<le> t" "t < 12" using assms by (auto simp: rfc3284_type_def)
  then have "3 \<le> unat t" "unat t < 12" by (simp_all add: inst_consts word_le_nat_alt word_less_nat_alt)
  moreover from this have "unat (t - XD3_CPY) = unat t - 3"
    by (simp add: inst_consts unat_sub_if')
  ultimately show "unat (t - XD3_CPY) < 9" by simp
  show "t = XD3_CPY + of_nat (unat (t - XD3_CPY))" "t - XD3_CPY = of_nat (unat (t - XD3_CPY))" by simp_all
qed

lemma small_size_cases:
  assumes "a \<le> unat (v :: u32)" and "unat v \<le> b" and "b < 256"
  obtains s where "s \<in> {a ..< Suc b}" and "v = of_nat s" and "(ucast v :: u8) = of_nat s"
proof
  show "unat v \<in> {a ..< Suc b}" using assms by simp
  show "v = of_nat (unat v)" by simp
  show "(ucast v :: u8) = of_nat (unat v)" by simp
qed

text \<open>What a table entry says about a single instruction: its type, and its size or 0 for a size
  that follows in the instruction section.\<close>

definition entry_codes :: "xd3_dinst \<Rightarrow> xd3_rinst \<Rightarrow> bool" where
  "entry_codes d inst \<longleftrightarrow> type1 d = r_type inst \<and> type2 d = XD3_NOOP \<and>
     (size1 d = 0 \<or> ucast (size1 d) = r_size inst)"

lemma ucast_of_nat_u8_u32: "s < 256 \<Longrightarrow> (ucast (of_nat s :: u8) :: u32) = of_nat s"
  by (simp add: word_unat_eq_iff u8_of_nat_code unat_of_nat_small)

lemma choose_code1:
  assumes "rfc3284_type (r_type inst)" and "xd3_choose_instruction prev inst = (prev', inst')"
  shows "entry_codes (xd3_rfc3284_code_table ! unat (r_code1 inst')) inst"
proof -
  consider (run) "r_type inst = XD3_RUN" | (add) "r_type inst = XD3_ADD"
    | (cpy) "r_type inst \<noteq> XD3_RUN" "r_type inst \<noteq> XD3_ADD" by blast
  then show ?thesis
  proof cases
    case run
    with assms(2) show ?thesis
      by (auto simp: xd3_choose_instruction_def entry_codes_def rfc3284_run dinst_def inst_consts)
  next
    case add
    then have t: "r_type inst \<noteq> XD3_RUN" by (simp add: inst_consts)
    show ?thesis
    proof (cases "r_size inst \<le> 17 \<and> r_size inst \<noteq> 0")
      case True
      then obtain s where s: "s \<in> {1 ..< Suc 17}" "r_size inst = of_nat s" "(ucast (r_size inst) :: u8) = of_nat s"
        by (elim conjE small_size_cases [of 1 "r_size inst" 17, rotated 3])
          (auto simp: word_le_nat_alt word_zero_iff_unat Suc_le_eq)
      have "r_code1 inst' = of_nat (1 + s)"
        using assms(2) add t True s(3) by (auto simp: xd3_choose_instruction_def)
      then have "unat (r_code1 inst') = 1 + s" using s(1) by (simp only:) (rule u8_of_nat_code, simp)
      then show ?thesis
        using add s rfc3284_add [of s]
        by (simp add: entry_codes_def dinst_def ucast_of_nat_u8_u32)
    next
      case False
      then have "r_code1 inst' = 1" using assms(2) add t by (auto simp: xd3_choose_instruction_def)
      then show ?thesis using add rfc3284_add0 by (simp add: entry_codes_def dinst_def)
    qed
  next
    case cpy
    then obtain m where m: "m < 9" "r_type inst = XD3_CPY + of_nat m" "r_type inst - XD3_CPY = of_nat m"
      using assms(1) cpy_mode_cases by blast
    show ?thesis
    proof (cases "r_size inst \<le> 18 \<and> r_size inst \<ge> 4")
      case True
      then obtain s where s: "s \<in> {4 ..< Suc 18}" "r_size inst = of_nat s" "(ucast (r_size inst) :: u8) = of_nat s"
        by (elim conjE small_size_cases [of 4 "r_size inst" 18, rotated 3]) (auto simp: word_le_nat_alt)
      have "(of_nat s - 3 :: u8) = of_nat (s - 3)" using s(1) by (simp add: of_nat_diff)
      then have "r_code1 inst' = of_nat (19 + 16 * m + (s - 3))"
        using assms(2) cpy True s(3) m(3) by (auto simp: xd3_choose_instruction_def Let_def)
      then have "unat (r_code1 inst') = 19 + 16 * m + (s - 3)"
        using s(1) m(1) by (simp only:) (rule u8_of_nat_code, simp)
      then show ?thesis
        using s m rfc3284_cpy [of m s]
        by (simp add: entry_codes_def dinst_def ucast_of_nat_u8_u32)
    next
      case False
      then have "r_code1 inst' = of_nat (19 + 16 * m)"
        using assms(2) cpy m(3) by (auto simp: xd3_choose_instruction_def Let_def)
      then have "unat (r_code1 inst') = 19 + 16 * m"
        using m(1) by (simp only:) (rule u8_of_nat_code, simp)
      then show ?thesis using m rfc3284_cpy0 [of m] by (simp add: entry_codes_def dinst_def)
    qed
  qed
qed

text \<open>A double opcode codes both instructions with their sizes.\<close>

definition entry_codes2 :: "xd3_dinst \<Rightarrow> xd3_rinst \<Rightarrow> xd3_rinst \<Rightarrow> bool" where
  "entry_codes2 d p inst \<longleftrightarrow>
     type1 d = r_type p \<and> ucast (size1 d) = r_size p \<and> size1 d \<noteq> 0 \<and>
     type2 d = r_type inst \<and> ucast (size2 d) = r_size inst \<and> size2 d \<noteq> 0"

lemma entry_codes2_dinst:
  assumes "d = dinst t1 a t2 b" and "r_type p = t1" and "r_size p = of_nat a" and "r_type inst = t2"
    and "r_size inst = of_nat b" and "0 < a" "a < 256" "0 < b" "b < 256"
  shows "entry_codes2 d p inst"
proof -
  have "(of_nat a :: u8) \<noteq> 0" "(of_nat b :: u8) \<noteq> 0"
    using assms by (simp_all add: word_zero_iff_unat u8_of_nat_code)
  then show ?thesis
    using assms by (simp add: entry_codes2_def dinst_def ucast_of_nat_u8_u32)
qed

text \<open>The opcode the hard-coded chooser gives for a COPY of four bytes before a one-byte ADD.\<close>

lemma choose_copyadd:
  assumes p: "rfc3284_type (r_type p)" and inst: "r_type inst = XD3_ADD"
    and ch: "xd3_choose_instruction (Some p) inst = (Some p', inst')"
    and c2: "r_code2 p = 0" "r_code2 p' \<noteq> 0"
  shows "entry_codes2 (xd3_rfc3284_code_table ! unat (r_code2 p')) p inst"
proof -
  have cond: "r_size inst = 1 \<and> r_size p = 4 \<and> r_type p \<ge> XD3_CPY"
    and code: "r_code2 p' = 247 + (r_type p - XD3_CPY)"
    using ch c2 inst
    by (auto simp: xd3_choose_instruction_def inst_consts split: if_splits)
  then have "r_type p \<noteq> XD3_RUN" "r_type p \<noteq> XD3_ADD" by (auto simp: inst_consts word_le_nat_alt)
  then obtain m where m: "m < 9" "r_type p = XD3_CPY + of_nat m" "r_type p - XD3_CPY = of_nat m"
    using p cpy_mode_cases by blast
  have "r_code2 p' = of_nat (247 + m)" using code m(3) by simp
  then have u: "unat (r_code2 p') = 247 + m" using m(1) by (simp only:) (rule u8_of_nat_code, simp)
  show ?thesis
    unfolding u using cond inst m(2) by (intro entry_codes2_dinst [OF rfc3284_cpyadd [OF m(1)]]) simp_all
qed

text \<open>The opcodes for a short ADD before a short COPY.\<close>

lemma choose_addcopy:
  assumes inst: "rfc3284_type (r_type inst)" "r_type inst \<noteq> XD3_RUN" "r_type inst \<noteq> XD3_ADD"
    and p1: "r_type p = XD3_ADD \<longrightarrow> r_size p \<noteq> 0"
    and ch: "xd3_choose_instruction (Some p) inst = (Some p', inst')"
    and c2: "r_code2 p = 0" "r_code2 p' \<noteq> 0"
  shows "entry_codes2 (xd3_rfc3284_code_table ! unat (r_code2 p')) p inst"
proof -
  obtain m where m: "m < 9" "r_type inst = XD3_CPY + of_nat m" "r_type inst - XD3_CPY = of_nat m"
    using inst cpy_mode_cases by blast
  from ch c2 inst m(3) have cond: "r_type p = XD3_ADD" "r_size p \<le> 4" "r_size inst \<le> 6" "r_size inst \<ge> 4"
    by (auto simp: xd3_choose_instruction_def Let_def split: if_splits)
  with p1 have "1 \<le> unat (r_size p)" "unat (r_size p) \<le> 4" "4 \<le> unat (r_size inst)" "unat (r_size inst) \<le> 6"
    by (simp_all add: word_le_nat_alt word_zero_iff_unat Suc_le_eq)
  then obtain a s where a: "a \<in> {1 ..< Suc 4}" "r_size p = of_nat a" "(ucast (r_size p) :: u8) = of_nat a"
    and s: "s \<in> {4 ..< Suc 6}" "r_size inst = of_nat s" "(ucast (r_size inst) :: u8) = of_nat s"
    by (metis small_size_cases [of 1 "r_size p" 4] small_size_cases [of 4 "r_size inst" 6]
        numeral_less_iff semiring_norm(76,78,79,80,81))
  have le18: "r_size inst \<le> 18" using cond(3) by (simp add: word_le_nat_alt)
  have sub: "(of_nat a - 1 :: u8) = of_nat (a - 1)" "(of_nat s - 4 :: u8) = of_nat (s - 4)"
    using a(1) s(1) by (simp_all add: of_nat_diff)
  show ?thesis
  proof (cases "m \<le> 5")
    case True
    then have "(of_nat m :: u8) \<le> 5" by (simp add: word_le_nat_alt u8_of_nat_code)
    then have "r_code2 p' = of_nat (163 + m * 12 + 3 * (a - 1) + (s - 4))"
      using ch inst m(3) cond le18 sub a(3) s(3) by (auto simp: xd3_choose_instruction_def Let_def)
    moreover have "163 + m * 12 + 3 * (a - 1) + (s - 4) < 256" using True a(1) s(1) by auto
    ultimately have u: "unat (r_code2 p') = 163 + m * 12 + 3 * (a - 1) + (s - 4)"
      by (simp only: u8_of_nat_code)
    show ?thesis
      unfolding u using True a s m cond
      by (intro entry_codes2_dinst [OF rfc3284_addcpy_near [of m a s]]) simp_all
  next
    case False
    with m(1) have not5: "\<not> (of_nat m :: u8) \<le> 5" "(of_nat m :: u8) \<ge> 6"
      by (simp_all add: word_le_nat_alt u8_of_nat_code)
    with ch inst m(3) c2 have s4: "r_size inst = 4"
      by (auto simp: xd3_choose_instruction_def Let_def split: if_splits)
    have "(of_nat m - 6 :: u8) = of_nat (m - 6)" using False by (simp add: of_nat_diff)
    then have "r_code2 p' = of_nat (235 + (m - 6) * 4 + (a - 1))"
      using ch inst m(3) cond le18 sub a(3) s4 not5 by (auto simp: xd3_choose_instruction_def Let_def)
    moreover have "235 + (m - 6) * 4 + (a - 1) < 256" using m(1) a(1) by auto
    ultimately have u: "unat (r_code2 p') = 235 + (m - 6) * 4 + (a - 1)"
      by (simp only: u8_of_nat_code)
    show ?thesis
      unfolding u using False a m cond s4
      by (intro entry_codes2_dinst [OF rfc3284_addcpy_same [of m a]]) simp_all
  qed
qed

section \<open>The generic chooser on the default table\<close>

lemma rfc3284_copyadd_sizes:
  assumes "m < 9"
  shows "copyadd_max_sizes rfc3284_code_table_desc ! m = cts 4 (247 + of_nat m) 1"
proof -
  have "list_all (\<lambda>m. copyadd_max_sizes rfc3284_code_table_desc ! m = cts 4 (247 + of_nat m) 1) [0 ..< 9]"
    by code_simp
  from list_all_uptD [OF this] assms show ?thesis by simp
qed

lemma rfc3284_addcopy_sizes:
  assumes "m < 9"
  shows "addcopy_max_sizes rfc3284_code_table_desc ! m =
    (if m \<le> 5 then cts 6 (163 + of_nat m * 12) 3 else cts 4 (235 + (of_nat m - 6) * 4) 1)"
proof -
  have "list_all (\<lambda>m. addcopy_max_sizes rfc3284_code_table_desc ! m =
    (if m \<le> 5 then cts 6 (163 + of_nat m * 12) 3 else cts 4 (235 + (of_nat m - 6) * 4) 1)) [0 ..< 9]"
    by code_simp
  from list_all_uptD [OF this] assms show ?thesis by simp
qed

lemma rfc3284_desc_fields:
  "add_sizes rfc3284_code_table_desc = 17" "cpy_sizes rfc3284_code_table_desc = 15"
  "copyadd_add_max rfc3284_code_table_desc = 1" "addcopy_add_max rfc3284_code_table_desc = 4"
  by (simp_all add: rfc3284_code_table_desc_def)

lemma cts_fields [simp]:
  "cpy_max (cts a b c) = a" "code_offset (cts a b c) = b" "code_mult (cts a b c) = c"
  by (simp_all add: cts_def)

lemma generic_add:
  assumes "r_type inst = XD3_ADD" and "1 \<le> r_size inst"
    and "case prev of None \<Rightarrow> True | Some p \<Rightarrow> rfc3284_type (r_type p) \<and> (r_type p \<ge> XD3_CPY \<longrightarrow> r_size p \<ge> 4)"
  shows "xd3_choose_instruction prev inst = xd3_choose_instruction_generic rfc3284_code_table_desc prev inst"
proof -
  have one: "r_size inst \<le> 1 \<longleftrightarrow> r_size inst = 1" using assms(2) by (auto intro: order_antisym)
  have prev: "(if r_size inst = 1 \<and> r_size p = 4 \<and> r_type p \<ge> XD3_CPY
        then p\<lparr>r_code2 := 247 + (r_type p - XD3_CPY)\<rparr> else p)
      = (if r_type p \<ge> XD3_CPY \<and> r_size inst \<le> ucast (copyadd_add_max rfc3284_code_table_desc) then
           (let sizes = copyadd_max_sizes rfc3284_code_table_desc ! unat (r_type p - XD3_CPY) in
            if r_size p \<le> ucast (cpy_max sizes) then
              p\<lparr>r_code2 := code_offset sizes + code_mult sizes * (ucast (r_size p) - of_nat MIN_MATCH)
                  + (ucast (r_size inst) - of_nat MIN_ADD)\<rparr>
            else p)
         else p)" if "prev = Some p" for p
  proof (cases "r_type p \<ge> XD3_CPY")
    case True
    then have "r_type p \<noteq> XD3_RUN" "r_type p \<noteq> XD3_ADD" by (auto simp: inst_consts word_le_nat_alt)
    moreover have "rfc3284_type (r_type p)" "r_size p \<ge> 4" using assms(3) that True by simp_all
    ultimately obtain m where m: "m < 9" "r_type p - XD3_CPY = of_nat m" "r_size p \<ge> 4"
      using cpy_mode_cases by metis
    then have "r_size p \<le> 4 \<longleftrightarrow> r_size p = 4" by (auto intro: order_antisym)
    then show ?thesis
      using True m one by (auto simp: rfc3284_desc_fields rfc3284_copyadd_sizes u8_of_nat_code inst_consts)
  qed simp
  show ?thesis
  proof (cases prev)
    case None
    then show ?thesis
      using assms(1) by (auto simp: xd3_choose_instruction_def xd3_choose_instruction_generic_def
          rfc3284_desc_fields inst_consts not_less)
  next
    case (Some p)
    from prev [OF this] Some assms(1) show ?thesis
      unfolding xd3_choose_instruction_def xd3_choose_instruction_generic_def
      by (simp only: option.simps) (auto simp: rfc3284_desc_fields XD3_RUN_def XD3_ADD_def not_less)
  qed
qed

lemma generic_cpy:
  assumes "rfc3284_type (r_type inst)" "r_type inst \<noteq> XD3_RUN" "r_type inst \<noteq> XD3_ADD"
  shows "xd3_choose_instruction prev inst = xd3_choose_instruction_generic rfc3284_code_table_desc prev inst"
proof -
  obtain m where m: "m < 9" "r_type inst - XD3_CPY = of_nat m"
    using assms cpy_mode_cases by metis
  have m5: "(of_nat m :: u8) \<le> 5 \<longleftrightarrow> m \<le> 5" "(of_nat m :: u8) \<ge> 6 \<longleftrightarrow> \<not> m \<le> 5"
    using m(1) by (auto simp: word_le_nat_alt u8_of_nat_code)
  have lt19: "r_size inst < 19 \<longleftrightarrow> r_size inst \<le> 18" by (auto simp: word_le_nat_alt word_less_nat_alt)
  have prev: "(if r_type p = XD3_ADD \<and> r_size p \<le> 4 then
          (if r_size inst \<le> 6 \<and> mode \<le> 5 then
             p\<lparr>r_code2 := 163 + mode * 12 + 3 * (ucast (r_size p) - 1) + (ucast (r_size inst) - 4)\<rparr>
           else if r_size inst = 4 \<and> mode \<ge> 6 then
             p\<lparr>r_code2 := 235 + (mode - 6) * 4 + (ucast (r_size p) - 1)\<rparr>
           else p)
        else p)
      = (if r_type p = XD3_ADD \<and> r_size p \<le> ucast (addcopy_add_max rfc3284_code_table_desc) then
          (let sizes = addcopy_max_sizes rfc3284_code_table_desc ! unat mode in
           if r_size inst \<le> ucast (cpy_max sizes) then
             p\<lparr>r_code2 := code_offset sizes + code_mult sizes * (ucast (r_size p) - of_nat MIN_ADD)
                 + (ucast (r_size inst) - of_nat MIN_MATCH)\<rparr>
           else p)
        else p)"
    if "r_size inst \<ge> 4" "mode = of_nat m" for mode p
  proof -
    have four: "r_size inst \<le> 4 \<longleftrightarrow> r_size inst = 4" using that(1) by (auto intro: order_antisym)
    show ?thesis
      using m(1) four that m5
      by (cases "m \<le> 5") (simp_all add: rfc3284_desc_fields rfc3284_addcopy_sizes u8_of_nat_code
          MIN_MATCH_def MIN_ADD_def)
  qed
  have code: "2 + add_sizes rfc3284_code_table_desc + (1 + cpy_sizes rfc3284_code_table_desc) * of_nat m
      = 19 + 16 * (of_nat m :: u8)" by (simp add: rfc3284_desc_fields)
  have code1: "(19 + 16 * x + (y + 1 - 4) :: u8) = 19 + 16 * x + (y - 3)" for x y by simp
  show ?thesis
  proof (cases "r_size inst \<le> 18 \<and> r_size inst \<ge> 4")
    case True
    then have "r_size inst < of_nat MIN_MATCH + ucast (cpy_sizes rfc3284_code_table_desc)
        \<and> r_size inst \<ge> of_nat MIN_MATCH"
      by (simp add: MIN_MATCH_def rfc3284_desc_fields lt19)
    moreover have "(of_nat MIN_MATCH :: u8) = 4" by (simp add: MIN_MATCH_def)
    ultimately show ?thesis
      unfolding xd3_choose_instruction_def xd3_choose_instruction_generic_def
      by (simp only: assms(2,3) if_False if_True simp_thms True Let_def m(2) prev [unfolded Let_def] code code1)
  next
    case False
    then have "\<not> (r_size inst < of_nat MIN_MATCH + ucast (cpy_sizes rfc3284_code_table_desc)
        \<and> r_size inst \<ge> of_nat MIN_MATCH)"
      by (simp add: MIN_MATCH_def rfc3284_desc_fields lt19)
    with False show ?thesis
      unfolding xd3_choose_instruction_def xd3_choose_instruction_generic_def
      by (simp only: assms(2,3) if_False simp_thms Let_def m(2) code)
  qed
qed

section \<open>Tables and strings\<close>

text \<open>A table a VCDIFF decoder with \<open>modes\<close> address modes can use.\<close>

definition valid_dinst :: "u32 \<Rightarrow> xd3_dinst \<Rightarrow> bool" where
  "valid_dinst modes d \<longleftrightarrow>
     unat (type1 d) < 3 + unat modes \<and> unat (type2 d) < 3 + unat modes \<and>
     (type1 d = XD3_NOOP \<longrightarrow> size1 d = 0) \<and> (type2 d = XD3_NOOP \<longrightarrow> size2 d = 0)"

lemma table_row_map:
  assumes "\<forall>z \<in> set zs. apply_table_byte modes s (f z) (h z) = Inr (g z)"
  shows "apply_table_row modes s (map f zs @ rest) (map h zs) = Inr (map g zs, rest)"
  using assms by (induction zs) simp_all

lemma upt_6: "[0 ..< 6] = [0, 1, 2, 3, 4, 5 :: nat]"
  by (simp add: upt_rec)

lemma mode_byte_bound:
  assumes "valid_dinst modes d"
  shows "type1 d \<ge> XD3_CPY \<Longrightarrow> \<not> ucast (type1 d - XD3_CPY) \<ge> modes"
    and "type2 d \<ge> XD3_CPY \<Longrightarrow> \<not> ucast (type2 d - XD3_CPY) \<ge> modes"
  using assms
  by (auto simp: valid_dinst_def word_le_nat_alt unat_sub_le inst_consts)

lemma not_ge_CPY: "\<not> (t :: u8) \<ge> XD3_CPY \<Longrightarrow> \<not> t > XD3_CPY" "\<not> XD3_CPY < XD3_CPY"
  by (auto simp: not_le)

text \<open>The entry of the fresh table after each of the six sections, for the string of entry \<open>d\<close>.\<close>

definition table_stage :: "nat \<Rightarrow> xd3_dinst \<times> xd3_dinst \<Rightarrow> xd3_dinst" where
  "table_stage s z = (case z of (d, e) \<Rightarrow>
    e\<lparr>type1 := (if s = 0 then type1 e else if s < 5 then code_table_string_byte 0 d else type1 d),
      type2 := (if s < 2 then type2 e else if s < 6 then code_table_string_byte 1 d else type2 d),
      size1 := (if s < 3 then size1 e else size1 d),
      size2 := (if s < 4 then size2 e else size2 d)\<rparr>)"

lemma table_stage_ends: "table_stage 0 (d, e) = e" "table_stage 6 (d, e) = d"
  by (simp_all add: table_stage_def)

lemma table_stage_step:
  assumes "valid_dinst modes d" and "0 < modes" and "s < 6"
  shows "apply_table_byte modes s (code_table_string_byte s d) (table_stage s (d, e))
    = Inr (table_stage (Suc s) (d, e))"
proof -
  have *: "\<not> (0 :: u32) \<ge> modes" using assms(2) by (simp add: not_le)
  have top: "XD3_CPY < t \<longleftrightarrow> XD3_CPY \<le> t \<and> t \<noteq> XD3_CPY" for t :: u8 by auto
  consider "s = 0" | "s = 1" | "s = 2" | "s = 3" | "s = 4" | "s = 5" using assms(3) by linarith
  then show ?thesis
  proof cases
    case 5
    then show ?thesis
      using mode_byte_bound(1) [OF assms(1)] *
      by (cases "XD3_CPY \<le> type1 d") (simp_all add: apply_table_byte_def code_table_string_byte_def table_stage_def)
  next
    case 6
    then show ?thesis
      using mode_byte_bound(2) [OF assms(1)] *
      by (cases "XD3_CPY \<le> type2 d") (simp_all add: apply_table_byte_def code_table_string_byte_def table_stage_def)
  next
    case 3
    then show ?thesis
      using assms(1)
      by (cases "XD3_CPY \<le> type1 d")
        (auto simp: apply_table_byte_def code_table_string_byte_def table_stage_def valid_dinst_def XD3_CPY_def XD3_NOOP_def)
  next
    case 4
    then show ?thesis
      using assms(1)
      by (cases "XD3_CPY \<le> type2 d")
        (auto simp: apply_table_byte_def code_table_string_byte_def table_stage_def valid_dinst_def XD3_CPY_def XD3_NOOP_def)
  qed (simp_all add: apply_table_byte_def code_table_string_byte_def table_stage_def top)
qed

lemma apply_compute_string:
  assumes "length tbl = 256" and "length fresh = 256" and "list_all (valid_dinst modes) tbl" and "0 < modes"
  shows "xd3_apply_table_string modes fresh (xd3_compute_code_table_string tbl) = Inr tbl"
proof -
  let ?zs = "zip tbl fresh"
  have zs: "map (table_stage 0) ?zs = fresh" "map (table_stage 6) ?zs = tbl"
    using assms(1,2) by (auto intro!: nth_equalityI simp: table_stage_ends)
  have row: "apply_table_row modes s (map (code_table_string_byte s) tbl @ rest) (map (table_stage s) ?zs)
      = Inr (map (table_stage (Suc s)) ?zs, rest)" if "s < 6" for s rest
  proof -
    have "map (code_table_string_byte s) tbl = map (\<lambda>z. code_table_string_byte s (fst z)) ?zs"
      using assms(1,2) by (simp flip: map_map [unfolded comp_def])
    then show ?thesis
      using assms(3,4) that
      by (simp only:) (rule table_row_map, auto dest!: set_zip_leftD simp: list_all_iff intro!: table_stage_step)
  qed
  show ?thesis
    unfolding xd3_apply_table_string_def xd3_compute_code_table_string_def upt_6
    using row [of 0] row [of 1] row [of 2] row [of 3] row [of 4] row [of 5, of "[]"] assms(1) zs
    by (simp add: eval_nat_numeral)
qed

lemma table_row_inv:
  assumes "apply_table_row modes s str ds = Inr (ds', str')"
  shows "length ds \<le> length str \<and> str' = drop (length ds) str \<and> length ds' = length ds \<and>
    (\<forall>i < length ds. apply_table_byte modes s (str ! i) (ds ! i) = Inr (ds' ! i))"
  using assms
proof (induction modes s str ds arbitrary: ds' rule: apply_table_row.induct)
  case (3 modes s c str d ds)
  then show ?case by (auto split: sum.splits simp: nth_Cons')
qed simp_all

lemma table_byte_inv:
  "apply_table_byte modes 0 c e = Inr e' \<Longrightarrow> c \<le> XD3_CPY \<and> e' = e\<lparr>type1 := c\<rparr>"
  "apply_table_byte modes 1 c e = Inr e' \<Longrightarrow> c \<le> XD3_CPY \<and> e' = e\<lparr>type2 := c\<rparr>"
  "apply_table_byte modes 2 c e = Inr e' \<Longrightarrow> (c = 0 \<or> type1 e \<noteq> XD3_NOOP) \<and> e' = e\<lparr>size1 := c\<rparr>"
  "apply_table_byte modes 3 c e = Inr e' \<Longrightarrow> (c = 0 \<or> type2 e \<noteq> XD3_NOOP) \<and> e' = e\<lparr>size2 := c\<rparr>"
  "apply_table_byte modes 4 c e = Inr e' \<Longrightarrow>
     \<not> modes \<le> ucast c \<and> (c = 0 \<or> type1 e = XD3_CPY) \<and> e' = e\<lparr>type1 := type1 e + c\<rparr>"
  "apply_table_byte modes 5 c e = Inr e' \<Longrightarrow>
     \<not> modes \<le> ucast c \<and> (c = 0 \<or> type2 e = XD3_CPY) \<and> e' = e\<lparr>type2 := type2 e + c\<rparr>"
  by (auto simp: apply_table_byte_def not_less split: if_split_asm)

lemma table_bytes_inv:
  assumes "apply_table_byte modes 0 c0 e0 = Inr e1" "apply_table_byte modes 1 c1 e1 = Inr e2"
    "apply_table_byte modes 2 c2 e2 = Inr e3" "apply_table_byte modes 3 c3 e3 = Inr e4"
    "apply_table_byte modes 4 c4 e4 = Inr e5" "apply_table_byte modes 5 c5 e5 = Inr e6"
  shows "c0 \<le> XD3_CPY \<and> c1 \<le> XD3_CPY \<and> (c2 = 0 \<or> c0 \<noteq> XD3_NOOP) \<and> (c3 = 0 \<or> c1 \<noteq> XD3_NOOP)
    \<and> (\<not> modes \<le> ucast c4 \<and> (c4 = 0 \<or> c0 = XD3_CPY)) \<and> (\<not> modes \<le> ucast c5 \<and> (c5 = 0 \<or> c1 = XD3_CPY))
    \<and> type1 e6 = c0 + c4 \<and> type2 e6 = c1 + c5 \<and> size1 e6 = c2 \<and> size2 e6 = c3"
proof -
  note i = table_byte_inv(1) [OF assms(1)] table_byte_inv(2) [OF assms(2)] table_byte_inv(3) [OF assms(3)]
    table_byte_inv(4) [OF assms(4)] table_byte_inv(5) [OF assms(5)] table_byte_inv(6) [OF assms(6)]
  have e: "e1 = e0\<lparr>type1 := c0\<rparr>" "e2 = e1\<lparr>type2 := c1\<rparr>" "e3 = e2\<lparr>size1 := c2\<rparr>" "e4 = e3\<lparr>size2 := c3\<rparr>"
    "e5 = e4\<lparr>type1 := type1 e4 + c4\<rparr>" "e6 = e5\<lparr>type2 := type2 e5 + c5\<rparr>"
    using i by blast+
  have "type1 e2 = c0" "type2 e3 = c1" "type1 e4 = c0" "type2 e5 = c1" by (simp_all add: e(1-5))
  moreover have "type1 e6 = c0 + c4" "type2 e6 = c1 + c5" "size1 e6 = c2" "size2 e6 = c3" by (simp_all add: e)
  ultimately show ?thesis using i by metis
qed

text \<open>The six bytes an accepted entry came from are the bytes of its string form.\<close>

lemma table_entry_inv:
  assumes "apply_table_byte modes 0 c0 e0 = Inr e1" "apply_table_byte modes 1 c1 e1 = Inr e2"
    "apply_table_byte modes 2 c2 e2 = Inr e3" "apply_table_byte modes 3 c3 e3 = Inr e4"
    "apply_table_byte modes 4 c4 e4 = Inr e5" "apply_table_byte modes 5 c5 e5 = Inr e6"
    and "unat modes \<le> 252"
  shows "valid_dinst modes e6 \<and> c0 = code_table_string_byte 0 e6 \<and> c1 = code_table_string_byte 1 e6
    \<and> c2 = code_table_string_byte 2 e6 \<and> c3 = code_table_string_byte 3 e6
    \<and> c4 = code_table_string_byte 4 e6 \<and> c5 = code_table_string_byte 5 e6"
proof -
  have b: "c0 \<le> 3" "c1 \<le> 3" "c4 = 0 \<or> c0 = 3" "c5 = 0 \<or> c1 = 3" "unat c4 < unat modes" "unat c5 < unat modes"
      "c2 = 0 \<or> c0 \<noteq> 0" "c3 = 0 \<or> c1 \<noteq> 0"
    and e: "type1 e6 = c0 + c4" "type2 e6 = c1 + c5" "size1 e6 = c2" "size2 e6 = c3"
    using table_bytes_inv [OF assms(1-6)] by (auto simp: inst_consts word_le_nat_alt not_le)
  have *: "unat (x + y) = unat x + unat y \<and> (x + y \<ge> 3 \<longleftrightarrow> x = 3) \<and> (x = 3 \<longrightarrow> x + y - 3 = y)"
    if "x \<le> 3" "unat y \<le> 252" "y = 0 \<or> x = 3" for x y :: u8
  proof -
    have "unat (x + y) = unat x + unat y" using that by (intro unat_add_lem [THEN iffD1]) (auto simp: word_le_nat_alt)
    with that show ?thesis by (auto simp: word_le_nat_alt intro: word_unat_eq_iff [THEN iffD2])
  qed
  have c: "unat c4 \<le> 252" "unat c5 \<le> 252" using b(5,6) assms(7) by linarith+
  note t1 = * [OF b(1) c(1) b(3)] and t2 = * [OF b(2) c(2) b(4)]
  have "unat c0 \<le> 3" "unat c1 \<le> 3" using b(1,2) by (simp_all add: word_le_nat_alt)
  then have v: "unat (type1 e6) < 3 + unat modes" "unat (type2 e6) < 3 + unat modes"
    using t1 t2 b(5,6) unfolding e by linarith+
  have z: "c0 + c4 = 0 \<longleftrightarrow> c0 = 0 \<and> c4 = 0" "c1 + c5 = 0 \<longleftrightarrow> c1 = 0 \<and> c5 = 0"
    using t1 t2 by (auto simp: word_zero_iff_unat)
  have "valid_dinst modes e6" using v b(7,8) z unfolding valid_dinst_def e inst_consts by auto
  then show ?thesis using t1 t2 b unfolding code_table_string_byte_def inst_consts e by auto
qed

lemma table_string_inv:
  assumes "xd3_apply_table_string modes fresh str = Inr tbl" and "length fresh = 256"
    and "length str = CODE_TABLE_STRING_SIZE" and "unat modes \<le> 252"
  shows "length tbl = 256 \<and> list_all (valid_dinst modes) tbl \<and> str = xd3_compute_code_table_string tbl"
proof -
  obtain e1 e2 e3 e4 e5 s1 s2 s3 s4 s5 s6 where
    r: "apply_table_row modes 0 str fresh = Inr (e1, s1)" "apply_table_row modes 1 s1 e1 = Inr (e2, s2)"
       "apply_table_row modes 2 s2 e2 = Inr (e3, s3)" "apply_table_row modes 3 s3 e3 = Inr (e4, s4)"
       "apply_table_row modes 4 s4 e4 = Inr (e5, s5)" "apply_table_row modes 5 s5 e5 = Inr (tbl, s6)"
    using assms(1) unfolding xd3_apply_table_string_def upt_6 by (auto split: sum.splits prod.splits)
  note i = r [THEN table_row_inv]
  have len: "length e1 = 256" "length e2 = 256" "length e3 = 256" "length e4 = 256" "length e5 = 256" "length tbl = 256"
    using i assms(2) by simp_all
  have s: "s1 = drop 256 str" "s2 = drop 512 str" "s3 = drop 768 str" "s4 = drop 1024 str" "s5 = drop 1280 str"
    using i assms(2) len by (simp_all add: add.commute)
  have nth: "valid_dinst modes (tbl ! k) \<and> str ! k = code_table_string_byte 0 (tbl ! k)
      \<and> str ! (256 + k) = code_table_string_byte 1 (tbl ! k) \<and> str ! (512 + k) = code_table_string_byte 2 (tbl ! k)
      \<and> str ! (768 + k) = code_table_string_byte 3 (tbl ! k) \<and> str ! (1024 + k) = code_table_string_byte 4 (tbl ! k)
      \<and> str ! (1280 + k) = code_table_string_byte 5 (tbl ! k)" if "k < 256" for k
    using i [THEN conjunct2, THEN conjunct2, THEN conjunct2, rule_format, of k] assms(2,3) that len s
    by (intro table_entry_inv [OF _ _ _ _ _ _ assms(4)]) (simp_all add: CODE_TABLE_STRING_SIZE_def)
  have pieces: "take 256 (drop n str) = map (code_table_string_byte m) tbl"
    if "\<And>k. k < 256 \<Longrightarrow> str ! (n + k) = code_table_string_byte m (tbl ! k)" "n + 256 \<le> 1536" for n m
    using that assms(3) len by (intro nth_equalityI) (simp_all add: CODE_TABLE_STRING_SIZE_def)
  have split: "xs = take 256 (drop 0 xs) @ take 256 (drop 256 xs) @ take 256 (drop 512 xs) @ take 256 (drop 768 xs)
      @ take 256 (drop 1024 xs) @ take 256 (drop 1280 xs)" if "length xs = 1536" for xs :: "u8 list"
  proof -
    have d: "drop n xs = take 256 (drop n xs) @ drop (n + 256) xs" for n
      by (metis append_take_drop_id drop_drop add.commute)
    show ?thesis
      using d [of 0] d [of 256] d [of 512] d [of 768] d [of 1024] d [of 1280] that by simp
  qed
  have "str = xd3_compute_code_table_string tbl"
    using split [of str] pieces [of 0 0] pieces [of 256 1] pieces [of 512 2] pieces [of 768 3]
      pieces [of 1024 4] pieces [of 1280 5] nth len assms(3)
    by (simp add: xd3_compute_code_table_string_def upt_6 CODE_TABLE_STRING_SIZE_def)
  then show ?thesis using nth len by (simp add: list_all_length)
qed

section \<open>Properties\<close>

text \<open>C20. The encoder and the decoder agree on opcodes: whatever instruction and predecessor
  \<open>xd3_choose_instruction\<close> is given, the default-table entry of the single opcode it sets is that
  instruction (with its size, or with size 0 where the size is written out), and if it sets a
  double opcode on the predecessor, that entry is the pair of both with both sizes.\<close>

theorem choose_instruction_sound:
  assumes "rfc3284_type (r_type inst)" and "rfc3284_type (r_type p)"
    and "r_type p = XD3_ADD \<longrightarrow> r_size p \<noteq> 0" and "r_code2 p = 0"
    and "xd3_choose_instruction (Some p) inst = (Some p', inst')"
  shows "entry_codes (xd3_rfc3284_code_table ! unat (r_code1 inst')) inst
    \<and> (r_code2 p' \<noteq> 0 \<longrightarrow> entry_codes2 (xd3_rfc3284_code_table ! unat (r_code2 p')) p inst)"
proof -
  have "r_code2 p' = 0" if "r_type inst = XD3_RUN"
    using assms(4,5) that by (auto simp: xd3_choose_instruction_def)
  then show ?thesis
    using choose_code1 [OF assms(1,5)] choose_copyadd [OF assms(2) _ assms(5,4)]
      choose_addcopy [OF assms(1) _ _ assms(3,5,4)] by blast
qed

theorem choose_instruction_sound_witness:
  "entry_codes2 (xd3_rfc3284_code_table ! 247)
     \<lparr>r_type = 3, r_xtra = 0, r_code1 = 20, r_code2 = 0, r_pos = 0, r_size = 4, r_addr = 0\<rparr>
     \<lparr>r_type = 1, r_xtra = 0, r_code1 = 0, r_code2 = 0, r_pos = 4, r_size = 1, r_addr = 0\<rparr>"
  using choose_instruction_sound
    [of "\<lparr>r_type = 1, r_xtra = 0, r_code1 = 0, r_code2 = 0, r_pos = 4, r_size = 1, r_addr = 0\<rparr>"
        "\<lparr>r_type = 3, r_xtra = 0, r_code1 = 20, r_code2 = 0, r_pos = 0, r_size = 4, r_addr = 0\<rparr>"
        "\<lparr>r_type = 3, r_xtra = 0, r_code1 = 20, r_code2 = 247, r_pos = 0, r_size = 4, r_addr = 0\<rparr>"
        "\<lparr>r_type = 1, r_xtra = 0, r_code1 = 2, r_code2 = 0, r_pos = 4, r_size = 1, r_addr = 0\<rparr>"]
  by (simp add: xd3_choose_instruction_def rfc3284_type_def inst_consts)

text \<open>C32. On the default table the hard-coded chooser and the generic one driven by the table
  description pick the same opcodes, for instructions of the types of the table, if a preceding copy has at least four bytes and adds
  have at least one byte, as the string matcher hands them over.  C40 shows that they differ on shorter copies.\<close>

theorem choose_generic_equiv:
  assumes "rfc3284_type (r_type inst)" and "case prev of None \<Rightarrow> True | Some p \<Rightarrow> rfc3284_type (r_type p)
      \<and> (r_type p \<ge> XD3_CPY \<longrightarrow> r_size p \<ge> 4) \<and> (r_type p = XD3_ADD \<longrightarrow> r_size p \<ge> 1)"
    and "r_type inst = XD3_ADD \<longrightarrow> r_size inst \<ge> 1"
  shows "xd3_choose_instruction prev inst = xd3_choose_instruction_generic rfc3284_code_table_desc prev inst"
proof -
  consider (run) "r_type inst = XD3_RUN" | (add) "r_type inst = XD3_ADD"
    | (cpy) "r_type inst \<noteq> XD3_RUN" "r_type inst \<noteq> XD3_ADD" by blast
  then show ?thesis
  proof cases
    case run
    then show ?thesis by (simp add: xd3_choose_instruction_def xd3_choose_instruction_generic_def)
  next
    case add
    with assms(2,3) show ?thesis by (intro generic_add) (auto split: option.splits)
  next
    case cpy
    with assms(1) show ?thesis by (rule generic_cpy)
  qed
qed

theorem choose_generic_equiv_witness:
  "xd3_choose_instruction None
     \<lparr>r_type = 5, r_xtra = 0, r_code1 = 0, r_code2 = 0, r_pos = 0, r_size = 9, r_addr = 7\<rparr>
   = xd3_choose_instruction_generic rfc3284_code_table_desc None
     \<lparr>r_type = 5, r_xtra = 0, r_code1 = 0, r_code2 = 0, r_pos = 0, r_size = 9, r_addr = 7\<rparr>"
  by (rule choose_generic_equiv) (simp_all add: rfc3284_type_def inst_consts)

text \<open>C40. Below that minimum the generic chooser is wrong: a three-byte copy followed by a one-byte add
  gets a double opcode whose table entry is a four-byte ADD with a COPY in another mode.\<close>

theorem choose_generic_short_copy_wrong:
  "\<exists>p inst p' inst'. rfc3284_type (r_type p) \<and> rfc3284_type (r_type inst) \<and> r_size p = 3 \<and> r_size inst = 1
     \<and> xd3_choose_instruction_generic rfc3284_code_table_desc (Some p) inst = (Some p', inst')
     \<and> r_code2 p = 0 \<and> r_code2 p' \<noteq> 0
     \<and> \<not> entry_codes2 (xd3_rfc3284_code_table ! unat (r_code2 p')) p inst"
proof -
  let ?p = "\<lparr>r_type = 3, r_xtra = 0, r_code1 = 0, r_code2 = 0, r_pos = 0, r_size = 3, r_addr = 0\<rparr>"
  let ?i = "\<lparr>r_type = 1, r_xtra = 0, r_code1 = 0, r_code2 = 0, r_pos = 3, r_size = 1, r_addr = 0\<rparr>"
  have e: "xd3_rfc3284_code_table ! 246 = dinst XD3_ADD 4 (XD3_CPY + 8) 4"
    using rfc3284_addcpy_same [of 8 4] by simp
  have "xd3_choose_instruction_generic rfc3284_code_table_desc (Some ?p) ?i
      = (Some (?p\<lparr>r_code2 := 246\<rparr>), ?i\<lparr>r_code1 := 2\<rparr>)"
    by (simp add: xd3_choose_instruction_generic_def rfc3284_code_table_desc_def cts_def inst_consts)
  then show ?thesis
    by (intro exI [of _ ?p] exI [of _ ?i] exI [of _ "?p\<lparr>r_code2 := 246\<rparr>"] exI [of _ "?i\<lparr>r_code1 := 2\<rparr>"])
      (simp add: rfc3284_type_def inst_consts entry_codes2_def e dinst_def)
qed

text \<open>C26. The string form of a code table is exact: \<open>xd3_apply_table_string\<close> accepts a 1536-byte string
  and yields a table if and only if the table has valid types, modes and sizes and the string is the
  one \<open>xd3_compute_code_table_string\<close> prints for it.  So printing and reading a table round-trip, and
  an accepted table never names an address mode the decoder does not have.\<close>

theorem table_string_exact:
  assumes "length str = CODE_TABLE_STRING_SIZE" and "length fresh = 256"
    and "0 < modes" and "unat modes \<le> 252"
  shows "xd3_apply_table_string modes fresh str = Inr tbl \<longleftrightarrow>
    length tbl = 256 \<and> list_all (valid_dinst modes) tbl \<and> str = xd3_compute_code_table_string tbl"
  using table_string_inv [OF _ assms(2,1,4)] apply_compute_string [OF _ assms(2) _ assms(3)] by blast

lemma compute_string_length: "length tbl = 256 \<Longrightarrow> length (xd3_compute_code_table_string tbl) = CODE_TABLE_STRING_SIZE"
  by (simp add: xd3_compute_code_table_string_def upt_6 CODE_TABLE_STRING_SIZE_def)

lemma alternate_length: "length xd3_alternate_code_table = 256"
  by code_simp

lemma alternate_valid: "list_all (valid_dinst 9) xd3_alternate_code_table"
  by code_simp

theorem table_string_exact_witness:
  "xd3_apply_table_string 9 xd3_rfc3284_code_table (xd3_compute_code_table_string xd3_alternate_code_table)
    = Inr xd3_alternate_code_table"
  by (subst table_string_exact)
    (simp_all add: compute_string_length alternate_length rfc3284_length alternate_valid)

end
