(* ===== verification/Xd3_Hash.thy ===== *)
theory Xd3_Hash
  imports Xd3_Arith
begin

text \<open>
  The checksums and hash-table sizes of the string matcher (xdelta3-hash.h) and the run detector
  (xdelta3.c \<open>xd3_comprun\<close>).  The encoder slides a window over source and target and keeps its
  checksum up to date byte by byte; the lemmas show that the incremental update is the checksum of
  the next window, that a hash always falls inside the table it was sized for, and that the run
  detector returns the longest run that ends the window.
\<close>

section \<open>The byte permutation\<close>

definition single_hash :: "u16 list" where
  "single_hash =
    [0xbcd1, 0xbb65, 0x42c2, 0xdffe, 0x9666, 0x431b, 0x8504, 0xeb46, 0x6379, 0xd460, 0xcf14, 0x53cf, 0xdb51, 0xdb08, 0x12c8, 0xf602,
     0xe766, 0x2394, 0x250d, 0xdcbb, 0xa678, 0x02af, 0xa5c6, 0x7ea6, 0xb645, 0xcb4d, 0xc44b, 0xe5dc, 0x9fe6, 0x5b5c, 0x35f5, 0x701a,
     0x220f, 0x6c38, 0x1a56, 0x4ca3, 0xffc6, 0xb152, 0x8d61, 0x7a58, 0x9025, 0x8b3d, 0xbf0f, 0x95a3, 0xe5f4, 0xc127, 0x3bed, 0x320b,
     0xb7f3, 0x6054, 0x333c, 0xd383, 0x8154, 0x5242, 0x4e0d, 0x0a94, 0x7028, 0x8689, 0x3a22, 0x0980, 0x1847, 0xb0f1, 0x9b5c, 0x4176,
     0xb858, 0xd542, 0x1f6c, 0x2497, 0x6a5a, 0x9fa9, 0x8c5a, 0x7743, 0xa8a9, 0x9a02, 0x4918, 0x438c, 0xc388, 0x9e2b, 0x4cad, 0x01b6,
     0xab19, 0xf777, 0x365f, 0x1eb2, 0x091e, 0x7bf8, 0x7a8e, 0x5227, 0xeab1, 0x2074, 0x4523, 0xe781, 0x01a3, 0x163d, 0x3b2e, 0x287d,
     0x5e7f, 0xa063, 0xb134, 0x8fae, 0x5e8e, 0xb7b7, 0x4548, 0x1f5a, 0xfa56, 0x7a24, 0x900f, 0x42dc, 0xcc69, 0x02a0, 0x0b22, 0xdb31,
     0x71fe, 0x0c7d, 0x1732, 0x1159, 0xcb09, 0xe1d2, 0x1351, 0x52e9, 0xf536, 0x5a4f, 0xc316, 0x6bf9, 0x8994, 0xb774, 0x5f3e, 0xf6d6,
     0x3a61, 0xf82c, 0xcc22, 0x9d06, 0x299c, 0x09e5, 0x1eec, 0x514f, 0x8d53, 0xa650, 0x5c6e, 0xc577, 0x7958, 0x71ac, 0x8916, 0x9b4f,
     0x2c09, 0x5211, 0xf6d8, 0xcaaa, 0xf7ef, 0x287f, 0x7a94, 0xab49, 0xfa2c, 0x7222, 0xe457, 0xd71a, 0x00c3, 0x1a76, 0xe98c, 0xc037,
     0x8208, 0x5c2d, 0xdfda, 0xe5f5, 0x0b45, 0x15ce, 0x8a7e, 0xfcad, 0xaa2d, 0x4b5c, 0xd42e, 0xb251, 0x907e, 0x9a47, 0xc9a6, 0xd93f,
     0x085e, 0x35ce, 0xa153, 0x7e7b, 0x9f0b, 0x25aa, 0x5d9f, 0xc04d, 0x8a0e, 0x2875, 0x4a1c, 0x295f, 0x1393, 0xf760, 0x9178, 0x0f5b,
     0xfa7d, 0x83b4, 0x2082, 0x721d, 0x6462, 0x0368, 0x67e2, 0x8624, 0x194d, 0x22f6, 0x78fb, 0x6791, 0xb238, 0xb332, 0x7276, 0xf272,
     0x47ec, 0x4504, 0xa961, 0x9fc8, 0x3fdc, 0xb413, 0x007a, 0x0806, 0x7458, 0x95c6, 0xccaa, 0x18d6, 0xe2ae, 0x1b06, 0xf3f6, 0x5050,
     0xc8e8, 0xf4ac, 0xc04c, 0xf41c, 0x992f, 0xae44, 0x5f1b, 0x1113, 0x1738, 0xd9a8, 0x19ea, 0x2d33, 0x9698, 0x2fe9, 0x323f, 0xcde2,
     0x6d71, 0xe37d, 0xb697, 0x2c4f, 0x4373, 0x9102, 0x075d, 0x8e25, 0x1672, 0xec28, 0x6acb, 0x86cc, 0x186e, 0x9414, 0xd674, 0xd1a5]"

definition PERMUTE :: "u8 \<Rightarrow> u32" where
  "PERMUTE x = ucast (single_hash ! unat x)"

definition hash_multiplier :: u32 where "hash_multiplier = 1597334677"

section \<open>Checksums\<close>

text \<open>The accumulating loop of \<open>xd3_lcksum\<close>, from the values of \<open>low\<close> and \<open>high\<close>.\<close>

fun lcksum_loop :: "u8 list \<Rightarrow> u32 \<times> u32 \<Rightarrow> u32 \<times> u32" where
  "lcksum_loop [] s = s"
| "lcksum_loop (b # seg) (low, high) = lcksum_loop seg (low + PERMUTE b, high + (low + PERMUTE b))"

definition xd3_lcksum :: "u8 list \<Rightarrow> u32 \<Rightarrow> u32" where
  "xd3_lcksum seg ln =
    (case lcksum_loop (take (unat ln) seg) (0, 0) of
       (low, high) \<Rightarrow> push_bit 16 (high AND 0xffff) OR (low AND 0xffff))"

definition xd3_large_cksum_update :: "u32 \<Rightarrow> u8 list \<Rightarrow> u32 \<Rightarrow> u32" where
  "xd3_large_cksum_update cksum base look =
    (let old_c = PERMUTE (base ! 0);
         new_c = PERMUTE (base ! unat look);
         low = ((cksum AND 0xffff) - old_c + new_c) AND 0xffff;
         high = (drop_bit 16 cksum - (old_c * look) + low) AND 0xffff
     in push_bit 16 high OR low)"

text \<open>\<open>UNALIGNED_READ32\<close>: four bytes in the order of a little-endian machine.\<close>

definition UNALIGNED_READ32 :: "u8 list \<Rightarrow> u32" where
  "UNALIGNED_READ32 src =
     ucast (src ! 0) OR push_bit 8 (ucast (src ! 1)) OR push_bit 16 (ucast (src ! 2))
       OR push_bit 24 (ucast (src ! 3))"

text \<open>The small checksum returns the new state and its hash; the state is the last four bytes.\<close>

definition xd3_scksum :: "u8 list \<Rightarrow> u32 \<times> u32" where
  "xd3_scksum base = (let state = UNALIGNED_READ32 base in (state, state * hash_multiplier))"

definition xd3_small_cksum_update :: "u8 list \<Rightarrow> u32 \<times> u32" where
  "xd3_small_cksum_update base =
    (let state = UNALIGNED_READ32 (drop 1 base) in (state, state * hash_multiplier))"

section \<open>Table sizes\<close>

record xd3_hash_cfg =
  hash_size :: u32
  hash_shift :: u32
  hash_mask :: u32

definition xd3_checksum_hash :: "xd3_hash_cfg \<Rightarrow> u32 \<Rightarrow> u32" where
  "xd3_checksum_hash cfg cksum =
     drop_bit (unat (hash_shift cfg)) cksum XOR (cksum AND hash_mask cfg)"

text \<open>The loop of \<open>xd3_size_log2\<close> from a given \<open>i\<close>; \<open>bits\<close> starts at 28.\<close>

function size_log2_loop :: "u32 \<Rightarrow> nat \<Rightarrow> nat" where
  "size_log2_loop slots i =
    (if i \<le> 28 then (if slots < push_bit i 1 then i - 1 else size_log2_loop slots (i + 1)) else 28)"
  by auto
termination by (relation "measure (\<lambda>(slots, i). 29 - i)") auto

definition xd3_size_log2 :: "u32 \<Rightarrow> nat" where
  "xd3_size_log2 slots = size_log2_loop slots 3"

definition xd3_size_hashtable :: "u32 \<Rightarrow> xd3_hash_cfg" where
  "xd3_size_hashtable slots =
    (let bits = xd3_size_log2 slots; size = push_bit bits 1
     in \<lparr>hash_size = size, hash_shift = of_nat (32 - bits), hash_mask = size - 1\<rparr>)"

section \<open>Runs\<close>

definition NEXTRUN :: "u8 \<Rightarrow> u32 \<times> u8 \<Rightarrow> u32 \<times> u8" where
  "NEXTRUN c run = (case run of (run_l, run_c) \<Rightarrow> if c = run_c then (run_l + 1, run_c) else (1, c))"

definition xd3_comprun :: "u8 list \<Rightarrow> u32 \<Rightarrow> u32 \<times> u8" where
  "xd3_comprun seg slook = fold NEXTRUN (take (unat slook) seg) (0, 0)"

declare size_log2_loop.simps [simp del]

section \<open>Packing two sums into one word\<close>

lemma take_bit_word_add:
  "n \<le> LENGTH('a) \<Longrightarrow> take_bit n (take_bit n a + take_bit n b) = take_bit n (a + b :: 'a::len word)"
  by transfer (simp add: take_bit_add min_def)

lemma take_bit_word_diff:
  "n \<le> LENGTH('a) \<Longrightarrow> take_bit n (take_bit n a - take_bit n b) = take_bit n (a - b :: 'a::len word)"
  by transfer (simp add: take_bit_diff min_def)

lemma take_bit_word_absorb:
  assumes "n \<le> LENGTH('a)"
  shows "take_bit n (take_bit n a + b) = take_bit n (a + b :: 'a::len word)"
    and "take_bit n (b + take_bit n a) = take_bit n (b + a)"
    and "take_bit n (take_bit n a - b) = take_bit n (a - b)"
  using take_bit_word_add [OF assms, of "take_bit n a" b] take_bit_word_add [OF assms, of a b]
    take_bit_word_diff [OF assms, of "take_bit n a" b] take_bit_word_diff [OF assms, of a b]
  by (simp_all add: add.commute)

lemma and_ffff: "(x :: u32) AND 0xffff = take_bit 16 x"
  by (simp add: take_bit_eq_mask mask_numeral)

lemma pack_low: "take_bit 16 (push_bit 16 h OR take_bit 16 l :: u32) = take_bit 16 l"
  by (rule bit_eqI) (auto simp: bit_simps)

lemma pack_high: "drop_bit 16 (push_bit 16 (take_bit 16 h) OR take_bit 16 l :: u32) = take_bit 16 h"
  by (rule bit_eqI) (auto simp: bit_simps)

section \<open>The rolling checksum\<close>

lemma lcksum_loop_snoc:
  "lcksum_loop (xs @ [c]) s = (case lcksum_loop xs s of (l, h) \<Rightarrow> (l + PERMUTE c, h + (l + PERMUTE c)))"
  by (induction xs s rule: lcksum_loop.induct) auto

lemma lcksum_loop_shift:
  "lcksum_loop xs (l + a, h + b) =
    (case lcksum_loop xs (l, h) of (l', h') \<Rightarrow> (l' + a, h' + b + of_nat (length xs) * a))"
proof (induction xs arbitrary: l h a b)
  case (Cons x xs)
  have "lcksum_loop (x # xs) (l + a, h + b)
      = lcksum_loop xs ((l + PERMUTE x) + a, (h + (l + PERMUTE x)) + (b + a))"
    by (simp add: algebra_simps)
  also have "\<dots> = (case lcksum_loop (x # xs) (l, h) of
      (l', h') \<Rightarrow> (l' + a, h' + (b + a) + of_nat (length xs) * a))"
    by (subst Cons.IH) simp
  finally show ?case by (auto simp: algebra_simps split: prod.splits)
qed simp

lemma lcksum_slide:
  assumes "lcksum_loop ys (0, 0) = (s, t)"
  shows "lcksum_loop (b # ys) (0, 0) = (s + PERMUTE b, t + of_nat (Suc (length ys)) * PERMUTE b)"
    and "lcksum_loop (ys @ [c]) (0, 0) = (s + PERMUTE c, t + (s + PERMUTE c))"
  using assms lcksum_loop_shift [of ys 0 "PERMUTE b" 0 "PERMUTE b"]
  by (simp_all add: lcksum_loop_snoc algebra_simps)

section \<open>Table sizes\<close>

lemma size_log2_loop_spec:
  assumes "3 \<le> i" and "i \<le> 29" and "2 ^ (i - 1) \<le> unat slots \<or> i = 3"
  defines "b \<equiv> size_log2_loop slots i"
  shows "2 \<le> b \<and> b \<le> 28 \<and> (4 \<le> unat slots \<longrightarrow> 2 ^ b \<le> unat slots)
    \<and> (unat slots < 2 ^ 28 \<longrightarrow> unat slots < 2 ^ (b + 1))"
  using assms(1-3) unfolding b_def
proof (induction slots i rule: size_log2_loop.induct)
  case (1 slots i)
  have p: "slots < push_bit i 1 \<longleftrightarrow> unat slots < 2 ^ i" if "i \<le> 28"
  proof -
    have "unat (push_bit i 1 :: u32) = 2 ^ i"
      using that by (simp add: unat_pow2 del: push_bit_of_1)
    then show ?thesis by (simp add: word_less_nat_alt)
  qed
  show ?case
  proof (cases "i \<le> 28 \<and> \<not> unat slots < 2 ^ i")
    case True
    then have "size_log2_loop slots i = size_log2_loop slots (i + 1)"
      using p by (subst size_log2_loop.simps) simp
    with 1 True p show ?thesis by auto
  next
    case False
    then consider "i = 29" | "i \<le> 28" "unat slots < 2 ^ i" using 1 by linarith
    then show ?thesis
    proof cases
      case 2
      then have "size_log2_loop slots i = i - 1" using p by (subst size_log2_loop.simps) simp
      with 2 1 show ?thesis by auto
    qed (use 1 in \<open>simp_all add: size_log2_loop.simps\<close>)
  qed
qed

lemma hash_cfg_hash_bound:
  assumes "2 \<le> bits" "bits \<le> 28"
  shows "drop_bit (32 - bits) (c :: u32) XOR (c AND (push_bit bits 1 - 1)) < push_bit bits 1"
proof -
  have m: "push_bit bits 1 - 1 = (mask bits :: u32)" by (simp add: mask_eq_exp_minus_1 push_bit_eq_mult)
  have "n < bits" if "bit c (32 - bits + n)" for n
    using bit_imp_le_length [OF that] assms by simp
  then have "take_bit bits (drop_bit (32 - bits) c) = drop_bit (32 - bits) c"
    by (intro bit_eqI) (auto simp: bit_take_bit_iff bit_drop_bit_eq)
  then have "take_bit bits (drop_bit (32 - bits) c XOR take_bit bits c) = drop_bit (32 - bits) c XOR take_bit bits c"
    by (simp add: take_bit_xor)
  then have "unat (drop_bit (32 - bits) c XOR take_bit bits c) < 2 ^ bits"
    by (metis take_bit_nat_eq_self_iff unsigned_take_bit_eq)
  moreover have "unat (push_bit bits 1 :: u32) = 2 ^ bits"
    using assms by (simp add: unat_pow2 del: push_bit_of_1)
  ultimately show ?thesis by (simp add: m word_less_nat_alt take_bit_eq_mask del: push_bit_of_1)
qed

section \<open>Runs\<close>

text \<open>The run that ends a byte string: its length and its byte.\<close>

definition last_run :: "u8 list \<Rightarrow> nat" where
  "last_run seg = length (takeWhile (\<lambda>c. c = last seg) (rev seg))"

lemma last_run_snoc:
  assumes "xs \<noteq> []"
  shows "last_run (xs @ [c]) = (if c = last xs then Suc (last_run xs) else 1)"
proof -
  obtain ys y where "xs = ys @ [y]" using assms by (metis append_butlast_last_id)
  then show ?thesis by (simp add: last_run_def)
qed

lemma comprun_fold:
  assumes "xs \<noteq> []"
  shows "fold NEXTRUN xs (0, 0) = (of_nat (last_run xs), last xs)"
  using assms
proof (induction xs rule: rev_induct)
  case (snoc c xs)
  show ?case
  proof (cases "xs = []")
    case True
    then show ?thesis by (simp add: NEXTRUN_def last_run_def)
  next
    case False
    then show ?thesis using snoc.IH by (simp add: NEXTRUN_def last_run_snoc add.commute)
  qed
qed simp

lemma size_log2_bounds: "2 \<le> xd3_size_log2 slots \<and> xd3_size_log2 slots \<le> 28"
  using size_log2_loop_spec [of 3 slots, folded xd3_size_log2_def, simplified] by simp

lemma hash_in_table: "xd3_checksum_hash (xd3_size_hashtable slots) cksum < hash_size (xd3_size_hashtable slots)"
proof -
  have b: "2 \<le> xd3_size_log2 slots" "xd3_size_log2 slots \<le> 28" using size_log2_bounds by simp_all
  have "unat (of_nat (32 - xd3_size_log2 slots) :: u32) = 32 - xd3_size_log2 slots" using b by (intro unat_of_nat_small) simp
  then show ?thesis using hash_cfg_hash_bound [OF b] by (simp add: xd3_checksum_hash_def xd3_size_hashtable_def Let_def)
qed

section \<open>Properties\<close>

text \<open>C25. The incremental large checksum is exact: updating the checksum of the window of \<open>look\<close> bytes at
  \<open>base\<close> gives the checksum computed from scratch for the window one byte further on, for every
  look-ahead and every content, with all the 32-bit wrap-around of the code.\<close>

theorem large_cksum_update_rolls:
  assumes "unat look < length base"
  shows "xd3_large_cksum_update (xd3_lcksum base look) base look = xd3_lcksum (drop 1 base) look"
proof (cases "unat look = 0")
  case True
  then show ?thesis
    by (simp add: xd3_large_cksum_update_def xd3_lcksum_def word_zero_iff_unat [symmetric])
next
  case False
  define ys c where "ys = take (unat look - 1) (drop 1 base)" and "c = base ! unat look"
  obtain b rest where base: "base = b # rest" using assms by (cases base) auto
  have w: "take (unat look) base = b # ys" "take (unat look) (drop 1 base) = ys @ [c]"
    and len: "Suc (length ys) = unat look"
    using assms False by (cases "unat look"; simp add: base ys_def c_def take_Suc_conv_app_nth)+
  obtain s t where st: "lcksum_loop ys (0, 0) = (s, t)" by fastforce
  note slide = lcksum_slide [OF st]
  have look: "of_nat (Suc (length ys)) = look" using len by simp
  have hd: "base ! 0 = b" "base ! unat look = c" by (simp_all add: base c_def)
  have low: "take_bit 16 (take_bit 16 (s + PERMUTE b) - PERMUTE b + PERMUTE c) = take_bit 16 (s + PERMUTE c)"
    using take_bit_word_absorb(1) [of 16 "take_bit 16 (s + PERMUTE b) - PERMUTE b" "PERMUTE c"]
      take_bit_word_absorb(3) [of 16 "s + PERMUTE b" "PERMUTE b"]
      take_bit_word_absorb(1) [of 16 s "PERMUTE c"] by simp
  have high: "take_bit 16 (take_bit 16 (t + look * PERMUTE b) - PERMUTE b * look + take_bit 16 x)
      = take_bit 16 (t + x)" for x
    using take_bit_word_absorb(1) [of 16 "take_bit 16 (t + look * PERMUTE b) - PERMUTE b * look" x]
      take_bit_word_absorb(3) [of 16 "t + look * PERMUTE b" "PERMUTE b * look"]
      take_bit_word_absorb(1) [of 16 t x]
      take_bit_word_absorb(2) [of 16 "take_bit 16 (t + look * PERMUTE b) - PERMUTE b * look" x]
    by (simp add: mult.commute)
  show ?thesis
    unfolding xd3_large_cksum_update_def xd3_lcksum_def w slide look Let_def hd prod.case and_ffff
      pack_low pack_high low high ..
qed

theorem large_cksum_update_rolls_witness:
  "xd3_large_cksum_update (xd3_lcksum [1, 2, 3, 4] 3) [1, 2, 3, 4] 3 = xd3_lcksum (drop 1 [1, 2, 3, 4]) 3"
  by (rule large_cksum_update_rolls) simp

text \<open>C27. A hash table sized by \<open>xd3_size_hashtable\<close> is indexed in range: for every number of slots and
  every 32-bit checksum the hash is below the table size; the size is a power of two between 4 and
  2^28, no larger than the slots asked for (when at least 4) and more than half of them (below 2^28).\<close>

theorem checksum_hash_in_table:
  "xd3_checksum_hash (xd3_size_hashtable slots) cksum < hash_size (xd3_size_hashtable slots)
   \<and> (\<exists>bits. 2 \<le> bits \<and> bits \<le> 28 \<and> unat (hash_size (xd3_size_hashtable slots)) = 2 ^ bits
        \<and> (4 > unat slots \<or> 2 ^ bits \<le> unat slots)
        \<and> (unat slots \<ge> 2 ^ 28 \<or> unat slots < 2 ^ (bits + 1)))"
proof -
  let ?b = "xd3_size_log2 slots"
  note spec = size_log2_loop_spec [of 3 slots, folded xd3_size_log2_def, simplified]
  then have b: "2 \<le> ?b" "?b \<le> 28" by simp_all
  have "xd3_checksum_hash (xd3_size_hashtable slots) cksum < hash_size (xd3_size_hashtable slots)" by (rule hash_in_table)
  moreover have "unat (hash_size (xd3_size_hashtable slots)) = 2 ^ ?b"
    using b by (simp add: xd3_size_hashtable_def Let_def unat_pow2 del: push_bit_of_1)
  ultimately show ?thesis using spec by (intro conjI exI [of _ ?b]) auto
qed

text \<open>C34. \<open>xd3_comprun\<close> returns the byte that ends the \<open>slook\<close> bytes it is given and the length of the run
  of it that ends there.\<close>

theorem comprun_last_run:
  assumes "0 < slook" and "unat slook \<le> length seg"
  shows "xd3_comprun seg slook = (of_nat (last_run (take (unat slook) seg)), seg ! (unat slook - 1))"
proof -
  have "take (unat slook) seg \<noteq> []" using assms by (auto simp: word_less_nat_alt)
  moreover have "last (take (unat slook) seg) = seg ! (unat slook - 1)"
    using assms by (subst last_conv_nth) (auto simp: word_less_nat_alt min_def)
  ultimately show ?thesis by (simp add: xd3_comprun_def comprun_fold)
qed

theorem comprun_last_run_witness:
  "xd3_comprun [7, 9, 9, 9, 4] 4 = (3, 9)"
  using comprun_last_run [of 4 "[7, 9, 9, 9, 4]"] by (simp add: last_run_def)

end
