(* ===== verification/Xd3_Addrcache.thy ===== *)
theory Xd3_Addrcache
  imports Xd3_Integer
begin

text \<open>
  The copy-address cache of VCDIFF (xdelta3.c, "Address cache stuff"): the near and same arrays,
  their update, the encoder's choice of an address mode and the decoder's inverse.  Encoder and
  decoder each keep a cache and never exchange it, so what makes the coding correct is that both
  caches go through the same states; the locale \<open>addr_codec\<close> states the one-step contract and
  derives the round trip of whole address sections from it.

  A \<open>NULL\<close> array is \<open>None\<close>; an access outside an array makes the operation undefined (\<open>None\<close>, or
  \<open>C_UB\<close> where there is a return code).
\<close>

section \<open>The cache\<close>

definition VCD_SELF :: u32 where "VCD_SELF = 0"
definition VCD_HERE :: u32 where "VCD_HERE = 1"

record xd3_addr_cache =
  s_near :: u32
  s_same :: u32
  next_slot :: u32
  near_array :: "u32 list option"
  same_array :: "u32 list option"

definition TOTAL_MODES :: "xd3_addr_cache \<Rightarrow> u32" where
  "TOTAL_MODES ac = 2 + s_same ac + s_near ac"

definition arr_get :: "'v list option \<Rightarrow> nat \<Rightarrow> 'v option" where
  "arr_get a i = (case a of None \<Rightarrow> None | Some xs \<Rightarrow> if i < length xs then Some (xs ! i) else None)"

definition arr_set :: "'v list option \<Rightarrow> nat \<Rightarrow> 'v \<Rightarrow> 'v list option" where
  "arr_set a i v = (case a of None \<Rightarrow> None | Some xs \<Rightarrow> if i < length xs then Some (xs[i := v]) else None)"

text \<open>\<open>memset (a, 0, n * sizeof (usize_t))\<close>, undefined when the array is shorter.\<close>

definition arr_clear :: "u32 list option \<Rightarrow> nat \<Rightarrow> u32 list option" where
  "arr_clear a n = (case a of None \<Rightarrow> None
     | Some xs \<Rightarrow> if n \<le> length xs then Some (replicate n 0 @ drop n xs) else None)"

definition xd3_init_cache :: "xd3_addr_cache \<Rightarrow> xd3_addr_cache option" where
  "xd3_init_cache ac =
    (case (if s_near ac > 0
           then map_option (\<lambda>xs. ac\<lparr>near_array := Some xs, next_slot := 0\<rparr>)
                  (arr_clear (near_array ac) (unat (s_near ac)))
           else Some ac) of
       None \<Rightarrow> None
     | Some ac1 \<Rightarrow>
        (if s_same ac1 > 0
         then map_option (\<lambda>xs. ac1\<lparr>same_array := Some xs\<rparr>)
                (arr_clear (same_array ac1) (unat (s_same ac1) * 256))
         else Some ac1))"

definition xd3_update_cache :: "xd3_addr_cache \<Rightarrow> u32 \<Rightarrow> xd3_addr_cache option" where
  "xd3_update_cache ac addr =
    (case (if s_near ac > 0
           then map_option (\<lambda>xs. ac\<lparr>near_array := Some xs, next_slot := (next_slot ac + 1) mod s_near ac\<rparr>)
                  (arr_set (near_array ac) (unat (next_slot ac)) addr)
           else Some ac) of
       None \<Rightarrow> None
     | Some ac1 \<Rightarrow>
        (if s_same ac1 > 0
         then map_option (\<lambda>xs. ac1\<lparr>same_array := Some xs\<rparr>)
                (arr_set (same_array ac1) (unat (addr mod (s_same ac1 * 256))) addr)
         else Some ac1))"

section \<open>Encoding an address\<close>

text \<open>\<open>SMALLEST_INT (x)\<close> jumps to \<open>good\<close> when its argument fits one byte.\<close>

definition SMALLEST_INT :: "u32 \<Rightarrow> bool" where
  "SMALLEST_INT x \<longleftrightarrow> x AND NOT 127 = 0"

text \<open>The loop over the near array from slot \<open>i\<close> with \<open>n\<close> slots to go; the first component of the
  result says that the code jumped to \<open>good\<close>.\<close>

fun near_loop :: "u32 list option \<Rightarrow> u32 \<Rightarrow> nat \<Rightarrow> nat \<Rightarrow> u32 \<times> u32 \<Rightarrow> (bool \<times> u32 \<times> u32) option" where
  "near_loop arr addr i 0 (bestd, bestm) = Some (False, bestd, bestm)"
| "near_loop arr addr i (Suc n) (bestd, bestm) =
    (case arr_get arr i of
       None \<Rightarrow> None
     | Some v \<Rightarrow>
        (if addr \<ge> v \<and> addr - v < bestd
         then (if SMALLEST_INT (addr - v) then Some (True, addr - v, of_nat i + 2)
               else near_loop arr addr (Suc i) n (addr - v, of_nat i + 2))
         else near_loop arr addr (Suc i) n (bestd, bestm)))"

text \<open>\<open>xd3_encode_address\<close> up to its output: whether the same array holds the address (one plain byte
  is written) or not (a variable-length integer), the number to write and the mode.\<close>

definition encode_address_choose :: "xd3_addr_cache \<Rightarrow> u32 \<Rightarrow> u32 \<Rightarrow> (bool \<times> u32 \<times> u32) option" where
  "encode_address_choose ac addr here =
    (if SMALLEST_INT addr then Some (False, addr, VCD_SELF)
     else
       let d = here - addr; (bestd, bestm) = (if d < addr then (d, VCD_HERE) else (addr, VCD_SELF)) in
       if d < addr \<and> SMALLEST_INT d then Some (False, bestd, bestm)
       else
         (case near_loop (near_array ac) addr 0 (unat (s_near ac)) (bestd, bestm) of
            None \<Rightarrow> None
          | Some (good, bestd, bestm) \<Rightarrow>
             (if good then Some (False, bestd, bestm)
              else if s_same ac > 0 then
                (let d = addr mod (s_same ac * 256) in
                 case arr_get (same_array ac) (unat d) of
                   None \<Rightarrow> None
                 | Some v \<Rightarrow>
                    (if v = addr then Some (True, d mod 256, s_near ac + 2 + d div 256)
                     else Some (False, bestd, bestm)))
              else Some (False, bestd, bestm))))"

text \<open>The bytes \<open>xd3_encode_address\<close> appends to the address section, the mode it adds to the
  instruction type and the cache it leaves.\<close>

definition encode_address_bytes :: "xd3_addr_cache \<Rightarrow> u32 \<Rightarrow> u32 \<Rightarrow> (u8 list \<times> u32 \<times> xd3_addr_cache) option" where
  "encode_address_bytes ac addr here =
    (case encode_address_choose ac addr here of
       None \<Rightarrow> None
     | Some (same, bestd, bestm) \<Rightarrow>
        map_option (\<lambda>ac'. (if same then [ucast bestd] else emit_integer_type bestd, bestm, ac'))
          (xd3_update_cache ac addr))"

section \<open>Decoding an address\<close>

definition xd3_decode_address ::
    "xd3_addr_cache \<Rightarrow> u32 \<Rightarrow> u32 \<Rightarrow> u8 list \<Rightarrow> (xd3_ret \<times> string) + (u32 \<times> u8 list \<times> xd3_addr_cache)" where
  "xd3_decode_address ac here mode inp =
    (let same_start = 2 + s_near ac;
         finish = (\<lambda>val rest. case xd3_update_cache ac val of
                     None \<Rightarrow> Inl (C_UB, '''')
                   | Some ac' \<Rightarrow> Inr (val, rest, ac'))
     in if mode < same_start then
          (case xd3_read_uint32_t inp of
             Inl m \<Rightarrow> Inl (XD3_INVALID_INPUT, m)
           | Inr (v, rest) \<Rightarrow>
              (if mode = VCD_SELF then finish v rest
               else if mode = VCD_HERE then finish (here - v) rest
               else (case arr_get (near_array ac) (unat (mode - 2)) of
                       None \<Rightarrow> Inl (C_UB, '''')
                     | Some nv \<Rightarrow> finish (v + nv) rest)))
        else
          (case inp of
             [] \<Rightarrow> Inl (XD3_INVALID_INPUT, ''address underflow'')
           | b # rest \<Rightarrow>
              (case arr_get (same_array ac) (unat ((mode - same_start) * 256 + ucast b)) of
                 None \<Rightarrow> Inl (C_UB, '''')
               | Some v \<Rightarrow> finish v rest)))"

section \<open>Well-formed caches\<close>

text \<open>Both sizes come from one byte of the file or from the default table.\<close>

definition cache_wf :: "xd3_addr_cache \<Rightarrow> bool" where
  "cache_wf ac \<longleftrightarrow> unat (s_near ac) \<le> 255 \<and> unat (s_same ac) \<le> 255 \<and>
     (0 < unat (s_near ac) \<longrightarrow> unat (next_slot ac) < unat (s_near ac) \<and>
        (\<exists>xs. near_array ac = Some xs \<and> length xs = unat (s_near ac))) \<and>
     (0 < unat (s_same ac) \<longrightarrow> (\<exists>xs. same_array ac = Some xs \<and> length xs = unat (s_same ac) * 256))"

lemma same_slots: "cache_wf ac \<Longrightarrow> unat (s_same ac * 256) = unat (s_same ac) * 256"
  using unat_mult_lem [of "s_same ac" 256] by (simp add: cache_wf_def)

lemma arr_get_eq_Some [simp]: "arr_get (Some xs) i = Some v \<longleftrightarrow> i < length xs \<and> v = xs ! i"
  by (auto simp: arr_get_def)

lemma same_index:
  assumes "cache_wf ac" and "0 < s_same ac"
  shows "unat (addr mod (s_same ac * 256)) < unat (s_same ac) * 256"
  using assms same_slots [OF assms(1)] by (simp add: unat_mod_distrib word_less_nat_alt)

lemma cache_sizes_pos: "0 < s_near ac \<longleftrightarrow> 0 < unat (s_near ac)" "0 < s_same ac \<longleftrightarrow> 0 < unat (s_same ac)"
  by (simp_all add: word_less_nat_alt)

lemma update_cache_wf:
  assumes "cache_wf ac"
  obtains ac' where "xd3_update_cache ac addr = Some ac'" "cache_wf ac'"
    "s_near ac' = s_near ac" "s_same ac' = s_same ac"
proof -
  let ?near = "if s_near ac > 0
           then map_option (\<lambda>xs. ac\<lparr>near_array := Some xs, next_slot := (next_slot ac + 1) mod s_near ac\<rparr>)
                  (arr_set (near_array ac) (unat (next_slot ac)) addr)
           else Some ac"
  obtain ac1 where ac1: "?near = Some ac1" "cache_wf ac1" "s_near ac1 = s_near ac" "s_same ac1 = s_same ac"
  proof (cases "0 < s_near ac")
    case True
    then obtain xs where "near_array ac = Some xs" "length xs = unat (s_near ac)" "unat (next_slot ac) < unat (s_near ac)"
      using assms by (auto simp: cache_wf_def cache_sizes_pos)
    with True assms show ?thesis
      by (intro that [of "ac\<lparr>near_array := Some (xs[unat (next_slot ac) := addr]),
            next_slot := (next_slot ac + 1) mod s_near ac\<rparr>"])
        (auto simp: arr_set_def cache_wf_def unat_mod_distrib cache_sizes_pos)
  qed (use assms that in simp)
  show ?thesis
  proof (cases "0 < s_same ac")
    case True
    then obtain xs where "same_array ac1 = Some xs" "length xs = unat (s_same ac) * 256"
      using ac1 by (auto simp: cache_wf_def cache_sizes_pos)
    with True ac1 same_index [OF ac1(2), of addr] show ?thesis
      by (intro that [of "ac1\<lparr>same_array := Some (xs[unat (addr mod (s_same ac1 * 256)) := addr])\<rparr>"])
        (auto simp: xd3_update_cache_def arr_set_def cache_wf_def)
  qed (use ac1 that in \<open>simp add: xd3_update_cache_def\<close>)
qed

section \<open>The encoder's choice\<close>

lemma smallest_int_iff: "SMALLEST_INT x \<longleftrightarrow> unat x < 128"
  using and_not_mask_zero_iff [of x 7] by (simp add: SMALLEST_INT_def mask_numeral)

text \<open>The candidates the near loop looks at from slot \<open>i\<close> on: the distance to a near entry that is not
  above the address, with its mode.\<close>

definition near_cands :: "u32 list \<Rightarrow> u32 \<Rightarrow> nat \<Rightarrow> nat \<Rightarrow> (u32 \<times> u32) set" where
  "near_cands xs addr i n = (\<lambda>j. (addr - xs ! j, of_nat j + 2)) ` {j \<in> {i ..< i + n}. xs ! j \<le> addr}"

lemma near_cands_Suc:
  "near_cands xs addr i (Suc n) =
    (if xs ! i \<le> addr then insert (addr - xs ! i, of_nat i + 2) (near_cands xs addr (Suc i) n)
     else near_cands xs addr (Suc i) n)"
proof -
  have "{i ..< i + Suc n} = insert i {Suc i ..< Suc i + n}" by auto
  then have "{j \<in> {i ..< i + Suc n}. xs ! j \<le> addr} =
      (if xs ! i \<le> addr then insert i {j \<in> {Suc i ..< Suc i + n}. xs ! j \<le> addr}
       else {j \<in> {Suc i ..< Suc i + n}. xs ! j \<le> addr})" by auto
  then show ?thesis by (simp add: near_cands_def)
qed

text \<open>What the near loop returns: one of the candidates or the value it was given, no larger than the
  latter, and unless the loop stopped at a one-byte value no candidate is smaller.\<close>

lemma near_loop_spec:
  assumes "near_loop (Some xs) addr i n (bd, bm) = Some (good, bd', bm')"
  shows "(bd', bm') \<in> insert (bd, bm) (near_cands xs addr i n) \<and> bd' \<le> bd \<and> (good \<longrightarrow> SMALLEST_INT bd')
    \<and> (good \<or> (\<forall>(d, m) \<in> near_cands xs addr i n. bd' \<le> d))"
  using assms
proof (induction n arbitrary: i bd bm)
  case (Suc n)
  show ?case
  proof (cases "addr \<ge> xs ! i \<and> addr - xs ! i < bd")
    case better: True
    show ?thesis
    proof (cases "SMALLEST_INT (addr - xs ! i)")
      case True
      with better Suc.prems show ?thesis by (auto simp: near_cands_Suc split: option.splits if_splits)
    next
      case False
      with better Suc.prems have rec: "near_loop (Some xs) addr (Suc i) n (addr - xs ! i, of_nat i + 2) = Some (good, bd', bm')"
        by (auto split: option.splits)
      from Suc.IH [OF rec] better show ?thesis
        by (auto simp: near_cands_Suc dest: order.strict_implies_order)
    qed
  next
    case False
    with Suc.prems have rec: "near_loop (Some xs) addr (Suc i) n (bd, bm) = Some (good, bd', bm')"
      by (auto split: option.splits if_splits)
    from Suc.IH [OF rec] False show ?thesis by (auto simp: near_cands_Suc not_less)
  qed
qed (auto simp: near_cands_def)

lemma near_loop_total:
  assumes "i + n \<le> length xs"
  shows "near_loop (Some xs) addr i n (bd, bm) \<noteq> None"
  using assms by (induction n arbitrary: i bd bm) (auto simp: arr_get_def)

text \<open>The near loop of a well-formed cache; without a near array it does nothing.\<close>

definition near_list :: "xd3_addr_cache \<Rightarrow> u32 list" where
  "near_list ac = (if s_near ac = 0 then [] else the (near_array ac))"

lemma near_list_length: "cache_wf ac \<Longrightarrow> length (near_list ac) = unat (s_near ac)"
  by (auto simp: cache_wf_def near_list_def unat_gt_0)

lemma near_list_get:
  "cache_wf ac \<Longrightarrow> j < unat (s_near ac) \<Longrightarrow> arr_get (near_array ac) j = Some (near_list ac ! j)"
  by (auto simp: cache_wf_def near_list_def unat_gt_0)

lemma near_loop_cache:
  assumes "cache_wf ac"
  shows "near_loop (near_array ac) addr 0 (unat (s_near ac)) s
    = near_loop (Some (near_list ac)) addr 0 (unat (s_near ac)) s"
proof (cases "s_near ac = 0")
  case True
  then show ?thesis by (cases s) simp
next
  case False
  then show ?thesis using assms by (auto simp: cache_wf_def near_list_def unat_gt_0)
qed

text \<open>All values the encoder may write for an address outside the same array.\<close>

definition addr_cands :: "xd3_addr_cache \<Rightarrow> u32 \<Rightarrow> u32 \<Rightarrow> (u32 \<times> u32) set" where
  "addr_cands ac addr here =
    insert (addr, VCD_SELF) (insert (here - addr, VCD_HERE)
      (near_cands (near_list ac) addr 0 (unat (s_near ac))))"

text \<open>The choice past the one-byte cases, over the near list.\<close>

lemma choose_near:
  assumes "cache_wf ac" and "\<not> SMALLEST_INT addr" and "\<not> (here - addr < addr \<and> SMALLEST_INT (here - addr))"
  obtains g d m where
    "near_loop (Some (near_list ac)) addr 0 (unat (s_near ac))
       (if here - addr < addr then (here - addr, VCD_HERE) else (addr, VCD_SELF)) = Some (g, d, m)"
    "encode_address_choose ac addr here =
       (if g then Some (False, d, m)
        else if s_same ac > 0 then
          (case arr_get (same_array ac) (unat (addr mod (s_same ac * 256))) of
             None \<Rightarrow> None
           | Some v \<Rightarrow> (if v = addr then Some (True, addr mod (s_same ac * 256) mod 256,
                 s_near ac + 2 + addr mod (s_same ac * 256) div 256) else Some (False, d, m)))
        else Some (False, d, m))"
proof -
  let ?s = "if here - addr < addr then (here - addr, VCD_HERE) else (addr, VCD_SELF)"
  obtain g d m where l: "near_loop (Some (near_list ac)) addr 0 (unat (s_near ac)) ?s = Some (g, d, m)"
    using near_loop_total [of 0 "unat (s_near ac)" "near_list ac" addr "fst ?s" "snd ?s"] near_list_length [OF assms(1)]
    by auto
  show thesis
    by (rule that [OF l]; cases "here - addr < addr")
      (use assms(2,3) l in \<open>simp_all add: encode_address_choose_def Let_def near_loop_cache [OF assms(1)]\<close>)
qed

lemma choose_cases:
  assumes "cache_wf ac" and "encode_address_choose ac addr here = Some (same, bd, bm)"
  shows "if same then s_same ac > 0 \<and> bd = addr mod (s_same ac * 256) mod 256
            \<and> bm = s_near ac + 2 + addr mod (s_same ac * 256) div 256
            \<and> arr_get (same_array ac) (unat (addr mod (s_same ac * 256))) = Some addr
         else (bd, bm) \<in> addr_cands ac addr here
            \<and> (SMALLEST_INT bd \<or> (\<forall>(d, m) \<in> addr_cands ac addr here. bd \<le> d)
                \<and> \<not> (s_same ac > 0 \<and> arr_get (same_array ac) (unat (addr mod (s_same ac * 256))) = Some addr))"
proof -
  define s where "s = (if here - addr < addr then (here - addr, VCD_HERE) else (addr, VCD_SELF))"
  consider (self) "SMALLEST_INT addr" | (here) "\<not> SMALLEST_INT addr" "here - addr < addr" "SMALLEST_INT (here - addr)"
    | (near) "\<not> SMALLEST_INT addr" "\<not> (here - addr < addr \<and> SMALLEST_INT (here - addr))" by blast
  then show ?thesis
  proof cases
    case self
    with assms(2) show ?thesis by (auto simp: encode_address_choose_def addr_cands_def)
  next
    case here
    with assms(2) show ?thesis by (auto simp: encode_address_choose_def addr_cands_def Let_def)
  next
    case near
    obtain g d m where l: "near_loop (Some (near_list ac)) addr 0 (unat (s_near ac)) s = Some (g, d, m)"
      and ch: "encode_address_choose ac addr here =
       (if g then Some (False, d, m)
        else if s_same ac > 0 then
          (case arr_get (same_array ac) (unat (addr mod (s_same ac * 256))) of
             None \<Rightarrow> None
           | Some v \<Rightarrow> (if v = addr then Some (True, addr mod (s_same ac * 256) mod 256,
                 s_near ac + 2 + addr mod (s_same ac * 256) div 256) else Some (False, d, m)))
        else Some (False, d, m))"
      using choose_near [OF assms(1) near] unfolding s_def by metis
    have s: "fst s \<le> addr" "fst s \<le> here - addr" "s = (addr, VCD_SELF) \<or> s = (here - addr, VCD_HERE)"
      by (auto simp: s_def not_less)
    have dm: "(d, m) \<in> addr_cands ac addr here" "g \<longrightarrow> SMALLEST_INT d"
      "g \<or> (\<forall>(d', m') \<in> addr_cands ac addr here. d \<le> d')"
      using near_loop_spec [of "near_list ac" addr 0 "unat (s_near ac)" "fst s" "snd s" g d m] l s
      by (auto simp: addr_cands_def dest: order_trans)
    from ch assms(2) dm show ?thesis by (auto split: if_splits option.splits)
  qed
qed

lemma choose_total:
  assumes "cache_wf ac"
  shows "encode_address_choose ac addr here \<noteq> None"
proof -
  have same: "arr_get (same_array ac) (unat (addr mod (s_same ac * 256))) \<noteq> None" if "s_same ac > 0"
    using assms that same_index [OF assms that, of addr] by (auto simp: cache_wf_def cache_sizes_pos)
  consider "SMALLEST_INT addr" | "\<not> SMALLEST_INT addr" "here - addr < addr" "SMALLEST_INT (here - addr)"
    | "\<not> SMALLEST_INT addr" "\<not> (here - addr < addr \<and> SMALLEST_INT (here - addr))" by blast
  then show ?thesis
  proof cases
    case 3
    obtain g d m where "encode_address_choose ac addr here =
       (if g then Some (False, d, m)
        else if s_same ac > 0 then
          (case arr_get (same_array ac) (unat (addr mod (s_same ac * 256))) of
             None \<Rightarrow> None
           | Some v \<Rightarrow> (if v = addr then Some (True, addr mod (s_same ac * 256) mod 256,
                 s_near ac + 2 + addr mod (s_same ac * 256) div 256) else Some (False, d, m)))
        else Some (False, d, m))"
      by (rule choose_near [OF assms 3])
    with same show ?thesis by (auto simp del: not_None_eq split: option.split)
  qed (simp_all add: encode_address_choose_def Let_def)
qed

section \<open>The decoder undoes the encoder\<close>

lemma decode_mode_self: "xd3_decode_address ac here VCD_SELF (emit_integer_type v @ rest) =
    (case xd3_update_cache ac v of None \<Rightarrow> Inl (C_UB, '''') | Some ac' \<Rightarrow> Inr (v, rest, ac'))"
  if "cache_wf ac"
proof -
  have "(VCD_SELF :: u32) < 2 + s_near ac"
    using that unat_add_u32 [of 2 "s_near ac"] by (simp add: cache_wf_def word_less_nat_alt VCD_SELF_def)
  then show ?thesis
    by (simp add: xd3_decode_address_def xd3_read_uint32_t_def varint32.read_emit)
qed

lemma decode_mode_here: "xd3_decode_address ac here VCD_HERE (emit_integer_type v @ rest) =
    (case xd3_update_cache ac (here - v) of None \<Rightarrow> Inl (C_UB, '''') | Some ac' \<Rightarrow> Inr (here - v, rest, ac'))"
  if "cache_wf ac"
proof -
  have "(VCD_HERE :: u32) < 2 + s_near ac"
    using that unat_add_u32 [of 2 "s_near ac"] by (simp add: cache_wf_def word_less_nat_alt VCD_HERE_def)
  then show ?thesis
    by (simp add: xd3_decode_address_def xd3_read_uint32_t_def varint32.read_emit VCD_HERE_def VCD_SELF_def)
qed

lemma near_mode_facts:
  assumes "cache_wf ac" and "j < unat (s_near ac)"
  shows "of_nat j + 2 < 2 + s_near ac" "of_nat j + 2 \<noteq> VCD_SELF" "of_nat j + 2 \<noteq> VCD_HERE"
    and "unat (of_nat j + 2 - 2 :: u32) = j"
proof -
  have "unat (s_near ac) \<le> 255" using assms(1) by (simp add: cache_wf_def)
  with assms(2) have "unat (of_nat j + 2 :: u32) = j + 2" "unat (2 + s_near ac) = 2 + unat (s_near ac)"
    using unat_add_u32 [of "of_nat j" 2] unat_add_u32 [of 2 "s_near ac"] by (simp_all add: unat_of_nat_small)
  with assms(2) show "of_nat j + 2 < 2 + s_near ac" "of_nat j + 2 \<noteq> VCD_SELF" "of_nat j + 2 \<noteq> VCD_HERE"
    by (auto simp: word_less_nat_alt VCD_SELF_def VCD_HERE_def word_unat_eq_iff)
  show "unat (of_nat j + 2 - 2 :: u32) = j"
    using assms(2) \<open>unat (s_near ac) \<le> 255\<close> by (simp add: unat_of_nat_small)
qed

lemma decode_mode_near: "xd3_decode_address ac here (of_nat j + 2) (emit_integer_type v @ rest) =
    (case xd3_update_cache ac (v + near_list ac ! j) of
       None \<Rightarrow> Inl (C_UB, '''') | Some ac' \<Rightarrow> Inr (v + near_list ac ! j, rest, ac'))"
  if "cache_wf ac" "j < unat (s_near ac)"
proof -
  note f = near_mode_facts [OF that] near_list_get [OF that]
  have r: "xd3_read_uint32_t (emit_integer_type v @ rest) = Inr (v, rest)"
    by (simp add: xd3_read_uint32_t_def varint32.read_emit)
  show ?thesis
    unfolding xd3_decode_address_def Let_def by (simp only: f if_True if_False r sum.case prod.case option.case)
qed

lemma same_mode_facts:
  fixes addr :: u32
  assumes "cache_wf ac" and "s_same ac > 0"
  defines "d \<equiv> addr mod (s_same ac * 256)"
  shows "\<not> s_near ac + 2 + d div 256 < 2 + s_near ac"
    and "unat ((s_near ac + 2 + d div 256 - (2 + s_near ac)) * 256 + ucast (ucast (d mod 256) :: u8)) = unat d"
    and "unat (s_near ac + 2 + d div 256) < unat (TOTAL_MODES ac)"
proof -
  have b: "unat (s_near ac) \<le> 255" "unat (s_same ac) \<le> 255" using assms(1) by (simp_all add: cache_wf_def)
  have d: "unat d < unat (s_same ac) * 256" unfolding d_def by (rule same_index [OF assms(1,2)])
  then have q: "unat d div 256 < unat (s_same ac)" by (simp add: less_mult_imp_div_less)
  have dv: "unat (d div 256) = unat d div 256" using unat_div_distrib [of d 256] by simp
  have m1: "unat (2 + s_near ac) = 2 + unat (s_near ac)" using b by (subst unat_add_u32) simp_all
  have m2: "unat (s_near ac + 2 + d div 256) = unat (s_near ac) + 2 + unat d div 256"
    using b q m1 dv unat_add_u32 [of "2 + s_near ac" "d div 256"] by (simp add: add.commute)
  show "\<not> s_near ac + 2 + d div 256 < 2 + s_near ac" by (simp add: word_less_nat_alt m1 m2)
  have "unat (TOTAL_MODES ac) = 2 + unat (s_same ac) + unat (s_near ac)"
    unfolding TOTAL_MODES_def using b by (simp add: unat_add_u32)
  then show "unat (s_near ac + 2 + d div 256) < unat (TOTAL_MODES ac)" using q m2 by simp
  have e: "s_near ac + 2 + d div 256 - (2 + s_near ac) = d div 256" by simp
  have u: "(ucast (ucast (d mod 256) :: u8) :: u32) = d mod 256"
  proof -
    have t: "d mod 256 = take_bit 8 d" by (simp add: take_bit_eq_mod)
    show ?thesis unfolding t by (simp add: word_unat_eq_iff unsigned_ucast_eq)
  qed
  have "d div 256 * 256 + d mod 256 = d" by (rule div_mult_mod_eq)
  then show "unat ((s_near ac + 2 + d div 256 - (2 + s_near ac)) * 256 + ucast (ucast (d mod 256) :: u8)) = unat d"
    by (simp only: e u)
qed

lemma decode_encode_step:
  assumes "cache_wf ac" and "encode_address_bytes ac addr here = Some (bs, m, ac')"
  shows "xd3_decode_address ac here m (bs @ rest) = Inr (addr, rest, ac') \<and> cache_wf ac'
    \<and> unat m < unat (TOTAL_MODES ac)"
proof -
  obtain same bd where ch: "encode_address_choose ac addr here = Some (same, bd, m)"
    and up: "xd3_update_cache ac addr = Some ac'" and bs: "bs = (if same then [ucast bd] else emit_integer_type bd)"
    using assms(2) by (auto simp: encode_address_bytes_def split: option.splits)
  have wf': "cache_wf ac'" using update_cache_wf [OF assms(1), of addr] up by (metis option.inject)
  note cases = choose_cases [OF assms(1) ch]
  show ?thesis
  proof (cases same)
    case True
    with cases have c: "s_same ac > 0" "bd = addr mod (s_same ac * 256) mod 256"
      "m = s_near ac + 2 + addr mod (s_same ac * 256) div 256"
      "arr_get (same_array ac) (unat (addr mod (s_same ac * 256))) = Some addr" by simp_all
    note f = same_mode_facts [OF assms(1) c(1), of addr]
    show ?thesis
      using True bs c(4) up wf' f unfolding xd3_decode_address_def Let_def c(2,3) by simp
  next
    case False
    have near: "unat (s_near ac) \<le> 255" "unat (s_same ac) \<le> 255" using assms(1) by (simp_all add: cache_wf_def)
    then have tm: "unat (TOTAL_MODES ac) = 2 + unat (s_same ac) + unat (s_near ac)"
      unfolding TOTAL_MODES_def by (simp add: unat_add_u32)
    consider "bd = addr" "m = VCD_SELF" | "bd = here - addr" "m = VCD_HERE"
      | j where "j < unat (s_near ac)" "bd = addr - near_list ac ! j" "m = of_nat j + 2"
      using cases False by (auto simp: addr_cands_def near_cands_def)
    then show ?thesis
    proof cases
      case 1
      then show ?thesis using False bs up wf' decode_mode_self [OF assms(1)] tm by (simp add: VCD_SELF_def)
    next
      case 2
      then show ?thesis using False bs up wf' decode_mode_here [OF assms(1)] tm by (simp add: VCD_HERE_def)
    next
      case 3
      moreover from this have "unat m < unat (TOTAL_MODES ac)"
        using tm near unat_add_u32 [of "of_nat j" 2] by (simp add: unat_of_nat_small)
      ultimately show ?thesis using False bs up wf' decode_mode_near [OF assms(1) 3(1)] by simp
    qed
  qed
qed

lemma encode_step_total:
  assumes "cache_wf ac"
  obtains bs m ac' where "encode_address_bytes ac addr here = Some (bs, m, ac')"
  using choose_total [OF assms, of addr here] update_cache_wf [OF assms, of addr]
  by (force simp: encode_address_bytes_def)

section \<open>Whole address sections\<close>

text \<open>The contract of an address coder and the round trip of a section of addresses under it.\<close>

locale addr_codec =
  fixes enc :: "'c \<Rightarrow> 'a \<Rightarrow> 'h \<Rightarrow> (u8 list \<times> 'm \<times> 'c) option"
    and dec :: "'c \<Rightarrow> 'h \<Rightarrow> 'm \<Rightarrow> u8 list \<Rightarrow> 'e + ('a \<times> u8 list \<times> 'c)"
    and inv :: "'c \<Rightarrow> bool"
  assumes enc_total: "inv c \<Longrightarrow> enc c a h \<noteq> None"
    and dec_enc: "inv c \<Longrightarrow> enc c a h = Some (bs, m, c') \<Longrightarrow> dec c h m (bs @ rest) = Inr (a, rest, c')"
    and enc_inv: "inv c \<Longrightarrow> enc c a h = Some (bs, m, c') \<Longrightarrow> inv c'"
begin

fun enc_all :: "'c \<Rightarrow> ('a \<times> 'h) list \<Rightarrow> (u8 list \<times> 'm list \<times> 'c) option" where
  "enc_all c [] = Some ([], [], c)"
| "enc_all c ((a, h) # xs) =
    (case enc c a h of None \<Rightarrow> None
     | Some (bs, m, c1) \<Rightarrow>
        (case enc_all c1 xs of None \<Rightarrow> None
         | Some (bs', ms, c2) \<Rightarrow> Some (bs @ bs', m # ms, c2)))"

fun dec_all :: "'c \<Rightarrow> 'h list \<Rightarrow> 'm list \<Rightarrow> u8 list \<Rightarrow> 'e + ('a list \<times> u8 list \<times> 'c)" where
  "dec_all c (h # hs) (m # ms) inp =
    (case dec c h m inp of Inl e \<Rightarrow> Inl e
     | Inr (a, rest, c1) \<Rightarrow>
        (case dec_all c1 hs ms rest of Inl e \<Rightarrow> Inl e
         | Inr (as, rest', c2) \<Rightarrow> Inr (a # as, rest', c2)))"
| "dec_all c _ _ inp = Inr ([], inp, c)"

lemma dec_enc_all:
  assumes "inv c"
  shows "\<exists>bs ms c'. enc_all c xs = Some (bs, ms, c') \<and> inv c' \<and> length ms = length xs
    \<and> (\<forall>rest. dec_all c (map snd xs) ms (bs @ rest) = Inr (map fst xs, rest, c'))"
  using assms
proof (induction xs arbitrary: c)
  case (Cons x xs)
  obtain a h where x: "x = (a, h)" by fastforce
  obtain bs m c1 where e: "enc c a h = Some (bs, m, c1)" using enc_total [OF Cons.prems, of a h] by auto
  note d = dec_enc [OF Cons.prems e]
  from Cons.IH [OF enc_inv [OF Cons.prems e]] show ?case by (fastforce simp: x e d)
qed simp

end

interpretation vcdiff_addr: addr_codec encode_address_bytes xd3_decode_address cache_wf
proof
  show "cache_wf c \<Longrightarrow> encode_address_bytes c a h \<noteq> None" for c a h
    using encode_step_total by blast
qed (use decode_encode_step in blast)+

section \<open>Properties\<close>

text \<open>C18. \<open>xd3_decode_address\<close> undoes \<open>xd3_encode_address\<close>: from equal well-formed caches, for every
  address and position, the encoder never fails, the decoder given the mode and the bytes written
  returns the address, reads exactly those bytes and leaves the cache the encoder leaves; the mode is
  one the code table has.\<close>

theorem decode_encode_address:
  assumes "cache_wf ac"
  shows "\<exists>bs m ac'. encode_address_bytes ac addr here = Some (bs, m, ac')
    \<and> xd3_decode_address ac here m (bs @ rest) = Inr (addr, rest, ac') \<and> cache_wf ac'
    \<and> unat m < unat (TOTAL_MODES ac)"
  using encode_step_total [OF assms, of addr here] decode_encode_step [OF assms] by metis

definition default_cache :: xd3_addr_cache where
  "default_cache = \<lparr>s_near = 4, s_same = 3, next_slot = 0,
     near_array = Some (replicate 4 0), same_array = Some (replicate 768 0)\<rparr>"

lemma default_cache_wf: "cache_wf default_cache"
  by (simp add: cache_wf_def default_cache_def)

theorem decode_encode_address_witness:
  "\<exists>bs m ac'. encode_address_bytes default_cache 1000 5000 = Some (bs, m, ac')
    \<and> xd3_decode_address default_cache 5000 m (bs @ [7]) = Inr (1000, [7], ac') \<and> cache_wf ac'
    \<and> unat m < unat (TOTAL_MODES default_cache)"
  by (rule decode_encode_address [OF default_cache_wf])

text \<open>C19. The caches of encoder and decoder stay in step: a whole section of addresses, encoded one after
  the other from one cache, decodes from an equal cache to the same addresses.\<close>

theorem address_section_roundtrip:
  assumes "cache_wf ac"
  shows "\<exists>bs ms ac'. vcdiff_addr.enc_all ac xs = Some (bs, ms, ac') \<and> cache_wf ac' \<and> length ms = length xs
    \<and> (\<forall>rest. vcdiff_addr.dec_all ac (map snd xs) ms (bs @ rest) = Inr (map fst xs, rest, ac'))"
  using assms by (rule vcdiff_addr.dec_enc_all)

theorem address_section_roundtrip_witness:
  "\<exists>bs ms ac'. vcdiff_addr.enc_all default_cache [(1000, 5000), (1004, 5008)] = Some (bs, ms, ac')
    \<and> cache_wf ac' \<and> length ms = length [(1000 :: u32, 5000 :: u32), (1004, 5008)]
    \<and> (\<forall>rest. vcdiff_addr.dec_all default_cache (map snd [(1000 :: u32, 5000), (1004, 5008)]) ms (bs @ rest)
          = Inr (map fst [(1000, 5000 :: u32), (1004, 5008)], rest, ac'))"
  by (rule address_section_roundtrip [OF default_cache_wf])

end
