(* ===== verification/Xd3_Output.thy ===== *)
theory Xd3_Output
  imports Xd3_Integer Xd3_Arith
begin

text \<open>
  Allocation and the encoder's paged output (xdelta3.c, "Alloc/free", \<open>xd3_emit_byte\<close>,
  \<open>xd3_emit_bytes\<close>, \<open>EMIT_INTEGER_TYPE\<close>).  An output section is a chain of pages of
  \<open>XD3_ALLOCSIZE\<close> bytes; the C keeps pointers to its first and last page, the model keeps the list,
  whose last element is the page the tail pointer points to.  A page is the bytes written so far
  (\<open>base[0 .. next)\<close>) and its capacity.

  \<open>xd3_base\<close> is the part of \<open>struct xd3_stream\<close> every component uses; the components below extend it.
  The allocator is the client's (\<open>stream->alloc\<close>): the model asks it, call by call, whether the call
  yields a block, so the lemmas hold for every pattern of failures.  The two counters are the ones the
  library keeps under \<open>XD3_DEBUG\<close>.
\<close>

section \<open>State\<close>

record xd3_output =
  pg_data :: "u8 list"
  pg_avail :: u32

record xd3_base =
  alloc :: "nat \<Rightarrow> u32 \<Rightarrow> u32 \<Rightarrow> bool"
  alloc_calls :: nat
  alloc_cnt :: nat
  free_cnt :: nat
  uninit :: "nat \<Rightarrow> u8"
  msg :: "string option"
  enc_free :: "xd3_output list"

section \<open>Allocation\<close>

text \<open>\<open>xd3_alloc (stream, elts, size)\<close>: whether the result is not \<open>NULL\<close>.\<close>

definition xd3_alloc :: "u32 \<Rightarrow> u32 \<Rightarrow> 'a xd3_base_scheme \<Rightarrow> bool \<times> 'a xd3_base_scheme" where
  "xd3_alloc elts sz st =
    (let st' = st\<lparr>alloc_calls := Suc (alloc_calls st)\<rparr> in
     if alloc st (alloc_calls st) elts sz then (True, st'\<lparr>alloc_cnt := Suc (alloc_cnt st')\<rparr>)
     else (False, st'\<lparr>msg := Some ''out of memory''\<rparr>))"

text \<open>\<open>xd3_free (stream, ptr)\<close> on a pointer that is not \<open>NULL\<close>.\<close>

definition xd3_free :: "'a xd3_base_scheme \<Rightarrow> 'a xd3_base_scheme" where
  "xd3_free st = st\<lparr>free_cnt := Suc (free_cnt st)\<rparr>"

text \<open>On a pointer that may be \<open>NULL\<close>.\<close>

definition xd3_free_opt :: "'p option \<Rightarrow> 'a xd3_base_scheme \<Rightarrow> 'a xd3_base_scheme" where
  "xd3_free_opt p st = (case p of None \<Rightarrow> st | Some _ \<Rightarrow> xd3_free st)"

text \<open>The content of a fresh block of \<open>n\<close> bytes, which the allocator leaves undetermined.\<close>

definition fresh_block :: "nat \<Rightarrow> 'a xd3_base_scheme \<Rightarrow> u8 list" where
  "fresh_block n st = map (uninit st) [0 ..< n]"

section \<open>Output pages\<close>

text \<open>A new page, from the free list or from the allocator; the caller links it behind the old one.\<close>

definition xd3_alloc_output :: "'a xd3_base_scheme \<Rightarrow> xd3_output option \<times> 'a xd3_base_scheme" where
  "xd3_alloc_output st =
    (case enc_free st of
       pg # rest \<Rightarrow> (Some (pg\<lparr>pg_data := []\<rparr>), st\<lparr>enc_free := rest\<rparr>)
     | [] \<Rightarrow>
        (case xd3_alloc 1 24 st of
           (False, st1) \<Rightarrow> (None, st1)
         | (True, st1) \<Rightarrow>
            (case xd3_alloc XD3_ALLOCSIZE 1 st1 of
               (False, st2) \<Rightarrow> (None, xd3_free st2)
             | (True, st2) \<Rightarrow> (Some \<lparr>pg_data = [], pg_avail = XD3_ALLOCSIZE\<rparr>, st2))))"

fun xd3_sizeof_output :: "xd3_output list \<Rightarrow> u32" where
  "xd3_sizeof_output [] = 0"
| "xd3_sizeof_output (pg # pgs) = of_nat (length (pg_data pg)) + xd3_sizeof_output pgs"

fun xd3_freelist_output :: "xd3_output list \<Rightarrow> 'a xd3_base_scheme \<Rightarrow> 'a xd3_base_scheme" where
  "xd3_freelist_output [] st = st"
| "xd3_freelist_output (pg # pgs) st =
     xd3_freelist_output pgs (st\<lparr>enc_free := pg\<lparr>pg_data := []\<rparr> # enc_free st\<rparr>)"

text \<open>Each page is freed as two blocks, its bytes and its descriptor.\<close>

fun xd3_free_output :: "xd3_output list \<Rightarrow> 'a xd3_base_scheme \<Rightarrow> 'a xd3_base_scheme" where
  "xd3_free_output [] st = st"
| "xd3_free_output (pg # pgs) st = xd3_free_output pgs (xd3_free (xd3_free st))"

text \<open>The full test at the head of both emit routines: a chain whose last page has room, or \<open>ENOMEM\<close>.\<close>

definition page_full :: "xd3_output \<Rightarrow> bool" where
  "page_full pg \<longleftrightarrow> of_nat (length (pg_data pg)) = pg_avail pg"

definition page_room :: "xd3_output list \<Rightarrow> 'a xd3_base_scheme \<Rightarrow> xd3_ret \<times> xd3_output list \<times> 'a xd3_base_scheme" where
  "page_room out st =
    (if page_full (last out) then
       (case xd3_alloc_output st of
          (None, st1) \<Rightarrow> (ENOMEM, out, st1)
        | (Some pg, st1) \<Rightarrow> (XD3_OK, out @ [pg], st1))
     else (XD3_OK, out, st))"

definition append_last :: "xd3_output list \<Rightarrow> u8 list \<Rightarrow> xd3_output list" where
  "append_last out bs = butlast out @ [(last out)\<lparr>pg_data := pg_data (last out) @ bs\<rparr>]"

definition xd3_emit_byte ::
    "xd3_output list \<Rightarrow> u8 \<Rightarrow> 'a xd3_base_scheme \<Rightarrow> xd3_ret \<times> xd3_output list \<times> 'a xd3_base_scheme" where
  "xd3_emit_byte out code st =
    (case page_room out st of
       (r, out1, st1) \<Rightarrow> if r = XD3_OK then (XD3_OK, append_last out1 [code], st1) else (r, out1, st1))"

text \<open>The \<open>do ... while (size > 0)\<close> loop.  With \<open>take = 0\<close> and bytes left, which needs a page of
  capacity 0, the loop would never end.\<close>

function xd3_emit_bytes ::
    "xd3_output list \<Rightarrow> u8 list \<Rightarrow> 'a xd3_base_scheme \<Rightarrow> xd3_ret \<times> xd3_output list \<times> 'a xd3_base_scheme" where
  "xd3_emit_bytes out base st =
    (case page_room out st of
       (r, out1, st1) \<Rightarrow>
         if r \<noteq> XD3_OK then (r, out1, st1)
         else
           let pg = last out1;
               n = min (unat (pg_avail pg - of_nat (length (pg_data pg)))) (length base);
               out2 = append_last out1 (take n base) in
           if drop n base = [] then (XD3_OK, out2, st1)
           else if n = 0 then (C_LOOP, out2, st1)
           else xd3_emit_bytes out2 (drop n base) st1)"
  by pat_completeness auto
termination
  by (relation "measure (\<lambda>(out, base, st). length base)") auto

text \<open>\<open>xd3_emit_uint32_t\<close> and \<open>xd3_emit_uint64_t\<close>: \<open>EMIT_INTEGER_TYPE\<close> fills a stack buffer and emits it.\<close>

definition xd3_emit_uint32_t ::
    "xd3_output list \<Rightarrow> u32 \<Rightarrow> 'a xd3_base_scheme \<Rightarrow> xd3_ret \<times> xd3_output list \<times> 'a xd3_base_scheme" where
  "xd3_emit_uint32_t out num st = xd3_emit_bytes out (emit_integer_type num) st"

definition xd3_emit_uint64_t ::
    "xd3_output list \<Rightarrow> u64 \<Rightarrow> 'a xd3_base_scheme \<Rightarrow> xd3_ret \<times> xd3_output list \<times> 'a xd3_base_scheme" where
  "xd3_emit_uint64_t out num st = xd3_emit_bytes out (emit_integer_type num) st"

declare xd3_emit_bytes.simps [simp del]

section \<open>What a chain holds\<close>

text \<open>The byte string an output section stands for, and the chains the encoder builds: at least one
  page, every page of the fixed capacity and not over-full.\<close>

definition out_bytes :: "xd3_output list \<Rightarrow> u8 list" where
  "out_bytes out = concat (map pg_data out)"

definition page_wf :: "xd3_output \<Rightarrow> bool" where
  "page_wf pg \<longleftrightarrow> pg_avail pg = XD3_ALLOCSIZE \<and> length (pg_data pg) \<le> 16384"

definition chain_wf :: "xd3_output list \<Rightarrow> bool" where
  "chain_wf out \<longleftrightarrow> out \<noteq> [] \<and> list_all page_wf out"

definition pool_wf :: "'a xd3_base_scheme \<Rightarrow> bool" where
  "pool_wf st \<longleftrightarrow> list_all page_wf (enc_free st)"

lemma ALLOCSIZE_16384: "XD3_ALLOCSIZE = 16384"
  by (simp add: XD3_ALLOCSIZE_def)

lemma page_full_wf: "page_wf pg \<Longrightarrow> page_full pg \<longleftrightarrow> length (pg_data pg) = 16384"
  by (auto simp: page_full_def page_wf_def ALLOCSIZE_16384 word_unat_eq_iff unat_of_nat_small)

lemma chain_wf_last: "chain_wf out \<Longrightarrow> page_wf (last out)"
  by (auto simp: chain_wf_def list_all_iff)

lemma page_room_wf:
  assumes "chain_wf out" and "pool_wf st" and "page_room out st = (r, out', st')"
  shows "pool_wf st' \<and> chain_wf out' \<and> out_bytes out' = out_bytes out \<and> (r = XD3_OK \<or> r = ENOMEM)
    \<and> (r = XD3_OK \<longrightarrow> length (pg_data (last out')) < 16384)
    \<and> alloc_cnt st' + free_cnt st + 2 * (length out + length (enc_free st))
        = alloc_cnt st + free_cnt st' + 2 * (length out' + length (enc_free st'))"
proof -
  have new: "page_wf (pg\<lparr>pg_data := []\<rparr>)" if "page_wf pg" for pg :: xd3_output
    using that by (simp add: page_wf_def)
  have fresh: "page_wf \<lparr>pg_data = [], pg_avail = XD3_ALLOCSIZE\<rparr>" by (simp add: page_wf_def)
  have "length (pg_data (last out)) \<le> 16384" using chain_wf_last [OF assms(1)] by (simp add: page_wf_def)
  then show ?thesis
    using assms new fresh page_full_wf [OF chain_wf_last [OF assms(1)]]
    by (auto simp: page_room_def xd3_alloc_output_def xd3_alloc_def xd3_free_def Let_def pool_wf_def chain_wf_def
        out_bytes_def split: list.splits if_splits)
qed

lemma append_last_props:
  assumes "chain_wf out" and "length (pg_data (last out)) + length bs \<le> 16384"
  shows "chain_wf (append_last out bs)" "out_bytes (append_last out bs) = out_bytes out @ bs"
    "length (append_last out bs) = length out"
proof -
  obtain ps p where out: "out = ps @ [p]" using assms(1) by (metis chain_wf_def append_butlast_last_id)
  show "chain_wf (append_last out bs)" "out_bytes (append_last out bs) = out_bytes out @ bs"
    "length (append_last out bs) = length out"
    using assms by (simp_all add: out append_last_def chain_wf_def page_wf_def out_bytes_def)
qed

text \<open>The blocks the pages in use and in the pool account for, next to the stream's own counters.\<close>

definition page_balance :: "xd3_output list \<Rightarrow> 'a xd3_base_scheme \<Rightarrow> int" where
  "page_balance out st = int (alloc_cnt st) - int (free_cnt st) - 2 * (int (length out) + int (length (enc_free st)))"

lemma emit_bytes_spec:
  assumes "chain_wf out" and "pool_wf st" and "xd3_emit_bytes out base st = (r, out', st')"
  shows "(r = XD3_OK \<or> r = ENOMEM) \<and> chain_wf out' \<and> pool_wf st' \<and> page_balance out' st' = page_balance out st
    \<and> (r = XD3_OK \<longrightarrow> out_bytes out' = out_bytes out @ base)"
  using assms
proof (induction out base st rule: xd3_emit_bytes.induct)
  case (1 out base st)
  obtain r1 out1 st1 where room: "page_room out st = (r1, out1, st1)" by (metis prod_cases3)
  note pr = page_room_wf [OF 1(2,3) room]
  then have bal: "page_balance out1 st1 = page_balance out st" by (auto simp: page_balance_def)
  show ?case
  proof (cases "r1 = XD3_OK")
    case False
    with 1(4) room have "(r, out', st') = (r1, out1, st1)" by (subst (asm) xd3_emit_bytes.simps) simp
    with False pr bal show ?thesis by simp
  next
    case True
    define n where "n = min (unat (pg_avail (last out1) - of_nat (length (pg_data (last out1))))) (length base)"
    define out2 where "out2 = append_last out1 (take n base)"
    have lt: "length (pg_data (last out1)) < 16384" and wf1: "chain_wf out1" "pool_wf st1" using True pr by simp_all
    have av: "unat (pg_avail (last out1) - of_nat (length (pg_data (last out1)))) = 16384 - length (pg_data (last out1))"
      using lt chain_wf_last [OF wf1(1)]
      by (simp add: page_wf_def ALLOCSIZE_16384 unat_sub_le word_le_nat_alt unat_of_nat_small)
    have n: "length (pg_data (last out1)) + length (take n base) \<le> 16384" "n = 0 \<longrightarrow> base = []"
      using lt by (auto simp: n_def av min_def split: if_splits)
    note al = append_last_props [OF wf1(1) n(1), folded out2_def]
    have step: "xd3_emit_bytes out base st =
        (if drop n base = [] then (XD3_OK, out2, st1) else if n = 0 then (C_LOOP, out2, st1)
         else xd3_emit_bytes out2 (drop n base) st1)"
      by (subst xd3_emit_bytes.simps) (simp add: room True n_def out2_def Let_def)
    show ?thesis
    proof (cases "drop n base = []")
      case True
      then show ?thesis using step 1(4) al wf1 pr bal by (auto simp: page_balance_def)
    next
      case False
      then have rec: "xd3_emit_bytes out2 (drop n base) st1 = (r, out', st')" "n \<noteq> 0" using step 1(4) n(2) by auto
      have b2: "page_balance out2 st1 = page_balance out st" using bal al(3) by (simp add: page_balance_def)
      have "\<not> r1 \<noteq> XD3_OK" using True by simp
      from 1(1) [OF room [symmetric] refl this refl n_def out2_def False rec(2) al(1) wf1(2) rec(1)]
      have "(r = XD3_OK \<or> r = ENOMEM) \<and> chain_wf out' \<and> pool_wf st' \<and> page_balance out' st' = page_balance out2 st1
          \<and> (r = XD3_OK \<longrightarrow> out_bytes out' = out_bytes out2 @ drop n base)" .
      then show ?thesis using al(2) pr b2 by simp
    qed
  qed
qed

lemma emit_byte_spec:
  assumes "chain_wf out" and "pool_wf st" and "xd3_emit_byte out c st = (r, out', st')"
  shows "(r = XD3_OK \<or> r = ENOMEM) \<and> chain_wf out' \<and> pool_wf st' \<and> page_balance out' st' = page_balance out st
    \<and> (r = XD3_OK \<longrightarrow> out_bytes out' = out_bytes out @ [c])"
proof -
  obtain r1 out1 st1 where room: "page_room out st = (r1, out1, st1)" by (metis prod_cases3)
  note pr = page_room_wf [OF assms(1,2) room]
  show ?thesis
  proof (cases "r1 = XD3_OK")
    case True
    then have "(r, out', st') = (XD3_OK, append_last out1 [c], st1)"
      using assms(3) room by (simp add: xd3_emit_byte_def)
    with True pr append_last_props [of out1 "[c]"] show ?thesis by (auto simp: page_balance_def)
  next
    case False
    then have "(r, out', st') = (r1, out1, st1)" using assms(3) room by (simp add: xd3_emit_byte_def)
    with False pr show ?thesis by (auto simp: page_balance_def)
  qed
qed

section \<open>The contract the encoder relies on\<close>

text \<open>A byte sink appends what it is given or runs out of memory, and keeps its invariant either way.
  A client that emits one item after the other ends with their concatenation or with the first
  failure.\<close>

locale byte_sink =
  fixes emit :: "'o \<Rightarrow> 'i \<Rightarrow> 's \<Rightarrow> xd3_ret \<times> 'o \<times> 's"
    and bytes_of :: "'i \<Rightarrow> u8 list"
    and contents :: "'o \<Rightarrow> u8 list"
    and sink_inv :: "'o \<Rightarrow> 's \<Rightarrow> bool"
  assumes emit_inv: "sink_inv out s \<Longrightarrow> emit out i s = (r, out', s') \<Longrightarrow> sink_inv out' s'"
    and emit_ok: "sink_inv out s \<Longrightarrow> emit out i s = (XD3_OK, out', s') \<Longrightarrow> contents out' = contents out @ bytes_of i"
    and emit_ret: "sink_inv out s \<Longrightarrow> emit out i s = (r, out', s') \<Longrightarrow> r = XD3_OK \<or> r = ENOMEM"
begin

fun emit_all :: "'o \<Rightarrow> 'i list \<Rightarrow> 's \<Rightarrow> xd3_ret \<times> 'o \<times> 's" where
  "emit_all out [] s = (XD3_OK, out, s)"
| "emit_all out (i # is) s =
    (case emit out i s of (r, out1, s1) \<Rightarrow> if r = XD3_OK then emit_all out1 is s1 else (r, out1, s1))"

lemma emit_all_spec:
  assumes "sink_inv out s" and "emit_all out is s = (r, out', s')"
  shows "sink_inv out' s' \<and> (r = XD3_OK \<or> r = ENOMEM)
    \<and> (r = XD3_OK \<longrightarrow> contents out' = contents out @ concat (map bytes_of is))"
  using assms
proof (induction "is" arbitrary: out s)
  case (Cons i "is")
  obtain r1 out1 s1 where e: "emit out i s = (r1, out1, s1)" by (metis prod_cases3)
  note c = emit_inv [OF Cons.prems(1) e] emit_ret [OF Cons.prems(1) e]
  show ?case
  proof (cases "r1 = XD3_OK")
    case True
    with Cons.prems(2) e have "emit_all out1 is s1 = (r, out', s')" by simp
    with Cons.IH [OF c(1) this] emit_ok [OF Cons.prems(1), of i out1 s1] e True show ?thesis by simp
  next
    case False
    with Cons.prems(2) e c show ?thesis by auto
  qed
qed simp

end

definition chain_inv :: "xd3_output list \<Rightarrow> 'a xd3_base_scheme \<Rightarrow> bool" where
  "chain_inv out st \<longleftrightarrow> chain_wf out \<and> pool_wf st"

lemma emit_bytes_sinkD:
  assumes "chain_inv out s" and "xd3_emit_bytes out i s = (r, out', s')"
  shows "chain_inv out' s'" "r = XD3_OK \<or> r = ENOMEM" "r = XD3_OK \<Longrightarrow> out_bytes out' = out_bytes out @ i"
  using emit_bytes_spec [of out s i r out' s'] assms by (simp_all add: chain_inv_def)

lemma emit_byte_sinkD:
  assumes "chain_inv out s" and "xd3_emit_byte out i s = (r, out', s')"
  shows "chain_inv out' s'" "r = XD3_OK \<or> r = ENOMEM" "r = XD3_OK \<Longrightarrow> out_bytes out' = out_bytes out @ [i]"
  using emit_byte_spec [of out s i r out' s'] assms by (simp_all add: chain_inv_def)

interpretation emit_bytes_sink: byte_sink xd3_emit_bytes "\<lambda>bs. bs" out_bytes chain_inv
  by unfold_locales (erule (1) emit_bytes_sinkD, rule refl | erule (1) emit_bytes_sinkD)+

interpretation emit_byte_sink: byte_sink xd3_emit_byte "\<lambda>b. [b]" out_bytes chain_inv
  by unfold_locales (erule (1) emit_byte_sinkD, rule refl | erule (1) emit_byte_sinkD)+

interpretation emit_uint32_sink: byte_sink xd3_emit_uint32_t emit_integer_type out_bytes chain_inv
  unfolding xd3_emit_uint32_t_def
  by unfold_locales (erule (1) emit_bytes_sinkD, rule refl | erule (1) emit_bytes_sinkD)+

interpretation emit_uint64_sink: byte_sink xd3_emit_uint64_t emit_integer_type out_bytes chain_inv
  unfolding xd3_emit_uint64_t_def
  by unfold_locales (erule (1) emit_bytes_sinkD, rule refl | erule (1) emit_bytes_sinkD)+

lemma sizeof_output_bytes: "xd3_sizeof_output out = of_nat (length (out_bytes out))"
  by (induction out) (simp_all add: out_bytes_def)

lemma freelist_output_eq:
  "xd3_freelist_output pgs st = st\<lparr>enc_free := rev (map (\<lambda>pg. pg\<lparr>pg_data := []\<rparr>) pgs) @ enc_free st\<rparr>"
  by (induction pgs arbitrary: st) simp_all

lemma free_output_eq: "xd3_free_output pgs st = st\<lparr>free_cnt := free_cnt st + 2 * length pgs\<rparr>"
  by (induction pgs arbitrary: st) (simp_all add: xd3_free_def)

section \<open>Properties\<close>

text \<open>C24. \<open>xd3_emit_bytes\<close> always ends, whatever the allocator does: either it returns 0 and the section
  holds what it held followed by exactly the bytes given, or it returns \<open>ENOMEM\<close>; in both cases the
  pages stay within their capacity and no block is lost: allocations minus frees still equals the
  blocks of the pages in the chain and in the free list.\<close>

theorem emit_bytes_correct:
  assumes "chain_inv out st" and "xd3_emit_bytes out base st = (r, out', st')"
  shows "(r = XD3_OK \<and> out_bytes out' = out_bytes out @ base \<or> r = ENOMEM)
    \<and> chain_inv out' st' \<and> page_balance out' st' = page_balance out st"
  using emit_bytes_spec [of out st base r out' st'] assms by (auto simp: chain_inv_def)

theorem emit_bytes_correct_witness:
  "\<exists>r out' st'. xd3_emit_bytes [\<lparr>pg_data = [1], pg_avail = XD3_ALLOCSIZE\<rparr>] [2, 3]
       \<lparr>alloc = \<lambda>_ _ _. False, alloc_calls = 0, alloc_cnt = 2, free_cnt = 0, uninit = \<lambda>_. 0, msg = None, enc_free = []\<rparr>
     = (r, out', st') \<and> (r = XD3_OK \<and> out_bytes out' = [1] @ [2, 3] \<or> r = ENOMEM)"
proof -
  let ?o = "[\<lparr>pg_data = [1], pg_avail = XD3_ALLOCSIZE\<rparr>]"
  let ?s = "\<lparr>alloc = \<lambda>_ _ _. False, alloc_calls = 0, alloc_cnt = 2, free_cnt = 0, uninit = \<lambda>_. 0, msg = None, enc_free = []\<rparr>"
  obtain r out' st' where e: "xd3_emit_bytes ?o [2, 3] ?s = (r, out', st')" by (metis prod_cases3)
  have "chain_inv ?o ?s" by (simp add: chain_inv_def chain_wf_def pool_wf_def page_wf_def)
  from emit_bytes_correct [OF this e] e show ?thesis by (simp add: out_bytes_def)
qed

text \<open>Recycling and freeing a chain: the free list gets all its pages back, emptied and in reverse
  order, and freeing the pages of the free list returns every block they were made of.\<close>

theorem page_recycling:
  "enc_free (xd3_freelist_output pgs st) = rev (map (\<lambda>pg. pg\<lparr>pg_data := []\<rparr>) pgs) @ enc_free st
   \<and> page_balance [] (xd3_freelist_output pgs st) = page_balance pgs st
   \<and> page_balance [] ((xd3_free_output (enc_free st) st)\<lparr>enc_free := []\<rparr>) = page_balance [] st
   \<and> xd3_sizeof_output pgs = of_nat (length (out_bytes pgs))"
  by (simp add: freelist_output_eq free_output_eq page_balance_def sizeof_output_bytes)

end
