(* ===== verification/Xd3_Stream.thy ===== *)
theory Xd3_Stream
  imports Xd3_Output Xd3_Addrcache
begin

text \<open>
  The part of \<open>struct xd3_stream\<close> the decoder, the encoder and the client share: input, output
  counters, flags, the source and its block interface, the address cache (xdelta3.h; xdelta3.c
  "Basic encoder/decoder functions", "Getblk interface", "Stream open/close").

  Input memory is the list of bytes from \<open>next_in\<close> to the end of the caller's buffer; \<open>avail_in\<close> is
  kept separately, as in the C, and a read past the list is \<open>C_UB\<close>.  The decoding routines are
  reentrant: they return \<open>XD3_INPUT\<close> in the middle of an item and continue at the next call.
\<close>

section \<open>Enumerations and flags\<close>

datatype xd3_encode_state =
    ENC_INIT | ENC_INPUT | ENC_SEARCH | ENC_INSTR | ENC_FLUSH | ENC_POSTOUT | ENC_POSTWIN | ENC_ABORTED

datatype xd3_decode_state =
    DEC_VCHEAD | DEC_HDRIND | DEC_SECONDID | DEC_TABLEN | DEC_NEAR | DEC_SAME | DEC_TABDAT
  | DEC_APPLEN | DEC_APPDAT | DEC_WININD | DEC_CPYLEN | DEC_CPYOFF | DEC_ENCLEN | DEC_TGTLEN
  | DEC_DELIND | DEC_DATALEN | DEC_INSTLEN | DEC_ADDRLEN | DEC_CKSUM | DEC_DATA | DEC_INST
  | DEC_ADDR | DEC_EMIT | DEC_FINISH | DEC_ABORTED

definition XD3_JUST_HDR :: u32 where "XD3_JUST_HDR = push_bit 1 1"
definition XD3_SKIP_WINDOW :: u32 where "XD3_SKIP_WINDOW = push_bit 2 1"
definition XD3_SKIP_EMIT :: u32 where "XD3_SKIP_EMIT = push_bit 3 1"
definition XD3_FLUSH :: u32 where "XD3_FLUSH = push_bit 4 1"
definition XD3_ADLER32 :: u32 where "XD3_ADLER32 = push_bit 10 1"
definition XD3_ADLER32_NOVER :: u32 where "XD3_ADLER32_NOVER = push_bit 11 1"
definition XD3_ALT_CODE_TABLE :: u32 where "XD3_ALT_CODE_TABLE = push_bit 12 1"
definition XD3_NOCOMPRESS :: u32 where "XD3_NOCOMPRESS = push_bit 13 1"
definition XD3_BEGREEDY :: u32 where "XD3_BEGREEDY = push_bit 14 1"
definition XD3_ADLER32_RECODE :: u32 where "XD3_ADLER32_RECODE = push_bit 15 1"

definition VCD_SECONDARY :: u32 where "VCD_SECONDARY = push_bit 0 1"
definition VCD_CODETABLE :: u32 where "VCD_CODETABLE = push_bit 1 1"
definition VCD_APPHEADER :: u32 where "VCD_APPHEADER = push_bit 2 1"
definition VCD_INVHDR :: u32 where "VCD_INVHDR = NOT 0x7"
definition VCD_SOURCE :: u32 where "VCD_SOURCE = push_bit 0 1"
definition VCD_TARGET :: u32 where "VCD_TARGET = push_bit 1 1"
definition VCD_ADLER32 :: u32 where "VCD_ADLER32 = push_bit 2 1"
definition VCD_INVWIN :: u32 where "VCD_INVWIN = NOT 0x7"
definition VCD_SRCORTGT :: u32 where "VCD_SRCORTGT = VCD_SOURCE OR VCD_TARGET"
definition VCD_INVDEL :: u32 where "VCD_INVDEL = NOT 0x7"

definition VCDIFF_MAGIC1 :: u8 where "VCDIFF_MAGIC1 = 0xd6"
definition VCDIFF_MAGIC2 :: u8 where "VCDIFF_MAGIC2 = 0xc3"
definition VCDIFF_MAGIC3 :: u8 where "VCDIFF_MAGIC3 = 0xc4"
definition VCDIFF_VERSION :: u8 where "VCDIFF_VERSION = 0x00"

lemmas flag_consts = XD3_JUST_HDR_def XD3_SKIP_WINDOW_def XD3_SKIP_EMIT_def XD3_FLUSH_def
  XD3_ADLER32_def XD3_ADLER32_NOVER_def XD3_ALT_CODE_TABLE_def XD3_NOCOMPRESS_def XD3_BEGREEDY_def
  XD3_ADLER32_RECODE_def
lemmas vcd_consts = VCD_SECONDARY_def VCD_CODETABLE_def VCD_APPHEADER_def VCD_INVHDR_def
  VCD_SOURCE_def VCD_TARGET_def VCD_ADLER32_def VCD_INVWIN_def VCD_SRCORTGT_def VCD_INVDEL_def
  VCDIFF_MAGIC1_def VCDIFF_MAGIC2_def VCDIFF_MAGIC3_def VCDIFF_VERSION_def

section \<open>The source\<close>

text \<open>\<open>struct xd3_source\<close>, but for its name and handle.  \<open>curblk\<close> is the memory at the block pointer.\<close>

record xd3_source =
  blksize :: u32
  max_winsize :: u64
  curblkno :: u64
  onblk :: u32
  curblk :: "u8 list option"
  srclen :: u32
  srcbase :: u64
  shiftby :: nat
  maskby :: u32
  cpyoff_blocks :: u64
  cpyoff_blkoff :: u32
  getblkno :: u64
  max_blkno :: u64
  frontier_blkno :: u64
  onlastblk :: u32
  eof_known :: bool

section \<open>The shared part of the stream\<close>

text \<open>\<open>in_given\<close> says that \<open>next_in\<close> is not \<open>NULL\<close>.\<close>

record xd3_io = xd3_base +
  next_in :: "u8 list"
  in_given :: bool
  avail_in :: u32
  total_in :: u64
  avail_out :: u32
  space_out :: u32
  current_window :: u64
  total_out :: u64
  flags :: u32
  winsize :: u32
  enc_state :: xd3_encode_state
  dec_32part :: u32
  dec_64part :: u64
  src :: "xd3_source option"
  getblk :: "(xd3_source \<Rightarrow> u64 \<Rightarrow> xd3_ret \<times> xd3_source) option"
  acache :: xd3_addr_cache

definition set_msg :: "string \<Rightarrow> 'a xd3_io_scheme \<Rightarrow> 'a xd3_io_scheme" where
  "set_msg m st = st\<lparr>msg := Some m\<rparr>"

text \<open>\<open>stream->msg = m; return r;\<close>\<close>

definition fail_with :: "xd3_ret \<Rightarrow> string \<Rightarrow> 'a xd3_io_scheme \<Rightarrow> xd3_ret \<times> 'a xd3_io_scheme" where
  "fail_with r m st = (r, set_msg m st)"

definition flag_set :: "u32 \<Rightarrow> u32 \<Rightarrow> bool" where
  "flag_set x f \<longleftrightarrow> x AND f \<noteq> 0"

definition xd3_avail_input :: "u8 list \<Rightarrow> u32 \<Rightarrow> 'a xd3_io_scheme \<Rightarrow> 'a xd3_io_scheme" where
  "xd3_avail_input idata isize st = st\<lparr>next_in := idata, in_given := True, avail_in := isize\<rparr>"

definition xd3_consume_output :: "'a xd3_io_scheme \<Rightarrow> 'a xd3_io_scheme" where
  "xd3_consume_output st = st\<lparr>avail_out := 0\<rparr>"

definition xd3_set_flags :: "u32 \<Rightarrow> 'a xd3_io_scheme \<Rightarrow> 'a xd3_io_scheme" where
  "xd3_set_flags f st = st\<lparr>flags := f\<rparr>"

definition xd3_errstring :: "'a xd3_io_scheme \<Rightarrow> string" where
  "xd3_errstring st = (case msg st of Some m \<Rightarrow> m | None \<Rightarrow> '''')"

section \<open>Reading input\<close>

definition DECODE_INPUT :: "u32 \<Rightarrow> 'a xd3_io_scheme \<Rightarrow> 'a xd3_io_scheme" where
  "DECODE_INPUT n st = st\<lparr>total_in := total_in st + ucast n, avail_in := avail_in st - n,
     next_in := drop (unat n) (next_in st)\<rparr>"

text \<open>\<open>xd3_decode_byte (stream, & x)\<close>; \<open>put\<close> stores into \<open>x\<close>.\<close>

definition xd3_decode_byte :: "(u32 \<Rightarrow> 'a xd3_io_scheme \<Rightarrow> 'a xd3_io_scheme) \<Rightarrow> 'a xd3_io_scheme \<Rightarrow> xd3_ret \<times> 'a xd3_io_scheme" where
  "xd3_decode_byte put st =
    (if avail_in st = 0 then fail_with XD3_INPUT ''further input required'' st
     else (case next_in st of
             [] \<Rightarrow> (C_UB, st)
           | b # _ \<Rightarrow> (XD3_OK, DECODE_INPUT 1 (put (ucast b) st))))"

definition write_at :: "u8 list \<Rightarrow> nat \<Rightarrow> u8 list \<Rightarrow> u8 list" where
  "write_at buf p bs = take p buf @ bs @ drop (p + length bs) buf"

text \<open>\<open>xd3_decode_bytes (stream, buf, & pos, size)\<close>: the buffer and the position come back.\<close>

function xd3_decode_bytes ::
    "u8 list \<Rightarrow> u32 \<Rightarrow> u32 \<Rightarrow> 'a xd3_io_scheme \<Rightarrow> xd3_ret \<times> u8 list \<times> u32 \<times> 'a xd3_io_scheme" where
  "xd3_decode_bytes buf pos sz st =
    (if pos < sz then
       (if avail_in st = 0 then (XD3_INPUT, buf, pos, set_msg ''further input required'' st)
        else
          let want = sz - pos; tk = min want (avail_in st) in
          if length buf < unat pos + unat tk \<or> length (next_in st) < unat tk then (C_UB, buf, pos, st)
          else xd3_decode_bytes (write_at buf (unat pos) (take (unat tk) (next_in st))) (pos + tk) sz
                 (DECODE_INPUT tk st))
     else (XD3_OK, buf, pos, st))"
  by pat_completeness auto
termination
proof (relation "measure (\<lambda>(buf, pos, sz, st). unat sz - unat pos)", simp)
  fix buf :: "u8 list" and pos sz want tk :: u32 and st :: "'a xd3_io_scheme"
  assume a: "pos < sz" "avail_in st \<noteq> 0" "want = sz - pos" "tk = min want (avail_in st)"
  then have "unat want = unat sz - unat pos" "0 < unat tk" "unat tk \<le> unat want"
    by (auto simp: unat_sub_le word_less_nat_alt word_le_nat_alt min_def unat_gt_0)
  moreover have "unat (pos + tk) = unat pos + unat tk"
    using calculation unat_u32_less [of sz] by (intro unat_add_u32) linarith
  ultimately show "((write_at buf (unat pos) (take (unat tk) (next_in st)), pos + tk, sz, DECODE_INPUT tk st), buf, pos, sz, st)
      \<in> measure (\<lambda>(buf, pos, sz, st). unat sz - unat pos)"
    using a(1) by (simp add: word_less_nat_alt)
qed

declare xd3_decode_bytes.simps [simp del]

text \<open>\<open>DECODE_INTEGER_TYPE\<close> over the partial value: the return code, the new partial value, the number
  of bytes consumed and the value.\<close>

fun decode_integer :: "'w::len word \<Rightarrow> 'w word \<Rightarrow> u8 list \<Rightarrow> nat \<Rightarrow> xd3_ret \<times> 'w word \<times> nat \<times> 'w word" where
  "decode_integer oflow part bs 0 = (XD3_INPUT, part, 0, 0)"
| "decode_integer oflow part [] (Suc n) = (C_UB, part, 0, 0)"
| "decode_integer oflow part (b # bs) (Suc n) =
    (if part AND oflow \<noteq> 0 then (XD3_INVALID_INPUT, part, 1, 0)
     else let part' = shift_in part b in
       if b AND 128 = 0 then (XD3_OK, 0, 1, part')
       else (case decode_integer oflow part' bs n of (r, p, k, v) \<Rightarrow> (r, p, Suc k, v)))"

definition int_msg :: "xd3_ret \<Rightarrow> 'a xd3_io_scheme \<Rightarrow> 'a xd3_io_scheme" where
  "int_msg r st =
    (if r = XD3_INPUT then set_msg ''further input required'' st
     else if r = XD3_INVALID_INPUT then set_msg ''overflow in decode_integer'' st else st)"

definition xd3_decode_uint32_t :: "(u32 \<Rightarrow> 'a xd3_io_scheme \<Rightarrow> 'a xd3_io_scheme) \<Rightarrow> 'a xd3_io_scheme \<Rightarrow> xd3_ret \<times> 'a xd3_io_scheme" where
  "xd3_decode_uint32_t put st =
    (case decode_integer UINT32_OFLOW_MASK (dec_32part st) (next_in st) (unat (avail_in st)) of
       (r, p, k, v) \<Rightarrow>
         let st1 = (DECODE_INPUT (of_nat k) st)\<lparr>dec_32part := p\<rparr> in
         (r, int_msg r (if r = XD3_OK then put v st1 else st1)))"

definition xd3_decode_uint64_t :: "(u64 \<Rightarrow> 'a xd3_io_scheme \<Rightarrow> 'a xd3_io_scheme) \<Rightarrow> 'a xd3_io_scheme \<Rightarrow> xd3_ret \<times> 'a xd3_io_scheme" where
  "xd3_decode_uint64_t put st =
    (case decode_integer UINT64_OFLOW_MASK (dec_64part st) (next_in st) (unat (avail_in st)) of
       (r, p, k, v) \<Rightarrow>
         let st1 = (DECODE_INPUT (of_nat k) st)\<lparr>dec_64part := p\<rparr> in
         (r, int_msg r (if r = XD3_OK then put v st1 else st1)))"

section \<open>The address cache of a stream\<close>

text \<open>The arrays come from the allocator with undetermined content.\<close>

definition fresh_words :: "nat \<Rightarrow> 'a xd3_base_scheme \<Rightarrow> u32 list" where
  "fresh_words n st = map (\<lambda>i. ucast (uninit st i)) [0 ..< n]"

definition xd3_alloc_cache :: "'a xd3_io_scheme \<Rightarrow> xd3_ret \<times> 'a xd3_io_scheme" where
  "xd3_alloc_cache st =
    (let st0 = xd3_free_opt (same_array (acache st)) (xd3_free_opt (near_array (acache st)) st);
         ac = acache st0 in
     case (if s_near ac > 0 then
             (case xd3_alloc (s_near ac) 4 st0 of
                (ok, s) \<Rightarrow> (ok, s\<lparr>acache := ac\<lparr>near_array :=
                   (if ok then Some (fresh_words (unat (s_near ac)) s) else None)\<rparr>\<rparr>))
           else (True, st0)) of
       (False, st1) \<Rightarrow> (ENOMEM, st1)
     | (True, st1) \<Rightarrow>
        (let ac1 = acache st1 in
         if s_same ac1 > 0 then
           (case xd3_alloc (s_same ac1 * 256) 4 st1 of
              (ok, s) \<Rightarrow>
                (if ok then XD3_OK else ENOMEM,
                 s\<lparr>acache := ac1\<lparr>same_array :=
                   (if ok then Some (fresh_words (unat (s_same ac1 * 256)) s) else None)\<rparr>\<rparr>))
         else (XD3_OK, st1)))"

section \<open>Source blocks\<close>

definition xd3_source_eof :: "xd3_source \<Rightarrow> u64" where
  "xd3_source_eof s = ucast (blksize s) * max_blkno s + ucast (onlastblk s)"

definition xd3_bytes_on_srcblk :: "xd3_source \<Rightarrow> u64 \<Rightarrow> u32" where
  "xd3_bytes_on_srcblk s blkno = (if blkno = max_blkno s then onlastblk s else blksize s)"

text \<open>The bookkeeping of \<open>xd3_getblk\<close> once the block is there.\<close>

definition getblk_account :: "u64 \<Rightarrow> xd3_source \<Rightarrow> xd3_source" where
  "getblk_account blkno s0 =
    (let s1 = (if blkno \<ge> frontier_blkno s0 then
                 (let s = (if blkno > max_blkno s0
                           then s0\<lparr>max_blkno := blkno, onlastblk := onblk s0\<rparr> else s0) in
                  if onblk s = blksize s then s\<lparr>frontier_blkno := blkno + 1\<rparr>
                  else s\<lparr>eof_known := True, frontier_blkno := blkno\<rparr>)
               else s0)
     in if blkno = max_blkno s1 then
          (let s = s1\<lparr>onlastblk := onblk s1\<rparr> in
           if onblk s = blksize s then s\<lparr>frontier_blkno := blkno + 1\<rparr> else s)
        else s1)"

definition xd3_getblk :: "u64 \<Rightarrow> 'a xd3_io_scheme \<Rightarrow> xd3_ret \<times> 'a xd3_io_scheme" where
  "xd3_getblk blkno st =
    (case src st of
       None \<Rightarrow> (C_UB, st)
     | Some source \<Rightarrow>
        (if curblk source = None \<or> blkno \<noteq> curblkno source then
           (let source1 = source\<lparr>getblkno := blkno\<rparr> in
            case getblk st of
              None \<Rightarrow> fail_with XD3_GETSRCBLK ''getblk source input'' (st\<lparr>src := Some source1\<rparr>)
            | Some f \<Rightarrow>
               (case f source1 blkno of
                  (r, source2) \<Rightarrow>
                    if r \<noteq> XD3_OK then (r, st\<lparr>src := Some source2\<rparr>)
                    else (XD3_OK, st\<lparr>src := Some (getblk_account blkno source2)\<rparr>)))
         else (XD3_OK, st\<lparr>src := Some (getblk_account blkno source)\<rparr>)))"

section \<open>Opening a source\<close>

text \<open>\<open>1 << shiftby\<close> is an \<open>int\<close>: from 31 on it is undefined.\<close>

definition xd3_set_source :: "xd3_source \<Rightarrow> 'a xd3_io_scheme \<Rightarrow> xd3_ret \<times> 'a xd3_io_scheme" where
  "xd3_set_source s st =
    (let s0 = s\<lparr>srclen := 0, srcbase := 0\<rparr>;
         chk = xd3_check_pow2 (ucast (blksize s0));
         blk = (if fst chk \<noteq> XD3_OK
                then (case xd3_pow2_roundup (ucast (blksize s0)) of
                        None \<Rightarrow> None
                      | Some r \<Rightarrow> Some (ucast r, snd (xd3_check_pow2 (ucast (ucast r :: u32)))))
                else Some (blksize s0, snd chk)) in
     case blk of
       None \<Rightarrow> (C_LOOP, st)
     | Some (bs, lg) \<Rightarrow>
        (if unat lg \<ge> 31 then (C_UB, st)
         else
           let s1 = s0\<lparr>blksize := bs, shiftby := unat lg, maskby := push_bit (unat lg) 1 - 1\<rparr>;
               mx = (if fst (xd3_check_pow2 (max_winsize s1)) \<noteq> XD3_OK
                     then xd3_xoff_roundup (max_winsize s1) else Some (max_winsize s1)) in
           case mx of
             None \<Rightarrow> (C_LOOP, st)
           | Some m \<Rightarrow> (XD3_OK, st\<lparr>src := Some (s1\<lparr>max_winsize := max m (ucast XD3_ALLOCSIZE)\<rparr>)\<rparr>)))"

definition xd3_set_source_and_size :: "xd3_source \<Rightarrow> u64 \<Rightarrow> 'a xd3_io_scheme \<Rightarrow> xd3_ret \<times> 'a xd3_io_scheme" where
  "xd3_set_source_and_size s srcsize st =
    bind_ok (xd3_set_source s st)
      (\<lambda>st1. case src st1 of
         None \<Rightarrow> (C_UB, st1)
       | Some s1 \<Rightarrow>
          (case xd3_blksize_div srcsize (shiftby s1) (maskby s1) of
             (b, off) \<Rightarrow> (XD3_OK, st1\<lparr>src := Some (s1\<lparr>eof_known := True, max_blkno := b, onlastblk := off\<rparr>)\<rparr>)))"

section \<open>Reading in pieces\<close>

text \<open>Handing the stream a chunk of input.\<close>

definition feed :: "u8 list \<Rightarrow> 'a xd3_io_scheme \<Rightarrow> 'a xd3_io_scheme" where
  "feed c st = xd3_avail_input c (of_nat (length c)) st"

lemma decode_integer_consumed:
  assumes "decode_integer oflow part bs n = (r, p, k, v)"
  shows "k \<le> n \<and> (r = XD3_INPUT \<longrightarrow> k = n) \<and> r \<in> {XD3_OK, XD3_INPUT, XD3_INVALID_INPUT, C_UB}
    \<and> (n \<le> length bs \<longrightarrow> r \<noteq> C_UB)"
  using assms
proof (induction oflow part bs n arbitrary: r p k v rule: decode_integer.induct)
  case (3 oflow part b bs n)
  then show ?case by (auto simp: Let_def split: if_splits prod.splits)
qed auto

text \<open>Running dry in the middle of an integer and continuing with the next chunk gives what a single
  chunk would have given.\<close>

lemma decode_integer_resume:
  assumes "decode_integer oflow part c1 (length c1) = (XD3_INPUT, p, k, v)"
  shows "decode_integer oflow part (c1 @ c2) (length (c1 @ c2)) =
    (case decode_integer oflow p c2 (length c2) of (r, p', k', v') \<Rightarrow> (r, p', length c1 + k', v'))"
  using assms
proof (induction c1 arbitrary: part k)
  case Nil
  then show ?case by (simp split: prod.split)
next
  case (Cons b c1)
  obtain r1 p1 k1 v1 where e: "decode_integer oflow (shift_in part b) c1 (length c1) = (r1, p1, k1, v1)"
    by (metis prod_cases4)
  from Cons.prems e have ok: "\<not> part AND oflow \<noteq> 0" "b AND 128 \<noteq> 0" "r1 = XD3_INPUT" "p1 = p" "v1 = v"
    by (auto simp: Let_def split: if_splits)
  from Cons.IH [of "shift_in part b" k1] e ok show ?case by (simp add: Let_def split: prod.splits)
qed

text \<open>On a whole encoding the reentrant decoder agrees with the one that reads from memory.\<close>

lemma decode_integer_read:
  assumes "read_integer_type oflow part bs = Inr (v, rest)"
  shows "decode_integer oflow part bs (length bs) = (XD3_OK, 0, length bs - length rest, v)"
proof -
  have "length rest < length bs \<and> decode_integer oflow part bs (length bs) = (XD3_OK, 0, length bs - length rest, v)"
    using assms
  proof (induction oflow part bs rule: read_integer_type.induct)
    case (2 oflow val b bs)
    then show ?case by (auto simp: Let_def Suc_diff_le split: if_splits)
  qed simp
  then show ?thesis by simp
qed

lemma feed_fields [simp]:
  "next_in (feed c st) = c" "avail_in (feed c st) = of_nat (length c)" "dec_32part (feed c st) = dec_32part st"
  "total_in (feed c st) = total_in st" "dec_64part (feed c st) = dec_64part st"
  by (simp_all add: feed_def xd3_avail_input_def)

section \<open>Rounding up a block size\<close>

lemma roundup_spec:
  assumes "unat x \<le> 2 ^ j" and "j = 0 \<or> 2 ^ (j - 1) < unat x" and "j \<le> 63"
  shows "xd3_pow2_roundup x = Some (push_bit j 1)"
proof -
  have "unat x \<le> 2 ^ 63" using assms(1,3) power_increasing [of j 63 "2::nat"] by simp
  from roundup_loop_props [OF this, of 0] obtain k where
    k: "k \<le> 63" "roundup_loop x 1 = Some (push_bit k 1)" "unat x \<le> 2 ^ k" "k = 0 \<or> 2 ^ (k - 1) < unat x"
    by (auto simp del: push_bit_of_1)
  have "\<not> k < j"
  proof
    assume "k < j"
    then have "(2::nat) ^ k \<le> 2 ^ (j - 1)" by (intro power_increasing) auto
    moreover from assms(2) \<open>k < j\<close> have "2 ^ (j - 1) < unat x" by simp
    ultimately show False using k(3) by linarith
  qed
  moreover have "\<not> j < k"
  proof
    assume "j < k"
    then have "(2::nat) ^ j \<le> 2 ^ (k - 1)" by (intro power_increasing) auto
    moreover from k(4) \<open>j < k\<close> have "2 ^ (k - 1) < unat x" by simp
    ultimately show False using assms(1) by linarith
  qed
  ultimately have "j = k" by simp
  with k(2) show ?thesis by (simp add: xd3_pow2_roundup_def del: push_bit_of_1)
qed

lemma round_any:
  assumes "unat x \<le> 2 ^ 63"
  obtains j where "j \<le> 63" "unat x \<le> 2 ^ j" "j = 0 \<or> 2 ^ (j - 1) < unat x"
    "xd3_pow2_roundup x = Some (push_bit j 1)" "fst (xd3_check_pow2 x) = XD3_OK \<longrightarrow> x = push_bit j 1"
proof -
  from roundup_loop_props [OF assms, of 0] obtain j where
    j: "j \<le> 63" "unat x \<le> 2 ^ j" "j = 0 \<or> 2 ^ (j - 1) < unat x" "xd3_pow2_roundup x = Some (push_bit j 1)"
    by (auto simp: xd3_pow2_roundup_def simp del: push_bit_of_1)
  have "x = push_bit j 1" if ok: "fst (xd3_check_pow2 x) = XD3_OK"
  proof -
    have "\<exists>n < 64. x = push_bit n 1"
      using ok check_pow2_loop_not_found [of x 0] by (force simp: xd3_check_pow2_def simp del: push_bit_of_1)
    then obtain n where n: "n < 64" "x = push_bit n 1" by blast
    then have u: "unat x = 2 ^ n" using unat_pow2 [where 'w = 64, of n] by simp
    have "xd3_pow2_roundup x = Some (push_bit n 1)"
    proof (rule roundup_spec)
      show "n = 0 \<or> 2 ^ (n - 1) < unat x" unfolding u by (cases n) auto
    qed (use n u in auto)
    with j(4) have "push_bit j 1 = (push_bit n 1 :: u64)" by simp
    with n(2) show ?thesis by simp
  qed
  with j that show thesis by blast
qed

lemma ucast_pow2: "j \<le> 31 \<Longrightarrow> ucast (push_bit j 1 :: u64) = (push_bit j 1 :: u32)"
  and ucast_pow2_back: "j \<le> 31 \<Longrightarrow> ucast (push_bit j 1 :: u32) = (push_bit j 1 :: u64)"
proof -
  assume "j \<le> 31"
  then have b: "unat (push_bit j 1 :: u64) = 2 ^ j" "unat (push_bit j 1 :: u32) = 2 ^ j"
    by (simp_all add: unat_pow2 del: push_bit_of_1)
  have "(2::nat) ^ j < 2 ^ 32" using \<open>j \<le> 31\<close> by (intro power_strict_increasing) simp_all
  note b = b this
  have "unat (ucast (push_bit j 1 :: u64) :: u32) = 2 ^ j"
    using b \<open>j \<le> 31\<close> by (simp add: unsigned_ucast_eq take_bit_nat_eq_self del: push_bit_of_1)
  then show "ucast (push_bit j 1 :: u64) = (push_bit j 1 :: u32)"
    using b by (simp only: word_unat_eq_iff)
  show "ucast (push_bit j 1 :: u32) = (push_bit j 1 :: u64)"
    using b by (simp only: word_unat_eq_iff unat_ucast_u32_u64)
qed

text \<open>A stream whose fields are zero, as \<open>memset\<close> leaves it, with an allocator.\<close>

definition null_cache :: xd3_addr_cache where
  "null_cache = \<lparr>s_near = 0, s_same = 0, next_slot = 0, near_array = None, same_array = None\<rparr>"

definition null_io :: "(nat \<Rightarrow> u32 \<Rightarrow> u32 \<Rightarrow> bool) \<Rightarrow> xd3_io" where
  "null_io al = \<lparr>alloc = al, alloc_calls = 0, alloc_cnt = 0, free_cnt = 0, uninit = \<lambda>_. 0, msg = None,
     enc_free = [], next_in = [], in_given = False, avail_in = 0, total_in = 0, avail_out = 0, space_out = 0,
     current_window = 0, total_out = 0, flags = 0, winsize = 0, enc_state = ENC_INIT, dec_32part = 0,
     dec_64part = 0, src = None, getblk = None, acache = null_cache\<rparr>"

text \<open>A result but for the message, which stays behind in the stream after a retry.\<close>

definition no_msg :: "xd3_ret \<times> 'a xd3_io_scheme \<Rightarrow> xd3_ret \<times> 'a xd3_io_scheme" where
  "no_msg x = (fst x, (snd x)\<lparr>msg := None\<rparr>)"

section \<open>Properties\<close>

text \<open>C23. The reentrant integer decoder does not depend on how the input is cut: if the first chunk ends
  inside an integer, \<open>xd3_decode_uint32_t\<close> returns \<open>XD3_INPUT\<close> having consumed it all, and calling it
  again on the second chunk gives the return code, the value, the count of consumed bytes and the
  remaining input that one call on both chunks together gives.\<close>

theorem decode_uint32_chunked:
  assumes "length (c1 @ c2) < 2 ^ 32"
    and "xd3_decode_uint32_t put (feed c1 st) = (XD3_INPUT, st1)"
    and "\<And>v s m. put v (s\<lparr>msg := m\<rparr>) = (put v s)\<lparr>msg := m\<rparr>"
  shows "no_msg (xd3_decode_uint32_t put (feed c2 st1)) = no_msg (xd3_decode_uint32_t put (feed (c1 @ c2) st))"
proof -
  have l: "length c1 < 2 ^ 32" "length c2 < 2 ^ 32" using assms(1) by simp_all
  then have u: "unat (of_nat (length c1) :: u32) = length c1" "unat (of_nat (length c2) :: u32) = length c2"
     "unat (of_nat (length (c1 @ c2)) :: u32) = length (c1 @ c2)"
    using assms(1) by (simp_all add: unat_of_nat_small del: of_nat_add)
  obtain p k v where d1: "decode_integer UINT32_OFLOW_MASK (dec_32part st) c1 (length c1) = (XD3_INPUT, p, k, v)"
    and st1: "st1 = int_msg XD3_INPUT ((DECODE_INPUT (of_nat k) (feed c1 st))\<lparr>dec_32part := p\<rparr>)"
    using assms(2) u by (auto simp: xd3_decode_uint32_t_def Let_def split: prod.splits)
  have k: "k = length c1" using decode_integer_consumed [OF d1] by simp
  obtain r p' k' v' where d2: "decode_integer UINT32_OFLOW_MASK p c2 (length c2) = (r, p', k', v')" by (metis prod_cases4)
  note k' = decode_integer_consumed [OF d2]
  have d12: "decode_integer UINT32_OFLOW_MASK (dec_32part st) (c1 @ c2) (length (c1 @ c2)) = (r, p', length c1 + k', v')"
    using decode_integer_resume [OF d1, of c2] d2 by simp
  have p: "dec_32part (feed c2 st1) = p" by (simp add: st1 int_msg_def set_msg_def)
  define t1 where "t1 = (DECODE_INPUT (of_nat k') (feed c2 st1))\<lparr>dec_32part := p'\<rparr>"
  define t2 where "t2 = (DECODE_INPUT (of_nat (length c1 + k')) (feed (c1 @ c2) st))\<lparr>dec_32part := p'\<rparr>"
  have t: "t2 = t1\<lparr>msg := msg st\<rparr>"
  proof -
    have "unat (of_nat (length c1 + k') :: u32) = length c1 + k'" "unat (of_nat k' :: u32) = k'"
      using assms(1) k' by (simp_all add: unat_of_nat_small del: of_nat_add)
    moreover have "(ucast (of_nat (length c1 + k') :: u32) :: u64) = ucast (of_nat (length c1) :: u32) + ucast (of_nat k' :: u32)"
      using calculation u(1) assms(1) k' by (simp add: word_unat_eq_iff unat_add_u64)
    moreover have "of_nat (length c1 + length c2) - of_nat (length c1 + k') = (of_nat (length c2) - of_nat k' :: u32)"
      by simp
    ultimately show ?thesis
      using u unfolding t1_def t2_def st1 k
      by (simp add: add.assoc DECODE_INPUT_def feed_def xd3_avail_input_def int_msg_def set_msg_def del: of_nat_add unsigned_ucast_eq)
  qed
  have e1: "xd3_decode_uint32_t put (feed c2 st1) = (r, int_msg r (if r = XD3_OK then put v' t1 else t1))"
    using d2 u p by (simp add: xd3_decode_uint32_t_def t1_def Let_def)
  have e2: "xd3_decode_uint32_t put (feed (c1 @ c2) st) = (r, int_msg r (if r = XD3_OK then put v' t2 else t2))"
    using d12 u(3) by (simp add: xd3_decode_uint32_t_def t2_def Let_def del: of_nat_add length_append)
  show ?thesis
    unfolding e1 e2 t by (simp add: no_msg_def int_msg_def set_msg_def assms(3))
qed

theorem decode_uint32_chunked_witness:
  "\<exists>st1. xd3_decode_uint32_t (\<lambda>v s. s\<lparr>winsize := v\<rparr>) (feed [0x82] (null_io (\<lambda>_ _ _. True))) = (XD3_INPUT, st1)
     \<and> no_msg (xd3_decode_uint32_t (\<lambda>v s. s\<lparr>winsize := v\<rparr>) (feed [0x2c, 7] st1))
       = no_msg (xd3_decode_uint32_t (\<lambda>v s. s\<lparr>winsize := v\<rparr>) (feed ([0x82] @ [0x2c, 7]) (null_io (\<lambda>_ _ _. True))))"
proof -
  let ?put = "\<lambda>v (s :: xd3_io). s\<lparr>winsize := v\<rparr>"
  let ?st = "null_io (\<lambda>_ _ _. True)"
  obtain st1 where i: "xd3_decode_uint32_t ?put (feed [0x82] ?st) = (XD3_INPUT, st1)"
    by (simp add: xd3_decode_uint32_t_def null_io_def Let_def)
  from decode_uint32_chunked [OF _ i, of "[0x2c, 7]"] i show ?thesis by auto
qed

text \<open>C28. \<open>xd3_set_source\<close> rounds a block size of up to 1 GB to the least power of two that holds it and sets
  shift and mask to match, so that the block arithmetic of the decoder is exact; the window limit
  becomes a power of two of at least 16 KB and no smaller than asked for.\<close>

theorem set_source_rounds:
  assumes "unat (blksize s) \<le> 2 ^ 30" and "unat (max_winsize s) \<le> 2 ^ 63"
  shows "\<exists>s'. xd3_set_source s st = (XD3_OK, st\<lparr>src := Some s'\<rparr>)
    \<and> unat (blksize s') = 2 ^ shiftby s' \<and> shiftby s' \<le> 30 \<and> maskby s' = push_bit (shiftby s') 1 - 1
    \<and> unat (blksize s) \<le> unat (blksize s') \<and> (shiftby s' = 0 \<or> 2 ^ (shiftby s' - 1) < unat (blksize s))
    \<and> unat (max_winsize s) \<le> unat (max_winsize s') \<and> 2 ^ 14 \<le> unat (max_winsize s')
    \<and> (\<exists>k. unat (max_winsize s') = 2 ^ k) \<and> srclen s' = 0 \<and> srcbase s' = 0 \<and> curblk s' = curblk s"
proof -
  have "unat (ucast (blksize s) :: u64) \<le> 2 ^ 63" using assms(1) by simp
  then obtain j where j: "j \<le> 63" "unat (ucast (blksize s) :: u64) \<le> 2 ^ j" "j = 0 \<or> 2 ^ (j - 1) < unat (ucast (blksize s) :: u64)"
    "xd3_pow2_roundup (ucast (blksize s)) = Some (push_bit j 1)"
    "fst (xd3_check_pow2 (ucast (blksize s))) = XD3_OK \<longrightarrow> ucast (blksize s) = (push_bit j 1 :: u64)"
    by (rule round_any)
  from assms(2) obtain k where k: "k \<le> 63" "unat (max_winsize s) \<le> 2 ^ k"
    "xd3_pow2_roundup (max_winsize s) = Some (push_bit k 1)"
    "fst (xd3_check_pow2 (max_winsize s)) = XD3_OK \<longrightarrow> max_winsize s = push_bit k 1"
    by (rule round_any)
  have j30: "j \<le> 30"
  proof (rule ccontr)
    assume "\<not> j \<le> 30"
    then have "(2::nat) ^ 30 \<le> 2 ^ (j - 1)" by (intro power_increasing) simp_all
    moreover have "2 ^ (j - 1) < unat (blksize s)" using j(3) \<open>\<not> j \<le> 30\<close> by simp
    ultimately show False using assms(1) by linarith
  qed
  note u = ucast_pow2 [of j] ucast_pow2_back [of j] xd3_check_pow2_pow2 [of j]
  have lg: "unat (of_nat j :: u32) = j" using j30 by (intro unat_of_nat_small) simp
  have blk: "(if fst (xd3_check_pow2 (ucast (blksize s))) \<noteq> XD3_OK
       then (case xd3_pow2_roundup (ucast (blksize s)) of None \<Rightarrow> None
             | Some r \<Rightarrow> Some (ucast r, snd (xd3_check_pow2 (ucast (ucast r :: u32)))))
       else Some (blksize s, snd (xd3_check_pow2 (ucast (blksize s)))))
     = Some (push_bit j 1 :: u32, of_nat j)"
  proof (cases "fst (xd3_check_pow2 (ucast (blksize s))) = XD3_OK")
    case True
    with j(5) have e: "ucast (blksize s) = (push_bit j 1 :: u64)" by simp
    then have "(ucast (blksize s) :: u64) = ucast (push_bit j 1 :: u32)" using u(2) j30 by (simp del: push_bit_of_1)
    then have "unat (blksize s) = unat (push_bit j 1 :: u32)"
      by (metis unat_ucast_u32_u64)
    then have "blksize s = push_bit j 1" by (simp only: word_unat_eq_iff)
    with True e u(3) j30 show ?thesis by (simp del: push_bit_of_1)
  next
    case False
    with j(4) u j30 show ?thesis by (simp del: push_bit_of_1)
  qed
  have mx: "(if fst (xd3_check_pow2 (max_winsize s)) \<noteq> XD3_OK then xd3_xoff_roundup (max_winsize s)
      else Some (max_winsize s)) = Some (push_bit k 1)"
    using k(3,4) by (simp add: xd3_xoff_roundup_def xd3_pow2_roundup_def del: push_bit_of_1)
  define s' where "s' = s\<lparr>srclen := 0, srcbase := 0, blksize := push_bit j 1, shiftby := j,
      maskby := push_bit j 1 - 1, max_winsize := max (push_bit k 1) (ucast XD3_ALLOCSIZE)\<rparr>"
  have ok: "xd3_set_source s st = (XD3_OK, st\<lparr>src := Some s'\<rparr>)"
  proof -
    have f: "blksize (s\<lparr>srclen := 0, srcbase := 0\<rparr>) = blksize s"
      "max_winsize (s\<lparr>srclen := 0, srcbase := 0, blksize := b, shiftby := n, maskby := q\<rparr>) = max_winsize s"
      for b n q by simp_all
    have "\<not> 31 \<le> j" using j30 by simp
    then show ?thesis
      unfolding xd3_set_source_def Let_def f blk option.case prod.case mx lg s'_def
      by (simp del: push_bit_of_1)
  qed
  have "unat (push_bit j 1 :: u32) = 2 ^ j" "unat (push_bit k 1 :: u64) = 2 ^ k"
    using j30 k(1) by (simp_all add: unat_pow2 del: push_bit_of_1)
  moreover have "unat (ucast XD3_ALLOCSIZE :: u64) = 2 ^ 14" by (simp add: XD3_ALLOCSIZE_def)
  moreover have "(2::nat) ^ 14 \<le> 2 ^ k \<or> max ((2::nat) ^ k) (2 ^ 14) = 2 ^ 14" by linarith
  ultimately have "unat (max (push_bit k 1) (ucast XD3_ALLOCSIZE :: u64)) = max (2 ^ k) (2 ^ 14)"
    "unat (push_bit j 1 :: u32) = 2 ^ j"
    by (auto simp: max_def word_le_nat_alt simp del: push_bit_of_1)
  moreover have "max ((2::nat) ^ k) (2 ^ 14) = 2 ^ (max k 14)"
    using power_increasing [of k 14 "2::nat"] power_increasing [of 14 k "2::nat"] by (cases "k \<le> 14") auto
  ultimately show ?thesis
    using ok j30 j(2,3) k(2) by (intro exI [of _ s']) (auto simp: s'_def simp del: push_bit_of_1)
qed

theorem set_source_rounds_witness:
  "\<exists>s'. xd3_set_source \<lparr>blksize = 3000, max_winsize = 5, curblkno = 0, onblk = 0, curblk = None, srclen = 9,
        srcbase = 9, shiftby = 0, maskby = 0, cpyoff_blocks = 0, cpyoff_blkoff = 0, getblkno = 0, max_blkno = 0,
        frontier_blkno = 0, onlastblk = 0, eof_known = False\<rparr> (null_io (\<lambda>_ _ _. True))
      = (XD3_OK, (null_io (\<lambda>_ _ _. True))\<lparr>src := Some s'\<rparr>) \<and> 3000 \<le> unat (blksize s')"
  using set_source_rounds [of "\<lparr>blksize = 3000, max_winsize = 5, curblkno = 0, onblk = 0, curblk = None, srclen = 9,
        srcbase = 9, shiftby = 0, maskby = 0, cpyoff_blocks = 0, cpyoff_blkoff = 0, getblkno = 0, max_blkno = 0,
        frontier_blkno = 0, onlastblk = 0, eof_known = False\<rparr>" "null_io (\<lambda>_ _ _. True)"] by auto

end
