(* ===== verification/Xd3_Decode.thy ===== *)
theory Xd3_Decode
  imports Xd3_Stream Xd3_Codetable Xd3_Adler
begin

text \<open>
  The VCDIFF decoder (xdelta3-decode.h).  \<open>xd3_decode_input\<close> is a state machine that falls through its
  states and can stop in each of them for want of input; the model has one definition per state, each
  ending in a call of the next, and a dispatch on \<open>dec_state\<close>.

  Memory.  The target buffers \<open>dec_buffer\<close>, \<open>next_out\<close> and \<open>dec_lastwin\<close> may alias, so they are handles
  into a heap \<open>out_heap\<close>; using or freeing a freed handle is \<open>C_UB\<close>.  A section is the list of its
  unread bytes (\<open>buf\<close> up to \<open>buf_max\<close>).  \<open>dec_cpyaddrbase\<close> is set but never read by the code and is left
  out.  Secondary compression is not compiled in, so \<open>sec_type\<close> is always \<open>NULL\<close>.

  The code table of a file is itself a VCDIFF delta, decoded by \<open>xd3_decode_memory\<close>: the decoder takes
  that function as its first argument \<open>dm\<close>, and the theory of the client functions ties the knot.
\<close>

section \<open>State\<close>

record xd3_hinst =
  h_type :: u8
  h_size :: u32
  h_addr :: u32

record xd3_desect =
  sect_buf :: "u8 list"
  sect_size :: u32
  sect_pos :: u32
  sect_copied1 :: "u8 list option"
  sect_alloc1 :: u32

record xd3_dechdr = xd3_io +
  dec_state :: xd3_decode_state
  dec_hdr_ind :: u32
  dec_win_ind :: u32
  dec_del_ind :: u32
  dec_magic :: "u8 list"
  dec_magicbytes :: u32
  dec_secondid :: u32
  dec_codetblsz :: u32
  dec_codetbl :: "u8 list option"
  dec_codetblbytes :: u32
  dec_appheadsz :: u32
  dec_appheader :: "u8 list option"
  dec_appheadbytes :: u32
  dec_cksumbytes :: u32
  dec_cksum :: "u8 list"
  dec_adler32 :: u32
  code_table :: "xd3_dinst list option"
  code_table_alloc :: "xd3_dinst list option"

record xd3_decoder = xd3_dechdr +
  dec_cpylen :: u32
  dec_cpyoff :: u64
  dec_enclen :: u32
  dec_tgtlen :: u32
  dec_winstart :: u64
  dec_window_count :: u64
  dec_winbytes :: u32
  dec_hdrsize :: u32
  dec_tgtaddrbase :: "nat option \<times> u32"
  dec_position :: u32
  dec_maxpos :: u32
  dec_current1 :: xd3_hinst
  dec_current2 :: xd3_hinst
  dec_buffer :: "nat option"
  next_out :: "nat option"
  dec_lastwin :: "nat option"
  dec_lastlen :: u32
  dec_laststart :: u64
  dec_lastspace :: u32
  out_heap :: "nat \<rightharpoonup> u8 list"
  inst_sect :: xd3_desect
  addr_sect :: xd3_desect
  data_sect :: xd3_desect

definition null_sect :: xd3_desect where
  "null_sect = \<lparr>sect_buf = [], sect_size = 0, sect_pos = 0, sect_copied1 = None, sect_alloc1 = 0\<rparr>"

definition null_inst :: xd3_hinst where
  "null_inst = \<lparr>h_type = XD3_NOOP, h_size = 0, h_addr = 0\<rparr>"

text \<open>A decoder stream whose fields are zero, as \<open>xd3_config_stream\<close> starts from.\<close>

definition null_decoder :: "xd3_io \<Rightarrow> xd3_decoder" where
  "null_decoder io = xd3_dechdr.extend (xd3_io.extend io
    (xd3_dechdr.fields DEC_VCHEAD 0 0 0 [0, 0, 0, 0] 0 0 0 None 0 0 None 0 0 [0, 0, 0, 0] 0 None None))
    (xd3_decoder.fields 0 0 0 0 0 0 0 0 (None, 0) 0 0 null_inst null_inst None None None 0 0 0 Map.empty
        null_sect null_sect null_sect)"

lemmas null_defs = null_decoder_def null_io_def null_inst_def null_sect_def xd3_io.defs xd3_dechdr.defs xd3_decoder.defs

section \<open>Code tables from the file\<close>

text \<open>\<open>xd3_apply_table_string\<close> on a stream: allocate the table, fill it, install it.\<close>

definition apply_table_string_stream :: "u8 list \<Rightarrow> 'a xd3_decoder_scheme \<Rightarrow> xd3_ret \<times> 'a xd3_decoder_scheme" where
  "apply_table_string_stream code_string st =
    (case xd3_alloc 4 256 st of
       (False, st1) \<Rightarrow> (ENOMEM, st1\<lparr>code_table_alloc := None\<rparr>)
     | (True, st1) \<Rightarrow>
        (let fresh = replicate 256 (dinst 0 0 0 0); st2 = st1\<lparr>code_table_alloc := Some fresh\<rparr> in
         case xd3_apply_table_string (TOTAL_MODES (acache st2)) fresh code_string of
           Inl m \<Rightarrow> fail_with XD3_INTERNAL m st2
         | Inr tbl \<Rightarrow> (XD3_OK, st2\<lparr>code_table_alloc := Some tbl, code_table := Some tbl\<rparr>)))"

text \<open>\<open>dm data size source max\<close> is \<open>xd3_decode_memory\<close>: its return code and its output.\<close>

type_synonym decode_memory_fun = "u8 list \<Rightarrow> u32 \<Rightarrow> u8 list \<Rightarrow> u32 \<Rightarrow> xd3_ret \<times> u8 list"

definition xd3_apply_table_encoding ::
    "decode_memory_fun \<Rightarrow> u8 list \<Rightarrow> u32 \<Rightarrow> 'a xd3_decoder_scheme \<Rightarrow> xd3_ret \<times> 'a xd3_decoder_scheme" where
  "xd3_apply_table_encoding dm data sz st =
    (case dm data sz (xd3_compute_code_table_string xd3_rfc3284_code_table) (of_nat CODE_TABLE_STRING_SIZE) of
       (r, code_string) \<Rightarrow>
         if r \<noteq> XD3_OK then (r, st)
         else if length code_string \<noteq> CODE_TABLE_STRING_SIZE
           then fail_with XD3_INTERNAL ''corrupt code-table encoding'' st
         else apply_table_string_stream code_string st)"

section \<open>Windows and buffers\<close>

definition SRCORTGT :: "u32 \<Rightarrow> u32" where
  "SRCORTGT x = (if x AND VCD_SRCORTGT = VCD_SOURCE then VCD_SOURCE
                 else if x AND VCD_SRCORTGT = VCD_TARGET then VCD_TARGET else 0)"

definition xd3_decode_init_window :: "'a xd3_decoder_scheme \<Rightarrow> xd3_ret \<times> 'a xd3_decoder_scheme" where
  "xd3_decode_init_window st =
    (case xd3_init_cache (acache st) of
       None \<Rightarrow> (C_UB, st)
     | Some ac \<Rightarrow> (XD3_OK, st\<lparr>dec_cpylen := 0, dec_cpyoff := 0, dec_cksumbytes := 0, acache := ac\<rparr>))"

text \<open>\<open>xd3_free\<close> on a target buffer: \<open>NULL\<close> is ignored, a handle that is not live is a double free.\<close>

definition free_out :: "nat option \<Rightarrow> 'a xd3_decoder_scheme \<Rightarrow> xd3_ret \<times> 'a xd3_decoder_scheme" where
  "free_out p st =
    (case p of
       None \<Rightarrow> (XD3_OK, st)
     | Some h \<Rightarrow> (case out_heap st h of
                   None \<Rightarrow> (C_UB, st)
                 | Some _ \<Rightarrow> (XD3_OK, xd3_free (st\<lparr>out_heap := (out_heap st)(h := None)\<rparr>))))"

definition xd3_decode_setup_buffers :: "'a xd3_decoder_scheme \<Rightarrow> xd3_ret \<times> 'a xd3_decoder_scheme" where
  "xd3_decode_setup_buffers st =
    (let tgt = flag_set (dec_win_ind st) VCD_TARGET in
     if tgt \<and> dec_cpyoff st < dec_laststart st
       then fail_with XD3_INVALID_INPUT ''unsupported VCD_TARGET offset'' st
     else
       let st1 = (if tgt \<and> dec_lastwin st = next_out st then st\<lparr>next_out := None, space_out := 0\<rparr> else st) in
       bind_ok
         (if space_out st1 < dec_tgtlen st1 then
            bind_ok (free_out (dec_buffer st1) st1)
              (\<lambda>st2. let st3 = st2\<lparr>space_out := xd3_round_blksize (dec_tgtlen st2) XD3_ALLOCSIZE\<rparr>;
                         h = alloc_calls st3 in
                 case xd3_alloc (space_out st3) 1 st3 of
                   (False, st4) \<Rightarrow> (ENOMEM, st4\<lparr>dec_buffer := None\<rparr>)
                 | (True, st4) \<Rightarrow>
                    (XD3_OK, st4\<lparr>dec_buffer := Some h, next_out := Some h,
                       out_heap := (out_heap st4)(h \<mapsto> fresh_block (unat (space_out st4)) st4)\<rparr>))
          else (XD3_OK, st1))
         (\<lambda>st5. (XD3_OK, st5\<lparr>dec_tgtaddrbase := (next_out st5, dec_cpylen st5)\<rparr>)))"

text \<open>\<open>xd3_decode_allocate (stream, size, & buf_ptr, & buf_alloc)\<close>.\<close>

definition xd3_decode_allocate ::
    "u32 \<Rightarrow> u8 list option \<Rightarrow> u32 \<Rightarrow> 'a xd3_decoder_scheme \<Rightarrow> xd3_ret \<times> u8 list option \<times> u32 \<times> 'a xd3_decoder_scheme" where
  "xd3_decode_allocate sz buf_ptr buf_alloc st =
    (let (buf1, st1) = (if buf_ptr \<noteq> None \<and> buf_alloc < sz then (None, xd3_free st) else (buf_ptr, st)) in
     case buf1 of
       Some b \<Rightarrow> (XD3_OK, Some b, buf_alloc, st1)
     | None \<Rightarrow>
        (let n = xd3_round_blksize sz XD3_ALLOCSIZE in
         case xd3_alloc n 1 st1 of
           (False, st2) \<Rightarrow> (ENOMEM, None, n, st2)
         | (True, st2) \<Rightarrow> (XD3_OK, Some (fresh_block (unat n) st2), n, st2)))"

section \<open>Sections\<close>

text \<open>\<open>xd3_decode_section (stream, & sect, nstate, copy)\<close>; \<open>get\<close> and \<open>upd\<close> access the section.  Without a
  copy the section is the next \<open>size\<close> bytes of the input, which have to be there.\<close>

definition xd3_decode_section ::
    "('a xd3_decoder_scheme \<Rightarrow> xd3_desect) \<Rightarrow> (xd3_desect \<Rightarrow> 'a xd3_decoder_scheme \<Rightarrow> 'a xd3_decoder_scheme) \<Rightarrow>
     xd3_decode_state \<Rightarrow> bool \<Rightarrow> 'a xd3_decoder_scheme \<Rightarrow> xd3_ret \<times> 'a xd3_decoder_scheme" where
  "xd3_decode_section get upd nstate copy st =
    (let sect = get st;
         finish = (\<lambda>bytes s. (XD3_OK,
            upd ((get s)\<lparr>sect_buf := bytes, sect_pos := 0\<rparr>) (s\<lparr>dec_state := nstate\<rparr>))) in
     if sect_pos sect < sect_size sect then
       (if avail_in st = 0 then (XD3_INPUT, st)
        else if \<not> copy \<and> sect_pos sect = 0 then
          (if length (next_in st) < unat (sect_size sect) then (C_UB, st)
           else finish (take (unat (sect_size sect)) (next_in st))
                  (DECODE_INPUT (sect_size sect)
                    (st\<lparr>dec_winbytes := dec_winbytes st + sect_size sect\<rparr>)))
        else
          (let tk = min (sect_size sect - sect_pos sect) (avail_in st);
               alloc1 = (if sect_pos sect = 0
                 then xd3_decode_allocate (sect_size sect) (sect_copied1 sect) (sect_alloc1 sect) st
                 else (XD3_OK, sect_copied1 sect, sect_alloc1 sect, st)) in
           case alloc1 of
             (r, c1, a1, st1) \<Rightarrow>
               let st2 = upd (sect\<lparr>sect_copied1 := c1, sect_alloc1 := a1\<rparr>) st1 in
               if r \<noteq> XD3_OK then (r, st2)
               else (case c1 of
                 None \<Rightarrow> (C_UB, st2)
               | Some buf \<Rightarrow>
                  (if length buf < unat (sect_pos sect) + unat tk \<or> length (next_in st2) < unat tk then (C_UB, st2)
                   else
                     let buf' = write_at buf (unat (sect_pos sect)) (take (unat tk) (next_in st2));
                         pos' = sect_pos sect + tk;
                         st3 = DECODE_INPUT tk
                           (upd ((get st2)\<lparr>sect_copied1 := Some buf', sect_pos := pos'\<rparr>)
                             (st2\<lparr>dec_winbytes := dec_winbytes st2 + tk\<rparr>)) in
                     if pos' < sect_size sect then fail_with XD3_INPUT ''further input required'' st3
                     else finish (take (unat (sect_size sect)) buf') st3))))
     else finish [] st)"

definition upd_data_sect :: "xd3_desect \<Rightarrow> 'a xd3_decoder_scheme \<Rightarrow> 'a xd3_decoder_scheme" where
  "upd_data_sect s st = st\<lparr>data_sect := s\<rparr>"
definition upd_inst_sect :: "xd3_desect \<Rightarrow> 'a xd3_decoder_scheme \<Rightarrow> 'a xd3_decoder_scheme" where
  "upd_inst_sect s st = st\<lparr>inst_sect := s\<rparr>"
definition upd_addr_sect :: "xd3_desect \<Rightarrow> 'a xd3_decoder_scheme \<Rightarrow> 'a xd3_decoder_scheme" where
  "upd_addr_sect s st = st\<lparr>addr_sect := s\<rparr>"

definition xd3_decode_finish_window :: "'a xd3_decoder_scheme \<Rightarrow> xd3_ret \<times> 'a xd3_decoder_scheme" where
  "xd3_decode_finish_window st =
    (XD3_OUTPUT, st\<lparr>dec_winbytes := 0, dec_state := DEC_FINISH,
       data_sect := (data_sect st)\<lparr>sect_pos := 0\<rparr>,
       inst_sect := (inst_sect st)\<lparr>sect_pos := 0\<rparr>,
       addr_sect := (addr_sect st)\<lparr>sect_pos := 0\<rparr>\<rparr>)"

text \<open>With \<open>SECONDARY_ANY\<close> 0 this does nothing.\<close>

definition xd3_decode_secondary_sections :: "'a xd3_decoder_scheme \<Rightarrow> xd3_ret \<times> 'a xd3_decoder_scheme" where
  "xd3_decode_secondary_sections st = (XD3_OK, st)"

definition sections_addr :: "bool \<Rightarrow> 'a xd3_decoder_scheme \<Rightarrow> xd3_ret \<times> 'a xd3_decoder_scheme" where
  "sections_addr copy st = xd3_decode_section addr_sect upd_addr_sect DEC_EMIT copy st"

definition sections_inst :: "bool \<Rightarrow> 'a xd3_decoder_scheme \<Rightarrow> xd3_ret \<times> 'a xd3_decoder_scheme" where
  "sections_inst copy st = bind_ok (xd3_decode_section inst_sect upd_inst_sect DEC_ADDR copy st) (sections_addr copy)"

definition sections_data :: "bool \<Rightarrow> 'a xd3_decoder_scheme \<Rightarrow> xd3_ret \<times> 'a xd3_decoder_scheme" where
  "sections_data copy st = bind_ok (xd3_decode_section data_sect upd_data_sect DEC_INST copy st) (sections_inst copy)"

definition xd3_decode_sections :: "'a xd3_decoder_scheme \<Rightarrow> xd3_ret \<times> 'a xd3_decoder_scheme" where
  "xd3_decode_sections st =
    (if flag_set (flags st) XD3_JUST_HDR then xd3_decode_finish_window st
     else
       let need = sect_size (inst_sect st) + sect_size (addr_sect st) + sect_size (data_sect st);
           more = need - dec_winbytes st;
           tk = min more (avail_in st);
           copy = (tk \<noteq> more) in
       if flag_set (flags st) XD3_SKIP_WINDOW then
         (if length (next_in st) < unat tk then (C_UB, st)
          else
            let st1 = (DECODE_INPUT tk st)\<lparr>dec_winbytes := dec_winbytes st + tk\<rparr> in
            if copy then fail_with XD3_INPUT ''further input required'' st1
            else xd3_decode_finish_window st1)
       else
         bind_ok
           (case dec_state st of
              DEC_DATA \<Rightarrow> sections_data copy st
            | DEC_INST \<Rightarrow> sections_inst copy st
            | DEC_ADDR \<Rightarrow> sections_addr copy st
            | _ \<Rightarrow> fail_with XD3_INVALID_INPUT ''internal error'' st)
           (\<lambda>st1. bind_ok (xd3_decode_secondary_sections st1)
             (\<lambda>st2. if flag_set (flags st2) XD3_SKIP_EMIT then xd3_decode_finish_window st2
                    else xd3_decode_setup_buffers st2)))"

end
