(* ===== verification/Xd3_Decode_Emit.thy ===== *)
theory Xd3_Decode_Emit
  imports Xd3_Decode
begin

text \<open>
  Producing a target window (xdelta3-decode.h): reading an opcode and the sizes and addresses of its
  two halves, executing a half instruction, the loop over the instruction section and the checks that
  end a window.  Loops whose progress depends on values from the file carry a progress test; the
  outcome \<open>C_LOOP\<close> of a failed test is what a C loop that repeats its state does.
\<close>

section \<open>Reading an instruction\<close>

text \<open>\<open>xd3_decode_parse_halfinst (stream, inst)\<close>: the half instruction comes back with size and address.
  Both bound checks are 32-bit sums, as in the C.\<close>

definition xd3_decode_parse_halfinst ::
    "xd3_hinst \<Rightarrow> 'a xd3_decoder_scheme \<Rightarrow> xd3_ret \<times> xd3_hinst \<times> 'a xd3_decoder_scheme" where
  "xd3_decode_parse_halfinst inst st =
    (case (if h_size inst = 0 then
             (case xd3_read_uint32_t (sect_buf (inst_sect st)) of
                Inl m \<Rightarrow> (XD3_INVALID_INPUT, inst, set_msg m st)
              | Inr (v, rest) \<Rightarrow>
                 (XD3_OK, inst\<lparr>h_size := v\<rparr>, st\<lparr>inst_sect := (inst_sect st)\<lparr>sect_buf := rest\<rparr>\<rparr>))
           else (XD3_OK, inst, st)) of
       (r, inst1, st1) \<Rightarrow>
         if r \<noteq> XD3_OK then (r, inst1, st1)
         else
           (case (if h_type inst1 \<ge> XD3_CPY then
                    (case xd3_decode_address (acache st1) (dec_position st1) (ucast (h_type inst1 - XD3_CPY))
                            (sect_buf (addr_sect st1)) of
                       Inl (r, m) \<Rightarrow> (r, inst1, if r = C_UB then st1 else set_msg m st1)
                     | Inr (addr, rest, ac) \<Rightarrow>
                        (let inst2 = inst1\<lparr>h_addr := addr\<rparr>;
                             st2 = st1\<lparr>addr_sect := (addr_sect st1)\<lparr>sect_buf := rest\<rparr>, acache := ac\<rparr> in
                         if addr \<ge> dec_position st2
                           then (XD3_INVALID_INPUT, inst2, set_msg ''address too large'' st2)
                         else if addr < dec_cpylen st2 \<and> addr + h_size inst2 > dec_cpylen st2
                           then (XD3_INVALID_INPUT, inst2, set_msg ''size too large'' st2)
                         else (XD3_OK, inst2, st2)))
                  else (XD3_OK, inst1, st1)) of
              (r, inst3, st3) \<Rightarrow>
                if r \<noteq> XD3_OK then (r, inst3, st3)
                else if dec_position st3 + h_size inst3 > dec_maxpos st3
                  then (XD3_INVALID_INPUT, inst3, set_msg ''size too large'' st3)
                else (XD3_OK, inst3, st3\<lparr>dec_position := dec_position st3 + h_size inst3\<rparr>)))"

text \<open>The two current instructions of a stream, by position.\<close>

definition parse_current1 :: "'a xd3_decoder_scheme \<Rightarrow> xd3_ret \<times> 'a xd3_decoder_scheme" where
  "parse_current1 st = (case xd3_decode_parse_halfinst (dec_current1 st) st of
     (r, i, st1) \<Rightarrow> (r, st1\<lparr>dec_current1 := i\<rparr>))"

definition parse_current2 :: "'a xd3_decoder_scheme \<Rightarrow> xd3_ret \<times> 'a xd3_decoder_scheme" where
  "parse_current2 st = (case xd3_decode_parse_halfinst (dec_current2 st) st of
     (r, i, st1) \<Rightarrow> (r, st1\<lparr>dec_current2 := i\<rparr>))"

definition xd3_decode_instruction :: "'a xd3_decoder_scheme \<Rightarrow> xd3_ret \<times> 'a xd3_decoder_scheme" where
  "xd3_decode_instruction st =
    (case sect_buf (inst_sect st) of
       [] \<Rightarrow> fail_with XD3_INVALID_INPUT ''instruction underflow'' st
     | b # rest \<Rightarrow>
        (case arr_get (code_table st) (unat b) of
           None \<Rightarrow> (C_UB, st)
         | Some d \<Rightarrow>
            (let st1 = st\<lparr>inst_sect := (inst_sect st)\<lparr>sect_buf := rest\<rparr>,
               dec_current1 := (dec_current1 st)\<lparr>h_type := type1 d, h_size := ucast (size1 d)\<rparr>,
               dec_current2 := (dec_current2 st)\<lparr>h_type := type2 d, h_size := ucast (size2 d)\<rparr>\<rparr> in
             bind_ok (if type1 d \<noteq> XD3_NOOP then parse_current1 st1 else (XD3_OK, st1))
               (\<lambda>st2. if type2 d \<noteq> XD3_NOOP then parse_current2 st2 else (XD3_OK, st2)))))"

section \<open>Executing a half instruction\<close>

text \<open>A write of \<open>bs\<close> at \<open>next_out + avail_out\<close>.\<close>

definition out_append :: "u8 list \<Rightarrow> 'a xd3_decoder_scheme \<Rightarrow> xd3_ret \<times> 'a xd3_decoder_scheme" where
  "out_append bs st =
    (case next_out st of
       None \<Rightarrow> (if bs = [] then XD3_OK else C_UB, st)
     | Some h \<Rightarrow>
        (case out_heap st h of
           None \<Rightarrow> (C_UB, st)
         | Some buf \<Rightarrow>
            (if unat (avail_out st) + length bs \<le> length buf
             then (XD3_OK, st\<lparr>out_heap := (out_heap st)(h \<mapsto> write_at buf (unat (avail_out st)) bs),
                     avail_out := avail_out st + of_nat (length bs)\<rparr>)
             else (C_UB, st))))"

text \<open>The byte-by-byte copy inside the target window.\<close>

fun overlap_copy :: "u8 list \<Rightarrow> nat \<Rightarrow> nat \<Rightarrow> nat \<Rightarrow> u8 list option" where
  "overlap_copy buf s d 0 = Some buf"
| "overlap_copy buf s d (Suc n) =
    (if s < length buf \<and> d < length buf then overlap_copy (buf[d := buf ! s]) (Suc s) (Suc d) n else None)"

definition out_copy :: "u32 \<Rightarrow> u32 \<Rightarrow> 'a xd3_decoder_scheme \<Rightarrow> xd3_ret \<times> 'a xd3_decoder_scheme" where
  "out_copy addr tk st =
    (case next_out st of
       None \<Rightarrow> (if tk = 0 then XD3_OK else C_UB, st)
     | Some h \<Rightarrow>
        (if dec_tgtaddrbase st \<noteq> (Some h, dec_cpylen st) then (C_UB, st)
         else
          (case out_heap st h of
             None \<Rightarrow> (C_UB, st)
           | Some buf \<Rightarrow>
              (case overlap_copy buf (unat addr - unat (dec_cpylen st)) (unat (avail_out st)) (unat tk) of
                 None \<Rightarrow> (C_UB, st)
               | Some buf' \<Rightarrow> (XD3_OK, st\<lparr>out_heap := (out_heap st)(h \<mapsto> buf'), avail_out := avail_out st + tk\<rparr>)))))"

text \<open>A copy from the source: fetch the block, then take what it holds of the instruction.\<close>

definition source_copy :: "xd3_hinst \<Rightarrow> 'a xd3_decoder_scheme \<Rightarrow> xd3_ret \<times> xd3_hinst \<times> 'a xd3_decoder_scheme" where
  "source_copy inst st =
    (case src st of
       None \<Rightarrow> (C_UB, inst, st)
     | Some source \<Rightarrow>
        (let bsz = blksize source in
         case xd3_blksize_add (cpyoff_blocks source) (cpyoff_blkoff source) (shiftby source) (maskby source) (h_addr inst) of
           (block, blkoff) \<Rightarrow>
            (case xd3_getblk block st of
               (r, st1) \<Rightarrow>
                 if r = XD3_TOOFARBACK then
                   (XD3_INTERNAL, inst, set_msg ''non-seekable source in decode'' st1)
                 else if r \<noteq> XD3_OK then (r, inst, st1)
                 else
                   (case src st1 of
                      None \<Rightarrow> (C_UB, inst, st1)
                    | Some source1 \<Rightarrow>
                       (let tk = h_size inst in
                        if onblk source1 \<noteq> bsz \<and> blkoff + tk > onblk source1
                          then (XD3_INVALID_INPUT, inst, set_msg ''source file too short'' st1)
                        else
                          let (tk', inst') =
                            (if blkoff + tk \<le> bsz then (tk, inst\<lparr>h_type := XD3_NOOP, h_size := 0\<rparr>)
                             else (bsz - blkoff, inst\<lparr>h_size := h_size inst - (bsz - blkoff),
                                     h_addr := h_addr inst + (bsz - blkoff)\<rparr>)) in
                          (case curblk source1 of
                             None \<Rightarrow> (C_UB, inst', st1)
                           | Some blk \<Rightarrow>
                              (if length blk < unat blkoff + unat tk' then (C_UB, inst', st1)
                               else (case out_append (take (unat tk') (drop (unat blkoff) blk)) st1 of
                                       (r2, st2) \<Rightarrow> (r2, inst', st2)))))))))"

definition xd3_decode_output_halfinst ::
    "xd3_hinst \<Rightarrow> 'a xd3_decoder_scheme \<Rightarrow> xd3_ret \<times> xd3_hinst \<times> 'a xd3_decoder_scheme" where
  "xd3_decode_output_halfinst inst st =
    (if h_type inst = XD3_RUN then
       (case sect_buf (data_sect st) of
          [] \<Rightarrow> (XD3_INVALID_INPUT, inst, set_msg ''data underflow'' st)
        | b # rest \<Rightarrow>
           (case out_append (replicate (unat (h_size inst)) b) st of
              (r, st1) \<Rightarrow>
                if r \<noteq> XD3_OK then (r, inst, st1)
                else (XD3_OK, inst\<lparr>h_type := XD3_NOOP\<rparr>,
                      st1\<lparr>data_sect := (data_sect st1)\<lparr>sect_buf := rest\<rparr>\<rparr>)))
     else if h_type inst = XD3_ADD then
       (let tk = unat (h_size inst); buf = sect_buf (data_sect st) in
        if length buf < tk then (XD3_INVALID_INPUT, inst, set_msg ''data underflow'' st)
        else (case out_append (take tk buf) st of
                (r, st1) \<Rightarrow>
                  if r \<noteq> XD3_OK then (r, inst, st1)
                  else (XD3_OK, inst\<lparr>h_type := XD3_NOOP\<rparr>,
                        st1\<lparr>data_sect := (data_sect st1)\<lparr>sect_buf := drop tk buf\<rparr>\<rparr>)))
     else if h_addr inst < dec_cpylen st then
       (if flag_set (dec_win_ind st) VCD_TARGET
        then (XD3_UNIMPLEMENTED, inst\<lparr>h_size := 0, h_type := XD3_NOOP\<rparr>, set_msg ''VCD_TARGET not implemented'' st)
        else source_copy inst st)
     else
       (case out_copy (h_addr inst) (h_size inst) st of
          (r, st1) \<Rightarrow> (r, inst\<lparr>h_type := XD3_NOOP, h_size := 0\<rparr>, st1)))"

section \<open>The loop over a window\<close>

text \<open>\<open>while (inst->type != XD3_NOOP) xd3_decode_output_halfinst (...)\<close>.\<close>

function output_loop :: "xd3_hinst \<Rightarrow> 'a xd3_decoder_scheme \<Rightarrow> xd3_ret \<times> xd3_hinst \<times> 'a xd3_decoder_scheme" where
  "output_loop inst st =
    (if h_type inst = XD3_NOOP then (XD3_OK, inst, st)
     else
       (case xd3_decode_output_halfinst inst st of
          (r, inst1, st1) \<Rightarrow>
            if r \<noteq> XD3_OK then (r, inst1, st1)
            else if h_type inst1 = XD3_NOOP then (XD3_OK, inst1, st1)
            else if unat (h_size inst1) < unat (h_size inst) then output_loop inst1 st1
            else (C_LOOP, inst1, st1)))"
  by pat_completeness auto
termination by (relation "measure (\<lambda>(inst, st). unat (h_size inst))") auto

declare output_loop.simps [simp del]

definition output_current1 :: "'a xd3_decoder_scheme \<Rightarrow> xd3_ret \<times> 'a xd3_decoder_scheme" where
  "output_current1 st = (case output_loop (dec_current1 st) st of (r, i, st1) \<Rightarrow> (r, st1\<lparr>dec_current1 := i\<rparr>))"

definition output_current2 :: "'a xd3_decoder_scheme \<Rightarrow> xd3_ret \<times> 'a xd3_decoder_scheme" where
  "output_current2 st = (case output_loop (dec_current2 st) st of (r, i, st1) \<Rightarrow> (r, st1\<lparr>dec_current2 := i\<rparr>))"

definition no_pending :: "'a xd3_decoder_scheme \<Rightarrow> bool" where
  "no_pending st \<longleftrightarrow> h_type (dec_current1 st) = XD3_NOOP \<and> h_type (dec_current2 st) = XD3_NOOP"

text \<open>One round of the loop of \<open>xd3_decode_emit\<close>.\<close>

definition emit_step :: "'a xd3_decoder_scheme \<Rightarrow> xd3_ret \<times> 'a xd3_decoder_scheme" where
  "emit_step st =
    bind_ok (if no_pending st then xd3_decode_instruction st else (XD3_OK, st))
      (\<lambda>st1. bind_ok (output_current1 st1) output_current2)"

definition emit_rank :: "'a xd3_decoder_scheme \<Rightarrow> nat" where
  "emit_rank st = 2 * length (sect_buf (inst_sect st)) + (if no_pending st then 0 else 1)"

function emit_loop :: "'a xd3_decoder_scheme \<Rightarrow> xd3_ret \<times> 'a xd3_decoder_scheme" where
  "emit_loop st =
    (if sect_buf (inst_sect st) \<noteq> [] \<or> \<not> no_pending st then
       (case emit_step st of
          (r, st1) \<Rightarrow>
            if r \<noteq> XD3_OK then (r, st1)
            else if emit_rank st1 < emit_rank st then emit_loop st1 else (C_LOOP, st1))
     else (XD3_OK, st))"
  by pat_completeness auto
termination by (relation "measure emit_rank") auto

declare emit_loop.simps [simp del]

text \<open>The bytes \<open>[next_out, next_out + avail_out)\<close>.\<close>

definition out_window :: "'a xd3_decoder_scheme \<Rightarrow> u8 list" where
  "out_window st = (case next_out st of None \<Rightarrow> []
     | Some h \<Rightarrow> (case out_heap st h of None \<Rightarrow> [] | Some buf \<Rightarrow> take (unat (avail_out st)) buf))"

definition xd3_decode_emit :: "'a xd3_decoder_scheme \<Rightarrow> xd3_ret \<times> 'a xd3_decoder_scheme" where
  "xd3_decode_emit st =
    bind_ok (emit_loop st)
      (\<lambda>st1.
        if avail_out st1 \<noteq> dec_tgtlen st1 then fail_with XD3_INVALID_INPUT ''wrong window length'' st1
        else if sect_buf (data_sect st1) \<noteq> [] then fail_with XD3_INVALID_INPUT ''extra data section'' st1
        else if sect_buf (addr_sect st1) \<noteq> [] then fail_with XD3_INVALID_INPUT ''extra address section'' st1
        else if flag_set (dec_win_ind st1) VCD_ADLER32 \<and> \<not> flag_set (flags st1) XD3_ADLER32_NOVER
              \<and> ucast (adler32 (1 :: 64 word) (out_window st1) (avail_out st1)) \<noteq> dec_adler32 st1
          then fail_with XD3_INVALID_INPUT ''target window checksum mismatch'' st1
        else xd3_decode_finish_window st1)"

end
