(* ===== verification/Xd3_Decode_Input.thy ===== *)
theory Xd3_Decode_Input
  imports Xd3_Decode_Emit
begin

text \<open>
  The decoder's state machine, \<open>xd3_decode_input\<close> (xdelta3-decode.h).  One definition per state, in
  reverse order because each falls through into the next.
\<close>

section \<open>The field macros\<close>

definition goto_state :: "xd3_decode_state \<Rightarrow> 'a xd3_decoder_scheme \<Rightarrow> xd3_ret \<times> 'a xd3_decoder_scheme" where
  "goto_state s st = (XD3_OK, st\<lparr>dec_state := s\<rparr>)"

definition BYTE_CASE ::
    "bool \<Rightarrow> (u32 \<Rightarrow> 'a xd3_decoder_scheme \<Rightarrow> 'a xd3_decoder_scheme) \<Rightarrow> xd3_decode_state \<Rightarrow>
     'a xd3_decoder_scheme \<Rightarrow> xd3_ret \<times> 'a xd3_decoder_scheme" where
  "BYTE_CASE e put nstate st = bind_ok (if e then xd3_decode_byte put st else (XD3_OK, st)) (goto_state nstate)"

definition OFFSET_CASE ::
    "bool \<Rightarrow> (u64 \<Rightarrow> 'a xd3_decoder_scheme \<Rightarrow> 'a xd3_decoder_scheme) \<Rightarrow> xd3_decode_state \<Rightarrow>
     'a xd3_decoder_scheme \<Rightarrow> xd3_ret \<times> 'a xd3_decoder_scheme" where
  "OFFSET_CASE e put nstate st = bind_ok (if e then xd3_decode_uint64_t put st else (XD3_OK, st)) (goto_state nstate)"

definition SIZE_CASE ::
    "bool \<Rightarrow> (u32 \<Rightarrow> 'a xd3_decoder_scheme \<Rightarrow> 'a xd3_decoder_scheme) \<Rightarrow> xd3_decode_state \<Rightarrow>
     'a xd3_decoder_scheme \<Rightarrow> xd3_ret \<times> 'a xd3_decoder_scheme" where
  "SIZE_CASE e put nstate st = bind_ok (if e then xd3_decode_uint32_t put st else (XD3_OK, st)) (goto_state nstate)"

section \<open>A window\<close>

definition dec_finish :: "'a xd3_decoder_scheme \<Rightarrow> xd3_ret \<times> 'a xd3_decoder_scheme" where
  "dec_finish st =
    (let st1 = (if flag_set (dec_win_ind st) VCD_TARGET then
                  (if dec_lastwin st = None
                   then st\<lparr>dec_lastwin := next_out st, dec_lastspace := space_out st\<rparr>
                   else st\<lparr>dec_lastwin := next_out st, next_out := dec_lastwin st,
                          dec_lastspace := space_out st, space_out := dec_lastspace st\<rparr>)
                else st) in
     (XD3_WINFINISH, st1\<lparr>dec_lastlen := dec_tgtlen st1, dec_laststart := dec_winstart st1,
        dec_window_count := dec_window_count st1 + 1, dec_state := DEC_WININD\<rparr>))"

text \<open>The precomputed block position of the copy window.\<close>

definition set_cpyoff :: "'a xd3_decoder_scheme \<Rightarrow> xd3_ret \<times> 'a xd3_decoder_scheme" where
  "set_cpyoff st =
    (if flag_set (dec_win_ind st) VCD_SOURCE then
       (case src st of
          None \<Rightarrow> fail_with XD3_INVALID_INPUT ''source input required'' st
        | Some s \<Rightarrow>
           (case xd3_blksize_div (dec_cpyoff st) (shiftby s) (maskby s) of
              (b, off) \<Rightarrow> (XD3_OK, st\<lparr>src := Some (s\<lparr>cpyoff_blocks := b, cpyoff_blkoff := off\<rparr>)\<rparr>)))
     else (XD3_OK, st))"

definition dec_emit :: "'a xd3_decoder_scheme \<Rightarrow> xd3_ret \<times> 'a xd3_decoder_scheme" where
  "dec_emit st =
    bind_ok (set_cpyoff st)
      (\<lambda>st1. case xd3_decode_emit st1 of
         (r, st2) \<Rightarrow> (r, if r = XD3_OUTPUT then st2\<lparr>total_out := total_out st2 + ucast (avail_out st2)\<rparr> else st2))"

definition dec_data :: "'a xd3_decoder_scheme \<Rightarrow> xd3_ret \<times> 'a xd3_decoder_scheme" where
  "dec_data st = bind_ok (xd3_decode_sections st) dec_emit"

fun be_bytes :: "u8 list \<Rightarrow> u32 \<Rightarrow> u32" where
  "be_bytes [] a = a"
| "be_bytes (b # bs) a = be_bytes bs (push_bit 8 a OR ucast b)"

definition enclen_check :: "'a xd3_decoder_scheme \<Rightarrow> u32" where
  "enclen_check st =
     1 + (xd3_sizeof_uint32_t (dec_tgtlen st) + xd3_sizeof_uint32_t (sect_size (data_sect st))
        + xd3_sizeof_uint32_t (sect_size (inst_sect st)) + xd3_sizeof_uint32_t (sect_size (addr_sect st)))
     + sect_size (data_sect st) + sect_size (inst_sect st) + sect_size (addr_sect st)
     + (if flag_set (dec_win_ind st) VCD_ADLER32 then 4 else 0)"

definition dec_checksum :: "'a xd3_decoder_scheme \<Rightarrow> xd3_ret \<times> 'a xd3_decoder_scheme" where
  "dec_checksum st =
    bind_ok
      (if flag_set (dec_win_ind st) VCD_ADLER32 then
         (case xd3_decode_bytes (dec_cksum st) (dec_cksumbytes st) 4 st of
            (r, buf, pos, st1) \<Rightarrow>
              let st2 = st1\<lparr>dec_cksum := buf, dec_cksumbytes := pos\<rparr> in
              (r, if r = XD3_OK then st2\<lparr>dec_adler32 := be_bytes (take 4 buf) (dec_adler32 st2)\<rparr> else st2))
       else (XD3_OK, st))
      (\<lambda>st1. let st2 = st1\<lparr>dec_state := DEC_DATA\<rparr> in
        if dec_enclen st2 \<noteq> enclen_check st2
          then fail_with XD3_INVALID_INPUT ''incorrect encoding length (redundent)'' st2
        else if current_window st2 = 0 then (XD3_GOTHEADER, st2) else (XD3_WINSTART, st2))"

definition dec_addrlen :: "'a xd3_decoder_scheme \<Rightarrow> xd3_ret \<times> 'a xd3_decoder_scheme" where
  "dec_addrlen st = bind_ok (SIZE_CASE True (\<lambda>v s. s\<lparr>addr_sect := (addr_sect s)\<lparr>sect_size := v\<rparr>\<rparr>) DEC_CKSUM st) dec_checksum"

definition dec_instlen :: "'a xd3_decoder_scheme \<Rightarrow> xd3_ret \<times> 'a xd3_decoder_scheme" where
  "dec_instlen st = bind_ok (SIZE_CASE True (\<lambda>v s. s\<lparr>inst_sect := (inst_sect s)\<lparr>sect_size := v\<rparr>\<rparr>) DEC_ADDRLEN st) dec_addrlen"

definition dec_datalen :: "'a xd3_decoder_scheme \<Rightarrow> xd3_ret \<times> 'a xd3_decoder_scheme" where
  "dec_datalen st = bind_ok (SIZE_CASE True (\<lambda>v s. s\<lparr>data_sect := (data_sect s)\<lparr>sect_size := v\<rparr>\<rparr>) DEC_INSTLEN st) dec_instlen"

definition dec_delind :: "'a xd3_decoder_scheme \<Rightarrow> xd3_ret \<times> 'a xd3_decoder_scheme" where
  "dec_delind st =
    bind_ok (BYTE_CASE True (\<lambda>v s. s\<lparr>dec_del_ind := v\<rparr>) DEC_DATALEN st)
      (\<lambda>st1. if flag_set (dec_del_ind st1) VCD_INVDEL
               then fail_with XD3_INVALID_INPUT ''unrecognized delta indicator bits set'' st1
             else if dec_del_ind st1 \<noteq> 0
               then fail_with XD3_INVALID_INPUT ''invalid delta indicator bits set'' st1
             else dec_datalen st1)"

definition dec_tgtlength :: "'a xd3_decoder_scheme \<Rightarrow> xd3_ret \<times> 'a xd3_decoder_scheme" where
  "dec_tgtlength st =
    bind_ok (SIZE_CASE True (\<lambda>v s. s\<lparr>dec_tgtlen := v\<rparr>) DEC_DELIND st)
      (\<lambda>st1. if USIZE_T_OVERFLOW (dec_cpylen st1) (dec_tgtlen st1)
               then fail_with XD3_INVALID_INPUT ''decoder target window overflows a usize_t'' st1
             else if dec_tgtlen st1 > XD3_HARDMAXWINSIZE
               then fail_with XD3_INVALID_INPUT ''hard window size exceeded'' st1
             else dec_delind (st1\<lparr>dec_maxpos := dec_cpylen st1 + dec_tgtlen st1\<rparr>))"

definition dec_enclength :: "'a xd3_decoder_scheme \<Rightarrow> xd3_ret \<times> 'a xd3_decoder_scheme" where
  "dec_enclength st = bind_ok (SIZE_CASE True (\<lambda>v s. s\<lparr>dec_enclen := v\<rparr>) DEC_TGTLEN st) dec_tgtlength"

definition dec_cpyoffset :: "'a xd3_decoder_scheme \<Rightarrow> xd3_ret \<times> 'a xd3_decoder_scheme" where
  "dec_cpyoffset st =
    bind_ok (OFFSET_CASE (SRCORTGT (dec_win_ind st) \<noteq> 0) (\<lambda>v s. s\<lparr>dec_cpyoff := v\<rparr>) DEC_ENCLEN st)
      (\<lambda>st1. if XOFF_T_OVERFLOW (dec_cpyoff st1) (ucast (dec_cpylen st1))
               then fail_with XD3_INVALID_INPUT ''decoder copy window overflows a file offset'' st1
             else if flag_set (dec_win_ind st1) VCD_TARGET \<and>
                  dec_cpyoff st1 + ucast (dec_cpylen st1) > dec_winstart st1
               then fail_with XD3_INVALID_INPUT ''VCD_TARGET window out of bounds'' st1
             else dec_enclength st1)"

definition dec_cpylength :: "'a xd3_decoder_scheme \<Rightarrow> xd3_ret \<times> 'a xd3_decoder_scheme" where
  "dec_cpylength st =
    bind_ok (SIZE_CASE (SRCORTGT (dec_win_ind st) \<noteq> 0) (\<lambda>v s. s\<lparr>dec_cpylen := v\<rparr>) DEC_CPYOFF st)
      (\<lambda>st1. dec_cpyoffset (st1\<lparr>dec_position := dec_cpylen st1\<rparr>))"

definition dec_winind :: "'a xd3_decoder_scheme \<Rightarrow> xd3_ret \<times> 'a xd3_decoder_scheme" where
  "dec_winind st =
    bind_ok (xd3_decode_byte (\<lambda>v s. s\<lparr>dec_win_ind := v\<rparr>) st)
      (\<lambda>st1. let st2 = st1\<lparr>current_window := dec_window_count st1\<rparr> in
        if XOFF_T_OVERFLOW (dec_winstart st2) (ucast (dec_tgtlen st2))
          then fail_with XD3_INVALID_INPUT ''decoder file offset overflow'' st2
        else
          let st3 = st2\<lparr>dec_winstart := dec_winstart st2 + ucast (dec_tgtlen st2)\<rparr> in
          if flag_set (dec_win_ind st3) VCD_INVWIN
            then fail_with XD3_INVALID_INPUT ''unrecognized window indicator bits set'' st3
          else bind_ok (xd3_decode_init_window st3)
                 (\<lambda>st4. dec_cpylength (st4\<lparr>dec_state := DEC_CPYLEN\<rparr>)))"

section \<open>The file header\<close>

definition dec_appdat :: "'a xd3_decoder_scheme \<Rightarrow> xd3_ret \<times> 'a xd3_decoder_scheme" where
  "dec_appdat st =
    bind_ok
      (if flag_set (dec_hdr_ind st) VCD_APPHEADER then
         bind_ok
           (if dec_appheader st = None then
              (case xd3_alloc (dec_appheadsz st + 1) 1 st of
                 (False, st1) \<Rightarrow> (ENOMEM, st1)
               | (True, st1) \<Rightarrow>
                  (XD3_OK, st1\<lparr>dec_appheader := Some (fresh_block (unat (dec_appheadsz st1 + 1)) st1)\<rparr>))
            else (XD3_OK, st))
           (\<lambda>st1. case arr_set (dec_appheader st1) (unat (dec_appheadsz st1)) 0 of
              None \<Rightarrow> (C_UB, st1)
            | Some buf \<Rightarrow>
               (case xd3_decode_bytes buf (dec_appheadbytes st1) (dec_appheadsz st1) st1 of
                  (r, buf', pos, st2) \<Rightarrow> (r, st2\<lparr>dec_appheader := Some buf', dec_appheadbytes := pos\<rparr>)))
       else (XD3_OK, st))
      (\<lambda>st1. dec_winind (st1\<lparr>dec_hdrsize := ucast (total_in st1), dec_state := DEC_WININD\<rparr>))"

definition dec_applen :: "'a xd3_decoder_scheme \<Rightarrow> xd3_ret \<times> 'a xd3_decoder_scheme" where
  "dec_applen st =
    bind_ok (SIZE_CASE (flag_set (dec_hdr_ind st) VCD_APPHEADER) (\<lambda>v s. s\<lparr>dec_appheadsz := v\<rparr>) DEC_APPDAT st) dec_appdat"

definition dec_tabdat :: "decode_memory_fun \<Rightarrow> 'a xd3_decoder_scheme \<Rightarrow> xd3_ret \<times> 'a xd3_decoder_scheme" where
  "dec_tabdat dm st =
    bind_ok
      (if flag_set (dec_hdr_ind st) VCD_CODETABLE then
         bind_ok
           (if dec_codetbl st = None then
              (case xd3_alloc (dec_codetblsz st) 1 st of
                 (False, st1) \<Rightarrow> (ENOMEM, st1)
               | (True, st1) \<Rightarrow>
                  (XD3_OK, st1\<lparr>dec_codetbl := Some (fresh_block (unat (dec_codetblsz st1)) st1)\<rparr>))
            else (XD3_OK, st))
           (\<lambda>st1. case dec_codetbl st1 of
              None \<Rightarrow> (C_UB, st1)
            | Some buf \<Rightarrow>
               bind_ok
                 (case xd3_decode_bytes buf (dec_codetblbytes st1) (dec_codetblsz st1) st1 of
                    (r, buf', pos, st2) \<Rightarrow> (r, st2\<lparr>dec_codetbl := Some buf', dec_codetblbytes := pos\<rparr>))
                 (\<lambda>st2. xd3_apply_table_encoding dm (case dec_codetbl st2 of None \<Rightarrow> [] | Some b \<Rightarrow> b)
                          (dec_codetblbytes st2) st2))
       else
         (XD3_OK, st\<lparr>acache := (acache st)\<lparr>s_near := ucast (near_modes rfc3284_code_table_desc),
                                           s_same := ucast (same_modes rfc3284_code_table_desc)\<rparr>,
                     code_table := Some xd3_rfc3284_code_table\<rparr>))
      (\<lambda>st1. bind_ok (xd3_alloc_cache st1) (\<lambda>st2. dec_applen (st2\<lparr>dec_state := DEC_APPLEN\<rparr>)))"

definition dec_same :: "decode_memory_fun \<Rightarrow> 'a xd3_decoder_scheme \<Rightarrow> xd3_ret \<times> 'a xd3_decoder_scheme" where
  "dec_same dm st =
    bind_ok (BYTE_CASE (flag_set (dec_hdr_ind st) VCD_CODETABLE)
      (\<lambda>v s. s\<lparr>acache := (acache s)\<lparr>s_same := v\<rparr>\<rparr>) DEC_TABDAT st) (dec_tabdat dm)"

definition dec_near :: "decode_memory_fun \<Rightarrow> 'a xd3_decoder_scheme \<Rightarrow> xd3_ret \<times> 'a xd3_decoder_scheme" where
  "dec_near dm st =
    bind_ok (BYTE_CASE (flag_set (dec_hdr_ind st) VCD_CODETABLE)
      (\<lambda>v s. s\<lparr>acache := (acache s)\<lparr>s_near := v\<rparr>\<rparr>) DEC_SAME st) (dec_same dm)"

definition dec_tablen :: "decode_memory_fun \<Rightarrow> 'a xd3_decoder_scheme \<Rightarrow> xd3_ret \<times> 'a xd3_decoder_scheme" where
  "dec_tablen dm st =
    bind_ok (SIZE_CASE (flag_set (dec_hdr_ind st) VCD_CODETABLE) (\<lambda>v s. s\<lparr>dec_codetblsz := v\<rparr>) DEC_NEAR st)
      (\<lambda>st1. if flag_set (dec_hdr_ind st1) VCD_CODETABLE then
               (if dec_codetblsz st1 \<le> 2 then fail_with ENOMEM ''invalid code table size'' st1
                else dec_near dm (st1\<lparr>dec_codetblsz := dec_codetblsz st1 - 2\<rparr>))
             else dec_near dm st1)"

text \<open>No secondary compressor is compiled in, so every identifier ends in an error.\<close>

definition VCD_DJW_ID :: u32 where "VCD_DJW_ID = 1"
definition VCD_LZMA_ID :: u32 where "VCD_LZMA_ID = 2"
definition VCD_FGK_ID :: u32 where "VCD_FGK_ID = 16"

definition dec_secondary :: "decode_memory_fun \<Rightarrow> 'a xd3_decoder_scheme \<Rightarrow> xd3_ret \<times> 'a xd3_decoder_scheme" where
  "dec_secondary dm st =
    (if flag_set (dec_hdr_ind st) VCD_SECONDARY then
       bind_ok (BYTE_CASE True (\<lambda>v s. s\<lparr>dec_secondid := v\<rparr>) DEC_TABLEN st)
         (\<lambda>st1. if dec_secondid st1 = VCD_FGK_ID
                  then fail_with XD3_INTERNAL ''unavailable secondary compressor: FGK Adaptive Huffman'' st1
                else if dec_secondid st1 = VCD_DJW_ID
                  then fail_with XD3_INTERNAL ''unavailable secondary compressor: DJW Static Huffman'' st1
                else if dec_secondid st1 = VCD_LZMA_ID
                  then fail_with XD3_INTERNAL ''unavailable secondary compressor: LZMA'' st1
                else fail_with XD3_INVALID_INPUT ''unknown secondary compressor ID'' st1)
     else dec_tablen dm st)"

definition dec_hdrind :: "decode_memory_fun \<Rightarrow> 'a xd3_decoder_scheme \<Rightarrow> xd3_ret \<times> 'a xd3_decoder_scheme" where
  "dec_hdrind dm st =
    bind_ok (xd3_decode_byte (\<lambda>v s. s\<lparr>dec_hdr_ind := v\<rparr>) st)
      (\<lambda>st1. if flag_set (dec_hdr_ind st1) VCD_INVHDR
               then fail_with XD3_INVALID_INPUT ''unrecognized header indicator bits set'' st1
             else dec_secondary dm (st1\<lparr>dec_state := DEC_SECONDID\<rparr>))"

definition dec_vchead :: "decode_memory_fun \<Rightarrow> 'a xd3_decoder_scheme \<Rightarrow> xd3_ret \<times> 'a xd3_decoder_scheme" where
  "dec_vchead dm st =
    bind_ok
      (case xd3_decode_bytes (dec_magic st) (dec_magicbytes st) 4 st of
         (r, buf, pos, st1) \<Rightarrow> (r, st1\<lparr>dec_magic := buf, dec_magicbytes := pos\<rparr>))
      (\<lambda>st1. if dec_magic st1 ! 0 \<noteq> VCDIFF_MAGIC1 \<or> dec_magic st1 ! 1 \<noteq> VCDIFF_MAGIC2 \<or> dec_magic st1 ! 2 \<noteq> VCDIFF_MAGIC3
               then fail_with XD3_INVALID_INPUT ''not a VCDIFF input'' st1
             else if dec_magic st1 ! 3 \<noteq> 0
               then fail_with XD3_INVALID_INPUT ''VCDIFF input version > 0 is not supported'' st1
             else dec_hdrind dm (st1\<lparr>dec_state := DEC_HDRIND\<rparr>))"

section \<open>Dispatch\<close>

definition xd3_decode_input :: "decode_memory_fun \<Rightarrow> 'a xd3_decoder_scheme \<Rightarrow> xd3_ret \<times> 'a xd3_decoder_scheme" where
  "xd3_decode_input dm st =
    (if enc_state st \<noteq> ENC_INIT then fail_with XD3_INVALID_INPUT ''encoder/decoder transition'' st
     else (case dec_state st of
         DEC_VCHEAD \<Rightarrow> dec_vchead dm st
       | DEC_HDRIND \<Rightarrow> dec_hdrind dm st
       | DEC_SECONDID \<Rightarrow> dec_secondary dm st
       | DEC_TABLEN \<Rightarrow> dec_tablen dm st
       | DEC_NEAR \<Rightarrow> dec_near dm st
       | DEC_SAME \<Rightarrow> dec_same dm st
       | DEC_TABDAT \<Rightarrow> dec_tabdat dm st
       | DEC_APPLEN \<Rightarrow> dec_applen st
       | DEC_APPDAT \<Rightarrow> dec_appdat st
       | DEC_WININD \<Rightarrow> dec_winind st
       | DEC_CPYLEN \<Rightarrow> dec_cpylength st
       | DEC_CPYOFF \<Rightarrow> dec_cpyoffset st
       | DEC_ENCLEN \<Rightarrow> dec_enclength st
       | DEC_TGTLEN \<Rightarrow> dec_tgtlength st
       | DEC_DELIND \<Rightarrow> dec_delind st
       | DEC_DATALEN \<Rightarrow> dec_datalen st
       | DEC_INSTLEN \<Rightarrow> dec_instlen st
       | DEC_ADDRLEN \<Rightarrow> dec_addrlen st
       | DEC_CKSUM \<Rightarrow> dec_checksum st
       | DEC_DATA \<Rightarrow> dec_data st
       | DEC_INST \<Rightarrow> dec_data st
       | DEC_ADDR \<Rightarrow> dec_data st
       | DEC_EMIT \<Rightarrow> dec_emit st
       | DEC_FINISH \<Rightarrow> dec_finish st
       | DEC_ABORTED \<Rightarrow> fail_with XD3_INVALID_INPUT ''invalid state'' st))"

end
