(* ===== verification/Xd3_Decode_Spec.thy ===== *)
theory Xd3_Decode_Spec
  imports Xd3_Decode_Input "HOL-Library.Sublist"
begin

text \<open>
  What a VCDIFF window means (RFC 3284), and that the decoder computes it.  The specification works on
  byte strings with unbounded arithmetic: a window has a source segment \<open>S\<close>, three sections and an
  address cache, and its instructions extend the target one by one.  The refinement relates the
  decoder's buffers, handles, block-wise source reads and 32-bit counters to that.
\<close>

section \<open>Specification\<close>

record vwin =
  v_inst :: "u8 list"
  v_addr :: "u8 list"
  v_data :: "u8 list"
  v_cache :: xd3_addr_cache
  v_tgt :: "u8 list"

text \<open>COPY reads the string \<open>U\<close> of source segment and target so far, byte by byte, so that it may run
  into bytes it has just produced.\<close>

fun copy_ext :: "u8 list \<Rightarrow> nat \<Rightarrow> nat \<Rightarrow> u8 list" where
  "copy_ext U a 0 = U"
| "copy_ext U a (Suc n) = copy_ext (U @ [U ! a]) (Suc a) n"

text \<open>The size of an instruction: from the table, or from the instruction section when the table has 0.\<close>

definition vsize :: "u8 \<Rightarrow> vwin \<Rightarrow> (nat \<times> vwin) option" where
  "vsize sz0 w =
    (if sz0 = 0 then
       (case xd3_read_uint32_t (v_inst w) of
          Inl _ \<Rightarrow> None
        | Inr (v, rest) \<Rightarrow> Some (unat v, w\<lparr>v_inst := rest\<rparr>))
     else Some (unat sz0, w))"

text \<open>One instruction of type \<open>t\<close>: \<open>None\<close> when the window is not valid.  \<open>lim\<close> is the announced target length.\<close>

definition vhalf :: "u8 list \<Rightarrow> nat \<Rightarrow> u8 \<Rightarrow> u8 \<Rightarrow> vwin \<Rightarrow> vwin option" where
  "vhalf S lim t sz0 w =
    (case vsize sz0 w of
       None \<Rightarrow> None
     | Some (n, w1) \<Rightarrow>
        (if t \<ge> XD3_CPY then
           (let here = length S + length (v_tgt w1) in
            case xd3_decode_address (v_cache w1) (of_nat here) (ucast (t - XD3_CPY)) (v_addr w1) of
              Inl _ \<Rightarrow> None
            | Inr (a, rest, ac) \<Rightarrow>
               (if unat a < here \<and> (unat a < length S \<longrightarrow> unat a + n \<le> length S) \<and> length (v_tgt w1) + n \<le> lim
                then Some (w1\<lparr>v_addr := rest, v_cache := ac,
                       v_tgt := drop (length S) (copy_ext (S @ v_tgt w1) (unat a) n)\<rparr>)
                else None))
         else if length (v_tgt w1) + n > lim then None
         else if t = XD3_RUN then
           (case v_data w1 of
              [] \<Rightarrow> None
            | b # rest \<Rightarrow> Some (w1\<lparr>v_data := rest, v_tgt := v_tgt w1 @ replicate n b\<rparr>))
         else
           (if n \<le> length (v_data w1)
            then Some (w1\<lparr>v_data := drop n (v_data w1), v_tgt := v_tgt w1 @ take n (v_data w1)\<rparr>)
            else None)))"

text \<open>An opcode is one or two instructions.\<close>

definition vinst :: "xd3_dinst list \<Rightarrow> u8 list \<Rightarrow> nat \<Rightarrow> vwin \<Rightarrow> vwin option" where
  "vinst tbl S lim w =
    (case v_inst w of
       [] \<Rightarrow> None
     | b # rest \<Rightarrow>
        (let d = tbl ! unat b; w1 = w\<lparr>v_inst := rest\<rparr> in
         case (if type1 d \<noteq> XD3_NOOP then vhalf S lim (type1 d) (size1 d) w1 else Some w1) of
           None \<Rightarrow> None
         | Some w2 \<Rightarrow> if type2 d \<noteq> XD3_NOOP then vhalf S lim (type2 d) (size2 d) w2 else Some w2))"

text \<open>All the instructions of the window.\<close>

function vrun :: "xd3_dinst list \<Rightarrow> u8 list \<Rightarrow> nat \<Rightarrow> vwin \<Rightarrow> vwin option" where
  "vrun tbl S lim w =
    (if v_inst w = [] then Some w
     else (case vinst tbl S lim w of
             None \<Rightarrow> None
           | Some w1 \<Rightarrow> if length (v_inst w1) < length (v_inst w) then vrun tbl S lim w1 else None))"
  by pat_completeness auto
termination by (relation "measure (\<lambda>(tbl, S, lim, w). length (v_inst w))") auto

declare vrun.simps [simp del]

section \<open>Copying\<close>

lemma copy_ext_length [simp]: "length (copy_ext U a n) = length U + n"
  by (induction U a n rule: copy_ext.induct) auto

lemma copy_ext_prefix: "a < length U \<Longrightarrow> take (length U) (copy_ext U a n) = U"
proof (induction U a n rule: copy_ext.induct)
  case (2 U a n)
  then have "take (length (U @ [U ! a])) (copy_ext (U @ [U ! a]) (Suc a) n) = U @ [U ! a]" by simp
  then have "take (length U) (take (length (U @ [U ! a])) (copy_ext (U @ [U ! a]) (Suc a) n)) = U" by simp
  then show ?case by (simp add: min_def)
qed simp

text \<open>A copy that stays inside the source segment is a piece of it.\<close>

lemma copy_ext_inside:
  assumes "a + n \<le> length S"
  shows "copy_ext (S @ T) a n = S @ T @ take n (drop a S)"
  using assms
proof (induction n arbitrary: a T)
  case (Suc n)
  then have "copy_ext (S @ T) a (Suc n) = copy_ext (S @ T @ [S ! a]) (Suc a) n"
    by (simp add: nth_append)
  also have "\<dots> = S @ (T @ [S ! a]) @ take n (drop (Suc a) S)" using Suc by (subst Suc.IH) simp_all
  also have "\<dots> = S @ T @ take (Suc n) (drop a S)"
    using Suc.prems by (simp add: Cons_nth_drop_Suc [symmetric])
  finally show ?case .
qed simp

text \<open>A copy inside the target does not look at the source segment.\<close>

lemma copy_ext_target:
  assumes "length S \<le> a"
  shows "copy_ext (S @ T) a n = S @ copy_ext T (a - length S) n"
  using assms
proof (induction n arbitrary: a T)
  case (Suc n)
  have "copy_ext (S @ T) a (Suc n) = copy_ext (S @ (T @ [T ! (a - length S)])) (Suc a) n"
    using Suc.prems by (simp add: nth_append)
  also have "\<dots> = S @ copy_ext (T @ [T ! (a - length S)]) (Suc a - length S) n" using Suc by (intro Suc.IH) simp
  finally show ?case using Suc.prems by (simp add: Suc_diff_le)
qed simp

text \<open>The decoder's copying loop.\<close>

lemma overlap_copy_spec:
  assumes "s < d" and "d + n \<le> length buf"
  shows "overlap_copy buf s d n = Some (copy_ext (take d buf) s n @ drop (d + n) buf)"
  using assms
proof (induction n arbitrary: buf s d)
  case 0
  then show ?case by simp
next
  case (Suc n)
  let ?b = "buf[d := buf ! s]"
  have "take (Suc d) ?b = take d buf @ [take d buf ! s]"
    using Suc.prems by (simp add: take_Suc_conv_app_nth)
  moreover have "drop (Suc d + n) ?b = drop (Suc (d + n)) buf" by simp
  ultimately show ?case using Suc.prems by (simp add: Suc.IH)
qed

section \<open>The source file behind the blocks\<close>

definition file_block :: "u8 list \<Rightarrow> nat \<Rightarrow> nat \<Rightarrow> u8 list" where
  "file_block file k b = take (2 ^ k) (drop (b * 2 ^ k) file)"

text \<open>The source object's current block is the named block of the file, in memory of at least its length.\<close>

definition block_loaded :: "u8 list \<Rightarrow> xd3_source \<Rightarrow> bool" where
  "block_loaded file s \<longleftrightarrow> (\<exists>mem. curblk s = Some mem \<and> unat (onblk s) \<le> length mem
     \<and> take (unat (onblk s)) mem = file_block file (shiftby s) (unat (curblkno s)))"

text \<open>A client callback that loads any block that exists and touches nothing but the three fields a
  client sets.\<close>

definition serves :: "(xd3_source \<Rightarrow> u64 \<Rightarrow> xd3_ret \<times> xd3_source) \<Rightarrow> u8 list \<Rightarrow> bool" where
  "serves f file \<longleftrightarrow> (\<forall>s b. unat b * 2 ^ shiftby s < length file \<longrightarrow>
     (\<exists>n mem. f s b = (XD3_OK, s\<lparr>curblkno := b, onblk := n, curblk := Some mem\<rparr>)
        \<and> block_loaded file (s\<lparr>curblkno := b, onblk := n, curblk := Some mem\<rparr>)))"

text \<open>A stream whose source is \<open>file\<close>: either the client loads blocks on demand, or the whole file is the
  current block 0 already.\<close>

definition src_serves :: "u8 list \<Rightarrow> 'a xd3_io_scheme \<Rightarrow> bool" where
  "src_serves file st \<longleftrightarrow> (\<exists>s. src st = Some s \<and> shiftby s \<le> 30 \<and> blksize s = push_bit (shiftby s) 1
     \<and> maskby s = push_bit (shiftby s) 1 - 1
     \<and> (curblk s \<noteq> None \<longrightarrow> block_loaded file s)
     \<and> (case getblk st of
          Some f \<Rightarrow> serves f file
        | None \<Rightarrow> curblk s \<noteq> None \<and> curblkno s = 0 \<and> length file \<le> 2 ^ shiftby s))"

lemma getblk_account_fields [simp]:
  "curblk (getblk_account b s) = curblk s" "curblkno (getblk_account b s) = curblkno s"
  "onblk (getblk_account b s) = onblk s" "blksize (getblk_account b s) = blksize s"
  "shiftby (getblk_account b s) = shiftby s" "maskby (getblk_account b s) = maskby s"
  "cpyoff_blocks (getblk_account b s) = cpyoff_blocks s" "cpyoff_blkoff (getblk_account b s) = cpyoff_blkoff s"
  by (simp_all add: getblk_account_def Let_def)

text \<open>Asking for a block of the file delivers it and leaves the stream able to serve the next one.\<close>

lemma getblk_serves:
  assumes "src_serves file st" and "src st = Some s" and "unat b * 2 ^ shiftby s < length file"
  obtains s' where "xd3_getblk b st = (XD3_OK, st\<lparr>src := Some s'\<rparr>)" "src_serves file (st\<lparr>src := Some s'\<rparr>)"
    "block_loaded file s'" "curblkno s' = b" "shiftby s' = shiftby s" "blksize s' = blksize s" "maskby s' = maskby s"
    "cpyoff_blocks s' = cpyoff_blocks s" "cpyoff_blkoff s' = cpyoff_blkoff s"
proof -
  from assms(1,2) have s: "shiftby s \<le> 30" "blksize s = push_bit (shiftby s) 1" "maskby s = push_bit (shiftby s) 1 - 1"
      "curblk s \<noteq> None \<longrightarrow> block_loaded file s"
      "case getblk st of Some f \<Rightarrow> serves f file | None \<Rightarrow> curblk s \<noteq> None \<and> curblkno s = 0 \<and> length file \<le> 2 ^ shiftby s"
    by (auto simp: src_serves_def)
  show thesis
  proof (cases "curblk s = None \<or> b \<noteq> curblkno s")
    case False
    then have "block_loaded file (getblk_account b s)" using s(4) by (simp add: block_loaded_def)
    with False s assms(2) show thesis
      by (intro that [of "getblk_account b s"]) (auto simp: xd3_getblk_def src_serves_def split: option.splits)
  next
    case True
    show thesis
    proof (cases "getblk st")
      case None
      then have n: "curblk s \<noteq> None" "curblkno s = 0" "length file \<le> 2 ^ shiftby s" using s(5) by simp_all
      have "unat b * 2 ^ shiftby s < 1 * 2 ^ shiftby s" using less_le_trans [OF assms(3) n(3)] by simp
      then have "unat b = 0" by (metis less_one mult_less_cancel2)
      then have "b = 0" by (simp add: unat_eq_0)
      with True n show thesis by simp
    next
      case (Some f)
      then have "serves f file" using s(5) by simp
      then obtain n mem where f: "f (s\<lparr>getblkno := b\<rparr>) b = (XD3_OK, s\<lparr>getblkno := b, curblkno := b, onblk := n, curblk := Some mem\<rparr>)"
        and l: "block_loaded file (s\<lparr>getblkno := b, curblkno := b, onblk := n, curblk := Some mem\<rparr>)"
        using assms(3) [THEN \<open>serves f file\<close> [unfolded serves_def, rule_format, of b "s\<lparr>getblkno := b\<rparr>", simplified]] by auto
      let ?s = "getblk_account b (s\<lparr>getblkno := b, curblkno := b, onblk := n, curblk := Some mem\<rparr>)"
      have "block_loaded file ?s" using l by (simp add: block_loaded_def)
      with f s True Some assms(2) show thesis
        by (intro that [of ?s]) (auto simp: xd3_getblk_def src_serves_def)
    qed
  qed
qed

section \<open>Appending to the target\<close>

lemma write_at_length [simp]: "p + length bs \<le> length buf \<Longrightarrow> length (write_at buf p bs) = length buf"
  by (simp add: write_at_def)

lemma write_at_take: "p + length bs \<le> length buf \<Longrightarrow> take (p + length bs) (write_at buf p bs) = take p buf @ bs"
  by (simp add: write_at_def)

lemma write_at_write_at:
  "p + length bs + length cs \<le> length buf \<Longrightarrow>
   write_at (write_at buf p bs) (p + length bs) cs = write_at buf p (bs @ cs)"
  by (simp add: write_at_def add.assoc add.commute add.left_commute)

lemma write_at_Nil [simp]: "write_at buf p [] = buf"
  by (simp add: write_at_def)

text \<open>A stream with room for \<open>n\<close> more bytes in the live buffer \<open>h\<close>.\<close>

definition out_room :: "'a xd3_decoder_scheme \<Rightarrow> nat \<Rightarrow> u8 list \<Rightarrow> nat \<Rightarrow> bool" where
  "out_room st h buf n \<longleftrightarrow> next_out st = Some h \<and> out_heap st h = Some buf
     \<and> unat (avail_out st) + n \<le> length buf \<and> length buf < 2 ^ 32"

text \<open>The stream after \<open>bs\<close> has been appended.\<close>

definition appended :: "'a xd3_decoder_scheme \<Rightarrow> nat \<Rightarrow> u8 list \<Rightarrow> u8 list \<Rightarrow> 'a xd3_decoder_scheme" where
  "appended st h buf bs = st\<lparr>out_heap := (out_heap st)(h \<mapsto> write_at buf (unat (avail_out st)) bs),
     avail_out := avail_out st + of_nat (length bs)\<rparr>"

lemma out_append_room:
  assumes "out_room st h buf (length bs)"
  shows "out_append bs st = (XD3_OK, appended st h buf bs)"
  using assms by (simp add: out_append_def out_room_def appended_def)

lemma unat_avail_appended:
  assumes "out_room st h buf (length bs)"
  shows "unat (avail_out st + of_nat (length bs)) = unat (avail_out st) + length bs"
proof -
  have "unat (of_nat (length bs) :: u32) = length bs" using assms by (intro unat_of_nat_small) (simp add: out_room_def)
  then show ?thesis using assms by (subst unat_add_u32) (simp_all add: out_room_def)
qed

lemma appended_appended:
  assumes "out_room st h buf (length bs + length cs)"
  shows "appended (appended st h buf bs) h (write_at buf (unat (avail_out st)) bs) cs = appended st h buf (bs @ cs)"
proof -
  have "out_room st h buf (length bs)" using assms by (simp add: out_room_def)
  from unat_avail_appended [OF this] show ?thesis
    using assms by (simp add: appended_def write_at_write_at out_room_def)
qed

lemma appended_room:
  assumes "out_room st h buf (length bs + n)"
  shows "out_room (appended st h buf bs) h (write_at buf (unat (avail_out st)) bs) n"
proof -
  have "out_room st h buf (length bs)" using assms by (simp add: out_room_def)
  from unat_avail_appended [OF this] show ?thesis
    using assms by (simp add: appended_def out_room_def)
qed

section \<open>Copies from the source\<close>

text \<open>The copy window starts at offset \<open>off\<close> of the file.\<close>

definition cpy_at :: "u64 \<Rightarrow> xd3_source \<Rightarrow> bool" where
  "cpy_at off s \<longleftrightarrow> xd3_blksize_div off (shiftby s) (maskby s) = (cpyoff_blocks s, cpyoff_blkoff s)"

text \<open>A step of a source copy: the instruction is done, or it has moved on to the next block.\<close>

lemma source_copy_step:
  assumes serves: "src_serves file st" and s: "src st = Some s" and at: "cpy_at off s"
    and room: "out_room st h buf (unat (h_size inst))"
    and inside: "unat off + unat (h_addr inst) + unat (h_size inst) \<le> length file"
      "unat off + unat (h_addr inst) < length file"
    and nowrap: "2 ^ shiftby s + unat (h_addr inst) + unat (h_size inst) < 2 ^ 32" "length file < 2 ^ 63"
  obtains n s' where "n \<le> unat (h_size inst)" "n = unat (h_size inst) \<or> 0 < n"
    "source_copy inst st = (XD3_OK,
       (if n = unat (h_size inst) then inst\<lparr>h_type := XD3_NOOP, h_size := 0\<rparr>
        else inst\<lparr>h_size := h_size inst - of_nat n, h_addr := h_addr inst + of_nat n\<rparr>),
       (appended st h buf (take n (drop (unat off + unat (h_addr inst)) file)))\<lparr>src := Some s'\<rparr>)"
    "src_serves file (st\<lparr>src := Some s'\<rparr>)" "cpy_at off s'" "shiftby s' = shiftby s"
proof -
  let ?k = "shiftby s" and ?B = "2 ^ shiftby s :: nat" and ?a = "unat (h_addr inst)" and ?n = "unat (h_size inst)"
  have k: "?k \<le> 30" "blksize s = push_bit ?k 1" "maskby s = push_bit ?k 1 - 1"
    using serves s by (auto simp: src_serves_def)
  have B: "?B \<le> 2 ^ 30" using k(1) by (intro power_increasing) simp_all
  have ub: "unat (blksize s) = ?B" using k by (simp add: unat_pow2 del: push_bit_of_1)
  obtain blk bo where add: "xd3_blksize_add (cpyoff_blocks s) (cpyoff_blkoff s) ?k (maskby s) (h_addr inst) = (blk, bo)"
    by fastforce
  have div: "xd3_blksize_div off ?k (push_bit ?k 1 - 1) = (cpyoff_blocks s, cpyoff_blkoff s)"
    using at k(3) by (simp add: cpy_at_def)
  have "unat (cpyoff_blkoff s) < ?B"
    using blksize_div_exact(2) [of ?k off] k(1) div by (simp del: push_bit_of_1)
  then have "unat (cpyoff_blkoff s) + ?a < 2 ^ 32" "unat off + ?a < 2 ^ 64" using nowrap inside(2) by simp_all
  from blksize_add_lands [OF _ div this add [unfolded k(3)]] k(1)
  have pos: "unat bo < ?B" "unat blk * ?B + unat bo = unat off + ?a" by simp_all
  then have "unat blk * ?B < length file" using inside(2) by linarith
  from getblk_serves [OF serves s this] obtain s' where
    g: "xd3_getblk blk st = (XD3_OK, st\<lparr>src := Some s'\<rparr>)" "src_serves file (st\<lparr>src := Some s'\<rparr>)"
      "block_loaded file s'" "curblkno s' = blk" "shiftby s' = ?k" "blksize s' = blksize s" "maskby s' = maskby s"
      "cpyoff_blocks s' = cpyoff_blocks s" "cpyoff_blkoff s' = cpyoff_blkoff s" .
  obtain mem where mem: "curblk s' = Some mem" "unat (onblk s') \<le> length mem"
    "take (unat (onblk s')) mem = take ?B (drop (unat blk * ?B) file)"
    using g(3,4,5) by (auto simp: block_loaded_def file_block_def)
  have on: "unat (onblk s') = min ?B (length file - unat blk * ?B)"
    using arg_cong [OF mem(3), of length] mem(2) by simp
  have sum: "unat (bo + h_size inst) = unat bo + ?n" using pos(1) nowrap by (intro unat_add_u32) simp
  have long: "\<not> (onblk s' \<noteq> blksize s \<and> bo + h_size inst > onblk s')"
  proof
    assume "onblk s' \<noteq> blksize s \<and> bo + h_size inst > onblk s'"
    then have "unat (onblk s') \<noteq> ?B" "unat (onblk s') < unat bo + ?n"
      using ub sum by (auto simp: word_less_nat_alt word_unat_eq_iff)
    with on have "length file - unat blk * ?B < unat bo + ?n" by linarith
    with pos inside show False by linarith
  qed
  have fits: "bo + h_size inst \<le> blksize s \<longleftrightarrow> unat bo + ?n \<le> ?B" using sum ub by (simp add: word_le_nat_alt)
  have sub: "unat (blksize s - bo) = ?B - unat bo" using pos(1) ub by (subst unat_sub_le) (simp_all add: word_le_nat_alt)
  have piece: "take m (drop (unat bo) mem) = take m (drop (unat off + ?a) file)"
    if "unat bo + m \<le> unat (onblk s')" for m
  proof -
    have "take m (drop (unat bo) mem) = take m (drop (unat bo) (take (unat (onblk s')) mem))"
      using that by (simp add: drop_take min_def)
    also have "\<dots> = take m (drop (unat bo) (drop (unat blk * ?B) file))"
      using that on unfolding mem(3) by (simp add: drop_take min_def split: if_splits)
    finally show ?thesis using pos(2) by (simp add: add.commute)
  qed
  define n where "n = (if unat bo + ?n \<le> ?B then ?n else ?B - unat bo)"
  have n: "n \<le> ?n" "n = ?n \<or> 0 < n" using pos(1) by (auto simp: n_def)
  have le: "unat bo + n \<le> unat (onblk s')" using on n_def pos inside by (auto simp: min_def split: if_splits)
  have app: "out_append (take n (drop (unat off + ?a) file)) (st\<lparr>src := Some s'\<rparr>)
      = (XD3_OK, (appended st h buf (take n (drop (unat off + ?a) file)))\<lparr>src := Some s'\<rparr>)"
  proof -
    have "out_room (st\<lparr>src := Some s'\<rparr>) h buf (length (take n (drop (unat off + ?a) file)))"
      using room n(1) by (simp add: out_room_def min_def)
    from out_append_room [OF this] show ?thesis by (simp add: appended_def)
  qed
  have nw: "of_nat n = (if unat bo + ?n \<le> ?B then h_size inst else blksize s - bo)"
    by (simp add: n_def flip: sub)
  have "source_copy inst st = (XD3_OK,
       (if n = ?n then inst\<lparr>h_type := XD3_NOOP, h_size := 0\<rparr>
        else inst\<lparr>h_size := h_size inst - of_nat n, h_addr := h_addr inst + of_nat n\<rparr>),
       (appended st h buf (take n (drop (unat off + ?a) file)))\<lparr>src := Some s'\<rparr>)"
  proof (cases "unat bo + ?n \<le> ?B")
    case True
    then have "n = ?n" by (simp add: n_def)
    then show ?thesis
      using True s add g(1) long fits mem(1,2) le piece [of n] app
      by (simp add: source_copy_def Let_def)
  next
    case False
    then have "n = ?B - unat bo" "n \<noteq> ?n" "of_nat n = blksize s - bo" using nw pos(1) by (simp_all add: n_def)
    then show ?thesis
      using False s add g(1) long fits mem(1,2) le piece [of n] app sub
      by (simp add: source_copy_def Let_def)
  qed
  moreover have "cpy_at off s'" using at g by (simp add: cpy_at_def)
  ultimately show thesis using that n g(2,5) by blast
qed

lemma copy_not_add_run: "t \<ge> XD3_CPY \<Longrightarrow> t \<noteq> XD3_RUN \<and> t \<noteq> XD3_ADD \<and> t \<noteq> XD3_NOOP"
  by (auto simp: inst_consts word_le_nat_alt)

text \<open>The whole copy, over as many blocks as it takes.\<close>

lemma source_loop:
  assumes "src_serves file st" and "src st = Some s" and "cpy_at off s"
    and "out_room st h buf (unat (h_size inst))" and "h_type inst \<ge> XD3_CPY" and "\<not> flag_set (dec_win_ind st) VCD_TARGET"
    and "h_addr inst < dec_cpylen st" and "unat (h_addr inst) + unat (h_size inst) \<le> unat (dec_cpylen st)"
    and "unat off + unat (dec_cpylen st) \<le> length file"
    and "2 ^ shiftby s + unat (dec_cpylen st) < 2 ^ 32" and "length file < 2 ^ 63"
  shows "\<exists>inst' s'. output_loop inst st = (XD3_OK, inst',
      (appended st h buf (take (unat (h_size inst)) (drop (unat off + unat (h_addr inst)) file)))\<lparr>src := Some s'\<rparr>)
    \<and> h_type inst' = XD3_NOOP \<and> src_serves file (st\<lparr>src := Some s'\<rparr>) \<and> cpy_at off s' \<and> shiftby s' = shiftby s"
  using assms
proof (induction "unat (h_size inst)" arbitrary: inst st s buf rule: less_induct)
  case less
  let ?n = "unat (h_size inst)" and ?a = "unat (h_addr inst)"
  have a: "?a < unat (dec_cpylen st)" using less.prems(7) by (simp add: word_less_nat_alt)
  have p: "unat off + ?a + ?n \<le> length file" "unat off + ?a < length file" "2 ^ shiftby s + ?a + ?n < 2 ^ 32"
    using less.prems(8-10) a by simp_all
  from source_copy_step [OF less.prems(1-4) p less.prems(11)] obtain m s' where
    m: "m \<le> ?n" "m = ?n \<or> 0 < m"
    and sc: "source_copy inst st = (XD3_OK,
       (if m = ?n then inst\<lparr>h_type := XD3_NOOP, h_size := 0\<rparr>
        else inst\<lparr>h_size := h_size inst - of_nat m, h_addr := h_addr inst + of_nat m\<rparr>),
       (appended st h buf (take m (drop (unat off + ?a) file)))\<lparr>src := Some s'\<rparr>)"
    and s': "src_serves file (st\<lparr>src := Some s'\<rparr>)" "cpy_at off s'" "shiftby s' = shiftby s" .
  have half: "xd3_decode_output_halfinst inst st = source_copy inst st"
    using less.prems(5-7) copy_not_add_run by (simp add: xd3_decode_output_halfinst_def)
  have t: "h_type inst \<noteq> XD3_NOOP" using less.prems(5) copy_not_add_run by blast
  show ?case
  proof (cases "m = ?n")
    case True
    then have "output_loop inst st = (XD3_OK, inst\<lparr>h_type := XD3_NOOP, h_size := 0\<rparr>,
        (appended st h buf (take ?n (drop (unat off + ?a) file)))\<lparr>src := Some s'\<rparr>)"
      using sc half t by (subst output_loop.simps) simp
    with s' show ?thesis by auto
  next
    case False
    define bs where "bs = take m (drop (unat off + ?a) file)"
    define inst1 where "inst1 = inst\<lparr>h_size := h_size inst - of_nat m, h_addr := h_addr inst + of_nat m\<rparr>"
    define st1 where "st1 = (appended st h buf bs)\<lparr>src := Some s'\<rparr>"
    define buf1 where "buf1 = write_at buf (unat (avail_out st)) bs"
    have mlt: "m < ?n" "0 < m" using m False by simp_all
    have um: "unat (of_nat m :: u32) = m" using mlt unat_u32_less [of "h_size inst"] by (intro unat_of_nat_small) simp
    have sz: "unat (h_size inst1) = ?n - m" using mlt um by (simp add: inst1_def unat_sub_le word_le_nat_alt)
    have ad: "unat (h_addr inst1) = ?a + m"
      using mlt um less.prems(8) unat_u32_less [of "dec_cpylen st"] by (simp add: inst1_def unat_add_u32)
    have lbs: "length bs = m" using mlt p(1) by (simp add: bs_def)
    have room1: "out_room st1 h buf1 (unat (h_size inst1))"
    proof -
      have "out_room st h buf (length bs + (?n - m))" using less.prems(4) mlt lbs by simp
      from appended_room [OF this] show ?thesis by (simp add: st1_def buf1_def sz out_room_def)
    qed
    have step: "output_loop inst st = output_loop inst1 st1"
      using sc half t False mlt sz less.prems(5) by (subst output_loop.simps) (simp add: inst1_def st1_def bs_def)
    have f: "src st1 = Some s'" "dec_win_ind st1 = dec_win_ind st" "dec_cpylen st1 = dec_cpylen st" "h_type inst1 = h_type inst"
      "getblk st1 = getblk st"
      by (simp_all add: st1_def appended_def inst1_def)
    have ss: "src_serves file st1" using s'(1) f by (simp add: src_serves_def)
    have le: "h_addr inst1 < dec_cpylen st1" "unat (h_addr inst1) + unat (h_size inst1) \<le> unat (dec_cpylen st1)"
      using ad sz mlt less.prems(8) f by (simp_all add: word_less_nat_alt)
    have "\<exists>inst' s''. output_loop inst1 st1 = (XD3_OK, inst',
        (appended st1 h buf1 (take (unat (h_size inst1)) (drop (unat off + unat (h_addr inst1)) file)))\<lparr>src := Some s''\<rparr>)
      \<and> h_type inst' = XD3_NOOP \<and> src_serves file (st1\<lparr>src := Some s''\<rparr>) \<and> cpy_at off s'' \<and> shiftby s'' = shiftby s'"
      using mlt sz ss f s' room1 le less.prems(5,6,9-11) by (intro less.hyps) simp_all
    then obtain inst' s'' where r: "output_loop inst1 st1 = (XD3_OK, inst',
        (appended st1 h buf1 (take (unat (h_size inst1)) (drop (unat off + unat (h_addr inst1)) file)))\<lparr>src := Some s''\<rparr>)"
      "h_type inst' = XD3_NOOP" "src_serves file (st1\<lparr>src := Some s''\<rparr>)" "cpy_at off s''" "shiftby s'' = shiftby s'" by blast
    define cs where "cs = take (unat (h_size inst1)) (drop (unat off + unat (h_addr inst1)) file)"
    have cat: "bs @ cs = take ?n (drop (unat off + ?a) file)"
    proof -
      have "take ?n (drop (unat off + ?a) file) = take (m + (?n - m)) (drop (unat off + ?a) file)" using mlt by simp
      also have "\<dots> = bs @ take (?n - m) (drop m (drop (unat off + ?a) file))" by (simp only: take_add bs_def)
      finally show ?thesis by (simp add: cs_def sz ad add.commute add.left_commute)
    qed
    have "length bs + length cs = ?n" using arg_cong [OF cat, of length] p(1) by simp
    then have "out_room st h buf (length bs + length cs)" using less.prems(4) by simp
    from appended_appended [OF this]
    have "(appended st1 h buf1 cs)\<lparr>src := Some s''\<rparr> = (appended st h buf (bs @ cs))\<lparr>src := Some s''\<rparr>"
      by (simp add: st1_def buf1_def appended_def)
    moreover have "src_serves file (st\<lparr>src := Some s''\<rparr>)" using r(3) f by (simp add: src_serves_def)
    ultimately show ?thesis using step r s'(3) cat by (auto simp: cs_def)
  qed
qed

section \<open>A window in progress\<close>

text \<open>The specification's view of a decoder, and the state of the decoder between two instructions: a live
  buffer that holds the announced length, consistent limits, a valid table and cache, and a source
  that delivers the copy window \<open>S\<close>.\<close>

definition absw :: "'a xd3_decoder_scheme \<Rightarrow> vwin" where
  "absw st = \<lparr>v_inst = sect_buf (inst_sect st), v_addr = sect_buf (addr_sect st),
     v_data = sect_buf (data_sect st), v_cache = acache st, v_tgt = out_window st\<rparr>"

definition source_is :: "u8 list \<Rightarrow> 'a xd3_decoder_scheme \<Rightarrow> bool" where
  "source_is S st \<longleftrightarrow> S = [] \<or> (\<exists>file off s. src_serves file st \<and> src st = Some s \<and> cpy_at off s
     \<and> 2 ^ shiftby s + length S < 2 ^ 32 \<and> length file < 2 ^ 63 \<and> unat off + length S \<le> length file
     \<and> S = take (length S) (drop (unat off) file))"

definition win_inv :: "xd3_dinst list \<Rightarrow> u8 list \<Rightarrow> nat \<Rightarrow> 'a xd3_decoder_scheme \<Rightarrow> bool" where
  "win_inv tbl S lim st \<longleftrightarrow>
     (\<exists>h buf. next_out st = Some h \<and> out_heap st h = Some buf \<and> lim \<le> length buf \<and> length buf < 2 ^ 32
        \<and> unat (space_out st) \<le> length buf \<and> dec_tgtaddrbase st = (Some h, dec_cpylen st))
     \<and> unat (avail_out st) \<le> lim \<and> unat (dec_cpylen st) = length S \<and> unat (dec_maxpos st) = length S + lim
     \<and> \<not> flag_set (dec_win_ind st) VCD_TARGET
     \<and> code_table st = Some tbl \<and> length tbl = 256 \<and> list_all (valid_dinst (TOTAL_MODES (acache st))) tbl
     \<and> cache_wf (acache st) \<and> source_is S st"

lemma win_inv_tgt_length: "win_inv tbl S lim st \<Longrightarrow> length (v_tgt (absw st)) = unat (avail_out st)"
  by (auto simp: win_inv_def absw_def out_window_def)

section \<open>Instructions in two phases\<close>

text \<open>The decoder reads both halves of an opcode before it executes the first, so the specification is
  split the same way: reading depends on the target only through its length.\<close>

definition vparse :: "u8 list \<Rightarrow> nat \<Rightarrow> u8 \<Rightarrow> u8 \<Rightarrow> nat \<Rightarrow> vwin \<Rightarrow> (nat \<times> nat \<times> vwin) option" where
  "vparse S lim t sz0 tlen w =
    (case vsize sz0 w of
       None \<Rightarrow> None
     | Some (n, w1) \<Rightarrow>
        (if t \<ge> XD3_CPY then
           (case xd3_decode_address (v_cache w1) (of_nat (length S + tlen)) (ucast (t - XD3_CPY)) (v_addr w1) of
              Inl _ \<Rightarrow> None
            | Inr (a, rest, ac) \<Rightarrow>
               (if unat a < length S + tlen \<and> (unat a < length S \<longrightarrow> unat a + n \<le> length S) \<and> tlen + n \<le> lim
                then Some (n, unat a, w1\<lparr>v_addr := rest, v_cache := ac\<rparr>) else None))
         else if tlen + n > lim then None
         else Some (n, 0, w1)))"

definition vexec :: "u8 list \<Rightarrow> u8 \<Rightarrow> nat \<Rightarrow> nat \<Rightarrow> vwin \<Rightarrow> vwin option" where
  "vexec S t n a w =
    (if t \<ge> XD3_CPY then Some (w\<lparr>v_tgt := drop (length S) (copy_ext (S @ v_tgt w) a n)\<rparr>)
     else if t = XD3_RUN then
       (case v_data w of [] \<Rightarrow> None | b # rest \<Rightarrow> Some (w\<lparr>v_data := rest, v_tgt := v_tgt w @ replicate n b\<rparr>))
     else if n \<le> length (v_data w)
       then Some (w\<lparr>v_data := drop n (v_data w), v_tgt := v_tgt w @ take n (v_data w)\<rparr>)
     else None)"

lemma vsize_tgt: "vsize sz0 w = Some (n, w1) \<Longrightarrow> v_tgt w1 = v_tgt w"
  by (auto simp: vsize_def split: if_splits sum.splits prod.splits)

lemma vhalf_phases:
  "vhalf S lim t sz0 w =
    (case vparse S lim t sz0 (length (v_tgt w)) w of None \<Rightarrow> None | Some (n, a, w1) \<Rightarrow> vexec S t n a w1)"
proof (cases "vsize sz0 w")
  case None
  then show ?thesis by (simp add: vhalf_def vparse_def)
next
  case (Some p)
  obtain n w1 where p: "p = (n, w1)" by fastforce
  note t = vsize_tgt [OF Some [unfolded p]]
  show ?thesis
    by (cases "t \<ge> XD3_CPY")
      (auto simp: vhalf_def vparse_def vexec_def Some p t Let_def copy_not_add_run split: sum.splits prod.splits list.splits)
qed

text \<open>The parameters a well-read instruction has.\<close>

definition inst_ok :: "u8 list \<Rightarrow> nat \<Rightarrow> nat \<Rightarrow> u8 \<Rightarrow> nat \<Rightarrow> nat \<Rightarrow> bool" where
  "inst_ok S lim tlen t n a \<longleftrightarrow> tlen + n \<le> lim \<and>
     (t \<ge> XD3_CPY \<longrightarrow> a < length S + tlen \<and> (a < length S \<longrightarrow> a + n \<le> length S))"

lemma vparse_ok: "vparse S lim t sz0 tlen w = Some (n, a, w1) \<Longrightarrow> inst_ok S lim tlen t n a"
  by (auto simp: vparse_def inst_ok_def split: if_splits option.splits sum.splits)

section \<open>Executing refines the specification\<close>

definition exec_upd :: "u8 list \<Rightarrow> (nat \<rightharpoonup> u8 list) \<Rightarrow> u32 \<Rightarrow> xd3_source option \<Rightarrow> 'a xd3_decoder_scheme \<Rightarrow> 'a xd3_decoder_scheme" where
  "exec_upd d hp av sr st = st\<lparr>data_sect := (data_sect st)\<lparr>sect_buf := d\<rparr>, out_heap := hp, avail_out := av, src := sr\<rparr>"

text \<open>Appending \<open>bs\<close> within the limit keeps the invariant and extends the target.\<close>

lemma win_inv_append:
  fixes d :: "u8 list"
  assumes inv: "win_inv tbl S lim st" and room: "unat (avail_out st) + length bs \<le> lim"
    and h: "next_out st = Some h" "out_heap st h = Some buf"
    and src: "source_is S (st\<lparr>src := sr\<rparr>)"
  defines "st' \<equiv> exec_upd d ((out_heap st)(h \<mapsto> write_at buf (unat (avail_out st)) bs)) (avail_out st + of_nat (length bs)) sr st"
  shows "win_inv tbl S lim st'" "v_tgt (absw st') = v_tgt (absw st) @ bs" "unat (avail_out st') = unat (avail_out st) + length bs"
proof -
  have buf: "lim \<le> length buf" "length buf < 2 ^ 32" "unat (space_out st) \<le> length buf" "dec_tgtaddrbase st = (Some h, dec_cpylen st)"
    using inv h by (auto simp: win_inv_def)
  then have "out_room st h buf (length bs)" using room h by (simp add: out_room_def)
  from unat_avail_appended [OF this] show av: "unat (avail_out st') = unat (avail_out st) + length bs"
    by (simp add: st'_def exec_upd_def)
  have "source_is S st'" using src by (simp add: st'_def exec_upd_def source_is_def src_serves_def)
  then show "win_inv tbl S lim st'"
    using inv h buf room av by (simp add: win_inv_def st'_def exec_upd_def)
  show "v_tgt (absw st') = v_tgt (absw st) @ bs"
    using h buf room av write_at_take [of "unat (avail_out st)" bs buf]
    by (simp add: absw_def out_window_def st'_def exec_upd_def)
qed

lemma exec_add_run:
  assumes inv: "win_inv tbl S lim st" and t: "t = XD3_ADD \<or> t = XD3_RUN" "h_type inst = t" "unat (h_size inst) = n"
    and ok: "inst_ok S lim (unat (avail_out st)) t n a"
  shows "case vexec S t n a (absw st) of
      None \<Rightarrow> fst (output_loop inst st) = XD3_INVALID_INPUT
    | Some w1 \<Rightarrow> \<exists>inst' d hp av sr. output_loop inst st = (XD3_OK, inst', exec_upd d hp av sr st)
        \<and> h_type inst' = XD3_NOOP \<and> absw (exec_upd d hp av sr st) = w1 \<and> win_inv tbl S lim (exec_upd d hp av sr st)
        \<and> unat av = unat (avail_out st) + n"
proof -
  obtain h buf where h: "next_out st = Some h" "out_heap st h = Some buf" "lim \<le> length buf" "length buf < 2 ^ 32"
    using inv by (auto simp: win_inv_def)
  have n: "unat (avail_out st) + n \<le> lim" using ok by (simp add: inst_ok_def)
  have src: "source_is S (st\<lparr>src := src st\<rparr>)" using inv by (simp add: win_inv_def)
  have types: "\<not> XD3_ADD \<ge> XD3_CPY" "\<not> XD3_RUN \<ge> XD3_CPY" "XD3_ADD \<noteq> XD3_RUN" "XD3_ADD \<noteq> XD3_NOOP" "XD3_RUN \<noteq> XD3_NOOP"
    by (simp_all add: inst_consts word_le_nat_alt)
  have finish: "case vexec S t n a (absw st) of
      None \<Rightarrow> fst (output_loop inst st) = XD3_INVALID_INPUT
    | Some w1 \<Rightarrow> \<exists>inst' d hp av sr. output_loop inst st = (XD3_OK, inst', exec_upd d hp av sr st)
        \<and> h_type inst' = XD3_NOOP \<and> absw (exec_upd d hp av sr st) = w1 \<and> win_inv tbl S lim (exec_upd d hp av sr st)
        \<and> unat av = unat (avail_out st) + n"
    if len: "length bs = n" and v: "vexec S t n a (absw st) = Some ((absw st)\<lparr>v_data := d, v_tgt := v_tgt (absw st) @ bs\<rparr>)"
      and half: "xd3_decode_output_halfinst inst st =
        (XD3_OK, inst\<lparr>h_type := XD3_NOOP\<rparr>, (appended st h buf bs)\<lparr>data_sect := (data_sect st)\<lparr>sect_buf := d\<rparr>\<rparr>)" for bs d
  proof -
    let ?hp = "(out_heap st)(h \<mapsto> write_at buf (unat (avail_out st)) bs)" and ?av = "avail_out st + of_nat (length bs)"
    note wi = win_inv_append [OF inv _ h(1,2) src, of bs d]
    have e: "(appended st h buf bs)\<lparr>data_sect := (data_sect st)\<lparr>sect_buf := d\<rparr>\<rparr> = exec_upd d ?hp ?av (src st) st"
      by (simp add: appended_def exec_upd_def)
    have "output_loop inst st = (XD3_OK, inst\<lparr>h_type := XD3_NOOP\<rparr>, exec_upd d ?hp ?av (src st) st)"
      using half t types e by (subst output_loop.simps) auto
    moreover have "absw (exec_upd d ?hp ?av (src st) st) = (absw st)\<lparr>v_data := d, v_tgt := v_tgt (absw st) @ bs\<rparr>"
      using wi(2) n len by (simp add: absw_def exec_upd_def)
    moreover have "unat ?av = unat (avail_out st) + n" using wi(3) n len by (simp add: exec_upd_def)
    ultimately show ?thesis using v wi(1) n len by (auto simp: exI [of _ ?hp])
  qed
  have room: "out_append bs st = (XD3_OK, appended st h buf bs)" if "length bs = n" for bs
    using that n h by (intro out_append_room) (simp add: out_room_def)
  have ds: "data_sect (appended st h buf bs) = data_sect st" for bs by (simp add: appended_def)
  show ?thesis
  proof (cases "t = XD3_RUN")
    case run: True
    show ?thesis
    proof (cases "sect_buf (data_sect st)")
      case Nil
      then show ?thesis
        using run t types by (subst output_loop.simps) (simp add: vexec_def absw_def xd3_decode_output_halfinst_def)
    next
      case (Cons b rest)
      show ?thesis
        by (rule finish [of "replicate n b" rest])
          (use Cons run t types room [of "replicate n b"] ds in
            \<open>simp_all add: vexec_def absw_def xd3_decode_output_halfinst_def\<close>)
    qed
  next
    case False
    then have add: "t = XD3_ADD" using t by simp
    show ?thesis
    proof (cases "n \<le> length (sect_buf (data_sect st))")
      case False
      then show ?thesis
        using add t types
        by (subst output_loop.simps) (simp add: vexec_def absw_def xd3_decode_output_halfinst_def)
    next
      case True
      show ?thesis
        by (rule finish [of "take n (sect_buf (data_sect st))" "drop n (sect_buf (data_sect st))"])
          (use True add t types room [of "take n (sect_buf (data_sect st))"] ds in
            \<open>simp_all add: vexec_def absw_def xd3_decode_output_halfinst_def Let_def\<close>)
    qed
  qed
qed

lemma exec_copy:
  assumes inv: "win_inv tbl S lim st" and t: "t \<ge> XD3_CPY" "h_type inst = t" "unat (h_size inst) = n" "unat (h_addr inst) = a"
    and ok: "inst_ok S lim (unat (avail_out st)) t n a"
  shows "\<exists>inst' d hp av sr. output_loop inst st = (XD3_OK, inst', exec_upd d hp av sr st)
        \<and> h_type inst' = XD3_NOOP \<and> vexec S t n a (absw st) = Some (absw (exec_upd d hp av sr st))
        \<and> win_inv tbl S lim (exec_upd d hp av sr st) \<and> unat av = unat (avail_out st) + n"
proof -
  obtain h buf where h: "next_out st = Some h" "out_heap st h = Some buf" "lim \<le> length buf" "length buf < 2 ^ 32"
      "dec_tgtaddrbase st = (Some h, dec_cpylen st)"
    using inv by (auto simp: win_inv_def)
  let ?p = "unat (avail_out st)" and ?d = "sect_buf (data_sect st)"
  have n: "?p + n \<le> lim" and a: "a < length S + ?p" "a < length S \<longrightarrow> a + n \<le> length S" using ok t by (simp_all add: inst_ok_def)
  have cl: "unat (dec_cpylen st) = length S" and nt: "\<not> flag_set (dec_win_ind st) VCD_TARGET" using inv by (simp_all add: win_inv_def)
  have T: "v_tgt (absw st) = take ?p buf" using h by (simp add: absw_def out_window_def)
  have finish: "\<exists>inst' d hp av sr. output_loop inst st = (XD3_OK, inst', exec_upd d hp av sr st)
        \<and> h_type inst' = XD3_NOOP \<and> vexec S t n a (absw st) = Some (absw (exec_upd d hp av sr st))
        \<and> win_inv tbl S lim (exec_upd d hp av sr st) \<and> unat av = ?p + n"
    if len: "length bs = n" and v: "copy_ext (S @ take ?p buf) a n = S @ take ?p buf @ bs"
      and loop: "output_loop inst st = (XD3_OK, inst', (appended st h buf bs)\<lparr>src := sr\<rparr>)" "h_type inst' = XD3_NOOP"
      and sr: "source_is S (st\<lparr>src := sr\<rparr>)" for bs inst' sr
  proof -
    let ?hp = "(out_heap st)(h \<mapsto> write_at buf ?p bs)" and ?av = "avail_out st + of_nat (length bs)"
    note wi = win_inv_append [OF inv _ h(1,2) sr, of bs ?d]
    have e: "(appended st h buf bs)\<lparr>src := sr\<rparr> = exec_upd ?d ?hp ?av sr st"
      by (simp add: appended_def exec_upd_def)
    have "vexec S t n a (absw st) = Some (absw (exec_upd ?d ?hp ?av sr st))"
      using wi(2) n len v T t(1) by (simp add: vexec_def absw_def exec_upd_def)
    moreover have "unat ?av = ?p + n" using wi(3) n len by (simp add: exec_upd_def)
    ultimately show ?thesis using loop wi(1) n len unfolding e by blast
  qed
  have tn: "t \<noteq> XD3_NOOP" "t \<noteq> XD3_RUN" "t \<noteq> XD3_ADD" using t(1) copy_not_add_run by auto
  show ?thesis
  proof (cases "a < length S")
    case True
    then have "S \<noteq> []" by auto
    then obtain fl off s where f: "src_serves fl st" "src st = Some s" "cpy_at off s" "2 ^ shiftby s + length S < 2 ^ 32"
        "length fl < 2 ^ 63" "unat off + length S \<le> length fl" "S = take (length S) (drop (unat off) fl)"
      using inv by (auto simp: win_inv_def source_is_def)
    have room: "out_room st h buf (unat (h_size inst))" using h n t(3) by (simp add: out_room_def)
    have "\<exists>inst' s'. output_loop inst st = (XD3_OK, inst',
        (appended st h buf (take (unat (h_size inst)) (drop (unat off + unat (h_addr inst)) fl)))\<lparr>src := Some s'\<rparr>)
      \<and> h_type inst' = XD3_NOOP \<and> src_serves fl (st\<lparr>src := Some s'\<rparr>) \<and> cpy_at off s' \<and> shiftby s' = shiftby s"
      using True a cl t nt f by (intro source_loop [OF f(1-3) room]) (simp_all add: word_less_nat_alt)
    then obtain inst' s' where l: "output_loop inst st = (XD3_OK, inst',
        (appended st h buf (take n (drop (unat off + a) fl)))\<lparr>src := Some s'\<rparr>)" "h_type inst' = XD3_NOOP"
      "src_serves fl (st\<lparr>src := Some s'\<rparr>)" "cpy_at off s'" "shiftby s' = shiftby s"
      using t(3,4) by blast
    have piece: "take n (drop (unat off + a) fl) = take n (drop a S)"
    proof -
      have "take n (drop a S) = take n (drop a (take (length S) (drop (unat off) fl)))" by (simp only: f(7) [symmetric])
      then show ?thesis using a(2) True by (simp add: drop_take min_def add.commute)
    qed
    have sr: "source_is S (st\<lparr>src := Some s'\<rparr>)"
      unfolding source_is_def
      by (intro disjI2 exI [of _ fl] exI [of _ off] exI [of _ s']) (use l f in simp)
    show ?thesis
      by (rule finish [of "take n (drop a S)" inst' "Some s'"])
        (use True a copy_ext_inside l piece sr in simp_all)
  next
    case False
    then have na: "\<not> h_addr inst < dec_cpylen st" using t(4) cl by (simp add: word_less_nat_alt)
    let ?c = "copy_ext (take ?p buf) (a - length S) n"
    define bs where "bs = drop ?p ?c"
    have lt: "a - length S < ?p" using a(1) False by simp
    have pl: "?p + n \<le> length buf" using n h(3) by simp
    then have c: "?c = take ?p buf @ bs"
      using copy_ext_prefix [of "a - length S" "take ?p buf" n] lt
      by (metis append_take_drop_id bs_def length_take min_absorb2 add_leD1)
    have lb: "length bs = n" using pl by (simp add: bs_def)
    have ov: "overlap_copy buf (a - length S) ?p n = Some (write_at buf ?p bs)"
      using overlap_copy_spec [OF lt pl] c lb by (simp add: write_at_def)
    have nw: "h_size inst = of_nat n" by (simp flip: t(3))
    have "xd3_decode_output_halfinst inst st = (XD3_OK, inst\<lparr>h_type := XD3_NOOP, h_size := 0\<rparr>, (appended st h buf bs)\<lparr>src := src st\<rparr>)"
      using tn t na h ov cl lb nw by (simp add: xd3_decode_output_halfinst_def out_copy_def appended_def)
    then have "output_loop inst st = (XD3_OK, inst\<lparr>h_type := XD3_NOOP, h_size := 0\<rparr>, (appended st h buf bs)\<lparr>src := src st\<rparr>)"
      using tn t by (subst output_loop.simps) simp
    moreover have "copy_ext (S @ take ?p buf) a n = S @ take ?p buf @ bs"
      using copy_ext_target [of S a "take ?p buf" n] False c by simp
    moreover have "source_is S (st\<lparr>src := src st\<rparr>)" using inv by (simp add: win_inv_def)
    ultimately show ?thesis
      by (intro finish [of bs "inst\<lparr>h_type := XD3_NOOP, h_size := 0\<rparr>" "src st"]) (simp_all add: lb)
  qed
qed

lemma exec_refines:
  assumes inv: "win_inv tbl S lim st" and t: "t \<noteq> XD3_NOOP" "h_type inst = t" "unat (h_size inst) = n"
      "t \<ge> XD3_CPY \<longrightarrow> unat (h_addr inst) = a"
    and ok: "inst_ok S lim (unat (avail_out st)) t n a"
  shows "case vexec S t n a (absw st) of
      None \<Rightarrow> fst (output_loop inst st) = XD3_INVALID_INPUT
    | Some w1 \<Rightarrow> \<exists>inst' d hp av sr. output_loop inst st = (XD3_OK, inst', exec_upd d hp av sr st)
        \<and> h_type inst' = XD3_NOOP \<and> absw (exec_upd d hp av sr st) = w1 \<and> win_inv tbl S lim (exec_upd d hp av sr st)
        \<and> unat av = unat (avail_out st) + n"
proof (cases "t \<ge> XD3_CPY")
  case True
  with t(4) have "unat (h_addr inst) = a" by simp
  from exec_copy [OF inv True t(2,3) this ok] obtain inst' d hp av sr where
    "output_loop inst st = (XD3_OK, inst', exec_upd d hp av sr st)" "h_type inst' = XD3_NOOP"
    "vexec S t n a (absw st) = Some (absw (exec_upd d hp av sr st))" "win_inv tbl S lim (exec_upd d hp av sr st)"
    "unat av = unat (avail_out st) + n" by blast
  then show ?thesis by (simp only: option.case) blast
next
  case False
  have "t = XD3_ADD \<or> t = XD3_RUN"
  proof -
    have "unat t < 3" "unat t \<noteq> 0" using False t(1) by (auto simp: inst_consts word_le_nat_alt unat_eq_0)
    then have "unat t = 1 \<or> unat t = 2" by linarith
    then show ?thesis by (auto simp: inst_consts word_unat_eq_iff)
  qed
  then show ?thesis by (intro exec_add_run [OF inv _ t(2,3) ok])
qed

section \<open>Reading refines the specification\<close>

text \<open>The bound checks of the code are 32-bit sums.  They are exact for every size that does not carry the
  sum past \<open>2^32\<close>; the sizes in question are the integers that can be read anywhere in the instruction
  section.\<close>

definition sizes_fit :: "nat \<Rightarrow> u8 list \<Rightarrow> bool" where
  "sizes_fit maxpos bs \<longleftrightarrow> maxpos + 255 < 2 ^ 32 \<and>
     (\<forall>s v rest. suffix s bs \<longrightarrow> xd3_read_uint32_t s = Inr (v, rest) \<longrightarrow> maxpos + unat v < 2 ^ 32)"

text \<open>They are exact as well for the sizes of a window that is valid.\<close>

definition reads_fit :: "u8 list \<Rightarrow> nat \<Rightarrow> u8 list \<Rightarrow> bool \<Rightarrow> bool" where
  "reads_fit S lim bs valid \<longleftrightarrow> sizes_fit (length S + lim) bs \<or> length S + lim < 2 ^ 32 \<and> valid"

lemma sizes_fit_suffix: "sizes_fit m bs \<Longrightarrow> suffix cs bs \<Longrightarrow> sizes_fit m cs"
  unfolding sizes_fit_def using suffix_order.trans by blast

lemma read_suffix: "xd3_read_uint32_t s = Inr (v, rest) \<Longrightarrow> suffix rest s"
  unfolding xd3_read_uint32_t_def by (auto dest!: varint32.read_sound simp: suffix_def)

text \<open>A mode the cache has is never out of bounds.\<close>

lemma decode_address_no_ub:
  assumes "cache_wf ac" and "unat mode < unat (TOTAL_MODES ac)"
  shows "case xd3_decode_address ac here mode inp of
      Inl (r, m) \<Rightarrow> r = XD3_INVALID_INPUT
    | Inr (v, rest, ac') \<Rightarrow> cache_wf ac' \<and> TOTAL_MODES ac' = TOTAL_MODES ac"
proof -
  have b: "unat (s_near ac) \<le> 255" "unat (s_same ac) \<le> 255" using assms(1) by (simp_all add: cache_wf_def)
  have tm: "unat (TOTAL_MODES ac) = 2 + unat (s_same ac) + unat (s_near ac)" "unat (2 + s_near ac) = 2 + unat (s_near ac)"
    unfolding TOTAL_MODES_def using b by (simp_all add: unat_add_u32)
  define P :: "(xd3_ret \<times> string) + (u32 \<times> u8 list \<times> xd3_addr_cache) \<Rightarrow> bool" where
    "P = (\<lambda>x. case x of Inl (r, m) \<Rightarrow> r = XD3_INVALID_INPUT
       | Inr (v, rest, ac') \<Rightarrow> cache_wf ac' \<and> TOTAL_MODES ac' = TOTAL_MODES ac)"
  have inv: "P (Inl (XD3_INVALID_INPUT, m))" for m by (simp add: P_def)
  have fin: "P (case xd3_update_cache ac v of None \<Rightarrow> Inl (C_UB, '''') | Some ac' \<Rightarrow> Inr (v, rest, ac'))"
    for v and rest :: "u8 list"
  proof -
    obtain ac' where "xd3_update_cache ac v = Some ac'" "cache_wf ac'" "s_near ac' = s_near ac" "s_same ac' = s_same ac"
      by (rule update_cache_wf [OF assms(1)])
    then show ?thesis by (simp add: TOTAL_MODES_def P_def)
  qed
  have "P (xd3_decode_address ac here mode inp)"
  proof (cases "mode < 2 + s_near ac")
    case True
    have near: "arr_get (near_array ac) (unat (mode - 2)) = Some (near_list ac ! unat (mode - 2))"
      if "mode \<noteq> VCD_SELF" "mode \<noteq> VCD_HERE"
    proof -
      have "unat mode \<noteq> 0" "unat mode \<noteq> 1" using that by (auto simp: VCD_SELF_def VCD_HERE_def word_unat_eq_iff)
      then have "unat (mode - 2) = unat mode - 2" by (simp add: unat_sub_le word_le_nat_alt)
      then have "unat (mode - 2) < unat (s_near ac)"
        using True tm \<open>unat mode \<noteq> 0\<close> \<open>unat mode \<noteq> 1\<close> by (simp add: word_less_nat_alt)
      from near_list_get [OF assms(1) this] show ?thesis .
    qed
    show ?thesis
      using True near by (auto simp: xd3_decode_address_def Let_def fin inv split: sum.split)
  next
    case False
    have "arr_get (same_array ac) (unat ((mode - (2 + s_near ac)) * 256 + ucast b)) \<noteq> None" for b :: u8
    proof -
      have m: "unat (mode - (2 + s_near ac)) = unat mode - (2 + unat (s_near ac))"
        using False tm by (subst unat_sub_le) (simp_all add: word_le_nat_alt word_less_nat_alt)
      have lt: "unat mode - (2 + unat (s_near ac)) < unat (s_same ac)" using assms(2) tm False by (simp add: word_less_nat_alt)
      have "unat ((mode - (2 + s_near ac)) * 256) = (unat mode - (2 + unat (s_near ac))) * 256"
        using unat_mult_lem [of "mode - (2 + s_near ac)" 256] m lt b by simp
      then have "unat ((mode - (2 + s_near ac)) * 256 + ucast b) = (unat mode - (2 + unat (s_near ac))) * 256 + unat b"
        using lt b unat_u8_less [of b] by (subst unat_add_u32) simp_all
      also have "\<dots> < unat (s_same ac) * 256" using lt unat_u8_less [of b] by linarith
      finally show ?thesis using assms(1) lt by (auto simp: cache_wf_def arr_get_def)
    qed
    then show ?thesis
      using False by (auto simp: xd3_decode_address_def Let_def fin inv split: list.split option.split)
        (metis option.distinct(1))
  qed
  then show ?thesis by (simp add: P_def)
qed

definition parse_upd :: "u8 list \<Rightarrow> u8 list \<Rightarrow> xd3_addr_cache \<Rightarrow> u32 \<Rightarrow> 'a xd3_decoder_scheme \<Rightarrow> 'a xd3_decoder_scheme" where
  "parse_upd i a ac p st = st\<lparr>inst_sect := (inst_sect st)\<lparr>sect_buf := i\<rparr>, addr_sect := (addr_sect st)\<lparr>sect_buf := a\<rparr>,
     acache := ac, dec_position := p\<rparr>"

text \<open>The size of a half instruction, read by decoder and specification.\<close>

lemma parse_size:
  assumes "h_size inst = ucast sz0"
  obtains (bad) msg where "vsize sz0 (absw st) = None" "sz0 = 0" "xd3_read_uint32_t (sect_buf (inst_sect st)) = Inl msg"
  | (ok) n i where "vsize sz0 (absw st) = Some (n, (absw st)\<lparr>v_inst := i\<rparr>)" "suffix i (sect_buf (inst_sect st))"
      "sizes_fit m (sect_buf (inst_sect st)) \<longrightarrow> m + n < 2 ^ 32" "n < 2 ^ 32" "(if h_size inst = 0 then
             (case xd3_read_uint32_t (sect_buf (inst_sect st)) of
                Inl m \<Rightarrow> (XD3_INVALID_INPUT, inst, set_msg m st)
              | Inr (v, rest) \<Rightarrow>
                 (XD3_OK, inst\<lparr>h_size := v\<rparr>, st\<lparr>inst_sect := (inst_sect st)\<lparr>sect_buf := rest\<rparr>\<rparr>))
           else (XD3_OK, inst, st)) = (XD3_OK, inst\<lparr>h_size := of_nat n\<rparr>, st\<lparr>inst_sect := (inst_sect st)\<lparr>sect_buf := i\<rparr>\<rparr>)"
proof (cases "sz0 = 0")
  case True
  then have z: "h_size inst = 0" using assms by simp
  show thesis
  proof (cases "xd3_read_uint32_t (sect_buf (inst_sect st))")
    case (Inl e)
    with True show thesis by (intro bad [of e]) (simp_all add: vsize_def absw_def)
  next
    case (Inr p)
    obtain v rest where p: "p = (v, rest)" by fastforce
    have "sizes_fit m (sect_buf (inst_sect st)) \<longrightarrow> m + unat v < 2 ^ 32" using Inr p unfolding sizes_fit_def by blast
    with True Inr p z read_suffix [of "sect_buf (inst_sect st)" v rest] unat_u32_less [of v] show thesis
      by (intro ok [of "unat v" rest]) (simp_all add: vsize_def absw_def)
  qed
next
  case False
  have "h_size inst = of_nat (unat sz0)" using assms by (simp add: word_unat_eq_iff)
  moreover have "h_size inst \<noteq> 0" using False assms by (simp add: word_unat_eq_iff)
  moreover have "sizes_fit m (sect_buf (inst_sect st)) \<longrightarrow> m + unat sz0 < 2 ^ 32" using unat_u8_less [of sz0] unfolding sizes_fit_def by linarith
  moreover have "unat sz0 < 2 ^ 32" using unat_u8_less [of sz0] by simp
  ultimately show thesis using False
    by (intro ok [of "unat sz0" "sect_buf (inst_sect st)"]) (simp_all add: vsize_def absw_def)
qed

lemma parse_refines:
  assumes inv: "win_inv tbl S lim st" and t: "h_type inst = t" "h_size inst = ucast sz0"
    and mode: "unat t < 3 + unat (TOTAL_MODES (acache st))"
    and pos: "unat (dec_position st) = length S + tlen" "tlen \<le> lim"
    and fit: "reads_fit S lim (sect_buf (inst_sect st)) (vparse S lim t sz0 tlen (absw st) \<noteq> None)"
  shows "case vparse S lim t sz0 tlen (absw st) of
      None \<Rightarrow> fst (xd3_decode_parse_halfinst inst st) = XD3_INVALID_INPUT
    | Some (n, a, w1) \<Rightarrow> \<exists>inst' i ad ac p. xd3_decode_parse_halfinst inst st = (XD3_OK, inst', parse_upd i ad ac p st)
        \<and> h_type inst' = t \<and> unat (h_size inst') = n \<and> (t \<ge> XD3_CPY \<longrightarrow> unat (h_addr inst') = a)
        \<and> absw (parse_upd i ad ac p st) = w1 \<and> win_inv tbl S lim (parse_upd i ad ac p st)
        \<and> unat p = length S + tlen + n \<and> suffix i (sect_buf (inst_sect st)) \<and> TOTAL_MODES ac = TOTAL_MODES (acache st)"
  using t(2)
proof (cases rule: parse_size [where st = st and m = "length S + lim"])
  case (bad m)
  then have "h_size inst = 0" using t(2) by simp
  with bad show ?thesis by (simp add: vparse_def xd3_decode_parse_halfinst_def)
next
  case (ok n i)
  define st1 where "st1 = st\<lparr>inst_sect := (inst_sect st)\<lparr>sect_buf := i\<rparr>\<rparr>"
  define inst1 where "inst1 = inst\<lparr>h_size := of_nat n\<rparr>"
  have un: "unat (of_nat n :: u32) = n" using ok(4) by (intro unat_of_nat_small) simp
  have cl: "unat (dec_cpylen st) = length S" "unat (dec_maxpos st) = length S + lim" "cache_wf (acache st)"
    using inv by (simp_all add: win_inv_def)
  have here: "dec_position st = of_nat (length S + tlen)" by (simp flip: pos(1))
  have "n \<le> lim \<and> length S + lim < 2 ^ 32" if "vparse S lim t sz0 tlen (absw st) \<noteq> None" "length S + lim < 2 ^ 32"
    using that vparse_ok [of S lim t sz0 tlen "absw st"] ok(1) by (auto simp: vparse_def split: if_splits sum.splits)
  then have few: "length S + tlen + n < 2 ^ 32" "unat a < length S \<Longrightarrow> unat a + n < 2 ^ 32" for a :: u32
    using fit ok(3) pos(2) vparse_ok [of S lim t sz0 tlen "absw st"] ok(1) unfolding reads_fit_def
    by (auto simp: vparse_def split: if_splits sum.splits)
  have sum: "unat (dec_position st + of_nat n) = length S + tlen + n" using pos few(1) un by (subst unat_add_u32) simp_all
  have over: "dec_position st + of_nat n > dec_maxpos st \<longleftrightarrow> tlen + n > lim"
    using sum cl by (simp add: word_less_nat_alt)
  have winv: "win_inv tbl S lim (parse_upd i ad ac p st)" if "cache_wf ac" "TOTAL_MODES ac = TOTAL_MODES (acache st)" for ad ac p
    using inv that by (simp add: win_inv_def parse_upd_def source_is_def src_serves_def)
  have abs: "absw (parse_upd i ad ac p st) = (absw st)\<lparr>v_inst := i, v_addr := ad, v_cache := ac\<rparr>" for ad ac p
    by (simp add: absw_def parse_upd_def out_window_def split: option.split)
  show ?thesis
  proof (cases "t \<ge> XD3_CPY")
    case False
    have e: "xd3_decode_parse_halfinst inst st =
        (if tlen + n > lim then (XD3_INVALID_INPUT, inst1, set_msg ''size too large'' st1)
         else (XD3_OK, inst1, parse_upd i (sect_buf (addr_sect st)) (acache st) (dec_position st + of_nat n) st))"
      unfolding xd3_decode_parse_halfinst_def ok(5)
      using False t(1) over by (simp add: inst1_def st1_def parse_upd_def)
    show ?thesis
    proof (cases "tlen + n > lim")
      case True
      then show ?thesis using False ok(1) e by (simp add: vparse_def)
    next
      case le: False
      have "vparse S lim t sz0 tlen (absw st) = Some (n, 0, (absw st)\<lparr>v_inst := i\<rparr>)"
        using False le ok(1) by (simp add: vparse_def)
      moreover have "absw (parse_upd i (sect_buf (addr_sect st)) (acache st) (dec_position st + of_nat n) st) = (absw st)\<lparr>v_inst := i\<rparr>"
        unfolding abs by (simp add: absw_def)
      moreover have "xd3_decode_parse_halfinst inst st =
          (XD3_OK, inst1, parse_upd i (sect_buf (addr_sect st)) (acache st) (dec_position st + of_nat n) st)"
        using e le by simp
      ultimately show ?thesis
        using False t(1) un sum ok(2) winv [OF cl(3) refl]
        by (simp only: option.case prod.case)
          (intro exI [of _ inst1] exI [of _ i] exI [of _ "sect_buf (addr_sect st)"] exI [of _ "acache st"]
            exI [of _ "dec_position st + of_nat n"], simp add: inst1_def)
    qed
  next
    case True
    have "unat (ucast (t - XD3_CPY) :: u32) < unat (TOTAL_MODES (acache st))"
      using True mode by (simp add: unat_sub_le inst_consts word_le_nat_alt)
    note noub = decode_address_no_ub [OF cl(3) this, of "dec_position st" "sect_buf (addr_sect st)"]
    show ?thesis
    proof (cases "xd3_decode_address (acache st) (dec_position st) (ucast (t - XD3_CPY)) (sect_buf (addr_sect st))")
      case (Inl x)
      then have "fst (xd3_decode_parse_halfinst inst st) = XD3_INVALID_INPUT"
        unfolding xd3_decode_parse_halfinst_def ok(5) using True t(1) noub by (auto split: prod.splits)
      moreover have "vparse S lim t sz0 tlen (absw st) = None"
        using True ok(1) Inl here by (simp add: vparse_def absw_def)
      ultimately show ?thesis by simp
    next
      case (Inr y)
      obtain a rest ac where y: "y = (a, rest, ac)" by (metis prod_cases3)
      have ac: "cache_wf ac" "TOTAL_MODES ac = TOTAL_MODES (acache st)" using noub Inr y by simp_all
      have c1: "a \<ge> dec_position st \<longleftrightarrow> \<not> unat a < length S + tlen" using pos(1) by (simp add: word_le_nat_alt not_less)
      have c2: "a < dec_cpylen st \<and> a + of_nat n > dec_cpylen st \<longleftrightarrow> unat a < length S \<and> unat a + n > length S"
      proof (cases "unat a < length S")
        case True
        then have "unat (a + of_nat n) = unat a + n" using few(2) un by (subst unat_add_u32) simp_all
        with True show ?thesis using cl(1) by (simp add: word_less_nat_alt)
      qed (use cl(1) in \<open>simp add: word_less_nat_alt\<close>)
      let ?ok = "unat a < length S + tlen \<and> (unat a < length S \<longrightarrow> unat a + n \<le> length S) \<and> tlen + n \<le> lim"
      have v: "vparse S lim t sz0 tlen (absw st) =
          (if ?ok then Some (n, unat a, (absw st)\<lparr>v_inst := i, v_addr := rest, v_cache := ac\<rparr>) else None)"
        using True ok(1) Inr here y by (simp add: vparse_def absw_def)
      show ?thesis
      proof (cases ?ok)
        case ok2: True
        have "xd3_decode_parse_halfinst inst st =
            (XD3_OK, inst1\<lparr>h_addr := a\<rparr>, parse_upd i rest ac (dec_position st + of_nat n) st)"
          unfolding xd3_decode_parse_halfinst_def ok(5)
          using True t(1) Inr y ok2 c1 c2 over by (auto simp: inst1_def parse_upd_def Let_def)
        moreover from v ok2 have "vparse S lim t sz0 tlen (absw st) =
            Some (n, unat a, (absw st)\<lparr>v_inst := i, v_addr := rest, v_cache := ac\<rparr>)" by simp
        ultimately show ?thesis
          using un sum ok(2) winv [OF ac] abs ac t(1)
          by (simp only: option.case prod.case)
            (intro exI [of _ "inst1\<lparr>h_addr := a\<rparr>"] exI [of _ i] exI [of _ rest] exI [of _ ac]
              exI [of _ "dec_position st + of_nat n"], simp add: inst1_def)
      next
        case bad: False
        then have "fst (xd3_decode_parse_halfinst inst st) = XD3_INVALID_INPUT"
          unfolding xd3_decode_parse_halfinst_def ok(5)
          using True t(1) Inr y c1 c2 over by (auto simp: Let_def)
        with v bad show ?thesis by auto
      qed
    qed
  qed
qed

section \<open>An opcode refines the specification\<close>

definition vparse0 :: "u8 list \<Rightarrow> nat \<Rightarrow> u8 \<Rightarrow> u8 \<Rightarrow> nat \<Rightarrow> vwin \<Rightarrow> (nat \<times> nat \<times> vwin) option" where
  "vparse0 S lim t sz0 tlen w = (if t = XD3_NOOP then Some (0, 0, w) else vparse S lim t sz0 tlen w)"

definition vexec0 :: "u8 list \<Rightarrow> u8 \<Rightarrow> nat \<Rightarrow> nat \<Rightarrow> vwin \<Rightarrow> vwin option" where
  "vexec0 S t n a w = (if t = XD3_NOOP then Some w else vexec S t n a w)"

text \<open>Both halves read, then both executed.\<close>

definition vinst2 :: "u8 list \<Rightarrow> nat \<Rightarrow> xd3_dinst \<Rightarrow> vwin \<Rightarrow> vwin option" where
  "vinst2 S lim d w =
    (case vparse0 S lim (type1 d) (size1 d) (length (v_tgt w)) w of
       None \<Rightarrow> None
     | Some (n1, a1, w1) \<Rightarrow>
        (case vparse0 S lim (type2 d) (size2 d) (length (v_tgt w) + n1) w1 of
           None \<Rightarrow> None
         | Some (n2, a2, w2) \<Rightarrow>
            (case vexec0 S (type1 d) n1 a1 w2 of
               None \<Rightarrow> None
             | Some w3 \<Rightarrow> vexec0 S (type2 d) n2 a2 w3)))"

lemma vexec_effect:
  assumes "vexec0 S t n a w = Some w'" and "t \<noteq> XD3_NOOP \<or> n = 0"
  shows "\<exists>d T. w' = w\<lparr>v_data := d, v_tgt := T\<rparr> \<and> length T = length (v_tgt w) + n"
proof (cases "t = XD3_NOOP")
  case True
  with assms show ?thesis by (intro exI [of _ "v_data w"] exI [of _ "v_tgt w"]) (simp add: vexec0_def)
next
  case False
  then have v: "vexec S t n a w = Some w'" using assms(1) by (simp add: vexec0_def)
  show ?thesis
  proof (cases "t \<ge> XD3_CPY")
    case True
    with v show ?thesis
      by (intro exI [of _ "v_data w"] exI [of _ "drop (length S) (copy_ext (S @ v_tgt w) a n)"]) (auto simp: vexec_def)
  next
    case cpy: False
    show ?thesis
    proof (cases "t = XD3_RUN")
      case True
      with v cpy obtain b rest where "v_data w = b # rest" "w' = w\<lparr>v_data := rest, v_tgt := v_tgt w @ replicate n b\<rparr>"
        by (auto simp: vexec_def split: list.splits)
      then show ?thesis by (intro exI [of _ rest] exI [of _ "v_tgt w @ replicate n b"]) simp
    next
      case False
      with v cpy show ?thesis
        by (intro exI [of _ "drop n (v_data w)"] exI [of _ "v_tgt w @ take n (v_data w)"])
          (auto simp: vexec_def split: if_splits)
    qed
  qed
qed

lemma vparse_frame:
  "vparse0 S lim t sz0 tlen (w\<lparr>v_data := d, v_tgt := T\<rparr>) =
    map_option (\<lambda>(n, a, w1). (n, a, w1\<lparr>v_data := d, v_tgt := T\<rparr>)) (vparse0 S lim t sz0 tlen w)"
  by (auto simp: vparse0_def vparse_def vsize_def split: sum.split option.split)

lemma vparse_effect:
  assumes "vparse0 S lim t sz0 tlen w = Some (n, a, w1)"
  shows "\<exists>i ad ac. w1 = w\<lparr>v_inst := i, v_addr := ad, v_cache := ac\<rparr>" and "t = XD3_NOOP \<Longrightarrow> n = 0"
proof -
  show "\<exists>i ad ac. w1 = w\<lparr>v_inst := i, v_addr := ad, v_cache := ac\<rparr>"
  proof (cases "t = XD3_NOOP")
    case True
    with assms show ?thesis
      by (intro exI [of _ "v_inst w"] exI [of _ "v_addr w"] exI [of _ "v_cache w"]) (simp add: vparse0_def)
  next
    case False
    then have v: "vparse S lim t sz0 tlen w = Some (n, a, w1)" using assms by (simp add: vparse0_def)
    then obtain n' w' where z: "vsize sz0 w = Some (n', w')" by (auto simp: vparse_def split: option.splits)
    then obtain i where w': "w' = w\<lparr>v_inst := i\<rparr>"
      by (cases "sz0 = 0") (auto simp: vsize_def intro: that [of "v_inst w"] split: sum.splits)
    show ?thesis
    proof (cases "t \<ge> XD3_CPY")
      case True
      with v z obtain ad ac where "w1 = w'\<lparr>v_addr := ad, v_cache := ac\<rparr>"
        by (auto simp: vparse_def split: sum.splits prod.splits if_splits)
      with w' show ?thesis by auto
    next
      case False
      with v z have "w1 = w'" by (simp add: vparse_def split: if_splits)
      with w' show ?thesis
        by (intro exI [of _ i] exI [of _ "v_addr w"] exI [of _ "v_cache w"]) simp
    qed
  qed
  show "t = XD3_NOOP \<Longrightarrow> n = 0" using assms by (simp add: vparse0_def)
qed

lemma vexec_frame:
  "vexec0 S t n a (w\<lparr>v_inst := i, v_addr := ad, v_cache := ac\<rparr>) =
    map_option (\<lambda>w'. w'\<lparr>v_inst := i, v_addr := ad, v_cache := ac\<rparr>) (vexec0 S t n a w)"
  by (auto simp: vexec0_def vexec_def split: list.split)

lemma vinst_phases:
  assumes "v_inst w = b # rest"
  shows "vinst tbl S lim w = vinst2 S lim (tbl ! unat b) (w\<lparr>v_inst := rest\<rparr>)"
proof -
  let ?d = "tbl ! unat b" and ?w = "w\<lparr>v_inst := rest\<rparr>"
  have half: "(if t \<noteq> XD3_NOOP then vhalf S lim t sz x else Some x) =
      (case vparse0 S lim t sz (length (v_tgt x)) x of None \<Rightarrow> None | Some (n, a, w1) \<Rightarrow> vexec0 S t n a w1)" for t sz x
    by (simp add: vhalf_phases vparse0_def vexec0_def split: option.split)
  have e: "vinst tbl S lim w = (case vparse0 S lim (type1 ?d) (size1 ?d) (length (v_tgt ?w)) ?w of
      None \<Rightarrow> None
    | Some (n1, a1, w1) \<Rightarrow>
       (case vexec0 S (type1 ?d) n1 a1 w1 of
          None \<Rightarrow> None
        | Some w2 \<Rightarrow> (case vparse0 S lim (type2 ?d) (size2 ?d) (length (v_tgt w2)) w2 of
             None \<Rightarrow> None | Some (n2, a2, w3) \<Rightarrow> vexec0 S (type2 ?d) n2 a2 w3)))"
    unfolding vinst_def assms by (simp only: list.case Let_def half) (simp split: option.split prod.split)
  show ?thesis
  proof (cases "vparse0 S lim (type1 ?d) (size1 ?d) (length (v_tgt ?w)) ?w")
    case None
    then show ?thesis unfolding e by (simp add: vinst2_def)
  next
    case (Some p1)
    obtain n1 a1 w1 where p1: "p1 = (n1, a1, w1)" by (metis prod_cases3)
    note pe = vparse_effect [OF Some [unfolded p1]]
    then have t1: "v_tgt w1 = v_tgt ?w" by auto
    show ?thesis
    proof (cases "vexec0 S (type1 ?d) n1 a1 w1")
      case None
      have "vexec0 S (type1 ?d) n1 a1 w2 = None" if "vparse0 S lim t sz tlen w1 = Some (n2, a2, w2)" for t sz tlen n2 a2 w2
        using vparse_effect(1) [OF that] None by (auto simp: vexec_frame)
      then show ?thesis unfolding e using Some p1 None by (simp add: vinst2_def split: option.split)
    next
      case (Some w2)
      from vexec_effect [OF this] pe obtain dd T where w2: "w2 = w1\<lparr>v_data := dd, v_tgt := T\<rparr>" "length T = length (v_tgt w1) + n1"
        by blast
      have l2: "length (v_tgt w2) = length (v_tgt ?w) + n1" using w2 t1 by simp
      show ?thesis
      proof (cases "vparse0 S lim (type2 ?d) (size2 ?d) (length (v_tgt ?w) + n1) w1")
        case None
        then show ?thesis unfolding e
          using \<open>vparse0 S lim (type1 ?d) (size1 ?d) (length (v_tgt ?w)) ?w = Some p1\<close> p1 Some l2 w2(1)
          by (simp add: vinst2_def vparse_frame)
      next
        case p2: (Some p2)
        obtain n2 a2 w3 where e2: "p2 = (n2, a2, w3)" by (metis prod_cases3)
        from vparse_effect(1) [OF p2 [unfolded e2]] obtain i ad ac where w3: "w3 = w1\<lparr>v_inst := i, v_addr := ad, v_cache := ac\<rparr>" by blast
        have "vexec0 S (type1 ?d) n1 a1 w3 = Some (w3\<lparr>v_data := dd, v_tgt := T\<rparr>)"
          using Some w2(1) unfolding w3 vexec_frame by simp
        then show ?thesis unfolding e
          using \<open>vparse0 S lim (type1 ?d) (size1 ?d) (length (v_tgt ?w)) ?w = Some p1\<close> p1 Some l2 w2(1) p2 e2
          by (simp add: vinst2_def vparse_frame)
      qed
    qed
  qed
qed

text \<open>The fields the end of a window looks at, which no instruction changes.\<close>

definition same_window :: "'a xd3_decoder_scheme \<Rightarrow> 'a xd3_decoder_scheme \<Rightarrow> bool" where
  "same_window st st' \<longleftrightarrow> dec_tgtlen st' = dec_tgtlen st \<and> dec_win_ind st' = dec_win_ind st
     \<and> flags st' = flags st \<and> dec_adler32 st' = dec_adler32 st \<and> enc_state st' = enc_state st \<and> winsize st' = winsize st
     \<and> in_given st' = in_given st \<and> next_in st' = next_in st \<and> avail_in st' = avail_in st \<and> dec_buffer st' = dec_buffer st
     \<and> next_out st' = next_out st \<and> dec_lastwin st' = dec_lastwin st \<and> space_out st' = space_out st
     \<and> dec_winstart st' = dec_winstart st \<and> dec_32part st' = dec_32part st \<and> alloc st' = alloc st \<and> dec_cksum st' = dec_cksum st"

lemma same_window_refl [simp]: "same_window st st"
  by (simp add: same_window_def)

lemma same_window_trans: "same_window st st1 \<Longrightarrow> same_window st1 st2 \<Longrightarrow> same_window st st2"
  by (simp add: same_window_def)

lemma win_inv_current [simp]:
  "win_inv tbl S lim (st\<lparr>dec_current1 := x\<rparr>) = win_inv tbl S lim st"
  "win_inv tbl S lim (st\<lparr>dec_current2 := x\<rparr>) = win_inv tbl S lim st"
  "win_inv tbl S lim (st\<lparr>inst_sect := y\<rparr>) = win_inv tbl S lim st"
  by (simp_all add: win_inv_def source_is_def src_serves_def)

lemma absw_current [simp]:
  "absw (st\<lparr>dec_current1 := x\<rparr>) = absw st" "absw (st\<lparr>dec_current2 := x\<rparr>) = absw st"
  "absw (st\<lparr>inst_sect := y\<rparr>) = (absw st)\<lparr>v_inst := sect_buf y\<rparr>"
  by (simp_all add: absw_def out_window_def split: option.split)

text \<open>A half instruction that has been read: its type, and its size and address if there is one.\<close>

definition pending :: "xd3_hinst \<Rightarrow> u8 \<Rightarrow> nat \<Rightarrow> nat \<Rightarrow> bool" where
  "pending i t n a \<longleftrightarrow> h_type i = t \<and> (t \<noteq> XD3_NOOP \<longrightarrow> unat (h_size i) = n \<and> (t \<ge> XD3_CPY \<longrightarrow> unat (h_addr i) = a))"

text \<open>What reading a half leaves.\<close>

definition parsed :: "xd3_dinst list \<Rightarrow> u8 list \<Rightarrow> nat \<Rightarrow> nat \<Rightarrow> 'a xd3_decoder_scheme \<Rightarrow> vwin \<Rightarrow> 'a xd3_decoder_scheme \<Rightarrow> bool" where
  "parsed tbl S lim p st w st' \<longleftrightarrow> absw st' = w \<and> win_inv tbl S lim st' \<and> unat (dec_position st') = p
     \<and> avail_out st' = avail_out st \<and> suffix (sect_buf (inst_sect st')) (sect_buf (inst_sect st))
     \<and> TOTAL_MODES (acache st') = TOTAL_MODES (acache st) \<and> same_window st st'"

lemma parsed_current [simp]:
  "parsed tbl S lim p st w (st'\<lparr>dec_current1 := x\<rparr>) = parsed tbl S lim p st w st'"
  "parsed tbl S lim p st w (st'\<lparr>dec_current2 := x\<rparr>) = parsed tbl S lim p st w st'"
  by (simp_all add: parsed_def same_window_def)

lemma parse_half:
  assumes inv: "win_inv tbl S lim st" and t: "h_type inst = t" "h_size inst = ucast sz0"
    and mode: "unat t < 3 + unat (TOTAL_MODES (acache st))"
    and pos: "unat (dec_position st) = length S + tlen" "tlen \<le> lim"
    and fit: "reads_fit S lim (sect_buf (inst_sect st)) (vparse0 S lim t sz0 tlen (absw st) \<noteq> None)"
  shows "case vparse0 S lim t sz0 tlen (absw st) of
      None \<Rightarrow> t \<noteq> XD3_NOOP \<and> fst (xd3_decode_parse_halfinst inst st) = XD3_INVALID_INPUT
    | Some (n, a, w1) \<Rightarrow> tlen + n \<le> lim \<and> (t \<noteq> XD3_NOOP \<longrightarrow> inst_ok S lim tlen t n a \<and>
        (\<exists>inst' st'. xd3_decode_parse_halfinst inst st = (XD3_OK, inst', st') \<and> pending inst' t n a
          \<and> parsed tbl S lim (length S + tlen + n) st w1 st'
          \<and> dec_current1 st' = dec_current1 st \<and> dec_current2 st' = dec_current2 st))"
proof (cases "t = XD3_NOOP")
  case True
  with pos show ?thesis by (simp add: vparse0_def)
next
  case False
  then have "reads_fit S lim (sect_buf (inst_sect st)) (vparse S lim t sz0 tlen (absw st) \<noteq> None)" using fit by (simp add: vparse0_def)
  note r = parse_refines [OF inv t mode pos this]
  show ?thesis
  proof (cases "vparse S lim t sz0 tlen (absw st)")
    case None
    with r False show ?thesis by (simp add: vparse0_def)
  next
    case (Some p)
    obtain n a w1 where p: "p = (n, a, w1)" by (metis prod_cases3)
    note ok = vparse_ok [OF Some [unfolded p]]
    from r Some p obtain inst' i ad ac q where
      *: "xd3_decode_parse_halfinst inst st = (XD3_OK, inst', parse_upd i ad ac q st)"
        "h_type inst' = t" "unat (h_size inst') = n" "t \<ge> XD3_CPY \<longrightarrow> unat (h_addr inst') = a"
        "absw (parse_upd i ad ac q st) = w1" "win_inv tbl S lim (parse_upd i ad ac q st)"
        "unat q = length S + tlen + n" "suffix i (sect_buf (inst_sect st))" "TOTAL_MODES ac = TOTAL_MODES (acache st)"
      by auto
    then have "parsed tbl S lim (length S + tlen + n) st w1 (parse_upd i ad ac q st)" "pending inst' t n a"
      "dec_current1 (parse_upd i ad ac q st) = dec_current1 st" "dec_current2 (parse_upd i ad ac q st) = dec_current2 st"
      by (simp_all add: parsed_def pending_def same_window_def) (simp_all add: parse_upd_def)
    with * ok False Some p show ?thesis by (auto simp: vparse0_def inst_ok_def)
  qed
qed

text \<open>What executing a half leaves.\<close>

definition executed :: "xd3_dinst list \<Rightarrow> u8 list \<Rightarrow> nat \<Rightarrow> nat \<Rightarrow> 'a xd3_decoder_scheme \<Rightarrow> vwin \<Rightarrow> 'a xd3_decoder_scheme \<Rightarrow> bool" where
  "executed tbl S lim n st w st' \<longleftrightarrow> absw st' = w \<and> win_inv tbl S lim st' \<and> unat (avail_out st') = unat (avail_out st) + n
     \<and> dec_position st' = dec_position st \<and> inst_sect st' = inst_sect st \<and> same_window st st'"

lemma exec_half:
  assumes inv: "win_inv tbl S lim st" and i: "pending inst t n a" "t = XD3_NOOP \<longrightarrow> n = 0"
    and ok: "t \<noteq> XD3_NOOP \<longrightarrow> inst_ok S lim (unat (avail_out st)) t n a"
  shows "case vexec0 S t n a (absw st) of
      None \<Rightarrow> fst (output_loop inst st) = XD3_INVALID_INPUT
    | Some w1 \<Rightarrow> \<exists>inst' st'. output_loop inst st = (XD3_OK, inst', st') \<and> h_type inst' = XD3_NOOP
        \<and> executed tbl S lim n st w1 st' \<and> dec_current1 st' = dec_current1 st \<and> dec_current2 st' = dec_current2 st"
proof (cases "t = XD3_NOOP")
  case True
  with i have "output_loop inst st = (XD3_OK, inst, st)" by (subst output_loop.simps) (simp add: pending_def)
  with True i inv show ?thesis by (auto simp: vexec0_def executed_def pending_def)
next
  case False
  have p: "h_type inst = t" "unat (h_size inst) = n" "t \<ge> XD3_CPY \<longrightarrow> unat (h_addr inst) = a"
    using i False by (simp_all add: pending_def)
  note r = exec_refines [OF inv False p ok [rule_format, OF False]]
  show ?thesis
  proof (cases "vexec S t n a (absw st)")
    case None
    with r False show ?thesis by (simp add: vexec0_def)
  next
    case (Some w1)
    with r obtain inst' d hp av sr where *: "output_loop inst st = (XD3_OK, inst', exec_upd d hp av sr st)"
      "h_type inst' = XD3_NOOP" "absw (exec_upd d hp av sr st) = w1" "win_inv tbl S lim (exec_upd d hp av sr st)"
      "unat av = unat (avail_out st) + n" by auto
    then have "executed tbl S lim n st w1 (exec_upd d hp av sr st)"
      "dec_current1 (exec_upd d hp av sr st) = dec_current1 st" "dec_current2 (exec_upd d hp av sr st) = dec_current2 st"
      by (simp_all add: executed_def same_window_def) (simp_all add: exec_upd_def)
    with * False Some show ?thesis by (auto simp: vexec0_def)
  qed
qed

section \<open>The loop refines the specification\<close>

text \<open>Between two opcodes: nothing pending, and the position agrees with the output.\<close>

definition ready :: "xd3_dinst list \<Rightarrow> u8 list \<Rightarrow> nat \<Rightarrow> 'a xd3_decoder_scheme \<Rightarrow> bool" where
  "ready tbl S lim st \<longleftrightarrow> win_inv tbl S lim st \<and> no_pending st
     \<and> unat (dec_position st) = length S + unat (avail_out st)
     \<and> reads_fit S lim (sect_buf (inst_sect st)) (vrun tbl S lim (absw st) \<noteq> None)"

text \<open>A valid window consists of valid instructions.\<close>

lemma ready_inst:
  assumes "ready tbl S lim st" "sect_buf (inst_sect st) = b # rest"
  shows "reads_fit S lim (sect_buf (inst_sect st)) (vinst tbl S lim (absw st) \<noteq> None)"
proof -
  have "v_inst (absw st) \<noteq> []" using assms(2) by (simp add: absw_def)
  then have "vrun tbl S lim (absw st) \<noteq> None \<Longrightarrow> vinst tbl S lim (absw st) \<noteq> None"
    by (subst (asm) vrun.simps) (auto split: option.splits)
  then show ?thesis using assms(1) by (auto simp: ready_def reads_fit_def)
qed

lemma reads_fit_suffix: "reads_fit S lim bs v \<Longrightarrow> suffix cs bs \<Longrightarrow> (v \<Longrightarrow> v') \<Longrightarrow> reads_fit S lim cs v'"
  unfolding reads_fit_def using sizes_fit_suffix by blast

text \<open>Reading an opcode: both halves pending.\<close>

lemma instruction_refines:
  assumes rd: "ready tbl S lim st" and b: "sect_buf (inst_sect st) = b # rest"
  defines "d \<equiv> tbl ! unat b" and "w \<equiv> (absw st)\<lparr>v_inst := rest\<rparr>" and "tlen \<equiv> unat (avail_out st)"
  shows "case vparse0 S lim (type1 d) (size1 d) tlen w of
      None \<Rightarrow> fst (xd3_decode_instruction st) = XD3_INVALID_INPUT
    | Some (n1, a1, w1) \<Rightarrow>
       (case vparse0 S lim (type2 d) (size2 d) (tlen + n1) w1 of
          None \<Rightarrow> fst (xd3_decode_instruction st) = XD3_INVALID_INPUT
        | Some (n2, a2, w2) \<Rightarrow> \<exists>st2. xd3_decode_instruction st = (XD3_OK, st2)
            \<and> pending (dec_current1 st2) (type1 d) n1 a1 \<and> pending (dec_current2 st2) (type2 d) n2 a2
            \<and> (type1 d \<noteq> XD3_NOOP \<longrightarrow> inst_ok S lim tlen (type1 d) n1 a1)
            \<and> (type2 d \<noteq> XD3_NOOP \<longrightarrow> inst_ok S lim (tlen + n1) (type2 d) n2 a2)
            \<and> absw st2 = w2 \<and> win_inv tbl S lim st2 \<and> unat (dec_position st2) = length S + tlen + n1 + n2
            \<and> avail_out st2 = avail_out st \<and> suffix (sect_buf (inst_sect st2)) rest \<and> same_window st st2)"
proof -
  have inv: "win_inv tbl S lim st" and pos: "unat (dec_position st) = length S + tlen" and le: "tlen \<le> lim"
    using rd by (auto simp: ready_def tlen_def win_inv_def)
  have tl: "length (v_tgt w) = tlen" using win_inv_tgt_length [OF inv] by (simp add: w_def tlen_def)
  have v: "vinst tbl S lim (absw st) = vinst2 S lim d w"
    using b vinst_phases [of "absw st" b rest tbl S lim] by (simp add: absw_def w_def d_def)
  have fit: "reads_fit S lim rest (vinst2 S lim d w \<noteq> None)"
    by (rule reads_fit_suffix [OF ready_inst [OF rd b]]) (use b v in \<open>simp_all add: suffix_ConsI\<close>)
  have tb: "code_table st = Some tbl" "length tbl = 256" "valid_dinst (TOTAL_MODES (acache st)) d"
    using inv unat_u8_less [of b] by (auto simp: win_inv_def d_def list_all_length)
  have get: "arr_get (code_table st) (unat b) = Some d"
    using tb(1,2) unat_u8_less [of b] by (simp add: arr_get_def d_def)
  have modes: "unat (type1 d) < 3 + unat (TOTAL_MODES (acache st))" "unat (type2 d) < 3 + unat (TOTAL_MODES (acache st))"
    using tb(3) by (simp_all add: valid_dinst_def)
  define st1 where "st1 = st\<lparr>inst_sect := (inst_sect st)\<lparr>sect_buf := rest\<rparr>,
     dec_current1 := (dec_current1 st)\<lparr>h_type := type1 d, h_size := ucast (size1 d)\<rparr>,
     dec_current2 := (dec_current2 st)\<lparr>h_type := type2 d, h_size := ucast (size2 d)\<rparr>\<rparr>"
  have run: "xd3_decode_instruction st =
      bind_ok (if type1 d \<noteq> XD3_NOOP then parse_current1 st1 else (XD3_OK, st1))
        (\<lambda>st2. if type2 d \<noteq> XD3_NOOP then parse_current2 st2 else (XD3_OK, st2))"
    using b get by (simp add: xd3_decode_instruction_def st1_def)
  have i1: "win_inv tbl S lim st1" "absw st1 = w" using inv by (simp_all add: st1_def w_def)
  have f1: "TOTAL_MODES (acache st1) = TOTAL_MODES (acache st)" "unat (dec_position st1) = length S + tlen"
    "sect_buf (inst_sect st1) = rest" "avail_out st1 = avail_out st" "same_window st st1"
    "h_type (dec_current1 st1) = type1 d" "h_size (dec_current1 st1) = ucast (size1 d)"
    "h_type (dec_current2 st1) = type2 d" "h_size (dec_current2 st1) = ucast (size2 d)"
    by (simp_all add: st1_def pos same_window_def)
  have "reads_fit S lim rest (vparse0 S lim (type1 d) (size1 d) tlen w \<noteq> None)"
    by (rule reads_fit_suffix [OF fit]) (auto simp: vinst2_def tl split: option.splits)
  then have fit1: "reads_fit S lim (sect_buf (inst_sect st1)) (vparse0 S lim (type1 d) (size1 d) tlen w \<noteq> None)" using f1 by simp
  note p1 = parse_half [OF i1(1) f1(6,7) _ f1(2) le fit1 [folded i1(2)], unfolded i1(2)]
  have p1': "case vparse0 S lim (type1 d) (size1 d) tlen w of
      None \<Rightarrow> type1 d \<noteq> XD3_NOOP \<and> fst (parse_current1 st1) = XD3_INVALID_INPUT
    | Some (n1, a1, w1) \<Rightarrow> tlen + n1 \<le> lim \<and> (\<exists>st2. (if type1 d \<noteq> XD3_NOOP then parse_current1 st1 else (XD3_OK, st1)) = (XD3_OK, st2)
        \<and> (type1 d \<noteq> XD3_NOOP \<longrightarrow> inst_ok S lim tlen (type1 d) n1 a1)
        \<and> pending (dec_current1 st2) (type1 d) n1 a1 \<and> dec_current2 st2 = dec_current2 st1
        \<and> parsed tbl S lim (length S + tlen + n1) st1 w1 st2)"
  proof (cases "type1 d = XD3_NOOP")
    case True
    then show ?thesis using i1 f1 le by (simp add: vparse0_def pending_def parsed_def)
  next
    case False
    show ?thesis
    proof (cases "vparse0 S lim (type1 d) (size1 d) tlen w")
      case None
      with p1 modes(1) f1(1) False show ?thesis by (auto simp: parse_current1_def split: prod.splits)
    next
      case (Some q)
      obtain n1 a1 w1 where q: "q = (n1, a1, w1)" by (metis prod_cases3)
      with Some p1 modes(1) f1(1) False obtain inst' st2 where *:
        "xd3_decode_parse_halfinst (dec_current1 st1) st1 = (XD3_OK, inst', st2)" "pending inst' (type1 d) n1 a1"
        "parsed tbl S lim (length S + tlen + n1) st1 w1 st2" "dec_current2 st2 = dec_current2 st1"
        "inst_ok S lim tlen (type1 d) n1 a1" "tlen + n1 \<le> lim" by auto
      with Some q False show ?thesis
        by (simp add: parse_current1_def)
    qed
  qed
  show ?thesis
  proof (cases "vparse0 S lim (type1 d) (size1 d) tlen w")
    case None
    with p1' show ?thesis unfolding run by (auto simp: bind_ok_def split: prod.splits)
  next
    case (Some q1)
    obtain n1 a1 w1 where q1: "q1 = (n1, a1, w1)" by (metis prod_cases3)
    from p1' Some q1 obtain st2 where st2: "tlen + n1 \<le> lim"
      "(if type1 d \<noteq> XD3_NOOP then parse_current1 st1 else (XD3_OK, st1)) = (XD3_OK, st2)"
      "type1 d \<noteq> XD3_NOOP \<longrightarrow> inst_ok S lim tlen (type1 d) n1 a1"
      "pending (dec_current1 st2) (type1 d) n1 a1" "dec_current2 st2 = dec_current2 st1"
      "parsed tbl S lim (length S + tlen + n1) st1 w1 st2" by auto
    then have i2: "win_inv tbl S lim st2" "absw st2 = w1" "unat (dec_position st2) = length S + (tlen + n1)"
      "avail_out st2 = avail_out st" "suffix (sect_buf (inst_sect st2)) rest"
      "TOTAL_MODES (acache st2) = TOTAL_MODES (acache st)" "same_window st st2"
      using f1 same_window_trans by (auto simp: parsed_def)
    have c2: "h_type (dec_current2 st2) = type2 d" "h_size (dec_current2 st2) = ucast (size2 d)" using st2(5) f1 by simp_all
    have "reads_fit S lim (sect_buf (inst_sect st2)) (vparse0 S lim (type2 d) (size2 d) (tlen + n1) w1 \<noteq> None)"
      by (rule reads_fit_suffix [OF fit i2(5)]) (use Some q1 in \<open>auto simp: vinst2_def tl split: option.splits\<close>)
    note p2 = parse_half [OF i2(1) c2 _ i2(3) st2(1) this [folded i2(2)], unfolded i2(2)]
    show ?thesis
    proof (cases "type2 d = XD3_NOOP")
      case True
      then have v2: "vparse0 S lim (type2 d) (size2 d) (tlen + n1) w1 = Some (0, 0, w1)" by (simp add: vparse0_def)
      have r: "xd3_decode_instruction st = (XD3_OK, st2)" using st2(2) True unfolding run by (simp add: bind_ok_def)
      have p: "pending (dec_current2 st2) (type2 d) 0 0" "type2 d \<noteq> XD3_NOOP \<longrightarrow> inst_ok S lim (tlen + n1) (type2 d) 0 0"
        using c2 True by (simp_all add: pending_def)
      show ?thesis unfolding Some q1 option.case prod.case v2 using r st2(3,4) p i2 by simp
    next
      case False
      show ?thesis
      proof (cases "vparse0 S lim (type2 d) (size2 d) (tlen + n1) w1")
        case None
        with p2 modes(2) i2(6) Some q1 st2(2) False show ?thesis
          unfolding run by (auto simp: bind_ok_def parse_current2_def split: prod.splits)
      next
        case v2: (Some q2)
        obtain n2 a2 w2 where q2: "q2 = (n2, a2, w2)" by (metis prod_cases3)
        from p2 modes(2) i2(6) v2 q2 False obtain inst' st3 where
          *: "xd3_decode_parse_halfinst (dec_current2 st2) st2 = (XD3_OK, inst', st3)" "pending inst' (type2 d) n2 a2"
            "parsed tbl S lim (length S + (tlen + n1) + n2) st2 w2 st3" "dec_current1 st3 = dec_current1 st2"
            "inst_ok S lim (tlen + n1) (type2 d) n2 a2" by auto
        have r: "xd3_decode_instruction st = (XD3_OK, st3\<lparr>dec_current2 := inst'\<rparr>)"
          using * st2(2) False unfolding run by (simp add: bind_ok_def parse_current2_def)
        have "same_window st (st3\<lparr>dec_current2 := inst'\<rparr>)"
          using i2(7) *(3) by (simp add: parsed_def same_window_def)
        with r * i2 st2 False Some q1 v2 q2 show ?thesis
          by (auto simp: parsed_def add.assoc intro: suffix_order.trans)
      qed
    qed
  qed
qed

lemma executed_current [simp]:
  "executed tbl S lim n st w (st'\<lparr>dec_current1 := x\<rparr>) = executed tbl S lim n st w st'"
  "executed tbl S lim n st w (st'\<lparr>dec_current2 := x\<rparr>) = executed tbl S lim n st w st'"
  by (simp_all add: executed_def same_window_def)

text \<open>One round of the loop is one opcode of the specification.\<close>

lemma emit_step_refines:
  assumes rd: "ready tbl S lim st" and b: "sect_buf (inst_sect st) = b # rest"
  shows "case vinst tbl S lim (absw st) of
      None \<Rightarrow> fst (emit_step st) = XD3_INVALID_INPUT
    | Some w \<Rightarrow> \<exists>st'. emit_step st = (XD3_OK, st') \<and> absw st' = w \<and> ready tbl S lim st'
        \<and> length (sect_buf (inst_sect st')) < length (sect_buf (inst_sect st)) \<and> same_window st st'"
proof -
  define d where "d = tbl ! unat b"
  define w where "w = (absw st)\<lparr>v_inst := rest\<rparr>"
  let ?tlen = "unat (avail_out st)"
  have wi: "win_inv tbl S lim st" "no_pending st" and fit: "reads_fit S lim (sect_buf (inst_sect st)) (vrun tbl S lim (absw st) \<noteq> None)"
    using rd by (auto simp: ready_def)
  have tl: "length (v_tgt w) = ?tlen" using win_inv_tgt_length [OF wi(1)] by (simp add: w_def)
  have v: "vinst tbl S lim (absw st) = vinst2 S lim d w"
    using b vinst_phases [of "absw st" b rest tbl S lim] by (simp add: absw_def w_def d_def)
  have run: "emit_step st = bind_ok (xd3_decode_instruction st) (\<lambda>st1. bind_ok (output_current1 st1) output_current2)"
    using wi(2) by (simp add: emit_step_def)
  note ir = instruction_refines [OF rd b, folded d_def w_def]
  show ?thesis
  proof (cases "vparse0 S lim (type1 d) (size1 d) ?tlen w")
    case None
    then have "vinst tbl S lim (absw st) = None" unfolding v by (simp add: vinst2_def tl)
    with None ir show ?thesis unfolding run by (auto simp: bind_ok_def split: prod.splits)
  next
    case q1: (Some q1)
    obtain n1 a1 w1 where e1: "q1 = (n1, a1, w1)" by (metis prod_cases3)
    note eff1 = vparse_effect [OF q1 [unfolded e1]]
    show ?thesis
    proof (cases "vparse0 S lim (type2 d) (size2 d) (?tlen + n1) w1")
      case None
      then have "vinst tbl S lim (absw st) = None" unfolding v using q1 e1 by (simp add: vinst2_def tl)
      with None q1 e1 ir show ?thesis unfolding run by (auto simp: bind_ok_def split: prod.splits)
    next
      case q2: (Some q2)
      obtain n2 a2 w2 where e2: "q2 = (n2, a2, w2)" by (metis prod_cases3)
      note eff2 = vparse_effect [OF q2 [unfolded e2]]
      have v2: "vinst tbl S lim (absw st) =
          (case vexec0 S (type1 d) n1 a1 w2 of None \<Rightarrow> None | Some w3 \<Rightarrow> vexec0 S (type2 d) n2 a2 w3)"
        unfolding v using q1 e1 q2 e2 by (simp add: vinst2_def tl)
      from ir q1 e1 q2 e2 obtain st2 where i: "xd3_decode_instruction st = (XD3_OK, st2)"
        "pending (dec_current1 st2) (type1 d) n1 a1" "pending (dec_current2 st2) (type2 d) n2 a2"
        "type1 d \<noteq> XD3_NOOP \<longrightarrow> inst_ok S lim ?tlen (type1 d) n1 a1"
        "type2 d \<noteq> XD3_NOOP \<longrightarrow> inst_ok S lim (?tlen + n1) (type2 d) n2 a2"
        "absw st2 = w2" "win_inv tbl S lim st2" "unat (dec_position st2) = length S + ?tlen + n1 + n2"
        "avail_out st2 = avail_out st" "suffix (sect_buf (inst_sect st2)) rest" "same_window st st2" by auto
      have x1: "case vexec0 S (type1 d) n1 a1 w2 of
          None \<Rightarrow> fst (output_loop (dec_current1 st2) st2) = XD3_INVALID_INPUT
        | Some w1 \<Rightarrow> \<exists>inst' st'. output_loop (dec_current1 st2) st2 = (XD3_OK, inst', st') \<and> h_type inst' = XD3_NOOP
            \<and> executed tbl S lim n1 st2 w1 st' \<and> dec_current1 st' = dec_current1 st2 \<and> dec_current2 st' = dec_current2 st2"
        using exec_half [OF i(7,2)] i(4,6,9) eff1(2) by simp
      show ?thesis
      proof (cases "vexec0 S (type1 d) n1 a1 w2")
        case None
        with x1 v2 i(1) show ?thesis unfolding run by (auto simp: bind_ok_def output_current1_def split: prod.splits)
      next
        case y1: (Some w3)
        with x1 obtain inst1 st3 where l1: "output_loop (dec_current1 st2) st2 = (XD3_OK, inst1, st3)" "h_type inst1 = XD3_NOOP"
          "executed tbl S lim n1 st2 w3 st3" "dec_current2 st3 = dec_current2 st2" by auto
        define st4 where "st4 = st3\<lparr>dec_current1 := inst1\<rparr>"
        have o1: "output_current1 st2 = (XD3_OK, st4)" using l1 by (simp add: output_current1_def st4_def)
        have i4: "executed tbl S lim n1 st2 w3 st4" "pending (dec_current2 st4) (type2 d) n2 a2" "h_type (dec_current1 st4) = XD3_NOOP"
          using l1 i(3) by (simp_all add: st4_def)
        then have f4: "win_inv tbl S lim st4" "absw st4 = w3" "unat (avail_out st4) = ?tlen + n1" using i(9) by (simp_all add: executed_def)
        have x2: "case vexec0 S (type2 d) n2 a2 w3 of
            None \<Rightarrow> fst (output_loop (dec_current2 st4) st4) = XD3_INVALID_INPUT
          | Some w1 \<Rightarrow> \<exists>inst' st'. output_loop (dec_current2 st4) st4 = (XD3_OK, inst', st') \<and> h_type inst' = XD3_NOOP
              \<and> executed tbl S lim n2 st4 w1 st' \<and> dec_current1 st' = dec_current1 st4 \<and> dec_current2 st' = dec_current2 st4"
          using exec_half [OF f4(1) i4(2)] i(5) f4(2,3) eff2(2) by simp
        show ?thesis
        proof (cases "vexec0 S (type2 d) n2 a2 w3")
          case None
          with x2 v2 y1 i(1) o1 show ?thesis unfolding run by (auto simp: bind_ok_def output_current2_def split: prod.splits)
        next
          case y2: (Some w4)
          with x2 obtain inst2 st5 where l2: "output_loop (dec_current2 st4) st4 = (XD3_OK, inst2, st5)" "h_type inst2 = XD3_NOOP"
            "executed tbl S lim n2 st4 w4 st5" "dec_current1 st5 = dec_current1 st4" by auto
          let ?st6 = "st5\<lparr>dec_current2 := inst2\<rparr>"
          have "emit_step st = (XD3_OK, ?st6)" using i(1) o1 l2(1) unfolding run by (simp add: bind_ok_def output_current2_def)
          moreover have ex: "executed tbl S lim n2 st4 w4 ?st6" using l2 by simp
          moreover have "reads_fit S lim (sect_buf (inst_sect ?st6)) (vrun tbl S lim (absw ?st6) \<noteq> None)"
          proof (rule reads_fit_suffix [OF fit])
            have "suffix rest (b # rest)" by (simp add: suffix_ConsI)
            then show "suffix (sect_buf (inst_sect ?st6)) (sect_buf (inst_sect st))"
              using ex i4(1) i(10) b suffix_order.trans by (auto simp: executed_def)
            have "vinst tbl S lim (absw st) = Some (absw ?st6)" using v2 y1 y2 ex by (simp add: executed_def)
            moreover have "v_inst (absw st) \<noteq> []" using b by (simp add: absw_def)
            ultimately show "vrun tbl S lim (absw st) \<noteq> None \<Longrightarrow> vrun tbl S lim (absw ?st6) \<noteq> None"
              by (subst (asm) vrun.simps) (auto split: if_splits)
          qed
          then have "ready tbl S lim ?st6"
            using ex i4 f4 i(8) l2(2,4) by (simp add: ready_def executed_def no_pending_def)
          moreover have "length (sect_buf (inst_sect ?st6)) < length (sect_buf (inst_sect st))"
            using ex i4(1) suffix_length_le [OF i(10)] b by (simp add: executed_def)
          moreover have "same_window st ?st6" using ex i4(1) i(11) by (simp add: executed_def same_window_def)
          ultimately show ?thesis using v2 y1 y2 \<open>ready tbl S lim ?st6\<close> by (simp add: executed_def)
        qed
      qed
    qed
  qed
qed

text \<open>The whole instruction section.\<close>

lemma emit_loop_refines:
  assumes "ready tbl S lim st"
  shows "case vrun tbl S lim (absw st) of
      None \<Rightarrow> fst (emit_loop st) = XD3_INVALID_INPUT
    | Some w \<Rightarrow> \<exists>st'. emit_loop st = (XD3_OK, st') \<and> absw st' = w \<and> ready tbl S lim st' \<and> same_window st st'"
  using assms
proof (induction "length (sect_buf (inst_sect st))" arbitrary: st rule: less_induct)
  case less
  have np: "no_pending st" using less.prems by (simp add: ready_def)
  show ?case
  proof (cases "sect_buf (inst_sect st)")
    case Nil
    then have "emit_loop st = (XD3_OK, st)" using np by (subst emit_loop.simps) simp
    moreover have "vrun tbl S lim (absw st) = Some (absw st)" using Nil by (subst vrun.simps) (simp add: absw_def)
    ultimately show ?thesis using less.prems by simp
  next
    case (Cons b rest)
    note es = emit_step_refines [OF less.prems Cons]
    have ne: "v_inst (absw st) \<noteq> []" "length (v_inst (absw x)) = length (sect_buf (inst_sect x))" for x :: "'a xd3_decoder_scheme"
      using Cons by (simp_all add: absw_def)
    show ?thesis
    proof (cases "vinst tbl S lim (absw st)")
      case None
      with es have "fst (emit_step st) = XD3_INVALID_INPUT" by simp
      then have "fst (emit_loop st) = XD3_INVALID_INPUT"
        using Cons by (subst emit_loop.simps) (auto split: prod.splits)
      moreover have "vrun tbl S lim (absw st) = None" using None ne by (subst vrun.simps) simp
      ultimately show ?thesis by simp
    next
      case (Some w1)
      with es obtain st1 where s1: "emit_step st = (XD3_OK, st1)" "absw st1 = w1" "ready tbl S lim st1"
        "length (sect_buf (inst_sect st1)) < length (sect_buf (inst_sect st))" "same_window st st1" by auto
      have "emit_rank st1 < emit_rank st" using s1 np by (simp add: emit_rank_def ready_def)
      then have "emit_loop st = emit_loop st1" using s1 Cons by (subst emit_loop.simps) simp
      moreover have "vrun tbl S lim (absw st) = vrun tbl S lim (absw st1)"
        using Some s1 ne by (subst vrun.simps) (auto simp: absw_def)
      ultimately show ?thesis using less.hyps [OF s1(4,3)] same_window_trans [OF s1(5)]
        by (auto split: option.splits)
    qed
  qed
qed

section \<open>The end of a window\<close>

text \<open>The checksum of RFC 1950 as a number, and what a window with checksum \<open>ck\<close> decodes to.\<close>

definition vadler :: "u8 list \<Rightarrow> nat" where
  "vadler bs = (case adler_ref (1, 0) bs of (a, b) \<Rightarrow> b * 65536 + a)"

definition vwindow :: "xd3_dinst list \<Rightarrow> u8 list \<Rightarrow> nat \<Rightarrow> u32 option \<Rightarrow> vwin \<Rightarrow> u8 list option" where
  "vwindow tbl S lim ck w =
    (case vrun tbl S lim w of
       None \<Rightarrow> None
     | Some w1 \<Rightarrow>
        (if length (v_tgt w1) = lim \<and> v_data w1 = [] \<and> v_addr w1 = []
            \<and> (case ck of None \<Rightarrow> True | Some c \<Rightarrow> vadler (v_tgt w1) = unat c)
         then Some (v_tgt w1) else None))"

lemma adler_check:
  assumes "length T = unat n"
  shows "ucast (adler32 (1 :: 64 word) T n) = (c :: u32) \<longleftrightarrow> vadler T = unat c"
proof -
  obtain a b where ab: "adler_ref (1, 0) T = (a, b)" by fastforce
  have "unat (adler32 (1 :: 64 word) T n) = b * 65536 + a" using assms ab by (intro adler32_value) simp_all
  moreover have "b * 65536 + a < 2 ^ 32" using adler_ref_less [OF ab] by simp
  ultimately have "unat (ucast (adler32 (1 :: 64 word) T n) :: u32) = vadler T"
    using ab by (simp add: vadler_def unsigned_ucast_eq take_bit_nat_eq_self)
  then show ?thesis by (metis word_unat_eq_iff)
qed

text \<open>The checksum the decoder compares with, if it does.\<close>

definition want_cksum :: "'a xd3_decoder_scheme \<Rightarrow> u32 option" where
  "want_cksum st = (if flag_set (dec_win_ind st) VCD_ADLER32 \<and> \<not> flag_set (flags st) XD3_ADLER32_NOVER
     then Some (dec_adler32 st) else None)"

lemma decode_emit_end:
  assumes rd: "ready tbl S (unat (dec_tgtlen st)) st" and run: "vrun tbl S (unat (dec_tgtlen st)) (absw st) = Some w"
  shows "\<exists>st1. absw st1 = w \<and> ready tbl S (unat (dec_tgtlen st)) st1 \<and> same_window st st1 \<and> avail_out st1 = of_nat (length (v_tgt w))
    \<and> xd3_decode_emit st =
      (if length (v_tgt w) \<noteq> unat (dec_tgtlen st) then fail_with XD3_INVALID_INPUT ''wrong window length'' st1
       else if v_data w \<noteq> [] then fail_with XD3_INVALID_INPUT ''extra data section'' st1
       else if v_addr w \<noteq> [] then fail_with XD3_INVALID_INPUT ''extra address section'' st1
       else if \<not> (case want_cksum st of None \<Rightarrow> True | Some c \<Rightarrow> vadler (v_tgt w) = unat c)
         then fail_with XD3_INVALID_INPUT ''target window checksum mismatch'' st1
       else xd3_decode_finish_window st1)"
proof -
  let ?lim = "unat (dec_tgtlen st)"
  from emit_loop_refines [OF rd] run obtain st1 where
    s1: "emit_loop st = (XD3_OK, st1)" "absw st1 = w" "ready tbl S ?lim st1" "same_window st st1" by auto
  have ow: "v_tgt w = out_window st1" "v_data w = sect_buf (data_sect st1)" "v_addr w = sect_buf (addr_sect st1)"
    using s1(2) by (auto simp: absw_def)
  have len: "length (out_window st1) = unat (avail_out st1)"
    using win_inv_tgt_length [of tbl S ?lim st1] s1(3) ow(1) s1(2) by (simp add: ready_def)
  have same: "dec_tgtlen st1 = dec_tgtlen st" "want_cksum st1 = want_cksum st" using s1(4) by (simp_all add: same_window_def want_cksum_def)
  have ck: "(flag_set (dec_win_ind st1) VCD_ADLER32 \<and> \<not> flag_set (flags st1) XD3_ADLER32_NOVER
        \<and> ucast (adler32 (1 :: 64 word) (out_window st1) (avail_out st1)) \<noteq> dec_adler32 st1) \<longleftrightarrow>
      \<not> (case want_cksum st of None \<Rightarrow> True | Some c \<Rightarrow> vadler (v_tgt w) = unat c)"
    using s1(4) adler_check [OF len] unfolding same_window_def want_cksum_def ow by simp
  have av: "avail_out st1 \<noteq> dec_tgtlen st1 \<longleftrightarrow> length (v_tgt w) \<noteq> ?lim"
    using len ow(1) same(1) by (simp add: word_unat_eq_iff)
  have "avail_out st1 = of_nat (length (v_tgt w))" using len ow(1) by simp
  moreover have "xd3_decode_emit st =
      (if length (v_tgt w) \<noteq> unat (dec_tgtlen st) then fail_with XD3_INVALID_INPUT ''wrong window length'' st1
       else if v_data w \<noteq> [] then fail_with XD3_INVALID_INPUT ''extra data section'' st1
       else if v_addr w \<noteq> [] then fail_with XD3_INVALID_INPUT ''extra address section'' st1
       else if \<not> (case want_cksum st of None \<Rightarrow> True | Some c \<Rightarrow> vadler (v_tgt w) = unat c)
         then fail_with XD3_INVALID_INPUT ''target window checksum mismatch'' st1
       else xd3_decode_finish_window st1)"
    unfolding xd3_decode_emit_def s1(1) bind_ok_def prod.case av ck ow(2,3) by simp
  ultimately show ?thesis using s1 by blast
qed

lemma decode_emit_refines:
  assumes rd: "ready tbl S (unat (dec_tgtlen st)) st"
  shows "case vwindow tbl S (unat (dec_tgtlen st)) (want_cksum st) (absw st) of
      None \<Rightarrow> fst (xd3_decode_emit st) = XD3_INVALID_INPUT
    | Some T \<Rightarrow> \<exists>st'. xd3_decode_emit st = (XD3_OUTPUT, st') \<and> out_window st' = T \<and> dec_state st' = DEC_FINISH
        \<and> avail_out st' = dec_tgtlen st"
proof -
  let ?lim = "unat (dec_tgtlen st)"
  note lr = emit_loop_refines [OF rd]
  show ?thesis
  proof (cases "vrun tbl S ?lim (absw st)")
    case None
    with lr have "fst (xd3_decode_emit st) = XD3_INVALID_INPUT"
      by (auto simp: xd3_decode_emit_def bind_ok_def split: prod.splits)
    with None show ?thesis by (simp add: vwindow_def)
  next
    case (Some w)
    from decode_emit_end [OF rd Some] obtain st1 where s1: "absw st1 = w" "avail_out st1 = of_nat (length (v_tgt w))"
      "xd3_decode_emit st =
        (if length (v_tgt w) \<noteq> ?lim then fail_with XD3_INVALID_INPUT ''wrong window length'' st1
         else if v_data w \<noteq> [] then fail_with XD3_INVALID_INPUT ''extra data section'' st1
         else if v_addr w \<noteq> [] then fail_with XD3_INVALID_INPUT ''extra address section'' st1
         else if \<not> (case want_cksum st of None \<Rightarrow> True | Some c \<Rightarrow> vadler (v_tgt w) = unat c)
           then fail_with XD3_INVALID_INPUT ''target window checksum mismatch'' st1
         else xd3_decode_finish_window st1)" by blast
    have "out_window (snd (xd3_decode_finish_window st1)) = v_tgt w"
      using s1(1) by (auto simp: xd3_decode_finish_window_def out_window_def absw_def split: option.split)
    then show ?thesis using s1(2,3) Some
      by (auto simp: vwindow_def fail_with_def xd3_decode_finish_window_def)
  qed
qed

section \<open>A window from its sections\<close>

text \<open>The state in which the sections of a window have arrived and its buffer is set up: nothing has been
  produced, and the source object delivers the blocks of \<open>file\<close>, of which the copy window \<open>S\<close> is a part.\<close>

definition window_start :: "xd3_dinst list \<Rightarrow> u8 list \<Rightarrow> u8 list \<Rightarrow> 'a xd3_decoder_scheme \<Rightarrow> bool" where
  "window_start tbl file S st \<longleftrightarrow>
     (\<exists>h buf. next_out st = Some h \<and> out_heap st h = Some buf \<and> unat (dec_tgtlen st) \<le> length buf \<and> length buf < 2 ^ 32
        \<and> unat (space_out st) \<le> length buf \<and> dec_tgtaddrbase st = (Some h, dec_cpylen st))
     \<and> avail_out st = 0 \<and> no_pending st
     \<and> unat (dec_cpylen st) = length S \<and> dec_position st = dec_cpylen st \<and> dec_maxpos st = dec_cpylen st + dec_tgtlen st
     \<and> \<not> flag_set (dec_win_ind st) VCD_TARGET
     \<and> code_table st = Some tbl \<and> length tbl = 256 \<and> list_all (valid_dinst (TOTAL_MODES (acache st))) tbl
     \<and> cache_wf (acache st)
     \<and> (if flag_set (dec_win_ind st) VCD_SOURCE
        then src_serves file st \<and> (\<exists>s. src st = Some s \<and> 2 ^ shiftby s + length S < 2 ^ 32)
           \<and> length file < 2 ^ 63 \<and> unat (dec_cpyoff st) + length S \<le> length file
           \<and> S = take (length S) (drop (unat (dec_cpyoff st)) file)
        else S = [])"

lemma set_cpyoff_ready:
  assumes ws: "window_start tbl file S st"
    and fit: "reads_fit S (unat (dec_tgtlen st)) (sect_buf (inst_sect st)) (vrun tbl S (unat (dec_tgtlen st)) (absw st) \<noteq> None)"
  obtains st1 where "set_cpyoff st = (XD3_OK, st1)" "ready tbl S (unat (dec_tgtlen st)) st1" "absw st1 = absw st"
    "same_window st st1"
proof -
  let ?lim = "unat (dec_tgtlen st)"
  have sum: "unat (dec_cpylen st + dec_tgtlen st) = length S + ?lim"
    using ws fit by (subst unat_add_u32) (auto simp: window_start_def reads_fit_def sizes_fit_def)
  have abs: "absw (st\<lparr>src := x\<rparr>) = absw st" "same_window st (st\<lparr>src := x\<rparr>)" for x
    by (simp_all add: absw_def out_window_def same_window_def split: option.split)
  have ready: "ready tbl S ?lim (st\<lparr>src := x\<rparr>)" if "source_is S (st\<lparr>src := x\<rparr>)" for x
    using ws fit sum that abs(1) [of x] by (auto simp: ready_def win_inv_def window_start_def no_pending_def)
  show thesis
  proof (cases "flag_set (dec_win_ind st) VCD_SOURCE")
    case False
    then have "source_is S (st\<lparr>src := src st\<rparr>)" using ws by (simp add: window_start_def source_is_def)
    from ready [OF this] False show thesis by (intro that [of st]) (simp_all add: set_cpyoff_def)
  next
    case True
    then obtain s where s: "src_serves file st" "src st = Some s" "2 ^ shiftby s + length S < 2 ^ 32" "length file < 2 ^ 63"
        "unat (dec_cpyoff st) + length S \<le> length file" "S = take (length S) (drop (unat (dec_cpyoff st)) file)"
      using ws by (auto simp: window_start_def)
    obtain b off where div: "xd3_blksize_div (dec_cpyoff st) (shiftby s) (maskby s) = (b, off)" by fastforce
    let ?s = "s\<lparr>cpyoff_blocks := b, cpyoff_blkoff := off\<rparr>"
    have "src_serves file (st\<lparr>src := Some ?s\<rparr>)"
      using s(1,2) by (simp add: src_serves_def block_loaded_def cong: option.case_cong)
    moreover have "cpy_at (dec_cpyoff st) ?s" using div by (simp add: cpy_at_def)
    ultimately have "source_is S (st\<lparr>src := Some ?s\<rparr>)"
      unfolding source_is_def using s(3-6)
      by (intro disjI2 exI [of _ "file"] exI [of _ "dec_cpyoff st"] exI [of _ ?s]) simp
    from ready [OF this] True s(2) div abs show thesis
      by (intro that [of "st\<lparr>src := Some ?s\<rparr>"]) (simp_all add: set_cpyoff_def)
  qed
qed

lemma dec_emit_refines:
  assumes "window_start tbl file S st"
    and "reads_fit S (unat (dec_tgtlen st)) (sect_buf (inst_sect st)) (vrun tbl S (unat (dec_tgtlen st)) (absw st) \<noteq> None)"
  shows "case vwindow tbl S (unat (dec_tgtlen st)) (want_cksum st) (absw st) of
      None \<Rightarrow> fst (dec_emit st) = XD3_INVALID_INPUT
    | Some T \<Rightarrow> \<exists>st'. dec_emit st = (XD3_OUTPUT, st') \<and> out_window st' = T \<and> dec_state st' = DEC_FINISH
        \<and> avail_out st' = dec_tgtlen st"
proof -
  obtain st1 where s1: "set_cpyoff st = (XD3_OK, st1)" "ready tbl S (unat (dec_tgtlen st)) st1" "absw st1 = absw st"
    "same_window st st1" by (rule set_cpyoff_ready [OF assms])
  then have same: "dec_tgtlen st1 = dec_tgtlen st" "want_cksum st1 = want_cksum st"
    by (simp_all add: same_window_def want_cksum_def)
  note er = decode_emit_refines [of tbl S st1, unfolded same s1(3), OF s1(2)]
  have run: "dec_emit st = (case xd3_decode_emit st1 of
      (r, st2) \<Rightarrow> (r, if r = XD3_OUTPUT then st2\<lparr>total_out := total_out st2 + ucast (avail_out st2)\<rparr> else st2))"
    using s1(1) by (simp add: dec_emit_def bind_ok_def)
  have ow: "out_window (x\<lparr>total_out := y\<rparr>) = out_window x" for x :: "'a xd3_decoder_scheme" and y
    by (simp add: out_window_def split: option.split)
  show ?thesis
    using er unfolding run by (auto simp: ow split: option.splits prod.splits)
qed

section \<open>Properties\<close>

text \<open>C3. The decoder implements VCDIFF windows.  The hypotheses: the sections of the window are in and its buffer is set up
  (\<open>window_start\<close>), the code table is valid, the window has either no copy window or a \<open>VCD_SOURCE\<close> one whose bytes the client
  serves in full, in blocks of any power of two, and is no \<open>VCD_TARGET\<close> window; and no size that can be read from the instruction section
  carries a 32-bit sum over (\<open>sizes_fit\<close>; C35 shows that the bound check fails without it).  Then the rest of \<open>xd3_decode_input\<close> gives
  exactly what the specification of the window says: it outputs the target the instructions describe if they are valid, use up all
  sections, give the announced length and match the checksum, and returns \<open>XD3_INVALID_INPUT\<close> otherwise.  Under these hypotheses
  it never reads or writes out of bounds and never loops.\<close>

theorem decode_window_correct:
  assumes "window_start tbl file S st"
    and "sizes_fit (length S + unat (dec_tgtlen st)) (sect_buf (inst_sect st))"
  shows "case vwindow tbl S (unat (dec_tgtlen st)) (want_cksum st) (absw st) of
      None \<Rightarrow> fst (dec_emit st) = XD3_INVALID_INPUT
    | Some T \<Rightarrow> \<exists>st'. dec_emit st = (XD3_OUTPUT, st') \<and> out_window st' = T \<and> dec_state st' = DEC_FINISH
        \<and> avail_out st' = dec_tgtlen st"
  using dec_emit_refines [OF assms(1)] assms(2) by (auto simp: reads_fit_def split: option.splits)

text \<open>A copy of four bytes from a source in one block, a run of length 3 and a copy that overlaps it.\<close>

definition sample_source :: xd3_source where
  "sample_source = \<lparr>blksize = 1024, max_winsize = 1024, curblkno = 0, onblk = 6,
     curblk = Some [1, 2, 3, 4, 5, 6], srclen = 0, srcbase = 0, shiftby = 10, maskby = 1023,
     cpyoff_blocks = 0, cpyoff_blkoff = 0, getblkno = 0, max_blkno = 0, frontier_blkno = 0,
     onlastblk = 6, eof_known = True\<rparr>"

definition sample_window :: xd3_decoder where
  "sample_window = (null_decoder (null_io (\<lambda>_ _ _. True)))\<lparr>
     src := Some sample_source, acache := default_cache, dec_state := DEC_EMIT,
     code_table := Some xd3_rfc3284_code_table, dec_win_ind := VCD_SOURCE OR VCD_ADLER32,
     dec_adler32 := 0x0b98027b, dec_cpylen := 5, dec_cpyoff := 1, dec_tgtlen := 12, dec_position := 5, dec_maxpos := 17,
     dec_tgtaddrbase := (Some 0, 5), next_out := Some 0, out_heap := [0 \<mapsto> replicate 16 0],
     inst_sect := null_sect\<lparr>sect_buf := [20, 0, 3, 21]\<rparr>,
     addr_sect := null_sect\<lparr>sect_buf := [1, 9]\<rparr>,
     data_sect := null_sect\<lparr>sect_buf := [77]\<rparr>\<rparr>"

lemma rfc3284_valid: "list_all (valid_dinst 9) xd3_rfc3284_code_table"
  by code_simp

lemma sample_sizes_fit: "sizes_fit 17 [20, 0, 3, 21]"
proof -
  have "xd3_read_uint32_t s = Inr (v, rest) \<Longrightarrow> 17 + unat v < 2 ^ 32"
    if "s \<in> set (suffixes [20, 0, 3, 21])" for s v rest
    using that by (auto simp: xd3_read_uint32_t_def read_integer_type.simps shift_in_def low7_def)
  then show ?thesis by (auto simp: sizes_fit_def in_set_suffixes [symmetric])
qed

lemma sample_start: "window_start xd3_rfc3284_code_table [1, 2, 3, 4, 5, 6] [2, 3, 4, 5, 6] sample_window"
proof -
  have "\<not> flag_set (VCD_SOURCE OR VCD_ADLER32) VCD_TARGET" "flag_set (VCD_SOURCE OR VCD_ADLER32) VCD_SOURCE"
    by code_simp+
  moreover have "src_serves [1, 2, 3, 4, 5, 6] sample_window"
    by (simp add: src_serves_def sample_window_def sample_source_def null_defs block_loaded_def file_block_def)
  moreover have "TOTAL_MODES default_cache = 9" by (simp add: TOTAL_MODES_def default_cache_def)
  ultimately show ?thesis
    by (simp add: window_start_def sample_window_def no_pending_def null_defs rfc3284_length
      rfc3284_valid default_cache_wf sample_source_def)
qed

theorem decode_window_correct_witness:
  "\<exists>st'. dec_emit sample_window = (XD3_OUTPUT, st') \<and> out_window st' = [3, 4, 5, 6, 77, 77, 77, 77, 77, 77, 77, 77]
     \<and> dec_state st' = DEC_FINISH \<and> avail_out st' = 12"
proof -
  have f: "dec_tgtlen sample_window = 12" "sect_buf (inst_sect sample_window) = [20, 0, 3, 21]"
    by (simp_all add: sample_window_def)
  have v: "vwindow xd3_rfc3284_code_table [2, 3, 4, 5, 6] 12 (want_cksum sample_window) (absw sample_window) =
    Some [3, 4, 5, 6, 77, 77, 77, 77, 77, 77, 77, 77]"
  proof -
    have "want_cksum sample_window = Some 0x0b98027b" by code_simp
    moreover have "vwindow xd3_rfc3284_code_table [2, 3, 4, 5, 6] 12 None (absw sample_window) =
      Some [3, 4, 5, 6, 77, 77, 77, 77, 77, 77, 77, 77]" by code_simp
    moreover have "vadler [3, 4, 5, 6, 77, 77, 77, 77, 77, 77, 77, 77] = 0x0b98027b"
      using adler_ref_sum [of 1 0 "[3, 4, 5, 6, 77, 77, 77, 77, 77, 77, 77, 77]" "[]", symmetric]
      by (simp only: adler_sum.simps) (simp add: vadler_def del: adler_ref.simps(2))
    ultimately show ?thesis by (auto simp: vwindow_def split: option.splits if_splits)
  qed
  show ?thesis
    using decode_window_correct [OF sample_start] sample_sizes_fit v by (simp add: f)
qed

text \<open>C35. The size check of \<open>xd3_decode_parse_halfinst\<close> is a 32-bit sum and can be passed by wrapping: a RUN whose size
  carries the position over \<open>2^32\<close> to a value within the window is accepted, and executing it writes
  past the end of the output buffer.  The hypothesis on sizes of the previous property is needed.\<close>

theorem run_size_check_wraps:
  assumes "h_type inst = XD3_RUN" and "h_size inst = 0" and "xd3_read_uint32_t (sect_buf (inst_sect st)) = Inr (v, rest)"
    and "2 ^ 32 \<le> unat (dec_position st) + unat v"
    and "unat (dec_position st) + unat v - 2 ^ 32 \<le> unat (dec_maxpos st)"
    and "sect_buf (data_sect st) \<noteq> []" and "next_out st = Some h" and "out_heap st h = Some buf"
    and "length buf < unat (avail_out st) + unat v"
  shows "\<exists>st1. xd3_decode_parse_halfinst inst st = (XD3_OK, inst\<lparr>h_size := v\<rparr>, st1)
    \<and> fst (xd3_decode_output_halfinst (inst\<lparr>h_size := v\<rparr>) st1) = C_UB"
proof -
  let ?p = "dec_position st + v" and ?inst = "inst\<lparr>h_size := v\<rparr>"
  let ?st = "st\<lparr>inst_sect := (inst_sect st)\<lparr>sect_buf := rest\<rparr>, dec_position := ?p\<rparr>"
  have "unat ?p = unat (dec_position st) + unat v - 2 ^ 32"
  proof -
    have "unat ?p = (unat (dec_position st) + unat v) mod 2 ^ 32" by (simp add: unat_word_ariths)
    also have "\<dots> = (unat (dec_position st) + unat v - 2 ^ 32) mod 2 ^ 32"
      using assms(4) by (simp add: le_mod_geq)
    finally show ?thesis using unat_u32_less [of "dec_position st"] unat_u32_less [of v] by simp
  qed
  then have "\<not> ?p > dec_maxpos st" using assms(5) by (simp add: word_less_nat_alt)
  moreover have "\<not> XD3_RUN \<ge> XD3_CPY" by (simp add: inst_consts word_le_nat_alt)
  ultimately have "xd3_decode_parse_halfinst inst st = (XD3_OK, ?inst, ?st)"
    using assms(1-3) by (simp add: xd3_decode_parse_halfinst_def)
  moreover have "fst (xd3_decode_output_halfinst ?inst ?st) = C_UB"
    using assms(1,6-9) by (auto simp: xd3_decode_output_halfinst_def out_append_def split: list.split)
  ultimately show ?thesis by blast
qed

theorem run_size_check_wraps_witness:
  "\<exists>st1. xd3_decode_parse_halfinst \<lparr>h_type = XD3_RUN, h_size = 0, h_addr = 0\<rparr>
        (sample_window\<lparr>inst_sect := null_sect\<lparr>sect_buf := [0x8f, 0xff, 0xff, 0xff, 0x7e]\<rparr>\<rparr>)
      = (XD3_OK, \<lparr>h_type = XD3_RUN, h_size = 0xfffffffe, h_addr = 0\<rparr>, st1)
    \<and> fst (xd3_decode_output_halfinst \<lparr>h_type = XD3_RUN, h_size = 0xfffffffe, h_addr = 0\<rparr> st1) = C_UB"
proof -
  have "xd3_read_uint32_t [0x8f, 0xff, 0xff, 0xff, 0x7e] = Inr (0xfffffffe, [])" by code_simp
  then show ?thesis
    using run_size_check_wraps [where inst = "\<lparr>h_type = XD3_RUN, h_size = 0, h_addr = 0\<rparr>"
      and st = "sample_window\<lparr>inst_sect := null_sect\<lparr>sect_buf := [0x8f, 0xff, 0xff, 0xff, 0x7e]\<rparr>\<rparr>"
      and v = "0xfffffffe" and rest = "[]" and h = 0 and buf = "replicate 16 0"]
    by (simp add: sample_window_def null_defs)
qed

end
