(* ===== verification/Xd3_List.thy ===== *)
theory Xd3_List
  imports Xd3_Prelude
begin

text \<open>
  The circular doubly linked lists of xdelta3-list.h, as \<open>XD3_MAKELIST\<close> instantiates them for the
  instruction buffer.  A link is an address in a heap of \<open>next\<close> and \<open>prev\<close> fields; \<open>LTYPE_entry\<close>, which
  steps from a link to the structure around it, is the identity on addresses.  The lemmas relate the
  pointer operations to operations on the list of entries; the encoder theories use the latter.
\<close>

section \<open>Operations\<close>

record rheap =
  rl_next :: "nat \<Rightarrow> nat"
  rl_prev :: "nat \<Rightarrow> nat"

definition set_next :: "nat \<Rightarrow> nat \<Rightarrow> rheap \<Rightarrow> rheap" where
  "set_next a b h = h\<lparr>rl_next := (rl_next h)(a := b)\<rparr>"

definition set_prev :: "nat \<Rightarrow> nat \<Rightarrow> rheap \<Rightarrow> rheap" where
  "set_prev a b h = h\<lparr>rl_prev := (rl_prev h)(a := b)\<rparr>"

definition rlist_init :: "nat \<Rightarrow> rheap \<Rightarrow> rheap" where
  "rlist_init l h = set_prev l l (set_next l l h)"

definition rlist_add :: "nat \<Rightarrow> nat \<Rightarrow> nat \<Rightarrow> rheap \<Rightarrow> rheap" where
  "rlist_add prv nxt ins h = set_prev ins prv (set_next ins nxt (set_next prv ins (set_prev nxt ins h)))"

definition rlist_push_back :: "nat \<Rightarrow> nat \<Rightarrow> rheap \<Rightarrow> rheap" where
  "rlist_push_back l i h = rlist_add (rl_prev h l) l i h"

definition rlist_del :: "nat \<Rightarrow> nat \<Rightarrow> rheap \<Rightarrow> rheap" where
  "rlist_del nxt prv h = set_next prv nxt (set_prev nxt prv h)"

definition rlist_remove :: "nat \<Rightarrow> rheap \<Rightarrow> nat \<times> rheap" where
  "rlist_remove f h = (rl_next h f, rlist_del (rl_next h f) (rl_prev h f) h)"

definition rlist_pop_back :: "nat \<Rightarrow> rheap \<Rightarrow> nat \<times> rheap" where
  "rlist_pop_back l h = (let i = rl_prev h l in (i, rlist_del (rl_next h i) (rl_prev h i) h))"

definition rlist_pop_front :: "nat \<Rightarrow> rheap \<Rightarrow> nat \<times> rheap" where
  "rlist_pop_front l h = (let i = rl_next h l in (i, rlist_del (rl_next h i) (rl_prev h i) h))"

definition rlist_empty :: "nat \<Rightarrow> rheap \<Rightarrow> bool" where
  "rlist_empty l h \<longleftrightarrow> l = rl_next h l"

definition rlist_front :: "nat \<Rightarrow> rheap \<Rightarrow> nat" where
  "rlist_front l h = rl_next h l"

definition rlist_back :: "nat \<Rightarrow> rheap \<Rightarrow> nat" where
  "rlist_back l h = rl_prev h l"

definition rlist_end :: "nat \<Rightarrow> nat \<Rightarrow> bool" where
  "rlist_end l i \<longleftrightarrow> l = i"

definition rlist_nxt :: "nat \<Rightarrow> rheap \<Rightarrow> nat" where
  "rlist_nxt f h = rl_next h f"

text \<open>The counting loop; it does not end on a chain that never comes back to the head.\<close>

partial_function (option) rlist_count :: "nat \<Rightarrow> nat \<Rightarrow> u32 \<Rightarrow> rheap \<Rightarrow> u32 option" where
  "rlist_count l p c h = (if p = l then Some c else rlist_count l (rl_next h p) (c + 1) h)"

definition rlist_length :: "nat \<Rightarrow> rheap \<Rightarrow> u32 option" where
  "rlist_length l h = rlist_count l (rl_next h l) 0 h"

lemmas rlist_defs = rlist_init_def rlist_add_def rlist_push_back_def rlist_del_def rlist_remove_def
  rlist_pop_back_def rlist_pop_front_def rlist_empty_def rlist_front_def rlist_back_def rlist_end_def
  rlist_nxt_def set_next_def set_prev_def

section \<open>The list at a head\<close>

definition links :: "rheap \<Rightarrow> nat \<Rightarrow> nat \<Rightarrow> bool" where
  "links h a b \<longleftrightarrow> rl_next h a = b \<and> rl_prev h b = a"

definition dlist :: "rheap \<Rightarrow> nat \<Rightarrow> nat list \<Rightarrow> bool" where
  "dlist h l xs \<longleftrightarrow> distinct (l # xs) \<and> successively (links h) (l # xs @ [l])"

lemma dlist_init: "dlist (rlist_init l h) l []"
  by (simp add: dlist_def links_def rlist_defs)

text \<open>A chain does not notice changes to links outside it.\<close>

lemma chain_frame:
  assumes "successively (links h) xs"
    and "\<And>a. a \<in> set (butlast xs) \<Longrightarrow> rl_next h' a = rl_next h a"
    and "\<And>a. a \<in> set (List.tl xs) \<Longrightarrow> rl_prev h' a = rl_prev h a"
  shows "successively (links h') xs"
  using assms
proof (induction xs rule: induct_list012)
  case (3 x y zs)
  then have "successively (links h') (y # zs)"
    by (intro 3(2)) (auto split: if_splits)
  with 3 show ?case by (auto simp: links_def)
qed simp_all

lemma dlist_frame:
  assumes "dlist h m zs" and "\<And>a. a \<in> set (m # zs) \<Longrightarrow> rl_next h' a = rl_next h a \<and> rl_prev h' a = rl_prev h a"
  shows "dlist h' m zs"
  unfolding dlist_def
proof
  show "successively (links h') (m # zs @ [m])"
    by (rule chain_frame [of h]) (use assms in \<open>auto simp: dlist_def butlast_append\<close>)
qed (use assms(1) in \<open>simp add: dlist_def\<close>)

lemma dlist_prev: "dlist h l xs \<Longrightarrow> rl_prev h l = last (l # xs)"
  and dlist_next: "dlist h l xs \<Longrightarrow> rl_next h l = hd (xs @ [l])"
  by (auto simp: dlist_def successively_append_iff successively_Cons links_def split: if_splits)

lemma dlist_at:
  assumes "dlist h l (xs @ f # ys)"
  shows "rl_prev h f = last (l # xs)" and "rl_next h f = hd (ys @ [l])"
  using assms by (auto simp: dlist_def successively_append_iff successively_Cons links_def split: if_splits)

lemma last_not_before: "distinct xs \<Longrightarrow> a \<in> set (butlast xs) \<Longrightarrow> a \<noteq> last xs"
  by (cases xs rule: rev_cases) auto

lemma dlist_push_back:
  assumes "dlist h l xs" and "i \<noteq> l" and "i \<notin> set xs"
  shows "dlist (rlist_push_back l i h) l (xs @ [i])"
proof -
  let ?h = "rlist_push_back l i h" and ?t = "last (l # xs)"
  have "successively (links h) (l # xs)"
    using assms(1) by (simp add: dlist_def successively_append_iff flip: append_Cons)
  then have "successively (links ?h) (l # xs)"
  proof (rule chain_frame)
    fix a
    assume "a \<in> set (butlast (l # xs))"
    then have "a \<noteq> ?t" "a \<noteq> i"
      using assms last_not_before [of "l # xs" a] by (auto simp: dlist_def dest: in_set_butlastD split: if_splits)
    then show "rl_next ?h a = rl_next h a" using dlist_prev [OF assms(1)] by (simp add: rlist_defs)
  next
    fix a
    assume "a \<in> set (List.tl (l # xs))"
    then show "rl_prev ?h a = rl_prev h a" using assms by (auto simp: rlist_defs dlist_def)
  qed
  moreover have "links ?h ?t i" "links ?h i l"
    using assms dlist_prev [OF assms(1)] by (auto simp: links_def rlist_defs dlist_def)
  ultimately have "successively (links ?h) ((l # xs) @ [i, l])"
    by (subst successively_append_iff) simp
  then show ?thesis using assms by (simp add: dlist_def)
qed

lemma dlist_remove:
  assumes "dlist h l (xs @ f # ys)"
  shows "rlist_remove f h = (hd (ys @ [l]), snd (rlist_remove f h))"
    and "dlist (snd (rlist_remove f h)) l (xs @ ys)"
proof -
  let ?h = "snd (rlist_remove f h)" and ?p = "last (l # xs)" and ?n = "hd (ys @ [l])"
  note at = dlist_at [OF assms]
  have d: "distinct (l # xs @ f # ys)" using assms by (simp add: dlist_def)
  have c: "successively (links h) (l # xs)" "successively (links h) (ys @ [l])"
    using assms by (auto simp: dlist_def successively_append_iff successively_Cons simp flip: append_Cons split: if_splits)
  have h: "rl_next ?h = (rl_next h)(?p := ?n)" "rl_prev ?h = (rl_prev h)(?n := ?p)"
    using at by (simp_all add: rlist_defs)
  have dl: "distinct (l # xs)" using d by simp
  have "successively (links ?h) (l # xs)"
  proof (rule chain_frame [OF c(1)])
    fix a
    assume "a \<in> set (butlast (l # xs))"
    then have "a \<noteq> ?p" by (rule last_not_before [OF dl])
    then show "rl_next ?h a = rl_next h a" unfolding h by simp
  next
    fix a
    assume "a \<in> set (List.tl (l # xs))"
    then show "rl_prev ?h a = rl_prev h a" unfolding h using d by (cases ys) auto
  qed
  moreover have "successively (links ?h) (ys @ [l])"
  proof (rule chain_frame [OF c(2)])
    fix a
    assume "a \<in> set (butlast (ys @ [l]))"
    then have "a \<in> set ys" by simp
    then have "a \<noteq> ?p" using d last_in_set [of "l # xs"] by auto
    then show "rl_next ?h a = rl_next h a" unfolding h by simp
  next
    fix a
    assume "a \<in> set (List.tl (ys @ [l]))"
    then have "a \<noteq> ?n" using d by (cases ys) auto
    then show "rl_prev ?h a = rl_prev h a" unfolding h by simp
  qed
  moreover have "links ?h ?p ?n" unfolding links_def h by simp
  ultimately have "successively (links ?h) ((l # xs) @ (ys @ [l]))"
    by (subst successively_append_iff) simp
  then show "dlist ?h l (xs @ ys)" using d by (simp add: dlist_def)
  show "rlist_remove f h = (?n, ?h)" using at by (simp add: rlist_remove_def)
qed

lemma dlist_pop:
  shows "dlist h l (xs @ [f]) \<Longrightarrow> rlist_pop_back l h = (f, snd (rlist_remove f h))"
    and "dlist h l (f # xs) \<Longrightarrow> rlist_pop_front l h = (f, snd (rlist_remove f h))"
  using dlist_prev [of h l "xs @ [f]"] dlist_next [of h l "f # xs"]
  by (simp_all add: rlist_pop_back_def rlist_pop_front_def rlist_remove_def)

text \<open>Another list shares no links with this one.\<close>

lemma dlist_other:
  assumes "dlist h l xs" and "dlist h m zs" and "set (l # xs) \<inter> set (m # zs) = {}"
  shows "i \<notin> set (m # zs) \<Longrightarrow> dlist (rlist_push_back l i h) m zs"
    and "f \<in> set xs \<Longrightarrow> dlist (snd (rlist_remove f h)) m zs"
proof -
  assume i: "i \<notin> set (m # zs)"
  show "dlist (rlist_push_back l i h) m zs"
    by (rule dlist_frame [OF assms(2)])
      (use i assms(3) dlist_prev [OF assms(1)] last_in_set [of "l # xs"] in \<open>auto simp: rlist_defs\<close>)
next
  assume "f \<in> set xs"
  then obtain as bs where xs: "xs = as @ f # bs" by (meson split_list)
  note at = dlist_at [OF assms(1) [unfolded xs]]
  have "rl_prev h f \<in> set (l # xs)" "rl_next h f \<in> set (l # xs)"
    unfolding at xs using last_in_set [of "l # as"] hd_in_set [of "bs @ [l]"] by auto
  then show "dlist (snd (rlist_remove f h)) m zs"
    using assms(3) by (intro dlist_frame [OF assms(2)]) (auto simp: rlist_defs)
qed

lemma rlist_count_chain:
  "successively (links h) (p # ps @ [l]) \<Longrightarrow> l \<notin> set (p # ps) \<Longrightarrow>
   rlist_count l p c h = Some (c + of_nat (length (p # ps)))"
proof (induction ps arbitrary: p c)
  case Nil
  then show ?case by (simp add: rlist_count.simps links_def)
next
  case (Cons q ps)
  then have "rlist_count l p c h = rlist_count l q (c + 1) h"
    by (subst rlist_count.simps) (auto simp: links_def)
  then show ?case using Cons by (simp add: ac_simps)
qed

lemma dlist_length: "dlist h l xs \<Longrightarrow> rlist_length l h = Some (of_nat (length xs))"
  using dlist_next [of h l xs] rlist_count_chain [of h "hd xs" "List.tl xs" l 0]
  by (cases xs) (auto simp: rlist_length_def rlist_count.simps dlist_def)

section \<open>Interface\<close>

text \<open>What a pair of lists over one pool of entries promises its client: adding at the end and taking out
  any entry act on the list at the head and leave the other alone.\<close>

locale linked_lists =
  fixes R :: "'h \<Rightarrow> 'p \<Rightarrow> 'p list \<Rightarrow> bool"
    and push :: "'p \<Rightarrow> 'p \<Rightarrow> 'h \<Rightarrow> 'h"
    and rem :: "'p \<Rightarrow> 'h \<Rightarrow> 'p \<times> 'h"
  assumes push_law: "R h l xs \<Longrightarrow> i \<notin> set (l # xs) \<Longrightarrow> R (push l i h) l (xs @ [i])"
    and push_other: "R h l xs \<Longrightarrow> R h m zs \<Longrightarrow> set (l # xs) \<inter> set (m # zs) = {} \<Longrightarrow> i \<notin> set (m # zs) \<Longrightarrow> R (push l i h) m zs"
    and rem_law: "R h l (xs @ f # ys) \<Longrightarrow> R (snd (rem f h)) l (xs @ ys)"
    and rem_next: "R h l (xs @ f # ys) \<Longrightarrow> fst (rem f h) = hd (ys @ [l])"
    and rem_other: "R h l xs \<Longrightarrow> R h m zs \<Longrightarrow> set (l # xs) \<inter> set (m # zs) = {} \<Longrightarrow> f \<in> set xs \<Longrightarrow> R (snd (rem f h)) m zs"
    and entries: "R h l xs \<Longrightarrow> distinct (l # xs)"
begin

text \<open>Moving an entry from one list to the end of the other.\<close>

lemma move_entry:
  assumes "R h u (xs @ f # ys)" and "R h v zs" and "set (u # xs @ f # ys) \<inter> set (v # zs) = {}"
  shows "R (push v f (snd (rem f h))) u (xs @ ys)" and "R (push v f (snd (rem f h))) v (zs @ [f])"
proof -
  have 1: "R (snd (rem f h)) u (xs @ ys)" by (rule rem_law [OF assms(1)])
  have 2: "R (snd (rem f h)) v zs" by (rule rem_other [OF assms(1,2,3)]) simp
  have f: "f \<notin> set (v # zs)" "f \<notin> set (u # xs @ ys)" using assms(3) entries [OF assms(1)] by auto
  have dj: "set (v # zs) \<inter> set (u # xs @ ys) = {}" using assms(3) by auto
  show "R (push v f (snd (rem f h))) u (xs @ ys)" by (rule push_other [OF 2 1 dj f(2)])
  show "R (push v f (snd (rem f h))) v (zs @ [f])" by (rule push_law [OF 2 f(1)])
qed

end

interpretation rl: linked_lists dlist rlist_push_back rlist_remove
proof
  fix h l m f i and xs ys zs :: "nat list"
  show "dlist h l xs \<Longrightarrow> i \<notin> set (l # xs) \<Longrightarrow> dlist (rlist_push_back l i h) l (xs @ [i])"
    by (auto intro: dlist_push_back)
  show "dlist h l xs \<Longrightarrow> dlist h m zs \<Longrightarrow> set (l # xs) \<inter> set (m # zs) = {} \<Longrightarrow> i \<notin> set (m # zs) \<Longrightarrow>
      dlist (rlist_push_back l i h) m zs"
    by (rule dlist_other(1))
  show "dlist h l (xs @ f # ys) \<Longrightarrow> dlist (snd (rlist_remove f h)) l (xs @ ys)" by (rule dlist_remove(2))
  show "dlist h l (xs @ f # ys) \<Longrightarrow> fst (rlist_remove f h) = hd (ys @ [l])"
    using dlist_remove(1) by (metis fst_conv)
  show "dlist h l xs \<Longrightarrow> dlist h m zs \<Longrightarrow> set (l # xs) \<inter> set (m # zs) = {} \<Longrightarrow> f \<in> set xs \<Longrightarrow>
      dlist (snd (rlist_remove f h)) m zs"
    by (rule dlist_other(2))
  show "dlist h l xs \<Longrightarrow> distinct (l # xs)" by (simp add: dlist_def)
qed

section \<open>Properties\<close>

text \<open>C36. The pointer lists implement lists.  On a well-linked list with entries \<open>xs @ [f] @ ys\<close>,
  \<open>_remove\<close> takes out \<open>f\<close> and returns its successor or the head; \<open>_push_back\<close> appends; the pops return
  and take out the two ends; \<open>_empty\<close>, \<open>_front\<close>, \<open>_back\<close>, \<open>_next\<close> and \<open>_end\<close> look where they should;
  \<open>_length\<close> ends with the number of entries (modulo \<open>2^32\<close>); \<open>_init\<close> gives the empty list.\<close>

theorem rlist_implements_list:
  assumes "dlist h l (xs @ f # ys)" and "i \<noteq> l" and "i \<notin> set (xs @ f # ys)"
  shows "fst (rlist_remove f h) = hd (ys @ [l]) \<and> dlist (snd (rlist_remove f h)) l (xs @ ys)
    \<and> dlist (rlist_push_back l i h) l (xs @ f # ys @ [i])
    \<and> (ys = [] \<longrightarrow> rlist_pop_back l h = (f, snd (rlist_remove f h)))
    \<and> (xs = [] \<longrightarrow> rlist_pop_front l h = (f, snd (rlist_remove f h)))
    \<and> \<not> rlist_empty l h \<and> rlist_empty l (rlist_init l h) \<and> dlist (rlist_init l h) l []
    \<and> rlist_front l h = hd (xs @ [f]) \<and> rlist_back l h = last (f # ys)
    \<and> rlist_nxt f h = hd (ys @ [l]) \<and> (rlist_end l (rlist_nxt f h) \<longleftrightarrow> ys = [])
    \<and> rlist_length l h = Some (of_nat (length (xs @ f # ys)))"
proof -
  have d: "l \<notin> set (xs @ f # ys)" using assms(1) by (simp add: dlist_def)
  have "fst (rlist_remove f h) = hd (ys @ [l])" "dlist (snd (rlist_remove f h)) l (xs @ ys)"
    using rl.rem_next [OF assms(1)] rl.rem_law [OF assms(1)] by simp_all
  moreover have "dlist (rlist_push_back l i h) l (xs @ f # ys @ [i])" using dlist_push_back [OF assms] by simp
  moreover have "ys = [] \<longrightarrow> rlist_pop_back l h = (f, snd (rlist_remove f h))"
    "xs = [] \<longrightarrow> rlist_pop_front l h = (f, snd (rlist_remove f h))"
    using assms(1) dlist_pop(1) [of h l xs f] dlist_pop(2) [of h l f ys] by auto
  moreover have "rlist_empty l (rlist_init l h)" "dlist (rlist_init l h) l []" using dlist_init by (simp_all add: rlist_empty_def rlist_init_def set_next_def set_prev_def)
  moreover have "\<not> rlist_empty l h" "rlist_front l h = hd (xs @ [f])"
    using dlist_next [OF assms(1)] d by (cases xs; auto simp: rlist_defs)+
  moreover have "rlist_back l h = last (f # ys)" using dlist_prev [OF assms(1)] by (simp add: rlist_back_def)
  moreover have "rlist_nxt f h = hd (ys @ [l])" "rlist_end l (rlist_nxt f h) \<longleftrightarrow> ys = []"
    using dlist_at(2) [OF assms(1)] d by (cases ys; auto simp: rlist_defs)+
  moreover have "rlist_length l h = Some (of_nat (length (xs @ f # ys)))" by (rule dlist_length [OF assms(1)])
  ultimately show ?thesis by blast
qed

text \<open>A heap with the list of entries 1 and 2 at head 0.\<close>

definition sample_heap :: rheap where
  "sample_heap = rlist_push_back 0 2 (rlist_push_back 0 1 (rlist_init 0 \<lparr>rl_next = id, rl_prev = id\<rparr>))"

lemma sample_heap_list: "dlist sample_heap 0 [1, 2]"
  using dlist_push_back [OF dlist_push_back [OF dlist_init [of 0 "\<lparr>rl_next = id, rl_prev = id\<rparr>"]], of 1 2]
  by (simp add: sample_heap_def)

theorem rlist_implements_list_witness:
  "rlist_remove 1 sample_heap = (2, snd (rlist_remove 1 sample_heap)) \<and> dlist (snd (rlist_remove 1 sample_heap)) 0 [2]
    \<and> rlist_pop_front 0 sample_heap = (1, snd (rlist_remove 1 sample_heap))
    \<and> rlist_back 0 sample_heap = 2 \<and> rlist_length 0 sample_heap = Some 2"
  using rlist_implements_list [of sample_heap 0 "[]" 1 "[2]" 3] sample_heap_list
  by (auto simp: prod_eq_iff)

text \<open>C37. Taking an entry out of one list and appending it to another, as \<open>xd3_iopt_free\<close> does with the used and
  the free instruction slots, moves exactly that entry and leaves both lists well linked.\<close>

theorem rlist_moves_entry:
  assumes "dlist h u (xs @ f # ys)" and "dlist h v zs" and "set (u # xs @ f # ys) \<inter> set (v # zs) = {}"
  shows "dlist (rlist_push_back v f (snd (rlist_remove f h))) u (xs @ ys)
    \<and> dlist (rlist_push_back v f (snd (rlist_remove f h))) v (zs @ [f])"
  using rl.move_entry [OF assms] by simp

theorem rlist_moves_entry_witness:
  "dlist (rlist_push_back 7 1 (snd (rlist_remove 1 (rlist_init 7 sample_heap)))) 0 [2]
    \<and> dlist (rlist_push_back 7 1 (snd (rlist_remove 1 (rlist_init 7 sample_heap)))) 7 [1]"
proof -
  have "dlist (rlist_init 7 sample_heap) 0 ([] @ 1 # [2])"
    unfolding append_Nil by (rule dlist_frame [OF sample_heap_list]) (auto simp: rlist_defs)
  from rlist_moves_entry [OF this dlist_init] show ?thesis by simp
qed

end
