(* ===== verification/Xd3_Encoder.thy ===== *)
theory Xd3_Encoder
  imports Xd3_Decode Xd3_Hash
begin

text \<open>
  The encoder's state and its instruction buffer (xdelta3.c, "Encoder stuff" and "Emit routines").
  String matching enters potential RUN and COPY instructions into the buffer \<open>iopt_used\<close>; flushing it
  resolves overlaps, puts ADD instructions into the gaps and writes opcodes, data and addresses to the
  three sections of the window.

  The two rlists are lists of instructions by value: an \<open>xd3_rinst\<close> is in the used list, in the free
  list or the pending instruction \<open>iout\<close>, so no instruction has two owners (the pointer operations are
  in the theory of xdelta3-list.h).  The four output sections of \<open>enc_heads\<close> and \<open>enc_tails\<close> are page
  chains.  While encoding, \<open>next_out\<close> points into a page; its bytes are \<open>enc_next_out\<close>.  Secondary
  compression is not compiled in.
\<close>

section \<open>State\<close>

record xd3_smatcher =
  sm_name :: string
  large_look :: u32
  large_step :: u32
  small_look :: u32
  small_chain :: u32
  small_lchain :: u32
  max_lazy :: u32
  long_enough :: u32

datatype xd3_match_state = MATCH_TARGET | MATCH_BACKWARD | MATCH_FORWARD | MATCH_SEARCHING

record xd3_stats =
  n_scpy :: u64
  n_tcpy :: u64
  n_add :: u64
  n_run :: u64
  l_scpy :: u64
  l_tcpy :: u64
  l_add :: u64
  l_run :: u64

record xd3_enccfg = xd3_decoder +
  sprevsz :: u32
  sprevmask :: u32
  iopt_size :: u32
  iopt_unlimited :: bool
  smatcher :: xd3_smatcher
  code_table_desc :: "xd3_code_table_desc option"
  large_table :: "u32 list option"
  large_hash :: xd3_hash_cfg
  small_table :: "u32 list option"
  small_prev :: "u32 list option"
  small_reset :: bool
  small_hash :: xd3_hash_cfg

record xd3_matching = xd3_enccfg +
  taroff :: u32
  input_position :: u32
  min_match :: u32
  unencoded_offset :: u32
  srcwin_decided :: bool
  srcwin_decided_early :: bool
  srcwin_cksum_pos :: u64
  match_state :: xd3_match_state
  match_srcpos :: u64
  match_last_srcpos :: u64
  match_minaddr :: u64
  match_maxaddr :: u64
  match_back :: u32
  match_maxback :: u32
  match_fwd :: u32
  match_maxfwd :: u32
  maxsrcaddr :: u64

record xd3_stream = xd3_matching +
  buf_in :: "u8 list option"
  buf_avail :: u32
  buf_leftover :: "u8 list option"
  buf_leftavail :: u32
  enc_current :: "xd3_output list"
  enc_next_out :: "u8 list"
  hdr_out :: "xd3_output list"
  data_out :: "xd3_output list"
  inst_out :: "xd3_output list"
  addr_out :: "xd3_output list"
  recode_adler32 :: u32
  iopt_used :: "xd3_rinst list"
  iopt_free :: "xd3_rinst list"
  iout :: "xd3_rinst option"
  iopt_alloc :: nat
  enc_appheader :: "u8 list option"
  enc_appheadsz :: u32
  stats :: xd3_stats
  i_slots_used :: u32

definition XD3_MAX_MATCH_SPLIT :: u32 where "XD3_MAX_MATCH_SPLIT = 18"
definition LEAST_MATCH_INCR :: u32 where "LEAST_MATCH_INCR = 0"
definition MIN_RUN :: u32 where "MIN_RUN = 8"
definition HASH_CKOFFSET :: u32 where "HASH_CKOFFSET = 1"

text \<open>The size of an \<open>xd3_rinst\<close> with 64-bit pointers.\<close>

definition sizeof_rinst :: u32 where "sizeof_rinst = 40"

section \<open>Emitting to a section\<close>

definition to_hdr :: "(xd3_output list \<Rightarrow> xd3_stream \<Rightarrow> xd3_ret \<times> xd3_output list \<times> xd3_stream) \<Rightarrow> xd3_stream \<Rightarrow> xd3_ret \<times> xd3_stream" where
  "to_hdr f st = (case f (hdr_out st) st of (r, out, st1) \<Rightarrow> (r, st1\<lparr>hdr_out := out\<rparr>))"
definition to_data :: "(xd3_output list \<Rightarrow> xd3_stream \<Rightarrow> xd3_ret \<times> xd3_output list \<times> xd3_stream) \<Rightarrow> xd3_stream \<Rightarrow> xd3_ret \<times> xd3_stream" where
  "to_data f st = (case f (data_out st) st of (r, out, st1) \<Rightarrow> (r, st1\<lparr>data_out := out\<rparr>))"
definition to_inst :: "(xd3_output list \<Rightarrow> xd3_stream \<Rightarrow> xd3_ret \<times> xd3_output list \<times> xd3_stream) \<Rightarrow> xd3_stream \<Rightarrow> xd3_ret \<times> xd3_stream" where
  "to_inst f st = (case f (inst_out st) st of (r, out, st1) \<Rightarrow> (r, st1\<lparr>inst_out := out\<rparr>))"
definition to_addr :: "(xd3_output list \<Rightarrow> xd3_stream \<Rightarrow> xd3_ret \<times> xd3_output list \<times> xd3_stream) \<Rightarrow> xd3_stream \<Rightarrow> xd3_ret \<times> xd3_stream" where
  "to_addr f st = (case f (addr_out st) st of (r, out, st1) \<Rightarrow> (r, st1\<lparr>addr_out := out\<rparr>))"

definition emit_byte_to :: "u8 \<Rightarrow> xd3_output list \<Rightarrow> xd3_stream \<Rightarrow> xd3_ret \<times> xd3_output list \<times> xd3_stream" where
  "emit_byte_to b out st = xd3_emit_byte out b st"
definition emit_bytes_to :: "u8 list \<Rightarrow> xd3_output list \<Rightarrow> xd3_stream \<Rightarrow> xd3_ret \<times> xd3_output list \<times> xd3_stream" where
  "emit_bytes_to bs out st = xd3_emit_bytes out bs st"

text \<open>\<open>xd3_emit_size\<close> and \<open>xd3_emit_offset\<close> are the 32- and 64-bit integers.\<close>

definition xd3_emit_size :: "u32 \<Rightarrow> xd3_output list \<Rightarrow> xd3_stream \<Rightarrow> xd3_ret \<times> xd3_output list \<times> xd3_stream" where
  "xd3_emit_size n out st = xd3_emit_uint32_t out n st"
definition xd3_emit_offset :: "u64 \<Rightarrow> xd3_output list \<Rightarrow> xd3_stream \<Rightarrow> xd3_ret \<times> xd3_output list \<times> xd3_stream" where
  "xd3_emit_offset n out st = xd3_emit_uint64_t out n st"

text \<open>\<open>xd3_encode_address (stream, addr, here, & type)\<close>: the type comes back with the mode added.\<close>

definition xd3_encode_address :: "u32 \<Rightarrow> u32 \<Rightarrow> u8 \<Rightarrow> xd3_stream \<Rightarrow> xd3_ret \<times> u8 \<times> xd3_stream" where
  "xd3_encode_address addr here t st =
    (case encode_address_choose (acache st) addr here of
       None \<Rightarrow> (C_UB, t, st)
     | Some (same, bestd, bestm) \<Rightarrow>
        (case to_addr (if same then emit_byte_to (ucast bestd) else xd3_emit_size bestd) st of
           (r, st1) \<Rightarrow>
             if r \<noteq> XD3_OK then (r, t, st1)
             else (case xd3_update_cache (acache st1) addr of
                     None \<Rightarrow> (C_UB, t, st1)
                   | Some ac \<Rightarrow> (XD3_OK, t + ucast bestm, st1\<lparr>acache := ac\<rparr>))))"

definition xd3_emit_single :: "xd3_rinst \<Rightarrow> u8 \<Rightarrow> xd3_stream \<Rightarrow> xd3_ret \<times> xd3_stream" where
  "xd3_emit_single single code st =
    (case arr_get (code_table st) (unat code) of
       None \<Rightarrow> (C_UB, st)
     | Some d \<Rightarrow>
        bind_ok (to_inst (emit_byte_to code) st)
          (\<lambda>st1. if size1 d = 0 then to_inst (xd3_emit_size (r_size single)) st1 else (XD3_OK, st1)))"

definition xd3_emit_double :: "xd3_rinst \<Rightarrow> xd3_rinst \<Rightarrow> u8 \<Rightarrow> xd3_stream \<Rightarrow> xd3_ret \<times> xd3_stream" where
  "xd3_emit_double first second code st = to_inst (emit_byte_to code) st"

section \<open>The source window\<close>

definition xd3_encoder_used_source :: "xd3_stream \<Rightarrow> bool" where
  "xd3_encoder_used_source st \<longleftrightarrow> (case src st of None \<Rightarrow> False | Some s \<Rightarrow> srclen s > 0)"

definition xd3_srcwin_setup :: "xd3_stream \<Rightarrow> xd3_ret \<times> xd3_stream" where
  "xd3_srcwin_setup st =
    (case src st of
       None \<Rightarrow> (C_UB, st)
     | Some s \<Rightarrow>
        (let st1 = st\<lparr>srcwin_decided := True\<rparr>;
             wlen = match_maxaddr st - match_minaddr st;
             finish = (\<lambda>s'. (XD3_OK, st1\<lparr>src := Some s', taroff := srclen s'\<rparr>)) in
         if enc_state st = ENC_INSTR \<and> match_maxaddr st = 0 then finish s
         else if wlen > ucast USIZE_T_MAX
           then fail_with XD3_INTERNAL ''source window length overflow (not 64bit)'' st1
         else if enc_state st = ENC_INSTR then finish (s\<lparr>srcbase := match_minaddr st, srclen := ucast wlen\<rparr>)
         else finish (s\<lparr>srcbase := match_minaddr st,
                srclen := max (ucast wlen) (avail_in st + drop_bit 2 (avail_in st))\<rparr>)))"

section \<open>Encoding an instruction\<close>

definition xd3_iopt_free_nonadd :: "xd3_rinst \<Rightarrow> xd3_stream \<Rightarrow> xd3_stream" where
  "xd3_iopt_free_nonadd i st = (if r_type i \<noteq> XD3_ADD then st\<lparr>iopt_free := iopt_free st @ [i]\<rparr> else st)"

text \<open>The address part of a COPY: the source window is decided, and the address is made relative to it.\<close>

definition copy_address :: "xd3_rinst \<Rightarrow> xd3_stream \<Rightarrow> xd3_ret \<times> u32 \<times> xd3_stream" where
  "copy_address inst st =
    (case src st of
       None \<Rightarrow> (XD3_OK, ucast (r_addr inst),
          st\<lparr>stats := (stats st)\<lparr>n_tcpy := n_tcpy (stats st) + 1, l_tcpy := l_tcpy (stats st) + ucast (r_size inst)\<rparr>\<rparr>)
     | Some s \<Rightarrow>
        (case (if \<not> srcwin_decided st then xd3_srcwin_setup st
               else (XD3_OK, st\<lparr>srcwin_decided_early := (\<not> eof_known s \<or> srcwin_cksum_pos st < xd3_source_eof s)\<rparr>)) of
           (r, st1) \<Rightarrow>
             if r \<noteq> XD3_OK then (r, 0, st1)
             else if r_xtra inst \<noteq> 0 then
               (case src st1 of
                  None \<Rightarrow> (C_UB, 0, st1)
                | Some s1 \<Rightarrow> (XD3_OK, ucast (r_addr inst - srcbase s1),
                    st1\<lparr>stats := (stats st1)\<lparr>n_scpy := n_scpy (stats st1) + 1, l_scpy := l_scpy (stats st1) + ucast (r_size inst)\<rparr>\<rparr>))
             else (XD3_OK, taroff st1 + ucast (r_addr inst),
                    st1\<lparr>stats := (stats st1)\<lparr>n_tcpy := n_tcpy (stats st1) + 1, l_tcpy := l_tcpy (stats st1) + ucast (r_size inst)\<rparr>\<rparr>)))"

text \<open>The first half of \<open>xd3_iopt_finish_encoding\<close>: the data or the address of the instruction.\<close>

definition encode_operand :: "xd3_rinst \<Rightarrow> xd3_stream \<Rightarrow> xd3_ret \<times> xd3_rinst \<times> xd3_stream" where
  "encode_operand inst st =
    (if r_type inst = XD3_CPY then
       (case copy_address inst st of
          (r, addr, st1) \<Rightarrow>
            if r \<noteq> XD3_OK then (r, inst, st1)
            else (case xd3_encode_address addr (r_pos inst + taroff st1) (r_type inst) st1 of
                    (r2, t, st2) \<Rightarrow> (r2, inst\<lparr>r_type := t\<rparr>, st2)))
     else if r_type inst = XD3_RUN then
       (case to_data (emit_byte_to (r_xtra inst)) st of
          (r, st1) \<Rightarrow>
            if r \<noteq> XD3_OK then (r, inst, st1)
            else (XD3_OK, inst,
              st1\<lparr>stats := (stats st1)\<lparr>n_run := n_run (stats st1) + 1, l_run := l_run (stats st1) + ucast (r_size inst)\<rparr>\<rparr>))
     else if r_type inst = XD3_ADD then
       (if length (next_in st) < unat (r_pos inst) + unat (r_size inst) then (C_UB, inst, st)
        else
          (case to_data (emit_bytes_to (take (unat (r_size inst)) (drop (unat (r_pos inst)) (next_in st)))) st of
             (r, st1) \<Rightarrow>
               if r \<noteq> XD3_OK then (r, inst, st1)
               else (XD3_OK, inst,
                 st1\<lparr>stats := (stats st1)\<lparr>n_add := n_add (stats st1) + 1, l_add := l_add (stats st1) + ucast (r_size inst)\<rparr>\<rparr>)))
     else (XD3_OK, inst, st))"

definition xd3_iopt_finish_encoding :: "xd3_rinst \<Rightarrow> xd3_stream \<Rightarrow> xd3_ret \<times> xd3_stream" where
  "xd3_iopt_finish_encoding inst0 st0 =
    (case encode_operand inst0 st0 of
       (r, inst1, st1) \<Rightarrow>
         if r \<noteq> XD3_OK then (r, st1)
         else
           let st2 = st1\<lparr>unencoded_offset := unencoded_offset st1 + r_size inst1\<rparr> in
           case xd3_choose_instruction (iout st2) (inst1\<lparr>r_code2 := 0\<rparr>) of
             (prev, inst) \<Rightarrow>
               (case prev of
                  None \<Rightarrow> (XD3_OK, st2\<lparr>iout := Some inst\<rparr>)
                | Some p \<Rightarrow>
                   let st3 = st2\<lparr>iout := Some p\<rparr> in
                   if r_code2 p \<noteq> 0 then
                     bind_ok (xd3_emit_double p inst (r_code2 p) st3)
                       (\<lambda>st4. (XD3_OK, (xd3_iopt_free_nonadd inst (xd3_iopt_free_nonadd p st4))\<lparr>iout := None\<rparr>))
                   else
                     bind_ok (xd3_emit_single p (r_code1 p) st3)
                       (\<lambda>st4. (XD3_OK, (xd3_iopt_free_nonadd p st4)\<lparr>iout := Some inst\<rparr>))))"

text \<open>The ADD on the stack has its type, position and size set; the other fields are not read.\<close>

definition stack_add :: "u32 \<Rightarrow> u32 \<Rightarrow> xd3_rinst" where
  "stack_add pos n = \<lparr>r_type = XD3_ADD, r_xtra = 0, r_code1 = 0, r_code2 = 0, r_pos = pos, r_size = n, r_addr = 0\<rparr>"

definition xd3_iopt_add :: "u32 \<Rightarrow> xd3_stream \<Rightarrow> xd3_ret \<times> xd3_stream" where
  "xd3_iopt_add pos st =
    (let off = unencoded_offset st in
     if pos > off then xd3_iopt_finish_encoding (stack_add off (pos - off)) st else (XD3_OK, st))"

definition xd3_iopt_add_encoding :: "xd3_rinst \<Rightarrow> xd3_stream \<Rightarrow> xd3_ret \<times> xd3_stream" where
  "xd3_iopt_add_encoding inst st = bind_ok (xd3_iopt_add (r_pos inst) st) (xd3_iopt_finish_encoding inst)"

definition xd3_iopt_add_finalize :: "xd3_stream \<Rightarrow> xd3_ret \<times> xd3_stream" where
  "xd3_iopt_add_finalize st =
    bind_ok (xd3_iopt_add (avail_in st) st)
      (\<lambda>st1. case iout st1 of
         None \<Rightarrow> (XD3_OK, st1)
       | Some p \<Rightarrow> bind_ok (xd3_emit_single p (r_code1 p) st1)
           (\<lambda>st2. (XD3_OK, (xd3_iopt_free_nonadd p st2)\<lparr>iout := None\<rparr>)))"

end
