(* ===== verification/Xd3_Iopt.thy ===== *)
theory Xd3_Iopt
  imports Xd3_Encoder
begin

text \<open>
  The instruction buffer: resolving overlaps and flushing (\<open>xd3_iopt_flush_instructions\<close>), slots,
  erasing covered instructions, and entering runs and matches.
\<close>

section \<open>Overlaps\<close>

text \<open>Shortening one or both of two overlapping instructions so that they meet.\<close>

definition iopt_split :: "xd3_rinst \<Rightarrow> xd3_rinst \<Rightarrow> xd3_rinst \<times> xd3_rinst" where
  "iopt_split r1 r2 =
    (let r1end = r_pos r1 + r_size r1;
         r2end = r_pos r2 + r_size r2;
         gap = r2end - r_pos r1;
         average = gap div 2;
         newsize = min XD3_MAX_MATCH_SPLIT (gap - average);
         (r1', adjust1) =
           (if newsize > r_size r1 then (r1, r1end - r_pos r2)
            else if newsize > r_size r2 then (r1\<lparr>r_size := r_size r1 - (r1end - r_pos r2)\<rparr>, 0)
            else
              let a = r_size r1 - newsize;
                  a' = (if r_pos r2 > r1end - a then a - (r_pos r2 - (r1end - a)) else a);
                  r = r1\<lparr>r_size := r_size r1 - a'\<rparr> in
              (r, r_pos r + r_size r - r_pos r2))
     in (r1', r2\<lparr>r_size := r_size r2 - adjust1, r_pos := r_pos r2 + adjust1, r_addr := r_addr r2 + ucast adjust1\<rparr>))"

text \<open>The walk over the used list: \<open>pre\<close> holds the instructions before \<open>r1\<close>, the last argument is \<open>r1\<close>
  and what follows it.  The result is the list and the instructions freed, in the order in which they
  go to the free list.\<close>

function iopt_resolve :: "bool \<Rightarrow> xd3_rinst list \<Rightarrow> xd3_rinst list \<Rightarrow> xd3_rinst list \<times> xd3_rinst list" where
  "iopt_resolve force pre [] = (pre, [])"
| "iopt_resolve force pre [r1] = (pre @ [r1], [])"
| "iopt_resolve force pre (r1 # r2 # rest) =
    (let r1end = r_pos r1 + r_size r1 in
     if r1end \<le> r_pos r2 then iopt_resolve force (pre @ [r1]) (r2 # rest)
     else
       let r2end = r_pos r2 + r_size r2 in
       if rest \<noteq> [] \<and> r_pos (hd rest) \<le> r1end + 1 then
         (case iopt_resolve force pre (r1 # rest) of (used, fr) \<Rightarrow> (used, r2 # fr))
       else if rest = [] \<and> \<not> force then (pre @ r1 # r2 # rest, [])
       else
         let r2off = r_pos r2 - r_pos r1; r2moff = r2end - r1end; gap = r2end - r_pos r1 in
         if gap < 2 * of_nat MIN_MATCH \<or> r2moff \<le> 2 \<or> r2off \<le> 2 then
           (if r_size r1 < r_size r2
            then (case iopt_resolve force pre (r2 # rest) of (used, fr) \<Rightarrow> (used, r1 # fr))
            else (case iopt_resolve force (pre @ [r1]) rest of (used, fr) \<Rightarrow> (used, r2 # fr)))
         else
           (case iopt_split r1 r2 of (r1', r2') \<Rightarrow> iopt_resolve force (pre @ [r1']) (r2' # rest)))"
  by pat_completeness auto
termination by (relation "measure (\<lambda>(force, pre, xs). length xs)") auto

section \<open>Flushing\<close>

text \<open>The \<open>for\<close> loop that pops and encodes; the last argument but one is \<open>iopt_used\<close>.\<close>

fun iopt_flush_loop :: "bool \<Rightarrow> u32 \<Rightarrow> xd3_rinst list \<Rightarrow> xd3_stream \<Rightarrow> xd3_ret \<times> xd3_stream" where
  "iopt_flush_loop force flushed [] st = (XD3_OK, st\<lparr>iopt_used := []\<rparr>)"
| "iopt_flush_loop force flushed (renc # rest) st =
    bind_ok (xd3_iopt_add_encoding renc (st\<lparr>iopt_used := rest\<rparr>))
      (\<lambda>st1. if \<not> force \<and> (flushed + 1 > iopt_size st1 div 2 \<or> length rest < 3) then (XD3_OK, st1)
             else iopt_flush_loop force (flushed + 1) rest st1)"

definition xd3_iopt_flush_instructions :: "bool \<Rightarrow> xd3_stream \<Rightarrow> xd3_ret \<times> xd3_stream" where
  "xd3_iopt_flush_instructions force st =
    (case iopt_resolve force [] (iopt_used st) of
       (used, fr) \<Rightarrow> iopt_flush_loop force 0 used (st\<lparr>iopt_used := used, iopt_free := iopt_free st @ fr\<rparr>))"

section \<open>Slots\<close>

text \<open>An instruction in freshly allocated memory.\<close>

definition fresh_rinst :: "'a xd3_base_scheme \<Rightarrow> xd3_rinst" where
  "fresh_rinst st = \<lparr>r_type = uninit st 0, r_xtra = uninit st 1, r_code1 = uninit st 2, r_code2 = uninit st 3,
     r_pos = ucast (uninit st 4), r_size = ucast (uninit st 8), r_addr = ucast (uninit st 16)\<rparr>"

definition xd3_alloc_iopt :: "u32 \<Rightarrow> xd3_stream \<Rightarrow> xd3_ret \<times> xd3_stream" where
  "xd3_alloc_iopt elts st =
    (case xd3_alloc 16 1 st of
       (False, st1) \<Rightarrow> (ENOMEM, st1)
     | (True, st1) \<Rightarrow>
        (case xd3_alloc sizeof_rinst elts st1 of
           (False, st2) \<Rightarrow> (ENOMEM, st2)
         | (True, st2) \<Rightarrow>
            (XD3_OK, st2\<lparr>iopt_alloc := Suc (iopt_alloc st2),
               iopt_free := iopt_free st2 @ replicate (unat elts) (fresh_rinst st2)\<rparr>)))"

text \<open>The slot is the last element of \<open>iopt_used\<close> afterwards.\<close>

definition xd3_iopt_get_slot :: "xd3_stream \<Rightarrow> xd3_ret \<times> xd3_stream" where
  "xd3_iopt_get_slot st =
    bind_ok
      (if iopt_free st = [] then
         (if iopt_unlimited st then
            (let elts = XD3_ALLOCSIZE div sizeof_rinst in
             bind_ok (xd3_alloc_iopt elts st) (\<lambda>st1. (XD3_OK, st1\<lparr>iopt_size := iopt_size st1 + elts\<rparr>)))
          else xd3_iopt_flush_instructions False st)
       else (XD3_OK, st))
      (\<lambda>st1. if iopt_free st1 = [] then (C_UB, st1)
        else (XD3_OK, st1\<lparr>iopt_used := iopt_used st1 @ [last (iopt_free st1)], iopt_free := butlast (iopt_free st1),
                i_slots_used := i_slots_used st1 + 1\<rparr>))"

text \<open>The loop of \<open>xd3_iopt_erase\<close>, from the back of the used list; with the number of instructions erased.\<close>

function iopt_erase_loop :: "u32 \<Rightarrow> xd3_rinst list \<Rightarrow> xd3_rinst list \<Rightarrow> xd3_rinst list \<times> xd3_rinst list" where
  "iopt_erase_loop pos used fr =
    (if used = [] \<or> r_pos (last used) < pos then (used, fr)
     else iopt_erase_loop pos (butlast used) (fr @ [last used]))"
  by pat_completeness auto
termination by (relation "measure (\<lambda>(pos, used, fr). length used)") auto

declare iopt_erase_loop.simps [simp del]

definition xd3_iopt_erase :: "u32 \<Rightarrow> u32 \<Rightarrow> xd3_stream \<Rightarrow> xd3_stream" where
  "xd3_iopt_erase pos sz st =
    (case iopt_erase_loop pos (iopt_used st) [] of
       (used, fr) \<Rightarrow> st\<lparr>iopt_used := used, iopt_free := iopt_free st @ fr,
                       i_slots_used := i_slots_used st - of_nat (length fr)\<rparr>)"

definition xd3_iopt_last_matched :: "xd3_stream \<Rightarrow> u32" where
  "xd3_iopt_last_matched st =
    (if iopt_used st = [] then 0 else r_pos (last (iopt_used st)) + r_size (last (iopt_used st)))"

section \<open>Entering instructions\<close>

definition set_slot :: "(xd3_rinst \<Rightarrow> xd3_rinst) \<Rightarrow> xd3_stream \<Rightarrow> xd3_ret \<times> xd3_stream" where
  "set_slot f st = (XD3_OK, st\<lparr>iopt_used := butlast (iopt_used st) @ [f (last (iopt_used st))]\<rparr>)"

definition xd3_emit_run :: "u32 \<Rightarrow> u32 \<Rightarrow> u8 \<Rightarrow> xd3_stream \<Rightarrow> xd3_ret \<times> xd3_stream" where
  "xd3_emit_run pos sz run_c st =
    bind_ok (xd3_iopt_get_slot st)
      (set_slot (\<lambda>ri. ri\<lparr>r_type := XD3_RUN, r_xtra := run_c, r_pos := pos, r_size := sz\<rparr>))"

definition xd3_found_match :: "u32 \<Rightarrow> u32 \<Rightarrow> u64 \<Rightarrow> bool \<Rightarrow> xd3_stream \<Rightarrow> xd3_ret \<times> xd3_stream" where
  "xd3_found_match pos sz addr is_source st =
    bind_ok (xd3_iopt_get_slot st)
      (set_slot (\<lambda>ri. ri\<lparr>r_type := XD3_CPY, r_xtra := (if is_source then 1 else 0), r_pos := pos, r_size := sz, r_addr := addr\<rparr>))"

end
