(* ===== verification/Xd3_Match.thy ===== *)
theory Xd3_Match
  imports Xd3_Iopt
begin

text \<open>
  String matching (xdelta3.c, "String matching helpers" and the \<open>xd3_string_match_\<close> template): hash
  tables, matches against the source blocks, matches inside the window, runs, and the loop that drives
  them.  The template constants \<open>LLOOK\<close>, \<open>SLOOK\<close>, \<open>MAXLAZY\<close>, \<open>LONGENOUGH\<close> are the fields of the
  stream's \<open>smatcher\<close>, which every instance of the template sets to the same values.

  Reads outside of a buffer are \<open>C_UB\<close>.  Loops whose progress depends on the data carry a progress test,
  as in the decoder.
\<close>

section \<open>Tables\<close>

definition xd3_string_match_init :: "xd3_stream \<Rightarrow> xd3_ret \<times> xd3_stream" where
  "xd3_string_match_init st =
    (let DO_SMALL = \<not> flag_set (flags st) XD3_NOCOMPRESS; DO_LARGE = src st \<noteq> None in
     bind_ok
       (if DO_LARGE \<and> large_table st = None then
          (case xd3_alloc (hash_size (large_hash st)) 4 st of
             (False, st1) \<Rightarrow> (ENOMEM, st1)
           | (True, st1) \<Rightarrow> (XD3_OK, st1\<lparr>large_table := Some (replicate (unat (hash_size (large_hash st1))) 0)\<rparr>))
        else (XD3_OK, st))
       (\<lambda>st1. if \<not> DO_SMALL then (XD3_OK, st1)
         else (case small_table st1 of
             Some t \<Rightarrow>
               (XD3_OK, if small_reset st1
                  then st1\<lparr>small_reset := False, small_table := Some (replicate (unat (hash_size (small_hash st1))) 0)\<rparr>
                  else st1)
           | None \<Rightarrow>
               (case xd3_alloc (hash_size (small_hash st1)) 4 st1 of
                  (False, st2) \<Rightarrow> (ENOMEM, st2)
                | (True, st2) \<Rightarrow>
                   (let st3 = st2\<lparr>small_table := Some (replicate (unat (hash_size (small_hash st2))) 0)\<rparr> in
                    if small_lchain (smatcher st3) > 1 \<or> small_chain (smatcher st3) > 1 then
                      (case xd3_alloc (sprevsz st3) 4 st3 of
                         (False, st4) \<Rightarrow> (ENOMEM, st4)
                       | (True, st4) \<Rightarrow> (XD3_OK, st4\<lparr>small_prev := Some (fresh_words (unat (sprevsz st4)) st4)\<rparr>))
                    else (XD3_OK, st3))))))"

text \<open>File positions are 64-bit but the table of source offsets is 32-bit.\<close>

definition xd3_source_cksum_offset :: "u32 \<Rightarrow> xd3_stream \<Rightarrow> u64" where
  "xd3_source_cksum_offset low st =
    (let scp = srcwin_cksum_pos st; s0 = drop_bit 32 scp; sr = ucast scp :: u32 in
     if s0 = 0 then ucast low
     else if low > sr then push_bit 32 (s0 - 1) OR ucast low
     else push_bit 32 s0 OR ucast low)"

definition xd3_scksum_insert :: "u32 \<Rightarrow> u32 \<Rightarrow> u32 \<Rightarrow> xd3_stream \<Rightarrow> xd3_ret \<times> xd3_stream" where
  "xd3_scksum_insert inx scksum pos st =
    (case small_table st of
       None \<Rightarrow> (C_UB, st)
     | Some tbl \<Rightarrow>
        (if unat inx \<ge> length tbl then (C_UB, st)
         else
           let st1 = st\<lparr>small_table := Some (tbl[unat inx := pos + HASH_CKOFFSET])\<rparr> in
           (case small_prev st of
              None \<Rightarrow> (XD3_OK, st1)
            | Some prev \<Rightarrow>
               (let i = unat (pos AND sprevmask st) in
                if i \<ge> length prev then (C_UB, st)
                else (XD3_OK, st1\<lparr>small_prev := Some (prev[i := tbl ! unat inx])\<rparr>)))))"

section \<open>Source matches\<close>

text \<open>\<open>True\<close> when the setup succeeds (the C returns 0).\<close>

definition xd3_source_match_setup :: "u64 \<Rightarrow> xd3_stream \<Rightarrow> bool \<times> xd3_stream" where
  "xd3_source_match_setup srcpos st0 =
    (case src st0 of
       None \<Rightarrow> (False, st0)
     | Some s \<Rightarrow>
        (let st = st0\<lparr>match_maxback := 0, match_maxfwd := 0, match_back := 0, match_fwd := 0\<rparr>;
             bad = (\<lambda>x. (False, x\<lparr>match_state := MATCH_SEARCHING\<rparr>));
             good = (\<lambda>x. (True, x\<lparr>match_state := MATCH_BACKWARD, match_srcpos := srcpos, match_last_srcpos := srcpos\<rparr>));
             frontier_pos = frontier_blkno s * ucast (blksize s) in
         if srcpos \<noteq> 0 \<and> srcpos = match_last_srcpos st then bad st
         else if srcpos < frontier_pos \<and> frontier_pos - srcpos > max_winsize s then bad st
         else
           let greedy_or_not = (if flag_set (flags st) XD3_BEGREEDY then xd3_iopt_last_matched st else unencoded_offset st);
               maxback = input_position st - greedy_or_not;
               maxfwd = avail_in st - input_position st in
           if \<not> srcwin_decided st then
             (let srcavail = xd3_source_eof s - srcpos in
              good (st\<lparr>match_maxback := (if srcpos < ucast maxback then ucast srcpos else maxback),
                       match_maxfwd := (if eof_known s \<and> srcavail < ucast maxfwd then ucast srcavail else maxfwd)\<rparr>))
           else if srcpos < srcbase s \<or> srcpos > srcbase s + ucast (srclen s) then
             bad (st\<lparr>match_maxback := maxback, match_maxfwd := maxfwd\<rparr>)
           else
             let ahead = ucast (srcpos - srcbase s) :: u32; after = ucast (srcbase s + ucast (srclen s) - srcpos) :: u32 in
             good (st\<lparr>match_maxback := min ahead maxback, match_maxfwd := min after maxfwd\<rparr>)))"

text \<open>\<open>xd3_forward_match\<close>.  Where unaligned reads are allowed the comparison runs over 32-bit integers,
  eight at a time, and falls back to bytes from the last one.\<close>

definition int_at :: "u8 list \<Rightarrow> nat \<Rightarrow> u8 list" where
  "int_at s i = take 4 (drop (4 * i) s)"

fun forward_eight :: "u8 list \<Rightarrow> u8 list \<Rightarrow> nat \<Rightarrow> nat \<Rightarrow> bool \<times> nat" where
  "forward_eight s1 s2 0 i = (True, i)"
| "forward_eight s1 s2 (Suc k) i =
    (if int_at s1 i = int_at s2 i then forward_eight s1 s2 k (Suc i) else (False, Suc i))"

lemma forward_eight_le: "forward_eight s1 s2 k i = (b, j) \<Longrightarrow> i \<le> j \<and> (b \<longrightarrow> j = i + k)"
  by (induction s1 s2 k i rule: forward_eight.induct) (auto split: if_splits)

function forward_ints :: "u8 list \<Rightarrow> u8 list \<Rightarrow> nat \<Rightarrow> nat \<Rightarrow> nat" where
  "forward_ints s1 s2 nint i =
    (if i + 8 \<le> nint then
       (case forward_eight s1 s2 8 i of (True, j) \<Rightarrow> forward_ints s1 s2 nint j | (False, j) \<Rightarrow> j)
     else i)"
  by pat_completeness auto
termination
  by (relation "measure (\<lambda>(s1, s2, nint, i). nint - i)") (auto dest!: forward_eight_le [OF sym])

declare forward_ints.simps [simp del]

function forward_bytes :: "u8 list \<Rightarrow> u8 list \<Rightarrow> nat \<Rightarrow> nat \<Rightarrow> nat" where
  "forward_bytes s1 s2 n i = (if i < n \<and> s1 ! i = s2 ! i then forward_bytes s1 s2 n (Suc i) else i)"
  by pat_completeness auto
termination by (relation "measure (\<lambda>(s1, s2, n, i). n - i)") auto

declare forward_bytes.simps [simp del]

definition xd3_forward_match :: "bool \<Rightarrow> u8 list \<Rightarrow> u8 list \<Rightarrow> nat \<Rightarrow> nat" where
  "xd3_forward_match unaligned_ok s1c s2c n =
    (let nint = n div 4;
         i = (if unaligned_ok \<and> nint div 8 \<noteq> 0 then (forward_ints s1c s2c nint 0 - 1) * 4 else 0)
     in forward_bytes s1c s2c n i)"

text \<open>The bytewise backward loop: whether it ran into a mismatch, and how many bytes matched.\<close>

fun backward_bytes :: "u8 list \<Rightarrow> u8 list \<Rightarrow> nat \<Rightarrow> nat \<Rightarrow> nat \<Rightarrow> bool \<times> nat" where
  "backward_bytes blk inp tryoff streamoff 0 = (False, 0)"
| "backward_bytes blk inp tryoff streamoff (Suc tryrem) =
    (if blk ! (tryoff - 1) \<noteq> inp ! (streamoff - 1) then (True, 0)
     else (case backward_bytes blk inp (tryoff - 1) (streamoff - 1) tryrem of (mis, k) \<Rightarrow> (mis, Suc k)))"

text \<open>The loop backward over source blocks.\<close>

function extend_backward :: "u64 \<Rightarrow> u32 \<Rightarrow> u32 \<Rightarrow> xd3_stream \<Rightarrow> xd3_ret \<times> xd3_stream" where
  "extend_backward tryblk0 tryoff0 streamoff st =
    (if match_back st < match_maxback st then
       (case src st of
          None \<Rightarrow> (C_UB, st)
        | Some s0 \<Rightarrow>
           (let (tryblk, tryoff) = (if tryoff0 = 0 then (tryblk0 - 1, blksize s0) else (tryblk0, tryoff0)) in
            case xd3_getblk tryblk st of
              (r, st1) \<Rightarrow>
                if r = XD3_TOOFARBACK then (XD3_OK, st1)
                else if r \<noteq> XD3_OK then (r, st1)
                else
                  (case src st1 of
                     None \<Rightarrow> (C_UB, st1)
                   | Some s \<Rightarrow>
                      (let tryrem = min tryoff (match_maxback st1 - match_back st1) in
                       case curblk s of
                         None \<Rightarrow> (C_UB, st1)
                       | Some blk \<Rightarrow>
                          (if length blk < unat tryoff \<or> length (next_in st1) < unat streamoff \<or> unat streamoff < unat tryrem
                           then (C_UB, st1)
                           else
                             case backward_bytes blk (next_in st1) (unat tryoff) (unat streamoff) (unat tryrem) of
                               (mis, k) \<Rightarrow>
                                 let st2 = st1\<lparr>match_back := match_back st1 + of_nat k\<rparr> in
                                 if mis then (XD3_OK, st2)
                                 else if unat (match_maxback st2) - unat (match_back st2) < unat (match_maxback st) - unat (match_back st)
                                   then extend_backward tryblk (tryoff - of_nat k) (streamoff - of_nat k) st2
                                 else (C_LOOP, st2))))))
     else (XD3_OK, st))"
  by pat_completeness auto
termination
  by (relation "measure (\<lambda>(b, off, so, st). unat (match_maxback st) - unat (match_back st))") auto

declare extend_backward.simps [simp del]

text \<open>The loop forward over source blocks.\<close>

function extend_forward :: "bool \<Rightarrow> u64 \<Rightarrow> u32 \<Rightarrow> u32 \<Rightarrow> xd3_stream \<Rightarrow> xd3_ret \<times> xd3_stream" where
  "extend_forward unaligned_ok tryblk0 tryoff0 streamoff st =
    (if match_fwd st < match_maxfwd st then
       (case src st of
          None \<Rightarrow> (C_UB, st)
        | Some s0 \<Rightarrow>
           (let (tryblk, tryoff) = (if tryoff0 = blksize s0 then (tryblk0 + 1, 0) else (tryblk0, tryoff0)) in
            case xd3_getblk tryblk st of
              (r, st1) \<Rightarrow>
                if r = XD3_TOOFARBACK then (XD3_OK, st1)
                else if r \<noteq> XD3_OK then (r, st1)
                else
                  (case src st1 of
                     None \<Rightarrow> (C_UB, st1)
                   | Some s \<Rightarrow>
                      (let tryrem = min (match_maxfwd st1 - match_fwd st1) (onblk s - tryoff) in
                       if tryrem = 0 then (XD3_OK, st1)
                       else
                         case curblk s of
                           None \<Rightarrow> (C_UB, st1)
                         | Some blk \<Rightarrow>
                            (if length blk < unat tryoff + unat tryrem \<or> length (next_in st1) < unat streamoff + unat tryrem
                             then (C_UB, st1)
                             else
                               let matched = of_nat (xd3_forward_match unaligned_ok (drop (unat tryoff) blk)
                                     (drop (unat streamoff) (next_in st1)) (unat tryrem));
                                   st2 = st1\<lparr>match_fwd := match_fwd st1 + matched\<rparr> in
                               if tryrem \<noteq> matched then (XD3_OK, st2)
                               else if unat (match_maxfwd st2) - unat (match_fwd st2) < unat (match_maxfwd st) - unat (match_fwd st)
                                 then extend_forward unaligned_ok tryblk (tryoff + matched) (streamoff + matched) st2
                               else (C_LOOP, st2))))))
     else (XD3_OK, st))"
  by pat_completeness auto
termination
  by (relation "measure (\<lambda>(u, b, off, so, st). unat (match_maxfwd st) - unat (match_fwd st))") auto

declare extend_forward.simps [simp del]

text \<open>What is done with the match found.\<close>

definition take_source_match :: "xd3_stream \<Rightarrow> xd3_ret \<times> xd3_stream" where
  "take_source_match st0 =
    (let st = st0\<lparr>match_state := MATCH_SEARCHING\<rparr> in
     if match_fwd st < min_match st then (XD3_OK, st\<lparr>match_fwd := 0\<rparr>)
     else
       let total = match_fwd st + match_back st;
           target_position = input_position st - match_back st;
           match_length = match_back st + match_fwd st;
           match_position = match_srcpos st - ucast (match_back st);
           match_end = match_srcpos st + ucast (match_fwd st);
           st1 = (if match_back st > 0 then xd3_iopt_erase target_position total st else st);
           st2 = st1\<lparr>match_back := 0\<rparr>;
           st3 = (if match_maxaddr st2 = 0 \<or> match_position < match_minaddr st2 then st2\<lparr>match_minaddr := match_position\<rparr> else st2);
           st4 = (if match_end > match_maxaddr st3 then st3\<lparr>match_maxaddr := match_end\<rparr> else st3);
           st5 = (if match_end > maxsrcaddr st4 then st4\<lparr>maxsrcaddr := match_end\<rparr> else st4) in
       bind_ok (xd3_found_match target_position match_length match_position True st5)
         (\<lambda>st6. (XD3_OK, if target_position + match_length = avail_in st6
                  then st6\<lparr>match_state := MATCH_TARGET, match_srcpos := match_end\<rparr> else st6)))"

definition xd3_source_extend_match :: "bool \<Rightarrow> xd3_stream \<Rightarrow> xd3_ret \<times> xd3_stream" where
  "xd3_source_extend_match unaligned_ok st =
    bind_ok
      (if match_state st = MATCH_BACKWARD then
         (case src st of
            None \<Rightarrow> (C_UB, st)
          | Some s \<Rightarrow>
             (case xd3_blksize_div (match_srcpos st - ucast (match_back st)) (shiftby s) (maskby s) of
                (tryblk, tryoff) \<Rightarrow>
                  bind_ok (extend_backward tryblk tryoff (input_position st - match_back st) st)
                    (\<lambda>st1. (XD3_OK, st1\<lparr>match_state := MATCH_FORWARD\<rparr>))))
       else (XD3_OK, st))
      (\<lambda>st1. case src st1 of
         None \<Rightarrow> (C_UB, st1)
       | Some s \<Rightarrow>
          (case xd3_blksize_div (match_srcpos st1 + ucast (match_fwd st1)) (shiftby s) (maskby s) of
             (tryblk, tryoff) \<Rightarrow>
               bind_ok (extend_forward unaligned_ok tryblk tryoff (input_position st1 + match_fwd st1) st1)
                 take_source_match))"

section \<open>Small matches\<close>

text \<open>The comparison of the input at \<open>j\<close> with the earlier input at \<open>i\<close>, up to \<open>avail_in\<close>: the end of the match.\<close>

function smatch_extend :: "u8 list \<Rightarrow> nat \<Rightarrow> nat \<Rightarrow> nat \<Rightarrow> nat" where
  "smatch_extend inp inp_max i j =
    (if j < inp_max \<and> inp ! j = inp ! i then smatch_extend inp inp_max (Suc i) (Suc j) else j)"
  by pat_completeness auto
termination by (relation "measure (\<lambda>(inp, m, i, j). m - j)") auto

declare smatch_extend.simps [simp del]

lemma chain_decreases: "c \<noteq> 1 \<Longrightarrow> unat (c - 2) < unat (c - 1 :: u32)"
proof -
  assume "c \<noteq> 1"
  then have "c - 1 \<noteq> 0" by simp
  then have "unat (c - 1 - 1) < unat (c - 1)" using unat_minus_one [of "c - 1"] unat_gt_0 [of "c - 1"] by linarith
  then show ?thesis by (simp add: algebra_simps)
qed

text \<open>From the label \<open>again\<close>: the best length and offset so far come in and go out; \<open>None\<close> is an access out
  of bounds.\<close>

function smatch_loop :: "xd3_stream \<Rightarrow> u32 \<Rightarrow> u32 \<Rightarrow> u32 \<Rightarrow> u32 \<Rightarrow> (u32 \<times> u32) option" where
  "smatch_loop st base chain match_length match_offset =
    (if length (next_in st) < unat (avail_in st) \<or> unat base \<ge> unat (input_position st) then None
     else
       let e = smatch_extend (next_in st) (unat (avail_in st)) (unat base) (unat (input_position st));
           cmp_len = of_nat (e - unat (input_position st)) :: u32;
           (ml, mo) = (if cmp_len > match_length then (cmp_len, base) else (match_length, match_offset)) in
       if cmp_len > match_length \<and> (e = unat (avail_in st) \<or> cmp_len \<ge> long_enough (smatcher st)) then Some (ml, mo)
       else if chain - 1 = 0 then Some (ml, mo)
       else
         (case arr_get (small_prev st) (unat (base AND sprevmask st)) of
            None \<Rightarrow> None
          | Some prev_pos0 \<Rightarrow>
             (if prev_pos0 = 0 then Some (ml, mo)
              else
                let prev_pos = prev_pos0 - HASH_CKOFFSET in
                if prev_pos > base then Some (ml, mo)
                else if (input_position st - prev_pos) AND NOT (sprevmask st) \<noteq> 0 then Some (ml, mo)
                else smatch_loop st prev_pos (chain - 1) ml mo)))"
  by pat_completeness auto
termination
  by (relation "measure (\<lambda>(st, base, chain, ml, mo). unat (chain - 1))") (auto simp: chain_decreases)

declare smatch_loop.simps [simp del]

definition xd3_smatch :: "u32 \<Rightarrow> u32 \<Rightarrow> u32 \<Rightarrow> xd3_stream \<Rightarrow> (u32 \<times> u32) option" where
  "xd3_smatch base scksum match_offset st =
    (let chain = (if min_match st = of_nat MIN_MATCH then small_chain (smatcher st) else small_lchain (smatcher st)) in
     case smatch_loop st (base - HASH_CKOFFSET) chain 0 match_offset of
       None \<Rightarrow> None
     | Some (ml, mo) \<Rightarrow>
        Some (if ml = 4 \<and> input_position st - mo \<ge> push_bit 14 1 then 0
              else if ml = 5 \<and> input_position st - mo \<ge> push_bit 21 1 then 0
              else ml, mo))"

section \<open>Source checksums\<close>

text \<open>The \<open>do ... while (blkpos >= oldpos)\<close> loop; positions are signed.\<close>

function move_point_block :: "xd3_smatcher \<Rightarrow> xd3_hash_cfg \<Rightarrow> u8 list \<Rightarrow> u64 \<Rightarrow> int \<Rightarrow> int \<Rightarrow> u32 list \<Rightarrow> xd3_ret \<times> u32 list" where
  "move_point_block sm hc blk blkbaseoffset oldpos blkpos tbl =
    (if blkpos < 0 \<or> int (length blk) < blkpos + uint (large_look sm) then (C_UB, tbl)
     else
       let cksum = xd3_lcksum (drop (nat blkpos) blk) (large_look sm);
           hval = unat (xd3_checksum_hash hc cksum) in
       if hval \<ge> length tbl then (C_UB, tbl)
       else
         let tbl1 = tbl[hval := ucast (blkbaseoffset + (of_int blkpos + ucast HASH_CKOFFSET))];
             blkpos1 = blkpos - uint (large_step sm) in
         if blkpos1 \<ge> oldpos then
           (if large_step sm = 0 then (C_LOOP, tbl1) else move_point_block sm hc blk blkbaseoffset oldpos blkpos1 tbl1)
         else (XD3_OK, tbl1))"
  by pat_completeness auto
termination
proof (relation "measure (\<lambda>(sm, hc, blk, bo, oldpos, blkpos, tbl). nat (blkpos + 1))", goal_cases)
  case (2 sm hc blk bo oldpos blkpos tbl)
  then have "0 < uint (large_step sm)" by (simp add: word_neq_0_conv word_less_def)
  with 2 show ?case by auto
qed simp

declare move_point_block.simps [simp del]

definition source_left :: "u64 \<Rightarrow> xd3_stream \<Rightarrow> bool" where
  "source_left limit st = (case src st of None \<Rightarrow> False
     | Some s \<Rightarrow> srcwin_cksum_pos st < limit \<and> (\<not> eof_known s \<or> srcwin_cksum_pos st < xd3_source_eof s))"

text \<open>The loop over source blocks.\<close>

function move_point_loop :: "u64 \<Rightarrow> xd3_stream \<Rightarrow> xd3_ret \<times> xd3_stream" where
  "move_point_loop limit st =
    (if source_left limit st then
       (case src st of
          None \<Rightarrow> (C_UB, st)
        | Some s0 \<Rightarrow>
           (case xd3_blksize_div (srcwin_cksum_pos st) (shiftby s0) (maskby s0) of
              (blkno, blkrem) \<Rightarrow>
                (case xd3_getblk blkno st of
                   (r, st1) \<Rightarrow>
                     if r \<noteq> XD3_OK then (if r = XD3_TOOFARBACK then XD3_INTERNAL else r, st1)
                     else
                       (case src st1 of
                          None \<Rightarrow> (C_UB, st1)
                        | Some s \<Rightarrow>
                           (let onsrc = uint (xd3_bytes_on_srcblk s blkno);
                                look = uint (large_look (smatcher st1));
                                next_pos = (blkno + 1) * ucast (blksize s);
                                indexed =
                                  (if onsrc < look then (XD3_OK, st1)
                                   else (case (curblk s, large_table st1) of
                                       (Some blk, Some tbl) \<Rightarrow>
                                         (case move_point_block (smatcher st1) (large_hash st1) blk (ucast (blksize s) * blkno)
                                                 (uint blkrem) (onsrc - look) tbl of
                                            (r2, tbl1) \<Rightarrow> (r2, st1\<lparr>large_table := Some tbl1\<rparr>))
                                     | _ \<Rightarrow> (C_UB, st1))) in
                            bind_ok indexed
                              (\<lambda>st2. let st3 = st2\<lparr>srcwin_cksum_pos := next_pos\<rparr> in
                                 if unat (srcwin_cksum_pos st) < unat next_pos then move_point_loop limit st3
                                 else (C_LOOP, st3)))))))
     else (XD3_OK, st))"
  by pat_completeness auto
termination
proof (relation "measure (\<lambda>(limit, st). 2 ^ 64 - unat (srcwin_cksum_pos st))", goal_cases)
  case (2 limit st)
  then show ?case using unat_u64_less [of "srcwin_cksum_pos st"] by auto
qed simp

declare move_point_loop.simps [simp del]

text \<open>The result has the next move point.\<close>

definition xd3_srcwin_move_point :: "xd3_stream \<Rightarrow> xd3_ret \<times> u32 \<times> xd3_stream" where
  "xd3_srcwin_move_point st =
    (case src st of
       None \<Rightarrow> (C_UB, 0, st)
     | Some s \<Rightarrow>
        (if eof_known s \<and> srcwin_cksum_pos st = xd3_source_eof s then (XD3_OK, USIZE_T_MAX, st)
         else
           let here = total_in st + ucast (input_position st);
               logical0 = min (here * 2) (here + max_winsize s div 2) in
           if srcwin_cksum_pos st > logical0
             then (XD3_OK, input_position st + ucast (srcwin_cksum_pos st - logical0), st)
           else
             let st1 = (if maxsrcaddr st > srcwin_cksum_pos st then st\<lparr>srcwin_cksum_pos := maxsrcaddr st\<rparr> else st);
                 logical = max logical0 (srcwin_cksum_pos st1) + ucast (blksize s) in
             (case move_point_loop logical st1 of
                (r, st2) \<Rightarrow>
                  if r \<noteq> XD3_OK then (r, 0, st2)
                  else
                    (case src st2 of
                       None \<Rightarrow> (C_UB, 0, st2)
                     | Some s2 \<Rightarrow>
                        (if eof_known s2 \<and> srcwin_cksum_pos st2 \<ge> xd3_source_eof s2
                         then (XD3_OK, USIZE_T_MAX, st2\<lparr>srcwin_cksum_pos := xd3_source_eof s2\<rparr>)
                         else (XD3_OK, input_position st2 + 1 + ucast (srcwin_cksum_pos st2 - logical), st2))))))"

section \<open>The matching loop\<close>

text \<open>The local variables of \<open>xd3_string_match_\<close> that live across iterations; \<open>inp\<close> is always
  \<open>next_in + input_position\<close>.\<close>

record sm_locals =
  sm_scksum :: u32
  sm_lcksum :: u32
  sm_run_l :: u32
  sm_run_c :: u8
  sm_match_offset :: u32
  sm_next_move :: u32

definition sm_start :: sm_locals where
  "sm_start = \<lparr>sm_scksum = 0, sm_lcksum = 0, sm_run_l = 0, sm_run_c = 0, sm_match_offset = 0, sm_next_move = 0\<rparr>"

text \<open>How an iteration ends: \<open>return\<close>, \<open>goto restartloop\<close>, or the next iteration of the \<open>for\<close>.\<close>

datatype sm_step = SM_Return xd3_ret xd3_stream | SM_Restart sm_locals xd3_stream | SM_Next sm_locals xd3_stream

text \<open>The update of the incremental state at the label \<open>updateone\<close>, and the step of the \<open>for\<close>.\<close>

definition updateone :: "sm_locals \<Rightarrow> xd3_stream \<Rightarrow> sm_step" where
  "updateone v st =
    (let look = small_look (smatcher st); pos = input_position st; inp = drop (unat pos) (next_in st) in
     if pos + look = avail_in st then SM_Return XD3_OK st
     else if length inp \<le> unat look \<or> \<not> flag_set (flags st) XD3_NOCOMPRESS \<and> length inp < 5 then SM_Return C_UB st
     else
       let (run_l, run_c) = NEXTRUN (inp ! unat look) (sm_run_l v, sm_run_c v);
           scksum = (if \<not> flag_set (flags st) XD3_NOCOMPRESS then snd (xd3_small_cksum_update inp) else sm_scksum v);
           large = src st \<noteq> None \<and> pos + large_look (smatcher st) < avail_in st in
       if large \<and> length inp \<le> unat (large_look (smatcher st)) then SM_Return C_UB st
       else
         let lcksum = (if large then xd3_large_cksum_update (sm_lcksum v) inp (large_look (smatcher st)) else sm_lcksum v) in
         SM_Next (v\<lparr>sm_run_l := run_l, sm_run_c := run_c, sm_scksum := scksum, sm_lcksum := lcksum\<rparr>)
           (st\<lparr>input_position := pos + 1\<rparr>))"

definition TRYLAZYLEN :: "u32 \<Rightarrow> u32 \<Rightarrow> u32 \<Rightarrow> u32 \<Rightarrow> bool" where
  "TRYLAZYLEN maxlazy len pos max_in \<longleftrightarrow> maxlazy > 0 \<and> len < maxlazy \<and> pos + len \<le> max_in - 2"

definition HANDLELAZY :: "u32 \<Rightarrow> sm_locals \<Rightarrow> xd3_stream \<Rightarrow> sm_step" where
  "HANDLELAZY mlen v st =
    (if TRYLAZYLEN (max_lazy (smatcher st)) mlen (input_position st) (avail_in st)
     then updateone v (st\<lparr>min_match := mlen + LEAST_MATCH_INCR\<rparr>)
     else SM_Restart v (st\<lparr>input_position := input_position st + mlen\<rparr>))"

text \<open>\<open>while (run_l < max_len && inp[run_l] == run_c) { run_l += 1; }\<close>\<close>

function expand_run :: "u8 list \<Rightarrow> nat \<Rightarrow> u8 \<Rightarrow> nat \<Rightarrow> nat" where
  "expand_run inp max_len run_c run_l =
    (if run_l < max_len \<and> inp ! run_l = run_c then expand_run inp max_len run_c (Suc run_l) else run_l)"
  by pat_completeness auto
termination by (relation "measure (\<lambda>(inp, m, c, l). m - l)") auto

declare expand_run.simps [simp del]

text \<open>The small match of an iteration, and its end when nothing was emitted.\<close>

definition sm_small :: "sm_locals \<Rightarrow> xd3_stream \<Rightarrow> sm_step" where
  "sm_small v st =
    (let fall = (\<lambda>v st. updateone v (if min_match st > of_nat MIN_MATCH then st\<lparr>min_match := min_match st - 1\<rparr> else st)) in
     if flag_set (flags st) XD3_NOCOMPRESS then fall v st
     else
       let sinx = xd3_checksum_hash (small_hash st) (sm_scksum v) in
       case arr_get (small_table st) (unat sinx) of
         None \<Rightarrow> SM_Return C_UB st
       | Some e \<Rightarrow>
          (case (if e \<noteq> 0 then xd3_smatch e (sm_scksum v) (sm_match_offset v) st else Some (0, sm_match_offset v)) of
             None \<Rightarrow> SM_Return C_UB st
           | Some (match_length, match_offset) \<Rightarrow>
              (let v1 = v\<lparr>sm_match_offset := match_offset\<rparr> in
               case xd3_scksum_insert sinx (sm_scksum v) (input_position st) st of
                 (r, st1) \<Rightarrow>
                   if r \<noteq> XD3_OK then SM_Return r st1
                   else if match_length \<ge> min_match st1 then
                     (case xd3_found_match (input_position st1) match_length (ucast match_offset) False st1 of
                        (r2, st2) \<Rightarrow> if r2 \<noteq> XD3_OK then SM_Return r2 st2 else HANDLELAZY match_length v1 st2)
                   else fall v1 st1)))"

text \<open>The source match of an iteration.\<close>

definition sm_large :: "bool \<Rightarrow> sm_locals \<Rightarrow> xd3_stream \<Rightarrow> sm_step" where
  "sm_large unaligned_ok v st =
    (if src st \<noteq> None \<and> input_position st + large_look (smatcher st) \<le> avail_in st then
       (case (if input_position st \<ge> sm_next_move v then xd3_srcwin_move_point st else (XD3_OK, sm_next_move v, st)) of
          (r, mv, st1) \<Rightarrow>
            if r \<noteq> XD3_OK then SM_Return r st1
            else
              let v1 = v\<lparr>sm_next_move := mv\<rparr>; linx = xd3_checksum_hash (large_hash st1) (sm_lcksum v1) in
              case arr_get (large_table st1) (unat linx) of
                None \<Rightarrow> SM_Return C_UB st1
              | Some e \<Rightarrow>
                 (if e \<noteq> 0 then
                    (case xd3_source_match_setup (xd3_source_cksum_offset (e - HASH_CKOFFSET) st1) st1 of
                       (ok, st2) \<Rightarrow>
                         if ok then
                           (case xd3_source_extend_match unaligned_ok st2 of
                              (r2, st3) \<Rightarrow>
                                if r2 \<noteq> XD3_OK then SM_Return r2 st3
                                else if match_fwd st3 > 0 then HANDLELAZY (match_fwd st3) v1 st3
                                else sm_small v1 st3)
                         else sm_small v1 st2)
                  else sm_small v1 st1))
     else sm_small v st)"

text \<open>One iteration of the \<open>for\<close> loop.\<close>

definition sm_iter :: "bool \<Rightarrow> sm_locals \<Rightarrow> xd3_stream \<Rightarrow> sm_step" where
  "sm_iter unaligned_ok v st =
    (if sm_run_l v = small_look (smatcher st) then
       (let max_len = avail_in st - input_position st; inp = drop (unat (input_position st)) (next_in st) in
        if length inp < unat max_len then SM_Return C_UB st
        else
          let run_l = of_nat (expand_run inp (unat max_len) (sm_run_c v) (unat (sm_run_l v))) :: u32;
              v1 = v\<lparr>sm_run_l := run_l\<rparr> in
          if run_l \<ge> min_match st \<and> run_l \<ge> MIN_RUN then
            (case xd3_emit_run (input_position st) run_l (sm_run_c v1) st of
               (r, st1) \<Rightarrow> if r \<noteq> XD3_OK then SM_Return r st1 else HANDLELAZY run_l v1 st1)
          else sm_large unaligned_ok v1 st)
     else sm_large unaligned_ok v st)"

text \<open>The label \<open>restartloop\<close>: the incremental state from scratch.\<close>

definition sm_restart :: "sm_locals \<Rightarrow> xd3_stream \<Rightarrow> sm_step" where
  "sm_restart v0 st =
    (let look = small_look (smatcher st) in
     if input_position st + look > avail_in st then SM_Return XD3_OK st
     else
       let lm = xd3_iopt_last_matched st;
           st1 = st\<lparr>min_match := (if lm > input_position st then max (of_nat MIN_MATCH) (1 + lm - input_position st)
                                  else of_nat MIN_MATCH)\<rparr>;
           inp = drop (unat (input_position st1)) (next_in st1) in
       if length inp < unat look \<or> length inp < 4 then SM_Return C_UB st1
       else
         let scksum = (if \<not> flag_set (flags st1) XD3_NOCOMPRESS then snd (xd3_scksum inp) else sm_scksum v0);
             (run_l, run_c) = xd3_comprun inp look;
             v = v0\<lparr>sm_scksum := scksum, sm_run_l := run_l, sm_run_c := run_c\<rparr> in
         if src st1 \<noteq> None \<and> input_position st1 + large_look (smatcher st1) \<le> avail_in st1 then
           (case xd3_srcwin_move_point st1 of
              (r, mv, st2) \<Rightarrow>
                if r \<noteq> XD3_OK then SM_Return r st2
                else if length inp < unat (large_look (smatcher st2)) then SM_Return C_UB st2
                else SM_Next (v\<lparr>sm_next_move := mv, sm_lcksum := xd3_lcksum inp (large_look (smatcher st2))\<rparr>) st2)
         else SM_Next v st1)"

definition input_left :: "xd3_stream \<Rightarrow> nat" where
  "input_left st = unat (avail_in st) - unat (input_position st)"

text \<open>The \<open>for\<close> loop with its restarts.\<close>

function sm_loop :: "bool \<Rightarrow> sm_locals \<Rightarrow> xd3_stream \<Rightarrow> xd3_ret \<times> xd3_stream" where
  "sm_loop unaligned_ok v st =
    (case sm_iter unaligned_ok v st of
       SM_Return r st1 \<Rightarrow> (r, st1)
     | SM_Next v1 st1 \<Rightarrow> if input_left st1 < input_left st then sm_loop unaligned_ok v1 st1 else (C_LOOP, st1)
     | SM_Restart v1 st1 \<Rightarrow>
        (case sm_restart v1 st1 of
           SM_Return r st2 \<Rightarrow> (r, st2)
         | SM_Restart v2 st2 \<Rightarrow> (C_LOOP, st2)
         | SM_Next v2 st2 \<Rightarrow> if input_left st2 < input_left st then sm_loop unaligned_ok v2 st2 else (C_LOOP, st2)))"
  by pat_completeness auto
termination by (relation "measure (\<lambda>(u, v, st). input_left st)") auto

declare sm_loop.simps [simp del]

definition xd3_string_match :: "bool \<Rightarrow> xd3_stream \<Rightarrow> xd3_ret \<times> xd3_stream" where
  "xd3_string_match unaligned_ok st =
    (if input_position st + small_look (smatcher st) > avail_in st then (XD3_OK, st)
     else bind_ok (xd3_string_match_init st)
       (\<lambda>st1. case sm_restart sm_start st1 of
          SM_Return r st2 \<Rightarrow> (r, st2)
        | SM_Restart v st2 \<Rightarrow> (C_LOOP, st2)
        | SM_Next v st2 \<Rightarrow> sm_loop unaligned_ok v st2))"

end
