(* ===== verification/Xd3_Encode.thy ===== *)
theory Xd3_Encode
  imports Xd3_Match
begin

text \<open>
  The encoder proper: the window header, buffered input, memory setup and reset, and the state machine
  \<open>xd3_encode_input\<close> (xdelta3.c, "Emit routines", "Encode routines").  The string matcher is the function
  pointer \<open>smatcher.string_match\<close>; every instance of the template is \<open>xd3_string_match\<close> with the
  constants of the stream's \<open>smatcher\<close>.
\<close>

section \<open>The header\<close>

text \<open>A list of emissions to the header section, stopping at the first error.\<close>

fun emit_all :: "(xd3_output list \<Rightarrow> xd3_stream \<Rightarrow> xd3_ret \<times> xd3_output list \<times> xd3_stream) list \<Rightarrow> xd3_stream \<Rightarrow> xd3_ret \<times> xd3_stream" where
  "emit_all [] st = (XD3_OK, st)"
| "emit_all (f # fs) st = bind_ok (to_hdr f st) (emit_all fs)"

definition emit_file_header :: "xd3_stream \<Rightarrow> xd3_ret \<times> xd3_stream" where
  "emit_file_header st =
    (let use_appheader = enc_appheader st \<noteq> None;
         hdr_ind = (if use_appheader then VCD_APPHEADER else 0) in
     bind_ok
       (emit_all [emit_byte_to VCDIFF_MAGIC1, emit_byte_to VCDIFF_MAGIC2, emit_byte_to VCDIFF_MAGIC3,
          emit_byte_to VCDIFF_VERSION, emit_byte_to (ucast hdr_ind)] st)
       (\<lambda>st1. case enc_appheader st1 of
          None \<Rightarrow> (XD3_OK, st1)
        | Some h \<Rightarrow>
           (if length h < unat (enc_appheadsz st1) then (C_UB, st1)
            else emit_all [xd3_emit_size (enc_appheadsz st1), emit_bytes_to (take (unat (enc_appheadsz st1)) h)] st1)))"

definition enc_len :: "u32 \<Rightarrow> u32 \<Rightarrow> u32 \<Rightarrow> u32 \<Rightarrow> bool \<Rightarrow> u32" where
  "enc_len tgt_len data_len inst_len addr_len use_adler32 =
     1 + (xd3_sizeof_uint32_t tgt_len + xd3_sizeof_uint32_t data_len + xd3_sizeof_uint32_t inst_len
        + xd3_sizeof_uint32_t addr_len) + data_len + inst_len + addr_len + (if use_adler32 then 4 else 0)"

definition adler_bytes :: "u32 \<Rightarrow> u8 list" where
  "adler_bytes a32 = [ucast (drop_bit 24 a32), ucast (drop_bit 16 a32), ucast (drop_bit 8 a32), ucast (a32 AND 0xFF)]"

definition xd3_emit_hdr :: "xd3_stream \<Rightarrow> xd3_ret \<times> xd3_stream" where
  "xd3_emit_hdr st0 =
    (let use_adler32 = flag_set (flags st0) (XD3_ADLER32 OR XD3_ADLER32_RECODE);
         vcd_source = xd3_encoder_used_source st0;
         win_ind = (if vcd_source then VCD_SOURCE else 0) OR (if use_adler32 then VCD_ADLER32 else 0) in
     bind_ok (if current_window st0 = 0 then emit_file_header st0 else (XD3_OK, st0))
       (\<lambda>st. let srcw = (case src st of Some s \<Rightarrow> [xd3_emit_size (srclen s), xd3_emit_offset (srcbase s)] | None \<Rightarrow> []);
           tgt_len = avail_in st;
           data_len = xd3_sizeof_output (data_out st);
           inst_len = xd3_sizeof_output (inst_out st);
           addr_len = xd3_sizeof_output (addr_out st) in
         bind_ok
           (emit_all ([emit_byte_to (ucast win_ind)] @ (if vcd_source then srcw else []) @
              [xd3_emit_size (enc_len tgt_len data_len inst_len addr_len use_adler32), xd3_emit_size tgt_len,
               emit_byte_to 0, xd3_emit_size data_len, xd3_emit_size inst_len, xd3_emit_size addr_len]) st)
           (\<lambda>st1. if use_adler32 then
              (if flag_set (flags st1) XD3_ADLER32 \<and> length (next_in st1) < unat (avail_in st1) then (C_UB, st1)
               else
                 let a32 = (if flag_set (flags st1) XD3_ADLER32
                            then ucast (adler32 (1 :: 64 word) (next_in st1) (avail_in st1)) else recode_adler32 st1) in
                 emit_all [emit_bytes_to (adler_bytes a32)] st1)
            else (XD3_OK, st1))))"

section \<open>Buffered input\<close>

text \<open>\<open>memcpy (buf + off, from, n)\<close>; \<open>None\<close> is an access out of bounds.\<close>

definition mem_copy :: "u8 list \<Rightarrow> nat \<Rightarrow> u8 list \<Rightarrow> nat \<Rightarrow> u8 list option" where
  "mem_copy buf off from n =
    (if length buf < off + n \<or> length from < n then None else Some (write_at buf off (take n from)))"

definition xd3_encode_buffer_leftover :: "xd3_stream \<Rightarrow> xd3_ret \<times> xd3_stream" where
  "xd3_encode_buffer_leftover st0 =
    bind_ok
      (if buf_in st0 = None then
         (case xd3_alloc (winsize st0) 1 st0 of
            (False, st1) \<Rightarrow> (ENOMEM, st1)
          | (True, st1) \<Rightarrow> (XD3_OK, st1\<lparr>buf_in := Some (fresh_block (unat (winsize st1)) st1)\<rparr>))
       else (XD3_OK, st0))
      (\<lambda>st1. bind_ok
        (case (buf_in st1, buf_leftover st1) of
           (Some buf, Some left) \<Rightarrow>
             (case mem_copy buf 0 left (unat (buf_leftavail st1)) of
                None \<Rightarrow> (C_UB, st1)
              | Some buf' \<Rightarrow> (XD3_OK, st1\<lparr>buf_in := Some buf', buf_leftover := None, buf_avail := buf_leftavail st1\<rparr>))
         | _ \<Rightarrow> (XD3_OK, st1))
        (\<lambda>st2. let room = winsize st2 - buf_avail st2; tk = min room (avail_in st2) in
          case buf_in st2 of
            None \<Rightarrow> (C_UB, st2)
          | Some buf \<Rightarrow>
             (case mem_copy buf (unat (buf_avail st2)) (next_in st2) (unat tk) of
                None \<Rightarrow> (C_UB, st2)
              | Some buf' \<Rightarrow>
                 (let st3 = st2\<lparr>buf_in := Some buf', buf_avail := buf_avail st2 + tk\<rparr>;
                      use = (\<lambda>s. (XD3_OK, s\<lparr>next_in := buf', avail_in := buf_avail s, buf_avail := 0\<rparr>)) in
                  if tk < avail_in st3
                  then use (st3\<lparr>buf_leftover := Some (drop (unat tk) (next_in st3)), buf_leftavail := avail_in st3 - tk\<rparr>)
                  else if buf_avail st3 < winsize st3 \<and> \<not> flag_set (flags st3) XD3_FLUSH then (XD3_INPUT, st3)
                  else use st3))))"

section \<open>Setup and reset\<close>

text \<open>\<open>stream->enc_heads[i] = stream->enc_tails[i] = xd3_alloc_output (stream, NULL)\<close>.\<close>

definition init_sect :: "(xd3_output list \<Rightarrow> xd3_stream \<Rightarrow> xd3_stream) \<Rightarrow> xd3_stream \<Rightarrow> xd3_ret \<times> xd3_stream" where
  "init_sect upd st =
    (case xd3_alloc_output st of
       (None, st1) \<Rightarrow> (ENOMEM, upd [] st1)
     | (Some pg, st1) \<Rightarrow> (XD3_OK, upd [pg] st1))"

definition encode_hashes :: "xd3_stream \<Rightarrow> xd3_ret \<times> xd3_stream" where
  "encode_hashes st =
    bind_ok
      (case src st of
         None \<Rightarrow> (XD3_OK, st)
       | Some s \<Rightarrow>
          (if large_step (smatcher st) = 0 then (C_UB, st)
           else (XD3_OK, st\<lparr>large_hash := xd3_size_hashtable (ucast (max_winsize s div ucast (large_step (smatcher st))))\<rparr>)))
      (\<lambda>st1. (XD3_OK, if \<not> flag_set (flags st1) XD3_NOCOMPRESS
                 then st1\<lparr>small_hash := xd3_size_hashtable (winsize st1)\<rparr> else st1))"

definition xd3_encode_init :: "bool \<Rightarrow> xd3_stream \<Rightarrow> xd3_ret \<times> xd3_stream" where
  "xd3_encode_init full_init st =
    bind_ok (if full_init then encode_hashes st else (XD3_OK, st))
      (\<lambda>st1. bind_ok (init_sect (\<lambda>pgs s. s\<lparr>hdr_out := pgs\<rparr>) st1)
      (\<lambda>st2. bind_ok (init_sect (\<lambda>pgs s. s\<lparr>data_out := pgs\<rparr>) st2)
      (\<lambda>st3. bind_ok (init_sect (\<lambda>pgs s. s\<lparr>inst_out := pgs\<rparr>) st3)
      (\<lambda>st4. bind_ok (init_sect (\<lambda>pgs s. s\<lparr>addr_out := pgs\<rparr>) st4)
      (\<lambda>st5. let st6 = st5\<lparr>iopt_used := [], iopt_free := []\<rparr> in
        case xd3_alloc_iopt (iopt_size st6) st6 of
          (r, st7) \<Rightarrow>
            if r \<noteq> XD3_OK then (ENOMEM, st7)
            else (case code_table_desc st7 of
                    None \<Rightarrow> (C_UB, st7)
                  | Some d \<Rightarrow> xd3_alloc_cache (st7\<lparr>
                      acache := (acache st7)\<lparr>s_near := ucast (near_modes d), s_same := ucast (same_modes d)\<rparr>,
                      code_table := Some xd3_rfc3284_code_table\<rparr>)))))))"

definition xd3_encode_init_full :: "xd3_stream \<Rightarrow> xd3_ret \<times> xd3_stream" where
  "xd3_encode_init_full st = xd3_encode_init True st"

definition xd3_encode_init_partial :: "xd3_stream \<Rightarrow> xd3_ret \<times> xd3_stream" where
  "xd3_encode_init_partial st = xd3_encode_init False st"

definition empty_page :: "xd3_output \<Rightarrow> xd3_output" where
  "empty_page pg = pg\<lparr>pg_data := []\<rparr>"

definition xd3_encode_reset :: "xd3_stream \<Rightarrow> xd3_ret \<times> xd3_stream" where
  "xd3_encode_reset st0 =
    (let st1 = st0\<lparr>avail_in := 0, small_reset := True, i_slots_used := 0\<rparr>;
         st2 = (case src st1 of
             None \<Rightarrow> st1
           | Some s \<Rightarrow> st1\<lparr>src := Some (s\<lparr>srcbase := 0, srclen := 0\<rparr>), srcwin_decided := False, srcwin_decided_early := False,
               match_minaddr := 0, match_maxaddr := 0, taroff := 0\<rparr>) in
     case hdr_out st2 of
       p0 # p1 # p2 # p3 # rest \<Rightarrow>
         (XD3_OK, xd3_freelist_output rest
           (st2\<lparr>hdr_out := [empty_page p0], data_out := [empty_page p1], inst_out := [empty_page p2], addr_out := [empty_page p3]\<rparr>))
     | _ \<Rightarrow> (C_UB, st2))"

section \<open>The state machine\<close>

text \<open>The label \<open>enc_output\<close> and the state \<open>ENC_POSTOUT\<close>, from the page \<open>enc_current\<close> on: empty pages are
  skipped, the end of the chain ends the window.\<close>

definition enc_window_done :: "xd3_stream \<Rightarrow> xd3_ret \<times> xd3_stream" where
  "enc_window_done st =
    (XD3_WINFINISH, st\<lparr>enc_current := [], total_in := total_in st + ucast (avail_in st), enc_state := ENC_POSTWIN\<rparr>)"

fun enc_output :: "xd3_output list \<Rightarrow> xd3_stream \<Rightarrow> xd3_ret \<times> xd3_stream" where
  "enc_output [] st = enc_window_done st"
| "enc_output (pg # rest) st =
    (let st1 = st\<lparr>enc_state := ENC_POSTOUT, enc_current := pg # rest, enc_next_out := pg_data pg,
           avail_out := of_nat (length (pg_data pg)),
           total_out := total_out st + ucast (of_nat (length (pg_data pg)) :: u32)\<rparr> in
     if avail_out st1 > 0 then (XD3_OUTPUT, st1) else enc_output rest st1)"

definition enc_postout :: "xd3_stream \<Rightarrow> xd3_ret \<times> xd3_stream" where
  "enc_postout st =
    (if avail_out st \<noteq> 0 then fail_with XD3_INTERNAL ''missed call to consume output'' st
     else (case enc_current st of
             [] \<Rightarrow> (C_UB, st)
           | pg # rest \<Rightarrow> enc_output rest st))"

definition enc_flush :: "xd3_stream \<Rightarrow> xd3_ret \<times> xd3_stream" where
  "enc_flush st =
    bind_ok (xd3_emit_hdr st)
      (\<lambda>st1. let pages = hdr_out st1 @ data_out st1 @ inst_out st1 @ addr_out st1 in
        enc_output pages (st1\<lparr>hdr_out := pages, data_out := [], inst_out := [], addr_out := []\<rparr>))"

definition enc_instr :: "xd3_stream \<Rightarrow> xd3_ret \<times> xd3_stream" where
  "enc_instr st =
    bind_ok (bind_ok (xd3_iopt_flush_instructions True st) xd3_iopt_add_finalize)
      (\<lambda>st1. enc_flush (st1\<lparr>enc_state := ENC_FLUSH\<rparr>))"

text \<open>Reentrant matching before the string matcher.  The return value of the setup is not looked at.\<close>

definition enc_resume_match :: "bool \<Rightarrow> xd3_stream \<Rightarrow> xd3_ret \<times> xd3_stream" where
  "enc_resume_match unaligned_ok st =
    (if src st = None \<or> match_state st = MATCH_SEARCHING then (XD3_OK, st)
     else
       let st1 =
         (if match_state st = MATCH_TARGET then
            (if avail_in st > 0 then (snd (xd3_source_match_setup (match_srcpos st) st))\<lparr>match_state := MATCH_FORWARD\<rparr>
             else st\<lparr>match_state := MATCH_SEARCHING, match_fwd := 0\<rparr>)
          else st) in
       if avail_in st1 \<noteq> 0 then
         bind_ok (xd3_source_extend_match unaligned_ok st1)
           (\<lambda>st2. (XD3_OK, st2\<lparr>input_position := input_position st2 + match_fwd st2\<rparr>))
       else (XD3_OK, st1))"

definition enc_search :: "bool \<Rightarrow> xd3_stream \<Rightarrow> xd3_ret \<times> xd3_stream" where
  "enc_search unaligned_ok st =
    bind_ok (enc_resume_match unaligned_ok st)
      (\<lambda>st1. bind_ok (if avail_in st1 \<noteq> 0 then xd3_string_match unaligned_ok st1 else (XD3_OK, st1))
        (\<lambda>st2. enc_instr (st2\<lparr>enc_state := ENC_INSTR\<rparr>)))"

text \<open>The label \<open>enc_flush\<close> of the C: the input of a window is complete.\<close>

definition enc_begin :: "xd3_stream \<Rightarrow> xd3_ret \<times> xd3_stream" where
  "enc_begin st =
    bind_ok
      (if buf_leftover st \<noteq> None \<or> buf_avail st \<noteq> 0 \<or> (avail_in st < winsize st \<and> \<not> flag_set (flags st) XD3_FLUSH)
       then xd3_encode_buffer_leftover st else (XD3_OK, st))
      (\<lambda>st1. case xd3_init_cache (acache st1) of
         None \<Rightarrow> (C_UB, st1)
       | Some ac \<Rightarrow>
          (XD3_WINSTART, st1\<lparr>acache := ac, input_position := 0, min_match := of_nat MIN_MATCH,
             unencoded_offset := 0, enc_state := ENC_SEARCH\<rparr>))"

definition enc_input :: "xd3_stream \<Rightarrow> xd3_ret \<times> xd3_stream" where
  "enc_input st = (if \<not> in_given st then (XD3_INPUT, st) else enc_begin st)"

definition enc_postwin :: "xd3_stream \<Rightarrow> xd3_ret \<times> xd3_stream" where
  "enc_postwin st =
    bind_ok (xd3_encode_reset st)
      (\<lambda>st1. let st2 = st1\<lparr>current_window := current_window st1 + 1, enc_state := ENC_INPUT\<rparr> in
        if buf_leftover st2 \<noteq> None then enc_begin st2 else (XD3_INPUT, st2))"

definition xd3_encode_input :: "bool \<Rightarrow> xd3_stream \<Rightarrow> xd3_ret \<times> xd3_stream" where
  "xd3_encode_input unaligned_ok st =
    (if dec_state st \<noteq> DEC_VCHEAD then fail_with XD3_INTERNAL ''encoder/decoder transition'' st
     else
       (case enc_state st of
          ENC_INIT \<Rightarrow> bind_ok (xd3_encode_init_full st) (\<lambda>st1. enc_input (st1\<lparr>enc_state := ENC_INPUT\<rparr>))
        | ENC_INPUT \<Rightarrow> enc_input st
        | ENC_SEARCH \<Rightarrow> enc_search unaligned_ok st
        | ENC_INSTR \<Rightarrow> enc_instr st
        | ENC_FLUSH \<Rightarrow> enc_flush st
        | ENC_POSTOUT \<Rightarrow> enc_postout st
        | ENC_POSTWIN \<Rightarrow> enc_postwin st
        | ENC_ABORTED \<Rightarrow> fail_with XD3_INTERNAL ''invalid state'' st))"

definition xd3_set_appheader :: "u8 list option \<Rightarrow> u32 \<Rightarrow> xd3_stream \<Rightarrow> xd3_stream" where
  "xd3_set_appheader data sz st = st\<lparr>enc_appheader := data, enc_appheadsz := sz\<rparr>"

end
