(* ===== verification/Xd3_Process.thy ===== *)
theory Xd3_Process
  imports Xd3_Encode Xd3_Decode_Input
begin

text \<open>
  The life of a stream and the client functions of xdelta3.c: configuration, freeing, closing, the
  application header, and the functions that run the encoder or the decoder over a whole input in
  memory.

  Parameters of this part are the allocator of the C library \<open>malloc\<close> (whether the n-th call succeeds)
  and the content \<open>junk\<close> of fresh memory.  The secondary compressors' settings are not read in this
  build and are left out of \<open>xd3_config\<close>, as is \<open>whole_target\<close>, which only the merge command fills.
\<close>

section \<open>Configuration\<close>

definition XD3_SEC_DJW :: u32 where "XD3_SEC_DJW = push_bit 5 1"
definition XD3_SEC_FGK :: u32 where "XD3_SEC_FGK = push_bit 6 1"
definition XD3_SEC_LZMA :: u32 where "XD3_SEC_LZMA = push_bit 24 1"
definition XD3_SEC_TYPE :: u32 where "XD3_SEC_TYPE = XD3_SEC_DJW OR XD3_SEC_FGK OR XD3_SEC_LZMA"
definition XD3_SEC_NODATA :: u32 where "XD3_SEC_NODATA = push_bit 7 1"
definition XD3_SEC_NOINST :: u32 where "XD3_SEC_NOINST = push_bit 8 1"
definition XD3_SEC_NOADDR :: u32 where "XD3_SEC_NOADDR = push_bit 9 1"
definition XD3_SEC_NOALL :: u32 where "XD3_SEC_NOALL = XD3_SEC_NODATA OR XD3_SEC_NOINST OR XD3_SEC_NOADDR"
definition XD3_COMPLEVEL_SHIFT :: nat where "XD3_COMPLEVEL_SHIFT = 20"
definition XD3_COMPLEVEL_MASK :: u32 where "XD3_COMPLEVEL_MASK = push_bit XD3_COMPLEVEL_SHIFT 0xF"

text \<open>\<open>XD3_SMATCH_OTHER\<close> stands for the values of the enum's integer type that name no matcher.\<close>

datatype xd3_smatch_cfg =
    XD3_SMATCH_DEFAULT | XD3_SMATCH_SLOW | XD3_SMATCH_FAST | XD3_SMATCH_FASTER | XD3_SMATCH_FASTEST
  | XD3_SMATCH_SOFT | XD3_SMATCH_OTHER

definition smatch :: "string \<Rightarrow> u32 \<Rightarrow> u32 \<Rightarrow> u32 \<Rightarrow> u32 \<Rightarrow> u32 \<Rightarrow> u32 \<Rightarrow> u32 \<Rightarrow> xd3_smatcher" where
  "smatch nm ll ls sl sc slc ml le =
    \<lparr>sm_name = nm, large_look = ll, large_step = ls, small_look = sl, small_chain = sc, small_lchain = slc,
     max_lazy = ml, long_enough = le\<rparr>"

definition smatcher_null :: xd3_smatcher where "smatcher_null = smatch '''' 0 0 0 0 0 0 0"
definition smatcher_fastest :: xd3_smatcher where "smatcher_fastest = smatch ''fastest'' 9 26 4 1 1 6 6"
definition smatcher_faster :: xd3_smatcher where "smatcher_faster = smatch ''faster'' 9 15 4 1 1 18 18"
definition smatcher_fast :: xd3_smatcher where "smatcher_fast = smatch ''fast'' 9 8 4 4 1 18 35"
definition smatcher_slow :: xd3_smatcher where "smatcher_slow = smatch ''slow'' 9 2 4 44 13 90 70"
definition smatcher_default :: xd3_smatcher where "smatcher_default = smatch ''default'' 9 3 4 8 2 36 70"

record xd3_config =
  cfg_winsize :: u32
  cfg_sprevsz :: u32
  cfg_iopt_size :: u32
  cfg_getblk :: "(xd3_source \<Rightarrow> u64 \<Rightarrow> xd3_ret \<times> xd3_source) option"
  cfg_alloc :: "(nat \<Rightarrow> u32 \<Rightarrow> u32 \<Rightarrow> bool) option"
  cfg_flags :: u32
  cfg_smatch_cfg :: xd3_smatch_cfg
  cfg_smatcher_soft :: xd3_smatcher

definition null_config :: xd3_config where
  "null_config = \<lparr>cfg_winsize = 0, cfg_sprevsz = 0, cfg_iopt_size = 0, cfg_getblk = None, cfg_alloc = None,
     cfg_flags = 0, cfg_smatch_cfg = XD3_SMATCH_DEFAULT, cfg_smatcher_soft = smatcher_null\<rparr>"

definition xd3_init_config :: "u32 \<Rightarrow> xd3_config" where
  "xd3_init_config fl = null_config\<lparr>cfg_flags := fl\<rparr>"

definition null_stats :: xd3_stats where
  "null_stats = \<lparr>n_scpy = 0, n_tcpy = 0, n_add = 0, n_run = 0, l_scpy = 0, l_tcpy = 0, l_add = 0, l_run = 0\<rparr>"

definition null_hash :: xd3_hash_cfg where
  "null_hash = \<lparr>hash_size = 0, hash_shift = 0, hash_mask = 0\<rparr>"

text \<open>A stream after \<open>memset (stream, 0, sizeof (*stream))\<close>.\<close>

definition null_stream :: "(nat \<Rightarrow> u32 \<Rightarrow> u32 \<Rightarrow> bool) \<Rightarrow> (nat \<Rightarrow> u8) \<Rightarrow> xd3_stream" where
  "null_stream al junk =
    xd3_matching.extend (xd3_enccfg.extend (xd3_decoder.extend (null_decoder ((null_io al)\<lparr>uninit := junk\<rparr>))
      (xd3_enccfg.fields 0 0 0 False smatcher_null None None null_hash None None False null_hash))
      (xd3_matching.fields 0 0 0 0 False False 0 MATCH_TARGET 0 0 0 0 0 0 0 0 0))
      (xd3_stream.fields None 0 None 0 [] [] [] [] [] [] 0 [] [] None 0 None 0 null_stats 0)"

text \<open>The first statements, which set the fields before any check.\<close>

definition config_initial :: "(nat \<Rightarrow> u32 \<Rightarrow> u32 \<Rightarrow> bool) \<Rightarrow> (nat \<Rightarrow> u8) \<Rightarrow> xd3_config \<Rightarrow> xd3_stream" where
  "config_initial malloc junk cfg =
    (null_stream (case cfg_alloc cfg of Some a \<Rightarrow> a | None \<Rightarrow> malloc) junk)\<lparr>
      winsize := (if cfg_winsize cfg \<noteq> 0 then cfg_winsize cfg else XD3_DEFAULT_WINSIZE),
      sprevsz := (if cfg_sprevsz cfg \<noteq> 0 then cfg_sprevsz cfg else XD3_DEFAULT_SPREVSZ),
      iopt_size := (if cfg_iopt_size cfg = 0 then XD3_ALLOCSIZE div sizeof_rinst else cfg_iopt_size cfg),
      iopt_unlimited := (cfg_iopt_size cfg = 0),
      getblk := cfg_getblk cfg,
      flags := cfg_flags cfg\<rparr>"

definition config_secondary :: "xd3_stream \<Rightarrow> xd3_ret \<times> xd3_stream" where
  "config_secondary st =
    (let t = flags st AND XD3_SEC_TYPE in
     if t = 0 then
       (if flag_set (flags st) XD3_SEC_NOALL
        then fail_with XD3_INTERNAL ''XD3_SEC flags require a secondary compressor type'' st else (XD3_OK, st))
     else if t = XD3_SEC_FGK then fail_with XD3_INTERNAL ''unavailable secondary compressor: FGK Adaptive Huffman'' st
     else if t = XD3_SEC_DJW then fail_with XD3_INTERNAL ''unavailable secondary compressor: DJW Static Huffman'' st
     else if t = XD3_SEC_LZMA then fail_with XD3_INTERNAL ''unavailable secondary compressor: LZMA'' st
     else fail_with XD3_INTERNAL ''too many secondary compressor types set'' st)"

definition config_table :: "xd3_stream \<Rightarrow> xd3_ret \<times> xd3_stream" where
  "config_table st =
    (if flags st AND XD3_ALT_CODE_TABLE = 0 then (XD3_OK, st\<lparr>code_table_desc := Some rfc3284_code_table_desc\<rparr>)
     else fail_with XD3_INTERNAL ''alternate code table support was not compiled'' st)"

text \<open>The matcher consulted here is the zeroed one of the stream.\<close>

definition config_sprev :: "xd3_stream \<Rightarrow> xd3_ret \<times> xd3_stream" where
  "config_sprev st =
    (if small_chain (smatcher st) = 1 \<and> small_lchain (smatcher st) = 1 then (XD3_OK, st\<lparr>sprevsz := 0\<rparr>)
     else if fst (xd3_check_pow2 (ucast (sprevsz st))) \<noteq> XD3_OK
       then fail_with XD3_INTERNAL ''sprevsz is required to be a power of two'' st
     else (XD3_OK, st\<lparr>sprevmask := sprevsz st - 1\<rparr>))"

definition level_smatcher :: "u32 \<Rightarrow> xd3_smatcher" where
  "level_smatcher level =
    (if level = 1 then smatcher_fastest
     else if level = 2 then smatcher_faster
     else if level = 3 \<or> level = 4 \<or> level = 5 then smatcher_fast
     else if level = 6 then smatcher_default
     else smatcher_slow)"

definition config_smatcher :: "xd3_config \<Rightarrow> xd3_stream \<Rightarrow> xd3_ret \<times> xd3_stream" where
  "config_smatcher cfg st =
    bind_ok
      (case cfg_smatch_cfg cfg of
         XD3_SMATCH_SOFT \<Rightarrow>
           (let sm = (cfg_smatcher_soft cfg)\<lparr>sm_name := ''soft''\<rparr>; st1 = st\<lparr>smatcher := sm\<rparr> in
            if large_look sm < of_nat MIN_MATCH \<or> large_step sm < 1 \<or> small_look sm < of_nat MIN_MATCH
            then fail_with XD3_INVALID ''invalid soft string-match config'' st1 else (XD3_OK, st1))
       | XD3_SMATCH_DEFAULT \<Rightarrow> (XD3_OK, st\<lparr>smatcher := smatcher_default\<rparr>)
       | XD3_SMATCH_SLOW \<Rightarrow> (XD3_OK, st\<lparr>smatcher := smatcher_slow\<rparr>)
       | XD3_SMATCH_FASTEST \<Rightarrow> (XD3_OK, st\<lparr>smatcher := smatcher_fastest\<rparr>)
       | XD3_SMATCH_FASTER \<Rightarrow> (XD3_OK, st\<lparr>smatcher := smatcher_faster\<rparr>)
       | XD3_SMATCH_FAST \<Rightarrow> (XD3_OK, st\<lparr>smatcher := smatcher_fast\<rparr>)
       | XD3_SMATCH_OTHER \<Rightarrow> fail_with XD3_INTERNAL ''invalid string match config type'' st)
      (\<lambda>st1. (XD3_OK,
        if cfg_smatch_cfg cfg = XD3_SMATCH_DEFAULT \<and> flags st1 AND XD3_COMPLEVEL_MASK \<noteq> 0
        then st1\<lparr>smatcher := level_smatcher (drop_bit XD3_COMPLEVEL_SHIFT (flags st1 AND XD3_COMPLEVEL_MASK))\<rparr>
        else st1))"

definition xd3_config_stream ::
    "(nat \<Rightarrow> u32 \<Rightarrow> u32 \<Rightarrow> bool) \<Rightarrow> (nat \<Rightarrow> u8) \<Rightarrow> xd3_config option \<Rightarrow> xd3_ret \<times> xd3_stream" where
  "xd3_config_stream malloc junk cfg0 =
    (let cfg = (case cfg0 of Some c \<Rightarrow> c | None \<Rightarrow> null_config); st = config_initial malloc junk cfg in
     if fst (xd3_check_pow2 (ucast XD3_ALLOCSIZE)) \<noteq> XD3_OK
     then fail_with XD3_INTERNAL ''incorrect compilation: wrong integer sizes'' st
     else bind_ok (config_secondary st) (\<lambda>st1. bind_ok (config_table st1) (\<lambda>st2.
            bind_ok (config_sprev st2) (config_smatcher cfg))))"

section \<open>Freeing, closing, the application header\<close>

definition free_heads :: "xd3_stream \<Rightarrow> xd3_stream" where
  "free_heads st =
    xd3_free_output (enc_free st) (xd3_free_output (addr_out st) (xd3_free_output (inst_out st)
      (xd3_free_output (data_out st) (xd3_free_output (hdr_out st) st))))"

text \<open>All of \<open>xd3_free_stream\<close> but the final \<open>memset\<close>: every buffer goes back to the allocator.\<close>

definition free_buffers :: "xd3_stream \<Rightarrow> xd3_ret \<times> xd3_stream" where
  "free_buffers st0 =
    (let st1 = ((\<lambda>s. xd3_free (xd3_free s)) ^^ iopt_alloc st0) st0;
         st2 = free_heads (xd3_free_opt (small_prev st1) (xd3_free_opt (small_table st1) (xd3_free_opt (large_table st1) st1)));
         st3 = xd3_free_opt (same_array (acache st2)) (xd3_free_opt (near_array (acache st2)) st2);
         st4 = xd3_free_opt (sect_copied1 (data_sect st3)) (xd3_free_opt (sect_copied1 (addr_sect st3))
                 (xd3_free_opt (sect_copied1 (inst_sect st3)) st3)) in
     bind_ok (bind_ok (free_out (dec_buffer st4) st4) (\<lambda>st5. free_out (dec_lastwin st5) st5))
       (\<lambda>st5. (XD3_OK, xd3_free_opt (code_table_alloc st5) (xd3_free_opt (dec_codetbl st5)
                 (xd3_free_opt (dec_appheader st5) (xd3_free_opt (buf_in st5) st5))))))"

definition xd3_free_stream :: "xd3_stream \<Rightarrow> xd3_ret \<times> xd3_stream" where
  "xd3_free_stream st =
    (case free_buffers st of (r, st1) \<Rightarrow> if r \<noteq> XD3_OK then (r, st1) else (XD3_OK, null_stream (alloc st1) (uninit st1)))"

definition xd3_abort_stream :: "xd3_stream \<Rightarrow> xd3_stream" where
  "xd3_abort_stream st = st\<lparr>dec_state := DEC_ABORTED, enc_state := ENC_ABORTED\<rparr>"

definition xd3_close_stream :: "xd3_stream \<Rightarrow> xd3_ret \<times> xd3_stream" where
  "xd3_close_stream st =
    (if enc_state st \<noteq> ENC_INIT \<and> enc_state st \<noteq> ENC_ABORTED then
       (if buf_leftover st \<noteq> None then fail_with XD3_INTERNAL ''encoding is incomplete'' st
        else
          bind_ok
            (if enc_state st = ENC_POSTWIN then
               bind_ok (xd3_encode_reset st)
                 (\<lambda>st1. (XD3_OK, st1\<lparr>current_window := current_window st1 + 1, enc_state := ENC_INPUT\<rparr>))
             else (XD3_OK, st))
            (\<lambda>st1. if enc_state st1 \<noteq> ENC_INPUT \<or> avail_in st1 \<noteq> 0
                    then fail_with XD3_INTERNAL ''encoding is incomplete'' st1 else (XD3_OK, st1)))
     else if dec_state st = DEC_VCHEAD \<or> dec_state st = DEC_WININD \<or> dec_state st = DEC_ABORTED then (XD3_OK, st)
     else fail_with XD3_INTERNAL ''EOF in decode'' st)"

text \<open>\<open>dec_state < DEC_WININD\<close> in the order of the enum.\<close>

definition before_winind :: "xd3_decode_state \<Rightarrow> bool" where
  "before_winind d \<longleftrightarrow> d \<in> {DEC_VCHEAD, DEC_HDRIND, DEC_SECONDID, DEC_TABLEN, DEC_NEAR, DEC_SAME, DEC_TABDAT,
     DEC_APPLEN, DEC_APPDAT}"

definition xd3_get_appheader :: "'a xd3_decoder_scheme \<Rightarrow> xd3_ret \<times> u8 list option \<times> u32 \<times> 'a xd3_decoder_scheme" where
  "xd3_get_appheader st =
    (if before_winind (dec_state st) then
       (case fail_with XD3_INTERNAL ''application header not available'' st of (r, st1) \<Rightarrow> (r, None, 0, st1))
     else (XD3_OK, dec_appheader st, dec_appheadsz st, st))"

section \<open>Running a stream over an input in memory\<close>

text \<open>The bytes at \<open>stream->next_out\<close>: a page of the encoder or the target buffer of the decoder.\<close>

definition stream_out :: "xd3_stream \<Rightarrow> u8 list" where
  "stream_out st =
    (if enc_state st \<noteq> ENC_INIT then enc_next_out st
     else (case next_out st of None \<Rightarrow> [] | Some h \<Rightarrow> (case out_heap st h of None \<Rightarrow> [] | Some b \<Rightarrow> b)))"

text \<open>The code after the switch.  \<open>out\<close> holds the \<open>*output_size\<close> bytes written so far to a buffer of
  \<open>output_size_max\<close> bytes.\<close>

definition process_output :: "u32 \<Rightarrow> u8 list \<Rightarrow> xd3_stream \<Rightarrow> xd3_ret \<times> u8 list \<times> xd3_stream" where
  "process_output output_size_max out st =
    (if of_nat (length out) + avail_out st > output_size_max then
       (case fail_with ENOSPC ''insufficient output space'' st of (r, st1) \<Rightarrow> (r, out, st1))
     else if length out + unat (avail_out st) > unat output_size_max \<or> length (stream_out st) < unat (avail_out st)
       then (C_UB, out, st)
     else (XD3_OK, out @ take (unat (avail_out st)) (stream_out st), xd3_consume_output st))"

partial_function (option) process_loop ::
    "(xd3_stream \<Rightarrow> xd3_ret \<times> xd3_stream) \<Rightarrow> bool \<Rightarrow> u8 list \<Rightarrow> u32 \<Rightarrow> u32 \<Rightarrow> u32 \<Rightarrow> u8 list \<Rightarrow> xd3_stream
      \<Rightarrow> (xd3_ret \<times> u8 list \<times> xd3_stream) option" where
  "process_loop func close_stream input input_size output_size_max ipos out st =
    (case func st of
       (r, st1) \<Rightarrow>
         if r = XD3_OUTPUT then
           (case process_output output_size_max out st1 of
              (r2, out2, st2) \<Rightarrow>
                if r2 \<noteq> XD3_OK then Some (r2, out2, st2)
                else process_loop func close_stream input input_size output_size_max ipos out2 st2)
         else if r = XD3_INPUT then
           (let n = min (winsize st1) (input_size - ipos) in
            if n = 0 then Some (if close_stream then (case xd3_close_stream st1 of (r2, st2) \<Rightarrow> (r2, out, st2)) else (XD3_OK, out, st1))
            else process_loop func close_stream input input_size output_size_max (ipos + n) out
                   (xd3_avail_input (drop (unat ipos) input) n st1))
         else if r = XD3_GOTHEADER \<or> r = XD3_WINSTART \<or> r = XD3_WINFINISH then
           process_loop func close_stream input input_size output_size_max ipos out st1
         else if r = XD3_GETSRCBLK then
           Some (case fail_with XD3_INTERNAL ''stream requires source input'' st1 of (r2, st2) \<Rightarrow> (r2, out, st2))
         else if r = XD3_OK then
           Some (case fail_with XD3_INTERNAL ''invalid return: 0'' st1 of (r2, st2) \<Rightarrow> (r2, out, st2))
         else Some (r, out, st1))"

declare process_loop.simps [code]

definition xd3_process_stream ::
    "(xd3_stream \<Rightarrow> xd3_ret \<times> xd3_stream) \<Rightarrow> bool \<Rightarrow> u8 list \<Rightarrow> u32 \<Rightarrow> u32 \<Rightarrow> xd3_stream
      \<Rightarrow> (xd3_ret \<times> u8 list \<times> xd3_stream) option" where
  "xd3_process_stream func close_stream input input_size output_size_max st =
    (let n = min (winsize st) input_size in
     process_loop func close_stream input input_size output_size_max n []
       (xd3_avail_input input n (st\<lparr>flags := flags st OR XD3_FLUSH\<rparr>)))"

definition memory_source :: "u8 list \<Rightarrow> u32 \<Rightarrow> xd3_source" where
  "memory_source data sz = \<lparr>blksize = sz, max_winsize = ucast sz, curblkno = 0, onblk = sz, curblk = Some data,
     srclen = 0, srcbase = 0, shiftby = 0, maskby = 0, cpyoff_blocks = 0, cpyoff_blkoff = 0, getblkno = 0, max_blkno = 0,
     frontier_blkno = 0, onlastblk = 0, eof_known = False\<rparr>"

definition memory_config :: "bool \<Rightarrow> u32 \<Rightarrow> u32 \<Rightarrow> xd3_ret \<times> xd3_config" where
  "memory_config is_encode input_size fl =
    (let cfg = null_config\<lparr>cfg_flags := fl\<rparr> in
     if \<not> is_encode then (XD3_OK, cfg)
     else
       let w = min input_size XD3_DEFAULT_WINSIZE in
       case xd3_pow2_roundup (ucast w) of
         None \<Rightarrow> (C_LOOP, cfg)
       | Some p \<Rightarrow> (XD3_OK, cfg\<lparr>cfg_winsize := w,
           cfg_iopt_size := max (min (input_size div 32) XD3_DEFAULT_IOPT_SIZE) 128, cfg_sprevsz := ucast p\<rparr>))"

text \<open>The return code and the output; a loop that does not end is \<open>C_LOOP\<close>.\<close>

definition xd3_process_memory ::
    "(nat \<Rightarrow> u32 \<Rightarrow> u32 \<Rightarrow> bool) \<Rightarrow> (nat \<Rightarrow> u8) \<Rightarrow> bool \<Rightarrow> (xd3_stream \<Rightarrow> xd3_ret \<times> xd3_stream)
      \<Rightarrow> u8 list option \<Rightarrow> u32 \<Rightarrow> u8 list option \<Rightarrow> u32 \<Rightarrow> bool \<Rightarrow> u32 \<Rightarrow> u32 \<Rightarrow> xd3_ret \<times> u8 list" where
  "xd3_process_memory malloc junk is_encode func input0 input_size source0 srcsize has_output output_size_max fl =
    (let finish = (\<lambda>r out st. case xd3_free_stream st of (r2, _) \<Rightarrow> if r2 \<noteq> XD3_OK then (r2, out) else (r, out));
         st0 = null_stream malloc junk in
     case input0 of
       None \<Rightarrow> finish XD3_INTERNAL [] (set_msg ''invalid input/output buffer'' st0)
     | Some input \<Rightarrow>
        if \<not> has_output then finish XD3_INTERNAL [] (set_msg ''invalid input/output buffer'' st0)
        else
          (case memory_config is_encode input_size fl of
             (rc, cfg) \<Rightarrow>
               if rc \<noteq> XD3_OK then (rc, [])
               else
                 (case xd3_config_stream malloc junk (Some cfg) of
                    (r, st) \<Rightarrow>
                      if r \<noteq> XD3_OK then finish r [] st
                      else
                        (case (case source0 of
                                 None \<Rightarrow> (XD3_OK, st)
                               | Some s \<Rightarrow> xd3_set_source_and_size (memory_source s srcsize) (ucast srcsize) st) of
                           (r2, st2) \<Rightarrow>
                             if r2 \<noteq> XD3_OK then finish r2 [] st2
                             else (case xd3_process_stream func True input input_size output_size_max st2 of
                                     None \<Rightarrow> (C_LOOP, [])
                                   | Some (r3, out, st3) \<Rightarrow> finish r3 out st3)))))"

text \<open>The decoder calls \<open>xd3_decode_memory\<close> on the code table of a file, which is shorter than the file;
  the first argument bounds the nesting.\<close>

fun decode_memory_n :: "nat \<Rightarrow> (nat \<Rightarrow> u32 \<Rightarrow> u32 \<Rightarrow> bool) \<Rightarrow> (nat \<Rightarrow> u8) \<Rightarrow> u8 list option \<Rightarrow> u32 \<Rightarrow> u8 list option \<Rightarrow> u32
    \<Rightarrow> bool \<Rightarrow> u32 \<Rightarrow> u32 \<Rightarrow> xd3_ret \<times> u8 list" where
  "decode_memory_n 0 malloc junk input input_size source0 srcsize has_output omax fl = (C_LOOP, [])"
| "decode_memory_n (Suc n) malloc junk input input_size source0 srcsize has_output omax fl =
    xd3_process_memory malloc junk False
      (xd3_decode_input (\<lambda>data sz s ssz. decode_memory_n n malloc junk (Some data) sz (Some s) ssz True
         (of_nat CODE_TABLE_STRING_SIZE) 0))
      input input_size source0 srcsize has_output omax fl"

definition table_decoder :: "(nat \<Rightarrow> u32 \<Rightarrow> u32 \<Rightarrow> bool) \<Rightarrow> (nat \<Rightarrow> u8) \<Rightarrow> decode_memory_fun" where
  "table_decoder malloc junk data sz s ssz =
     decode_memory_n (Suc (unat sz)) malloc junk (Some data) sz (Some s) ssz True (of_nat CODE_TABLE_STRING_SIZE) 0"

definition xd3_decode_stream :: "(nat \<Rightarrow> u32 \<Rightarrow> u32 \<Rightarrow> bool) \<Rightarrow> (nat \<Rightarrow> u8) \<Rightarrow> u8 list \<Rightarrow> u32 \<Rightarrow> u32 \<Rightarrow> xd3_stream
    \<Rightarrow> (xd3_ret \<times> u8 list \<times> xd3_stream) option" where
  "xd3_decode_stream malloc junk input input_size output_size_max st =
    xd3_process_stream (xd3_decode_input (table_decoder malloc junk)) True input input_size output_size_max st"

definition xd3_decode_memory :: "(nat \<Rightarrow> u32 \<Rightarrow> u32 \<Rightarrow> bool) \<Rightarrow> (nat \<Rightarrow> u8) \<Rightarrow> u8 list option \<Rightarrow> u32 \<Rightarrow> u8 list option \<Rightarrow> u32
    \<Rightarrow> bool \<Rightarrow> u32 \<Rightarrow> u32 \<Rightarrow> xd3_ret \<times> u8 list" where
  "xd3_decode_memory malloc junk input input_size source0 srcsize has_output output_size_max fl =
    xd3_process_memory malloc junk False (xd3_decode_input (table_decoder malloc junk))
      input input_size source0 srcsize has_output output_size_max fl"

definition xd3_encode_stream :: "bool \<Rightarrow> u8 list \<Rightarrow> u32 \<Rightarrow> u32 \<Rightarrow> xd3_stream \<Rightarrow> (xd3_ret \<times> u8 list \<times> xd3_stream) option" where
  "xd3_encode_stream unaligned_ok input input_size output_size_max st =
    xd3_process_stream (xd3_encode_input unaligned_ok) True input input_size output_size_max st"

definition xd3_encode_memory :: "bool \<Rightarrow> (nat \<Rightarrow> u32 \<Rightarrow> u32 \<Rightarrow> bool) \<Rightarrow> (nat \<Rightarrow> u8) \<Rightarrow> u8 list option \<Rightarrow> u32 \<Rightarrow> u8 list option \<Rightarrow> u32
    \<Rightarrow> bool \<Rightarrow> u32 \<Rightarrow> u32 \<Rightarrow> xd3_ret \<times> u8 list" where
  "xd3_encode_memory unaligned_ok malloc junk input input_size source0 srcsize has_output output_size_max fl =
    xd3_process_memory malloc junk True (xd3_encode_input unaligned_ok)
      input input_size source0 srcsize has_output output_size_max fl"

section \<open>Shared facts\<close>

lemma pow2_checks: "fst (xd3_check_pow2 (ucast XD3_ALLOCSIZE)) = XD3_OK" "fst (xd3_check_pow2 (ucast XD3_DEFAULT_SPREVSZ)) = XD3_OK"
  by code_simp+

lemmas null_stream_defs = null_stream_def null_defs xd3_enccfg.defs xd3_matching.defs xd3_stream.defs

end
