(* ===== verification/Xd3_Encode_Spec.thy ===== *)
theory Xd3_Encode_Spec
  imports Xd3_Encode Xd3_Decode_Spec
begin

text \<open>
  The encoder's instructions mean the input.  The sections the encoder has emitted, together with the
  instruction that still waits to be emitted, decode under the specification of VCDIFF windows to the part of the
  input encoded so far.  Encoding an instruction keeps this, as long as a COPY is a match and a RUN is a
  run; so does flushing the instruction buffer, which first makes its instructions disjoint.
\<close>

section \<open>Sections that go on\<close>

definition vapp :: "vwin \<Rightarrow> u8 list \<Rightarrow> u8 list \<Rightarrow> u8 list \<Rightarrow> vwin" where
  "vapp w i a d = w\<lparr>v_inst := v_inst w @ i, v_addr := v_addr w @ a, v_data := v_data w @ d\<rparr>"

lemma vapp_fields [simp]:
  "v_inst (vapp w i a d) = v_inst w @ i" "v_addr (vapp w i a d) = v_addr w @ a" "v_data (vapp w i a d) = v_data w @ d"
  "v_cache (vapp w i a d) = v_cache w" "v_tgt (vapp w i a d) = v_tgt w"
  by (simp_all add: vapp_def)

lemma vapp_upd:
  "vapp (w\<lparr>v_inst := x\<rparr>) i a d = (vapp w i a d)\<lparr>v_inst := x @ i\<rparr>"
  "vapp (w\<lparr>v_tgt := t\<rparr>) i a d = (vapp w i a d)\<lparr>v_tgt := t\<rparr>"
  "vapp (w\<lparr>v_cache := c\<rparr>) i a d = (vapp w i a d)\<lparr>v_cache := c\<rparr>"
  by (simp_all add: vapp_def)

lemma read_uint32_append:
  assumes "xd3_read_uint32_t bs = Inr (v, rest)"
  shows "xd3_read_uint32_t (bs @ x) = Inr (v, rest @ x)"
proof -
  obtain enc where e: "bs = enc @ rest" "wf_int enc" "unat v = numeral7 0 enc"
    using varint32.read_sound [of 0 bs v rest] assms by (auto simp: xd3_read_uint32_t_def)
  have "numeral7 (unat (0 :: u32)) enc < 2 ^ LENGTH(32)" using e(3) unat_u32_less [of v] by simp
  from varint32.read_complete [OF e(2) this, of "rest @ x"] show ?thesis
    using e by (simp add: xd3_read_uint32_t_def) (metis ucast_id of_nat_unat)
qed

lemma decode_address_append:
  assumes "xd3_decode_address ac here m inp = Inr (a, rest, ac')"
  shows "xd3_decode_address ac here m (inp @ x) = Inr (a, rest @ x, ac')"
proof (cases "m < 2 + s_near ac")
  case True
  then obtain v r where "xd3_read_uint32_t inp = Inr (v, r)"
    using assms by (auto simp: xd3_decode_address_def split: sum.splits)
  then show ?thesis using assms True read_uint32_append [of inp v r x]
    by (auto simp: xd3_decode_address_def Let_def split: if_splits option.splits)
next
  case False
  then show ?thesis using assms
    by (cases inp) (auto simp: xd3_decode_address_def Let_def split: option.splits)
qed

text \<open>An instruction whose size is known.\<close>

definition vop :: "u8 list \<Rightarrow> nat \<Rightarrow> u8 \<Rightarrow> nat \<Rightarrow> vwin \<Rightarrow> vwin option" where
  "vop S lim t n w =
    (if t \<ge> XD3_CPY then
       (let here = length S + length (v_tgt w) in
        case xd3_decode_address (v_cache w) (of_nat here) (ucast (t - XD3_CPY)) (v_addr w) of
          Inl _ \<Rightarrow> None
        | Inr (a, rest, ac) \<Rightarrow>
           (if unat a < here \<and> (unat a < length S \<longrightarrow> unat a + n \<le> length S) \<and> length (v_tgt w) + n \<le> lim
            then Some (w\<lparr>v_addr := rest, v_cache := ac, v_tgt := drop (length S) (copy_ext (S @ v_tgt w) (unat a) n)\<rparr>)
            else None))
     else if length (v_tgt w) + n > lim then None
     else if t = XD3_RUN then
       (case v_data w of
          [] \<Rightarrow> None
        | b # rest \<Rightarrow> Some (w\<lparr>v_data := rest, v_tgt := v_tgt w @ replicate n b\<rparr>))
     else
       (if n \<le> length (v_data w)
        then Some (w\<lparr>v_data := drop n (v_data w), v_tgt := v_tgt w @ take n (v_data w)\<rparr>)
        else None))"

lemma vhalf_vop: "vhalf S lim t sz0 w = (case vsize sz0 w of None \<Rightarrow> None | Some (n, w1) \<Rightarrow> vop S lim t n w1)"
  unfolding vhalf_def vop_def by (rule refl)

lemma vsize_app: "vsize sz0 w = Some (n, w1) \<Longrightarrow> vsize sz0 (vapp w i a d) = Some (n, vapp w1 i a d)"
  using read_uint32_append [of "v_inst w" _ _ i]
  by (auto simp: vsize_def vapp_upd split: if_splits sum.splits prod.splits)

lemma vop_app:
  assumes "vop S lim t n w = Some w1"
  shows "vop S lim t n (vapp w i a d) = Some (vapp w1 i a d)"
proof (cases "XD3_CPY \<le> t")
  case True
  then obtain x rest ac where "xd3_decode_address (v_cache w) (of_nat (length S + length (v_tgt w))) (ucast (t - XD3_CPY)) (v_addr w)
      = Inr (x, rest, ac)" using assms by (auto simp: vop_def Let_def split: sum.splits)
  then show ?thesis using True assms decode_address_append [of "v_cache w" _ _ "v_addr w" x rest ac a]
    by (auto simp: vop_def Let_def vapp_def split: if_splits)
next
  case False
  show ?thesis
  proof (cases "t = XD3_RUN")
    case True
    then show ?thesis using False assms by (cases "v_data w") (auto simp: vop_def vapp_def split: if_splits)
  next
    case add: False
    then show ?thesis using False assms by (auto simp: vop_def vapp_def split: if_splits)
  qed
qed

lemma vhalf_app: "vhalf S lim t sz0 w = Some w1 \<Longrightarrow> vhalf S lim t sz0 (vapp w i a d) = Some (vapp w1 i a d)"
  by (auto simp: vhalf_vop vsize_app vop_app split: option.splits)

lemma vinst_app:
  assumes "vinst tbl S lim w = Some w1"
  shows "vinst tbl S lim (vapp w i a d) = Some (vapp w1 i a d)"
proof -
  obtain b rest where b: "v_inst w = b # rest" using assms by (auto simp: vinst_def split: list.splits)
  have r: "(vapp w i a d)\<lparr>v_inst := rest @ i\<rparr> = vapp (w\<lparr>v_inst := rest\<rparr>) i a d" by (simp add: vapp_upd)
  show ?thesis using assms b
    by (auto simp: vinst_def Let_def r vhalf_app split: if_splits option.splits)
qed

lemma vrun_empty: "v_inst w = [] \<Longrightarrow> vrun tbl S lim w = Some w"
  by (simp add: vrun.simps)

lemma vrun_done: "vrun tbl S lim w = Some w1 \<Longrightarrow> v_inst w1 = []"
  by (induction tbl S lim w rule: vrun.induct) (auto simp: vrun.simps split: if_splits option.splits)

lemma vrun_app:
  assumes "vrun tbl S lim w = Some w1"
  shows "vrun tbl S lim (vapp w i a d) = vrun tbl S lim (vapp w1 i a d)"
  using assms
proof (induction tbl S lim w rule: vrun.induct)
  case (1 tbl S lim w)
  show ?case
  proof (cases "v_inst w = []")
    case True
    then show ?thesis using 1(2) by (simp add: vrun_empty)
  next
    case False
    then obtain w2 where w2: "vinst tbl S lim w = Some w2" "length (v_inst w2) < length (v_inst w)" "vrun tbl S lim w2 = Some w1"
      using 1(2) by (subst (asm) vrun.simps) (auto split: option.splits if_splits)
    have "vrun tbl S lim (vapp w i a d) = vrun tbl S lim (vapp w2 i a d)"
      using False w2 vinst_app [OF w2(1)] by (subst vrun.simps) simp
    then show ?thesis using 1(1) [OF False w2(1,2,3)] by simp
  qed
qed

section \<open>Opcodes\<close>

lemma vsize_fixed: "sz0 \<noteq> 0 \<Longrightarrow> vsize sz0 w = Some (unat sz0, w)"
  by (simp add: vsize_def)

lemma vsize_explicit:
  "v_inst w = emit_integer_type (sz :: u32) @ r \<Longrightarrow> vsize 0 w = Some (unat sz, w\<lparr>v_inst := r\<rparr>)"
  by (simp add: vsize_def xd3_read_uint32_t_def varint32.read_emit)

definition single_bytes :: "xd3_rinst \<Rightarrow> u8 list" where
  "single_bytes r = r_code1 r # (if size1 (xd3_rfc3284_code_table ! unat (r_code1 r)) = 0 then emit_integer_type (r_size r) else [])"

lemma vinst_single:
  assumes "entry_codes (xd3_rfc3284_code_table ! unat (r_code1 r)) r" and "rfc3284_type (r_type r)"
    and "v_inst w = single_bytes r @ i"
  shows "vinst xd3_rfc3284_code_table S lim w = vop S lim (r_type r) (unat (r_size r)) (w\<lparr>v_inst := i\<rparr>)"
proof -
  let ?d = "xd3_rfc3284_code_table ! unat (r_code1 r)"
  have e: "type1 ?d = r_type r" "type2 ?d = XD3_NOOP" "size1 ?d = 0 \<or> ucast (size1 ?d) = r_size r"
    using assms(1) by (simp_all add: entry_codes_def)
  have t: "r_type r \<noteq> XD3_NOOP" using assms(2) by (auto simp: rfc3284_type_def inst_consts)
  have h: "vhalf S lim (r_type r) (size1 ?d) (w\<lparr>v_inst := tl (single_bytes r) @ i\<rparr>) = vop S lim (r_type r) (unat (r_size r)) (w\<lparr>v_inst := i\<rparr>)"
  proof (cases "size1 ?d = 0")
    case True
    then show ?thesis using vsize_explicit [of "w\<lparr>v_inst := tl (single_bytes r) @ i\<rparr>" "r_size r" i]
      by (simp add: vhalf_vop single_bytes_def)
  next
    case False
    then have "unat (size1 ?d) = unat (r_size r)" using e(3) by (metis unat_ucast_u8_u32)
    then show ?thesis using False by (simp add: vhalf_vop vsize_fixed single_bytes_def)
  qed
  show ?thesis using h t e by (simp add: vinst_def assms(3) single_bytes_def Let_def split: option.split)
qed

lemma vinst_double:
  assumes "entry_codes2 (xd3_rfc3284_code_table ! unat c) p r" and "rfc3284_type (r_type p)" "rfc3284_type (r_type r)"
    and "v_inst w = c # i" and "vop S lim (r_type p) (unat (r_size p)) (w\<lparr>v_inst := i\<rparr>) = Some w1"
  shows "vinst xd3_rfc3284_code_table S lim w = vop S lim (r_type r) (unat (r_size r)) w1"
proof -
  let ?d = "xd3_rfc3284_code_table ! unat c"
  have t: "r_type r \<noteq> XD3_NOOP" "r_type p \<noteq> XD3_NOOP" using assms(2,3) by (auto simp: rfc3284_type_def inst_consts)
  have u: "unat (size1 ?d) = unat (r_size p)" "unat (size2 ?d) = unat (r_size r)"
    using assms(1) by (metis entry_codes2_def unat_ucast_u8_u32)+
  show ?thesis using assms(1,4,5) t u
    by (simp add: vinst_def entry_codes2_def vhalf_vop vsize_fixed Let_def)
qed

section \<open>What emitting leaves alone\<close>

text \<open>Allocation changes the allocator's counters, the message and the free list, nothing else.\<close>

definition base_step :: "'a xd3_base_scheme \<Rightarrow> 'a xd3_base_scheme \<Rightarrow> bool" where
  "base_step st st' \<longleftrightarrow> (\<exists>c n f m e. st' = st\<lparr>alloc_calls := c, alloc_cnt := n, free_cnt := f, msg := m, enc_free := e\<rparr>)"

lemma base_stepI: "base_step st (st\<lparr>alloc_calls := c, alloc_cnt := n, free_cnt := f, msg := m, enc_free := e\<rparr>)"
  unfolding base_step_def by (intro exI) (rule refl)

lemma base_step_eqI:
  "st' = st\<lparr>alloc_calls := alloc_calls st', alloc_cnt := alloc_cnt st', free_cnt := free_cnt st', msg := msg st', enc_free := enc_free st'\<rparr>
    \<Longrightarrow> base_step st st'"
  using base_stepI by metis

lemma base_step_refl [simp]: "base_step st st"
  by (rule base_step_eqI) simp

lemma base_step_trans: "base_step st st1 \<Longrightarrow> base_step st1 st2 \<Longrightarrow> base_step st st2"
  by (auto simp: base_step_def intro!: base_stepI [unfolded base_step_def])

lemma alloc_step: "xd3_alloc a b st = (ok, st') \<Longrightarrow> base_step st st'"
  by (rule base_step_eqI) (auto simp: xd3_alloc_def Let_def split: if_splits)

lemma free_step: "base_step st (xd3_free st)"
  by (rule base_step_eqI) (simp add: xd3_free_def)

lemma alloc_output_step: "xd3_alloc_output st = (pg, st') \<Longrightarrow> base_step st st'"
proof (cases "enc_free st")
  case Nil
  assume "xd3_alloc_output st = (pg, st')"
  then show ?thesis using Nil
    by (auto simp: xd3_alloc_output_def split: prod.splits bool.splits dest!: alloc_step intro: base_step_trans free_step)
next
  case (Cons p ps)
  assume "xd3_alloc_output st = (pg, st')"
  then show ?thesis using Cons by (intro base_step_eqI) (auto simp: xd3_alloc_output_def)
qed

lemma page_room_step: "page_room out st = (r, out', st') \<Longrightarrow> base_step st st'"
  by (auto simp: page_room_def base_step_refl split: if_splits prod.splits option.splits dest: alloc_output_step)

lemma emit_byte_step: "xd3_emit_byte out b st = (r, out', st') \<Longrightarrow> base_step st st'"
  by (auto simp: xd3_emit_byte_def split: prod.splits if_splits dest: page_room_step)

lemma emit_bytes_step: "xd3_emit_bytes out bs st = (r, out', st') \<Longrightarrow> base_step st st'"
proof (induction out bs st rule: xd3_emit_bytes.induct)
  case (1 out bs st)
  obtain r1 out1 st1 where room: "page_room out st = (r1, out1, st1)" by (metis prod_cases3)
  then have s1: "base_step st st1" by (rule page_room_step)
  show ?case using 1(1) [OF room [symmetric] refl] 1(2) room s1
    by (subst (asm) xd3_emit_bytes.simps) (auto simp: Let_def split: if_splits intro: base_step_trans)
qed

section \<open>Running out of memory\<close>

text \<open>An allocator that never fails; \<open>ENOMEM\<close> is returned only when it is not one.\<close>

definition mem_ok :: "'a xd3_base_scheme \<Rightarrow> bool" where
  "mem_ok st \<longleftrightarrow> (\<forall>n a b. alloc st n a b)"

definition no_mem :: "'a xd3_base_scheme \<Rightarrow> xd3_ret \<Rightarrow> bool" where
  "no_mem st r \<longleftrightarrow> r = ENOMEM \<and> \<not> mem_ok st"

lemma no_mem_not_OK [simp]: "\<not> no_mem st XD3_OK"
  by (simp add: no_mem_def)

lemma no_mem_bind [simp]: "no_mem st r \<Longrightarrow> bind_ok (r, s) k = (r, s)"
  by (simp add: no_mem_def)

lemma mem_ok_step: "base_step st st' \<Longrightarrow> mem_ok st' = mem_ok st"
  by (auto simp: base_step_def mem_ok_def)

lemma alloc_mem: "xd3_alloc a b st = (False, st') \<Longrightarrow> \<not> mem_ok st"
  by (auto simp: xd3_alloc_def Let_def mem_ok_def split: if_splits)

lemma alloc_output_mem: "xd3_alloc_output st = (None, st') \<Longrightarrow> \<not> mem_ok st"
  by (auto simp: xd3_alloc_output_def split: list.splits prod.splits bool.splits dest: alloc_mem mem_ok_step [OF alloc_step])

lemma page_room_mem: "page_room out st = (r, out', st') \<Longrightarrow> r \<noteq> XD3_OK \<Longrightarrow> \<not> mem_ok st"
  by (auto simp: page_room_def split: if_splits prod.splits option.splits dest: alloc_output_mem)

lemma emit_byte_mem: "xd3_emit_byte out b st = (r, out', st') \<Longrightarrow> r = ENOMEM \<Longrightarrow> \<not> mem_ok st"
  by (auto simp: xd3_emit_byte_def split: prod.splits if_splits dest: page_room_mem)

lemma emit_bytes_mem: "xd3_emit_bytes out bs st = (r, out', st') \<Longrightarrow> r = ENOMEM \<Longrightarrow> \<not> mem_ok st"
proof (induction out bs st rule: xd3_emit_bytes.induct)
  case (1 out bs st)
  obtain r1 out1 st1 where room: "page_room out st = (r1, out1, st1)" by (metis prod_cases3)
  show ?case using 1(1) [OF room [symmetric] refl] 1(2,3) room page_room_mem [OF room] mem_ok_step [OF page_room_step [OF room]]
    by (subst (asm) xd3_emit_bytes.simps) (auto simp: Let_def split: if_splits)
qed

section \<open>Emitting to a section\<close>

definition emits :: "(xd3_output list \<Rightarrow> xd3_stream \<Rightarrow> xd3_ret \<times> xd3_output list \<times> xd3_stream) \<Rightarrow> u8 list \<Rightarrow> bool" where
  "emits f bs \<longleftrightarrow> (\<forall>out st r out' st'. chain_inv out st \<longrightarrow> f out st = (r, out', st') \<longrightarrow>
     base_step st st' \<and> chain_inv out' st' \<and> (r = XD3_OK \<or> no_mem st r) \<and> (r = XD3_OK \<longrightarrow> out_bytes out' = out_bytes out @ bs))"

lemma emits_bytes: "emits (emit_bytes_to bs) bs"
  unfolding emits_def emit_bytes_to_def no_mem_def using emit_bytes_sinkD emit_bytes_step emit_bytes_mem by metis

lemma emits_byte: "emits (emit_byte_to b) [b]"
  unfolding emits_def emit_byte_to_def no_mem_def using emit_byte_sinkD emit_byte_step emit_byte_mem by metis

lemma emits_size: "emits (xd3_emit_size n) (emit_integer_type n)"
  using emits_bytes unfolding emits_def emit_bytes_to_def xd3_emit_size_def xd3_emit_uint32_t_def by blast

lemma emits_offset: "emits (xd3_emit_offset n) (emit_integer_type n)"
  using emits_bytes unfolding emits_def emit_bytes_to_def xd3_emit_offset_def xd3_emit_uint64_t_def by blast

definition chains_ok :: "xd3_stream \<Rightarrow> bool" where
  "chains_ok st \<longleftrightarrow> chain_wf (hdr_out st) \<and> chain_wf (data_out st) \<and> chain_wf (inst_out st) \<and> chain_wf (addr_out st) \<and> pool_wf st"

text \<open>The bytes of the three sections of the window.\<close>

definition secs :: "xd3_stream \<Rightarrow> u8 list \<times> u8 list \<times> u8 list" where
  "secs st = (out_bytes (inst_out st), out_bytes (addr_out st), out_bytes (data_out st))"

text \<open>A stream without the allocator's counters, the section chains and the statistics.\<close>

definition core :: "xd3_stream \<Rightarrow> xd3_stream" where
  "core st = st\<lparr>alloc_calls := 0, alloc_cnt := 0, free_cnt := 0, msg := None, enc_free := [], inst_out := [], addr_out := [],
     data_out := [], stats := \<lparr>n_scpy = 0, n_tcpy = 0, n_add = 0, n_run = 0, l_scpy = 0, l_tcpy = 0, l_add = 0, l_run = 0\<rparr>,
     iopt_free := [], srcwin_decided_early := False\<rparr>"

lemma core_base: "base_step st st' \<Longrightarrow> core st' = core st"
  by (auto simp: base_step_def core_def)

lemma core_upd [simp]:
  "core (st\<lparr>inst_out := a\<rparr>) = core st" "core (st\<lparr>addr_out := a\<rparr>) = core st" "core (st\<lparr>data_out := a\<rparr>) = core st"
  "core (st\<lparr>stats := s\<rparr>) = core st" "core (st\<lparr>iopt_free := l\<rparr>) = core st" "core (st\<lparr>srcwin_decided_early := b\<rparr>) = core st"
  by (simp_all add: core_def)

lemma core_fields:
  assumes "core st' = core st"
  shows "next_in st' = next_in st" "avail_in st' = avail_in st" "code_table st' = code_table st" "src st' = src st"
    "taroff st' = taroff st" "srcwin_decided st' = srcwin_decided st" "match_minaddr st' = match_minaddr st"
    "match_maxaddr st' = match_maxaddr st" "enc_state st' = enc_state st" "acache st' = acache st"
    "unencoded_offset st' = unencoded_offset st" "iout st' = iout st" "iopt_used st' = iopt_used st" "hdr_out st' = hdr_out st"
    "flags st' = flags st" "current_window st' = current_window st" "iopt_size st' = iopt_size st" "alloc st' = alloc st"
proof -
  have f: "next_in (core x) = next_in x" "avail_in (core x) = avail_in x" "code_table (core x) = code_table x" "src (core x) = src x"
    "taroff (core x) = taroff x" "srcwin_decided (core x) = srcwin_decided x" "match_minaddr (core x) = match_minaddr x"
    "match_maxaddr (core x) = match_maxaddr x" "enc_state (core x) = enc_state x" "acache (core x) = acache x"
    "unencoded_offset (core x) = unencoded_offset x" "iout (core x) = iout x" "iopt_used (core x) = iopt_used x" "hdr_out (core x) = hdr_out x"
    "flags (core x) = flags x" "current_window (core x) = current_window x" "iopt_size (core x) = iopt_size x"
    "alloc (core x) = alloc x" for x
    by (simp_all add: core_def)
  show "next_in st' = next_in st" "avail_in st' = avail_in st" "code_table st' = code_table st" "src st' = src st"
    "taroff st' = taroff st" "srcwin_decided st' = srcwin_decided st" "match_minaddr st' = match_minaddr st"
    "match_maxaddr st' = match_maxaddr st" "enc_state st' = enc_state st" "acache st' = acache st"
    "unencoded_offset st' = unencoded_offset st" "iout st' = iout st" "iopt_used st' = iopt_used st" "hdr_out st' = hdr_out st"
    "flags st' = flags st" "current_window st' = current_window st" "iopt_size st' = iopt_size st" "alloc st' = alloc st"
    using assms f by metis+
qed

text \<open>What encoding the instructions of a window does not touch: all but the sections, the source window, the
  address cache and the instruction buffer.\<close>

definition outer :: "xd3_stream \<Rightarrow> xd3_stream" where
  "outer st = (core st)\<lparr>src := None, srcwin_decided := False, taroff := 0,
     acache := \<lparr>s_near = 0, s_same = 0, next_slot = 0, near_array = None, same_array = None\<rparr>,
     unencoded_offset := 0, iout := None, iopt_used := []\<rparr>"

lemma outer_core: "core st' = core st \<Longrightarrow> outer st' = outer st"
  by (simp add: outer_def)

lemma outer_upd [simp]:
  "outer (st\<lparr>src := a\<rparr>) = outer st" "outer (st\<lparr>srcwin_decided := b\<rparr>) = outer st" "outer (st\<lparr>taroff := c\<rparr>) = outer st"
  "outer (st\<lparr>acache := ac\<rparr>) = outer st" "outer (st\<lparr>unencoded_offset := u\<rparr>) = outer st" "outer (st\<lparr>iout := i\<rparr>) = outer st"
  "outer (st\<lparr>iopt_used := l\<rparr>) = outer st" "outer (st\<lparr>iopt_free := l\<rparr>) = outer st" "outer (st\<lparr>stats := s\<rparr>) = outer st"
  "outer (st\<lparr>srcwin_decided_early := b\<rparr>) = outer st"
  by (simp_all add: outer_def core_def)

text \<open>What \<open>f\<close> appends to the sections when it succeeds.\<close>

definition adds :: "u8 list \<Rightarrow> u8 list \<Rightarrow> u8 list \<Rightarrow> xd3_stream \<Rightarrow> xd3_ret \<times> xd3_stream \<Rightarrow> bool" where
  "adds i a d st res \<longleftrightarrow> core (snd res) = core st \<and> chains_ok (snd res) \<and> (fst res = XD3_OK \<or> no_mem st (fst res))
     \<and> (fst res = XD3_OK \<longrightarrow> secs (snd res) = (fst (secs st) @ i, fst (snd (secs st)) @ a, snd (snd (secs st)) @ d))"

lemma emitsD:
  assumes "emits f bs" "chain_wf out" "pool_wf st" "f out st = (r, out', st')"
  shows "base_step st st'" "chain_wf out'" "pool_wf st'" "r = XD3_OK \<or> no_mem st r" "r = XD3_OK \<Longrightarrow> out_bytes out' = out_bytes out @ bs"
  using assms unfolding emits_def chain_inv_def by blast+

lemma base_step_sections:
  assumes "base_step st (st' :: xd3_stream)"
  shows "inst_out st' = inst_out st" "addr_out st' = addr_out st" "data_out st' = data_out st" "hdr_out st' = hdr_out st"
  using assms by (auto simp: base_step_def)

lemma to_sect_adds:
  assumes "emits f bs" "chains_ok st"
  shows "adds bs [] [] st (to_inst f st)" "adds [] bs [] st (to_addr f st)" "adds [] [] bs st (to_data f st)"
proof -
  have ok: "chain_wf (data_out st)" "chain_wf (inst_out st)" "chain_wf (addr_out st)" "pool_wf st"
    using assms(2) by (simp_all add: chains_ok_def)
  have pool: "pool_wf (x\<lparr>inst_out := o1\<rparr>) = pool_wf x" "pool_wf (x\<lparr>addr_out := o1\<rparr>) = pool_wf x" "pool_wf (x\<lparr>data_out := o1\<rparr>) = pool_wf x"
    for x :: xd3_stream and o1 by (simp_all add: pool_wf_def)
  obtain r out' st' where i: "f (inst_out st) st = (r, out', st')" by (metis prod_cases3)
  from emitsD [OF assms(1) ok(2,4) i] show "adds bs [] [] st (to_inst f st)"
    using base_step_sections [of st st'] assms(2) by (auto simp: adds_def to_inst_def i core_base chains_ok_def secs_def pool)
  obtain r out' st' where i: "f (addr_out st) st = (r, out', st')" by (metis prod_cases3)
  from emitsD [OF assms(1) ok(3,4) i] show "adds [] bs [] st (to_addr f st)"
    using base_step_sections [of st st'] assms(2) by (auto simp: adds_def to_addr_def i core_base chains_ok_def secs_def pool)
  obtain r out' st' where i: "f (data_out st) st = (r, out', st')" by (metis prod_cases3)
  from emitsD [OF assms(1) ok(1,4) i] show "adds [] [] bs st (to_data f st)"
    using base_step_sections [of st st'] assms(2) by (auto simp: adds_def to_data_def i core_base chains_ok_def secs_def pool)
qed

lemma core_mem: "core st1 = core st \<Longrightarrow> no_mem st1 r = no_mem st r"
  by (drule core_fields(18)) (simp add: no_mem_def mem_ok_def)

lemma adds_bind:
  assumes "adds i a d st m" and "\<And>st1. core st1 = core st \<Longrightarrow> chains_ok st1 \<Longrightarrow> adds i' a' d' st1 (k st1)"
  shows "adds (i @ i') (a @ a') (d @ d') st (bind_ok m k)"
proof (cases "fst m = XD3_OK")
  case True
  then have m: "m = (XD3_OK, snd m)" by (metis prod.collapse)
  have "adds i' a' d' (snd m) (k (snd m))" using assms by (simp add: adds_def)
  then show ?thesis using assms(1) True core_mem [of "snd m" st] by (subst m) (auto simp: adds_def)
next
  case False
  then show ?thesis using assms(1) by (cases m) (auto simp: adds_def)
qed

lemma rfc3284_in_table: "unat (c :: u8) < length xd3_rfc3284_code_table"
  using unat_u8_less [of c] rfc3284_length by simp

lemma emit_single_adds:
  assumes "chains_ok st" "code_table st = Some xd3_rfc3284_code_table"
  shows "adds (single_bytes r) [] [] st (xd3_emit_single r (r_code1 r) st)"
proof -
  have g: "arr_get (code_table st) (unat (r_code1 r)) = Some (xd3_rfc3284_code_table ! unat (r_code1 r))"
    using assms(2) rfc3284_in_table by (simp add: arr_get_def)
  have "adds ([r_code1 r] @ tl (single_bytes r)) ([] @ []) ([] @ []) st (xd3_emit_single r (r_code1 r) st)"
    unfolding xd3_emit_single_def g option.case
  proof (rule adds_bind)
    show "adds [r_code1 r] [] [] st (to_inst (emit_byte_to (r_code1 r)) st)" by (rule to_sect_adds(1) [OF emits_byte assms(1)])
    fix st1 :: xd3_stream assume "chains_ok st1"
    then show "adds (tl (single_bytes r)) [] [] st1
        (if size1 (xd3_rfc3284_code_table ! unat (r_code1 r)) = 0 then to_inst (xd3_emit_size (r_size r)) st1 else (XD3_OK, st1))"
      using to_sect_adds(1) [OF emits_size] by (simp add: single_bytes_def) (simp add: adds_def secs_def)
  qed
  then show ?thesis by (simp add: single_bytes_def)
qed

lemma emit_double_adds: "chains_ok st \<Longrightarrow> adds [c] [] [] st (xd3_emit_double p r c st)"
  unfolding xd3_emit_double_def by (rule to_sect_adds(1) [OF emits_byte])

end
