(* ===== verification/Xd3_Encode_Window.thy ===== *)
theory Xd3_Encode_Window
  imports Xd3_Encode_Spec
begin

text \<open>
  The encoder writes a window that decodes to its input.  The invariant of a window: the sections written so
  far, followed by the instruction that waits to be paired, decode under the specification of windows to the
  part of the input before \<open>unencoded_offset\<close>.  Every encoding step keeps it, as long as the instruction is a
  true match or run; flushing the buffer, which first makes the instructions disjoint, reaches the end of the
  input.
\<close>

abbreviation ipos :: "xd3_rinst \<Rightarrow> nat" where "ipos r \<equiv> unat (r_pos r)"
abbreviation isz :: "xd3_rinst \<Rightarrow> nat" where "isz r \<equiv> unat (r_size r)"
abbreviation iaddr :: "xd3_rinst \<Rightarrow> nat" where "iaddr r \<equiv> unat (r_addr r)"

section \<open>Instructions and windows\<close>

text \<open>A source COPY lies in the source window, or in the range the window will be made from.\<close>

definition in_srcwin :: "xd3_stream \<Rightarrow> nat \<Rightarrow> nat \<Rightarrow> bool" where
  "in_srcwin st a n = (case src st of
      None \<Rightarrow> True
    | Some s \<Rightarrow>
       (if srcwin_decided st then unat (srcbase s) \<le> a \<and> a + n \<le> unat (srcbase s) + unat (srclen s)
        else unat (match_minaddr st) \<le> a \<and> a + n \<le> unat (match_maxaddr st)))"

definition is_match :: "u8 list \<Rightarrow> nat \<Rightarrow> u8 list \<Rightarrow> nat \<Rightarrow> nat \<Rightarrow> bool" where
  "is_match xs a inp p n \<longleftrightarrow> (\<forall>k < n. xs ! (a + k) = inp ! (p + k))"

definition valid_copy :: "u8 list \<Rightarrow> u8 list \<Rightarrow> xd3_stream \<Rightarrow> xd3_rinst \<Rightarrow> bool" where
  "valid_copy file inp st r \<longleftrightarrow>
    (if r_xtra r \<noteq> 0 \<and> src st \<noteq> None
     then iaddr r + isz r \<le> length file \<and> is_match file (iaddr r) inp (ipos r) (isz r) \<and> in_srcwin st (iaddr r) (isz r)
     else iaddr r < ipos r \<and> is_match inp (iaddr r) inp (ipos r) (isz r))"

definition valid_inst :: "u8 list \<Rightarrow> u8 list \<Rightarrow> xd3_stream \<Rightarrow> xd3_rinst \<Rightarrow> bool" where
  "valid_inst file inp st r \<longleftrightarrow> 0 < isz r \<and> ipos r + isz r \<le> length inp \<and>
    (if r_type r = XD3_RUN then (\<forall>k < isz r. inp ! (ipos r + k) = r_xtra r)
     else r_type r = XD3_CPY \<and> valid_copy file inp st r)"

text \<open>The source segments the window may be decoded with: any, before the window is decided.\<close>

definition seg :: "u8 list \<Rightarrow> xd3_stream \<Rightarrow> u8 list \<Rightarrow> bool" where
  "seg file st S = (case src st of
      None \<Rightarrow> S = []
    | Some s \<Rightarrow> srcwin_decided st \<longrightarrow> length S = unat (srclen s)
        \<and> (\<forall>i < length S. unat (srcbase s) + i < length file \<longrightarrow> S ! i = file ! (unat (srcbase s) + i)))"

text \<open>Source segment and target fit the 32-bit addresses of a window.\<close>

definition win_fits :: "xd3_stream \<Rightarrow> bool" where
  "win_fits st = (case src st of
      None \<Rightarrow> taroff st = 0
    | Some s \<Rightarrow>
       (if srcwin_decided st then taroff st = srclen s \<and> unat (srclen s) + unat (avail_in st) < 4294967296
        else srclen s = 0 \<and> match_minaddr st \<le> match_maxaddr st
          \<and> unat (match_maxaddr st) - unat (match_minaddr st) + 3 * unat (avail_in st) < 4294967296))"

section \<open>Deciding the source window\<close>

lemma srcwin_length:
  assumes "match_minaddr st \<le> match_maxaddr st"
    and "unat (match_maxaddr st) - unat (match_minaddr st) + 3 * unat (avail_in st) < 4294967296"
  defines "wlen \<equiv> match_maxaddr st - match_minaddr st"
  shows "\<not> wlen > ucast USIZE_T_MAX" "unat (ucast wlen :: u32) = unat (match_maxaddr st) - unat (match_minaddr st)"
proof -
  have w: "unat wlen = unat (match_maxaddr st) - unat (match_minaddr st)"
    using unat_sub_le [OF assms(1)] by (simp add: wlen_def)
  show "\<not> wlen > ucast USIZE_T_MAX" using w assms(2) by (simp add: word_less_nat_alt USIZE_T_MAX_def)
  show "unat (ucast wlen :: u32) = unat (match_maxaddr st) - unat (match_minaddr st)"
    using w assms(2) by (simp add: unsigned_ucast_eq take_bit_nat_eq_self)
qed

lemma srcwin_setup_ok:
  assumes "src st = Some s" "\<not> srcwin_decided st" "win_fits st"
  obtains s' where "xd3_srcwin_setup st = (XD3_OK, st\<lparr>srcwin_decided := True, src := Some s', taroff := srclen s'\<rparr>)"
    "unat (srclen s') + unat (avail_in st) < 4294967296"
    "\<And>a n. 0 < n \<Longrightarrow> unat (match_minaddr st) \<le> a \<Longrightarrow> a + n \<le> unat (match_maxaddr st)
       \<Longrightarrow> unat (srcbase s') \<le> a \<and> a + n \<le> unat (srcbase s') + unat (srclen s')"
proof -
  define wlen where "wlen = match_maxaddr st - match_minaddr st"
  have f: "srclen s = 0" "match_minaddr st \<le> match_maxaddr st"
    "unat (match_maxaddr st) - unat (match_minaddr st) + 3 * unat (avail_in st) < 4294967296"
    using assms by (simp_all add: win_fits_def)
  note w = srcwin_length [OF f(2,3), folded wlen_def]
  consider (none) "enc_state st = ENC_INSTR" "match_maxaddr st = 0" | (exact) "enc_state st = ENC_INSTR" "match_maxaddr st \<noteq> 0"
    | (early) "enc_state st \<noteq> ENC_INSTR" by blast
  then show ?thesis
  proof cases
    case none
    then show ?thesis using that [of s] f assms(1) unat_u32_less [of "avail_in st"] by (auto simp: xd3_srcwin_setup_def)
  next
    case exact
    then show ?thesis using that [of "s\<lparr>srcbase := match_minaddr st, srclen := ucast wlen\<rparr>"] f assms(1) w
      by (auto simp: xd3_srcwin_setup_def Let_def wlen_def [symmetric])
  next
    case early
    have a: "unat (avail_in st + drop_bit 2 (avail_in st)) = unat (avail_in st) + unat (avail_in st) div 4"
      using f(3) unat_add_u32 [of "avail_in st" "drop_bit 2 (avail_in st)"] by (simp add: unat_drop_bit_div)
    have m: "unat (max (ucast wlen) (avail_in st + drop_bit 2 (avail_in st)))
        = max (unat (match_maxaddr st) - unat (match_minaddr st)) (unat (avail_in st) + unat (avail_in st) div 4)"
      using w(2) a by (simp add: max_def word_le_nat_alt)
    show ?thesis
      using that [of "s\<lparr>srcbase := match_minaddr st, srclen := max (ucast wlen) (avail_in st + drop_bit 2 (avail_in st))\<rparr>"]
        early f assms(1) w(1) m
      by (auto simp: xd3_srcwin_setup_def Let_def wlen_def [symmetric])
  qed
qed

text \<open>What a step may change of the stream without invalidating instructions that wait.\<close>

definition later :: "u8 list \<Rightarrow> xd3_stream \<Rightarrow> xd3_stream \<Rightarrow> bool" where
  "later file st st1 \<longleftrightarrow> next_in st1 = next_in st \<and> avail_in st1 = avail_in st \<and> code_table st1 = code_table st \<and> alloc st1 = alloc st
     \<and> (\<forall>S. seg file st1 S \<longrightarrow> seg file st S) \<and> (\<forall>inp r. valid_inst file inp st r \<longrightarrow> valid_inst file inp st1 r)
     \<and> (src st = None \<longrightarrow> src st1 = None) \<and> outer st1 = outer st"

lemma later_refl [simp]: "later file st st"
  by (simp add: later_def)

lemma later_mem: "later file st st1 \<Longrightarrow> no_mem st1 r = no_mem st r"
  by (simp add: later_def no_mem_def mem_ok_def)

lemma later_trans: "later file st st1 \<Longrightarrow> later file st1 st2 \<Longrightarrow> later file st st2"
  by (simp add: later_def)

text \<open>Two streams with the same input, source window and match range.\<close>

definition same_win :: "xd3_stream \<Rightarrow> xd3_stream \<Rightarrow> bool" where
  "same_win st st1 \<longleftrightarrow> next_in st1 = next_in st \<and> avail_in st1 = avail_in st \<and> code_table st1 = code_table st \<and> src st1 = src st
     \<and> srcwin_decided st1 = srcwin_decided st \<and> match_minaddr st1 = match_minaddr st \<and> match_maxaddr st1 = match_maxaddr st
     \<and> taroff st1 = taroff st \<and> alloc st1 = alloc st"

definition same_src :: "xd3_stream \<Rightarrow> xd3_stream \<Rightarrow> bool" where
  "same_src st st1 \<longleftrightarrow> same_win st st1 \<and> outer st1 = outer st"

lemmas same_src_defs = same_src_def same_win_def

lemma same_src_win: "same_src st st1 \<Longrightarrow> same_win st st1"
  by (simp add: same_src_def)

lemma same_win_seg: "same_win st st1 \<Longrightarrow> seg file st1 S = seg file st S"
  by (simp add: same_win_def seg_def split: option.split)

lemma same_win_valid: "same_win st st1 \<Longrightarrow> valid_inst file inp st1 r = valid_inst file inp st r"
  by (simp add: same_win_def valid_inst_def valid_copy_def in_srcwin_def split: option.split)

lemma same_win_fits: "same_win st st1 \<Longrightarrow> win_fits st1 = win_fits st"
  by (simp add: same_win_def win_fits_def split: option.split)

lemmas same_src_seg = same_win_seg [OF same_src_win]
lemmas same_src_valid = same_win_valid [OF same_src_win]
lemmas same_src_fits = same_win_fits [OF same_src_win]

lemma same_src_later: "same_src st st1 \<Longrightarrow> later file st st1"
  by (simp add: later_def same_src_seg same_src_valid) (simp add: same_src_defs)

lemma core_same_src: "core st1 = core st \<Longrightarrow> same_src st st1"
  unfolding same_src_defs by (intro conjI) (erule core_fields outer_core)+

lemma srcwin_decide_later:
  assumes "src st = Some s" "\<not> srcwin_decided st"
    and "\<And>a n. 0 < n \<Longrightarrow> unat (match_minaddr st) \<le> a \<Longrightarrow> a + n \<le> unat (match_maxaddr st)
       \<Longrightarrow> unat (srcbase s') \<le> a \<and> a + n \<le> unat (srcbase s') + unat (srclen s')"
  shows "later file st (st\<lparr>srcwin_decided := True, src := Some s', taroff := srclen s'\<rparr>)"
  using assms by (auto simp: later_def seg_def valid_inst_def valid_copy_def in_srcwin_def)

section \<open>The address of a COPY\<close>

definition copied :: "xd3_stream \<Rightarrow> xd3_stream \<Rightarrow> bool" where
  "copied st st1 \<longleftrightarrow> (\<exists>s t d e x. st1 = st\<lparr>src := s, taroff := t, srcwin_decided := d, srcwin_decided_early := e, stats := x\<rparr>)"

lemma copiedI: "copied st (st\<lparr>src := s, taroff := t, srcwin_decided := d, srcwin_decided_early := e, stats := x\<rparr>)"
  unfolding copied_def by (intro exI) (rule refl)

lemma copied_eqI:
  "st1 = st\<lparr>src := src st1, taroff := taroff st1, srcwin_decided := srcwin_decided st1,
     srcwin_decided_early := srcwin_decided_early st1, stats := stats st1\<rparr> \<Longrightarrow> copied st st1"
  using copiedI by metis

text \<open>The address relative to source segment and target.\<close>

definition window_addr :: "xd3_stream \<Rightarrow> xd3_rinst \<Rightarrow> u32" where
  "window_addr st r = (case src st of
      Some s \<Rightarrow> if r_xtra r \<noteq> 0 then ucast (r_addr r - srcbase s) else taroff st + ucast (r_addr r)
    | None \<Rightarrow> taroff st + ucast (r_addr r))"

lemma copy_address_ok:
  assumes "win_fits st"
  obtains st1 where "copy_address r st = (XD3_OK, window_addr st1 r, st1)" "copied st st1" "later file st st1" "win_fits st1"
    "src st1 \<noteq> None \<longrightarrow> srcwin_decided st1"
proof (cases "src st")
  case None
  define st1 where "st1 = st\<lparr>stats := (stats st)\<lparr>n_tcpy := n_tcpy (stats st) + 1, l_tcpy := l_tcpy (stats st) + ucast (r_size r)\<rparr>\<rparr>"
  have s: "same_src st st1" by (simp add: same_src_defs st1_def)
  have "copy_address r st = (XD3_OK, window_addr st1 r, st1)"
    using None assms by (simp add: copy_address_def window_addr_def win_fits_def st1_def)
  moreover have "copied st st1" by (rule copied_eqI) (simp add: st1_def)
  ultimately show ?thesis using that s assms None by (simp add: same_src_later same_src_fits st1_def)
next
  case (Some s)
  obtain st2 where st2: "(if \<not> srcwin_decided st then xd3_srcwin_setup st
               else (XD3_OK, st\<lparr>srcwin_decided_early := (\<not> eof_known s \<or> srcwin_cksum_pos st < xd3_source_eof s)\<rparr>)) = (XD3_OK, st2)"
      "copied st st2" "later file st st2" "win_fits st2" "\<exists>s2. src st2 = Some s2" "srcwin_decided st2"
  proof (cases "srcwin_decided st")
    case True
    let ?st2 = "st\<lparr>srcwin_decided_early := (\<not> eof_known s \<or> srcwin_cksum_pos st < xd3_source_eof s)\<rparr>"
    have "same_src st ?st2" by (simp add: same_src_defs)
    then show ?thesis using True Some assms that [of ?st2] by (simp add: same_src_later same_src_fits copied_eqI)
  next
    case False
    from srcwin_setup_ok [OF Some False assms] obtain s' where
      s': "xd3_srcwin_setup st = (XD3_OK, st\<lparr>srcwin_decided := True, src := Some s', taroff := srclen s'\<rparr>)"
        "unat (srclen s') + unat (avail_in st) < 4294967296"
        "\<And>a n. 0 < n \<Longrightarrow> unat (match_minaddr st) \<le> a \<Longrightarrow> a + n \<le> unat (match_maxaddr st)
           \<Longrightarrow> unat (srcbase s') \<le> a \<and> a + n \<le> unat (srcbase s') + unat (srclen s')" by blast
    have "copied st (st\<lparr>srcwin_decided := True, src := Some s', taroff := srclen s'\<rparr>)" by (rule copied_eqI) simp
    then show ?thesis using False s' that [OF _ _ srcwin_decide_later [OF Some False s'(3)]] by (simp add: win_fits_def)
  qed
  then obtain s2 where s2: "src st2 = Some s2" by blast
  define x where "x = (if r_xtra r \<noteq> 0 then (stats st2)\<lparr>n_scpy := n_scpy (stats st2) + 1, l_scpy := l_scpy (stats st2) + ucast (r_size r)\<rparr>
      else (stats st2)\<lparr>n_tcpy := n_tcpy (stats st2) + 1, l_tcpy := l_tcpy (stats st2) + ucast (r_size r)\<rparr>)"
  have s: "same_src st2 (st2\<lparr>stats := x\<rparr>)" by (simp add: same_src_defs)
  have "copied st (st2\<lparr>stats := x\<rparr>)" using st2(2) by (auto simp: copied_def) (intro exI, rule refl)
  moreover have "copy_address r st = (XD3_OK, window_addr (st2\<lparr>stats := x\<rparr>) r, st2\<lparr>stats := x\<rparr>)"
    unfolding copy_address_def Some option.case st2(1) using s2 by (simp add: window_addr_def x_def)
  ultimately show ?thesis using that st2 s later_trans [OF st2(3) same_src_later [OF s]] by (simp add: same_src_fits)
qed

section \<open>What a COPY produces\<close>

lemma copy_ext_match:
  assumes "a < p" "p + n \<le> length inp" "is_match inp a inp p n"
  shows "copy_ext (take p inp) a n = take (p + n) inp"
  using assms
proof (induction n arbitrary: a p)
  case (Suc n)
  have "inp ! a = inp ! p" using Suc.prems(3) by (auto simp: is_match_def dest: spec [of _ 0])
  then have "take p inp @ [take p inp ! a] = take (Suc p) inp" using Suc.prems by (simp add: take_Suc_conv_app_nth)
  moreover have "is_match inp (Suc a) inp (Suc p) n" using Suc.prems(3) by (auto simp: is_match_def dest: spec [of _ "Suc k" for k])
  ultimately show ?case using Suc.IH [of "Suc a" "Suc p"] Suc.prems by simp
qed simp

lemma match_take_drop:
  assumes "is_match xs a inp p n" "a + n \<le> length xs" "p + n \<le> length inp"
  shows "take n (drop a xs) = take n (drop p inp)"
  using assms by (intro nth_equalityI) (auto simp: is_match_def)

lemma take_plus: "take (p + n) inp = take p inp @ take n (drop p inp)"
  by (rule take_add)

definition produces :: "u8 list \<Rightarrow> u8 list \<Rightarrow> u32 \<Rightarrow> nat \<Rightarrow> nat \<Rightarrow> bool" where
  "produces S inp addr p n \<longleftrightarrow> unat addr < length S + p \<and> (unat addr < length S \<longrightarrow> unat addr + n \<le> length S)
     \<and> drop (length S) (copy_ext (S @ take p inp) (unat addr) n) = take (p + n) inp"

lemma target_copy_produces:
  assumes "iaddr r < ipos r" "is_match inp (iaddr r) inp (ipos r) (isz r)" "ipos r + isz r \<le> length inp"
    and "length S + length inp < 4294967296" "t = of_nat (length S)"
  shows "produces S inp (t + ucast (r_addr r)) (ipos r) (isz r)"
proof -
  have "unat (ucast (r_addr r) :: u32) = iaddr r" using assms(1,3,4) by (simp add: unsigned_ucast_eq take_bit_nat_eq_self)
  then have a: "unat (t + ucast (r_addr r)) = length S + iaddr r"
    using assms unat_add_u32 [of t "ucast (r_addr r)"] by (simp add: unat_of_nat_small)
  show ?thesis unfolding produces_def a
    using assms copy_ext_target [of S "length S + iaddr r" "take (ipos r) inp" "isz r"] copy_ext_match [OF assms(1,3,2)] by simp
qed

lemma source_copy_produces:
  assumes "is_match file (iaddr r) inp (ipos r) (isz r)" "iaddr r + isz r \<le> length file" "ipos r + isz r \<le> length inp"
    and "unat (b :: u64) \<le> iaddr r" "iaddr r + isz r \<le> unat b + length S" "0 < isz r" "length S < 4294967296"
    and "\<forall>i < length S. unat b + i < length file \<longrightarrow> S ! i = file ! (unat b + i)"
  shows "produces S inp (ucast (r_addr r - b)) (ipos r) (isz r)"
proof -
  have "unat (r_addr r - b) = iaddr r - unat b" using assms(4) by (intro unat_sub_le) (simp add: word_le_nat_alt)
  then have a: "unat (ucast (r_addr r - b) :: u32) = iaddr r - unat b"
    using assms(5,6,7) by (simp add: unsigned_ucast_eq take_bit_nat_eq_self)
  have "is_match S (iaddr r - unat b) inp (ipos r) (isz r)"
    unfolding is_match_def
  proof (intro allI impI)
    fix k assume k: "k < isz r"
    then have "S ! (iaddr r - unat b + k) = file ! (unat b + (iaddr r - unat b + k))" using assms(2,4,5,8) by auto
    then show "S ! (iaddr r - unat b + k) = inp ! (ipos r + k)" using k assms(1,4) by (simp add: is_match_def)
  qed
  then have "take (isz r) (drop (iaddr r - unat b) S) = take (isz r) (drop (ipos r) inp)"
    using assms(3,4,5) by (intro match_take_drop) auto
  then show ?thesis unfolding produces_def a
    using assms copy_ext_inside [of "iaddr r - unat b" "isz r" S "take (ipos r) inp"] by (auto simp: take_plus)
qed

lemma copy_means:
  assumes "valid_inst file inp st r" "r_type r = XD3_CPY" "win_fits st" "src st \<noteq> None \<longrightarrow> srcwin_decided st"
    and "seg file st S" "length inp = unat (avail_in st)"
  shows "produces S inp (window_addr st r) (ipos r) (isz r)" "r_pos r + taroff st = of_nat (length S + ipos r)"
proof -
  have v: "0 < isz r" "ipos r + isz r \<le> length inp" "valid_copy file inp st r"
    using assms(1,2) by (auto simp: valid_inst_def inst_consts)
  have t: "taroff st = of_nat (length S)" "length S + length inp < 4294967296"
    using assms(3-6) unat_u32_less [of "avail_in st"] by (auto simp: win_fits_def seg_def split: option.splits)
  show "r_pos r + taroff st = of_nat (length S + ipos r)" using t by simp
  show "produces S inp (window_addr st r) (ipos r) (isz r)"
  proof (cases "r_xtra r \<noteq> 0 \<and> src st \<noteq> None")
    case True
    then obtain s where s: "src st = Some s" by blast
    then show ?thesis using True v assms(4,5) t(2) source_copy_produces [of "file" r inp "srcbase s" S]
      by (auto simp: window_addr_def valid_copy_def in_srcwin_def seg_def)
  next
    case False
    then have "iaddr r < ipos r" "is_match inp (iaddr r) inp (ipos r) (isz r)" using v(3) by (auto simp: valid_copy_def)
    then show ?thesis using False target_copy_produces [OF _ _ v(2) t(2,1)] by (auto simp: window_addr_def split: option.splits)
  qed
qed

section \<open>The operand of an instruction\<close>

definition cache_ok :: "xd3_addr_cache \<Rightarrow> bool" where
  "cache_ok ac \<longleftrightarrow> cache_wf ac \<and> s_near ac = 4 \<and> s_same ac = 3"

definition enc_base :: "u8 list \<Rightarrow> xd3_stream \<Rightarrow> bool" where
  "enc_base inp st \<longleftrightarrow> chains_ok st \<and> code_table st = Some xd3_rfc3284_code_table \<and> cache_ok (acache st)
     \<and> unat (avail_in st) \<le> length (next_in st) \<and> take (unat (avail_in st)) (next_in st) = inp \<and> win_fits st"

lemma enc_base_length: "enc_base inp st \<Longrightarrow> length inp = unat (avail_in st)"
  by (auto simp: enc_base_def)

lemma enc_base_src: "enc_base inp st \<Longrightarrow> same_src st st1 \<Longrightarrow> chains_ok st1 \<Longrightarrow> cache_ok (acache st1) \<Longrightarrow> enc_base inp st1"
  by (simp add: enc_base_def same_src_fits) (simp add: same_src_defs)

lemma chains_ok_upd [simp]:
  "chains_ok (st\<lparr>stats := x\<rparr>) = chains_ok st" "chains_ok (st\<lparr>acache := ac\<rparr>) = chains_ok st"
  "chains_ok (st\<lparr>unencoded_offset := u\<rparr>) = chains_ok st" "chains_ok (st\<lparr>iout := p\<rparr>) = chains_ok st"
  "chains_ok (st\<lparr>iopt_free := l\<rparr>) = chains_ok st" "chains_ok (st\<lparr>iopt_used := l\<rparr>) = chains_ok st"
  by (simp_all add: chains_ok_def pool_wf_def)

lemma secs_upd [simp]:
  "secs (st\<lparr>stats := x\<rparr>) = secs st" "secs (st\<lparr>acache := ac\<rparr>) = secs st"
  "secs (st\<lparr>unencoded_offset := u\<rparr>) = secs st" "secs (st\<lparr>iout := p\<rparr>) = secs st"
  "secs (st\<lparr>iopt_free := l\<rparr>) = secs st" "secs (st\<lparr>iopt_used := l\<rparr>) = secs st"
  by (simp_all add: secs_def)

lemma copied_fields:
  assumes "copied st st1"
  shows "chains_ok st1 = chains_ok st" "secs st1 = secs st" "acache st1 = acache st" "next_in st1 = next_in st"
    "avail_in st1 = avail_in st" "code_table st1 = code_table st" "iout st1 = iout st" "unencoded_offset st1 = unencoded_offset st"
    "iopt_used st1 = iopt_used st"
  using assms by (auto simp: copied_def chains_ok_def secs_def pool_wf_def)

lemma encode_address_adds:
  assumes "cache_ok (acache st)" "chains_ok st"
  obtains bs m ac' where "encode_address_bytes (acache st) addr here = Some (bs, m, ac')" "cache_ok ac'"
    "no_mem st (fst (xd3_encode_address addr here t st)) \<or>
     (\<exists>st1. adds [] bs [] st (XD3_OK, st1) \<and> xd3_encode_address addr here t st = (XD3_OK, t + ucast m, st1\<lparr>acache := ac'\<rparr>))"
proof -
  have wf: "cache_wf (acache st)" using assms(1) by (simp add: cache_ok_def)
  obtain bs m ac' where e: "encode_address_bytes (acache st) addr here = Some (bs, m, ac')" by (rule encode_step_total [OF wf])
  then obtain same bd where c: "encode_address_choose (acache st) addr here = Some (same, bd, m)"
    "xd3_update_cache (acache st) addr = Some ac'" "bs = (if same then [ucast bd] else emit_integer_type bd)"
    by (auto simp: encode_address_bytes_def split: option.splits)
  have ok: "cache_ok ac'" using update_cache_wf [OF wf, of addr] c(2) assms(1) by (metis cache_ok_def option.inject)
  obtain r st1 where r: "to_addr (if same then emit_byte_to (ucast bd) else xd3_emit_size bd) st = (r, st1)" by fastforce
  have a: "adds [] bs [] st (r, st1)"
    using to_sect_adds(2) [OF emits_byte assms(2), of "ucast bd"] to_sect_adds(2) [OF emits_size assms(2), of bd] r c(3) by (cases same) auto
  then have "r = XD3_OK \<or> no_mem st r" "acache st1 = acache st" by (auto simp: adds_def dest: core_fields(10))
  then have "no_mem st (fst (xd3_encode_address addr here t st)) \<or>
     (\<exists>st1. adds [] bs [] st (XD3_OK, st1) \<and> xd3_encode_address addr here t st = (XD3_OK, t + ucast m, st1\<lparr>acache := ac'\<rparr>))"
    using a by (auto simp: xd3_encode_address_def c(1) r c(2))
  with that e ok show ?thesis by blast
qed

text \<open>One instruction of type \<open>t\<close>, with operands \<open>a\<close> and \<open>d\<close> alone in their sections.\<close>

definition step_means :: "u8 list \<Rightarrow> u8 list \<Rightarrow> u8 \<Rightarrow> xd3_rinst \<Rightarrow> u8 list \<Rightarrow> u8 list \<Rightarrow> xd3_addr_cache \<Rightarrow> xd3_addr_cache \<Rightarrow> bool" where
  "step_means S inp t r a d ac ac' \<longleftrightarrow>
    vop S (length inp) t (isz r) \<lparr>v_inst = [], v_addr = a, v_data = d, v_cache = ac, v_tgt = take (ipos r) inp\<rparr>
      = Some \<lparr>v_inst = [], v_addr = [], v_data = [], v_cache = ac', v_tgt = take (ipos r + isz r) inp\<rparr>"

lemma step_copy:
  assumes "produces S inp addr (ipos r) (isz r)" "ipos r + isz r \<le> length inp" "cache_ok ac"
    and "encode_address_bytes ac addr (of_nat (length S + ipos r)) = Some (bs, m, ac')"
  shows "step_means S inp (XD3_CPY + ucast m) r bs [] ac ac'" "rfc3284_type (XD3_CPY + ucast m)"
proof -
  note d = decode_encode_step [OF _ assms(4), of "[]"]
  have m: "unat m < 9" using d assms(3) by (simp add: cache_ok_def TOTAL_MODES_def)
  have u8: "unat (ucast m :: u8) = unat m" using m by (simp add: unsigned_ucast_eq take_bit_nat_eq_self)
  then have um: "(ucast (ucast m :: u8) :: u32) = m" by (simp only: word_unat_eq_iff unat_ucast_u8_u32)
  have t: "unat (XD3_CPY + ucast m :: u8) = 3 + unat m" using m u8 unat_add_lem [of "XD3_CPY" "ucast m :: u8"] by (simp add: XD3_CPY_def)
  show r: "rfc3284_type (XD3_CPY + ucast m)" using t m by (simp add: rfc3284_type_def word_le_nat_alt word_less_nat_alt XD3_CPY_def)
  have ge: "XD3_CPY \<le> XD3_CPY + ucast m" using t by (simp add: word_le_nat_alt XD3_CPY_def)
  have sub: "(ucast (XD3_CPY + ucast m - XD3_CPY) :: u32) = m" using um by simp
  have lt: "length (take (ipos r) inp) = ipos r" using assms(2) by simp
  have dd: "xd3_decode_address ac (of_nat (length S + ipos r)) m bs = Inr (addr, [], ac')" using d assms(3) by (simp add: cache_ok_def)
  show "step_means S inp (XD3_CPY + ucast m) r bs [] ac ac'"
    unfolding step_means_def vop_def Let_def vwin.simps sub lt dd if_P [OF ge]
    using assms(1,2) by (simp add: produces_def)
qed

lemma step_run:
  assumes "\<forall>k < isz r. inp ! (ipos r + k) = x" "ipos r + isz r \<le> length inp"
  shows "step_means S inp XD3_RUN r [] [x] ac ac"
proof -
  have "replicate (isz r) x = take (isz r) (drop (ipos r) inp)" using assms by (intro nth_equalityI) auto
  then show ?thesis using assms(2) by (simp add: step_means_def vop_def inst_consts take_plus)
qed

lemma step_add:
  assumes "ipos r + isz r \<le> length inp"
  shows "step_means S inp XD3_ADD r [] (take (isz r) (drop (ipos r) inp)) ac ac"
  using assms by (simp add: step_means_def vop_def inst_consts take_plus word_le_nat_alt)

definition to_encode :: "u8 list \<Rightarrow> u8 list \<Rightarrow> xd3_stream \<Rightarrow> xd3_rinst \<Rightarrow> bool" where
  "to_encode file inp st r \<longleftrightarrow> valid_inst file inp st r \<or> r_type r = XD3_ADD \<and> 0 < isz r \<and> ipos r + isz r \<le> length inp"

definition operand_ok :: "u8 list \<Rightarrow> u8 list \<Rightarrow> xd3_stream \<Rightarrow> xd3_rinst \<Rightarrow> xd3_rinst \<Rightarrow> xd3_stream \<Rightarrow> bool" where
  "operand_ok file inp st r r1 st1 \<longleftrightarrow> enc_base inp st1 \<and> later file st st1 \<and> iout st1 = iout st \<and> iopt_used st1 = iopt_used st
     \<and> unencoded_offset st1 = unencoded_offset st \<and> r1 = r\<lparr>r_type := r_type r1\<rparr> \<and> rfc3284_type (r_type r1)
     \<and> (\<exists>a d. secs st1 = (fst (secs st), fst (snd (secs st)) @ a, snd (snd (secs st)) @ d)
          \<and> (\<forall>S. seg file st1 S \<longrightarrow> step_means S inp (r_type r1) r a d (acache st) (acache st1)))"

lemma adds_okD:
  assumes "adds i a d st (XD3_OK, st1)"
  shows "core st1 = core st" "chains_ok st1" "secs st1 = (fst (secs st) @ i, fst (snd (secs st)) @ a, snd (snd (secs st)) @ d)"
  using assms by (simp_all add: adds_def)

lemma operand_copy:
  assumes "enc_base inp st" "valid_inst file inp st r" "r_type r = XD3_CPY"
  shows "case encode_operand r st of (ret, r1, st1) \<Rightarrow> no_mem st ret \<or> ret = XD3_OK \<and> operand_ok file inp st r r1 st1"
proof -
  have b: "chains_ok st" "cache_ok (acache st)" "win_fits st" using assms(1) by (simp_all add: enc_base_def)
  obtain st1 where c: "copy_address r st = (XD3_OK, window_addr st1 r, st1)" "copied st st1" "later file st st1" "win_fits st1"
    "src st1 \<noteq> None \<longrightarrow> srcwin_decided st1" by (rule copy_address_ok [OF b(3)])
  note f = copied_fields [OF c(2)]
  have ok1: "chains_ok st1" "cache_ok (acache st1)" using b f by simp_all
  obtain bs m ac' where e: "encode_address_bytes (acache st1) (window_addr st1 r) (r_pos r + taroff st1) = Some (bs, m, ac')" "cache_ok ac'"
    "no_mem st1 (fst (xd3_encode_address (window_addr st1 r) (r_pos r + taroff st1) XD3_CPY st1)) \<or>
     (\<exists>st2. adds [] bs [] st1 (XD3_OK, st2) \<and>
        xd3_encode_address (window_addr st1 r) (r_pos r + taroff st1) XD3_CPY st1 = (XD3_OK, XD3_CPY + ucast m, st2\<lparr>acache := ac'\<rparr>))"
    by (rule encode_address_adds [OF ok1(2,1), of "window_addr st1 r" "r_pos r + taroff st1" XD3_CPY])
  have v: "valid_inst file inp st1 r" using assms(2) c(3) by (simp add: later_def)
  then have le: "ipos r + isz r \<le> length inp" by (simp add: valid_inst_def)
  have len: "length inp = unat (avail_in st1)" using enc_base_length [OF assms(1)] f by simp
  note means = copy_means [OF v assms(3) c(4,5) _ len]
  have means': "step_means S inp (XD3_CPY + ucast m) r bs [] (acache st) ac'" if "seg file st1 S" for S
    using step_copy(1) [OF means(1) [OF that] le ok1(2)] e(1) means(2) [OF that] f by simp
  show ?thesis
  proof (cases "no_mem st1 (fst (xd3_encode_address (window_addr st1 r) (r_pos r + taroff st1) XD3_CPY st1))")
    case True
    then show ?thesis using later_mem [OF c(3)] by (simp add: encode_operand_def assms(3) c(1) case_prod_beta)
  next
    case False
    then obtain st2 where a: "adds [] bs [] st1 (XD3_OK, st2)"
      "xd3_encode_address (window_addr st1 r) (r_pos r + taroff st1) XD3_CPY st1 = (XD3_OK, XD3_CPY + ucast m, st2\<lparr>acache := ac'\<rparr>)"
      using e(3) by blast
    note ad = adds_okD [OF a(1)] core_same_src [OF adds_okD(1) [OF a(1)]]
    define st3 where "st3 = st2\<lparr>acache := ac'\<rparr>"
    have s3: "same_src st1 st3" using ad(4) by (simp add: same_src_defs st3_def)
    have base1: "enc_base inp st1" using assms(1) c(4) f by (simp add: enc_base_def)
    have "enc_base inp st3" by (rule enc_base_src [OF base1 s3]) (simp_all add: st3_def ad e(2))
    moreover have "later file st st3" by (rule later_trans [OF c(3) same_src_later [OF s3]])
    moreover have "iout st3 = iout st" "unencoded_offset st3 = unencoded_offset st" "iopt_used st3 = iopt_used st"
      using core_fields(11,12,13) [OF ad(1)] f by (simp_all add: st3_def)
    moreover have "rfc3284_type (XD3_CPY + ucast m)"
    proof -
      obtain S where "seg file st1 S"
      proof (cases "src st1")
        case None
        then show ?thesis using that [of "[]"] by (simp add: seg_def)
      next
        case (Some s)
        then show ?thesis using that [of "map (\<lambda>i. file ! (unat (srcbase s) + i)) [0 ..< unat (srclen s)]"] by (simp add: seg_def)
      qed
      then show ?thesis using step_copy(2) [OF means(1) le ok1(2)] e(1) means(2) by metis
    qed
    moreover have "\<forall>S. seg file st3 S \<longrightarrow> step_means S inp (XD3_CPY + ucast m) r bs [] (acache st) (acache st3)"
      using means' same_src_seg [OF s3] by (simp add: st3_def)
    ultimately have "operand_ok file inp st r (r\<lparr>r_type := XD3_CPY + ucast m\<rparr>) st3"
      unfolding operand_ok_def using ad(3) f(2) by (auto simp: st3_def)
    moreover have "encode_operand r st = (XD3_OK, r\<lparr>r_type := XD3_CPY + ucast m\<rparr>, st3)"
      by (simp add: encode_operand_def assms(3) c(1) a(2) st3_def)
    ultimately show ?thesis by simp
  qed
qed

lemma operand_data:
  assumes "enc_base inp st" "\<And>S. step_means S inp (r_type r) r [] bs (acache st) (acache st)" "rfc3284_type (r_type r)"
    and "emits f bs" "to_data f st = (XD3_OK, st1)"
  shows "operand_ok file inp st r r (st1\<lparr>stats := x\<rparr>)"
proof -
  have a: "adds [] [] bs st (XD3_OK, st1)" using to_sect_adds(3) [OF assms(4), of st] assms(1,5) by (simp add: enc_base_def)
  note ad = adds_okD [OF a] core_same_src [OF adds_okD(1) [OF a]]
  have s: "same_src st (st1\<lparr>stats := x\<rparr>)" using ad(4) by (simp add: same_src_defs)
  have ac: "acache st1 = acache st" by (rule core_fields(10) [OF ad(1)])
  have "enc_base inp (st1\<lparr>stats := x\<rparr>)" using assms(1) by (intro enc_base_src [OF assms(1) s]) (simp_all add: ad ac enc_base_def)
  then show ?thesis unfolding operand_ok_def
    using ad(3) assms(2,3) ac core_fields(11,12,13) [OF ad(1)] same_src_later [OF s]
    by (intro conjI exI [of _ "[]"] exI [of _ bs]) simp_all
qed

lemma encode_operand_ok:
  assumes "enc_base inp st" "to_encode file inp st r"
  shows "case encode_operand r st of (ret, r1, st1) \<Rightarrow> no_mem st ret \<or> ret = XD3_OK \<and> operand_ok file inp st r r1 st1"
proof -
  have ok: "chains_ok st" using assms(1) by (simp add: enc_base_def)
  have le: "ipos r + isz r \<le> length inp" using assms(2) by (auto simp: to_encode_def valid_inst_def)
  consider (cpy) "valid_inst file inp st r" "r_type r = XD3_CPY" | (run) "valid_inst file inp st r" "r_type r = XD3_RUN"
    | (add) "r_type r = XD3_ADD" using assms(2) by (auto simp: to_encode_def valid_inst_def split: if_splits)
  then show ?thesis
  proof cases
    case cpy
    then show ?thesis by (rule operand_copy [OF assms(1)])
  next
    case run
    obtain ret st1 where d: "to_data (emit_byte_to (r_xtra r)) st = (ret, st1)" by fastforce
    have "ret = XD3_OK \<or> no_mem st ret" using to_sect_adds(3) [OF emits_byte ok, of "r_xtra r"] d by (simp add: adds_def)
    moreover have "\<forall>k < isz r. inp ! (ipos r + k) = r_xtra r" using run by (simp add: valid_inst_def)
    ultimately show ?thesis
      using operand_data [OF assms(1) _ _ emits_byte, of r "r_xtra r" st1] step_run [OF _ le, of "r_xtra r"] run d
      by (auto simp: encode_operand_def inst_consts rfc3284_type_def)
  next
    case add
    let ?bs = "take (isz r) (drop (ipos r) (next_in st))"
    have bs: "?bs = take (isz r) (drop (ipos r) inp)" "\<not> length (next_in st) < ipos r + isz r"
      using assms(1) le by (auto simp: enc_base_def take_drop)
    obtain ret st1 where d: "to_data (emit_bytes_to ?bs) st = (ret, st1)" by fastforce
    have "ret = XD3_OK \<or> no_mem st ret" using to_sect_adds(3) [OF emits_bytes ok, of ?bs] d by (simp add: adds_def)
    then show ?thesis
      using operand_data [OF assms(1) _ _ emits_bytes, of r ?bs st1] step_add [OF le] bs add d
      by (auto simp: encode_operand_def inst_consts rfc3284_type_def)
  qed
qed

section \<open>The invariant of a window\<close>

definition vstart :: "xd3_addr_cache \<Rightarrow> u8 list \<times> u8 list \<times> u8 list \<Rightarrow> vwin" where
  "vstart ac sec = (case sec of (i, a, d) \<Rightarrow> \<lparr>v_inst = i, v_addr = a, v_data = d, v_cache = ac, v_tgt = []\<rparr>)"

definition vpend :: "u8 list \<Rightarrow> nat \<Rightarrow> xd3_rinst option \<Rightarrow> vwin \<Rightarrow> vwin option" where
  "vpend S lim io w = (case io of None \<Rightarrow> Some w | Some p \<Rightarrow> vop S lim (r_type p) (isz p) w)"

definition decoded :: "xd3_addr_cache \<Rightarrow> u8 list \<Rightarrow> u8 list \<Rightarrow> xd3_rinst option \<Rightarrow> nat \<Rightarrow> xd3_addr_cache \<Rightarrow> u8 list \<times> u8 list \<times> u8 list \<Rightarrow> bool" where
  "decoded ac0 S inp io u ac sec \<longleftrightarrow> (\<exists>w. vrun xd3_rfc3284_code_table S (length inp) (vstart ac0 sec) = Some w
     \<and> vpend S (length inp) io w = Some \<lparr>v_inst = [], v_addr = [], v_data = [], v_cache = ac, v_tgt = take u inp\<rparr>)"

definition pending_ok :: "xd3_rinst \<Rightarrow> bool" where
  "pending_ok p \<longleftrightarrow> entry_codes (xd3_rfc3284_code_table ! unat (r_code1 p)) p \<and> rfc3284_type (r_type p) \<and> r_code2 p = 0 \<and> r_size p \<noteq> 0"

definition enc_inv :: "xd3_addr_cache \<Rightarrow> u8 list \<Rightarrow> u8 list \<Rightarrow> xd3_stream \<Rightarrow> bool" where
  "enc_inv ac0 file inp st \<longleftrightarrow> enc_base inp st \<and> pred_option pending_ok (iout st)
     \<and> (\<forall>S. seg file st S \<longrightarrow> decoded ac0 S inp (iout st) (unat (unencoded_offset st)) (acache st) (secs st))"

text \<open>With its operands at the end of their sections, an instruction runs after all those before it.\<close>

lemma decoded_operand:
  assumes "decoded ac0 S inp io (ipos r) ac (i, a0, d0)" and "step_means S inp t r a d ac ac'"
  obtains w w1 where "vrun xd3_rfc3284_code_table S (length inp) (vstart ac0 (i, a0, d0)) = Some w"
    "vpend S (length inp) io w = Some w1" "v_inst w = []" "v_inst w1 = []"
    "vpend S (length inp) io (vapp w [] a d) = Some (vapp w1 [] a d)"
    "vop S (length inp) t (isz r) (vapp w1 [] a d) = Some \<lparr>v_inst = [], v_addr = [], v_data = [], v_cache = ac', v_tgt = take (ipos r + isz r) inp\<rparr>"
proof -
  define w1 where "w1 = \<lparr>v_inst = [], v_addr = [], v_data = [], v_cache = ac, v_tgt = take (ipos r) inp\<rparr>"
  obtain w where w: "vrun xd3_rfc3284_code_table S (length inp) (vstart ac0 (i, a0, d0)) = Some w"
    "vpend S (length inp) io w = Some w1" using assms(1) by (auto simp: decoded_def w1_def)
  have "vpend S (length inp) io (vapp w [] a d) = Some (vapp w1 [] a d)"
    using w(2) vop_app by (auto simp: vpend_def split: option.splits)
  moreover have "vop S (length inp) t (isz r) (vapp w1 [] a d) = Some \<lparr>v_inst = [], v_addr = [], v_data = [], v_cache = ac', v_tgt = take (ipos r + isz r) inp\<rparr>"
    using assms(2) by (simp add: step_means_def w1_def vapp_def)
  ultimately show ?thesis using that [OF w vrun_done [OF w(1)]] by (simp add: w1_def)
qed

lemma vstart_app: "vstart ac0 (i @ i', a @ a', d @ d') = vapp (vstart ac0 (i, a, d)) i' a' d'"
  by (simp add: vstart_def vapp_def)

lemma vapp_nil: "(vapp w i a d)\<lparr>v_inst := []\<rparr> = vapp w [] a d" if "v_inst w = []"
  using that by (simp add: vapp_def)

lemma vrun_one:
  assumes "v_inst w \<noteq> []" "vinst tbl S lim w = Some w1" "v_inst w1 = []"
  shows "vrun tbl S lim w = Some w1"
  using assms by (subst vrun.simps) (simp add: vrun_empty)

lemma decoded_wait:
  assumes "decoded ac0 S inp None (ipos r) ac sec" and "step_means S inp (r_type q) r a d ac ac'" and "r_size q = r_size r"
  shows "decoded ac0 S inp (Some q) (ipos r + isz r) ac' (fst sec, fst (snd sec) @ a, snd (snd sec) @ d)"
proof -
  obtain i a0 d0 where sec: "sec = (i, a0, d0)" by (metis prod_cases3)
  from decoded_operand [OF assms(1) [unfolded sec] assms(2)] obtain w w1 where
    w: "vrun xd3_rfc3284_code_table S (length inp) (vstart ac0 (i, a0, d0)) = Some w" "vpend S (length inp) None w = Some w1" "v_inst w = []"
      "vop S (length inp) (r_type q) (isz r) (vapp w1 [] a d) = Some \<lparr>v_inst = [], v_addr = [], v_data = [], v_cache = ac', v_tgt = take (ipos r + isz r) inp\<rparr>"
    by metis
  have "vrun xd3_rfc3284_code_table S (length inp) (vstart ac0 (i, a0 @ a, d0 @ d)) = Some (vapp w [] a d)"
    using vstart_app [of ac0 i "[]" a0 a d0 d] vrun_app [OF w(1), of "[]" a d] w(3) by (simp add: vrun_empty)
  then show ?thesis using w(2,4) assms(3) by (simp add: decoded_def vpend_def sec)
qed

lemma decoded_single:
  assumes "decoded ac0 S inp (Some p) (ipos r) ac sec" and "step_means S inp (r_type q) r a d ac ac'" and "r_size q = r_size r"
    and "pending_ok p"
  shows "decoded ac0 S inp (Some q) (ipos r + isz r) ac' (fst sec @ single_bytes p, fst (snd sec) @ a, snd (snd sec) @ d)"
proof -
  obtain i a0 d0 where sec: "sec = (i, a0, d0)" by (metis prod_cases3)
  from decoded_operand [OF assms(1) [unfolded sec] assms(2)] obtain w w1 where
    w: "vrun xd3_rfc3284_code_table S (length inp) (vstart ac0 (i, a0, d0)) = Some w" "v_inst w = []" "v_inst w1 = []"
      "vpend S (length inp) (Some p) (vapp w [] a d) = Some (vapp w1 [] a d)"
      "vop S (length inp) (r_type q) (isz r) (vapp w1 [] a d) = Some \<lparr>v_inst = [], v_addr = [], v_data = [], v_cache = ac', v_tgt = take (ipos r + isz r) inp\<rparr>"
    by metis
  have "vinst xd3_rfc3284_code_table S (length inp) (vapp w (single_bytes p) a d) = Some (vapp w1 [] a d)"
    using vinst_single [of p "vapp w (single_bytes p) a d" "[]"] assms(4) w(2,4) by (simp add: pending_ok_def vpend_def vapp_nil)
  then have "vrun xd3_rfc3284_code_table S (length inp) (vapp w (single_bytes p) a d) = Some (vapp w1 [] a d)"
    using w(3) by (intro vrun_one) (simp_all add: single_bytes_def)
  then have "vrun xd3_rfc3284_code_table S (length inp) (vstart ac0 (i @ single_bytes p, a0 @ a, d0 @ d)) = Some (vapp w1 [] a d)"
    using vrun_app [OF w(1), of "single_bytes p" a d] by (simp add: vstart_app)
  then show ?thesis using w(5) assms(3) by (simp add: decoded_def vpend_def sec)
qed

lemma decoded_double:
  assumes "decoded ac0 S inp (Some p) (ipos r) ac sec" and "step_means S inp (r_type q) r a d ac ac'" and "r_size q = r_size r"
    and "pending_ok p" and "entry_codes2 (xd3_rfc3284_code_table ! unat c) p q" "rfc3284_type (r_type q)"
  shows "decoded ac0 S inp None (ipos r + isz r) ac' (fst sec @ [c], fst (snd sec) @ a, snd (snd sec) @ d)"
proof -
  obtain i a0 d0 where sec: "sec = (i, a0, d0)" by (metis prod_cases3)
  from decoded_operand [OF assms(1) [unfolded sec] assms(2)] obtain w w1 where
    w: "vrun xd3_rfc3284_code_table S (length inp) (vstart ac0 (i, a0, d0)) = Some w" "v_inst w = []"
      "vpend S (length inp) (Some p) (vapp w [] a d) = Some (vapp w1 [] a d)"
      "vop S (length inp) (r_type q) (isz r) (vapp w1 [] a d) = Some \<lparr>v_inst = [], v_addr = [], v_data = [], v_cache = ac', v_tgt = take (ipos r + isz r) inp\<rparr>"
    by metis
  have p: "rfc3284_type (r_type p)" using assms(4) by (simp add: pending_ok_def)
  have "vinst xd3_rfc3284_code_table S (length inp) (vapp w [c] a d)
      = Some \<lparr>v_inst = [], v_addr = [], v_data = [], v_cache = ac', v_tgt = take (ipos r + isz r) inp\<rparr>"
    using vinst_double [OF assms(5) p assms(6), of "vapp w [c] a d" "[]"] w(2,3,4) assms(3) by (simp add: vpend_def vapp_nil)
  then have "vrun xd3_rfc3284_code_table S (length inp) (vapp w [c] a d)
      = Some \<lparr>v_inst = [], v_addr = [], v_data = [], v_cache = ac', v_tgt = take (ipos r + isz r) inp\<rparr>"
    by (intro vrun_one) simp_all
  then show ?thesis using vrun_app [OF w(1), of "[c]" a d] by (simp add: vstart_app decoded_def vpend_def sec)
qed

section \<open>Encoding one instruction\<close>

lemma choose_parts:
  assumes "xd3_choose_instruction prev inst = (prev', inst')"
  shows "\<exists>c. inst' = inst\<lparr>r_code1 := c\<rparr>" "prev' = None \<longleftrightarrow> prev = None" "prev = Some p \<Longrightarrow> \<exists>c. prev' = Some (p\<lparr>r_code2 := c\<rparr>)"
proof -
  show "\<exists>c. inst' = inst\<lparr>r_code1 := c\<rparr>" using assms by (auto simp: xd3_choose_instruction_def Let_def split: if_splits)
  show "prev' = None \<longleftrightarrow> prev = None" using assms
    by (auto simp: xd3_choose_instruction_def Let_def split: if_splits option.splits)
  have e: "\<exists>c. p = p\<lparr>r_code2 := c\<rparr>" by (rule exI [of _ "r_code2 p"]) simp
  show "\<exists>c. prev' = Some (p\<lparr>r_code2 := c\<rparr>)" if "prev = Some p"
    using assms that e by (auto simp: xd3_choose_instruction_def Let_def split: if_splits)
qed

lemma choose_double:
  assumes "pending_ok p" "rfc3284_type (r_type inst)" "xd3_choose_instruction (Some p) inst = (Some p', inst')" "r_code2 p' \<noteq> 0"
  shows "entry_codes2 (xd3_rfc3284_code_table ! unat (r_code2 p')) p inst"
proof -
  have p: "rfc3284_type (r_type p)" "r_code2 p = 0" "r_size p \<noteq> 0" using assms(1) by (simp_all add: pending_ok_def)
  have "r_type inst \<noteq> XD3_RUN" using assms(3,4) p(2) by (auto simp: xd3_choose_instruction_def)
  then show ?thesis using choose_copyadd [OF p(1) _ assms(3) p(2) assms(4)] choose_addcopy [OF assms(2) _ _ _ assms(3) p(2) assms(4)] p(3) by blast
qed

text \<open>A call that encodes up to \<open>pos\<close>, or runs out of memory.\<close>

definition reaches :: "xd3_addr_cache \<Rightarrow> u8 list \<Rightarrow> u8 list \<Rightarrow> nat \<Rightarrow> xd3_stream \<Rightarrow> xd3_ret \<times> xd3_stream \<Rightarrow> bool" where
  "reaches ac0 file inp pos st res \<longleftrightarrow> no_mem st (fst res) \<or>
     fst res = XD3_OK \<and> enc_inv ac0 file inp (snd res) \<and> later file st (snd res) \<and> unat (unencoded_offset (snd res)) = pos"

definition keeps :: "xd3_addr_cache \<Rightarrow> u8 list \<Rightarrow> u8 list \<Rightarrow> nat \<Rightarrow> xd3_stream \<Rightarrow> xd3_ret \<times> xd3_stream \<Rightarrow> bool" where
  "keeps ac0 file inp pos st res \<longleftrightarrow> reaches ac0 file inp pos st res \<and> (fst res = XD3_OK \<longrightarrow> iopt_used (snd res) = iopt_used st)"

lemma keeps_bind:
  assumes "keeps ac0 file inp p st m"
    and "\<And>st1. enc_inv ac0 file inp st1 \<Longrightarrow> later file st st1 \<Longrightarrow> unat (unencoded_offset st1) = p \<Longrightarrow> keeps ac0 file inp q st1 (k st1)"
  shows "keeps ac0 file inp q st (bind_ok m k)"
proof (cases m)
  case (Pair r st1)
  then show ?thesis using assms(1) assms(2) [of st1] later_trans [of "file" st st1] later_mem [of "file" st st1]
    by (cases "no_mem st r") (auto simp: keeps_def reaches_def)
qed

lemma reaches_bind:
  assumes "reaches ac0 file inp p st m"
    and "\<And>st1. m = (XD3_OK, st1) \<Longrightarrow> enc_inv ac0 file inp st1 \<Longrightarrow> later file st st1 \<Longrightarrow> unat (unencoded_offset st1) = p
      \<Longrightarrow> reaches ac0 file inp q st1 (k st1)"
  shows "reaches ac0 file inp q st (bind_ok m k)"
proof (cases m)
  case (Pair r st1)
  then show ?thesis using assms(1) assms(2) [of st1] later_trans [of "file" st st1] later_mem [of "file" st st1]
    by (cases "no_mem st r") (auto simp: reaches_def)
qed

text \<open>How a step ends: the sections have grown by an opcode \<open>i\<close>, and \<open>io\<close> waits.\<close>

lemma keepsI:
  assumes "operand_ok file inp st0 r r1 st1" "adds i [] [] st2 (XD3_OK, st4)" "same_src st1 st2" "secs st2 = secs st1"
    and "acache st2 = acache st1 \<and> iopt_used st2 = iopt_used st1" "unat (unencoded_offset st2) = ipos r + isz r" "pred_option pending_ok io"
    and "\<And>S a d. seg file st1 S \<Longrightarrow> step_means S inp (r_type r1) r a d (acache st0) (acache st1)
      \<Longrightarrow> decoded ac0 S inp io (ipos r + isz r) (acache st1) (fst (secs st0) @ i, fst (snd (secs st0)) @ a, snd (snd (secs st0)) @ d)"
  shows "keeps ac0 file inp (ipos r + isz r) st0 (XD3_OK, st4\<lparr>iopt_free := l, iout := io\<rparr>)"
proof -
  let ?st5 = "st4\<lparr>iopt_free := l, iout := io\<rparr>"
  note ad = adds_okD [OF assms(2)] core_fields [OF adds_okD(1) [OF assms(2)]]
  have s: "same_src st1 ?st5" using core_same_src [OF ad(1)] assms(3) by (simp add: same_src_defs)
  have o: "enc_base inp st1" "later file st0 st1" "rfc3284_type (r_type r1)"
    "\<exists>a d. secs st1 = (fst (secs st0), fst (snd (secs st0)) @ a, snd (snd (secs st0)) @ d)
          \<and> (\<forall>S. seg file st1 S \<longrightarrow> step_means S inp (r_type r1) r a d (acache st0) (acache st1))"
    using assms(1) by (simp_all add: operand_ok_def)
  have ac: "acache ?st5 = acache st1" using ad(13) assms(5) by simp
  have "enc_base inp ?st5" using o(1) ac by (intro enc_base_src [OF o(1) s]) (simp_all add: ad(2) enc_base_def)
  moreover have u: "unat (unencoded_offset ?st5) = ipos r + isz r" using ad(14) assms(6) by simp
  moreover from o(4) have "\<forall>S. seg file ?st5 S \<longrightarrow> decoded ac0 S inp (iout ?st5) (unat (unencoded_offset ?st5)) (acache ?st5) (secs ?st5)"
    unfolding u ac same_src_seg [OF s] using ad(3) assms(4,8) by auto
  moreover have "later file st0 ?st5" by (rule later_trans [OF o(2) same_src_later [OF s]])
  moreover have "iopt_used ?st5 = iopt_used st0" using ad(16) assms(1,5) by (simp add: operand_ok_def)
  ultimately show ?thesis using assms(7) by (simp add: keeps_def reaches_def enc_inv_def)
qed

lemma adds_nil: "chains_ok st \<Longrightarrow> adds [] [] [] st (XD3_OK, st)"
  by (simp add: adds_def secs_def)

lemma free_nonadd_eq: "xd3_iopt_free_nonadd i st = st\<lparr>iopt_free := iopt_free (xd3_iopt_free_nonadd i st)\<rparr>"
  by (simp add: xd3_iopt_free_nonadd_def)

lemma free_two_eq:
  "xd3_iopt_free_nonadd j (xd3_iopt_free_nonadd i st) = st\<lparr>iopt_free := iopt_free (xd3_iopt_free_nonadd j (xd3_iopt_free_nonadd i st))\<rparr>"
  by (simp add: xd3_iopt_free_nonadd_def)

text \<open>Emitting the instruction that waits, alone or in one opcode with the next.\<close>

lemma emit_waiting_keeps:
  assumes ok: "operand_ok file inp st r r1 st1"
    and dec: "\<And>S. seg file st1 S \<Longrightarrow> decoded ac0 S inp (Some p) (ipos r) (acache st) (secs st)"
    and p: "pending_ok p" and q: "pending_ok q" "r_type q = r_type r1" "r_size q = r_size r"
    and st3: "same_src st1 st3" "secs st3 = secs st1" "acache st3 = acache st1 \<and> iopt_used st3 = iopt_used st1" "chains_ok st3" "code_table st3 = Some xd3_rfc3284_code_table"
      "unat (unencoded_offset st3) = ipos r + isz r"
    and c: "c \<noteq> 0 \<Longrightarrow> entry_codes2 (xd3_rfc3284_code_table ! unat c) p q"
  shows "keeps ac0 file inp (ipos r + isz r) st
    (if c \<noteq> 0 then
       bind_ok (xd3_emit_double p' q c st3) (\<lambda>st4. (XD3_OK, (xd3_iopt_free_nonadd q (xd3_iopt_free_nonadd p' st4))\<lparr>iout := None\<rparr>))
     else bind_ok (xd3_emit_single p (r_code1 p) st3) (\<lambda>st4. (XD3_OK, (xd3_iopt_free_nonadd p' st4)\<lparr>iout := Some q\<rparr>)))"
proof (cases "c \<noteq> 0")
  case True
  have mem: "no_mem st3 x = no_mem st x" for x using ok later_mem same_src_later [OF st3(1)] by (metis operand_ok_def)
  obtain ret st4 where e: "xd3_emit_double p' q c st3 = (ret, st4)" by fastforce
  with emit_double_adds [OF st3(4), of c p' q] have a: "adds [c] [] [] st3 (ret, st4)" by simp
  have t: "rfc3284_type (r_type q)" using q(1) by (simp add: pending_ok_def)
  note d = decoded_double [OF dec _ q(3) p c [OF True] t, unfolded q(2)]
  have "keeps ac0 file inp (ipos r + isz r) st
      (XD3_OK, st4\<lparr>iopt_free := iopt_free (xd3_iopt_free_nonadd q (xd3_iopt_free_nonadd p' st4)), iout := None\<rparr>)" if "ret = XD3_OK"
    using a that st3(6) by (intro keepsI [OF ok _ st3(1,2,3), of "[c]" st4] d) simp_all
  then show ?thesis using True a e by (subst free_two_eq) (auto simp: mem adds_def keeps_def reaches_def)
next
  case False
  have mem: "no_mem st3 x = no_mem st x" for x using ok later_mem same_src_later [OF st3(1)] by (metis operand_ok_def)
  obtain ret st4 where e: "xd3_emit_single p (r_code1 p) st3 = (ret, st4)" by fastforce
  with emit_single_adds [OF st3(4,5), of p] have a: "adds (single_bytes p) [] [] st3 (ret, st4)" by simp
  note d = decoded_single [OF dec _ q(3) p, unfolded q(2)]
  have "keeps ac0 file inp (ipos r + isz r) st
      (XD3_OK, st4\<lparr>iopt_free := iopt_free (xd3_iopt_free_nonadd p' st4), iout := Some q\<rparr>)" if "ret = XD3_OK"
    using a that st3(6) q(1) by (intro keepsI [OF ok _ st3(1,2,3), of "single_bytes p" st4] d) simp_all
  then show ?thesis using False a e by (subst free_nonadd_eq) (auto simp: mem adds_def keeps_def reaches_def)
qed

lemma emit_single_code2 [simp]: "xd3_emit_single (p\<lparr>r_code2 := c\<rparr>) k st = xd3_emit_single p k st"
proof -
  have "r_size (p\<lparr>r_code2 := c\<rparr>) = r_size p" by simp
  then show ?thesis by (simp only: xd3_emit_single_def)
qed

lemma finish_encoding_keeps:
  assumes inv: "enc_inv ac0 file inp st" and enc: "to_encode file inp st r" and pos: "ipos r = unat (unencoded_offset st)"
  shows "keeps ac0 file inp (ipos r + isz r) st (xd3_iopt_finish_encoding r st)"
proof -
  have base: "enc_base inp st" and po: "pred_option pending_ok (iout st)"
    and dec: "\<And>S. seg file st S \<Longrightarrow> decoded ac0 S inp (iout st) (ipos r) (acache st) (secs st)"
    using inv pos by (simp_all add: enc_inv_def)
  have sz: "0 < isz r" "ipos r + isz r \<le> length inp" using enc by (auto simp: to_encode_def valid_inst_def)
  obtain ret r1 st1 where op: "encode_operand r st = (ret, r1, st1)" by (metis prod_cases3)
  then have "no_mem st ret \<or> ret = XD3_OK \<and> operand_ok file inp st r r1 st1" using encode_operand_ok [OF base enc] by simp
  then show ?thesis
  proof
    assume "no_mem st ret"
    moreover from this have "ret \<noteq> XD3_OK" by (auto simp: no_mem_def)
    ultimately show ?thesis by (simp add: xd3_iopt_finish_encoding_def op keeps_def reaches_def)
  next
    assume "ret = XD3_OK \<and> operand_ok file inp st r r1 st1"
    then have ok: "ret = XD3_OK" "operand_ok file inp st r r1 st1" by simp_all
    then have b1: "enc_base inp st1" "iout st1 = iout st" "unencoded_offset st1 = unencoded_offset st" "rfc3284_type (r_type r1)"
      "r1 = r\<lparr>r_type := r_type r1\<rparr>" "later file st st1" by (simp_all add: operand_ok_def)
    then have rs: "r_size r1 = r_size r" by (metis xd3_rinst.select_convs(6) xd3_rinst.surjective xd3_rinst.update_convs(1))
    define st2 where "st2 = st1\<lparr>unencoded_offset := unencoded_offset st1 + r_size r1\<rparr>"
    have u: "unat (unencoded_offset st2) = ipos r + isz r"
      using unat_add_u32 [of "unencoded_offset st" "r_size r"] sz pos rs b1(3) enc_base_length [OF base] unat_u32_less [of "avail_in st"]
      by (simp add: st2_def)
    have seg: "seg file st S" if "seg file st1 S" for S using that b1(6) by (simp add: later_def)
    obtain prev q where ch: "xd3_choose_instruction (iout st) (r1\<lparr>r_code2 := 0\<rparr>) = (prev, q)" by fastforce
    obtain c where q: "q = r1\<lparr>r_code2 := 0, r_code1 := c\<rparr>" using choose_parts(1) [OF ch] by auto
    have qok: "pending_ok q" using choose_code1 [OF _ ch] b1(4) sz(1) rs by (auto simp: pending_ok_def q entry_codes_def)
    have qf: "r_type q = r_type r1" "r_size q = r_size r" using q rs by simp_all
    have s2: "same_src st1 (st2\<lparr>iout := x\<rparr>)" for x by (simp add: same_src_defs st2_def)
    have f2: "secs (st2\<lparr>iout := x\<rparr>) = secs st1" "acache (st2\<lparr>iout := x\<rparr>) = acache st1 \<and> iopt_used (st2\<lparr>iout := x\<rparr>) = iopt_used st1" "chains_ok (st2\<lparr>iout := x\<rparr>)"
      "code_table (st2\<lparr>iout := x\<rparr>) = Some xd3_rfc3284_code_table" for x using b1(1) by (simp_all add: st2_def enc_base_def)
    have fe: "xd3_iopt_finish_encoding r st = (case prev of
                  None \<Rightarrow> (XD3_OK, st2\<lparr>iout := Some q\<rparr>)
                | Some p \<Rightarrow>
                   let st3 = st2\<lparr>iout := Some p\<rparr> in
                   if r_code2 p \<noteq> 0 then
                     bind_ok (xd3_emit_double p q (r_code2 p) st3)
                       (\<lambda>st4. (XD3_OK, (xd3_iopt_free_nonadd q (xd3_iopt_free_nonadd p st4))\<lparr>iout := None\<rparr>))
                   else
                     bind_ok (xd3_emit_single p (r_code1 p) st3)
                       (\<lambda>st4. (XD3_OK, (xd3_iopt_free_nonadd p st4)\<lparr>iout := Some q\<rparr>)))"
      using ch b1(2) by (simp add: xd3_iopt_finish_encoding_def op ok(1) st2_def Let_def split: option.split)
    show ?thesis
    proof (cases "iout st")
      case None
      then have pn: "prev = None" using choose_parts(2) [OF ch] by simp
      have "keeps ac0 file inp (ipos r + isz r) st (XD3_OK, (st2\<lparr>iout := None\<rparr>)\<lparr>iopt_free := iopt_free st2, iout := Some q\<rparr>)"
        using qok u decoded_wait [OF dec [OF seg, unfolded None] _ qf(2), unfolded qf(1)]
        by (intro keepsI [OF ok(2) adds_nil [OF f2(3)] s2 f2(1,2)]) simp_all
      then show ?thesis by (simp add: fe pn)
    next
      case (Some p)
      then obtain c2 where p': "prev = Some (p\<lparr>r_code2 := c2\<rparr>)" using choose_parts(3) [OF ch] by blast
      have pok: "pending_ok p" using po Some by simp
      have e2: "entry_codes2 (xd3_rfc3284_code_table ! unat c2) p q" if "c2 \<noteq> 0"
        using choose_double [OF pok _ ch [unfolded Some p']] that b1(4) qf q by (simp add: entry_codes2_def)
      have d: "decoded ac0 S inp (Some p) (ipos r) (acache st) (secs st)" if "seg file st1 S" for S using dec seg that Some by simp
      show ?thesis unfolding fe p' option.case Let_def
        using emit_waiting_keeps [OF ok(2) d pok qok qf s2 f2 _ e2, of "Some (p\<lparr>r_code2 := c2\<rparr>)" "p\<lparr>r_code2 := c2\<rparr>"] u
        by (cases "c2 = 0") simp_all
    qed
  qed
qed

section \<open>Encoding the buffer\<close>

lemma iopt_add_keeps:
  assumes inv: "enc_inv ac0 file inp st" and pos: "unat (unencoded_offset st) \<le> unat pos" "unat pos \<le> length inp"
  shows "keeps ac0 file inp (unat pos) st (xd3_iopt_add pos st)"
proof (cases "pos > unencoded_offset st")
  case True
  define a where "a = stack_add (unencoded_offset st) (pos - unencoded_offset st)"
  have "unat (pos - unencoded_offset st) = unat pos - unat (unencoded_offset st)" using pos by (intro unat_sub_le) (simp add: word_le_nat_alt)
  then have n: "ipos a = unat (unencoded_offset st)" "isz a = unat pos - unat (unencoded_offset st)" "r_type a = XD3_ADD"
    by (simp_all add: a_def stack_add_def)
  have "unat (unencoded_offset st) < unat pos" using True by (simp add: word_less_nat_alt)
  then show ?thesis using finish_encoding_keeps [OF inv, of a] n pos True
    by (simp add: xd3_iopt_add_def to_encode_def a_def Let_def)
next
  case False
  then have "unat pos = unat (unencoded_offset st)" using pos by (simp add: word_less_nat_alt)
  then show ?thesis using False inv by (simp add: xd3_iopt_add_def keeps_def reaches_def)
qed

lemma add_encoding_keeps:
  assumes "enc_inv ac0 file inp st" "valid_inst file inp st r" "unat (unencoded_offset st) \<le> ipos r"
  shows "keeps ac0 file inp (ipos r + isz r) st (xd3_iopt_add_encoding r st)"
  unfolding xd3_iopt_add_encoding_def
proof (rule keeps_bind)
  show "keeps ac0 file inp (ipos r) st (xd3_iopt_add (r_pos r) st)"
    using assms by (intro iopt_add_keeps) (auto simp: valid_inst_def)
  fix st1 assume st1: "enc_inv ac0 file inp st1" "later file st st1" "unat (unencoded_offset st1) = ipos r"
  then show "keeps ac0 file inp (ipos r + isz r) st1 (xd3_iopt_finish_encoding r st1)"
    using assms(2) by (intro finish_encoding_keeps) (simp_all add: later_def to_encode_def)
qed

lemma no_mem_upd [simp]: "no_mem (st\<lparr>iopt_used := l\<rparr>) r = no_mem st r" "no_mem (st\<lparr>iopt_free := l'\<rparr>) r = no_mem st r"
  by (simp_all add: no_mem_def mem_ok_def)

lemma enc_inv_used [simp]: "enc_inv ac0 file inp (st\<lparr>iopt_used := l\<rparr>) = enc_inv ac0 file inp st"
proof -
  have s: "same_src st (st\<lparr>iopt_used := l\<rparr>)" by (simp add: same_src_defs)
  show ?thesis using same_src_fits [OF s] same_src_seg [OF s] by (simp add: enc_inv_def enc_base_def)
qed

lemma enc_inv_free [simp]: "enc_inv ac0 file inp (st\<lparr>iopt_free := l\<rparr>) = enc_inv ac0 file inp st"
proof -
  have s: "same_src st (st\<lparr>iopt_free := l\<rparr>)" by (simp add: same_src_defs)
  show ?thesis using same_src_fits [OF s] same_src_seg [OF s] by (simp add: enc_inv_def enc_base_def)
qed

lemma later_used [simp]:
  "later file (st\<lparr>iopt_used := l\<rparr>) st1 = later file st st1" "later file st (st1\<lparr>iopt_used := l\<rparr>) = later file st st1"
  "later file (st\<lparr>iopt_free := l\<rparr>) st1 = later file st st1"
proof -
  have s: "same_src st (st\<lparr>iopt_used := l\<rparr>)" "same_src (st\<lparr>iopt_used := l\<rparr>) st" "same_src st1 (st1\<lparr>iopt_used := l\<rparr>)" "same_src (st1\<lparr>iopt_used := l\<rparr>) st1"
    "same_src st (st\<lparr>iopt_free := l\<rparr>)" "same_src (st\<lparr>iopt_free := l\<rparr>) st"
    by (simp_all add: same_src_defs)
  show "later file (st\<lparr>iopt_used := l\<rparr>) st1 = later file st st1" "later file st (st1\<lparr>iopt_used := l\<rparr>) = later file st st1"
    "later file (st\<lparr>iopt_free := l\<rparr>) st1 = later file st st1"
    using same_src_later [OF s(1)] same_src_later [OF s(2)] same_src_later [OF s(3)] same_src_later [OF s(4)]
      same_src_later [OF s(5)] same_src_later [OF s(6)] later_trans by blast+
qed

text \<open>Instructions in order, none before \<open>u\<close> and none overlapping.\<close>

fun laid_out :: "nat \<Rightarrow> xd3_rinst list \<Rightarrow> bool" where
  "laid_out u [] = True"
| "laid_out u (r # rs) = (u \<le> ipos r \<and> laid_out (ipos r + isz r) rs)"

fun chain_end :: "nat \<Rightarrow> xd3_rinst list \<Rightarrow> nat" where
  "chain_end u [] = u"
| "chain_end u (r # rs) = chain_end (ipos r + isz r) rs"

lemma chain_end_bound: "u \<le> length inp \<Longrightarrow> list_all (valid_inst file inp st) rs \<Longrightarrow> chain_end u rs \<le> length inp"
  by (induction rs arbitrary: u) (auto simp: valid_inst_def)

lemma valid_list_later: "later file st st1 \<Longrightarrow> list_all (valid_inst file inp st) rs \<Longrightarrow> list_all (valid_inst file inp st1) rs"
  by (auto simp: later_def list_all_iff)

lemma keeps_reaches: "keeps ac0 file inp pos st res \<Longrightarrow> reaches ac0 file inp pos st res"
  by (simp add: keeps_def)

lemma flush_loop_reaches:
  assumes "enc_inv ac0 file inp st" "list_all (valid_inst file inp st) rs" "laid_out (unat (unencoded_offset st)) rs"
  shows "reaches ac0 file inp (chain_end (unat (unencoded_offset st)) rs) st (iopt_flush_loop True n rs st)"
  using assms
proof (induction rs arbitrary: n st)
  case Nil
  then show ?case by (simp add: reaches_def)
next
  case (Cons r rs)
  let ?st = "st\<lparr>iopt_used := rs\<rparr>"
  have v: "valid_inst file inp ?st r"
    using Cons.prems(2) same_src_valid [of st ?st] by (simp add: same_src_defs)
  have "reaches ac0 file inp (chain_end (ipos r + isz r) rs) ?st (iopt_flush_loop True n (r # rs) st)"
    unfolding iopt_flush_loop.simps
  proof (rule reaches_bind)
    show "reaches ac0 file inp (ipos r + isz r) ?st (xd3_iopt_add_encoding r ?st)"
      using Cons.prems v by (intro keeps_reaches add_encoding_keeps) simp_all
    fix st1 assume st1: "enc_inv ac0 file inp st1" "later file ?st st1" "unat (unencoded_offset st1) = ipos r + isz r"
    then show "reaches ac0 file inp (chain_end (ipos r + isz r) rs) st1
        (if \<not> True \<and> (n + 1 > iopt_size st1 div 2 \<or> length rs < 3) then (XD3_OK, st1) else iopt_flush_loop True (n + 1) rs st1)"
      using Cons.IH [of st1] Cons.prems(2,3) valid_list_later [of "file" st st1] by simp
  qed
  then show ?case by (simp add: reaches_def)
qed

text \<open>The end of a window: the rest of the input is an ADD, and the last instruction is emitted.\<close>

lemma decoded_emit:
  assumes "decoded ac0 S inp (Some p) u ac sec" and "pending_ok p"
  shows "decoded ac0 S inp None u ac (fst sec @ single_bytes p, fst (snd sec), snd (snd sec))"
proof -
  obtain i a d where sec: "sec = (i, a, d)" by (metis prod_cases3)
  define w1 where "w1 = \<lparr>v_inst = [], v_addr = [], v_data = [], v_cache = ac, v_tgt = take u inp\<rparr>"
  obtain w where w: "vrun xd3_rfc3284_code_table S (length inp) (vstart ac0 (i, a, d)) = Some w" "vop S (length inp) (r_type p) (isz p) w = Some w1"
    using assms(1) by (auto simp: decoded_def vpend_def w1_def sec)
  have e: "(vapp w (single_bytes p) [] [])\<lparr>v_inst := []\<rparr> = w" using vrun_done [OF w(1)] by (simp add: vapp_def)
  have "vinst xd3_rfc3284_code_table S (length inp) (vapp w (single_bytes p) [] []) = Some w1"
    using vinst_single [of p "vapp w (single_bytes p) [] []" "[]"] assms(2) vrun_done [OF w(1)] w(2) e by (simp add: pending_ok_def)
  then have "vrun xd3_rfc3284_code_table S (length inp) (vapp w (single_bytes p) [] []) = Some w1"
    by (intro vrun_one) (simp_all add: single_bytes_def w1_def)
  then show ?thesis using vrun_app [OF w(1), of "single_bytes p" "[]" "[]"] vstart_app [of ac0 i "single_bytes p" a "[]" d "[]"]
    by (simp add: decoded_def vpend_def w1_def sec)
qed

lemma emit_last_keeps:
  assumes inv: "enc_inv ac0 file inp st" and p: "iout st = Some p"
  shows "keeps ac0 file inp (unat (unencoded_offset st)) st
    (bind_ok (xd3_emit_single p (r_code1 p) st) (\<lambda>st2. (XD3_OK, (xd3_iopt_free_nonadd p st2)\<lparr>iout := None\<rparr>)))"
proof -
  have b: "enc_base inp st" "pending_ok p" using inv p by (simp_all add: enc_inv_def)
  obtain ret st4 where e: "xd3_emit_single p (r_code1 p) st = (ret, st4)" by fastforce
  have a: "adds (single_bytes p) [] [] st (ret, st4)" using emit_single_adds [of st p] b e by (simp add: enc_base_def)
  show ?thesis
  proof (cases "ret = XD3_OK")
    case True
    let ?st5 = "st4\<lparr>iopt_free := iopt_free (xd3_iopt_free_nonadd p st4), iout := None\<rparr>"
    note ad = adds_okD [OF a [unfolded True]] core_fields [OF adds_okD(1) [OF a [unfolded True]]]
    have s: "same_src st ?st5" using core_same_src [OF ad(1)] by (simp add: same_src_defs)
    have f: "acache ?st5 = acache st" "unencoded_offset ?st5 = unencoded_offset st" using ad(13,14) by simp_all
    have "enc_base inp ?st5" using b(1) f by (intro enc_base_src [OF b(1) s]) (simp_all add: ad(2) enc_base_def)
    moreover have "decoded ac0 S inp (iout ?st5) (unat (unencoded_offset ?st5)) (acache ?st5) (secs ?st5)" if "seg file ?st5 S" for S
    proof -
      have "seg file st S" using that same_src_seg [OF s] by simp
      then have "decoded ac0 S inp (Some p) (unat (unencoded_offset st)) (acache st) (secs st)" using inv p by (simp add: enc_inv_def)
      from decoded_emit [OF this b(2)] show ?thesis using f ad(3) by simp
    qed
    ultimately have "keeps ac0 file inp (unat (unencoded_offset st)) st (XD3_OK, ?st5)"
      using same_src_later [OF s] f ad(16) by (simp add: keeps_def reaches_def enc_inv_def)
    then show ?thesis using e True by (subst free_nonadd_eq) simp
  next
    case False
    then show ?thesis using a e by (auto simp: adds_def keeps_def reaches_def)
  qed
qed

lemma add_finalize_keeps:
  assumes inv: "enc_inv ac0 file inp st" and u: "unat (unencoded_offset st) \<le> length inp"
  shows "keeps ac0 file inp (length inp) st (xd3_iopt_add_finalize st)"
  unfolding xd3_iopt_add_finalize_def
proof (rule keeps_bind)
  have "unat (avail_in st) = length inp" using enc_base_length [of inp st] inv by (simp add: enc_inv_def)
  then show "keeps ac0 file inp (length inp) st (xd3_iopt_add (avail_in st) st)" using iopt_add_keeps [OF inv, of "avail_in st"] u by simp
  fix st1 assume st1: "enc_inv ac0 file inp st1" "unat (unencoded_offset st1) = length inp"
  show "keeps ac0 file inp (length inp) st1 (case iout st1 of
         None \<Rightarrow> (XD3_OK, st1)
       | Some p \<Rightarrow> bind_ok (xd3_emit_single p (r_code1 p) st1)
           (\<lambda>st2. (XD3_OK, (xd3_iopt_free_nonadd p st2)\<lparr>iout := None\<rparr>)))"
  proof (cases "iout st1")
    case None
    then show ?thesis using st1 by (simp add: keeps_def reaches_def)
  next
    case (Some p)
    then show ?thesis using emit_last_keeps [OF st1(1) Some] st1(2) by simp
  qed
qed

lemma add_finalize_iout:
  assumes "xd3_iopt_add_finalize st = (XD3_OK, st')"
  shows "iout st' = None"
proof -
  obtain st1 where "(case iout st1 of
         None \<Rightarrow> (XD3_OK, st1)
       | Some p \<Rightarrow> bind_ok (xd3_emit_single p (r_code1 p) st1)
           (\<lambda>st2. (XD3_OK, (xd3_iopt_free_nonadd p st2)\<lparr>iout := None\<rparr>))) = (XD3_OK, st')"
    using assms by (auto simp: xd3_iopt_add_finalize_def bind_ok_OK_iff)
  then show ?thesis by (cases "iout st1") (auto simp: bind_ok_OK_iff)
qed

end
