(* ===== verification/Xd3_Encode_Flush.thy ===== *)
theory Xd3_Encode_Flush
  imports Xd3_Encode_Window
begin

text \<open>
  Resolving the overlaps of the instruction buffer, and flushing it.  The string matcher leaves
  instructions that start and end in order but may overlap; \<open>xd3_iopt_flush_instructions\<close> drops or shortens
  them until none overlaps, and what is left still consists of true matches and runs.
\<close>

section \<open>Shortening instructions\<close>

lemma unat_min: "unat (min a b :: 'a::len word) = min (unat a) (unat b)"
  by (simp add: min_def word_le_nat_alt)

abbreviation iend :: "xd3_rinst \<Rightarrow> nat" where "iend r \<equiv> ipos r + isz r"

text \<open>\<open>r'\<close> is the instruction \<open>r\<close> from its \<open>j\<close>th byte on, with size \<open>n\<close>.\<close>

definition part_of :: "nat \<Rightarrow> nat \<Rightarrow> xd3_rinst \<Rightarrow> xd3_rinst \<Rightarrow> bool" where
  "part_of j n r r' \<longleftrightarrow> r_type r' = r_type r \<and> r_xtra r' = r_xtra r \<and> ipos r' = ipos r + j \<and> isz r' = n
     \<and> r_addr r' = r_addr r + of_nat j"

lemma valid_part:
  assumes "valid_inst file inp st r" "part_of j n r r'" "0 < n" "j + n \<le> isz r" "length file < 18446744073709551616"
  shows "valid_inst file inp st r'"
proof (cases "r_type r = XD3_RUN")
  case True
  then show ?thesis using assms by (auto simp: valid_inst_def part_of_def add.assoc)
next
  case False
  then have v: "r_type r = XD3_CPY" "valid_copy file inp st r" "iend r \<le> length inp" using assms(1) by (simp_all add: valid_inst_def)
  have "iaddr r + isz r < 18446744073709551616"
    using v assms(5) unat_u32_less [of "r_pos r"] unat_u32_less [of "r_size r"] by (auto simp: valid_copy_def split: if_splits)
  then have a: "iaddr r' = iaddr r + j" using assms(2,4) unat_add_u64 [of "r_addr r" "of_nat j"]
    by (simp add: part_of_def unat_of_nat_small)
  have m: "is_match xs (iaddr r') inp (ipos r') n" if "is_match xs (iaddr r) inp (ipos r) (isz r)" for xs
    using that assms(2,4) a by (auto simp: is_match_def part_of_def add.assoc)
  have "XD3_CPY \<noteq> XD3_RUN" by (simp add: inst_consts)
  then show ?thesis using v assms(2,3,4) a m by (auto simp: valid_inst_def valid_copy_def part_of_def in_srcwin_def split: option.splits if_splits)
qed

definition advance :: "u32 \<Rightarrow> xd3_rinst \<Rightarrow> xd3_rinst" where
  "advance adj r = r\<lparr>r_size := r_size r - adj, r_pos := r_pos r + adj, r_addr := r_addr r + ucast adj\<rparr>"

lemma advance_part: "unat adj \<le> isz r \<Longrightarrow> iend r < 4294967296 \<Longrightarrow> part_of (unat adj) (isz r - unat adj) r (advance adj r)"
  by (simp add: part_of_def advance_def unat_add_u32 unat_sub_le word_le_nat_alt)

lemma shorten_part: "part_of 0 (unat n) r (r\<lparr>r_size := n\<rparr>)"
  by (simp add: part_of_def)

text \<open>The two sizes the split works out.\<close>

lemma iopt_split_sizes:
  assumes o: "ipos r1 < ipos r2" "ipos r2 < iend r1" "iend r1 < iend r2" "iend r2 < 4294967296" and far: "8 \<le> iend r2 - ipos r1"
  obtains n j where "iopt_split r1 r2 = (r1\<lparr>r_size := n\<rparr>, advance j r2)" "0 < unat n" "unat n \<le> isz r1" "unat j < isz r2"
    "ipos r1 + unat n = ipos r2 + unat j"
proof -
  define r1end r2end where "r1end = r_pos r1 + r_size r1" and "r2end = r_pos r2 + r_size r2"
  define gap where "gap = r2end - r_pos r1"
  define newsize where "newsize = min XD3_MAX_MATCH_SPLIT (gap - gap div 2)"
  have e: "unat r1end = iend r1" "unat r2end = iend r2" using o by (simp_all add: r1end_def r2end_def unat_add_u32)
  have g: "unat gap = iend r2 - ipos r1" using o e by (simp add: gap_def unat_sub_le word_le_nat_alt)
  have "unat (gap - gap div 2) = unat gap - unat gap div 2" by (subst unat_sub_le) (simp_all add: word_le_nat_alt unat_div)
  then have ns: "unat newsize = min 18 (unat gap - unat gap div 2)" by (simp add: newsize_def unat_min XD3_MAX_MATCH_SPLIT_def)
  have ov: "unat (r1end - r_pos r2) = iend r1 - ipos r2" using o e by (simp add: unat_sub_le word_le_nat_alt)
  note fold = newsize_def [symmetric] gap_def [symmetric] r1end_def [symmetric] r2end_def [symmetric]
  note le = word_le_nat_alt word_less_nat_alt
  consider (first) "newsize > r_size r1" | (second) "\<not> newsize > r_size r1" "newsize > r_size r2"
    | (both) "\<not> newsize > r_size r1" "\<not> newsize > r_size r2" by blast
  then show ?thesis
  proof cases
    case first
    then have "iopt_split r1 r2 = (r1\<lparr>r_size := r_size r1\<rparr>, advance (r1end - r_pos r2) r2)"
      unfolding iopt_split_def Let_def fold advance_def by simp
    then show ?thesis using o ov by (intro that [of "r_size r1" "r1end - r_pos r2"]) simp_all
  next
    case second
    then have "iopt_split r1 r2 = (r1\<lparr>r_size := r_size r1 - (r1end - r_pos r2)\<rparr>, advance 0 r2)"
      unfolding iopt_split_def Let_def fold advance_def by simp
    moreover have "unat (r_size r1 - (r1end - r_pos r2)) = ipos r2 - ipos r1" using o ov by (subst unat_sub_le) (simp_all add: le)
    ultimately show ?thesis using o by (intro that [of "r_size r1 - (r1end - r_pos r2)" 0]) simp_all
  next
    case both
    define a where "a = r_size r1 - newsize"
    define a' where "a' = (if r_pos r2 > r1end - a then a - (r_pos r2 - (r1end - a)) else a)"
    have sp: "iopt_split r1 r2 = (r1\<lparr>r_size := r_size r1 - a'\<rparr>, advance (r_pos r1 + (r_size r1 - a') - r_pos r2) r2)"
      unfolding iopt_split_def Let_def fold advance_def a'_def a_def using both by simp
    have ua: "unat a = isz r1 - unat newsize" using both by (simp add: a_def unat_sub_le le)
    have d: "unat (r1end - a) = ipos r1 + unat newsize" using e ua both by (subst unat_sub_le) (simp_all add: le)
    show ?thesis
    proof (cases "r_pos r2 > r1end - a")
      case True
      then have p: "ipos r1 + unat newsize < ipos r2" using d by (simp add: le)
      have "unat (r_pos r2 - (r1end - a)) = ipos r2 - (ipos r1 + unat newsize)" using True d by (subst unat_sub_le) (simp_all add: le)
      then have "unat a' = isz r1 - (ipos r2 - ipos r1)" using True p o ua ov unfolding a'_def by (simp add: unat_sub_le le)
      then have n: "unat (r_size r1 - a') = ipos r2 - ipos r1" using o by (subst unat_sub_le) (simp_all add: le)
      then have "r_pos r1 + (r_size r1 - a') = r_pos r2" using o by (simp add: word_unat_eq_iff unat_add_u32)
      then show ?thesis using that [OF sp] n o by simp
    next
      case False
      then have p: "ipos r2 \<le> ipos r1 + unat newsize" using d by (simp add: le)
      have n: "unat (r_size r1 - a') = unat newsize" using False ua both unfolding a'_def by (subst unat_sub_le) (simp_all add: le)
      have "min 18 (x - x div 2) < x \<and> 0 < min 18 (x - x div 2)" if "8 \<le> x" for x :: nat using that by auto
      from this [OF far] have h: "unat newsize < iend r2 - ipos r1" "0 < unat newsize" unfolding ns g by blast+
      have h3: "unat newsize \<le> isz r1" using both by (simp add: le)
      then have "unat (r_pos r1 + (r_size r1 - a')) = ipos r1 + unat newsize" using n o by (subst unat_add_u32) simp_all
      then have "unat (r_pos r1 + (r_size r1 - a') - r_pos r2) = ipos r1 + unat newsize - ipos r2" using p by (subst unat_sub_le) (simp_all add: le)
      then show ?thesis using that [OF sp] n h h3 p o by simp
    qed
  qed
qed

section \<open>Resolving overlaps\<close>

text \<open>Instructions that start in order and end in order.\<close>

definition staggered :: "xd3_rinst list \<Rightarrow> bool" where
  "staggered rs \<longleftrightarrow> sorted_wrt (\<lambda>a b. ipos a < ipos b \<and> iend a < iend b) rs"

lemma staggered_simps [simp]:
  "staggered []" "staggered [r]"
  "staggered (a # b # rs) \<longleftrightarrow> ipos a < ipos b \<and> iend a < iend b \<and> staggered (b # rs)"
  by (auto simp: staggered_def)

lemma staggered_tl: "staggered (a # rs) \<Longrightarrow> staggered rs"
  by (simp add: staggered_def)

lemma staggered_skip: "staggered (a # b # rs) \<Longrightarrow> staggered (a # rs)"
  by (simp add: staggered_def)

lemma laid_out_append [simp]: "laid_out u (xs @ ys) \<longleftrightarrow> laid_out u xs \<and> laid_out (chain_end u xs) ys"
  by (induction xs arbitrary: u) auto

lemma chain_end_append [simp]: "chain_end u (xs @ ys) = chain_end (chain_end u xs) ys"
  by (induction xs arbitrary: u) auto

lemma overlap_facts:
  assumes "iend r1 < 4294967296" "iend r2 < 4294967296" "ipos r1 < ipos r2" "iend r1 < iend r2"
  shows "r_pos r1 + r_size r1 \<le> r_pos r2 \<longleftrightarrow> iend r1 \<le> ipos r2"
    "unat (r_pos r2 + r_size r2 - r_pos r1) = iend r2 - ipos r1"
    "unat (r_pos r2 + r_size r2 - (r_pos r1 + r_size r1)) = iend r2 - iend r1" "unat (r_pos r2 - r_pos r1) = ipos r2 - ipos r1"
proof -
  have e: "unat (r_pos r1 + r_size r1) = iend r1" "unat (r_pos r2 + r_size r2) = iend r2" using assms by (simp_all add: unat_add_u32)
  show "r_pos r1 + r_size r1 \<le> r_pos r2 \<longleftrightarrow> iend r1 \<le> ipos r2" using e by (simp add: word_le_nat_alt)
  show "unat (r_pos r2 + r_size r2 - r_pos r1) = iend r2 - ipos r1" using e assms by (subst unat_sub_le) (simp_all add: word_le_nat_alt)
  show "unat (r_pos r2 + r_size r2 - (r_pos r1 + r_size r1)) = iend r2 - iend r1" using e assms by (subst unat_sub_le) (simp_all add: word_le_nat_alt)
  show "unat (r_pos r2 - r_pos r1) = ipos r2 - ipos r1" using assms by (subst unat_sub_le) (simp_all add: word_le_nat_alt)
qed

text \<open>What \<open>iopt_resolve\<close> relies on and returns.  Without \<open>force\<close> the last two instructions may still overlap.\<close>

definition resolving :: "u8 list \<Rightarrow> u8 list \<Rightarrow> xd3_stream \<Rightarrow> nat \<Rightarrow> xd3_rinst list \<Rightarrow> xd3_rinst list \<Rightarrow> bool" where
  "resolving file inp st u pre xs \<longleftrightarrow> list_all (valid_inst file inp st) (pre @ xs) \<and> laid_out u pre \<and> staggered xs
     \<and> (xs \<noteq> [] \<longrightarrow> chain_end u pre \<le> ipos (hd xs))"

definition resolved :: "u8 list \<Rightarrow> u8 list \<Rightarrow> xd3_stream \<Rightarrow> nat \<Rightarrow> bool \<Rightarrow> xd3_rinst list \<Rightarrow> bool" where
  "resolved file inp st u force used \<longleftrightarrow> list_all (valid_inst file inp st) used \<and> laid_out u (butlast used) \<and> (force \<longrightarrow> laid_out u used)
     \<and> staggered used"

lemma laid_out_staggered:
  assumes "laid_out u rs" "list_all (valid_inst file inp st) rs"
  shows "staggered rs"
  using assms
proof (induction rs arbitrary: u)
  case (Cons a rs)
  then show ?case by (cases rs) (auto simp: valid_inst_def)
qed simp

lemma staggered_snoc2: "staggered (pre @ [a]) \<Longrightarrow> ipos a < ipos b \<Longrightarrow> iend a < iend b \<Longrightarrow> staggered (pre @ [a, b])"
  by (auto simp: staggered_def sorted_wrt_append)

lemma laid_out_butlast: "laid_out u xs \<Longrightarrow> laid_out u (butlast xs)"
  by (induction xs arbitrary: u) auto

lemma resolve_split:
  assumes "resolving file inp st u pre (r1 # r2 # rest)" "\<not> iend r1 \<le> ipos r2" "rest \<noteq> [] \<longrightarrow> iend r1 < ipos (hd rest)"
    and "8 \<le> iend r2 - ipos r1" "length file < 18446744073709551616" "length inp < 4294967296" "iopt_split r1 r2 = (r1', r2')"
  shows "resolving file inp st u (pre @ [r1']) (r2' # rest)"
proof -
  have v: "valid_inst file inp st r1" "valid_inst file inp st r2" and ord: "ipos r1 < ipos r2" "iend r1 < iend r2"
    using assms(1) by (simp_all add: resolving_def)
  have "iend r2 < 4294967296" using v(2) assms(6) by (simp add: valid_inst_def)
  with ord assms(2,4) obtain n j where s: "iopt_split r1 r2 = (r1\<lparr>r_size := n\<rparr>, advance j r2)" "0 < unat n" "unat n \<le> isz r1" "unat j < isz r2"
    "ipos r1 + unat n = ipos r2 + unat j" by (metis iopt_split_sizes not_le_imp_less)
  have p1: "part_of 0 (unat n) r1 r1'" using s(1) assms(7) shorten_part by simp
  have p2: "part_of (unat j) (isz r2 - unat j) r2 r2'"
    using s(1,4) assms(7) advance_part [of j r2] \<open>iend r2 < 4294967296\<close> by simp
  have "valid_inst file inp st r1'" "valid_inst file inp st r2'"
    using valid_part [OF v(1) p1 s(2) _ assms(5)] valid_part [OF v(2) p2 _ _ assms(5)] s(3,4) by simp_all
  moreover have "ipos r1' = ipos r1" "iend r1' = ipos r2'" "iend r2' = iend r2" using p1 p2 s(4,5) by (simp_all add: part_of_def)
  moreover have "iend r1' \<le> iend r1" using p1 s(3) by (simp add: part_of_def)
  ultimately show ?thesis using assms(1,3) ord by (cases rest) (auto simp: resolving_def)
qed

lemma iopt_resolve_resolved:
  assumes "resolving file inp st u pre xs" "length file < 18446744073709551616" "length inp < 4294967296"
    and "iopt_resolve force pre xs = (used, fr)"
  shows "resolved file inp st u force used \<and> length used + length fr = length pre + length xs"
  using assms
proof (induction force pre xs arbitrary: used fr rule: iopt_resolve.induct)
  case (1 force pre)
  then show ?case by (auto simp: resolving_def resolved_def laid_out_butlast intro: laid_out_staggered)
next
  case (2 force pre r1)
  then have "staggered (pre @ [r1])" by (intro laid_out_staggered [of u _ "file" inp st]) (auto simp: resolving_def)
  then show ?case using 2 by (auto simp: resolving_def resolved_def)
next
  case (3 force pre r1 r2 rest)
  have v: "valid_inst file inp st r1" "valid_inst file inp st r2" and ord: "ipos r1 < ipos r2" "iend r1 < iend r2" "staggered (r1 # r2 # rest)"
    and u: "chain_end u pre \<le> ipos r1" using 3(6) by (simp_all add: resolving_def)
  have e: "iend r1 < 4294967296" "iend r2 < 4294967296" using v 3(8) by (simp_all add: valid_inst_def)
  note f = overlap_facts [OF e ord(1,2)]
  note res = 3(6) [unfolded resolving_def]
  define far where "far \<longleftrightarrow> rest \<noteq> [] \<and> r_pos (hd rest) \<le> r_pos r1 + r_size r1 + 1"
  have next3: "iend r1 < ipos (hd rest)" if "\<not> far" "rest \<noteq> []"
    using that e ord(2) unat_add_u32 [of "r_pos r1" "r_size r1"] unat_add_u32 [of "r_pos r1 + r_size r1" 1]
    by (auto simp: far_def word_le_nat_alt)
  consider (apart) "iend r1 \<le> ipos r2" | (third) "\<not> iend r1 \<le> ipos r2" far
    | (wait) "\<not> iend r1 \<le> ipos r2" "\<not> far" "rest = []" "\<not> force"
    | (near) "\<not> iend r1 \<le> ipos r2" "\<not> far" "\<not> (rest = [] \<and> \<not> force)" by blast
  then show ?case
  proof cases
    case apart
    have "resolving file inp st u (pre @ [r1]) (r2 # rest)" using apart res by (auto simp: resolving_def)
    then show ?thesis using 3(1) [OF refl] 3(7,8,9) apart f(1) by simp
  next
    case third
    have "resolving file inp st u pre (r1 # rest)" using res staggered_skip by (auto simp: resolving_def)
    then show ?thesis using 3(2) [OF refl _ refl] 3(7,8,9) third f(1) by (auto simp: far_def split: prod.splits)
  next
    case wait
    have "staggered (pre @ [r1])" using res u by (intro laid_out_staggered [of u _ "file" inp st]) auto
    then have "staggered (pre @ [r1, r2])" using ord by (intro staggered_snoc2)
    then show ?thesis using wait 3(9) f(1) res u by (auto simp: resolved_def far_def butlast_append)
  next
    case near
    define close where "close \<longleftrightarrow> r_pos r2 + r_size r2 - r_pos r1 < 2 * of_nat MIN_MATCH
      \<or> r_pos r2 + r_size r2 - (r_pos r1 + r_size r1) \<le> 2 \<or> r_pos r2 - r_pos r1 \<le> 2"
    have n1: "\<not> r_pos r1 + r_size r1 \<le> r_pos r2" using near f(1) by simp
    have n3: "\<not> (rest \<noteq> [] \<and> r_pos (hd rest) \<le> r_pos r1 + r_size r1 + 1)" using near by (simp add: far_def)
    have eq: "iopt_resolve force pre (r1 # r2 # rest) =
        (if close then
           (if r_size r1 < r_size r2
            then (case iopt_resolve force pre (r2 # rest) of (used, fr) \<Rightarrow> (used, r1 # fr))
            else (case iopt_resolve force (pre @ [r1]) rest of (used, fr) \<Rightarrow> (used, r2 # fr)))
         else (case iopt_split r1 r2 of (r1', r2') \<Rightarrow> iopt_resolve force (pre @ [r1']) (r2' # rest)))"
      unfolding iopt_resolve.simps Let_def close_def [symmetric] by (simp only: n1 n3 near(3) if_False)
    consider (drop1) close "r_size r1 < r_size r2" | (drop2) close "\<not> r_size r1 < r_size r2" | (sp) "\<not> close" by blast
    then show ?thesis
    proof cases
      case drop1
      have "resolving file inp st u pre (r2 # rest)" using res u ord(1) by (auto simp: resolving_def)
      moreover obtain fr' where "iopt_resolve force pre (r2 # rest) = (used, fr')" "fr = r1 # fr'"
        using 3(9) drop1 unfolding eq by (auto split: prod.splits simp del: iopt_resolve.simps)
      ultimately show ?thesis using 3(3) [OF refl n1 refl n3 near(3) refl refl refl drop1 [unfolded close_def]] 3(7,8) by simp
    next
      case drop2
      have "resolving file inp st u (pre @ [r1]) rest" using res u next3 near(2) staggered_tl by (fastforce simp: resolving_def)
      moreover obtain fr' where "iopt_resolve force (pre @ [r1]) rest = (used, fr')" "fr = r2 # fr'"
        using 3(9) drop2 unfolding eq by (auto split: prod.splits simp del: iopt_resolve.simps)
      ultimately show ?thesis using 3(4) [OF refl n1 refl n3 near(3) refl refl refl drop2 [unfolded close_def]] 3(7,8) by simp
    next
      case sp
      obtain r1' r2' where s: "iopt_split r1 r2 = (r1', r2')" by fastforce
      have "8 \<le> iend r2 - ipos r1" using sp f(2) by (simp add: close_def word_less_nat_alt MIN_MATCH_def)
      then have "resolving file inp st u (pre @ [r1']) (r2' # rest)"
        using resolve_split [OF 3(6) near(1) _ _ 3(7,8) s] next3 near(2) by blast
      moreover have "iopt_resolve force (pre @ [r1']) (r2' # rest) = (used, fr)"
        using 3(9) sp s unfolding eq by (simp del: iopt_resolve.simps)
      ultimately show ?thesis using 3(5) [OF refl n1 refl n3 near(3) refl refl refl sp [unfolded close_def] s [symmetric]] 3(7,8) by simp
    qed
  qed
qed

section \<open>Flushing the buffer\<close>

text \<open>The buffer as string matching leaves it.\<close>

definition buffer_ok :: "u8 list \<Rightarrow> u8 list \<Rightarrow> xd3_stream \<Rightarrow> bool" where
  "buffer_ok file inp st \<longleftrightarrow> list_all (valid_inst file inp st) (iopt_used st) \<and> staggered (iopt_used st)
     \<and> (iopt_used st \<noteq> [] \<longrightarrow> unat (unencoded_offset st) \<le> ipos (hd (iopt_used st))) \<and> unat (unencoded_offset st) \<le> length inp"

lemma resolve_buffer:
  assumes "enc_inv ac0 file inp st" "buffer_ok file inp st" "length file < 18446744073709551616" "iopt_resolve force [] (iopt_used st) = (used, fr)"
  shows "resolved file inp st (unat (unencoded_offset st)) force used" "length used + length fr = length (iopt_used st)"
proof -
  have "length inp < 4294967296"
    using assms(1) enc_base_length [of inp st] unat_u32_less [of "avail_in st"] by (simp add: enc_inv_def)
  moreover have "resolving file inp st (unat (unencoded_offset st)) [] (iopt_used st)" using assms(2) by (auto simp: buffer_ok_def resolving_def)
  ultimately show "resolved file inp st (unat (unencoded_offset st)) force used" "length used + length fr = length (iopt_used st)"
    using iopt_resolve_resolved [OF _ assms(3) _ assms(4)] by simp_all
qed

lemma flush_reaches:
  assumes "enc_inv ac0 file inp st" "buffer_ok file inp st" "length file < 18446744073709551616"
  shows "\<exists>pos \<le> length inp. reaches ac0 file inp pos st (xd3_iopt_flush_instructions True st)"
proof -
  obtain used fr where res: "iopt_resolve True [] (iopt_used st) = (used, fr)" by fastforce
  let ?st = "st\<lparr>iopt_used := used, iopt_free := iopt_free st @ fr\<rparr>"
  let ?u = "unat (unencoded_offset st)"
  have r: "list_all (valid_inst file inp st) used" "laid_out ?u used"
    using resolve_buffer(1) [OF assms res] by (simp_all add: resolved_def)
  have "same_src st ?st" by (simp add: same_src_defs)
  then have "list_all (valid_inst file inp ?st) used" using r(1) same_src_valid by (simp add: list_all_iff)
  then have "reaches ac0 file inp (chain_end ?u used) ?st (iopt_flush_loop True 0 used ?st)"
    using flush_loop_reaches [of ac0 "file" inp ?st used 0] assms(1) r(2) by simp
  moreover have "chain_end ?u used \<le> length inp" using assms(2) r(1) by (intro chain_end_bound) (auto simp: buffer_ok_def)
  ultimately show ?thesis using res by (auto simp: xd3_iopt_flush_instructions_def reaches_def intro!: exI [of _ "chain_end ?u used"])
qed

lemma flush_finalize_reaches:
  assumes "enc_inv ac0 file inp st" "buffer_ok file inp st" "length file < 18446744073709551616"
  shows "reaches ac0 file inp (length inp) st (bind_ok (xd3_iopt_flush_instructions True st) xd3_iopt_add_finalize)"
proof -
  obtain pos where pos: "pos \<le> length inp" "reaches ac0 file inp pos st (xd3_iopt_flush_instructions True st)"
    using flush_reaches [OF assms] by blast
  show ?thesis using pos(1) add_finalize_keeps by (intro reaches_bind [OF pos(2)] keeps_reaches) simp_all
qed

section \<open>Making room in a full buffer\<close>

lemma partial_flush_loop:
  assumes "enc_inv ac0 file inp st" "list_all (valid_inst file inp st) rs" "laid_out (unat (unencoded_offset st)) (butlast rs)"
    and "staggered rs" "3 \<le> length rs" "iopt_flush_loop False n rs st = (ret, st')"
  shows "no_mem st ret \<or> ret = XD3_OK \<and> enc_inv ac0 file inp st' \<and> buffer_ok file inp st' \<and> later file st st'"
  using assms
proof (induction rs arbitrary: n st)
  case (Cons r rs)
  let ?st = "st\<lparr>iopt_used := rs\<rparr>"
  have v: "valid_inst file inp ?st r" using Cons.prems(2) same_src_valid [of st ?st] by (simp add: same_src_defs)
  obtain q t where rs: "rs = q # t" "t \<noteq> []" using Cons.prems(5) by (cases rs) (auto simp: Suc_le_eq)
  have lo: "unat (unencoded_offset st) \<le> ipos r" "laid_out (iend r) (butlast rs)" "iend r \<le> ipos q" using Cons.prems(3) rs by auto
  obtain ret1 st1 where a: "xd3_iopt_add_encoding r ?st = (ret1, st1)" by fastforce
  have k: "keeps ac0 file inp (iend r) ?st (ret1, st1)"
    using add_encoding_keeps [of ac0 "file" inp ?st r] Cons.prems(1) v lo(1) a by simp
  show ?case
  proof (cases "ret1 = XD3_OK")
    case False
    then show ?thesis using k a Cons.prems(6) by (auto simp: keeps_def reaches_def)
  next
    case True
    then have s1: "enc_inv ac0 file inp st1" "later file st st1" "unat (unencoded_offset st1) = iend r" "iopt_used st1 = rs"
      using k by (simp_all add: keeps_def reaches_def)
    have vl: "list_all (valid_inst file inp st1) rs" using valid_list_later [OF s1(2)] Cons.prems(2) by simp
    have "buffer_ok file inp st1"
      using s1 vl rs lo(3) staggered_tl [OF Cons.prems(4)] v by (simp add: buffer_ok_def valid_inst_def)
    then show ?thesis
      using Cons.prems(6) Cons.IH [OF s1(1) vl _ staggered_tl [OF Cons.prems(4)]] a True s1 lo(2) later_trans [OF s1(2)] later_mem [OF s1(2)]
      by (auto split: if_splits)
  qed
qed simp

lemma partial_flush_buffer:
  assumes "enc_inv ac0 file inp st" "buffer_ok file inp st" "length file < 18446744073709551616"
    and "iopt_resolve False [] (iopt_used st) = (used, fr)" "3 \<le> length used"
    and "xd3_iopt_flush_instructions False st = (ret, st')"
  shows "no_mem st ret \<or> ret = XD3_OK \<and> enc_inv ac0 file inp st' \<and> buffer_ok file inp st' \<and> later file st st'"
proof -
  let ?st = "st\<lparr>iopt_used := used, iopt_free := iopt_free st @ fr\<rparr>"
  have r: "list_all (valid_inst file inp st) used" "laid_out (unat (unencoded_offset st)) (butlast used)" "staggered used"
    using resolve_buffer(1) [OF assms(1-4)] by (simp_all add: resolved_def)
  have "same_src st ?st" by (simp add: same_src_defs)
  then have "list_all (valid_inst file inp ?st) used" using r(1) same_src_valid by (simp add: list_all_iff)
  then show ?thesis using partial_flush_loop [of ac0 "file" inp ?st used 0 ret st'] assms r by (simp add: xd3_iopt_flush_instructions_def)
qed

end
