(* ===== verification/Xd3_Roundtrip.thy ===== *)
theory Xd3_Roundtrip
  imports Xd3_Encode_Flush Xd3_Process
begin

text \<open>
  Encoder and decoder together: the sections the encoder writes for a window decode to its input, through the
  specification of windows and through the decoder itself.
\<close>

section \<open>The start of a window\<close>

text \<open>The sections are empty, nothing waits and nothing is encoded.\<close>

definition enc_window_begin :: "u8 list \<Rightarrow> xd3_stream \<Rightarrow> bool" where
  "enc_window_begin inp st \<longleftrightarrow> enc_base inp st \<and> iout st = None \<and> unencoded_offset st = 0 \<and> secs st = ([], [], [])"

lemma window_begin_inv: "enc_window_begin inp st \<Longrightarrow> enc_inv (acache st) file inp st"
  by (simp add: enc_window_begin_def enc_inv_def decoded_def vstart_def vrun_empty vpend_def)

lemma encode_window_sections:
  assumes "enc_window_begin inp st" "buffer_ok file inp st" "length file < 2 ^ 64"
    and "bind_ok (xd3_iopt_flush_instructions True st) xd3_iopt_add_finalize = (ret, st')"
  shows "no_mem st ret \<or> ret = XD3_OK \<and> (\<forall>S. seg file st' S \<longrightarrow>
    vrun xd3_rfc3284_code_table S (length inp) (vstart (acache st) (secs st'))
      = Some \<lparr>v_inst = [], v_addr = [], v_data = [], v_cache = acache st', v_tgt = inp\<rparr>) \<and> (src st = None \<longrightarrow> src st' = None)"
proof -
  have r: "reaches (acache st) file inp (length inp) st (ret, st')"
    using flush_finalize_reaches [OF window_begin_inv [OF assms(1)] assms(2)] assms(3,4) by simp
  have "iout st' = None" if "ret = XD3_OK" using assms(4) that add_finalize_iout by (auto simp: bind_ok_OK_iff)
  then show ?thesis using r by (auto simp: reaches_def enc_inv_def decoded_def vpend_def later_def)
qed

section \<open>A sample window\<close>

text \<open>A source COPY, a RUN that overlaps its end, and a target COPY after a gap.\<close>

definition sample_file :: "u8 list" where "sample_file = [1, 2, 3, 4, 5, 6, 7, 9, 0]"
definition sample_input :: "u8 list" where "sample_input = [3, 4, 5, 6, 7, 9, 9, 9, 9, 9, 9, 9, 9, 9, 50, 3, 4, 5, 6]"

definition sample_insts :: "xd3_rinst list" where
  "sample_insts =
    [\<lparr>r_type = XD3_CPY, r_xtra = 1, r_code1 = 0, r_code2 = 0, r_pos = 0, r_size = 6, r_addr = 2\<rparr>,
     \<lparr>r_type = XD3_RUN, r_xtra = 9, r_code1 = 0, r_code2 = 0, r_pos = 5, r_size = 9, r_addr = 0\<rparr>,
     \<lparr>r_type = XD3_CPY, r_xtra = 0, r_code1 = 0, r_code2 = 0, r_pos = 15, r_size = 4, r_addr = 0\<rparr>]"

definition sample_encoder :: xd3_stream where
  "sample_encoder = (null_stream (\<lambda>_ _ _. True) (\<lambda>_. 0))\<lparr>next_in := sample_input, avail_in := 19, in_given := True,
     src := Some (sample_source\<lparr>curblk := Some sample_file, onblk := 9, onlastblk := 9\<rparr>), enc_state := ENC_INSTR,
     match_minaddr := 2, match_maxaddr := 8, acache := default_cache, code_table := Some xd3_rfc3284_code_table,
     hdr_out := [\<lparr>pg_data = [], pg_avail = XD3_ALLOCSIZE\<rparr>], data_out := [\<lparr>pg_data = [], pg_avail = XD3_ALLOCSIZE\<rparr>], inst_out := [\<lparr>pg_data = [], pg_avail = XD3_ALLOCSIZE\<rparr>], addr_out := [\<lparr>pg_data = [], pg_avail = XD3_ALLOCSIZE\<rparr>],
     iopt_used := sample_insts\<rparr>"

lemma sample_fields:
  "next_in sample_encoder = sample_input" "avail_in sample_encoder = 19"
  "src sample_encoder = Some (sample_source\<lparr>curblk := Some sample_file, onblk := 9, onlastblk := 9\<rparr>)"
  "enc_state sample_encoder = ENC_INSTR" "match_minaddr sample_encoder = 2" "match_maxaddr sample_encoder = 8" "acache sample_encoder = default_cache"
  "code_table sample_encoder = Some xd3_rfc3284_code_table" "data_out sample_encoder = [\<lparr>pg_data = [], pg_avail = XD3_ALLOCSIZE\<rparr>]"
  "inst_out sample_encoder = [\<lparr>pg_data = [], pg_avail = XD3_ALLOCSIZE\<rparr>]" "addr_out sample_encoder = [\<lparr>pg_data = [], pg_avail = XD3_ALLOCSIZE\<rparr>]"
  "hdr_out sample_encoder = [\<lparr>pg_data = [], pg_avail = XD3_ALLOCSIZE\<rparr>]"
  "iopt_used sample_encoder = sample_insts" "iopt_free sample_encoder = []" "iout sample_encoder = None" "unencoded_offset sample_encoder = 0"
  "srcwin_decided sample_encoder = False" "taroff sample_encoder = 0" "enc_free sample_encoder = []" "alloc sample_encoder = (\<lambda>_ _ _. True)"
  "iopt_size sample_encoder = 0"
  by (simp_all add: sample_encoder_def null_stream_def null_defs xd3_enccfg.defs xd3_matching.defs xd3_stream.defs)

lemma sample_table:
  "arr_get (Some xd3_rfc3284_code_table) 22 = Some (dinst XD3_CPY 6 XD3_NOOP 0)"
  "arr_get (Some xd3_rfc3284_code_table) 0 = Some (dinst XD3_RUN 0 XD3_NOOP 0)"
  by code_simp+

lemma sample_ints:
  "emit_integer_type (0 :: u32) = [0]" "emit_integer_type (6 :: u32) = [6]" "emit_integer_type (8 :: u32) = [8]" "emit_integer_type (20 :: u32) = [20]"
  by code_simp+

text \<open>The steps of the encoder on concrete instructions.\<close>

lemmas encoder_run = xd3_iopt_add_encoding_def xd3_iopt_add_def xd3_iopt_finish_encoding_def encode_operand_def copy_address_def
  xd3_srcwin_setup_def Let_def sample_fields xd3_encode_address_def encode_address_choose_def SMALLEST_INT_def xd3_update_cache_def
  default_cache_def to_addr_def to_inst_def to_data_def emit_byte_to_def emit_bytes_to_def xd3_emit_byte_def page_room_def page_full_def
  append_last_def xd3_emit_bytes.simps XD3_ALLOCSIZE_def xd3_emit_size_def xd3_emit_uint32_t_def sample_ints inst_consts sample_source_def
  USIZE_T_MAX_def arr_set_def xd3_choose_instruction_def xd3_emit_double_def xd3_iopt_free_nonadd_def stack_add_def sample_input_def
  xd3_emit_single_def VCD_SELF_def VCD_HERE_def xd3_iopt_add_finalize_def secs_def out_bytes_def sample_table dinst_def

lemma sample_resolve:
  "iopt_resolve True [] sample_insts =
    ([\<lparr>r_type = XD3_CPY, r_xtra = 1, r_code1 = 0, r_code2 = 0, r_pos = 0, r_size = 6, r_addr = 2\<rparr>,
      \<lparr>r_type = XD3_RUN, r_xtra = 9, r_code1 = 0, r_code2 = 0, r_pos = 6, r_size = 8, r_addr = 1\<rparr>,
      \<lparr>r_type = XD3_CPY, r_xtra = 0, r_code1 = 0, r_code2 = 0, r_pos = 15, r_size = 4, r_addr = 0\<rparr>], [])"
  by code_simp

lemma sample_run:
  "\<exists>st'. bind_ok (xd3_iopt_flush_instructions True sample_encoder) xd3_iopt_add_finalize = (XD3_OK, st')
     \<and> secs st' = ([22, 0, 8, 163], [0, 6], [9, 50]) \<and> srcwin_decided st' \<and> (\<exists>s. src st' = Some s \<and> srcbase s = 2 \<and> srclen s = 6)
     \<and> avail_in st' = 19"
  unfolding xd3_iopt_flush_instructions_def sample_fields sample_resolve prod.case by (simp add: encoder_run)

lemma sample_page: "page_wf \<lparr>pg_data = [], pg_avail = XD3_ALLOCSIZE\<rparr>"
  by (simp add: page_wf_def)

lemma sample_begin: "enc_window_begin sample_input sample_encoder"
  using sample_page default_cache_wf
  by (simp add: enc_window_begin_def enc_base_def sample_fields chains_ok_def chain_wf_def pool_wf_def cache_ok_def win_fits_def
      secs_def out_bytes_def sample_source_def) (simp add: sample_input_def default_cache_def)

lemma all_below_numeral: "(\<forall>k < numeral n. P k) \<longleftrightarrow> P (pred_numeral n) \<and> (\<forall>k < pred_numeral n. P k)"
  by (auto simp: numeral_eq_Suc less_Suc_eq)

lemma sample_buffer: "buffer_ok sample_file sample_input sample_encoder"
  by (simp add: buffer_ok_def sample_fields sample_insts_def valid_inst_def valid_copy_def is_match_def in_srcwin_def
      sample_file_def sample_input_def sample_source_def inst_consts all_below_numeral)

section \<open>The checksum\<close>

lemma vadler_less: "vadler bs < 2 ^ LENGTH(32)"
proof -
  obtain a b where ab: "adler_ref (1, 0) bs = (a, b)" by fastforce
  then show ?thesis using adler_ref_less [OF ab] by (simp add: vadler_def)
qed

section \<open>Properties\<close>

text \<open>C4. A window the encoder writes means its input.  From the start of a window, with a buffer of true matches and
  runs that start and end in order but may overlap, flushing the buffer and finalizing returns
  \<open>XD3_OK\<close>, or \<open>ENOMEM\<close> if the allocator can fail; the instruction, address and data sections then
  decode under the specification of VCDIFF windows to exactly the input of the window, whatever double opcodes,
  address modes and splits were chosen, and leave the address cache as the encoder has it.\<close>

theorem encode_window_correct:
  assumes "enc_window_begin inp st" and "buffer_ok file inp st" and "length file < 2 ^ 64"
    and "bind_ok (xd3_iopt_flush_instructions True st) xd3_iopt_add_finalize = (ret, st')"
  shows "no_mem st ret \<or> ret = XD3_OK \<and> (\<forall>S. seg file st' S \<longrightarrow>
    vrun xd3_rfc3284_code_table S (length inp) (vstart (acache st) (secs st'))
      = Some \<lparr>v_inst = [], v_addr = [], v_data = [], v_cache = acache st', v_tgt = inp\<rparr>)"
  using encode_window_sections [OF assms] by blast

lemma sample_mem: "mem_ok sample_encoder"
  by (simp add: mem_ok_def sample_fields)

theorem encode_window_correct_witness:
  "\<exists>st'. bind_ok (xd3_iopt_flush_instructions True sample_encoder) xd3_iopt_add_finalize = (XD3_OK, st')
    \<and> secs st' = ([22, 0, 8, 163], [0, 6], [9, 50])
    \<and> (\<forall>S. seg sample_file st' S \<longrightarrow>
        vrun xd3_rfc3284_code_table S 19 (vstart default_cache ([22, 0, 8, 163], [0, 6], [9, 50]))
          = Some \<lparr>v_inst = [], v_addr = [], v_data = [], v_cache = acache st', v_tgt = sample_input\<rparr>)"
proof -
  obtain st' where r: "bind_ok (xd3_iopt_flush_instructions True sample_encoder) xd3_iopt_add_finalize = (XD3_OK, st')"
    "secs st' = ([22, 0, 8, 163], [0, 6], [9, 50])" using sample_run by blast
  have "length sample_file < 2 ^ 64" "length sample_input = 19" by (simp_all add: sample_file_def sample_input_def)
  with encode_window_correct [OF sample_begin sample_buffer _ r(1)] r show ?thesis by (simp add: sample_fields)
qed

text \<open>C5. Encoder and decoder are inverse on a window.  Take the sections of a window the encoder has finished, and a
  decoder in which these sections have arrived, whose cache and window length are the encoder's and
  whose checksum, if it is to be verified, is that of the input: the decoder outputs the input of the encoder, with
  the source read in blocks of any size.\<close>

theorem window_roundtrip:
  assumes enc: "enc_window_begin inp st" "buffer_ok file inp st"
      "bind_ok (xd3_iopt_flush_instructions True st) xd3_iopt_add_finalize = (XD3_OK, st')"
    and dec: "window_start xd3_rfc3284_code_table file S d" "seg file st' S" "length file < 2 ^ 63"
      "(sect_buf (inst_sect d), sect_buf (addr_sect d), sect_buf (data_sect d)) = secs st'"
      "acache d = acache st" "dec_tgtlen d = avail_in st" "want_cksum d = None \<or> want_cksum d = Some (of_nat (vadler inp))"
      "length S + length inp < 2 ^ 32"
  shows "\<exists>d'. dec_emit d = (XD3_OUTPUT, d') \<and> out_window d' = inp \<and> avail_out d' = avail_in st \<and> dec_state d' = DEC_FINISH"
proof -
  have len: "unat (avail_in st) = length inp" using enc(1) by (auto simp: enc_window_begin_def dest: enc_base_length)
  have run: "vrun xd3_rfc3284_code_table S (length inp) (vstart (acache st) (secs st'))
      = Some \<lparr>v_inst = [], v_addr = [], v_data = [], v_cache = acache st', v_tgt = inp\<rparr>"
    using encode_window_sections [OF enc(1,2) _ enc(3)] dec(2,3) by simp
  have start: "absw d = vstart (acache st) (secs st')"
    using dec(1,5) by (auto simp: absw_def vstart_def window_start_def out_window_def dec(4) [symmetric])
  have ck: "\<forall>c. want_cksum d = Some c \<longrightarrow> vadler inp = unat c" using dec(7) vadler_less by (auto simp: unat_of_nat_small)
  have "vwindow xd3_rfc3284_code_table S (unat (dec_tgtlen d)) (want_cksum d) (absw d) = Some inp"
    unfolding vwindow_def start dec(6) len run using ck by (simp split: option.split)
  then show ?thesis
    using dec_emit_refines [OF dec(1)] dec(8) run unfolding dec(6) len start by (auto simp: reads_fit_def)
qed

text \<open>The decoder of the sample window.\<close>

definition sample_decoder :: xd3_decoder where
  "sample_decoder = (null_decoder (null_io (\<lambda>_ _ _. True)))\<lparr>
     src := Some (sample_source\<lparr>curblk := Some sample_file, onblk := 9, onlastblk := 9\<rparr>), acache := default_cache,
     dec_state := DEC_EMIT, code_table := Some xd3_rfc3284_code_table, dec_win_ind := VCD_SOURCE,
     dec_cpylen := 6, dec_cpyoff := 2, dec_tgtlen := 19, dec_position := 6, dec_maxpos := 25,
     dec_tgtaddrbase := (Some 0, 6), next_out := Some 0, out_heap := [0 \<mapsto> replicate 32 0],
     inst_sect := null_sect\<lparr>sect_buf := [22, 0, 8, 163]\<rparr>, addr_sect := null_sect\<lparr>sect_buf := [0, 6]\<rparr>,
     data_sect := null_sect\<lparr>sect_buf := [9, 50]\<rparr>\<rparr>"

lemma sample_decoder_start: "window_start xd3_rfc3284_code_table sample_file [3, 4, 5, 6, 7, 9] sample_decoder"
proof -
  have "\<not> flag_set VCD_SOURCE VCD_TARGET" "flag_set VCD_SOURCE VCD_SOURCE" by code_simp+
  moreover have "src_serves sample_file sample_decoder"
    by (simp add: src_serves_def sample_decoder_def sample_source_def sample_file_def null_defs block_loaded_def file_block_def)
  moreover have "TOTAL_MODES default_cache = 9" by (simp add: TOTAL_MODES_def default_cache_def)
  ultimately show ?thesis
    by (simp add: window_start_def sample_decoder_def no_pending_def null_defs rfc3284_length
      rfc3284_valid default_cache_wf sample_source_def sample_file_def)
qed

theorem window_roundtrip_witness:
  "\<exists>d'. dec_emit sample_decoder = (XD3_OUTPUT, d') \<and> out_window d' = sample_input \<and> avail_out d' = 19 \<and> dec_state d' = DEC_FINISH"
proof -
  obtain st' s where r: "bind_ok (xd3_iopt_flush_instructions True sample_encoder) xd3_iopt_add_finalize = (XD3_OK, st')"
    "secs st' = ([22, 0, 8, 163], [0, 6], [9, 50])" "srcwin_decided st'" "src st' = Some s" "srcbase s = 2" "srclen s = 6"
    using sample_run by blast
  have s: "seg sample_file st' [3, 4, 5, 6, 7, 9]"
    using r by (simp add: seg_def sample_file_def All_less_Suc)
  have ck: "want_cksum sample_decoder = None" by code_simp
  have f: "acache sample_decoder = default_cache" "dec_tgtlen sample_decoder = 19" "sect_buf (inst_sect sample_decoder) = [22, 0, 8, 163]"
    "sect_buf (addr_sect sample_decoder) = [0, 6]" "sect_buf (data_sect sample_decoder) = [9, 50]" by (simp_all add: sample_decoder_def)
  have l: "length sample_file = 9" "length sample_input = 19" by (simp_all add: sample_file_def sample_input_def)
  show ?thesis
    using window_roundtrip [OF sample_begin sample_buffer r(1) sample_decoder_start s] r(2) ck f l
    by (simp add: sample_fields)
qed

text \<open>C16. Making room in a full instruction buffer keeps the window.  When resolving the overlaps leaves at least three
  instructions, the flush without \<open>force\<close> encodes a prefix of them, and the sections and the pending
  instruction still decode to the input before \<open>unencoded_offset\<close>; the rest of the buffer is still true, in order
  and ahead of it.\<close>

theorem partial_flush_keeps_window:
  assumes "enc_inv ac0 file inp st" and "buffer_ok file inp st" and "length file < 2 ^ 64"
    and "iopt_resolve False [] (iopt_used st) = (used, fr)" and "3 \<le> length used"
    and "xd3_iopt_flush_instructions False st = (ret, st')"
  shows "no_mem st ret \<or> ret = XD3_OK \<and> enc_inv ac0 file inp st' \<and> buffer_ok file inp st'"
  using partial_flush_buffer [OF assms(1,2) _ assms(4-6)] assms(3) by auto

lemma sample_resolve_part: "length (fst (iopt_resolve False [] sample_insts)) = 3"
  by code_simp

theorem partial_flush_keeps_window_witness:
  "\<exists>st'. xd3_iopt_flush_instructions False sample_encoder = (XD3_OK, st') \<and> enc_inv default_cache sample_file sample_input st'
    \<and> buffer_ok sample_file sample_input st'"
proof -
  obtain used fr where u: "iopt_resolve False [] (iopt_used sample_encoder) = (used, fr)" by fastforce
  obtain ret st' where r: "xd3_iopt_flush_instructions False sample_encoder = (ret, st')" by fastforce
  have "length used = 3" using u sample_resolve_part by (simp add: sample_fields)
  moreover have "length sample_file < 2 ^ 64" by (simp add: sample_file_def)
  moreover have "enc_inv default_cache sample_file sample_input sample_encoder"
    using window_begin_inv [OF sample_begin] by (simp add: sample_fields)
  ultimately show ?thesis using partial_flush_keeps_window [OF _ sample_buffer _ u _ r] r sample_mem by (auto simp: no_mem_def)
qed

definition overlapping_runs :: "xd3_rinst list" where
  "overlapping_runs = map (\<lambda>p. \<lparr>r_type = XD3_RUN, r_xtra = 0, r_code1 = 0, r_code2 = 0, r_pos = p, r_size = 20, r_addr = 0\<rparr>) [0, 1, 2, 3]"

definition runs_encoder :: xd3_stream where
  "runs_encoder = sample_encoder\<lparr>next_in := replicate 23 0, avail_in := 23, src := None, iopt_used := overlapping_runs, iopt_size := 4\<rparr>"

lemma runs_resolve:
  "iopt_resolve False [] overlapping_runs =
    ([\<lparr>r_type = XD3_RUN, r_xtra = 0, r_code1 = 0, r_code2 = 0, r_pos = 0, r_size = 20, r_addr = 0\<rparr>,
      \<lparr>r_type = XD3_RUN, r_xtra = 0, r_code1 = 0, r_code2 = 0, r_pos = 3, r_size = 20, r_addr = 0\<rparr>],
     [\<lparr>r_type = XD3_RUN, r_xtra = 0, r_code1 = 0, r_code2 = 0, r_pos = 1, r_size = 20, r_addr = 0\<rparr>,
      \<lparr>r_type = XD3_RUN, r_xtra = 0, r_code1 = 0, r_code2 = 0, r_pos = 2, r_size = 20, r_addr = 0\<rparr>])"
  by code_simp

text \<open>C38. With fewer than three instructions left the same call can break the window.  Of four runs, each one byte
  further, two that overlap remain; the flush encodes the first and leaves the second behind
  \<open>unencoded_offset\<close>.  Finishing the window then emits it there, and the window does not decode.\<close>

theorem partial_flush_breaks_window:
  "\<exists>st1 st2. enc_window_begin (replicate 23 0) runs_encoder \<and> buffer_ok [] (replicate 23 0) runs_encoder
    \<and> xd3_iopt_flush_instructions False runs_encoder = (XD3_OK, st1)
    \<and> (\<exists>r. iopt_used st1 = [r] \<and> r_pos r < unencoded_offset st1)
    \<and> bind_ok (xd3_iopt_flush_instructions True st1) xd3_iopt_add_finalize = (XD3_OK, st2)
    \<and> vrun xd3_rfc3284_code_table [] 23 (vstart (acache runs_encoder) (secs st2)) = None"
proof -
  have b: "enc_window_begin (replicate 23 0) runs_encoder"
    using sample_page default_cache_wf
    by (simp add: runs_encoder_def enc_window_begin_def enc_base_def sample_fields chains_ok_def chain_wf_def pool_wf_def cache_ok_def
      win_fits_def secs_def out_bytes_def) (simp add: default_cache_def)
  have o: "buffer_ok [] (replicate 23 0) runs_encoder"
    by (simp add: buffer_ok_def runs_encoder_def sample_fields overlapping_runs_def valid_inst_def)
  have v: "vrun xd3_rfc3284_code_table [] 23 (vstart default_cache ([0, 20, 0, 20], [], [0, 0])) = None" by code_simp
  have i: "iopt_used runs_encoder = overlapping_runs" by (simp add: runs_encoder_def)
  define st1 where "st1 = snd (xd3_iopt_flush_instructions False runs_encoder)"
  have r: "xd3_iopt_flush_instructions False runs_encoder = (XD3_OK, st1)"
    "iopt_used st1 = [\<lparr>r_type = XD3_RUN, r_xtra = 0, r_code1 = 0, r_code2 = 0, r_pos = 3, r_size = 20, r_addr = 0\<rparr>]"
    "unencoded_offset st1 = 20"
    unfolding st1_def xd3_iopt_flush_instructions_def i runs_resolve prod.case by (simp_all add: runs_encoder_def encoder_run)
  have "\<exists>st2. bind_ok (xd3_iopt_flush_instructions True st1) xd3_iopt_add_finalize = (XD3_OK, st2)
    \<and> secs st2 = ([0, 20, 0, 20], [], [0, 0])"
    unfolding st1_def xd3_iopt_flush_instructions_def i runs_resolve prod.case by (simp add: runs_encoder_def encoder_run)
  moreover have "acache runs_encoder = default_cache" by (simp add: runs_encoder_def sample_fields)
  ultimately show ?thesis using b o v r by (auto simp: word_less_nat_alt)
qed

end
