(* ===== verification/Xd3_Match_Spec.thy ===== *)
theory Xd3_Match_Spec
  imports Xd3_Encode_Flush
begin

text \<open>
  What the comparisons of string matching compute.  Comparing a match candidate forward, by bytes or by words,
  gives the longest common prefix; a run is expanded over equal bytes; a chain of small-match candidates is
  followed to its end and what it gives is a match; inserting a position keeps the tables in order.
\<close>

section \<open>Comparing forward\<close>

definition common_prefix :: "u8 list \<Rightarrow> u8 list \<Rightarrow> nat" where
  "common_prefix xs ys = length (takeWhile (\<lambda>(x, y). x = y) (zip xs ys))"

lemma common_prefix_unique:
  assumes "k \<le> length xs" "k \<le> length ys" "take k xs = take k ys" "k < length xs \<Longrightarrow> k < length ys \<Longrightarrow> xs ! k \<noteq> ys ! k"
  shows "common_prefix xs ys = k"
proof -
  have "takeWhile (\<lambda>(x, y). x = y) (zip xs ys) = take k (zip xs ys)"
  proof (rule takeWhile_eq_take_P_nth)
    fix i assume "i < k" "i < length (zip xs ys)"
    then show "case zip xs ys ! i of (x, y) \<Rightarrow> x = y" using assms(3) by simp (metis nth_take)
  next
    assume "k < length (zip xs ys)"
    then show "\<not> (case zip xs ys ! k of (x, y) \<Rightarrow> x = y)" using assms(4) by simp
  qed
  then show ?thesis using assms(1,2) by (simp add: common_prefix_def)
qed

lemma forward_bytes_prefix:
  assumes "n \<le> length s1" "n \<le> length s2" "i \<le> n" "take i s1 = take i s2"
  shows "forward_bytes s1 s2 n i = common_prefix (take n s1) (take n s2)"
  using assms
proof (induction s1 s2 n i rule: forward_bytes.induct)
  case (1 s1 s2 n i)
  show ?case
  proof (cases "i < n \<and> s1 ! i = s2 ! i")
    case True
    then have "take (Suc i) s1 = take (Suc i) s2" using 1 by (simp add: take_Suc_conv_app_nth)
    then show ?thesis using 1 True by (subst forward_bytes.simps) simp
  next
    case False
    have "common_prefix (take n s1) (take n s2) = i" using 1(2,3,4,5) False by (intro common_prefix_unique) (auto simp: min_def nth_take split: if_splits)
    then show ?thesis using False by (subst forward_bytes.simps) auto
  qed
qed

text \<open>The ints compared so far agree, except for the last one after a mismatch.\<close>

lemma int_at_take:
  assumes "take (4 * i) s1 = take (4 * i) s2" "int_at s1 i = int_at s2 i"
  shows "take (4 * Suc i) s1 = take (4 * Suc i) s2"
  using assms take_add [of "4 * i" 4 s1] take_add [of "4 * i" 4 s2] by (simp add: int_at_def add.commute)

lemma forward_eight_agree:
  assumes "take (4 * i) s1 = take (4 * i) s2" "forward_eight s1 s2 k i = (b, j)"
  shows "(b \<longrightarrow> take (4 * j) s1 = take (4 * j) s2) \<and> (\<not> b \<longrightarrow> 0 < j \<and> take (4 * (j - 1)) s1 = take (4 * (j - 1)) s2) \<and> j \<le> i + k \<and> i \<le> j"
  using assms
proof (induction s1 s2 k i rule: forward_eight.induct)
  case (2 s1 s2 k i)
  then show ?case using int_at_take [of i s1 s2] by (auto split: if_splits)
qed simp

lemma forward_ints_agree:
  assumes "take (4 * i) s1 = take (4 * i) s2" "i \<le> nint" "0 < i \<or> 8 \<le> nint"
  shows "let j = forward_ints s1 s2 nint i in 0 < j \<and> j \<le> nint \<and> take (4 * (j - 1)) s1 = take (4 * (j - 1)) s2"
  using assms
proof (induction s1 s2 nint i rule: forward_ints.induct)
  case (1 s1 s2 nint i)
  show ?case
  proof (cases "i + 8 \<le> nint")
    case True
    obtain b j where e: "forward_eight s1 s2 8 i = (b, j)" by fastforce
    note a = forward_eight_agree [OF 1(2) e]
    show ?thesis
    proof (cases b)
      case True
      then have "j = i + 8" using forward_eight_le [OF e] by simp
      then show ?thesis using \<open>i + 8 \<le> nint\<close> True e a 1(1) [OF \<open>i + 8 \<le> nint\<close> e [symmetric, unfolded True]]
        by (subst forward_ints.simps) simp
    next
      case False
      then show ?thesis using \<open>i + 8 \<le> nint\<close> e a by (subst forward_ints.simps) (simp add: Let_def)
    qed
  next
    case False
    have "take (4 * (i - 1)) s1 = take (4 * (i - 1)) s2"
      using arg_cong [OF 1(2), of "take (4 * (i - 1))"] by (simp add: min_def split: if_splits)
    then show ?thesis using 1 False by (subst forward_ints.simps) (auto simp: Let_def)
  qed
qed

lemma forward_match_prefix:
  assumes "n \<le> length s1" "n \<le> length s2"
  shows "xd3_forward_match unaligned_ok s1 s2 n = common_prefix (take n s1) (take n s2)"
proof (cases "unaligned_ok \<and> n div 4 div 8 \<noteq> 0")
  case True
  define j where "j = forward_ints s1 s2 (n div 4) 0"
  have "8 \<le> n div 4" using True by (simp add: div_eq_0_iff)
  then have j: "0 < j" "j \<le> n div 4" "take (4 * (j - 1)) s1 = take (4 * (j - 1)) s2"
    using forward_ints_agree [of 0 s1 s2 "n div 4"] by (simp_all add: j_def Let_def)
  then have "(j - 1) * 4 \<le> n" by linarith
  then show ?thesis using True assms j(3) forward_bytes_prefix [of n s1 s2 "(j - 1) * 4"]
    by (simp add: xd3_forward_match_def Let_def j_def [symmetric] mult.commute)
next
  case False
  then show ?thesis using assms forward_bytes_prefix [of n s1 s2 0] by (auto simp: xd3_forward_match_def Let_def)
qed

section \<open>Runs\<close>

lemma expand_run_props:
  assumes "l \<le> m" "\<forall>k < l. inp ! k = c"
  shows "l \<le> expand_run inp m c l \<and> expand_run inp m c l \<le> m \<and> (\<forall>k < expand_run inp m c l. inp ! k = c)"
  using assms
proof (induction inp m c l rule: expand_run.induct)
  case (1 inp m c l)
  show ?case
  proof (cases "l < m \<and> inp ! l = c")
    case True
    then have "\<forall>k < Suc l. inp ! k = c" using 1(3) by (auto simp: less_Suc_eq)
    then show ?thesis using True 1(1) by (subst (1 2 3) expand_run.simps) auto
  next
    case False
    then show ?thesis using 1 by (subst (1 2 3) expand_run.simps) auto
  qed
qed

text \<open>The last bytes before \<open>e\<close>, as many as the run counter says but no more than \<open>look\<close>, are \<open>run_c\<close>.\<close>

definition run_ok :: "u8 list \<Rightarrow> nat \<Rightarrow> nat \<Rightarrow> u32 \<Rightarrow> u8 \<Rightarrow> bool" where
  "run_ok inp look e run_l run_c \<longleftrightarrow> (\<forall>k < min (unat run_l) look. inp ! (e - 1 - k) = run_c)"

lemma run_ok_more:
  assumes "run_ok inp look e l c" "NEXTRUN (inp ! e) (l, c) = (l', c')" "look \<le> e"
  shows "run_ok inp (Suc look) (Suc e) l' c'"
  unfolding run_ok_def
proof (intro allI impI)
  fix k assume k: "k < min (unat l') (Suc look)"
  show "inp ! (Suc e - 1 - k) = c'"
  proof (cases k)
    case 0
    then show ?thesis using assms(2) by (auto simp: NEXTRUN_def split: if_splits)
  next
    case (Suc m)
    have "inp ! e = c" "l' = l + 1" "c' = c" using assms(2) k Suc by (auto simp: NEXTRUN_def split: if_splits)
    moreover have "m < unat l" using k Suc \<open>l' = l + 1\<close> by (simp add: unat_add_u32_mod) (metis Suc_less_SucD add.commute less_trans_Suc mod_less_eq_dividend order_less_le_trans plus_1_eq_Suc)
    ultimately show ?thesis using assms(1) k Suc by (simp add: run_ok_def)
  qed
qed

lemma run_ok_next:
  assumes "run_ok inp look e l c" "NEXTRUN (inp ! e) (l, c) = (l', c')" "look \<le> e"
  shows "run_ok inp look (Suc e) l' c'"
  using run_ok_more [OF assms] by (simp add: run_ok_def)

section \<open>Small matches\<close>

lemma smatch_extend_props:
  assumes "i < j" "j \<le> m" "is_match inp i inp j 0"
  shows "j \<le> smatch_extend inp m i j \<and> smatch_extend inp m i j \<le> m \<and> is_match inp i inp j (smatch_extend inp m i j - j)"
  using assms
proof (induction inp m i j rule: smatch_extend.induct)
  case (1 inp m i j)
  show ?case
  proof (cases "j < m \<and> inp ! j = inp ! i")
    case True
    define e where "e = smatch_extend inp m (Suc i) (Suc j)"
    have h: "Suc j \<le> e" "e \<le> m" "is_match inp (Suc i) inp (Suc j) (e - Suc j)"
      using 1(1) [OF True] 1(2) True by (simp_all add: e_def is_match_def)
    have "is_match inp i inp j (e - j)"
      unfolding is_match_def
    proof (intro allI impI)
      fix k assume "k < e - j"
      then show "inp ! (i + k) = inp ! (j + k)" using True h(1,3) by (cases k) (auto simp: is_match_def)
    qed
    moreover have "smatch_extend inp m i j = e" using True by (subst smatch_extend.simps) (simp add: e_def)
    ultimately show ?thesis using h by simp
  next
    case False
    then show ?thesis using 1(3) by (subst (1 2 3) smatch_extend.simps) (auto simp: is_match_def)
  qed
qed

text \<open>A length and an offset that are a match of the input at \<open>p\<close> with the input before it.\<close>

definition found_ok :: "u8 list \<Rightarrow> nat \<Rightarrow> u32 \<Rightarrow> u32 \<Rightarrow> bool" where
  "found_ok inp p ml mo \<longleftrightarrow> p + unat ml \<le> length inp \<and> (0 < unat ml \<longrightarrow> unat mo < p \<and> is_match inp (unat mo) inp p (unat ml))"

text \<open>The tables that small matches read: no entry points at or behind \<open>b\<close>.\<close>

definition table_ok :: "xd3_stream \<Rightarrow> nat \<Rightarrow> bool" where
  "table_ok st b \<longleftrightarrow> flag_set (flags st) XD3_NOCOMPRESS \<or>
    (\<exists>tbl. small_table st = Some tbl \<and> (\<forall>c. unat (xd3_checksum_hash (small_hash st) c) < length tbl)
       \<and> (\<forall>e \<in> set tbl. unat e \<le> b)
       \<and> (case small_prev st of
            None \<Rightarrow> small_chain (smatcher st) = 1 \<and> small_lchain (smatcher st) = 1
          | Some prev \<Rightarrow> unat (sprevmask st) < length prev))"

lemma table_ok_upd [simp]:
  "table_ok (st\<lparr>input_position := p\<rparr>) b = table_ok st b" "table_ok (st\<lparr>min_match := m\<rparr>) b = table_ok st b"
  by (auto simp: table_ok_def split: option.splits)

lemma table_ok_frame:
  assumes "small_table st1 = small_table st" "small_prev st1 = small_prev st" "smatcher st1 = smatcher st" "flags st1 = flags st"
    "sprevmask st1 = sprevmask st" "small_hash st1 = small_hash st"
  shows "table_ok st1 b = table_ok st b"
  unfolding table_ok_def assms by (rule refl)

lemma table_ok_mono: "table_ok st b \<Longrightarrow> b \<le> c \<Longrightarrow> table_ok st c"
  by (force simp: table_ok_def)

lemma and_le_right: "unat (x AND m :: 'a::len word) \<le> unat m"
  by (metis word_and_le1 word_le_nat_alt)

lemma smatch_loop_total:
  assumes "take (unat (avail_in st)) (next_in st) = inp" "unat (avail_in st) \<le> length (next_in st)"
    and "base < input_position st" "unat (input_position st) \<le> length inp" "found_ok inp (unat (input_position st)) ml mo"
    and "case small_prev st of None \<Rightarrow> chain = 1 | Some prev \<Rightarrow> unat (sprevmask st) < length prev"
  shows "\<exists>ml' mo'. smatch_loop st base chain ml mo = Some (ml', mo') \<and> found_ok inp (unat (input_position st)) ml' mo'"
  using assms
proof (induction st base chain ml mo rule: smatch_loop.induct)
  case (1 st base chain ml mo)
  let ?p = "unat (input_position st)"
  define e where "e = smatch_extend (next_in st) (unat (avail_in st)) (unat base) ?p"
  define cmp where "cmp = (of_nat (e - ?p) :: u32)"
  have len: "length inp = unat (avail_in st)" using 1(2,3) by auto
  have b: "unat base < ?p" using 1(4) by (simp add: word_less_nat_alt)
  have e: "?p \<le> e" "e \<le> unat (avail_in st)" "is_match (next_in st) (unat base) (next_in st) ?p (e - ?p)"
    using smatch_extend_props [of "unat base" ?p "unat (avail_in st)" "next_in st"] b 1(5) len by (simp_all add: e_def is_match_def)
  have cu: "unat cmp = e - ?p" using e(2) unat_u32_less [of "avail_in st"] by (simp add: cmp_def unat_of_nat_small)
  have nth: "inp ! x = next_in st ! x" if "x < unat (avail_in st)" for x using 1(2) that by auto
  have "is_match inp (unat base) inp ?p (e - ?p)" using e(2,3) b by (auto simp: is_match_def nth)
  then have new: "found_ok inp ?p cmp base" using b cu e(1,2) len by (simp add: found_ok_def)
  obtain ml1 mo1 where pick: "(if cmp > ml then (cmp, base) else (ml, mo)) = (ml1, mo1)" by fastforce
  have ok: "found_ok inp ?p ml1 mo1" using pick new 1(6) by (auto split: if_splits)
  have cond: "\<not> (length (next_in st) < unat (avail_in st) \<or> unat base \<ge> ?p)" using 1(3) b by simp
  have eq: "smatch_loop st base chain ml mo =
      (if cmp > ml \<and> (e = unat (avail_in st) \<or> cmp \<ge> long_enough (smatcher st)) then Some (ml1, mo1)
       else if chain - 1 = 0 then Some (ml1, mo1)
       else
         (case arr_get (small_prev st) (unat (base AND sprevmask st)) of
            None \<Rightarrow> None
          | Some prev_pos0 \<Rightarrow>
             (if prev_pos0 = 0 then Some (ml1, mo1)
              else
                let prev_pos = prev_pos0 - HASH_CKOFFSET in
                if prev_pos > base then Some (ml1, mo1)
                else if (input_position st - prev_pos) AND NOT (sprevmask st) \<noteq> 0 then Some (ml1, mo1)
                else smatch_loop st prev_pos (chain - 1) ml1 mo1)))"
    unfolding smatch_loop.simps [of st base chain ml mo] Let_def e_def [symmetric] cmp_def [symmetric] pick prod.case if_not_P [OF cond] by (rule refl)
  show ?case
  proof (cases "(cmp > ml \<and> (e = unat (avail_in st) \<or> cmp \<ge> long_enough (smatcher st))) \<or> chain - 1 = 0")
    case True
    then show ?thesis using eq ok by auto
  next
    case False
    then have "chain \<noteq> 1" by auto
    then obtain prev where prev: "small_prev st = Some prev" "unat (sprevmask st) < length prev" using 1(7) by (cases "small_prev st") auto
    have "unat (base AND sprevmask st) < length prev" using prev(2) and_le_right [of base "sprevmask st"] by (rule order_le_less_trans [rotated])
    then have g: "arr_get (small_prev st) (unat (base AND sprevmask st)) = Some (prev ! unat (base AND sprevmask st))"
      using prev(1) by (simp add: arr_get_def)
    let ?prev0 = "prev ! unat (base AND sprevmask st)"
    let ?pp = "?prev0 - HASH_CKOFFSET"
    show ?thesis
    proof (cases "?prev0 = 0 \<or> ?pp > base \<or> (input_position st - ?pp) AND NOT (sprevmask st) \<noteq> 0")
      case True
      then show ?thesis unfolding eq using False ok g by (auto simp: Let_def)
    next
      case cont: False
      then have pb: "?pp < input_position st" using 1(4) by auto
      have "\<exists>ml' mo'. smatch_loop st ?pp (chain - 1) ml1 mo1 = Some (ml', mo') \<and> found_ok inp ?p ml' mo'"
        using 1(1) [OF cond e_def cmp_def refl pick [symmetric] _ _ g _ refl] False cont 1(2,3,5) pb ok prev by simp
      then show ?thesis unfolding eq using False cont g by (auto simp: Let_def)
    qed
  qed
qed

lemma smatch_total:
  assumes "take (unat (avail_in st)) (next_in st) = inp" "unat (avail_in st) \<le> length (next_in st)"
    and "unat (input_position st) \<le> length inp" "table_ok st (unat (input_position st))" "\<not> flag_set (flags st) XD3_NOCOMPRESS"
    and "small_table st = Some tbl" "e \<in> set tbl" "e \<noteq> 0"
  shows "\<exists>ml mo'. xd3_smatch e scksum mo st = Some (ml, mo') \<and> found_ok inp (unat (input_position st)) ml mo'"
proof -
  have "unat e \<le> unat (input_position st)" using assms(4-7) by (auto simp: table_ok_def)
  then have b: "e - HASH_CKOFFSET < input_position st"
    using assms(8) unat_minus_one [of e] unat_gt_0 [of e] by (simp add: HASH_CKOFFSET_def word_less_nat_alt)
  define chain where "chain = (if min_match st = of_nat MIN_MATCH then small_chain (smatcher st) else small_lchain (smatcher st))"
  have c: "case small_prev st of None \<Rightarrow> chain = 1 | Some prev \<Rightarrow> unat (sprevmask st) < length prev"
    using assms(4,5) by (auto simp: table_ok_def chain_def split: option.splits)
  have "found_ok inp (unat (input_position st)) 0 mo" using assms(3) by (simp add: found_ok_def)
  from smatch_loop_total [OF assms(1,2) b assms(3) this c] obtain ml mo' where
    l: "smatch_loop st (e - HASH_CKOFFSET) chain 0 mo = Some (ml, mo')" "found_ok inp (unat (input_position st)) ml mo'" by blast
  moreover have "found_ok inp (unat (input_position st)) 0 mo'" using assms(3) by (simp add: found_ok_def)
  ultimately show ?thesis by (auto simp: xd3_smatch_def chain_def [symmetric])
qed

lemma scksum_insert_ok:
  assumes "table_ok st b" "\<not> flag_set (flags st) XD3_NOCOMPRESS" "unat pos + 1 < 4294967296" "b \<le> unat pos + 1"
  obtains tbl prev where
    "xd3_scksum_insert (xd3_checksum_hash (small_hash st) c) scksum pos st = (XD3_OK, st\<lparr>small_table := Some tbl, small_prev := prev\<rparr>)"
    "table_ok (st\<lparr>small_table := Some tbl, small_prev := prev\<rparr>) (unat pos + 1)"
proof -
  define inx where "inx = xd3_checksum_hash (small_hash st) c"
  obtain tbl where t: "small_table st = Some tbl" "\<forall>c. unat (xd3_checksum_hash (small_hash st) c) < length tbl" "\<forall>e \<in> set tbl. unat e \<le> b"
    "case small_prev st of None \<Rightarrow> small_chain (smatcher st) = 1 \<and> small_lchain (smatcher st) = 1 | Some prev \<Rightarrow> unat (sprevmask st) < length prev"
    using assms(1,2) by (auto simp: table_ok_def)
  have i: "unat inx < length tbl" using t(2) by (simp add: inx_def)
  let ?tbl = "tbl[unat inx := pos + HASH_CKOFFSET]"
  have "unat (pos + HASH_CKOFFSET) = unat pos + 1" using assms(3) by (simp add: HASH_CKOFFSET_def unat_add_u32)
  then have e: "\<forall>e \<in> set ?tbl. unat e \<le> unat pos + 1" using t(3) assms(4) by (auto dest!: set_update_subset_insert [THEN subsetD])
  show ?thesis
  proof (cases "small_prev st")
    case None
    then have "table_ok (st\<lparr>small_table := Some ?tbl, small_prev := None\<rparr>) (unat pos + 1)" using t e by (simp add: table_ok_def)
    moreover have "st\<lparr>small_table := Some ?tbl\<rparr> = st\<lparr>small_table := Some ?tbl, small_prev := None\<rparr>" using None by simp
    ultimately show ?thesis using that [where tbl = ?tbl and prev = None] None t(1) i by (simp add: xd3_scksum_insert_def inx_def)
  next
    case (Some prev)
    have "unat (pos AND sprevmask st) < length prev" using Some t(4) and_le_right [of pos "sprevmask st"] by simp
    moreover have "table_ok (st\<lparr>small_table := Some ?tbl, small_prev := Some (prev[unat (pos AND sprevmask st) := tbl ! unat inx])\<rparr>) (unat pos + 1)"
      using t e Some by (simp add: table_ok_def)
    ultimately show ?thesis using that [where tbl = ?tbl and prev = "Some (prev[unat (pos AND sprevmask st) := tbl ! unat inx])"] Some t(1) i
      by (simp add: xd3_scksum_insert_def inx_def)
  qed
qed

end
