(* ===== verification/Xd3_String_Match.thy ===== *)
theory Xd3_String_Match
  imports Xd3_Match_Spec Xd3_Roundtrip
begin

text \<open>
  What string matching leaves in the instruction buffer.  Without a source, \<open>xd3_string_match\<close> runs to its end
  and fills the buffer with instructions that are true matches and runs of the input, start in order and end in
  order, which is what flushing the buffer needs.  The slot list is taken to be unlimited, so that the buffer is
  not flushed in between.
\<close>

section \<open>Entering instructions\<close>

text \<open>What string matching leaves alone: the instructions, the tables and the positions change.\<close>

definition mouter :: "xd3_stream \<Rightarrow> xd3_stream" where
  "mouter st = (outer st)\<lparr>input_position := 0, min_match := 0, small_table := None, small_prev := None, small_reset := False,
     iopt_alloc := 0, iopt_size := 0, i_slots_used := 0, enc_state := ENC_INIT\<rparr>"

lemma mouter_upd [simp]:
  "mouter (st\<lparr>input_position := p\<rparr>) = mouter st" "mouter (st\<lparr>min_match := m\<rparr>) = mouter st"
  "mouter (st\<lparr>small_table := t\<rparr>) = mouter st" "mouter (st\<lparr>small_prev := t\<rparr>) = mouter st" "mouter (st\<lparr>small_reset := b\<rparr>) = mouter st"
  "mouter (st\<lparr>iopt_used := l\<rparr>) = mouter st" "mouter (st\<lparr>iopt_free := l\<rparr>) = mouter st" "mouter (st\<lparr>iopt_alloc := n\<rparr>) = mouter st"
  "mouter (st\<lparr>iopt_size := u\<rparr>) = mouter st" "mouter (st\<lparr>i_slots_used := u\<rparr>) = mouter st" "mouter (st\<lparr>enc_state := e\<rparr>) = mouter st"
  "mouter (st\<lparr>alloc_calls := n\<rparr>) = mouter st" "mouter (st\<lparr>alloc_cnt := n\<rparr>) = mouter st" "mouter (st\<lparr>msg := s\<rparr>) = mouter st"
  by (simp_all add: mouter_def outer_def core_def)

definition mframe :: "xd3_stream \<Rightarrow> xd3_stream \<Rightarrow> bool" where
  "mframe st st1 \<longleftrightarrow> same_win st st1 \<and> mouter st1 = mouter st \<and> hdr_out st1 = hdr_out st \<and> data_out st1 = data_out st \<and> inst_out st1 = inst_out st
     \<and> addr_out st1 = addr_out st \<and> enc_free st1 = enc_free st \<and> acache st1 = acache st \<and> iout st1 = iout st
     \<and> unencoded_offset st1 = unencoded_offset st \<and> smatcher st1 = smatcher st \<and> flags st1 = flags st
     \<and> sprevmask st1 = sprevmask st \<and> small_hash st1 = small_hash st \<and> iopt_unlimited st1 = iopt_unlimited st"

lemma mframe_refl [simp]: "mframe st st"
  by (simp add: mframe_def same_win_def)

lemma mframe_trans: "mframe st st1 \<Longrightarrow> mframe st1 st2 \<Longrightarrow> mframe st st2"
  by (simp add: mframe_def same_win_def)

lemma mframe_upd [simp]:
  "mframe st (st1\<lparr>input_position := p\<rparr>) = mframe st st1" "mframe st (st1\<lparr>min_match := m\<rparr>) = mframe st st1"
  "mframe st (st1\<lparr>small_table := t\<rparr>) = mframe st st1" "mframe st (st1\<lparr>small_prev := t\<rparr>) = mframe st st1"
  "mframe st (st1\<lparr>small_reset := b\<rparr>) = mframe st st1" "mframe st (st1\<lparr>iopt_used := l\<rparr>) = mframe st st1"
  by (simp_all add: mframe_def same_win_def)

lemma mframe_chains: "mframe st st1 \<Longrightarrow> chains_ok st1 = chains_ok st" "mframe st st1 \<Longrightarrow> secs st1 = secs st"
  by (simp_all add: mframe_def chains_ok_def pool_wf_def secs_def)

lemma mframe_inv:
  assumes "mframe st st1"
  shows "enc_base inp st1 = enc_base inp st" "enc_inv ac0 file inp st1 = enc_inv ac0 file inp st"
    "valid_inst file inp st1 r = valid_inst file inp st r" "no_mem st1 ret = no_mem st ret"
proof -
  have s: "same_win st st1" using assms by (simp add: mframe_def)
  show base: "enc_base inp st1 = enc_base inp st" for inp
    using s same_win_fits [OF s] mframe_chains [OF assms] assms by (simp add: enc_base_def) (simp add: same_win_def mframe_def)
  show "enc_inv ac0 file inp st1 = enc_inv ac0 file inp st"
    using base same_win_seg [OF s] mframe_chains [OF assms] assms by (simp add: enc_inv_def mframe_def)
  show "valid_inst file inp st1 r = valid_inst file inp st r" by (rule same_win_valid [OF s])
  show "no_mem st1 ret = no_mem st ret" using s by (simp add: same_win_def no_mem_def mem_ok_def)
qed

text \<open>A slot from an unlimited list.\<close>

definition entered :: "xd3_stream \<Rightarrow> xd3_stream \<Rightarrow> xd3_rinst \<Rightarrow> bool" where
  "entered st st1 r \<longleftrightarrow> iopt_used st1 = iopt_used st @ [r] \<and> mframe st st1 \<and> input_position st1 = input_position st
     \<and> min_match st1 = min_match st \<and> small_table st1 = small_table st \<and> small_prev st1 = small_prev st"

lemma alloc_fields:
  assumes "xd3_alloc a b st = (ok, st1)"
  shows "mframe st st1" "input_position st1 = input_position st" "min_match st1 = min_match st" "small_table st1 = small_table st"
    "small_prev st1 = small_prev st" "iopt_used st1 = iopt_used st" "iopt_free st1 = iopt_free st"
  using assms by (auto simp: xd3_alloc_def Let_def mframe_def same_win_def split: if_splits)

lemma get_slot_entered:
  assumes "iopt_unlimited st" "xd3_iopt_get_slot st = (ret, st1)"
  shows "no_mem st ret \<or> ret = XD3_OK \<and> (\<exists>r. entered st st1 r)"
proof (cases "iopt_free st = []")
  case False
  then show ?thesis using assms(2) by (auto simp: xd3_iopt_get_slot_def entered_def mframe_def same_win_def)
next
  case True
  obtain ok1 s1 where a1: "xd3_alloc 16 1 st = (ok1, s1)" by fastforce
  obtain ok2 s2 where a2: "xd3_alloc sizeof_rinst (XD3_ALLOCSIZE div sizeof_rinst) s1 = (ok2, s2)" by fastforce
  note f1 = alloc_fields [OF a1] and f2 = alloc_fields [OF a2]
  have f: "mframe st s2" by (rule mframe_trans [OF f1(1) f2(1)])
  show ?thesis
  proof (cases "ok1 \<and> ok2")
    case ok: True
    have n: "unat (XD3_ALLOCSIZE div sizeof_rinst) = 409" by code_simp
    have e: "xd3_alloc_iopt (XD3_ALLOCSIZE div sizeof_rinst) st
        = (XD3_OK, s2\<lparr>iopt_alloc := Suc (iopt_alloc s2), iopt_free := iopt_free s2 @ replicate 409 (fresh_rinst s2)\<rparr>)"
      using ok a1 a2 by (simp add: xd3_alloc_iopt_def n)
    show ?thesis using assms True f1 f2 f
      by (auto simp: xd3_iopt_get_slot_def e Let_def entered_def) (simp_all add: mframe_def same_win_def)
  next
    case bad: False
    then have "\<not> mem_ok st" using alloc_mem [of 16 1 st s1] alloc_mem [of sizeof_rinst "XD3_ALLOCSIZE div sizeof_rinst" s1 s2] a1 a2
        mem_ok_step [OF alloc_step [OF a1]] by (cases ok1) auto
    then show ?thesis using assms True a1 a2 bad
      by (cases ok1) (auto simp: xd3_iopt_get_slot_def xd3_alloc_iopt_def Let_def no_mem_def)
  qed
qed

lemma slot_entered:
  assumes "iopt_unlimited st" "bind_ok (xd3_iopt_get_slot st) (set_slot f) = (ret, st1)"
  shows "no_mem st ret \<or> ret = XD3_OK \<and> (\<exists>r. entered st st1 (f r))"
proof -
  obtain ret0 st2 where g: "xd3_iopt_get_slot st = (ret0, st2)" by fastforce
  from get_slot_entered [OF assms(1) g] show ?thesis
  proof (elim disjE conjE exE)
    assume "no_mem st ret0"
    then show ?thesis using g assms(2) by (auto simp: no_mem_def)
  next
    fix r assume "ret0 = XD3_OK" "entered st st2 r"
    then show ?thesis using g assms(2) by (auto simp: set_slot_def entered_def)
  qed
qed

lemma staggered_snoc:
  assumes "staggered xs" "xs \<noteq> [] \<longrightarrow> ipos (last xs) < ipos r \<and> iend (last xs) < iend r"
  shows "staggered (xs @ [r])"
proof (cases "xs = []")
  case False
  then show ?thesis using assms staggered_snoc2 [of "butlast xs" "last xs" r] by (metis append.assoc append_Cons append_Nil append_butlast_last_id)
qed simp

section \<open>The matching loop\<close>

text \<open>What the loop relies on and does not change: no source, room for sums of positions, and a look-ahead of four.\<close>

definition sm_conf :: "u8 list \<Rightarrow> xd3_stream \<Rightarrow> bool" where
  "sm_conf inp st \<longleftrightarrow> src st = None \<and> iopt_unlimited st \<and> 4 \<le> unat (small_look (smatcher st))
     \<and> length inp + unat (small_look (smatcher st)) < 4294967296
     \<and> unat (avail_in st) \<le> length (next_in st) \<and> take (unat (avail_in st)) (next_in st) = inp"

abbreviation ppos :: "xd3_stream \<Rightarrow> nat" where "ppos st \<equiv> unat (input_position st)"
abbreviation plook :: "xd3_stream \<Rightarrow> nat" where "plook st \<equiv> unat (small_look (smatcher st))"

text \<open>The buffer and the tables, whose entries point before \<open>b\<close>.\<close>

definition sm_inv :: "xd3_stream \<Rightarrow> u8 list \<Rightarrow> nat \<Rightarrow> xd3_stream \<Rightarrow> bool" where
  "sm_inv st0 inp b st \<longleftrightarrow> mframe st0 st \<and> list_all (valid_inst [] inp st0) (iopt_used st) \<and> staggered (iopt_used st)
     \<and> ppos st \<le> length inp \<and> table_ok st b"

text \<open>The next instruction, at \<open>p\<close> with at least \<open>m\<close> bytes, starts and ends behind all others.\<close>

definition ahead :: "nat \<Rightarrow> nat \<Rightarrow> xd3_stream \<Rightarrow> bool" where
  "ahead p m st \<longleftrightarrow> (iopt_used st \<noteq> [] \<longrightarrow> ipos (last (iopt_used st)) < p \<and> iend (last (iopt_used st)) < p + m)"

definition step_inv :: "xd3_stream \<Rightarrow> u8 list \<Rightarrow> sm_locals \<Rightarrow> xd3_stream \<Rightarrow> bool" where
  "step_inv st0 inp v st \<longleftrightarrow> sm_inv st0 inp (ppos st) st \<and> ahead (ppos st) (unat (min_match st)) st \<and> 4 \<le> unat (min_match st)
     \<and> ppos st + plook st0 \<le> length inp \<and> run_ok inp (plook st0) (ppos st + plook st0) (sm_run_l v) (sm_run_c v)"

definition restart_inv :: "xd3_stream \<Rightarrow> u8 list \<Rightarrow> xd3_stream \<Rightarrow> bool" where
  "restart_inv st0 inp st \<longleftrightarrow> sm_inv st0 inp (ppos st) st \<and> (iopt_used st \<noteq> [] \<longrightarrow> ipos (last (iopt_used st)) < ppos st)"

text \<open>The tables can be used again, whether or not this window was long enough to allocate them.\<close>

definition tables_ok :: "xd3_stream \<Rightarrow> bool" where
  "tables_ok st \<longleftrightarrow> flag_set (flags st) XD3_NOCOMPRESS \<or> (case small_table st of
       None \<Rightarrow> small_prev st = None
     | Some _ \<Rightarrow> (case small_prev st of
          None \<Rightarrow> small_chain (smatcher st) = 1 \<and> small_lchain (smatcher st) = 1
        | Some prev \<Rightarrow> unat (sprevmask st) < length prev))"

lemma table_ok_tables: "table_ok st b \<Longrightarrow> tables_ok st"
  by (auto simp: table_ok_def tables_ok_def)

definition done_inv :: "xd3_stream \<Rightarrow> u8 list \<Rightarrow> xd3_stream \<Rightarrow> bool" where
  "done_inv st0 inp st \<longleftrightarrow> mframe st0 st \<and> list_all (valid_inst [] inp st0) (iopt_used st) \<and> staggered (iopt_used st) \<and> tables_ok st"

lemma sm_inv_done: "sm_inv st0 inp b st \<Longrightarrow> done_inv st0 inp st"
  by (auto simp: sm_inv_def done_inv_def table_ok_tables)

lemma tables_ok_upd [simp]: "tables_ok (st\<lparr>min_match := m\<rparr>) = tables_ok st" "tables_ok (st\<lparr>enc_state := e\<rparr>) = tables_ok st"
  by (simp_all add: tables_ok_def cong: option.case_cong)

lemma done_inv_upd [simp]: "done_inv st0 inp (st\<lparr>min_match := m\<rparr>) = done_inv st0 inp st"
  by (simp add: done_inv_def)

text \<open>How an iteration from position \<open>p\<close> may end.\<close>

definition outcome :: "xd3_stream \<Rightarrow> u8 list \<Rightarrow> nat \<Rightarrow> sm_step \<Rightarrow> bool" where
  "outcome st0 inp p s \<longleftrightarrow> (case s of
      SM_Return r st \<Rightarrow> no_mem st0 r \<or> r = XD3_OK \<and> done_inv st0 inp st
    | SM_Next v st \<Rightarrow> step_inv st0 inp v st \<and> p < ppos st
    | SM_Restart v st \<Rightarrow> restart_inv st0 inp st \<and> p < ppos st)"

lemma sm_frame:
  assumes "sm_conf inp st0" "mframe st0 st"
  shows "src st = None" "iopt_unlimited st" "small_look (smatcher st) = small_look (smatcher st0)" "flags st = flags st0"
    "unat (avail_in st) = length inp" "length inp \<le> length (next_in st)" "x < length inp \<Longrightarrow> next_in st ! x = inp ! x"
    "take (unat (avail_in st)) (next_in st) = inp"
  using assms by (auto simp: sm_conf_def mframe_def same_win_def)

lemma unat_look_add: "sm_conf inp st0 \<Longrightarrow> ppos st \<le> length inp \<Longrightarrow> unat (input_position st + small_look (smatcher st0)) = ppos st + plook st0"
  by (simp add: sm_conf_def unat_add_u32)

lemma updateone_outcome:
  assumes conf: "sm_conf inp st0" and inv: "sm_inv st0 inp (Suc (ppos st)) st" and ah: "ahead (Suc (ppos st)) (unat (min_match st)) st"
    and m: "4 \<le> unat (min_match st)" and look: "ppos st + plook st0 \<le> length inp"
    and run: "run_ok inp (plook st0) (ppos st + plook st0) (sm_run_l v) (sm_run_c v)"
  shows "outcome st0 inp (ppos st) (updateone v st)"
proof -
  have fr: "mframe st0 st" using inv by (simp add: sm_inv_def)
  note f = sm_frame [OF conf fr]
  have pl: "unat (input_position st + small_look (smatcher st)) = ppos st + plook st0"
    using unat_look_add [OF conf, of st] inv f(3) by (simp add: sm_inv_def)
  have e: "input_position st + small_look (smatcher st) = avail_in st \<longleftrightarrow> ppos st + plook st0 = length inp"
    using pl f(5) by (metis word_unat_eq_iff)
  show ?thesis
  proof (cases "ppos st + plook st0 = length inp")
    case True
    then show ?thesis using e sm_inv_done [OF inv] by (simp add: updateone_def outcome_def)
  next
    case False
    then have lt: "ppos st + plook st0 < length inp" using look by simp
    have l4: "4 \<le> plook st0" using conf by (simp add: sm_conf_def)
    have ub: "\<not> (length (drop (ppos st) (next_in st)) \<le> unat (small_look (smatcher st)) \<or> length (drop (ppos st) (next_in st)) < 5)"
      using lt l4 f(3,6) by auto
    obtain rl rc where nx: "NEXTRUN (drop (ppos st) (next_in st) ! unat (small_look (smatcher st))) (sm_run_l v, sm_run_c v) = (rl, rc)" by fastforce
    define st1 where "st1 = st\<lparr>input_position := input_position st + 1\<rparr>"
    obtain v1 where u: "updateone v st = SM_Next v1 st1" "sm_run_l v1 = rl" "sm_run_c v1 = rc"
      using False e ub f(1) nx by (simp add: updateone_def Let_def st1_def)
    have p1: "ppos st1 = Suc (ppos st)" using lt conf by (simp add: st1_def sm_conf_def unat_add_u32)
    have "drop (ppos st) (next_in st) ! unat (small_look (smatcher st)) = inp ! (ppos st + plook st0)" using lt f(3,6,7) by simp
    then have "run_ok inp (plook st0) (Suc (ppos st + plook st0)) rl rc" using run_ok_next [OF run] nx by simp
    moreover have "sm_inv st0 inp (ppos st1) st1" using inv lt p1 by (simp add: sm_inv_def st1_def)
    moreover have "ahead (ppos st1) (unat (min_match st1)) st1" using ah p1 by (simp add: ahead_def st1_def)
    ultimately show ?thesis using u p1 lt m by (simp add: outcome_def step_inv_def) (simp add: st1_def)
  qed
qed

lemma lazy_outcome:
  assumes conf: "sm_conf inp st0" and inv: "sm_inv st0 inp (Suc (ppos st)) st" and last: "iopt_used st \<noteq> []"
      "ipos (last (iopt_used st)) = ppos st" "iend (last (iopt_used st)) = ppos st + unat mlen"
    and m: "4 \<le> unat mlen" "ppos st + unat mlen \<le> length inp" and look: "ppos st + plook st0 \<le> length inp"
    and run: "run_ok inp (plook st0) (ppos st + plook st0) (sm_run_l v) (sm_run_c v)"
  shows "outcome st0 inp (ppos st) (HANDLELAZY mlen v st)"
proof (cases "TRYLAZYLEN (max_lazy (smatcher st)) mlen (input_position st) (avail_in st)")
  case True
  let ?st = "st\<lparr>min_match := mlen + LEAST_MATCH_INCR\<rparr>"
  have "outcome st0 inp (ppos ?st) (updateone v ?st)"
    using inv last m look run by (intro updateone_outcome [OF conf]) (simp_all add: sm_inv_def ahead_def LEAST_MATCH_INCR_def)
  then show ?thesis using True by (simp add: HANDLELAZY_def)
next
  case False
  let ?st = "st\<lparr>input_position := input_position st + mlen\<rparr>"
  have p: "ppos ?st = ppos st + unat mlen" using m(2) conf by (simp add: sm_conf_def unat_add_u32)
  have "table_ok st (ppos st + unat mlen)" using inv m(1) by (auto simp: sm_inv_def intro: table_ok_mono)
  then have "restart_inv st0 inp ?st" using inv last m p by (simp add: restart_inv_def sm_inv_def)
  then show ?thesis using False p m(1) by (simp add: HANDLELAZY_def outcome_def)
qed

text \<open>A match or a run that is found is entered and followed by a lazy or a fresh start.\<close>

lemma entered_inv:
  assumes inv: "sm_inv st0 inp b st" and ah: "ahead (ppos st) (unat (min_match st)) st" and e: "entered st st1 r"
    and r: "valid_inst [] inp st0 r" "ipos r = ppos st" "unat (min_match st) \<le> isz r"
  shows "sm_inv st0 inp b st1" "iopt_used st1 \<noteq> []" "ipos (last (iopt_used st1)) = ppos st1"
    "iend (last (iopt_used st1)) = ppos st1 + isz r"
proof -
  have "staggered (iopt_used st @ [r])" using inv ah r by (intro staggered_snoc) (auto simp: sm_inv_def ahead_def)
  moreover have "table_ok st1 b" using inv e table_ok_frame [of st1 st b] by (simp add: sm_inv_def entered_def mframe_def)
  moreover have "mframe st0 st1" using inv e mframe_trans by (auto simp: sm_inv_def entered_def)
  ultimately show "sm_inv st0 inp b st1" using inv e r(1) by (simp add: sm_inv_def entered_def)
  show "iopt_used st1 \<noteq> []" "ipos (last (iopt_used st1)) = ppos st1" "iend (last (iopt_used st1)) = ppos st1 + isz r"
    using e r(2) by (simp_all add: entered_def)
qed

lemma fall_outcome:
  assumes conf: "sm_conf inp st0" and inv: "sm_inv st0 inp (Suc (ppos st)) st" and ah: "ahead (ppos st) (unat (min_match st)) st"
    and m: "4 \<le> unat (min_match st)" and look: "ppos st + plook st0 \<le> length inp"
    and run: "run_ok inp (plook st0) (ppos st + plook st0) (sm_run_l v) (sm_run_c v)"
  shows "outcome st0 inp (ppos st) (updateone v (if min_match st > of_nat MIN_MATCH then st\<lparr>min_match := min_match st - 1\<rparr> else st))"
proof (cases "min_match st > of_nat MIN_MATCH")
  case True
  have p4: "unat (of_nat MIN_MATCH :: u32) = 4" by (simp add: MIN_MATCH_def)
  have u: "unat (min_match st - 1) = unat (min_match st) - 1" using m by (intro unat_minus_one) auto
  have g: "4 < unat (min_match st)" using True p4 by (simp add: word_less_nat_alt)
  let ?st = "st\<lparr>min_match := min_match st - 1\<rparr>"
  have "outcome st0 inp (ppos ?st) (updateone v ?st)"
    using inv ah g u look run by (intro updateone_outcome [OF conf]) (auto simp: sm_inv_def ahead_def)
  then show ?thesis using True by simp
next
  case False
  have "outcome st0 inp (ppos st) (updateone v st)"
    using inv ah m look run by (intro updateone_outcome [OF conf]) (auto simp: ahead_def)
  then show ?thesis using False by simp
qed

lemma match_outcome:
  assumes conf: "sm_conf inp st0" and inv: "sm_inv st0 inp (Suc (ppos st)) st" and ah: "ahead (ppos st) (unat (min_match st)) st"
    and m: "4 \<le> unat (min_match st)" "min_match st \<le> mlen" and look: "ppos st + plook st0 \<le> length inp"
    and run: "run_ok inp (plook st0) (ppos st + plook st0) (sm_run_l v) (sm_run_c v)"
    and slot: "bind_ok (xd3_iopt_get_slot st) (set_slot f) = (r, st1)"
    and f: "\<And>ri. valid_inst [] inp st0 (f ri) \<and> r_pos (f ri) = input_position st \<and> r_size (f ri) = mlen"
  shows "outcome st0 inp (ppos st) (if r \<noteq> XD3_OK then SM_Return r st1 else HANDLELAZY mlen v st1)"
proof -
  have fr: "mframe st0 st" using inv by (simp add: sm_inv_def)
  have ml: "unat (min_match st) \<le> unat mlen" using m(2) by (simp add: word_le_nat_alt)
  from slot_entered [OF sm_frame(2) [OF conf fr] slot] show ?thesis
  proof (elim disjE conjE exE)
    assume "no_mem st r"
    then have "no_mem st0 r" using mframe_inv(4) [OF fr] by simp
    then show ?thesis by (auto simp: outcome_def)
  next
    fix ri assume ok: "r = XD3_OK" and e: "entered st st1 (f ri)"
    have p: "ppos st1 = ppos st" using e by (simp add: entered_def)
    note f1 = f [of ri]
    have "outcome st0 inp (ppos st1) (HANDLELAZY mlen v st1)"
    proof (rule lazy_outcome [OF conf])
      note x = entered_inv [OF inv ah e]
      show "sm_inv st0 inp (Suc (ppos st1)) st1" "iopt_used st1 \<noteq> []" "ipos (last (iopt_used st1)) = ppos st1"
        "iend (last (iopt_used st1)) = ppos st1 + unat mlen"
        using x f1 ml p by auto
      show "4 \<le> unat mlen" using m(1) ml by simp
      show "ppos st1 + unat mlen \<le> length inp" using f1 p by (auto simp: valid_inst_def)
      show "ppos st1 + plook st0 \<le> length inp" "run_ok inp (plook st0) (ppos st1 + plook st0) (sm_run_l v) (sm_run_c v)"
        using look run p by simp_all
    qed
    then show ?thesis using ok p by simp
  qed
qed

lemma small_outcome:
  assumes conf: "sm_conf inp st0" and inv: "step_inv st0 inp v st"
  shows "outcome st0 inp (ppos st) (sm_small v st)"
proof -
  have i: "sm_inv st0 inp (ppos st) st" and ah: "ahead (ppos st) (unat (min_match st)) st" and m: "4 \<le> unat (min_match st)"
    and look: "ppos st + plook st0 \<le> length inp" and run: "run_ok inp (plook st0) (ppos st + plook st0) (sm_run_l v) (sm_run_c v)"
    using inv by (simp_all add: step_inv_def)
  have fr: "mframe st0 st" and tab: "table_ok st (ppos st)" and pl: "ppos st \<le> length inp" using i by (simp_all add: sm_inv_def)
  note f = sm_frame [OF conf fr]
  have big: "ppos st + 1 < 4294967296" using look conf by (simp add: sm_conf_def)
  show ?thesis
  proof (cases "flag_set (flags st) XD3_NOCOMPRESS")
    case True
    then show ?thesis using i fall_outcome [OF conf _ ah m look run] by (simp add: sm_small_def sm_inv_def table_ok_def)
  next
    case False
    define sinx where "sinx = xd3_checksum_hash (small_hash st) (sm_scksum v)"
    obtain tbl where t: "small_table st = Some tbl" "unat sinx < length tbl" using tab False by (auto simp: table_ok_def sinx_def)
    define e where "e = tbl ! unat sinx"
    have g: "arr_get (small_table st) (unat sinx) = Some e" using t by (simp add: arr_get_def e_def)
    have "\<exists>ml mo. (if e \<noteq> 0 then xd3_smatch e (sm_scksum v) (sm_match_offset v) st else Some (0, sm_match_offset v)) = Some (ml, mo)
        \<and> found_ok inp (ppos st) ml mo"
      using smatch_total [OF f(8) _ pl tab False t(1), of e "sm_scksum v" "sm_match_offset v"] f(5,6) t(2) pl
      by (auto simp: e_def found_ok_def)
    then obtain ml mo where sm: "(if e \<noteq> 0 then xd3_smatch e (sm_scksum v) (sm_match_offset v) st else Some (0, sm_match_offset v)) = Some (ml, mo)"
        "found_ok inp (ppos st) ml mo" by blast
    obtain tbl1 prev1 where ins: "xd3_scksum_insert sinx (sm_scksum v) (input_position st) st = (XD3_OK, st\<lparr>small_table := Some tbl1, small_prev := prev1\<rparr>)"
        "table_ok (st\<lparr>small_table := Some tbl1, small_prev := prev1\<rparr>) (ppos st + 1)"
      unfolding sinx_def by (rule scksum_insert_ok [OF tab False big le_add1])
    let ?st = "st\<lparr>small_table := Some tbl1, small_prev := prev1\<rparr>" let ?v = "v\<lparr>sm_match_offset := mo\<rparr>"
    have i1: "sm_inv st0 inp (Suc (ppos ?st)) ?st" using i ins(2) by (simp add: sm_inv_def)
    have ah1: "ahead (ppos ?st) (unat (min_match ?st)) ?st" using ah by (simp add: ahead_def)
    have run1: "run_ok inp (plook st0) (ppos ?st + plook st0) (sm_run_l ?v) (sm_run_c ?v)" using run by simp
    have eq: "sm_small v st = (if ml \<ge> min_match ?st then
        (case xd3_found_match (input_position ?st) ml (ucast mo) False ?st of
           (r2, st2) \<Rightarrow> if r2 \<noteq> XD3_OK then SM_Return r2 st2 else HANDLELAZY ml ?v st2)
        else updateone ?v (if min_match ?st > of_nat MIN_MATCH then ?st\<lparr>min_match := min_match ?st - 1\<rparr> else ?st))"
      unfolding sm_small_def sinx_def [symmetric] Let_def using False g sm(1) ins(1) by simp
    show ?thesis
    proof (cases "ml \<ge> min_match ?st")
      case True
      obtain r st2 where fm: "bind_ok (xd3_iopt_get_slot ?st)
          (set_slot (\<lambda>ri. ri\<lparr>r_type := XD3_CPY, r_xtra := (if False then 1 else 0), r_pos := input_position ?st, r_size := ml, r_addr := ucast mo\<rparr>)) = (r, st2)"
        by fastforce
      have "0 < unat ml" using True m by (simp add: word_le_nat_alt)
      then have mt: "0 < unat ml" "ppos st + unat ml \<le> length inp" "unat mo < ppos st" "is_match inp (unat mo) inp (ppos st) (unat ml)"
        using sm(2) by (auto simp: found_ok_def)
      have uc: "unat (ucast mo :: u64) = unat mo" by simp
      have "outcome st0 inp (ppos ?st) (if r \<noteq> XD3_OK then SM_Return r st2 else HANDLELAZY ml ?v st2)"
      proof (rule match_outcome [OF conf i1 ah1 _ True _ run1 fm])
        show "4 \<le> unat (min_match ?st)" "ppos ?st + plook st0 \<le> length inp" using m look by simp_all
        fix ri show "valid_inst [] inp st0 (ri\<lparr>r_type := XD3_CPY, r_xtra := (if False then 1 else 0), r_pos := input_position ?st, r_size := ml, r_addr := ucast mo\<rparr>)
            \<and> r_pos (ri\<lparr>r_type := XD3_CPY, r_xtra := (if False then 1 else 0), r_pos := input_position ?st, r_size := ml, r_addr := ucast mo\<rparr>) = input_position ?st
            \<and> r_size (ri\<lparr>r_type := XD3_CPY, r_xtra := (if False then 1 else 0), r_pos := input_position ?st, r_size := ml, r_addr := ucast mo\<rparr>) = ml"
          using mt uc by (simp add: valid_inst_def valid_copy_def inst_consts)
      qed
      then show ?thesis using True eq fm by (simp add: xd3_found_match_def)
    next
      case False
      have "outcome st0 inp (ppos ?st) (updateone ?v (if min_match ?st > of_nat MIN_MATCH then ?st\<lparr>min_match := min_match ?st - 1\<rparr> else ?st))"
        using m look by (intro fall_outcome [OF conf i1 ah1 _ _ run1]) simp_all
      then show ?thesis using False eq by simp
    qed
  qed
qed

text \<open>A run found before any match.\<close>

lemma iter_outcome:
  assumes conf: "sm_conf inp st0" and inv: "step_inv st0 inp v st"
  shows "outcome st0 inp (ppos st) (sm_iter unaligned_ok v st)"
proof -
  have i: "sm_inv st0 inp (ppos st) st" and ah: "ahead (ppos st) (unat (min_match st)) st" and m: "4 \<le> unat (min_match st)"
    and look: "ppos st + plook st0 \<le> length inp" and run: "run_ok inp (plook st0) (ppos st + plook st0) (sm_run_l v) (sm_run_c v)"
    using inv by (simp_all add: step_inv_def)
  have fr: "mframe st0 st" and pl: "ppos st \<le> length inp" using i by (simp_all add: sm_inv_def)
  note f = sm_frame [OF conf fr]
  have large: "sm_large unaligned_ok w st = sm_small w st" for w using f(1) by (simp add: sm_large_def)
  show ?thesis
  proof (cases "sm_run_l v = small_look (smatcher st)")
    case False
    then show ?thesis using small_outcome [OF conf inv] by (simp add: sm_iter_def large)
  next
    case True
    define mx where "mx = unat (avail_in st - input_position st)"
    define ip where "ip = drop (ppos st) (next_in st)"
    define n where "n = expand_run ip mx (sm_run_c v) (unat (sm_run_l v))"
    let ?v = "v\<lparr>sm_run_l := of_nat n\<rparr>"
    have mx: "mx = length inp - ppos st" using f(5) pl by (simp add: mx_def unat_sub word_le_nat_alt)
    have rl: "unat (sm_run_l v) = plook st0" using True f(3) by simp
    have nth: "ip ! k = inp ! (ppos st + k)" if "k < mx" for k using that mx f(5,6,7) by (simp add: ip_def)
    have l: "plook st0 \<le> mx" using look mx by simp
    have c: "ip ! k = sm_run_c v" if "k < plook st0" for k
      using run [unfolded run_ok_def, rule_format, of "plook st0 - 1 - k"] that rl nth [of k] l by simp
    have n: "plook st0 \<le> n" "n \<le> mx" "\<forall>k < n. ip ! k = sm_run_c v"
      using expand_run_props [of "plook st0" mx ip "sm_run_c v"] c l rl by (simp_all add: n_def)
    have nu: "unat (of_nat n :: u32) = n" using n(2) mx conf by (intro unat_of_nat_small) (auto simp: sm_conf_def)
    have ub: "\<not> length ip < mx" using f(6) mx by (simp add: ip_def)
    have eq: "sm_iter unaligned_ok v st = (if (of_nat n :: u32) \<ge> min_match st \<and> (of_nat n :: u32) \<ge> MIN_RUN then
            (case xd3_emit_run (input_position st) (of_nat n) (sm_run_c ?v) st of
               (r, st1) \<Rightarrow> if r \<noteq> XD3_OK then SM_Return r st1 else HANDLELAZY (of_nat n) ?v st1)
          else sm_small ?v st)"
      unfolding sm_iter_def if_P [OF True] Let_def mx_def [symmetric] ip_def [symmetric] if_not_P [OF ub] n_def [symmetric] large by simp
    have "n = expand_run ip mx (sm_run_c v) (plook st0)" by (simp add: n_def rl)
    have run1: "run_ok inp (plook st0) (ppos st + plook st0) (sm_run_l ?v) (sm_run_c ?v)"
      using run n(1) rl nu by (simp add: run_ok_def)
    show ?thesis
    proof (cases "(of_nat n :: u32) \<ge> min_match st \<and> (of_nat n :: u32) \<ge> MIN_RUN")
      case run2: True
      obtain r st1 where em: "bind_ok (xd3_iopt_get_slot st)
          (set_slot (\<lambda>ri. ri\<lparr>r_type := XD3_RUN, r_xtra := sm_run_c v, r_pos := input_position st, r_size := of_nat n\<rparr>)) = (r, st1)"
        by fastforce
      have i1: "sm_inv st0 inp (Suc (ppos st)) st" using i by (auto simp: sm_inv_def intro: table_ok_mono)
      have nz: "0 < n" using n(1) conf by (simp add: sm_conf_def)
      have allc: "inp ! (ppos st + k) = sm_run_c v" if "k < n" for k using that n(2,3) nth [of k] by simp
      have "outcome st0 inp (ppos st) (if r \<noteq> XD3_OK then SM_Return r st1 else HANDLELAZY (of_nat n) ?v st1)"
      proof (rule match_outcome [OF conf i1 ah m _ look run1 em])
        show "min_match st \<le> of_nat n" using run2 by simp
        fix ri show "valid_inst [] inp st0 (ri\<lparr>r_type := XD3_RUN, r_xtra := sm_run_c v, r_pos := input_position st, r_size := of_nat n\<rparr>)
            \<and> r_pos (ri\<lparr>r_type := XD3_RUN, r_xtra := sm_run_c v, r_pos := input_position st, r_size := of_nat n\<rparr>) = input_position st
            \<and> r_size (ri\<lparr>r_type := XD3_RUN, r_xtra := sm_run_c v, r_pos := input_position st, r_size := of_nat n\<rparr>) = of_nat n"
          using nz nu allc n(2) mx pl by (simp add: valid_inst_def)
      qed
      then show ?thesis using run2 eq em by (simp add: xd3_emit_run_def)
    next
      case False
      have "step_inv st0 inp ?v st" using inv run1 by (simp add: step_inv_def)
      then show ?thesis using False eq small_outcome [OF conf] by auto
    qed
  qed
qed

text \<open>The incremental state from scratch.\<close>

lemma comprun_run_ok:
  assumes "p + unat look \<le> length inp" "\<And>k. k < unat look \<Longrightarrow> ip ! k = inp ! (p + k)" "unat look \<le> length ip" "xd3_comprun ip look = (l, c)"
  shows "run_ok inp (unat look) (p + unat look) l c"
proof -
  have "run_ok inp n (p + n) (fst (fold NEXTRUN (take n ip) (0, 0))) (snd (fold NEXTRUN (take n ip) (0, 0)))" if "n \<le> unat look" for n
    using that
  proof (induction n)
    case 0
    then show ?case by (simp add: run_ok_def)
  next
    case (Suc n)
    obtain l1 c1 where s: "fold NEXTRUN (take n ip) (0, 0) = (l1, c1)" by fastforce
    obtain l2 c2 where t: "NEXTRUN (inp ! (p + n)) (l1, c1) = (l2, c2)" by fastforce
    have "fold NEXTRUN (take (Suc n) ip) (0, 0) = (l2, c2)"
      using Suc.prems assms(2,3) s t by (simp add: take_Suc_conv_app_nth)
    moreover have "run_ok inp (Suc n) (p + Suc n) l2 c2"
      using run_ok_more [of inp n "p + n" l1 c1 l2 c2] Suc s t by simp
    ultimately show ?case by simp
  qed
  from this [of "unat look"] show ?thesis using assms(4) by (simp add: xd3_comprun_def)
qed

lemma restart_outcome:
  assumes conf: "sm_conf inp st0" and inv: "restart_inv st0 inp st"
  shows "case sm_restart v st of
      SM_Return r st1 \<Rightarrow> r = XD3_OK \<and> done_inv st0 inp st1
    | SM_Next v1 st1 \<Rightarrow> step_inv st0 inp v1 st1 \<and> ppos st1 = ppos st
    | SM_Restart v1 st1 \<Rightarrow> False"
proof -
  have i: "sm_inv st0 inp (ppos st) st" and lastp: "iopt_used st \<noteq> [] \<longrightarrow> ipos (last (iopt_used st)) < ppos st"
    using inv by (simp_all add: restart_inv_def)
  have fr: "mframe st0 st" and pl: "ppos st \<le> length inp" and vl: "list_all (valid_inst [] inp st0) (iopt_used st)"
    using i by (simp_all add: sm_inv_def)
  note f = sm_frame [OF conf fr]
  have big: "length inp < 4294967296" using conf by (simp add: sm_conf_def)
  have la: "unat (input_position st + small_look (smatcher st)) = ppos st + plook st0" using unat_look_add [OF conf pl] f(3) by simp
  show ?thesis
  proof (cases "input_position st + small_look (smatcher st) > avail_in st")
    case True
    then show ?thesis using sm_inv_done [OF i] by (simp add: sm_restart_def)
  next
    case False
    then have look: "ppos st + plook st0 \<le> length inp" using la f(5) by (simp add: word_le_nat_alt not_less)
    define lm where "lm = xd3_iopt_last_matched st"
    define mm where "mm = (if lm > input_position st then max (of_nat MIN_MATCH) (1 + lm - input_position st) else of_nat MIN_MATCH)"
    let ?st = "st\<lparr>min_match := mm\<rparr>"
    define ip where "ip = drop (ppos st) (next_in st)"
    have p4: "unat (of_nat MIN_MATCH :: u32) = 4" by (simp add: MIN_MATCH_def)
    have lmu: "unat lm = iend (last (iopt_used st)) \<and> unat lm \<le> length inp" if "iopt_used st \<noteq> []"
    proof -
      have "valid_inst [] inp st0 (last (iopt_used st))" using vl that by (simp add: list_all_iff)
      then show ?thesis using that big by (simp add: valid_inst_def lm_def xd3_iopt_last_matched_def unat_add_u32)
    qed
    have mm: "4 \<le> unat mm \<and> (iopt_used st \<noteq> [] \<longrightarrow> iend (last (iopt_used st)) < ppos st + unat mm)"
    proof (cases "lm > input_position st")
      case True
      then have "iopt_used st \<noteq> []" by (auto simp: lm_def xd3_iopt_last_matched_def)
      note l = lmu [OF this]
      have lt: "ppos st < unat lm" using True by (simp add: word_less_nat_alt)
      have "unat (1 + lm - input_position st) = 1 + unat lm - ppos st"
      proof (cases "unat lm + 1 < 4294967296")
        case True
        then have "unat (1 + lm) = 1 + unat lm" by (simp add: unat_add_u32)
        then show ?thesis using lt by (simp add: unat_sub word_le_nat_alt)
      next
        case False
        then show ?thesis using l big conf by (simp add: sm_conf_def)
      qed
      then have "unat mm = max 4 (1 + unat lm - ppos st)" using True p4 by (simp add: mm_def max_def word_le_nat_alt)
      then show ?thesis using l lt by auto
    next
      case False
      then have "iopt_used st \<noteq> [] \<Longrightarrow> iend (last (iopt_used st)) \<le> ppos st" using lmu by (simp add: word_le_nat_alt not_less)
      moreover have "unat mm = 4" using False p4 by (simp add: mm_def)
      ultimately show ?thesis by auto
    qed
    have l4: "4 \<le> plook st0" using conf by (simp add: sm_conf_def)
    have ub: "\<not> (length ip < unat (small_look (smatcher st)) \<or> length ip < 4)" using look l4 f(3,6) by (auto simp: ip_def)
    obtain l c where cr: "xd3_comprun ip (small_look (smatcher st)) = (l, c)" by fastforce
    define st1 where "st1 = ?st"
    have s1: "src st1 = None" "drop (ppos st1) (next_in st1) = ip" using f(1) by (simp_all add: st1_def ip_def)
    define w where "w = v\<lparr>sm_scksum := (if \<not> flag_set (flags st1) XD3_NOCOMPRESS then snd (xd3_scksum ip) else sm_scksum v),
        sm_run_l := l, sm_run_c := c\<rparr>"
    have eq: "sm_restart v st = SM_Next w st1"
      unfolding sm_restart_def Let_def if_not_P [OF False] lm_def [symmetric] mm_def [symmetric] st1_def [symmetric] s1 if_not_P [OF ub] cr prod.case
        w_def [symmetric] by simp
    have w: "sm_run_l w = l" "sm_run_c w = c" by (simp_all add: w_def)
    have "run_ok inp (plook st0) (ppos st + plook st0) l c"
    proof (rule comprun_run_ok [OF look])
      show "xd3_comprun ip (small_look (smatcher st0)) = (l, c)" using cr f(3) by simp
      show "plook st0 \<le> length ip" using ub f(3) by simp
      fix k assume "k < plook st0"
      then show "ip ! k = inp ! (ppos st + k)" using look f(6,7) by (simp add: ip_def)
    qed
    then have "step_inv st0 inp w ?st"
      using i mm lastp look w by (simp add: step_inv_def sm_inv_def ahead_def)
    then show ?thesis using eq by (simp add: st1_def)
  qed
qed

lemma loop_outcome:
  assumes conf: "sm_conf inp st0" and "step_inv st0 inp v st" "sm_loop unaligned_ok v st = (r, st1)"
  shows "no_mem st0 r \<or> r = XD3_OK \<and> done_inv st0 inp st1"
  using assms(2,3)
proof (induction unaligned_ok v st rule: sm_loop.induct)
  case (1 u v st)
  note o = iter_outcome [OF conf 1(3), of u]
  have left: "input_left x < input_left st" if "mframe st0 x" "ppos st < ppos x" "ppos x \<le> length inp" for x
    using that sm_frame(5) [OF conf that(1)] sm_frame(5) [OF conf, of st] 1(3) by (simp add: input_left_def step_inv_def sm_inv_def)
  show ?case
  proof (cases "sm_iter u v st")
    case (SM_Return r1 x)
    then show ?thesis using o 1(4) by (simp add: sm_loop.simps [of u v st] outcome_def)
  next
    case (SM_Next v1 x)
    then have s: "step_inv st0 inp v1 x" "ppos st < ppos x" using o by (simp_all add: outcome_def)
    then have "input_left x < input_left st" by (intro left) (simp_all add: step_inv_def sm_inv_def)
    then show ?thesis using 1(2) [OF SM_Next _ s(1)] 1(4) SM_Next by (simp add: sm_loop.simps [of u v st])
  next
    case (SM_Restart v1 x)
    then have s: "restart_inv st0 inp x" "ppos st < ppos x" using o by (simp_all add: outcome_def)
    note ro = restart_outcome [OF conf s(1), of v1]
    show ?thesis
    proof (cases "sm_restart v1 x")
      case (SM_Next v2 y)
      then have t: "step_inv st0 inp v2 y" "ppos st < ppos y" using ro s(2) by simp_all
      then have "input_left y < input_left st" by (intro left) (simp_all add: step_inv_def sm_inv_def)
      then show ?thesis using 1(1) [OF SM_Restart SM_Next _ t(1)] 1(4) SM_Restart SM_Next by (simp add: sm_loop.simps [of u v st])
    qed (use ro 1(4) SM_Restart in \<open>simp_all add: sm_loop.simps [of u v st]\<close>)
  qed
qed

section \<open>A whole window\<close>

text \<open>The tables before matching: their sizes are those of the configuration, and a table left over from the last
  window is to be cleared.\<close>

definition match_ready :: "xd3_stream \<Rightarrow> bool" where
  "match_ready st \<longleftrightarrow> flag_set (flags st) XD3_NOCOMPRESS \<or>
    ((\<forall>c. unat (xd3_checksum_hash (small_hash st) c) < unat (hash_size (small_hash st)))
     \<and> 0 < small_chain (smatcher st) \<and> 0 < small_lchain (smatcher st) \<and> unat (sprevmask st) < unat (sprevsz st)
     \<and> (small_table st \<noteq> None \<longrightarrow> small_reset st) \<and> tables_ok st)"

lemma match_ready_tables: "match_ready st \<Longrightarrow> tables_ok st"
  by (auto simp: match_ready_def tables_ok_def)

lemma init_outcome:
  assumes "src st = None" "match_ready st" "xd3_string_match_init st = (r, st1)"
  shows "no_mem st r \<or> r = XD3_OK \<and> mframe st st1 \<and> input_position st1 = input_position st \<and> iopt_used st1 = iopt_used st \<and> table_ok st1 0"
proof (cases "flag_set (flags st) XD3_NOCOMPRESS")
  case True
  then show ?thesis using assms(1,3) by (auto simp: xd3_string_match_init_def Let_def table_ok_def)
next
  case False
  then have rd: "\<forall>c. unat (xd3_checksum_hash (small_hash st) c) < unat (hash_size (small_hash st))"
     "0 < small_chain (smatcher st)" "0 < small_lchain (smatcher st)" "unat (sprevmask st) < unat (sprevsz st)"
    using assms(2) by (auto simp: match_ready_def)
  have fail: "no_mem st ENOMEM" if "mframe st x" "xd3_alloc a b x = (False, y)" for a b x y
    using alloc_mem [OF that(2)] mframe_inv(4) [OF that(1), of ENOMEM] by (simp add: no_mem_def)
  show ?thesis
  proof (cases "small_table st")
    case (Some t)
    then show ?thesis using assms False rd
      by (auto simp: xd3_string_match_init_def Let_def table_ok_def match_ready_def tables_ok_def split: option.splits)
  next
    case None
    obtain ok1 s2 where a1: "xd3_alloc (hash_size (small_hash st)) 4 st = (ok1, s2)" by fastforce
    note f1 = alloc_fields [OF a1]
    have m2: "smatcher s2 = smatcher st" "small_hash s2 = small_hash st" "sprevmask s2 = sprevmask st" "flags s2 = flags st"
      using f1(1) by (simp_all add: mframe_def)
    define s3 where "s3 = s2\<lparr>small_table := Some (replicate (unat (hash_size (small_hash s2))) 0)\<rparr>"
    obtain ok2 s4 where a2: "xd3_alloc (sprevsz s3) 4 s3 = (ok2, s4)" by fastforce
    note f2 = alloc_fields [OF a2]
    have m3: "mframe st s3" using f1(1) by (simp add: s3_def)
    have sp: "small_prev st = None" using assms(2) False None by (simp add: match_ready_def tables_ok_def)
    have sz: "sprevsz s4 = sprevsz st" using a1 a2 by (auto simp: s3_def xd3_alloc_def Let_def split: if_splits)
    have m4: "mframe st s4" by (rule mframe_trans [OF m3 f2(1)])
    have t4: "small_table s4 = Some (replicate (unat (hash_size (small_hash st))) 0)" using f2(4) m2 by (simp add: s3_def)
    consider (no1) "\<not> ok1" | (one) "ok1" "\<not> (small_lchain (smatcher st) > 1 \<or> small_chain (smatcher st) > 1)"
      | (no2) "ok1" "small_lchain (smatcher st) > 1 \<or> small_chain (smatcher st) > 1" "\<not> ok2"
      | (two) "ok1" "small_lchain (smatcher st) > 1 \<or> small_chain (smatcher st) > 1" "ok2" by blast
    then show ?thesis
    proof cases
      case no1
      then show ?thesis using assms(1,3) False None a1 fail [OF mframe_refl] by (auto simp: xd3_string_match_init_def Let_def)
    next
      case one
      have "r = XD3_OK" "st1 = s3"
        using one assms(1,3) False None a1 m2 by (auto simp: xd3_string_match_init_def Let_def s3_def)
      moreover have "small_chain (smatcher st) = 1" "small_lchain (smatcher st) = 1"
        using one rd(2,3) by (auto simp: word_less_nat_alt word_unat_eq_iff not_less)
      ultimately show ?thesis using m3 f1 rd(1) m2 sp by (simp add: table_ok_def s3_def)
    next
      case no2
      then have "r = ENOMEM" using assms(1,3) False None a1 a2 m2 by (auto simp: xd3_string_match_init_def Let_def s3_def)
      then show ?thesis using fail [OF m3, of _ _ s4] a2 no2 by auto
    next
      case two
      have "r = XD3_OK" "st1 = s4\<lparr>small_prev := Some (fresh_words (unat (sprevsz s4)) s4)\<rparr>"
        using two assms(1,3) False None a1 a2 m2 by (auto simp: xd3_string_match_init_def Let_def s3_def)
      moreover have "table_ok (s4\<lparr>small_prev := Some (fresh_words (unat (sprevsz s4)) s4)\<rparr>) 0"
        using m4 rd(1,4) t4 sz by (simp add: table_ok_def mframe_def fresh_words_def)
      moreover have "input_position s4 = input_position st" "iopt_used s4 = iopt_used st" using f1 f2 by (simp_all add: s3_def)
      ultimately show ?thesis using m4 by simp
    qed
  qed
qed

lemma begin_frame: "mframe st st1 \<Longrightarrow> enc_window_begin inp st \<Longrightarrow> enc_window_begin inp st1"
  using mframe_inv(1) [of st st1 inp] mframe_chains [of st st1] by (simp add: enc_window_begin_def) (simp add: mframe_def)

lemma begin_buffer:
  assumes "enc_window_begin inp st" "done_inv st inp st1"
  shows "buffer_ok [] inp st1"
proof -
  have f: "mframe st st1" using assms(2) by (simp add: done_inv_def)
  then have "unencoded_offset st1 = 0" using assms(1) by (simp add: mframe_def enc_window_begin_def)
  then show ?thesis using assms(2) mframe_inv(3) [OF f] by (simp add: buffer_ok_def done_inv_def list_all_iff)
qed

lemma string_match_buffer:
  assumes beg: "enc_window_begin inp st" and conf: "sm_conf inp st" and ready: "match_ready st"
    and new: "iopt_used st = []" "input_position st = 0" and run: "xd3_string_match unaligned_ok st = (r, st1)"
  shows "no_mem st r \<or> r = XD3_OK \<and> enc_window_begin inp st1 \<and> buffer_ok [] inp st1 \<and> mframe st st1 \<and> tables_ok st1"
proof -
  have fin: ?thesis if "no_mem st r \<or> r = XD3_OK \<and> done_inv st inp st1"
    using that begin_buffer [OF beg, of st1] begin_frame [OF _ beg, of st1] by (auto simp: done_inv_def)
  have sn: "src st = None" using conf by (simp add: sm_conf_def)
  show ?thesis
  proof (cases "input_position st + small_look (smatcher st) > avail_in st")
    case True
    then show ?thesis using run new match_ready_tables [OF ready] by (intro fin) (simp add: xd3_string_match_def done_inv_def)
  next
    case False
    obtain r1 x where ini: "xd3_string_match_init st = (r1, x)" by fastforce
    from init_outcome [OF sn ready ini] show ?thesis
    proof (elim disjE conjE)
      assume "no_mem st r1"
      then show ?thesis using run ini False by (intro fin) (auto simp: xd3_string_match_def)
    next
      assume x: "r1 = XD3_OK" "mframe st x" "input_position x = input_position st" "iopt_used x = iopt_used st" "table_ok x 0"
      have ri: "restart_inv st inp x" using x new by (simp add: restart_inv_def sm_inv_def)
      note ro = restart_outcome [OF conf ri, of sm_start]
      show ?thesis
      proof (cases "sm_restart sm_start x")
        case (SM_Next v y)
        then have "step_inv st inp v y" "sm_loop unaligned_ok v y = (r, st1)" using ro run ini x(1) False by (simp_all add: xd3_string_match_def)
        from loop_outcome [OF conf this] show ?thesis by (rule fin)
      qed (rule fin, insert ro run ini x(1) False, auto simp: xd3_string_match_def)+
    qed
  qed
qed

lemma mframe_state [simp]: "mframe st (st1\<lparr>enc_state := x\<rparr>) = mframe st st1"
  by (simp add: mframe_def same_win_def)

lemma search_instructions:
  assumes beg: "enc_window_begin inp st" and conf: "sm_conf inp st" and ready: "match_ready st"
    and new: "iopt_used st = []" "input_position st = 0"
  shows "\<exists>st1. enc_window_begin inp st1 \<and> buffer_ok [] inp st1 \<and> mframe st st1 \<and> tables_ok st1
      \<and> enc_search unaligned_ok st = enc_instr st1 \<or> no_mem st (fst (enc_search unaligned_ok st))"
proof -
  have sn: "src st = None" using conf by (simp add: sm_conf_def)
  have upd: "buffer_ok [] inp (x\<lparr>enc_state := e\<rparr>) = buffer_ok [] inp x" for x e
    using same_win_valid [of x "x\<lparr>enc_state := e\<rparr>" "[]" inp] by (simp add: buffer_ok_def same_win_def list_all_iff)
  obtain r x where m: "(if avail_in st \<noteq> 0 then xd3_string_match unaligned_ok st else (XD3_OK, st)) = (r, x)" by fastforce
  have s: "enc_search unaligned_ok st = bind_ok (r, x) (\<lambda>st2. enc_instr (st2\<lparr>enc_state := ENC_INSTR\<rparr>))"
    using m by (simp add: enc_search_def enc_resume_match_def sn)
  have "no_mem st r \<or> r = XD3_OK \<and> enc_window_begin inp x \<and> buffer_ok [] inp x \<and> mframe st x \<and> tables_ok x"
  proof (cases "avail_in st = 0")
    case True
    then show ?thesis using m beg new begin_buffer [OF beg, of st] match_ready_tables [OF ready] by (simp add: done_inv_def)
  next
    case False
    then show ?thesis using m string_match_buffer [OF beg conf ready new, of unaligned_ok r x] by simp
  qed
  then show ?thesis
  proof (elim disjE conjE)
    assume "no_mem st r"
    then show ?thesis using s by (auto simp: no_mem_def)
  next
    assume x: "r = XD3_OK" "enc_window_begin inp x" "buffer_ok [] inp x" "mframe st x" "tables_ok x"
    let ?x = "x\<lparr>enc_state := ENC_INSTR\<rparr>"
    have "enc_window_begin inp ?x" by (rule begin_frame [OF _ x(2)]) simp
    then show ?thesis using x(1,3,4,5) s upd by (intro exI [of _ ?x]) simp
  qed
qed

section \<open>Properties\<close>

text \<open>C12. The comparison of match candidates, \<open>xd3_forward_match\<close>, gives the length of the longest common
  prefix of the two buffers, whether it compares by bytes or, where unaligned reads are allowed, by eight 32-bit
  integers at a time.\<close>

theorem forward_match_correct:
  assumes "n \<le> length s1" and "n \<le> length s2"
  shows "xd3_forward_match unaligned_ok s1 s2 n = common_prefix (take n s1) (take n s2)"
  using assms by (rule forward_match_prefix)

theorem forward_match_correct_witness:
  "xd3_forward_match True (replicate 40 7 @ [1, 2]) (replicate 40 7 @ [1, 3]) 42
    = common_prefix (replicate 40 7 @ [1, 2]) (replicate 40 7 @ [1, 3])"
  using forward_match_correct [of 42 "replicate 40 7 @ [1, 2]" "replicate 40 7 @ [1, 3]" True] by simp

text \<open>C6. String matching without a source.  The hypotheses: a window begins (\<open>enc_window_begin\<close>: default code table, well-formed
  address cache and page chains, empty sections; empty instruction list, input position 0); there is
  no source and the instruction buffer is unlimited (\<open>sm_conf\<close>; C38 shows that a bounded one can lose the window); the small look-ahead is at
  least 4 and stays below 2^32 when added to the length of the input; and the matcher is ready (\<open>match_ready\<close>): compression is off,
  or hashes fall inside the table, both chain lengths are nonzero (which \<open>xd3_config_stream\<close> does not check for the soft matcher), and the
  tables have the size of their masks.  Then the state \<open>ENC_SEARCH\<close> of \<open>xd3_encode_input\<close> ends: string matching runs through the window, its
  tables are never read or written out of range, and the sections handed to \<open>ENC_FLUSH\<close> decode to the input.  The only other result is
  failing memory.\<close>

theorem encode_search_correct:
  assumes "enc_window_begin inp st" and "sm_conf inp st" and "match_ready st" and "iopt_used st = []" and "input_position st = 0"
  shows "no_mem st (fst (enc_search unaligned_ok st)) \<or>
    (\<exists>st1. enc_search unaligned_ok st = enc_flush (st1\<lparr>enc_state := ENC_FLUSH\<rparr>)
      \<and> vrun xd3_rfc3284_code_table [] (length inp) (vstart (acache st) (secs st1))
        = Some \<lparr>v_inst = [], v_addr = [], v_data = [], v_cache = acache st1, v_tgt = inp\<rparr>)"
proof -
  from search_instructions [OF assms, of unaligned_ok] consider (fail) "no_mem st (fst (enc_search unaligned_ok st))"
    | (x) x where "enc_window_begin inp x" "buffer_ok [] inp x" "mframe st x" "enc_search unaligned_ok st = enc_instr x" by blast
  then show ?thesis
  proof cases
    case x
    obtain r y where f: "bind_ok (xd3_iopt_flush_instructions True x) xd3_iopt_add_finalize = (r, y)" by fastforce
    have sn: "src x = None" using x(3) assms(2) by (simp add: mframe_def same_win_def sm_conf_def)
    have "acache x = acache st" using x(3) by (simp add: mframe_def)
    moreover have "seg [] y []" if "src y = None" using that by (simp add: seg_def)
    ultimately show ?thesis using encode_window_sections [OF x(1,2) _ f] x(4) f mframe_inv(4) [OF x(3)] sn
      by (auto simp: enc_instr_def no_mem_def)
  qed blast
qed

definition sample_matcher :: xd3_stream where
  "sample_matcher = sample_encoder\<lparr>src := None, iopt_used := [], enc_state := ENC_SEARCH, smatcher := smatcher_default, iopt_unlimited := True,
     small_hash := xd3_size_hashtable 8, sprevsz := 4, sprevmask := 3\<rparr>"

lemma sample_matcher_fields:
  "src sample_matcher = None" "iopt_used sample_matcher = []" "smatcher sample_matcher = smatcher_default" "iopt_unlimited sample_matcher"
  "small_hash sample_matcher = xd3_size_hashtable 8" "sprevsz sample_matcher = 4" "sprevmask sample_matcher = 3"
  "next_in sample_matcher = sample_input" "avail_in sample_matcher = 19" "small_table sample_matcher = None" "small_prev sample_matcher = None"
  "acache sample_matcher = default_cache" "alloc sample_matcher = (\<lambda>_ _ _. True)" "input_position sample_matcher = 0"
  by (simp_all add: sample_matcher_def sample_encoder_def null_stream_def null_defs xd3_enccfg.defs xd3_matching.defs xd3_stream.defs)

lemma sample_matcher_begin: "enc_window_begin sample_input sample_matcher"
proof -
  have "chains_ok sample_matcher = chains_ok sample_encoder" "secs sample_matcher = secs sample_encoder"
    by (simp_all add: chains_ok_def pool_wf_def secs_def sample_matcher_def)
  then show ?thesis using sample_begin by (simp add: enc_window_begin_def enc_base_def win_fits_def sample_matcher_fields) (simp add: sample_matcher_def sample_fields)
qed

theorem encode_search_correct_witness:
  "\<exists>st1. enc_search True sample_matcher = enc_flush (st1\<lparr>enc_state := ENC_FLUSH\<rparr>)
      \<and> vrun xd3_rfc3284_code_table [] 19 (vstart default_cache (secs st1))
        = Some \<lparr>v_inst = [], v_addr = [], v_data = [], v_cache = acache st1, v_tgt = sample_input\<rparr>"
proof -
  have l: "length sample_input = 19" by (simp add: sample_input_def)
  have c: "sm_conf sample_input sample_matcher" using l by (simp add: sm_conf_def sample_matcher_fields smatcher_default_def smatch_def)
  have r: "match_ready sample_matcher"
    using hash_in_table [of 8] by (simp add: match_ready_def tables_ok_def sample_matcher_fields smatcher_default_def smatch_def word_less_nat_alt)
  have "\<not> no_mem sample_matcher x" for x by (simp add: no_mem_def mem_ok_def sample_matcher_fields)
  then show ?thesis
    using encode_search_correct [OF sample_matcher_begin c r sample_matcher_fields(2,14), of True] l by (simp add: sample_matcher_fields)
qed

end
