(* ===== verification/Xd3_File.thy ===== *)
theory Xd3_File
  imports Xd3_Roundtrip
begin

text \<open>
  The files the encoder writes when there is no source: the VCDIFF header and a sequence of windows, each of
  which is its lengths, an optional checksum and the three sections.  Encoder and decoder are related
  through these files: the theory of whole encodings shows that the encoder writes them, the theory of whole
  decodings that the decoder reads them.
\<close>

section \<open>Windows as bytes\<close>

type_synonym sections = "u8 list \<times> u8 list \<times> u8 list"

definition file_header :: "u8 list" where
  "file_header = [VCDIFF_MAGIC1, VCDIFF_MAGIC2, VCDIFF_MAGIC3, VCDIFF_VERSION, 0]"

text \<open>The lengths, from the encoding length on, and the checksum.\<close>

definition window_lengths :: "bool \<Rightarrow> nat \<Rightarrow> nat \<Rightarrow> nat \<Rightarrow> nat \<Rightarrow> u8 list" where
  "window_lengths ck n dl il al =
    emit_integer_type (enc_len (of_nat n) (of_nat dl) (of_nat il) (of_nat al) ck) @ emit_integer_type (of_nat n :: u32) @ [0]
     @ emit_integer_type (of_nat dl :: u32) @ emit_integer_type (of_nat il :: u32) @ emit_integer_type (of_nat al :: u32)"

definition window_bytes :: "bool \<Rightarrow> u8 list \<Rightarrow> sections \<Rightarrow> u8 list" where
  "window_bytes ck inp sec = (case sec of (i, a, d) \<Rightarrow>
     [if ck then ucast VCD_ADLER32 else 0] @ window_lengths ck (length inp) (length d) (length i) (length a)
     @ (if ck then adler_bytes (of_nat (vadler inp)) else []) @ d @ i @ a)"

text \<open>The sections mean \<open>inp\<close> under the specification of windows.\<close>

definition encodes_window :: "bool \<Rightarrow> u8 list \<Rightarrow> u8 list \<Rightarrow> bool" where
  "encodes_window ck inp bs \<longleftrightarrow> 0 < length inp \<and> length inp \<le> unat XD3_HARDMAXWINSIZE
     \<and> (\<exists>sec ac. bs = window_bytes ck inp sec \<and> cache_ok ac
          \<and> vrun xd3_rfc3284_code_table [] (length inp) (vstart default_cache sec)
              = Some \<lparr>v_inst = [], v_addr = [], v_data = [], v_cache = ac, v_tgt = inp\<rparr>)"

inductive encodes_windows :: "bool \<Rightarrow> u8 list \<Rightarrow> u8 list \<Rightarrow> bool" for ck where
  no_window: "encodes_windows ck [] []"
| next_window: "encodes_window ck inp bs \<Longrightarrow> encodes_windows ck rest ws \<Longrightarrow> encodes_windows ck (inp @ rest) (bs @ ws)"

inductive_simps encodes_nothing: "encodes_windows ck inp []"

definition encodes_file :: "bool \<Rightarrow> u8 list \<Rightarrow> u8 list \<Rightarrow> bool" where
  "encodes_file ck inp bs \<longleftrightarrow> (\<exists>ws. bs = file_header @ ws \<and> encodes_windows ck inp ws)"

lemma window_bytes_nonempty: "window_bytes ck inp sec \<noteq> []"
  by (cases sec) (simp add: window_bytes_def)

lemma encodes_windows_snoc:
  "encodes_windows ck inp ws \<Longrightarrow> encodes_window ck inp1 bs \<Longrightarrow> encodes_windows ck (inp @ inp1) (ws @ bs)"
proof (induction rule: encodes_windows.induct)
  case no_window
  then show ?case using next_window [OF _ encodes_windows.no_window] by fastforce
next
  case (next_window inp bs rest ws)
  then show ?case using encodes_windows.next_window by fastforce
qed

text \<open>Both sides start a window with the same address cache.\<close>

definition cache_room :: "xd3_addr_cache \<Rightarrow> bool" where
  "cache_room ac \<longleftrightarrow> s_near ac = 4 \<and> s_same ac = 3 \<and> (\<exists>xs. near_array ac = Some xs \<and> length xs = 4)
     \<and> (\<exists>xs. same_array ac = Some xs \<and> length xs = 768)"

lemma init_cache_default: "cache_room ac \<Longrightarrow> xd3_init_cache ac = Some default_cache"
  by (cases ac) (auto simp: cache_room_def xd3_init_cache_def arr_clear_def default_cache_def)

lemma cache_ok_room: "cache_ok ac \<Longrightarrow> cache_room ac"
  by (auto simp: cache_ok_def cache_wf_def cache_room_def)

lemma cache_ok_default: "cache_ok default_cache"
  by (simp add: cache_ok_def default_cache_wf) (simp add: default_cache_def)

section \<open>Allocators that never fail\<close>

lemma alloc_mem_ok:
  "mem_ok st \<Longrightarrow> xd3_alloc a b st = (True, st\<lparr>alloc_calls := Suc (alloc_calls st), alloc_cnt := Suc (alloc_cnt st)\<rparr>)"
  by (simp add: xd3_alloc_def mem_ok_def Let_def)

lemma free_opt_eq: "\<exists>f. xd3_free_opt p st = st\<lparr>free_cnt := f\<rparr>"
  by (cases p) (auto simp: xd3_free_opt_def xd3_free_def intro: exI [of _ "free_cnt st"])

lemma alloc_cache_room:
  fixes st :: "'a xd3_io_scheme"
  assumes "mem_ok st" "s_near (acache st) = 4" "s_same (acache st) = 3"
  obtains c n f ac where "xd3_alloc_cache st = (XD3_OK, st\<lparr>alloc_calls := c, alloc_cnt := n, free_cnt := f, acache := ac\<rparr>)" "cache_room ac"
proof -
  obtain f1 where f1: "xd3_free_opt (near_array (acache st)) st = st\<lparr>free_cnt := f1\<rparr>" using free_opt_eq by blast
  obtain f where f: "xd3_free_opt (same_array (acache st)) (st\<lparr>free_cnt := f1\<rparr>) = st\<lparr>free_cnt := f1\<rparr>\<lparr>free_cnt := f\<rparr>"
    using free_opt_eq [of "same_array (acache st)" "st\<lparr>free_cnt := f1\<rparr>"] by blast
  define s1 where "s1 = st\<lparr>free_cnt := f\<rparr>"
  define s2 where "s2 = s1\<lparr>alloc_calls := Suc (alloc_calls s1), alloc_cnt := Suc (alloc_cnt s1)\<rparr>"
  define s3 where "s3 = s2\<lparr>acache := (acache st)\<lparr>near_array := Some (fresh_words 4 s2)\<rparr>\<rparr>"
  have m: "mem_ok s1" "mem_ok s3" using assms(1) by (simp_all add: s1_def s2_def s3_def mem_ok_def)
  have ac: "acache s1 = acache st" "acache s3 = (acache st)\<lparr>near_array := Some (fresh_words 4 s2)\<rparr>" by (simp_all add: s1_def s3_def)
  let ?ac = "(acache st)\<lparr>near_array := Some (fresh_words 4 s2), same_array := Some (fresh_words 768 (s3\<lparr>alloc_calls := Suc (alloc_calls s3), alloc_cnt := Suc (alloc_cnt s3)\<rparr>))\<rparr>"
  have "xd3_alloc_cache st = (XD3_OK, s3\<lparr>alloc_calls := Suc (alloc_calls s3), alloc_cnt := Suc (alloc_cnt s3), acache := ?ac\<rparr>)"
    using assms(2,3) f1 f alloc_mem_ok [OF m(1), of 4 4] alloc_mem_ok [OF m(2), of 768 4] ac
    by (simp add: xd3_alloc_cache_def Let_def s1_def [symmetric] s2_def [symmetric] s3_def [symmetric])
  then show ?thesis using that [of ?ac f "Suc (alloc_cnt s3)" "Suc (alloc_calls s3)"] assms(2,3)
    by (simp add: cache_room_def fresh_words_def s3_def s2_def s1_def)
qed

text \<open>Freeing changes a counter and releases the target buffers.\<close>

definition freed :: "'a xd3_base_scheme \<Rightarrow> 'a xd3_base_scheme \<Rightarrow> bool" where
  "freed st st' \<longleftrightarrow> (\<exists>f. st' = st\<lparr>free_cnt := f\<rparr>)"

lemma freed_steps:
  "freed st st" "freed st st' \<Longrightarrow> freed st (xd3_free st')" "freed st st' \<Longrightarrow> freed st (xd3_free_opt p st')" "freed st st' \<Longrightarrow> freed st (xd3_free_output pgs st')"
proof -
  show "freed st st" unfolding freed_def by (rule exI [of _ "free_cnt st"]) simp
  show "freed st st' \<Longrightarrow> freed st (xd3_free st')" "freed st st' \<Longrightarrow> freed st (xd3_free_opt p st')" "freed st st' \<Longrightarrow> freed st (xd3_free_output pgs st')"
    by (auto simp: freed_def xd3_free_opt_def xd3_free_def free_output_eq split: option.splits)
qed

lemma freed_iterate: "freed st (((\<lambda>s. xd3_free (xd3_free s)) ^^ n) st)"
  by (induction n) (auto intro: freed_steps)

end
