(* ===== verification/Xd3_Stream_Decode.thy ===== *)
theory Xd3_Stream_Decode
  imports Xd3_File
begin

text \<open>
  The decoder reads whole files: its state machine goes through the header and the windows of a file the encoder
  may have written, and the bytes it has output at the end are the input of the encoder.
\<close>

section \<open>Reading the fields\<close>

definition input_is :: "u8 list \<Rightarrow> 'a xd3_io_scheme \<Rightarrow> bool" where
  "input_is bs st \<longleftrightarrow> next_in st = bs \<and> avail_in st = of_nat (length bs) \<and> length bs < 2 ^ 32 \<and> dec_32part st = 0"

lemma input_avail: "input_is bs st \<Longrightarrow> unat (avail_in st) = length bs"
  using unat_of_nat_small [where 'a = 32, of "length bs"] by (simp add: input_is_def)

text \<open>The stream after the input before \<open>bs\<close> has been read.\<close>

definition read_to :: "u8 list \<Rightarrow> u64 \<Rightarrow> 'a xd3_io_scheme \<Rightarrow> 'a xd3_io_scheme" where
  "read_to bs t st = st\<lparr>total_in := t, avail_in := of_nat (length bs), next_in := bs\<rparr>"

lemma input_read:
  assumes "input_is (xs @ bs) st"
  shows "\<exists>t. DECODE_INPUT (of_nat (length xs)) st = read_to bs t st"
proof -
  have "unat (of_nat (length xs) :: u32) = length xs" using assms by (intro unat_of_nat_small) (simp add: input_is_def)
  then show ?thesis using assms by (auto simp: DECODE_INPUT_def read_to_def input_is_def)
qed

lemma byte_read:
  assumes "input_is (b # bs) st" "\<And>v. next_in (put v st) = next_in st" "\<And>v. avail_in (put v st) = avail_in st"
    and "\<And>v. dec_32part (put v st) = dec_32part st"
  shows "\<exists>t. xd3_decode_byte put st = (XD3_OK, read_to bs t (put (ucast b) st))"
proof -
  have "avail_in st \<noteq> 0" using input_avail [OF assms(1)] by auto
  moreover have "input_is ([b] @ bs) (put (ucast b) st)" using assms by (simp add: input_is_def)
  ultimately show ?thesis using assms input_read [of "[b]" bs "put (ucast b) st"]
    by (simp add: xd3_decode_byte_def input_is_def split: list.splits)
qed

lemma size_read:
  fixes st :: "'a xd3_decoder_scheme"
  assumes "input_is (emit_integer_type n @ bs) st"
  shows "\<exists>t. SIZE_CASE True put ns st = (XD3_OK, (put n (read_to bs t st))\<lparr>dec_state := ns\<rparr>)"
proof -
  let ?e = "emit_integer_type n :: u8 list"
  have i: "next_in st = ?e @ bs" "unat (avail_in st) = length (?e @ bs)" "dec_32part st = 0"
    using input_avail [OF assms] assms by (simp_all add: input_is_def)
  have "read_integer_type UINT32_OFLOW_MASK 0 (?e @ bs) = Inr (n, bs)" by (rule varint32.read_emit)
  then have "decode_integer UINT32_OFLOW_MASK 0 (?e @ bs) (length (?e @ bs)) = (XD3_OK, 0, length ?e, n)"
    using decode_integer_read [of UINT32_OFLOW_MASK 0 "?e @ bs" n bs] by simp
  moreover obtain t where "DECODE_INPUT (of_nat (length ?e)) st = read_to bs t st" using input_read [OF assms] by blast
  moreover have "(read_to bs t st)\<lparr>dec_32part := 0\<rparr> = read_to bs t st" using i(3) by (simp add: read_to_def)
  ultimately show ?thesis using i
    by (auto simp: SIZE_CASE_def xd3_decode_uint32_t_def goto_state_def int_msg_def Let_def simp del: length_append)
qed

lemma bytes_read:
  assumes "input_is (xs @ bs) st" "length xs = 4" "length buf = 4"
  shows "\<exists>t. xd3_decode_bytes buf 0 4 st = (XD3_OK, xs, 4, read_to bs t st)"
proof -
  have l: "unat (avail_in st) = 4 + length bs" using input_avail [OF assms(1)] assms(2) by simp
  then have m: "min 4 (avail_in st) = 4" "avail_in st \<noteq> 0" by (auto simp: min_def word_le_nat_alt)
  have n: "next_in st = xs @ bs" using assms(1) by (simp add: input_is_def)
  obtain t where t: "DECODE_INPUT 4 st = read_to bs t st" using input_read [OF assms(1)] assms(2) by auto
  have w: "write_at buf 0 xs = xs" using assms(2,3) by (simp add: write_at_def)
  have "xd3_decode_bytes buf 0 4 st = xd3_decode_bytes xs 4 4 (DECODE_INPUT 4 st)"
    using m n w assms(2,3) by (subst xd3_decode_bytes.simps) (simp add: Let_def)
  then show ?thesis using t by (subst (asm) (2) xd3_decode_bytes.simps) auto
qed

section \<open>The header of a window\<close>

text \<open>The indicator byte of a window without a source.\<close>

definition win_flags :: "bool \<Rightarrow> u32" where "win_flags ck = (if ck then VCD_ADLER32 else 0)"

lemma win_flags_bits:
  "(ucast (ucast (win_flags ck) :: u8) :: u32) = win_flags ck" "\<not> flag_set (win_flags ck) VCD_INVWIN" "SRCORTGT (win_flags ck) = 0"
  "\<not> flag_set (win_flags ck) VCD_TARGET" "\<not> flag_set (win_flags ck) VCD_SOURCE" "flag_set (win_flags ck) VCD_ADLER32 = ck"
proof -
  have c: "(ucast (ucast (win_flags True) :: u8) :: u32) = win_flags True" "\<not> flag_set (win_flags True) VCD_INVWIN"
    "SRCORTGT (win_flags True) = 0" "\<not> flag_set (win_flags True) VCD_TARGET" "\<not> flag_set (win_flags True) VCD_SOURCE"
    "flag_set (win_flags True) VCD_ADLER32"
    by code_simp+
  have d: "(ucast (ucast (win_flags False) :: u8) :: u32) = win_flags False" "\<not> flag_set (win_flags False) VCD_INVWIN"
    "SRCORTGT (win_flags False) = 0" "\<not> flag_set (win_flags False) VCD_TARGET" "\<not> flag_set (win_flags False) VCD_SOURCE"
    "\<not> flag_set (win_flags False) VCD_ADLER32"
    by code_simp+
  show "(ucast (ucast (win_flags ck) :: u8) :: u32) = win_flags ck" "\<not> flag_set (win_flags ck) VCD_INVWIN" "SRCORTGT (win_flags ck) = 0"
    "\<not> flag_set (win_flags ck) VCD_TARGET" "\<not> flag_set (win_flags ck) VCD_SOURCE" "flag_set (win_flags ck) VCD_ADLER32 = ck"
    using c d by (cases ck; simp)+
qed

lemma be_bytes_adler: "be_bytes (adler_bytes v) x = v"
proof (rule bit_word_eqI)
  have m: "(0xFF :: u32) = mask 8" by (simp add: mask_eq_exp_minus_1)
  fix n assume n: "n < LENGTH(32)"
  then consider "n < 8" | "8 \<le> n" "n < 16" | "16 \<le> n" "n < 24" | "24 \<le> n" "n < 32" by fastforce
  then show "bit (be_bytes (adler_bytes v) x) n = bit v n"
    using n by cases (auto simp: adler_bytes_def m bit_simps)
qed

text \<open>The fields one after the other: each step reads its field and hands on to the next.\<close>

lemma read_lengths:
  fixes st :: "'a xd3_decoder_scheme"
  shows "input_is (emit_integer_type n @ bs) st \<Longrightarrow>
      \<exists>t. dec_addrlen st = dec_checksum ((read_to bs t st)\<lparr>addr_sect := (addr_sect st)\<lparr>sect_size := n\<rparr>, dec_state := DEC_CKSUM\<rparr>)"
    and "input_is (emit_integer_type n @ bs) st \<Longrightarrow>
      \<exists>t. dec_instlen st = dec_addrlen ((read_to bs t st)\<lparr>inst_sect := (inst_sect st)\<lparr>sect_size := n\<rparr>, dec_state := DEC_ADDRLEN\<rparr>)"
    and "input_is (emit_integer_type n @ bs) st \<Longrightarrow>
      \<exists>t. dec_datalen st = dec_instlen ((read_to bs t st)\<lparr>data_sect := (data_sect st)\<lparr>sect_size := n\<rparr>, dec_state := DEC_INSTLEN\<rparr>)"
    and "input_is (0 # bs) st \<Longrightarrow>
      \<exists>t. dec_delind st = dec_datalen ((read_to bs t (st\<lparr>dec_del_ind := 0\<rparr>))\<lparr>dec_state := DEC_DATALEN\<rparr>)"
    and "input_is (emit_integer_type n @ bs) st \<Longrightarrow> dec_cpylen st = 0 \<Longrightarrow> n \<le> XD3_HARDMAXWINSIZE \<Longrightarrow>
      \<exists>t. dec_tgtlength st = dec_delind ((read_to bs t st)\<lparr>dec_tgtlen := n, dec_state := DEC_DELIND, dec_maxpos := n\<rparr>)"
    and "input_is (emit_integer_type n @ bs) st \<Longrightarrow>
      \<exists>t. dec_enclength st = dec_tgtlength ((read_to bs t st)\<lparr>dec_enclen := n, dec_state := DEC_TGTLEN\<rparr>)"
proof -
  assume i: "input_is (emit_integer_type n @ bs) st"
  show "\<exists>t. dec_addrlen st = dec_checksum ((read_to bs t st)\<lparr>addr_sect := (addr_sect st)\<lparr>sect_size := n\<rparr>, dec_state := DEC_CKSUM\<rparr>)"
    "\<exists>t. dec_instlen st = dec_addrlen ((read_to bs t st)\<lparr>inst_sect := (inst_sect st)\<lparr>sect_size := n\<rparr>, dec_state := DEC_ADDRLEN\<rparr>)"
    "\<exists>t. dec_datalen st = dec_instlen ((read_to bs t st)\<lparr>data_sect := (data_sect st)\<lparr>sect_size := n\<rparr>, dec_state := DEC_INSTLEN\<rparr>)"
    "\<exists>t. dec_enclength st = dec_tgtlength ((read_to bs t st)\<lparr>dec_enclen := n, dec_state := DEC_TGTLEN\<rparr>)"
    using size_read [OF i, of "\<lambda>v s. s\<lparr>addr_sect := (addr_sect s)\<lparr>sect_size := v\<rparr>\<rparr>" DEC_CKSUM]
      size_read [OF i, of "\<lambda>v s. s\<lparr>inst_sect := (inst_sect s)\<lparr>sect_size := v\<rparr>\<rparr>" DEC_ADDRLEN]
      size_read [OF i, of "\<lambda>v s. s\<lparr>data_sect := (data_sect s)\<lparr>sect_size := v\<rparr>\<rparr>" DEC_INSTLEN]
      size_read [OF i, of "\<lambda>v s. s\<lparr>dec_enclen := v\<rparr>" DEC_TGTLEN]
    by (auto simp: dec_addrlen_def dec_instlen_def dec_datalen_def dec_enclength_def read_to_def)
  assume "dec_cpylen st = 0" "n \<le> XD3_HARDMAXWINSIZE"
  then show "\<exists>t. dec_tgtlength st = dec_delind ((read_to bs t st)\<lparr>dec_tgtlen := n, dec_state := DEC_DELIND, dec_maxpos := n\<rparr>)"
    using size_read [OF i, of "\<lambda>v s. s\<lparr>dec_tgtlen := v\<rparr>" DEC_DELIND]
    using unat_u32_less [of n] by (auto simp: dec_tgtlength_def read_to_def usize_overflow_iff not_less [symmetric])
next
  assume "input_is (0 # bs) st"
  from byte_read [OF this, of "\<lambda>v s. s\<lparr>dec_del_ind := v\<rparr>"]
  show "\<exists>t. dec_delind st = dec_datalen ((read_to bs t (st\<lparr>dec_del_ind := 0\<rparr>))\<lparr>dec_state := DEC_DATALEN\<rparr>)"
    by (auto simp: dec_delind_def BYTE_CASE_def goto_state_def read_to_def flag_set_def)
qed

text \<open>The decoder once the lengths and the checksum of a window are in.\<close>

definition window_read :: "bool \<Rightarrow> u8 list \<Rightarrow> sections \<Rightarrow> u8 list \<Rightarrow> 'a xd3_decoder_scheme \<Rightarrow> 'a xd3_decoder_scheme \<Rightarrow> bool" where
  "window_read ck inp sec bs st st' \<longleftrightarrow> (case sec of (i, a, d) \<Rightarrow>
    (\<exists>t c x b v. st' = (read_to bs t st)\<lparr>dec_win_ind := win_flags ck, current_window := dec_window_count st,
       dec_winstart := dec_winstart st + ucast (dec_tgtlen st), dec_cpylen := 0, dec_cpyoff := 0, dec_cksumbytes := c,
       acache := default_cache, dec_position := 0, dec_enclen := x, dec_tgtlen := of_nat (length inp), dec_maxpos := of_nat (length inp),
       dec_del_ind := 0, data_sect := (data_sect st)\<lparr>sect_size := of_nat (length d)\<rparr>,
       inst_sect := (inst_sect st)\<lparr>sect_size := of_nat (length i)\<rparr>, addr_sect := (addr_sect st)\<lparr>sect_size := of_nat (length a)\<rparr>,
       dec_cksum := b, dec_adler32 := v, dec_state := DEC_DATA\<rparr> \<and> length b = 4 \<and> (ck \<longrightarrow> v = of_nat (vadler inp))))"

lemma read_checksum:
  fixes st :: "'a xd3_decoder_scheme"
  assumes "input_is ((if ck then adler_bytes v else []) @ bs) st" "dec_win_ind st = win_flags ck" "dec_cksumbytes st = 0"
    "length (dec_cksum st) = 4" "dec_enclen st = enclen_check st"
  shows "\<exists>t c b x r. dec_checksum st = (r, (read_to bs t st)\<lparr>dec_cksumbytes := c, dec_cksum := b, dec_adler32 := x, dec_state := DEC_DATA\<rparr>)
    \<and> length b = 4 \<and> (ck \<longrightarrow> x = v) \<and> (r = XD3_GOTHEADER \<or> r = XD3_WINSTART)"
proof -
  have ec: "enclen_check (st\<lparr>total_in := t, avail_in := w, next_in := y, dec_cksum := b, dec_cksumbytes := c, dec_adler32 := z, dec_state := e\<rparr>)
      = enclen_check st" "enclen_check (st\<lparr>dec_state := e\<rparr>) = enclen_check st" for t w y b c z e
    by (simp_all add: enclen_check_def)
  show ?thesis
  proof (cases ck)
    case True
    have l: "length (adler_bytes v) = 4" by (simp add: adler_bytes_def)
    obtain t where t: "xd3_decode_bytes (dec_cksum st) 0 4 st = (XD3_OK, adler_bytes v, 4, read_to bs t st)"
      using bytes_read [OF _ l assms(4), of bs st] assms(1) True by auto
    have f: "flag_set (dec_win_ind st) VCD_ADLER32" using True win_flags_bits(6) assms(2) by simp
    define r where "r = (if current_window st = 0 then XD3_GOTHEADER else XD3_WINSTART)"
    have "dec_checksum st = (r, (read_to bs t st)\<lparr>dec_cksumbytes := 4, dec_cksum := adler_bytes v, dec_adler32 := v, dec_state := DEC_DATA\<rparr>)"
      using t f assms(3,5) l by (simp add: dec_checksum_def be_bytes_adler Let_def read_to_def ec r_def)
    moreover have "r = XD3_GOTHEADER \<or> r = XD3_WINSTART" by (simp add: r_def)
    ultimately show ?thesis using l by blast
  next
    case False
    have f: "\<not> flag_set (dec_win_ind st) VCD_ADLER32" using False win_flags_bits(6) assms(2) by simp
    define r where "r = (if current_window st = 0 then XD3_GOTHEADER else XD3_WINSTART)"
    have "read_to bs (total_in st) st = st" using assms(1) False by (simp add: read_to_def input_is_def)
    then have "dec_checksum st = (r, (read_to bs (total_in st) st)\<lparr>dec_cksumbytes := dec_cksumbytes st, dec_cksum := dec_cksum st,
        dec_adler32 := dec_adler32 st, dec_state := DEC_DATA\<rparr>)"
      using f assms(5) by (simp add: dec_checksum_def Let_def ec r_def)
    moreover have "r = XD3_GOTHEADER \<or> r = XD3_WINSTART" by (simp add: r_def)
    ultimately show ?thesis using assms(4) False by blast
  qed
qed

lemma read_window_header:
  fixes st :: "'a xd3_decoder_scheme"
  assumes "input_is (window_bytes ck inp (i, a, d) @ rest) st" "cache_room (acache st)" "length (dec_cksum st) = 4"
    and "length inp \<le> unat XD3_HARDMAXWINSIZE" "unat (dec_winstart st) + unat (dec_tgtlen st) < 2 ^ 64"
  shows "\<exists>r st'. dec_winind st = (r, st') \<and> (r = XD3_GOTHEADER \<or> r = XD3_WINSTART) \<and> window_read ck inp (i, a, d) (d @ i @ a @ rest) st st'"
proof -
  define al il dl n el :: u32 where "al = of_nat (length a)" and "il = of_nat (length i)" and "dl = of_nat (length d)"
    and "n = of_nat (length inp)" and "el = enc_len (of_nat (length inp)) dl il al ck"
  define b7 where "b7 = (if ck then adler_bytes (of_nat (vadler inp)) else []) @ d @ i @ a @ rest"
  define b6 where "b6 = emit_integer_type al @ b7"
  define b5 where "b5 = emit_integer_type il @ b6"
  define b4 where "b4 = emit_integer_type dl @ b5"
  define b3 where "b3 = emit_integer_type n @ 0 # b4"
  define b2 where "b2 = emit_integer_type el @ b3"
  have "window_bytes ck inp (i, a, d) @ rest = ucast (win_flags ck) # b2"
    by (simp add: window_bytes_def window_lengths_def b2_def b3_def b4_def b5_def b6_def b7_def al_def il_def dl_def n_def el_def win_flags_def)
  then have in0: "input_is (ucast (win_flags ck) # b2) st" using assms(1) by simp
  then have short: "length b2 < 2 ^ 32" by (simp add: input_is_def)
  have z: "dec_32part st = 0" using in0 by (simp add: input_is_def)
  have n: "unat n = length inp" using assms(4) by (simp add: n_def unat_of_nat_small XD3_HARDMAXWINSIZE_def)
  obtain t1 where s1: "xd3_decode_byte (\<lambda>v s. s\<lparr>dec_win_ind := v\<rparr>) st = (XD3_OK, read_to b2 t1 (st\<lparr>dec_win_ind := win_flags ck\<rparr>))"
    using byte_read [OF in0, of "\<lambda>v s. s\<lparr>dec_win_ind := v\<rparr>"] win_flags_bits(1) [of ck] by auto
  define s2 where "s2 = (read_to b2 t1 (st\<lparr>dec_win_ind := win_flags ck\<rparr>))\<lparr>current_window := dec_window_count st,
      dec_winstart := dec_winstart st + ucast (dec_tgtlen st), dec_cpylen := 0, dec_cpyoff := 0, dec_cksumbytes := 0, acache := default_cache,
      dec_position := 0, dec_state := DEC_ENCLEN\<rparr>"
  note si = input_is_def read_to_def
  have e1: "dec_winind st = dec_enclength s2"
    using s1 assms(2,5) win_flags_bits [of ck]
    by (simp add: dec_winind_def read_to_def xoff_overflow_iff xd3_decode_init_window_def init_cache_default dec_cpylength_def dec_cpyoffset_def
      SIZE_CASE_def OFFSET_CASE_def goto_state_def s2_def)
  have "input_is (emit_integer_type el @ b3) s2" using short z by (simp add: s2_def si b2_def)
  then obtain t2 where e2: "dec_enclength s2 = dec_tgtlength ((read_to b3 t2 s2)\<lparr>dec_enclen := el, dec_state := DEC_TGTLEN\<rparr>)"
    using read_lengths(6) by blast
  define s3 where "s3 = (read_to b3 t2 s2)\<lparr>dec_enclen := el, dec_state := DEC_TGTLEN\<rparr>"
  have "input_is (emit_integer_type n @ 0 # b4) s3" using short z by (simp add: s3_def s2_def si b3_def b2_def)
  moreover have "dec_cpylen s3 = 0" "n \<le> XD3_HARDMAXWINSIZE" using assms(4) n by (simp_all add: s3_def s2_def si word_le_nat_alt)
  ultimately obtain t3 where e3: "dec_tgtlength s3 = dec_delind ((read_to (0 # b4) t3 s3)\<lparr>dec_tgtlen := n, dec_state := DEC_DELIND, dec_maxpos := n\<rparr>)"
    using read_lengths(5) by blast
  define s4 where "s4 = (read_to (0 # b4) t3 s3)\<lparr>dec_tgtlen := n, dec_state := DEC_DELIND, dec_maxpos := n\<rparr>"
  have "input_is (0 # b4) s4" using short z by (simp add: s4_def s3_def s2_def si b3_def b2_def)
  then obtain t4 where e4: "dec_delind s4 = dec_datalen ((read_to b4 t4 (s4\<lparr>dec_del_ind := 0\<rparr>))\<lparr>dec_state := DEC_DATALEN\<rparr>)"
    using read_lengths(4) by blast
  define s5 where "s5 = (read_to b4 t4 (s4\<lparr>dec_del_ind := 0\<rparr>))\<lparr>dec_state := DEC_DATALEN\<rparr>"
  have "input_is (emit_integer_type dl @ b5) s5" using short z by (simp add: s5_def s4_def s3_def s2_def si b4_def b3_def b2_def)
  then obtain t5 where e5: "dec_datalen s5 = dec_instlen ((read_to b5 t5 s5)\<lparr>data_sect := (data_sect s5)\<lparr>sect_size := dl\<rparr>, dec_state := DEC_INSTLEN\<rparr>)"
    using read_lengths(3) by blast
  define s6 where "s6 = (read_to b5 t5 s5)\<lparr>data_sect := (data_sect s5)\<lparr>sect_size := dl\<rparr>, dec_state := DEC_INSTLEN\<rparr>"
  have "input_is (emit_integer_type il @ b6) s6"
    using short z by (simp add: s6_def s5_def s4_def s3_def s2_def si b5_def b4_def b3_def b2_def)
  then obtain t6 where e6: "dec_instlen s6 = dec_addrlen ((read_to b6 t6 s6)\<lparr>inst_sect := (inst_sect s6)\<lparr>sect_size := il\<rparr>, dec_state := DEC_ADDRLEN\<rparr>)"
    using read_lengths(2) by blast
  define s7 where "s7 = (read_to b6 t6 s6)\<lparr>inst_sect := (inst_sect s6)\<lparr>sect_size := il\<rparr>, dec_state := DEC_ADDRLEN\<rparr>"
  have "input_is (emit_integer_type al @ b7) s7"
    using short z by (simp add: s7_def s6_def s5_def s4_def s3_def s2_def si b6_def b5_def b4_def b3_def b2_def)
  then obtain t7 where e7: "dec_addrlen s7 = dec_checksum ((read_to b7 t7 s7)\<lparr>addr_sect := (addr_sect s7)\<lparr>sect_size := al\<rparr>, dec_state := DEC_CKSUM\<rparr>)"
    using read_lengths(1) by blast
  define s8 where "s8 = (read_to b7 t7 s7)\<lparr>addr_sect := (addr_sect s7)\<lparr>sect_size := al\<rparr>, dec_state := DEC_CKSUM\<rparr>"
  note s8 = s8_def s7_def s6_def s5_def s4_def s3_def s2_def
  have "input_is b7 s8" using short z by (simp add: s8 si b6_def b5_def b4_def b3_def b2_def)
  moreover have "dec_win_ind s8 = win_flags ck" "dec_cksumbytes s8 = 0" "length (dec_cksum s8) = 4" "dec_enclen s8 = enclen_check s8"
    using assms(3) win_flags_bits(6) [of ck] by (simp_all add: s8 read_to_def enclen_check_def el_def enc_len_def n_def)
  ultimately obtain t8 c b x r where e8: "dec_checksum s8 = (r, (read_to (d @ i @ a @ rest) t8 s8)\<lparr>dec_cksumbytes := c, dec_cksum := b,
        dec_adler32 := x, dec_state := DEC_DATA\<rparr>)" "length b = 4" "ck \<longrightarrow> x = of_nat (vadler inp)" "r = XD3_GOTHEADER \<or> r = XD3_WINSTART"
    using read_checksum [of ck "of_nat (vadler inp)" "d @ i @ a @ rest" s8] by (auto simp: b7_def)
  have "dec_winind st = dec_checksum s8"
    using e1 e2 [folded s3_def] e3 [folded s4_def] e4 [folded s5_def] e5 [folded s6_def] e6 [folded s7_def] e7 [folded s8_def] by simp
  moreover have "window_read ck inp (i, a, d) (d @ i @ a @ rest) st
      ((read_to (d @ i @ a @ rest) t8 s8)\<lparr>dec_cksumbytes := c, dec_cksum := b, dec_adler32 := x, dec_state := DEC_DATA\<rparr>)"
    unfolding window_read_def prod.case s8 n_def dl_def il_def al_def
    by (intro exI [of _ t8] exI [of _ c] exI [of _ el] exI [of _ b] exI [of _ x] conjI e8(2,3)) (simp add: read_to_def)
  ultimately show ?thesis using e8(1,4) by auto
qed

section \<open>Sections and buffers\<close>

text \<open>A section that has arrived completely is taken from the input without a copy.\<close>

lemma section_read:
  fixes st :: "'a xd3_decoder_scheme"
  assumes "input_is (xs @ bs) st" "sect_pos (get st) = 0" "sect_size (get st) = of_nat (length xs)"
    and get: "\<And>m s. get (DECODE_INPUT m s) = get s" "\<And>n s. get (s\<lparr>dec_winbytes := n\<rparr>) = get s"
  shows "\<exists>t n. xd3_decode_section get upd ns False st
    = (XD3_OK, upd ((get st)\<lparr>sect_buf := xs, sect_pos := 0\<rparr>) ((read_to bs t st)\<lparr>dec_winbytes := n, dec_state := ns\<rparr>))"
proof -
  have u: "unat (of_nat (length xs) :: u32) = length xs" using assms(1) by (intro unat_of_nat_small) (simp add: input_is_def)
  then have pos: "(0 :: u32) < of_nat (length xs) \<longleftrightarrow> xs \<noteq> []" by (simp add: word_less_nat_alt)
  have nx: "next_in st = xs @ bs" using assms(1) by (simp add: input_is_def)
  show ?thesis
  proof (cases "xs = []")
    case True
    then have "read_to bs (total_in st) st = st" using assms(1) by (simp add: read_to_def input_is_def)
    then show ?thesis using True pos assms(2,3)
      by (intro exI [of _ "total_in st"] exI [of _ "dec_winbytes st"]) (simp add: xd3_decode_section_def Let_def)
  next
    case False
    obtain t where t: "DECODE_INPUT (of_nat (length xs)) st = read_to bs t st" using input_read [OF assms(1)] by blast
    have w: "DECODE_INPUT m (st\<lparr>dec_winbytes := n\<rparr>) = (DECODE_INPUT m st)\<lparr>dec_winbytes := n\<rparr>" for m n by (simp add: DECODE_INPUT_def)
    have "get ((read_to bs t st)\<lparr>dec_winbytes := n\<rparr>) = get st" for n using get [of _ st] get(2) [of _ "read_to bs t st"] t by metis
    moreover have "avail_in st \<noteq> 0" using False input_avail [OF assms(1)] by auto
    ultimately show ?thesis using False pos nx u t assms(2,3)
      by (intro exI [of _ t] exI [of _ "dec_winbytes st + of_nat (length xs)"]) (simp add: xd3_decode_section_def Let_def w)
  qed
qed

lemma sections_read:
  fixes st :: "'a xd3_decoder_scheme"
  assumes "input_is (d @ i @ a @ rest) st" "dec_state st = DEC_DATA" "dec_winbytes st = 0"
    and pos: "sect_pos (data_sect st) = 0" "sect_pos (inst_sect st) = 0" "sect_pos (addr_sect st) = 0"
    and sz: "sect_size (data_sect st) = of_nat (length d)" "sect_size (inst_sect st) = of_nat (length i)" "sect_size (addr_sect st) = of_nat (length a)"
    and fl: "\<not> flag_set (flags st) XD3_JUST_HDR" "\<not> flag_set (flags st) XD3_SKIP_WINDOW" "\<not> flag_set (flags st) XD3_SKIP_EMIT"
  shows "\<exists>t n. xd3_decode_sections st = xd3_decode_setup_buffers ((read_to rest t st)\<lparr>dec_winbytes := n,
      data_sect := (data_sect st)\<lparr>sect_buf := d, sect_pos := 0\<rparr>, inst_sect := (inst_sect st)\<lparr>sect_buf := i, sect_pos := 0\<rparr>,
      addr_sect := (addr_sect st)\<lparr>sect_buf := a, sect_pos := 0\<rparr>, dec_state := DEC_EMIT\<rparr>)"
proof -
  define need where "need = sect_size (inst_sect st) + sect_size (addr_sect st) + sect_size (data_sect st) - dec_winbytes st"
  have "need = of_nat (length d + length i + length a)" using assms(3) sz by (simp add: need_def)
  moreover have "length d + length i + length a < 2 ^ 32" using assms(1) by (simp add: input_is_def)
  ultimately have "unat need = length d + length i + length a" by (simp only:) (rule unat_of_nat_small, simp)
  then have copy: "min need (avail_in st) = need" using input_avail [OF assms(1)] by (simp add: min_def word_le_nat_alt)
  obtain t1 n1 where r1: "xd3_decode_section data_sect upd_data_sect DEC_INST False st = (XD3_OK,
      upd_data_sect ((data_sect st)\<lparr>sect_buf := d, sect_pos := 0\<rparr>) ((read_to (i @ a @ rest) t1 st)\<lparr>dec_winbytes := n1, dec_state := DEC_INST\<rparr>))"
    using section_read [of d "i @ a @ rest" st data_sect upd_data_sect DEC_INST] assms(1) pos sz by (auto simp: DECODE_INPUT_def)
  define s1 where "s1 = upd_data_sect ((data_sect st)\<lparr>sect_buf := d, sect_pos := 0\<rparr>) ((read_to (i @ a @ rest) t1 st)\<lparr>dec_winbytes := n1, dec_state := DEC_INST\<rparr>)"
  note si = input_is_def read_to_def upd_data_sect_def upd_inst_sect_def upd_addr_sect_def
  have "input_is (i @ (a @ rest)) s1" "sect_pos (inst_sect s1) = 0" "sect_size (inst_sect s1) = of_nat (length i)"
    using assms(1) pos sz by (simp_all add: s1_def si)
  from section_read [where get = inst_sect, OF this, of upd_inst_sect DEC_ADDR] obtain t2 n2 where r2: "xd3_decode_section inst_sect upd_inst_sect DEC_ADDR False s1 = (XD3_OK,
      upd_inst_sect ((inst_sect s1)\<lparr>sect_buf := i, sect_pos := 0\<rparr>) ((read_to (a @ rest) t2 s1)\<lparr>dec_winbytes := n2, dec_state := DEC_ADDR\<rparr>))"
    by (auto simp: DECODE_INPUT_def)
  define s2 where "s2 = upd_inst_sect ((inst_sect s1)\<lparr>sect_buf := i, sect_pos := 0\<rparr>) ((read_to (a @ rest) t2 s1)\<lparr>dec_winbytes := n2, dec_state := DEC_ADDR\<rparr>)"
  have "input_is (a @ rest) s2" "sect_pos (addr_sect s2) = 0" "sect_size (addr_sect s2) = of_nat (length a)"
    using assms(1) pos sz by (simp_all add: s2_def s1_def si)
  from section_read [where get = addr_sect, OF this, of upd_addr_sect DEC_EMIT] obtain t3 n3 where r3: "xd3_decode_section addr_sect upd_addr_sect DEC_EMIT False s2 = (XD3_OK,
      upd_addr_sect ((addr_sect s2)\<lparr>sect_buf := a, sect_pos := 0\<rparr>) ((read_to rest t3 s2)\<lparr>dec_winbytes := n3, dec_state := DEC_EMIT\<rparr>))"
    by (auto simp: DECODE_INPUT_def)
  define s3 where "s3 = upd_addr_sect ((addr_sect s2)\<lparr>sect_buf := a, sect_pos := 0\<rparr>) ((read_to rest t3 s2)\<lparr>dec_winbytes := n3, dec_state := DEC_EMIT\<rparr>)"
  have s3: "s3 = (read_to rest t3 st)\<lparr>dec_winbytes := n3,
      data_sect := (data_sect st)\<lparr>sect_buf := d, sect_pos := 0\<rparr>, inst_sect := (inst_sect st)\<lparr>sect_buf := i, sect_pos := 0\<rparr>,
      addr_sect := (addr_sect st)\<lparr>sect_buf := a, sect_pos := 0\<rparr>, dec_state := DEC_EMIT\<rparr>"
    by (simp add: s3_def s2_def s1_def si)
  have "sections_data False st = (XD3_OK, s3)"
    unfolding sections_data_def r1 [folded s1_def] bind_ok_simps(1) sections_inst_def bind_ok_simps(1) r2 [folded s2_def] sections_addr_def r3 [folded s3_def] by simp
  moreover have "flags s3 = flags st" by (simp add: s3 read_to_def)
  ultimately have "xd3_decode_sections st = xd3_decode_setup_buffers s3"
    using fl assms(2) copy unfolding xd3_decode_sections_def Let_def need_def [symmetric] by (simp add: xd3_decode_secondary_sections_def)
  then show ?thesis unfolding s3 by blast
qed

text \<open>The target buffer between windows: a live block of at least \<open>space_out\<close> bytes, or none yet.\<close>

definition out_live :: "'a xd3_decoder_scheme \<Rightarrow> bool" where
  "out_live st \<longleftrightarrow> dec_buffer st = next_out st \<and> (case next_out st of
       None \<Rightarrow> space_out st = 0
     | Some h \<Rightarrow> (\<exists>buf. out_heap st h = Some buf \<and> unat (space_out st) \<le> length buf \<and> length buf < 2 ^ 32))"

lemma buffer_size:
  assumes "unat n \<le> unat XD3_HARDMAXWINSIZE"
  shows "unat n \<le> unat (xd3_round_blksize n XD3_ALLOCSIZE)"
proof -
  have "unat n + 16384 \<le> 4294967296" using assms by (simp add: XD3_HARDMAXWINSIZE_def)
  then have "unat (xd3_round_blksize n XD3_ALLOCSIZE) = (unat n + 16383) div 16384 * 16384"
    using unat_round_blksize [of 14 n] by (simp add: XD3_ALLOCSIZE_def)
  then show ?thesis by simp
qed

lemma buffers_set_up:
  fixes st :: "'a xd3_decoder_scheme"
  assumes "\<not> flag_set (dec_win_ind st) VCD_TARGET" "mem_ok st" "out_live st" "dec_tgtlen st \<noteq> 0" "unat (dec_tgtlen st) \<le> unat XD3_HARDMAXWINSIZE"
  shows "\<exists>c n f sp h hp buf. xd3_decode_setup_buffers st = (XD3_OK, st\<lparr>alloc_calls := c, alloc_cnt := n, free_cnt := f, space_out := sp,
      dec_buffer := Some h, next_out := Some h, out_heap := hp, dec_tgtaddrbase := (Some h, dec_cpylen st)\<rparr>)
    \<and> hp h = Some buf \<and> unat (dec_tgtlen st) \<le> length buf \<and> unat sp \<le> length buf \<and> length buf < 2 ^ 32"
proof (cases "space_out st < dec_tgtlen st")
  case False
  then obtain h buf where h: "next_out st = Some h" "dec_buffer st = Some h" "out_heap st h = Some buf" "unat (space_out st) \<le> length buf"
    "length buf < 2 ^ 32" using assms(3,4) by (auto simp: out_live_def word_less_nat_alt unat_eq_0 split: option.splits)
  then have "xd3_decode_setup_buffers st = (XD3_OK, st\<lparr>alloc_calls := alloc_calls st, alloc_cnt := alloc_cnt st, free_cnt := free_cnt st,
      space_out := space_out st, dec_buffer := Some h, next_out := Some h, out_heap := out_heap st, dec_tgtaddrbase := (Some h, dec_cpylen st)\<rparr>)"
    using False assms(1) by (simp add: xd3_decode_setup_buffers_def)
  moreover have "unat (dec_tgtlen st) \<le> length buf" using False h(4) by (simp add: word_less_nat_alt)
  ultimately show ?thesis using h by blast
next
  case True
  define m where "m = xd3_round_blksize (dec_tgtlen st) XD3_ALLOCSIZE"
  obtain f hp where fr: "free_out (dec_buffer st) st = (XD3_OK, st\<lparr>free_cnt := f, out_heap := hp\<rparr>)"
  proof (cases "dec_buffer st")
    case None
    then show ?thesis using that [of "out_heap st" "free_cnt st"] by (simp add: free_out_def)
  next
    case (Some h)
    then obtain buf where "out_heap st h = Some buf" using assms(3) by (auto simp: out_live_def split: option.splits)
    then show ?thesis using that [of "(out_heap st)(h := None)" "Suc (free_cnt st)"] Some by (simp add: free_out_def xd3_free_def)
  qed
  let ?s = "st\<lparr>free_cnt := f, out_heap := hp, space_out := m\<rparr>"
  have "mem_ok ?s" using assms(2) by (simp add: mem_ok_def)
  note al = alloc_mem_ok [OF this, of m 1]
  have "xd3_decode_setup_buffers st = (XD3_OK, st\<lparr>alloc_calls := Suc (alloc_calls st), alloc_cnt := Suc (alloc_cnt st), free_cnt := f,
      space_out := m, dec_buffer := Some (alloc_calls st), next_out := Some (alloc_calls st),
      out_heap := hp(alloc_calls st \<mapsto> map (uninit st) [0 ..< unat m]), dec_tgtaddrbase := (Some (alloc_calls st), dec_cpylen st)\<rparr>)"
    using True assms(1) fr al by (simp add: xd3_decode_setup_buffers_def m_def [symmetric] Let_def fresh_block_def)
  moreover have "unat (dec_tgtlen st) \<le> unat m" using buffer_size [OF assms(5)] by (simp add: m_def)
  ultimately show ?thesis using unat_u32_less [of m]
    by (intro exI [of _ "Suc (alloc_calls st)"] exI [of _ "Suc (alloc_cnt st)"] exI [of _ f] exI [of _ m] exI [of _ "alloc_calls st"]
      exI [of _ "hp(alloc_calls st \<mapsto> map (uninit st) [0 ..< unat m])"] exI [of _ "map (uninit st) [0 ..< unat m]"]) simp
qed

section \<open>A window\<close>

text \<open>The decoder between two windows, with \<open>bs\<close> left to read and \<open>n\<close> bytes written.\<close>

definition dec_idle :: "nat \<Rightarrow> u8 list \<Rightarrow> 'a xd3_decoder_scheme \<Rightarrow> bool" where
  "dec_idle n bs st \<longleftrightarrow> input_is bs st \<and> enc_state st = ENC_INIT \<and> dec_state st = DEC_WININD \<and> flags st = XD3_FLUSH \<and> mem_ok st
     \<and> cache_room (acache st) \<and> code_table st = Some xd3_rfc3284_code_table \<and> length (dec_cksum st) = 4 \<and> avail_out st = 0
     \<and> no_pending st \<and> dec_winbytes st = 0 \<and> sect_pos (data_sect st) = 0 \<and> sect_pos (inst_sect st) = 0 \<and> sect_pos (addr_sect st) = 0
     \<and> out_live st \<and> dec_lastwin st = None \<and> unat (dec_winstart st) + unat (dec_tgtlen st) = n"

text \<open>After its header has been read, and after its target has been written.\<close>

definition dec_loaded :: "nat \<Rightarrow> bool \<Rightarrow> u8 list \<Rightarrow> sections \<Rightarrow> u8 list \<Rightarrow> 'a xd3_decoder_scheme \<Rightarrow> bool" where
  "dec_loaded n ck inp sec bs st \<longleftrightarrow> (case sec of (i, a, d) \<Rightarrow> input_is (d @ i @ a @ bs) st
     \<and> sect_size (data_sect st) = of_nat (length d) \<and> sect_size (inst_sect st) = of_nat (length i) \<and> sect_size (addr_sect st) = of_nat (length a))
     \<and> enc_state st = ENC_INIT \<and> dec_state st = DEC_DATA \<and> flags st = XD3_FLUSH \<and> mem_ok st
     \<and> acache st = default_cache \<and> code_table st = Some xd3_rfc3284_code_table \<and> length (dec_cksum st) = 4 \<and> avail_out st = 0
     \<and> no_pending st \<and> dec_winbytes st = 0 \<and> sect_pos (data_sect st) = 0 \<and> sect_pos (inst_sect st) = 0 \<and> sect_pos (addr_sect st) = 0
     \<and> out_live st \<and> dec_lastwin st = None \<and> dec_win_ind st = win_flags ck \<and> dec_cpylen st = 0 \<and> dec_position st = 0
     \<and> unat (dec_winstart st) = n \<and> dec_tgtlen st = of_nat (length inp) \<and> dec_maxpos st = of_nat (length inp)
     \<and> (ck \<longrightarrow> dec_adler32 st = of_nat (vadler inp))"

definition dec_written :: "nat \<Rightarrow> u8 list \<Rightarrow> u8 list \<Rightarrow> 'a xd3_decoder_scheme \<Rightarrow> bool" where
  "dec_written n inp bs st \<longleftrightarrow> input_is bs st \<and> enc_state st = ENC_INIT \<and> dec_state st = DEC_FINISH \<and> flags st = XD3_FLUSH \<and> mem_ok st
     \<and> cache_room (acache st) \<and> code_table st = Some xd3_rfc3284_code_table \<and> length (dec_cksum st) = 4
     \<and> no_pending st \<and> dec_winbytes st = 0 \<and> sect_pos (data_sect st) = 0 \<and> sect_pos (inst_sect st) = 0 \<and> sect_pos (addr_sect st) = 0
     \<and> out_live st \<and> dec_lastwin st = None \<and> \<not> flag_set (dec_win_ind st) VCD_TARGET
     \<and> unat (dec_winstart st) + unat (dec_tgtlen st) = n \<and> avail_out st = of_nat (length inp) \<and> out_window st = inp"

lemma idle_loads:
  fixes st :: "'a xd3_decoder_scheme"
  assumes "dec_idle n (window_bytes ck inp sec @ bs) st" "length inp \<le> unat XD3_HARDMAXWINSIZE" "n < 2 ^ 64"
  shows "\<exists>r st'. dec_winind st = (r, st') \<and> (r = XD3_GOTHEADER \<or> r = XD3_WINSTART) \<and> dec_loaded n ck inp sec bs st'"
proof -
  obtain i a d where sec: "sec = (i, a, d)" by (metis prod_cases3)
  note idl = assms(1) [unfolded dec_idle_def sec]
  then obtain r st' where r: "dec_winind st = (r, st')" "r = XD3_GOTHEADER \<or> r = XD3_WINSTART"
    "window_read ck inp (i, a, d) (d @ i @ a @ bs) st st'"
    using read_window_header [of ck inp i a d bs st] assms(2,3) by blast
  have w: "unat (dec_winstart st + ucast (dec_tgtlen st)) = n" using idl assms(3) by (subst unat_add_u64) simp_all
  have "input_is (d @ i @ a @ bs) (read_to (d @ i @ a @ bs) t st)" for t
    using idl by (auto simp: input_is_def read_to_def window_bytes_def)
  then have "dec_loaded n ck inp (i, a, d) bs st'"
    using r(3) idl w by (auto simp: window_read_def dec_loaded_def input_is_def read_to_def mem_ok_def out_live_def no_pending_def
      split: option.splits)
  then show ?thesis using r sec by blast
qed

lemma no_skip_flags:
  "\<not> flag_set XD3_FLUSH XD3_JUST_HDR" "\<not> flag_set XD3_FLUSH XD3_SKIP_WINDOW" "\<not> flag_set XD3_FLUSH XD3_SKIP_EMIT"
  "\<not> flag_set XD3_FLUSH XD3_ADLER32_NOVER"
  by code_simp+

lemma loaded_writes:
  fixes st :: "'a xd3_decoder_scheme"
  assumes ld: "dec_loaded n ck inp sec bs st" and inp: "0 < length inp" "length inp \<le> unat XD3_HARDMAXWINSIZE"
    and run: "vrun xd3_rfc3284_code_table [] (length inp) (vstart default_cache sec)
        = Some \<lparr>v_inst = [], v_addr = [], v_data = [], v_cache = ac, v_tgt = inp\<rparr>" and ac: "cache_ok ac"
  shows "\<exists>st'. dec_data st = (XD3_OUTPUT, st') \<and> dec_written (n + length inp) inp bs st'"
proof -
  obtain i a d where sec: "sec = (i, a, d)" by (metis prod_cases3)
  note l = ld [unfolded dec_loaded_def sec prod.case]
  have tl: "unat (dec_tgtlen st) = length inp" using l inp by (simp add: unat_of_nat_small XD3_HARDMAXWINSIZE_def)
  obtain t m where s1: "xd3_decode_sections st = xd3_decode_setup_buffers ((read_to bs t st)\<lparr>dec_winbytes := m,
      data_sect := (data_sect st)\<lparr>sect_buf := d, sect_pos := 0\<rparr>, inst_sect := (inst_sect st)\<lparr>sect_buf := i, sect_pos := 0\<rparr>,
      addr_sect := (addr_sect st)\<lparr>sect_buf := a, sect_pos := 0\<rparr>, dec_state := DEC_EMIT\<rparr>)"
    using sections_read [of d i a bs st] l no_skip_flags by auto
  define x where "x = (read_to bs t st)\<lparr>dec_winbytes := m,
      data_sect := (data_sect st)\<lparr>sect_buf := d, sect_pos := 0\<rparr>, inst_sect := (inst_sect st)\<lparr>sect_buf := i, sect_pos := 0\<rparr>,
      addr_sect := (addr_sect st)\<lparr>sect_buf := a, sect_pos := 0\<rparr>, dec_state := DEC_EMIT\<rparr>"
  have "mem_ok x" "out_live x" "\<not> flag_set (dec_win_ind x) VCD_TARGET" "dec_tgtlen x \<noteq> 0"
    using l inp tl win_flags_bits(4) [of ck] by (auto simp: x_def read_to_def mem_ok_def out_live_def split: option.splits)
  with buffers_set_up [of x] tl inp(2) obtain c e f sp h hp buf where
    y: "xd3_decode_setup_buffers x = (XD3_OK, x\<lparr>alloc_calls := c, alloc_cnt := e, free_cnt := f, space_out := sp,
      dec_buffer := Some h, next_out := Some h, out_heap := hp, dec_tgtaddrbase := (Some h, dec_cpylen x)\<rparr>)"
    "hp h = Some buf" "length inp \<le> length buf" "unat sp \<le> length buf" "length buf < 2 ^ 32" by (auto simp: x_def read_to_def)
  define y where "y = x\<lparr>alloc_calls := c, alloc_cnt := e, free_cnt := f, space_out := sp,
      dec_buffer := Some h, next_out := Some h, out_heap := hp, dec_tgtaddrbase := (Some h, dec_cpylen x)\<rparr>"
  note yx = y_def x_def read_to_def
  have dy: "dec_data st = dec_emit y" unfolding dec_data_def s1 x_def [symmetric] y(1) y_def by simp
  have aw: "absw y = vstart default_cache (i, a, d)" using l y(2) by (simp add: absw_def vstart_def out_window_def yx)
  have tm: "TOTAL_MODES default_cache = 9" by (simp add: TOTAL_MODES_def default_cache_def)
  have ws: "window_start xd3_rfc3284_code_table [] [] y"
    using l y(2-5) tl win_flags_bits(4,5) [of ck] rfc3284_length rfc3284_valid tm default_cache_wf
    by (simp add: window_start_def yx no_pending_def)
  have ty: "unat (dec_tgtlen y) = length inp" using tl by (simp add: yx)
  have "length inp < 2 ^ 32" using inp(2) by (simp add: XD3_HARDMAXWINSIZE_def)
  then have "reads_fit [] (unat (dec_tgtlen y)) (sect_buf (inst_sect y)) (vrun xd3_rfc3284_code_table [] (unat (dec_tgtlen y)) (absw y) \<noteq> None)"
    using run unfolding ty aw reads_fit_def sec by simp
  from set_cpyoff_ready [OF ws this] obtain z where z: "set_cpyoff y = (XD3_OK, z)" "ready xd3_rfc3284_code_table [] (unat (dec_tgtlen y)) z"
    "absw z = absw y" "same_window y z" by metis
  have tz: "dec_tgtlen z = dec_tgtlen y" "want_cksum z = want_cksum y" using z(4) by (simp_all add: same_window_def want_cksum_def)
  have ck: "case want_cksum z of None \<Rightarrow> True | Some c \<Rightarrow> vadler inp = unat c"
    unfolding tz(2) using l win_flags_bits(6) [of ck] no_skip_flags vadler_less [of inp] by (simp add: want_cksum_def yx unat_of_nat_small)
  from decode_emit_end [of xd3_rfc3284_code_table "[]" z, unfolded tz, OF z(2)] run obtain u where
    u: "absw u = \<lparr>v_inst = [], v_addr = [], v_data = [], v_cache = ac, v_tgt = inp\<rparr>" "ready xd3_rfc3284_code_table [] (unat (dec_tgtlen y)) u"
      "same_window z u" "avail_out u = of_nat (length inp)" "xd3_decode_emit z = xd3_decode_finish_window u"
    using ck unfolding ty aw z(3) sec tz by (auto cong: option.case_cong)
  have sw: "same_window y u" by (rule same_window_trans [OF z(4) u(3)])
  have "dec_emit y = (XD3_OUTPUT, (snd (xd3_decode_finish_window u))\<lparr>total_out := total_out u + ucast (avail_out u)\<rparr>)"
    using z(1) u(5) by (simp add: dec_emit_def xd3_decode_finish_window_def)
  moreover have "dec_written (n + length inp) inp bs ((snd (xd3_decode_finish_window u))\<lparr>total_out := total_out u + ucast (avail_out u)\<rparr>)"
  proof -
    have w: "v_tgt (absw u) = out_window u" "v_cache (absw u) = acache u" by (simp_all add: absw_def)
    have ok: "next_out u = Some h" "\<exists>buf. out_heap u h = Some buf \<and> unat sp \<le> length buf \<and> length buf < 2 ^ 32"
      "code_table u = Some xd3_rfc3284_code_table" "no_pending u"
      using u(2) sw by (auto simp: ready_def win_inv_def same_window_def yx)
    have s: "input_is bs u" "enc_state u = ENC_INIT" "flags u = XD3_FLUSH" "mem_ok u" "length (dec_cksum u) = 4" "dec_lastwin u = None"
      "dec_win_ind u = win_flags ck" "unat (dec_winstart u) + unat (dec_tgtlen u) = n + length inp" "dec_buffer u = Some h" "space_out u = sp"
      using sw l tl by (auto simp: same_window_def yx input_is_def mem_ok_def)
    let ?v = "(snd (xd3_decode_finish_window u))\<lparr>total_out := total_out u + ucast (avail_out u)\<rparr>"
    have "out_window ?v = out_window u" "out_live ?v"
      using ok s by (simp_all add: xd3_decode_finish_window_def out_window_def out_live_def cong: option.case_cong)
    moreover have "out_window u = inp" "cache_room (acache u)" using w u(1) cache_ok_room [OF ac] by simp_all
    ultimately show ?thesis using ok s u(4) win_flags_bits(4) [of ck]
      by (simp add: dec_written_def xd3_decode_finish_window_def input_is_def mem_ok_def no_pending_def)
  qed
  ultimately show ?thesis using dy by auto
qed

lemma written_idle:
  fixes st :: "'a xd3_decoder_scheme"
  assumes "dec_written n inp bs st"
  shows "\<exists>st'. dec_finish (xd3_consume_output st) = (XD3_WINFINISH, st') \<and> dec_idle n bs st'"
proof -
  let ?c = "xd3_consume_output st"
  let ?s = "?c\<lparr>dec_lastlen := dec_tgtlen ?c, dec_laststart := dec_winstart ?c, dec_window_count := dec_window_count ?c + 1, dec_state := DEC_WININD\<rparr>"
  have "dec_finish ?c = (XD3_WINFINISH, ?s)" using assms by (simp add: dec_written_def dec_finish_def xd3_consume_output_def)
  moreover have "dec_idle n bs ?s"
    using assms by (simp add: dec_written_def dec_idle_def xd3_consume_output_def input_is_def mem_ok_def out_live_def no_pending_def
        cong: option.case_cong)
  ultimately show ?thesis by blast
qed

section \<open>The header of a file\<close>

definition dec_initial :: "'a xd3_decoder_scheme \<Rightarrow> bool" where
  "dec_initial st \<longleftrightarrow> enc_state st = ENC_INIT \<and> dec_state st = DEC_VCHEAD \<and> dec_magic st = [0, 0, 0, 0] \<and> dec_magicbytes st = 0
     \<and> flags st = XD3_FLUSH \<and> mem_ok st \<and> length (dec_cksum st) = 4 \<and> avail_out st = 0 \<and> no_pending st \<and> dec_winbytes st = 0
     \<and> sect_pos (data_sect st) = 0 \<and> sect_pos (inst_sect st) = 0 \<and> sect_pos (addr_sect st) = 0
     \<and> dec_buffer st = None \<and> next_out st = None \<and> space_out st = 0 \<and> dec_lastwin st = None \<and> dec_winstart st = 0 \<and> dec_tgtlen st = 0"

lemma header_idle:
  fixes st :: "'a xd3_decoder_scheme"
  assumes "dec_initial st" "input_is (file_header @ ws) st"
  shows "\<exists>x. xd3_decode_input dm st = dec_winind x \<and> dec_idle 0 ws x"
proof -
  note ini = assms(1) [unfolded dec_initial_def]
  let ?m = "[VCDIFF_MAGIC1, VCDIFF_MAGIC2, VCDIFF_MAGIC3, VCDIFF_VERSION]"
  have "input_is (?m @ 0 # ws) st" using assms(2) by (simp add: file_header_def)
  then obtain t1 where m: "xd3_decode_bytes [0, 0, 0, 0] 0 4 st = (XD3_OK, ?m, 4, read_to (0 # ws) t1 st)"
    using bytes_read [of ?m "0 # ws" st "[0, 0, 0, 0]"] by auto
  define s1 where "s1 = (read_to (0 # ws) t1 st)\<lparr>dec_magic := ?m, dec_magicbytes := 4, dec_state := DEC_HDRIND\<rparr>"
  have e1: "xd3_decode_input dm st = dec_hdrind dm s1"
    using ini m by (simp add: xd3_decode_input_def dec_vchead_def s1_def VCDIFF_VERSION_def)
  have "input_is (0 # ws) s1" using assms(2) by (simp add: s1_def input_is_def read_to_def file_header_def)
  then obtain t2 where h: "xd3_decode_byte (\<lambda>v s. s\<lparr>dec_hdr_ind := v\<rparr>) s1 = (XD3_OK, read_to ws t2 (s1\<lparr>dec_hdr_ind := 0\<rparr>))"
    using byte_read [of 0 ws s1 "\<lambda>v s. s\<lparr>dec_hdr_ind := v\<rparr>"] by auto
  define s2 where "s2 = (read_to ws t2 (s1\<lparr>dec_hdr_ind := 0\<rparr>))\<lparr>dec_state := DEC_TABDAT, acache := (acache st)\<lparr>s_near := 4, s_same := 3\<rparr>,
      code_table := Some xd3_rfc3284_code_table\<rparr>"
  have modes: "ucast (near_modes rfc3284_code_table_desc) = (4 :: u32)" "ucast (same_modes rfc3284_code_table_desc) = (3 :: u32)" by code_simp+
  have "mem_ok s2" "s_near (acache s2) = 4" "s_same (acache s2) = 3" using ini by (simp_all add: s2_def s1_def read_to_def mem_ok_def)
  then obtain c n f ac where al: "xd3_alloc_cache s2 = (XD3_OK, s2\<lparr>alloc_calls := c, alloc_cnt := n, free_cnt := f, acache := ac\<rparr>)"
    "cache_room ac" by (rule alloc_cache_room)
  define x where "x = s2\<lparr>alloc_calls := c, alloc_cnt := n, free_cnt := f, acache := ac, dec_hdrsize := ucast t2, dec_state := DEC_WININD\<rparr>"
  have "dec_hdrind dm s1 = dec_winind x"
    using al h modes
    by (simp add: dec_hdrind_def flag_set_def dec_secondary_def dec_tablen_def dec_near_def dec_same_def dec_tabdat_def dec_applen_def
      dec_appdat_def SIZE_CASE_def BYTE_CASE_def goto_state_def s2_def s1_def read_to_def x_def)
  moreover have "dec_idle 0 ws x" using ini assms(2) al(2)
    by (simp add: dec_idle_def x_def s2_def s1_def read_to_def input_is_def mem_ok_def out_live_def no_pending_def file_header_def)
  ultimately show ?thesis using e1 by auto
qed

section \<open>The whole file\<close>

lemma free_stream_ok:
  assumes "dec_lastwin st = None" "out_live st"
  shows "fst (xd3_free_stream st) = XD3_OK"
proof -
  define st1 where "st1 = ((\<lambda>s. xd3_free (xd3_free s)) ^^ iopt_alloc st) st"
  define st2 where "st2 = free_heads (xd3_free_opt (small_prev st1) (xd3_free_opt (small_table st1) (xd3_free_opt (large_table st1) st1)))"
  define st3 where "st3 = xd3_free_opt (same_array (acache st2)) (xd3_free_opt (near_array (acache st2)) st2)"
  define st4 where "st4 = xd3_free_opt (sect_copied1 (data_sect st3)) (xd3_free_opt (sect_copied1 (addr_sect st3))
                 (xd3_free_opt (sect_copied1 (inst_sect st3)) st3))"
  have "freed st st4" unfolding st4_def st3_def st2_def st1_def free_heads_def by (intro freed_steps freed_iterate)
  then obtain f where st4: "st4 = st\<lparr>free_cnt := f\<rparr>" by (auto simp: freed_def)
  have fo: "\<exists>s. free_out (dec_buffer st4) st4 = (XD3_OK, s) \<and> dec_lastwin s = None"
    using assms by (auto simp: st4 free_out_def xd3_free_def out_live_def split: option.splits)
  then show ?thesis
    unfolding xd3_free_stream_def free_buffers_def Let_def st1_def [symmetric] st2_def [symmetric] st3_def [symmetric] st4_def [symmetric]
    by (auto simp: free_out_def)
qed

lemma window_loop:
  assumes first: "xd3_decode_input dm st = dec_winind x" "dec_idle (length out) (bs @ rest) x"
    and win: "encodes_window ck inp bs" and room: "length out + length inp \<le> unat omax"
  shows "\<exists>st'. dec_idle (length (out @ inp)) rest st' \<and>
    process_loop (xd3_decode_input dm) cl input insz omax inpos out st = process_loop (xd3_decode_input dm) cl input insz omax inpos (out @ inp) st'"
proof -
  obtain sec ac where w: "0 < length inp" "length inp \<le> unat XD3_HARDMAXWINSIZE" "bs = window_bytes ck inp sec" "cache_ok ac"
    "vrun xd3_rfc3284_code_table [] (length inp) (vstart default_cache sec) = Some \<lparr>v_inst = [], v_addr = [], v_data = [], v_cache = ac, v_tgt = inp\<rparr>"
    using win by (auto simp: encodes_window_def)
  have om: "unat omax < 4294967296" by (rule unat_u32_less)
  obtain r s1 where r: "dec_winind x = (r, s1)" "r = XD3_GOTHEADER \<or> r = XD3_WINSTART" "dec_loaded (length out) ck inp sec rest s1"
    using idle_loads [of "length out" ck inp sec rest x] first(2) w(2,3) room om by auto
  obtain s2 where s2: "dec_data s1 = (XD3_OUTPUT, s2)" "dec_written (length out + length inp) inp rest s2"
    using loaded_writes [OF r(3) w(1,2,5,4)] by blast
  obtain s3 where s3: "dec_finish (xd3_consume_output s2) = (XD3_WINFINISH, s3)" "dec_idle (length out + length inp) rest s3"
    using written_idle [OF s2(2)] by blast
  have d1: "xd3_decode_input dm s1 = dec_data s1" using r(3) by (simp add: xd3_decode_input_def dec_loaded_def)
  have d2: "xd3_decode_input dm (xd3_consume_output s2) = dec_finish (xd3_consume_output s2)"
    using s2(2) by (simp add: xd3_decode_input_def dec_written_def xd3_consume_output_def)
  have "unat (avail_out s2) = length inp" using s2(2) room om by (simp add: dec_written_def unat_of_nat_small)
  moreover obtain buf where buf: "stream_out s2 = buf" "take (unat (avail_out s2)) buf = inp"
    using s2(2) w(1) by (auto simp: dec_written_def stream_out_def out_window_def split: option.splits)
  moreover have "length inp \<le> length buf" using buf(2) calculation(1) by (metis length_take min.cobounded1)
  moreover have "unat (of_nat (length out) + avail_out s2) = length out + length inp"
    using calculation(1) room om by (subst unat_add_u32) (simp_all add: unat_of_nat_small)
  ultimately have po: "process_output omax out s2 = (XD3_OK, out @ inp, xd3_consume_output s2)"
    using room by (simp add: process_output_def word_less_nat_alt)
  have "process_loop (xd3_decode_input dm) cl input insz omax inpos out st = process_loop (xd3_decode_input dm) cl input insz omax inpos out s1"
    using r(1,2) first(1) by (subst process_loop.simps) auto
  also have "\<dots> = process_loop (xd3_decode_input dm) cl input insz omax inpos (out @ inp) (xd3_consume_output s2)"
    using d1 s2(1) po by (subst process_loop.simps) simp
  also have "\<dots> = process_loop (xd3_decode_input dm) cl input insz omax inpos (out @ inp) s3"
    using d2 s3(1) by (subst process_loop.simps) simp
  finally show ?thesis using s3(2) by auto
qed

lemma windows_loop:
  assumes "encodes_windows ck inp ws" "xd3_decode_input dm st = dec_winind x" "dec_idle (length out) ws x" "length out + length inp \<le> unat omax"
  shows "\<exists>st'. process_loop (xd3_decode_input dm) True input insz omax insz out st = Some (XD3_OK, out @ inp, st') \<and> dec_lastwin st' = None \<and> out_live st'"
  using assms
proof (induction arbitrary: out st x rule: encodes_windows.induct)
  case no_window
  have "avail_in x = 0" using no_window.prems(2) by (simp add: dec_idle_def input_is_def)
  then have "dec_winind x = (XD3_INPUT, set_msg ''further input required'' x)" by (simp add: dec_winind_def xd3_decode_byte_def fail_with_def)
  then have "process_loop (xd3_decode_input dm) True input insz omax insz out st = Some (XD3_OK, out @ [], set_msg ''further input required'' x)"
    using no_window.prems by (subst process_loop.simps) (simp add: xd3_close_stream_def set_msg_def dec_idle_def)
  moreover have "dec_lastwin (set_msg m x) = None \<and> out_live (set_msg m x)" for m
    using no_window.prems(2) by (simp add: dec_idle_def set_msg_def out_live_def cong: option.case_cong)
  ultimately show ?case by blast
next
  case (next_window inp bs rest ws)
  have "length out + length inp \<le> unat omax" using next_window.prems(3) by simp
  from window_loop [OF next_window.prems(1,2) next_window.hyps(1) this, of True input insz insz] obtain s where
    s: "dec_idle (length (out @ inp)) ws s"
      "process_loop (xd3_decode_input dm) True input insz omax insz out st = process_loop (xd3_decode_input dm) True input insz omax insz (out @ inp) s"
    by blast
  have "xd3_decode_input dm s = dec_winind s" using s(1) by (simp add: dec_idle_def xd3_decode_input_def)
  from next_window.IH [OF this s(1)] next_window.prems(3) s(2) show ?case by simp
qed

definition decoder_stream :: "(nat \<Rightarrow> u32 \<Rightarrow> u32 \<Rightarrow> bool) \<Rightarrow> (nat \<Rightarrow> u8) \<Rightarrow> xd3_stream" where
  "decoder_stream malloc junk = (null_stream malloc junk)\<lparr>winsize := XD3_DEFAULT_WINSIZE, sprevsz := XD3_DEFAULT_SPREVSZ,
     iopt_size := XD3_ALLOCSIZE div sizeof_rinst, iopt_unlimited := True, code_table_desc := Some rfc3284_code_table_desc,
     sprevmask := XD3_DEFAULT_SPREVSZ - 1, smatcher := smatcher_default\<rparr>"

lemma decoder_config: "xd3_config_stream malloc junk (Some null_config) = (XD3_OK, decoder_stream malloc junk)"
proof -
  have "smatcher (null_stream malloc junk) = smatcher_null" "flags (null_stream malloc junk) = 0"
    by (simp_all add: null_stream_defs)
  then show ?thesis
    by (simp add: xd3_config_stream_def null_config_def config_initial_def pow2_checks config_secondary_def
      config_table_def config_sprev_def config_smatcher_def Let_def flag_set_def smatcher_null_def smatch_def
      decoder_stream_def null_stream_defs)
qed

text \<open>\<open>xd3_decode_memory\<close> on a file that fits its input buffer.\<close>

lemma decode_memory_file:
  assumes "encodes_file ck inp delta" "length delta \<le> unat XD3_DEFAULT_WINSIZE" "\<And>n a b. malloc n a b" "length inp \<le> unat omax"
  shows "xd3_decode_memory malloc junk (Some delta) (of_nat (length delta)) None ss True omax 0 = (XD3_OK, inp)"
proof -
  let ?dm = "table_decoder malloc junk" and ?n = "of_nat (length delta) :: u32"
  obtain ws where ws: "delta = file_header @ ws" "encodes_windows ck inp ws" using assms(1) by (auto simp: encodes_file_def)
  have w: "unat XD3_DEFAULT_WINSIZE = 8388608" by (simp add: XD3_DEFAULT_WINSIZE_def)
  then have n: "unat ?n = length delta" using assms(2) by (intro unat_of_nat_small) simp
  have mn: "min XD3_DEFAULT_WINSIZE ?n = ?n" using assms(2) n by (simp add: word_le_nat_alt)
  define st where "st = xd3_avail_input delta ?n ((decoder_stream malloc junk)\<lparr>flags := XD3_FLUSH\<rparr>)"
  have "dec_initial st" using assms(3)
    by (simp add: dec_initial_def st_def xd3_avail_input_def decoder_stream_def null_stream_defs mem_ok_def no_pending_def)
  moreover have "input_is (file_header @ ws) st" using ws(1) assms(2) w
    by (simp add: input_is_def st_def xd3_avail_input_def decoder_stream_def null_stream_defs)
  ultimately obtain x where x: "xd3_decode_input ?dm st = dec_winind x" "dec_idle (length ([] :: u8 list)) ws x" using header_idle [of st ws ?dm] by auto
  from windows_loop [OF ws(2) x] assms(4) obtain st' where
    st': "process_loop (xd3_decode_input ?dm) True delta ?n omax ?n [] st = Some (XD3_OK, inp, st')" "dec_lastwin st' = None" "out_live st'"
    by fastforce
  have "winsize (decoder_stream malloc junk) = XD3_DEFAULT_WINSIZE" "flags (decoder_stream malloc junk) = 0"
    by (simp_all add: decoder_stream_def null_stream_defs)
  then have "xd3_process_stream (xd3_decode_input ?dm) True delta ?n omax (decoder_stream malloc junk) = Some (XD3_OK, inp, st')"
    using st'(1) mn by (simp add: xd3_process_stream_def Let_def st_def)
  moreover have "xd3_config_stream malloc junk (Some (null_config\<lparr>cfg_flags := 0\<rparr>)) = (XD3_OK, decoder_stream malloc junk)"
    using decoder_config by (simp add: null_config_def)
  moreover obtain y where "xd3_free_stream st' = (XD3_OK, y)" using free_stream_ok [OF st'(2,3)] by (metis prod.collapse)
  ultimately show ?thesis by (simp add: xd3_decode_memory_def xd3_process_memory_def memory_config_def)
qed

end
