(* ===== verification/Xd3_Stream_Encode.thy ===== *)
theory Xd3_Stream_Encode
  imports Xd3_File Xd3_String_Match
begin

text \<open>
  The encoder writes whole files: without a source and with an unlimited instruction buffer, its state machine
  cuts the input into windows, and what it has output when it is done is a file in the sense of the theory of
  files.  The only other result is an output buffer that is too small.
\<close>

section \<open>A finished window\<close>

lemma outer_fields:
  assumes "outer st' = outer st"
  shows "hdr_out st' = hdr_out st" "flags st' = flags st" "current_window st' = current_window st" "enc_appheader st' = enc_appheader st"
    "buf_leftover st' = buf_leftover st" "buf_avail st' = buf_avail st" "winsize st' = winsize st" "dec_state st' = dec_state st"
    "smatcher st' = smatcher st" "small_hash st' = small_hash st" "small_table st' = small_table st" "small_prev st' = small_prev st"
    "sprevmask st' = sprevmask st" "sprevsz st' = sprevsz st" "iopt_unlimited st' = iopt_unlimited st" "avail_out st' = avail_out st"
proof -
  have f: "hdr_out (outer x) = hdr_out x" "flags (outer x) = flags x" "current_window (outer x) = current_window x" "enc_appheader (outer x) = enc_appheader x"
    "buf_leftover (outer x) = buf_leftover x" "buf_avail (outer x) = buf_avail x" "winsize (outer x) = winsize x" "dec_state (outer x) = dec_state x"
    "smatcher (outer x) = smatcher x" "small_hash (outer x) = small_hash x" "small_table (outer x) = small_table x" "small_prev (outer x) = small_prev x"
    "sprevmask (outer x) = sprevmask x" "sprevsz (outer x) = sprevsz x" "iopt_unlimited (outer x) = iopt_unlimited x" "avail_out (outer x) = avail_out x" for x
    by (simp_all add: outer_def core_def)
  show "hdr_out st' = hdr_out st" "flags st' = flags st" "current_window st' = current_window st" "enc_appheader st' = enc_appheader st"
    "buf_leftover st' = buf_leftover st" "buf_avail st' = buf_avail st" "winsize st' = winsize st" "dec_state st' = dec_state st"
    "smatcher st' = smatcher st" "small_hash st' = small_hash st" "small_table st' = small_table st" "small_prev st' = small_prev st"
    "sprevmask st' = sprevmask st" "sprevsz st' = sprevsz st" "iopt_unlimited st' = iopt_unlimited st" "avail_out st' = avail_out st"
    using assms f by metis+
qed

lemma mouter_fields:
  assumes "mouter st' = mouter st"
  shows "current_window st' = current_window st" "enc_appheader st' = enc_appheader st" "buf_leftover st' = buf_leftover st"
    "buf_avail st' = buf_avail st" "winsize st' = winsize st" "dec_state st' = dec_state st" "sprevsz st' = sprevsz st" "avail_out st' = avail_out st"
proof -
  have f: "current_window (mouter x) = current_window x" "enc_appheader (mouter x) = enc_appheader x" "buf_leftover (mouter x) = buf_leftover x"
    "buf_avail (mouter x) = buf_avail x" "winsize (mouter x) = winsize x" "dec_state (mouter x) = dec_state x" "sprevsz (mouter x) = sprevsz x"
    "avail_out (mouter x) = avail_out x" for x
    by (simp_all add: mouter_def outer_def core_def)
  show "current_window st' = current_window st" "enc_appheader st' = enc_appheader st" "buf_leftover st' = buf_leftover st"
    "buf_avail st' = buf_avail st" "winsize st' = winsize st" "dec_state st' = dec_state st" "sprevsz st' = sprevsz st" "avail_out st' = avail_out st"
    using assms f by metis+
qed

lemma flush_loop_empties: "iopt_flush_loop True n rs st = (XD3_OK, st') \<Longrightarrow> iopt_used st' = []"
  by (induction rs arbitrary: n st) (auto simp: bind_ok_OK_iff)

lemma encode_window_end:
  assumes "enc_window_begin inp st" "buffer_ok file inp st" "length file < 18446744073709551616" "mem_ok st"
  obtains y where "bind_ok (xd3_iopt_flush_instructions True st) xd3_iopt_add_finalize = (XD3_OK, y)" "enc_base inp y" "later file st y"
    "iout y = None" "iopt_used y = []"
    "\<And>S. seg file y S \<Longrightarrow> vrun xd3_rfc3284_code_table S (length inp) (vstart (acache st) (secs y))
      = Some \<lparr>v_inst = [], v_addr = [], v_data = [], v_cache = acache y, v_tgt = inp\<rparr>"
proof -
  note inv = window_begin_inv [OF assms(1), of "file"]
  have nm: "\<not> no_mem x r" if "later file st x" for x r using later_mem [OF that] assms(4) by (simp add: no_mem_def)
  obtain pos x where x: "pos \<le> length inp" "xd3_iopt_flush_instructions True st = (XD3_OK, x)" "enc_inv (acache st) file inp x" "later file st x"
    "unat (unencoded_offset x) = pos"
    using flush_reaches [OF inv assms(2,3)] nm [of st] by (cases "xd3_iopt_flush_instructions True st") (auto simp: reaches_def)
  have used: "iopt_used x = []" using x(2) flush_loop_empties by (auto simp: xd3_iopt_flush_instructions_def split: prod.splits)
  obtain y where y: "xd3_iopt_add_finalize x = (XD3_OK, y)" "enc_inv (acache st) file inp y" "later file x y"
    "unat (unencoded_offset y) = length inp" "iopt_used y = []"
    using add_finalize_keeps [OF x(3)] x(1,5) nm [OF x(4)] used by (cases "xd3_iopt_add_finalize x") (auto simp: keeps_def reaches_def)
  have io: "iout y = None" by (rule add_finalize_iout [OF y(1)])
  show ?thesis
  proof (rule that)
    show "bind_ok (xd3_iopt_flush_instructions True st) xd3_iopt_add_finalize = (XD3_OK, y)" using x(2) y(1) by simp
    show "later file st y" by (rule later_trans [OF x(4) y(3)])
    show "enc_base inp y" "iout y = None" "iopt_used y = []" using y io by (simp_all add: enc_inv_def)
    fix S assume "seg file y S"
    then show "vrun xd3_rfc3284_code_table S (length inp) (vstart (acache st) (secs y))
      = Some \<lparr>v_inst = [], v_addr = [], v_data = [], v_cache = acache y, v_tgt = inp\<rparr>"
      using y(2,4) io by (auto simp: enc_inv_def decoded_def vpend_def)
  qed
qed

section \<open>The header of a window\<close>

text \<open>Writing to the header section changes that section and the allocator's counters.\<close>

definition hdr_step :: "xd3_stream \<Rightarrow> xd3_stream \<Rightarrow> bool" where
  "hdr_step st st' \<longleftrightarrow> (\<exists>c n f m e p. st' = st\<lparr>alloc_calls := c, alloc_cnt := n, free_cnt := f, msg := m, enc_free := e, hdr_out := p\<rparr>)"

lemma hdr_step_trans: "hdr_step st st1 \<Longrightarrow> hdr_step st1 st2 \<Longrightarrow> hdr_step st st2"
  by (auto simp: hdr_step_def) (intro exI, rule refl)

definition hdr_adds :: "u8 list \<Rightarrow> xd3_stream \<Rightarrow> xd3_ret \<times> xd3_stream \<Rightarrow> bool" where
  "hdr_adds bs st res \<longleftrightarrow> (\<exists>st'. res = (XD3_OK, st') \<and> hdr_step st st' \<and> chains_ok st' \<and> out_bytes (hdr_out st') = out_bytes (hdr_out st) @ bs)"

lemma hdr_adds_nil: "chains_ok st \<Longrightarrow> hdr_adds [] st (XD3_OK, st)"
  unfolding hdr_adds_def hdr_step_def
  by (intro exI [of _ st] conjI refl exI [of _ "alloc_calls st"] exI [of _ "alloc_cnt st"] exI [of _ "free_cnt st"] exI [of _ "msg st"]
    exI [of _ "enc_free st"] exI [of _ "hdr_out st"]) simp_all

lemma hdr_adds_bind:
  assumes "hdr_adds bs st m" "\<And>st'. hdr_step st st' \<Longrightarrow> chains_ok st' \<Longrightarrow> hdr_adds cs st' (k st')"
  shows "hdr_adds (bs @ cs) st (bind_ok m k)"
proof -
  obtain st1 where st1: "m = (XD3_OK, st1)" "hdr_step st st1" "chains_ok st1" "out_bytes (hdr_out st1) = out_bytes (hdr_out st) @ bs"
    using assms(1) by (auto simp: hdr_adds_def)
  with assms(2) [OF st1(2,3)] show ?thesis by (auto simp: hdr_adds_def intro: hdr_step_trans)
qed

lemma emits_hdr:
  assumes "emits f bs" "chains_ok st" "mem_ok st"
  shows "hdr_adds bs st (to_hdr f st)"
proof -
  obtain r p st' where f: "f (hdr_out st) st = (r, p, st')" by (metis prod_cases3)
  have ok: "chain_wf (hdr_out st)" "pool_wf st" using assms(2) by (simp_all add: chains_ok_def)
  note e = emitsD [OF assms(1) ok f]
  have r: "r = XD3_OK" using e(4) assms(3) by (simp add: no_mem_def)
  obtain c n fr m en where st': "st' = st\<lparr>alloc_calls := c, alloc_cnt := n, free_cnt := fr, msg := m, enc_free := en\<rparr>"
    using e(1) by (auto simp: base_step_def)
  have "hdr_step st (st'\<lparr>hdr_out := p\<rparr>)" unfolding hdr_step_def st' by (intro exI) (rule refl)
  moreover have "chains_ok (st'\<lparr>hdr_out := p\<rparr>)" using assms(2) e(2,3) by (simp add: chains_ok_def st' pool_wf_def)
  ultimately show ?thesis using e(5) r f by (simp add: hdr_adds_def to_hdr_def)
qed

lemma hdr_step_mem: "hdr_step st st' \<Longrightarrow> mem_ok st' = mem_ok st"
  by (auto simp: hdr_step_def mem_ok_def)

lemma emit_all_hdr:
  assumes "list_all2 emits fs bss" "chains_ok st" "mem_ok st"
  shows "hdr_adds (concat bss) st (emit_all fs st)"
  using assms
proof (induction arbitrary: st rule: list_all2_induct)
  case Nil
  then show ?case by (simp add: hdr_adds_nil)
next
  case (Cons f fs bs bss)
  have "hdr_adds (bs @ concat bss) st (bind_ok (to_hdr f st) (emit_all fs))"
    using Cons hdr_step_mem by (intro hdr_adds_bind emits_hdr) auto
  then show ?case by simp
qed

definition uses_cksum :: "xd3_stream \<Rightarrow> bool" where
  "uses_cksum st \<longleftrightarrow> flag_set (flags st) (XD3_ADLER32 OR XD3_ADLER32_RECODE)"

lemma adler_input:
  assumes "unat n \<le> length buf"
  shows "ucast (adler32 (1 :: 64 word) buf n) = (of_nat (vadler (take (unat n) buf)) :: u32)"
proof -
  obtain a b where ab: "adler_ref (1, 0) (take (unat n) buf) = (a, b)" by fastforce
  then have "unat (adler32 (1 :: 64 word) buf n) = vadler (take (unat n) buf)"
    using adler32_value [OF _ assms ab, where 'w = 64] by (simp add: vadler_def)
  then have "unat (ucast (adler32 (1 :: 64 word) buf n) :: u32) = vadler (take (unat n) buf)"
    using vadler_less [of "take (unat n) buf"] by (simp add: unsigned_ucast_eq take_bit_nat_eq_self)
  then show ?thesis by (metis of_nat_unat ucast_id)
qed

text \<open>\<open>xd3_emit_hdr\<close> writes all that stands before the sections.\<close>

definition window_front :: "bool \<Rightarrow> u8 list \<Rightarrow> sections \<Rightarrow> u8 list" where
  "window_front ck inp sec = (case sec of (i, a, d) \<Rightarrow>
     [if ck then ucast VCD_ADLER32 else 0] @ window_lengths ck (length inp) (length d) (length i) (length a)
     @ (if ck then adler_bytes (of_nat (vadler inp)) else []))"

lemma emit_hdr_writes:
  assumes base: "enc_base inp st" and st: "mem_ok st" "src st = None" "enc_appheader st = None"
    and ck: "flag_set (flags st) XD3_ADLER32 \<or> \<not> flag_set (flags st) XD3_ADLER32_RECODE"
  shows "hdr_adds ((if current_window st = 0 then file_header else []) @ window_front (uses_cksum st) inp (secs st)) st (xd3_emit_hdr st)"
proof -
  define ck where "ck = uses_cksum st"
  have len: "avail_in st = of_nat (length inp)" "unat (avail_in st) \<le> length (next_in st)" "take (unat (avail_in st)) (next_in st) = inp"
    using base enc_base_length [OF base] by (simp_all add: enc_base_def)
  have ok: "chains_ok st" using base by (simp add: enc_base_def)
  have adl: "ck \<Longrightarrow> flag_set (flags st) XD3_ADLER32"
    using ck by (auto simp: ck_def uses_cksum_def flag_set_def bit.conj_disj_distrib)
  obtain i a d where sec: "secs st = (i, a, d)" by (metis prod_cases3)
  then have so: "out_bytes (inst_out st) = i" "out_bytes (addr_out st) = a" "out_bytes (data_out st) = d" by (simp_all add: secs_def)
  have same: "flags x = flags st" "src x = None" "avail_in x = avail_in st" "next_in x = next_in st" "data_out x = data_out st" "inst_out x = inst_out st"
    "addr_out x = addr_out st" "mem_ok x" "enc_appheader x = None"
    if "hdr_step st x" for x using that st by (auto simp: hdr_step_def mem_ok_def)
  have head: "hdr_adds (if current_window st = 0 then file_header else []) st (if current_window st = 0 then emit_file_header st else (XD3_OK, st))"
  proof (cases "current_window st = 0")
    case True
    let ?fs = "[emit_byte_to VCDIFF_MAGIC1, emit_byte_to VCDIFF_MAGIC2, emit_byte_to VCDIFF_MAGIC3, emit_byte_to VCDIFF_VERSION, emit_byte_to 0]"
    have "hdr_adds (concat [[VCDIFF_MAGIC1], [VCDIFF_MAGIC2], [VCDIFF_MAGIC3], [VCDIFF_VERSION], [0]]) st (emit_all ?fs st)"
      using ok st(1) by (intro emit_all_hdr) (simp_all add: emits_byte)
    then have h: "hdr_adds file_header st (emit_all ?fs st)" by (simp add: file_header_def)
    have "emit_file_header st = bind_ok (emit_all ?fs st) (\<lambda>s. (XD3_OK, s))"
    proof -
      obtain x where x: "emit_all ?fs st = (XD3_OK, x)" "hdr_step st x" using h by (auto simp: hdr_adds_def)
      then show ?thesis using st(3) same(9) [OF x(2)] unfolding emit_file_header_def Let_def by simp
    qed
    moreover have "bind_ok m (\<lambda>s. (XD3_OK, s)) = m" if "hdr_adds bs st m" for bs m using that by (auto simp: hdr_adds_def)
    ultimately show ?thesis using True h by simp
  qed (simp add: hdr_adds_nil ok)
  have body: "hdr_adds (window_front ck inp (secs st)) x
      (let srcw = (case src x of Some s \<Rightarrow> [xd3_emit_size (srclen s), xd3_emit_offset (srcbase s)] | None \<Rightarrow> []);
           tgt_len = avail_in x; data_len = xd3_sizeof_output (data_out x); inst_len = xd3_sizeof_output (inst_out x);
           addr_len = xd3_sizeof_output (addr_out x) in
         bind_ok
           (emit_all ([emit_byte_to (ucast ((if xd3_encoder_used_source st then VCD_SOURCE else 0) OR (if ck then VCD_ADLER32 else 0)))]
              @ (if xd3_encoder_used_source st then srcw else []) @
              [xd3_emit_size (enc_len tgt_len data_len inst_len addr_len ck), xd3_emit_size tgt_len,
               emit_byte_to 0, xd3_emit_size data_len, xd3_emit_size inst_len, xd3_emit_size addr_len]) x)
           (\<lambda>st1. if ck then
              (if flag_set (flags st1) XD3_ADLER32 \<and> length (next_in st1) < unat (avail_in st1) then (C_UB, st1)
               else
                 let a32 = (if flag_set (flags st1) XD3_ADLER32
                            then ucast (adler32 (1 :: 64 word) (next_in st1) (avail_in st1)) else recode_adler32 st1) in
                 emit_all [emit_bytes_to (adler_bytes a32)] st1)
            else (XD3_OK, st1)))"
    if x: "hdr_step st x" "chains_ok x" for x
  proof -
    note s = same [OF x(1)]
    let ?el = "enc_len (of_nat (length inp)) (of_nat (length d)) (of_nat (length i)) (of_nat (length a)) ck"
    let ?fs = "[emit_byte_to (if ck then ucast VCD_ADLER32 else 0), xd3_emit_size ?el, xd3_emit_size (of_nat (length inp)), emit_byte_to 0,
      xd3_emit_size (of_nat (length d)), xd3_emit_size (of_nat (length i)), xd3_emit_size (of_nat (length a))]"
    have e: "hdr_adds (concat [[if ck then ucast VCD_ADLER32 else 0], emit_integer_type ?el, emit_integer_type (of_nat (length inp) :: u32), [0],
       emit_integer_type (of_nat (length d) :: u32), emit_integer_type (of_nat (length i) :: u32), emit_integer_type (of_nat (length a) :: u32)])
       x (emit_all ?fs x)"
      using x(2) s(8) by (intro emit_all_hdr) (simp_all add: emits_byte emits_size)
    have w: "(if ck then ucast VCD_ADLER32 else 0 :: u8) = ucast ((if xd3_encoder_used_source st then VCD_SOURCE else 0) OR (if ck then VCD_ADLER32 else 0))"
      using st(2) by (simp add: xd3_encoder_used_source_def)
    have k: "hdr_adds (if ck then adler_bytes (of_nat (vadler inp)) else []) y
       (if ck then
              (if flag_set (flags y) XD3_ADLER32 \<and> length (next_in y) < unat (avail_in y) then (C_UB, y)
               else
                 let a32 = (if flag_set (flags y) XD3_ADLER32
                            then ucast (adler32 (1 :: 64 word) (next_in y) (avail_in y)) else recode_adler32 y) in
                 emit_all [emit_bytes_to (adler_bytes a32)] y)
            else (XD3_OK, y))"
      if y: "hdr_step x y" "chains_ok y" for y
    proof (cases ck)
      case True
      note t = same [OF hdr_step_trans [OF x(1) y(1)]]
      have "hdr_adds (concat [adler_bytes (of_nat (vadler inp))]) y (emit_all [emit_bytes_to (adler_bytes (of_nat (vadler inp)))] y)"
        using y(2) t(8) by (intro emit_all_hdr) (simp_all add: emits_bytes)
      then show ?thesis using True adl t(1,3,4) len adler_input [OF len(2)] by (simp del: emit_all.simps)
    next
      case False
      then show ?thesis using y(2) by (simp add: hdr_adds_nil)
    qed
    have "xd3_sizeof_output (data_out x) = of_nat (length d)" "xd3_sizeof_output (inst_out x) = of_nat (length i)"
      "xd3_sizeof_output (addr_out x) = of_nat (length a)" using s so by (simp_all add: sizeof_output_bytes)
    moreover have "\<not> xd3_encoder_used_source st" using st(2) by (simp add: xd3_encoder_used_source_def)
    ultimately show ?thesis using hdr_adds_bind [OF e k] s(2,3) w len(1)
      by (simp add: window_front_def sec window_lengths_def Let_def del: emit_all.simps)
  qed
  show ?thesis unfolding xd3_emit_hdr_def Let_def uses_cksum_def [symmetric] ck_def [symmetric]
    by (rule hdr_adds_bind [OF head body [unfolded Let_def]])
qed

section \<open>The output of a window\<close>

text \<open>Handing out pages changes the counters and the position in the chain.\<close>

definition drained :: "xd3_stream \<Rightarrow> xd3_stream \<Rightarrow> bool" where
  "drained st st' \<longleftrightarrow> (\<exists>i t q. st' = st\<lparr>total_in := i, avail_out := 0, total_out := t, enc_current := [], enc_next_out := q, enc_state := ENC_POSTWIN\<rparr>)"

lemma drained_from:
  "drained (st\<lparr>enc_state := e, enc_current := c, enc_next_out := q, avail_out := v, total_out := t\<rparr>) st' \<Longrightarrow> drained st st'"
  by (auto simp: drained_def)

text \<open>Whatever output there is already and wherever in the input the loop has got to: from \<open>x\<close> on it appends \<open>bs\<close> and goes on
  with \<open>y\<close>, or ends because the output buffer is too small for that.\<close>

definition goes_on :: "bool \<Rightarrow> xd3_stream \<Rightarrow> u8 list \<Rightarrow> xd3_stream \<Rightarrow> bool" where
  "goes_on u x bs y \<longleftrightarrow> (\<forall>cl input insz omax inpos out. unat omax + 16384 < 2 ^ 32 \<longrightarrow> length out \<le> unat omax \<longrightarrow>
     (if length out + length bs \<le> unat omax
      then process_loop (xd3_encode_input u) cl input insz omax inpos out x = process_loop (xd3_encode_input u) cl input insz omax inpos (out @ bs) y
      else \<exists>out' s. process_loop (xd3_encode_input u) cl input insz omax inpos out x = Some (ENOSPC, out', s)))"

lemma goes_onD:
  "goes_on u x bs y \<Longrightarrow> unat omax + 16384 < 2 ^ 32 \<Longrightarrow> length out \<le> unat omax \<Longrightarrow>
     (if length out + length bs \<le> unat omax
      then process_loop (xd3_encode_input u) cl input insz omax inpos out x = process_loop (xd3_encode_input u) cl input insz omax inpos (out @ bs) y
      else \<exists>out' s. process_loop (xd3_encode_input u) cl input insz omax inpos out x = Some (ENOSPC, out', s))"
  unfolding goes_on_def by blast

lemma goes_on_trans:
  assumes "goes_on u x bs y" "goes_on u y cs z"
  shows "goes_on u x (bs @ cs) z"
  unfolding goes_on_def
proof (intro allI impI)
  fix cl input insz inpos and omax :: u32 and out :: "u8 list"
  let ?loop = "process_loop (xd3_encode_input u) cl input insz omax inpos"
  assume o: "unat omax + 16384 < 2 ^ 32" "length out \<le> unat omax"
  have first: "if length out + length bs \<le> unat omax then ?loop out x = ?loop (out @ bs) y else \<exists>out' s. ?loop out x = Some (ENOSPC, out', s)"
    by (rule goes_onD [OF assms(1) o])
  have second: "if length (out @ bs) + length cs \<le> unat omax then ?loop (out @ bs) y = ?loop ((out @ bs) @ cs) z
      else \<exists>out' s. ?loop (out @ bs) y = Some (ENOSPC, out', s)" if "length (out @ bs) \<le> unat omax"
    by (rule goes_onD [OF assms(2) o(1) that])
  show "if length out + length (bs @ cs) \<le> unat omax then ?loop out x = ?loop (out @ (bs @ cs)) z else \<exists>out' s. ?loop out x = Some (ENOSPC, out', s)"
    using first second by (cases "length out + length bs \<le> unat omax") (auto split: if_splits)
qed

lemma goes_on_skip:
  assumes "xd3_encode_input u x = (r, y)" "r = XD3_WINSTART \<or> r = XD3_WINFINISH"
  shows "goes_on u x [] y"
  unfolding goes_on_def
proof (intro allI impI)
  fix cl input insz inpos and omax :: u32 and out :: "u8 list"
  assume "length out \<le> unat omax"
  moreover have "process_loop (xd3_encode_input u) cl input insz omax inpos out x = process_loop (xd3_encode_input u) cl input insz omax inpos out y"
    using assms by (subst process_loop.simps) auto
  ultimately show "if length out + length ([] :: u8 list) \<le> unat omax
      then process_loop (xd3_encode_input u) cl input insz omax inpos out x = process_loop (xd3_encode_input u) cl input insz omax inpos (out @ []) y
      else \<exists>out' s. process_loop (xd3_encode_input u) cl input insz omax inpos out x = Some (ENOSPC, out', s)" by simp
qed

lemma goes_on_output:
  assumes "xd3_encode_input u x = (XD3_OUTPUT, st)" "stream_out st = bs" "avail_out st = of_nat (length bs)" "length bs \<le> 16384"
  shows "goes_on u x bs (xd3_consume_output st)"
  unfolding goes_on_def
proof (intro allI impI)
  fix cl input insz inpos and omax :: u32 and out :: "u8 list"
  let ?loop = "process_loop (xd3_encode_input u) cl input insz omax inpos"
  assume o: "unat omax + 16384 < 2 ^ 32" "length out \<le> unat omax"
  have len: "unat (of_nat (length bs) :: u32) = length bs" using assms(4) by (intro unat_of_nat_small) simp
  have sum: "unat (of_nat (length out) + of_nat (length bs) :: u32) = length out + length bs"
    using o assms(4) by (subst unat_add_u32) (simp_all add: unat_of_nat_small)
  show "if length out + length bs \<le> unat omax then ?loop out x = ?loop (out @ bs) (xd3_consume_output st)
    else \<exists>out' s. ?loop out x = Some (ENOSPC, out', s)"
  proof (cases "length out + length bs \<le> unat omax")
    case True
    then have "process_output omax out st = (XD3_OK, out @ bs, xd3_consume_output st)"
      using assms(2,3) sum len by (simp add: process_output_def word_less_nat_alt)
    then have "?loop out x = ?loop (out @ bs) (xd3_consume_output st)" using assms(1) by (subst process_loop.simps) simp
    then show ?thesis using True by simp
  next
    case False
    then have "process_output omax out st = (ENOSPC, out, set_msg ''insufficient output space'' st)"
      using assms(3) sum by (simp add: process_output_def word_less_nat_alt fail_with_def)
    then have "?loop out x = Some (ENOSPC, out, set_msg ''insufficient output space'' st)" using assms(1) by (subst process_loop.simps) simp
    then show ?thesis using False by simp
  qed
qed

lemma enc_output_goes_on:
  assumes "xd3_encode_input u x = enc_output pgs st" "list_all page_wf pgs" "dec_state st = DEC_VCHEAD" "avail_out st = 0"
  shows "\<exists>st'. drained st st' \<and> goes_on u x (out_bytes pgs) st'"
  using assms
proof (induction pgs arbitrary: st x)
  case Nil
  have "drained st (snd (enc_window_done st))" using Nil.prems(4) unfolding drained_def enc_window_done_def
    by (intro exI [of _ "total_in st + ucast (avail_in st)"] exI [of _ "total_out st"] exI [of _ "enc_next_out st"]) simp
  moreover have "goes_on u x [] (snd (enc_window_done st))" using Nil.prems(1) by (intro goes_on_skip) (auto simp: enc_window_done_def)
  ultimately show ?case by (auto simp: out_bytes_def)
next
  case (Cons pg pgs)
  define st1 where "st1 = st\<lparr>enc_state := ENC_POSTOUT, enc_current := pg # pgs, enc_next_out := pg_data pg,
           avail_out := of_nat (length (pg_data pg)), total_out := total_out st + ucast (of_nat (length (pg_data pg)) :: u32)\<rparr>"
  have pl: "length (pg_data pg) \<le> 16384" using Cons.prems(2) by (simp add: page_wf_def)
  have ob: "out_bytes (pg # pgs) = pg_data pg @ out_bytes pgs" by (simp add: out_bytes_def)
  show ?case
  proof (cases "pg_data pg = []")
    case True
    have "xd3_encode_input u x = enc_output pgs st1" using Cons.prems(1) True by (simp add: st1_def Let_def)
    moreover have "dec_state st1 = DEC_VCHEAD" "avail_out st1 = 0" using Cons.prems(3) True by (simp_all add: st1_def)
    moreover have "drained st1 z \<Longrightarrow> drained st z" for z unfolding st1_def by (rule drained_from)
    ultimately show ?thesis using Cons.IH [of x st1] Cons.prems(2) True ob by auto
  next
    case False
    have "unat (of_nat (length (pg_data pg)) :: u32) = length (pg_data pg)" using pl by (intro unat_of_nat_small) simp
    then have "\<not> \<not> (0 :: u32) < of_nat (length (pg_data pg))" using False by (simp add: word_less_nat_alt)
    then have "xd3_encode_input u x = (XD3_OUTPUT, st1)" using Cons.prems(1) by (simp add: st1_def Let_def)
    then have now: "goes_on u x (pg_data pg) (xd3_consume_output st1)"
      by (rule goes_on_output) (use pl in \<open>simp_all add: stream_out_def st1_def\<close>)
    let ?s = "xd3_consume_output st1"
    have "xd3_encode_input u ?s = enc_output pgs ?s"
      using Cons.prems(3) by (simp add: xd3_encode_input_def enc_postout_def st1_def xd3_consume_output_def)
    moreover have "dec_state ?s = DEC_VCHEAD" "avail_out ?s = 0" using Cons.prems(3) by (simp_all add: st1_def xd3_consume_output_def)
    ultimately obtain z where z: "drained ?s z" "goes_on u ?s (out_bytes pgs) z" using Cons.IH [of ?s ?s] Cons.prems(2) by auto
    have "drained st z" using z(1) by (auto simp: drained_def st1_def xd3_consume_output_def)
    then show ?thesis using goes_on_trans [OF now z(2)] ob by auto
  qed
qed

section \<open>A window\<close>

text \<open>The encoder at the start of window number \<open>k\<close>: what does not change during the stream, and the empty sections.\<close>

definition enc_conf :: "u32 \<Rightarrow> bool \<Rightarrow> xd3_stream \<Rightarrow> bool" where
  "enc_conf W ck st \<longleftrightarrow> mem_ok st \<and> flag_set (flags st) XD3_FLUSH \<and> uses_cksum st = ck
     \<and> (flag_set (flags st) XD3_ADLER32 \<or> \<not> flag_set (flags st) XD3_ADLER32_RECODE)
     \<and> src st = None \<and> code_table st = Some xd3_rfc3284_code_table \<and> iopt_unlimited st \<and> winsize st = W
     \<and> small_look (smatcher st) = 4 \<and> enc_appheader st = None \<and> buf_leftover st = None \<and> buf_avail st = 0 \<and> dec_state st = DEC_VCHEAD
     \<and> taroff st = 0 \<and> avail_out st = 0"

definition enc_ready :: "u32 \<Rightarrow> bool \<Rightarrow> nat \<Rightarrow> xd3_stream \<Rightarrow> bool" where
  "enc_ready W ck k st \<longleftrightarrow> enc_conf W ck st \<and> chains_ok st \<and> secs st = ([], [], []) \<and> out_bytes (hdr_out st) = [] \<and> iout st = None
     \<and> iopt_used st = [] \<and> cache_room (acache st) \<and> match_ready st \<and> current_window st = of_nat k"

lemma match_ready_cong:
  assumes "flags st' = flags st" "small_hash st' = small_hash st" "smatcher st' = smatcher st" "sprevmask st' = sprevmask st"
    "sprevsz st' = sprevsz st" "small_table st' = small_table st" "small_prev st' = small_prev st" "small_reset st' = small_reset st"
  shows "match_ready st' = match_ready st"
  unfolding match_ready_def tables_ok_def assms by (rule refl)

lemma match_ready_again:
  assumes "match_ready b" "tables_ok x" "flags x = flags b" "small_hash x = small_hash b" "smatcher x = smatcher b" "sprevmask x = sprevmask b"
    "sprevsz x = sprevsz b"
  shows "match_ready (x\<lparr>small_reset := True\<rparr>)"
proof -
  have "tables_ok (x\<lparr>small_reset := True\<rparr>) = tables_ok x" by (simp add: tables_ok_def cong: option.case_cong)
  then show ?thesis using assms by (auto simp: match_ready_def)
qed

text \<open>All but the header section after a window: the sections are in the header chain.\<close>

definition enc_done :: "u32 \<Rightarrow> bool \<Rightarrow> nat \<Rightarrow> xd3_stream \<Rightarrow> bool" where
  "enc_done W ck k st \<longleftrightarrow> enc_conf W ck st \<and> pool_wf st \<and> list_all page_wf (hdr_out st) \<and> 4 \<le> length (hdr_out st) \<and> iout st = None
     \<and> iopt_used st = [] \<and> cache_room (acache st) \<and> match_ready (st\<lparr>small_reset := True\<rparr>) \<and> current_window st = of_nat k"

lemma drained_done:
  assumes "drained st st'" "enc_done W ck k st"
  shows "enc_done W ck k st'" "enc_state st' = ENC_POSTWIN"
proof -
  obtain i t q where st': "st' = st\<lparr>total_in := i, avail_out := 0, total_out := t, enc_current := [], enc_next_out := q, enc_state := ENC_POSTWIN\<rparr>"
    using assms(1) by (auto simp: drained_def)
  have "match_ready (st'\<lparr>small_reset := True\<rparr>) = match_ready (st\<lparr>small_reset := True\<rparr>)" by (rule match_ready_cong) (simp_all add: st')
  then show "enc_done W ck k st'" using assms(2) by (simp add: enc_done_def st' enc_conf_def mem_ok_def uses_cksum_def pool_wf_def)
  show "enc_state st' = ENC_POSTWIN" by (simp add: st')
qed

lemma next_ready:
  assumes "enc_done W ck k st"
  shows "\<exists>st'. enc_postwin st = (XD3_INPUT, st') \<and> enc_ready W ck (Suc k) st' \<and> enc_state st' = ENC_INPUT \<and> avail_in st' = 0"
proof -
  note d = assms [unfolded enc_done_def enc_conf_def]
  obtain p0 p1 p2 p3 ps where h: "hdr_out st = p0 # p1 # p2 # p3 # ps"
    using d by (cases "hdr_out st" rule: list.exhaust; auto simp: Suc_le_length_iff numeral_eq_Suc)
  define s where "s = st\<lparr>avail_in := 0, small_reset := True, i_slots_used := 0, hdr_out := [empty_page p0], data_out := [empty_page p1],
      inst_out := [empty_page p2], addr_out := [empty_page p3], enc_free := rev (map (\<lambda>pg. pg\<lparr>pg_data := []\<rparr>) ps) @ enc_free st,
      current_window := current_window st + 1, enc_state := ENC_INPUT\<rparr>"
  have "enc_postwin st = (XD3_INPUT, s)"
    using h d by (simp add: enc_postwin_def xd3_encode_reset_def Let_def freelist_output_eq s_def)
  moreover have "enc_ready W ck (Suc k) s"
  proof -
    have "match_ready s = match_ready (st\<lparr>small_reset := True\<rparr>)" by (rule match_ready_cong) (simp_all add: s_def)
    moreover have "page_wf (empty_page p) \<and> page_wf (p\<lparr>pg_data := []\<rparr>)" if "page_wf p" for p using that by (simp add: page_wf_def empty_page_def)
    then have "chains_ok s" using d h by (auto simp: chains_ok_def s_def chain_wf_def pool_wf_def list_all_iff)
    moreover have "secs s = ([], [], [])" "out_bytes (hdr_out s) = []" by (simp_all add: secs_def s_def out_bytes_def empty_page_def)
    ultimately show ?thesis using d by (simp add: enc_ready_def enc_conf_def) (simp add: s_def mem_ok_def uses_cksum_def)
  qed
  ultimately show ?thesis by (intro exI [of _ s]) (simp add: s_def)
qed

lemma window_begins:
  assumes "enc_ready W ck k st" "avail_in st = of_nat (length inp)" "length inp \<le> length (next_in st)" "take (length inp) (next_in st) = inp"
    and "length inp \<le> unat XD3_HARDMAXWINSIZE"
  shows "\<exists>b. enc_begin st = (XD3_WINSTART, b) \<and> enc_state b = ENC_SEARCH \<and> enc_window_begin inp b \<and> sm_conf inp b \<and> match_ready b
    \<and> enc_conf W ck b \<and> out_bytes (hdr_out b) = [] \<and> iopt_used b = [] \<and> input_position b = 0 \<and> acache b = default_cache \<and> current_window b = of_nat k"
proof -
  note d = assms(1) [unfolded enc_ready_def enc_conf_def]
  define b where "b = st\<lparr>acache := default_cache, input_position := 0, min_match := of_nat MIN_MATCH, unencoded_offset := 0, enc_state := ENC_SEARCH\<rparr>"
  have u: "unat (avail_in st) = length inp" using assms(2,5) by (simp add: unat_of_nat_small XD3_HARDMAXWINSIZE_def)
  have "enc_begin st = (XD3_WINSTART, b)" using d by (simp add: enc_begin_def init_cache_default b_def)
  moreover have "chains_ok b = chains_ok st" "secs b = secs st" by (simp_all add: b_def chains_ok_def pool_wf_def secs_def)
  then have "enc_window_begin inp b" using d u assms(3,4) cache_ok_default
    by (simp add: enc_window_begin_def enc_base_def win_fits_def) (simp add: b_def)
  moreover have "sm_conf inp b" using d u assms(3-5) by (simp add: sm_conf_def b_def XD3_HARDMAXWINSIZE_def)
  moreover have "match_ready b = match_ready st" by (rule match_ready_cong) (simp_all add: b_def)
  ultimately show ?thesis using d by (intro exI [of _ b]) (simp add: b_def enc_conf_def mem_ok_def uses_cksum_def)
qed

end
