(* ===== verification/Xd3_Stream_Windows.thy ===== *)
theory Xd3_Stream_Windows
  imports Xd3_Stream_Encode
begin

text \<open>
  One turn of the encoder: from the input of a window to the state in which it asks for the input of the following
  one.  The bytes that have been output in between are the window in the sense of the theory of files, before the first window
  also the header of the file.
\<close>

section \<open>From the matcher to the pages\<close>

lemma enc_conf_searched: "enc_conf W ck st \<Longrightarrow> mframe st st1 \<Longrightarrow> enc_conf W ck st1"
  using mouter_fields [of st1 st] by (simp add: enc_conf_def mframe_def same_win_def mem_ok_def uses_cksum_def)

lemma enc_conf_later: "enc_conf W ck st \<Longrightarrow> later file st st1 \<Longrightarrow> win_fits st1 \<Longrightarrow> enc_conf W ck st1"
  using outer_fields [of st1 st] by (simp add: enc_conf_def later_def mem_ok_def uses_cksum_def win_fits_def)

lemma tables_ok_cong:
  "flags st1 = flags st \<Longrightarrow> small_table st1 = small_table st \<Longrightarrow> small_prev st1 = small_prev st \<Longrightarrow> smatcher st1 = smatcher st
    \<Longrightarrow> sprevmask st1 = sprevmask st \<Longrightarrow> tables_ok st1 = tables_ok st"
  by (simp add: tables_ok_def cong: option.case_cong)

definition window_out :: "bool \<Rightarrow> nat \<Rightarrow> u8 list \<Rightarrow> u8 list \<Rightarrow> bool" where
  "window_out ck k inp bs \<longleftrightarrow> (\<exists>ws. bs = (if k = 0 then file_header else []) @ ws \<and> encodes_window ck inp ws)"

text \<open>The bytes of the pages are the front and the sections.\<close>

lemma flushed_pages:
  assumes y: "enc_base inp y" "iout y = None" "iopt_used y = []" "enc_conf W ck y" "out_bytes (hdr_out y) = []" "current_window y = of_nat k" "k < 2 ^ 32"
    and inp: "0 < length inp" "length inp \<le> unat XD3_HARDMAXWINSIZE"
    and sem: "vrun xd3_rfc3284_code_table [] (length inp) (vstart default_cache (secs y))
      = Some \<lparr>v_inst = [], v_addr = [], v_data = [], v_cache = acache y, v_tgt = inp\<rparr>"
    and match: "match_ready b" "tables_ok y" "flags y = flags b" "small_hash y = small_hash b" "smatcher y = smatcher b" "sprevmask y = sprevmask b"
      "sprevsz y = sprevsz b"
  shows "\<exists>pages z. enc_flush (y\<lparr>enc_state := ENC_FLUSH\<rparr>) = enc_output pages z \<and> list_all page_wf pages \<and> window_out ck k inp (out_bytes pages)
    \<and> enc_done W ck k z"
proof -
  define f where "f = y\<lparr>enc_state := ENC_FLUSH\<rparr>"
  note c = y(4) [unfolded enc_conf_def]
  have f: "enc_base inp f" "secs f = secs y"
  proof -
    have "chains_ok f = chains_ok y" "win_fits f = win_fits y" by (simp_all add: chains_ok_def pool_wf_def win_fits_def f_def cong: option.case_cong)
    then show "enc_base inp f" using y(1) by (simp add: enc_base_def) (simp add: f_def)
    show "secs f = secs y" by (simp add: secs_def f_def)
  qed
  have fm: "mem_ok f" "src f = None" "enc_appheader f = None" "flag_set (flags f) XD3_ADLER32 \<or> \<not> flag_set (flags f) XD3_ADLER32_RECODE"
    "uses_cksum f = ck" using c by (simp_all add: f_def mem_ok_def uses_cksum_def)
  have k: "current_window f = 0 \<longleftrightarrow> k = 0" using y(6,7) by (simp add: f_def word_unat_eq_iff unat_of_nat_small)
  obtain z where z: "xd3_emit_hdr f = (XD3_OK, z)" "hdr_step f z" "chains_ok z"
      "out_bytes (hdr_out z) = (if k = 0 then file_header else []) @ window_front ck inp (secs y)"
    using emit_hdr_writes [OF f(1) fm(1-4)] y(5) f(2) k fm(5) by (auto simp: hdr_adds_def f_def)
  obtain i a d where sec: "secs y = (i, a, d)" by (metis prod_cases3)
  obtain c n fr m e p where zf: "z = f\<lparr>alloc_calls := c, alloc_cnt := n, free_cnt := fr, msg := m, enc_free := e, hdr_out := p\<rparr>"
    using z(2) by (auto simp: hdr_step_def)
  define pages where "pages = hdr_out z @ data_out z @ inst_out z @ addr_out z"
  define z' where "z' = z\<lparr>hdr_out := pages, data_out := [], inst_out := [], addr_out := []\<rparr>"
  have "out_bytes pages = (if k = 0 then file_header else []) @ window_bytes ck inp (secs y)"
    using z(4) sec by (simp add: pages_def window_bytes_def window_front_def secs_def zf f_def out_bytes_def)
  moreover have "encodes_window ck inp (window_bytes ck inp (secs y))"
  proof -
    have "cache_ok (acache y)" using y(1) by (simp add: enc_base_def)
    then show ?thesis using inp sem unfolding encodes_window_def by blast
  qed
  ultimately have "window_out ck k inp (out_bytes pages)" by (auto simp: window_out_def)
  moreover have "enc_flush f = enc_output pages z'" by (simp add: enc_flush_def z(1) Let_def pages_def z'_def)
  moreover have pw: "list_all page_wf pages" "4 \<le> length pages"
  proof -
    have ne: "hdr_out z \<noteq> []" "data_out z \<noteq> []" "inst_out z \<noteq> []" "addr_out z \<noteq> []" using z(3) by (simp_all add: chains_ok_def chain_wf_def)
    show "list_all page_wf pages" using z(3) by (simp add: pages_def chains_ok_def chain_wf_def)
    have "Suc 0 \<le> length (hdr_out z) \<and> Suc 0 \<le> length (data_out z) \<and> Suc 0 \<le> length (inst_out z) \<and> Suc 0 \<le> length (addr_out z)"
      using ne by (simp add: Suc_le_eq)
    then show "4 \<le> length pages" by (simp add: pages_def)
  qed
  moreover have "enc_done W ck k z'"
  proof -
    have "tables_ok z' = tables_ok y" by (rule tables_ok_cong) (simp_all add: z'_def zf f_def)
    then have "match_ready (z'\<lparr>small_reset := True\<rparr>)" using match
      by (intro match_ready_again [OF match(1)]) (simp_all add: z'_def zf f_def)
    moreover have "enc_conf W ck z'" using y(4) by (simp add: enc_conf_def z'_def zf f_def mem_ok_def uses_cksum_def)
    moreover have "pool_wf z'" using z(3) by (simp add: chains_ok_def pool_wf_def z'_def)
    moreover have "hdr_out z' = pages" "iout z' = None" "iopt_used z' = []" "acache z' = acache y" "current_window z' = of_nat k"
      using y(2,3,6) by (simp_all add: z'_def zf f_def)
    ultimately show ?thesis using pw y(1) by (simp add: enc_done_def enc_base_def cache_ok_room)
  qed
  ultimately show ?thesis unfolding f_def by blast
qed

lemma window_written:
  assumes b: "enc_window_begin inp b" "sm_conf inp b" "match_ready b" "enc_conf W ck b" "out_bytes (hdr_out b) = []" "iopt_used b = []"
      "input_position b = 0" "acache b = default_cache" "current_window b = of_nat k" "k < 2 ^ 32"
    and inp: "0 < length inp" "length inp \<le> unat XD3_HARDMAXWINSIZE"
  shows "\<exists>pages z. enc_search u b = enc_output pages z \<and> list_all page_wf pages \<and> window_out ck k inp (out_bytes pages) \<and> enc_done W ck k z"
proof -
  have mem: "mem_ok b" using b(4) by (simp add: enc_conf_def)
  obtain x where x: "enc_window_begin inp x" "buffer_ok [] inp x" "mframe b x" "tables_ok x" "enc_search u b = enc_instr x"
    using search_instructions [OF b(1-3,6,7), of u] mem by (auto simp: no_mem_def)
  have cx: "enc_conf W ck x" by (rule enc_conf_searched [OF b(4) x(3)])
  have mx: "mem_ok x" using cx by (simp add: enc_conf_def)
  obtain y where y: "bind_ok (xd3_iopt_flush_instructions True x) xd3_iopt_add_finalize = (XD3_OK, y)" "enc_base inp y" "later [] x y"
      "iout y = None" "iopt_used y = []"
    and sem: "\<And>S. seg [] y S \<Longrightarrow> vrun xd3_rfc3284_code_table S (length inp) (vstart (acache x) (secs y))
      = Some \<lparr>v_inst = [], v_addr = [], v_data = [], v_cache = acache y, v_tgt = inp\<rparr>"
    using encode_window_end [OF x(1,2) _ mx] by auto
  have cy: "enc_conf W ck y" using enc_conf_later [OF cx y(3)] y(2) by (simp add: enc_base_def)
  have "seg [] y []" using cy by (simp add: seg_def enc_conf_def)
  moreover have "acache x = default_cache" using x(3) b(8) by (simp add: mframe_def)
  ultimately have sem0: "vrun xd3_rfc3284_code_table [] (length inp) (vstart default_cache (secs y))
      = Some \<lparr>v_inst = [], v_addr = [], v_data = [], v_cache = acache y, v_tgt = inp\<rparr>" using sem by fastforce
  have mo: "mouter x = mouter b" and ou: "outer y = outer x" using x(3) y(3) by (simp_all add: mframe_def later_def)
  note fx = mouter_fields [OF mo] and fy = outer_fields [OF ou]
  have "tables_ok y = tables_ok x" by (rule tables_ok_cong) (simp_all add: fy)
  moreover have "hdr_out x = hdr_out b" "flags x = flags b" "small_hash x = small_hash b" "smatcher x = smatcher b" "sprevmask x = sprevmask b"
    using x(3) by (simp_all add: mframe_def)
  ultimately have "\<exists>pages z. enc_flush (y\<lparr>enc_state := ENC_FLUSH\<rparr>) = enc_output pages z \<and> list_all page_wf pages
      \<and> window_out ck k inp (out_bytes pages) \<and> enc_done W ck k z"
    using b(5,9) x(4) fx fy by (intro flushed_pages [OF y(2,4,5) cy _ _ b(10) inp sem0 b(3)]) simp_all
  moreover have "enc_search u b = enc_flush (y\<lparr>enc_state := ENC_FLUSH\<rparr>)" using x(5) y(1) by (simp add: enc_instr_def)
  ultimately show ?thesis by simp
qed

section \<open>A turn of the driver\<close>

lemma window_goes_on:
  assumes start: "xd3_encode_input u x = enc_begin st" and ready: "enc_ready W ck k st" "k < 2 ^ 32"
    and inp: "avail_in st = of_nat (length inp)" "length inp \<le> length (next_in st)" "take (length inp) (next_in st) = inp"
      "0 < length inp" "length inp \<le> unat XD3_HARDMAXWINSIZE"
  shows "\<exists>bs st' st2. window_out ck k inp bs \<and> goes_on u x bs st' \<and> xd3_encode_input u st' = (XD3_INPUT, st2)
    \<and> enc_ready W ck (Suc k) st2 \<and> enc_state st2 = ENC_INPUT \<and> avail_in st2 = 0"
proof -
  obtain b where b: "enc_begin st = (XD3_WINSTART, b)" "enc_state b = ENC_SEARCH" "enc_window_begin inp b" "sm_conf inp b" "match_ready b"
    "enc_conf W ck b" "out_bytes (hdr_out b) = []" "iopt_used b = []" "input_position b = 0" "acache b = default_cache" "current_window b = of_nat k"
    using window_begins [OF ready(1) inp(1-3,5)] by blast
  obtain pages z where z: "enc_search u b = enc_output pages z" "list_all page_wf pages" "window_out ck k inp (out_bytes pages)" "enc_done W ck k z"
    using window_written [OF b(3-11) ready(2) inp(4,5)] by blast
  have "xd3_encode_input u b = enc_output pages z"
    using b(2,6) z(1) by (simp add: xd3_encode_input_def enc_conf_def)
  then obtain st' where st': "drained z st'" "goes_on u b (out_bytes pages) st'"
    using enc_output_goes_on [of u b pages z] z(2,4) by (auto simp: enc_done_def enc_conf_def)
  have "goes_on u x [] b" using start b(1) by (intro goes_on_skip) auto
  from goes_on_trans [OF this st'(2)] have "goes_on u x (out_bytes pages) st'" by simp
  moreover have "xd3_encode_input u st' = enc_postwin st'"
    using drained_done [OF st'(1) z(4)] by (simp add: xd3_encode_input_def enc_done_def enc_conf_def)
  moreover obtain st2 where "enc_postwin st' = (XD3_INPUT, st2)" "enc_ready W ck (Suc k) st2" "enc_state st2 = ENC_INPUT" "avail_in st2 = 0"
    using next_ready [OF drained_done(1) [OF st'(1) z(4)]] by blast
  ultimately show ?thesis using z(3) by metis
qed

section \<open>The whole input\<close>

definition written :: "bool \<Rightarrow> nat \<Rightarrow> u8 list \<Rightarrow> u8 list \<Rightarrow> bool" where
  "written ck k inp out \<longleftrightarrow> (if k = 0 then inp = [] \<and> out = [] else encodes_file ck inp out)"

lemma written_next: "written ck k inp out \<Longrightarrow> window_out ck k inp1 bs \<Longrightarrow> written ck (Suc k) (inp @ inp1) (out @ bs)"
  using encodes_windows_snoc [OF no_window]
  by (fastforce simp: written_def window_out_def encodes_file_def intro: encodes_windows_snoc split: if_splits)

text \<open>The input from \<open>p\<close> on has still to be read, of which the next window is in the stream; \<open>pre\<close> is the file so far.\<close>

lemma input_goes_on:
  assumes "xd3_encode_input u x = enc_begin st" "enc_ready W ck k st" "k \<le> p" "0 < W" "W \<le> XD3_HARDMAXWINSIZE" "p < length input" "length input < 2 ^ 32"
    "n = min (unat W) (length input - p)" "avail_in st = of_nat n" "next_in st = drop p input" "written ck k (take p input) pre"
  shows "\<exists>bs y. encodes_file ck input (pre @ bs) \<and> (\<forall>omax out. unat omax + 16384 < 2 ^ 32 \<longrightarrow> length out \<le> unat omax \<longrightarrow>
     (if length out + length bs \<le> unat omax
      then process_loop (xd3_encode_input u) True input (of_nat (length input)) omax (of_nat (p + n)) out x = Some (XD3_OK, out @ bs, y)
      else \<exists>out' s. process_loop (xd3_encode_input u) True input (of_nat (length input)) omax (of_nat (p + n)) out x = Some (ENOSPC, out', s)))"
  using assms
proof (induction "length input - p" arbitrary: x st k p n pre rule: less_induct)
  case less
  note prems = less.prems
  let ?inp = "take n (drop p input)"
  let ?loop = "process_loop (xd3_encode_input u) True input (of_nat (length input))"
  have W: "0 < unat W" "unat W \<le> unat XD3_HARDMAXWINSIZE" using prems(4,5) by (simp_all add: word_less_nat_alt word_le_nat_alt)
  have n: "0 < n" "n \<le> unat XD3_HARDMAXWINSIZE" "p + n \<le> length input" using prems(6,8) W by auto
  have li: "length ?inp = n" using n by simp
  have "\<exists>bs st' st2. window_out ck k ?inp bs \<and> goes_on u x bs st' \<and> xd3_encode_input u st' = (XD3_INPUT, st2)
    \<and> enc_ready W ck (Suc k) st2 \<and> enc_state st2 = ENC_INPUT \<and> avail_in st2 = 0"
    by (rule window_goes_on [OF prems(1,2)]) (use prems(3,6,7,9,10) n li in auto)
  then obtain bs st1 st2 where w: "window_out ck k ?inp bs" "goes_on u x bs st1" "xd3_encode_input u st1 = (XD3_INPUT, st2)"
    "enc_ready W ck (Suc k) st2" "enc_state st2 = ENC_INPUT" "avail_in st2 = 0" by blast
  note c = w(4) [unfolded enc_ready_def enc_conf_def]
  have wr: "written ck (Suc k) (take (p + n) input) (pre @ bs)" using written_next [OF prems(11) w(1)] by (simp add: take_add)
  have room: "(of_nat (length input) :: u32) - of_nat (p + n) = of_nat (length input - (p + n))"
    using n(3) by (simp add: of_nat_diff)
  define n' where "n' = min (unat W) (length input - (p + n))"
  have nw: "min (winsize st2) (of_nat (length input) - of_nat (p + n)) = of_nat n'"
  proof -
    have "unat (of_nat (length input - (p + n)) :: u32) = length input - (p + n)" using prems(7) by (intro unat_of_nat_small) simp
    then show ?thesis using c room by (auto simp: n'_def min_def word_le_nat_alt)
  qed
  show ?case
  proof (cases "p + n = length input")
    case True
    have fin: "?loop omax (of_nat (p + n)) out st1 = Some (XD3_OK, out, st2)" for omax out
      using w(3,5,6) c nw True by (subst process_loop.simps) (simp add: xd3_close_stream_def n'_def)
    have "if length out + length bs \<le> unat omax then ?loop omax (of_nat (p + n)) out x = Some (XD3_OK, out @ bs, st2)
        else \<exists>out' s. ?loop omax (of_nat (p + n)) out x = Some (ENOSPC, out', s)"
      if "unat omax + 16384 < 2 ^ 32" "length out \<le> unat omax" for omax out
      using goes_onD [OF w(2) that, where cl = True and input = input and insz = "of_nat (length input)" and inpos = "of_nat (p + n)"] unfolding fin .
    moreover have "encodes_file ck input (pre @ bs)" using wr True by (simp add: written_def)
    ultimately show ?thesis by blast
  next
    case False
    define st3 where "st3 = xd3_avail_input (drop (p + n) input) (of_nat n') st2"
    have n'0: "0 < n'" "n' < 2 ^ 32" using n(3) False W prems(7) by (auto simp: n'_def)
    have "unat (of_nat (p + n) :: u32) = p + n" using n(3) prems(7) by (intro unat_of_nat_small) simp
    moreover have "(of_nat n' :: u32) \<noteq> 0" using n'0 by (simp add: word_unat_eq_iff unat_of_nat_small)
    ultimately have turn: "?loop omax (of_nat (p + n)) out st1 = ?loop omax (of_nat (p + n + n')) out st3" for omax out
      using w(3) nw by (subst process_loop.simps) (simp add: Let_def st3_def)
    have r3: "enc_ready W ck (Suc k) st3"
    proof -
      have "match_ready st3 = match_ready st2" by (rule match_ready_cong) (simp_all add: st3_def xd3_avail_input_def)
      then show ?thesis using c by (simp add: enc_ready_def enc_conf_def)
        (simp add: st3_def xd3_avail_input_def mem_ok_def uses_cksum_def chains_ok_def pool_wf_def secs_def)
    qed
    have e3: "xd3_encode_input u st3 = enc_begin st3" using c w(5) by (simp add: xd3_encode_input_def enc_input_def st3_def xd3_avail_input_def)
    have "length input - (p + n) < length input - p" using n prems(6) by simp
    from less.hyps [OF this e3 r3, of n' "pre @ bs"] obtain cs y where cs: "encodes_file ck input ((pre @ bs) @ cs)"
      "\<forall>omax out. unat omax + 16384 < 2 ^ 32 \<longrightarrow> length out \<le> unat omax \<longrightarrow>
       (if length out + length cs \<le> unat omax then ?loop omax (of_nat (p + n + n')) out st3 = Some (XD3_OK, out @ cs, y)
        else \<exists>out' s. ?loop omax (of_nat (p + n + n')) out st3 = Some (ENOSPC, out', s))"
      using prems(3-7) n wr False by (auto simp: n'_def st3_def xd3_avail_input_def)
    have "if length out + length (bs @ cs) \<le> unat omax then ?loop omax (of_nat (p + n)) out x = Some (XD3_OK, out @ (bs @ cs), y)
        else \<exists>out' s. ?loop omax (of_nat (p + n)) out x = Some (ENOSPC, out', s)"
      if o: "unat omax + 16384 < 2 ^ 32" "length out \<le> unat omax" for omax out
    proof -
      have first: "if length out + length bs \<le> unat omax then ?loop omax (of_nat (p + n)) out x = ?loop omax (of_nat (p + n + n')) (out @ bs) st3
          else \<exists>out' s. ?loop omax (of_nat (p + n)) out x = Some (ENOSPC, out', s)"
        using goes_onD [OF w(2) o, where cl = True and input = input and insz = "of_nat (length input)" and inpos = "of_nat (p + n)"] unfolding turn .
      have second: "if length (out @ bs) + length cs \<le> unat omax then ?loop omax (of_nat (p + n + n')) (out @ bs) st3 = Some (XD3_OK, (out @ bs) @ cs, y)
          else \<exists>out' s. ?loop omax (of_nat (p + n + n')) (out @ bs) st3 = Some (ENOSPC, out', s)" if "length (out @ bs) \<le> unat omax"
        using cs(2) o(1) that by blast
      show ?thesis using first second by (cases "length out + length bs \<le> unat omax") (auto split: if_splits)
    qed
    moreover have "encodes_file ck input (pre @ (bs @ cs))" using cs(1) by simp
    ultimately show ?thesis by blast
  qed
qed

end
