(* ===== verification/Xd3_Stream_Roundtrip.thy ===== *)
theory Xd3_Stream_Roundtrip
  imports Xd3_Stream_Windows Xd3_Stream_Decode
begin

text \<open>
  The stream a client configures is ready for the encoder, so that \<open>xd3_encode_stream\<close> on it writes a file of the theory of
  files; with the theorem on whole decodings, \<open>xd3_decode_memory\<close> gives back the input of \<open>xd3_encode_stream\<close>.
\<close>

section \<open>The setup of the encoder\<close>

definition fresh_page :: xd3_output where
  "fresh_page = \<lparr>pg_data = [], pg_avail = XD3_ALLOCSIZE\<rparr>"

lemma init_sect_fresh:
  assumes "mem_ok st" "enc_free st = []"
  obtains c n where "init_sect upd st = (XD3_OK, upd [fresh_page] (st\<lparr>alloc_calls := c, alloc_cnt := n\<rparr>))"
proof -
  let ?s = "st\<lparr>alloc_calls := Suc (alloc_calls st), alloc_cnt := Suc (alloc_cnt st)\<rparr>"
  have "mem_ok ?s" using assms(1) by (simp add: mem_ok_def)
  from alloc_mem_ok [OF this, of XD3_ALLOCSIZE 1] alloc_mem_ok [OF assms(1), of 1 24] show ?thesis
    using assms(2) that by (simp add: init_sect_def xd3_alloc_output_def fresh_page_def)
qed

lemma alloc_iopt_fresh:
  assumes "mem_ok st"
  obtains c n a l where "xd3_alloc_iopt k st = (XD3_OK, st\<lparr>alloc_calls := c, alloc_cnt := n, iopt_alloc := a, iopt_free := l\<rparr>)"
proof -
  let ?s = "st\<lparr>alloc_calls := Suc (alloc_calls st), alloc_cnt := Suc (alloc_cnt st)\<rparr>"
  have "mem_ok ?s" using assms(1) by (simp add: mem_ok_def)
  from alloc_mem_ok [OF this, of sizeof_rinst k] alloc_mem_ok [OF assms(1), of 16 1] show ?thesis
    using that by (simp add: xd3_alloc_iopt_def)
qed

text \<open>A configured stream, before its first window.\<close>

definition enc_fresh :: "u32 \<Rightarrow> bool \<Rightarrow> xd3_stream \<Rightarrow> bool" where
  "enc_fresh W ck st \<longleftrightarrow> enc_conf W ck (st\<lparr>code_table := Some xd3_rfc3284_code_table\<rparr>) \<and> enc_state st = ENC_INIT \<and> enc_free st = []
     \<and> code_table_desc st = Some rfc3284_code_table_desc \<and> iout st = None \<and> current_window st = 0 \<and> small_table st = None \<and> small_prev st = None
     \<and> 0 < small_chain (smatcher st) \<and> 0 < small_lchain (smatcher st) \<and> unat (sprevmask st) < unat (sprevsz st)"

lemma encode_init_ready:
  assumes "enc_fresh W ck st"
  shows "\<exists>s. xd3_encode_init_full st = (XD3_OK, s) \<and> enc_ready W ck 0 (s\<lparr>enc_state := ENC_INPUT\<rparr>)
    \<and> next_in s = next_in st \<and> avail_in s = avail_in st \<and> in_given s = in_given st"
proof -
  note f = assms [unfolded enc_fresh_def enc_conf_def, simplified]
  define s1 where "s1 = (if flag_set (flags st) XD3_NOCOMPRESS then st else st\<lparr>small_hash := xd3_size_hashtable (winsize st)\<rparr>)"
  have h: "encode_hashes st = (XD3_OK, s1)" using f by (simp add: encode_hashes_def s1_def)
  have m: "mem_ok s1" "enc_free s1 = []" using f by (simp_all add: s1_def mem_ok_def)
  obtain c2 n2 where s2: "init_sect (\<lambda>pgs s. s\<lparr>hdr_out := pgs\<rparr>) s1 = (XD3_OK, s1\<lparr>alloc_calls := c2, alloc_cnt := n2, hdr_out := [fresh_page]\<rparr>)"
    (is "_ = (_, ?s2)") by (rule init_sect_fresh [OF m, where upd = "\<lambda>pgs s. s\<lparr>hdr_out := pgs\<rparr>"]) simp
  obtain c3 n3 where s3: "init_sect (\<lambda>pgs s. s\<lparr>data_out := pgs\<rparr>) ?s2 = (XD3_OK, ?s2\<lparr>alloc_calls := c3, alloc_cnt := n3, data_out := [fresh_page]\<rparr>)"
    (is "_ = (_, ?s3)") by (rule init_sect_fresh [of ?s2, where upd = "\<lambda>pgs s. s\<lparr>data_out := pgs\<rparr>"]) (use m in \<open>simp_all add: mem_ok_def\<close>)
  obtain c4 n4 where s4: "init_sect (\<lambda>pgs s. s\<lparr>inst_out := pgs\<rparr>) ?s3 = (XD3_OK, ?s3\<lparr>alloc_calls := c4, alloc_cnt := n4, inst_out := [fresh_page]\<rparr>)"
    (is "_ = (_, ?s4)") by (rule init_sect_fresh [of ?s3, where upd = "\<lambda>pgs s. s\<lparr>inst_out := pgs\<rparr>"]) (use m in \<open>simp_all add: mem_ok_def\<close>)
  obtain c5 n5 where s5: "init_sect (\<lambda>pgs s. s\<lparr>addr_out := pgs\<rparr>) ?s4 = (XD3_OK, ?s4\<lparr>alloc_calls := c5, alloc_cnt := n5, addr_out := [fresh_page]\<rparr>)"
    (is "_ = (_, ?s5)") by (rule init_sect_fresh [of ?s4, where upd = "\<lambda>pgs s. s\<lparr>addr_out := pgs\<rparr>"]) (use m in \<open>simp_all add: mem_ok_def\<close>)
  let ?s6 = "?s5\<lparr>iopt_used := [], iopt_free := []\<rparr>"
  obtain c7 n7 a7 l7 where s7: "xd3_alloc_iopt (iopt_size ?s6) ?s6
      = (XD3_OK, ?s6\<lparr>alloc_calls := c7, alloc_cnt := n7, iopt_alloc := a7, iopt_free := l7\<rparr>)" (is "_ = (_, ?s7)")
    by (rule alloc_iopt_fresh [of ?s6]) (use m in \<open>simp_all add: mem_ok_def\<close>)
  let ?s8 = "?s7\<lparr>acache := (acache ?s7)\<lparr>s_near := 4, s_same := 3\<rparr>, code_table := Some xd3_rfc3284_code_table\<rparr>"
  obtain c9 n9 f9 ac9 where s9: "xd3_alloc_cache ?s8 = (XD3_OK, ?s8\<lparr>alloc_calls := c9, alloc_cnt := n9, free_cnt := f9, acache := ac9\<rparr>)"
      (is "_ = (_, ?s9)") and ac9: "cache_room ac9"
    by (rule alloc_cache_room [of ?s8]) (use m in \<open>simp_all add: mem_ok_def\<close>)
  have d: "code_table_desc ?s7 = Some rfc3284_code_table_desc" "ucast (near_modes rfc3284_code_table_desc) = (4 :: u32)"
    "ucast (same_modes rfc3284_code_table_desc) = (3 :: u32)" using f by (simp_all add: s1_def rfc3284_code_table_desc_def)
  have "xd3_encode_init_full st = (XD3_OK, ?s9)"
    unfolding xd3_encode_init_full_def xd3_encode_init_def if_True h bind_ok_simps s2 s3 s4 s5 Let_def s7 prod.case d option.case using s9 by simp
  moreover have "enc_ready W ck 0 (?s9\<lparr>enc_state := ENC_INPUT\<rparr>)"
  proof -
    define y where "y = ?s9\<lparr>enc_state := ENC_INPUT\<rparr>"
    have ys: "flags y = flags st" "small_table y = None" "small_prev y = None" "smatcher y = smatcher st" "sprevmask y = sprevmask st"
      "sprevsz y = sprevsz st" "flag_set (flags st) XD3_NOCOMPRESS \<or> small_hash y = xd3_size_hashtable (winsize st)"
      using f by (simp_all add: y_def s1_def)
    have "match_ready y" using ys f hash_in_table by (auto simp: match_ready_def tables_ok_def word_less_nat_alt)
    moreover have "page_wf fresh_page" "pg_data fresh_page = []" by (simp_all add: fresh_page_def page_wf_def)
    then have "chains_ok y" "secs y = ([], [], [])" "out_bytes (hdr_out y) = []"
      using m(2) by (simp_all add: y_def chains_ok_def chain_wf_def pool_wf_def secs_def out_bytes_def)
    moreover have "enc_conf W ck y" using f by (simp add: enc_conf_def y_def s1_def mem_ok_def uses_cksum_def)
    ultimately show ?thesis unfolding y_def [symmetric] using f ac9 by (simp add: enc_ready_def) (simp add: y_def s1_def)
  qed
  ultimately show ?thesis by (intro exI [of _ ?s9]) (simp add: s1_def)
qed

section \<open>The configuration\<close>

lemma small_matchers:
  assumes "sm = level_smatcher l \<or> sm = smatcher_default \<or> sm = smatcher_slow \<or> sm = smatcher_fastest \<or> sm = smatcher_faster \<or> sm = smatcher_fast"
  shows "small_look sm = 4" "0 < small_chain sm" "0 < small_lchain sm"
  using assms by (auto simp: level_smatcher_def smatcher_default_def smatcher_slow_def smatcher_fastest_def smatcher_faster_def
      smatcher_fast_def smatch_def)

text \<open>What \<open>xd3_encode_stream\<close> needs of a configuration: an unlimited instruction buffer, a window size within the limit, one of the
  built-in matchers and no request to repeat the checksum of an input that is itself a delta.\<close>

definition plain_encoding :: "xd3_config \<Rightarrow> bool" where
  "plain_encoding cfg \<longleftrightarrow> cfg_iopt_size cfg = 0 \<and> cfg_alloc cfg = None \<and> cfg_winsize cfg \<le> XD3_HARDMAXWINSIZE
     \<and> cfg_smatch_cfg cfg \<noteq> XD3_SMATCH_SOFT
     \<and> (flag_set (cfg_flags cfg) XD3_ADLER32 \<or> \<not> flag_set (cfg_flags cfg) XD3_ADLER32_RECODE)"

definition config_window :: "xd3_config \<Rightarrow> u32" where
  "config_window cfg = (if cfg_winsize cfg = 0 then XD3_DEFAULT_WINSIZE else cfg_winsize cfg)"

definition config_cksum :: "xd3_config \<Rightarrow> bool" where
  "config_cksum cfg \<longleftrightarrow> flag_set (cfg_flags cfg) (XD3_ADLER32 OR XD3_ADLER32_RECODE)"

lemma flag_set_or: "flag_set (a OR b) c \<longleftrightarrow> flag_set a c \<or> flag_set b c"
  by (simp add: flag_set_def bit.conj_disj_distrib2 or_eq_0_iff)

lemma flush_flags: "flag_set XD3_FLUSH XD3_FLUSH" "\<not> flag_set XD3_FLUSH XD3_ADLER32" "\<not> flag_set XD3_FLUSH XD3_ADLER32_RECODE"
    "\<not> flag_set XD3_FLUSH (XD3_ADLER32 OR XD3_ADLER32_RECODE)"
  by (simp_all add: flag_set_def XD3_FLUSH_def XD3_ADLER32_def XD3_ADLER32_RECODE_def)

lemma config_fresh:
  assumes plain: "plain_encoding cfg" and mem: "\<And>n a b. malloc n a b"
    and conf: "xd3_config_stream malloc junk (Some cfg) = (XD3_OK, st)"
  shows "enc_fresh (config_window cfg) (config_cksum cfg) (xd3_avail_input inp n (st\<lparr>flags := flags st OR XD3_FLUSH\<rparr>))"
    "winsize st = config_window cfg"
proof -
  note p = plain [unfolded plain_encoding_def]
  define s0 where "s0 = config_initial malloc junk cfg"
  obtain s1 s2 s3 where c: "config_secondary s0 = (XD3_OK, s1)" "config_table s1 = (XD3_OK, s2)" "config_sprev s2 = (XD3_OK, s3)"
    "config_smatcher cfg s3 = (XD3_OK, st)"
    using conf pow2_checks(1) by (auto simp: xd3_config_stream_def s0_def Let_def bind_ok_OK_iff)
  have s1: "s1 = s0" using c(1) by (auto simp: config_secondary_def Let_def fail_with_def split: if_splits)
  have s2: "s2 = s0\<lparr>code_table_desc := Some rfc3284_code_table_desc\<rparr>" using c(2) s1
    by (auto simp: config_table_def fail_with_def split: if_splits)
  have f0: "small_chain (smatcher s0) = 0" "sprevsz s0 \<noteq> 0" "alloc s0 = malloc" "src s0 = None" "iopt_unlimited s0" "winsize s0 = config_window cfg"
    "enc_appheader s0 = None" "buf_leftover s0 = None" "buf_avail s0 = 0" "dec_state s0 = DEC_VCHEAD" "taroff s0 = 0" "avail_out s0 = 0"
    "enc_state s0 = ENC_INIT" "enc_free s0 = []" "iout s0 = None" "current_window s0 = 0" "small_table s0 = None" "small_prev s0 = None"
    "flags s0 = cfg_flags cfg"
    using p by (simp_all add: s0_def config_initial_def config_window_def null_stream_defs smatcher_null_def smatch_def XD3_DEFAULT_SPREVSZ_def)
  have s3: "s3 = s2\<lparr>sprevmask := sprevsz s2 - 1\<rparr>" using c(3) f0(1) s2
    by (auto simp: config_sprev_def fail_with_def split: if_splits)
  obtain sm where st: "st = s3\<lparr>smatcher := sm\<rparr>" "small_look sm = 4" "0 < small_chain sm" "0 < small_lchain sm"
  proof -
    define m where "m = (case cfg_smatch_cfg cfg of XD3_SMATCH_SLOW \<Rightarrow> smatcher_slow | XD3_SMATCH_FASTEST \<Rightarrow> smatcher_fastest
      | XD3_SMATCH_FASTER \<Rightarrow> smatcher_faster | XD3_SMATCH_FAST \<Rightarrow> smatcher_fast | _ \<Rightarrow> smatcher_default)"
    define l where "l = drop_bit XD3_COMPLEVEL_SHIFT (flags s3 AND XD3_COMPLEVEL_MASK)"
    have soft: "cfg_smatch_cfg cfg \<noteq> XD3_SMATCH_SOFT" using p by blast
    then have "st = s3\<lparr>smatcher := m\<rparr> \<or> st = s3\<lparr>smatcher := level_smatcher l\<rparr>"
      using c(4) by (cases "cfg_smatch_cfg cfg") (simp_all add: config_smatcher_def fail_with_def m_def l_def split: if_split_asm)
    moreover have "m = smatcher_default \<or> m = smatcher_slow \<or> m = smatcher_fastest \<or> m = smatcher_faster \<or> m = smatcher_fast"
      by (simp add: m_def split: xd3_smatch_cfg.split)
    ultimately obtain sm where "st = s3\<lparr>smatcher := sm\<rparr>" and sm: "sm = level_smatcher l \<or> sm = smatcher_default \<or> sm = smatcher_slow
      \<or> sm = smatcher_fastest \<or> sm = smatcher_faster \<or> sm = smatcher_fast" by metis
    then show ?thesis using that [of sm] small_matchers [OF sm] by simp
  qed
  have "unat (sprevsz s0 - 1) < unat (sprevsz s0)" by (rule measure_unat [OF f0(2)])
  moreover have "alloc st = alloc s0" "src st = src s0" "iopt_unlimited st = iopt_unlimited s0" "winsize st = winsize s0" "smatcher st = sm"
    "enc_appheader st = enc_appheader s0" "buf_leftover st = buf_leftover s0" "buf_avail st = buf_avail s0" "dec_state st = dec_state s0"
    "taroff st = taroff s0" "avail_out st = avail_out s0" "enc_state st = enc_state s0" "enc_free st = enc_free s0" "iout st = iout s0"
    "current_window st = current_window s0" "small_table st = small_table s0" "small_prev st = small_prev s0" "flags st = flags s0"
    "code_table_desc st = Some rfc3284_code_table_desc" "sprevmask st = sprevsz s0 - 1" "sprevsz st = sprevsz s0"
    by (simp_all add: st(1) s3 s2)
  note fs = this
  show "winsize st = config_window cfg" by (simp add: fs f0)
  have "flag_set (cfg_flags cfg) XD3_ADLER32 \<or> \<not> flag_set (cfg_flags cfg) XD3_ADLER32_RECODE" using p by blast
  ultimately show "enc_fresh (config_window cfg) (config_cksum cfg) (xd3_avail_input inp n (st\<lparr>flags := flags st OR XD3_FLUSH\<rparr>))"
    unfolding enc_fresh_def enc_conf_def xd3_avail_input_def
    by (simp add: fs f0 st(2-4) mem mem_ok_def uses_cksum_def config_cksum_def flag_set_or flush_flags)
qed

section \<open>Whole streams\<close>

lemma encode_stream_writes_file:
  assumes "plain_encoding cfg" "\<And>n a b. malloc n a b" "xd3_config_stream malloc junk (Some cfg) = (XD3_OK, st)"
    and "0 < length input" "length input < 2 ^ 32"
  shows "\<exists>delta y. encodes_file (config_cksum cfg) input delta \<and> (\<forall>omax. unat omax + 16384 < 2 ^ 32 \<longrightarrow>
    (if length delta \<le> unat omax then xd3_encode_stream u input (of_nat (length input)) omax st = Some (XD3_OK, delta, y)
     else \<exists>out s. xd3_encode_stream u input (of_nat (length input)) omax st = Some (ENOSPC, out, s)))"
proof -
  define W where "W = config_window cfg"
  define n where "n = min (unat W) (length input)"
  define x where "x = xd3_avail_input input (of_nat n) (st\<lparr>flags := flags st OR XD3_FLUSH\<rparr>)"
  have W: "0 < W" "W \<le> XD3_HARDMAXWINSIZE"
    using assms(1) by (auto simp: W_def config_window_def plain_encoding_def XD3_DEFAULT_WINSIZE_def XD3_HARDMAXWINSIZE_def word_gt_0)
  have x: "enc_fresh W (config_cksum cfg) x" "winsize st = W"
    using config_fresh [OF assms(1-3)] by (simp_all add: x_def W_def)
  obtain s where s: "xd3_encode_init_full x = (XD3_OK, s)" "enc_ready W (config_cksum cfg) 0 (s\<lparr>enc_state := ENC_INPUT\<rparr>)"
    "next_in s = input" "avail_in s = of_nat n" "in_given s"
    using encode_init_ready [OF x(1)] by (auto simp: x_def xd3_avail_input_def)
  have e: "xd3_encode_input u x = enc_begin (s\<lparr>enc_state := ENC_INPUT\<rparr>)"
    using x(1) s(1,5) by (simp add: xd3_encode_input_def enc_fresh_def enc_conf_def enc_input_def)
  have nw: "min (winsize st) (of_nat (length input)) = of_nat n"
  proof -
    have "unat (of_nat (length input) :: u32) = length input" using assms(5) by (intro unat_of_nat_small) simp
    then show ?thesis using x(2) by (auto simp: n_def min_def word_le_nat_alt)
  qed
  let ?loop = "process_loop (xd3_encode_input u) True input (of_nat (length input))"
  have "\<exists>bs y. encodes_file (config_cksum cfg) input ([] @ bs) \<and> (\<forall>omax out. unat omax + 16384 < 2 ^ 32 \<longrightarrow> length out \<le> unat omax \<longrightarrow>
     (if length out + length bs \<le> unat omax then ?loop omax (of_nat (0 + n)) out x = Some (XD3_OK, out @ bs, y)
      else \<exists>out' s. ?loop omax (of_nat (0 + n)) out x = Some (ENOSPC, out', s)))"
    by (rule input_goes_on [OF e s(2) _ W assms(4,5)]) (use s(3,4) in \<open>simp_all add: n_def written_def\<close>)
  then obtain delta y where d: "encodes_file (config_cksum cfg) input delta"
    "\<And>omax out. unat omax + 16384 < 2 ^ 32 \<Longrightarrow> length out \<le> unat omax \<Longrightarrow>
     (if length out + length delta \<le> unat omax then ?loop omax (of_nat n) out x = Some (XD3_OK, out @ delta, y)
      else \<exists>out' s. ?loop omax (of_nat n) out x = Some (ENOSPC, out', s))"
    unfolding append_Nil add_0 by blast
  have run: "xd3_encode_stream u input (of_nat (length input)) omax st
      = process_loop (xd3_encode_input u) True input (of_nat (length input)) omax (of_nat n) [] x" for omax
    by (simp add: xd3_encode_stream_def xd3_process_stream_def Let_def nw x_def)
  have "if length delta \<le> unat omax then xd3_encode_stream u input (of_nat (length input)) omax st = Some (XD3_OK, delta, y)
     else \<exists>out s. xd3_encode_stream u input (of_nat (length input)) omax st = Some (ENOSPC, out, s)"
    if "unat omax + 16384 < 2 ^ 32" for omax
    using d(2) [OF that, of "[]"] unfolding run by simp
  then show ?thesis using d(1) by blast
qed

section \<open>Properties\<close>

text \<open>C1. Encoding and decoding whole streams without a source, end to end.  The configuration is \<open>plain_encoding\<close>: an
  unlimited instruction buffer, one of the built-in string matchers (not \<open>XD3_SMATCH_SOFT\<close>), a window of at most 2^24 bytes, the
  default allocator, and no \<open>XD3_ADLER32_RECODE\<close> without \<open>XD3_ADLER32\<close>; the allocator never fails; the input is not empty and shorter
  than 2^32 bytes.  Then there is one delta that \<open>xd3_encode_stream\<close> returns for every output maximum the delta fits in, while it
  returns \<open>ENOSPC\<close> for every smaller one; the maxima are those that stay below 2^32 with a page (16384 bytes) added.  And if the delta
  has at most 8 MB (\<open>XD3_DEFAULT_WINSIZE\<close>), then \<open>xd3_decode_memory\<close> applied to it, with memory and an output buffer at least as long
  as the input, returns the input.\<close>

theorem stream_roundtrip:
  assumes "plain_encoding cfg" "\<And>n a b. malloc n a b" "xd3_config_stream malloc junk (Some cfg) = (XD3_OK, st)"
    and "0 < length input" "length input < 2 ^ 32"
  shows "\<exists>delta. (\<forall>omax. unat omax + 16384 < 2 ^ 32 \<longrightarrow>
      (\<exists>r out st'. xd3_encode_stream u input (of_nat (length input)) omax st = Some (r, out, st')
        \<and> (if length delta \<le> unat omax then r = XD3_OK \<and> out = delta else r = ENOSPC)))
    \<and> (length delta \<le> unat XD3_DEFAULT_WINSIZE \<longrightarrow> (\<forall>malloc' junk' ss omax'. (\<forall>n a b. malloc' n a b) \<longrightarrow> length input \<le> unat omax' \<longrightarrow>
        xd3_decode_memory malloc' junk' (Some delta) (of_nat (length delta)) None ss True omax' 0 = (XD3_OK, input)))"
proof -
  obtain delta y where d: "encodes_file (config_cksum cfg) input delta" "\<And>omax. unat omax + 16384 < 2 ^ 32 \<Longrightarrow>
      (if length delta \<le> unat omax then xd3_encode_stream u input (of_nat (length input)) omax st = Some (XD3_OK, delta, y)
       else \<exists>out s. xd3_encode_stream u input (of_nat (length input)) omax st = Some (ENOSPC, out, s))"
    using encode_stream_writes_file [OF assms] by metis
  show ?thesis
  proof (intro exI [of _ delta] conjI allI impI)
    fix omax :: u32 assume "unat omax + 16384 < 2 ^ 32"
    from d(2) [OF this] show "\<exists>r out st'. xd3_encode_stream u input (of_nat (length input)) omax st = Some (r, out, st')
        \<and> (if length delta \<le> unat omax then r = XD3_OK \<and> out = delta else r = ENOSPC)" by (auto split: if_splits)
  next
    fix malloc' :: "nat \<Rightarrow> u32 \<Rightarrow> u32 \<Rightarrow> bool" and junk' ss and omax' :: u32
    assume "length delta \<le> unat XD3_DEFAULT_WINSIZE" "\<forall>n a b. malloc' n a b" "length input \<le> unat omax'"
    then show "xd3_decode_memory malloc' junk' (Some delta) (of_nat (length delta)) None ss True omax' 0 = (XD3_OK, input)"
      using decode_memory_file [OF d(1)] by blast
  qed
qed

definition sample_config :: xd3_config where
  "sample_config = null_config\<lparr>cfg_winsize := 2, cfg_flags := XD3_ADLER32\<rparr>"

definition sample_stream :: xd3_stream where
  "sample_stream = snd (xd3_config_stream (\<lambda>_ _ _. True) (\<lambda>_. 0) (Some sample_config))"

lemma sample_config_ok: "xd3_config_stream (\<lambda>_ _ _. True) (\<lambda>_. 0) (Some sample_config) = (XD3_OK, sample_stream)"
proof -
  have "fst (xd3_config_stream (\<lambda>_ _ _. True) (\<lambda>_. 0) (Some sample_config)) = XD3_OK"
    by (simp add: sample_config_def xd3_config_stream_def config_initial_def null_config_def null_stream_defs pow2_checks config_secondary_def
      config_table_def config_sprev_def config_smatcher_def Let_def flag_set_def smatcher_null_def smatch_def
      XD3_ADLER32_def XD3_SEC_TYPE_def XD3_SEC_DJW_def XD3_SEC_FGK_def XD3_SEC_LZMA_def XD3_SEC_NOALL_def XD3_SEC_NODATA_def XD3_SEC_NOINST_def
      XD3_SEC_NOADDR_def XD3_ALT_CODE_TABLE_def XD3_COMPLEVEL_MASK_def XD3_COMPLEVEL_SHIFT_def)
  then show ?thesis unfolding sample_stream_def by (metis prod.collapse)
qed

theorem stream_roundtrip_witness:
  "\<exists>delta. (\<forall>omax. unat omax + 16384 < 2 ^ 32 \<longrightarrow>
      (\<exists>r out st'. xd3_encode_stream True [7, 7, 7, 7, 9] 5 omax sample_stream = Some (r, out, st')
        \<and> (if length delta \<le> unat omax then r = XD3_OK \<and> out = delta else r = ENOSPC)))
    \<and> (length delta \<le> unat XD3_DEFAULT_WINSIZE \<longrightarrow> (\<forall>malloc' junk' ss omax'. (\<forall>n a b. malloc' n a b) \<longrightarrow> length ([7, 7, 7, 7, 9] :: u8 list) \<le> unat omax' \<longrightarrow>
        xd3_decode_memory malloc' junk' (Some delta) (of_nat (length delta)) None ss True omax' 0 = (XD3_OK, [7, 7, 7, 7, 9])))"
proof -
  have "plain_encoding sample_config"
    by (simp add: plain_encoding_def sample_config_def null_config_def XD3_HARDMAXWINSIZE_def flag_set_def XD3_ADLER32_def)
  from stream_roundtrip [OF this _ sample_config_ok, of "[7, 7, 7, 7, 9]" True] show ?thesis by simp
qed

text \<open>C2. The decoder decodes the files described by \<open>encodes_file\<close>.  These have the header of five bytes (no application header, no code
  table, no secondary compressor) and any number of windows, all with a checksum or all without; each window has from 1 to 2^24 bytes, no
  copy window (neither \<open>VCD_SOURCE\<close> nor \<open>VCD_TARGET\<close>), its lengths in minimal encoding, and sections that mean its part of
  the result under the specification of windows.  If such a file has at most 8 MB (\<open>XD3_DEFAULT_WINSIZE\<close>), the allocator never
  fails and the output buffer has room for the result, \<open>xd3_decode_memory\<close> returns the parts one after the other, whatever
  fresh memory holds.\<close>

theorem decode_file_correct:
  assumes "encodes_file ck input delta" "length delta \<le> unat XD3_DEFAULT_WINSIZE" "\<And>n a b. malloc n a b" "length input \<le> unat omax"
  shows "xd3_decode_memory malloc junk (Some delta) (of_nat (length delta)) None ss True omax 0 = (XD3_OK, input)"
  using assms by (rule decode_memory_file)

lemma run_file: "file_header @ window_bytes False [7, 7, 7, 7, 7, 7] ([0, 6], [], [7]) = [214, 195, 196, 0, 0, 0, 8, 6, 0, 1, 2, 0, 7, 0, 6]"
  by code_simp
lemma run_sections: "vrun xd3_rfc3284_code_table [] (length ([7, 7, 7, 7, 7, 7] :: u8 list)) (vstart default_cache ([0, 6], [], [7]))
    = Some \<lparr>v_inst = [], v_addr = [], v_data = [], v_cache = default_cache, v_tgt = [7, 7, 7, 7, 7, 7]\<rparr>"
proof -
  have r: "xd3_read_uint32_t [6 :: u8] = Inr (6, [])" by code_simp
  have l: "length ([7, 7, 7, 7, 7, 7] :: u8 list) = 6" by simp
  have "replicate 6 x = [x, x, x, x, x, x]" for x :: u8 by (simp add: numeral_eq_Suc)
  then show ?thesis unfolding l
    by (simp add: vrun.simps vstart_def vinst_def rfc3284_run vhalf_def vsize_def r inst_consts Let_def dinst_def)
qed

theorem decode_file_correct_witness:
  "xd3_decode_memory (\<lambda>_ _ _. True) (\<lambda>_. 0) (Some [214, 195, 196, 0, 0, 0, 8, 6, 0, 1, 2, 0, 7, 0, 6]) 15 None 0 True 6 0
    = (XD3_OK, [7, 7, 7, 7, 7, 7])"
proof -
  have "encodes_window False [7, 7, 7, 7, 7, 7] (window_bytes False [7, 7, 7, 7, 7, 7] ([0, 6], [], [7]))"
    unfolding encodes_window_def
    by (intro conjI exI [of _ "([0, 6], [], [7])"] exI [of _ default_cache] run_sections cache_ok_default) (simp_all add: XD3_HARDMAXWINSIZE_def)
  from next_window [OF this no_window] have "encodes_file False [7, 7, 7, 7, 7, 7] [214, 195, 196, 0, 0, 0, 8, 6, 0, 1, 2, 0, 7, 0, 6]"
    unfolding encodes_file_def run_file [symmetric] by auto
  from decode_file_correct [OF this, of "\<lambda>_ _ _. True" 6 "\<lambda>_. 0" 0] show ?thesis by (simp add: XD3_DEFAULT_WINSIZE_def)
qed

end
