(* ===== verification/Xd3_Merge.thy ===== *)
theory Xd3_Merge
  imports Xd3_Process
begin

text \<open>
  Merging deltas (xdelta3-merge.h): a whole delta is kept as a list of instructions over its target, with the bytes
  of its ADD and RUN instructions and the data of its windows (\<open>xd3_whole_state\<close> in xdelta3.h).  Decoded windows
  are appended to it, and two of them are composed: each copy of the second delta from its source, which is the
  target of the first, is replaced by the instructions of the first that produce these bytes.

  The arrays grow by reallocation.  The model keeps an array as the list of the elements in use with the size of its
  block in bytes; an element behind the end of the block is \<open>C_UB\<close>.  The recursion of \<open>xd3_merge_source_copy\<close> need
  not end on data that no decoder made, so it is a partial function into \<open>option\<close>.
\<close>

section \<open>State\<close>

record xd3_winst =
  w_type :: u8
  w_mode :: u8
  w_size :: u32
  w_addr :: u64
  w_position :: u64

record xd3_wininfo =
  wi_offset :: u64
  wi_length :: u32
  wi_adler32 :: u32

record xd3_whole_state =
  ws_adds :: "u8 list"
  adds_alloc :: u32
  ws_inst :: "xd3_winst list"
  inst_alloc :: u32
  ws_wininfo :: "xd3_wininfo list"
  wininfo_alloc :: u32
  ws_length :: u64

definition null_whole :: xd3_whole_state where
  "null_whole = \<lparr>ws_adds = [], adds_alloc = 0, ws_inst = [], inst_alloc = 0, ws_wininfo = [], wininfo_alloc = 0, ws_length = 0\<rparr>"

text \<open>The stream with the field that only the merge command fills.\<close>

record xd3_wstream = xd3_stream +
  whole_target :: xd3_whole_state

definition sizeof_winst :: u32 where "sizeof_winst = 24"
definition sizeof_wininfo :: u32 where "sizeof_wininfo = 16"

definition xd3_whole_state_init :: "xd3_wstream \<Rightarrow> xd3_ret \<times> xd3_wstream" where
  "xd3_whole_state_init st =
    (let st0 = st\<lparr>whole_target := (whole_target st)\<lparr>adds_alloc := XD3_ALLOCSIZE, inst_alloc := XD3_ALLOCSIZE,
                     wininfo_alloc := XD3_ALLOCSIZE\<rparr>\<rparr> in
     case xd3_alloc (adds_alloc (whole_target st0)) 1 st0 of
       (False, st1) \<Rightarrow> (ENOMEM, st1)
     | (True, st1) \<Rightarrow>
        (case xd3_alloc (inst_alloc (whole_target st1)) 1 st1 of
           (False, st2) \<Rightarrow> (ENOMEM, st2)
         | (True, st2) \<Rightarrow>
            (case xd3_alloc (wininfo_alloc (whole_target st2)) 1 st2 of
               (False, st3) \<Rightarrow> (ENOMEM, st3)
             | (True, st3) \<Rightarrow> (XD3_OK, st3))))"

text \<open>The results are the two states in their new places.\<close>

definition xd3_swap_whole_state :: "xd3_whole_state \<Rightarrow> xd3_whole_state \<Rightarrow> xd3_whole_state \<times> xd3_whole_state" where
  "xd3_swap_whole_state a b = (let tmp = a; a1 = b; b1 = tmp in (a1, b1))"

section \<open>Growing arrays\<close>

text \<open>The result has the new size of the block; the old block is freed when there was one, that is, when its size is
  not zero.  All sums and products are 32-bit.\<close>

definition xd3_realloc_buffer :: "u32 \<Rightarrow> u32 \<Rightarrow> u32 \<Rightarrow> u32 \<Rightarrow> xd3_wstream \<Rightarrow> xd3_ret \<times> u32 \<times> xd3_wstream" where
  "xd3_realloc_buffer current_units unit_size new_units alloc_size st =
    (let needed = (current_units + new_units) * unit_size in
     if needed \<le> alloc_size then (XD3_OK, alloc_size, st)
     else
       let cur_size = current_units * unit_size; new_alloc = xd3_round_blksize (needed * 2) XD3_ALLOCSIZE in
       case xd3_alloc new_alloc 1 st of
         (False, st1) \<Rightarrow> (ENOMEM, alloc_size, st1)
       | (True, st1) \<Rightarrow>
          (if cur_size > new_alloc then (C_UB, alloc_size, st1)
           else (XD3_OK, new_alloc, if alloc_size \<noteq> 0 then xd3_free st1 else st1)))"

definition fresh_winst :: "'a xd3_base_scheme \<Rightarrow> xd3_winst" where
  "fresh_winst st = \<lparr>w_type = uninit st 0, w_mode = uninit st 1, w_size = ucast (uninit st 4), w_addr = ucast (uninit st 8),
     w_position = ucast (uninit st 16)\<rparr>"

definition fresh_wininfo :: "'a xd3_base_scheme \<Rightarrow> xd3_wininfo" where
  "fresh_wininfo st = \<lparr>wi_offset = ucast (uninit st 0), wi_length = ucast (uninit st 8), wi_adler32 = ucast (uninit st 12)\<rparr>"

text \<open>A new last instruction, not yet filled, and the way its fields are set.\<close>

definition xd3_whole_alloc_winst :: "xd3_wstream \<Rightarrow> xd3_ret \<times> xd3_wstream" where
  "xd3_whole_alloc_winst st =
    (let ws = whole_target st; n = length (ws_inst ws) in
     case xd3_realloc_buffer (of_nat n) sizeof_winst 1 (inst_alloc ws) st of
       (r, a, st1) \<Rightarrow>
         if r \<noteq> XD3_OK then (r, st1)
         else if unat a < (n + 1) * unat sizeof_winst then (C_UB, st1)
         else (XD3_OK, st1\<lparr>whole_target := ws\<lparr>inst_alloc := a, ws_inst := ws_inst ws @ [fresh_winst st1]\<rparr>\<rparr>))"

definition set_last_winst :: "(xd3_winst \<Rightarrow> xd3_winst) \<Rightarrow> xd3_wstream \<Rightarrow> xd3_wstream" where
  "set_last_winst f st =
    st\<lparr>whole_target := (whole_target st)\<lparr>ws_inst := butlast (ws_inst (whole_target st)) @ [f (last (ws_inst (whole_target st)))]\<rparr>\<rparr>"

text \<open>Room for \<open>count\<close> more bytes, and appending them.\<close>

definition xd3_whole_alloc_adds :: "u32 \<Rightarrow> xd3_wstream \<Rightarrow> xd3_ret \<times> xd3_wstream" where
  "xd3_whole_alloc_adds count st =
    (let ws = whole_target st in
     case xd3_realloc_buffer (of_nat (length (ws_adds ws))) 1 count (adds_alloc ws) st of
       (r, a, st1) \<Rightarrow> (r, if r \<noteq> XD3_OK then st1 else st1\<lparr>whole_target := ws\<lparr>adds_alloc := a\<rparr>\<rparr>))"

definition append_adds :: "u8 list \<Rightarrow> xd3_wstream \<Rightarrow> xd3_ret \<times> xd3_wstream" where
  "append_adds bs st =
    (let ws = whole_target st in
     if unat (adds_alloc ws) < length (ws_adds ws) + length bs then (C_UB, st)
     else (XD3_OK, st\<lparr>whole_target := ws\<lparr>ws_adds := ws_adds ws @ bs\<rparr>\<rparr>))"

definition xd3_whole_alloc_wininfo :: "xd3_wstream \<Rightarrow> xd3_ret \<times> xd3_wstream" where
  "xd3_whole_alloc_wininfo st =
    (let ws = whole_target st; n = length (ws_wininfo ws) in
     case xd3_realloc_buffer (of_nat n) sizeof_wininfo 1 (wininfo_alloc ws) st of
       (r, a, st1) \<Rightarrow>
         if r \<noteq> XD3_OK then (r, st1)
         else if unat a < (n + 1) * unat sizeof_wininfo then (C_UB, st1)
         else (XD3_OK, st1\<lparr>whole_target := ws\<lparr>wininfo_alloc := a, ws_wininfo := ws_wininfo ws @ [fresh_wininfo st1]\<rparr>\<rparr>))"

definition set_last_wininfo :: "xd3_wininfo \<Rightarrow> xd3_wstream \<Rightarrow> xd3_wstream" where
  "set_last_wininfo w st =
    st\<lparr>whole_target := (whole_target st)\<lparr>ws_wininfo := butlast (ws_wininfo (whole_target st)) @ [w]\<rparr>\<rparr>"

definition add_length :: "u32 \<Rightarrow> xd3_wstream \<Rightarrow> xd3_wstream" where
  "add_length n st = st\<lparr>whole_target := (whole_target st)\<lparr>ws_length := ws_length (whole_target st) + ucast n\<rparr>\<rparr>"

section \<open>Appending decoded windows\<close>

text \<open>The bytes of an ADD or RUN are taken from the data section without a check of what is left of it.\<close>

definition take_data :: "nat \<Rightarrow> xd3_wstream \<Rightarrow> xd3_ret \<times> xd3_wstream" where
  "take_data n st =
    (let buf = sect_buf (data_sect st) in
     if length buf < n then (C_UB, st)
     else bind_ok (append_adds (take n buf) st) (\<lambda>st1. (XD3_OK, upd_data_sect ((data_sect st1)\<lparr>sect_buf := drop n buf\<rparr>) st1)))"

definition xd3_whole_append_inst :: "xd3_hinst \<Rightarrow> xd3_wstream \<Rightarrow> xd3_ret \<times> xd3_wstream" where
  "xd3_whole_append_inst inst st =
    bind_ok (xd3_whole_alloc_winst st)
      (\<lambda>st1. let st2 = add_length (h_size inst) (set_last_winst (\<lambda>w. w\<lparr>w_type := h_type inst, w_mode := 0, w_size := h_size inst,
                    w_position := ws_length (whole_target st1)\<rparr>) st1) in
        bind_ok
          (if h_type inst = XD3_ADD \<or> h_type inst = XD3_RUN
           then xd3_whole_alloc_adds (if h_type inst = XD3_RUN then 1 else h_size inst) st2 else (XD3_OK, st2))
          (\<lambda>st3. let pos = of_nat (length (ws_adds (whole_target st3))) in
            if h_type inst = XD3_RUN then take_data 1 (set_last_winst (\<lambda>w. w\<lparr>w_addr := pos\<rparr>) st3)
            else if h_type inst = XD3_ADD then take_data (unat (h_size inst)) (set_last_winst (\<lambda>w. w\<lparr>w_addr := pos\<rparr>) st3)
            else if h_addr inst < dec_cpylen st3
              then (XD3_OK, set_last_winst (\<lambda>w. w\<lparr>w_mode := ucast (SRCORTGT (dec_win_ind st3)), w_addr := dec_cpyoff st3 + ucast (h_addr inst)\<rparr>) st3)
            else (XD3_OK, set_last_winst (\<lambda>w. w\<lparr>w_addr := dec_winstart st3 + ucast (h_addr inst) - ucast (dec_cpylen st3)\<rparr>) st3)))"

text \<open>The loop over the instructions; each takes at least one byte of their section.\<close>

function whole_append_loop :: "xd3_wstream \<Rightarrow> xd3_ret \<times> xd3_wstream" where
  "whole_append_loop st =
    (if sect_buf (inst_sect st) = [] then (XD3_OK, st)
     else
       (case bind_ok (xd3_decode_instruction st)
          (\<lambda>st1. bind_ok (if h_type (dec_current1 st1) \<noteq> XD3_NOOP then xd3_whole_append_inst (dec_current1 st1) st1 else (XD3_OK, st1))
             (\<lambda>st2. if h_type (dec_current2 st2) \<noteq> XD3_NOOP then xd3_whole_append_inst (dec_current2 st2) st2 else (XD3_OK, st2))) of
          (r, st3) \<Rightarrow>
            if r \<noteq> XD3_OK then (r, st3)
            else if length (sect_buf (inst_sect st3)) < length (sect_buf (inst_sect st)) then whole_append_loop st3
            else (C_LOOP, st3)))"
  by pat_completeness auto
termination by (relation "measure (\<lambda>st. length (sect_buf (inst_sect st)))") auto

declare whole_append_loop.simps [simp del]

definition xd3_whole_append_window :: "xd3_wstream \<Rightarrow> xd3_ret \<times> xd3_wstream" where
  "xd3_whole_append_window st =
    bind_ok (xd3_whole_alloc_wininfo st)
      (\<lambda>st1. whole_append_loop
         (set_last_wininfo \<lparr>wi_offset = dec_winstart st1, wi_length = dec_tgtlen st1, wi_adler32 = dec_adler32 st1\<rparr> st1))"

section \<open>Composing two deltas\<close>

text \<open>\<open>xd3_merge_run\<close> and \<open>xd3_merge_add\<close> copy an instruction and its bytes.\<close>

definition merge_data :: "nat \<Rightarrow> xd3_whole_state \<Rightarrow> xd3_winst \<Rightarrow> xd3_wstream \<Rightarrow> xd3_ret \<times> xd3_wstream" where
  "merge_data n target iinst st =
    bind_ok (bind_ok (xd3_whole_alloc_winst st) (xd3_whole_alloc_adds (of_nat n)))
      (\<lambda>st1. let st2 = add_length (w_size iinst) (set_last_winst (\<lambda>w. \<lparr>w_type = w_type iinst, w_mode = w_mode iinst, w_size = w_size iinst,
             w_addr = of_nat (length (ws_adds (whole_target st1))), w_position = ws_length (whole_target st1)\<rparr>) st1) in
        if length (ws_adds target) < unat (w_addr iinst) + n then (C_UB, st2)
        else append_adds (take n (drop (unat (w_addr iinst)) (ws_adds target))) st2)"

definition xd3_merge_run :: "xd3_whole_state \<Rightarrow> xd3_winst \<Rightarrow> xd3_wstream \<Rightarrow> xd3_ret \<times> xd3_wstream" where
  "xd3_merge_run target iinst st = merge_data 1 target iinst st"

definition xd3_merge_add :: "xd3_whole_state \<Rightarrow> xd3_winst \<Rightarrow> xd3_wstream \<Rightarrow> xd3_ret \<times> xd3_wstream" where
  "xd3_merge_add target iinst st = merge_data (unat (w_size iinst)) target iinst st"

definition xd3_merge_target_copy :: "xd3_winst \<Rightarrow> xd3_wstream \<Rightarrow> xd3_ret \<times> xd3_wstream" where
  "xd3_merge_target_copy iinst st = bind_ok (xd3_whole_alloc_winst st) (\<lambda>st1. (XD3_OK, set_last_winst (\<lambda>_. iinst) st1))"

text \<open>The binary search of \<open>xd3_merge_find_position\<close>.\<close>

function find_position_loop :: "xd3_winst list \<Rightarrow> u64 \<Rightarrow> nat \<Rightarrow> nat \<Rightarrow> nat option" where
  "find_position_loop inst address low high =
    (if low < high then
       let mid = low + (high - low) div 2; mid_lpos = w_position (inst ! mid) in
       if address < mid_lpos then find_position_loop inst address low mid
       else if address \<ge> mid_lpos + ucast (w_size (inst ! mid)) then find_position_loop inst address (mid + 1) high
       else Some mid
     else None)"
  by pat_completeness auto
termination by (relation "measure (\<lambda>(inst, a, low, high). high - low)") auto

declare find_position_loop.simps [simp del]

definition xd3_merge_find_position :: "xd3_whole_state \<Rightarrow> u64 \<Rightarrow> xd3_wstream \<Rightarrow> (xd3_ret \<times> xd3_wstream) + nat" where
  "xd3_merge_find_position source address st =
    (if address \<ge> ws_length source then Inl (fail_with XD3_INVALID_INPUT ''Invalid copy offset in merge'' st)
     else (case find_position_loop (ws_inst source) address 0 (length (ws_inst source)) of
         Some mid \<Rightarrow> Inr mid
       | None \<Rightarrow> Inl (fail_with XD3_INTERNAL ''Internal error in merge'' st)))"

text \<open>One turn of the loop in \<open>xd3_merge_source_copy\<close> for a RUN, an ADD or a COPY from the source: the part of
  instruction \<open>sinst\<close> from \<open>sinst_offset\<close> on, \<open>this_take\<close> bytes of it.\<close>

definition merge_part :: "xd3_whole_state \<Rightarrow> xd3_winst \<Rightarrow> u32 \<Rightarrow> u32 \<Rightarrow> xd3_wstream \<Rightarrow> xd3_ret \<times> xd3_wstream" where
  "merge_part source sinst sinst_offset this_take st =
    (if w_type sinst = XD3_RUN then
       bind_ok (xd3_whole_alloc_adds 1 st)
         (\<lambda>st1. let st2 = set_last_winst (\<lambda>w. w\<lparr>w_addr := of_nat (length (ws_adds (whole_target st1)))\<rparr>) st1 in
            if length (ws_adds source) \<le> unat (w_addr sinst) then (C_UB, st2)
            else append_adds [ws_adds source ! unat (w_addr sinst)] st2)
     else if w_type sinst = XD3_ADD then
       bind_ok (xd3_whole_alloc_adds this_take st)
         (\<lambda>st1. let st2 = set_last_winst (\<lambda>w. w\<lparr>w_addr := of_nat (length (ws_adds (whole_target st1)))\<rparr>) st1;
                a = unat (w_addr sinst) + unat sinst_offset in
            if length (ws_adds source) < a + unat this_take then (C_UB, st2)
            else append_adds (take (unat this_take) (drop a (ws_adds source))) st2)
     else (XD3_OK, set_last_winst (\<lambda>w. w\<lparr>w_mode := w_mode sinst, w_addr := w_addr sinst + ucast sinst_offset\<rparr>) st))"

text \<open>The loop, from instruction \<open>sinst_num\<close> on.  A COPY of the first delta inside its own target is resolved by a
  recursive call, after the instruction allocated for it is given back.\<close>

partial_function (option) merge_copy_loop ::
    "xd3_whole_state \<Rightarrow> nat \<Rightarrow> xd3_winst \<Rightarrow> xd3_wstream \<Rightarrow> (xd3_ret \<times> xd3_wstream) option" where
  "merge_copy_loop source sinst_num iinst st =
    (if w_size iinst = 0 then Some (XD3_OK, st)
     else if length (ws_inst source) \<le> sinst_num then Some (C_UB, st)
     else
       let sinst = ws_inst source ! sinst_num;
           sinst_offset = ucast (w_addr iinst - w_position sinst) :: u32;
           this_take = min (w_size iinst) (w_size sinst - sinst_offset);
           iinst1 = iinst\<lparr>w_position := w_position iinst + ucast this_take, w_addr := w_addr iinst + ucast this_take,
                          w_size := w_size iinst - this_take\<rparr> in
       case xd3_whole_alloc_winst st of
         (r, st1) \<Rightarrow>
           if r \<noteq> XD3_OK then Some (r, st1)
           else
             let st2 = set_last_winst (\<lambda>w. w\<lparr>w_size := this_take, w_type := w_type sinst, w_position := w_position iinst, w_mode := 0\<rparr>) st1 in
             if w_type sinst = XD3_RUN \<or> w_type sinst = XD3_ADD \<or> w_mode sinst \<noteq> 0 then
               (case merge_part source sinst sinst_offset this_take st2 of
                  (r2, st3) \<Rightarrow> if r2 \<noteq> XD3_OK then Some (r2, st3) else merge_copy_loop source (sinst_num + 1) iinst1 st3)
             else
               let tinst = \<lparr>w_type = XD3_CPY, w_mode = w_mode iinst, w_size = this_take,
                            w_addr = w_addr sinst + ucast sinst_offset, w_position = w_position iinst\<rparr>;
                   st3 = st2\<lparr>whole_target := (whole_target st2)\<lparr>ws_inst := butlast (ws_inst (whole_target st2))\<rparr>\<rparr> in
               (case xd3_merge_find_position source (w_addr tinst) st3 of
                  Inl e \<Rightarrow> Some e
                | Inr num \<Rightarrow>
                   Option.bind (merge_copy_loop source num tinst st3)
                     (\<lambda>(r2, st4). if r2 \<noteq> XD3_OK then Some (r2, st4) else merge_copy_loop source (sinst_num + 1) iinst1 st4)))"

declare merge_copy_loop.simps [code]

definition xd3_merge_source_copy :: "xd3_whole_state \<Rightarrow> xd3_winst \<Rightarrow> xd3_wstream \<Rightarrow> (xd3_ret \<times> xd3_wstream) option" where
  "xd3_merge_source_copy source iinst st =
    (case xd3_merge_find_position source (w_addr iinst) st of
       Inl e \<Rightarrow> Some e
     | Inr num \<Rightarrow> merge_copy_loop source num iinst st)"

fun copy_wininfo :: "xd3_wininfo list \<Rightarrow> xd3_wstream \<Rightarrow> xd3_ret \<times> xd3_wstream" where
  "copy_wininfo [] st = (XD3_OK, st)"
| "copy_wininfo (w # ws) st = bind_ok (xd3_whole_alloc_wininfo st) (\<lambda>st1. copy_wininfo ws (set_last_wininfo w st1))"

definition merge_inst :: "xd3_whole_state \<Rightarrow> xd3_whole_state \<Rightarrow> xd3_winst \<Rightarrow> xd3_wstream \<Rightarrow> (xd3_ret \<times> xd3_wstream) option" where
  "merge_inst source inp iinst st =
    (if w_type iinst = XD3_RUN then Some (xd3_merge_run inp iinst st)
     else if w_type iinst = XD3_ADD then Some (xd3_merge_add inp iinst st)
     else
       map_option (\<lambda>(r, st1). (r, add_length (w_size iinst) st1))
         (if w_mode iinst = 0 \<or> w_mode iinst = ucast VCD_TARGET then Some (xd3_merge_target_copy iinst st)
          else xd3_merge_source_copy source iinst st))"

fun merge_insts :: "xd3_whole_state \<Rightarrow> xd3_whole_state \<Rightarrow> xd3_winst list \<Rightarrow> xd3_wstream \<Rightarrow> (xd3_ret \<times> xd3_wstream) option" where
  "merge_insts source inp [] st = Some (XD3_OK, st)"
| "merge_insts source inp (i # is) st =
    Option.bind (merge_inst source inp i st) (\<lambda>(r, st1). if r \<noteq> XD3_OK then Some (r, st1) else merge_insts source inp is st1)"

text \<open>\<open>xd3_merge_inputs (stream, source, input)\<close>; \<open>None\<close> when the C does not return.\<close>

definition xd3_merge_inputs :: "xd3_whole_state \<Rightarrow> xd3_whole_state \<Rightarrow> xd3_wstream \<Rightarrow> (xd3_ret \<times> xd3_wstream) option" where
  "xd3_merge_inputs source inp st =
    (case copy_wininfo (ws_wininfo inp) st of
       (r, st1) \<Rightarrow> if r \<noteq> XD3_OK then Some (r, st1) else merge_insts source inp (ws_inst inp) st1)"

text \<open>\<open>xd3_merge_input_output (stream, source)\<close>: the temporary stream is configured without a configuration, so it uses
  the C library's allocator \<open>malloc\<close>; when an error ends the call it is not freed.\<close>

definition xd3_merge_input_output ::
    "(nat \<Rightarrow> u32 \<Rightarrow> u32 \<Rightarrow> bool) \<Rightarrow> (nat \<Rightarrow> u8) \<Rightarrow> xd3_whole_state \<Rightarrow> xd3_wstream \<Rightarrow> (xd3_ret \<times> xd3_wstream) option" where
  "xd3_merge_input_output malloc junk source st =
    (case xd3_config_stream malloc junk None of
       (r, tmp) \<Rightarrow>
         if r \<noteq> XD3_OK then Some (r, st)
         else
           (case xd3_whole_state_init (xd3_stream.extend tmp (xd3_wstream.fields null_whole)) of
              (r1, tmp1) \<Rightarrow>
                if r1 \<noteq> XD3_OK then Some (r1, st)
                else
                  Option.bind (xd3_merge_inputs source (whole_target st) tmp1)
                    (\<lambda>(r2, tmp2).
                      if r2 \<noteq> XD3_OK then Some (r2, st)
                      else
                        (case xd3_swap_whole_state (whole_target st) (whole_target tmp2) of
                           (ws, _) \<Rightarrow> Some (fst (xd3_free_stream (xd3_stream.truncate tmp2)), st\<lparr>whole_target := ws\<rparr>)))))"

end
