(* ===== verification/Xd3_Merge_Spec.thy ===== *)
theory Xd3_Merge_Spec
  imports Xd3_Merge Xd3_Decode_Spec Xd3_Encode_Spec
begin

text \<open>
  What a whole delta means, and that merging composes: the instructions of a delta, run in order over a source, give
  its target; the merge of two deltas, run over the source of the first, gives the target of the second.
\<close>

section \<open>The meaning of a whole delta\<close>

text \<open>The bytes that one instruction appends to the target \<open>out\<close>.\<close>

definition from_target :: "xd3_winst \<Rightarrow> bool" where
  "from_target i \<longleftrightarrow> w_mode i = 0 \<or> w_mode i = ucast VCD_TARGET"

definition inst_bytes :: "u8 list \<Rightarrow> u8 list \<Rightarrow> u8 list \<Rightarrow> xd3_winst \<Rightarrow> u8 list option" where
  "inst_bytes file dat out i =
    (let a = unat (w_addr i); n = unat (w_size i) in
     if w_type i = XD3_RUN then (if a < length dat then Some (replicate n (dat ! a)) else None)
     else if w_type i = XD3_ADD then (if a + n \<le> length dat then Some (take n (drop a dat)) else None)
     else if from_target i then (if a < length out then Some (drop (length out) (copy_ext out a n)) else None)
     else (if a + n \<le> length file then Some (take n (drop a file)) else None))"

fun whole_run :: "u8 list \<Rightarrow> u8 list \<Rightarrow> xd3_winst list \<Rightarrow> u8 list \<Rightarrow> u8 list option" where
  "whole_run file dat [] out = Some out"
| "whole_run file dat (i # is) out =
    (if unat (w_position i) = length out \<and> w_size i \<noteq> 0
     then Option.bind (inst_bytes file dat out i) (\<lambda>bs. whole_run file dat is (out @ bs)) else None)"

definition whole_means :: "u8 list \<Rightarrow> xd3_whole_state \<Rightarrow> u8 list \<Rightarrow> bool" where
  "whole_means file ws out \<longleftrightarrow> whole_run file (ws_adds ws) (ws_inst ws) [] = Some out \<and> unat (ws_length ws) = length out"

lemma inst_bytes_length: "inst_bytes file dat out i = Some bs \<Longrightarrow> length bs = unat (w_size i)"
  by (auto simp: inst_bytes_def Let_def split: if_splits)

lemma inst_bytes_adds: "inst_bytes file dat out i = Some bs \<Longrightarrow> inst_bytes file (dat @ extra) out i = Some bs"
  by (auto simp: inst_bytes_def Let_def nth_append split: if_splits)

lemma whole_run_adds: "whole_run file dat is out = Some res \<Longrightarrow> whole_run file (dat @ extra) is out = Some res"
  by (induction "is" arbitrary: out) (auto simp: bind_eq_Some_conv dest: inst_bytes_adds split: if_splits)

lemma whole_run_append:
  "whole_run file dat (is @ js) out = Option.bind (whole_run file dat is out) (whole_run file dat js)"
proof (induction "is" arbitrary: out)
  case (Cons i "is")
  then show ?case by (cases "inst_bytes file dat out i") auto
qed simp

lemma whole_run_snoc:
  assumes "whole_run file dat is [] = Some out" "unat (w_position i) = length out" "w_size i \<noteq> 0" "inst_bytes file dat out i = Some bs"
  shows "whole_run file dat (is @ [i]) [] = Some (out @ bs)"
  using assms by (simp add: whole_run_append)

lemma whole_run_length: "whole_run file dat is out = Some res \<Longrightarrow> length out + length is \<le> length res"
proof (induction "is" arbitrary: out)
  case (Cons i "is")
  then obtain bs where b: "inst_bytes file dat out i = Some bs" "w_size i \<noteq> 0" "whole_run file dat is (out @ bs) = Some res"
    by (auto simp: bind_eq_Some_conv split: if_splits)
  then have "0 < length bs" using inst_bytes_length [OF b(1)] by (simp add: unat_gt_0)
  then show ?case using Cons.IH [OF b(3)] by (cases bs) auto
qed simp

text \<open>An instruction inside a delta that makes \<open>mid\<close>.\<close>

definition inst_in :: "u8 list \<Rightarrow> u8 list \<Rightarrow> u8 list \<Rightarrow> xd3_winst \<Rightarrow> bool" where
  "inst_in file dat mid s \<longleftrightarrow> (let p = unat (w_position s); n = unat (w_size s) in
     0 < n \<and> p + n \<le> length mid \<and> inst_bytes file dat (take p mid) s = Some (take n (drop p mid)))"

lemma whole_run_prefix: "whole_run file dat is out = Some res \<Longrightarrow> take (length out) res = out"
proof (induction "is" arbitrary: out)
  case (Cons i "is")
  then obtain bs where "whole_run file dat is (out @ bs) = Some res" by (auto simp: bind_eq_Some_conv split: if_splits)
  then have "take (length (out @ bs)) res = out @ bs" by (rule Cons.IH)
  then have "take (length out) (take (length (out @ bs)) res) = out" by simp
  then show ?case by (simp add: min_def)
qed simp

lemma whole_run_nth:
  assumes "whole_run file dat is out = Some res" "k < length is"
  shows "inst_in file dat res (is ! k)"
    and "unat (w_position (is ! k)) + unat (w_size (is ! k)) = (if Suc k < length is then unat (w_position (is ! Suc k)) else length res)"
    and "k = 0 \<Longrightarrow> unat (w_position (is ! k)) = length out"
  using assms
proof (induction "is" arbitrary: out k)
  case (Cons i "is")
  {
    case 1
    then obtain bs where b: "unat (w_position i) = length out" "w_size i \<noteq> 0" "inst_bytes file dat out i = Some bs" "whole_run file dat is (out @ bs) = Some res"
      by (auto simp: bind_eq_Some_conv split: if_splits)
    have p: "take (length (out @ bs)) res = out @ bs" by (rule whole_run_prefix [OF b(4)])
    have l: "length bs = unat (w_size i)" by (rule inst_bytes_length [OF b(3)])
    have "length (out @ bs) \<le> length res" using whole_run_length [OF b(4)] by simp
    moreover have "take (length out) res = out" using arg_cong [OF p, of "take (length out)"] by (simp add: min_def)
    moreover have "take (unat (w_size i)) (drop (length out) res) = bs"
      using arg_cong [OF p, of "drop (length out)"] l by (simp add: drop_take)
    ultimately have "inst_in file dat res i" using b l by (simp add: inst_in_def Let_def unat_gt_0)
    then show ?case using Cons.IH(1) [OF b(4)] 1(2) by (cases k) auto
  next
    case 2
    then obtain bs where b: "unat (w_position i) = length out" "inst_bytes file dat out i = Some bs" "whole_run file dat is (out @ bs) = Some res"
      by (auto simp: bind_eq_Some_conv split: if_splits)
    have l: "length bs = unat (w_size i)" by (rule inst_bytes_length [OF b(2)])
    show ?case
    proof (cases k)
      case 0
      then show ?thesis using b l Cons.IH(3) [of 0 "out @ bs"] by (cases "is") auto
    next
      case (Suc m)
      then show ?thesis using Cons.IH(2) [OF b(3)] 2(2) by auto
    qed
  next
    case 3
    then show ?case by (auto split: if_splits)
  }
qed simp_all

lemma whole_run_positions:
  assumes "whole_run file dat is [] = Some res" "j < k" "k < length is"
  shows "unat (w_position (is ! j)) + unat (w_size (is ! j)) \<le> unat (w_position (is ! k))"
  using assms(2,3)
proof (induction k)
  case (Suc k)
  then show ?case using whole_run_nth(2) [OF assms(1), of k] by (cases "j = k") (auto simp: less_Suc_eq)
qed simp

lemma whole_run_covers:
  assumes "whole_run file dat is [] = Some res" "a < length res"
  shows "\<exists>k < length is. unat (w_position (is ! k)) \<le> a \<and> a < unat (w_position (is ! k)) + unat (w_size (is ! k))"
proof (rule ccontr)
  assume none: "\<not> ?thesis"
  have "unat (w_position (is ! k)) \<le> a" if "k < length is" for k
    using that
  proof (induction k)
    case 0
    then show ?case using whole_run_nth(3) [OF assms(1), of 0] by simp
  next
    case (Suc k)
    then have "unat (w_position (is ! k)) + unat (w_size (is ! k)) \<le> a" using none by (auto simp: not_less)
    then show ?case using whole_run_nth(2) [OF assms(1), of k] Suc.prems by simp
  qed
  note below = this
  show False
  proof (cases "is = []")
    case True
    then show ?thesis using assms by simp
  next
    case False
    then obtain m where m: "length is = Suc m" by (cases "is") auto
    then have "unat (w_position (is ! m)) + unat (w_size (is ! m)) = length res" using whole_run_nth(2) [OF assms(1), of m] by simp
    then show ?thesis using below [of m] none m assms(2) by auto
  qed
qed

section \<open>Finding an instruction\<close>

lemma find_position_loop_finds:
  fixes a :: u64
  assumes run: "whole_run file dat is [] = Some res" and len: "length res < 18446744073709551616"
    and c: "c < length is" "unat (w_position (is ! c)) \<le> unat a" "unat a < unat (w_position (is ! c)) + unat (w_size (is ! c))"
  shows "low \<le> c \<Longrightarrow> c < high \<Longrightarrow> high \<le> length is \<Longrightarrow> find_position_loop is a low high = Some c"
proof (induction "high - low" arbitrary: low high rule: less_induct)
  case less
  define mid where "mid = low + (high - low) div 2"
  have m: "low \<le> mid" "mid < high" using less.prems by (simp_all add: mid_def)
  let ?p = "unat (w_position (is ! mid))" let ?e = "?p + unat (w_size (is ! mid))"
  have "inst_in file dat res (is ! mid)" using whole_run_nth(1) [OF run, of mid] m less.prems by simp
  then have "?e < 18446744073709551616" using len by (simp add: inst_in_def Let_def)
  then have e: "unat (w_position (is ! mid) + ucast (w_size (is ! mid))) = ?e" by (simp add: unat_add_u64)
  have lo: "mid < c \<Longrightarrow> ?e \<le> unat a" using whole_run_positions [OF run, of mid c] c by simp
  have hi: "c < mid \<Longrightarrow> unat a < ?p" using whole_run_positions [OF run, of c mid] c m less.prems by simp
  consider "c < mid" | "mid < c" | "c = mid" by linarith
  then show ?case
  proof cases
    case 1
    then have "find_position_loop is a low mid = Some c" using less.prems m by (intro less.hyps) auto
    then show ?thesis using 1 hi less.prems m by (subst find_position_loop.simps) (simp add: Let_def mid_def [symmetric] word_less_nat_alt)
  next
    case 2
    then have "find_position_loop is a (mid + 1) high = Some c" using less.prems m by (intro less.hyps) auto
    moreover have "\<not> a < w_position (is ! mid)" using lo 2 by (simp add: word_less_nat_alt)
    ultimately show ?thesis using 2 lo less.prems m e
      by (subst find_position_loop.simps) (simp add: Let_def mid_def [symmetric] word_le_nat_alt)
  next
    case 3
    then show ?thesis using c less.prems e
      by (subst find_position_loop.simps) (simp add: Let_def mid_def [symmetric] word_le_nat_alt word_less_nat_alt)
  qed
qed

lemma find_position_finds:
  assumes "whole_means file source mid" "unat a < length mid"
  obtains k where "xd3_merge_find_position source a st = Inr k" "k < length (ws_inst source)"
    "unat (w_position (ws_inst source ! k)) \<le> unat a" "unat a < unat (w_position (ws_inst source ! k)) + unat (w_size (ws_inst source ! k))"
proof -
  have run: "whole_run file (ws_adds source) (ws_inst source) [] = Some mid" and l: "unat (ws_length source) = length mid"
    using assms(1) by (simp_all add: whole_means_def)
  from whole_run_covers [OF run assms(2)] obtain k where k: "k < length (ws_inst source)" "unat (w_position (ws_inst source ! k)) \<le> unat a"
    "unat a < unat (w_position (ws_inst source ! k)) + unat (w_size (ws_inst source ! k))" by blast
  have "find_position_loop (ws_inst source) a 0 (length (ws_inst source)) = Some k"
    using k l unat_u64_less [of "ws_length source"] by (intro find_position_loop_finds [OF run]) simp_all
  then show ?thesis using that k assms(2) l by (simp add: xd3_merge_find_position_def word_le_nat_alt)
qed

section \<open>Copying from the target\<close>

lemma copy_ext_nth: "a < length U \<Longrightarrow> k < n \<Longrightarrow> copy_ext U a n ! (length U + k) = copy_ext U a n ! (a + k)"
proof (induction U a n arbitrary: k rule: copy_ext.induct)
  case (2 U a n)
  show ?case
  proof (cases k)
    case 0
    have "take (Suc (length U)) (copy_ext (U @ [U ! a]) (Suc a) n) = U @ [U ! a]"
      using copy_ext_prefix [of "Suc a" "U @ [U ! a]" n] 2(2) by simp
    then have "copy_ext (U @ [U ! a]) (Suc a) n ! length U = U ! a" "copy_ext (U @ [U ! a]) (Suc a) n ! a = U ! a"
      using nth_take [of "length U" "Suc (length U)" "copy_ext (U @ [U ! a]) (Suc a) n"]
        nth_take [of a "Suc (length U)" "copy_ext (U @ [U ! a]) (Suc a) n"] 2(2) by (simp_all add: nth_append)
    then show ?thesis using 0 by simp
  next
    case (Suc m)
    then show ?thesis using 2(1) [of m] 2(2,3) by simp
  qed
qed simp

text \<open>In a target, a COPY from the target is a repetition of earlier bytes.\<close>

lemma target_copy_repeats:
  assumes "inst_in file dat mid s" "w_type s \<noteq> XD3_RUN" "w_type s \<noteq> XD3_ADD" "from_target s" "k < unat (w_size s)"
  shows "mid ! (unat (w_position s) + k) = mid ! (unat (w_addr s) + k) \<and> unat (w_addr s) < unat (w_position s)"
proof -
  let ?p = "unat (w_position s)" let ?n = "unat (w_size s)" let ?a = "unat (w_addr s)"
  have i: "?p + ?n \<le> length mid" "?a < ?p" "drop ?p (copy_ext (take ?p mid) ?a ?n) = take ?n (drop ?p mid)"
    using assms by (auto simp: inst_in_def inst_bytes_def Let_def split: if_splits)
  have "take (length (take ?p mid)) (copy_ext (take ?p mid) ?a ?n) = take ?p mid" using i by (intro copy_ext_prefix) simp
  then have "copy_ext (take ?p mid) ?a ?n = take ?p mid @ take ?n (drop ?p mid)"
    using i append_take_drop_id [of ?p "copy_ext (take ?p mid) ?a ?n"] by simp
  then have "copy_ext (take ?p mid) ?a ?n = take (?p + ?n) mid" by (simp add: take_add)
  moreover have "copy_ext (take ?p mid) ?a ?n ! (?p + k) = copy_ext (take ?p mid) ?a ?n ! (?a + k)"
    using copy_ext_nth [of ?a "take ?p mid" k ?n] i assms(5) by simp
  ultimately show ?thesis using i assms(5) by simp
qed

text \<open>Parts of the bytes of an instruction.\<close>

lemma part_of_chunk:
  assumes "off + t \<le> n" "p + n \<le> length xs"
  shows "take t (drop (p + off) xs) = take t (drop off (take n (drop p xs)))"
  using assms by (simp add: drop_take min_def add.commute)

lemma inst_part:
  assumes "inst_in file dat mid s" "off + t \<le> unat (w_size s)"
  shows "w_type s = XD3_RUN \<Longrightarrow> unat (w_addr s) < length dat \<and> take t (drop (unat (w_position s) + off) mid) = replicate t (dat ! unat (w_addr s))"
    and "w_type s = XD3_ADD \<Longrightarrow> unat (w_addr s) + off + t \<le> length dat
       \<and> take t (drop (unat (w_position s) + off) mid) = take t (drop (unat (w_addr s) + off) dat)"
    and "w_type s \<noteq> XD3_RUN \<Longrightarrow> w_type s \<noteq> XD3_ADD \<Longrightarrow> \<not> from_target s \<Longrightarrow> unat (w_addr s) + off + t \<le> length file
       \<and> take t (drop (unat (w_position s) + off) mid) = take t (drop (unat (w_addr s) + off) file)"
    and "w_type s \<noteq> XD3_RUN \<Longrightarrow> w_type s \<noteq> XD3_ADD \<Longrightarrow> from_target s \<Longrightarrow> unat (w_addr s) < unat (w_position s)
       \<and> take t (drop (unat (w_position s) + off) mid) = take t (drop (unat (w_addr s) + off) mid)"
proof -
  let ?p = "unat (w_position s)" let ?n = "unat (w_size s)" let ?a = "unat (w_addr s)"
  have i: "0 < ?n" "?p + ?n \<le> length mid" "inst_bytes file dat (take ?p mid) s = Some (take ?n (drop ?p mid))"
    using assms(1) by (simp_all add: inst_in_def Let_def)
  note c = part_of_chunk [OF assms(2) i(2)]
  have ra: "XD3_RUN \<noteq> XD3_ADD" by (simp add: inst_consts)
  show "?a < length dat \<and> take t (drop (?p + off) mid) = replicate t (dat ! ?a)" if "w_type s = XD3_RUN"
    using i(3) that assms(2) unfolding c by (auto simp: inst_bytes_def Let_def split: if_splits dest!: sym [of "replicate _ _"])
  show "?a + off + t \<le> length dat \<and> take t (drop (?p + off) mid) = take t (drop (?a + off) dat)" if "w_type s = XD3_ADD"
  proof -
    have b: "?a + ?n \<le> length dat" "take ?n (drop ?a dat) = take ?n (drop ?p mid)"
      using i(3) that ra by (auto simp: inst_bytes_def Let_def split: if_splits)
    then show ?thesis using part_of_chunk [OF assms(2) b(1)] assms(2) unfolding c by simp
  qed
  show "?a + off + t \<le> length file \<and> take t (drop (?p + off) mid) = take t (drop (?a + off) file)"
    if "w_type s \<noteq> XD3_RUN" "w_type s \<noteq> XD3_ADD" "\<not> from_target s"
  proof -
    have b: "?a + ?n \<le> length file" "take ?n (drop ?a file) = take ?n (drop ?p mid)"
      using i(3) that by (auto simp: inst_bytes_def Let_def split: if_splits)
    then show ?thesis using part_of_chunk [OF assms(2) b(1)] assms(2) unfolding c by simp
  qed
  show "?a < ?p \<and> take t (drop (?p + off) mid) = take t (drop (?a + off) mid)"
    if "w_type s \<noteq> XD3_RUN" "w_type s \<noteq> XD3_ADD" "from_target s"
  proof -
    note rep = target_copy_repeats [OF assms(1) that]
    have lt: "?a < ?p" using rep [of 0] i(1) by simp
    moreover have "take t (drop (?p + off) mid) = take t (drop (?a + off) mid)"
    proof (rule nth_equalityI)
      fix k assume k: "k < length (take t (drop (?p + off) mid))"
      then have ok: "off + k < ?n" and le: "?p + off \<le> length mid" "?a + off \<le> length mid" using assms(2) lt by auto
      from rep [OF ok] show "take t (drop (?p + off) mid) ! k = take t (drop (?a + off) mid) ! k"
        using k nth_drop [OF le(1), of k] nth_drop [OF le(2), of k] by (simp add: add.assoc)
    qed (use lt i(2) assms(2) in auto)
    ultimately show ?thesis by simp
  qed
qed

section \<open>Growing arrays\<close>

lemma unat_mult_u32: "unat x * unat y < 4294967296 \<Longrightarrow> unat (x * y :: u32) = unat x * unat y"
  using unat_mult_lem [of x y] by simp

lemma round_up_le: "(y :: nat) \<le> (y + 16383) div 16384 * 16384"
  using div_mult_mod_eq [of "y + 16383" 16384] mod_less_divisor [of 16384 "y + 16383"] by linarith

lemma realloc_ok:
  assumes "2 * ((unat c + unat n) * unat u) + 16384 \<le> 4294967296" "xd3_realloc_buffer c u n a st = (r, a1, st1)"
  shows "no_mem st r \<or> r = XD3_OK \<and> (unat c + unat n) * unat u \<le> unat a1 \<and> alloc st1 = alloc st \<and> whole_target st1 = whole_target st"
proof -
  define need where "need = (c + n) * u"
  show ?thesis
  proof (cases "unat u = 0")
    case True
    then have "u = 0" by (simp add: unat_eq_0)
    then show ?thesis using assms(2) by (auto simp: xd3_realloc_buffer_def Let_def)
  next
    case False
    then have "unat c + unat n \<le> (unat c + unat n) * unat u" by simp
    then have cn: "unat (c + n) = unat c + unat n" using assms(1) by (intro unat_add_u32) linarith
    have "(unat c + unat n) * unat u < 4294967296" using assms(1) by linarith
    then have nd: "unat need = (unat c + unat n) * unat u" using cn unat_mult_u32 [of "c + n" u] by (simp add: need_def)
    have n2: "unat (need * 2) = 2 * unat need" using assms(1) nd unat_mult_u32 [of need 2] by (simp add: mult.commute)
    have rb: "unat need \<le> unat (xd3_round_blksize (need * 2) XD3_ALLOCSIZE)"
    proof -
      have "unat (xd3_round_blksize (need * 2) (push_bit 14 1)) = (unat (need * 2) + (2 ^ 14 - 1)) div 2 ^ 14 * 2 ^ 14"
        using assms(1) nd n2 by (intro unat_round_blksize) simp_all
      then have "unat (xd3_round_blksize (need * 2) XD3_ALLOCSIZE) = (unat (need * 2) + 16383) div 16384 * 16384"
        unfolding XD3_ALLOCSIZE_def by simp
      moreover have "unat need \<le> unat (need * 2)" using n2 by simp
      ultimately show ?thesis using round_up_le [of "unat (need * 2)"] by linarith
    qed
    have "unat c * unat u \<le> unat need" using nd by (simp add: distrib_right)
    moreover have "unat (c * u) = unat c * unat u" using assms(1) calculation nd by (intro unat_mult_u32) linarith
    ultimately have cur: "\<not> c * u > xd3_round_blksize (need * 2) XD3_ALLOCSIZE" using rb by (simp add: word_less_nat_alt)
    show ?thesis
    proof (cases "need \<le> a")
      case True
      then show ?thesis using assms(2) nd by (auto simp: xd3_realloc_buffer_def Let_def need_def [symmetric] word_le_nat_alt)
    next
      case False
      obtain ok x where al: "xd3_alloc (xd3_round_blksize (need * 2) XD3_ALLOCSIZE) 1 st = (ok, x)" by fastforce
      have fx: "alloc x = alloc st" "whole_target x = whole_target st" using al by (auto simp: xd3_alloc_def Let_def split: if_splits)
      show ?thesis
      proof (cases ok)
        case True
        then show ?thesis using assms(2) False al cur rb nd fx
          by (auto simp: xd3_realloc_buffer_def Let_def need_def [symmetric] xd3_free_def)
      next
        case bad: False
        then have "\<not> mem_ok st" using alloc_mem [of "xd3_round_blksize (need * 2) XD3_ALLOCSIZE" 1 st x] al by simp
        then show ?thesis using assms(2) False al bad by (auto simp: xd3_realloc_buffer_def Let_def need_def [symmetric] no_mem_def)
      qed
    qed
  qed
qed

text \<open>The merged delta so far, with target \<open>out\<close>, and room for what it has.\<close>

definition merged :: "u8 list \<Rightarrow> u8 list \<Rightarrow> xd3_wstream \<Rightarrow> bool" where
  "merged file out st \<longleftrightarrow> (let ws = whole_target st in
     whole_run file (ws_adds ws) (ws_inst ws) [] = Some out \<and> length (ws_adds ws) \<le> length out
     \<and> 24 * length (ws_inst ws) \<le> unat (inst_alloc ws) \<and> length (ws_adds ws) \<le> unat (adds_alloc ws))"

text \<open>What the merge of instructions leaves alone.\<close>

definition mkeep :: "xd3_wstream \<Rightarrow> xd3_wstream \<Rightarrow> bool" where
  "mkeep st st1 \<longleftrightarrow> alloc st1 = alloc st \<and> ws_length (whole_target st1) = ws_length (whole_target st)
     \<and> ws_wininfo (whole_target st1) = ws_wininfo (whole_target st)"

lemma mkeep_refl [simp]: "mkeep st st"
  by (simp add: mkeep_def)

lemma mkeep_trans: "mkeep st st1 \<Longrightarrow> mkeep st1 st2 \<Longrightarrow> mkeep st st2"
  by (simp add: mkeep_def)

lemma mkeep_mem: "mkeep st st1 \<Longrightarrow> no_mem st1 r = no_mem st r"
  by (simp add: mkeep_def no_mem_def mem_ok_def)

lemma merged_count: "merged file out st \<Longrightarrow> length (ws_inst (whole_target st)) \<le> length out"
  using whole_run_length by (fastforce simp: merged_def Let_def)

lemma alloc_winst_ok:
  assumes "merged file out st" "length out < 67108864" "xd3_whole_alloc_winst st = (r, st1)"
  obtains (fail) "no_mem st r"
    | (ok) w a where "r = XD3_OK" "alloc st1 = alloc st"
      "whole_target st1 = (whole_target st)\<lparr>inst_alloc := a, ws_inst := ws_inst (whole_target st) @ [w]\<rparr>"
      "24 * Suc (length (ws_inst (whole_target st))) \<le> unat a"
proof -
  let ?n = "length (ws_inst (whole_target st))"
  have n: "?n < 67108864" using merged_count [OF assms(1)] assms(2) by simp
  then have nu: "unat (of_nat ?n :: u32) = ?n" by (intro unat_of_nat_small) simp
  have su: "unat sizeof_winst = 24" by (simp add: sizeof_winst_def)
  obtain r0 a s where re: "xd3_realloc_buffer (of_nat ?n) sizeof_winst 1 (inst_alloc (whole_target st)) st = (r0, a, s)"
    by (metis prod_cases3)
  have "2 * ((unat (of_nat ?n :: u32) + unat (1 :: u32)) * unat sizeof_winst) + 16384 \<le> 4294967296" using n unfolding nu su by simp
  from realloc_ok [OF this re] show thesis
  proof (elim disjE conjE)
    assume "no_mem st r0"
    then show thesis using assms(3) re by (intro fail) (auto simp: xd3_whole_alloc_winst_def Let_def split: if_splits)
  next
    assume x: "r0 = XD3_OK" "(unat (of_nat ?n :: u32) + unat (1 :: u32)) * unat sizeof_winst \<le> unat a" "alloc s = alloc st" "whole_target s = whole_target st"
    have le: "24 * Suc ?n \<le> unat a" using x(2) unfolding nu su by simp
    show thesis
      by (rule ok [of "fresh_winst s" a]) (use assms(3) re x le su in \<open>auto simp: xd3_whole_alloc_winst_def Let_def\<close>)
  qed
qed

lemma alloc_adds_ok:
  assumes "length (ws_adds (whole_target st)) + unat count \<le> 67108864" "xd3_whole_alloc_adds count st = (r, st1)"
  obtains (fail) "no_mem st r"
    | (ok) a where "r = XD3_OK" "alloc st1 = alloc st" "whole_target st1 = (whole_target st)\<lparr>adds_alloc := a\<rparr>"
      "length (ws_adds (whole_target st)) + unat count \<le> unat a"
proof -
  let ?n = "length (ws_adds (whole_target st))"
  have nu: "unat (of_nat ?n :: u32) = ?n" using assms(1) by (intro unat_of_nat_small) simp
  obtain r0 a s where re: "xd3_realloc_buffer (of_nat ?n) 1 count (adds_alloc (whole_target st)) st = (r0, a, s)" by (metis prod_cases3)
  have "2 * ((unat (of_nat ?n :: u32) + unat count) * unat (1 :: u32)) + 16384 \<le> 4294967296" using assms(1) unfolding nu by simp
  from realloc_ok [OF this re] show thesis
  proof (elim disjE conjE)
    assume "no_mem st r0"
    then show thesis using assms(2) re by (intro fail) (auto simp: xd3_whole_alloc_adds_def Let_def)
  next
    assume x: "r0 = XD3_OK" "(unat (of_nat ?n :: u32) + unat count) * unat (1 :: u32) \<le> unat a" "alloc s = alloc st" "whole_target s = whole_target st"
    have le: "?n + unat count \<le> unat a" using x(2) unfolding nu by simp
    show thesis by (rule ok [of a]) (use assms(2) re x le in \<open>auto simp: xd3_whole_alloc_adds_def Let_def\<close>)
  qed
qed

text \<open>Entering one instruction whose bytes are known.\<close>

lemma merged_snoc:
  assumes "merged file out st" "whole_target st1 = (whole_target st)\<lparr>inst_alloc := a, adds_alloc := b,
      ws_inst := ws_inst (whole_target st) @ [w], ws_adds := ws_adds (whole_target st) @ bs\<rparr>"
    and "24 * Suc (length (ws_inst (whole_target st))) \<le> unat a" "length (ws_adds (whole_target st)) + length bs \<le> unat b"
    and "unat (w_position w) = length out" "w_size w \<noteq> 0" "inst_bytes file (ws_adds (whole_target st) @ bs) out w = Some t" "length bs \<le> length t"
  shows "merged file (out @ t) st1"
proof -
  have "whole_run file (ws_adds (whole_target st) @ bs) (ws_inst (whole_target st)) [] = Some out"
    using assms(1) by (auto simp: merged_def Let_def intro: whole_run_adds)
  from whole_run_snoc [OF this assms(5-7)] show ?thesis using assms(1-4,8) by (simp add: merged_def Let_def)
qed

section \<open>Copies from the merged source\<close>

text \<open>A part of a RUN, an ADD or a source COPY of the first delta.\<close>

lemma merge_part_ok:
  assumes inv: "merged file out st" and ws: "whole_target st1 = (whole_target st)\<lparr>inst_alloc := a, ws_inst := ws_inst (whole_target st) @ [w]\<rparr>"
      "24 * Suc (length (ws_inst (whole_target st))) \<le> unat a" "mkeep st st1"
    and w: "unat (w_position w) = length out" "w_size w = t" "w_type w = w_type s" "w_mode w = 0"
    and s: "inst_in file (ws_adds source) mid s" "unat off + unat t \<le> unat (w_size s)" "t \<noteq> 0"
      "w_type s = XD3_RUN \<or> w_type s = XD3_ADD \<or> \<not> from_target s"
    and len: "length out + unat t \<le> 67108864" "length file < 18446744073709551616"
    and run: "merge_part source s off t st1 = (r, st2)"
  shows "no_mem st r \<or> r = XD3_OK \<and> mkeep st st2
    \<and> merged file (out @ take (unat t) (drop (unat (w_position s) + unat off) mid)) st2"
proof -
  let ?chunk = "take (unat t) (drop (unat (w_position s) + unat off) mid)"
  note p = inst_part [OF s(1,2)]
  have t0: "0 < unat t" using s(3) by (simp add: unat_gt_0)
  have ra: "XD3_RUN \<noteq> XD3_ADD" by (simp add: inst_consts)
  have da: "length (ws_adds (whole_target st)) \<le> length out" using inv by (simp add: merged_def Let_def)
  define n where "n = length (ws_adds (whole_target st))"
  have nu: "unat (of_nat n :: u64) = n" using da len(1) by (intro unat_of_nat_small) (simp add: n_def)
  have data: ?thesis if "w_type s = XD3_RUN \<or> w_type s = XD3_ADD" and bs: "length bs \<le> unat t" "unat c = length bs"
      and chunk: "inst_bytes file (ws_adds (whole_target st) @ bs) out (w\<lparr>w_addr := of_nat n\<rparr>) = Some ?chunk" "length ?chunk = unat t"
      and def: "merge_part source s off t st1 = bind_ok (xd3_whole_alloc_adds c st1)
        (\<lambda>x. append_adds bs (set_last_winst (\<lambda>w. w\<lparr>w_addr := of_nat (length (ws_adds (whole_target x)))\<rparr>) x))" for bs c
  proof -
    obtain r1 x where al: "xd3_whole_alloc_adds c st1 = (r1, x)" by fastforce
    have "length (ws_adds (whole_target st1)) + unat c \<le> 67108864" using ws(1) da len(1) bs by simp
    from this al show ?thesis
    proof (cases rule: alloc_adds_ok)
      case fail
      then have "no_mem st r1" using mkeep_mem [OF ws(3)] by simp
      then show ?thesis using run al def by simp
    next
      case (ok b)
      let ?y = "set_last_winst (\<lambda>w. w\<lparr>w_addr := of_nat (length (ws_adds (whole_target x)))\<rparr>) x"
      have y: "whole_target ?y = (whole_target st)\<lparr>inst_alloc := a, adds_alloc := b, ws_inst := ws_inst (whole_target st) @ [w\<lparr>w_addr := of_nat n\<rparr>]\<rparr>"
        using ok(3) ws(1) by (simp add: set_last_winst_def n_def)
      have room: "length (ws_adds (whole_target st)) + length bs \<le> unat b" using ok(4) ws(1) bs(2) by simp
      define z where "z = ?y\<lparr>whole_target := (whole_target ?y)\<lparr>ws_adds := ws_adds (whole_target ?y) @ bs\<rparr>\<rparr>"
      have "append_adds bs ?y = (XD3_OK, z)" using y room by (simp add: append_adds_def Let_def z_def not_less)
      then have rr: "r = XD3_OK" "st2 = z" using run al ok(1) def by simp_all
      have zt: "whole_target z = (whole_target st)\<lparr>inst_alloc := a, adds_alloc := b,
          ws_inst := ws_inst (whole_target st) @ [w\<lparr>w_addr := of_nat n\<rparr>], ws_adds := ws_adds (whole_target st) @ bs\<rparr>"
        using y by (simp add: z_def)
      have "merged file (out @ ?chunk) z"
        by (rule merged_snoc [OF inv zt ws(2) room]) (use w s(3) chunk bs in simp_all)
      moreover have "mkeep st z" using ok(2) ws(3) zt by (simp add: mkeep_def z_def set_last_winst_def)
      ultimately show ?thesis using rr by simp
    qed
  qed
  consider (run) "w_type s = XD3_RUN" | (add) "w_type s = XD3_ADD" | (cpy) "w_type s \<noteq> XD3_RUN" "w_type s \<noteq> XD3_ADD" "\<not> from_target s"
    using s(4) by blast
  then show ?thesis
  proof cases
    case run
    note q = p(1) [OF run]
    show ?thesis
      by (rule data [of "[ws_adds source ! unat (w_addr s)]" 1])
        (use run q t0 w n_def nu in \<open>auto simp: merge_part_def Let_def inst_bytes_def not_le\<close>)
  next
    case add
    note q = p(2) [OF add]
    show ?thesis
      by (rule data [of ?chunk t])
        (use add q t0 w n_def nu ra in \<open>auto simp: merge_part_def Let_def inst_bytes_def not_le add.assoc\<close>)
  next
    case cpy
    note q = p(3) [OF cpy]
    have au: "unat (w_addr s + ucast off) = unat (w_addr s) + unat off" using q len(2) by (intro unat_add_u64 [THEN trans]) simp_all
    let ?w = "w\<lparr>w_mode := w_mode s, w_addr := w_addr s + ucast off\<rparr>"
    have rr: "r = XD3_OK" "st2 = set_last_winst (\<lambda>w. w\<lparr>w_mode := w_mode s, w_addr := w_addr s + ucast off\<rparr>) st1"
      using cpy run by (simp_all add: merge_part_def)
    have zt: "whole_target st2 = (whole_target st)\<lparr>inst_alloc := a, adds_alloc := adds_alloc (whole_target st),
        ws_inst := ws_inst (whole_target st) @ [?w], ws_adds := ws_adds (whole_target st) @ []\<rparr>"
      using rr(2) ws(1) by (simp add: set_last_winst_def)
    have "merged file (out @ ?chunk) st2"
      by (rule merged_snoc [OF inv zt ws(2)])
        (use inv w s(3) cpy q au in \<open>auto simp: merged_def Let_def inst_bytes_def from_target_def\<close>)
    moreover have "mkeep st st2" using rr(2) ws(3) zt by (simp add: mkeep_def set_last_winst_def)
    ultimately show ?thesis using rr by simp
  qed
qed

text \<open>A source COPY at \<open>addr\<close>, whose first byte is made by instruction \<open>num\<close>.\<close>

definition copy_at :: "xd3_whole_state \<Rightarrow> u8 list \<Rightarrow> nat \<Rightarrow> xd3_winst \<Rightarrow> bool" where
  "copy_at source mid num i \<longleftrightarrow> unat (w_addr i) + unat (w_size i) \<le> length mid \<and>
    (w_size i \<noteq> 0 \<longrightarrow> num < length (ws_inst source) \<and> unat (w_position (ws_inst source ! num)) \<le> unat (w_addr i)
      \<and> unat (w_addr i) < unat (w_position (ws_inst source ! num)) + unat (w_size (ws_inst source ! num)))"

lemma copy_at_next:
  assumes "whole_means file source mid" "copy_at source mid num i" "w_size i \<noteq> 0"
    and "s = ws_inst source ! num" "off = (ucast (w_addr i - w_position s) :: u32)" "t = min (w_size i) (w_size s - off)"
    and "j = i\<lparr>w_position := q, w_addr := w_addr i + ucast t, w_size := w_size i - t\<rparr>"
  shows "inst_in file (ws_adds source) mid s" "unat (w_addr i) = unat (w_position s) + unat off" "unat off + unat t \<le> unat (w_size s)"
    "t \<noteq> 0" "unat t \<le> unat (w_size i)" "copy_at source mid (num + 1) j" "unat (w_addr j) = unat (w_addr i) + unat t"
    "unat (w_size j) = unat (w_size i) - unat t"
proof -
  have run: "whole_run file (ws_adds source) (ws_inst source) [] = Some mid" and l: "length mid < 18446744073709551616"
    using assms(1) unat_u64_less [of "ws_length source"] by (simp_all add: whole_means_def)
  have c: "num < length (ws_inst source)" "unat (w_position s) \<le> unat (w_addr i)"
      "unat (w_addr i) < unat (w_position s) + unat (w_size s)" "unat (w_addr i) + unat (w_size i) \<le> length mid"
    using assms(2-4) by (simp_all add: copy_at_def)
  show inn: "inst_in file (ws_adds source) mid s" using whole_run_nth(1) [OF run c(1)] assms(4) by simp
  have d: "unat (w_addr i - w_position s) = unat (w_addr i) - unat (w_position s)" using c(2) by (intro unat_sub) (simp add: word_le_nat_alt)
  have ou: "unat off = unat (w_addr i) - unat (w_position s)"
    using d c(3) unat_u32_less [of "w_size s"] assms(5) by (simp add: unsigned_ucast_eq take_bit_nat_eq_self)
  show ao: "unat (w_addr i) = unat (w_position s) + unat off" using ou c(2) by simp
  have left: "unat (w_size s - off) = unat (w_size s) - unat off" using ou c(3) by (intro unat_sub) (simp add: word_le_nat_alt)
  have tu: "unat t = min (unat (w_size i)) (unat (w_size s) - unat off)" using left assms(6) by (auto simp: min_def word_le_nat_alt)
  show ot: "unat off + unat t \<le> unat (w_size s)" using tu ao c(3) by simp
  have "0 < unat t" using tu ao c(3) assms(3) by (simp add: unat_gt_0)
  then show "t \<noteq> 0" by (simp add: unat_gt_0)
  show ti: "unat t \<le> unat (w_size i)" using tu by simp
  show aj: "unat (w_addr j) = unat (w_addr i) + unat t" using assms(7) c(4) ti l by (simp add: unat_add_u64)
  show sj: "unat (w_size j) = unat (w_size i) - unat t" using assms(7) ti by (simp add: unat_sub word_le_nat_alt)
  show "copy_at source mid (num + 1) j"
  proof (cases "w_size j = 0")
    case True
    then show ?thesis using aj sj ti c(4) by (simp add: copy_at_def)
  next
    case False
    then have "unat t < unat (w_size i)" using sj by (simp add: word_zero_iff_unat)
    then have e: "unat (w_addr j) = unat (w_position s) + unat (w_size s)" using tu aj ao ot by simp
    have "Suc num < length (ws_inst source)"
      using whole_run_nth(2) [OF run c(1)] e assms(4) aj \<open>unat t < unat (w_size i)\<close> c(4) by (auto split: if_splits)
    moreover have "0 < unat (w_size (ws_inst source ! Suc num))"
      using whole_run_nth(1) [OF run calculation] by (simp add: inst_in_def Let_def)
    ultimately show ?thesis using e whole_run_nth(2) [OF run c(1)] assms(4) aj sj ti c(4) by (simp add: copy_at_def)
  qed
qed

lemma find_copy_at:
  assumes "whole_means file source mid" "unat (w_addr i) + unat (w_size i) \<le> length mid" "w_size i \<noteq> 0"
  obtains k where "xd3_merge_find_position source (w_addr i) st = Inr k" "copy_at source mid k i"
proof -
  have "0 < unat (w_size i)" using assms(3) by (simp add: unat_gt_0)
  then have "unat (w_addr i) < length mid" using assms(2) by linarith
  from find_position_finds [OF assms(1) this] show thesis using that assms(2) by (metis copy_at_def)
qed

lemma merge_copy_ok:
  assumes "whole_means file source mid" "\<forall>s \<in> set (ws_inst source). w_mode s \<noteq> ucast VCD_TARGET" "length file < 18446744073709551616"
  shows "merged file out st \<Longrightarrow> unat (w_position i) = length out \<Longrightarrow> copy_at source mid num i
    \<Longrightarrow> length out + unat (w_size i) \<le> 67108864
    \<Longrightarrow> \<exists>r st1. merge_copy_loop source num i st = Some (r, st1) \<and> (no_mem st r \<or>
      r = XD3_OK \<and> mkeep st st1 \<and> merged file (out @ take (unat (w_size i)) (drop (unat (w_addr i)) mid)) st1)"
proof (induction "(unat (w_addr i) + unat (w_size i)) * 67108865 + unat (w_size i)" arbitrary: num i st out rule: less_induct)
  case less
  note inv = less.prems(1) and pos = less.prems(2) and cp = less.prems(3) and len = less.prems(4)
  show ?case
  proof (cases "w_size i = 0")
    case True
    then show ?thesis using inv by (subst merge_copy_loop.simps) simp
  next
    case False
    define s where "s = ws_inst source ! num"
    define off where "off = (ucast (w_addr i - w_position s) :: u32)"
    define t where "t = min (w_size i) (w_size s - off)"
    define j where "j = i\<lparr>w_position := w_position i + ucast t, w_addr := w_addr i + ucast t, w_size := w_size i - t\<rparr>"
    note n = copy_at_next [OF assms(1) cp False s_def off_def t_def j_def]
    have num: "num < length (ws_inst source)" using cp False by (simp add: copy_at_def)
    have t0: "0 < unat t" using n(4) by (simp add: unat_gt_0)
    obtain r1 x where al: "xd3_whole_alloc_winst st = (r1, x)" by fastforce
    define y where "y = set_last_winst (\<lambda>w. w\<lparr>w_size := t, w_type := w_type s, w_position := w_position i, w_mode := 0\<rparr>) x"
    have "length out < 67108864" using len n(5) t0 by linarith
    from inv this al show ?thesis
    proof (cases rule: alloc_winst_ok)
      case fail
      then show ?thesis using False num al by (subst merge_copy_loop.simps) (auto simp: Let_def)
    next
      case (ok w a)
      let ?w = "w\<lparr>w_size := t, w_type := w_type s, w_position := w_position i, w_mode := 0\<rparr>"
      have y: "whole_target y = (whole_target st)\<lparr>inst_alloc := a, ws_inst := ws_inst (whole_target st) @ [?w]\<rparr>"
        using ok(3) by (simp add: y_def set_last_winst_def)
      have ky: "mkeep st y" using ok(2) y by (simp add: mkeep_def y_def set_last_winst_def)
      let ?chunk = "take (unat t) (drop (unat (w_position s) + unat off) mid)"
      have cl: "length ?chunk = unat t" using n(1,3) by (auto simp: inst_in_def Let_def min_def)
      have pj: "unat (w_position j) = length (out @ ?chunk)" using pos len n(5) cl by (simp add: j_def unat_add_u64)
      have whole: "take (unat (w_size i)) (drop (unat (w_addr i)) mid) = ?chunk @ take (unat (w_size j)) (drop (unat (w_addr j)) mid)"
        using take_add [of "unat t" "unat (w_size i) - unat t" "drop (unat (w_addr i)) mid"] n(2,5,7,8) by (simp add: add.commute)
      have rest: "\<exists>r st1. merge_copy_loop source (num + 1) j z = Some (r, st1) \<and> (no_mem st r \<or>
          r = XD3_OK \<and> mkeep st st1 \<and> merged file (out @ take (unat (w_size i)) (drop (unat (w_addr i)) mid)) st1)"
        if "mkeep st z" "merged file (out @ ?chunk) z" for z
      proof -
        have dec: "(unat (w_addr j) + unat (w_size j)) * 67108865 + unat (w_size j) < (unat (w_addr i) + unat (w_size i)) * 67108865 + unat (w_size i)"
          using n(5,7,8) t0 by simp
        have lj: "length (out @ ?chunk) + unat (w_size j) \<le> 67108864" using len n(5,8) cl by simp
        from less.hyps [OF dec that(2) pj n(6) lj] obtain r st1 where r: "merge_copy_loop source (num + 1) j z = Some (r, st1)"
          "no_mem z r \<or> r = XD3_OK \<and> mkeep z st1 \<and> merged file ((out @ ?chunk) @ take (unat (w_size j)) (drop (unat (w_addr j)) mid)) st1" by blast
        then show ?thesis using mkeep_mem [OF that(1)] mkeep_trans [OF that(1), of st1] whole by auto
      qed
      show ?thesis
      proof (cases "w_type s = XD3_RUN \<or> w_type s = XD3_ADD \<or> w_mode s \<noteq> 0")
        case True
        obtain r2 z where mp: "merge_part source s off t y = (r2, z)" by fastforce
        have nt: "w_mode s \<noteq> ucast VCD_TARGET" using assms(2) num by (simp add: s_def)
        have eq: "merge_copy_loop source num i st = (if r2 \<noteq> XD3_OK then Some (r2, z) else merge_copy_loop source (num + 1) j z)"
          using False num al ok(1) True mp
          by (subst merge_copy_loop.simps) (simp add: Let_def s_def [symmetric] off_def [symmetric] t_def [symmetric] j_def [symmetric] y_def [symmetric])
        have "no_mem st r2 \<or> r2 = XD3_OK \<and> mkeep st z \<and> merged file (out @ ?chunk) z"
          by (rule merge_part_ok [OF inv y ok(4) ky _ _ _ _ n(1,3,4) _ _ assms(3) mp])
            (use pos True nt len n(5) in \<open>auto simp: from_target_def\<close>)
        then show ?thesis
        proof (elim disjE conjE)
          assume "no_mem st r2"
          then show ?thesis using eq by auto
        next
          assume "r2 = XD3_OK" "mkeep st z" "merged file (out @ ?chunk) z"
          then show ?thesis using eq rest [of z] by simp
        qed
      next
        case tgt: False
        define i2 where "i2 = \<lparr>w_type = XD3_CPY, w_mode = w_mode i, w_size = t, w_addr = w_addr s + ucast off, w_position = w_position i\<rparr>"
        define z where "z = y\<lparr>whole_target := (whole_target y)\<lparr>ws_inst := butlast (ws_inst (whole_target y))\<rparr>\<rparr>"
        have zt: "whole_target z = (whole_target st)\<lparr>inst_alloc := a\<rparr>" using y by (simp add: z_def)
        have iz: "merged file out z" using inv zt ok(4) by (simp add: merged_def Let_def)
        have kz: "mkeep st z" using ky zt by (simp add: mkeep_def z_def)
        note p = inst_part(4) [OF n(1,3)]
        have earlier: "unat (w_addr s) < unat (w_position s)" "?chunk = take (unat t) (drop (unat (w_addr s) + unat off) mid)"
          using p tgt by (auto simp: from_target_def)
        have lm: "length mid < 18446744073709551616" using assms(1) unat_u64_less [of "ws_length source"] by (simp add: whole_means_def)
        have fits: "unat (w_position s) + unat off + unat t \<le> length mid" using cp n(2,5) by (simp add: copy_at_def)
        have a2: "unat (w_addr i2) = unat (w_addr s) + unat off" using earlier(1) fits lm by (simp add: i2_def unat_add_u64)
        have "unat (w_addr i2) + unat (w_size i2) \<le> length mid" "w_size i2 \<noteq> 0"
          using a2 earlier(1) fits n(4) by (simp_all add: i2_def)
        then obtain k where k: "xd3_merge_find_position source (w_addr i2) z = Inr k" "copy_at source mid k i2"
          by (rule find_copy_at [OF assms(1)])
        have sz: "w_size i2 = t" by (simp add: i2_def)
        have "unat (w_addr i2) + unat (w_size i2) < unat (w_addr i) + unat (w_size i)"
          using a2 earlier(1) n(2,5) unfolding sz by linarith
        then have dec: "(unat (w_addr i2) + unat (w_size i2)) * 67108865 + unat (w_size i2) < (unat (w_addr i) + unat (w_size i)) * 67108865 + unat (w_size i)"
          using sz n(5) by simp
        have "unat (w_position i2) = length out" "length out + unat (w_size i2) \<le> 67108864" using pos len n(5) sz by (simp_all add: i2_def)
        from less.hyps [OF dec iz this(1) k(2) this(2)] obtain r2 q where r: "merge_copy_loop source k i2 z = Some (r2, q)"
          "no_mem z r2 \<or> r2 = XD3_OK \<and> mkeep z q \<and> merged file (out @ ?chunk) q" unfolding sz a2 earlier(2) [symmetric] by blast
        have eq: "merge_copy_loop source num i st = (if r2 \<noteq> XD3_OK then Some (r2, q) else merge_copy_loop source (num + 1) j q)"
          using False num al ok(1) tgt k(1) r(1)
          by (subst merge_copy_loop.simps) (simp add: Let_def s_def [symmetric] off_def [symmetric] t_def [symmetric] j_def [symmetric]
              y_def [symmetric] i2_def [symmetric] z_def [symmetric])
        show ?thesis
        proof (cases "no_mem z r2")
          case True
          then show ?thesis using eq mkeep_mem [OF kz] by auto
        next
          case ok2: False
          then show ?thesis using r(2) eq rest [of q] mkeep_trans [OF kz] by auto
        qed
      qed
    qed
  qed
qed

section \<open>Merging all instructions\<close>

text \<open>One more instruction of the second delta, and the length of the target.\<close>

definition advanced :: "xd3_wstream \<Rightarrow> u32 \<Rightarrow> xd3_wstream \<Rightarrow> bool" where
  "advanced st n st1 \<longleftrightarrow> alloc st1 = alloc st \<and> ws_length (whole_target st1) = ws_length (whole_target st) + ucast n
     \<and> ws_wininfo (whole_target st1) = ws_wininfo (whole_target st)"

lemma add_length_advanced: "mkeep st st1 \<Longrightarrow> advanced st n (add_length n st1)"
  by (simp add: mkeep_def advanced_def add_length_def)

lemma winst_copy:
  "\<lparr>w_type = w_type i, w_mode = w_mode i, w_size = w_size i, w_addr = a, w_position = q\<rparr> = i\<lparr>w_addr := a, w_position := q\<rparr>"
  by simp

lemma merge_data_ok:
  assumes inv: "merged file out st" and l: "unat (ws_length (whole_target st)) = length out"
    and i: "w_size i \<noteq> 0" "length out + unat (w_size i) \<le> 67108864" "unat (w_addr i) + n \<le> length (ws_adds inp)" "n \<le> unat (w_size i)"
    and b: "\<And>pre a. unat a = length pre \<Longrightarrow> inst_bytes file (pre @ take n (drop (unat (w_addr i)) (ws_adds inp))) out (i\<lparr>w_addr := a, w_position := p\<rparr>) = Some t"
    and p: "p = ws_length (whole_target st)" and run: "merge_data n inp i st = (r, st1)"
  shows "no_mem st r \<or> r = XD3_OK \<and> advanced st (w_size i) st1 \<and> merged file (out @ t) st1"
proof -
  let ?bs = "take n (drop (unat (w_addr i)) (ws_adds inp))"
  have lb: "length ?bs = n" using i(3) by simp
  have n32: "unat (of_nat n :: u32) = n" using i(4) unat_u32_less [of "w_size i"] by (intro unat_of_nat_small) simp
  obtain r1 x where al: "xd3_whole_alloc_winst st = (r1, x)" by fastforce
  have "length out < 67108864" using i(1,2) unat_gt_0 [of "w_size i"] by linarith
  from inv this al show ?thesis
  proof (cases rule: alloc_winst_ok)
    case fail
    then show ?thesis using run al by (simp add: merge_data_def)
  next
    case (ok w a)
    obtain r2 y where al2: "xd3_whole_alloc_adds (of_nat n) x = (r2, y)" by fastforce
    have da: "length (ws_adds (whole_target st)) \<le> length out" using inv by (simp add: merged_def Let_def)
    then have "length (ws_adds (whole_target x)) + unat (of_nat n :: u32) \<le> 67108864" using ok(3) n32 i(2,4) by simp
    from this al2 show ?thesis
    proof (cases rule: alloc_adds_ok)
      case fail
      then have "no_mem st r2" using ok(2) by (simp add: no_mem_def mem_ok_def)
      then show ?thesis using run al ok(1) al2 by (simp add: merge_data_def)
    next
      case ok2: (ok c)
      define m where "m = length (ws_adds (whole_target st))"
      have mu: "unat (of_nat m :: u64) = m" using da i(2) by (intro unat_of_nat_small) (simp add: m_def)
      let ?w = "i\<lparr>w_addr := of_nat m, w_position := p\<rparr>"
      define z where "z = y\<lparr>whole_target := (whole_target st)\<lparr>inst_alloc := a, adds_alloc := c, ws_inst := ws_inst (whole_target st) @ [?w],
          ws_length := ws_length (whole_target st) + ucast (w_size i), ws_adds := ws_adds (whole_target st) @ ?bs\<rparr>\<rparr>"
      have room: "length (ws_adds (whole_target st)) + length ?bs \<le> unat c" using ok2(4) ok(3) n32 lb by simp
      have res: "r = XD3_OK" "st1 = z"
        using run al ok al2 ok2(1,3) i(3) room lb p
        by (auto simp: merge_data_def Let_def append_adds_def set_last_winst_def add_length_def z_def m_def not_less winst_copy)
      define z0 where "z0 = z\<lparr>whole_target := (whole_target z)\<lparr>ws_length := ws_length (whole_target st)\<rparr>\<rparr>"
      have zt: "whole_target z0 = (whole_target st)\<lparr>inst_alloc := a, adds_alloc := c, ws_inst := ws_inst (whole_target st) @ [?w],
          ws_adds := ws_adds (whole_target st) @ ?bs\<rparr>" by (simp add: z0_def z_def)
      have iw: "inst_bytes file (ws_adds (whole_target st) @ ?bs) out ?w = Some t"
        using b [of "of_nat m" "ws_adds (whole_target st)"] mu by (simp add: m_def)
      have "merged file (out @ t) z0"
        by (rule merged_snoc [OF inv zt ok(4) room _ _ iw]) (use l p i inst_bytes_length [OF iw] lb in auto)
      then have "merged file (out @ t) z" by (simp add: merged_def Let_def z0_def)
      moreover have "advanced st (w_size i) z" using ok(2) ok2(2) by (simp add: advanced_def z_def)
      ultimately show ?thesis using res by simp
    qed
  qed
qed

lemma merged_add_length [simp]: "merged file out (add_length n st) = merged file out st"
  by (simp add: merged_def add_length_def Let_def)

lemma advanced_mem: "advanced st n st1 \<Longrightarrow> no_mem st1 r = no_mem st r"
  by (simp add: advanced_def no_mem_def mem_ok_def)

lemma merge_inst_ok:
  assumes src: "whole_means file source mid" "\<forall>s \<in> set (ws_inst source). w_mode s \<noteq> ucast VCD_TARGET" "length file < 18446744073709551616"
    and inv: "merged file out st" "unat (ws_length (whole_target st)) = length out"
    and i: "inst_bytes mid (ws_adds inp) out i = Some bs" "unat (w_position i) = length out" "w_size i \<noteq> 0" "length out + unat (w_size i) \<le> 67108864"
  shows "\<exists>r st1. merge_inst source inp i st = Some (r, st1) \<and>
    (no_mem st r \<or> r = XD3_OK \<and> advanced st (w_size i) st1 \<and> merged file (out @ bs) st1)"
proof -
  have ra: "XD3_RUN \<noteq> XD3_ADD" by (simp add: inst_consts)
  have s1: "1 \<le> unat (w_size i)" using i(3) unat_gt_0 [of "w_size i"] by linarith
  consider (run) "w_type i = XD3_RUN" | (add) "w_type i = XD3_ADD" | (tgt) "w_type i \<noteq> XD3_RUN" "w_type i \<noteq> XD3_ADD" "from_target i"
    | (cpy) "w_type i \<noteq> XD3_RUN" "w_type i \<noteq> XD3_ADD" "\<not> from_target i" by blast
  then show ?thesis
  proof cases
    case run
    then have a: "unat (w_addr i) < length (ws_adds inp)" "bs = replicate (unat (w_size i)) (ws_adds inp ! unat (w_addr i))"
      using i(1) by (auto simp: inst_bytes_def Let_def split: if_splits)
    obtain r st1 where m: "merge_data 1 inp i st = (r, st1)" by fastforce
    have "no_mem st r \<or> r = XD3_OK \<and> advanced st (w_size i) st1 \<and> merged file (out @ bs) st1"
      by (rule merge_data_ok [OF inv i(3,4) _ s1 _ refl m])
        (use a run in \<open>auto simp: inst_bytes_def Let_def take_Suc_conv_app_nth hd_drop_conv_nth take_Suc\<close>)
    then show ?thesis using run m by (simp add: merge_inst_def xd3_merge_run_def)
  next
    case add
    then have a: "unat (w_addr i) + unat (w_size i) \<le> length (ws_adds inp)" "bs = take (unat (w_size i)) (drop (unat (w_addr i)) (ws_adds inp))"
      using i(1) ra by (auto simp: inst_bytes_def Let_def split: if_splits)
    obtain r st1 where m: "merge_data (unat (w_size i)) inp i st = (r, st1)" by fastforce
    have "no_mem st r \<or> r = XD3_OK \<and> advanced st (w_size i) st1 \<and> merged file (out @ bs) st1"
      by (rule merge_data_ok [OF inv i(3,4) _ _ _ refl m]) (use a add ra in \<open>auto simp: inst_bytes_def Let_def\<close>)
    then show ?thesis using add ra m by (simp add: merge_inst_def xd3_merge_add_def)
  next
    case tgt
    obtain r x where al: "xd3_whole_alloc_winst st = (r, x)" by fastforce
    have eq: "merge_inst source inp i st = (case bind_ok (r, x) (\<lambda>st1. (XD3_OK, set_last_winst (\<lambda>_. i) st1)) of (r, st1) \<Rightarrow> Some (r, add_length (w_size i) st1))"
      using tgt al by (simp add: merge_inst_def from_target_def xd3_merge_target_copy_def split: prod.split)
    have "length out < 67108864" using i(4) s1 by linarith
    from inv(1) this al show ?thesis
    proof (cases rule: alloc_winst_ok)
      case fail
      then show ?thesis using eq by simp
    next
      case (ok w a)
      define z where "z = set_last_winst (\<lambda>_. i) x"
      have zt: "whole_target z = (whole_target st)\<lparr>inst_alloc := a, adds_alloc := adds_alloc (whole_target st),
          ws_inst := ws_inst (whole_target st) @ [i], ws_adds := ws_adds (whole_target st) @ []\<rparr>"
        using ok(3) by (simp add: z_def set_last_winst_def)
      have "inst_bytes file (ws_adds (whole_target st) @ []) out i = Some bs" using i(1) tgt by (simp add: inst_bytes_def Let_def)
      from merged_snoc [OF inv(1) zt ok(4) _ i(2,3) this] have "merged file (out @ bs) z" using inv(1) by (simp add: merged_def Let_def)
      moreover have "mkeep st z" using zt ok(2) by (simp add: mkeep_def z_def set_last_winst_def)
      ultimately show ?thesis using eq ok(1) add_length_advanced [of st z "w_size i"]
        by (simp add: z_def [symmetric])
    qed
  next
    case cpy
    then have a: "unat (w_addr i) + unat (w_size i) \<le> length mid" "bs = take (unat (w_size i)) (drop (unat (w_addr i)) mid)"
      using i(1) by (auto simp: inst_bytes_def Let_def split: if_splits)
    obtain k where k: "xd3_merge_find_position source (w_addr i) st = Inr k" "copy_at source mid k i"
      by (rule find_copy_at [OF src(1) a(1) i(3)])
    from merge_copy_ok [OF src inv(1) i(2) k(2) i(4)] obtain r z where z: "merge_copy_loop source k i st = Some (r, z)"
      "no_mem st r \<or> r = XD3_OK \<and> mkeep st z \<and> merged file (out @ bs) z" unfolding a(2) by blast
    have "merge_inst source inp i st = Some (r, add_length (w_size i) z)"
      using cpy k(1) z(1) by (simp add: merge_inst_def from_target_def xd3_merge_source_copy_def)
    then show ?thesis using z(2) add_length_advanced [of st z "w_size i"] by auto
  qed
qed

lemma merge_insts_ok:
  assumes src: "whole_means file source mid" "\<forall>s \<in> set (ws_inst source). w_mode s \<noteq> ucast VCD_TARGET" "length file < 18446744073709551616"
    and inv: "merged file out st" "unat (ws_length (whole_target st)) = length out"
    and run: "whole_run mid (ws_adds inp) is out = Some res" "length res \<le> 67108864"
  shows "\<exists>r st1. merge_insts source inp is st = Some (r, st1) \<and> (no_mem st r \<or> r = XD3_OK \<and> merged file res st1
      \<and> unat (ws_length (whole_target st1)) = length res \<and> ws_wininfo (whole_target st1) = ws_wininfo (whole_target st))"
  using inv run(1)
proof (induction "is" arbitrary: out st)
  case Nil
  then show ?case by simp
next
  case (Cons i "is")
  then obtain bs where i: "inst_bytes mid (ws_adds inp) out i = Some bs" "unat (w_position i) = length out" "w_size i \<noteq> 0"
      "whole_run mid (ws_adds inp) is (out @ bs) = Some res"
    by (auto simp: bind_eq_Some_conv split: if_splits)
  have lb: "length bs = unat (w_size i)" by (rule inst_bytes_length [OF i(1)])
  have le: "length out + unat (w_size i) \<le> length res" using whole_run_length [OF i(4)] lb by simp
  have fits: "length out + unat (w_size i) \<le> 67108864" using le run(2) by linarith
  from merge_inst_ok [OF src Cons.prems(1,2) i(1-3) fits] obtain r x where x: "merge_inst source inp i st = Some (r, x)"
    "no_mem st r \<or> r = XD3_OK \<and> advanced st (w_size i) x \<and> merged file (out @ bs) x" by blast
  show ?case
  proof (cases "no_mem st r")
    case True
    then show ?thesis using x(1) by auto
  next
    case False
    then have ok: "r = XD3_OK" "advanced st (w_size i) x" "merged file (out @ bs) x" using x(2) by simp_all
    have "unat (ws_length (whole_target x)) = length (out @ bs)"
      using ok(2) Cons.prems(2) lb fits by (simp add: advanced_def unat_add_u64)
    from Cons.IH [OF ok(3) this i(4)] show ?thesis using x(1) ok(1,2) advanced_mem [OF ok(2)] by (auto simp: advanced_def)
  qed
qed

lemma copy_wininfo_ok:
  assumes "length (ws_wininfo (whole_target st)) + length ws \<le> 67108864" "copy_wininfo ws st = (r, st1)"
  shows "no_mem st r \<or> r = XD3_OK \<and> alloc st1 = alloc st \<and> (\<exists>a. whole_target st1
    = (whole_target st)\<lparr>wininfo_alloc := a, ws_wininfo := ws_wininfo (whole_target st) @ ws\<rparr>)"
  using assms
proof (induction ws arbitrary: st)
  case Nil
  then show ?case by (auto intro: exI [of _ "wininfo_alloc (whole_target st)"])
next
  case (Cons w ws)
  let ?n = "length (ws_wininfo (whole_target st))"
  have nu: "unat (of_nat ?n :: u32) = ?n" using Cons.prems(1) by (intro unat_of_nat_small) simp
  have su: "unat sizeof_wininfo = 16" by (simp add: sizeof_wininfo_def)
  obtain r0 a s where re: "xd3_realloc_buffer (of_nat ?n) sizeof_wininfo 1 (wininfo_alloc (whole_target st)) st = (r0, a, s)" by (metis prod_cases3)
  have "2 * ((unat (of_nat ?n :: u32) + unat (1 :: u32)) * unat sizeof_wininfo) + 16384 \<le> 4294967296"
    using Cons.prems(1) unfolding nu su by simp
  from realloc_ok [OF this re] show ?case
  proof (elim disjE conjE)
    assume f: "no_mem st r0"
    then have "r0 \<noteq> XD3_OK" by (auto simp: no_mem_def)
    then show ?thesis using f Cons.prems(2) re by (simp add: xd3_whole_alloc_wininfo_def Let_def)
  next
    assume x: "r0 = XD3_OK" "(unat (of_nat ?n :: u32) + unat (1 :: u32)) * unat sizeof_wininfo \<le> unat a" "alloc s = alloc st" "whole_target s = whole_target st"
    have le: "16 * Suc ?n \<le> unat a" using x(2) unfolding nu su by simp
    define y where "y = set_last_wininfo w (s\<lparr>whole_target := (whole_target st)\<lparr>wininfo_alloc := a, ws_wininfo := ws_wininfo (whole_target st) @ [fresh_wininfo s]\<rparr>\<rparr>)"
    have yt: "whole_target y = (whole_target st)\<lparr>wininfo_alloc := a, ws_wininfo := ws_wininfo (whole_target st) @ [w]\<rparr>" "alloc y = alloc st"
      using x(3) by (simp_all add: y_def set_last_wininfo_def)
    have "copy_wininfo ws y = (r, st1)"
      using Cons.prems(2) re x le su by (simp add: xd3_whole_alloc_wininfo_def Let_def y_def)
    from Cons.IH [OF _ this] show ?thesis using Cons.prems(1) yt by (auto simp: no_mem_def mem_ok_def)
  qed
qed

section \<open>Samples\<close>

definition winst :: "u8 \<Rightarrow> u8 \<Rightarrow> u32 \<Rightarrow> u64 \<Rightarrow> u64 \<Rightarrow> xd3_winst" where
  "winst t m n a p = \<lparr>w_type = t, w_mode = m, w_size = n, w_addr = a, w_position = p\<rparr>"

definition whole_of :: "u8 list \<Rightarrow> xd3_winst list \<Rightarrow> u64 \<Rightarrow> xd3_whole_state" where
  "whole_of dat is n = null_whole\<lparr>ws_adds := dat, ws_inst := is, ws_length := n\<rparr>"

definition sample_merge :: xd3_wstream where
  "sample_merge = xd3_stream.extend (null_stream (\<lambda>_ _ _. True) (\<lambda>_. 0)) (xd3_wstream.fields null_whole)"

text \<open>\<open>1 2 3 4 5\<close> to \<open>2 3 4 7 7 7 3 4 7 7 7 3\<close>: a source COPY, a RUN and a COPY that runs into itself; then to
  \<open>9 7 3 4 7 7 9\<close>.\<close>

definition sample_first :: xd3_whole_state where
  "sample_first = whole_of [7] [winst XD3_CPY 1 3 1 0, winst XD3_RUN 0 3 0 3, winst XD3_CPY 0 6 1 6] 12"

definition sample_second :: xd3_whole_state where
  "sample_second = whole_of [9, 9] [winst XD3_ADD 0 1 0 0, winst XD3_CPY 1 5 5 1, winst XD3_ADD 0 1 1 6] 7"

lemmas winst_simps = winst_def whole_of_def null_whole_def inst_bytes_def from_target_def Let_def inst_consts VCD_TARGET_def

lemma sample_first_means: "whole_means [1, 2, 3, 4, 5] sample_first [2, 3, 4, 7, 7, 7, 3, 4, 7, 7, 7, 3]"
  by code_simp

lemma sample_second_means: "whole_means [2, 3, 4, 7, 7, 7, 3, 4, 7, 7, 7, 3] sample_second [9, 7, 3, 4, 7, 7, 9]"
  by code_simp

lemma sample_merge_whole: "whole_target sample_merge = null_whole" "alloc sample_merge = (\<lambda>_ _ _. True)"
  by (simp_all add: sample_merge_def xd3_wstream.defs xd3_stream.defs null_stream_def null_defs xd3_enccfg.defs xd3_matching.defs)

section \<open>Properties\<close>

text \<open>C7. Merging composes deltas.  If the first delta makes \<open>mid\<close> of a file and the second makes \<open>out\<close> of \<open>mid\<close>, then
  \<open>xd3_merge_inputs\<close> returns, and unless memory fails it leaves a delta that makes \<open>out\<close> of the file and has the window
  data of the second.  The hypotheses: no instruction of the first delta belongs to a \<open>VCD_TARGET\<close> window (copies from its own target,
  overlapping or not, are allowed); the result goes to an empty whole state; the file is shorter than 2^64 bytes, \<open>out\<close> has at most
  64 MB and the second delta at most 2^26 windows, which keeps the sizes of the arrays below 32 bits.\<close>

theorem merge_composes:
  assumes "whole_means file source mid" and "\<forall>s \<in> set (ws_inst source). w_mode s \<noteq> ucast VCD_TARGET"
    and "whole_means mid inp out" and "whole_target st = null_whole"
    and "length file < 2 ^ 64" and "length out \<le> 2 ^ 26" and "length (ws_wininfo inp) \<le> 2 ^ 26"
  shows "\<exists>ret st'. xd3_merge_inputs source inp st = Some (ret, st') \<and> (no_mem st ret \<or>
    ret = XD3_OK \<and> whole_means file (whole_target st') out \<and> ws_wininfo (whole_target st') = ws_wininfo inp)"
proof -
  obtain r x where w: "copy_wininfo (ws_wininfo inp) st = (r, x)" by fastforce
  have "length (ws_wininfo (whole_target st)) + length (ws_wininfo inp) \<le> 67108864" using assms(4,7) by (simp add: null_whole_def)
  from copy_wininfo_ok [OF this w] show ?thesis
  proof (elim disjE conjE exE)
    assume "no_mem st r"
    then show ?thesis using w by (auto simp: xd3_merge_inputs_def no_mem_def)
  next
    fix a assume x: "r = XD3_OK" "alloc x = alloc st"
      "whole_target x = (whole_target st)\<lparr>wininfo_alloc := a, ws_wininfo := ws_wininfo (whole_target st) @ ws_wininfo inp\<rparr>"
    have inv: "merged file [] x" "unat (ws_length (whole_target x)) = length ([] :: u8 list)"
      using x(3) assms(4) by (simp_all add: merged_def null_whole_def)
    have run: "whole_run mid (ws_adds inp) (ws_inst inp) [] = Some out" "length out \<le> 67108864" "length file < 18446744073709551616"
      using assms(3,5,6) by (simp_all add: whole_means_def)
    have "no_mem x q = no_mem st q" for q using x(2) by (simp add: no_mem_def mem_ok_def)
    with merge_insts_ok [OF assms(1,2) run(3) inv run(1,2)] show ?thesis
      using w x(1,3) assms(4) by (auto simp: xd3_merge_inputs_def whole_means_def merged_def null_whole_def Let_def)
  qed
qed

theorem merge_composes_witness:
  "\<exists>st'. xd3_merge_inputs sample_first sample_second sample_merge = Some (XD3_OK, st')
    \<and> whole_means [1, 2, 3, 4, 5] (whole_target st') [9, 7, 3, 4, 7, 7, 9]"
proof -
  have "\<forall>s \<in> set (ws_inst sample_first). w_mode s \<noteq> ucast VCD_TARGET" by (simp add: sample_first_def winst_simps)
  moreover have "length (ws_wininfo sample_second) \<le> 2 ^ 26" by (simp add: sample_second_def winst_simps)
  moreover have "\<not> no_mem sample_merge r" for r by (simp add: no_mem_def mem_ok_def sample_merge_whole)
  ultimately show ?thesis
    using merge_composes [OF sample_first_means _ sample_second_means sample_merge_whole(1)] by fastforce
qed

text \<open>The offset of a \<open>VCD_TARGET\<close> copy is a position in the target of the first delta, which the merged delta does
  not have: the instruction is kept as it is and means something else, here nothing at all.\<close>

definition target_first :: xd3_whole_state where
  "target_first = whole_of [1, 2] [winst XD3_ADD 0 2 0 0, winst XD3_CPY 2 2 0 2] 4"

definition target_second :: xd3_whole_state where
  "target_second = whole_of [] [winst XD3_CPY 1 2 2 0] 2"

lemmas merge_eval = xd3_merge_inputs_def merge_inst_def xd3_merge_source_copy_def xd3_merge_find_position_def find_position_loop.simps
  merge_copy_loop.simps xd3_whole_alloc_winst_def xd3_realloc_buffer_def xd3_alloc_def xd3_round_blksize_def XD3_ALLOCSIZE_def
  sizeof_winst_def set_last_winst_def merge_part_def add_length_def sample_merge_whole winst_simps

lemma merge_vcd_target_wrong:
  "whole_means [] target_first [1, 2, 1, 2] \<and> whole_means [1, 2, 1, 2] target_second [1, 2]
   \<and> (\<exists>st'. xd3_merge_inputs target_first target_second sample_merge = Some (XD3_OK, st') \<and> (\<forall>out. \<not> whole_means [] (whole_target st') out))"
proof (intro conjI)
  show "whole_means [] target_first [1, 2, 1, 2]" "whole_means [1, 2, 1, 2] target_second [1, 2]"
    by code_simp+
  show "\<exists>st'. xd3_merge_inputs target_first target_second sample_merge = Some (XD3_OK, st') \<and> (\<forall>out. \<not> whole_means [] (whole_target st') out)"
    by (simp add: target_first_def target_second_def merge_eval whole_means_def)
qed

text \<open>Only the first byte of a copy is checked against the length of the first delta's target; the rest is looked for
  behind the end of the instruction array.\<close>

lemma merge_reads_past_instructions:
  "map_option fst (xd3_merge_inputs (whole_of [1, 2] [winst XD3_ADD 0 2 0 0] 2) (whole_of [] [winst XD3_CPY 1 4 1 0] 4) sample_merge) = Some C_UB"
  by code_simp

text \<open>An ADD is taken from the data section without a test that it has that many bytes left.\<close>

lemma append_reads_past_data:
  "fst (xd3_whole_append_inst \<lparr>h_type = XD3_ADD, h_size = 2, h_addr = 0\<rparr> sample_merge) = C_UB"
  by code_simp

end
