(* ===== verification/Xd3_Second.thy ===== *)
theory Xd3_Second
  imports Xd3_Decode
begin

text \<open>
  What the secondary compressors share (xdelta3-second.h and the interface \<open>struct _xd3_sec_type\<close> of
  xdelta3.c): the bit streams and the routines that replace a section by its compressed form.  The build
  of the application leaves secondary compression out; the library has it for its other clients.

  A bit stream fills every byte from its lowest bit; \<open>cur_mask\<close> is the next bit of \<open>cur_byte\<close>.  The reader
  fetches a byte when the mask has left the last one (\<open>0x100\<close>), the writer emits a byte when the mask
  has reached \<open>0x80\<close>.

  The decoding side works on one record \<open>sec_in\<close>: the bit state, the unread input (\<open>*input\<close> up to
  \<open>input_end\<close>), the output written so far (\<open>*output\<close> counted from its start) and the stream.  Its
  routines return a code or a value and keep their state on an error, as the C does through its pointers.
  The encoding side works on the bit state, the chain of output pages and the stream.
\<close>

section \<open>Bit states\<close>

record bit_state =
  cur_byte :: u32
  cur_mask :: u32

definition BIT_STATE_ENCODE_INIT :: bit_state where
  "BIT_STATE_ENCODE_INIT = \<lparr>cur_byte = 0, cur_mask = 1\<rparr>"

definition BIT_STATE_DECODE_INIT :: bit_state where
  "BIT_STATE_DECODE_INIT = \<lparr>cur_byte = 0, cur_mask = 0x100\<rparr>"

definition xd3_bit_state_encode_init :: "bit_state \<Rightarrow> bit_state" where
  "xd3_bit_state_encode_init bits = bits\<lparr>cur_byte := 0, cur_mask := 1\<rparr>"

section \<open>Readers\<close>

record 'a sec_in =
  in_bits :: bit_state
  in_rest :: "u8 list"
  in_out :: "u8 list"
  strm :: "'a xd3_base_scheme"

type_synonym ('a, 'x) reader = "'a sec_in \<Rightarrow> (xd3_ret + 'x) \<times> 'a sec_in"

definition rreturn :: "'x \<Rightarrow> ('a, 'x) reader" where
  "rreturn x s = (Inr x, s)"

definition rbind :: "('a, 'x) reader \<Rightarrow> ('x \<Rightarrow> ('a, 'y) reader) \<Rightarrow> ('a, 'y) reader" where
  "rbind m k s = (case m s of (Inl r, s1) \<Rightarrow> (Inl r, s1) | (Inr x, s1) \<Rightarrow> k x s1)"

text \<open>\<open>stream->msg = m; return XD3_INTERNAL;\<close>, a call with undefined behaviour, and a failed allocation.\<close>

definition rfail :: "string \<Rightarrow> ('a, 'x) reader" where
  "rfail m s = (Inl XD3_INTERNAL, s\<lparr>strm := (strm s)\<lparr>msg := Some m\<rparr>\<rparr>)"

definition rub :: "('a, 'x) reader" where
  "rub s = (Inl C_UB, s)"

definition ralloc :: "u32 \<Rightarrow> u32 \<Rightarrow> ('a, unit) reader" where
  "ralloc elts sz s =
    (case xd3_alloc elts sz (strm s) of
       (False, st) \<Rightarrow> (Inl ENOMEM, s\<lparr>strm := st\<rparr>)
     | (True, st) \<Rightarrow> (Inr (), s\<lparr>strm := st\<rparr>))"

definition rput :: "u8 \<Rightarrow> ('a, unit) reader" where
  "rput b s = (Inr (), s\<lparr>in_out := in_out s @ [b]\<rparr>)"

text \<open>A value that is not there, read from an array, is undefined behaviour.\<close>

definition rget :: "'x option \<Rightarrow> ('a, 'x) reader" where
  "rget v = (case v of None \<Rightarrow> rub | Some x \<Rightarrow> rreturn x)"

fun rtimes :: "nat \<Rightarrow> ('a, 'x) reader \<Rightarrow> ('a, 'x list) reader" where
  "rtimes 0 m = rreturn []"
| "rtimes (Suc n) m = rbind m (\<lambda>x. rbind (rtimes n m) (\<lambda>xs. rreturn (x # xs)))"

section \<open>Reading bits\<close>

text \<open>The label \<open>next_byte\<close>, which \<open>xd3_decode_bits\<close> and the symbol decoders reach whenever another bit is
  wanted and the mask is \<open>0x100\<close>; then one bit.\<close>

definition load_byte :: "('a, unit) reader" where
  "load_byte s =
    (if cur_mask (in_bits s) \<noteq> 0x100 then (Inr (), s)
     else (case in_rest s of
        [] \<Rightarrow> rfail ''secondary decoder end of input'' s
      | b # bs \<Rightarrow> (Inr (), s\<lparr>in_bits := \<lparr>cur_byte = ucast b, cur_mask = 1\<rparr>, in_rest := bs\<rparr>)))"

definition take_bit_here :: "('a, bool) reader" where
  "take_bit_here s =
    (Inr (cur_byte (in_bits s) AND cur_mask (in_bits s) \<noteq> 0),
     s\<lparr>in_bits := (in_bits s)\<lparr>cur_mask := push_bit 1 (cur_mask (in_bits s))\<rparr>\<rparr>)"

definition next_bit :: "('a, bool) reader" where
  "next_bit = rbind load_byte (\<lambda>_. take_bit_here)"

text \<open>\<open>xd3_decode_bits\<close>: the loop runs until \<open>vmask\<close>, which starts at \<open>1 << nbits\<close>, is 1 after the shift; the
  counter is the number of shifts.  With \<open>nbits = 0\<close> it would read to the end of the input.\<close>

fun decode_bits_loop :: "nat \<Rightarrow> u32 \<Rightarrow> u32 \<Rightarrow> ('a, u32) reader" where
  "decode_bits_loop 0 vmask value = rreturn value"
| "decode_bits_loop (Suc n) vmask value =
    rbind next_bit (\<lambda>b.
      let vmask' = drop_bit 1 vmask in decode_bits_loop n vmask' (if b then value OR vmask' else value))"

definition read_out :: "('a, 'x) reader" where
  "read_out s =
    (let last_byte = last (cur_byte (in_bits s) # map ucast (in_rest s)) in
     rfail ''secondary decoder end of input''
       (s\<lparr>in_bits := \<lparr>cur_byte = last_byte, cur_mask = 0x100\<rparr>, in_rest := []\<rparr>))"

definition xd3_decode_bits :: "nat \<Rightarrow> ('a, u32) reader" where
  "xd3_decode_bits nbits =
    (if 32 \<le> nbits then rub else if nbits = 0 then read_out else decode_bits_loop nbits (push_bit nbits 1) 0)"

section \<open>Writing bits\<close>

type_synonym 'a bit_out = "bit_state \<times> xd3_output list \<times> 'a xd3_base_scheme"

definition xd3_encode_bit :: "bool \<Rightarrow> 'a bit_out \<Rightarrow> xd3_ret \<times> 'a bit_out" where
  "xd3_encode_bit b w =
    (case w of (bits, out, st) \<Rightarrow>
       let byte' = (if b then cur_byte bits OR cur_mask bits else cur_byte bits) in
       if cur_mask bits = 0x80 then
         (case xd3_emit_byte out (ucast byte') st of
            (r, out1, st1) \<Rightarrow>
              if r \<noteq> XD3_OK then (r, bits\<lparr>cur_byte := byte'\<rparr>, out1, st1)
              else (XD3_OK, \<lparr>cur_byte = 0, cur_mask = 1\<rparr>, out1, st1))
       else (XD3_OK, \<lparr>cur_byte = byte', cur_mask = push_bit 1 (cur_mask bits)\<rparr>, out, st))"

definition xd3_flush_bits :: "'a bit_out \<Rightarrow> xd3_ret \<times> 'a bit_out" where
  "xd3_flush_bits w =
    (case w of (bits, out, st) \<Rightarrow>
       if cur_mask bits = 1 then (XD3_OK, w)
       else (case xd3_emit_byte out (ucast (cur_byte bits)) st of (r, out1, st1) \<Rightarrow> (r, bits, out1, st1)))"

text \<open>\<open>xd3_encode_bits\<close>: the highest of the \<open>nbits\<close> bits first.  With \<open>nbits = 0\<close> the mask is 0 after its first
  shift and the loop never ends; a shift by 32 and more is undefined.\<close>

fun encode_bits_loop :: "nat \<Rightarrow> u32 \<Rightarrow> u32 \<Rightarrow> 'a bit_out \<Rightarrow> xd3_ret \<times> 'a bit_out" where
  "encode_bits_loop 0 mask_bit value w = (XD3_OK, w)"
| "encode_bits_loop (Suc n) mask_bit value w =
    (let mask' = drop_bit 1 mask_bit in
     bind_ok (xd3_encode_bit (value AND mask' \<noteq> 0) w) (encode_bits_loop n mask' value))"

definition xd3_encode_bits :: "nat \<Rightarrow> u32 \<Rightarrow> 'a bit_out \<Rightarrow> xd3_ret \<times> 'a bit_out" where
  "xd3_encode_bits nbits value w =
    (if 32 \<le> nbits then (C_UB, w) else if nbits = 0 then (C_LOOP, w) else encode_bits_loop nbits (push_bit nbits 1) value w)"

fun write_all :: "('x \<Rightarrow> 'a bit_out \<Rightarrow> xd3_ret \<times> 'a bit_out) \<Rightarrow> 'x list \<Rightarrow> 'a bit_out \<Rightarrow> xd3_ret \<times> 'a bit_out" where
  "write_all f [] w = (XD3_OK, w)"
| "write_all f (x # xs) w = bind_ok (f x w) (write_all f xs)"

section \<open>The interface of a compressor\<close>

datatype xd3_section_type = DATA_SECTION | INST_SECTION | ADDR_SECTION

record xd3_sec_cfg =
  data_type :: xd3_section_type
  ngroups :: u32
  sector_size :: u32
  inefficient :: bool

text \<open>\<open>struct _xd3_sec_type\<close> without its name and flags; \<open>'h\<close> is the compressor's own \<open>xd3_sec_stream\<close>.  The
  decoder takes the input up to its end and the size of the output, and returns what is left of the input
  and the bytes written.\<close>

record ('st, 'h) xd3_sec_type =
  sec_id :: nat
  sec_alloc :: "'st \<Rightarrow> 'h option \<times> 'st"
  sec_destroy :: "'h \<Rightarrow> 'st \<Rightarrow> 'st"
  sec_init :: "bool \<Rightarrow> 'h \<Rightarrow> 'st \<Rightarrow> xd3_ret \<times> 'h \<times> 'st"
  sec_decode :: "'h \<Rightarrow> u8 list \<Rightarrow> u32 \<Rightarrow> 'st \<Rightarrow> xd3_ret \<times> 'h \<times> u8 list \<times> u8 list \<times> 'st"
  sec_encode :: "'h \<Rightarrow> xd3_output list \<Rightarrow> xd3_output list \<Rightarrow> xd3_sec_cfg \<Rightarrow> 'st \<Rightarrow> xd3_ret \<times> 'h \<times> xd3_output list \<times> 'st"

definition SECONDARY_MIN_SAVINGS :: u32 where "SECONDARY_MIN_SAVINGS = 2"
definition SECONDARY_MIN_INPUT :: u32 where "SECONDARY_MIN_INPUT = 10"

definition xd3_get_secondary ::
    "('a xd3_base_scheme, 'h) xd3_sec_type \<Rightarrow> bool \<Rightarrow> 'h option \<Rightarrow> 'a xd3_base_scheme
      \<Rightarrow> xd3_ret \<times> 'h option \<times> 'a xd3_base_scheme" where
  "xd3_get_secondary ty is_encode sec st =
    (case sec of
       Some h \<Rightarrow> (XD3_OK, Some h, st)
     | None \<Rightarrow>
        (case sec_alloc ty st of
           (None, st1) \<Rightarrow> (XD3_INVALID, None, st1\<lparr>msg := Some ''error initializing secondary stream''\<rparr>)
         | (Some h, st1) \<Rightarrow> (case sec_init ty is_encode h st1 of (r, h', st2) \<Rightarrow> (r, Some h', st2))))"

text \<open>A section with the second buffer that \<open>SECONDARY_ANY\<close> adds to \<open>xd3_desect\<close>.\<close>

record xd3_desect2 = xd3_desect +
  sect_copied2 :: "u8 list option"
  sect_alloc2 :: u32

definition xd3_decode_secondary ::
    "('a xd3_decoder_scheme, 'h) xd3_sec_type \<Rightarrow> xd3_desect2 \<Rightarrow> 'h option \<Rightarrow> 'a xd3_decoder_scheme
      \<Rightarrow> xd3_ret \<times> xd3_desect2 \<times> 'h option \<times> 'a xd3_decoder_scheme" where
  "xd3_decode_secondary ty sect sec st =
    (case xd3_get_secondary ty False sec st of
       (r, None, st1) \<Rightarrow> (r, sect, None, st1)
     | (r, Some h, st1) \<Rightarrow>
        if r \<noteq> XD3_OK then (r, sect, Some h, st1)
        else (case xd3_read_uint32_t (sect_buf sect) of
          Inl m \<Rightarrow> (XD3_INVALID_INPUT, sect, Some h, set_msg m st1)
        | Inr (dec_size, buf1) \<Rightarrow>
           (case xd3_decode_allocate dec_size (sect_copied2 sect) (sect_alloc2 sect) st1 of
              (r2, c2, a2, st2) \<Rightarrow>
                let sect1 = sect\<lparr>sect_buf := buf1, sect_copied2 := c2, sect_alloc2 := a2\<rparr> in
                if r2 \<noteq> XD3_OK then (r2, sect1, Some h, st2)
                else (case c2 of
                  None \<Rightarrow> (C_UB, sect1, Some h, st2)
                | Some mem \<Rightarrow>
                   (case sec_decode ty h buf1 dec_size st2 of
                      (r3, h', buf2, written, st3) \<Rightarrow>
                        let mem' = write_at mem 0 written;
                            sect2 = sect1\<lparr>sect_buf := buf2, sect_copied2 := Some mem'\<rparr> in
                        if length mem < length written then (C_UB, sect2, Some h', st3)
                        else if r3 \<noteq> XD3_OK then (r3, sect2, Some h', st3)
                        else if buf2 \<noteq> [] then
                          (XD3_INTERNAL, sect2, Some h', set_msg ''secondary decoder finished with unused input'' st3)
                        else if length written \<noteq> unat dec_size then
                          (XD3_INTERNAL, sect2, Some h', set_msg ''secondary decoder short output'' st3)
                        else (XD3_OK, sect2\<lparr>sect_buf := take (unat dec_size) mem', sect_size := dec_size\<rparr>, Some h', st3))))))"

text \<open>\<open>xd3_encode_secondary (stream, & head, & tail, & sec_stream, cfg, & did_it)\<close>.  The result names the chain the
  section has afterwards and whether it was replaced.  A page that cannot be allocated is a null pointer,
  which the first emit call dereferences.\<close>

definition xd3_encode_secondary ::
    "('a xd3_base_scheme, 'h) xd3_sec_type \<Rightarrow> xd3_output list \<Rightarrow> 'h option \<Rightarrow> xd3_sec_cfg \<Rightarrow> 'a xd3_base_scheme
      \<Rightarrow> xd3_ret \<times> xd3_output list \<times> bool \<times> 'h option \<times> 'a xd3_base_scheme" where
  "xd3_encode_secondary ty head sec cfg st =
    (let orig_size = xd3_sizeof_output head in
     if orig_size < SECONDARY_MIN_INPUT then (XD3_OK, head, False, sec, st)
     else (case xd3_get_secondary ty True sec st of
       (r, None, st1) \<Rightarrow> (r, head, False, None, st1)
     | (r, Some h, st1) \<Rightarrow>
        if r \<noteq> XD3_OK then (r, head, False, Some h, st1)
        else (case xd3_alloc_output st1 of
          (None, st2) \<Rightarrow> (C_UB, head, False, Some h, st2)
        | (Some pg, st2) \<Rightarrow>
           (let giveup = (\<lambda>r tmp h s. (if r = XD3_NOSECOND then XD3_OK else r, head, False, Some h, xd3_free_output tmp s)) in
            case xd3_emit_uint32_t [pg] orig_size st2 of
              (r3, tmp, st3) \<Rightarrow>
                if r3 \<noteq> XD3_OK then giveup r3 tmp h st3
                else (case sec_encode ty h head tmp cfg st3 of
                  (r4, h', tmp', st4) \<Rightarrow>
                    if r4 \<noteq> XD3_OK then giveup r4 tmp' h' st4
                    else if xd3_sizeof_output tmp' < orig_size - SECONDARY_MIN_SAVINGS \<or> inefficient cfg
                    then (XD3_OK, tmp', True, Some h', xd3_free_output head st4)
                    else giveup XD3_OK tmp' h' st4)))))"

end
