(* ===== verification/Xd3_Second_Spec.thy ===== *)
theory Xd3_Second_Spec
  imports Xd3_Second Xd3_Encode_Spec
begin

text \<open>
  Bit streams as lists of bits.  A reader \<open>reads\<close> a bit string as a value when it takes exactly these bits
  from any input that starts with them; a writer \<open>writes\<close> a bit string when it appends exactly these bits
  or runs out of memory.  Both compose, so that the compressors are verified over bit strings.
\<close>

section \<open>Bit strings\<close>

definition byte_bits :: "'w::len word \<Rightarrow> bool list" where
  "byte_bits w = map (bit w) [0 ..< 8]"

definition bits_of :: "u8 list \<Rightarrow> bool list" where
  "bits_of bs = concat (map byte_bits bs)"

definition msb_bits :: "nat \<Rightarrow> 'w::len word \<Rightarrow> bool list" where
  "msb_bits n v = map (bit v) (rev [0 ..< n])"

lemma length_byte_bits [simp]: "length (byte_bits w) = 8"
  by (simp add: byte_bits_def)

lemma byte_bits_ucast: "byte_bits (ucast (b :: u8) :: u32) = byte_bits b"
  by (auto simp: byte_bits_def bit_simps)

lemma bits_of_simps [simp]:
  "bits_of [] = []" "bits_of (b # bs) = byte_bits b @ bits_of bs" "bits_of (xs @ ys) = bits_of xs @ bits_of ys"
  by (simp_all add: bits_of_def)

lemma length_bits_of [simp]: "length (bits_of bs) = 8 * length bs"
  by (induction bs) simp_all

lemma msb_bits_0 [simp]: "msb_bits 0 v = []"
  by (simp add: msb_bits_def)

lemma msb_bits_Suc: "msb_bits (Suc n) v = bit v n # msb_bits n v"
  by (simp add: msb_bits_def)

lemma length_msb_bits [simp]: "length (msb_bits n v) = n"
  by (simp add: msb_bits_def)

lemma word_bits_iff: "(a :: 'w::len word) = b \<longleftrightarrow> (\<forall>n < LENGTH('w). bit a n = bit b n)"
  by (auto intro: bit_word_eqI)

lemma mask_bit_test: "(v :: u32) AND push_bit k 1 \<noteq> 0 \<longleftrightarrow> k < 32 \<and> bit v k"
  by (auto simp: word_bits_iff bit_simps)

lemma mask_inj: "j < 32 \<Longrightarrow> k < 32 \<Longrightarrow> push_bit j (1 :: u32) = push_bit k 1 \<longleftrightarrow> j = k"
  by (auto simp: word_bits_iff bit_simps)

lemma mask_full: "j \<le> 8 \<Longrightarrow> push_bit j (1 :: u32) = 0x100 \<longleftrightarrow> j = 8"
  using mask_inj [of j 8] by simp

section \<open>What is left to read\<close>

definition holds :: "'a sec_in \<Rightarrow> bool list \<Rightarrow> bool" where
  "holds s xs \<longleftrightarrow> (\<exists>k \<le> 8. cur_mask (in_bits s) = push_bit k 1
      \<and> xs = drop k (byte_bits (cur_byte (in_bits s))) @ bits_of (in_rest s))"

definition reads :: "('a, 'x) reader \<Rightarrow> bool list \<Rightarrow> u8 list \<Rightarrow> 'x \<Rightarrow> bool" where
  "reads m bs out v \<longleftrightarrow> (\<forall>s rest. mem_ok (strm s) \<longrightarrow> holds s (bs @ rest) \<longrightarrow>
      (\<exists>s'. m s = (Inr v, s') \<and> holds s' rest \<and> in_out s' = in_out s @ out \<and> base_step (strm s) (strm s')))"

lemma readsD:
  assumes "reads m bs out v" and "mem_ok (strm s)" and "holds s (bs @ rest)"
  obtains s' where "m s = (Inr v, s')" "holds s' rest" "in_out s' = in_out s @ out" "base_step (strm s) (strm s')"
  using assms unfolding reads_def by blast

lemma reads_return: "reads (rreturn v) [] [] v"
  by (simp add: reads_def rreturn_def)

lemma reads_put: "reads (rput b) [] [b] ()"
  by (simp add: reads_def rput_def holds_def)

lemma reads_get: "m = Some v \<Longrightarrow> reads (rget m) [] [] v"
  by (simp add: rget_def reads_return)

lemma reads_alloc: "reads (ralloc a b) [] [] ()"
proof (unfold reads_def, intro allI impI)
  fix s :: "'a sec_in" and rest
  assume ok: "mem_ok (strm s)" and h: "holds s ([] @ rest)"
  obtain r st where a: "xd3_alloc a b (strm s) = (r, st)" by (cases "xd3_alloc a b (strm s)")
  then have "r" using alloc_mem [of a b "strm s" st] ok by (cases r) auto
  with a h alloc_step [OF a] show "\<exists>s'. ralloc a b s = (Inr (), s') \<and> holds s' rest \<and> in_out s' = in_out s @ [] \<and> base_step (strm s) (strm s')"
    by (simp add: ralloc_def holds_def)
qed

lemma reads_bind:
  assumes "reads m bs out v" and "reads (k v) bs' out' w"
  shows "reads (rbind m k) (bs @ bs') (out @ out') w"
proof (unfold reads_def, intro allI impI)
  fix s :: "'a sec_in" and rest
  assume ok: "mem_ok (strm s)" and h: "holds s ((bs @ bs') @ rest)"
  then obtain s1 where s1: "m s = (Inr v, s1)" "holds s1 (bs' @ rest)" "in_out s1 = in_out s @ out" "base_step (strm s) (strm s1)"
    using readsD [OF assms(1) ok] by (metis append.assoc)
  with ok have "mem_ok (strm s1)" using mem_ok_step by blast
  from readsD [OF assms(2) this s1(2)]
  obtain s2 where "k v s1 = (Inr w, s2)" "holds s2 rest" "in_out s2 = in_out s1 @ out'" "base_step (strm s1) (strm s2)" by metis
  with s1 show "\<exists>s'. rbind m k s = (Inr w, s') \<and> holds s' rest \<and> in_out s' = in_out s @ out @ out' \<and> base_step (strm s) (strm s')"
    by (auto simp: rbind_def intro: base_step_trans)
qed

lemma reads_bind0:
  assumes "reads m bs [] v" and "reads (k v) bs' [] w"
  shows "reads (rbind m k) (bs @ bs') [] w"
  using reads_bind [where k = k, OF assms] by simp

lemma reads_bind_pure:
  assumes "reads m [] [] v" and "reads (k v) bs out w"
  shows "reads (rbind m k) bs out w"
  using reads_bind [where k = k, OF assms] by simp

lemma reads_times:
  assumes "\<And>x. x \<in> set xs \<Longrightarrow> reads m (enc x) [] x"
  shows "reads (rtimes (length xs) m) (concat (map enc xs)) [] xs"
  using assms
proof (induction xs)
  case Nil
  then show ?case by (simp add: reads_return)
next
  case (Cons x xs)
  have "reads (rbind (rtimes (length xs) m) (\<lambda>xs. rreturn (x # xs))) (concat (map enc xs)) [] (x # xs)"
    using reads_bind0 [where k = "\<lambda>xs. rreturn (x # xs)", OF Cons.IH reads_return [of "x # xs"]] Cons.prems by simp
  from reads_bind0 [where k = "\<lambda>x. rbind (rtimes (length xs) m) (\<lambda>xs. rreturn (x # xs))", OF Cons.prems [of x] this]
  show ?case by simp
qed

section \<open>Reading bits\<close>

lemma holds_load:
  assumes "holds s (x # xs)"
  obtains s' k where "load_byte s = (Inr (), s')" "k < 8" "cur_mask (in_bits s') = push_bit k 1"
    "bit (cur_byte (in_bits s')) k = x"
    "xs = drop (Suc k) (byte_bits (cur_byte (in_bits s'))) @ bits_of (in_rest s')" "in_out s' = in_out s" "strm s' = strm s"
proof -
  obtain k where k: "k \<le> 8" "cur_mask (in_bits s) = push_bit k 1"
      "x # xs = drop k (byte_bits (cur_byte (in_bits s))) @ bits_of (in_rest s)"
    using assms by (auto simp: holds_def)
  have drop_byte: "drop j (byte_bits (w :: u32)) = bit w j # drop (Suc j) (byte_bits w)" if "j < 8" for j w
    using that by (simp add: Cons_nth_drop_Suc [symmetric] byte_bits_def del: drop_map)
  show ?thesis
  proof (cases "k = 8")
    case True
    then obtain b bs where r: "in_rest s = b # bs" using k(3) by (cases "in_rest s") auto
    have "byte_bits b = bit (ucast b :: u32) 0 # drop (Suc 0) (byte_bits b)"
      using drop_byte [of 0 "ucast b"] by (simp add: byte_bits_ucast)
    then have "x = bit (ucast b :: u32) 0" "xs = drop (Suc 0) (byte_bits b) @ bits_of bs"
      using k(3) True r by (metis append_Cons bits_of_simps(2) drop_append drop_all length_byte_bits list.inject order_refl append_Nil)+
    then show ?thesis
      using that [of "s\<lparr>in_bits := \<lparr>cur_byte = ucast b, cur_mask = 1\<rparr>, in_rest := bs\<rparr>" 0] True k r
      by (simp add: load_byte_def mask_full byte_bits_ucast)
  next
    case False
    then have "k < 8" using k by simp
    then show ?thesis using that [of s k] k mask_full [OF k(1)] drop_byte [of k "cur_byte (in_bits s)"] by (simp add: load_byte_def)
  qed
qed

lemma reads_next_bit: "reads next_bit [b] [] b"
proof (unfold reads_def, intro allI impI)
  fix s :: "'a sec_in" and rest
  assume "holds s ([b] @ rest)"
  then obtain s' k where "load_byte s = (Inr (), s')" "k < 8" "cur_mask (in_bits s') = push_bit k 1"
      "bit (cur_byte (in_bits s')) k = b"
      "rest = drop (Suc k) (byte_bits (cur_byte (in_bits s'))) @ bits_of (in_rest s')" "in_out s' = in_out s" "strm s' = strm s"
    using holds_load [of s b rest] by auto
  then show "\<exists>s'. next_bit s = (Inr b, s') \<and> holds s' rest \<and> in_out s' = in_out s @ [] \<and> base_step (strm s) (strm s')"
    by (auto simp: next_bit_def rbind_def take_bit_here_def mask_bit_test holds_def simp del: push_bit_of_1 push_bit_Suc intro!: exI [of _ "Suc k"])
qed

lemma decode_bits_loop_reads:
  assumes "n < 32" and "acc AND mask n = 0"
  shows "reads (decode_bits_loop n (push_bit n 1) acc :: ('a, u32) reader) (msb_bits n v) [] (acc OR (v AND mask n))"
  using assms
proof (induction n arbitrary: acc)
  case 0
  then show ?case by (simp add: reads_return)
next
  case (Suc n)
  have m: "drop_bit 1 (push_bit (Suc n) (1 :: u32)) = push_bit n 1"
    using Suc.prems(1) by (auto simp: word_bits_iff bit_simps)
  define acc' where "acc' = (if bit v n then acc OR push_bit n 1 else acc)"
  have clear: "\<not> bit acc i" if "i \<le> n" for i
    using that Suc.prems by (auto simp: word_bits_iff bit_simps dest: spec [of _ i])
  have "acc' AND mask n = 0" using clear by (auto simp: acc'_def word_bits_iff bit_simps)
  moreover have "acc' OR (v AND mask n) = acc OR (v AND mask (Suc n))"
    using Suc.prems(1) by (auto simp: acc'_def word_bits_iff bit_simps less_Suc_eq)
  ultimately have "reads (decode_bits_loop n (push_bit n 1) acc' :: ('a, u32) reader) (msb_bits n v) [] (acc OR (v AND mask (Suc n)))"
    using Suc.IH [of acc'] Suc.prems(1) by simp
  then have "reads (let vmask' = drop_bit 1 (push_bit (Suc n) (1 :: u32)) in
        decode_bits_loop n vmask' (if bit v n then acc OR vmask' else acc) :: ('a, u32) reader) (msb_bits n v) [] (acc OR (v AND mask (Suc n)))"
    by (simp only: m Let_def acc'_def)
  from reads_bind0 [where k = "\<lambda>b. let vmask' = drop_bit 1 (push_bit (Suc n) 1) in
      decode_bits_loop n vmask' (if b then acc OR vmask' else acc)", OF reads_next_bit [of "bit v n"] this] show ?case by (simp add: msb_bits_Suc)
qed

lemma reads_decode_bits:
  assumes "0 < n" "n < 32" "unat v < 2 ^ n"
  shows "reads (xd3_decode_bits n) (msb_bits n v) [] v"
proof -
  have "v AND mask n = v" using assms(2,3) by (simp add: word_unat_eq_iff unat_and_mask_mod)
  with decode_bits_loop_reads [of n 0 v] assms show ?thesis by (simp add: xd3_decode_bits_def)
qed


section \<open>Writing bits\<close>

definition wrote :: "'a bit_out \<Rightarrow> bool list \<Rightarrow> bool" where
  "wrote w xs \<longleftrightarrow> (case w of (bits, out, st) \<Rightarrow> chain_inv out st \<and>
     (\<exists>k < 8. cur_mask bits = push_bit k 1 \<and> cur_byte bits AND mask k = cur_byte bits
        \<and> xs = bits_of (out_bytes out) @ take k (byte_bits (cur_byte bits))))"

definition written :: "'a bit_out \<Rightarrow> 'a bit_out \<Rightarrow> bool" where
  "written w w' \<longleftrightarrow> base_step (snd (snd w)) (snd (snd w')) \<and> chain_inv (fst (snd w')) (snd (snd w'))"

definition writes :: "('a bit_out \<Rightarrow> xd3_ret \<times> 'a bit_out) \<Rightarrow> bool list \<Rightarrow> bool" where
  "writes m bs \<longleftrightarrow> (\<forall>w xs r w'. wrote w xs \<longrightarrow> m w = (r, w') \<longrightarrow>
      written w w' \<and> (r = XD3_OK \<or> no_mem (snd (snd w)) r) \<and> (r = XD3_OK \<longrightarrow> wrote w' (xs @ bs)))"

lemma writesD:
  assumes "writes m bs" and "wrote w xs" and "m w = (r, w')"
  shows "written w w'" "r = XD3_OK \<or> no_mem (snd (snd w)) r" "r = XD3_OK \<Longrightarrow> wrote w' (xs @ bs)"
  using assms unfolding writes_def by blast+

lemma wrote_written: "wrote w xs \<Longrightarrow> written w w"
  by (auto simp: wrote_def written_def split: prod.splits)

lemma written_trans: "written w w1 \<Longrightarrow> written w1 w2 \<Longrightarrow> written w w2"
  unfolding written_def by (blast intro: base_step_trans)

lemma no_mem_written: "written w w' \<Longrightarrow> no_mem (snd (snd w')) r = no_mem (snd (snd w)) r"
  by (auto simp: no_mem_def written_def mem_ok_step)

lemma writes_nil: "writes (\<lambda>w. (XD3_OK, w)) []"
  by (auto simp: writes_def wrote_written)

lemma writes_bind:
  assumes "writes f bs" and "writes g bs'"
  shows "writes (\<lambda>w. bind_ok (f w) g) (bs @ bs')"
proof (unfold writes_def, intro allI impI)
  fix w xs r w'
  assume w: "wrote w xs" and b: "bind_ok (f w) g = (r, w')"
  obtain r1 w1 where f: "f w = (r1, w1)" by (cases "f w")
  note f1 = writesD [OF assms(1) w f]
  show "written w w' \<and> (r = XD3_OK \<or> no_mem (snd (snd w)) r) \<and> (r = XD3_OK \<longrightarrow> wrote w' (xs @ bs @ bs'))"
  proof (cases "r1 = XD3_OK")
    case True
    then have g: "g w1 = (r, w')" "wrote w1 (xs @ bs)" using b f f1 by simp_all
    from writesD [OF assms(2) g(2,1)] f1(1) show ?thesis by (auto intro: written_trans simp: no_mem_written)
  next
    case False
    then show ?thesis using b f f1 by auto
  qed
qed

lemma writes_all:
  assumes "\<And>x. x \<in> set xs \<Longrightarrow> writes (f x) (enc x)"
  shows "writes (write_all f xs) (concat (map enc xs))"
  using assms
proof (induction xs)
  case (Cons x xs)
  have "writes (\<lambda>w. bind_ok (f x w) (write_all f xs)) (enc x @ concat (map enc xs))"
    by (rule writes_bind) (use Cons in simp_all)
  then show ?case by (simp add: writes_def)
qed (auto simp: writes_def wrote_written)

lemma set_bit_here:
  fixes c :: u32 and b :: bool
  assumes "k < 8" "c AND mask k = c"
  defines "c' \<equiv> (if b then c OR push_bit k 1 else c)"
  shows "c' AND mask (Suc k) = c'" "take (Suc k) (byte_bits c') = take k (byte_bits c) @ [b]"
proof -
  have low: "\<not> bit c i" if "k \<le> i" for i
    using that assms(2) by (metis bit_and_iff bit_mask_iff not_le)
  show "c' AND mask (Suc k) = c'" using low assms(1)
    by (auto simp: c'_def word_bits_iff bit_simps less_Suc_eq not_less [symmetric])
  have "map (bit c') [0 ..< k] = map (bit c) [0 ..< k]" "bit c' k = b"
    using low [of k] assms(1) by (auto simp: c'_def bit_simps)
  then show "take (Suc k) (byte_bits c') = take k (byte_bits c) @ [b]"
    using assms(1) by (simp add: byte_bits_def take_map)
qed

lemma writes_bit: "writes (xd3_encode_bit b) [b]"
proof (unfold writes_def, intro allI impI)
  fix w xs r w'
  assume w: "wrote w xs" and e: "xd3_encode_bit b w = (r, w')"
  obtain bits out st where w3: "w = (bits, out, st)" by (cases w)
  from w obtain k where k: "k < 8" "cur_mask bits = push_bit k 1" "cur_byte bits AND mask k = cur_byte bits"
      and xs: "xs = bits_of (out_bytes out) @ take k (byte_bits (cur_byte bits))" and inv: "chain_inv out st"
    by (auto simp: wrote_def w3)
  define c where "c = (if b then cur_byte bits OR cur_mask bits else cur_byte bits)"
  note c = set_bit_here [OF k(1,3), of b, folded k(2), folded c_def]
  have full: "cur_mask bits = 0x80 \<longleftrightarrow> k = 7" using mask_inj [of k 7] k by simp
  show "written w w' \<and> (r = XD3_OK \<or> no_mem (snd (snd w)) r) \<and> (r = XD3_OK \<longrightarrow> wrote w' (xs @ [b]))"
  proof (cases "k = 7")
    case True
    obtain r1 out1 st1 where em: "xd3_emit_byte out (ucast c) st = (r1, out1, st1)" by (metis prod_cases3)
    note sink = emit_byte_sinkD [OF inv em] emit_byte_step [OF em] emit_byte_mem [OF em]
    have "byte_bits (ucast c :: u8) = take 8 (byte_bits c)" by (auto simp: byte_bits_def bit_simps)
    with c(2) True have all: "byte_bits (ucast c :: u8) = take k (byte_bits (cur_byte bits)) @ [b]" by simp
    have "xd3_encode_bit b w = (if r1 \<noteq> XD3_OK then (r1, bits\<lparr>cur_byte := c\<rparr>, out1, st1)
        else (XD3_OK, \<lparr>cur_byte = 0, cur_mask = 1\<rparr>, out1, st1))"
      using full True em by (simp add: xd3_encode_bit_def w3 Let_def flip: c_def)
    with e sink all xs show ?thesis
      by (auto simp: written_def w3 wrote_def no_mem_def intro!: exI [of _ 0] split: if_splits)
  next
    case False
    then have "xd3_encode_bit b w = (XD3_OK, \<lparr>cur_byte = c, cur_mask = push_bit (Suc k) 1\<rparr>, out, st)"
      using full k(2) by (simp add: xd3_encode_bit_def w3 Let_def push_bit_Suc flip: c_def)
    with e c k False xs inv show ?thesis
      by (auto simp: written_def w3 wrote_def simp del: push_bit_of_1 intro!: exI [of _ "Suc k"])
  qed
qed

lemma encode_bits_loop_writes:
  "n < 32 \<Longrightarrow> writes (encode_bits_loop n (push_bit n 1) v :: 'a bit_out \<Rightarrow> _) (msb_bits n v)"
proof (induction n)
  case 0
  then show ?case by (auto simp: writes_def wrote_written)
next
  case (Suc n)
  have m: "drop_bit 1 (push_bit (Suc n) (1 :: u32)) = push_bit n 1"
    using Suc.prems(1) by (auto simp: word_bits_iff bit_simps)
  have b: "v AND push_bit n 1 \<noteq> 0 \<longleftrightarrow> bit v n" using Suc.prems by (simp only: mask_bit_test) simp
  have "writes (\<lambda>w :: 'a bit_out. bind_ok (xd3_encode_bit (bit v n) w) (encode_bits_loop n (push_bit n 1) v)) ([bit v n] @ msb_bits n v)"
    by (rule writes_bind [OF writes_bit]) (use Suc in simp)
  moreover have "encode_bits_loop (Suc n) (push_bit (Suc n) 1) v
      = (\<lambda>w :: 'a bit_out. bind_ok (xd3_encode_bit (bit v n) w) (encode_bits_loop n (push_bit n 1) v))"
    by (rule ext) (simp only: encode_bits_loop.simps Let_def m b)
  ultimately show ?case by (simp only: msb_bits_Suc append_Cons append_Nil)
qed

lemma writes_encode_bits:
  "0 < n \<Longrightarrow> n < 32 \<Longrightarrow> writes (xd3_encode_bits n v) (msb_bits n v)"
  using encode_bits_loop_writes [of n v] by (simp add: writes_def xd3_encode_bits_def)

lemma flush_written:
  assumes w: "wrote w xs" and e: "xd3_flush_bits w = (r, w')"
  shows "written w w'" "r = XD3_OK \<or> no_mem (snd (snd w)) r"
    "r = XD3_OK \<Longrightarrow> \<exists>pad. bits_of (out_bytes (fst (snd w'))) = xs @ pad \<and> length pad < 8"
proof -
  obtain bits out st where w3: "w = (bits, out, st)" by (cases w)
  from w obtain k where k: "k < 8" "cur_mask bits = push_bit k 1"
      and xs: "xs = bits_of (out_bytes out) @ take k (byte_bits (cur_byte bits))" and inv: "chain_inv out st"
    by (auto simp: wrote_def w3)
  have first: "cur_mask bits = 1 \<longleftrightarrow> k = 0" using mask_inj [of k 0] k by simp
  obtain r1 out1 st1 where em: "xd3_emit_byte out (ucast (cur_byte bits)) st = (r1, out1, st1)" by (metis prod_cases3)
  note sink = emit_byte_sinkD [OF inv em] emit_byte_step [OF em] emit_byte_mem [OF em]
  have "byte_bits (ucast (cur_byte bits) :: u8) = take k (byte_bits (cur_byte bits)) @ drop k (byte_bits (cur_byte bits))"
    by (auto simp: byte_bits_def bit_simps)
  then have all: "bits_of (out_bytes out1) = xs @ drop k (byte_bits (cur_byte bits))" if "r1 = XD3_OK"
    using sink(3) [OF that] xs by simp
  have e': "(r, w') = (if k = 0 then (XD3_OK, w) else (r1, bits, out1, st1))"
    using e first em by (auto simp: xd3_flush_bits_def w3)
  show "written w w'" "r = XD3_OK \<or> no_mem (snd (snd w)) r"
    using e' sink inv by (auto simp: written_def w3 no_mem_def split: if_splits)
  show "\<exists>pad. bits_of (out_bytes (fst (snd w'))) = xs @ pad \<and> length pad < 8" if "r = XD3_OK"
    using e' all xs that k(1) by (cases "k = 0") (auto simp: w3 intro!: exI [of _ "drop k (byte_bits (cur_byte bits))"])
qed

section \<open>From the writer to the reader\<close>

lemma wrote_start: "chain_inv out st \<Longrightarrow> wrote (BIT_STATE_ENCODE_INIT, out, st) (bits_of (out_bytes out))"
  by (auto simp: wrote_def BIT_STATE_ENCODE_INIT_def intro!: exI [of _ 0])

definition sec_start :: "u8 list \<Rightarrow> 'a xd3_base_scheme \<Rightarrow> 'a sec_in" where
  "sec_start inp st = \<lparr>in_bits = BIT_STATE_DECODE_INIT, in_rest = inp, in_out = [], strm = st\<rparr>"

lemma holds_start: "holds (sec_start inp st) (bits_of inp)"
  by (auto simp: holds_def sec_start_def BIT_STATE_DECODE_INIT_def intro!: exI [of _ 8])

lemma holds_end: "holds s pad \<Longrightarrow> length pad < 8 \<Longrightarrow> in_rest s = []"
  by (cases "in_rest s") (auto simp: holds_def)

lemma byte_bits_inj: "byte_bits (a :: u8) = byte_bits b \<Longrightarrow> a = b"
  by (simp add: word_bits_iff byte_bits_def)

lemma bits_of_prefix: "bits_of ys = bits_of xs @ t \<Longrightarrow> \<exists>zs. ys = xs @ zs \<and> bits_of zs = t"
proof (induction xs arbitrary: ys)
  case (Cons x xs)
  then obtain y ys' where ys: "ys = y # ys'" by (cases ys) (auto dest: arg_cong [of _ _ length])
  with Cons.prems have "byte_bits y = byte_bits x" "bits_of ys' = bits_of xs @ t" by simp_all
  with Cons.IH [of ys'] ys byte_bits_inj show ?case by auto
qed simp

section \<open>Sections\<close>

lemma decode_allocate_room:
  assumes "mem_ok st" and "unat sz < 2 ^ 31" and "\<And>old. c = Some old \<Longrightarrow> length old = unat a"
    and "xd3_decode_allocate sz c a st = (r, c', a', st')"
  shows "r = XD3_OK" "base_step st st'" "\<exists>buf. c' = Some buf \<and> unat sz \<le> length buf"
proof -
  define n where "n = xd3_round_blksize sz XD3_ALLOCSIZE"
  have up: "unat sz \<le> (unat sz + (16384 - 1)) div 16384 * 16384"
    using div_mult_mod_eq [of "unat sz + (16384 - 1)" 16384] mod_less_divisor [of 16384 "unat sz + (16384 - 1)"] by linarith
  have n: "unat sz \<le> unat n"
    using unat_round_blksize [of 14 sz] assms(2) up by (simp add: n_def ALLOCSIZE_16384)
  have ok: "xd3_alloc n 1 st1 = (True, snd (xd3_alloc n 1 st1))" if "mem_ok st1" for st1 :: "'a xd3_decoder_scheme"
    using that by (simp add: xd3_alloc_def mem_ok_def Let_def)
  have free: "mem_ok (xd3_free st)" using assms(1) free_step mem_ok_step by blast
  have step2: "base_step st st1" if "xd3_alloc n 1 st = (x, st1) \<or> xd3_alloc n 1 (xd3_free st) = (x, st1)" for x st1
    using that alloc_step base_step_trans [OF free_step] by metis
  show "r = XD3_OK" "base_step st st'" "\<exists>buf. c' = Some buf \<and> unat sz \<le> length buf"
    using assms(3,4) ok [OF assms(1)] ok [OF free] n step2
    by (auto simp: xd3_decode_allocate_def Let_def fresh_block_def word_less_nat_alt n_def [symmetric]
        split: if_splits option.splits prod.splits)
qed

lemma alloc_output_page:
  assumes "xd3_alloc_output st = (Some pg, st')" and "pool_wf st"
  shows "chain_inv [pg] st'" "pg_data pg = []"
  using assms
  by (auto simp: xd3_alloc_output_def chain_inv_def chain_wf_def pool_wf_def page_wf_def xd3_alloc_def Let_def
      split: list.splits prod.splits bool.splits if_splits)

text \<open>The pages of a section that is compressed; an empty one would be read all the same.\<close>

definition pages_filled :: "xd3_output list \<Rightarrow> bool" where
  "pages_filled out \<longleftrightarrow> list_all (\<lambda>pg. pg_data pg \<noteq> []) out"

end
