(* ===== verification/Xd3_Second_Contract.thy ===== *)
theory Xd3_Second_Contract
  imports Xd3_Second_Spec
begin

text \<open>
  The section routines \<open>xd3_encode_secondary\<close> and \<open>xd3_decode_secondary\<close> over any compressor that keeps the contract
  \<open>sec_compressor\<close>: a section that was replaced is restored, and one that was not replaced is left as it was.
\<close>

section \<open>The contract of a compressor\<close>

text \<open>What \<open>xd3_encode_secondary\<close> and \<open>xd3_decode_secondary\<close> rely on: the states of the two sides are kept in
  step (\<open>sync\<close>); the encoder returns one of three codes or runs out of memory, and keeps the pages well-formed; what it
  appends to the few bytes of the size field is decoded, all of it, to the bytes of the input pages.  \<open>fits\<close> is where
  the decoding is promised, \<open>limit\<close> the length up to which the encoder can be called at all.\<close>

locale sec_compressor =
  fixes ty_e :: "('a xd3_base_scheme, 'h) xd3_sec_type"
    and ty_d :: "('b xd3_decoder_scheme, 'k) xd3_sec_type"
    and sync :: "'h option \<Rightarrow> 'k option \<Rightarrow> bool"
    and fits :: "nat \<Rightarrow> xd3_sec_cfg \<Rightarrow> bool"
    and limit :: nat
  assumes get_encoder: "xd3_get_secondary ty_e True sec st = (r, sec', st1) \<Longrightarrow> pool_wf st \<Longrightarrow>
      pool_wf st1 \<and> base_step st st1 \<and> (mem_ok st \<longrightarrow> r = XD3_OK \<and> sec' \<noteq> None)"
    and get_decoder: "sync sec dsec \<Longrightarrow> xd3_get_secondary ty_e True sec st = (XD3_OK, Some h, st1) \<Longrightarrow> mem_ok dst \<Longrightarrow>
      \<exists>k dst1. xd3_get_secondary ty_d False dsec dst = (XD3_OK, Some k, dst1) \<and> sync (Some h) (Some k) \<and> base_step dst dst1"
    and encode_safe: "chain_inv tmp st \<Longrightarrow> length (out_bytes tmp) \<le> 5 \<Longrightarrow> chain_wf input \<Longrightarrow> pages_filled input \<Longrightarrow>
      length (out_bytes input) < limit \<Longrightarrow> sec_encode ty_e h input tmp cfg st = (r, h', tmp', st') \<Longrightarrow>
      base_step st st' \<and> chain_inv tmp' st' \<and> (r \<in> {XD3_OK, XD3_NOSECOND, XD3_INTERNAL} \<or> no_mem st r)"
    and coding: "sync (Some h) (Some k) \<Longrightarrow> chain_inv tmp st \<Longrightarrow> length (out_bytes tmp) \<le> 5 \<Longrightarrow> chain_wf input \<Longrightarrow> pages_filled input \<Longrightarrow>
      length (out_bytes input) < limit \<Longrightarrow> fits (length (out_bytes input)) cfg \<Longrightarrow>
      sec_encode ty_e h input tmp cfg st = (XD3_OK, h', tmp', st') \<Longrightarrow>
      \<exists>new. out_bytes tmp' = out_bytes tmp @ new \<and>
        (\<forall>dst. mem_ok dst \<longrightarrow> (\<exists>k' dst'. sec_decode ty_d k new (of_nat (length (out_bytes input))) dst
            = (XD3_OK, k', [], out_bytes input, dst') \<and> sync (Some h') (Some k')))"
begin

lemma size_field: "length (emit_integer_type (n :: u32)) \<le> 5"
  unfolding unat_sizeof_uint32_t [symmetric] by (simp add: xd3_sizeof_uint32_t_def)

text \<open>A call that does not stop before the compressor: it fills a fresh chain with the size of the section and hands it on.\<close>

lemma encode_section:
  assumes enc: "xd3_encode_secondary ty_e head sec cfg st = (r, head', did, sec', st')"
    and head: "chain_inv head st" and big: "\<not> xd3_sizeof_output head < SECONDARY_MIN_INPUT" and mem: "mem_ok st"
  obtains h st1 tmp st3 r4 h' tmp' st4 where "xd3_get_secondary ty_e True sec st = (XD3_OK, Some h, st1)" "base_step st st3"
    "chain_inv tmp st3" "length (out_bytes tmp) \<le> 5" "out_bytes tmp = emit_integer_type (xd3_sizeof_output head)"
    "sec_encode ty_e h head tmp cfg st3 = (r4, h', tmp', st4)"
    "(r, head', did, sec', st') = (if r4 = XD3_OK \<and> (xd3_sizeof_output tmp' < xd3_sizeof_output head - SECONDARY_MIN_SAVINGS \<or> inefficient cfg)
      then (XD3_OK, tmp', True, Some h', xd3_free_output head st4)
      else (if r4 = XD3_NOSECOND then XD3_OK else r4, head, False, Some h', xd3_free_output tmp' st4))"
proof -
  define n where "n = xd3_sizeof_output head"
  obtain r1 sec1 st1 where g: "xd3_get_secondary ty_e True sec st = (r1, sec1, st1)" by (metis prod_cases3)
  have "pool_wf st" using head by (simp add: chain_inv_def)
  from get_encoder [OF g this] mem obtain h where h: "sec1 = Some h" "r1 = XD3_OK" "pool_wf st1" "base_step st st1" by auto
  have mem1: "mem_ok st1" using mem mem_ok_step [OF h(4)] by simp
  obtain p st2 where p: "xd3_alloc_output st1 = (p, st2)" by (cases "xd3_alloc_output st1")
  obtain pg where pg: "p = Some pg" using alloc_output_mem [of st1 st2] mem1 p by (cases p) auto
  note s2 = alloc_output_step [OF p]
  have page: "chain_inv [pg] st2" "pg_data pg = []" using alloc_output_page [of st1 pg st2] p pg h(3) by blast+
  obtain r3 tmp st3 where e3: "xd3_emit_bytes [pg] (emit_integer_type n) st2 = (r3, tmp, st3)" by (metis prod_cases3)
  have mem2: "mem_ok st2" using mem1 mem_ok_step [OF s2] by simp
  note sink = emit_bytes_sinkD [OF page(1) e3]
  have r3: "r3 = XD3_OK" using emit_bytes_mem [OF e3] mem2 sink(2) by blast
  have tmp: "out_bytes tmp = emit_integer_type n" using sink(3) [OF r3] page(2) by (simp add: out_bytes_def)
  have step3: "base_step st st3" using h(4) s2 emit_bytes_step [OF e3] base_step_trans by blast
  obtain r4 h' tmp' st4 where e4: "sec_encode ty_e h head tmp cfg st3 = (r4, h', tmp', st4)" by (metis prod_cases4)
  have "(r, head', did, sec', st') = (if r4 = XD3_OK \<and> (xd3_sizeof_output tmp' < n - SECONDARY_MIN_SAVINGS \<or> inefficient cfg)
      then (XD3_OK, tmp', True, Some h', xd3_free_output head st4)
      else (if r4 = XD3_NOSECOND then XD3_OK else r4, head, False, Some h', xd3_free_output tmp' st4))"
    using enc g h p pg e3 r3 e4 big
    by (simp add: xd3_encode_secondary_def xd3_emit_uint32_t_def n_def [symmetric] Let_def split: if_splits)
  with g h step3 sink(1) tmp size_field e4 that show ?thesis by (simp add: n_def)
qed

lemma replaced_is_big:
  assumes "xd3_encode_secondary ty_e head sec cfg st = (r, head', True, sec', st')"
  shows "\<not> xd3_sizeof_output head < SECONDARY_MIN_INPUT"
  using assms by (auto simp: xd3_encode_secondary_def Let_def)

text \<open>With memory, a section is replaced by a chain that is shorter by more than two bytes (unless the configuration wants inefficient
  results, too), or it is left as it was.\<close>

lemma section_safe:
  assumes enc: "xd3_encode_secondary ty_e head sec cfg st = (r, head', did, sec', st')"
    and head: "chain_inv head st" "pages_filled head" "length (out_bytes head) < limit" and mem: "mem_ok st"
  shows "r = XD3_OK \<or> r = XD3_INTERNAL" "chain_inv head' st'" "base_step st st'" "did \<Longrightarrow> r = XD3_OK" "\<not> did \<Longrightarrow> head' = head"
    "did \<Longrightarrow> inefficient cfg \<or> xd3_sizeof_output head' < xd3_sizeof_output head - SECONDARY_MIN_SAVINGS"
proof -
  have free: "chain_inv out (xd3_free_output pgs s)" if "chain_inv out s" for out pgs and s :: "'a xd3_base_scheme"
    using that by (simp add: free_output_eq chain_inv_def pool_wf_def)
  have step: "base_step s (xd3_free_output pgs s)" for pgs and s :: "'a xd3_base_scheme"
    by (rule base_step_eqI) (simp add: free_output_eq)
  have "(r = XD3_OK \<or> r = XD3_INTERNAL) \<and> chain_inv head' st' \<and> base_step st st' \<and> (did \<longrightarrow> r = XD3_OK) \<and> (\<not> did \<longrightarrow> head' = head)
    \<and> (did \<longrightarrow> inefficient cfg \<or> xd3_sizeof_output head' < xd3_sizeof_output head - SECONDARY_MIN_SAVINGS)"
  proof (cases "xd3_sizeof_output head < SECONDARY_MIN_INPUT")
    case True
    then show ?thesis using enc head(1) by (auto simp: xd3_encode_secondary_def Let_def)
  next
    case False
    from encode_section [OF enc head(1) False mem] obtain h st1 tmp st3 r4 h' tmp' st4
      where e: "base_step st st3" "chain_inv tmp st3" "length (out_bytes tmp) \<le> 5" "sec_encode ty_e h head tmp cfg st3 = (r4, h', tmp', st4)"
      and res: "(r, head', did, sec', st') = (if r4 = XD3_OK \<and> (xd3_sizeof_output tmp' < xd3_sizeof_output head - SECONDARY_MIN_SAVINGS \<or> inefficient cfg)
        then (XD3_OK, tmp', True, Some h', xd3_free_output head st4)
        else (if r4 = XD3_NOSECOND then XD3_OK else r4, head, False, Some h', xd3_free_output tmp' st4))" by metis
    have "chain_wf head" using head(1) by (simp add: chain_inv_def)
    note s = encode_safe [OF e(2,3) this head(2,3) e(4)]
    have mem3: "mem_ok st3" using mem mem_ok_step [OF e(1)] by simp
    then have r4: "r4 \<in> {XD3_OK, XD3_NOSECOND, XD3_INTERNAL}" using s by (auto simp: no_mem_def)
    have st4: "base_step st st4" "pool_wf st4" using s e(1) base_step_trans by (auto simp: chain_inv_def)
    have "chain_inv head st4" using head(1) st4(2) by (simp add: chain_inv_def)
    moreover have "base_step st (xd3_free_output pgs st4)" for pgs by (rule base_step_trans [OF st4(1) step])
    ultimately show ?thesis using res r4 s free by (auto split: if_splits)
  qed
  then show "r = XD3_OK \<or> r = XD3_INTERNAL" "chain_inv head' st'" "base_step st st'" "did \<Longrightarrow> r = XD3_OK" "\<not> did \<Longrightarrow> head' = head"
    "did \<Longrightarrow> inefficient cfg \<or> xd3_sizeof_output head' < xd3_sizeof_output head - SECONDARY_MIN_SAVINGS" by blast+
qed

lemma section_roundtrip:
  assumes enc: "xd3_encode_secondary ty_e head sec cfg st = (XD3_OK, head', True, sec', st')"
    and head: "chain_inv head st" "pages_filled head" "length (out_bytes head) < limit" "limit \<le> 2 ^ 31" "fits (length (out_bytes head)) cfg" "mem_ok st"
    and dec: "sync sec dsec" "mem_ok dst" "sect_buf sect = out_bytes head'"
      "\<And>old. sect_copied2 sect = Some old \<Longrightarrow> length old = unat (sect_alloc2 sect)"
  obtains sect' dsec' dst' where "xd3_decode_secondary ty_d sect dsec dst = (XD3_OK, sect', dsec', dst')"
    "sect_buf sect' = out_bytes head" "sect_size sect' = of_nat (length (out_bytes head))" "sync sec' dsec'"
proof -
  define n :: u32 where "n = of_nat (length (out_bytes head))"
  have n: "unat n = length (out_bytes head)" "unat n < 2 ^ 31" using head(3,4) by (simp_all add: n_def unat_of_nat_small)
  have orig: "xd3_sizeof_output head = n" by (simp add: n_def sizeof_output_bytes)
  from encode_section [OF enc head(1) replaced_is_big [OF enc] head(6), unfolded orig] obtain h st1 tmp st3 r4 h' tmp' st4
    where e: "xd3_get_secondary ty_e True sec st = (XD3_OK, Some h, st1)" "chain_inv tmp st3" "length (out_bytes tmp) \<le> 5"
      "out_bytes tmp = emit_integer_type n" "sec_encode ty_e h head tmp cfg st3 = (r4, h', tmp', st4)"
      and res: "(XD3_OK, head', True, sec', st') = (if r4 = XD3_OK \<and> (xd3_sizeof_output tmp' < n - SECONDARY_MIN_SAVINGS \<or> inefficient cfg)
        then (XD3_OK, tmp', True, Some h', xd3_free_output head st4)
        else (if r4 = XD3_NOSECOND then XD3_OK else r4, head, False, Some h', xd3_free_output tmp' st4))" by metis
  then have sec': "r4 = XD3_OK" "tmp' = head'" "sec' = Some h'" by (simp_all split: if_splits)
  from get_decoder [OF dec(1) e(1) dec(2)] obtain k dst1
    where k: "xd3_get_secondary ty_d False dsec dst = (XD3_OK, Some k, dst1)" "sync (Some h) (Some k)" "base_step dst dst1" by blast
  have "chain_wf head" using head(1) by (simp add: chain_inv_def)
  from coding [OF k(2) e(2,3) this head(2,3,5) e(5) [unfolded sec'(1,2)]] obtain new
    where new: "out_bytes head' = emit_integer_type n @ new"
      and decodes: "\<And>d. mem_ok d \<Longrightarrow> \<exists>k' d'. sec_decode ty_d k new n d = (XD3_OK, k', [], out_bytes head, d') \<and> sync (Some h') (Some k')"
    unfolding e(4) n_def by blast
  have rd: "xd3_read_uint32_t (sect_buf sect) = Inr (n, new)"
    unfolding dec(3) new xd3_read_uint32_t_def by (rule varint32.read_emit)
  obtain r2 c2 a2 dst2 where al: "xd3_decode_allocate n (sect_copied2 sect) (sect_alloc2 sect) dst1 = (r2, c2, a2, dst2)"
    by (metis prod_cases4)
  have mem1: "mem_ok dst1" using k(3) dec(2) mem_ok_step by blast
  note room = decode_allocate_room [OF mem1 n(2) dec(4) al, simplified]
  then obtain buf where buf: "c2 = Some buf" "unat n \<le> length buf" by blast
  have "mem_ok dst2" using room(2) mem1 mem_ok_step by blast
  from decodes [OF this] obtain k' dst3
    where d: "sec_decode ty_d k new n dst2 = (XD3_OK, k', [], out_bytes head, dst3)" "sync (Some h') (Some k')" by blast
  define sect' where "sect' = sect\<lparr>sect_buf := out_bytes head, sect_size := n, sect_copied2 := Some (write_at buf 0 (out_bytes head)),
      sect_alloc2 := a2\<rparr>"
  have "xd3_decode_secondary ty_d sect dsec dst = (XD3_OK, sect', Some k', dst3)"
    using k rd al room(1) buf d n write_at_take [of 0 "out_bytes head" buf]
    by (simp add: xd3_decode_secondary_def Let_def sect'_def)
  then show ?thesis using that [of sect' "Some k'" dst3] d(2) sec'(3) by (simp add: sect'_def n_def)
qed

end

end
