(* ===== verification/Xd3_Djw.thy ===== *)
theory Xd3_Djw
  imports Xd3_Second
begin

text \<open>
  The static Huffman compressor (xdelta3-djw.h), the secondary compressor the public builds of xdelta3
  use.  A section is coded with one Huffman table, or cut into sectors that each choose one of up to eight
  tables.  The lengths of the codes are sent first, themselves coded by move to front, runs (the "1-2"
  code) and one more Huffman table.

  Arrays.  Small counters, indices and code lengths are \<open>nat\<close>; frequencies, codes and the decoder's
  limits are \<open>u32\<close>, as they are computed with.  The arrays of the tree builder, \<open>heap[ALPHABET_SIZE + 1]\<close> and
  \<open>ents[ALPHABET_SIZE * 2]\<close>, are functions on indices; a write behind their ends is \<open>None\<close>.  The buffers that the encoder appends to
  (\<open>mtfsym\<close>, \<open>symbol\<close>, \<open>gbest\<close>) are lists with their capacity as an argument; more than that is \<open>None\<close> or \<open>C_UB\<close>.
  Tables that are filled in part are maps, so that a use of a cell that was not written, or of
  one behind the end, is \<open>None\<close> and becomes \<open>C_UB\<close>.  \<open>None\<close> of \<open>djw_build_prefix\<close> stands for an access outside of its arrays
  or a loop without end; its callers turn it into \<open>C_UB\<close>.
\<close>

section \<open>Constants\<close>

definition ALPHABET_SIZE :: nat where [simp]: "ALPHABET_SIZE = 256"
definition DJW_MAX_CODELEN :: nat where [simp]: "DJW_MAX_CODELEN = 20"
definition DJW_TOTAL_CODES :: nat where [simp]: "DJW_TOTAL_CODES = DJW_MAX_CODELEN + 2"
definition RUN_0 :: nat where [simp]: "RUN_0 = 0"
definition RUN_1 :: nat where [simp]: "RUN_1 = 1"
definition DJW_BASIC_CODES :: nat where [simp]: "DJW_BASIC_CODES = 5"
definition DJW_RUN_CODES :: nat where [simp]: "DJW_RUN_CODES = 2"
definition DJW_EXTRA_12OFFSET :: nat where [simp]: "DJW_EXTRA_12OFFSET = DJW_BASIC_CODES + DJW_RUN_CODES"
definition DJW_EXTRA_CODES :: nat where [simp]: "DJW_EXTRA_CODES = 15"
definition DJW_EXTRA_CODE_BITS :: nat where [simp]: "DJW_EXTRA_CODE_BITS = 4"
definition DJW_MAX_GROUPS :: u32 where [simp]: "DJW_MAX_GROUPS = 8"
definition DJW_GROUP_BITS :: nat where [simp]: "DJW_GROUP_BITS = 3"
definition DJW_SECTORSZ_MULT :: u32 where [simp]: "DJW_SECTORSZ_MULT = 5"
definition DJW_SECTORSZ_BITS :: nat where [simp]: "DJW_SECTORSZ_BITS = 5"
definition DJW_SECTORSZ_MAX :: u32 where [simp]: "DJW_SECTORSZ_MAX = push_bit DJW_SECTORSZ_BITS 1 * DJW_SECTORSZ_MULT"
definition DJW_MAX_ITER :: nat where [simp]: "DJW_MAX_ITER = 6"
definition DJW_MIN_IMPROVEMENT :: u32 where [simp]: "DJW_MIN_IMPROVEMENT = 20"
definition DJW_MAX_CLCLEN :: nat where [simp]: "DJW_MAX_CLCLEN = 15"
definition DJW_CLCLEN_BITS :: nat where [simp]: "DJW_CLCLEN_BITS = 4"
definition DJW_MAX_GBCLEN :: nat where [simp]: "DJW_MAX_GBCLEN = 7"
definition DJW_GBCLEN_BITS :: nat where [simp]: "DJW_GBCLEN_BITS = 3"
definition EFFICIENCY_BITS :: u32 where [simp]: "EFFICIENCY_BITS = 16"

definition djw_encode_12extra :: "u8 list" where
  "djw_encode_12extra = [9, 10, 3, 11, 2, 12, 13, 1, 14, 15, 16, 17, 18, 19, 20]"

definition djw_encode_12basic :: "u8 list" where
  "djw_encode_12basic = [4, 5, 6, 7, 8]"

section \<open>Heap\<close>

record djw_heapen =
  he_depth :: nat
  he_freq :: u32
  he_parent :: nat

definition heap_less :: "djw_heapen \<Rightarrow> djw_heapen \<Rightarrow> bool" where
  "heap_less a b \<longleftrightarrow> he_freq a < he_freq b \<or> (he_freq a = he_freq b \<and> he_depth a < he_depth b)"

text \<open>Entry 0 of \<open>ents\<close> is a sentinel that nothing is less than, so that the loop ends at the root
  (\<open>heap_less_sentinel\<close> below).\<close>

function heap_insert :: "(nat \<Rightarrow> nat) \<Rightarrow> (nat \<Rightarrow> djw_heapen) \<Rightarrow> nat \<Rightarrow> nat \<Rightarrow> (nat \<Rightarrow> nat)" where
  "heap_insert heap ents p e =
    (if p \<noteq> 0 \<and> heap_less (ents e) (ents (heap (p div 2)))
     then heap_insert (heap(p := heap (p div 2))) ents (p div 2) e
     else heap(p := e))"
  by pat_completeness auto
termination by (relation "measure (\<lambda>(heap, ents, p, e). p)") auto

lemma heap_less_sentinel: "he_freq s = 0 \<Longrightarrow> he_depth s = 0 \<Longrightarrow> \<not> heap_less e s"
  by (simp add: heap_less_def)

text \<open>The loop of \<open>heap_extract\<close>, from \<open>p = 1\<close> down.\<close>

function heap_down :: "(nat \<Rightarrow> nat) \<Rightarrow> (nat \<Rightarrow> djw_heapen) \<Rightarrow> nat \<Rightarrow> nat \<Rightarrow> (nat \<Rightarrow> nat)" where
  "heap_down heap ents heap_last p =
    (if p = 0 \<or> heap_last < p * 2 then heap
     else
       let pc = (if p * 2 < heap_last \<and> heap_less (ents (heap (p * 2 + 1))) (ents (heap (p * 2))) then p * 2 + 1 else p * 2) in
       if \<not> heap_less (ents (heap pc)) (ents (heap p)) then heap
       else heap_down (heap(pc := heap p, p := heap pc)) ents heap_last pc)"
  by pat_completeness auto
termination by (relation "measure (\<lambda>(heap, ents, heap_last, p). Suc heap_last - p)") (auto simp: Let_def split: if_splits)

declare heap_insert.simps [simp del] heap_down.simps [simp del]

definition heap_extract :: "(nat \<Rightarrow> nat) \<Rightarrow> (nat \<Rightarrow> djw_heapen) \<Rightarrow> nat \<Rightarrow> nat \<times> (nat \<Rightarrow> nat)" where
  "heap_extract heap ents heap_last = (heap 1, heap_down (heap(1 := heap (heap_last + 1))) ents heap_last 1)"

section \<open>Move to front and the 1-2 code\<close>

fun mtf_shift :: "nat \<Rightarrow> u8 list \<Rightarrow> u8 list" where
  "mtf_shift 0 mtf = mtf"
| "mtf_shift (Suc k) mtf = mtf_shift k (mtf[Suc k := mtf ! k])"

definition djw_update_mtf :: "u8 list \<Rightarrow> nat \<Rightarrow> (u8 \<times> u8 list) option" where
  "djw_update_mtf mtf mtf_i =
    (if length mtf \<le> mtf_i then None else Some (mtf ! mtf_i, (mtf_shift mtf_i mtf)[0 := mtf ! mtf_i]))"

text \<open>\<open>djw_update_1_2\<close> on a run greater than 0: the symbols are appended to \<open>mtfsym\<close> and counted in \<open>freq\<close>;
  the run is 0 afterwards.\<close>

definition count_symbol :: "nat \<Rightarrow> u32 list \<Rightarrow> u32 list" where
  "count_symbol i freq = freq[i := freq ! i + 1]"

function djw_update_1_2 :: "nat \<Rightarrow> nat list \<Rightarrow> u32 list \<Rightarrow> nat list \<times> u32 list" where
  "djw_update_1_2 mtf_run mtfsym freq =
    (let mtf_run1 = mtf_run - 1;
         code = (if odd mtf_run1 then RUN_1 else RUN_0);
         mtfsym1 = mtfsym @ [code];
         freq1 = count_symbol code freq;
         mtf_run2 = mtf_run1 div 2 in
     if 1 \<le> mtf_run2 then djw_update_1_2 mtf_run2 mtfsym1 freq1 else (mtfsym1, freq1))"
  by pat_completeness auto
termination by (relation "measure (\<lambda>(r, m, f). r)") auto

declare djw_update_1_2.simps [simp del]

definition djw_init_clen_mtf_1_2 :: "u8 list" where
  "djw_init_clen_mtf_1_2 = 0 # djw_encode_12basic @ djw_encode_12extra"

fun mtf_index :: "u8 list \<Rightarrow> u8 \<Rightarrow> nat option" where
  "mtf_index [] sy = None"
| "mtf_index (m # mtf) sy = (if m = sy then Some 0 else map_option Suc (mtf_index mtf sy))"

definition end_run :: "nat \<Rightarrow> nat list \<Rightarrow> u32 list \<Rightarrow> nat list \<times> u32 list" where
  "end_run mtf_run mtfsym freq = (if 0 < mtf_run then djw_update_1_2 mtf_run mtfsym freq else (mtfsym, freq))"

fun compute_mtf_loop :: "u8 list \<Rightarrow> u8 list \<Rightarrow> nat \<Rightarrow> nat list \<Rightarrow> u32 list \<Rightarrow> (nat list \<times> u32 list) option" where
  "compute_mtf_loop [] mtf mtf_run mtfsym freq = Some (end_run mtf_run mtfsym freq)"
| "compute_mtf_loop (sy # syms) mtf mtf_run mtfsym freq =
    (case mtf_index mtf sy of
       None \<Rightarrow> None
     | Some j \<Rightarrow>
        (let mtf1 = (mtf_shift j mtf)[0 := sy] in
         if j = 0 then compute_mtf_loop syms mtf1 (mtf_run + 1) mtfsym freq
         else (case end_run mtf_run mtfsym freq of
            (mtfsym1, freq1) \<Rightarrow>
              compute_mtf_loop syms mtf1 0 (mtfsym1 @ [j + RUN_1]) (count_symbol (j + RUN_1) freq1))))"

text \<open>\<open>djw_compute_mtf_1_2 (prefix, mtf, freq_out, nsym)\<close>: \<open>prefix->mtfsym\<close> and the frequencies.  A symbol that is
  not in \<open>mtf\<close> would send the search behind the array.  \<open>cap\<close> is the size of the array \<open>mtfsym\<close>, to which the loop only appends, and
  \<open>freq_out\<close> has \<open>nsym + 2\<close> cells, of which each symbol that is written counts one up.\<close>

definition djw_compute_mtf_1_2 :: "nat \<Rightarrow> u8 list \<Rightarrow> u8 list \<Rightarrow> nat \<Rightarrow> (nat list \<times> u32 list) option" where
  "djw_compute_mtf_1_2 cap symbols mtf nsym =
    (case compute_mtf_loop symbols mtf 0 [] (replicate (nsym + 2) 0) of
       None \<Rightarrow> None
     | Some (mtfsym, freq) \<Rightarrow>
        if length mtfsym \<le> cap \<and> (\<forall>m \<in> set mtfsym. m < nsym + 2) then Some (mtfsym, freq) else None)"

definition djw_compute_prefix_1_2 :: "nat \<Rightarrow> u8 list \<Rightarrow> (nat list \<times> u32 list) option" where
  "djw_compute_prefix_1_2 cap symbols = djw_compute_mtf_1_2 cap symbols djw_init_clen_mtf_1_2 DJW_MAX_CODELEN"

text \<open>The array \<open>grmtf\<close> has \<open>DJW_MAX_GROUPS\<close> cells.\<close>

definition djw_compute_selector_1_2 :: "nat \<Rightarrow> u8 list \<Rightarrow> nat \<Rightarrow> (nat list \<times> u32 list) option" where
  "djw_compute_selector_1_2 cap symbols groups =
    (if unat DJW_MAX_GROUPS < groups then None
     else djw_compute_mtf_1_2 cap symbols (map of_nat [0 ..< groups]) groups)"

definition djw_compute_multi_prefix :: "nat \<Rightarrow> u8 list list \<Rightarrow> u8 list" where
  "djw_compute_multi_prefix groups clen =
    clen ! 0 @ concat (map (\<lambda>gp. filter (\<lambda>c. c \<noteq> 0) (clen ! gp)) [1 ..< groups])"

section \<open>Building a prefix code\<close>

text \<open>One pass of \<open>djw_build_prefix\<close>.  \<open>prefix_heap\<close> is the initial heap over the symbols with a frequency, with
  its size.\<close>

definition prefix_ents :: "u32 list \<Rightarrow> nat \<Rightarrow> djw_heapen" where
  "prefix_ents efreq i =
    \<lparr>he_depth = 0, he_freq = (if 1 \<le> i \<and> i \<le> length efreq then efreq ! (i - 1) else 0), he_parent = 0\<rparr>"

definition heap_add :: "(nat \<Rightarrow> djw_heapen) \<Rightarrow> nat \<Rightarrow> (nat \<Rightarrow> nat) \<times> nat \<Rightarrow> (nat \<Rightarrow> nat) \<times> nat" where
  "heap_add ents e hl =
    (if he_freq (ents e) \<noteq> 0 then (heap_insert (fst hl) ents (Suc (snd hl)) e, Suc (snd hl)) else hl)"

definition prefix_heap :: "u32 list \<Rightarrow> (nat \<Rightarrow> nat) \<times> nat" where
  "prefix_heap efreq = fold (heap_add (prefix_ents efreq)) [1 ..< Suc (length efreq)] (\<lambda>_. 0, 0)"

text \<open>A node is written to \<open>ents[ents_size]\<close> and put into the heap, whose last index is \<open>heap_last - 1\<close> then.\<close>

function build_tree ::
    "(nat \<Rightarrow> djw_heapen) \<Rightarrow> (nat \<Rightarrow> nat) \<Rightarrow> nat \<Rightarrow> nat \<Rightarrow> (nat \<Rightarrow> djw_heapen) option" where
  "build_tree ents heap heap_last ents_size =
    (if heap_last \<le> 1 then Some ents
     else if 2 * ALPHABET_SIZE \<le> ents_size \<or> ALPHABET_SIZE < heap_last then None
     else
       let (h1, heap1) = heap_extract heap ents (heap_last - 1);
           (h2, heap2) = heap_extract heap1 ents (heap_last - 2);
           node = \<lparr>he_depth = 1 + max (he_depth (ents h1)) (he_depth (ents h2)),
                   he_freq = he_freq (ents h1) + he_freq (ents h2), he_parent = 0\<rparr>;
           ents1 = ents(ents_size := node);
           ents2 = ents1(h1 := (ents1 h1)\<lparr>he_parent := ents_size\<rparr>);
           ents3 = ents2(h2 := (ents2 h2)\<lparr>he_parent := ents_size\<rparr>) in
       build_tree ents3 (heap_insert heap2 ents3 (heap_last - 1) ents_size) (heap_last - 1) (Suc ents_size))"
  by pat_completeness auto
termination by (relation "measure (\<lambda>(ents, heap, heap_last, ents_size). heap_last)") auto

declare build_tree.simps [simp del]

text \<open>\<open>while ((p = ents[p].parent) != 0) { b += 1; }\<close>.  A parent has a higher index than its children and there
  are \<open>2 * ALPHABET_SIZE\<close> entries; without that the loop might not end.\<close>

function count_parents :: "(nat \<Rightarrow> djw_heapen) \<Rightarrow> nat \<Rightarrow> nat option" where
  "count_parents ents p =
    (let q = he_parent (ents p) in
     if q = 0 then Some 0
     else if p < q \<and> q < 2 * ALPHABET_SIZE then map_option Suc (count_parents ents q)
     else None)"
  by pat_completeness auto
termination by (relation "measure (\<lambda>(ents, p). 2 * ALPHABET_SIZE - p)") auto

declare count_parents.simps [simp del]

definition prefix_length :: "(nat \<Rightarrow> djw_heapen) \<Rightarrow> nat \<Rightarrow> nat option" where
  "prefix_length ents i = (if he_freq (ents (Suc i)) \<noteq> 0 then count_parents ents (Suc i) else Some 0)"

text \<open>The symbols are the entries from 1 to \<open>length efreq\<close>.\<close>

definition prefix_lengths :: "u32 list \<Rightarrow> nat list option" where
  "prefix_lengths efreq =
    (case prefix_heap efreq of
       (heap, heap_last) \<Rightarrow>
         if 2 * ALPHABET_SIZE \<le> length efreq \<or> ALPHABET_SIZE < heap_last then None
         else
           (case build_tree (prefix_ents efreq) heap heap_last (Suc (length efreq)) of
              None \<Rightarrow> None
            | Some ents \<Rightarrow> those (map (prefix_length ents) [0 ..< length efreq])))"

definition prefix_bits :: "u32 list \<Rightarrow> nat list \<Rightarrow> u32" where
  "prefix_bits freq bs = sum_list (map2 (\<lambda>b f. of_nat b * f) bs freq)"

text \<open>The label \<open>again\<close>, with the frequencies \<open>efreq\<close> in \<open>ents\<close>; they start as \<open>freq\<close>.  On an overflow every
  frequency is replaced by \<open>f / 2 + 1\<close>, those that are 0 too.\<close>

partial_function (option) build_prefix_again :: "u32 list \<Rightarrow> nat \<Rightarrow> u32 list \<Rightarrow> (u8 list \<times> u32) option" where
  "build_prefix_again freq maxlen efreq =
    (if snd (prefix_heap efreq) = 1 then
       build_prefix_again freq maxlen (efreq[(if freq ! 0 \<noteq> 0 then length efreq - 1 else 0) := 1])
     else (case prefix_lengths efreq of
       None \<Rightarrow> None
     | Some bs \<Rightarrow>
        if \<exists>b \<in> set bs. maxlen < b then build_prefix_again freq maxlen (map (\<lambda>f. f div 2 + 1) efreq)
        else Some (map of_nat bs, prefix_bits freq bs)))"

definition djw_build_prefix :: "u32 list \<Rightarrow> nat \<Rightarrow> (u8 list \<times> u32) option" where
  "djw_build_prefix freq maxlen = build_prefix_again freq maxlen freq"

text \<open>\<open>djw_build_codes\<close>: the codes of one length, then the next length.\<close>

fun level_codes :: "nat \<Rightarrow> u8 list \<Rightarrow> nat \<Rightarrow> (nat \<rightharpoonup> u32) \<times> u32 \<Rightarrow> (nat \<rightharpoonup> u32) \<times> u32" where
  "level_codes l [] i cs = cs"
| "level_codes l (c # clen) i cs =
    level_codes l clen (Suc i) (if unat c = l then ((fst cs)(i \<mapsto> snd cs), snd cs + 1) else cs)"

definition djw_build_codes :: "u8 list \<Rightarrow> nat \<rightharpoonup> u32" where
  "djw_build_codes clen =
    (let min_clen = fold (\<lambda>c m. if 0 < c \<and> unat c < m then unat c else m) clen DJW_MAX_CODELEN;
         max_clen = fold (\<lambda>c m. max m (unat c)) clen 0 in
     fst (fold (\<lambda>l cs. case level_codes l clen 0 cs of (codes, code) \<Rightarrow> (codes, push_bit 1 code))
            [min_clen ..< Suc max_clen] (Map.empty, 0)))"

end
