(* ===== verification/Xd3_Djw_Decode.thy ===== *)
theory Xd3_Djw_Decode
  imports Xd3_Djw
begin

text \<open>
  The decoder of the static Huffman compressor (xdelta3-djw.h, "DECODE").  The tables of
  \<open>djw_build_decoder\<close> are maps: what the C leaves unwritten in them is \<open>None\<close>, and the decoder's reads of such
  a cell, which its one-sided checks do not exclude, are \<open>C_UB\<close>.
\<close>

section \<open>Decoding tables\<close>

record djw_table =
  tb_inorder :: "nat \<rightharpoonup> u8"
  tb_base :: "nat \<rightharpoonup> u32"
  tb_limit :: "nat \<rightharpoonup> u32"
  tb_min :: nat
  tb_max :: nat

definition count_clen :: "u8 list \<Rightarrow> nat \<Rightarrow> u32" where
  "count_clen clen = fold (\<lambda>c nr. nr(unat c := nr (unat c) + 1)) clen (\<lambda>_. 0)"

definition table_limit :: "u32 \<Rightarrow> u32 \<Rightarrow> u32" where
  "table_limit last_limit n = last_limit + n - 1"

text \<open>The loop that fills \<open>tmp_base\<close>, \<open>base\<close> and \<open>limit\<close> for the lengths above the smallest.\<close>

definition base_limit_step ::
    "(nat \<Rightarrow> u32) \<Rightarrow> nat \<Rightarrow> (nat \<Rightarrow> u32) \<times> (nat \<Rightarrow> u32) \<times> (nat \<Rightarrow> u32)
      \<Rightarrow> (nat \<Rightarrow> u32) \<times> (nat \<Rightarrow> u32) \<times> (nat \<Rightarrow> u32)" where
  "base_limit_step nr_clen i = (\<lambda>(tmp_base, base, limit).
    (let last_limit = push_bit 1 (limit (i - 1) + 1);
         tmp_i = tmp_base (i - 1) + nr_clen (i - 1) in
     (tmp_base(i := tmp_i), base(i := last_limit - tmp_i), limit(i := table_limit last_limit (nr_clen i)))))"

definition inorder_step :: "u8 list \<Rightarrow> nat \<Rightarrow> (nat \<rightharpoonup> u8) \<times> (nat \<Rightarrow> u32) \<Rightarrow> (nat \<rightharpoonup> u8) \<times> (nat \<Rightarrow> u32)" where
  "inorder_step clen i = (\<lambda>(inorder, tmp_base).
    (let l = unat (clen ! i) in
     if l = 0 then (inorder, tmp_base)
     else (inorder(unat (tmp_base l) \<mapsto> of_nat i), tmp_base(l := tmp_base l + 1))))"

text \<open>\<open>djw_build_decoder\<close>; the caller has to see to it that no length is above \<open>abs_max\<close>.  Without any length
  the smallest is \<open>abs_max + 1\<close> and the largest 0; what is then stored for the smallest is not read.\<close>

definition djw_build_decoder :: "nat \<Rightarrow> u8 list \<Rightarrow> djw_table option" where
  "djw_build_decoder abs_max clen =
    (if \<exists>c \<in> set clen. abs_max < unat c then None
     else
       let nr_clen = count_clen clen;
           min_clen = (case find (\<lambda>i. nr_clen i \<noteq> 0) [1 ..< Suc abs_max] of None \<Rightarrow> abs_max + 1 | Some i \<Rightarrow> i);
           max_clen = (case find (\<lambda>i. nr_clen i \<noteq> 0) (rev [1 ..< Suc abs_max]) of None \<Rightarrow> 0 | Some i \<Rightarrow> i);
           (tmp_base, base, limit) = fold (base_limit_step nr_clen) [Suc min_clen ..< Suc max_clen]
              ((\<lambda>_. 0), (\<lambda>_. 0), (\<lambda>_. 0)(min_clen := nr_clen min_clen - 1));
           (inorder, _) = fold (inorder_step clen) [0 ..< length clen] (Map.empty, tmp_base);
           written = {min_clen .. max_clen} in
       Some \<lparr>tb_inorder = inorder, tb_base = (\<lambda>i. Some (base i)) |` written, tb_limit = (\<lambda>i. Some (limit i)) |` written,
             tb_min = min_clen, tb_max = max_clen\<rparr>)"

section \<open>Symbols\<close>

text \<open>\<open>djw_decode_symbol\<close>: \<open>n\<close> counts the bits left before \<open>max_clen\<close>.  Behind the label \<open>done\<close> the offset may be
  \<open>max_sym\<close> itself, one more than the last cell of \<open>inorder\<close>.\<close>

definition symbol_found :: "djw_table \<Rightarrow> nat \<Rightarrow> nat \<Rightarrow> u32 \<Rightarrow> ('a, nat) reader" where
  "symbol_found tb max_sym bits code =
    rbind (rget (tb_base tb bits)) (\<lambda>base.
      if base \<le> code \<and> unat (code - base) \<le> max_sym
      then rbind (rget (tb_inorder tb (unat (code - base)))) (\<lambda>sy. rreturn (unat sy))
      else rfail ''secondary decoder invalid code'')"

fun decode_symbol_loop :: "djw_table \<Rightarrow> nat \<Rightarrow> nat \<Rightarrow> nat \<Rightarrow> u32 \<Rightarrow> ('a, nat) reader" where
  "decode_symbol_loop tb max_sym 0 bits code =
    rbind load_byte (\<lambda>_. rfail ''secondary decoder invalid code'')"
| "decode_symbol_loop tb max_sym (Suc n) bits code =
    rbind load_byte (\<lambda>_. rbind take_bit_here (\<lambda>b.
      let code1 = (if b then push_bit 1 code OR 1 else push_bit 1 code) in
      if tb_min tb \<le> Suc bits
      then rbind (rget (tb_limit tb (Suc bits))) (\<lambda>limit.
        if code1 \<le> limit then symbol_found tb max_sym (Suc bits) code1
        else decode_symbol_loop tb max_sym n (Suc bits) code1)
      else decode_symbol_loop tb max_sym n (Suc bits) code1))"

definition djw_decode_symbol :: "djw_table \<Rightarrow> nat \<Rightarrow> ('a, nat) reader" where
  "djw_decode_symbol tb max_sym = decode_symbol_loop tb max_sym (tb_max tb) 0 0"

section \<open>Code lengths\<close>

definition djw_decode_clclen :: "('a, djw_table) reader" where
  "djw_decode_clclen =
    rbind (xd3_decode_bits DJW_EXTRA_CODE_BITS) (\<lambda>extra.
      let num_codes = unat extra + DJW_EXTRA_12OFFSET in
      rbind (rtimes num_codes (xd3_decode_bits DJW_CLCLEN_BITS)) (\<lambda>vs.
        rget (djw_build_decoder DJW_MAX_CLCLEN (map ucast vs @ replicate (DJW_TOTAL_CODES - num_codes) 0))))"

text \<open>\<open>djw_decode_1_2\<close>, with the values decoded so far; \<open>n\<close> of the C is their number.  A shift by 32 and more
  is undefined.\<close>

function decode_1_2_loop ::
    "djw_table \<Rightarrow> nat \<Rightarrow> nat \<Rightarrow> u8 list \<Rightarrow> u32 \<Rightarrow> nat \<Rightarrow> nat \<Rightarrow> u8 list \<Rightarrow> ('a, u8 list) reader" where
  "decode_1_2_loop tb elts skip_offset vals rep mtf s mtfvals st =
    (if elts \<le> length vals then
       (if rep \<noteq> 0 then rfail ''secondary decoder invalid repeat code'' st else (Inr vals, st))
     else if skip_offset \<noteq> 0 \<and> skip_offset \<le> length vals \<and> vals ! (length vals - skip_offset) = 0 then
       decode_1_2_loop tb elts skip_offset (vals @ [0]) rep mtf s mtfvals st
     else if rep \<noteq> 0 then
       (case mtfvals of
          [] \<Rightarrow> rub st
        | v # _ \<Rightarrow> decode_1_2_loop tb elts skip_offset (vals @ [v]) (rep - 1) mtf s mtfvals st)
     else if mtf \<noteq> 0 then
       (case djw_update_mtf mtfvals mtf of
          None \<Rightarrow> rub st
        | Some (sy, mtfvals1) \<Rightarrow> decode_1_2_loop tb elts skip_offset (vals @ [sy]) rep 0 s mtfvals1 st)
     else
       (case djw_decode_symbol tb DJW_TOTAL_CODES st of
          (Inl r, st1) \<Rightarrow> (Inl r, st1)
        | (Inr m, st1) \<Rightarrow>
           if m \<le> RUN_1 then
             (if 32 \<le> s then rub st1
              else decode_1_2_loop tb elts skip_offset vals (push_bit s (of_nat m + 1)) 0 (Suc s) mtfvals st1)
           else decode_1_2_loop tb elts skip_offset vals rep (m - 1) 0 mtfvals st1))"
  by pat_completeness auto
termination
  by (relation "measures
      [\<lambda>(tb, elts, skip_offset, vals, rep, mtf, s, mtfvals, st). elts - length vals,
       \<lambda>(tb, elts, skip_offset, vals, rep, mtf, s, mtfvals, st). if rep = 0 \<and> mtf = 0 then 1 else 0,
       \<lambda>(tb, elts, skip_offset, vals, rep, mtf, s, mtfvals, st). 33 - s]") auto

declare decode_1_2_loop.simps [simp del]

definition djw_decode_1_2 :: "djw_table \<Rightarrow> u8 list \<Rightarrow> nat \<Rightarrow> nat \<Rightarrow> ('a, u8 list) reader" where
  "djw_decode_1_2 tb mtfvals elts skip_offset = decode_1_2_loop tb elts skip_offset [] 0 0 0 mtfvals"

definition djw_decode_prefix :: "djw_table \<Rightarrow> nat \<Rightarrow> ('a, u8 list) reader" where
  "djw_decode_prefix tb groups =
    djw_decode_1_2 tb djw_init_clen_mtf_1_2 (ALPHABET_SIZE * groups) ALPHABET_SIZE"

section \<open>Sectors\<close>

fun decode_sector :: "djw_table \<Rightarrow> nat \<Rightarrow> ('a, unit) reader" where
  "decode_sector tb 0 = rreturn ()"
| "decode_sector tb (Suc n) =
    rbind (djw_decode_symbol tb ALPHABET_SIZE) (\<lambda>sy. rbind (rput (of_nat sy)) (\<lambda>_. decode_sector tb n))"

text \<open>The loop over the sectors with \<open>left\<close> bytes of output to go.  A sector of 0 bytes would wrap the counter of its
  \<open>do ... while (--n)\<close> loop.\<close>

fun decode_sectors :: "djw_table list \<Rightarrow> nat \<Rightarrow> u8 list \<Rightarrow> nat \<Rightarrow> ('a, unit) reader" where
  "decode_sectors tbs ssize [] left = rreturn ()"
| "decode_sectors tbs ssize (gp # gps) left =
    (let n = min ssize left in
     if n = 0 \<or> length tbs \<le> unat gp then rub
     else rbind (decode_sector (tbs ! unat gp) n) (\<lambda>_. decode_sectors tbs ssize gps (left - n)))"

text \<open>The group selectors: their code lengths, the array \<open>sel_group\<close>, the selectors.  The array is freed in the end,
  whatever happens after its allocation.\<close>

definition finally_free :: "('a, 'x) reader \<Rightarrow> ('a, 'x) reader" where
  "finally_free m s = (case m s of (x, s1) \<Rightarrow> (x, s1\<lparr>strm := xd3_free (strm s1)\<rparr>))"

definition decode_selectors :: "nat \<Rightarrow> u32 \<Rightarrow> (u8 list \<Rightarrow> ('a, unit) reader) \<Rightarrow> ('a, unit) reader" where
  "decode_selectors groups sectors k =
    rbind (rtimes (groups + 1) (xd3_decode_bits DJW_GBCLEN_BITS)) (\<lambda>sel_clen.
      rbind (ralloc sectors 1) (\<lambda>_. finally_free (
        rbind (rget (djw_build_decoder DJW_MAX_GBCLEN (map ucast sel_clen))) (\<lambda>tb.
          rbind (djw_decode_1_2 tb (map of_nat [0 ..< groups + 1]) (unat sectors) 0) k))))"

definition group_tables :: "nat \<Rightarrow> u8 list \<Rightarrow> djw_table list option" where
  "group_tables groups clen =
    those (map (\<lambda>gp. djw_build_decoder DJW_MAX_CODELEN (take ALPHABET_SIZE (drop (ALPHABET_SIZE * gp) clen))) [0 ..< groups])"

definition decode_sector_size :: "nat \<Rightarrow> u32 \<Rightarrow> ('a, u32) reader" where
  "decode_sector_size groups output_bytes =
    (if 1 < groups
     then rbind (xd3_decode_bits DJW_SECTORSZ_BITS) (\<lambda>v. rreturn ((v + 1) * DJW_SECTORSZ_MULT))
     else rreturn output_bytes)"

definition decode_huff :: "u32 \<Rightarrow> ('a, unit) reader" where
  "decode_huff output_bytes =
    (if output_bytes = 0 then rfail ''secondary decoder invalid input''
     else
       rbind (xd3_decode_bits DJW_GROUP_BITS) (\<lambda>g.
         let groups = unat g + 1 in
         rbind (decode_sector_size groups output_bytes) (\<lambda>ssize.
           let sectors = 1 + (output_bytes - 1) div ssize in
           rbind djw_decode_clclen (\<lambda>cl.
             rbind (djw_decode_prefix cl groups) (\<lambda>clen.
               rbind (rget (group_tables groups clen)) (\<lambda>tbs.
                 let run = (\<lambda>sel. decode_sectors tbs (unat ssize) sel (unat output_bytes)) in
                 if 1 < groups then decode_selectors groups sectors run
                 else run (replicate (unat sectors) 0)))))))"

text \<open>\<open>xd3_decode_huff\<close>, as the member \<open>decode\<close> of the compressor's type: the bytes left and the bytes written.\<close>

definition xd3_decode_huff ::
    "u8 list \<Rightarrow> u32 \<Rightarrow> 'a xd3_base_scheme \<Rightarrow> xd3_ret \<times> u8 list \<times> u8 list \<times> 'a xd3_base_scheme" where
  "xd3_decode_huff input output_bytes st =
    (case decode_huff output_bytes \<lparr>in_bits = BIT_STATE_DECODE_INIT, in_rest = input, in_out = [], strm = st\<rparr> of
       (Inl r, s) \<Rightarrow> (r, in_rest s, in_out s, strm s)
     | (Inr _, s) \<Rightarrow> (XD3_OK, in_rest s, in_out s, strm s))"

end
