(* ===== verification/Xd3_Djw_Encode.thy ===== *)
theory Xd3_Djw_Encode
  imports Xd3_Djw_Decode
begin

text \<open>
  The encoder of the static Huffman compressor (xdelta3-djw.h, \<open>djw_count_freqs\<close> to \<open>xd3_encode_huff\<close>) and the
  compressor's table \<open>djw_sec_type\<close> (xdelta3.c).

  The C walks the pages of its input byte by byte; once \<open>djw_count_freqs\<close> has seen that no page is empty, that
  is a walk over their concatenation, which the model uses.  The sums of \<open>xd3_encode_huff\<close> are 32-bit sums as in
  the C, which mixes \<open>int\<close> and \<open>usize_t\<close>.
\<close>

section \<open>Frequencies\<close>

text \<open>An empty page would be read all the same, by the \<open>do ... while\<close> loop.\<close>

definition djw_count_freqs :: "xd3_output list \<Rightarrow> (u32 list \<times> u32) option" where
  "djw_count_freqs input =
    (if \<exists>pg \<in> set input. pg_data pg = [] then None
     else Some (fold (\<lambda>b freq. count_symbol (unat b) freq) (concat (map pg_data input)) (replicate ALPHABET_SIZE 0),
                xd3_sizeof_output input))"

section \<open>Code lengths\<close>

definition encode_symbol :: "u8 list \<Rightarrow> (nat \<rightharpoonup> u32) \<Rightarrow> nat \<Rightarrow> 'a bit_out \<Rightarrow> xd3_ret \<times> 'a bit_out" where
  "encode_symbol clen codes sy w =
    (if length clen \<le> sy then (C_UB, w)
     else (case codes sy of None \<Rightarrow> (C_UB, w) | Some code \<Rightarrow> xd3_encode_bits (unat (clen ! sy)) code w))"

text \<open>The loop that drops the unused lengths at the end; the run codes and the basic lengths are always sent.\<close>

fun trim_codes :: "u8 list \<Rightarrow> nat \<Rightarrow> nat" where
  "trim_codes clclen 0 = 0"
| "trim_codes clclen (Suc n) =
    (if DJW_EXTRA_12OFFSET < Suc n \<and> clclen ! n = 0 then trim_codes clclen n else Suc n)"

text \<open>\<open>cap\<close> is the size of the caller's array \<open>prefix->mtfsym\<close>.\<close>

definition djw_encode_prefix :: "nat \<Rightarrow> u8 list \<Rightarrow> 'a bit_out \<Rightarrow> xd3_ret \<times> 'a bit_out" where
  "djw_encode_prefix cap symbols w =
    (case djw_compute_prefix_1_2 cap symbols of
       None \<Rightarrow> (C_UB, w)
     | Some (mtfsym, clfreq) \<Rightarrow>
        (case djw_build_prefix clfreq DJW_MAX_CLCLEN of
           None \<Rightarrow> (C_UB, w)
         | Some (clclen, _) \<Rightarrow>
            (let clcode = djw_build_codes clclen;
                 num_to_encode = trim_codes clclen DJW_TOTAL_CODES in
             bind_ok (xd3_encode_bits DJW_EXTRA_CODE_BITS (of_nat (num_to_encode - DJW_EXTRA_12OFFSET)) w) (\<lambda>w.
             bind_ok (write_all (\<lambda>c. xd3_encode_bits DJW_CLCLEN_BITS (ucast c)) (take num_to_encode clclen) w) (\<lambda>w.
             write_all (encode_symbol clclen clcode) mtfsym w)))))"

section \<open>Groups\<close>

definition suggest_groups :: "xd3_section_type \<Rightarrow> u32 \<Rightarrow> u32 \<times> u32" where
  "suggest_groups ty input_size =
    (case ty of
       DATA_SECTION \<Rightarrow>
        (if input_size < 1000 then (1, 0) else if input_size < 4000 then (2, 10)
         else if input_size < 7000 then (3, 10) else if input_size < 10000 then (4, 10)
         else if input_size < 25000 then (5, 10) else if input_size < 50000 then (7, 20)
         else if input_size < 100000 then (8, 30) else (8, 70))
     | INST_SECTION \<Rightarrow>
        (if input_size < 7000 then (1, 0) else if input_size < 10000 then (2, 50)
         else if input_size < 25000 then (3, 50) else if input_size < 50000 then (6, 40)
         else if input_size < 100000 then (8, 40) else (8, 40))
     | ADDR_SECTION \<Rightarrow>
        (if input_size < 9000 then (1, 0) else if input_size < 25000 then (2, 130)
         else if input_size < 50000 then (3, 130) else if input_size < 100000 then (5, 130)
         else (7, 130)))"

text \<open>\<open>xd3_encode_howmany_groups\<close>: the message of the error, or groups and sector size.\<close>

definition xd3_encode_howmany_groups :: "xd3_sec_cfg \<Rightarrow> u32 \<Rightarrow> string + (u32 \<times> u32)" where
  "xd3_encode_howmany_groups cfg input_size =
    (if ngroups cfg \<noteq> 0 \<and> DJW_MAX_GROUPS < ngroups cfg then Inl ''invalid secondary encoder group number''
     else if sector_size cfg \<noteq> 0 \<and> (sector_size cfg < DJW_SECTORSZ_MULT \<or> DJW_SECTORSZ_MAX < sector_size cfg
        \<or> sector_size cfg mod DJW_SECTORSZ_MULT \<noteq> 0) then Inl ''invalid secondary encoder sector size''
     else
       let (sugg_groups, sugg_size) = suggest_groups (data_type cfg) input_size;
           groups = (if ngroups cfg = 0 then sugg_groups else ngroups cfg);
           size1 = (if sector_size cfg = 0 then sugg_size else sector_size cfg);
           size2 = (if groups \<noteq> 1 \<and> size1 = 0
             then (case data_type cfg of DATA_SECTION \<Rightarrow> 20 | INST_SECTION \<Rightarrow> 50 | ADDR_SECTION \<Rightarrow> 130) else size1) in
       Inr (groups, size2))"

text \<open>The initial tables: every group takes symbols until it has its share of the input.  The loop
  \<open>while (sum < goal)\<close> stops at the end of the alphabet at the latest, where the C would leave the array.\<close>

function take_share :: "u32 list \<Rightarrow> u32 \<Rightarrow> nat \<Rightarrow> u32 \<Rightarrow> (nat \<times> u32) option" where
  "take_share real_freq goal sym2 acc =
    (if goal \<le> acc then Some (sym2, acc)
     else if length real_freq \<le> sym2 then None
     else take_share real_freq goal (Suc sym2) (acc + real_freq ! sym2))"
  by pat_completeness auto
termination by (relation "measure (\<lambda>(f, g, s, t). length f - s)") auto

declare take_share.simps [simp del]

datatype groups_result = Groups "u8 list list" | Too_many_groups | Groups_ub

fun initial_groups :: "u32 list \<Rightarrow> bool \<Rightarrow> nat \<Rightarrow> u32 \<Rightarrow> nat \<Rightarrow> nat \<Rightarrow> u8 list list \<Rightarrow> groups_result" where
  "initial_groups real_freq ineff 0 left sym1 sym2 clens = Groups clens"
| "initial_groups real_freq ineff (Suc n) left sym1 sym2 clens =
    (let goal = left div of_nat (Suc n) in
     if goal = 0 \<and> \<not> ineff then Too_many_groups
     else (case take_share real_freq goal sym2 0 of
        None \<Rightarrow> Groups_ub
      | Some (sym2', acc) \<Rightarrow>
         initial_groups real_freq ineff n (left - acc) (sym2' + 1) sym2'
           (clens @ [map (\<lambda>s. if sym1 \<le> s \<and> s \<le> sym2' then 1 else 16) [0 ..< ALPHABET_SIZE]])))"

section \<open>Choosing the tables\<close>

text \<open>The sectors of the input.\<close>

function sectors :: "nat \<Rightarrow> 'x list \<Rightarrow> 'x list list" where
  "sectors n xs = (if n = 0 \<or> xs = [] then [] else take n xs # sectors n (drop n xs))"
  by pat_completeness auto
termination by (relation "measure (\<lambda>(n, xs). length xs)") auto

declare sectors.simps [simp del]

definition sector_cost :: "u8 list \<Rightarrow> u8 list \<Rightarrow> u32" where
  "sector_cost clen sec = sum_list (map (\<lambda>b. ucast (clen ! unat b)) sec)"

text \<open>The first group of least cost; a cost of \<open>USIZE_T_MAX\<close> is never less than the initial \<open>best\<close>.\<close>

fun best_group :: "u32 list \<Rightarrow> nat \<Rightarrow> u32 \<Rightarrow> nat \<Rightarrow> nat" where
  "best_group [] gp best winner = winner"
| "best_group (c # cs) gp best winner =
    (if c < best then best_group cs (Suc gp) c gp else best_group cs (Suc gp) best winner)"

definition choose_group :: "u8 list list \<Rightarrow> u8 list \<Rightarrow> nat" where
  "choose_group clens sec = best_group (map (\<lambda>clen. sector_cost clen sec) clens) 0 (- 1) 0"

definition count_sector :: "u8 list list \<Rightarrow> u8 list \<Rightarrow> nat list \<times> u32 list list \<Rightarrow> nat list \<times> u32 list list" where
  "count_sector clens sec = (\<lambda>(gbest, freqs).
    (let winner = choose_group clens sec in
     (gbest @ [winner], freqs[winner := fold (\<lambda>b. count_symbol (unat b)) sec (freqs ! winner)])))"

text \<open>The loop over the sectors; \<open>gbest[gbest_no++]\<close> has to stay inside the array, which has \<open>gmax\<close> cells.\<close>

fun count_sectors ::
    "nat \<Rightarrow> u8 list list \<Rightarrow> u8 list list \<Rightarrow> nat list \<times> u32 list list \<Rightarrow> (nat list \<times> u32 list list) option" where
  "count_sectors gmax clens [] acc = Some acc"
| "count_sectors gmax clens (sec # secs) acc =
    (if gmax \<le> length (fst acc) then None else count_sectors gmax clens secs (count_sector clens sec acc))"

text \<open>One group's new table: symbols that the group does not have but the input has get the frequency 1, whose bits
  are not counted.\<close>

definition fake_freq :: "u32 list \<Rightarrow> u32 list \<Rightarrow> u32 list" where
  "fake_freq real_freq freq = map2 (\<lambda>r f. if f = 0 \<and> r \<noteq> 0 then 1 else f) real_freq freq"

definition faked_bits :: "u32 list \<Rightarrow> u32 list \<Rightarrow> u8 list \<Rightarrow> u32" where
  "faked_bits real_freq freq clen =
    sum_list (map2 (\<lambda>rf c. if snd rf = 0 \<and> fst rf \<noteq> 0 then ucast c else 0) (zip real_freq freq) clen)"

fun recompute_groups :: "u32 list \<Rightarrow> u32 list list \<Rightarrow> (u8 list list \<times> u32) option" where
  "recompute_groups real_freq [] = Some ([], 0)"
| "recompute_groups real_freq (freq # freqs) =
    (case djw_build_prefix (fake_freq real_freq freq) DJW_MAX_CODELEN of
       None \<Rightarrow> None
     | Some (clen, bits) \<Rightarrow>
        map_option (\<lambda>(clens, acc). (clen # clens, bits - faked_bits real_freq freq clen + acc))
          (recompute_groups real_freq freqs))"

text \<open>The label \<open>repeat\<close>, with \<open>gmax\<close> cells for the selectors.  \<open>best_bits - output_bits\<close> is unsigned: an iteration that made things worse counts as a large
  improvement.\<close>

function evolve_groups ::
    "nat \<Rightarrow> u32 list \<Rightarrow> u8 list list \<Rightarrow> nat \<Rightarrow> u32 \<Rightarrow> u8 list list \<Rightarrow> (nat list \<times> u8 list list \<times> u32) option" where
  "evolve_groups gmax real_freq secs iter best_bits clens =
    (case count_sectors gmax clens secs ([], replicate (length clens) (replicate ALPHABET_SIZE 0)) of
       None \<Rightarrow> None
     | Some (gbest, freqs) \<Rightarrow>
        (case recompute_groups real_freq freqs of
           None \<Rightarrow> None
         | Some (clens1, output_bits) \<Rightarrow>
            (let niter = iter + 1 in
             if niter = 1 \<or> (niter < DJW_MAX_ITER \<and> DJW_MIN_IMPROVEMENT \<le> best_bits - output_bits)
             then evolve_groups gmax real_freq secs niter output_bits clens1
             else Some (gbest, clens1, output_bits))))"
  by pat_completeness auto
termination by (relation "measure (\<lambda>(g, f, s, n, b, c). DJW_MAX_ITER - n)") auto

declare evolve_groups.simps [simp del]

section \<open>The encoder\<close>

definition nosecond :: "'a bit_out \<Rightarrow> xd3_ret \<times> 'a bit_out" where
  "nosecond w = (case w of (bits, out, st) \<Rightarrow>
    (XD3_NOSECOND, bits, out, st\<lparr>msg := Some ''secondary compression was inefficient''\<rparr>))"

text \<open>\<open>output->next\<close>, the fill of the page being written.\<close>

definition page_fill :: "'a bit_out \<Rightarrow> u32" where
  "page_fill w = of_nat (length (pg_data (last (fst (snd w)))))"

text \<open>The array \<open>prefix_mtfsym\<close> has \<open>ALPHABET_SIZE\<close> cells here.\<close>

definition encode_one_group :: "u32 list \<Rightarrow> u8 list \<Rightarrow> u32 \<Rightarrow> bool \<Rightarrow> 'a bit_out \<Rightarrow> xd3_ret \<times> 'a bit_out" where
  "encode_one_group real_freq input input_bits ineff w =
    (case djw_build_prefix real_freq DJW_MAX_CODELEN of
       None \<Rightarrow> (C_UB, w)
     | Some (clen, output_bits) \<Rightarrow>
        (let code = djw_build_codes clen in
         if output_bits + EFFICIENCY_BITS \<ge> input_bits \<and> \<not> ineff then nosecond w
         else bind_ok (djw_encode_prefix ALPHABET_SIZE clen w) (\<lambda>w.
           if output_bits + 8 * page_fill w + EFFICIENCY_BITS \<ge> input_bits \<and> \<not> ineff then nosecond w
           else write_all (\<lambda>b. encode_symbol clen code (unat b)) input w)))"

fun encode_sectors :: "u8 list list \<Rightarrow> nat list \<Rightarrow> u8 list list \<Rightarrow> 'a bit_out \<Rightarrow> xd3_ret \<times> 'a bit_out" where
  "encode_sectors clens gbest [] w = (XD3_OK, w)"
| "encode_sectors clens [] (sec # secs) w = (C_UB, w)"
| "encode_sectors clens (gp # gbest) (sec # secs) w =
    (if length clens \<le> gp then (C_UB, w)
     else bind_ok (write_all (\<lambda>b. encode_symbol (clens ! gp) (djw_build_codes (clens ! gp)) (unat b)) sec w)
       (encode_sectors clens gbest secs))"

text \<open>From the selectors on; \<open>gbest_freq\<close> has two entries more than there are groups, the last of which is not
  used.  \<open>gmax\<close> is the size of the array \<open>gbest_mtf\<close>.\<close>

definition encode_selected ::
    "nat \<Rightarrow> nat \<Rightarrow> nat list \<Rightarrow> u8 list list \<Rightarrow> u32 \<Rightarrow> u8 list list \<Rightarrow> u32 \<Rightarrow> bool \<Rightarrow> 'a bit_out \<Rightarrow> xd3_ret \<times> 'a bit_out" where
  "encode_selected gmax groups gbest clens output_bits secs input_bits ineff w =
    (case djw_compute_selector_1_2 gmax (map of_nat gbest) groups of
       None \<Rightarrow> (C_UB, w)
     | Some (gbest_mtf, gbest_freq) \<Rightarrow>
        (case djw_build_prefix (take (groups + 1) gbest_freq) DJW_MAX_GBCLEN of
           None \<Rightarrow> (C_UB, w)
         | Some (gbest_clen, select_bits) \<Rightarrow>
            bind_ok (write_all (\<lambda>c. xd3_encode_bits DJW_GBCLEN_BITS (ucast c)) gbest_clen w) (\<lambda>w.
            bind_ok (write_all (encode_symbol gbest_clen (djw_build_codes gbest_clen)) gbest_mtf w) (\<lambda>w.
            if output_bits + select_bits + 8 * page_fill w + EFFICIENCY_BITS \<ge> input_bits \<and> \<not> ineff then nosecond w
            else encode_sectors clens gbest secs w))))"

text \<open>\<open>gbest\<close> and \<open>gbest_mtf\<close>: allocated with \<open>gbest_max\<close> bytes each in the first try with more than one group (\<open>have_mem\<close> says whether
  that was so), freed in the end; \<open>xd3_free\<close> ignores a null pointer.  The number does not depend on the groups, so it is the size of
  the arrays in later tries too, where writes to them are checked against it.\<close>

definition gbest_max :: "u32 \<Rightarrow> u32 \<Rightarrow> u32" where
  "gbest_max input_bytes ssize = 1 + (input_bytes - 1) div ssize"

definition alloc_selectors :: "bool \<times> bool \<Rightarrow> u32 \<Rightarrow> 'a bit_out \<Rightarrow> xd3_ret \<times> (bool \<times> bool) \<times> 'a bit_out" where
  "alloc_selectors have_mem gmax w =
    (case w of (bits, out, st) \<Rightarrow>
      (case (if fst have_mem then (True, st) else xd3_alloc gmax 1 st) of
         (False, st1) \<Rightarrow> (ENOMEM, (False, snd have_mem), bits, out, st1)
       | (True, st1) \<Rightarrow>
          (case (if snd have_mem then (True, st1) else xd3_alloc gmax 1 st1) of
             (False, st2) \<Rightarrow> (ENOMEM, (True, False), bits, out, st2)
           | (True, st2) \<Rightarrow> (XD3_OK, (True, True), bits, out, st2))))"

definition free_selectors :: "bool \<times> bool \<Rightarrow> 'a bit_out \<Rightarrow> 'a bit_out" where
  "free_selectors have_mem w =
    (case w of (bits, out, st) \<Rightarrow>
      let st1 = (if fst have_mem then xd3_free st else st) in
      (bits, out, if snd have_mem then xd3_free st1 else st1))"

text \<open>\<open>output->next = initial_offset\<close> at the label \<open>regroup\<close>.  With less than \<open>initial_offset\<close> bytes in the page, which
  needs that a page was completed by the few bits written so far, it would take in bytes that were never written.\<close>

definition rewind_page :: "nat \<Rightarrow> 'a bit_out \<Rightarrow> ('a bit_out) option" where
  "rewind_page initial_offset w =
    (case w of (bits, out, st) \<Rightarrow>
      if length (pg_data (last out)) < initial_offset then None
      else Some (xd3_bit_state_encode_init bits,
                 butlast out @ [(last out)\<lparr>pg_data := take initial_offset (pg_data (last out))\<rparr>], st))"

text \<open>The body behind \<open>regroup\<close>, with one try after the other while there are too many groups.  The tables of the groups
  (\<open>evolve_clen\<close> and others) have room for \<open>DJW_MAX_GROUPS\<close> of them, the arrays \<open>prefix_symbol\<close> and \<open>prefix_mtfsym\<close> for
  \<open>DJW_MAX_GROUPS * ALPHABET_SIZE\<close> symbols.\<close>

definition prefix_room :: nat where [simp]: "prefix_room = unat DJW_MAX_GROUPS * ALPHABET_SIZE"

fun encode_groups ::
    "u32 list \<Rightarrow> u8 list \<Rightarrow> u32 \<Rightarrow> u32 \<Rightarrow> bool \<Rightarrow> nat \<Rightarrow> nat \<Rightarrow> bool \<times> bool \<Rightarrow> 'a bit_out
      \<Rightarrow> xd3_ret \<times> (bool \<times> bool) \<times> 'a bit_out" where
  "encode_groups real_freq input input_bytes ssize ineff initial_offset 0 have_mem w = (C_UB, have_mem, w)"
| "encode_groups real_freq input input_bytes ssize ineff initial_offset (Suc n) have_mem w =
    (case xd3_encode_bits DJW_GROUP_BITS (of_nat n) w of
       (r, w1) \<Rightarrow>
        if r \<noteq> XD3_OK then (r, have_mem, w1)
        else if n = 0 then (case encode_one_group real_freq input (input_bytes * 8) ineff w1 of (r, w2) \<Rightarrow> (r, have_mem, w2))
        else if ssize = 0 \<or> unat DJW_MAX_GROUPS < Suc n then (C_UB, have_mem, w1)
        else (case xd3_encode_bits DJW_SECTORSZ_BITS (ssize div DJW_SECTORSZ_MULT - 1) w1 of
          (r2, w2) \<Rightarrow>
            if r2 \<noteq> XD3_OK then (r2, have_mem, w2)
            else (case alloc_selectors have_mem (gbest_max input_bytes ssize) w2 of
              (r3, have1, w3) \<Rightarrow>
                if r3 \<noteq> XD3_OK then (r3, have1, w3)
                else (case initial_groups real_freq ineff (Suc n) input_bytes 0 0 [] of
                  Groups_ub \<Rightarrow> (C_UB, have1, w3)
                | Too_many_groups \<Rightarrow>
                   (case rewind_page initial_offset w3 of
                      None \<Rightarrow> (C_UB, have1, w3)
                    | Some w4 \<Rightarrow> encode_groups real_freq input input_bytes ssize ineff initial_offset n have1 w4)
                | Groups clens \<Rightarrow>
                   (let secs = sectors (unat ssize) input; gmax = unat (gbest_max input_bytes ssize) in
                    case evolve_groups gmax real_freq secs 0 0 clens of
                      None \<Rightarrow> (C_UB, have1, w3)
                    | Some (gbest, clens1, output_bits) \<Rightarrow>
                       if output_bits + EFFICIENCY_BITS \<ge> input_bytes * 8 \<and> \<not> ineff
                       then (case nosecond w3 of (r4, w4) \<Rightarrow> (r4, have1, w4))
                       else if prefix_room < length (djw_compute_multi_prefix (Suc n) clens1) then (C_UB, have1, w3)
                       else (case bind_ok (djw_encode_prefix prefix_room (djw_compute_multi_prefix (Suc n) clens1) w3)
                           (encode_selected gmax (Suc n) gbest clens1 output_bits secs (input_bytes * 8) ineff) of
                         (r4, w4) \<Rightarrow> (r4, have1, w4)))))))"

definition xd3_encode_huff ::
    "xd3_output list \<Rightarrow> xd3_output list \<Rightarrow> xd3_sec_cfg \<Rightarrow> 'a xd3_base_scheme
      \<Rightarrow> xd3_ret \<times> xd3_output list \<times> 'a xd3_base_scheme" where
  "xd3_encode_huff input output cfg st =
    (case djw_count_freqs input of
       None \<Rightarrow> (C_UB, output, st)
     | Some (real_freq, input_bytes) \<Rightarrow>
        (case xd3_encode_howmany_groups cfg input_bytes of
           Inl m \<Rightarrow> (XD3_INTERNAL, output, st\<lparr>msg := Some m\<rparr>)
         | Inr (groups, ssize) \<Rightarrow>
            (case encode_groups real_freq (concat (map pg_data input)) input_bytes ssize (inefficient cfg)
                (length (pg_data (last output))) (unat groups) (False, False) (BIT_STATE_ENCODE_INIT, output, st) of
               (r, have_mem, w) \<Rightarrow>
                 (case (if r = XD3_OK then xd3_flush_bits w else (r, w)) of
                    (r1, w1) \<Rightarrow> (case free_selectors have_mem w1 of (_, out1, st1) \<Rightarrow> (r1, out1, st1))))))"

section \<open>The compressor\<close>

definition djw_alloc :: "'a xd3_base_scheme \<Rightarrow> unit option \<times> 'a xd3_base_scheme" where
  "djw_alloc st = (case xd3_alloc 4 1 st of (ok, st1) \<Rightarrow> (if ok then Some () else None, st1))"

definition djw_init :: "bool \<Rightarrow> unit \<Rightarrow> 'a xd3_base_scheme \<Rightarrow> xd3_ret \<times> unit \<times> 'a xd3_base_scheme" where
  "djw_init is_encode h st = (XD3_OK, h, st)"

definition djw_destroy :: "unit \<Rightarrow> 'a xd3_base_scheme \<Rightarrow> 'a xd3_base_scheme" where
  "djw_destroy h st = xd3_free st"

definition djw_sec_type :: "('a xd3_base_scheme, unit) xd3_sec_type" where
  "djw_sec_type =
    \<lparr>sec_id = 1, sec_alloc = djw_alloc, sec_destroy = djw_destroy, sec_init = djw_init,
     sec_decode = (\<lambda>h input n st. case xd3_decode_huff input n st of (r, rest, out, st1) \<Rightarrow> (r, h, rest, out, st1)),
     sec_encode = (\<lambda>h input output cfg st. case xd3_encode_huff input output cfg st of (r, out, st1) \<Rightarrow> (r, h, out, st1))\<rparr>"

end
