(* ===== verification/Xd3_Djw_Heap.thy ===== *)
theory Xd3_Djw_Heap
  imports Xd3_Djw "HOL-Library.Multiset"
begin

text \<open>
  The binary heap of \<open>djw_build_prefix\<close> (\<open>heap_insert\<close> and \<open>heap_extract\<close> of xdelta3-djw.h) as a priority queue of
  the multiset of its entries.  Cells 1 to \<open>n\<close> are the heap, cell 0 is the sentinel.
\<close>

definition ok_at :: "(nat \<Rightarrow> djw_heapen) \<Rightarrow> (nat \<Rightarrow> nat) \<Rightarrow> nat \<Rightarrow> bool" where
  "ok_at ents heap i \<longleftrightarrow> \<not> heap_less (ents (heap i)) (ents (heap (i div 2)))"

definition heap_prop :: "(nat \<Rightarrow> djw_heapen) \<Rightarrow> (nat \<Rightarrow> nat) \<Rightarrow> nat \<Rightarrow> bool" where
  "heap_prop ents heap n \<longleftrightarrow> (\<forall>i. 2 \<le> i \<and> i \<le> n \<longrightarrow> ok_at ents heap i)"

definition heap_elems :: "(nat \<Rightarrow> nat) \<Rightarrow> nat \<Rightarrow> nat multiset" where
  "heap_elems heap n = mset (map heap [1 ..< Suc n])"

lemma less_irrefl [simp]: "\<not> heap_less a a"
  by (simp add: heap_less_def)

lemma less_asym: "heap_less a b \<Longrightarrow> \<not> heap_less b a"
  by (auto simp: heap_less_def)

lemma not_less_trans: "\<not> heap_less b a \<Longrightarrow> \<not> heap_less c b \<Longrightarrow> \<not> heap_less c a"
  by (auto simp: heap_less_def)

lemma heap_elems_0 [simp]: "heap_elems heap 0 = {#}"
  by (simp add: heap_elems_def)

lemma heap_elems_Suc: "heap_elems heap (Suc n) = add_mset (heap (Suc n)) (heap_elems heap n)"
  by (simp add: heap_elems_def)

lemma heap_elems_cong: "(\<And>i. 1 \<le> i \<Longrightarrow> i \<le> n \<Longrightarrow> h i = h' i) \<Longrightarrow> heap_elems h n = heap_elems h' n"
  unfolding heap_elems_def by (rule arg_cong [of _ _ mset], rule map_cong) auto

lemma heap_elems_upd:
  "1 \<le> p \<Longrightarrow> p \<le> n \<Longrightarrow> add_mset (heap p) (heap_elems (heap(p := x)) n) = add_mset x (heap_elems heap n)"
proof (induction n)
  case (Suc n)
  have skip: "heap_elems (heap(Suc n := x)) n = heap_elems heap n" by (rule heap_elems_cong) simp
  show ?case
  proof (cases "p = Suc n")
    case True
    show ?thesis unfolding True heap_elems_Suc skip fun_upd_same by (rule add_mset_commute)
  next
    case False
    with Suc have IH: "add_mset (heap p) (heap_elems (heap(p := x)) n) = add_mset x (heap_elems heap n)"
      by (intro Suc.IH) simp_all
    have "(heap(p := x)) (Suc n) = heap (Suc n)" using False by simp
    with IH show ?thesis unfolding heap_elems_Suc by (metis add_mset_commute)
  qed
qed simp

lemma heap_elems_beyond: "n < p \<Longrightarrow> heap_elems (heap(p := x)) n = heap_elems heap n"
  by (rule heap_elems_cong) simp

lemma heap_elems_mem: "e \<in># heap_elems heap n \<longleftrightarrow> (\<exists>i. 1 \<le> i \<and> i \<le> n \<and> heap i = e)"
  by (auto simp: heap_elems_def image_iff)

section \<open>Insertion\<close>

text \<open>A heap with a hole at \<open>p\<close> for the entry \<open>e\<close>.\<close>

definition hole :: "(nat \<Rightarrow> djw_heapen) \<Rightarrow> (nat \<Rightarrow> nat) \<Rightarrow> nat \<Rightarrow> nat \<Rightarrow> nat \<Rightarrow> bool" where
  "hole ents heap n p e \<longleftrightarrow> 1 \<le> p \<and> p \<le> n
    \<and> (\<forall>i. 2 \<le> i \<and> i \<le> n \<and> i \<noteq> p \<and> i div 2 \<noteq> p \<longrightarrow> ok_at ents heap i)
    \<and> (\<forall>i. i \<le> n \<and> i div 2 = p \<longrightarrow> \<not> heap_less (ents (heap i)) (ents e)
         \<and> (2 \<le> p \<longrightarrow> \<not> heap_less (ents (heap i)) (ents (heap (p div 2)))))"

lemma hole_up:
  assumes "hole ents heap n p e" and less: "heap_less (ents e) (ents (heap (p div 2)))" and "p div 2 \<noteq> 0"
  shows "hole ents (heap(p := heap (p div 2))) n (p div 2) e"
proof -
  define q where "q = p div 2"
  have p: "1 \<le> q" "q < p" "p \<le> n" "2 \<le> p" using assms(1,3) by (auto simp: hole_def q_def)
  have far: "ok_at ents heap i" if "2 \<le> i" "i \<le> n" "i \<noteq> p" "i div 2 \<noteq> p" for i
    using assms(1) that by (simp add: hole_def)
  have below: "\<not> heap_less (ents (heap i)) (ents (heap q))" if "i \<le> n" "i div 2 = p" for i
    using assms(1) that p by (simp add: hole_def q_def)
  have kid: "i \<noteq> p \<longrightarrow> \<not> heap_less (ents (heap i)) (ents (heap q))" if "i \<le> n" "i div 2 = q" for i
    using far [of i] that p by (auto simp: ok_at_def)
  have q2: "2 \<le> q \<longrightarrow> \<not> heap_less (ents (heap q)) (ents (heap (q div 2)))"
    using far [of q] p by (auto simp: ok_at_def)
  have not_e: "\<not> heap_less (ents (heap q)) (ents e)" using less_asym [OF less] by (simp add: q_def)
  show ?thesis
    unfolding hole_def q_def [symmetric]
  proof (intro conjI allI impI)
    show "1 \<le> q" "q \<le> n" using p by simp_all
  next
    fix i
    assume i: "2 \<le> i \<and> i \<le> n \<and> i \<noteq> q \<and> i div 2 \<noteq> q"
    then have ip: "i \<noteq> p" by (auto simp: q_def)
    show "ok_at ents (heap(p := heap q)) i"
    proof (cases "i div 2 = p")
      case True
      with below [of i] i ip show ?thesis by (simp add: ok_at_def)
    next
      case False
      with far [of i] i ip show ?thesis by (simp add: ok_at_def)
    qed
  next
    fix i
    assume i: "i \<le> n \<and> i div 2 = q"
    show "\<not> heap_less (ents ((heap(p := heap q)) i)) (ents e)"
      using not_e kid [of i] i not_less_trans [OF not_e, of "ents (heap i)"] by (cases "i = p") simp_all
    show "\<not> heap_less (ents ((heap(p := heap q)) i)) (ents ((heap(p := heap q)) (q div 2)))" if "2 \<le> q"
    proof -
      have "q div 2 \<noteq> p" using p by simp
      then show ?thesis using q2 that kid [of i] i not_less_trans [of "ents (heap q)" "ents (heap (q div 2))" "ents (heap i)"]
        by (cases "i = p") simp_all
    qed
  qed
qed

lemma heap_insert_fills:
  assumes "hole ents heap n p e" "\<And>x. \<not> heap_less x (ents (heap 0))"
  shows "heap_prop ents (heap_insert heap ents p e) n
    \<and> heap_elems (heap_insert heap ents p e) n = heap_elems (heap(p := e)) n \<and> heap_insert heap ents p e 0 = heap 0"
  using assms
proof (induction heap ents p e rule: heap_insert.induct)
  case (1 heap ents p e)
  define q where "q = p div 2"
  have p: "1 \<le> p" "p \<le> n" using 1(2) by (simp_all add: hole_def)
  show ?case
  proof (cases "heap_less (ents e) (ents (heap q))")
    case True
    have q: "q \<noteq> 0" using True 1(3) by (metis)
    then have "q < p" by (auto simp: q_def)
    have up: "heap_insert heap ents p e = heap_insert (heap(p := heap q)) ents q e"
      by (subst heap_insert.simps) (use True p in \<open>simp add: q_def\<close>)
    have c: "p \<noteq> 0 \<and> heap_less (ents e) (ents (heap (p div 2)))" using True p by (simp add: q_def)
    have h: "hole ents (heap(p := heap q)) n q e" using hole_up [OF 1(2)] True q by (simp add: q_def)
    have zero: "(heap(p := heap q)) 0 = heap 0" using p by simp
    have IH: "heap_prop ents (heap_insert (heap(p := heap q)) ents q e) n
      \<and> heap_elems (heap_insert (heap(p := heap q)) ents q e) n = heap_elems ((heap(p := heap q))(q := e)) n
      \<and> heap_insert (heap(p := heap q)) ents q e 0 = (heap(p := heap q)) 0"
      by (rule 1(1) [OF c, folded q_def, OF h]) (simp only: zero, rule 1(3))
    have "add_mset (heap q) (heap_elems ((heap(p := heap q))(q := e)) n) = add_mset e (heap_elems (heap(p := heap q)) n)"
      using heap_elems_upd [of q n "heap(p := heap q)" e] \<open>q < p\<close> q p by simp
    moreover have "add_mset (heap p) (heap_elems (heap(p := heap q)) n) = add_mset (heap q) (heap_elems heap n)"
      using heap_elems_upd [of p n heap "heap q"] p by simp
    moreover have "add_mset (heap p) (heap_elems (heap(p := e)) n) = add_mset e (heap_elems heap n)"
      using heap_elems_upd [of p n heap e] p by simp
    ultimately have "heap_elems ((heap(p := heap q))(q := e)) n = heap_elems (heap(p := e)) n"
      by (metis add_mset_commute add_mset_add_mset_same_iff)
    with IH zero up show ?thesis by (simp only: simp_thms)
  next
    case False
    then have ins: "heap_insert heap ents p e = heap(p := e)"
      by (subst heap_insert.simps) (simp add: q_def)
    have "ok_at ents (heap(p := e)) i" if i: "2 \<le> i" "i \<le> n" for i
    proof (cases "i = p")
      case True
      with False i show ?thesis by (auto simp: ok_at_def q_def)
    next
      case ip: False
      then show ?thesis using 1(2) i by (cases "i div 2 = p") (auto simp: hole_def ok_at_def)
    qed
    then have "heap_prop ents (heap(p := e)) n" unfolding heap_prop_def by blast
    moreover have "(heap(p := e)) 0 = heap 0" using p by simp
    ultimately show ?thesis unfolding ins by (intro conjI refl)
  qed
qed

lemma heap_insert_spec:
  assumes "heap_prop ents heap n" "\<And>x. \<not> heap_less x (ents (heap 0))"
  shows "heap_prop ents (heap_insert heap ents (Suc n) e) (Suc n)"
    "heap_elems (heap_insert heap ents (Suc n) e) (Suc n) = add_mset e (heap_elems heap n)"
    "heap_insert heap ents (Suc n) e 0 = heap 0"
proof -
  have "i \<noteq> 0 \<Longrightarrow> i \<le> n \<Longrightarrow> i div 2 \<noteq> Suc n" for i :: nat by auto
  then have "hole ents heap (Suc n) (Suc n) e"
    using assms(1) by (auto simp: hole_def heap_prop_def le_Suc_eq)
  from heap_insert_fills [OF this assms(2)] heap_elems_beyond [of n "Suc n" heap e]
  show "heap_prop ents (heap_insert heap ents (Suc n) e) (Suc n)"
    "heap_elems (heap_insert heap ents (Suc n) e) (Suc n) = add_mset e (heap_elems heap n)"
    "heap_insert heap ents (Suc n) e 0 = heap 0" by (simp_all add: heap_elems_Suc)
qed

section \<open>Extraction\<close>

text \<open>A heap in which only \<open>p\<close> may be greater than its children.\<close>

definition sinking :: "(nat \<Rightarrow> djw_heapen) \<Rightarrow> (nat \<Rightarrow> nat) \<Rightarrow> nat \<Rightarrow> nat \<Rightarrow> bool" where
  "sinking ents heap n p \<longleftrightarrow> 1 \<le> p
    \<and> (\<forall>i. 2 \<le> i \<and> i \<le> n \<and> i div 2 \<noteq> p \<longrightarrow> ok_at ents heap i)
    \<and> (\<forall>i. i \<le> n \<and> i div 2 = p \<and> 2 \<le> p \<longrightarrow> \<not> heap_less (ents (heap i)) (ents (heap (p div 2))))"

lemma sinking_down:
  assumes s: "sinking ents heap n p" and pc: "pc \<le> n" "pc div 2 = p"
    and least: "\<And>i. i \<le> n \<Longrightarrow> i div 2 = p \<Longrightarrow> \<not> heap_less (ents (heap i)) (ents (heap pc))"
    and less: "heap_less (ents (heap pc)) (ents (heap p))"
  shows "sinking ents (heap(pc := heap p, p := heap pc)) n pc"
proof -
  have p: "1 \<le> p" "p < pc" "2 \<le> pc" using s pc by (auto simp: sinking_def)
  have far: "ok_at ents heap i" if "2 \<le> i" "i \<le> n" "i div 2 \<noteq> p" for i using s that by (simp add: sinking_def)
  show ?thesis
    unfolding sinking_def
  proof (intro conjI allI impI)
    show "1 \<le> pc" using p by simp
  next
    fix i
    assume i: "2 \<le> i \<and> i \<le> n \<and> i div 2 \<noteq> pc"
    show "ok_at ents (heap(pc := heap p, p := heap pc)) i"
    proof (cases "i div 2 = p")
      case True
      then have "i \<noteq> p" using i by auto
      then show ?thesis using True less_asym [OF less] least [of i] i p by (cases "i = pc") (auto simp: ok_at_def)
    next
      case False
      then have "i \<noteq> pc" using pc(2) by auto
      show ?thesis
      proof (cases "i = p")
        case True
        have "p div 2 \<noteq> p" "p div 2 \<noteq> pc" using p by auto
        moreover have "\<not> heap_less (ents (heap pc)) (ents (heap (p div 2)))"
          using s pc True i by (simp add: sinking_def)
        ultimately show ?thesis using True p by (simp add: ok_at_def)
      next
        case ip: False
        with far [of i] i False \<open>i \<noteq> pc\<close> show ?thesis by (simp add: ok_at_def)
      qed
    qed
  next
    fix i
    assume i: "i \<le> n \<and> i div 2 = pc \<and> 2 \<le> pc"
    then have "i \<noteq> pc" "i \<noteq> p" "i div 2 \<noteq> p" "2 \<le> i" using p by auto
    with far [of i] i p pc(2) show "\<not> heap_less (ents ((heap(pc := heap p, p := heap pc)) i))
        (ents ((heap(pc := heap p, p := heap pc)) (pc div 2)))"
      by (auto simp: ok_at_def)
  qed
qed

lemma heap_down_spec:
  assumes "sinking ents heap n p"
  shows "heap_prop ents (heap_down heap ents n p) n \<and> heap_elems (heap_down heap ents n p) n = heap_elems heap n
    \<and> heap_down heap ents n p 0 = heap 0"
  using assms
proof (induction heap ents n p rule: heap_down.induct)
  case (1 heap ents n p)
  have p: "p \<noteq> 0" using 1(2) by (simp add: sinking_def)
  define pc where "pc = (if p * 2 < n \<and> heap_less (ents (heap (p * 2 + 1))) (ents (heap (p * 2))) then p * 2 + 1 else p * 2)"
  have kids: "i = p * 2 \<or> i = p * 2 + 1" if "i div 2 = p" for i using that by auto
  show ?case
  proof (cases "n < p * 2")
    case True
    then have "heap_down heap ents n p = heap" by (subst heap_down.simps) simp
    moreover have "i div 2 \<noteq> p" if "i \<le> n" for i using that True kids by fastforce
    ultimately show ?thesis using 1(2) by (simp add: sinking_def heap_prop_def)
  next
    case False
    have bottom: "(p = 0 \<or> n < p * 2) = False" using p False by simp
    have pcn: "pc \<le> n" "pc div 2 = p" "pc \<noteq> p" "1 \<le> pc" using False p by (auto simp: pc_def)
    have least: "\<not> heap_less (ents (heap i)) (ents (heap pc))" if "i \<le> n" "i div 2 = p" for i
      using kids [OF that(2)] that(1) less_asym by (auto simp: pc_def)
    show ?thesis
    proof (cases "heap_less (ents (heap pc)) (ents (heap p))")
      case True
      have step: "heap_down heap ents n p = heap_down (heap(pc := heap p, p := heap pc)) ents n pc"
        by (subst heap_down.simps) (simp only: bottom True Let_def pc_def [symmetric] not_True_eq_False if_False)
      have IH: "heap_prop ents (heap_down (heap(pc := heap p, p := heap pc)) ents n pc) n
        \<and> heap_elems (heap_down (heap(pc := heap p, p := heap pc)) ents n pc) n = heap_elems (heap(pc := heap p, p := heap pc)) n
        \<and> heap_down (heap(pc := heap p, p := heap pc)) ents n pc 0 = (heap(pc := heap p, p := heap pc)) 0"
        by (rule 1(1) [OF _ pc_def _ sinking_down [OF 1(2) pcn(1,2) least True]]) (use p False True in simp_all)
      have "p \<le> n" "1 \<le> p" using p False by simp_all
      then have "add_mset (heap p) (heap_elems (heap(pc := heap p, p := heap pc)) n) = add_mset (heap pc) (heap_elems (heap(pc := heap p)) n)"
        using heap_elems_upd [of p n "heap(pc := heap p)" "heap pc"] pcn(3) by simp
      also have "\<dots> = add_mset (heap p) (heap_elems heap n)"
        using heap_elems_upd [of pc n heap "heap p"] pcn by simp
      finally show ?thesis using IH step p pcn by simp
    next
      case less: False
      have "heap_down heap ents n p = heap"
        by (subst heap_down.simps) (simp only: bottom less Let_def pc_def [symmetric] not_False_eq_True if_False if_True)
      moreover have "ok_at ents heap i" if "2 \<le> i" "i \<le> n" for i
      proof (cases "i div 2 = p")
        case True
        with least [of i] that less not_less_trans [of "ents (heap pc)" "ents (heap p)" "ents (heap i)"]
        show ?thesis by (simp add: ok_at_def)
      next
        case False
        with 1(2) that show ?thesis by (simp add: sinking_def)
      qed
      ultimately show ?thesis by (simp add: heap_prop_def)
    qed
  qed
qed

lemma heap_least:
  assumes "heap_prop ents heap n" "1 \<le> i" "i \<le> n"
  shows "\<not> heap_less (ents (heap i)) (ents (heap 1))"
  using assms(2,3)
proof (induction i rule: less_induct)
  case (less i)
  show ?case
  proof (cases "i = 1")
    case False
    then have "i div 2 < i" "1 \<le> i div 2" "i div 2 \<le> n" using less.prems by auto
    from not_less_trans [OF less.IH [OF this], of "ents (heap i)"] assms(1) less.prems False show ?thesis
      by (simp add: heap_prop_def ok_at_def)
  qed simp
qed

lemma heap_extract_spec:
  assumes "heap_prop ents heap (Suc n)" "heap_extract heap ents n = (e, heap')"
  shows "heap_prop ents heap' n" "heap_elems heap (Suc n) = add_mset e (heap_elems heap' n)" "heap' 0 = heap 0"
    "\<And>x. x \<in># heap_elems heap (Suc n) \<Longrightarrow> \<not> heap_less (ents x) (ents e)"
proof -
  have e: "e = heap 1" and h: "heap' = heap_down (heap(1 := heap (Suc n))) ents n 1"
    using assms(2) by (simp_all add: heap_extract_def)
  have "sinking ents (heap(1 := heap (Suc n))) n 1"
    using assms(1) by (auto simp: sinking_def heap_prop_def ok_at_def)
  note d = heap_down_spec [OF this]
  then show "heap_prop ents heap' n" "heap' 0 = heap 0" by (simp_all add: h)
  have "add_mset (heap 1) (heap_elems (heap(1 := heap (Suc n))) n) = add_mset (heap (Suc n)) (heap_elems heap n)"
  proof (cases "n = 0")
    case False
    then show ?thesis using heap_elems_upd [of 1 n heap "heap (Suc n)"] by simp
  qed simp
  with d show "heap_elems heap (Suc n) = add_mset e (heap_elems heap' n)" by (simp add: e h heap_elems_Suc)
  show "\<not> heap_less (ents x) (ents e)" if "x \<in># heap_elems heap (Suc n)" for x
    using that heap_least [OF assms(1)] by (auto simp: heap_elems_mem e)
qed

end
