(* ===== verification/Xd3_Djw_Codes.thy ===== *)
theory Xd3_Djw_Codes
  imports Xd3_Djw_Encode Xd3_Second_Spec
begin

text \<open>
  Canonical Huffman codes.  From a list of code lengths, \<open>djw_build_codes\<close> numbers the codes of one length in the
  order of their symbols, starting where the shorter lengths end; \<open>djw_build_decoder\<close> computes the same numbers
  from counts.  Here both are related to \<open>first_code\<close> and \<open>code_rank\<close>, over unbounded numbers: a symbol that is
  encoded is decoded to itself.
\<close>

section \<open>Code lengths as numbers\<close>

abbreviation lens :: "u8 list \<Rightarrow> nat list" where
  "lens \<equiv> map unat"

text \<open>How many codes have a length, where their numbers start, how many are shorter, and the place of a symbol among
  those of its length.  Length 0 means that there is no code.\<close>

definition len_count :: "nat list \<Rightarrow> nat \<Rightarrow> nat" where
  "len_count ls l = (if l = 0 then 0 else count_list ls l)"

fun first_code :: "nat list \<Rightarrow> nat \<Rightarrow> nat" where
  "first_code ls 0 = 0"
| "first_code ls (Suc l) = 2 * (first_code ls l + len_count ls l)"

fun shorter :: "nat list \<Rightarrow> nat \<Rightarrow> nat" where
  "shorter ls 0 = 0"
| "shorter ls (Suc l) = shorter ls l + len_count ls l"

definition code_rank :: "nat list \<Rightarrow> nat \<Rightarrow> nat" where
  "code_rank ls i = count_list (take i ls) (ls ! i)"

definition code_of :: "nat list \<Rightarrow> nat \<Rightarrow> nat" where
  "code_of ls i = first_code ls (ls ! i) + code_rank ls i"

text \<open>Kraft's inequality, for lengths up to \<open>L\<close>.\<close>

definition kraft :: "nat \<Rightarrow> nat list \<Rightarrow> bool" where
  "kraft L ls \<longleftrightarrow> (\<forall>l \<in> set ls. l \<le> L) \<and> sum_list (map (\<lambda>l. 2 ^ (L - l)) (filter (\<lambda>l. l \<noteq> 0) ls)) \<le> (2 :: nat) ^ L"

lemma count_list_take_Suc:
  "i < length xs \<Longrightarrow> count_list (take (Suc i) xs) x = count_list (take i xs) x + (if xs ! i = x then 1 else 0)"
  by (simp add: take_Suc_conv_app_nth)

lemma code_rank_less:
  assumes "i < length ls" "ls ! i \<noteq> 0"
  shows "code_rank ls i < len_count ls (ls ! i)"
proof -
  have "ls = take i ls @ ls ! i # drop (Suc i) ls" using assms(1) by (rule id_take_nth_drop)
  then have "count_list ls (ls ! i) = count_list (take i ls) (ls ! i) + count_list (ls ! i # drop (Suc i) ls) (ls ! i)"
    by (metis count_list_append)
  then show ?thesis using assms(2) by (simp add: code_rank_def len_count_def)
qed

lemma first_code_step: "l \<le> m \<Longrightarrow> l < m \<longrightarrow> (first_code ls l + len_count ls l) * 2 ^ (m - l) \<le> first_code ls m"
proof (induction m rule: nat_induct)
  case (Suc m)
  show ?case
  proof (intro impI)
    assume "l < Suc m"
    show "(first_code ls l + len_count ls l) * 2 ^ (Suc m - l) \<le> first_code ls (Suc m)"
    proof (cases "l = m")
      case False
      with \<open>l < Suc m\<close> Suc.IH have "(first_code ls l + len_count ls l) * 2 ^ (m - l) \<le> first_code ls m" by simp
      moreover have "(2 :: nat) ^ (Suc m - l) = 2 * 2 ^ (m - l)" using \<open>l < Suc m\<close> by (simp add: Suc_diff_le)
      ultimately show ?thesis by (simp add: mult.left_commute)
    qed simp
  qed
qed simp

lemma first_code_sum:
  "l \<le> L \<Longrightarrow> first_code ls l * 2 ^ (L - l) = (\<Sum>j < l. len_count ls j * 2 ^ (L - j))"
proof (induction l)
  case (Suc l)
  then have e: "(2 :: nat) ^ (L - l) = 2 * 2 ^ (L - Suc l)" by (metis Suc_diff_Suc Suc_le_lessD power_Suc)
  have "first_code ls (Suc l) * 2 ^ (L - Suc l) = (first_code ls l + len_count ls l) * 2 ^ (L - l)" by (simp add: e)
  with Suc show ?case by (simp add: add_mult_distrib)
qed simp

lemma kraft_sum:
  assumes "\<forall>l \<in> set ls. l \<le> L"
  shows "sum_list (map (\<lambda>l. 2 ^ (L - l)) (filter (\<lambda>l. l \<noteq> 0) ls)) = (\<Sum>j < Suc L. len_count ls j * (2 :: nat) ^ (L - j))"
  using assms
proof (induction ls)
  case (Cons a ls)
  have "len_count (a # ls) j = len_count ls j + (if j = a \<and> a \<noteq> 0 then 1 else 0)" for j by (auto simp: len_count_def)
  then have "(\<Sum>j < Suc L. len_count (a # ls) j * (2 :: nat) ^ (L - j))
      = (\<Sum>j < Suc L. len_count ls j * 2 ^ (L - j) + (if j = a then (if a \<noteq> 0 then 2 ^ (L - a) else 0) else 0))"
    by (intro sum.cong) (auto simp: add_mult_distrib)
  also have "\<dots> = (\<Sum>j < Suc L. len_count ls j * (2 :: nat) ^ (L - j)) + (if a \<noteq> 0 then 2 ^ (L - a) else 0)"
    using Cons.prems by (simp only: sum.distrib) (simp add: less_Suc_eq_le)
  finally show ?case using Cons by simp
qed (simp add: len_count_def)

lemma kraft_fits:
  assumes "kraft L ls" and "l \<le> L"
  shows "first_code ls l + len_count ls l \<le> 2 ^ l"
proof -
  have "(first_code ls l + len_count ls l) * 2 ^ (L - l) = (\<Sum>j < Suc l. len_count ls j * 2 ^ (L - j))"
    using first_code_sum [OF assms(2), of ls] by (simp add: add_mult_distrib)
  also have "\<dots> \<le> (\<Sum>j < Suc L. len_count ls j * 2 ^ (L - j))" by (rule sum_mono2) (use assms(2) in auto)
  also have "\<dots> \<le> 2 ^ L" using assms(1) kraft_sum [of ls L] by (simp add: kraft_def)
  finally have "(first_code ls l + len_count ls l) * 2 ^ (L - l) \<le> 2 ^ l * 2 ^ (L - l)"
    using assms(2) by (simp flip: power_add)
  then show ?thesis by simp
qed

lemma code_of_less:
  assumes "kraft L ls" and "i < length ls" "ls ! i \<noteq> 0"
  shows "code_of ls i < 2 ^ (ls ! i)"
proof -
  have "ls ! i \<le> L" using assms by (simp add: kraft_def)
  from kraft_fits [OF assms(1) this] code_rank_less [OF assms(2,3)] show ?thesis by (simp add: code_of_def)
qed

lemma shorter_le_first: "shorter ls l \<le> first_code ls l"
  by (induction l) simp_all

lemma shorter_mono: "l \<le> m \<Longrightarrow> shorter ls l \<le> shorter ls m"
  by (induction m rule: dec_induct) simp_all

section \<open>The encoder's codes\<close>

lemma level_codes_spec:
  "level_codes l clen i cs =
    ((\<lambda>j. if i \<le> j \<and> j < i + length clen \<and> unat (clen ! (j - i)) = l
          then Some (snd cs + of_nat (count_list (take (j - i) (lens clen)) l)) else fst cs j),
     snd cs + of_nat (count_list (lens clen) l))"
proof (induction clen arbitrary: i cs)
  case Nil
  then show ?case by (cases cs) (auto simp: fun_eq_iff)
next
  case (Cons c clen)
  have nth: "(c # clen) ! (j - i) = clen ! (j - Suc i)"
      "take (j - i) (unat c # lens clen) = unat c # take (j - Suc i) (lens clen)" if "Suc i \<le> j" for j
  proof -
    have "j - i = Suc (j - Suc i)" using that by simp
    then show "(c # clen) ! (j - i) = clen ! (j - Suc i)"
      "take (j - i) (unat c # lens clen) = unat c # take (j - Suc i) (lens clen)" by simp_all
  qed
  have "fst (level_codes l (c # clen) i cs) j = (if i \<le> j \<and> j < i + length (c # clen) \<and> unat ((c # clen) ! (j - i)) = l
      then Some (snd cs + of_nat (count_list (take (j - i) (lens (c # clen))) l)) else fst cs j)" for j
    using nth by (cases j i rule: linorder_cases) (auto simp: Cons.IH)
  moreover have "snd (level_codes l (c # clen) i cs) = snd cs + of_nat (count_list (lens (c # clen)) l)"
    by (simp add: Cons.IH)
  ultimately show ?case by (intro prod_eqI ext) (simp_all only: fst_conv snd_conv)
qed

text \<open>The smallest and the largest length that \<open>djw_build_codes\<close> finds.\<close>

definition min_max_ok :: "nat list \<Rightarrow> nat \<Rightarrow> nat \<Rightarrow> bool" where
  "min_max_ok ls a b \<longleftrightarrow> (\<forall>l \<in> set ls. l = 0 \<or> a \<le> l \<and> l \<le> b)"

lemma fold_min_le:
  "fold (\<lambda>c m. if 0 < c \<and> unat c < m then unat c else m) clen m \<le> m
   \<and> (\<forall>c \<in> set (clen :: u8 list). c = 0 \<or> fold (\<lambda>c m. if 0 < c \<and> unat c < m then unat c else m) clen m \<le> unat c)
   \<and> (0 < m \<longrightarrow> 0 < fold (\<lambda>c m. if 0 < c \<and> unat c < m then unat c else m) clen m)"
proof (induction clen arbitrary: m)
  case (Cons c clen)
  have "0 < c \<longleftrightarrow> 0 < unat c" "c = 0 \<longleftrightarrow> unat c = 0" by (simp_all add: unat_gt_0 unat_eq_0 word_neq_0_conv)
  with Cons.IH [of "if 0 < c \<and> unat c < m then unat c else m"] show ?case
    by (auto simp: not_less split: if_splits dest: le_trans less_imp_le)
qed simp

lemma fold_max_ge:
  "m \<le> fold (\<lambda>c m. max m (unat c)) clen m \<and> (\<forall>c \<in> set (clen :: u8 list). unat c \<le> fold (\<lambda>c m. max m (unat c)) clen m)"
proof (induction clen arbitrary: m)
  case (Cons c clen)
  from Cons.IH [of "max m (unat c)"] show ?case by auto
qed simp

lemma len_count_outside: "min_max_ok ls a b \<Longrightarrow> l < a \<or> b < l \<Longrightarrow> len_count ls l = 0"
  by (auto simp: min_max_ok_def len_count_def count_list_0_iff)

lemma first_code_below: "min_max_ok ls a b \<Longrightarrow> l \<le> a \<Longrightarrow> first_code ls l = 0"
  by (induction l) (simp_all add: len_count_outside)

lemma shorter_below: "min_max_ok ls a b \<Longrightarrow> l \<le> a \<Longrightarrow> shorter ls l = 0"
  by (induction l) (simp_all add: len_count_outside)

lemma level_fold:
  fixes clen :: "u8 list"
  assumes "min_max_ok (lens clen) a b" "0 < a"
  shows "fold (\<lambda>l cs. case level_codes l clen 0 cs of (codes, code) \<Rightarrow> (codes, push_bit 1 code)) [a ..< a + k] (Map.empty, 0)
    = ((\<lambda>j. if j < length clen \<and> a \<le> unat (clen ! j) \<and> unat (clen ! j) < a + k
         then Some (of_nat (code_of (lens clen) j)) else None), of_nat (first_code (lens clen) (a + k)))"
proof (induction k)
  case 0
  then show ?case using first_code_below [OF assms(1), of a] by (auto simp: fun_eq_iff)
next
  case (Suc k)
  have cnt: "count_list (lens clen) (a + k) = len_count (lens clen) (a + k)" using assms(2) by (simp add: len_count_def)
  have "[a ..< a + Suc k] = [a ..< a + k] @ [a + k]" by simp
  then show ?case
    by (simp only: fold_append fold_simps o_apply Suc.IH) (simp only: level_codes_spec prod.case fst_conv snd_conv,
      auto simp: fun_eq_iff code_of_def code_rank_def take_map cnt)
qed

lemma build_codes_spec:
  assumes "\<forall>c \<in> set clen. unat c \<le> 20" "i < length clen" "clen ! i \<noteq> 0"
  shows "djw_build_codes clen i = Some (of_nat (code_of (lens clen) i))"
proof -
  define a where "a = fold (\<lambda>c m. if 0 < c \<and> unat c < m then unat c else m) clen 20"
  define b where "b = fold (\<lambda>c m. max m (unat c)) clen 0"
  have ab: "min_max_ok (lens clen) a b" "0 < a"
    using fold_min_le [of clen 20] fold_max_ge [of 0 clen] by (auto simp: min_max_ok_def a_def b_def)
  have i: "a \<le> unat (clen ! i)" "unat (clen ! i) \<le> b"
    using ab(1) assms(2,3) by (auto simp: min_max_ok_def unat_eq_0 dest!: bspec [of _ _ "clen ! i"])
  have "[a ..< Suc b] = [a ..< a + (Suc b - a)]" using i by simp
  with level_fold [OF ab, of "Suc b - a"] i assms(2) show ?thesis
    unfolding djw_build_codes_def Let_def DJW_MAX_CODELEN_def a_def [symmetric] b_def [symmetric] by simp
qed

section \<open>The decoder's tables\<close>

lemma count_clen_spec: "count_clen clen l = of_nat (count_list (lens clen) l)"
proof -
  have "fold (\<lambda>c nr. nr(unat c := nr (unat c) + 1)) clen nr l = nr l + (of_nat (count_list (lens clen) l) :: u32)"
    for nr :: "nat \<Rightarrow> u32" by (induction clen arbitrary: nr) auto
  then show ?thesis by (simp add: count_clen_def)
qed

lemma find_min:
  assumes "\<exists>i. 1 \<le> i \<and> i \<le> n \<and> P i"
  obtains a where "find P [1 ..< Suc n] = Some a" "1 \<le> a" "a \<le> n" "P a" "\<And>i. 1 \<le> i \<Longrightarrow> i < a \<Longrightarrow> \<not> P i"
proof -
  have "find P [1 ..< Suc n] \<noteq> None" using assms by (auto simp: find_None_iff)
  then obtain a where a: "find P [1 ..< Suc n] = Some a" by auto
  then obtain k where k: "k < n" "P a" "a = Suc k" "\<forall>j < k. \<not> P (Suc j)" by (auto simp: find_Some_iff simp del: upt_Suc)
  have "\<not> P i" if "1 \<le> i" "i < a" for i using k(4) [rule_format, of "i - 1"] that k(3) by auto
  with a k that [of a] show ?thesis by simp
qed

lemma find_max:
  assumes "\<exists>i. 1 \<le> i \<and> i \<le> n \<and> P i"
  obtains b where "find P (rev [1 ..< Suc n]) = Some b" "1 \<le> b" "b \<le> n" "P b" "\<And>i. b < i \<Longrightarrow> i \<le> n \<Longrightarrow> \<not> P i"
proof -
  have "\<exists>b. find P (rev [1 ..< Suc n]) = Some b \<and> 1 \<le> b \<and> b \<le> n \<and> P b \<and> (\<forall>i. b < i \<and> i \<le> n \<longrightarrow> \<not> P i)"
    using assms
  proof (induction n)
    case (Suc n)
    show ?case
    proof (cases "P (Suc n)")
      case False
      with Suc.prems have "\<exists>i. 1 \<le> i \<and> i \<le> n \<and> P i" by (metis le_Suc_eq)
      from Suc.IH [OF this] False show ?thesis by (auto simp: le_Suc_eq)
    qed auto
  qed simp
  with that show ?thesis by blast
qed

lemma base_limit_fold:
  fixes clen :: "u8 list"
  defines "ls \<equiv> lens clen"
  assumes "min_max_ok ls a b" "0 < a"
  defines "start \<equiv> ((\<lambda>_. 0), (\<lambda>_. 0), (\<lambda>_. 0)(a := count_clen clen a - 1))"
  assumes "fold (base_limit_step (count_clen clen)) [Suc a ..< Suc a + k] start = (tmp, base, limit)"
  shows "\<forall>l. a \<le> l \<and> l \<le> a + k \<longrightarrow> tmp l = of_nat (shorter ls l) \<and> base l = of_nat (first_code ls l) - of_nat (shorter ls l)
    \<and> limit l = of_nat (first_code ls l + len_count ls l) - 1"
  using assms(5)
proof (induction k arbitrary: tmp base limit)
  case 0
  then show ?case using assms(2,3)
    by (auto simp: start_def shorter_below first_code_below count_clen_spec len_count_def ls_def)
next
  case (Suc k)
  obtain tmp0 base0 limit0 where f: "fold (base_limit_step (count_clen clen)) [Suc a ..< Suc a + k] start = (tmp0, base0, limit0)"
    by (metis prod_cases3)
  have "[Suc a ..< Suc a + Suc k] = [Suc a ..< Suc a + k] @ [Suc a + k]" by simp
  then have step: "(tmp, base, limit) = base_limit_step (count_clen clen) (Suc a + k) (tmp0, base0, limit0)"
    using Suc.prems by (simp only: fold_append fold_simps o_apply f)
  have cnt: "count_clen clen j = of_nat (len_count ls j)" if "0 < j" for j
    using that by (simp add: count_clen_spec len_count_def ls_def)
  have new: "tmp = tmp0(Suc a + k := of_nat (shorter ls (Suc a + k)))"
      "base = base0(Suc a + k := of_nat (first_code ls (Suc a + k)) - of_nat (shorter ls (Suc a + k)))"
      "limit = limit0(Suc a + k := of_nat (first_code ls (Suc a + k) + len_count ls (Suc a + k)) - 1)"
    using step Suc.IH [OF f, rule_format, of "a + k"] assms(3) by (simp_all add: base_limit_step_def Let_def cnt table_limit_def algebra_simps)
  show ?case
  proof (intro allI impI)
    fix l
    assume l: "a \<le> l \<and> l \<le> a + Suc k"
    show "tmp l = of_nat (shorter ls l) \<and> base l = of_nat (first_code ls l) - of_nat (shorter ls l)
        \<and> limit l = of_nat (first_code ls l + len_count ls l) - 1"
    proof (cases "l = Suc a + k")
      case True
      then show ?thesis by (simp only: new fun_upd_same)
    next
      case False
      with l have "a \<le> l \<and> l \<le> a + k" by simp
      with Suc.IH [OF f, rule_format, of l] False show ?thesis by (simp only: new fun_upd_other simp_thms)
    qed
  qed
qed

text \<open>The place of a symbol in the canonical order.\<close>

definition code_place :: "nat list \<Rightarrow> nat \<Rightarrow> nat" where
  "code_place ls i = shorter ls (ls ! i) + code_rank ls i"

lemma code_place_bounds:
  assumes "i < length ls" "ls ! i \<noteq> 0"
  shows "code_place ls i < shorter ls (Suc (ls ! i))"
  using code_rank_less [OF assms] by (simp add: code_place_def)

lemma code_rank_mono: "i < j \<Longrightarrow> j \<le> length ls \<Longrightarrow> ls ! i = x \<Longrightarrow> count_list (take i ls) x < count_list (take j ls) x"
proof (induction j)
  case (Suc j)
  then show ?case by (cases "i = j") (simp_all add: count_list_take_Suc)
qed simp

lemma code_place_inj:
  assumes "i < j" "j < length ls" "ls ! i \<noteq> 0" "ls ! j \<noteq> 0"
  shows "code_place ls i \<noteq> code_place ls j"
proof (cases "ls ! i" "ls ! j" rule: linorder_cases)
  case less
  then have "shorter ls (Suc (ls ! i)) \<le> shorter ls (ls ! j)" by (intro shorter_mono) simp
  with code_place_bounds [of i ls] assms show ?thesis by (simp add: code_place_def)
next
  case equal
  then show ?thesis using code_rank_mono [of i j ls "ls ! i"] assms by (simp add: code_place_def code_rank_def)
next
  case greater
  then have "shorter ls (Suc (ls ! j)) \<le> shorter ls (ls ! i)" by (intro shorter_mono) simp
  with code_place_bounds [of j ls] assms show ?thesis by (simp add: code_place_def)
qed

lemma shorter_le_length: "shorter ls l \<le> length ls"
proof -
  have "shorter ls l \<le> length (filter (\<lambda>x. x < l) ls)"
  proof (induction l)
    case (Suc l)
    have "length (filter (\<lambda>x. x < Suc l) ls) = length (filter (\<lambda>x. x < l) ls) + count_list ls l"
      by (induction ls) auto
    with Suc show ?case by (simp add: len_count_def)
  qed simp
  then show ?thesis using length_filter_le le_trans by blast
qed

lemma inorder_fold:
  fixes clen :: "u8 list"
  defines "ls \<equiv> lens clen"
  assumes "length clen \<le> 256" "\<And>j. j < length clen \<Longrightarrow> ls ! j \<noteq> 0 \<Longrightarrow> tmp0 (ls ! j) = of_nat (shorter ls (ls ! j))"
    and "k \<le> length clen" "fold (inorder_step clen) [0 ..< k] (Map.empty, tmp0) = (inorder, tmp)"
  shows "(\<forall>i < k. ls ! i \<noteq> 0 \<longrightarrow> inorder (code_place ls i) = Some (of_nat i))
    \<and> (\<forall>j < length clen. ls ! j \<noteq> 0 \<longrightarrow> tmp (ls ! j) = of_nat (shorter ls (ls ! j) + count_list (take k ls) (ls ! j)))"
  using assms(4,5)
proof (induction k arbitrary: inorder tmp)
  case 0
  then show ?case using assms(3) by simp
next
  case (Suc k)
  obtain inorder1 tmp1 where f: "fold (inorder_step clen) [0 ..< k] (Map.empty, tmp0) = (inorder1, tmp1)"
    by (metis surj_pair)
  have IH: "\<And>i. i < k \<Longrightarrow> ls ! i \<noteq> 0 \<Longrightarrow> inorder1 (code_place ls i) = Some (of_nat i)"
      "\<And>j. j < length clen \<Longrightarrow> ls ! j \<noteq> 0 \<Longrightarrow> tmp1 (ls ! j) = of_nat (shorter ls (ls ! j) + count_list (take k ls) (ls ! j))"
    using Suc.IH [OF _ f] Suc.prems(1) by auto
  have step: "(inorder, tmp) = inorder_step clen k (inorder1, tmp1)" using Suc.prems(2) f by simp
  have k: "k < length clen" "ls ! k = unat (clen ! k)" "k < length ls" using Suc.prems(1) by (simp_all add: ls_def)
  have cnt: "count_list (take (Suc k) ls) x = count_list (take k ls) x + (if ls ! k = x then 1 else 0)" for x
    using k(3) by (rule count_list_take_Suc)
  show ?case
  proof (cases "ls ! k = 0")
    case True
    then show ?thesis using step IH k by (auto simp: inorder_step_def cnt less_Suc_eq)
  next
    case False
    have "code_place ls k < length ls + 1"
      using code_place_bounds [OF k(3) False] shorter_le_length [of ls "Suc (ls ! k)"] by simp
    then have pos: "unat (tmp1 (ls ! k)) = code_place ls k"
      using IH(2) [OF k(1) False] assms(2) by (simp add: code_place_def code_rank_def unat_of_nat_small ls_def del: of_nat_add)
    have "inorder = inorder1(code_place ls k \<mapsto> of_nat k)" "tmp = tmp1(ls ! k := tmp1 (ls ! k) + 1)"
      using step False pos k(2) by (simp_all add: inorder_step_def Let_def)
    moreover have "code_place ls i \<noteq> code_place ls k" if "i < k" "ls ! i \<noteq> 0" for i
      using code_place_inj [OF that(1) k(3) that(2) False] .
    ultimately show ?thesis using IH IH(2) [OF k(1) False] k(1,3) by (auto simp: cnt less_Suc_eq)
  qed
qed

text \<open>A table that decodes the lengths \<open>ls\<close>.\<close>

definition table_for :: "nat list \<Rightarrow> djw_table \<Rightarrow> bool" where
  "table_for ls tb \<longleftrightarrow> min_max_ok ls (tb_min tb) (tb_max tb) \<and> 0 < tb_min tb \<and> 0 < len_count ls (tb_min tb)
    \<and> (\<forall>l. tb_min tb \<le> l \<and> l \<le> tb_max tb \<longrightarrow>
        tb_base tb l = Some (of_nat (first_code ls l) - of_nat (shorter ls l))
        \<and> tb_limit tb l = Some (of_nat (first_code ls l + len_count ls l) - 1))
    \<and> (\<forall>i < length ls. ls ! i \<noteq> 0 \<longrightarrow> tb_inorder tb (code_place ls i) = Some (of_nat i))"

lemma build_decoder_spec:
  assumes "\<forall>c \<in> set clen. unat c \<le> abs_max" "\<exists>c \<in> set clen. c \<noteq> 0" "length clen \<le> 256"
  obtains tb where "djw_build_decoder abs_max clen = Some tb" "table_for (lens clen) tb"
proof -
  define ls where "ls = lens clen"
  have nr: "count_clen clen i \<noteq> 0 \<longleftrightarrow> len_count ls i \<noteq> 0" if "1 \<le> i" for i
  proof -
    have "count_list ls i \<le> length ls" by (rule count_le_length)
    with assms(3) have "count_list ls i < 2 ^ LENGTH(32)" by (simp add: ls_def)
    then show ?thesis using that
      by (simp add: count_clen_spec len_count_def ls_def [symmetric] word_zero_iff_unat unat_of_nat_small)
  qed
  obtain c where c: "c \<in> set clen" "c \<noteq> 0" using assms(2) by blast
  then have "len_count ls (unat c) \<noteq> 0" "1 \<le> unat c" "unat c \<le> abs_max"
    using assms(1) by (auto simp: len_count_def count_list_0_iff ls_def Suc_le_eq unat_gt_0 unat_eq_0 simp del: neq0_conv)
  then have ex: "\<exists>i. 1 \<le> i \<and> i \<le> abs_max \<and> count_clen clen i \<noteq> 0" using nr by blast
  obtain a where a: "find (\<lambda>i. count_clen clen i \<noteq> 0) [1 ..< Suc abs_max] = Some a" "1 \<le> a" "a \<le> abs_max"
      "count_clen clen a \<noteq> 0" "\<And>i. 1 \<le> i \<Longrightarrow> i < a \<Longrightarrow> \<not> count_clen clen i \<noteq> 0"
    using find_min [OF ex] by metis
  obtain b where b: "find (\<lambda>i. count_clen clen i \<noteq> 0) (rev [1 ..< Suc abs_max]) = Some b" "1 \<le> b" "b \<le> abs_max"
      "count_clen clen b \<noteq> 0" "\<And>i. b < i \<Longrightarrow> i \<le> abs_max \<Longrightarrow> \<not> count_clen clen i \<noteq> 0"
    using find_max [OF ex] by metis
  have ab: "a \<le> b" using a(2,4) b(2,5) a(3) by (meson not_le)
  have mm: "min_max_ok ls a b"
  proof (unfold min_max_ok_def, intro ballI)
    fix l assume l: "l \<in> set ls"
    show "l = 0 \<or> a \<le> l \<and> l \<le> b"
    proof (cases "l = 0")
      case False
      then have "len_count ls l \<noteq> 0" "l \<le> abs_max" using l assms(1) by (auto simp: len_count_def count_list_0_iff ls_def)
      then show ?thesis using nr [of l] False a(5) [of l] b(5) [of l] by (metis One_nat_def Suc_leI neq0_conv not_le)
    qed simp
  qed
  have tmp_ok: "ls ! j \<noteq> 0 \<Longrightarrow> j < length clen \<Longrightarrow> a \<le> ls ! j \<and> ls ! j \<le> b" for j
    using mm unfolding min_max_ok_def ls_def by (metis length_map nth_mem)
  obtain tmp base limit where f: "fold (base_limit_step (count_clen clen)) [Suc a ..< Suc b]
      ((\<lambda>_. 0), (\<lambda>_. 0), (\<lambda>_. 0)(a := count_clen clen a - 1)) = (tmp, base, limit)" by (metis prod_cases3)
  have "Suc b = Suc a + (b - a)" using ab by simp
  note bl = base_limit_fold [of clen a b "b - a", folded ls_def, OF mm _ f [unfolded this], rule_format]
  obtain inorder tmp' where g: "fold (inorder_step clen) [0 ..< length clen] (Map.empty, tmp) = (inorder, tmp')" by (metis surj_pair)
  have io: "i < length clen \<Longrightarrow> ls ! i \<noteq> 0 \<Longrightarrow> inorder (code_place ls i) = Some (of_nat i)" for i
    using inorder_fold [of clen tmp "length clen", folded ls_def, OF assms(3) _ _ g] bl a(2) ab tmp_ok by auto
  define tb where "tb = \<lparr>tb_inorder = inorder, tb_base = (\<lambda>i. Some (base i)) |` {a .. b},
      tb_limit = (\<lambda>i. Some (limit i)) |` {a .. b}, tb_min = a, tb_max = b\<rparr>"
  have "djw_build_decoder abs_max clen = Some tb"
    using assms(1) a(1) b(1) f g by (auto simp: djw_build_decoder_def Let_def tb_def not_less simp del: upt_Suc)
  moreover have "table_for ls tb"
    using mm a(2,4) nr [of a] bl ab io by (auto simp: table_for_def tb_def ls_def)
  ultimately show ?thesis using that ls_def by simp
qed

section \<open>Decoding a symbol\<close>

text \<open>The bits of a code, as \<open>xd3_encode_bits\<close> sends them.\<close>

definition symbol_bits :: "nat list \<Rightarrow> nat \<Rightarrow> bool list" where
  "symbol_bits ls i = msb_bits (ls ! i) (of_nat (code_of ls i) :: u32)"

lemma bit_of_nat_u32: "k < 32 \<Longrightarrow> bit (of_nat n :: u32) k \<longleftrightarrow> odd (n div 2 ^ k)"
  using bit_iff_odd [of n k] by (simp add: bit_of_nat_iff)

lemma next_prefix:
  "k < 32 \<Longrightarrow> (if bit (of_nat n :: u32) k then push_bit 1 (of_nat (n div 2 ^ Suc k)) OR 1 else push_bit 1 (of_nat (n div 2 ^ Suc k)))
    = (of_nat (n div 2 ^ k) :: u32)"
proof -
  assume k: "k < 32"
  define m where "m = n div 2 ^ k"
  have "n div 2 ^ Suc k = m div 2" by (metis m_def div_mult2_eq power_Suc2)
  moreover have "push_bit 1 (of_nat (m div 2) :: u32) OR 1 = push_bit 1 (of_nat (m div 2)) + 1"
    by (rule disjunctive_add [symmetric]) (simp only: bit_push_bit_iff bit_1_iff, auto)
  moreover have "push_bit 1 (of_nat (m div 2) :: u32) = of_nat (2 * (m div 2))" by simp
  moreover have "(of_nat m :: u32) = of_nat (2 * (m div 2)) + (if odd m then 1 else 0)"
    by (subst (1) mult_div_mod_eq [of 2 m, symmetric], subst of_nat_add) (auto simp: odd_iff_mod_2_eq_one)
  ultimately show ?thesis using k by (simp add: bit_of_nat_u32 flip: m_def)
qed


lemma rbind_assoc: "rbind (rbind m f) g = rbind m (\<lambda>x. rbind (f x) g)"
  by (simp add: rbind_def fun_eq_iff split: prod.split sum.split)

lemma rbind_get_Some: "rbind (rget (Some x)) k = k x"
  by (simp add: rbind_def rget_def rreturn_def fun_eq_iff)

lemma decode_symbol_next:
  "decode_symbol_loop tb max_sym (Suc n) bits code = rbind next_bit (\<lambda>b.
      let code1 = (if b then push_bit 1 code OR 1 else push_bit 1 code) in
      if tb_min tb \<le> Suc bits
      then rbind (rget (tb_limit tb (Suc bits))) (\<lambda>limit.
        if code1 \<le> limit then symbol_found tb max_sym (Suc bits) code1
        else decode_symbol_loop tb max_sym n (Suc bits) code1)
      else decode_symbol_loop tb max_sym n (Suc bits) code1)"
  by (simp add: next_bit_def rbind_assoc)

lemma limit_word:
  assumes "0 < n" "n \<le> 2 ^ 20" "c < 2 ^ 20"
  shows "(of_nat c :: u32) \<le> of_nat n - 1 \<longleftrightarrow> c < n"
proof -
  have "(of_nat n - 1 :: u32) = of_nat (n - 1)" using assms(1) by (simp add: of_nat_diff)
  moreover have "unat (of_nat (n - 1) :: u32) = n - 1" "unat (of_nat c :: u32) = c"
    by (rule unat_of_nat_small; use assms in simp)+
  ultimately show ?thesis using assms(1) by (simp only: word_le_nat_alt) auto
qed

lemma symbol_found_reads:
  assumes tb: "table_for ls tb" and k: "kraft L ls" "L \<le> 20" and i: "i < length ls" "ls ! i \<noteq> 0"
    and len: "length ls \<le> 256" "length ls \<le> max_sym + 1"
  shows "reads (symbol_found tb max_sym (ls ! i) (of_nat (code_of ls i))) [] [] i"
proof -
  define base :: u32 where "base = of_nat (first_code ls (ls ! i)) - of_nat (shorter ls (ls ! i))"
  have base_nat: "base = of_nat (first_code ls (ls ! i) - shorter ls (ls ! i))"
    by (simp add: base_def of_nat_diff shorter_le_first)
  have "ls ! i \<le> L" using k(1) i by (simp add: kraft_def)
  then have "(2 :: nat) ^ (ls ! i) \<le> 2 ^ 20" using k(2) by (intro power_increasing) simp_all
  then have c20: "code_of ls i < 2 ^ 20" using code_of_less [OF k(1) i] by linarith
  have place: "code_place ls i < length ls"
    using code_place_bounds [OF i] shorter_le_length [of ls "Suc (ls ! i)"] by simp
  have "of_nat (code_of ls i) - base = (of_nat (code_place ls i) :: u32)"
    by (simp add: base_def code_of_def code_place_def)
  then have off: "unat (of_nat (code_of ls i) - base) = code_place ls i"
    using place len(1) by (simp add: unat_of_nat_small)
  have "unat (of_nat (code_of ls i) :: u32) = code_of ls i"
      "unat base = first_code ls (ls ! i) - shorter ls (ls ! i)"
    using c20 by (simp_all add: base_nat unat_of_nat_small code_of_def del: of_nat_add)
  then have "base \<le> of_nat (code_of ls i)" by (simp only: word_le_nat_alt) (simp add: code_of_def)
  moreover have "tb_base tb (ls ! i) = Some base" "tb_inorder tb (code_place ls i) = Some (of_nat i)"
    using tb i by (auto simp: table_for_def base_def min_max_ok_def dest: bspec [of _ _ "ls ! i"])
  moreover have "unat (of_nat i :: u8) = i" using i(1) len(1) by (simp add: unat_of_nat_small)
  ultimately show ?thesis
    using off place len(2) by (auto simp: symbol_found_def rget_def rbind_def rreturn_def reads_def)
qed

text \<open>One turn of the loop on a code: the next bit, then the symbol or the next turn.\<close>

lemma decode_symbol_turn:
  assumes tb: "table_for ls tb" and k: "kraft L ls" "L \<le> 20" and i: "i < length ls" "ls ! i \<noteq> 0" and d: "d < ls ! i"
    and rest: "reads (if d = 0 then symbol_found tb max_sym (ls ! i) (of_nat (code_of ls i))
        else decode_symbol_loop tb max_sym n (ls ! i - d) (of_nat (code_of ls i div 2 ^ d)) :: ('a, nat) reader) bs [] i"
  shows "reads (decode_symbol_loop tb max_sym (Suc n) (ls ! i - Suc d) (of_nat (code_of ls i div 2 ^ Suc d)) :: ('a, nat) reader)
    (bit (of_nat (code_of ls i) :: u32) d # bs) [] i"
proof -
  define c where "c = code_of ls i"
  have l: "ls ! i \<le> L" "tb_min tb \<le> ls ! i" "ls ! i \<le> tb_max tb"
    using k(1) tb i by (auto simp: kraft_def table_for_def min_max_ok_def dest: bspec [of _ _ "ls ! i"])
  have "(2 :: nat) ^ (ls ! i) \<le> 2 ^ 20" using l(1) k(2) by (intro power_increasing) simp_all
  then have c20: "c < 2 ^ 20" using code_of_less [OF k(1) i] by (simp add: c_def)
  have sd: "Suc (ls ! i - Suc d) = ls ! i - d" using d by simp
  have limit: "tb_min tb \<le> m \<Longrightarrow> m \<le> ls ! i \<Longrightarrow> tb_limit tb m = Some (of_nat (first_code ls m + len_count ls m) - 1)" for m
    using tb l(3) by (simp add: table_for_def)
  have some: "0 < first_code ls m + len_count ls m" if "tb_min tb \<le> m" for m
  proof (cases "m = tb_min tb")
    case False
    have "0 < len_count ls (tb_min tb)" using tb by (simp add: table_for_def)
    moreover have "(first_code ls (tb_min tb) + len_count ls (tb_min tb)) * 2 ^ (m - tb_min tb) \<le> first_code ls m"
      using first_code_step [of "tb_min tb" m ls] that False by simp
    moreover have "(0 :: nat) < 2 ^ (m - tb_min tb)" by simp
    ultimately show ?thesis by (metis add_gr_0 gr0I mult_is_0 not_le)
  qed (use tb in \<open>simp add: table_for_def\<close>)
  have bound: "first_code ls m + len_count ls m \<le> 2 ^ 20" if "m \<le> ls ! i" for m
  proof -
    have "(2 :: nat) ^ m \<le> 2 ^ 20" using that l(1) k(2) by (intro power_increasing) simp_all
    with kraft_fits [OF k(1), of m] that l(1) show ?thesis by simp
  qed
  have test: "(of_nat (c div 2 ^ d) :: u32) \<le> of_nat (first_code ls (ls ! i - d) + len_count ls (ls ! i - d)) - 1 \<longleftrightarrow> d = 0"
    if "tb_min tb \<le> ls ! i - d"
  proof -
    have "c div 2 ^ d < 2 ^ 20" using c20 div_le_dividend le_less_trans by blast
    then have "?thesis \<longleftrightarrow> (c div 2 ^ d < first_code ls (ls ! i - d) + len_count ls (ls ! i - d) \<longleftrightarrow> d = 0)"
      using limit_word [OF some [OF that] bound] by simp
    moreover have "first_code ls (ls ! i - d) + len_count ls (ls ! i - d) \<le> c div 2 ^ d" if "d \<noteq> 0"
    proof -
      have "(first_code ls (ls ! i - d) + len_count ls (ls ! i - d)) * 2 ^ d \<le> c"
        using first_code_step [of "ls ! i - d" "ls ! i" ls] d that by (simp add: c_def code_of_def)
      then show ?thesis by (simp add: less_eq_div_iff_mult_less_eq)
    qed
    moreover have "c < first_code ls (ls ! i) + len_count ls (ls ! i)"
      using code_rank_less [OF i] by (simp add: c_def code_of_def)
    ultimately show ?thesis by (cases "d = 0") (auto simp: not_less)
  qed
  have "(if bit (of_nat c :: u32) d then push_bit 1 (of_nat (c div 2 ^ Suc d)) OR 1 else push_bit 1 (of_nat (c div 2 ^ Suc d)))
      = (of_nat (c div 2 ^ d) :: u32)"
    using next_prefix [of d c] d l(1) k(2) by simp
  note code1 = this
  have "reads (if tb_min tb \<le> ls ! i - d
      then rbind (rget (tb_limit tb (ls ! i - d))) (\<lambda>limit.
        if (of_nat (c div 2 ^ d) :: u32) \<le> limit then symbol_found tb max_sym (ls ! i - d) (of_nat (c div 2 ^ d))
        else decode_symbol_loop tb max_sym n (ls ! i - d) (of_nat (c div 2 ^ d)))
      else decode_symbol_loop tb max_sym n (ls ! i - d) (of_nat (c div 2 ^ d)) :: ('a, nat) reader) bs [] i"
  proof (cases "tb_min tb \<le> ls ! i - d")
    case True
    with test limit [OF True] rest show ?thesis by (cases "d = 0") (simp_all add: rbind_get_Some c_def del: of_nat_add)
  next
    case False
    with rest l(2) show ?thesis by (cases "d = 0") (simp_all add: c_def)
  qed
  then have "reads (let code1 = (if bit (of_nat c :: u32) d then push_bit 1 (of_nat (c div 2 ^ Suc d)) OR 1
        else push_bit 1 (of_nat (c div 2 ^ Suc d))) in
      if tb_min tb \<le> Suc (ls ! i - Suc d)
      then rbind (rget (tb_limit tb (Suc (ls ! i - Suc d)))) (\<lambda>limit.
        if code1 \<le> limit then symbol_found tb max_sym (Suc (ls ! i - Suc d)) code1
        else decode_symbol_loop tb max_sym n (Suc (ls ! i - Suc d)) code1)
      else decode_symbol_loop tb max_sym n (Suc (ls ! i - Suc d)) code1 :: ('a, nat) reader) bs [] i"
    by (simp only: sd Let_def code1)
  from reads_bind0 [where k = "\<lambda>b. let code1 = (if b then push_bit 1 (of_nat (c div 2 ^ Suc d)) OR 1
        else push_bit 1 (of_nat (c div 2 ^ Suc d))) in
      if tb_min tb \<le> Suc (ls ! i - Suc d)
      then rbind (rget (tb_limit tb (Suc (ls ! i - Suc d)))) (\<lambda>limit.
        if code1 \<le> limit then symbol_found tb max_sym (Suc (ls ! i - Suc d)) code1
        else decode_symbol_loop tb max_sym n (Suc (ls ! i - Suc d)) code1)
      else decode_symbol_loop tb max_sym n (Suc (ls ! i - Suc d)) code1", OF reads_next_bit this]
  show ?thesis by (simp only: decode_symbol_next c_def append_Cons append_Nil)
qed

lemma decode_symbol_loop_reads:
  assumes tb: "table_for ls tb" and k: "kraft L ls" "L \<le> 20" and i: "i < length ls" "ls ! i \<noteq> 0"
    and len: "length ls \<le> 256" "length ls \<le> max_sym + 1"
    and d: "d < ls ! i" "n + (ls ! i - Suc d) = tb_max tb"
  shows "reads (decode_symbol_loop tb max_sym n (ls ! i - Suc d) (of_nat (code_of ls i div 2 ^ Suc d)))
    (msb_bits (Suc d) (of_nat (code_of ls i) :: u32)) [] i"
  using d
proof (induction d arbitrary: n)
  case (0 n)
  obtain n' where n: "n = Suc n'"
    using 0 tb i by (cases n) (auto simp: table_for_def min_max_ok_def dest: bspec [of _ _ "ls ! i"])
  show ?case
    using decode_symbol_turn [OF assms(1-5) 0(1), of max_sym n' "[]"] symbol_found_reads [OF assms(1-7)]
    by (simp add: n msb_bits_Suc)
next
  case (Suc d n)
  obtain n' where n: "n = Suc n'"
    using Suc.prems tb i by (cases n) (auto simp: table_for_def min_max_ok_def dest: bspec [of _ _ "ls ! i"])
  have "n' + (ls ! i - Suc d) = tb_max tb" "d < ls ! i" using Suc.prems n by auto
  from decode_symbol_turn [OF assms(1-5) Suc.prems(1), of max_sym n' "msb_bits (Suc d) (of_nat (code_of ls i) :: u32)"] Suc.IH [OF this(2,1)]
  show ?case by (simp add: n msb_bits_Suc [of "Suc d"])
qed

lemma decode_symbol_reads:
  assumes "table_for ls tb" "kraft L ls" "L \<le> 20" "i < length ls" "ls ! i \<noteq> 0" "length ls \<le> 256" "length ls \<le> max_sym + 1"
  shows "reads (djw_decode_symbol tb max_sym) (symbol_bits ls i) [] i"
proof -
  have "code_of ls i div 2 ^ (ls ! i) = 0" using code_of_less [OF assms(2,4,5)] by simp
  then show ?thesis
    using decode_symbol_loop_reads [OF assms, of "ls ! i - 1" "tb_max tb"] assms(5)
    by (simp add: djw_decode_symbol_def symbol_bits_def)
qed

end
