(* ===== verification/Xd3_Djw_Tree.thy ===== *)
theory Xd3_Djw_Tree
  imports Xd3_Djw_Heap Xd3_Djw_Codes
begin

text \<open>
  The prefix code that \<open>djw_build_prefix\<close> (xdelta3-djw.h) builds.  The C keeps the code tree as parent indices; here a
  forest of trees accompanies the loop.  Its leaves are the symbols, so the lengths satisfy Kraft's equation; the
  weight of a tree is at least a Fibonacci number of its height, so the lengths are bounded and the loop at the
  label \<open>again\<close> ends.
\<close>

section \<open>Trees\<close>

datatype htree = HLeaf nat | HNode htree htree

fun leaf_depths :: "htree \<Rightarrow> (nat \<times> nat) list" where
  "leaf_depths (HLeaf i) = [(i, 0)]"
| "leaf_depths (HNode l r) = map (\<lambda>(i, d). (i, Suc d)) (leaf_depths l @ leaf_depths r)"

fun hheight :: "htree \<Rightarrow> nat" where
  "hheight (HLeaf i) = 0"
| "hheight (HNode l r) = 1 + max (hheight l) (hheight r)"

definition leaves :: "htree \<Rightarrow> nat multiset" where
  "leaves t = mset (map fst (leaf_depths t))"

lemma leaves_simps [simp]: "leaves (HLeaf i) = {#i#}" "leaves (HNode l r) = leaves l + leaves r"
  by (simp_all add: leaves_def comp_def case_prod_unfold)

lemma depth_height: "(i, d) \<in> set (leaf_depths t) \<Longrightarrow> d \<le> hheight t"
  by (induction t arbitrary: i d) (fastforce simp: le_max_iff_disj)+

lemma kraft_tree:
  "\<forall>(i, d) \<in> set (leaf_depths t). d \<le> L \<Longrightarrow> sum_list (map (\<lambda>(i, d). 2 ^ (L - d)) (leaf_depths t)) = (2 :: nat) ^ L"
proof (induction t arbitrary: L)
  case (HNode l r)
  have "leaf_depths t \<noteq> []" for t by (induction t) auto
  then obtain i d where "(i, d) \<in> set (leaf_depths l)" by (metis last_in_set surj_pair)
  with HNode.prems obtain M where M: "L = Suc M" by (cases L) fastforce+
  have sub: "sum_list (map (\<lambda>(i, d). 2 ^ (L - d)) (map (\<lambda>(i, d). (i, Suc d)) xs)) = sum_list (map (\<lambda>(i, d). (2 :: nat) ^ (M - d)) xs)"
    for xs :: "(nat \<times> nat) list" by (induction xs) (auto simp: M)
  have "\<forall>(i, d) \<in> set (leaf_depths l). d \<le> M" "\<forall>(i, d) \<in> set (leaf_depths r). d \<le> M" using HNode.prems M by fastforce+
  with HNode.IH [of M] show ?case unfolding leaf_depths.simps sub by (simp add: M)
qed simp

fun fibo :: "nat \<Rightarrow> nat" where
  "fibo 0 = 0"
| "fibo (Suc 0) = 1"
| "fibo (Suc (Suc n)) = fibo (Suc n) + fibo n"

lemma fibo_mono: "m \<le> n \<Longrightarrow> fibo m \<le> fibo n"
proof (induction rule: dec_induct)
  case (step n)
  have "fibo n \<le> fibo (Suc n)" by (cases n rule: fibo.cases) simp_all
  with step show ?case by simp
qed simp

lemma fibo_values: "fibo 9 = 34" "fibo 17 = 1597" "fibo 22 = 17711"
proof -
  have s: "fibo (n + 2) = fibo (n + 1) + fibo n" for n by simp
  have "fibo 2 = 1" "fibo 3 = 2" by (simp_all add: numeral_eq_Suc)
  then have "fibo 4 = 3" "fibo 5 = 5" using s [of 2] s [of 3] by simp_all
  then have "fibo 6 = 8" "fibo 7 = 13" using s [of 4] s [of 5] by simp_all
  then have f: "fibo 8 = 21" "fibo 9 = 34" using s [of 6] s [of 7] by simp_all
  then have "fibo 10 = 55" "fibo 11 = 89" using s [of 8] s [of 9] by simp_all
  then have "fibo 12 = 144" "fibo 13 = 233" using s [of 10] s [of 11] by simp_all
  then have "fibo 14 = 377" "fibo 15 = 610" using s [of 12] s [of 13] by simp_all
  then have g: "fibo 16 = 987" "fibo 17 = 1597" using s [of 14] s [of 15] by simp_all
  then have "fibo 18 = 2584" "fibo 19 = 4181" using s [of 16] s [of 17] by simp_all
  then have "fibo 20 = 6765" "fibo 21 = 10946" using s [of 18] s [of 19] by simp_all
  then show "fibo 9 = 34" "fibo 17 = 1597" "fibo 22 = 17711" using s [of 20] f g by simp_all
qed

section \<open>Parents\<close>

primrec climbs :: "(nat \<Rightarrow> djw_heapen) \<Rightarrow> nat \<Rightarrow> nat \<Rightarrow> nat \<Rightarrow> bool" where
  "climbs ents 0 i r \<longleftrightarrow> i = r"
| "climbs ents (Suc d) i r \<longleftrightarrow>
    he_parent (ents i) \<noteq> 0 \<and> i < he_parent (ents i) \<and> he_parent (ents i) < 512 \<and> climbs ents d (he_parent (ents i)) r"

lemma climbs_count: "climbs ents d i r \<Longrightarrow> he_parent (ents r) = 0 \<Longrightarrow> count_parents ents i = Some d"
  by (induction d arbitrary: i) (subst count_parents.simps, simp add: Let_def)+

lemma climbs_upd: "climbs ents d i r \<Longrightarrow> he_parent (ents x) = 0 \<Longrightarrow> climbs (ents(x := e)) d i r"
  by (induction d arbitrary: i) auto

lemma climbs_snoc:
  "climbs ents d i r \<Longrightarrow> he_parent (ents r) = z \<Longrightarrow> r < z \<Longrightarrow> z < 512 \<Longrightarrow> climbs ents (Suc d) i z"
  by (induction d arbitrary: i) auto

section \<open>The forest of the loop\<close>

definition key_eq :: "djw_heapen \<Rightarrow> djw_heapen \<Rightarrow> bool" where
  "key_eq a b \<longleftrightarrow> he_freq a = he_freq b \<and> he_depth a = he_depth b"

lemma heap_prop_cong:
  assumes "heap_prop ents heap n" "\<And>x. x \<in># heap_elems heap n \<Longrightarrow> key_eq (ents' x) (ents x)"
  shows "heap_prop ents' heap n"
proof (unfold heap_prop_def, intro allI impI)
  fix i
  assume i: "2 \<le> i \<and> i \<le> n"
  then have "heap i \<in># heap_elems heap n" "heap (i div 2) \<in># heap_elems heap n"
    unfolding heap_elems_mem by (intro exI [of _ i], simp, intro exI [of _ "i div 2"], auto)
  with assms(2) [of "heap i"] assms(2) [of "heap (i div 2)"] assms(1) i show "ok_at ents' heap i"
    by (simp add: heap_prop_def ok_at_def heap_less_def key_eq_def)
qed

definition weight :: "(nat \<Rightarrow> djw_heapen) \<Rightarrow> nat \<Rightarrow> nat" where
  "weight ents r = unat (he_freq (ents r))"

definition forest ::
    "(nat \<Rightarrow> djw_heapen) \<Rightarrow> (nat \<Rightarrow> nat) \<Rightarrow> nat \<Rightarrow> nat \<Rightarrow> (nat \<Rightarrow> htree) \<Rightarrow> nat set \<Rightarrow> nat set \<Rightarrow> nat \<Rightarrow> bool" where
  "forest ents heap n sz T R S W \<longleftrightarrow> heap_prop ents heap n \<and> heap 0 = 0 \<and> he_freq (ents 0) = 0 \<and> he_depth (ents 0) = 0
    \<and> finite R \<and> heap_elems heap n = mset_set R
    \<and> (\<forall>r \<in> R. 1 \<le> r \<and> r < sz) \<and> (\<forall>j. j \<in> R \<or> sz \<le> j \<longrightarrow> he_parent (ents j) = 0)
    \<and> (\<forall>r \<in> R. \<forall>(i, d) \<in> set (leaf_depths (T r)). climbs ents d i r)
    \<and> (\<Sum>r \<in> R. leaves (T r)) = mset_set S
    \<and> (\<forall>r \<in> R. he_depth (ents r) = hheight (T r))
    \<and> (\<Sum>r \<in> R. weight ents r) = W \<and> W < 2 ^ 32
    \<and> (\<forall>r \<in> R. fibo (Suc (he_depth (ents r))) \<le> weight ents r)
    \<and> (\<forall>r \<in> R. \<forall>r' \<in> R. fibo (he_depth (ents r)) \<le> weight ents r')"

lemma parent_upd:
  "he_freq (x\<lparr>he_parent := p\<rparr>) = he_freq x" "he_depth (x\<lparr>he_parent := p\<rparr>) = he_depth x" "he_parent (x\<lparr>he_parent := p\<rparr>) = p"
  by simp_all

lemma forest_step:
  assumes f: "forest ents heap (Suc (Suc n)) sz T R S W" and sz: "sz < 512" "1 \<le> sz"
    and x1: "heap_extract heap ents (Suc n) = (h1, heap1)" and x2: "heap_extract heap1 ents n = (h2, heap2)"
  defines "node \<equiv> \<lparr>he_depth = 1 + max (he_depth (ents h1)) (he_depth (ents h2)),
      he_freq = he_freq (ents h1) + he_freq (ents h2), he_parent = 0\<rparr>"
  defines "ents1 \<equiv> ents(sz := node)"
  defines "ents2 \<equiv> ents1(h1 := (ents1 h1)\<lparr>he_parent := sz\<rparr>)"
  defines "ents3 \<equiv> ents2(h2 := (ents2 h2)\<lparr>he_parent := sz\<rparr>)"
  shows "forest ents3 (heap_insert heap2 ents3 (Suc n) sz) (Suc n) (Suc sz) (T(sz := HNode (T h1) (T h2)))
      (insert sz (R - {h1, h2})) S W"
    and "\<forall>j < sz. he_freq (ents3 j) = he_freq (ents j)"
proof -
  have hp: "heap_prop ents heap (Suc (Suc n))" and R: "finite R" "heap_elems heap (Suc (Suc n)) = mset_set R"
      "\<And>r. r \<in> R \<Longrightarrow> 1 \<le> r \<and> r < sz" "\<And>j. j \<in> R \<or> sz \<le> j \<Longrightarrow> he_parent (ents j) = 0"
    and f0: "heap 0 = 0" "he_freq (ents 0) = 0" "he_depth (ents 0) = 0"
    and f_climbs: "\<And>r i d. r \<in> R \<Longrightarrow> (i, d) \<in> set (leaf_depths (T r)) \<Longrightarrow> climbs ents d i r"
    and f_leaves: "(\<Sum>r \<in> R. leaves (T r)) = mset_set S" and f_depth: "\<And>r. r \<in> R \<Longrightarrow> he_depth (ents r) = hheight (T r)"
    and f_weight: "(\<Sum>r \<in> R. weight ents r) = W" "W < 2 ^ 32"
    and fib: "\<And>r. r \<in> R \<Longrightarrow> fibo (Suc (he_depth (ents r))) \<le> weight ents r"
      "\<And>r r'. r \<in> R \<Longrightarrow> r' \<in> R \<Longrightarrow> fibo (he_depth (ents r)) \<le> weight ents r'"
    using f unfolding forest_def by (blast, blast, blast, blast, blast, blast, blast, blast, blast, blast, blast, blast, blast, blast, blast)
  note e1 = heap_extract_spec [OF hp x1]
  note e2 = heap_extract_spec [OF e1(1) x2]
  have h1: "h1 \<in> R" using e1(2) R(1,2) by (metis elem_mset_set union_single_eq_member)
  have el1: "heap_elems heap1 (Suc n) = mset_set (R - {h1})"
    using e1(2) R(1,2) h1 by (simp add: mset_set.remove [of R h1])
  have h2: "h2 \<in> R - {h1}" using e2(2) el1 R(1) by (metis elem_mset_set finite_Diff union_single_eq_member)
  have el2: "heap_elems heap2 n = mset_set (R - {h1, h2})"
    using e2(2) el1 R(1) h2 by (simp add: mset_set.remove [of "R - {h1}" h2] Diff_insert [symmetric] insert_commute)
  have ne: "h1 \<noteq> h2" "h1 < sz" "h2 < sz" "1 \<le> h1" "1 \<le> h2" using R(3) h1 h2 by auto
  have e3: "ents3 sz = node" "ents3 h1 = (ents h1)\<lparr>he_parent := sz\<rparr>" "ents3 h2 = (ents h2)\<lparr>he_parent := sz\<rparr>"
    "\<And>j. j \<noteq> sz \<Longrightarrow> j \<noteq> h1 \<Longrightarrow> j \<noteq> h2 \<Longrightarrow> ents3 j = ents j"
    using ne by (auto simp: ents3_def ents2_def ents1_def)
  show freq: "\<forall>j < sz. he_freq (ents3 j) = he_freq (ents j)"
  proof (intro allI impI)
    fix j assume "j < sz"
    then consider "j = h1" | "j = h2" | "ents3 j = ents j" using e3(4) [of j] by blast
    then show "he_freq (ents3 j) = he_freq (ents j)"
      by cases (simp_all only: e3(2,3) parent_upd)
  qed
  define R' where "R' = R - {h1, h2}"
  define T' where "T' = T(sz := HNode (T h1) (T h2))"
  have R'_mem: "r \<in> R' \<longleftrightarrow> r \<in> R \<and> r \<noteq> h1 \<and> r \<noteq> h2" for r by (auto simp: R'_def)
  have R': "finite R'" "sz \<notin> R'" "\<And>r. r \<in> R' \<Longrightarrow> r \<in> R \<and> r < sz \<and> r \<noteq> h1 \<and> r \<noteq> h2 \<and> ents3 r = ents r \<and> T' r = T r"
  proof -
    show "finite R'" using R(1) by (simp add: R'_def)
    show "sz \<notin> R'" using R(3) [of sz] by (auto simp: R'_mem)
    show "r \<in> R \<and> r < sz \<and> r \<noteq> h1 \<and> r \<noteq> h2 \<and> ents3 r = ents r \<and> T' r = T r" if "r \<in> R'" for r
    proof -
      have r: "r \<in> R" "r \<noteq> h1" "r \<noteq> h2" "r < sz" using that R(3) [of r] R'_mem by blast+
      then have "ents3 r = ents r" "T' r = T r" using e3(4) [of r] by (simp_all add: T'_def)
      with r show ?thesis by blast
    qed
  qed
  have split: "sum g R = g h1 + (g h2 + sum g R')" for g :: "nat \<Rightarrow> 'c :: comm_monoid_add"
    using sum.remove [OF R(1) h1, of g] sum.remove [of "R - {h1}" h2 g] R(1) h2
    by (simp add: R'_def Diff_insert [symmetric] insert_commute)
  have split': "sum g (insert sz R') = g sz + sum g R'" for g :: "nat \<Rightarrow> 'c :: comm_monoid_add"
    using R'(1,2) by simp
  have zero: "heap2 0 = 0" "ents3 0 = ents 0" using e1(3) e2(3) f0 e3(4) [of 0] ne sz(2) by simp_all
  then have sentinel: "\<not> heap_less x (ents3 (heap2 0))" for x using f0 by (simp add: heap_less_sentinel)
  have "key_eq (ents3 x) (ents x)" if "x \<in># heap_elems heap2 n" for x
    using that R'(1) R'(3) [of x] by (simp add: el2 [folded R'_def] key_eq_def)
  then have "heap_prop ents3 heap2 n" by (rule heap_prop_cong [OF e2(1)])
  note ins = heap_insert_spec [OF this sentinel, of sz]
  have climbs3: "climbs ents3 d i r" if "climbs ents d i r" for d i r
  proof -
    have "climbs ents1 d i r" unfolding ents1_def by (rule climbs_upd [OF that]) (simp add: R(4))
    moreover have "he_parent (ents1 h1) = 0" using R(4) [of h1] h1 ne by (simp add: ents1_def)
    ultimately have "climbs ents2 d i r" unfolding ents2_def by (rule climbs_upd)
    moreover have "he_parent (ents2 h2) = 0" using R(4) [of h2] h2 ne by (simp add: ents2_def ents1_def)
    ultimately show ?thesis unfolding ents3_def by (rule climbs_upd)
  qed
  have old: "climbs ents3 d i r" if "r \<in> R" "(i, d) \<in> set (leaf_depths (T r))" for i d r
    using climbs3 [OF f_climbs [OF that]] .
  have up: "climbs ents3 (Suc d) i sz" if "climbs ents3 d i h" "h = h1 \<or> h = h2" for i d h
    using climbs_snoc [OF that(1)] that(2) e3(2,3) ne sz by auto
  have new: "climbs ents3 d i sz" if "(i, d) \<in> set (leaf_depths (T' sz))" for i d
  proof -
    from that obtain b h where b: "d = Suc b" "h = h1 \<or> h = h2" "(i, b) \<in> set (leaf_depths (T h))"
      by (auto simp: T'_def)
    with h1 h2 have "h \<in> R" by blast
    from up [OF old [OF this b(3)] b(2)] b(1) show ?thesis by (simp only:)
  qed
  have w: "weight ents h1 + weight ents h2 \<le> W" using f_weight(1) split [of "weight ents"] by linarith
  then have wz: "weight ents3 sz = weight ents h1 + weight ents h2"
    using f_weight(2) by (simp add: weight_def e3(1) node_def unat_add_u32)
  have w3: "weight ents3 r = weight ents r" if "r \<in> R'" for r using R'(3) [OF that] by (simp add: weight_def)
  have least1: "weight ents h1 \<le> weight ents r" if "r \<in> R" for r
    using e1(4) [of r] that R(1,2) by (auto simp: heap_less_def weight_def not_less word_le_nat_alt)
  have least2: "weight ents h2 \<le> weight ents r" if "r \<in> R'" for r
    using e2(4) [of r] that R(1) el1 by (auto simp: heap_less_def weight_def not_less word_le_nat_alt R'_def)
  have big: "fibo (Suc (he_depth node)) \<le> weight ents h1 + weight ents h2"
    "\<And>r. r \<in> R' \<Longrightarrow> fibo (he_depth node) \<le> weight ents r" "fibo (he_depth node) \<le> weight ents h1 + weight ents h2"
  proof -
    have h: "h1 \<in> R" "h2 \<in> R" using h1 h2 by auto
    have m: "max a b = a \<or> max a b = b" for a b :: nat by (auto simp: max_def)
    show "fibo (Suc (he_depth node)) \<le> weight ents h1 + weight ents h2"
      using m [of "he_depth (ents h1)" "he_depth (ents h2)"] fib(1) [OF h(1)] fib(1) [OF h(2)] fib(2) [OF h] fib(2) [OF h(2,1)]
      by (auto simp: node_def)
    show "fibo (he_depth node) \<le> weight ents r" if "r \<in> R'" for r
      using m [of "he_depth (ents h1)" "he_depth (ents h2)"] fib(1) [OF h(1)] fib(1) [OF h(2)] least1 [of r] least2 [OF that] R'(3) [OF that]
      by (auto simp: node_def)
    show "fibo (he_depth node) \<le> weight ents h1 + weight ents h2"
      using m [of "he_depth (ents h1)" "he_depth (ents h2)"] fib(1) [OF h(1)] fib(1) [OF h(2)]
      by (auto simp: node_def)
  qed
  have fz: "fibo (he_depth (ents r)) \<le> weight ents h1 + weight ents h2" if "r \<in> R" for r
    using fib(2) [OF that h1] by simp
  show "forest ents3 (heap_insert heap2 ents3 (Suc n) sz) (Suc n) (Suc sz) (T(sz := HNode (T h1) (T h2)))
      (insert sz (R - {h1, h2})) S W"
    unfolding R'_def [symmetric] T'_def [symmetric] forest_def
  proof (intro conjI)
    show "heap_elems (heap_insert heap2 ents3 (Suc n) sz) (Suc n) = mset_set (insert sz R')"
      using ins(2) el2 [folded R'_def] R'(1,2) by simp
    show "\<forall>j. j \<in> insert sz R' \<or> Suc sz \<le> j \<longrightarrow> he_parent (ents3 j) = 0"
    proof (intro allI impI)
      fix j
      assume j: "j \<in> insert sz R' \<or> Suc sz \<le> j"
      show "he_parent (ents3 j) = 0"
      proof (cases "j = sz")
        case True
        then show ?thesis by (simp add: e3(1) node_def)
      next
        case False
        then have "j \<noteq> h1" "j \<noteq> h2" "j \<in> R \<or> sz \<le> j" using j ne R'_mem [of j] by auto
        with False R(4) [of j] e3(4) [of j] show ?thesis by simp
      qed
    qed
    show "\<forall>r \<in> insert sz R'. \<forall>(i, d) \<in> set (leaf_depths (T' r)). climbs ents3 d i r"
      using new old R'(3) by fastforce
    show "(\<Sum>r \<in> insert sz R'. leaves (T' r)) = mset_set S"
    proof -
      have "(\<Sum>r \<in> R'. leaves (T' r)) = (\<Sum>r \<in> R'. leaves (T r))" using R'(3) by (intro sum.cong) auto
      moreover have "(\<Sum>r \<in> R. leaves (T r)) = mset_set S" by (rule f_leaves)
      ultimately show ?thesis by (simp only: split' split) (simp add: T'_def ac_simps)
    qed
    show "\<forall>r \<in> insert sz R'. he_depth (ents3 r) = hheight (T' r)"
    proof
      fix r
      assume "r \<in> insert sz R'"
      then consider "r = sz" | "r \<in> R'" by blast
      then show "he_depth (ents3 r) = hheight (T' r)"
      proof cases
        case 1
        then show ?thesis using f_depth [OF h1] f_depth [of h2] h2 by (simp add: e3(1) node_def T'_def)
      next
        case 2
        then show ?thesis using R'(3) [of r] f_depth [of r] by simp
      qed
    qed
    show "(\<Sum>r \<in> insert sz R'. weight ents3 r) = W"
    proof -
      have "(\<Sum>r \<in> R'. weight ents3 r) = (\<Sum>r \<in> R'. weight ents r)" using w3 by (intro sum.cong) auto
      moreover have "(\<Sum>r \<in> R. weight ents r) = W" by (rule f_weight)
      ultimately show ?thesis by (simp only: split' split wz add.assoc)
    qed
    show "\<forall>r \<in> insert sz R'. fibo (Suc (he_depth (ents3 r))) \<le> weight ents3 r"
    proof
      fix r
      assume "r \<in> insert sz R'"
      then consider "r = sz" | "r \<in> R'" by blast
      then show "fibo (Suc (he_depth (ents3 r))) \<le> weight ents3 r"
      proof cases
        case 1
        show ?thesis unfolding 1 e3(1) wz by (rule big(1))
      next
        case 2
        then show ?thesis using fib(1) [of r] R'(3) [of r] w3 [of r] by simp
      qed
    qed
    show "\<forall>r \<in> insert sz R'. \<forall>r' \<in> insert sz R'. fibo (he_depth (ents3 r)) \<le> weight ents3 r'"
    proof (intro ballI)
      fix r r'
      assume "r \<in> insert sz R'" "r' \<in> insert sz R'"
      then consider "r = sz" "r' = sz" | "r = sz" "r' \<in> R'" | "r \<in> R'" "r' = sz" | "r \<in> R'" "r' \<in> R'" by blast
      then show "fibo (he_depth (ents3 r)) \<le> weight ents3 r'"
        by cases (use big(2) [of r'] big(3) wz e3(1) fib(2) [of r r'] fz [of r] R'(3) [of r] R'(3) [of r'] w3 [of r'] in simp_all)
    qed
    show "\<forall>r \<in> insert sz R'. 1 \<le> r \<and> r < Suc sz" using R'(3) R(3) sz by (metis insert_iff lessI less_SucI)
  qed (use f0 f_weight(2) ins zero R'(1) in simp_all)
qed

section \<open>The lengths\<close>

text \<open>What the loop leaves behind: a tree over all symbols whose depths the parents tell.\<close>

definition tree_done :: "(nat \<Rightarrow> djw_heapen) \<Rightarrow> htree \<Rightarrow> nat set \<Rightarrow> nat \<Rightarrow> bool" where
  "tree_done ents t S W \<longleftrightarrow> (\<exists>r. he_parent (ents r) = 0 \<and> (\<forall>(i, d) \<in> set (leaf_depths t). climbs ents d i r))
    \<and> leaves t = mset_set S \<and> fibo (Suc (hheight t)) \<le> W"

lemma build_tree_done:
  assumes "forest ents heap n sz T R S W" "1 \<le> n" "1 \<le> sz" "sz + n \<le> 513" "n \<le> 256"
  shows "\<exists>ents' t. build_tree ents heap n sz = Some ents' \<and> tree_done ents' t S W
    \<and> (\<forall>j < sz. he_freq (ents' j) = he_freq (ents j))"
  using assms
proof (induction n arbitrary: ents heap sz T R)
  case (Suc n)
  show ?case
  proof (cases n)
    case 0
    have b: "build_tree ents heap (Suc n) sz = Some ents" by (subst build_tree.simps) (simp add: 0)
    have f: "finite R" "heap_elems heap 1 = mset_set R" "\<forall>j. j \<in> R \<or> sz \<le> j \<longrightarrow> he_parent (ents j) = 0"
        "\<forall>r \<in> R. \<forall>(i, d) \<in> set (leaf_depths (T r)). climbs ents d i r" "(\<Sum>r \<in> R. leaves (T r)) = mset_set S"
        "\<forall>r \<in> R. he_depth (ents r) = hheight (T r)" "(\<Sum>r \<in> R. weight ents r) = W"
        "\<forall>r \<in> R. fibo (Suc (he_depth (ents r))) \<le> weight ents r"
      using Suc.prems(1) 0 unfolding forest_def by auto
    have "mset_set R = {#heap 1#}" using f(2) by (simp add: heap_elems_def)
    then have "R = {heap 1}" using f(1) by (metis finite_set_mset_mset_set set_mset_single)
    with f have "tree_done ents (T (heap 1)) S W" unfolding tree_done_def by (intro conjI exI [of _ "heap 1"]) auto
    then show ?thesis unfolding b by blast
  next
    case (Suc m)
    obtain h1 heap1 where x1: "heap_extract heap ents (Suc m) = (h1, heap1)" by (metis surj_pair)
    obtain h2 heap2 where x2: "heap_extract heap1 ents m = (h2, heap2)" by (metis surj_pair)
    define node where "node = \<lparr>he_depth = 1 + max (he_depth (ents h1)) (he_depth (ents h2)),
      he_freq = he_freq (ents h1) + he_freq (ents h2), he_parent = 0\<rparr>"
    define ents1 where "ents1 = ents(sz := node)"
    define ents2 where "ents2 = ents1(h1 := (ents1 h1)\<lparr>he_parent := sz\<rparr>)"
    define ents3 where "ents3 = ents2(h2 := (ents2 h2)\<lparr>he_parent := sz\<rparr>)"
    have sz: "sz < 512" "1 \<le> sz" using Suc.prems Suc by auto
    have b: "build_tree ents heap (Suc n) sz = build_tree ents3 (heap_insert heap2 ents3 (Suc m) sz) (Suc m) (Suc sz)"
      by (subst build_tree.simps) (use sz Suc.prems(5) in \<open>simp add: Suc x1 x2 Let_def node_def ents1_def ents2_def ents3_def\<close>)
    note step = forest_step [OF Suc.prems(1) [unfolded Suc] sz x1 x2, folded node_def, folded ents1_def, folded ents2_def, folded ents3_def]
    have "1 \<le> n" "1 \<le> Suc sz" "Suc sz + n \<le> 513" "n \<le> 256" using Suc.prems Suc by auto
    from Suc.IH [OF _ this] step(1) obtain ents' t where
      t: "build_tree ents3 (heap_insert heap2 ents3 (Suc m) sz) (Suc m) (Suc sz) = Some ents'" "tree_done ents' t S W"
        "\<forall>j < Suc sz. he_freq (ents' j) = he_freq (ents3 j)"
      unfolding Suc by blast
    with step(2) show ?thesis unfolding b by (auto intro: less_SucI)
  qed
qed simp

text \<open>The initial heap.\<close>

definition symbols_of :: "u32 list \<Rightarrow> nat \<Rightarrow> nat set" where
  "symbols_of efreq k = {i. 1 \<le> i \<and> i < k \<and> efreq ! (i - 1) \<noteq> 0}"

lemma symbols_of_Suc:
  "1 \<le> k \<Longrightarrow> symbols_of efreq (Suc k) = (if efreq ! (k - 1) \<noteq> 0 then insert k (symbols_of efreq k) else symbols_of efreq k)"
  by (auto simp: symbols_of_def less_Suc_eq)

lemma symbols_of_finite [simp]: "finite (symbols_of efreq k)"
  by (simp add: symbols_of_def)

lemma prefix_ents_fields [simp]:
  "he_depth (prefix_ents efreq i) = 0" "he_parent (prefix_ents efreq i) = 0" "he_freq (prefix_ents efreq 0) = 0"
  by (simp_all add: prefix_ents_def)

lemma prefix_heap_upto:
  assumes "k \<le> length efreq" "fold (heap_add (prefix_ents efreq)) [1 ..< Suc k] (\<lambda>_. 0, 0) = (heap, n)"
  shows "heap_prop (prefix_ents efreq) heap n \<and> heap 0 = 0 \<and> heap_elems heap n = mset_set (symbols_of efreq (Suc k))
    \<and> n = card (symbols_of efreq (Suc k))"
  using assms
proof (induction k arbitrary: heap n)
  case 0
  have "symbols_of efreq (Suc 0) = {}" by (auto simp: symbols_of_def)
  with 0 show ?case by (auto simp: heap_prop_def)
next
  case (Suc k)
  obtain heap0 n0 where f: "fold (heap_add (prefix_ents efreq)) [1 ..< Suc k] (\<lambda>_. 0, 0) = (heap0, n0)" by (metis surj_pair)
  have IH: "heap_prop (prefix_ents efreq) heap0 n0" "heap0 0 = 0" "heap_elems heap0 n0 = mset_set (symbols_of efreq (Suc k))"
      "n0 = card (symbols_of efreq (Suc k))"
    using Suc.IH [OF _ f] Suc.prems(1) by auto
  have fr: "he_freq (prefix_ents efreq (Suc k)) = efreq ! k" using Suc.prems(1) by (simp add: prefix_ents_def)
  have "[1 ..< Suc (Suc k)] = [1 ..< Suc k] @ [Suc k]" by simp
  then have step: "(heap, n) = heap_add (prefix_ents efreq) (Suc k) (heap0, n0)"
    using Suc.prems(2) by (simp only: fold_append fold_simps o_apply f)
  have sentinel: "\<not> heap_less x (prefix_ents efreq (heap0 0))" for x by (simp add: IH(2) heap_less_sentinel)
  have new: "Suc k \<notin> symbols_of efreq (Suc k)" by (simp add: symbols_of_def)
  show ?case
  proof (cases "efreq ! k = 0")
    case True
    with step IH symbols_of_Suc [of "Suc k" efreq] show ?thesis by (simp add: heap_add_def fr)
  next
    case False
    with step have hn: "heap = heap_insert heap0 (prefix_ents efreq) (Suc n0) (Suc k)" "n = Suc n0" by (simp_all add: heap_add_def fr)
    have s: "symbols_of efreq (Suc (Suc k)) = insert (Suc k) (symbols_of efreq (Suc k))"
      using False symbols_of_Suc [of "Suc k" efreq] by simp
    show ?thesis using heap_insert_spec [OF IH(1) sentinel, of "Suc k"] IH new by (simp add: hn s)
  qed
qed

definition total :: "u32 list \<Rightarrow> nat" where
  "total efreq = sum_list (map unat efreq)"

lemma sum_symbols:
  "(\<Sum>i \<in> symbols_of efreq (Suc (length efreq)). g i) = (\<Sum>i < length efreq. if efreq ! i \<noteq> 0 then g (Suc i) else 0)"
  for g :: "nat \<Rightarrow> 'b :: comm_monoid_add"
proof -
  have img: "symbols_of efreq (Suc (length efreq)) = Suc ` {i. i < length efreq \<and> efreq ! i \<noteq> 0}"
  proof (intro set_eqI iffI)
    fix x
    assume "x \<in> symbols_of efreq (Suc (length efreq))"
    then show "x \<in> Suc ` {i. i < length efreq \<and> efreq ! i \<noteq> 0}"
      by (intro image_eqI [of _ _ "x - 1"]) (auto simp: symbols_of_def)
  qed (auto simp: symbols_of_def)
  have "(\<Sum>i \<in> symbols_of efreq (Suc (length efreq)). g i) = (\<Sum>i \<in> {i. i < length efreq \<and> efreq ! i \<noteq> 0}. g (Suc i))"
    unfolding img by (subst sum.reindex) simp_all
  also have "\<dots> = (\<Sum>i < length efreq. if efreq ! i \<noteq> 0 then g (Suc i) else 0)"
    by (intro sum.mono_neutral_cong_left) auto
  finally show ?thesis .
qed

lemma total_sum: "total efreq = (\<Sum>i < length efreq. unat (efreq ! i))"
  by (simp add: total_def sum_list_sum_nth atLeast0LessThan)

lemma initial_forest:
  assumes "prefix_heap efreq = (heap, n)" "total efreq < 2 ^ 32"
  shows "forest (prefix_ents efreq) heap n (Suc (length efreq)) HLeaf (symbols_of efreq (Suc (length efreq)))
    (symbols_of efreq (Suc (length efreq))) (total efreq)" "n = card (symbols_of efreq (Suc (length efreq)))"
proof -
  define S where "S = symbols_of efreq (Suc (length efreq))"
  have h: "heap_prop (prefix_ents efreq) heap n" "heap 0 = 0" "heap_elems heap n = mset_set S" "n = card S"
    using prefix_heap_upto [of "length efreq" efreq heap n] assms(1) by (auto simp: prefix_heap_def S_def)
  have fr: "he_freq (prefix_ents efreq r) = efreq ! (r - 1)" "efreq ! (r - 1) \<noteq> 0" "1 \<le> r" "r < Suc (length efreq)" if "r \<in> S" for r
    using that by (auto simp: S_def symbols_of_def prefix_ents_def)
  have "(\<Sum>r \<in> X. {#r#}) = mset_set X" if "finite X" for X :: "nat set" using that by induction auto
  then have leaves: "(\<Sum>r \<in> S. leaves (HLeaf r)) = mset_set S" by (simp add: S_def)
  have w: "weight (prefix_ents efreq) r = unat (efreq ! (r - 1))" if "r \<in> S" for r using fr [OF that] by (simp add: weight_def)
  have "(\<Sum>r \<in> S. weight (prefix_ents efreq) r) = (\<Sum>r \<in> S. unat (efreq ! (r - 1)))" using w by (intro sum.cong) auto
  also have "\<dots> = total efreq" unfolding S_def sum_symbols total_sum by (intro sum.cong) auto
  finally have sum: "(\<Sum>r \<in> S. weight (prefix_ents efreq) r) = total efreq" .
  have pos: "1 \<le> weight (prefix_ents efreq) r" if "r \<in> S" for r
    using w [OF that] fr(2) [OF that] by (metis One_nat_def Suc_leI neq0_conv unat_eq_0)
  show "forest (prefix_ents efreq) heap n (Suc (length efreq)) HLeaf (symbols_of efreq (Suc (length efreq)))
    (symbols_of efreq (Suc (length efreq))) (total efreq)"
    unfolding S_def [symmetric] forest_def
    by (intro conjI h leaves sum assms(2)) (use fr pos in \<open>auto simp: S_def\<close>)
  show "n = card (symbols_of efreq (Suc (length efreq)))" using h(4) by (simp add: S_def)
qed

lemma leaf_depths_distinct:
  assumes "leaves t = mset_set S"
  shows "distinct (map fst (leaf_depths t))"
  unfolding distinct_count_atmost_1
proof
  fix x
  have c: "count (mset (map fst (leaf_depths t))) x = count (mset_set S) x" using assms by (simp add: leaves_def)
  have "count (mset_set S) x \<le> 1" by (simp add: count_mset_set')
  then show "count (mset (map fst (leaf_depths t))) x = (if x \<in> set (map fst (leaf_depths t)) then 1 else 0)"
    unfolding c [symmetric] by (metis One_nat_def count_mset_0_iff le_antisym neq0_conv Suc_leI)
qed

lemma sum_filter_nonzero:
  "sum_list (map g (filter (\<lambda>l. l \<noteq> 0) bs)) = (\<Sum>i < length bs. if bs ! i \<noteq> 0 then g (bs ! i) else (0 :: nat))"
  for bs :: "nat list"
  by (induction bs rule: rev_induct) (auto simp: nth_append intro!: sum.cong)

lemma prefix_lengths_spec:
  assumes n: "length efreq \<le> 256" and W: "total efreq < 2 ^ 32" and two: "2 \<le> snd (prefix_heap efreq)"
  shows "\<exists>bs. prefix_lengths efreq = Some bs \<and> length bs = length efreq
    \<and> (\<forall>i < length efreq. bs ! i = 0 \<longleftrightarrow> efreq ! i = 0)
    \<and> (\<forall>b \<in> set bs. fibo (Suc b) \<le> total efreq \<or> b = 0)
    \<and> (\<forall>L. (\<forall>b \<in> set bs. b \<le> L) \<longrightarrow> sum_list (map (\<lambda>l. 2 ^ (L - l)) (filter (\<lambda>l. l \<noteq> 0) bs)) = (2 :: nat) ^ L)"
proof -
  define S where "S = symbols_of efreq (Suc (length efreq))"
  obtain heap m where hm: "prefix_heap efreq = (heap, m)" by (metis surj_pair)
  note ini = initial_forest [OF hm W, folded S_def]
  have m: "2 \<le> m" "m \<le> length efreq"
  proof -
    show "2 \<le> m" using two hm by simp
    have "S \<subseteq> {1 ..< Suc (length efreq)}" by (auto simp: S_def symbols_of_def)
    from card_mono [OF _ this] show "m \<le> length efreq" using ini(2) by simp
  qed
  have "1 \<le> m" "1 \<le> Suc (length efreq)" "Suc (length efreq) + m \<le> 513" "m \<le> 256" using m n by auto
  from build_tree_done [OF ini(1) this] obtain ents t where
    ents: "build_tree (prefix_ents efreq) heap m (Suc (length efreq)) = Some ents"
    and t: "tree_done ents t S (total efreq)" and fr: "\<forall>j < Suc (length efreq). he_freq (ents j) = he_freq (prefix_ents efreq j)"
    by blast
  obtain r where r: "he_parent (ents r) = 0" "\<And>i d. (i, d) \<in> set (leaf_depths t) \<Longrightarrow> climbs ents d i r"
    and lv: "leaves t = mset_set S" and fib: "fibo (Suc (hheight t)) \<le> total efreq"
    using t unfolding tree_done_def by blast
  have dist: "distinct (map fst (leaf_depths t))" using lv by (rule leaf_depths_distinct)
  have dom: "fst ` set (leaf_depths t) = S"
    using lv by (metis S_def finite_set_mset_mset_set leaves_def list.set_map set_mset_mset symbols_of_finite)
  define D where "D i = the (map_of (leaf_depths t) i)" for i
  have D: "(i, d) \<in> set (leaf_depths t) \<longleftrightarrow> i \<in> S \<and> d = D i" for i d
  proof
    assume "(i, d) \<in> set (leaf_depths t)"
    then show "i \<in> S \<and> d = D i" using dist dom map_of_is_SomeI [OF dist] by (force simp: D_def)
  next
    assume i: "i \<in> S \<and> d = D i"
    then obtain d' where "(i, d') \<in> set (leaf_depths t)" using dom by auto
    with i show "(i, d) \<in> set (leaf_depths t)" using map_of_is_SomeI [OF dist] by (simp add: D_def)
  qed
  have node: "0 < D i" if "i \<in> S" for i
  proof (cases t)
    case (HLeaf j)
    then have "S = {j}" using dom by simp
    then show ?thesis using ini(2) m by simp
  next
    case (HNode t1 t2)
    have "(i, D i) \<in> set (leaf_depths t)" using D that by simp
    then show ?thesis unfolding HNode by auto
  qed
  define bs where "bs = map (\<lambda>i. if efreq ! i \<noteq> 0 then D (Suc i) else 0) [0 ..< length efreq]"
  have S: "Suc i \<in> S \<longleftrightarrow> i < length efreq \<and> efreq ! i \<noteq> 0" for i by (auto simp: S_def symbols_of_def)
  have "prefix_length ents i = Some (if efreq ! i \<noteq> 0 then D (Suc i) else 0)" if i: "i < length efreq" for i
  proof -
    have f: "he_freq (ents (Suc i)) = efreq ! i" using fr i by (simp add: prefix_ents_def)
    show ?thesis
    proof (cases "efreq ! i = 0")
      case False
      then have "climbs ents (D (Suc i)) (Suc i) r" using r(2) D S i by simp
      from climbs_count [OF this r(1)] False f show ?thesis by (simp add: prefix_length_def)
    qed (simp add: prefix_length_def f)
  qed
  then have "map (prefix_length ents) [0 ..< length efreq] = map Some bs" by (simp add: bs_def)
  moreover have "those (map Some xs) = Some xs" for xs :: "nat list" by (induction xs) auto
  ultimately have pl: "prefix_lengths efreq = Some bs" using n m by (simp add: prefix_lengths_def hm ents)
  have zero: "bs ! i = 0 \<longleftrightarrow> efreq ! i = 0" if "i < length efreq" for i
    using node [of "Suc i"] S [of i] that by (simp add: bs_def)
  have b_le: "b \<le> hheight t" if "b \<in> set bs" for b
    using that depth_height [of _ "b" t] D S by (auto simp: bs_def)
  have fibs: "fibo (Suc b) \<le> total efreq" if "b \<in> set bs" for b
    using fibo_mono [of "Suc b" "Suc (hheight t)"] b_le [OF that] fib by simp
  have kraft: "sum_list (map (\<lambda>l. 2 ^ (L - l)) (filter (\<lambda>l. l \<noteq> 0) bs)) = (2 :: nat) ^ L" if L: "\<forall>b \<in> set bs. b \<le> L" for L
  proof -
    have dl: "\<forall>(i, d) \<in> set (leaf_depths t). d \<le> L"
    proof (intro ballI, clarify)
      fix i d
      assume "(i, d) \<in> set (leaf_depths t)"
      then have i: "i \<in> S" "d = D i" using D by auto
      then have "1 \<le> i" "i - 1 < length efreq" "efreq ! (i - 1) \<noteq> 0" by (auto simp: S_def symbols_of_def)
      then have "D i \<in> set bs" by (force simp: bs_def image_iff intro!: bexI [of _ "i - 1"])
      then show "d \<le> L" using L i by simp
    qed
    have "sum_list (map (\<lambda>l. 2 ^ (L - l)) (filter (\<lambda>l. l \<noteq> 0) bs)) = (\<Sum>i < length efreq. if bs ! i \<noteq> 0 then 2 ^ (L - bs ! i) else (0 :: nat))"
      unfolding sum_filter_nonzero by (simp add: bs_def)
    also have "\<dots> = (\<Sum>i < length efreq. if efreq ! i \<noteq> 0 then 2 ^ (L - D (Suc i)) else 0)"
      using zero by (intro sum.cong) (auto simp: bs_def)
    also have "\<dots> = (\<Sum>i \<in> S. 2 ^ (L - D i))" unfolding S_def sum_symbols by simp
    also have "\<dots> = sum_mset (image_mset (\<lambda>i. 2 ^ (L - D i)) (leaves t))" unfolding lv by (rule sum_unfold_sum_mset)
    also have "\<dots> = sum_list (map (\<lambda>i. 2 ^ (L - D i)) (map fst (leaf_depths t)))"
      unfolding leaves_def mset_map [symmetric] sum_mset_sum_list ..
    also have "\<dots> = sum_list (map (\<lambda>(i, d). 2 ^ (L - d)) (leaf_depths t))"
      unfolding map_map by (intro arg_cong [of _ _ sum_list] map_cong) (use D in auto)
    also have "\<dots> = 2 ^ L" by (rule kraft_tree [OF dl])
    finally show ?thesis .
  qed
  show ?thesis
    by (intro exI [of _ bs] conjI) (use pl zero fibs kraft in \<open>simp_all add: bs_def\<close>)
qed

section \<open>The label again\<close>

definition code_lengths :: "u32 list \<Rightarrow> nat \<Rightarrow> u32 list \<Rightarrow> (u8 list \<times> u32) option \<Rightarrow> bool" where
  "code_lengths freq maxlen efreq r \<longleftrightarrow>
    (\<exists>clen. r = Some (clen, prefix_bits freq (lens clen)) \<and> length clen = length efreq \<and> kraft maxlen (lens clen)
      \<and> (\<forall>i < length efreq. clen ! i = 0 \<longleftrightarrow> efreq ! i = 0))"

lemma build_prefix_pass:
  assumes "length efreq \<le> 256" "total efreq < 2 ^ 32" "2 \<le> snd (prefix_heap efreq)" "maxlen \<le> 20"
  shows "code_lengths freq maxlen efreq (build_prefix_again freq maxlen efreq)
    \<or> (fibo (maxlen + 2) \<le> total efreq
      \<and> build_prefix_again freq maxlen efreq = build_prefix_again freq maxlen (map (\<lambda>f. f div 2 + 1) efreq))"
proof -
  obtain bs where bs: "prefix_lengths efreq = Some bs" "length bs = length efreq" "\<forall>i < length efreq. bs ! i = 0 \<longleftrightarrow> efreq ! i = 0"
      "\<forall>b \<in> set bs. fibo (Suc b) \<le> total efreq \<or> b = 0"
    and k: "\<forall>L. (\<forall>b \<in> set bs. b \<le> L) \<longrightarrow> sum_list (map (\<lambda>l. 2 ^ (L - l)) (filter (\<lambda>l. l \<noteq> 0) bs)) = (2 :: nat) ^ L"
    using prefix_lengths_spec [OF assms(1,2,3)] by blast
  have u: "build_prefix_again freq maxlen efreq =
    (if \<exists>b \<in> set bs. maxlen < b then build_prefix_again freq maxlen (map (\<lambda>f. f div 2 + 1) efreq)
     else Some (map of_nat bs, prefix_bits freq bs))"
    using assms(3) by (subst build_prefix_again.simps) (simp add: bs(1))
  show ?thesis
  proof (cases "\<exists>b \<in> set bs. maxlen < b")
    case True
    then obtain b where b: "b \<in> set bs" "maxlen < b" by blast
    with bs(4) have "fibo (Suc b) \<le> total efreq" by fastforce
    with fibo_mono [of "maxlen + 2" "Suc b"] b(2) have "fibo (maxlen + 2) \<le> total efreq" by simp
    with u True show ?thesis by simp
  next
    case False
    then have le: "\<forall>b \<in> set bs. b \<le> maxlen" by auto
    have id: "lens (map of_nat bs) = bs"
      unfolding map_map by (rule map_idI) (use le assms(4) in \<open>fastforce simp: unat_of_nat take_bit_nat_eq_self\<close>)
    have "kraft maxlen bs" using k le by (simp add: kraft_def)
    moreover have "map of_nat bs ! i = (0 :: u8) \<longleftrightarrow> efreq ! i = 0" if "i < length efreq" for i
    proof -
      have "map of_nat bs ! i = (0 :: u8) \<longleftrightarrow> lens (map of_nat bs) ! i = 0" using that bs(2) by (simp add: unat_eq_0)
      then show ?thesis unfolding id using bs(3) that by simp
    qed
    ultimately have "code_lengths freq maxlen efreq (Some (map of_nat bs, prefix_bits freq bs))"
      unfolding code_lengths_def by (intro exI [of _ "map of_nat bs"]) (simp only: id, simp add: bs(2))
    with u False show ?thesis by simp
  qed
qed

text \<open>Halving: every frequency becomes positive, and the sum shrinks as long as one frequency is 3 or more.\<close>

lemma unat_half: "unat (f div 2 + 1 :: u32) = unat f div 2 + 1"
proof -
  have "unat (f div 2) = unat f div 2" by (simp add: unat_div)
  moreover have "unat f < 4294967296" by (rule unat_u32_less)
  ultimately show ?thesis by (subst unat_add_u32) auto
qed

lemma half_nonzero: "f div 2 + 1 \<noteq> (0 :: u32)"
  using unat_half [of f] by (metis add_is_0 one_neq_zero unat_0)

lemma half_total: "total (map (\<lambda>f. f div 2 + 1) fs) \<le> total fs + length fs"
  by (induction fs) (simp_all add: total_def unat_half)

lemma half_less:
  assumes "\<forall>f \<in> set fs. f \<noteq> 0"
  shows "total (map (\<lambda>f. f div 2 + 1) fs) \<le> total fs \<and> (2 * length fs < total fs \<longrightarrow> total (map (\<lambda>f. f div 2 + 1) fs) < total fs)"
  using assms
proof (induction fs)
  case (Cons f fs)
  have "1 \<le> unat f" using Cons.prems by (simp add: Suc_le_eq unat_gt_0)
  with Cons show ?case by (auto simp: total_def unat_half)
qed (simp add: total_def)

lemma heap_symbols: "total efreq < 2 ^ 32 \<Longrightarrow> snd (prefix_heap efreq) = card {i. i < length efreq \<and> efreq ! i \<noteq> 0}"
proof -
  assume W: "total efreq < 2 ^ 32"
  have "snd (prefix_heap efreq) = card (symbols_of efreq (Suc (length efreq)))"
    using initial_forest(2) [OF surjective_pairing W] .
  also have "\<dots> = (\<Sum>i \<in> symbols_of efreq (Suc (length efreq)). 1)" by simp
  also have "\<dots> = (\<Sum>i \<in> {i. i < length efreq \<and> efreq ! i \<noteq> 0}. 1)"
    unfolding sum_symbols by (intro sum.mono_neutral_cong_right) auto
  finally show ?thesis by simp
qed

lemma build_prefix_positive:
  assumes "2 \<le> length efreq" "length efreq \<le> 256" "\<forall>f \<in> set efreq. f \<noteq> 0" "total efreq < 2 ^ 32" "maxlen \<le> 20"
    "2 * length efreq < fibo (maxlen + 2)"
  shows "code_lengths freq maxlen (replicate (length efreq) 1) (build_prefix_again freq maxlen efreq)"
  using assms
proof (induction "total efreq" arbitrary: efreq rule: less_induct)
  case less
  have all: "{i. i < length efreq \<and> efreq ! i \<noteq> 0} = {..< length efreq}" using less.prems(3) by auto
  have two: "2 \<le> snd (prefix_heap efreq)" unfolding heap_symbols [OF less.prems(4)] all using less.prems(1) by simp
  from build_prefix_pass [OF less.prems(2,4) two less.prems(5), of freq] show ?case
  proof
    assume "code_lengths freq maxlen efreq (build_prefix_again freq maxlen efreq)"
    then show ?thesis using less.prems(3) by (auto simp: code_lengths_def)
  next
    assume o: "fibo (maxlen + 2) \<le> total efreq
      \<and> build_prefix_again freq maxlen efreq = build_prefix_again freq maxlen (map (\<lambda>f. f div 2 + 1) efreq)"
    then have small: "total (map (\<lambda>f. f div 2 + 1) efreq) < total efreq"
      using half_less [OF less.prems(3)] less.prems(6) by simp
    have "\<forall>f \<in> set (map (\<lambda>f. f div 2 + 1) efreq). f \<noteq> 0" using half_nonzero by auto
    from less.hyps [OF small _ _ this] less.prems small o show ?thesis by simp
  qed
qed

text \<open>The symbols that get a code: those with a frequency, and a second one if there is only one.\<close>

definition coded :: "u32 list \<Rightarrow> u32 list" where
  "coded freq = (if length (filter (\<lambda>f. f \<noteq> 0) freq) = 1 then freq[(if freq ! 0 \<noteq> 0 then length freq - 1 else 0) := 1] else freq)"

lemma coded_length [simp]: "length (coded freq) = length freq"
  by (simp add: coded_def)

lemma symbols_card: "card {i. i < length freq \<and> freq ! i \<noteq> 0} = length (filter (\<lambda>f. f \<noteq> 0) freq)"
  by (simp add: length_filter_conv_card)

lemma coded_other:
  assumes "2 \<le> length freq" "length (filter (\<lambda>f. f \<noteq> 0) freq) = 1"
  shows "freq ! (if freq ! 0 \<noteq> 0 then length freq - 1 else 0) = 0"
proof (rule ccontr)
  define s where "s = (if freq ! 0 \<noteq> 0 then length freq - 1 else 0)"
  assume "freq ! s \<noteq> 0"
  then have "0 \<noteq> s" "freq ! 0 \<noteq> 0" "s < length freq" using assms(1) by (auto simp: s_def split: if_splits)
  with \<open>freq ! s \<noteq> 0\<close> have "{0, s} \<subseteq> {i. i < length freq \<and> freq ! i \<noteq> 0}" using assms(1) by auto
  from card_mono [OF _ this] have "2 \<le> card {i. i < length freq \<and> freq ! i \<noteq> 0}" using \<open>0 \<noteq> s\<close> by simp
  then show False unfolding symbols_card using assms(2) by simp
qed

lemma coded_keeps: "2 \<le> length freq \<Longrightarrow> freq ! i \<noteq> 0 \<Longrightarrow> coded freq ! i \<noteq> 0"
  using coded_other [of freq] by (cases "i = 0") (auto simp: coded_def nth_list_update)

lemma total_update: "s < length freq \<Longrightarrow> freq ! s = 0 \<Longrightarrow> total (freq[s := 1]) = Suc (total freq)"
proof (induction freq arbitrary: s)
  case (Cons f freq)
  then show ?case by (cases s) (simp_all add: total_def)
qed simp

lemma coded_total: "2 \<le> length freq \<Longrightarrow> total (coded freq) \<le> Suc (total freq)"
  using coded_other [of freq] total_update [of "length freq - 1" freq] total_update [of 0 freq]
  by (cases freq) (auto simp: coded_def)

lemma coded_heap:
  assumes "2 \<le> length freq" "\<exists>f \<in> set freq. f \<noteq> 0"
  shows "2 \<le> card {i. i < length (coded freq) \<and> coded freq ! i \<noteq> 0}"
proof (cases "length (filter (\<lambda>f. f \<noteq> 0) freq) = 1")
  case True
  define s where "s = (if freq ! 0 \<noteq> 0 then length freq - 1 else 0)"
  have c: "coded freq = freq[s := 1]" using True by (simp add: coded_def s_def)
  have z: "freq ! s = 0" "s < length freq" using coded_other [OF assms(1) True] assms(1) by (auto simp: s_def)
  have "{i. i < length (coded freq) \<and> coded freq ! i \<noteq> 0} = insert s {i. i < length freq \<and> freq ! i \<noteq> 0}"
    using z by (auto simp: c nth_list_update)
  then have "card {i. i < length (coded freq) \<and> coded freq ! i \<noteq> 0} = Suc (length (filter (\<lambda>f. f \<noteq> 0) freq))"
    using z(1) by (simp add: symbols_card)
  with True show ?thesis by simp
next
  case False
  have "filter (\<lambda>f. f \<noteq> 0) freq \<noteq> []" using assms(2) by (auto simp: filter_empty_conv)
  then have "2 \<le> length (filter (\<lambda>f. f \<noteq> 0) freq)" using False by (cases "filter (\<lambda>f. f \<noteq> 0) freq") (auto simp: Suc_le_eq)
  then show ?thesis using False by (simp add: coded_def symbols_card)
qed

lemma build_prefix_coded:
  assumes "2 \<le> length freq" "total freq < 2 ^ 31" "\<exists>f \<in> set freq. f \<noteq> 0"
  shows "djw_build_prefix freq maxlen = build_prefix_again freq maxlen (coded freq)"
proof (cases "length (filter (\<lambda>f. f \<noteq> 0) freq) = 1")
  case True
  then have "snd (prefix_heap freq) = 1" using heap_symbols [of freq] symbols_card [of freq] assms(2) by simp
  then show ?thesis unfolding djw_build_prefix_def
    by (subst build_prefix_again.simps) (simp add: coded_def True)
qed (simp add: djw_build_prefix_def coded_def)

lemma build_prefix_result:
  assumes n: "2 \<le> length freq" "length freq \<le> 256" and some: "\<exists>f \<in> set freq. f \<noteq> 0" and W: "total freq < 2 ^ 31"
    and L: "maxlen \<le> 20" "2 * length freq < fibo (maxlen + 2)"
  shows "code_lengths freq maxlen (coded freq) (djw_build_prefix freq maxlen)
    \<or> (fibo (maxlen + 2) \<le> Suc (total freq)
      \<and> code_lengths freq maxlen (replicate (length freq) 1) (djw_build_prefix freq maxlen))"
proof -
  have t: "total (coded freq) \<le> Suc (total freq)" using n(1) by (rule coded_total)
  then have W': "total (coded freq) < 2 ^ 32" using W by simp
  have two: "2 \<le> snd (prefix_heap (coded freq))" unfolding heap_symbols [OF W'] by (rule coded_heap [OF n(1) some])
  have len: "length (coded freq) \<le> 256" using n(2) by simp
  from build_prefix_pass [OF len W' two L(1), of freq] show ?thesis
  proof
    assume "code_lengths freq maxlen (coded freq) (build_prefix_again freq maxlen (coded freq))"
    then show ?thesis unfolding build_prefix_coded [OF n(1) W some] by simp
  next
    assume o: "fibo (maxlen + 2) \<le> total (coded freq)
      \<and> build_prefix_again freq maxlen (coded freq) = build_prefix_again freq maxlen (map (\<lambda>f. f div 2 + 1) (coded freq))"
    have "\<forall>f \<in> set (map (\<lambda>f. f div 2 + 1) (coded freq)). f \<noteq> 0" using half_nonzero by auto
    moreover have "total (map (\<lambda>f. f div 2 + 1) (coded freq)) < 2 ^ 32" using half_total [of "coded freq"] t W n(2) by simp
    ultimately have "code_lengths freq maxlen (replicate (length freq) 1)
        (build_prefix_again freq maxlen (map (\<lambda>f. f div 2 + 1) (coded freq)))"
      using build_prefix_positive [of "map (\<lambda>f. f div 2 + 1) (coded freq)" maxlen freq] n L by simp
    then show ?thesis using o t unfolding build_prefix_coded [OF n(1) W some] by simp
  qed
qed

lemma build_prefix_complete:
  assumes "2 \<le> length freq" "length freq \<le> 256" "\<exists>f \<in> set freq. f \<noteq> 0" "total freq < 2 ^ 31"
    "maxlen \<le> 20" "2 * length freq < fibo (maxlen + 2)"
  shows "\<exists>clen. djw_build_prefix freq maxlen = Some (clen, prefix_bits freq (lens clen)) \<and> length clen = length freq
    \<and> kraft maxlen (lens clen) \<and> (\<forall>i < length freq. freq ! i \<noteq> 0 \<longrightarrow> clen ! i \<noteq> 0)"
  using build_prefix_result [OF assms] coded_keeps [OF assms(1)] unfolding code_lengths_def by auto

lemma build_prefix_exact:
  assumes "2 \<le> length freq" "length freq \<le> 256" "\<exists>f \<in> set freq. f \<noteq> 0" "total freq < 2 ^ 31"
    "maxlen \<le> 20" "2 * length freq < fibo (maxlen + 2)" "Suc (total freq) < fibo (maxlen + 2)"
  shows "code_lengths freq maxlen (coded freq) (djw_build_prefix freq maxlen)"
  using build_prefix_result [OF assms(1-6)] assms(7) by simp

section \<open>The property\<close>

text \<open>C13. \<open>djw_build_prefix\<close> ends, also when code lengths overflow and it starts again with halved frequencies.  The lengths
  it returns are at most \<open>maxlen\<close> and satisfy Kraft's inequality, so that they are the lengths of a prefix code; every
  symbol with a frequency has a code; and the result is the number of bits of the symbols coded with them.  The bound
  on the alphabet says that it is small enough for \<open>maxlen\<close>: 256 symbols for 20 bits, 22 for 15, 9 for 7.\<close>

theorem build_prefix_correct:
  assumes "2 \<le> length freq" "length freq \<le> 256" "\<exists>f \<in> set freq. f \<noteq> 0" "total freq < 2 ^ 31"
    "maxlen \<le> 20" "2 * length freq < fibo (maxlen + 2)"
  shows "\<exists>clen. djw_build_prefix freq maxlen = Some (clen, prefix_bits freq (lens clen)) \<and> length clen = length freq
    \<and> kraft maxlen (lens clen) \<and> (\<forall>i < length freq. freq ! i \<noteq> 0 \<longrightarrow> clen ! i \<noteq> 0)"
  using build_prefix_result [OF assms] coded_keeps [OF assms(1)] unfolding code_lengths_def by auto

theorem build_prefix_correct_witness:
  "\<exists>clen. djw_build_prefix [5, 0, 7] 7 = Some (clen, prefix_bits [5, 0, 7] (lens clen)) \<and> length clen = 3
    \<and> kraft 7 (lens clen) \<and> (\<forall>i < 3. [5, 0, 7 :: u32] ! i \<noteq> 0 \<longrightarrow> clen ! i \<noteq> 0)"
  using build_prefix_correct [of "[5, 0, 7]" 7] fibo_values(1) by (simp add: total_def numeral_3_eq_3)

end
