(* ===== verification/Xd3_Djw_Mtf.thy ===== *)
theory Xd3_Djw_Mtf
  imports Xd3_Djw_Codes
begin

text \<open>
  Move to front with the 1-2 code for runs: the symbols \<open>djw_compute_mtf_1_2\<close> produces (\<open>mtf_code\<close>) are turned back
  into the values by \<open>djw_decode_1_2\<close>.  The decoder may fill in values by itself (\<open>skip_offset\<close>); the encoder then codes
  the others only (\<open>kept\<close>).
\<close>

section \<open>What the encoder produces\<close>

text \<open>A run is a number in base 2 with the digits 1 and 2, lowest first; \<open>RUN_0\<close> and \<open>RUN_1\<close> stand for them.\<close>

fun run_digits :: "nat \<Rightarrow> nat list" where
  "run_digits 0 = []"
| "run_digits (Suc r) = (if odd r then 1 else 0) # run_digits (r div 2)"

definition move_to_front :: "nat \<Rightarrow> u8 list \<Rightarrow> u8 list" where
  "move_to_front j mtf = (mtf_shift j mtf)[0 := mtf ! j]"

fun mtf_code :: "u8 list \<Rightarrow> u8 list \<Rightarrow> nat \<Rightarrow> nat list" where
  "mtf_code [] mtf r = run_digits r"
| "mtf_code (x # xs) mtf r =
    (case mtf_index mtf x of
       None \<Rightarrow> []
     | Some j \<Rightarrow> if j = 0 then mtf_code xs mtf (Suc r) else run_digits r @ Suc j # mtf_code xs (move_to_front j mtf) 0)"

lemma update_1_2_digits: "0 < r \<Longrightarrow> fst (djw_update_1_2 r mtfsym freq) = mtfsym @ run_digits r"
proof (induction r mtfsym freq rule: djw_update_1_2.induct)
  case (1 r mtfsym freq)
  obtain r' where r: "r = Suc r'" using 1(2) by (cases r) auto
  show ?case
    using 1(1) [OF refl refl refl refl refl]
    by (subst djw_update_1_2.simps) (auto simp: r Let_def)
qed

lemma end_run_digits: "fst (end_run r mtfsym freq) = mtfsym @ run_digits r"
  by (simp add: end_run_def update_1_2_digits)

lemma mtf_index_nth: "mtf_index mtf x = Some j \<Longrightarrow> j < length mtf \<and> mtf ! j = x"
  by (induction mtf arbitrary: j) (auto split: if_splits)

lemma mtf_index_head: "mtf_index mtf x = Some 0 \<Longrightarrow> \<exists>tl. mtf = x # tl"
  by (cases mtf) (auto split: if_splits)

lemma compute_mtf_code:
  "compute_mtf_loop syms mtf r mtfsym freq = Some (out, freq') \<Longrightarrow> out = mtfsym @ mtf_code syms mtf r"
proof (induction syms arbitrary: mtf r mtfsym freq)
  case Nil
  then show ?case using end_run_digits [of r mtfsym freq] by (metis compute_mtf_loop.simps(1) fst_conv mtf_code.simps(1) option.inject)
next
  case (Cons x xs)
  obtain j where j: "mtf_index mtf x = Some j" using Cons.prems by (cases "mtf_index mtf x") auto
  show ?case
  proof (cases "j = 0")
    case True
    with j obtain tl where "mtf = x # tl" using mtf_index_head by blast
    with Cons.prems j True show ?thesis by (auto dest: Cons.IH)
  next
    case False
    obtain m1 f1 where e: "end_run r mtfsym freq = (m1, f1)" by (cases "end_run r mtfsym freq")
    then have "m1 = mtfsym @ run_digits r" using end_run_digits [of r mtfsym freq] by simp
    with Cons.prems j False e mtf_index_nth [OF j] show ?thesis
      by (auto simp: Let_def move_to_front_def dest: Cons.IH)
  qed
qed

lemma mtf_shift_length [simp]: "length (mtf_shift j mtf) = length mtf"
  by (induction j arbitrary: mtf) simp_all

lemma mtf_shift_append: "j < length mtf \<Longrightarrow> mtf_shift j (mtf @ e) = mtf_shift j mtf @ e"
  by (induction j arbitrary: mtf) (simp_all add: list_update_append nth_append)

lemma move_append: "j < length mtf \<Longrightarrow> move_to_front j (mtf @ e) = move_to_front j mtf @ e"
  using length_greater_0_conv [of mtf] by (auto simp: move_to_front_def mtf_shift_append list_update_append nth_append)

lemma update_mtf_eq: "j < length mtf \<Longrightarrow> djw_update_mtf mtf j = Some (mtf ! j, move_to_front j mtf)"
  by (simp add: djw_update_mtf_def move_to_front_def)

lemma run_digits_01: "d \<in> set (run_digits r) \<Longrightarrow> d \<le> 1"
  by (induction r rule: run_digits.induct) (auto split: if_splits)

section \<open>The decoder's turns\<close>

text \<open>The places the decoder fills by itself, and the values at the others from place \<open>n\<close> on.\<close>

definition skips :: "nat \<Rightarrow> u8 list \<Rightarrow> nat \<Rightarrow> bool" where
  "skips skip full n \<longleftrightarrow> skip \<noteq> 0 \<and> skip \<le> n \<and> full ! (n - skip) = 0"

definition kept :: "nat \<Rightarrow> u8 list \<Rightarrow> nat \<Rightarrow> u8 list" where
  "kept skip full n = map (\<lambda>j. full ! j) (filter (\<lambda>j. \<not> skips skip full j) [n ..< length full])"

definition skip_ok :: "nat \<Rightarrow> u8 list \<Rightarrow> bool" where
  "skip_ok skip full \<longleftrightarrow> (\<forall>n < length full. skips skip full n \<longrightarrow> full ! n = 0)"

lemma kept_end: "length full \<le> n \<Longrightarrow> kept skip full n = []"
  by (simp add: kept_def)

lemma kept_step:
  "n < length full \<Longrightarrow> kept skip full n = (if skips skip full n then kept skip full (Suc n) else full ! n # kept skip full (Suc n))"
  by (simp add: kept_def upt_conv_Cons)

lemma skips_take:
  assumes "n \<le> length full"
  shows "skip \<noteq> 0 \<and> skip \<le> length (take n full) \<and> take n full ! (length (take n full) - skip) = 0 \<longleftrightarrow> skips skip full n"
proof (cases "skip \<noteq> 0 \<and> skip \<le> n")
  case True
  then have "n - skip < n" by simp
  with True assms show ?thesis by (auto simp: skips_def)
qed (use assms in \<open>auto simp: skips_def\<close>)

lemma loop_end:
  "decode_1_2_loop tb (length full) skip full 0 mtf s mv = rreturn full"
  by (rule ext, subst decode_1_2_loop.simps) (simp add: rreturn_def)

lemma loop_unfold:
  assumes n: "n < length full"
  shows "decode_1_2_loop tb (length full) skip (take n full) rep mtf s mv st =
    (if skips skip full n then decode_1_2_loop tb (length full) skip (take n full @ [0]) rep mtf s mv st
     else if rep \<noteq> 0 then
       (case mv of
          [] \<Rightarrow> rub st
        | v # _ \<Rightarrow> decode_1_2_loop tb (length full) skip (take n full @ [v]) (rep - 1) mtf s mv st)
     else if mtf \<noteq> 0 then
       (case djw_update_mtf mv mtf of
          None \<Rightarrow> rub st
        | Some (sy, mv1) \<Rightarrow> decode_1_2_loop tb (length full) skip (take n full @ [sy]) rep 0 s mv1 st)
     else
       (case djw_decode_symbol tb DJW_TOTAL_CODES st of
          (Inl r, st1) \<Rightarrow> (Inl r, st1)
        | (Inr m, st1) \<Rightarrow>
           if m \<le> RUN_1 then
             (if 32 \<le> s then rub st1
              else decode_1_2_loop tb (length full) skip (take n full) (push_bit s (of_nat m + 1)) 0 (Suc s) mv st1)
           else decode_1_2_loop tb (length full) skip (take n full) rep (m - 1) 0 mv st1))"
proof -
  have len: "(length full \<le> length (take n full)) = False" using n by simp
  show ?thesis
    by (subst decode_1_2_loop.simps) (simp only: len if_False skips_take [OF less_imp_le [OF n]])
qed

lemma loop_skip:
  assumes "n < length full" "skips skip full n" "skip_ok skip full"
  shows "decode_1_2_loop tb (length full) skip (take n full) rep mtf s mv
    = decode_1_2_loop tb (length full) skip (take (Suc n) full) rep mtf s mv"
proof (rule ext)
  have "full ! n = 0" using assms by (simp add: skip_ok_def)
  then show "decode_1_2_loop tb (length full) skip (take n full) rep mtf s mv st
    = decode_1_2_loop tb (length full) skip (take (Suc n) full) rep mtf s mv st" for st
    using assms(1,2) by (simp add: loop_unfold [OF assms(1)] take_Suc_conv_app_nth)
qed

lemma loop_rep:
  assumes "n < length full" "\<not> skips skip full n" "rep \<noteq> 0" "full ! n = v"
  shows "decode_1_2_loop tb (length full) skip (take n full) rep mtf s (v # mv)
    = decode_1_2_loop tb (length full) skip (take (Suc n) full) (rep - 1) mtf s (v # mv)"
  using assms by (intro ext) (simp add: loop_unfold [OF assms(1)] take_Suc_conv_app_nth)

lemma loop_mtf:
  assumes "n < length full" "\<not> skips skip full n" "0 < j" "j < length mv" "full ! n = mv ! j"
  shows "decode_1_2_loop tb (length full) skip (take n full) 0 j s mv
    = decode_1_2_loop tb (length full) skip (take (Suc n) full) 0 0 s (move_to_front j mv)"
  using assms by (intro ext) (simp add: loop_unfold [OF assms(1)] take_Suc_conv_app_nth update_mtf_eq)

lemma loop_symbol:
  assumes "n < length full" "\<not> skips skip full n"
  shows "decode_1_2_loop tb (length full) skip (take n full) 0 0 s mv
    = rbind (djw_decode_symbol tb DJW_TOTAL_CODES) (\<lambda>m.
        if m \<le> RUN_1 then (if 32 \<le> s then rub
          else decode_1_2_loop tb (length full) skip (take n full) (push_bit s (of_nat m + 1)) 0 (Suc s) mv)
        else decode_1_2_loop tb (length full) skip (take n full) 0 (m - 1) 0 mv)"
  using assms by (intro ext) (simp add: loop_unfold [OF assms(1)] rbind_def split: prod.split sum.split)

section \<open>The round trip\<close>

text \<open>While values are pending, the places filled by itself pass by.\<close>

abbreviation at_place ::
    "djw_table \<Rightarrow> nat \<Rightarrow> u8 list \<Rightarrow> nat \<Rightarrow> u32 \<Rightarrow> nat \<Rightarrow> nat \<Rightarrow> u8 list \<Rightarrow> ('a, u8 list) reader" where
  "at_place tb skip full n \<equiv> decode_1_2_loop tb (length full) skip (take n full)"

lemma loop_to_kept:
  assumes "skip_ok skip full" "kept skip full n = v # ks"
  shows "\<exists>n'. n' < length full \<and> \<not> skips skip full n' \<and> full ! n' = v \<and> kept skip full (Suc n') = ks
    \<and> (at_place tb skip full n :: u32 \<Rightarrow> nat \<Rightarrow> nat \<Rightarrow> u8 list \<Rightarrow> ('a, u8 list) reader) = at_place tb skip full n'"
  using assms(2)
proof (induction "length full - n" arbitrary: n)
  case 0
  then show ?case by (simp add: kept_end)
next
  case (Suc m)
  have n: "n < length full" using Suc.hyps(2) by simp
  show ?case
  proof (cases "skips skip full n")
    case True
    have next_kept: "kept skip full (Suc n) = v # ks" using Suc.prems n True by (simp add: kept_step)
    have "m = length full - Suc n" using Suc.hyps(2) by simp
    from Suc.hyps(1) [OF this next_kept]
    have "\<exists>n'. n' < length full \<and> \<not> skips skip full n' \<and> full ! n' = v \<and> kept skip full (Suc n') = ks
      \<and> (at_place tb skip full (Suc n) :: u32 \<Rightarrow> nat \<Rightarrow> nat \<Rightarrow> u8 list \<Rightarrow> ('a, u8 list) reader) = at_place tb skip full n'" .
    moreover have "(at_place tb skip full n :: u32 \<Rightarrow> nat \<Rightarrow> nat \<Rightarrow> u8 list \<Rightarrow> ('a, u8 list) reader) = at_place tb skip full (Suc n)"
      by (intro ext) (simp only: loop_skip [OF n True assms(1)])
    ultimately show ?thesis by simp
  next
    case False
    with Suc.prems n show ?thesis by (auto simp: kept_step)
  qed
qed

lemma loop_rest_skipped:
  assumes "skip_ok skip full" "kept skip full n = []" "n \<le> length full"
  shows "(at_place tb skip full n 0 mtf s mv :: ('a, u8 list) reader) = rreturn full"
  using assms(2,3)
proof (induction "length full - n" arbitrary: n)
  case 0
  then have "take n full = full" by simp
  then show ?case by (simp only: loop_end)
next
  case (Suc m)
  have n: "n < length full" using Suc.hyps(2) by simp
  with Suc.prems have sk: "skips skip full n" "kept skip full (Suc n) = []" by (simp_all add: kept_step split: if_splits)
  have "m = length full - Suc n" using Suc.hyps(2) by simp
  from Suc.hyps(1) [OF this sk(2)] n show ?case by (simp add: loop_skip [OF n sk(1) assms(1)])
qed

lemma loop_put_rep:
  assumes "skip_ok skip full" "kept skip full n = replicate k v @ ks" "k < 2 ^ 32" "n \<le> length full"
  shows "\<exists>n'. n' \<le> length full \<and> kept skip full n' = ks
    \<and> (at_place tb skip full n (of_nat k) mtf s (v # mv) :: ('a, u8 list) reader) = at_place tb skip full n' 0 mtf s (v # mv)"
  using assms(2-4)
proof (induction k arbitrary: n)
  case 0
  then show ?case by auto
next
  case (Suc k)
  from Suc.prems(1) have "kept skip full n = v # (replicate k v @ ks)" by simp
  from loop_to_kept [OF assms(1) this] obtain n1 where
    n1: "n1 < length full" "\<not> skips skip full n1" "full ! n1 = v" "kept skip full (Suc n1) = replicate k v @ ks"
      "(at_place tb skip full n :: u32 \<Rightarrow> nat \<Rightarrow> nat \<Rightarrow> u8 list \<Rightarrow> ('a, u8 list) reader) = at_place tb skip full n1" by blast
  have "(of_nat (Suc k) :: u32) \<noteq> 0"
    using Suc.prems(2) by (simp add: word_zero_iff_unat unat_of_nat_small del: of_nat_Suc)
  then have step: "(at_place tb skip full n1 (of_nat (Suc k)) mtf s (v # mv) :: ('a, u8 list) reader)
      = at_place tb skip full (Suc n1) (of_nat k) mtf s (v # mv)"
    using loop_rep [OF n1(1,2) _ n1(3), of "of_nat (Suc k)"] by simp
  have "k < 2 ^ 32" "Suc n1 \<le> length full" using Suc.prems(2) n1(1) by simp_all
  from Suc.IH [OF n1(4) this] show ?case unfolding n1(5) step .
qed

text \<open>The run of \<open>r * 2 ^ s\<close> values that the digits of \<open>r\<close> denote from the shift \<open>s\<close> on.\<close>

lemma reads_run:
  assumes ok: "skip_ok skip full" "length full < 2 ^ 32"
    and sym: "\<And>m. m \<le> 1 \<Longrightarrow> m \<in> set (run_digits r) \<Longrightarrow> reads (djw_decode_symbol tb DJW_TOTAL_CODES :: ('a, nat) reader) (enc m) [] m"
    and k: "kept skip full n = replicate (r * 2 ^ s) v @ ks" "n \<le> length full"
    and rest: "\<And>n' s'. n' \<le> length full \<Longrightarrow> kept skip full n' = ks \<Longrightarrow>
      reads (at_place tb skip full n' 0 0 s' (v # mv) :: ('a, u8 list) reader) bs [] full"
  shows "reads (at_place tb skip full n 0 0 s (v # mv) :: ('a, u8 list) reader) (concat (map enc (run_digits r)) @ bs) [] full"
  using sym k
proof (induction r arbitrary: n s rule: run_digits.induct)
  case 1
  then show ?case using rest by simp
next
  case (2 r)
  define d :: nat where "d = (if odd r then 1 else 0)"
  have r: "Suc r = Suc d + 2 * (r div 2)" by (auto simp: d_def)
  have num: "Suc r * 2 ^ s = Suc d * 2 ^ s + r div 2 * 2 ^ Suc s" by (subst r) (simp add: add_mult_distrib)
  have len: "length (kept skip full n) \<le> length full - n" by (simp add: kept_def le_trans [OF length_filter_le])
  have big: "Suc r * 2 ^ s < 2 ^ 32" using len 2(3) ok(2) by simp
  moreover have "2 ^ s \<le> Suc r * 2 ^ s" by simp
  ultimately have "(2 :: nat) ^ s < 2 ^ 32" by linarith
  then have s: "s < 32" by (simp only: power_strict_increasing_iff one_less_numeral_iff rel_simps)
  have "0 < Suc r * 2 ^ s" by simp
  then obtain ks1 where ks1: "kept skip full n = v # ks1" using 2(3) by (cases "Suc r * 2 ^ s") auto
  from loop_to_kept [OF ok(1) ks1] obtain n1 where
    n1: "n1 < length full" "\<not> skips skip full n1" "full ! n1 = v" "kept skip full (Suc n1) = ks1"
      "(at_place tb skip full n :: u32 \<Rightarrow> nat \<Rightarrow> nat \<Rightarrow> u8 list \<Rightarrow> ('a, u8 list) reader) = at_place tb skip full n1" by blast
  have "kept skip full n1 = v # ks1" using n1(1-4) by (simp add: kept_step)
  then have "kept skip full n1 = replicate (Suc d * 2 ^ s) v @ (replicate (r div 2 * 2 ^ Suc s) v @ ks)"
    using ks1 2(3) by (simp only: num replicate_add append_assoc)
  from loop_put_rep [OF ok(1) this, of tb 0 "Suc s" mv] big num n1(1) obtain n2 where
    n2: "n2 \<le> length full" "kept skip full n2 = replicate (r div 2 * 2 ^ Suc s) v @ ks"
      "(at_place tb skip full n1 (of_nat (Suc d * 2 ^ s)) 0 (Suc s) (v # mv) :: ('a, u8 list) reader)
        = at_place tb skip full n2 0 0 (Suc s) (v # mv)" by auto
  have "reads (at_place tb skip full n2 0 0 (Suc s) (v # mv) :: ('a, u8 list) reader) (concat (map enc (run_digits (r div 2))) @ bs) [] full"
    using 2(1) [OF 2(2) n2(2,1)] by simp
  moreover have word: "push_bit s (of_nat d + 1) = (of_nat (Suc d * 2 ^ s) :: u32)" by (simp add: push_bit_eq_mult algebra_simps)
  moreover have d1: "d \<le> RUN_1" "\<not> 32 \<le> s" using s by (simp_all add: d_def)
  ultimately have "reads (if d \<le> RUN_1 then (if 32 \<le> s then rub
          else at_place tb skip full n1 (push_bit s (of_nat d + 1)) 0 (Suc s) (v # mv))
        else at_place tb skip full n1 0 (d - 1) 0 (v # mv) :: ('a, u8 list) reader) (concat (map enc (run_digits (r div 2))) @ bs) [] full"
    using n2(3) by simp
  from reads_bind0 [where k = "\<lambda>m. if m \<le> RUN_1 then (if 32 \<le> s then rub
          else at_place tb skip full n1 (push_bit s (of_nat m + 1)) 0 (Suc s) (v # mv))
        else at_place tb skip full n1 0 (m - 1) 0 (v # mv)", OF _ this, of "djw_decode_symbol tb DJW_TOTAL_CODES" "enc d"]
    2(2) [of d]
  show ?case unfolding n1(5) loop_symbol [OF n1(1,2)] by (simp add: d_def)
qed

lemma move_to_front_props:
  assumes "j < length mtf"
  shows "set (move_to_front j mtf) = set mtf" "move_to_front j mtf \<noteq> []"
proof -
  have shift: "k < length xs \<Longrightarrow> mtf_shift k xs = xs ! 0 # take k xs @ drop (Suc k) xs" for k and xs :: "u8 list"
  proof (induction k arbitrary: xs)
    case 0
    then show ?case by (cases xs) simp_all
  next
    case (Suc k)
    have "k < length (xs[Suc k := xs ! k])" using Suc.prems by simp
    from Suc.IH [OF this] Suc.prems show ?case
      by (simp add: drop_update_swap take_Suc_conv_app_nth Cons_nth_drop_Suc [symmetric])
  qed
  have "move_to_front j mtf = mtf ! j # take j mtf @ drop (Suc j) mtf"
    using shift [OF assms] by (simp add: move_to_front_def)
  moreover have "mtf = take j mtf @ mtf ! j # drop (Suc j) mtf" using assms by (rule id_take_nth_drop)
  ultimately show "set (move_to_front j mtf) = set mtf" "move_to_front j mtf \<noteq> []"
    by (metis Un_insert_right list.simps(15) set_append, simp)
qed

lemma mtf_index_some: "x \<in> set mtf \<Longrightarrow> \<exists>j. mtf_index mtf x = Some j"
  by (induction mtf) auto

lemma reads_mtf:
  assumes ok: "skip_ok skip full" "length full < 2 ^ 32"
    and sym: "\<And>m. m \<in> set (mtf_code syms mtf r) \<Longrightarrow> reads (djw_decode_symbol tb DJW_TOTAL_CODES :: ('a, nat) reader) (enc m) [] m"
    and k: "kept skip full n = replicate r (hd mtf) @ syms" "n \<le> length full"
    and mtf: "mtf \<noteq> []" "set syms \<subseteq> set mtf"
  shows "reads (at_place tb skip full n 0 0 0 (mtf @ e) :: ('a, u8 list) reader) (concat (map enc (mtf_code syms mtf r))) [] full"
  using sym k mtf
proof (induction syms arbitrary: mtf r n)
  case Nil
  obtain v tl where v: "mtf = v # tl" using Nil.prems(4) by (cases mtf) auto
  have last: "reads (at_place tb skip full n' 0 0 s' (v # tl @ e) :: ('a, u8 list) reader) [] [] full"
    if "n' \<le> length full" "kept skip full n' = []" for n' s'
    using loop_rest_skipped [OF ok(1) that(2,1)] reads_return by metis
  have "reads (at_place tb skip full n 0 0 0 (v # tl @ e) :: ('a, u8 list) reader) (concat (map enc (run_digits r)) @ []) [] full"
    by (rule reads_run [OF ok, where ks = "[]"]) (use Nil.prems last in \<open>simp_all add: v\<close>)
  then show ?case by (simp add: v)
next
  case (Cons x xs)
  obtain v tl where v: "mtf = v # tl" using Cons.prems(4) by (cases mtf) auto
  obtain j where j: "mtf_index mtf x = Some j" using mtf_index_some [of x mtf] Cons.prems(5) by auto
  note jx = mtf_index_nth [OF j]
  show ?case
  proof (cases "j = 0")
    case True
    then have "v = x" using jx v by simp
    then have "kept skip full n = replicate (Suc r) (hd mtf) @ xs"
      using Cons.prems(2) v by (simp add: replicate_app_Cons_same)
    from Cons.IH [OF Cons.prems(1) this Cons.prems(3,4)] Cons.prems(5) j True show ?thesis by simp
  next
    case False
    define bs where "bs = enc (Suc j) @ concat (map enc (mtf_code xs (move_to_front j mtf) 0))"
    have code: "mtf_code (x # xs) mtf r = run_digits r @ Suc j # mtf_code xs (move_to_front j mtf) 0" using j False by simp
    note sy = Cons.prems(1) [unfolded code, simplified]
    have rest: "reads (at_place tb skip full n' 0 0 s' (v # tl @ e) :: ('a, u8 list) reader) bs [] full"
      if n': "n' \<le> length full" "kept skip full n' = x # xs" for n' s'
    proof -
      from loop_to_kept [OF ok(1) n'(2)] obtain n1 where
        n1: "n1 < length full" "\<not> skips skip full n1" "full ! n1 = x" "kept skip full (Suc n1) = xs"
          "(at_place tb skip full n' :: u32 \<Rightarrow> nat \<Rightarrow> nat \<Rightarrow> u8 list \<Rightarrow> ('a, u8 list) reader) = at_place tb skip full n1" by blast
      have nth: "full ! n1 = (mtf @ e) ! j" "j < length (mtf @ e)" using n1(3) jx by (simp_all add: nth_append)
      have "set xs \<subseteq> set (move_to_front j mtf)" "move_to_front j mtf \<noteq> []"
        using Cons.prems(5) move_to_front_props [of j mtf] jx by auto
      then have "reads (at_place tb skip full (Suc n1) 0 0 0 (move_to_front j mtf @ e) :: ('a, u8 list) reader)
          (concat (map enc (mtf_code xs (move_to_front j mtf) 0))) [] full"
        using n1(1,4) sy by (intro Cons.IH) auto
      then have "reads (at_place tb skip full n1 0 j 0 (mtf @ e) :: ('a, u8 list) reader)
          (concat (map enc (mtf_code xs (move_to_front j mtf) 0))) [] full"
        using jx by (simp add: loop_mtf [OF n1(1,2) False [unfolded neq0_conv] nth(2,1)] move_append)
      then have "reads (if Suc j \<le> RUN_1 then (if 32 \<le> s' then rub
              else at_place tb skip full n1 (push_bit s' (of_nat (Suc j) + 1)) 0 (Suc s') (mtf @ e))
            else at_place tb skip full n1 0 (Suc j - 1) 0 (mtf @ e) :: ('a, u8 list) reader)
          (concat (map enc (mtf_code xs (move_to_front j mtf) 0))) [] full" using False by simp
      from reads_bind0 [where k = "\<lambda>m. if m \<le> RUN_1 then (if 32 \<le> s' then rub
              else at_place tb skip full n1 (push_bit s' (of_nat m + 1)) 0 (Suc s') (mtf @ e))
            else at_place tb skip full n1 0 (m - 1) 0 (mtf @ e)", OF _ this, of "djw_decode_symbol tb DJW_TOTAL_CODES" "enc (Suc j)"]
        sy [of "Suc j"]
      show ?thesis unfolding v [symmetric] append_Cons [symmetric] n1(5) loop_symbol [OF n1(1,2)] by (simp add: bs_def)
    qed
    have "reads (at_place tb skip full n 0 0 0 (v # tl @ e) :: ('a, u8 list) reader) (concat (map enc (run_digits r)) @ bs) [] full"
      by (rule reads_run [OF ok, where ks = "x # xs"]) (use Cons.prems(2,3) sy rest in \<open>auto simp: v\<close>)
    then show ?thesis unfolding code bs_def by (simp add: v)
  qed
qed

lemma decode_1_2_reads:
  assumes "skip_ok skip full" "length full < 2 ^ 32" "mtf \<noteq> []" "set (kept skip full 0) \<subseteq> set mtf"
    and "\<And>m. m \<in> set (mtf_code (kept skip full 0) mtf 0) \<Longrightarrow> reads (djw_decode_symbol tb DJW_TOTAL_CODES :: ('a, nat) reader) (enc m) [] m"
  shows "reads (djw_decode_1_2 tb (mtf @ e) (length full) skip :: ('a, u8 list) reader)
    (concat (map enc (mtf_code (kept skip full 0) mtf 0))) [] full"
  using reads_mtf [OF assms(1,2,5), of "kept skip full 0" mtf 0 0 e] assms(3,4) by (simp add: djw_decode_1_2_def)

end
