(* ===== verification/Xd3_Djw_Prefix.thy ===== *)
theory Xd3_Djw_Prefix
  imports Xd3_Djw_Tree Xd3_Djw_Mtf
begin

text \<open>
  Sending code lengths: what \<open>djw_encode_prefix\<close> writes (\<open>sent_lengths\<close>) is read back by \<open>djw_decode_clclen\<close> and
  \<open>djw_decode_prefix\<close>.  The code lengths are coded by move to front and runs, the symbols of that code by one more
  prefix code, whose lengths come first.
\<close>

section \<open>Counting symbols\<close>

abbreviation counts :: "nat \<Rightarrow> nat list \<Rightarrow> u32 list" where
  "counts n xs \<equiv> fold count_symbol xs (replicate n 0)"

lemma count_symbol_length [simp]: "length (count_symbol i f) = length f"
  by (simp add: count_symbol_def)

lemma fold_count_length [simp]: "length (fold count_symbol xs f) = length f"
  by (induction xs arbitrary: f) simp_all

lemma fold_count_nth: "i < length f \<Longrightarrow> fold count_symbol xs f ! i = f ! i + of_nat (count_list xs i)"
proof (induction xs arbitrary: f)
  case (Cons x xs)
  then show ?case by (simp add: count_symbol_def nth_list_update)
qed simp

lemma unat_counts: "length xs < 2 ^ 32 \<Longrightarrow> i < n \<Longrightarrow> unat (counts n xs ! i) = count_list xs i"
  using count_le_length [of xs i] by (simp add: fold_count_nth unat_of_nat_small)

lemma counts_used: "length xs < 2 ^ 32 \<Longrightarrow> i < n \<Longrightarrow> counts n xs ! i \<noteq> 0 \<longleftrightarrow> i \<in> set xs"
  using unat_counts [of xs i n] count_list_0_iff [of xs i] by (metis unat_eq_0)

lemma total_counts:
  assumes "length xs < 2 ^ 32" "\<forall>x \<in> set xs. x < n"
  shows "total (counts n xs) = length xs"
proof -
  have "total (counts n xs) = (\<Sum>i < n. count_list xs i)"
    unfolding total_sum using unat_counts [OF assms(1)] by (intro sum.cong) simp_all
  also have "\<dots> = length xs" using sum_count_set [of xs "{..<n}"] assms(2) by (simp add: subset_iff)
  finally show ?thesis .
qed

section \<open>The symbols of the 1-2 code\<close>

lemma update_1_2_counts: "0 < r \<Longrightarrow> snd (djw_update_1_2 r mtfsym freq) = fold count_symbol (run_digits r) freq"
proof (induction r mtfsym freq rule: djw_update_1_2.induct)
  case (1 r mtfsym freq)
  obtain r' where r: "r = Suc r'" using 1(2) by (cases r) auto
  show ?case
    using 1(1) [OF refl refl refl refl refl]
    by (subst djw_update_1_2.simps) (auto simp: r Let_def)
qed

lemma end_run_counts: "end_run r mtfsym freq = (mtfsym @ run_digits r, fold count_symbol (run_digits r) freq)"
  by (cases "r = 0") (simp_all add: end_run_def prod_eq_iff update_1_2_counts update_1_2_digits)

lemma compute_mtf_counts:
  assumes "set syms \<subseteq> set mtf"
  shows "compute_mtf_loop syms mtf r mtfsym freq
    = Some (mtfsym @ mtf_code syms mtf r, fold count_symbol (mtf_code syms mtf r) freq)"
  using assms
proof (induction syms arbitrary: mtf r mtfsym freq)
  case (Cons x xs)
  obtain j where j: "mtf_index mtf x = Some j" using Cons.prems mtf_index_some [of x mtf] by auto
  note nth = mtf_index_nth [OF j]
  then have "set (move_to_front j mtf) = set mtf" by (simp add: move_to_front_props)
  with Cons.prems have sub: "set xs \<subseteq> set (move_to_front j mtf)" by simp
  show ?case
  proof (cases "j = 0")
    case True
    then have "move_to_front j mtf = mtf" using nth by (cases mtf) (simp_all add: move_to_front_def)
    with Cons.IH [OF sub] True j nth show ?thesis by (simp add: move_to_front_def)
  next
    case False
    with Cons.IH [OF sub] j nth show ?thesis by (simp add: move_to_front_def end_run_counts)
  qed
qed (simp add: end_run_counts)

lemma run_digits_length: "length (run_digits r) \<le> r"
  by (induction r rule: run_digits.induct) (auto intro: le_trans)

lemma mtf_code_length: "length (mtf_code syms mtf r) \<le> length syms + r"
proof (induction syms arbitrary: mtf r)
  case (Cons x xs)
  show ?case
    using Cons.IH [of mtf "Suc r"] Cons.IH [of "move_to_front _ mtf" 0] run_digits_length [of r]
    by (auto split: option.splits) (metis add.commute add_le_mono)
qed (use run_digits_length in simp)

lemma mtf_code_bound: "m \<in> set (mtf_code syms mtf r) \<Longrightarrow> 1 \<le> length mtf \<Longrightarrow> m \<le> length mtf"
proof (induction syms arbitrary: mtf r)
  case Nil
  then show ?case using run_digits_01 [of m r] by simp
next
  case (Cons x xs)
  then obtain j where j: "mtf_index mtf x = Some j" by (cases "mtf_index mtf x") auto
  have "length (move_to_front j mtf) = length mtf" by (simp add: move_to_front_def)
  with Cons.IH [of mtf "Suc r"] Cons.IH [of "move_to_front j mtf" 0] Cons.prems run_digits_01 [of m r] mtf_index_nth [OF j] j
  show ?case by (auto split: if_splits)
qed

text \<open>The array of a caller that has room for as many symbols as it gives is not left.\<close>

lemma compute_mtf_fits:
  assumes "set syms \<subseteq> set mtf" "length syms \<le> cap" "mtf \<noteq> []" "length mtf < nsym + 2"
  shows "djw_compute_mtf_1_2 cap syms mtf nsym = Some (mtf_code syms mtf 0, counts (nsym + 2) (mtf_code syms mtf 0))"
proof -
  have "length (mtf_code syms mtf 0) \<le> cap" using mtf_code_length [of syms mtf 0] assms(2) by simp
  moreover have "m < nsym + 2" if "m \<in> set (mtf_code syms mtf 0)" for m
    using mtf_code_bound [OF that] assms(3,4) by (cases mtf) auto
  ultimately show ?thesis using compute_mtf_counts [OF assms(1), of 0 "[]"] by (simp add: djw_compute_mtf_1_2_def del: replicate_Suc add_2_eq_Suc')
qed

lemma mtf_code_some: "set syms \<subseteq> set mtf \<Longrightarrow> 0 < length syms + r \<Longrightarrow> mtf_code syms mtf r \<noteq> []"
proof (induction syms arbitrary: mtf r)
  case Nil
  then show ?case by (cases r) simp_all
next
  case (Cons x xs)
  then obtain j where "mtf_index mtf x = Some j" using mtf_index_some [of x mtf] by auto
  with Cons show ?case by simp
qed

section \<open>Symbols of a prefix code\<close>

definition coded_with :: "nat list \<Rightarrow> nat list \<Rightarrow> bool list" where
  "coded_with ls syms = concat (map (symbol_bits ls) syms)"

text \<open>Code lengths that both sides can work with.\<close>

definition usable :: "nat \<Rightarrow> u8 list \<Rightarrow> bool" where
  "usable L clen \<longleftrightarrow> kraft L (lens clen) \<and> L \<le> 20 \<and> length clen \<le> 256"

lemma usable_le: "usable L clen \<Longrightarrow> c \<in> set clen \<Longrightarrow> unat c \<le> L"
  by (simp add: usable_def kraft_def)

lemma writes_symbol:
  assumes "usable L clen" "sy < length clen" "clen ! sy \<noteq> 0"
  shows "writes (encode_symbol clen (djw_build_codes clen) sy :: 'a bit_out \<Rightarrow> _) (symbol_bits (lens clen) sy)"
proof -
  have le: "\<forall>c \<in> set clen. unat c \<le> 20" using usable_le [OF assms(1)] assms(1) by (force simp: usable_def)
  then have "unat (clen ! sy) \<le> 20" using assms(2) by simp
  then have n: "0 < unat (clen ! sy)" "unat (clen ! sy) < 32" using assms(3) by (simp_all add: unat_gt_0)
  have "(encode_symbol clen (djw_build_codes clen) sy :: 'a bit_out \<Rightarrow> _)
      = xd3_encode_bits (unat (clen ! sy)) (of_nat (code_of (lens clen) sy))"
    using assms(2) build_codes_spec [OF le assms(2,3)] by (simp add: encode_symbol_def fun_eq_iff)
  with writes_encode_bits [OF n] show ?thesis using assms(2) by (simp add: symbol_bits_def)
qed

lemma writes_symbols:
  assumes "usable L clen" "\<And>sy. sy \<in> set syms \<Longrightarrow> sy < length clen \<and> clen ! sy \<noteq> 0"
  shows "writes (write_all (encode_symbol clen (djw_build_codes clen)) syms) (coded_with (lens clen) syms)"
  unfolding coded_with_def by (rule writes_all) (use writes_symbol [OF assms(1)] assms(2) in blast)

lemma writes_bytes:
  fixes bs :: "u8 list"
  assumes "usable L clen" "length clen = 256" "\<And>b. b \<in> set bs \<Longrightarrow> clen ! unat b \<noteq> 0"
  shows "writes (write_all (\<lambda>b. encode_symbol clen (djw_build_codes clen) (unat b)) bs) (coded_with (lens clen) (map unat bs))"
proof -
  have "writes (write_all (\<lambda>b. encode_symbol clen (djw_build_codes clen) (unat b)) bs) (concat (map (\<lambda>b. symbol_bits (lens clen) (unat b)) bs))"
    by (intro writes_all writes_symbol [OF assms(1)]) (use assms unat_u8_less in auto)
  then show ?thesis by (simp add: coded_with_def comp_def)
qed

lemma reads_symbol:
  assumes "usable L clen" "table_for (lens clen) tb" "sy < length clen" "clen ! sy \<noteq> 0" "length clen \<le> max_sym + 1"
  shows "reads (djw_decode_symbol tb max_sym :: ('a, nat) reader) (symbol_bits (lens clen) sy) [] sy"
  by (rule decode_symbol_reads [OF assms(2), of L]) (use assms in \<open>simp_all add: usable_def unat_eq_0\<close>)

lemma reads_bytes:
  assumes "usable L clen" "table_for (lens clen) tb" "length clen = 256" "\<And>b. b \<in> set bs \<Longrightarrow> clen ! unat b \<noteq> 0"
  shows "reads (decode_sector tb (length bs) :: ('a, unit) reader) (coded_with (lens clen) (map unat bs)) bs ()"
  using assms(4)
proof (induction bs)
  case Nil
  show ?case by (simp add: coded_with_def reads_return)
next
  case (Cons b bs)
  have "unat b < 256" by (rule unat_u8_less)
  then have r1: "reads (djw_decode_symbol tb ALPHABET_SIZE :: ('a, nat) reader) (symbol_bits (lens clen) (unat b)) [] (unat b)"
    using reads_symbol [OF assms(1,2), of "unat b" ALPHABET_SIZE] Cons.prems assms(3) by simp
  have r2: "reads (rbind (rput (of_nat (unat b))) (\<lambda>_. decode_sector tb (length bs)) :: ('a, unit) reader)
      ([] @ coded_with (lens clen) (map unat bs)) ([b] @ bs) ()"
    by (rule reads_bind) (use reads_put [of b] Cons in simp_all)
  from reads_bind [where k = "\<lambda>sy. rbind (rput (of_nat sy)) (\<lambda>_. decode_sector tb (length bs))", OF r1 r2]
  show ?case by (simp add: coded_with_def)
qed

section \<open>Sending the lengths\<close>

lemma trim_codes_spec:
  assumes "7 \<le> n" "n \<le> length c"
  shows "7 \<le> trim_codes c n \<and> trim_codes c n \<le> n \<and> take (trim_codes c n) c @ replicate (n - trim_codes c n) 0 = take n c"
  using assms
proof (induction n)
  case (Suc n)
  show ?case
  proof (cases "7 < Suc n \<and> c ! n = 0")
    case True
    with Suc have IH: "7 \<le> trim_codes c n" "trim_codes c n \<le> n" "take (trim_codes c n) c @ replicate (n - trim_codes c n) 0 = take n c"
      by auto
    then have "replicate (Suc n - trim_codes c n) (0 :: u8) = replicate (n - trim_codes c n) 0 @ [0]"
      by (simp add: Suc_diff_le replicate_append_same)
    with IH True Suc.prems show ?thesis
      by (simp add: take_Suc_conv_app_nth flip: append_assoc)
  next
    case False
    then have "trim_codes c (Suc n) = Suc n" by auto
    with Suc.prems show ?thesis by simp
  qed
qed simp

definition sent_lengths :: "u8 list \<Rightarrow> bool list" where
  "sent_lengths symbols =
    (let mtfsym = mtf_code symbols djw_init_clen_mtf_1_2 0;
         clclen = fst (the (djw_build_prefix (counts DJW_TOTAL_CODES mtfsym) DJW_MAX_CLCLEN));
         n = trim_codes clclen DJW_TOTAL_CODES in
     msb_bits DJW_EXTRA_CODE_BITS (of_nat (n - DJW_EXTRA_12OFFSET) :: u32)
      @ concat (map (\<lambda>c. msb_bits DJW_CLCLEN_BITS (ucast c :: u32)) (take n clclen))
      @ coded_with (lens clclen) mtfsym)"

lemma init_mtf_length: "length djw_init_clen_mtf_1_2 = 21"
  by (simp add: djw_init_clen_mtf_1_2_def djw_encode_12basic_def djw_encode_12extra_def)

lemma init_mtf_nonempty: "djw_init_clen_mtf_1_2 \<noteq> []"
  by (simp add: djw_init_clen_mtf_1_2_def)

lemma init_mtf_set: "unat c \<le> 20 \<Longrightarrow> c \<in> set djw_init_clen_mtf_1_2"
proof -
  have all: "of_nat k \<in> set djw_init_clen_mtf_1_2" if "k \<in> set [0 ..< 21]" for k
    using that by (simp add: djw_init_clen_mtf_1_2_def djw_encode_12basic_def djw_encode_12extra_def upt_rec) auto
  assume "unat c \<le> 20"
  then have "unat c \<in> set [0 ..< 21]" by simp
  from all [OF this] show ?thesis by simp
qed

text \<open>A prefix code made for some symbols has a code for each of them.\<close>

lemma symbols_code:
  assumes "xs \<noteq> []" "\<forall>x \<in> set xs. x < n" "length xs < 2 ^ 31" "2 \<le> n" "n \<le> 256" "L \<le> 20" "2 * n < fibo (L + 2)"
  obtains clen b where "djw_build_prefix (counts n xs) L = Some (clen, b)" "length clen = n" "usable L clen"
    "\<And>x. x \<in> set xs \<Longrightarrow> x < n \<and> clen ! x \<noteq> 0"
proof -
  have len: "length (counts n xs) = n" by simp
  have used: "counts n xs ! i \<noteq> 0 \<longleftrightarrow> i \<in> set xs" if "i < n" for i using counts_used [of xs i n] assms(3) that by simp
  have hd: "hd xs \<in> set xs" "hd xs < n" using assms(1,2) by auto
  then have "counts n xs ! hd xs \<in> set (counts n xs)" by (intro nth_mem) simp
  then have some: "\<exists>f \<in> set (counts n xs). f \<noteq> 0" using used hd by blast
  have "total (counts n xs) < 2 ^ 31" using total_counts [of xs n] assms(2,3) by simp
  then obtain clen where c: "djw_build_prefix (counts n xs) L = Some (clen, prefix_bits (counts n xs) (lens clen))"
      "length clen = n" "kraft L (lens clen)" "\<forall>i < n. counts n xs ! i \<noteq> 0 \<longrightarrow> clen ! i \<noteq> 0"
    using build_prefix_complete [of "counts n xs" L] some assms(4-7) unfolding len by blast
  show ?thesis by (rule that [OF c(1,2)]) (use c used assms(2,5,6) in \<open>auto simp: usable_def\<close>)
qed

text \<open>The lengths of the lengths' code.\<close>

lemma lengths_code:
  assumes "\<forall>c \<in> set symbols. unat c \<le> 20" "symbols \<noteq> []" "length symbols < 2 ^ 31" "length symbols \<le> cap"
  defines "mtfsym \<equiv> mtf_code symbols djw_init_clen_mtf_1_2 0"
  obtains clclen b where "djw_compute_prefix_1_2 cap symbols = Some (mtfsym, counts 22 mtfsym)"
    "djw_build_prefix (counts 22 mtfsym) 15 = Some (clclen, b)" "length clclen = 22" "usable 15 clclen"
    "\<And>m. m \<in> set mtfsym \<Longrightarrow> m < 22 \<and> clclen ! m \<noteq> 0" "mtfsym \<noteq> []"
proof -
  have sub: "set symbols \<subseteq> set djw_init_clen_mtf_1_2" using assms(1) init_mtf_set by blast
  have m: "djw_compute_prefix_1_2 cap symbols = Some (mtfsym, counts 22 mtfsym)"
    using compute_mtf_fits [OF sub assms(4), of 20] by (simp add: djw_compute_prefix_1_2_def mtfsym_def init_mtf_length init_mtf_nonempty)
  have len: "length mtfsym < 2 ^ 31" using mtf_code_length [of symbols djw_init_clen_mtf_1_2 0] assms(3) by (simp add: mtfsym_def)
  have bnd: "\<forall>m \<in> set mtfsym. m < 22"
    using mtf_code_bound [of _ symbols djw_init_clen_mtf_1_2 0] by (fastforce simp: mtfsym_def init_mtf_length)
  have ne: "mtfsym \<noteq> []" using mtf_code_some [OF sub, of 0] assms(2) by (simp add: mtfsym_def)
  have "2 * 22 < fibo (15 + 2)" using fibo_values by simp
  from symbols_code [OF ne bnd len _ _ _ this] m ne that show ?thesis by auto
qed

lemma encode_prefix_writes:
  assumes "\<forall>c \<in> set symbols. unat c \<le> 20" "symbols \<noteq> []" "length symbols < 2 ^ 31" "length symbols \<le> cap"
  shows "writes (djw_encode_prefix cap symbols :: 'a bit_out \<Rightarrow> _) (sent_lengths symbols)"
proof -
  obtain clclen b where c: "djw_compute_prefix_1_2 cap symbols
      = Some (mtf_code symbols djw_init_clen_mtf_1_2 0, counts 22 (mtf_code symbols djw_init_clen_mtf_1_2 0))"
    "djw_build_prefix (counts 22 (mtf_code symbols djw_init_clen_mtf_1_2 0)) 15 = Some (clclen, b)" "usable 15 clclen" "length clclen = 22"
    "\<And>m. m \<in> set (mtf_code symbols djw_init_clen_mtf_1_2 0) \<Longrightarrow> m < 22 \<and> clclen ! m \<noteq> 0"
    using lengths_code [OF assms] by metis
  define n where "n = trim_codes clclen 22"
  have w: "writes (\<lambda>w :: 'a bit_out. bind_ok (xd3_encode_bits 4 (of_nat (n - 7)) w)
      (\<lambda>w. bind_ok (write_all (\<lambda>c. xd3_encode_bits 4 (ucast c)) (take n clclen) w)
        (\<lambda>w. write_all (encode_symbol clclen (djw_build_codes clclen)) (mtf_code symbols djw_init_clen_mtf_1_2 0) w)))
    (msb_bits 4 (of_nat (n - 7) :: u32) @ concat (map (\<lambda>c. msb_bits 4 (ucast c :: u32)) (take n clclen))
      @ coded_with (lens clclen) (mtf_code symbols djw_init_clen_mtf_1_2 0))"
    by (intro writes_bind writes_encode_bits writes_all writes_symbols [OF c(3)]) (use c(4,5) in simp_all)
  have e: "djw_encode_prefix cap symbols = (\<lambda>w :: 'a bit_out. bind_ok (xd3_encode_bits 4 (of_nat (n - 7)) w)
      (\<lambda>w. bind_ok (write_all (\<lambda>c. xd3_encode_bits 4 (ucast c)) (take n clclen) w)
        (\<lambda>w. write_all (encode_symbol clclen (djw_build_codes clclen)) (mtf_code symbols djw_init_clen_mtf_1_2 0) w)))"
    using c(2) by (simp add: djw_encode_prefix_def c(1) n_def fun_eq_iff Let_def)
  have "sent_lengths symbols = msb_bits 4 (of_nat (n - 7) :: u32) @ concat (map (\<lambda>c. msb_bits 4 (ucast c :: u32)) (take n clclen))
      @ coded_with (lens clclen) (mtf_code symbols djw_init_clen_mtf_1_2 0)"
    using c(2) by (simp add: sent_lengths_def n_def Let_def)
  with w show ?thesis unfolding e by (simp only:)
qed

lemma decode_clclen_reads:
  fixes clclen :: "u8 list"
  assumes "djw_build_decoder 15 clclen = Some tb" "length clclen = 22" "\<forall>c \<in> set clclen. unat c \<le> 15"
  defines "n \<equiv> trim_codes clclen 22"
  shows "reads (djw_decode_clclen :: ('a, djw_table) reader)
    (msb_bits 4 (of_nat (n - 7) :: u32) @ concat (map (\<lambda>c. msb_bits 4 (ucast c :: u32)) (take n clclen))) [] tb"
proof -
  have n: "7 \<le> n" "n \<le> 22" "take n clclen @ replicate (22 - n) 0 = clclen"
    using trim_codes_spec [of 22 clclen] assms(2) by (simp_all add: n_def)
  have u: "unat (of_nat (n - 7) :: u32) = n - 7" by (rule unat_of_nat_small) (use n in simp)
  have r1: "reads (xd3_decode_bits 4 :: ('a, u32) reader) (msb_bits 4 (of_nat (n - 7) :: u32)) [] (of_nat (n - 7))"
    by (rule reads_decode_bits) (use n u in simp_all)
  have one: "reads (xd3_decode_bits 4 :: ('a, u32) reader) (msb_bits 4 x) [] x" if x: "x \<in> set (map ucast (take n clclen))" for x
  proof (rule reads_decode_bits)
    obtain c where "c \<in> set (take n clclen)" "x = ucast (c :: u8)" using x by auto
    then have "unat x \<le> 15" using assms(3) in_set_takeD [of c n clclen] by simp
    then show "unat x < 2 ^ 4" by simp
  qed simp_all
  have r2: "reads (rtimes (length (map (ucast :: u8 \<Rightarrow> u32) (take n clclen))) (xd3_decode_bits 4) :: ('a, u32 list) reader)
      (concat (map (msb_bits 4) (map (ucast :: u8 \<Rightarrow> u32) (take n clclen)))) [] (map ucast (take n clclen))"
    by (rule reads_times) (rule one)
  have id: "map ucast (map (ucast :: u8 \<Rightarrow> u32) xs) = xs" for xs :: "u8 list"
  proof -
    have "ucast (ucast c :: u32) = c" for c :: u8 unfolding word_bits_iff by (simp add: bit_simps)
    then show ?thesis unfolding map_map by (intro map_idI) (simp only: o_apply)
  qed
  have r3: "reads (rget (djw_build_decoder 15 (map ucast (map (ucast :: u8 \<Rightarrow> u32) (take n clclen)) @ replicate (22 - n) 0)) :: ('a, djw_table) reader) [] [] tb"
    unfolding id n(3) by (rule reads_get [OF assms(1)])
  have len: "length (map (ucast :: u8 \<Rightarrow> u32) (take n clclen)) = unat (of_nat (n - 7) :: u32) + DJW_EXTRA_12OFFSET"
    using n assms(2) u by simp
  from reads_bind0 [where k = "\<lambda>vs. rget (djw_build_decoder 15 (map ucast vs @ replicate (22 - n) 0))", OF r2 r3]
  have "reads (rbind (rtimes (unat (of_nat (n - 7) :: u32) + DJW_EXTRA_12OFFSET) (xd3_decode_bits DJW_CLCLEN_BITS)) (\<lambda>vs.
        rget (djw_build_decoder DJW_MAX_CLCLEN (map ucast vs @ replicate (DJW_TOTAL_CODES - (unat (of_nat (n - 7) :: u32) + DJW_EXTRA_12OFFSET)) 0))) :: ('a, djw_table) reader)
      (concat (map (msb_bits 4) (map (ucast :: u8 \<Rightarrow> u32) (take n clclen)))) [] tb"
    unfolding len using n u by simp
  from reads_bind0 [where k = "\<lambda>extra. rbind (rtimes (unat extra + DJW_EXTRA_12OFFSET) (xd3_decode_bits DJW_CLCLEN_BITS)) (\<lambda>vs.
        rget (djw_build_decoder DJW_MAX_CLCLEN (map ucast vs @ replicate (DJW_TOTAL_CODES - (unat extra + DJW_EXTRA_12OFFSET)) 0)))", OF r1 this]
  show ?thesis by (simp add: djw_decode_clclen_def Let_def comp_def)
qed

lemma prefix_reads:
  assumes "\<forall>c \<in> set symbols. unat c \<le> 20" "symbols \<noteq> []" "length symbols < 2 ^ 31"
    and "skip_ok 256 full" "kept 256 full 0 = symbols" "length full = 256 * groups" "length full < 2 ^ 32"
    and k: "reads (k full :: ('a, 'x) reader) bs out v"
  shows "reads (rbind djw_decode_clclen (\<lambda>cl. rbind (djw_decode_prefix cl groups) k) :: ('a, 'x) reader) (sent_lengths symbols @ bs) out v"
proof -
  define mtfsym where "mtfsym = mtf_code symbols djw_init_clen_mtf_1_2 0"
  obtain clclen b where c: "djw_build_prefix (counts 22 mtfsym) 15 = Some (clclen, b)" "usable 15 clclen" "length clclen = 22"
    "\<And>m. m \<in> set mtfsym \<Longrightarrow> m < 22 \<and> clclen ! m \<noteq> 0" "mtfsym \<noteq> []"
    using lengths_code [OF assms(1-3) order_refl] unfolding mtfsym_def by metis
  have le: "\<forall>c \<in> set clclen. unat c \<le> 15" using usable_le [OF c(2)] by blast
  have ex: "\<exists>c \<in> set clclen. c \<noteq> 0"
    by (rule bexI [of _ "clclen ! hd mtfsym"]) (use c(3,5) c(4) [of "hd mtfsym"] in auto)
  obtain tb where tb: "djw_build_decoder 15 clclen = Some tb" "table_for (lens clclen) tb"
    using build_decoder_spec [OF le ex] c(3) by auto
  have "unat x \<le> 20 \<Longrightarrow> x \<in> set djw_init_clen_mtf_1_2" for x by (rule init_mtf_set)
  then have sub: "set (kept 256 full 0) \<subseteq> set djw_init_clen_mtf_1_2" using assms(1,5) by blast
  have sym: "reads (djw_decode_symbol tb DJW_TOTAL_CODES :: ('a, nat) reader) (symbol_bits (lens clclen) m) [] m"
    if "m \<in> set (mtf_code (kept 256 full 0) djw_init_clen_mtf_1_2 0)" for m
    by (rule reads_symbol [OF c(2) tb(2)]) (use c(3) c(4) [of m] that in \<open>simp_all add: assms(5) mtfsym_def\<close>)
  have "djw_init_clen_mtf_1_2 \<noteq> []" by (simp add: djw_init_clen_mtf_1_2_def)
  from decode_1_2_reads [OF assms(4,7) this sub sym, of "[]"]
  have r2: "reads (djw_decode_prefix tb groups :: ('a, u8 list) reader) (coded_with (lens clclen) mtfsym) [] full"
    by (simp add: djw_decode_prefix_def assms(5,6) coded_with_def mtfsym_def)
  define n where "n = trim_codes clclen 22"
  have bits: "sent_lengths symbols = (msb_bits 4 (of_nat (n - 7) :: u32) @ concat (map (\<lambda>c. msb_bits 4 (ucast c :: u32)) (take n clclen)))
      @ coded_with (lens clclen) mtfsym"
    using c(1) by (simp add: sent_lengths_def n_def mtfsym_def Let_def)
  note r1 = decode_clclen_reads [OF tb(1) c(3) le, folded n_def]
  note r3 = reads_bind [where k = k, OF r2 k]
  from reads_bind [where k = "\<lambda>cl. rbind (djw_decode_prefix cl groups) k", OF r1 r3] show ?thesis unfolding bits by simp
qed

end
