(* ===== verification/Xd3_Djw_Tables.thy ===== *)
theory Xd3_Djw_Tables
  imports Xd3_Djw_Prefix
begin

text \<open>
  Sending the lengths of several prefix codes at once: \<open>djw_compute_multi_prefix\<close> leaves out the lengths that are 0
  in every code, the decoder fills them in.  That works when the codes agree on the symbols they leave out.
\<close>

section \<open>The tables of the groups\<close>

definition tables_ok :: "u8 list list \<Rightarrow> bool" where
  "tables_ok clens \<longleftrightarrow> clens \<noteq> [] \<and> length clens \<le> 8
    \<and> (\<forall>c \<in> set clens. length c = 256 \<and> usable 20 c \<and> (\<exists>l \<in> set c. l \<noteq> 0) \<and> (\<forall>i < 256. c ! i = 0 \<longleftrightarrow> clens ! 0 ! i = 0))"

lemma tables_okD:
  assumes "tables_ok clens" "g < length clens"
  shows "length (clens ! g) = 256" "usable 20 (clens ! g)" "\<exists>l \<in> set (clens ! g). l \<noteq> 0"
    "i < 256 \<Longrightarrow> clens ! g ! i = 0 \<longleftrightarrow> clens ! 0 ! i = 0"
  using assms nth_mem [OF assms(2)] unfolding tables_ok_def by blast+

lemma concat_nth:
  "\<forall>c \<in> set cs. length c = m \<Longrightarrow> g < length cs \<Longrightarrow> i < m \<Longrightarrow> concat cs ! (m * g + i) = cs ! g ! i"
proof (induction cs arbitrary: g)
  case (Cons c cs)
  then show ?case by (cases g) (simp_all add: nth_append)
qed simp

lemma concat_length: "\<forall>c \<in> set cs. length c = m \<Longrightarrow> length (concat cs) = m * length cs"
  by (induction cs) simp_all

lemma concat_piece:
  assumes "\<forall>c \<in> set cs. length c = m" "g < length cs"
  shows "take m (drop (m * g) (concat cs)) = cs ! g"
proof (rule nth_equalityI)
  have room: "m * g + m \<le> m * length cs" using assms(2) by (metis Suc_leI mult.commute mult_Suc add.commute mult_le_mono1)
  then show "length (take m (drop (m * g) (concat cs))) = length (cs ! g)" using assms by (simp add: concat_length [OF assms(1)])
  fix i
  assume "i < length (take m (drop (m * g) (concat cs)))"
  then have "i < m" by simp
  have "m * g \<le> length (concat cs)" unfolding concat_length [OF assms(1)] using room by linarith
  with \<open>i < m\<close> concat_nth [OF assms \<open>i < m\<close>] show "take m (drop (m * g) (concat cs)) ! i = cs ! g ! i" by simp
qed

lemma group_tables_some:
  assumes "tables_ok clens"
  obtains tbs where "group_tables (length clens) (concat clens) = Some tbs" "length tbs = length clens"
    "\<And>g. g < length clens \<Longrightarrow> table_for (lens (clens ! g)) (tbs ! g)"
proof -
  have all: "\<exists>tb. djw_build_decoder 20 (clens ! g) = Some tb \<and> table_for (lens (clens ! g)) tb" if g: "g < length clens" for g
  proof -
    have "\<forall>c \<in> set (clens ! g). unat c \<le> 20" using usable_le [OF tables_okD(2) [OF assms g]] by blast
    moreover have "length (clens ! g) \<le> 256" using tables_okD(1) [OF assms g] by simp
    ultimately show ?thesis using build_decoder_spec tables_okD(3) [OF assms g] by metis
  qed
  define tb where "tb g = (SOME t. djw_build_decoder 20 (clens ! g) = Some t \<and> table_for (lens (clens ! g)) t)" for g
  have tb: "djw_build_decoder 20 (clens ! g) = Some (tb g)" "table_for (lens (clens ! g)) (tb g)" if "g < length clens" for g
    using someI_ex [OF all [OF that]] by (simp_all add: tb_def)
  have "take 256 (drop (256 * g) (concat clens)) = clens ! g" if "g < length clens" for g
    by (rule concat_piece) (use assms that in \<open>simp_all add: tables_ok_def\<close>)
  then have "map (\<lambda>gp. djw_build_decoder 20 (take 256 (drop (256 * gp) (concat clens)))) [0 ..< length clens] = map Some (map tb [0 ..< length clens])"
    using tb(1) by simp
  moreover have "those (map Some xs) = Some xs" for xs :: "djw_table list" by (induction xs) auto
  ultimately have "group_tables (length clens) (concat clens) = Some (map tb [0 ..< length clens])" by (simp only: group_tables_def ALPHABET_SIZE_def DJW_MAX_CODELEN_def)
  then show ?thesis using that tb(2) by simp
qed

section \<open>The lengths left out\<close>

lemma filter_nth_upt: "map ((!) xs) (filter (\<lambda>i. P (xs ! i)) [0 ..< length xs]) = filter P xs"
  using filter_map [of P "(!) xs" "[0 ..< length xs]"] by (simp add: map_nth comp_def)

definition kept_between :: "u8 list \<Rightarrow> nat \<Rightarrow> nat \<Rightarrow> u8 list" where
  "kept_between full a b = map (\<lambda>j. full ! j) (filter (\<lambda>j. \<not> skips 256 full j) [a ..< b])"

lemma kept_between_append: "a \<le> b \<Longrightarrow> b \<le> c \<Longrightarrow> kept_between full a c = kept_between full a b @ kept_between full b c"
  using upt_add_eq_append [of a b "c - b"] by (simp add: kept_between_def)

lemma kept_group:
  assumes "tables_ok clens" "g < length clens"
  shows "kept_between (concat clens) (256 * g) (256 * g + 256) = (if g = 0 then clens ! 0 else filter (\<lambda>c. c \<noteq> 0) (clens ! g))"
    "\<And>i. i < 256 \<Longrightarrow> skips 256 (concat clens) (256 * g + i) \<longleftrightarrow> g \<noteq> 0 \<and> clens ! g ! i = 0"
    "\<And>i. i < 256 \<Longrightarrow> concat clens ! (256 * g + i) = clens ! g ! i"
proof -
  have m: "\<forall>c \<in> set clens. length c = 256" using assms(1) by (simp add: tables_ok_def)
  show nth: "concat clens ! (256 * g + i) = clens ! g ! i" if "i < 256" for i using concat_nth [OF m assms(2) that] .
  show sk: "skips 256 (concat clens) (256 * g + i) \<longleftrightarrow> g \<noteq> 0 \<and> clens ! g ! i = 0" if i: "i < 256" for i
  proof (cases g)
    case 0
    then show ?thesis using i by (simp add: skips_def)
  next
    case (Suc h)
    then have h: "h < length clens" "256 * g + i - 256 = 256 * h + i" using assms(2) by simp_all
    have "skips 256 (concat clens) (256 * g + i) \<longleftrightarrow> clens ! h ! i = 0"
      unfolding skips_def h(2) using concat_nth [OF m h(1) i] Suc by simp
    then show ?thesis using tables_okD(4) [OF assms i] tables_okD(4) [OF assms(1) h(1) i] Suc by simp
  qed
  have up: "[256 * g ..< 256 * g + 256] = map (\<lambda>i. 256 * g + i) [0 ..< 256]" using map_add_upt [of "256 * g" 256] by (simp add: add.commute)
  have len: "length (clens ! g) = 256" using tables_okD(1) [OF assms] .
  have "kept_between (concat clens) (256 * g) (256 * g + 256)
      = map (\<lambda>i. concat clens ! (256 * g + i)) (filter (\<lambda>i. \<not> skips 256 (concat clens) (256 * g + i)) [0 ..< 256])"
    by (simp add: kept_between_def up filter_map comp_def)
  also have "\<dots> = map ((!) (clens ! g)) (filter (\<lambda>i. g = 0 \<or> clens ! g ! i \<noteq> 0) [0 ..< length (clens ! g)])"
    unfolding len by (intro map_cong filter_cong) (use nth sk in auto)
  also have "\<dots> = (if g = 0 then clens ! 0 else filter (\<lambda>c. c \<noteq> 0) (clens ! g))"
    using filter_nth_upt [of "clens ! g" "\<lambda>c. c \<noteq> 0"] by (simp add: map_nth)
  finally show "kept_between (concat clens) (256 * g) (256 * g + 256) = (if g = 0 then clens ! 0 else filter (\<lambda>c. c \<noteq> 0) (clens ! g))" .
qed

lemma multi_prefix_kept:
  assumes "tables_ok clens"
  shows "kept 256 (concat clens) 0 = djw_compute_multi_prefix (length clens) clens" "skip_ok 256 (concat clens)"
proof -
  have upto: "g \<le> length clens \<Longrightarrow> 1 \<le> g \<Longrightarrow> kept_between (concat clens) 0 (256 * g) = djw_compute_multi_prefix g clens" for g
  proof (induction g)
    case (Suc g)
    then have g: "g < length clens" by simp
    have "kept_between (concat clens) 0 (256 * Suc g)
        = kept_between (concat clens) 0 (256 * g) @ kept_between (concat clens) (256 * g) (256 * g + 256)"
      by (subst kept_between_append [of 0 "256 * g"]) (simp_all add: add.commute)
    with Suc g kept_group(1) [OF assms g] show ?case
      by (cases "g = 0") (simp_all add: kept_between_def djw_compute_multi_prefix_def)
  qed simp
  have m: "\<forall>c \<in> set clens. length c = 256" and ne: "clens \<noteq> []" using assms by (simp_all add: tables_ok_def)
  have len: "length (concat clens) = 256 * length clens" using concat_length [OF m] .
  show "kept 256 (concat clens) 0 = djw_compute_multi_prefix (length clens) clens"
    using upto [of "length clens"] ne len by (simp add: kept_def kept_between_def Suc_le_eq)
  show "skip_ok 256 (concat clens)"
  proof (unfold skip_ok_def, intro allI impI)
    fix n
    assume n: "n < length (concat clens)" "skips 256 (concat clens) n"
    define g i where "g = n div 256" and "i = n mod 256"
    have gi: "n = 256 * g + i" "i < 256" "g < length clens" using n(1) len by (auto simp: g_def i_def less_mult_imp_div_less mult.commute)
    with n(2) kept_group(2,3) [OF assms gi(3,2)] show "concat clens ! n = 0" by simp
  qed
qed

lemma multi_prefix_props:
  assumes "tables_ok clens"
  defines "symbols \<equiv> djw_compute_multi_prefix (length clens) clens"
  shows "\<forall>c \<in> set symbols. unat c \<le> 20" "symbols \<noteq> []" "length symbols < 2 ^ 31"
proof -
  have m: "\<forall>c \<in> set clens. length c = 256" and ne: "clens \<noteq> []" and le: "length clens \<le> 8" using assms by (simp_all add: tables_ok_def)
  have len: "length (concat clens) = 256 * length clens" using concat_length [OF m] .
  have k: "symbols = kept 256 (concat clens) 0" using multi_prefix_kept(1) [OF assms(1)] by (simp add: symbols_def)
  have "set symbols \<subseteq> set (concat clens)" unfolding k kept_def by (auto simp del: set_concat)
  moreover have "unat c \<le> 20" if "c \<in> set (concat clens)" for c
    using that assms(1) usable_le by (auto simp: tables_ok_def)
  ultimately show "\<forall>c \<in> set symbols. unat c \<le> 20" by blast
  have "length symbols \<le> length [0 ..< length (concat clens)]" unfolding k kept_def by (simp only: length_map length_filter_le)
  then show "length symbols < 2 ^ 31" using len le by simp
  have "length (clens ! 0) = 256" using m ne by simp
  then show "symbols \<noteq> []" by (auto simp: symbols_def djw_compute_multi_prefix_def)
qed

lemma tables_read:
  assumes ok: "tables_ok clens"
    and k: "\<And>tbs. length tbs = length clens \<Longrightarrow> (\<And>g. g < length clens \<Longrightarrow> table_for (lens (clens ! g)) (tbs ! g)) \<Longrightarrow>
      reads (k tbs :: ('a, 'x) reader) bs out v"
  shows "reads (rbind djw_decode_clclen (\<lambda>cl. rbind (djw_decode_prefix cl (length clens)) (\<lambda>clen.
      rbind (rget (group_tables (length clens) clen)) k)) :: ('a, 'x) reader)
    (sent_lengths (djw_compute_multi_prefix (length clens) clens) @ bs) out v"
proof -
  obtain tbs where t: "group_tables (length clens) (concat clens) = Some tbs" "length tbs = length clens"
    "\<And>g. g < length clens \<Longrightarrow> table_for (lens (clens ! g)) (tbs ! g)"
    using group_tables_some [OF ok] by blast
  have m: "\<forall>c \<in> set clens. length c = 256" and le: "length clens \<le> 8" using ok by (simp_all add: tables_ok_def)
  have len: "length (concat clens) = 256 * length clens" using concat_length [OF m] .
  have "reads (rbind (rget (group_tables (length clens) (concat clens))) k :: ('a, 'x) reader) bs out v"
    unfolding t(1) rbind_get_Some by (rule k [OF t(2,3)])
  from prefix_reads [where k = "\<lambda>clen. rbind (rget (group_tables (length clens) clen)) k",
      OF multi_prefix_props [OF ok] multi_prefix_kept(2,1) [OF ok] len _ this] len le show ?thesis by simp
qed

end
