(* ===== verification/Xd3_Djw_Choice.thy ===== *)
theory Xd3_Djw_Choice
  imports Xd3_Djw_Tables
begin

text \<open>
  How \<open>xd3_encode_huff\<close> finds its tables: the initial groups, the choice of a group per sector and the new
  tables of each round.  Every table it ends with has a code for every byte of the input (\<open>covers\<close>).  As long as no
  code length overflows, which short inputs guarantee, the tables agree on the symbols they leave out.
\<close>

section \<open>Sectors\<close>

lemma sectors_concat: "n \<noteq> 0 \<Longrightarrow> concat (sectors n xs) = xs"
proof (induction n xs rule: sectors.induct)
  case (1 n xs)
  then show ?case by (subst sectors.simps) simp
qed

lemma sectors_count: "n \<noteq> 0 \<Longrightarrow> xs \<noteq> [] \<Longrightarrow> length (sectors n xs) = 1 + (length xs - 1) div n"
proof (induction n xs rule: sectors.induct)
  case (1 n xs)
  have e: "sectors n xs = take n xs # sectors n (drop n xs)" by (subst sectors.simps) (simp add: 1(2,3))
  show ?case
  proof (cases "drop n xs = []")
    case True
    moreover have "sectors n [] = ([] :: 'a list list)" by (subst sectors.simps) simp
    moreover have "(length xs - 1) div n = 0" using True 1(2,3) by (simp add: Suc_le_eq)
    ultimately show ?thesis by (simp add: e)
  next
    case False
    then have "n < length xs" by simp
    then have "length xs - 1 = (length xs - n - 1) + n" by simp
    then have "(length xs - 1) div n = Suc ((length xs - n - 1) div n)" using 1(2) by (metis div_add_self2 Suc_eq_plus1)
    then show ?thesis using 1(1) [OF _ 1(2) False] 1(2,3) by (simp add: e)
  qed
qed

section \<open>The group of a sector\<close>

lemma best_group_range: "best_group cs gp best winner = winner \<or> best_group cs gp best winner < gp + length cs"
proof (induction cs arbitrary: gp best winner)
  case (Cons c cs)
  show ?case using Cons.IH [of "Suc gp" c gp] Cons.IH [of "Suc gp" best winner] by auto
qed simp

lemma choose_group_less: "clens \<noteq> [] \<Longrightarrow> choose_group clens sec < length clens"
  using best_group_range [of "map (\<lambda>clen. sector_cost clen sec) clens" 0 "- 1" 0] by (auto simp: choose_group_def)

definition assigned :: "u8 list list \<Rightarrow> u8 list list \<Rightarrow> nat \<Rightarrow> u8 list" where
  "assigned clens scs g = concat (filter (\<lambda>sec. choose_group clens sec = g) scs)"

lemma count_bytes: "fold (\<lambda>b. count_symbol (unat b)) bs f = fold count_symbol (map unat bs) f"
  by (induction bs arbitrary: f) simp_all

lemma count_sectors_room:
  "length (fst acc) + length scs \<le> gmax \<Longrightarrow> count_sectors gmax clens scs acc = Some (fold (count_sector clens) scs acc)"
proof (induction scs arbitrary: acc)
  case (Cons sec scs)
  have "length (fst (count_sector clens sec acc)) = Suc (length (fst acc))" by (cases acc) (simp add: count_sector_def Let_def)
  with Cons show ?case by simp
qed simp

lemma fold_sectors:
  assumes "clens \<noteq> []"
  shows "fold (count_sector clens) scs (gb, map f [0 ..< length clens])
    = (gb @ map (choose_group clens) scs,
       map (\<lambda>g. fold count_symbol (map unat (assigned clens scs g)) (f g)) [0 ..< length clens])"
proof (induction scs arbitrary: gb f)
  case (Cons sec scs)
  define w where "w = choose_group clens sec"
  have w: "w < length clens" using choose_group_less [OF assms] by (simp add: w_def)
  have "(map f [0 ..< length clens])[w := fold count_symbol (map unat sec) (f w)]
      = map (f(w := fold count_symbol (map unat sec) (f w))) [0 ..< length clens]"
    by (rule nth_equalityI) (auto simp: nth_list_update)
  then have "count_sector clens sec (gb, map f [0 ..< length clens])
      = (gb @ [w], map (f(w := fold count_symbol (map unat sec) (f w))) [0 ..< length clens])"
    using w by (simp add: count_sector_def w_def [symmetric] count_bytes)
  then have "fold (count_sector clens) (sec # scs) (gb, map f [0 ..< length clens])
      = (gb @ [w] @ map (choose_group clens) scs,
         map (\<lambda>g. fold count_symbol (map unat (assigned clens scs g)) ((f(w := fold count_symbol (map unat sec) (f w))) g)) [0 ..< length clens])"
    by (simp only: fold_simps Cons.IH append_assoc)
  moreover have "fold count_symbol (map unat (assigned clens scs g)) ((f(w := fold count_symbol (map unat sec) (f w))) g)
      = fold count_symbol (map unat (assigned clens (sec # scs) g)) (f g)" for g
    by (simp add: assigned_def w_def)
  ultimately show ?case by (simp add: w_def)
qed (simp add: assigned_def)

lemma assigned_props:
  "set (assigned clens scs g) \<subseteq> set (concat scs)" "length (assigned clens scs g) \<le> length (concat scs)"
  by (auto simp: assigned_def) (induction scs; simp)

section \<open>The new tables\<close>

lemma fake_freq_length [simp]: "length real = length f \<Longrightarrow> length (fake_freq real f) = length f"
  by (simp add: fake_freq_def)

lemma fake_freq_nth:
  "length real = length f \<Longrightarrow> i < length f \<Longrightarrow> fake_freq real f ! i = (if f ! i = 0 \<and> real ! i \<noteq> 0 then 1 else f ! i)"
  by (simp add: fake_freq_def)

lemma fake_freq_total: "length real = length f \<Longrightarrow> total (fake_freq real f) \<le> total f + length f"
proof (induction real f rule: list_induct2)
  case (Cons r real f fs)
  then show ?case by (auto simp: fake_freq_def total_def)
qed (simp add: fake_freq_def total_def)

lemma coded_pattern:
  assumes "length a = length b" "\<And>i. i < length a \<Longrightarrow> a ! i = 0 \<longleftrightarrow> b ! i = 0" "i < length a"
  shows "coded a ! i = 0 \<longleftrightarrow> coded b ! i = 0"
proof -
  define s where "s = (if a ! 0 \<noteq> 0 then length a - 1 else 0)"
  have "i < length a \<and> a ! i \<noteq> 0 \<longleftrightarrow> i < length b \<and> b ! i \<noteq> 0" for i using assms(1) assms(2) [of i] by auto
  then have "{i. i < length a \<and> a ! i \<noteq> 0} = {i. i < length b \<and> b ! i \<noteq> 0}" by (rule Collect_cong)
  then have n: "length (filter (\<lambda>f. f \<noteq> 0) b) = length (filter (\<lambda>f. f \<noteq> 0) a)"
    using symbols_card [of a] symbols_card [of b] by (simp only:)
  have "0 < length a" using assms(3) by (cases a) simp_all
  then have "a ! 0 = 0 \<longleftrightarrow> b ! 0 = 0" by (rule assms(2))
  then have "(if b ! 0 \<noteq> 0 then length b - 1 else 0) = s" using assms(1) by (simp add: s_def)
  then have "coded a = (if length (filter (\<lambda>f. f \<noteq> 0) a) = 1 then a[s := 1] else a)"
    "coded b = (if length (filter (\<lambda>f. f \<noteq> 0) a) = 1 then b[s := 1] else b)"
    unfolding coded_def n by (simp_all only: s_def)
  moreover have "a[s := 1] ! i = 0 \<longleftrightarrow> b[s := 1] ! i = 0"
    using assms(1,3) assms(2) [OF assms(3)] by (cases "i = s") simp_all
  ultimately show ?thesis using assms(2) [OF assms(3)] by simp
qed

definition covers :: "u32 list \<Rightarrow> u8 list list \<Rightarrow> bool" where
  "covers real_freq clens \<longleftrightarrow> clens \<noteq> [] \<and> length clens \<le> 8
    \<and> (\<forall>c \<in> set clens. length c = 256 \<and> usable 20 c \<and> (\<forall>i < 256. real_freq ! i \<noteq> 0 \<longrightarrow> c ! i \<noteq> 0))"

lemma new_table:
  assumes real: "length real = 256" "\<exists>f \<in> set real. f \<noteq> 0"
    and f: "length f = 256" "\<And>i. i < 256 \<Longrightarrow> f ! i \<noteq> 0 \<Longrightarrow> real ! i \<noteq> 0" "total f < 2 ^ 31 - 256"
  obtains clen where "djw_build_prefix (fake_freq real f) 20 = Some (clen, prefix_bits (fake_freq real f) (lens clen))"
    "length clen = 256" "usable 20 clen" "\<And>i. i < 256 \<Longrightarrow> real ! i \<noteq> 0 \<Longrightarrow> clen ! i \<noteq> 0"
    "total f \<le> 17000 \<Longrightarrow> \<forall>i < 256. clen ! i = 0 \<longleftrightarrow> coded real ! i = 0"
proof -
  have len: "length (fake_freq real f) = 256" using real(1) f(1) by simp
  have pat: "fake_freq real f ! i = 0 \<longleftrightarrow> real ! i = 0" if "i < 256" for i
    using that fake_freq_nth [of real f i] f(1) f(2) [OF that] real(1) by auto
  have tot: "total (fake_freq real f) \<le> total f + 256" using fake_freq_total [of real f] real(1) f(1) by simp
  then have W: "total (fake_freq real f) < 2 ^ 31" using f(3) by simp
  obtain i where i: "i < 256" "real ! i \<noteq> 0" using real by (metis in_set_conv_nth)
  then have some: "\<exists>x \<in> set (fake_freq real f). x \<noteq> 0" using pat [OF i(1)] len by (metis nth_mem)
  have fib: "2 * length (fake_freq real f) < fibo (20 + 2)" using fibo_values len by simp
  obtain clen where c: "djw_build_prefix (fake_freq real f) 20 = Some (clen, prefix_bits (fake_freq real f) (lens clen))"
    "length clen = 256" "kraft 20 (lens clen)" "\<forall>i < 256. fake_freq real f ! i \<noteq> 0 \<longrightarrow> clen ! i \<noteq> 0"
    using build_prefix_complete [OF _ _ some W _ fib] len by auto
  have exact: "\<forall>i < 256. clen ! i = 0 \<longleftrightarrow> coded real ! i = 0" if small: "total f \<le> 17000"
  proof -
    have "Suc (total (fake_freq real f)) < fibo (20 + 2)" using small tot fibo_values by simp
    from build_prefix_exact [OF _ _ some W _ fib this] len c(1)
    have "\<forall>i < 256. clen ! i = 0 \<longleftrightarrow> coded (fake_freq real f) ! i = 0" by (simp add: code_lengths_def)
    then show ?thesis using coded_pattern [of "fake_freq real f" real] pat len real(1) by simp
  qed
  show ?thesis by (rule that [OF c(1,2)]) (use c(2,3,4) pat exact in \<open>auto simp: usable_def\<close>)
qed

lemma recompute_tables:
  assumes real: "length real = 256" "\<exists>f \<in> set real. f \<noteq> 0"
    and "\<forall>f \<in> set freqs. length f = 256 \<and> (\<forall>i < 256. f ! i \<noteq> 0 \<longrightarrow> real ! i \<noteq> 0) \<and> total f < 2 ^ 31 - 256"
  shows "\<exists>clens bits. recompute_groups real freqs = Some (clens, bits) \<and> length clens = length freqs
    \<and> (\<forall>c \<in> set clens. length c = 256 \<and> usable 20 c \<and> (\<forall>i < 256. real ! i \<noteq> 0 \<longrightarrow> c ! i \<noteq> 0))
    \<and> ((\<forall>f \<in> set freqs. total f \<le> 17000) \<longrightarrow> (\<forall>c \<in> set clens. \<forall>i < 256. c ! i = 0 \<longleftrightarrow> coded real ! i = 0))"
  using assms(3)
proof (induction freqs)
  case (Cons f freqs)
  then obtain clens bits where IH: "recompute_groups real freqs = Some (clens, bits)" "length clens = length freqs"
    "\<forall>c \<in> set clens. length c = 256 \<and> usable 20 c \<and> (\<forall>i < 256. real ! i \<noteq> 0 \<longrightarrow> c ! i \<noteq> 0)"
    "(\<forall>f \<in> set freqs. total f \<le> 17000) \<longrightarrow> (\<forall>c \<in> set clens. \<forall>i < 256. c ! i = 0 \<longleftrightarrow> coded real ! i = 0)"
    by auto
  from Cons.prems have f: "length f = 256" "\<And>i. i < 256 \<Longrightarrow> f ! i \<noteq> 0 \<Longrightarrow> real ! i \<noteq> 0" "total f < 2 ^ 31 - 256" by auto
  obtain clen where c: "djw_build_prefix (fake_freq real f) 20 = Some (clen, prefix_bits (fake_freq real f) (lens clen))"
    "length clen = 256" "usable 20 clen" "\<And>i. i < 256 \<Longrightarrow> real ! i \<noteq> 0 \<Longrightarrow> clen ! i \<noteq> 0"
    "total f \<le> 17000 \<Longrightarrow> \<forall>i < 256. clen ! i = 0 \<longleftrightarrow> coded real ! i = 0"
    using new_table [OF real f] by blast
  show ?case
    by (intro exI [of _ "clen # clens"] exI [of _ "prefix_bits (fake_freq real f) (lens clen) - faked_bits real f clen + bits"])
      (use IH c in auto)
qed simp

section \<open>The label repeat\<close>

lemma counts_of_bytes:
  fixes bs :: "u8 list"
  assumes "length bs < 2 ^ 32"
  shows "length (counts 256 (map unat bs)) = 256" "total (counts 256 (map unat bs)) = length bs"
    "i < 256 \<Longrightarrow> counts 256 (map unat bs) ! i \<noteq> 0 \<longleftrightarrow> i \<in> unat ` set bs"
  using total_counts [of "map unat bs" 256] counts_used [of "map unat bs" i 256] assms unat_u8_less by auto

lemma one_round:
  assumes input: "length input < 2 ^ 31 - 256" "input \<noteq> []" "concat scs = input"
    and clens: "clens \<noteq> []" "length clens \<le> 8"
  defines "real \<equiv> counts 256 (map unat input)"
  shows "\<exists>freqs clens1 bits.
    fold (count_sector clens) scs ([], replicate (length clens) (replicate 256 0)) = (map (choose_group clens) scs, freqs)
    \<and> recompute_groups real freqs = Some (clens1, bits) \<and> length clens1 = length clens \<and> covers real clens1
    \<and> (length input \<le> 17000 \<longrightarrow> tables_ok clens1)"
proof -
  define A where "A = assigned clens scs"
  define freqs where "freqs = map (\<lambda>g. counts 256 (map unat (A g))) [0 ..< length clens]"
  have fold: "fold (count_sector clens) scs ([], replicate (length clens) (replicate 256 0)) = (map (choose_group clens) scs, freqs)"
    using fold_sectors [OF clens(1), of scs "[]" "\<lambda>_. replicate 256 0"] by (simp add: A_def freqs_def map_replicate_const)
  have A: "set (A g) \<subseteq> set input" "length (A g) \<le> length input" for g using assigned_props [of clens scs g] input(3) by (simp_all add: A_def)
  have lin: "length input < 2 ^ 32" "length (A g) < 2 ^ 32" for g using A(2) [of g] input(1) by simp_all
  note real_len = counts_of_bytes(1) [OF lin(1), folded real_def] and real_used = counts_of_bytes(3) [OF lin(1), folded real_def]
  note f_len = counts_of_bytes(1) [OF lin(2)] and f_tot = counts_of_bytes(2) [OF lin(2)] and f_used = counts_of_bytes(3) [OF lin(2)]
  define b where "b = unat (hd input)"
  have b: "b < 256" "real ! b \<noteq> 0" using real_used [of b] input(2) unat_u8_less [of "hd input"] by (auto simp: b_def)
  then have some: "\<exists>f \<in> set real. f \<noteq> 0" using real_len by (metis nth_mem)
  have f_ok: "\<forall>f \<in> set freqs. length f = 256 \<and> (\<forall>i < 256. f ! i \<noteq> 0 \<longrightarrow> real ! i \<noteq> 0) \<and> total f < 2 ^ 31 - 256"
  proof
    fix f assume "f \<in> set freqs"
    then obtain g where f: "f = counts 256 (map unat (A g))" by (auto simp: freqs_def)
    have "\<forall>i < 256. f ! i \<noteq> 0 \<longrightarrow> real ! i \<noteq> 0" using real_used f_used [of _ g] A(1) [of g] by (auto simp: f)
    moreover have "total f < 2 ^ 31 - 256" using f_tot [of g] A(2) [of g] input(1) by (simp add: f)
    ultimately show "length f = 256 \<and> (\<forall>i < 256. f ! i \<noteq> 0 \<longrightarrow> real ! i \<noteq> 0) \<and> total f < 2 ^ 31 - 256" using f_len by (simp add: f)
  qed
  obtain clens1 bits where c: "recompute_groups real freqs = Some (clens1, bits)" "length clens1 = length freqs"
      "\<forall>c \<in> set clens1. length c = 256 \<and> usable 20 c \<and> (\<forall>i < 256. real ! i \<noteq> 0 \<longrightarrow> c ! i \<noteq> 0)"
      "(\<forall>f \<in> set freqs. total f \<le> 17000) \<longrightarrow> (\<forall>c \<in> set clens1. \<forall>i < 256. c ! i = 0 \<longleftrightarrow> coded real ! i = 0)"
    using recompute_tables [OF real_len some f_ok] by blast
  have len: "length clens1 = length clens" "clens1 \<noteq> []" using c(2) clens(1) by (auto simp: freqs_def)
  have cov: "covers real clens1" using c(3) len clens(2) by (simp add: covers_def)
  have "tables_ok clens1" if small: "length input \<le> 17000"
  proof -
    have "\<forall>f \<in> set freqs. total f \<le> 17000" using f_tot A(2) small by (auto simp: freqs_def intro: le_trans)
    with c(4) have pat: "\<forall>c \<in> set clens1. \<forall>i < 256. c ! i = 0 \<longleftrightarrow> coded real ! i = 0" by blast
    have "clens1 ! 0 \<in> set clens1" using len(2) by simp
    with pat have "\<forall>c \<in> set clens1. \<forall>i < 256. c ! i = 0 \<longleftrightarrow> clens1 ! 0 ! i = 0" by metis
    moreover have "\<exists>l \<in> set c. l \<noteq> 0" if "c \<in> set clens1" for c using c(3) that b by (metis nth_mem)
    ultimately show ?thesis using c(3) len clens(2) by (simp add: tables_ok_def)
  qed
  with fold c(1) len(1) cov show ?thesis by blast
qed

lemma evolve_tables:
  assumes input: "length input < 2 ^ 31 - 256" "input \<noteq> []" "concat scs = input"
    and room: "length scs \<le> gmax"
    and clens: "clens \<noteq> []" "length clens \<le> 8"
  defines "real \<equiv> counts 256 (map unat input)"
  shows "\<exists>gbest clens1 bits. evolve_groups gmax real scs n b clens = Some (gbest, clens1, bits) \<and> length gbest = length scs
    \<and> (\<forall>g \<in> set gbest. g < length clens) \<and> length clens1 = length clens \<and> covers real clens1
    \<and> (length input \<le> 17000 \<longrightarrow> tables_ok clens1)"
  using clens
proof (induction "6 - n" arbitrary: n b clens rule: less_induct)
  case less
  obtain freqs clens1 bits where r: "fold (count_sector clens) scs ([], replicate (length clens) (replicate 256 0)) = (map (choose_group clens) scs, freqs)"
    "recompute_groups real freqs = Some (clens1, bits)" "length clens1 = length clens" "covers real clens1"
    "length input \<le> 17000 \<longrightarrow> tables_ok clens1"
    using one_round [OF input less.prems] unfolding real_def by blast
  define again where "again \<longleftrightarrow> n + 1 = 1 \<or> (n + 1 < DJW_MAX_ITER \<and> DJW_MIN_IMPROVEMENT \<le> b - bits)"
  have "count_sectors gmax clens scs ([], replicate (length clens) (replicate 256 0)) = Some (map (choose_group clens) scs, freqs)"
    using count_sectors_room [of "([], replicate (length clens) (replicate 256 0))" scs gmax clens] room r(1) by simp
  then have e: "evolve_groups gmax real scs n b clens
      = (if again then evolve_groups gmax real scs (n + 1) bits clens1 else Some (map (choose_group clens) scs, clens1, bits))"
    by (subst evolve_groups.simps) (simp add: r(2) again_def)
  show ?case
  proof (cases again)
    case True
    then have "6 - (n + 1) < 6 - n" by (auto simp: again_def)
    moreover have "clens1 \<noteq> []" "length clens1 \<le> 8" using r(3) less.prems by auto
    ultimately show ?thesis using less.hyps [of "n + 1" clens1 bits] r(3) True by (simp add: e)
  next
    case False
    then show ?thesis using r choose_group_less [OF less.prems(1)] by (auto simp: e)
  qed
qed

section \<open>The initial groups\<close>

lemma total_drop: "s < length f \<Longrightarrow> total (drop s f) = unat (f ! s) + total (drop (Suc s) f)"
  by (simp add: total_def Cons_nth_drop_Suc [symmetric])

lemma take_share_some:
  assumes "unat acc + total (drop s f) < 2 ^ 32" "unat goal \<le> unat acc + total (drop s f)"
  shows "\<exists>s' acc'. take_share f goal s acc = Some (s', acc') \<and> unat acc' + total (drop s' f) = unat acc + total (drop s f)"
  using assms
proof (induction f goal s acc rule: take_share.induct)
  case (1 f goal s acc)
  show ?case
  proof (cases "goal \<le> acc")
    case True
    then show ?thesis by (subst take_share.simps) simp
  next
    case False
    then have s: "s < length f" using 1(3) by (cases "s < length f") (auto simp: total_def word_le_nat_alt)
    have u: "unat (acc + f ! s) = unat acc + unat (f ! s)" using 1(2) total_drop [OF s] by (subst unat_add_u32) auto
    have t: "take_share f goal s acc = take_share f goal (Suc s) (acc + f ! s)" using False s by (subst take_share.simps) simp
    have "\<not> length f \<le> s" using s by simp
    from 1(1) [OF False this] 1(2,3) show ?thesis unfolding t u using total_drop [OF s] by (simp add: add.assoc)
  qed
qed

lemma initial_groups_some:
  assumes "n \<le> 8" "unat left = total (drop s2 f)" "total (drop s2 f) < 2 ^ 32"
  shows "initial_groups f ineff n left s1 s2 cl = Too_many_groups
    \<or> (\<exists>clens. initial_groups f ineff n left s1 s2 cl = Groups clens \<and> length clens = length cl + n)"
  using assms
proof (induction n arbitrary: left s1 s2 cl)
  case (Suc n)
  define goal where "goal = left div of_nat (Suc n)"
  have "unat (of_nat (Suc n) :: u32) = Suc n" using Suc.prems(1) by (intro unat_of_nat_small) simp
  then have "unat goal = unat left div Suc n" unfolding goal_def unat_div by (simp only:)
  then have "unat goal \<le> total (drop s2 f)" using Suc.prems(2) div_le_dividend [of "unat left" "Suc n"] by simp
  then obtain s' acc where a: "take_share f goal s2 0 = Some (s', acc)" "unat acc + total (drop s' f) = total (drop s2 f)"
    using take_share_some [of 0 s2 f goal] Suc.prems(3) by auto
  have "acc \<le> left" using a(2) Suc.prems(2) by (simp add: word_le_nat_alt)
  then have "unat (left - acc) = unat left - unat acc" by (simp add: unat_sub)
  then have "unat (left - acc) = total (drop s' f)" using a(2) Suc.prems(2) by simp
  note IH = Suc.IH [OF _ this, of "s' + 1" "cl @ [map (\<lambda>s. if s1 \<le> s \<and> s \<le> s' then 1 else 16) [0 ..< ALPHABET_SIZE]]"]
  have "initial_groups f ineff (Suc n) left s1 s2 cl = (if goal = 0 \<and> \<not> ineff then Too_many_groups
      else initial_groups f ineff n (left - acc) (s' + 1) s'
        (cl @ [map (\<lambda>s. if s1 \<le> s \<and> s \<le> s' then 1 else 16) [0 ..< ALPHABET_SIZE]]))"
    by (simp only: initial_groups.simps Let_def goal_def [symmetric] a option.case prod.case)
  with IH a(2) Suc.prems(1,3) show ?case by (auto simp del: initial_groups.simps)
qed simp

end
