(* ===== verification/Xd3_Djw_Sectors.thy ===== *)
theory Xd3_Djw_Sectors
  imports Xd3_Djw_Choice
begin

text \<open>
  Sending the bytes of the sectors with the table of each, and the selectors that say which table that is.
\<close>

section \<open>The bytes\<close>

fun sector_bits :: "u8 list list \<Rightarrow> nat list \<Rightarrow> u8 list list \<Rightarrow> bool list" where
  "sector_bits clens (gp # gps) (sec # scs) = coded_with (lens (clens ! gp)) (map unat sec) @ sector_bits clens gps scs"
| "sector_bits clens _ _ = []"

text \<open>Every table has codes for some bytes.\<close>

definition has_codes :: "u8 list list \<Rightarrow> u8 list \<Rightarrow> bool" where
  "has_codes clens bs \<longleftrightarrow>
    (\<forall>c \<in> set clens. usable 20 c \<and> length c = 256 \<and> (\<forall>b \<in> set bs. c ! unat b \<noteq> 0))"

lemma has_codesD:
  assumes "has_codes clens bs" "g < length clens"
  shows "usable 20 (clens ! g)" "length (clens ! g) = 256" "b \<in> set bs \<Longrightarrow> clens ! g ! unat b \<noteq> 0"
  using assms nth_mem [OF assms(2)] unfolding has_codes_def by blast+

lemma has_codes_append: "has_codes clens (xs @ ys) \<longleftrightarrow> has_codes clens xs \<and> has_codes clens ys"
  by (auto simp: has_codes_def)

lemma covers_codes: "covers (counts 256 (map unat input)) clens \<Longrightarrow> length input < 2 ^ 32 \<Longrightarrow> has_codes clens input"
  using counts_of_bytes(3) [of input] unat_u8_less by (auto simp: covers_def has_codes_def)

lemma encode_sectors_writes:
  assumes "length gbest = length scs" "\<forall>g \<in> set gbest. g < length clens" "has_codes clens (concat scs)"
  shows "writes (encode_sectors clens gbest scs :: 'a bit_out \<Rightarrow> _) (sector_bits clens gbest scs)"
  using assms
proof (induction gbest scs rule: list_induct2)
  case Nil
  have "(encode_sectors clens [] [] :: 'a bit_out \<Rightarrow> _) = (\<lambda>w. (XD3_OK, w))" by (rule ext) simp
  then show ?case using writes_nil by simp
next
  case (Cons gp gps sec scs)
  have "writes (write_all (\<lambda>b. encode_symbol (clens ! gp) (djw_build_codes (clens ! gp)) (unat b)) sec :: 'a bit_out \<Rightarrow> _)
      (coded_with (lens (clens ! gp)) (map unat sec))"
    by (rule writes_bytes) (use Cons.prems has_codesD [of clens "concat (sec # scs)" gp] in auto)
  moreover have "writes (encode_sectors clens gps scs :: 'a bit_out \<Rightarrow> _) (sector_bits clens gps scs)"
    using Cons by (simp add: has_codes_append)
  moreover have "(encode_sectors clens (gp # gps) (sec # scs) :: 'a bit_out \<Rightarrow> _)
      = (\<lambda>w. bind_ok (write_all (\<lambda>b. encode_symbol (clens ! gp) (djw_build_codes (clens ! gp)) (unat b)) sec w) (encode_sectors clens gps scs))"
    by (rule ext) (use Cons.prems(1) in simp)
  ultimately show ?case using writes_bind by fastforce
qed

definition tables_for :: "u8 list list \<Rightarrow> djw_table list \<Rightarrow> bool" where
  "tables_for clens tbs \<longleftrightarrow> length tbs = length clens \<and> (\<forall>g < length clens. table_for (lens (clens ! g)) (tbs ! g))"

lemma decode_sectors_reads:
  assumes "n \<noteq> 0" "has_codes clens xs" "tables_for clens tbs" "length clens \<le> 8"
    "length gbest = length (sectors n xs)" "\<forall>g \<in> set gbest. g < length clens"
  shows "reads (decode_sectors tbs n (map of_nat gbest) (length xs) :: ('a, unit) reader) (sector_bits clens gbest (sectors n xs)) xs ()"
  using assms
proof (induction n xs arbitrary: gbest rule: sectors.induct)
  case (1 n xs)
  show ?case
  proof (cases "xs = []")
    case True
    have "sectors n xs = []" by (subst sectors.simps) (simp add: True)
    with True 1 show ?thesis by (simp add: reads_return)
  next
    case False
    have s: "sectors n xs = take n xs # sectors n (drop n xs)" by (subst sectors.simps) (use 1 False in simp)
    then obtain gp gps where g: "gbest = gp # gps" "length gps = length (sectors n (drop n xs))"
      using 1(6) by (cases gbest) auto
    have gp: "gp < length clens" "unat (of_nat gp :: u8) = gp" using 1(5,7) g(1) by (auto intro!: unat_of_nat_small)
    have hc: "has_codes clens (take n xs)" "has_codes clens (drop n xs)"
      using has_codes_append [of clens "take n xs" "drop n xs"] 1(3) by simp_all
    have r1: "reads (decode_sector (tbs ! gp) (length (take n xs)) :: ('a, unit) reader)
        (coded_with (lens (clens ! gp)) (map unat (take n xs))) (take n xs) ()"
      by (rule reads_bytes) (use has_codesD [OF hc(1) gp(1)] 1(4) gp(1) in \<open>auto simp: tables_for_def\<close>)
    have c: "\<not> (n = 0 \<or> xs = [])" using 1(2) False by simp
    have r2: "reads (decode_sectors tbs n (map of_nat gps) (length (drop n xs)) :: ('a, unit) reader)
        (sector_bits clens gps (sectors n (drop n xs))) (drop n xs) ()"
      by (rule 1(1) [OF c]) (use 1 g hc in auto)
    have d: "(decode_sectors tbs n (map of_nat gbest) (length xs) :: ('a, unit) reader)
        = rbind (decode_sector (tbs ! gp) (length (take n xs))) (\<lambda>_. decode_sectors tbs n (map of_nat gps) (length (drop n xs)))"
    proof -
      define m where "m = min n (length xs)"
      have m: "m \<noteq> 0" "length xs - m = length xs - n" "length (take n xs) = m" using c by (auto simp: min_def m_def)
      show ?thesis unfolding m(3) using m(1,2) gp 1(4) by (simp add: g(1) Let_def tables_for_def m_def [symmetric])
    qed
    from reads_bind [where k = "\<lambda>_. decode_sectors tbs n (map of_nat gps) (length (drop n xs))", OF r1 r2]
    show ?thesis unfolding d by (simp add: s g(1))
  qed
qed

section \<open>The selectors\<close>

abbreviation group_numbers :: "nat \<Rightarrow> u8 list" where
  "group_numbers n \<equiv> map of_nat [0 ..< n]"

lemma counts_take: "\<forall>x \<in> set xs. x < n \<Longrightarrow> take n (counts (Suc n) xs) = counts n xs"
  by (rule nth_equalityI) (simp_all add: fold_count_nth del: replicate_Suc)

lemma selector_code:
  assumes "gbest \<noteq> []" "\<forall>g \<in> set gbest. g < groups" "2 \<le> groups" "groups \<le> 8" "length gbest < 2 ^ 31" "length gbest \<le> cap"
  defines "mtfsym \<equiv> mtf_code (map of_nat gbest) (group_numbers groups) 0"
  obtains gclen b where "djw_compute_selector_1_2 cap (map of_nat gbest) groups = Some (mtfsym, counts (groups + 2) mtfsym)"
    "djw_build_prefix (take (groups + 1) (counts (groups + 2) mtfsym)) 7 = Some (gclen, b)"
    "djw_build_prefix (counts (groups + 1) mtfsym) 7 = Some (gclen, b)" "length gclen = groups + 1" "usable 7 gclen"
    "\<And>m. m \<in> set mtfsym \<Longrightarrow> m < groups + 1 \<and> gclen ! m \<noteq> 0" "mtfsym \<noteq> []"
proof -
  have sub: "set (map of_nat gbest) \<subseteq> set (group_numbers groups)" using assms(2) by auto
  have m: "djw_compute_selector_1_2 cap (map of_nat gbest) groups = Some (mtfsym, counts (groups + 2) mtfsym)"
    using compute_mtf_fits [OF sub, of cap groups] assms(3,4,6) by (simp add: djw_compute_selector_1_2_def mtfsym_def)
  have len: "length mtfsym < 2 ^ 31" using mtf_code_length [of "map of_nat gbest" "group_numbers groups" 0] assms(5) by (simp add: mtfsym_def)
  have bnd: "\<forall>m \<in> set mtfsym. m < groups + 1"
    using mtf_code_bound [of _ "map of_nat gbest" "group_numbers groups" 0] assms(3) by (fastforce simp: mtfsym_def)
  have ne: "mtfsym \<noteq> []" using mtf_code_some [OF sub, of 0] assms(1) by (simp add: mtfsym_def)
  have tk: "take (groups + 1) (counts (groups + 2) mtfsym) = counts (groups + 1) mtfsym" using counts_take [OF bnd] by simp
  have "2 \<le> groups + 1" "groups + 1 \<le> 256" "2 * (groups + 1) < fibo (7 + 2)" using assms(3,4) fibo_values by simp_all
  from symbols_code [OF ne bnd len this(1,2) _ this(3)] m ne tk that show ?thesis by auto
qed

definition selector_bits :: "nat \<Rightarrow> nat list \<Rightarrow> bool list" where
  "selector_bits groups gbest =
    (let mtfsym = mtf_code (map of_nat gbest) (group_numbers groups) 0;
         gclen = fst (the (djw_build_prefix (counts (groups + 1) mtfsym) 7)) in
     concat (map (\<lambda>c. msb_bits 3 (ucast c :: u32)) gclen) @ coded_with (lens gclen) mtfsym)"

lemma reads_finally: "reads m bs out v \<Longrightarrow> reads (finally_free m) bs out v"
proof (unfold reads_def [of "finally_free m"], intro allI impI)
  fix s :: "'a sec_in" and rest
  assume m: "reads m bs out v" and s: "mem_ok (strm s)" "holds s (bs @ rest)"
  from readsD [OF m s] obtain s' where s': "m s = (Inr v, s')" "holds s' rest" "in_out s' = in_out s @ out" "base_step (strm s) (strm s')" .
  then have "base_step (strm s) (xd3_free (strm s'))" using base_step_trans free_step by blast
  with s' show "\<exists>s''. finally_free m s = (Inr v, s'') \<and> holds s'' rest \<and> in_out s'' = in_out s @ out \<and> base_step (strm s) (strm s'')"
    by (simp add: finally_free_def holds_def)
qed

lemma decode_selectors_reads:
  assumes g: "gbest \<noteq> []" "\<forall>g \<in> set gbest. g < groups" "2 \<le> groups" "groups \<le> 8" "length gbest < 2 ^ 31"
    and n: "unat n = length gbest" and k: "reads (k (map of_nat gbest) :: ('a, unit) reader) bs out v"
  shows "reads (decode_selectors groups n k :: ('a, unit) reader) (selector_bits groups gbest @ bs) out v"
proof -
  define mtfsym where "mtfsym = mtf_code (map of_nat gbest) (group_numbers groups) 0"
  obtain gclen b where c: "djw_build_prefix (counts (groups + 1) mtfsym) 7 = Some (gclen, b)" "length gclen = groups + 1" "usable 7 gclen"
    "\<And>m. m \<in> set mtfsym \<Longrightarrow> m < groups + 1 \<and> gclen ! m \<noteq> 0" "mtfsym \<noteq> []"
    using selector_code [OF g order_refl] unfolding mtfsym_def by metis
  have le: "\<forall>c \<in> set gclen. unat c \<le> 7" using usable_le [OF c(3)] by blast
  have ex: "\<exists>c \<in> set gclen. c \<noteq> 0"
    by (rule bexI [of _ "gclen ! hd mtfsym"]) (use c(2,5) c(4) [of "hd mtfsym"] in auto)
  obtain tb where tb: "djw_build_decoder 7 gclen = Some tb" "table_for (lens gclen) tb"
    using build_decoder_spec [OF le ex] c(2) g(4) by auto
  have one: "reads (xd3_decode_bits 3 :: ('a, u32) reader) (msb_bits 3 x) [] x" if x: "x \<in> set (map ucast gclen)" for x
  proof (rule reads_decode_bits)
    obtain c where "c \<in> set gclen" "x = ucast (c :: u8)" using x by auto
    then have "unat x \<le> 7" using le by simp
    then show "unat x < 2 ^ 3" by simp
  qed simp_all
  have r1: "reads (rtimes (length (map (ucast :: u8 \<Rightarrow> u32) gclen)) (xd3_decode_bits 3) :: ('a, u32 list) reader)
      (concat (map (msb_bits 3) (map (ucast :: u8 \<Rightarrow> u32) gclen))) [] (map ucast gclen)"
    by (rule reads_times) (rule one)
  have "ucast (ucast c :: u32) = c" for c :: u8 unfolding word_bits_iff by (simp add: bit_simps)
  then have id: "map ucast (map (ucast :: u8 \<Rightarrow> u32) gclen) = gclen" unfolding map_map by (intro map_idI) (simp only: o_apply)
  have sub: "set (kept 0 (map of_nat gbest) 0) \<subseteq> set (group_numbers groups)" using g(2) by (auto simp: kept_def skips_def)
  have kept: "kept 0 (map of_nat gbest) 0 = (map of_nat gbest :: u8 list)"
    by (rule nth_equalityI) (simp_all add: kept_def skips_def)
  have sym: "reads (djw_decode_symbol tb DJW_TOTAL_CODES :: ('a, nat) reader) (symbol_bits (lens gclen) m) [] m"
    if "m \<in> set (mtf_code (kept 0 (map of_nat gbest) 0) (group_numbers groups) 0)" for m
    by (rule reads_symbol [OF c(3) tb(2)]) (use c(2) c(4) [of m] that g(4) in \<open>simp_all add: kept mtfsym_def\<close>)
  have "skip_ok 0 (map of_nat gbest)" "length (map of_nat gbest :: u8 list) < 2 ^ 32" "group_numbers groups \<noteq> []"
    using g(3,5) by (simp_all add: skip_ok_def skips_def)
  from decode_1_2_reads [OF this sub sym, of "[of_nat groups]"]
  have r2: "reads (djw_decode_1_2 tb (group_numbers (groups + 1)) (unat n) 0 :: ('a, u8 list) reader) (coded_with (lens gclen) mtfsym) [] (map of_nat gbest)"
    by (simp add: n kept coded_with_def mtfsym_def)
  note r3 = reads_bind [where k = k, OF r2 k]
  have r4: "reads (rbind (rget (djw_build_decoder 7 (map ucast (map (ucast :: u8 \<Rightarrow> u32) gclen))))
      (\<lambda>tb. rbind (djw_decode_1_2 tb (group_numbers (groups + 1)) (unat n) 0) k) :: ('a, unit) reader) (coded_with (lens gclen) mtfsym @ bs) ([] @ out) v"
    unfolding id tb(1) rbind_get_Some by (rule r3)
  note r5 = reads_bind_pure [where k = "\<lambda>_. finally_free (rbind (rget (djw_build_decoder 7 (map ucast (map (ucast :: u8 \<Rightarrow> u32) gclen))))
      (\<lambda>tb. rbind (djw_decode_1_2 tb (group_numbers (groups + 1)) (unat n) 0) k))", OF reads_alloc reads_finally [OF r4], of n 1]
  have bits: "selector_bits groups gbest = concat (map (msb_bits 3) (map (ucast :: u8 \<Rightarrow> u32) gclen)) @ coded_with (lens gclen) mtfsym"
    using c(1) by (simp add: selector_bits_def mtfsym_def Let_def comp_def)
  from reads_bind [where k = "\<lambda>sel_clen. rbind (ralloc n 1) (\<lambda>_. finally_free (rbind (rget (djw_build_decoder 7 (map ucast sel_clen)))
      (\<lambda>tb. rbind (djw_decode_1_2 tb (group_numbers (groups + 1)) (unat n) 0) k)))", OF r1 r5] c(2)
  show ?thesis unfolding decode_selectors_def bits by simp
qed

end
