(* ===== verification/Xd3_Djw_Spec.thy ===== *)
theory Xd3_Djw_Spec
  imports Xd3_Djw_Sectors
begin

text \<open>
  The static Huffman compressor as a whole: what \<open>xd3_encode_huff\<close> writes is read back by \<open>xd3_decode_huff\<close>, and the
  encoder never leaves its arrays and never loops.  With that the compressor is an instance of the contract
  \<open>sec_compressor\<close> that the section routines rely on.
\<close>

section \<open>Writers that may give up\<close>

definition attempts :: "('a bit_out \<Rightarrow> xd3_ret \<times> 'a bit_out) \<Rightarrow> bool list \<Rightarrow> bool" where
  "attempts m bs \<longleftrightarrow> (\<forall>w xs r w'. wrote w xs \<longrightarrow> m w = (r, w') \<longrightarrow>
      written w w' \<and> (r = XD3_OK \<or> r = XD3_NOSECOND \<or> no_mem (snd (snd w)) r) \<and> (r = XD3_OK \<longrightarrow> wrote w' (xs @ bs)))"

lemma attemptsD:
  assumes "attempts m bs" "wrote w xs" "m w = (r, w')"
  shows "written w w'" "r = XD3_OK \<or> r = XD3_NOSECOND \<or> no_mem (snd (snd w)) r" "r = XD3_OK \<Longrightarrow> wrote w' (xs @ bs)"
  using assms unfolding attempts_def by blast+

lemma attempts_writes: "writes m bs \<Longrightarrow> attempts m bs"
  unfolding writes_def attempts_def by blast

lemma attempts_bind:
  assumes "writes f bs" "attempts g bs'"
  shows "attempts (\<lambda>w. bind_ok (f w) g) (bs @ bs')"
proof (unfold attempts_def, intro allI impI)
  fix w xs r w'
  assume w: "wrote w xs" and b: "bind_ok (f w) g = (r, w')"
  obtain r1 w1 where f: "f w = (r1, w1)" by (cases "f w")
  note f1 = writesD [OF assms(1) w f]
  show "written w w' \<and> (r = XD3_OK \<or> r = XD3_NOSECOND \<or> no_mem (snd (snd w)) r) \<and> (r = XD3_OK \<longrightarrow> wrote w' (xs @ bs @ bs'))"
  proof (cases "r1 = XD3_OK")
    case True
    then have g: "g w1 = (r, w')" "wrote w1 (xs @ bs)" using b f f1 by simp_all
    from attemptsD [OF assms(2) g(2,1)] f1(1) show ?thesis by (auto intro: written_trans simp: no_mem_written)
  next
    case False
    then show ?thesis using b f f1 by auto
  qed
qed

lemma nosecond_written: "wrote w xs \<Longrightarrow> nosecond w = (r, w') \<Longrightarrow> written w w' \<and> r = XD3_NOSECOND"
  by (auto simp: nosecond_def wrote_def written_def chain_inv_def pool_wf_def split: prod.splits intro!: base_step_eqI)

lemma attempts_check: "attempts f bs \<Longrightarrow> attempts (\<lambda>w. if c w then nosecond w else f w) bs"
  using nosecond_written unfolding attempts_def by (smt (verit) xd3_ret.distinct)

section \<open>One group\<close>

lemma rbind_return: "rbind (rreturn x) k = k x"
  by (simp add: rbind_def rreturn_def fun_eq_iff)

lemma one_group_parts:
  fixes input :: "u8 list"
  assumes "usable 20 clen" "length clen = 256" "\<And>x. x \<in> set input \<Longrightarrow> clen ! unat x \<noteq> 0"
  shows "writes (djw_encode_prefix 256 clen :: 'a bit_out \<Rightarrow> _) (sent_lengths clen)"
    "writes (write_all (\<lambda>b. encode_symbol clen (djw_build_codes clen) (unat b)) input :: 'a bit_out \<Rightarrow> _) (coded_with (lens clen) (map unat input))"
proof -
  have le: "\<forall>c \<in> set clen. unat c \<le> 20" using usable_le [OF assms(1)] by blast
  have "clen \<noteq> []" "length clen < 2 ^ 31" "length clen \<le> 256" using assms(2) by auto
  then show "writes (djw_encode_prefix 256 clen :: 'a bit_out \<Rightarrow> _) (sent_lengths clen)" by (rule encode_prefix_writes [OF le])
  show "writes (write_all (\<lambda>b. encode_symbol clen (djw_build_codes clen) (unat b)) input :: 'a bit_out \<Rightarrow> _) (coded_with (lens clen) (map unat input))"
    by (rule writes_bytes [OF assms])
qed

lemma one_group_attempts:
  assumes "djw_build_prefix real 20 = Some (clen, b)" "usable 20 clen" "length clen = 256" "\<And>x. x \<in> set input \<Longrightarrow> clen ! unat x \<noteq> 0"
  shows "attempts (encode_one_group real input ib ineff :: 'a bit_out \<Rightarrow> _) (sent_lengths clen @ coded_with (lens clen) (map unat input))"
proof -
  have "encode_one_group real input ib ineff = (\<lambda>w :: 'a bit_out. if b + EFFICIENCY_BITS \<ge> ib \<and> \<not> ineff then nosecond w
    else bind_ok (djw_encode_prefix 256 clen w) (\<lambda>w. if b + 8 * page_fill w + EFFICIENCY_BITS \<ge> ib \<and> \<not> ineff then nosecond w
      else write_all (\<lambda>b. encode_symbol clen (djw_build_codes clen) (unat b)) input w))"
    by (rule ext) (simp only: encode_one_group_def DJW_MAX_CODELEN_def ALPHABET_SIZE_def assms(1) Let_def option.case prod.case)
  then show ?thesis
    using attempts_check [OF attempts_bind [OF one_group_parts(1) attempts_check [OF attempts_writes [OF one_group_parts(2)]]], OF assms(2-4) assms(2-4)]
    by (simp only:)
qed

text \<open>Without the tests for efficiency the encoder never gives up.\<close>

lemma one_group_forced:
  assumes "djw_build_prefix real 20 = Some (clen, b)" "usable 20 clen" "length clen = 256" "\<And>x. x \<in> set input \<Longrightarrow> clen ! unat x \<noteq> 0"
  shows "writes (encode_one_group real input ib True :: 'a bit_out \<Rightarrow> _) (sent_lengths clen @ coded_with (lens clen) (map unat input))"
proof -
  have "encode_one_group real input ib True = (\<lambda>w :: 'a bit_out. bind_ok (djw_encode_prefix 256 clen w)
      (write_all (\<lambda>b. encode_symbol clen (djw_build_codes clen) (unat b)) input))"
    by (rule ext) (simp add: encode_one_group_def DJW_MAX_CODELEN_def ALPHABET_SIZE_def assms(1) Let_def)
  then show ?thesis using writes_bind [OF one_group_parts, OF assms(2-4) assms(2-4)] by (simp only:)
qed

section \<open>Several groups\<close>

lemma covers_props:
  assumes "covers real clens"
  defines "symbols \<equiv> djw_compute_multi_prefix (length clens) clens"
  shows "\<forall>c \<in> set symbols. unat c \<le> 20" "symbols \<noteq> []" "length symbols < 2 ^ 31" "length symbols \<le> 2048"
proof -
  have c: "length c = 256" "\<forall>l \<in> set c. unat l \<le> 20" if "c \<in> set clens" for c
    using assms(1) that usable_le by (auto simp: covers_def)
  have g: "g < length clens \<Longrightarrow> clens ! g \<in> set clens" for g by simp
  have ne: "clens ! 0 \<in> set clens" "length clens \<le> 8" "clens \<noteq> []" using assms(1) by (auto simp: covers_def)
  have "\<exists>k \<in> set clens. x \<in> set k" if "x \<in> set symbols" for x
    using that ne(1) by (auto simp: symbols_def djw_compute_multi_prefix_def intro: g)
  then show "\<forall>c \<in> set symbols. unat c \<le> 20" using c(2) by blast
  show "symbols \<noteq> []" using c(1) [OF ne(1)] by (auto simp: symbols_def djw_compute_multi_prefix_def)
  have "length (concat (map (\<lambda>gp. filter (\<lambda>c. c \<noteq> 0) (clens ! gp)) [1 ..< n])) \<le> 256 * (n - 1)" if "n \<le> length clens" for n
    using that
  proof (induction n)
    case (Suc n)
    have "length (filter (\<lambda>c. c \<noteq> 0) (clens ! n)) \<le> 256" using c(1) [OF g, of n] Suc.prems length_filter_le [of "\<lambda>c. c \<noteq> 0" "clens ! n"] by simp
    with Suc show ?case by (cases n) simp_all
  qed simp
  from this [of "length clens"] c(1) [OF ne(1)] ne(2,3) show "length symbols \<le> 2048"
    by (cases "length clens") (simp_all add: symbols_def djw_compute_multi_prefix_def)
  then show "length symbols < 2 ^ 31" by simp
qed

lemma selected_attempts:
  assumes g: "gbest \<noteq> []" "\<forall>g \<in> set gbest. g < groups" "2 \<le> groups" "groups \<le> 8" "length gbest < 2 ^ 31" "length gbest \<le> cap"
    and c: "length clens = groups" "length gbest = length scs" "has_codes clens (concat scs)"
  shows "attempts (encode_selected cap groups gbest clens ob scs ib ineff :: 'a bit_out \<Rightarrow> _) (selector_bits groups gbest @ sector_bits clens gbest scs)"
proof -
  define mtfsym where "mtfsym = mtf_code (map of_nat gbest) (group_numbers groups) 0"
  obtain gclen b where s: "djw_compute_selector_1_2 cap (map of_nat gbest) groups = Some (mtfsym, counts (groups + 2) mtfsym)"
    "djw_build_prefix (take (groups + 1) (counts (groups + 2) mtfsym)) 7 = Some (gclen, b)"
    "djw_build_prefix (counts (groups + 1) mtfsym) 7 = Some (gclen, b)" "length gclen = groups + 1" "usable 7 gclen"
    "\<And>m. m \<in> set mtfsym \<Longrightarrow> m < groups + 1 \<and> gclen ! m \<noteq> 0" "mtfsym \<noteq> []"
    using selector_code [OF g] unfolding mtfsym_def by metis
  have w: "attempts (\<lambda>w :: 'a bit_out. bind_ok (write_all (\<lambda>c. xd3_encode_bits 3 (ucast c)) gclen w)
      (\<lambda>w. bind_ok (write_all (encode_symbol gclen (djw_build_codes gclen)) mtfsym w)
        (\<lambda>w. if ob + b + 8 * page_fill w + EFFICIENCY_BITS \<ge> ib \<and> \<not> ineff then nosecond w else encode_sectors clens gbest scs w)))
    (concat (map (\<lambda>c. msb_bits 3 (ucast c :: u32)) gclen) @ coded_with (lens gclen) mtfsym @ sector_bits clens gbest scs)"
    by (intro attempts_bind writes_all writes_encode_bits writes_symbols [OF s(5)] attempts_check attempts_writes encode_sectors_writes)
      (use s(4,6) c g(2) in simp_all)
  have "encode_selected cap groups gbest clens ob scs ib ineff = (\<lambda>w :: 'a bit_out. bind_ok (write_all (\<lambda>c. xd3_encode_bits 3 (ucast c)) gclen w)
      (\<lambda>w. bind_ok (write_all (encode_symbol gclen (djw_build_codes gclen)) mtfsym w)
        (\<lambda>w. if ob + b + 8 * page_fill w + EFFICIENCY_BITS \<ge> ib \<and> \<not> ineff then nosecond w else encode_sectors clens gbest scs w)))"
    using s(2) by (intro ext) (simp add: encode_selected_def s(1))
  moreover have "selector_bits groups gbest = concat (map (\<lambda>c. msb_bits 3 (ucast c :: u32)) gclen) @ coded_with (lens gclen) mtfsym"
    using s(3) by (simp add: selector_bits_def mtfsym_def Let_def)
  ultimately show ?thesis using w by (simp only: append_assoc)
qed

section \<open>Reading it back\<close>

text \<open>The bits of a section: the number of groups, the sector size, the lengths, the selectors, the bytes.\<close>

definition huff_bits :: "u8 list list \<Rightarrow> nat \<Rightarrow> nat list \<Rightarrow> u8 list list \<Rightarrow> bool list" where
  "huff_bits clens v gbest scs =
    msb_bits 3 (of_nat (length clens - 1) :: u32)
    @ (if length clens = 1 then [] else msb_bits 5 (of_nat v :: u32))
    @ sent_lengths (djw_compute_multi_prefix (length clens) clens)
    @ (if length clens = 1 then [] else selector_bits (length clens) gbest)
    @ sector_bits clens gbest scs"

lemma sector_number:
  assumes "0 < length input" "length input < 2 ^ 32" "unat ss \<noteq> 0"
  shows "unat (gbest_max (of_nat (length input)) ss) = length (sectors (unat ss) input)"
proof -
  have u: "unat (of_nat (length input) :: u32) = length input" using assms(2) by (simp add: unat_of_nat_small)
  then have "(1 :: u32) \<le> of_nat (length input)" using assms(1) by (simp add: word_le_nat_alt Suc_le_eq)
  then have "unat (of_nat (length input) - 1 :: u32) = length input - 1" by (simp add: unat_sub u)
  define q where "q = (length input - 1) div unat ss"
  have q: "q < 2 ^ 32 - 1" using div_le_dividend [of "length input - 1" "unat ss"] assms(1,2) unfolding q_def by linarith
  have "unat ((of_nat (length input) - 1) div ss :: u32) = q"
    using \<open>unat (of_nat (length input) - 1 :: u32) = length input - 1\<close> by (simp add: unat_div q_def)
  then have "unat (1 + (of_nat (length input) - 1) div ss :: u32) = 1 + q" using q by (subst unat_add_u32) simp_all
  then show ?thesis using sectors_count [OF assms(3), of input] assms(1) by (simp add: q_def gbest_max_def)
qed

lemma decode_huff_reads:
  fixes ss :: u32
  assumes input: "input \<noteq> []" "length input < 2 ^ 31" and ok: "tables_ok clens" "has_codes clens input"
    and ss: "unat ss \<noteq> 0" "if length clens = 1 then ss = of_nat (length input) else v < 32 \<and> ss = of_nat (5 * (v + 1))"
    and gb: "length gbest = length (sectors (unat ss) input)" "\<forall>g \<in> set gbest. g < length clens"
  shows "reads (decode_huff (of_nat (length input)) :: ('a, unit) reader) (huff_bits clens v gbest (sectors (unat ss) input)) input ()"
proof -
  define ob :: u32 where "ob = of_nat (length input)"
  define gs where "gs = length clens"
  define n where "n = 1 + (ob - 1) div ss"
  have g8: "1 \<le> gs" "gs \<le> 8" using ok(1) by (auto simp: tables_ok_def gs_def Suc_le_eq)
  have ob: "unat ob = length input" "ob \<noteq> 0" using input by (auto simp: ob_def unat_of_nat_small word_unat_eq_iff)
  have n: "unat n = length gbest" using sector_number [of input ss] input ss(1) gb(1) by (simp add: n_def ob_def gbest_max_def)
  have gbn: "gbest \<noteq> []" "length gbest < 2 ^ 31"
  proof -
    have "0 < length input" using input(1) by simp
    then have "1 \<le> length (sectors (unat ss) input)" "length (sectors (unat ss) input) \<le> length input"
      using sectors_count [OF ss(1) input(1)] div_le_dividend [of "length input - 1" "unat ss"] by linarith+
    then show "gbest \<noteq> []" "length gbest < 2 ^ 31" using gb(1) input(2) by auto
  qed
  define run :: "djw_table list \<Rightarrow> u8 list \<Rightarrow> ('a, unit) reader" where "run tbs sel = decode_sectors tbs (unat ss) sel (length input)" for tbs sel
  have data: "reads (run tbs (map of_nat gbest) :: ('a, unit) reader) (sector_bits clens gbest (sectors (unat ss) input)) input ()"
    if "length tbs = length clens" "\<And>g. g < length clens \<Longrightarrow> table_for (lens (clens ! g)) (tbs ! g)" for tbs
    unfolding run_def
    by (rule decode_sectors_reads [OF ss(1) ok(2) _ _ gb]) (use that g8 in \<open>simp_all add: tables_for_def gs_def\<close>)
  have sel: "reads (if 1 < gs then decode_selectors gs n (run tbs) else run tbs (replicate (unat n) 0) :: ('a, unit) reader)
      ((if gs = 1 then [] else selector_bits gs gbest) @ sector_bits clens gbest (sectors (unat ss) input)) input ()"
    if t: "length tbs = length clens" "\<And>g. g < length clens \<Longrightarrow> table_for (lens (clens ! g)) (tbs ! g)" for tbs
  proof (cases "gs = 1")
    case True
    have "gbest ! i = 0" if "i < length gbest" for i using gb(2) True nth_mem [OF that] by (auto simp: gs_def)
    then have "map of_nat gbest = replicate (unat n) (0 :: u8)" by (intro nth_equalityI) (simp_all add: n)
    then show ?thesis using data [OF t] True by simp
  next
    case False
    then have "2 \<le> gs" using g8 by simp
    from decode_selectors_reads [where k = "run tbs", OF gbn(1) gb(2) [folded gs_def] this g8(2) gbn(2) n data [OF t]] False \<open>2 \<le> gs\<close> show ?thesis by simp
  qed
  note r3 = tables_read [where k = "\<lambda>tbs. if 1 < gs then decode_selectors gs n (run tbs) else run tbs (replicate (unat n) 0)", OF ok(1) sel, folded gs_def]
  have r2: "reads (decode_sector_size gs ob :: ('a, u32) reader) (if gs = 1 then [] else msb_bits 5 (of_nat v :: u32)) [] ss"
  proof (cases "gs = 1")
    case True
    then show ?thesis using ss(2) by (simp add: decode_sector_size_def reads_return ob_def gs_def)
  next
    case False
    with ss(2) have v: "v < 32" "ss = of_nat (5 * (v + 1))" by (simp_all add: gs_def)
    have "unat (of_nat v :: u32) = v" using v(1) by (simp add: unat_of_nat_small)
    then have b: "reads (xd3_decode_bits 5 :: ('a, u32) reader) (msb_bits 5 (of_nat v :: u32)) [] (of_nat v)"
      by (intro reads_decode_bits) (use v(1) in simp_all)
    have "(of_nat v + 1) * 5 = ss" unfolding v(2) by (simp add: algebra_simps)
    then have "reads (rreturn ((of_nat v + 1) * DJW_SECTORSZ_MULT) :: ('a, u32) reader) [] [] ss" by (simp add: reads_return)
    from reads_bind0 [where k = "\<lambda>v. rreturn ((v + 1) * DJW_SECTORSZ_MULT)", OF b this] False g8 show ?thesis
      by (simp add: decode_sector_size_def)
  qed
  note r4 = reads_bind [where k = "\<lambda>ss'. let sectors = 1 + (ob - 1) div ss' in rbind djw_decode_clclen (\<lambda>cl. rbind (djw_decode_prefix cl gs)
      (\<lambda>clen. rbind (rget (group_tables gs clen)) (\<lambda>tbs. let run = (\<lambda>sel. decode_sectors tbs (unat ss') sel (unat ob)) in
        if 1 < gs then decode_selectors gs sectors run else run (replicate (unat sectors) 0))))", OF r2, unfolded Let_def,
      folded n_def, unfolded ob(1), folded run_def, OF r3]
  have u1: "unat (of_nat (gs - 1) :: u32) = gs - 1" by (rule unat_of_nat_small) (use g8 in simp)
  with g8 have u: "unat (of_nat (gs - 1) :: u32) = gs - 1" "unat (of_nat (gs - 1) :: u32) + 1 = gs" by linarith+
  have r1: "reads (xd3_decode_bits 3 :: ('a, u32) reader) (msb_bits 3 (of_nat (gs - 1) :: u32)) [] (of_nat (gs - 1))"
    by (rule reads_decode_bits) (use g8 in \<open>simp_all only: u(1)\<close>, simp_all)
  note r5 = reads_bind [where k = "\<lambda>g. rbind (decode_sector_size (unat g + 1) ob) (\<lambda>ss'. rbind djw_decode_clclen (\<lambda>cl. rbind (djw_decode_prefix cl (unat g + 1))
      (\<lambda>clen. rbind (rget (group_tables (unat g + 1) clen)) (\<lambda>tbs.
        if 1 < unat g + 1 then decode_selectors (unat g + 1) (1 + (ob - 1) div ss') (\<lambda>sel. decode_sectors tbs (unat ss') sel (unat ob))
        else decode_sectors tbs (unat ss') (replicate (unat (1 + (ob - 1) div ss')) 0) (unat ob)))))", OF r1, unfolded u(2)]
  have "reads (decode_huff ob :: ('a, unit) reader) (huff_bits clens v gbest (sectors (unat ss) input)) input ()"
    unfolding decode_huff_def Let_def huff_bits_def gs_def [symmetric] if_not_P [OF ob(2)] ob(1) DJW_GROUP_BITS_def
    using r5 [unfolded ob(1), OF r4 [unfolded run_def]] by (simp only: append_Nil run_def)
  then show ?thesis by (simp add: ob_def)
qed

section \<open>Starting again with one group less\<close>

text \<open>Before the selectors are allocated, a try has only written bits: at most one byte for each, behind what the page held
  before.  So taking back the fill of the page undoes it, as long as the page had room for them.\<close>

definition rewindable :: "xd3_output list \<Rightarrow> nat \<Rightarrow> 'a bit_out \<Rightarrow> bool" where
  "rewindable out0 m w \<longleftrightarrow> (\<exists>new. fst (snd w) = append_last out0 new \<and> length (pg_data (last out0)) + length new + m \<le> 16384)"

lemma append_last_twice: "append_last (append_last out0 xs) ys = append_last out0 (xs @ ys)"
  by (simp add: append_last_def)

lemma encode_bit_rewindable:
  assumes "wrote w xs" "rewindable out0 (Suc m) w" "xd3_encode_bit b w = (XD3_OK, w')"
  shows "rewindable out0 m w'"
proof -
  obtain bits out st where w: "w = (bits, out, st)" by (cases w)
  obtain new where new: "out = append_last out0 new" "length (pg_data (last out0)) + length new + Suc m \<le> 16384"
    using assms(2) by (auto simp: rewindable_def w)
  have "chain_wf out" using assms(1) by (auto simp: wrote_def w chain_inv_def)
  note full = page_full_wf [OF chain_wf_last [OF this]]
  have "pg_data (last out) = pg_data (last out0) @ new" by (simp add: new(1) append_last_def)
  then have "\<not> page_full (last out)" unfolding full using new(2) by simp
  then have e: "xd3_emit_byte out c st = (XD3_OK, append_last out [c], st)" for c by (simp add: xd3_emit_byte_def page_room_def)
  have "fst (snd w') = out \<or> (\<exists>c. fst (snd w') = append_last out [c])"
    using assms(3) by (auto simp: xd3_encode_bit_def w Let_def e split: if_splits)
  then show ?thesis
  proof
    assume "fst (snd w') = out"
    then show ?thesis unfolding rewindable_def by (intro exI [of _ new]) (use new in simp)
  next
    assume "\<exists>c. fst (snd w') = append_last out [c]"
    then obtain c where "fst (snd w') = append_last out0 (new @ [c])" using new(1) append_last_twice by auto
    then show ?thesis unfolding rewindable_def by (intro exI [of _ "new @ [c]"]) (use new(2) in simp)
  qed
qed

lemma encode_loop_rewindable:
  assumes "wrote w xs" "rewindable out0 (n + m) w" "encode_bits_loop n msk v w = (XD3_OK, w')"
  shows "rewindable out0 m w'"
  using assms
proof (induction n arbitrary: msk w xs)
  case (Suc n)
  define b where "b = (v AND drop_bit 1 msk \<noteq> 0)"
  obtain r1 w1 where b: "xd3_encode_bit b w = (r1, w1)" by (cases "xd3_encode_bit b w")
  have r1: "r1 = XD3_OK" "encode_bits_loop n (drop_bit 1 msk) v w1 = (XD3_OK, w')"
  proof -
    have "bind_ok (r1, w1) (encode_bits_loop n (drop_bit 1 msk) v) = (XD3_OK, w')"
      using Suc.prems(3) b unfolding b_def by (simp only: encode_bits_loop.simps Let_def)
    then show "r1 = XD3_OK" "encode_bits_loop n (drop_bit 1 msk) v w1 = (XD3_OK, w')" by (cases "r1 = XD3_OK"; simp)+
  qed
  have "wrote w1 (xs @ [b])" using writesD(3) [OF writes_bit Suc.prems(1) b r1(1)] .
  moreover have "rewindable out0 (n + m) w1" using encode_bit_rewindable [OF Suc.prems(1) _ b [unfolded r1(1)]] Suc.prems(2) by simp
  ultimately show ?case using Suc.IH r1(2) by blast
qed simp

lemma encode_bits_rewindable:
  assumes "wrote w xs" "rewindable out0 (n + m) w" "xd3_encode_bits n v w = (XD3_OK, w')"
  shows "rewindable out0 m w'"
  using assms(3) encode_loop_rewindable [OF assms(1,2)] by (auto simp: xd3_encode_bits_def split: if_splits)

lemma rewind_start:
  assumes "rewindable out0 m w" "wrote w xs" "chain_wf out0"
  obtains st where "rewind_page (length (pg_data (last out0))) w = Some (BIT_STATE_ENCODE_INIT, out0, st)"
    "st = snd (snd w)" "pool_wf st"
proof -
  obtain bits out st where w: "w = (bits, out, st)" by (cases w)
  obtain new where new: "out = append_last out0 new" using assms(1) by (auto simp: rewindable_def w)
  have ne: "out0 \<noteq> []" using assms(3) by (simp add: chain_wf_def)
  have l: "last out = (last out0)\<lparr>pg_data := pg_data (last out0) @ new\<rparr>" "butlast out = butlast out0" by (simp_all add: new append_last_def)
  have "butlast out0 @ [(last out0)\<lparr>pg_data := pg_data (last out0)\<rparr>] = out0" using append_butlast_last_id [OF ne] by simp
  then have "rewind_page (length (pg_data (last out0))) w = Some (BIT_STATE_ENCODE_INIT, out0, st)"
    by (simp add: rewind_page_def w l xd3_bit_state_encode_init_def BIT_STATE_ENCODE_INIT_def)
  moreover have "pool_wf st" using assms(2) by (auto simp: wrote_def w chain_inv_def)
  ultimately show ?thesis using that w by simp
qed

lemma alloc_one:
  assumes "(if c then (True, st) else xd3_alloc n 1 st) = (ok, st')"
  shows "base_step st st' \<and> enc_free st' = enc_free st \<and> (ok \<or> \<not> mem_ok st)"
proof (cases c)
  case False
  then have a: "xd3_alloc n 1 st = (ok, st')" using assms by simp
  then have "enc_free st' = enc_free st" by (auto simp: xd3_alloc_def Let_def split: if_splits)
  with alloc_step [OF a] alloc_mem [of n 1 st st'] a show ?thesis by (cases ok) auto
qed (use assms in simp)

lemma alloc_selectors_wrote:
  assumes "wrote w xs" "alloc_selectors h n w = (r, h', w')"
  shows "wrote w' xs" "written w w'" "r = XD3_OK \<or> no_mem (snd (snd w)) r" "fst (snd w') = fst (snd w)"
proof -
  obtain bits out st where w: "w = (bits, out, st)" by (cases w)
  obtain ok1 st1 where a1: "(if fst h then (True, st) else xd3_alloc n 1 st) = (ok1, st1)" by (metis surj_pair)
  obtain ok2 st2 where a2: "(if snd h then (True, st1) else xd3_alloc n 1 st1) = (ok2, st2)" by (metis surj_pair)
  note o1 = alloc_one [OF a1] and o2 = alloc_one [OF a2]
  have e: "alloc_selectors h n w = (if \<not> ok1 then (ENOMEM, (False, snd h), bits, out, st1)
      else if \<not> ok2 then (ENOMEM, (True, False), bits, out, st2) else (XD3_OK, (True, True), bits, out, st2))"
    by (simp add: alloc_selectors_def w a1 a2)
  have mem: "mem_ok st1 = mem_ok st" using o1 mem_ok_step by blast
  have "base_step st st2" using o1 o2 base_step_trans by blast
  then obtain st' where st': "w' = (bits, out, st')" "base_step st st'" "enc_free st' = enc_free st" "r = XD3_OK \<or> no_mem st r"
    using assms(2) e o1 o2 mem by (cases ok1; cases ok2) (auto simp: no_mem_def)
  show "wrote w' xs" using assms(1) st' by (auto simp: wrote_def w chain_inv_def pool_wf_def)
  show "written w w'" using assms(1) st' by (auto simp: wrote_def written_def w chain_inv_def pool_wf_def)
  show "r = XD3_OK \<or> no_mem (snd (snd w)) r" "fst (snd w') = fst (snd w)" using st' by (simp_all add: w)
qed

section \<open>The encoder\<close>

text \<open>What a call that started on the chain \<open>out0\<close> leaves: a result of the three kinds, and after success bits that decode to
  the input.\<close>

definition huff_result :: "'b itself \<Rightarrow> u8 list \<Rightarrow> bool \<Rightarrow> bool list \<Rightarrow> 'a bit_out \<Rightarrow> xd3_ret \<Rightarrow> 'a bit_out \<Rightarrow> bool" where
  "huff_result _ input exact xs w r w' \<longleftrightarrow> written w w' \<and> (r = XD3_OK \<or> r = XD3_NOSECOND \<or> no_mem (snd (snd w)) r)
    \<and> (r = XD3_OK \<longrightarrow> (\<exists>bs. wrote w' (xs @ bs)
        \<and> (exact \<longrightarrow> reads (decode_huff (of_nat (length input)) :: ('b, unit) reader) bs input ())))"

lemma huff_result_attempt:
  assumes "attempts m bs" "wrote w1 (xs @ bs0)" "written w w1" "m w1 = (r, w')"
    and "exact \<Longrightarrow> reads (decode_huff (of_nat (length input)) :: ('b, unit) reader) (bs0 @ bs) input ()"
  shows "huff_result TYPE('b) input exact xs w r w'"
proof -
  note a = attemptsD [OF assms(1,2,4)]
  have "r = XD3_OK \<longrightarrow> (\<exists>bs. wrote w' (xs @ bs) \<and> (exact \<longrightarrow> reads (decode_huff (of_nat (length input)) :: ('b, unit) reader) bs input ()))"
    using a(3) assms(5) by (intro impI exI [of _ "bs0 @ bs"]) simp
  then show ?thesis using a(1,2) assms(3) unfolding huff_result_def by (simp add: written_trans [OF assms(3)] no_mem_written)
qed

lemma huff_result_stop:
  "written w w' \<Longrightarrow> no_mem (snd (snd w)) r \<or> r = XD3_NOSECOND \<Longrightarrow> huff_result TYPE('b) input exact xs w r w'"
  by (auto simp: huff_result_def no_mem_def)

lemma huff_result_later:
  "written w w1 \<Longrightarrow> huff_result TYPE('b) input exact xs w1 r w' \<Longrightarrow> huff_result TYPE('b) input exact xs w r w'"
  unfolding huff_result_def by (auto intro: written_trans simp: no_mem_written)

lemma single_table:
  assumes "input \<noteq> []" "length input < 2 ^ 31 - 256"
  obtains clen b where "djw_build_prefix (counts 256 (map unat input)) 20 = Some (clen, b)" "usable 20 clen" "length clen = 256"
    "\<And>x. x \<in> set input \<Longrightarrow> clen ! unat x \<noteq> 0"
    "reads (decode_huff (of_nat (length input)) :: ('b, unit) reader) (msb_bits 3 (0 :: u32) @ sent_lengths clen @ coded_with (lens clen) (map unat input)) input ()"
proof -
  define ss :: u32 where "ss = of_nat (length input)"
  have ss: "unat ss = length input" using assms(2) by (simp add: ss_def unat_of_nat_small)
  have "2 * 256 < fibo (20 + 2)" using fibo_values by simp
  from symbols_code [OF _ _ _ _ _ _ this, of "map unat input"] obtain clen b where
    c: "djw_build_prefix (counts 256 (map unat input)) 20 = Some (clen, b)" "length clen = 256" "usable 20 clen"
      "\<And>x. x \<in> set (map unat input) \<Longrightarrow> x < 256 \<and> clen ! x \<noteq> 0"
    using assms unat_u8_less by auto
  have code: "clen ! unat x \<noteq> 0" if "x \<in> set input" for x using c(4) [of "unat x"] that by auto
  have "clen ! unat (hd input) \<in> set clen" using c(2) unat_u8_less by (intro nth_mem) simp
  then have ex: "\<exists>l \<in> set clen. l \<noteq> 0" using code [of "hd input"] assms(1) by auto
  have ok: "tables_ok [clen]" "has_codes [clen] input" using c(2,3) code ex by (auto simp: tables_ok_def has_codes_def)
  have one: "sectors (unat ss) input = [input]"
  proof -
    have "sectors (unat ss) (drop (unat ss) input) = []" by (subst sectors.simps) (simp add: ss)
    then show ?thesis by (subst sectors.simps) (use assms(1) in \<open>simp add: ss\<close>)
  qed
  have "reads (decode_huff (of_nat (length input)) :: ('b, unit) reader) (huff_bits [clen] 0 [0] (sectors (unat ss) input)) input ()"
    by (rule decode_huff_reads [OF assms(1) _ ok]) (use assms one ss in \<open>simp_all add: ss_def\<close>)
  then have "reads (decode_huff (of_nat (length input)) :: ('b, unit) reader)
      (msb_bits 3 (0 :: u32) @ sent_lengths clen @ coded_with (lens clen) (map unat input)) input ()"
    by (simp add: one huff_bits_def djw_compute_multi_prefix_def)
  with c(1,2,3) code show ?thesis using that by blast
qed

lemma several_tables:
  assumes input: "input \<noteq> []" "length input < 2 ^ 31 - 256" and g: "2 \<le> length clens" "length clens \<le> 8"
    and ss: "v < 32" "ss = (of_nat (5 * (v + 1)) :: u32)"
    and ev: "evolve_groups gmax (counts 256 (map unat input)) (sectors (unat ss) input) 0 0 clens = Some (gbest, clens1, ob)" "gmax = length (sectors (unat ss) input)"
    and w: "wrote w (xs @ msb_bits 3 (of_nat (length clens - 1) :: u32) @ msb_bits 5 (of_nat v :: u32))" "written w0 w"
    and e: "bind_ok (djw_encode_prefix 2048 (djw_compute_multi_prefix (length clens) clens1) w)
        (encode_selected gmax (length clens) gbest clens1 ob (sectors (unat ss) input) ib ineff) = (r, w')"
  shows "huff_result TYPE('b) input (length input \<le> 17000) xs w0 r w'"
proof -
  have "unat ss = 5 * (v + 1)" unfolding ss(2) by (rule unat_of_nat_small) (use ss(1) in simp)
  then have ss0: "unat ss \<noteq> 0" by simp
  define scs where "scs = sectors (unat ss) input"
  have scs: "concat scs = input" "length scs = 1 + (length input - 1) div unat ss"
    using sectors_concat [OF ss0] sectors_count [OF ss0 input(1)] by (simp_all add: scs_def)
  have "clens \<noteq> []" using g by auto
  from evolve_tables [OF input(2,1) scs(1) _ this g(2), of gmax 0 0] ev
  have t: "length gbest = length scs" "\<forall>g \<in> set gbest. g < length clens" "length clens1 = length clens"
    "covers (counts 256 (map unat input)) clens1" "length input \<le> 17000 \<longrightarrow> tables_ok clens1"
    by (auto simp: scs_def)
  have hc: "has_codes clens1 input" by (rule covers_codes [OF t(4)]) (use input(2) in simp)
  have gb: "gbest \<noteq> []" "length gbest < 2 ^ 31"
    using t(1) scs(2) input(2) div_le_dividend [of "length input - 1" "unat ss"] by (auto simp del: div_le_dividend)
  have w1: "writes (djw_encode_prefix 2048 (djw_compute_multi_prefix (length clens) clens1)) (sent_lengths (djw_compute_multi_prefix (length clens) clens1))"
    using encode_prefix_writes [OF covers_props [OF t(4)]] by (simp only: t(3))
  have hc': "has_codes clens1 (concat scs)" using hc scs(1) by simp
  have "length gbest \<le> gmax" using t(1) ev(2) by (simp add: scs_def)
  note a2 = selected_attempts [OF gb(1) t(2) g gb(2) this t(3,1) hc']
  have ssc: "if length clens1 = 1 then ss = of_nat (length input) else v < 32 \<and> ss = of_nat (5 * (v + 1))" using ss g t(3) by simp
  have lin: "length input < 2 ^ 31" using input(2) by simp
  have dec: "reads (decode_huff (of_nat (length input)) :: ('b, unit) reader)
      ((msb_bits 3 (of_nat (length clens - 1) :: u32) @ msb_bits 5 (of_nat v :: u32))
       @ sent_lengths (djw_compute_multi_prefix (length clens) clens1) @ selector_bits (length clens) gbest @ sector_bits clens1 gbest scs) input ()"
    if "length input \<le> 17000"
  proof -
    have ok: "tables_ok clens1" using t(5) that by simp
    have gb1: "length gbest = length (sectors (unat ss) input)" "\<forall>g \<in> set gbest. g < length clens1" using t(1,2,3) by (simp_all add: scs_def)
    have "length clens \<noteq> 1" using g by simp
    with decode_huff_reads [OF input(1) lin ok hc ss0 ssc gb1] show ?thesis
      unfolding huff_bits_def t(3) scs_def by (simp only: if_False append_assoc)
  qed
  show ?thesis
    by (rule huff_result_attempt [OF attempts_bind [OF w1 a2] w e [folded scs_def] dec])
qed

text \<open>A try with several groups, from the initial groups on; \<open>again\<close> is what is done with one group less.\<close>

lemma try_groups:
  assumes input: "input \<noteq> []" "length input < 2 ^ 31 - 256" and g: "2 \<le> gs" "gs \<le> 8"
    and ss: "v < 32" "ss = (of_nat (5 * (v + 1)) :: u32)"
    and w: "wrote w3 (xs @ msb_bits 3 (of_nat (gs - 1) :: u32) @ msb_bits 5 (of_nat v :: u32))" "written w0 w3"
    and rw: "rewind_page offs w3 = Some w4" "written w0 w4"
    and again: "\<And>r hm' w'. again w4 = (r, hm', w') \<Longrightarrow> huff_result TYPE('b) input (gs = 2 \<or> length input \<le> 17000) xs w4 r w'"
    and e: "(case initial_groups (counts 256 (map unat input)) ineff gs (of_nat (length input)) 0 0 [] of
        Groups_ub \<Rightarrow> (C_UB, hm1, w3)
      | Too_many_groups \<Rightarrow> (case rewind_page offs w3 of None \<Rightarrow> (C_UB, hm1, w3) | Some w4 \<Rightarrow> again w4)
      | Groups clens \<Rightarrow>
         (let scs = sectors (unat ss) input; gmax = unat (gbest_max (of_nat (length input)) ss) in
          case evolve_groups gmax (counts 256 (map unat input)) scs 0 0 clens of
            None \<Rightarrow> (C_UB, hm1, w3)
          | Some (gbest, clens1, output_bits) \<Rightarrow>
             if output_bits + EFFICIENCY_BITS \<ge> of_nat (length input) * 8 \<and> \<not> ineff
             then (case nosecond w3 of (r4, w4) \<Rightarrow> (r4, hm1, w4))
             else if prefix_room < length (djw_compute_multi_prefix gs clens1) then (C_UB, hm1, w3)
             else (case bind_ok (djw_encode_prefix prefix_room (djw_compute_multi_prefix gs clens1) w3)
                 (encode_selected gmax gs gbest clens1 output_bits scs (of_nat (length input) * 8) ineff) of
               (r4, w4) \<Rightarrow> (r4, hm1, w4)))) = (r, hm', w')"
  shows "huff_result TYPE('b) input (length input \<le> 17000) xs w0 r w'"
proof -
  define real where "real = counts 256 (map unat input)"
  note e = e [folded real_def]
  have lin: "length input < 2 ^ 32" using input(2) by simp
  have tot: "total (drop 0 real) = length input" using counts_of_bytes(2) [OF lin] by (simp add: real_def)
  have left: "unat (of_nat (length input) :: u32) = length input" by (rule unat_of_nat_small) (use lin in simp)
  from initial_groups_some [OF g(2), of "of_nat (length input)" 0 real ineff 0 "[]", unfolded tot left, OF refl lin]
  show ?thesis
  proof
    assume "initial_groups real ineff gs (of_nat (length input)) 0 0 [] = Too_many_groups"
    then have "again w4 = (r, hm', w')" using e rw(1) by simp
    from huff_result_later [OF rw(2) again [OF this]] show ?thesis by (auto simp: huff_result_def)
  next
    assume "\<exists>clens. initial_groups real ineff gs (of_nat (length input)) 0 0 [] = Groups clens \<and> length clens = length ([] :: u8 list list) + gs"
    then obtain clens where ig: "initial_groups real ineff gs (of_nat (length input)) 0 0 [] = Groups clens" "length clens = gs" by auto
    then have cl: "clens \<noteq> []" "2 \<le> length clens" "length clens \<le> 8" using g by auto
    have "unat ss = 5 * (v + 1)" unfolding ss(2) by (rule unat_of_nat_small) (use ss(1) in simp)
    then have sec: "concat (sectors (unat ss) input) = input" "unat ss \<noteq> 0" by (auto intro: sectors_concat)
    define gmax where "gmax = unat (gbest_max (of_nat (length input)) ss)"
    have gm: "gmax = length (sectors (unat ss) input)" unfolding gmax_def by (rule sector_number) (use input lin sec in auto)
    note e = e [folded gmax_def]
    from evolve_tables [OF input(2,1) sec(1) _ cl(1,3), folded real_def, of gmax 0 0] gm obtain gbest clens1 ob where
      ev: "evolve_groups gmax real (sectors (unat ss) input) 0 0 clens = Some (gbest, clens1, ob)"
      and cov: "length clens1 = length clens" "covers real clens1" by auto
    have room: "\<not> prefix_room < length (djw_compute_multi_prefix (length clens) clens1)"
      using covers_props(4) [OF cov(2)] cov(1) by simp
    show ?thesis
    proof (cases "ob + EFFICIENCY_BITS \<ge> of_nat (length input) * 8 \<and> \<not> ineff")
      case True
      then have "nosecond w3 = (r, w')" using e ig ev by (auto split: prod.splits)
      from nosecond_written [OF w(1) this] written_trans [OF w(2)] show ?thesis by (intro huff_result_stop) auto
    next
      case False
      have b: "bind_ok (djw_encode_prefix 2048 (djw_compute_multi_prefix (length clens) clens1) w3)
          (encode_selected gmax (length clens) gbest clens1 ob (sectors (unat ss) input) (of_nat (length input) * 8) ineff) = (r, w')"
        using e room unfolding ig(1) groups_result.case Let_def ev option.case prod.case if_not_P [OF False] ig(2) by (auto split: prod.splits)
      have "wrote w3 (xs @ msb_bits 3 (of_nat (length clens - 1) :: u32) @ msb_bits 5 (of_nat v :: u32))" using w(1) ig(2) by simp
      from several_tables [OF input cl(2,3) ss ev [unfolded real_def] gm this w(2) b] show ?thesis .
    qed
  qed
qed

lemma encode_bits_cases:
  assumes "0 < n" "n < 32" "wrote w xs" "xd3_encode_bits n val w = (r, w')"
  shows "written w w'" "r \<noteq> XD3_OK \<Longrightarrow> no_mem (snd (snd w)) r" "r = XD3_OK \<Longrightarrow> wrote w' (xs @ msb_bits n val)"
  using writesD [OF writes_encode_bits [OF assms(1,2)] assms(3,4)] by blast+

lemma one_group_result:
  assumes input: "input \<noteq> []" "length input < 2 ^ 31 - 256"
    and w: "wrote w1 (xs @ msb_bits 3 (0 :: u32))" "written w0 w1"
    and e: "encode_one_group (counts 256 (map unat input)) input ib ineff w1 = (r, w')"
  shows "huff_result TYPE('b) input exact xs w0 r w'"
proof -
  obtain clen b where c: "djw_build_prefix (counts 256 (map unat input)) 20 = Some (clen, b)" "usable 20 clen" "length clen = 256"
      "\<And>x. x \<in> set input \<Longrightarrow> clen ! unat x \<noteq> 0"
      "reads (decode_huff (of_nat (length input)) :: ('b, unit) reader) (msb_bits 3 (0 :: u32) @ sent_lengths clen @ coded_with (lens clen) (map unat input)) input ()"
    using single_table [OF input] by metis
  from c(5) show ?thesis by - (rule huff_result_attempt [OF one_group_attempts [OF c(1-4)] w e], assumption)
qed

text \<open>A try with several groups, from the size of the sectors on.\<close>

lemma try_sectors:
  assumes input: "input \<noteq> []" "length input < 2 ^ 31 - 256" and g: "2 \<le> gs" "gs \<le> 8" and out0: "chain_wf out0"
    and ss: "v < 32" "ss = (of_nat (5 * (v + 1)) :: u32)"
    and w: "wrote w1 (xs @ msb_bits 3 (of_nat (gs - 1) :: u32))" "written w0 w1" "rewindable out0 5 w1"
    and again: "\<And>st r hm1 hm' w'. pool_wf st \<Longrightarrow> again hm1 (BIT_STATE_ENCODE_INIT, out0, st) = (r, hm', w') \<Longrightarrow>
      huff_result TYPE('b) input (gs = 2 \<or> length input \<le> 17000) xs (BIT_STATE_ENCODE_INIT, out0, st) r w'"
    and e: "(case xd3_encode_bits DJW_SECTORSZ_BITS (ss div DJW_SECTORSZ_MULT - 1) w1 of
      (r2, w2) \<Rightarrow>
        if r2 \<noteq> XD3_OK then (r2, hm, w2)
        else (case alloc_selectors hm (gbest_max (of_nat (length input)) ss) w2 of
          (r3, hm1, w3) \<Rightarrow>
            if r3 \<noteq> XD3_OK then (r3, hm1, w3)
            else (case initial_groups (counts 256 (map unat input)) ineff gs (of_nat (length input)) 0 0 [] of
              Groups_ub \<Rightarrow> (C_UB, hm1, w3)
            | Too_many_groups \<Rightarrow>
               (case rewind_page (length (pg_data (last out0))) w3 of None \<Rightarrow> (C_UB, hm1, w3) | Some w4 \<Rightarrow> again hm1 w4)
            | Groups clens \<Rightarrow>
               (let scs = sectors (unat ss) input; gmax = unat (gbest_max (of_nat (length input)) ss) in
                case evolve_groups gmax (counts 256 (map unat input)) scs 0 0 clens of
                  None \<Rightarrow> (C_UB, hm1, w3)
                | Some (gbest, clens1, output_bits) \<Rightarrow>
                   if output_bits + EFFICIENCY_BITS \<ge> of_nat (length input) * 8 \<and> \<not> ineff
                   then (case nosecond w3 of (r4, w4) \<Rightarrow> (r4, hm1, w4))
                   else if prefix_room < length (djw_compute_multi_prefix gs clens1) then (C_UB, hm1, w3)
                   else (case bind_ok (djw_encode_prefix prefix_room (djw_compute_multi_prefix gs clens1) w3)
                       (encode_selected gmax gs gbest clens1 output_bits scs (of_nat (length input) * 8) ineff) of
                     (r4, w4) \<Rightarrow> (r4, hm1, w4)))))) = (r, hm', w')"
  shows "huff_result TYPE('b) input (length input \<le> 17000) xs w0 r w'"
proof -
  have us: "unat ss = 5 * (v + 1)" unfolding ss(2) by (rule unat_of_nat_small) (use ss(1) in simp)
  have "ss div 5 = of_nat (v + 1)" unfolding word_arith_nat_div us by simp
  then have v: "ss div DJW_SECTORSZ_MULT - 1 = of_nat v" by simp
  obtain r2 w2 where w2: "xd3_encode_bits 5 (of_nat v) w1 = (r2, w2)" by (cases "xd3_encode_bits 5 (of_nat v) w1")
  note s2 = encode_bits_cases [OF _ _ w(1) w2, simplified]
  obtain r3 hm1 w3 where w3: "alloc_selectors hm (gbest_max (of_nat (length input)) ss) w2 = (r3, hm1, w3)" by (metis prod_cases3)
  note e = e [unfolded v DJW_SECTORSZ_BITS_def w2 prod.case w3]
  consider "r2 \<noteq> XD3_OK" | "r2 = XD3_OK" "r3 \<noteq> XD3_OK" | "r2 = XD3_OK" "r3 = XD3_OK" by blast
  then show ?thesis
  proof cases
    case 1
    then have "r = r2" "w' = w2" using e by auto
    with 1 s2(1,2) written_trans [OF w(2)] no_mem_written [OF w(2)] show ?thesis by (intro huff_result_stop) auto
  next
    case 2
    then have "r = r3" "w' = w3" using e by auto
    note al = alloc_selectors_wrote [OF s2(3) [OF 2(1)] w3]
    have "written w0 w3" by (rule written_trans [OF w(2) written_trans [OF s2(1) al(2)]])
    moreover have "no_mem (snd (snd w0)) r3"
      using al(3) 2(2) no_mem_written [OF written_trans [OF w(2) s2(1)]] by blast
    ultimately show ?thesis using 2(2) \<open>r = r3\<close> \<open>w' = w3\<close> by (intro huff_result_stop) auto
  next
    case 3
    note al = alloc_selectors_wrote [OF s2(3) [OF 3(1)] w3]
    have s3: "written w0 w3" using written_trans [OF w(2)] written_trans [OF s2(1) al(2)] by blast
    have "rewindable out0 0 w2" by (rule encode_bits_rewindable [OF w(1) _ w2 [unfolded 3(1)]]) (use w(3) in simp)
    then have "rewindable out0 0 w3" using al(4) by (simp add: rewindable_def)
    then obtain st4 where rw: "rewind_page (length (pg_data (last out0))) w3 = Some (BIT_STATE_ENCODE_INIT, out0, st4)"
        "st4 = snd (snd w3)" "pool_wf st4"
      using rewind_start [OF _ al(1) out0] by blast
    have s4: "written w0 (BIT_STATE_ENCODE_INIT, out0, st4)" using s3 rw(2,3) out0 by (simp add: written_def chain_inv_def)
    have al1: "wrote w3 (xs @ msb_bits 3 (of_nat (gs - 1) :: u32) @ msb_bits 5 (of_nat v :: u32))" using al(1) by simp
    from e 3 show ?thesis
      by (simp only: simp_thms if_False) (rule try_groups [OF input g ss al1 s3 rw(1) s4 again [OF rw(3)]], assumption)
  qed
qed

lemma encode_groups_result:
  fixes st :: "'a xd3_base_scheme"
  assumes input: "input \<noteq> []" "length input < 2 ^ 31 - 256"
    and out0: "chain_wf out0" "length (pg_data (last out0)) + 8 \<le> 16384"
  defines "xs \<equiv> bits_of (out_bytes out0)"
  assumes "pool_wf st" "1 \<le> n" "n \<le> 8" "n \<noteq> 1 \<longrightarrow> v < 32 \<and> ss = (of_nat (5 * (v + 1)) :: u32)"
    and "encode_groups (counts 256 (map unat input)) input (of_nat (length input)) ss ineff (length (pg_data (last out0))) n hm
      (BIT_STATE_ENCODE_INIT, out0, st) = (r, hm', w')"
  shows "huff_result TYPE('b) input (n = 1 \<or> length input \<le> 17000) xs (BIT_STATE_ENCODE_INIT, out0, st) r w'"
  using assms(6-)
proof (induction n arbitrary: st hm r hm' w')
  case (Suc n)
  define w0 where "w0 = (BIT_STATE_ENCODE_INIT, out0, st)"
  have w0: "wrote w0 xs" unfolding w0_def xs_def by (rule wrote_start) (use out0 Suc.prems(1) in \<open>simp add: chain_inv_def\<close>)
  have "append_last out0 [] = out0" using out0(1) by (simp add: append_last_def chain_wf_def)
  then have room: "rewindable out0 (3 + 5) w0" using out0(2) by (auto simp: rewindable_def w0_def intro!: exI [of _ "[]"])
  obtain r1 w1 where w1: "xd3_encode_bits 3 (of_nat n) w0 = (r1, w1)" by (cases "xd3_encode_bits 3 (of_nat n) w0")
  note s1 = encode_bits_cases [OF _ _ w0 w1, simplified]
  note run = Suc.prems(5) [folded w0_def, unfolded encode_groups.simps(2) DJW_GROUP_BITS_def w1 prod.case]
  consider "r1 \<noteq> XD3_OK" | "r1 = XD3_OK" "n = 0" | "r1 = XD3_OK" "n \<noteq> 0" by blast
  then have "huff_result TYPE('b) input (Suc n = 1 \<or> length input \<le> 17000) xs w0 r w'"
  proof cases
    case 1
    then have "r = r1" "w' = w1" using run by auto
    with s1(1,2) 1 show ?thesis by (intro huff_result_stop) auto
  next
    case 2
    then have "encode_one_group (counts 256 (map unat input)) input (of_nat (length input) * 8) ineff w1 = (r, w')"
      using run by (auto split: prod.splits)
    from one_group_result [OF input _ s1(1) this, of xs] s1(3) 2 show "huff_result TYPE('b) input (Suc n = 1 \<or> length input \<le> 17000) xs w0 r w'" by simp
  next
    case 3
    have g: "2 \<le> Suc n" "Suc n \<le> 8" and ss: "v < 32" "ss = (of_nat (5 * (v + 1)) :: u32)" using Suc.prems(3,4) 3(2) by auto
    have "unat ss = 5 * (v + 1)" unfolding ss(2) by (rule unat_of_nat_small) (use ss(1) in simp)
    then have ss0: "\<not> (ss = 0 \<or> unat DJW_MAX_GROUPS < Suc n)" using g(2) by auto
    have s1': "wrote w1 (xs @ msb_bits 3 (of_nat (Suc n - 1) :: u32))" using s1(3) 3(1) by simp
    have rew: "rewindable out0 5 w1" by (rule encode_bits_rewindable [OF w0 room w1 [unfolded 3(1)]])
    have pre: "1 \<le> n" "n \<le> 8" "n \<noteq> 1 \<longrightarrow> v < 32 \<and> ss = (of_nat (5 * (v + 1)) :: u32)" using 3(2) Suc.prems(3) ss by auto
    have two: "(Suc n = 2) = (n = 1)" by auto
    have IH: "huff_result TYPE('b) input (Suc n = 2 \<or> length input \<le> 17000) xs (BIT_STATE_ENCODE_INIT, out0, st') r w'"
      if "pool_wf st'" "encode_groups (counts 256 (map unat input)) input (of_nat (length input)) ss ineff (length (pg_data (last out0))) n hm1
        (BIT_STATE_ENCODE_INIT, out0, st') = (r, hm', w')" for st' :: "'a xd3_base_scheme" and r hm1 hm' w'
      unfolding two by (rule Suc.IH [OF that(1) pre that(2)])
    define again :: "bool \<times> bool \<Rightarrow> 'a bit_out \<Rightarrow> xd3_ret \<times> (bool \<times> bool) \<times> 'a bit_out" where
      "again = encode_groups (counts 256 (map unat input)) input (of_nat (length input)) ss ineff (length (pg_data (last out0))) n"
    have "\<not> XD3_OK \<noteq> XD3_OK" by simp
    note run' = run [unfolded 3(1) if_not_P [OF this] if_not_P [OF 3(2)] if_not_P [OF ss0], folded again_def]
    have "huff_result TYPE('b) input (length input \<le> 17000) xs w0 r w'"
      by (rule try_sectors [where again = again, OF input g out0(1) ss s1' s1(1) rew _ run']) (rule IH [folded again_def])
    then show ?thesis using 3(2) by (auto simp: huff_result_def)
  qed
  then show ?case by (simp only: w0_def)
qed simp

section \<open>The whole encoder\<close>

lemma howmany_groups:
  assumes "xd3_encode_howmany_groups cfg n = Inr (g, ss)"
  shows "1 \<le> unat g" "unat g \<le> 8" "unat g \<noteq> 1 \<Longrightarrow> \<exists>v < 32. ss = (of_nat (5 * (v + 1)) :: u32)"
proof -
  obtain sg sz where s: "suggest_groups (data_type cfg) n = (sg, sz)" by (cases "suggest_groups (data_type cfg) n")
  have sug: "1 \<le> unat sg \<and> unat sg \<le> 8" "sz = 0 \<or> (\<exists>v < 32. unat sz = 5 * (v + 1))"
    using s by (auto simp: suggest_groups_def split: if_splits xd3_section_type.splits
      intro: exI [of _ 1] exI [of _ 3] exI [of _ 5] exI [of _ 7] exI [of _ 9] exI [of _ 13] exI [of _ 25])
  have ng: "unat (ngroups cfg) \<le> 8" if "ngroups cfg = 0 \<or> \<not> DJW_MAX_GROUPS < ngroups cfg"
    using that by (auto simp: DJW_MAX_GROUPS_def word_less_nat_alt)
  have sec: "\<exists>v < 32. unat (sector_size cfg) = 5 * (v + 1)"
    if "sector_size cfg \<noteq> 0" "\<not> sector_size cfg < 5" "\<not> 160 < sector_size cfg" "sector_size cfg mod 5 = 0"
  proof -
    have b: "5 \<le> unat (sector_size cfg)" "unat (sector_size cfg) \<le> 160" using that(2,3) by (simp_all add: word_less_nat_alt)
    have "unat (sector_size cfg mod 5) = unat (sector_size cfg) mod 5" by (simp add: unat_mod)
    then have "unat (sector_size cfg) mod 5 = 0" using that(4) by simp
    then obtain k where k: "unat (sector_size cfg) = 5 * k" by auto
    then show ?thesis using b by (intro exI [of _ "k - 1"]) auto
  qed
  note d = xd3_encode_howmany_groups_def Let_def s DJW_SECTORSZ_MULT_def DJW_SECTORSZ_MAX_def
  show "1 \<le> unat g" "unat g \<le> 8"
    using assms sug(1) ng by (auto simp: d Suc_le_eq word_unat_eq_iff split: if_splits)
  assume "unat g \<noteq> 1"
  then have "g \<noteq> 1" by auto
  have "\<exists>v < 32. unat ss = 5 * (v + 1)"
    using assms sug(2) sec \<open>g \<noteq> 1\<close> by (auto simp: d split: if_splits xd3_section_type.splits
      intro: exI [of _ 3] exI [of _ 9] exI [of _ 25])
  moreover have "ss = of_nat (unat ss)" by simp
  ultimately show "\<exists>v < 32. ss = (of_nat (5 * (v + 1)) :: u32)" by metis
qed

lemma free_selectors_same:
  assumes "free_selectors h w = (bits, out, st)"
  shows "out = fst (snd w)" "base_step (snd (snd w)) st" "enc_free st = enc_free (snd (snd w))"
  using assms free_step base_step_trans [OF free_step free_step]
  by (auto simp: free_selectors_def Let_def xd3_free_def split: prod.splits if_splits)

lemma decode_huff_bytes:
  fixes dst :: "'b xd3_base_scheme"
  assumes "reads (decode_huff n :: ('b, unit) reader) bs input ()" "bits_of new = bs @ pad" "length pad < 8" "mem_ok dst"
  shows "\<exists>dst'. xd3_decode_huff new n dst = (XD3_OK, [], input, dst') \<and> base_step dst dst'"
proof -
  have "mem_ok (strm (sec_start new dst))" using assms(4) by (simp add: sec_start_def)
  from readsD [OF assms(1) this holds_start [of new dst, unfolded assms(2)]]
  obtain s' where "decode_huff n (sec_start new dst) = (Inr (), s')" "holds s' pad" "in_out s' = input" "base_step dst (strm s')"
    by (metis append_Nil sec_start_def sec_in.select_convs(3,4))
  then show ?thesis using holds_end [OF _ assms(3)] by (auto simp: xd3_decode_huff_def sec_start_def)
qed

text \<open>The calls for which the encoder is exact: one group, or an input short enough for the frequencies of every group to be coded without
  being scaled down.\<close>

definition djw_exact :: "nat \<Rightarrow> xd3_sec_cfg \<Rightarrow> bool" where
  "djw_exact n cfg \<longleftrightarrow> n \<le> 17000 \<or> (case xd3_encode_howmany_groups cfg (of_nat n) of Inl _ \<Rightarrow> True | Inr (g, _) \<Rightarrow> g = 1)"

lemma filled_bytes:
  assumes "chain_wf input" "pages_filled input"
  shows "out_bytes input \<noteq> []"
    "djw_count_freqs input = Some (counts 256 (map unat (out_bytes input)), of_nat (length (out_bytes input)))"
proof -
  have "input \<noteq> []" using assms(1) by (simp add: chain_wf_def)
  then show "out_bytes input \<noteq> []" using assms(2) by (cases input) (auto simp: out_bytes_def pages_filled_def)
  have "\<not> (\<exists>pg \<in> set input. pg_data pg = [])" using assms(2) by (auto simp: pages_filled_def list_all_iff)
  then show "djw_count_freqs input = Some (counts 256 (map unat (out_bytes input)), of_nat (length (out_bytes input)))"
    by (simp add: djw_count_freqs_def sizeof_output_bytes out_bytes_def fold_map comp_def ALPHABET_SIZE_def)
qed

lemma encode_huff_result:
  fixes st :: "'a xd3_base_scheme"
  assumes input: "chain_wf input" "pages_filled input" "length (out_bytes input) < 2 ^ 31 - 256"
    and out: "chain_inv output st" "length (pg_data (last output)) + 8 \<le> 16384"
    and e: "xd3_encode_huff input output cfg st = (r, output', st')"
  shows "base_step st st'" "chain_inv output' st'" "r \<in> {XD3_OK, XD3_NOSECOND, XD3_INTERNAL} \<or> no_mem st r"
    "r = XD3_OK \<Longrightarrow> \<exists>new. out_bytes output' = out_bytes output @ new \<and> (djw_exact (length (out_bytes input)) cfg \<longrightarrow>
      (\<forall>dst :: 'b xd3_base_scheme. mem_ok dst \<longrightarrow> (\<exists>dst'. xd3_decode_huff new (of_nat (length (out_bytes input))) dst
        = (XD3_OK, [], out_bytes input, dst') \<and> base_step dst dst')))"
proof -
  define inp where "inp = out_bytes input"
  define n :: u32 where "n = of_nat (length inp)"
  note fb = filled_bytes [OF input(1,2), folded inp_def, folded n_def]
  note ne = fb(1) and cnt = fb(2)
  have wf: "chain_wf output" "pool_wf st" using out(1) by (simp_all add: chain_inv_def)
  define P where "P new \<longleftrightarrow> (djw_exact (length inp) cfg \<longrightarrow> (\<forall>dst :: 'b xd3_base_scheme. mem_ok dst \<longrightarrow>
      (\<exists>dst'. xd3_decode_huff new n dst = (XD3_OK, [], inp, dst') \<and> base_step dst dst')))" for new
  have "base_step st st' \<and> chain_inv output' st' \<and> (r \<in> {XD3_OK, XD3_NOSECOND, XD3_INTERNAL} \<or> no_mem st r)
    \<and> (r = XD3_OK \<longrightarrow> (\<exists>new. out_bytes output' = out_bytes output @ new \<and> P new))"
  proof (cases "xd3_encode_howmany_groups cfg n")
    case (Inl m)
    then have "r = XD3_INTERNAL" "output' = output" "st' = st\<lparr>msg := Some m\<rparr>" using e by (simp_all add: xd3_encode_huff_def cnt)
    then show ?thesis using out(1) by (auto simp: chain_inv_def pool_wf_def intro!: base_step_eqI)
  next
    case (Inr gss)
    then obtain g ss where gs: "xd3_encode_howmany_groups cfg n = Inr (g, ss)" by (cases gss) auto
    define w0 where "w0 = (BIT_STATE_ENCODE_INIT, output, st)"
    obtain r1 hm w1 where run: "encode_groups (counts 256 (map unat inp)) inp n ss (inefficient cfg) (length (pg_data (last output)))
        (unat g) (False, False) w0 = (r1, hm, w1)" by (metis prod_cases3)
    obtain r2 w2 where fl: "(if r1 = XD3_OK then xd3_flush_bits w1 else (r1, w1)) = (r2, w2)" by (metis surj_pair)
    obtain bits out3 st3 where fr: "free_selectors hm w2 = (bits, out3, st3)" by (metis prod_cases3)
    have res: "r = r2" "output' = out3" "st' = st3"
      using e cnt gs run fl fr by (simp_all add: xd3_encode_huff_def inp_def out_bytes_def w0_def)
    note free = free_selectors_same [OF fr]
    obtain v where v: "unat g \<noteq> 1 \<longrightarrow> v < 32 \<and> ss = (of_nat (5 * (v + 1)) :: u32)" using howmany_groups(3) [OF gs] by blast
    have "huff_result TYPE('b) inp (unat g = 1 \<or> length inp \<le> 17000) (bits_of (out_bytes output)) w0 r1 w1"
      using encode_groups_result [OF ne input(3) [folded inp_def] wf(1) out(2) wf(2) howmany_groups(1,2) [OF gs] v run [unfolded w0_def n_def]]
      by (simp add: w0_def)
    note h = this [unfolded huff_result_def]
    show ?thesis
    proof (cases "r1 = XD3_OK")
      case False
      then have "r2 = r1" "w2 = w1" using fl by simp_all
      with h free res False show ?thesis
        using base_step_trans by (auto simp: written_def w0_def chain_inv_def pool_wf_def)
    next
      case True
      with h obtain bs where bs: "wrote w1 (bits_of (out_bytes output) @ bs)"
        "unat g = 1 \<or> length inp \<le> 17000 \<Longrightarrow> reads (decode_huff n :: ('b, unit) reader) bs inp ()" by (auto simp: n_def)
      have fl': "xd3_flush_bits w1 = (r2, w2)" using fl True by simp
      note f = flush_written [OF bs(1) fl']
      have step: "written w0 w2" using h f(1) written_trans by blast
      then have st: "base_step st st'" "chain_inv output' st'" 
        using free res base_step_trans by (auto simp: written_def w0_def chain_inv_def pool_wf_def)
      have r2: "r2 = XD3_OK \<or> no_mem st r2" using f(2) h no_mem_written [of w0 w1] by (auto simp: w0_def)
      have "\<exists>new. out_bytes output' = out_bytes output @ new \<and> P new" if ok: "r2 = XD3_OK"
      proof -
        obtain pad where pad: "bits_of (out_bytes output') = bits_of (out_bytes output) @ bs @ pad" "length pad < 8"
          using f(3) [OF ok] res(2) free(1) by auto
        from bits_of_prefix [OF pad(1)] obtain new where new: "out_bytes output' = out_bytes output @ new" "bits_of new = bs @ pad" by auto
        have "P new" unfolding P_def
          using decode_huff_bytes [OF bs(2) new(2) pad(2)] gs by (auto simp: djw_exact_def n_def)
        with new(1) show ?thesis by blast
      qed
      with st r2 res(1) show ?thesis by auto
    qed
  qed
  then show "base_step st st'" "chain_inv output' st'" "r \<in> {XD3_OK, XD3_NOSECOND, XD3_INTERNAL} \<or> no_mem st r"
    "r = XD3_OK \<Longrightarrow> \<exists>new. out_bytes output' = out_bytes output @ new \<and> (djw_exact (length (out_bytes input)) cfg \<longrightarrow>
      (\<forall>dst :: 'b xd3_base_scheme. mem_ok dst \<longrightarrow> (\<exists>dst'. xd3_decode_huff new (of_nat (length (out_bytes input))) dst
        = (XD3_OK, [], out_bytes input, dst') \<and> base_step dst dst')))"
    unfolding P_def inp_def n_def by blast+
qed

text \<open>A caller that asks for one group and takes inefficient results gets a result.\<close>

lemma forced_huff:
  fixes st :: "'a xd3_base_scheme"
  assumes input: "chain_wf input" "pages_filled input" "length (out_bytes input) < 2 ^ 31 - 256"
    and out: "chain_inv output st" and mem: "mem_ok st"
    and cfg: "ngroups cfg = 1" "sector_size cfg = 0" "inefficient cfg"
  shows "fst (xd3_encode_huff input output cfg st) = XD3_OK"
proof -
  define inp where "inp = out_bytes input"
  define n :: u32 where "n = of_nat (length inp)"
  note fb = filled_bytes [OF input(1,2), folded inp_def, folded n_def]
  obtain sz where hm: "xd3_encode_howmany_groups cfg n = Inr (1, sz)"
    using cfg by (cases "suggest_groups (data_type cfg) n") (simp add: xd3_encode_howmany_groups_def DJW_MAX_GROUPS_def)
  obtain clen b where c: "djw_build_prefix (counts 256 (map unat inp)) 20 = Some (clen, b)" "usable 20 clen" "length clen = 256"
      "\<And>x. x \<in> set inp \<Longrightarrow> clen ! unat x \<noteq> 0"
    using single_table [OF fb(1) input(3) [folded inp_def]] by metis
  have w: "writes (\<lambda>w :: 'a bit_out. bind_ok (xd3_encode_bits 3 0 w) (encode_one_group (counts 256 (map unat inp)) inp (n * 8) True))
      (msb_bits 3 (0 :: u32) @ sent_lengths clen @ coded_with (lens clen) (map unat inp))"
    by (intro writes_bind writes_encode_bits one_group_forced [OF c]) simp_all
  obtain r1 w1 where r1: "xd3_encode_bits 3 0 (BIT_STATE_ENCODE_INIT, output, st) = (r1, w1)" by (metis surj_pair)
  obtain r2 w2 where r2: "bind_ok (r1, w1) (encode_one_group (counts 256 (map unat inp)) inp (n * 8) True) = (r2, w2)" by (metis surj_pair)
  note d = writesD [OF w wrote_start [OF out] r2 [folded r1]]
  have ok2: "r2 = XD3_OK" using d(2) mem by (simp add: no_mem_def)
  then have ok1: "r1 = XD3_OK" using r2 by (cases "r1 = XD3_OK") auto
  have g: "encode_groups (counts 256 (map unat inp)) inp n sz True (length (pg_data (last output))) (Suc 0) (False, False)
      (BIT_STATE_ENCODE_INIT, output, st) = (XD3_OK, (False, False), w2)"
    using r2 ok2 ok1 by (simp add: DJW_GROUP_BITS_def r1)
  obtain r3 w3 where fl: "xd3_flush_bits w2 = (r3, w3)" by (cases "xd3_flush_bits w2")
  have "mem_ok (snd (snd w2))" using d(1) mem mem_ok_step by (auto simp: written_def)
  with flush_written(2) [OF d(3) [OF ok2] fl] have "r3 = XD3_OK" by (auto simp: no_mem_def)
  with g fl fb(2) hm cfg(3) show ?thesis
    by (simp add: xd3_encode_huff_def inp_def [symmetric] out_bytes_def [symmetric] split: prod.splits)
qed

end
