(* ===== verification/Xd3_Djw_Section.thy ===== *)
theory Xd3_Djw_Section
  imports Xd3_Djw_Spec Xd3_Second_Contract
begin

text \<open>
  The static Huffman compressor as an instance of the contract \<open>sec_compressor\<close>, and with that the round trip of
  whole sections through \<open>xd3_encode_secondary\<close> and \<open>xd3_decode_secondary\<close>.
\<close>

section \<open>The contract\<close>

definition djw_sync :: "unit option \<Rightarrow> unit option \<Rightarrow> bool" where
  "djw_sync sec dsec \<longleftrightarrow> (sec = None) = (dsec = None)"

definition djw_limit :: nat where "djw_limit = 2 ^ 31 - 256"

lemma djw_get:
  assumes "xd3_get_secondary djw_sec_type enc sec st = (r, sec', st')"
  shows "enc_free st' = enc_free st" "base_step st st'" "mem_ok st \<Longrightarrow> r = XD3_OK \<and> sec' = Some ()"
proof -
  obtain ok st1 where a: "xd3_alloc 4 1 st = (ok, st1)" by (cases "xd3_alloc 4 1 st")
  have f: "enc_free st1 = enc_free st" using a by (auto simp: xd3_alloc_def Let_def split: if_splits)
  have m: "base_step st1 (st1\<lparr>msg := Some s\<rparr>)" for s by (rule base_step_eqI) simp
  note e = assms [unfolded xd3_get_secondary_def]
  show "enc_free st' = enc_free st" "base_step st st'" "mem_ok st \<Longrightarrow> r = XD3_OK \<and> sec' = Some ()"
    using e a f alloc_step [OF a] base_step_trans [OF alloc_step [OF a] m] alloc_mem [of 4 1 st st1]
    by (auto simp: djw_sec_type_def djw_alloc_def djw_init_def split: option.splits if_splits)
qed

lemma room_of_small:
  assumes "chain_wf tmp" "length (out_bytes tmp) \<le> 5"
  shows "length (pg_data (last tmp)) + 8 \<le> 16384"
proof -
  have "tmp = butlast tmp @ [last tmp]" using assms(1) by (simp add: chain_wf_def)
  then have "length (out_bytes tmp) = length (out_bytes (butlast tmp)) + length (pg_data (last tmp))"
    by (metis out_bytes_def map_append concat_append length_append list.map concat.simps append_Nil2)
  then show ?thesis using assms(2) by simp
qed

interpretation djw: sec_compressor "djw_sec_type :: ('a xd3_base_scheme, unit) xd3_sec_type"
    "djw_sec_type :: ('b xd3_decoder_scheme, unit) xd3_sec_type" djw_sync djw_exact djw_limit
proof unfold_locales
  fix sec r sec' and st st1 :: "'a xd3_base_scheme"
  assume "xd3_get_secondary djw_sec_type True sec st = (r, sec', st1)" "pool_wf st"
  with djw_get [OF this(1)] show "pool_wf st1 \<and> base_step st st1 \<and> (mem_ok st \<longrightarrow> r = XD3_OK \<and> sec' \<noteq> None)"
    by (simp add: pool_wf_def)
next
  fix sec dsec h and st st1 :: "'a xd3_base_scheme" and dst :: "'b xd3_decoder_scheme"
  assume "mem_ok dst"
  obtain r dsec' dst1 where "xd3_get_secondary djw_sec_type False dsec dst = (r, dsec', dst1)" by (metis prod_cases3)
  with djw_get [OF this] \<open>mem_ok dst\<close>
  show "\<exists>k dst1. xd3_get_secondary djw_sec_type False dsec dst = (XD3_OK, Some k, dst1) \<and> djw_sync (Some h) (Some k) \<and> base_step dst dst1"
    by (auto simp: djw_sync_def)
next
  fix tmp input h cfg r h' tmp' and st st' :: "'a xd3_base_scheme"
  assume a: "chain_inv tmp st" "length (out_bytes tmp) \<le> 5" "chain_wf input" "pages_filled input" "length (out_bytes input) < djw_limit"
    "sec_encode djw_sec_type h input tmp cfg st = (r, h', tmp', st')"
  then have e: "xd3_encode_huff input tmp cfg st = (r, tmp', st')" by (auto simp: djw_sec_type_def split: prod.splits)
  have "length (pg_data (last tmp)) + 8 \<le> 16384" using a(1,2) room_of_small by (simp add: chain_inv_def)
  from encode_huff_result(1-3) [OF a(3,4) _ a(1) this e] a(5)
  show "base_step st st' \<and> chain_inv tmp' st' \<and> (r \<in> {XD3_OK, XD3_NOSECOND, XD3_INTERNAL} \<or> no_mem st r)"
    by (simp add: djw_limit_def)
next
  fix h k tmp input cfg h' tmp' and st st' :: "'a xd3_base_scheme"
  assume a: "djw_sync (Some h) (Some k)" "chain_inv tmp st" "length (out_bytes tmp) \<le> 5" "chain_wf input" "pages_filled input"
    "length (out_bytes input) < djw_limit" "djw_exact (length (out_bytes input)) cfg"
    "sec_encode djw_sec_type h input tmp cfg st = (XD3_OK, h', tmp', st')"
  then have e: "xd3_encode_huff input tmp cfg st = (XD3_OK, tmp', st')" by (auto simp: djw_sec_type_def split: prod.splits)
  have room: "length (pg_data (last tmp)) + 8 \<le> 16384" using a(2,3) room_of_small by (simp add: chain_inv_def)
  have len: "length (out_bytes input) < 2 ^ 31 - 256" using a(6) by (simp add: djw_limit_def)
  from encode_huff_result(4) [OF a(4,5) len a(2) room e refl] a(7)
  show "\<exists>new. out_bytes tmp' = out_bytes tmp @ new \<and> (\<forall>dst :: 'b xd3_decoder_scheme. mem_ok dst \<longrightarrow>
      (\<exists>k' dst'. sec_decode djw_sec_type k new (of_nat (length (out_bytes input))) dst = (XD3_OK, k', [], out_bytes input, dst')
        \<and> djw_sync (Some h') (Some k')))"
    by (fastforce simp: djw_sec_type_def djw_sync_def)
qed

section \<open>A section to run it on\<close>

definition djw_sample_section :: "xd3_output list" where
  "djw_sample_section = [\<lparr>pg_data = [1, 2, 3, 1, 2, 1, 1, 4, 1, 1, 1, 2], pg_avail = XD3_ALLOCSIZE\<rparr>]"

definition djw_sample_stream :: xd3_decoder where
  "djw_sample_stream = null_decoder (null_io (\<lambda>_ _ _. True))"

definition djw_forced :: xd3_sec_cfg where
  "djw_forced = \<lparr>data_type = DATA_SECTION, ngroups = 1, sector_size = 0, inefficient = True\<rparr>"

definition djw_fresh_page :: "xd3_output list" where
  "djw_fresh_page = [\<lparr>pg_data = [], pg_avail = XD3_ALLOCSIZE\<rparr>]"

lemma djw_samples:
  "chain_inv djw_sample_section djw_sample_stream" "chain_wf djw_sample_section" "pages_filled djw_sample_section"
  "out_bytes djw_sample_section = [1, 2, 3, 1, 2, 1, 1, 4, 1, 1, 1, 2]" "chain_inv djw_fresh_page djw_sample_stream"
  "mem_ok djw_sample_stream" "pg_data (last djw_fresh_page) = []" "out_bytes djw_fresh_page = []"
  by (simp_all add: djw_sample_section_def djw_sample_stream_def djw_fresh_page_def chain_inv_def chain_wf_def pool_wf_def page_wf_def
    pages_filled_def out_bytes_def mem_ok_def null_defs)

section \<open>Properties\<close>

text \<open>C8. Static Huffman coding is a round trip, for one group on inputs of any length and for several groups on inputs of at most
  17000 bytes (\<open>djw_exact\<close>; beyond that a scaled frequency table can make the stream undecodable): what \<open>xd3_encode_huff\<close> appends to
  the output when it returns 0, \<open>xd3_decode_huff\<close> decodes, all of it, to the bytes of the input pages.  The other hypotheses: no page of the
  input is empty, the input is shorter than 2 GiB less 256 bytes, the page that is being filled has room for eight bytes, and the
  decoder has memory.\<close>

theorem huff_roundtrip:
  fixes st :: "'a xd3_base_scheme" and dst :: "'b xd3_base_scheme"
  assumes "chain_wf input" "pages_filled input" "length (out_bytes input) < 2 ^ 31 - 256" "djw_exact (length (out_bytes input)) cfg"
    and "chain_inv output st" "length (pg_data (last output)) + 8 \<le> 16384"
    and "xd3_encode_huff input output cfg st = (XD3_OK, output', st')" and "mem_ok dst"
  shows "\<exists>new dst'. out_bytes output' = out_bytes output @ new
    \<and> xd3_decode_huff new (of_nat (length (out_bytes input))) dst = (XD3_OK, [], out_bytes input, dst')"
  using encode_huff_result(4) [OF assms(1-3,5-7) refl] assms(4,8) by blast

theorem huff_roundtrip_witness:
  "\<exists>output' st' dst'. xd3_encode_huff djw_sample_section djw_fresh_page djw_forced djw_sample_stream = (XD3_OK, output', st')
    \<and> xd3_decode_huff (out_bytes output') 12 djw_sample_stream = (XD3_OK, [], [1, 2, 3, 1, 2, 1, 1, 4, 1, 1, 1, 2], dst')"
proof -
  have cfg: "ngroups djw_forced = 1" "sector_size djw_forced = 0" "inefficient djw_forced" by (simp_all add: djw_forced_def)
  have ex: "djw_exact (length (out_bytes djw_sample_section)) djw_forced" by (simp add: djw_exact_def djw_samples)
  have len: "length (out_bytes djw_sample_section) < 2 ^ 31 - 256" by (simp add: djw_samples)
  obtain r output' st' where e: "xd3_encode_huff djw_sample_section djw_fresh_page djw_forced djw_sample_stream = (r, output', st')"
    by (metis prod_cases3)
  have r: "r = XD3_OK" using forced_huff [OF djw_samples(2,3) len djw_samples(5,6) cfg] e by simp
  have room: "length (pg_data (last djw_fresh_page)) + 8 \<le> 16384" by (simp add: djw_samples)
  from huff_roundtrip [OF djw_samples(2,3) len ex djw_samples(5) room e [unfolded r] djw_samples(6)] e r show ?thesis
    by (simp add: djw_samples)
qed

text \<open>C10. The static Huffman encoder is safe: for every configuration, and every section that is a well-formed chain of nonempty
  pages shorter than 2 GiB less 256 bytes, with room for eight bytes in the last page of the output, it returns 0, gives up because the
  result would be inefficient, refuses the configuration, or returns \<open>ENOMEM\<close> where memory fails.  It never ends in undefined behaviour
  or a loop, whichever groups it chooses, rescales and drops: the tree builder stays in the arrays \<open>heap\<close> and \<open>ents\<close>, the
  selectors in the \<open>gbest_max\<close> bytes that were allocated for \<open>gbest\<close> and \<open>gbest_mtf\<close>, the symbols of the code lengths in
  \<open>prefix_symbol\<close> and \<open>prefix_mtfsym\<close>, the tables within eight groups; no cell is used that was not written.\<close>

theorem huff_encode_safe:
  assumes "chain_wf input" "pages_filled input" "length (out_bytes input) < 2 ^ 31 - 256"
    and "chain_inv output st" "length (pg_data (last output)) + 8 \<le> 16384"
  shows "fst (xd3_encode_huff input output cfg st) \<in> {XD3_OK, XD3_NOSECOND, XD3_INTERNAL}
    \<or> fst (xd3_encode_huff input output cfg st) = ENOMEM \<and> \<not> mem_ok st"
  using encode_huff_result(3) [OF assms, of cfg] by (metis no_mem_def prod.collapse)

theorem huff_encode_safe_witness:
  "fst (xd3_encode_huff djw_sample_section djw_fresh_page djw_forced djw_sample_stream) \<in> {XD3_OK, XD3_NOSECOND, XD3_INTERNAL}"
  using huff_encode_safe [OF djw_samples(2,3) _ djw_samples(5), of djw_forced] djw_samples(6) by (simp add: djw_samples)

text \<open>C9. Secondary compression of a section is a round trip: a section that \<open>xd3_encode_secondary\<close> replaced by its
  static Huffman form is restored, with its size, by \<open>xd3_decode_secondary\<close> from the bytes of the new chain.  The hypotheses: the section
  is coded with one group or has at most 17000 bytes (\<open>djw_exact\<close>), its chain is well formed with no empty page and shorter than
  \<open>djw_limit\<close>, encoder and decoder have memory and compressor states in step, and a buffer left from an earlier window has its
  announced size.\<close>

theorem djw_section_roundtrip:
  fixes st :: "'a xd3_base_scheme" and dst :: "'b xd3_decoder_scheme"
  assumes "xd3_encode_secondary djw_sec_type head sec cfg st = (XD3_OK, head', True, sec', st')"
    and "chain_inv head st" "pages_filled head" "length (out_bytes head) < djw_limit" "djw_exact (length (out_bytes head)) cfg"
    and "mem_ok st" "mem_ok dst" "djw_sync sec dsec" "sect_buf sect = out_bytes head'"
    and "\<And>old. sect_copied2 sect = Some old \<Longrightarrow> length old = unat (sect_alloc2 sect)"
  shows "\<exists>sect' dsec' dst'. xd3_decode_secondary djw_sec_type sect dsec dst = (XD3_OK, sect', dsec', dst')
    \<and> sect_buf sect' = out_bytes head \<and> sect_size sect' = of_nat (length (out_bytes head)) \<and> djw_sync sec' dsec'"
proof -
  have "djw_limit \<le> 2 ^ 31" by (simp add: djw_limit_def)
  from djw.section_roundtrip [OF assms(1-4) this assms(5,6) assms(8,7,9,10)] show ?thesis by blast
qed

lemma djw_sample_replaced:
  obtains head' sec' st' where "xd3_encode_secondary djw_sec_type djw_sample_section None djw_forced djw_sample_stream = (XD3_OK, head', True, sec', st')"
proof -
  have big: "\<not> xd3_sizeof_output djw_sample_section < SECONDARY_MIN_INPUT"
    by (simp add: djw_sample_section_def SECONDARY_MIN_INPUT_def)
  obtain r head' did sec' st' where e: "xd3_encode_secondary djw_sec_type djw_sample_section None djw_forced djw_sample_stream = (r, head', did, sec', st')"
    by (metis prod_cases5)
  from djw.encode_section [OF e djw_samples(1) big djw_samples(6)] obtain h tmp st3 r4 h' tmp' st4
    where s: "base_step djw_sample_stream st3" "chain_inv tmp st3" "sec_encode djw_sec_type h djw_sample_section tmp djw_forced st3 = (r4, h', tmp', st4)"
      and res: "r4 = XD3_OK \<longrightarrow> r = XD3_OK \<and> did" by (metis (no_types, lifting) djw_forced_def prod.inject xd3_sec_cfg.select_convs(4))
  have "mem_ok st3" using djw_samples(6) mem_ok_step [OF s(1)] by simp
  from forced_huff [OF djw_samples(2,3) _ s(2) this, of djw_forced] s(3) have "r4 = XD3_OK"
    by (auto simp: djw_samples djw_forced_def djw_sec_type_def split: prod.splits)
  with res e that show ?thesis by simp
qed

theorem djw_section_roundtrip_witness:
  "\<exists>head' sec' st' sect' dsec' dst'.
     xd3_encode_secondary djw_sec_type djw_sample_section None djw_forced djw_sample_stream = (XD3_OK, head', True, sec', st')
     \<and> xd3_decode_secondary djw_sec_type \<lparr>sect_buf = out_bytes head', sect_size = 0, sect_pos = 0, sect_copied1 = None,
         sect_alloc1 = 0, sect_copied2 = None, sect_alloc2 = 0\<rparr> None djw_sample_stream = (XD3_OK, sect', dsec', dst')
     \<and> sect_buf sect' = [1, 2, 3, 1, 2, 1, 1, 4, 1, 1, 1, 2]"
proof -
  obtain head' sec' st' where e: "xd3_encode_secondary djw_sec_type djw_sample_section None djw_forced djw_sample_stream = (XD3_OK, head', True, sec', st')"
    using djw_sample_replaced .
  define sect where "sect = \<lparr>sect_buf = out_bytes head', sect_size = 0, sect_pos = 0, sect_copied1 = None,
      sect_alloc1 = 0, sect_copied2 = None, sect_alloc2 = 0\<rparr>"
  have "\<exists>sect' dsec' dst'. xd3_decode_secondary djw_sec_type sect None djw_sample_stream = (XD3_OK, sect', dsec', dst')
    \<and> sect_buf sect' = out_bytes djw_sample_section \<and> sect_size sect' = of_nat (length (out_bytes djw_sample_section)) \<and> djw_sync sec' dsec'"
    by (rule djw_section_roundtrip [OF e djw_samples(1,3) _ _ djw_samples(6,6)])
      (simp_all add: djw_samples djw_limit_def djw_exact_def djw_sync_def sect_def)
  then show ?thesis using e by (auto simp: djw_samples sect_def)
qed

text \<open>C11. \<open>xd3_encode_secondary\<close> keeps the sections well-formed.  With memory, and for a well-formed chain without empty pages that is
  shorter than \<open>djw_limit\<close>, it returns 0 or, for a configuration that is refused, \<open>XD3_INTERNAL\<close>; the section it leaves is a
  well-formed chain of pages, and it is the one it was given unless it was replaced.  A replacement is shorter by more than
  \<open>SECONDARY_MIN_SAVINGS\<close> bytes, unless the configuration has the flag \<open>inefficient\<close>, with which it may be longer.\<close>

theorem djw_section_kept:
  fixes st :: "'a xd3_base_scheme"
  assumes "xd3_encode_secondary djw_sec_type head sec cfg st = (r, head', did, sec', st')"
    and "chain_inv head st" "pages_filled head" "length (out_bytes head) < djw_limit" "mem_ok st"
  shows "(r = XD3_OK \<or> r = XD3_INTERNAL) \<and> chain_inv head' st'
    \<and> (if did then r = XD3_OK \<and> (inefficient cfg \<or> xd3_sizeof_output head' < xd3_sizeof_output head - SECONDARY_MIN_SAVINGS) else head' = head)"
  using djw.section_safe [OF assms] by auto

theorem djw_section_kept_witness:
  "\<exists>r head' did sec' st'. xd3_encode_secondary djw_sec_type djw_sample_section None (djw_forced\<lparr>inefficient := False\<rparr>) djw_sample_stream
      = (r, head', did, sec', st') \<and> (r = XD3_OK \<or> r = XD3_INTERNAL) \<and> (\<not> did \<longrightarrow> head' = djw_sample_section)"
proof -
  obtain r head' did sec' st' where e: "xd3_encode_secondary djw_sec_type djw_sample_section None (djw_forced\<lparr>inefficient := False\<rparr>) djw_sample_stream
      = (r, head', did, sec', st')" by (metis prod_cases5)
  have "length (out_bytes djw_sample_section) < djw_limit" by (simp add: djw_samples djw_limit_def)
  from djw_section_kept [OF e djw_samples(1,3) this djw_samples(6)] e show ?thesis by auto
qed

end
