(* ===== verification/Native_Files.thy ===== *)
theory Native_Files
  imports Xd3_Prelude
begin

text \<open>
  The system calls that OpenDelta's own native code makes on regular files.  An open file is its content
  and its position.  What the system may do at each call is the parameter \<open>os\<close>: how many of the bytes
  asked for a \<open>read\<close> or a \<open>write\<close> transfers, or \<open>None\<close> for the result -1, and whether \<open>lseek\<close> and \<open>malloc\<close>
  succeed.  The definitions keep to POSIX: a \<open>read\<close> that succeeds before the end of the file transfers at
  least one byte, and at the end of the file none.
\<close>

record os =
  os_rd :: "nat \<Rightarrow> nat \<Rightarrow> nat option"
  os_wr :: "nat \<Rightarrow> nat \<Rightarrow> nat option"
  os_sk :: "nat \<Rightarrow> bool"
  os_mal :: "nat \<Rightarrow> bool"

definition os_reliable :: "os \<Rightarrow> bool" where
  "os_reliable os \<longleftrightarrow> (\<forall>k n. os_rd os k n = Some n \<and> os_wr os k n = Some n \<and> os_sk os k \<and> os_mal os k)"

record fstate =
  f_data :: "u8 list"
  f_pos :: nat

text \<open>Overwriting from a position on; a gap behind the end of the file reads as zeros.\<close>

definition write_over :: "u8 list \<Rightarrow> nat \<Rightarrow> u8 list \<Rightarrow> u8 list" where
  "write_over data pos bs =
    (if bs = [] then data else take pos data @ replicate (pos - length data) 0 @ bs @ drop (pos + length bs) data)"

definition sys_read :: "os \<Rightarrow> nat \<Rightarrow> nat \<Rightarrow> fstate \<Rightarrow> u8 list option \<times> fstate" where
  "sys_read os k n f =
    (let av = take n (drop (f_pos f) (f_data f)) in
     case os_rd os k (length av) of
       None \<Rightarrow> (None, f)
     | Some r \<Rightarrow> (let m = max 1 (min r (length av)) in (Some (take m av), f\<lparr>f_pos := f_pos f + length (take m av)\<rparr>)))"

definition sys_write :: "os \<Rightarrow> nat \<Rightarrow> u8 list \<Rightarrow> fstate \<Rightarrow> nat option \<times> fstate" where
  "sys_write os k bs f =
    (case os_wr os k (length bs) of
       None \<Rightarrow> (None, f)
     | Some r \<Rightarrow> (let m = min r (length bs) in
         (Some m, f\<lparr>f_data := write_over (f_data f) (f_pos f) (take m bs), f_pos := f_pos f + m\<rparr>)))"

lemma sys_read_reliable:
  assumes "os_reliable os"
  shows "sys_read os k n f =
    (Some (take n (drop (f_pos f) (f_data f))), f\<lparr>f_pos := f_pos f + min n (length (f_data f) - f_pos f)\<rparr>)"
proof -
  define av where "av = take n (drop (f_pos f) (f_data f))"
  have l: "length av = min n (length (f_data f) - f_pos f)" by (simp add: av_def)
  have "take (max 1 (length av)) av = av" by (cases av) auto
  then show ?thesis using assms by (simp add: sys_read_def os_reliable_def Let_def av_def [symmetric] l [symmetric])
qed

lemma sys_write_reliable:
  assumes "os_reliable os"
  shows "sys_write os k bs f =
    (Some (length bs), f\<lparr>f_data := write_over (f_data f) (f_pos f) bs, f_pos := f_pos f + length bs\<rparr>)"
  using assms by (simp add: sys_write_def os_reliable_def Let_def)

text \<open>A read returns a part of the file at the position and moves behind it, whatever the system does.\<close>

lemma sys_read_some:
  assumes "sys_read os k n f = (Some bs, f')"
  shows "bs = take (length bs) (drop (f_pos f) (f_data f))" "length bs \<le> n"
    "f' = f\<lparr>f_pos := f_pos f + length bs\<rparr>" "bs = [] \<longleftrightarrow> n = 0 \<or> length (f_data f) \<le> f_pos f"
proof -
  define av where "av = take n (drop (f_pos f) (f_data f))"
  obtain r where "os_rd os k (length av) = Some r" and b: "bs = take (max 1 (min r (length av))) av"
    and f: "f' = f\<lparr>f_pos := f_pos f + length bs\<rparr>"
    using assms by (auto simp: sys_read_def Let_def av_def [symmetric] simp del: length_take split: option.splits)
  show "f' = f\<lparr>f_pos := f_pos f + length bs\<rparr>" by (rule f)
  have m: "length bs = min (max 1 (min r (length av))) (length av)" by (simp add: b)
  have "length av \<le> n" by (simp add: av_def)
  with m show "length bs \<le> n" by linarith
  have "bs = take (length bs) av" by (subst m) (simp add: b min_def)
  also have "\<dots> = take (length bs) (drop (f_pos f) (f_data f))" using \<open>length bs \<le> n\<close> by (simp add: av_def min_def)
  finally show "bs = take (length bs) (drop (f_pos f) (f_data f))" .
  have "bs = [] \<longleftrightarrow> av = []" by (simp add: b)
  then show "bs = [] \<longleftrightarrow> n = 0 \<or> length (f_data f) \<le> f_pos f" by (simp add: av_def)
qed

lemma write_over_Nil [simp]: "write_over data pos [] = data"
  by (simp add: write_over_def)

lemma write_over_end: "write_over data (length data) bs = data @ bs"
  by (simp add: write_over_def)

end
