(* ===== verification/Zipadjust.thy ===== *)
theory Zipadjust
  imports Native_Files
begin

text \<open>
  zipadjust.c: rewriting a zip file into the canonical form that deltas are made for.  Every entry gets a
  local header that agrees with the central directory, extra fields, comments and data descriptors are
  dropped, and compressed entries are optionally stored inflated.

  The packed structs are records; \<open>put_\<close> and \<open>get_\<close> are their layout in memory on a little-endian machine.
  \<open>off_t\<close>, \<open>size_t\<close> and \<open>uintptr_t\<close> have 64 bits, as on 64-bit systems (with the 32-bit \<open>off_t\<close> of 32-bit Android the model
  describes files below 2 GiB), and the sums formed in them do not wrap.  A run ends as
  \<open>Done\<close>, as \<open>Fail\<close> (the function returns 0), as \<open>Undef\<close> (undefined behaviour) or as \<open>Endless\<close>.  The output
  file stays as it is when the function fails.  zlib is a parameter: \<open>inflateInit2\<close> is the stream it sets
  up, if any, and \<open>inflate\<close> takes the stream, the input at hand and the room, and returns its code, the
  number of bytes consumed, the bytes produced and the stream.
\<close>

section \<open>Headers\<close>

record local_header =
  l_signature :: u32
  l_extract_version :: u16
  l_flags :: u16
  l_compression_method :: u16
  l_last_modified_time :: u16
  l_last_modified_date :: u16
  l_crc32 :: u32
  l_size_compressed :: u32
  l_size_uncompressed :: u32
  l_length_filename :: u16
  l_length_extra :: u16

record central_header =
  c_signature :: u32
  c_version_made :: u16
  c_version_needed :: u16
  c_flags :: u16
  c_compression_method :: u16
  c_last_modified_time :: u16
  c_last_modified_date :: u16
  c_crc32 :: u32
  c_size_compressed :: u32
  c_size_uncompressed :: u32
  c_length_filename :: u16
  c_length_extra :: u16
  c_length_comment :: u16
  c_disk_start :: u16
  c_attr_internal :: u16
  c_attr_external :: u32
  c_offset :: u32

record central_footer =
  cf_signature :: u32
  cf_disk_number :: u16
  cf_disk_number_central_directory :: u16
  cf_central_directory_entries_this_disk :: u16
  cf_central_directory_entries_total :: u16
  cf_central_directory_size :: u32
  cf_central_directory_offset :: u32
  cf_length_comment :: u16

definition MAGIC_CENTRAL_HEADER :: u32 where "MAGIC_CENTRAL_HEADER = 0x02014b50"
definition MAGIC_CENTRAL_FOOTER :: u32 where "MAGIC_CENTRAL_FOOTER = 0x06054b50"

definition sizeof_local :: nat where "sizeof_local = 30"
definition sizeof_central :: nat where "sizeof_central = 46"
definition sizeof_footer :: nat where "sizeof_footer = 22"

definition le16 :: "u16 \<Rightarrow> u8 list" where
  "le16 w = [ucast w, ucast (drop_bit 8 w)]"

definition le32 :: "u32 \<Rightarrow> u8 list" where
  "le32 w = [ucast w, ucast (drop_bit 8 w), ucast (drop_bit 16 w), ucast (drop_bit 24 w)]"

definition get16 :: "u8 list \<Rightarrow> nat \<Rightarrow> u16" where
  "get16 bs i = ucast (bs ! i) OR push_bit 8 (ucast (bs ! (i + 1)))"

definition get32 :: "u8 list \<Rightarrow> nat \<Rightarrow> u32" where
  "get32 bs i = ucast (bs ! i) OR push_bit 8 (ucast (bs ! (i + 1))) OR push_bit 16 (ucast (bs ! (i + 2)))
     OR push_bit 24 (ucast (bs ! (i + 3)))"

definition put_local :: "local_header \<Rightarrow> u8 list" where
  "put_local h = le32 (l_signature h) @ le16 (l_extract_version h) @ le16 (l_flags h) @ le16 (l_compression_method h)
     @ le16 (l_last_modified_time h) @ le16 (l_last_modified_date h) @ le32 (l_crc32 h) @ le32 (l_size_compressed h)
     @ le32 (l_size_uncompressed h) @ le16 (l_length_filename h) @ le16 (l_length_extra h)"

definition get_local :: "u8 list \<Rightarrow> local_header" where
  "get_local b = \<lparr>l_signature = get32 b 0, l_extract_version = get16 b 4, l_flags = get16 b 6,
     l_compression_method = get16 b 8, l_last_modified_time = get16 b 10, l_last_modified_date = get16 b 12,
     l_crc32 = get32 b 14, l_size_compressed = get32 b 18, l_size_uncompressed = get32 b 22,
     l_length_filename = get16 b 26, l_length_extra = get16 b 28\<rparr>"

definition put_central :: "central_header \<Rightarrow> u8 list" where
  "put_central h = le32 (c_signature h) @ le16 (c_version_made h) @ le16 (c_version_needed h) @ le16 (c_flags h)
     @ le16 (c_compression_method h) @ le16 (c_last_modified_time h) @ le16 (c_last_modified_date h)
     @ le32 (c_crc32 h) @ le32 (c_size_compressed h) @ le32 (c_size_uncompressed h) @ le16 (c_length_filename h)
     @ le16 (c_length_extra h) @ le16 (c_length_comment h) @ le16 (c_disk_start h) @ le16 (c_attr_internal h)
     @ le32 (c_attr_external h) @ le32 (c_offset h)"

definition get_central :: "u8 list \<Rightarrow> central_header" where
  "get_central b = \<lparr>c_signature = get32 b 0, c_version_made = get16 b 4, c_version_needed = get16 b 6, c_flags = get16 b 8,
     c_compression_method = get16 b 10, c_last_modified_time = get16 b 12, c_last_modified_date = get16 b 14,
     c_crc32 = get32 b 16, c_size_compressed = get32 b 20, c_size_uncompressed = get32 b 24,
     c_length_filename = get16 b 28, c_length_extra = get16 b 30, c_length_comment = get16 b 32,
     c_disk_start = get16 b 34, c_attr_internal = get16 b 36, c_attr_external = get32 b 38, c_offset = get32 b 42\<rparr>"

definition put_footer :: "central_footer \<Rightarrow> u8 list" where
  "put_footer h = le32 (cf_signature h) @ le16 (cf_disk_number h) @ le16 (cf_disk_number_central_directory h)
     @ le16 (cf_central_directory_entries_this_disk h) @ le16 (cf_central_directory_entries_total h)
     @ le32 (cf_central_directory_size h) @ le32 (cf_central_directory_offset h) @ le16 (cf_length_comment h)"

definition get_footer :: "u8 list \<Rightarrow> central_footer" where
  "get_footer b = \<lparr>cf_signature = get32 b 0, cf_disk_number = get16 b 4, cf_disk_number_central_directory = get16 b 6,
     cf_central_directory_entries_this_disk = get16 b 8, cf_central_directory_entries_total = get16 b 10,
     cf_central_directory_size = get32 b 12, cf_central_directory_offset = get32 b 16, cf_length_comment = get16 b 20\<rparr>"

section \<open>Runs\<close>

record zio =
  zcalls :: nat
  zin :: fstate
  zout :: fstate

datatype 'a zres = Done 'a zio | Fail zio | Undef | Endless

definition zbind :: "'a zres \<Rightarrow> ('a \<Rightarrow> zio \<Rightarrow> 'b zres) \<Rightarrow> 'b zres" where
  "zbind m k = (case m of Done x s \<Rightarrow> k x s | Fail s \<Rightarrow> Fail s | Undef \<Rightarrow> Undef | Endless \<Rightarrow> Endless)"

lemma zbind_simps [simp]:
  "zbind (Done x s) k = k x s" "zbind (Fail s) k = Fail s" "zbind Undef k = Undef" "zbind Endless k = Endless"
  by (simp_all add: zbind_def)

definition zseek_in :: "os \<Rightarrow> nat \<Rightarrow> zio \<Rightarrow> unit zres" where
  "zseek_in os off s =
    (let s1 = s\<lparr>zcalls := Suc (zcalls s)\<rparr> in
     if os_sk os (zcalls s) then Done () (s1\<lparr>zin := (zin s)\<lparr>f_pos := off\<rparr>\<rparr>) else Fail s1)"

definition zseek_out :: "os \<Rightarrow> nat \<Rightarrow> zio \<Rightarrow> unit zres" where
  "zseek_out os off s =
    (let s1 = s\<lparr>zcalls := Suc (zcalls s)\<rparr> in
     if os_sk os (zcalls s) then Done () (s1\<lparr>zout := (zout s)\<lparr>f_pos := off\<rparr>\<rparr>) else Fail s1)"

definition zread :: "os \<Rightarrow> nat \<Rightarrow> zio \<Rightarrow> u8 list option \<times> zio" where
  "zread os n s =
    (case sys_read os (zcalls s) n (zin s) of (r, f) \<Rightarrow> (r, s\<lparr>zcalls := Suc (zcalls s), zin := f\<rparr>))"

text \<open>\<open>if (write(fd, buf, n) != n) return xerror(...)\<close>.\<close>

definition zwrite :: "os \<Rightarrow> u8 list \<Rightarrow> zio \<Rightarrow> unit zres" where
  "zwrite os bs s =
    (case sys_write os (zcalls s) bs (zout s) of
       (r, f) \<Rightarrow> (let s1 = s\<lparr>zcalls := Suc (zcalls s), zout := f\<rparr> in
         if r = Some (length bs) then Done () s1 else Fail s1))"

definition xseekread :: "os \<Rightarrow> nat \<Rightarrow> nat \<Rightarrow> zio \<Rightarrow> u8 list zres" where
  "xseekread os off n s =
    zbind (zseek_in os off s)
      (\<lambda>_ s1. case zread os n s1 of
         (Some bs, s2) \<Rightarrow> if length bs = n then Done bs s2 else Fail s2
       | (None, s2) \<Rightarrow> Fail s2)"

definition xseekwrite :: "os \<Rightarrow> nat \<Rightarrow> u8 list \<Rightarrow> zio \<Rightarrow> unit zres" where
  "xseekwrite os off bs s = zbind (zseek_out os off s) (\<lambda>_. zwrite os bs)"

definition zmalloc :: "os \<Rightarrow> zio \<Rightarrow> bool \<times> zio" where
  "zmalloc os s = (os_mal os (zcalls s), s\<lparr>zcalls := Suc (zcalls s)\<rparr>)"

definition CHUNK :: nat where "CHUNK = 256 * 1024"

section \<open>Copying an entry\<close>

text \<open>A failed \<open>read\<close> gives \<open>r = (size_t) -1\<close>, which passes the test \<open>r <= 0\<close>; the \<open>write\<close> that follows gets a
  count larger than the buffer.\<close>

function copy_loop :: "os \<Rightarrow> nat \<Rightarrow> zio \<Rightarrow> unit zres" where
  "copy_loop os left s =
    (if left = 0 then Done () s
     else
       (case zread os (min left CHUNK) s of
          (None, s1) \<Rightarrow> Undef
        | (Some bs, s1) \<Rightarrow>
            if bs = [] then Fail s1
            else zbind (zwrite os bs s1) (\<lambda>_. copy_loop os (left - length bs))))"
  by pat_completeness auto
termination by (relation "measure (\<lambda>(os, left, s). left)") auto

declare copy_loop.simps [simp del]

definition xfilecopy :: "os \<Rightarrow> nat \<Rightarrow> nat \<Rightarrow> nat \<Rightarrow> zio \<Rightarrow> unit zres" where
  "xfilecopy os offin offout bytes s =
    zbind (zseek_in os offin s)
      (\<lambda>_ s1. zbind (zseek_out os offout s1)
        (\<lambda>_ s2. case zmalloc os s2 of (ok, s3) \<Rightarrow> if \<not> ok then Fail s3 else copy_loop os bytes s3))"

section \<open>Inflating an entry\<close>

datatype zret =
    Z_OK | Z_STREAM_END | Z_NEED_DICT | Z_ERRNO | Z_STREAM_ERROR | Z_DATA_ERROR | Z_MEM_ERROR | Z_BUF_ERROR | Z_VERSION_ERROR

type_synonym 'z inflater = "'z \<Rightarrow> u8 list \<Rightarrow> nat \<Rightarrow> zret \<times> nat \<times> u8 list \<times> 'z"

text \<open>The inner \<open>do ... while (strm.avail_out == 0)\<close>; \<open>inp\<close> is the rest of the chunk.\<close>

partial_function (option) inflate_inner :: "os \<Rightarrow> 'z inflater \<Rightarrow> 'z \<Rightarrow> u8 list \<Rightarrow> zio \<Rightarrow> (zret \<times> 'z) zres option" where
  "inflate_inner os inflate z inp s =
    (case inflate z inp CHUNK of
       (ret, used, out, z1) \<Rightarrow>
         if ret = Z_STREAM_ERROR then Some (Fail s)
         else if ret = Z_NEED_DICT \<or> ret = Z_DATA_ERROR \<or> ret = Z_MEM_ERROR then Some (Fail s)
         else
           (case zwrite os out s of
              Done _ s1 \<Rightarrow> if CHUNK - length out = 0 then inflate_inner os inflate z1 (drop used inp) s1 else Some (Done (ret, z1) s1)
            | Fail s1 \<Rightarrow> Some (Fail s1)
            | Undef \<Rightarrow> Some Undef
            | Endless \<Rightarrow> Some Endless))"

text \<open>The outer loop.  \<open>strm.avail_in\<close> is unsigned, so a failed \<open>read\<close> is not seen as such and \<open>inflate\<close> is told
  of 4294967295 bytes of input.\<close>

partial_function (option) inflate_outer :: "os \<Rightarrow> 'z inflater \<Rightarrow> zret \<Rightarrow> 'z \<Rightarrow> zio \<Rightarrow> zret zres option" where
  "inflate_outer os inflate ret z s =
    (case zread os CHUNK s of
       (None, s1) \<Rightarrow> Some Undef
     | (Some inp, s1) \<Rightarrow>
         if inp = [] then Some (Done ret s1)
         else
           (case inflate_inner os inflate z inp s1 of
              None \<Rightarrow> None
            | Some (Done (ret1, z1) s2) \<Rightarrow>
                if ret1 \<noteq> Z_STREAM_END then inflate_outer os inflate ret1 z1 s2 else Some (Done ret1 s2)
            | Some (Fail s2) \<Rightarrow> Some (Fail s2)
            | Some Undef \<Rightarrow> Some Undef
            | Some Endless \<Rightarrow> Some Endless))"

text \<open>The parameter \<open>bytes\<close> of the function is not used.\<close>

definition xdecompress :: "os \<Rightarrow> 'z inflater \<Rightarrow> 'z option \<Rightarrow> nat \<Rightarrow> nat \<Rightarrow> nat \<Rightarrow> zio \<Rightarrow> unit zres" where
  "xdecompress os inflate inflateInit2 offin offout bytes s =
    zbind (zseek_in os offin s)
      (\<lambda>_ s1. zbind (zseek_out os offout s1)
        (\<lambda>_ s2. case inflateInit2 of
           None \<Rightarrow> Fail s2
         | Some z \<Rightarrow>
            (case inflate_outer os inflate Z_OK z s2 of
               None \<Rightarrow> Endless
             | Some r \<Rightarrow> zbind r (\<lambda>ret s3. if ret = Z_STREAM_END then Done () s3 else Fail s3))))"

section \<open>The footer\<close>

text \<open>The search from the end of the file; the argument \<open>n\<close> is \<open>i + 1\<close>.\<close>

fun find_footer :: "os \<Rightarrow> nat \<Rightarrow> zio \<Rightarrow> central_footer option zres" where
  "find_footer os 0 s = Done None s"
| "find_footer os (Suc i) s =
    zbind (xseekread os i 4 s)
      (\<lambda>m s1. if get32 m 0 \<noteq> MAGIC_CENTRAL_FOOTER then find_footer os i s1
        else zbind (xseekread os i sizeof_footer s1)
          (\<lambda>fb s2. let footer = get_footer fb in
            zbind (xseekread os (unat (cf_central_directory_offset footer)) sizeof_central s2)
              (\<lambda>hb s3. if c_signature (get_central hb) = MAGIC_CENTRAL_HEADER then Done (Some footer) s3
                 else find_footer os i s3)))"

section \<open>Entries\<close>

text \<open>The C operator \<open>!\<close>.\<close>

definition c_not :: "int \<Rightarrow> u16" where
  "c_not x = (if x = 0 then 1 else 0)"

text \<open>The central header after the assignments, and the local header made to match it.\<close>

definition new_central :: "bool \<Rightarrow> u32 \<Rightarrow> central_header \<Rightarrow> central_header" where
  "new_central decompress out_index h =
    (let h1 = h\<lparr>c_offset := out_index, c_flags := c_flags h AND c_not 8\<rparr>;
         h2 = (if decompress \<and> c_compression_method h = 8
               then h1\<lparr>c_compression_method := 0, c_size_compressed := c_size_uncompressed h1\<rparr> else h1) in
     h2\<lparr>c_length_extra := 0, c_length_comment := 0\<rparr>)"

definition new_local :: "central_header \<Rightarrow> local_header \<Rightarrow> local_header" where
  "new_local h l = l\<lparr>l_compression_method := c_compression_method h, l_flags := c_flags h, l_crc32 := c_crc32 h,
     l_size_uncompressed := c_size_uncompressed h, l_size_compressed := c_size_compressed h, l_length_extra := 0\<rparr>"

text \<open>One turn of \<open>while (1)\<close> behind the signature test.  \<open>dir\<close> is \<open>central_directory_in\<close>, \<open>dout\<close> the bytes of
  \<open>central_directory_out\<close> written so far; the result is \<open>dir\<close> with the header clobbered, \<open>out_index\<close> and \<open>dout\<close>.\<close>

definition adjust_entry ::
    "os \<Rightarrow> 'z inflater \<Rightarrow> 'z option \<Rightarrow> bool \<Rightarrow> u8 list \<Rightarrow> nat \<Rightarrow> u32 \<Rightarrow> u8 list \<Rightarrow> zio \<Rightarrow> (u8 list \<times> u32 \<times> u8 list) zres" where
  "adjust_entry os inflate init decompress dir idx out_index dout s =
    (let h = get_central (drop idx dir); nlen = unat (c_length_filename h) in
     if length dir < idx + sizeof_central + nlen \<or> 1024 \<le> nlen then Undef
     else
       let name = take nlen (drop (idx + sizeof_central) dir) in
       zbind (xseekread os (unat (c_offset h)) sizeof_local s)
         (\<lambda>lb s1. let h' = new_central decompress out_index h; l' = new_local h' (get_local lb);
             out1 = out_index + of_nat sizeof_local; out2 = out1 + of_nat nlen;
             offin = unat (c_offset h) + sizeof_local + nlen + unat (c_length_extra h) in
           zbind (xseekwrite os (unat out_index) (put_local l') s1)
             (\<lambda>_ s2. zbind (xseekwrite os (unat out1) name s2)
               (\<lambda>_ s3. zbind (if decompress \<and> c_compression_method h = 8
                    then xdecompress os inflate init offin (unat out2) (unat (c_size_compressed h)) s3
                    else xfilecopy os offin (unat out2) (unat (c_size_compressed h)) s3)
                 (\<lambda>_ s4. let dir' = take idx dir @ put_central h' @ drop (idx + sizeof_central) dir in
                   if length dir < length dout + sizeof_central + nlen then Undef
                   else Done (dir', out2 + l_size_compressed l', dout @ take (sizeof_central + nlen) (drop idx dir')) s4)))))"

definition entry_size :: "central_header \<Rightarrow> nat" where
  "entry_size h = sizeof_central + unat (c_length_filename h) + unat (c_length_extra h) + unat (c_length_comment h)"

function adjust_loop ::
    "os \<Rightarrow> 'z inflater \<Rightarrow> 'z option \<Rightarrow> bool \<Rightarrow> nat \<Rightarrow> u8 list \<Rightarrow> nat \<Rightarrow> u32 \<Rightarrow> u8 list \<Rightarrow> zio \<Rightarrow> (u32 \<times> u8 list) zres" where
  "adjust_loop os inflate init decompress dsz dir idx out_index dout s =
    (if dsz < idx + 4 \<or> length dir < idx + 4 then Undef
     else if get32 dir idx \<noteq> MAGIC_CENTRAL_HEADER then Done (out_index, dout) s
     else if length dir < idx + sizeof_central then Undef
     else
       zbind (adjust_entry os inflate init decompress dir idx out_index dout s)
         (\<lambda>r s1. case r of (dir', out', dout') \<Rightarrow>
            adjust_loop os inflate init decompress dsz dir' (idx + entry_size (get_central (drop idx dir))) out' dout' s1))"
  by pat_completeness auto
termination
  by (relation "measure (\<lambda>(os, inflate, init, decompress, dsz, dir, idx, out, dout, s). dsz - idx)")
     (auto simp: entry_size_def sizeof_central_def)

declare adjust_loop.simps [simp del]

section \<open>The program\<close>

definition adjust_write :: "os \<Rightarrow> central_footer \<Rightarrow> u32 \<times> u8 list \<Rightarrow> zio \<Rightarrow> unit zres" where
  "adjust_write os footer r s =
    (case r of (out_index, dout) \<Rightarrow>
      let footer' = footer\<lparr>cf_central_directory_size := of_nat (length dout), cf_central_directory_offset := out_index,
            cf_length_comment := 0\<rparr> in
      zbind (xseekwrite os (unat out_index) dout s)
        (\<lambda>_ s1. xseekwrite os (unat (out_index + of_nat (length dout))) (put_footer footer') s1))"

text \<open>The arguments \<open>in_opened\<close> and \<open>out_opened\<close> say whether \<open>open\<close> returned a descriptor above 0; opening the
  output makes it empty.  A buffer that \<open>malloc\<close> did not return makes the \<open>read\<close> into it fail, or the
  \<open>memset\<close> undefined.\<close>

definition zipadjust ::
    "os \<Rightarrow> 'z inflater \<Rightarrow> 'z option \<Rightarrow> bool \<Rightarrow> bool \<Rightarrow> bool \<Rightarrow> zio \<Rightarrow> unit zres" where
  "zipadjust os inflate init in_opened out_opened decompress s =
    (if \<not> in_opened then Fail s
     else
       let fsize = of_nat (length (f_data (zin s))) :: u32 in
       zbind (find_footer os (nat (sint (fsize - 4) + 1)) s)
         (\<lambda>found s1. case found of
            None \<Rightarrow> Fail s1
          | Some footer \<Rightarrow>
             (let pos = cf_central_directory_offset footer; dsize = fsize - pos in
              if pos = 0 then Fail s1
              else
                (case zmalloc os s1 of (ok1, s2) \<Rightarrow>
                 (case zmalloc os s2 of (ok2, s3) \<Rightarrow>
                   zbind (xseekread os (unat pos) (unat dsize) s3)
                     (\<lambda>dir s4. if \<not> ok1 then (if dsize = 0 then Undef else Fail s4)
                       else if \<not> ok2 then Undef
                       else if \<not> out_opened then Fail s4
                       else zbind (adjust_loop os inflate init decompress (unat dsize) dir 0 0 []
                                (s4\<lparr>zout := \<lparr>f_data = [], f_pos = 0\<rparr>\<rparr>))
                              (adjust_write os footer)))))))"

end
