(* ===== verification/Zipadjust_Spec.thy ===== *)
theory Zipadjust_Spec
  imports Zipadjust "HOL-Library.Sublist"
begin

text \<open>
  What zipadjust promises.  A zip file is described by its entries, in the terms of the format: local headers,
  data, data descriptors, the central directory and the footer, each of which has to agree with the others.  The canonical
  form of a list of entries is written out byte by byte, without the header functions of the program.  On a zip file
  whose two extra fields have the same length for each entry, \<open>zipadjust\<close> writes exactly that form.
  The canonical form is again a zip file, with the same names and contents, and is left unchanged by a second run, which is
  what deltas between adjusted files rely on.
\<close>

section \<open>Layout of the headers\<close>

lemma length_le [simp]: "length (le16 x) = 2" "length (le32 y) = 4"
  by (simp_all add: le16_def le32_def)

lemma join16: "ucast (ucast w :: u8) OR push_bit 8 (ucast (ucast (drop_bit 8 w) :: u8)) = (w :: u16)"
  by (rule bit_word_eqI) (auto simp: bit_simps)

lemma join32:
  "ucast (ucast w :: u8) OR push_bit 8 (ucast (ucast (drop_bit 8 w) :: u8)) OR push_bit 16 (ucast (ucast (drop_bit 16 w) :: u8))
     OR push_bit 24 (ucast (ucast (drop_bit 24 w) :: u8)) = (w :: u32)"
proof (rule bit_word_eqI)
  fix n :: nat
  assume "n < LENGTH(32)"
  then consider "n < 8" | k where "n = 8 + k" "k < 8" | k where "n = 16 + k" "k < 8" | k where "n = 24 + k" "k < 8"
    by (cases "n < 8"; cases "n < 16"; cases "n < 24")
       (auto simp: le_iff_add not_less dest!: le_Suc_ex)
  then show "bit (ucast (ucast w :: u8) OR push_bit 8 (ucast (ucast (drop_bit 8 w) :: u8)) OR push_bit 16 (ucast (ucast (drop_bit 16 w) :: u8))
     OR push_bit 24 (ucast (ucast (drop_bit 24 w) :: u8)) :: u32) n = bit w n"
    by cases (auto simp: bit_simps)
qed

lemma get_le_0: "get16 (le16 x @ r) 0 = x" "get32 (le32 y @ r) 0 = y"
  using join16 [of x] join32 [of y] by (simp_all add: get16_def get32_def le16_def le32_def numeral_2_eq_2 numeral_3_eq_3)

lemma get_skip: "get16 (p @ r) (length p + i) = get16 r i" "get32 (p @ r) (length p + i) = get32 r i"
  by (simp_all add: get16_def get32_def nth_append add.assoc)

lemma get_skip_le [simp]:
  "2 \<le> i \<Longrightarrow> get16 (le16 x @ r) i = get16 r (i - 2)" "2 \<le> i \<Longrightarrow> get32 (le16 x @ r) i = get32 r (i - 2)"
  "4 \<le> i \<Longrightarrow> get16 (le32 y @ r) i = get16 r (i - 4)" "4 \<le> i \<Longrightarrow> get32 (le32 y @ r) i = get32 r (i - 4)"
  using get_skip [of "le16 x" r "i - 2"] get_skip [of "le32 y" r "i - 4"] by (simp_all del: add_2_eq_Suc)

lemmas get_le = get_le_0 get_le_0 [where r = "[]", simplified]

lemma length_put [simp]: "length (put_local l) = 30" "length (put_central h) = 46" "length (put_footer f) = 22"
  by (simp_all add: put_local_def put_central_def put_footer_def)

lemma get_put_local [simp]: "get_local (put_local l @ r) = l"
  by (simp add: get_local_def put_local_def get_le)

lemma get_put_central [simp]: "get_central (put_central h @ r) = h"
  by (simp add: get_central_def put_central_def get_le)

lemma get_put_footer [simp]: "get_footer (put_footer f @ r) = f"
  by (simp add: get_footer_def put_footer_def get_le)

lemma get_put_sig [simp]: "get32 (put_central h @ r) 0 = c_signature h" "get32 (put_footer f @ r) 0 = cf_signature f"
  by (simp_all add: put_central_def put_footer_def get_le)

section \<open>Zip files\<close>

record zentry =
  ze_central :: central_header
  ze_local :: local_header
  ze_name :: "u8 list"
  ze_extra :: "u8 list"
  ze_comment :: "u8 list"
  ze_lextra :: "u8 list"
  ze_data :: "u8 list"
  ze_descr :: "u8 list"

text \<open>An entry of the directory: header, name, extra field and comment.  In front of the directory it has a local header, the name, an
  extra field of its own, the data, and a data descriptor if bit 3 of the flags is set.\<close>

definition central_bytes :: "zentry \<Rightarrow> u8 list" where
  "central_bytes e = put_central (ze_central e) @ ze_name e @ ze_extra e @ ze_comment e"

definition local_bytes :: "zentry \<Rightarrow> u8 list" where
  "local_bytes e = put_local (ze_local e) @ ze_name e @ ze_lextra e @ ze_data e @ ze_descr e"

definition dir_fields :: "zentry \<Rightarrow> bool" where
  "dir_fields e \<longleftrightarrow> c_signature (ze_central e) = 0x02014b50
     \<and> unat (c_length_filename (ze_central e)) = length (ze_name e) \<and> length (ze_name e) < 1024
     \<and> unat (c_length_extra (ze_central e)) = length (ze_extra e)
     \<and> unat (c_length_comment (ze_central e)) = length (ze_comment e)
     \<and> unat (c_size_compressed (ze_central e)) = length (ze_data e)"

text \<open>The data descriptor, with or without its signature.\<close>

definition descriptor_ok :: "zentry \<Rightarrow> bool" where
  "descriptor_ok e \<longleftrightarrow>
    (let d = le32 (c_crc32 (ze_central e)) @ le32 (c_size_compressed (ze_central e)) @ le32 (c_size_uncompressed (ze_central e)) in
     ze_descr e = d \<or> ze_descr e = le32 0x08074b50 @ d)"

text \<open>What the local header has to say: the same as the central one, where crc and sizes may be left to a data descriptor.  No
  entry is encrypted, and stored data has the same size compressed and uncompressed.\<close>

definition local_fields :: "zentry \<Rightarrow> bool" where
  "local_fields e \<longleftrightarrow> (let h = ze_central e; l = ze_local e in
     l_signature l = 0x04034b50 \<and> l_flags l = c_flags h \<and> l_compression_method l = c_compression_method h
     \<and> unat (l_length_filename l) = length (ze_name e) \<and> unat (l_length_extra l) = length (ze_lextra e)
     \<and> (if bit (c_flags h) 3 then descriptor_ok e
        else l_crc32 l = c_crc32 h \<and> l_size_compressed l = c_size_compressed h
          \<and> l_size_uncompressed l = c_size_uncompressed h \<and> ze_descr e = [])
     \<and> \<not> bit (c_flags h) 0
     \<and> (c_compression_method h = 0 \<longrightarrow> c_size_compressed h = c_size_uncompressed h))"

definition entry_ok :: "u8 list \<Rightarrow> zentry \<Rightarrow> bool" where
  "entry_ok pre e \<longleftrightarrow> dir_fields e \<and> local_fields e
     \<and> prefix (local_bytes e) (drop (unat (c_offset (ze_central e))) pre)"

text \<open>A zip file: the entries, the central directory, the footer that says where the directory is, how long and of how many
  entries, and a comment in which no second footer starts.\<close>

definition zip_file :: "u8 list \<Rightarrow> zentry list \<Rightarrow> central_footer \<Rightarrow> bool" where
  "zip_file zf es footer \<longleftrightarrow>
    (\<exists>pre tail. zf = pre @ concat (map central_bytes es) @ put_footer footer @ tail \<and> es \<noteq> []
       \<and> (\<forall>e \<in> set es. entry_ok pre e)
       \<and> unat (cf_central_directory_offset footer) = length pre
       \<and> unat (cf_central_directory_size footer) = length (concat (map central_bytes es))
       \<and> unat (cf_length_comment footer) = length tail
       \<and> (\<forall>i < length zf. length zf - length tail - 22 < i \<longrightarrow> i + 4 \<le> length zf \<longrightarrow> get32 zf i \<noteq> 0x06054b50))
    \<and> cf_signature footer = 0x06054b50 \<and> cf_disk_number footer = 0 \<and> cf_disk_number_central_directory footer = 0
    \<and> unat (cf_central_directory_entries_this_disk footer) = length es
    \<and> unat (cf_central_directory_entries_total footer) = length es \<and> length zf < 2 ^ 31"

text \<open>The program looks for the data of an entry behind the local header, the name and as many bytes as the extra field in the
  \<^emph>\<open>central\<close> directory has.\<close>

definition data_offset :: "zentry \<Rightarrow> nat" where
  "data_offset e = unat (c_offset (ze_central e)) + 30 + length (ze_name e) + length (ze_extra e)"

definition located :: "u8 list \<Rightarrow> zentry \<Rightarrow> bool" where
  "located zf e \<longleftrightarrow> dir_fields e
     \<and> take 30 (drop (unat (c_offset (ze_central e))) zf) = put_local (ze_local e)
     \<and> take (length (ze_data e)) (drop (data_offset e) zf) = ze_data e"

lemma entry_located:
  assumes "entry_ok pre e" "length (ze_lextra e) = length (ze_extra e)"
  shows "located (pre @ r) e"
proof -
  let ?o = "unat (c_offset (ze_central e))"
  obtain q where q: "drop ?o pre = local_bytes e @ q" using assms(1) by (auto simp: entry_ok_def prefix_def)
  then have "?o \<le> length pre" by (metis append_is_Nil_conv drop_all length_0_conv length_put(1) linear local_bytes_def zero_neq_numeral)
  then have d: "drop ?o (pre @ r) = local_bytes e @ q @ r" using q by simp
  have "drop (data_offset e) (pre @ r) = drop (30 + length (ze_name e) + length (ze_lextra e)) (drop ?o (pre @ r))"
    by (simp add: data_offset_def assms(2) add.commute add.left_commute del: drop_append)
  also have "\<dots> = ze_data e @ ze_descr e @ q @ r" unfolding d by (simp add: local_bytes_def)
  finally show ?thesis using assms(1) d by (simp add: located_def entry_ok_def local_bytes_def)
qed

section \<open>The canonical form\<close>

text \<open>\<open>plain e\<close> is the inflated data of an entry.\<close>

definition inflated :: "bool \<Rightarrow> zentry \<Rightarrow> bool" where
  "inflated dec e \<longleftrightarrow> dec \<and> c_compression_method (ze_central e) = 8"

definition content :: "bool \<Rightarrow> (zentry \<Rightarrow> u8 list) \<Rightarrow> zentry \<Rightarrow> u8 list" where
  "content dec plain e = (if inflated dec e then plain e else ze_data e)"

text \<open>The bytes.  Flags are 0: the program means to clear bit 3 but clears them all.  Times, versions and attributes are
  those of the entry; crc and uncompressed size are those of the directory.\<close>

definition canon_method :: "bool \<Rightarrow> zentry \<Rightarrow> u16" where
  "canon_method dec e = (if inflated dec e then 0 else c_compression_method (ze_central e))"

definition canon_local :: "bool \<Rightarrow> (zentry \<Rightarrow> u8 list) \<Rightarrow> zentry \<Rightarrow> u8 list" where
  "canon_local dec plain e =
    le32 0x04034b50 @ le16 (l_extract_version (ze_local e)) @ le16 0 @ le16 (canon_method dec e)
    @ le16 (l_last_modified_time (ze_local e)) @ le16 (l_last_modified_date (ze_local e))
    @ le32 (c_crc32 (ze_central e)) @ le32 (of_nat (length (content dec plain e))) @ le32 (c_size_uncompressed (ze_central e))
    @ le16 (of_nat (length (ze_name e))) @ le16 0 @ ze_name e @ content dec plain e"

definition canon_central :: "bool \<Rightarrow> (zentry \<Rightarrow> u8 list) \<Rightarrow> nat \<Rightarrow> zentry \<Rightarrow> u8 list" where
  "canon_central dec plain off e =
    le32 0x02014b50 @ le16 (c_version_made (ze_central e)) @ le16 (c_version_needed (ze_central e)) @ le16 0 @ le16 (canon_method dec e)
    @ le16 (c_last_modified_time (ze_central e)) @ le16 (c_last_modified_date (ze_central e))
    @ le32 (c_crc32 (ze_central e)) @ le32 (of_nat (length (content dec plain e))) @ le32 (c_size_uncompressed (ze_central e))
    @ le16 (of_nat (length (ze_name e))) @ le16 0 @ le16 0 @ le16 (c_disk_start (ze_central e))
    @ le16 (c_attr_internal (ze_central e)) @ le32 (c_attr_external (ze_central e)) @ le32 (of_nat off) @ ze_name e"

text \<open>The directory gives the place of each local header: the lengths of those before it, added up.\<close>

fun canon_directory :: "bool \<Rightarrow> (zentry \<Rightarrow> u8 list) \<Rightarrow> nat \<Rightarrow> zentry list \<Rightarrow> u8 list" where
  "canon_directory dec plain off [] = []"
| "canon_directory dec plain off (e # es) =
    canon_central dec plain off e @ canon_directory dec plain (off + length (canon_local dec plain e)) es"

definition canonical_zip :: "bool \<Rightarrow> (zentry \<Rightarrow> u8 list) \<Rightarrow> zentry list \<Rightarrow> u8 list" where
  "canonical_zip dec plain es =
    (let ls = concat (map (canon_local dec plain) es); dir = canon_directory dec plain 0 es in
     ls @ dir @ le32 0x06054b50 @ le16 0 @ le16 0 @ le16 (of_nat (length es)) @ le16 (of_nat (length es))
     @ le32 (of_nat (length dir)) @ le32 (of_nat (length ls)) @ le16 0)"

section \<open>What the program makes of the entries\<close>

definition adjusted :: "bool \<Rightarrow> (zentry \<Rightarrow> u8 list) \<Rightarrow> nat \<Rightarrow> zentry \<Rightarrow> zentry" where
  "adjusted dec plain off e =
    (let h = new_central dec (of_nat off) (ze_central e) in
     \<lparr>ze_central = h, ze_local = new_local h (ze_local e), ze_name = ze_name e, ze_extra = [], ze_comment = [],
      ze_lextra = [], ze_data = content dec plain e, ze_descr = []\<rparr>)"

fun adjust_all :: "bool \<Rightarrow> (zentry \<Rightarrow> u8 list) \<Rightarrow> nat \<Rightarrow> zentry list \<Rightarrow> zentry list" where
  "adjust_all dec plain off [] = []"
| "adjust_all dec plain off (e # es) =
    (let e' = adjusted dec plain off e in e' # adjust_all dec plain (off + length (local_bytes e')) es)"

definition locals :: "zentry list \<Rightarrow> u8 list" where
  "locals es = concat (map local_bytes es)"

definition directory :: "zentry list \<Rightarrow> u8 list" where
  "directory es = concat (map central_bytes es)"

definition new_footer :: "zentry list \<Rightarrow> central_footer \<Rightarrow> central_footer" where
  "new_footer es footer = footer\<lparr>cf_central_directory_size := of_nat (length (directory es)),
     cf_central_directory_offset := of_nat (length (locals es)), cf_length_comment := 0\<rparr>"

definition rewritten :: "zentry list \<Rightarrow> central_footer \<Rightarrow> u8 list" where
  "rewritten es footer = locals es @ directory es @ put_footer (new_footer es footer)"

section \<open>zlib\<close>

text \<open>What the code relies on.  \<open>R z d u\<close> says that stream \<open>z\<close> has to read \<open>d\<close> to the end of the compressed
  data and has \<open>u\<close> still to write.  A call takes input that is a part of \<open>d\<close> or goes beyond it; it writes as
  much as it can: it ends the stream, or fills the room, or uses up an input that ends before \<open>d\<close> does.
  At the end of the stream further calls report the end again.\<close>

definition inflate_contract :: "'z inflater \<Rightarrow> ('z \<Rightarrow> u8 list \<Rightarrow> u8 list \<Rightarrow> bool) \<Rightarrow> bool" where
  "inflate_contract inflate R \<longleftrightarrow>
    (\<forall>z d u c n. R z d u \<and> 0 < n \<and> (prefix c d \<or> prefix d c) \<longrightarrow>
      (case inflate z c n of (ret, used, out, z') \<Rightarrow>
        length out \<le> n \<and> prefix out u \<and> used \<le> length c \<and> used \<le> length d \<and> R z' (drop used d) (drop (length out) u)
        \<and> (ret = Z_STREAM_END \<and> used = length d \<and> out = u
           \<or> (ret = Z_OK \<or> ret = Z_BUF_ERROR) \<and> (length out = n \<or> used = length c \<and> length c < length d))))"

section \<open>Reading and writing\<close>

text \<open>The input file is \<open>F\<close>; the output file is \<open>X\<close> and its position is at its end.\<close>

definition zfiles :: "u8 list \<Rightarrow> u8 list \<Rightarrow> zio \<Rightarrow> bool" where
  "zfiles F X s \<longleftrightarrow> f_data (zin s) = F \<and> zout s = \<lparr>f_data = X, f_pos = length X\<rparr>"

lemma xseekread_ok:
  assumes "os_reliable os" "zfiles F X s" "off + n \<le> length F"
  shows "\<exists>s'. xseekread os off n s = Done (take n (drop off F)) s' \<and> zfiles F X s'"
  using assms by (auto simp: xseekread_def zseek_in_def zread_def sys_read_reliable zfiles_def Let_def) (auto simp: os_reliable_def)

lemma zwrite_ok:
  assumes "os_reliable os" "zfiles F X s"
  shows "\<exists>s'. zwrite os bs s = Done () s' \<and> zfiles F (X @ bs) s' \<and> zin s' = zin s"
  using assms by (simp add: zwrite_def sys_write_reliable zfiles_def Let_def write_over_end)

lemma zseek_ok:
  assumes "os_reliable os" "zfiles F X s"
  shows "\<exists>s'. zseek_in os off s = Done () s' \<and> zfiles F X s' \<and> f_pos (zin s') = off"
    and "\<exists>s'. zseek_out os (length X) s = Done () s' \<and> zfiles F X s' \<and> zin s' = zin s"
  using assms by (simp_all add: zseek_in_def zseek_out_def zfiles_def Let_def os_reliable_def)

lemma xseekwrite_ok:
  assumes "os_reliable os" "zfiles F X s" "off = length X"
  shows "\<exists>s'. xseekwrite os off bs s = Done () s' \<and> zfiles F (X @ bs) s'"
proof -
  obtain s1 where "zseek_out os off s = Done () s1" "zfiles F X s1" using zseek_ok(2) [OF assms(1,2)] assms(3) by auto
  moreover obtain s2 where "zwrite os bs s1 = Done () s2" "zfiles F (X @ bs) s2"
    using zwrite_ok [OF assms(1) \<open>zfiles F X s1\<close>] by blast
  ultimately show ?thesis by (simp add: xseekwrite_def)
qed

lemma zread_ok:
  assumes "os_reliable os" "zfiles F X s"
  shows "\<exists>s'. zread os n s = (Some (take n (drop (f_pos (zin s)) F)), s') \<and> zfiles F X s'
    \<and> f_pos (zin s') = f_pos (zin s) + min n (length F - f_pos (zin s))"
  using assms by (simp add: zread_def sys_read_reliable zfiles_def)

section \<open>Copying and inflating\<close>

lemma copy_loop_ok:
  assumes "os_reliable os"
  shows "zfiles F X s \<Longrightarrow> left \<le> length F - f_pos (zin s)
    \<Longrightarrow> \<exists>s'. copy_loop os left s = Done () s' \<and> zfiles F (X @ take left (drop (f_pos (zin s)) F)) s'"
proof (induction left arbitrary: s X rule: less_induct)
  case (less left)
  show ?case
  proof (cases "left = 0")
    case True
    then show ?thesis using less.prems by (simp add: copy_loop.simps)
  next
    case False
    let ?m = "min left CHUNK" and ?p = "f_pos (zin s)"
    have m: "0 < ?m" "?m \<le> length F - ?p" using False less.prems(2) by (simp_all add: CHUNK_def)
    obtain s1 where r: "zread os ?m s = (Some (take ?m (drop ?p F)), s1)" "zfiles F X s1" "f_pos (zin s1) = ?p + ?m"
      using zread_ok [OF assms less.prems(1), of ?m] m by auto
    obtain s2 where w: "zwrite os (take ?m (drop ?p F)) s1 = Done () s2" "zfiles F (X @ take ?m (drop ?p F)) s2"
      "zin s2 = zin s1" using zwrite_ok [OF assms r(2)] by blast
    have len: "length (take ?m (drop ?p F)) = ?m" "take ?m (drop ?p F) \<noteq> []" using m by auto
    have "left - ?m < left" "left - ?m \<le> length F - f_pos (zin s2)" using m less.prems(2) w(3) r(3) False by auto
    from less.IH [OF this(1) w(2) this(2)] obtain s3 where i: "copy_loop os (left - ?m) s2 = Done () s3"
      "zfiles F ((X @ take ?m (drop ?p F)) @ take (left - ?m) (drop (f_pos (zin s2)) F)) s3" by auto
    have "take ?m (drop ?p F) @ take (left - ?m) (drop (f_pos (zin s2)) F) = take left (drop ?p F)"
      using take_add [of ?m "left - ?m" "drop ?p F"] w(3) r(3) by (simp add: add.commute)
    then show ?thesis using r w i False len by (subst copy_loop.simps) (simp del: length_take)
  qed
qed

lemma xfilecopy_ok:
  assumes "os_reliable os" "zfiles F X s" "n \<le> length F - offin" "offout = length X"
  shows "\<exists>s'. xfilecopy os offin offout n s = Done () s' \<and> zfiles F (X @ take n (drop offin F)) s'"
proof -
  obtain s1 where 1: "zseek_in os offin s = Done () s1" "zfiles F X s1" "f_pos (zin s1) = offin"
    using zseek_ok(1) [OF assms(1,2)] by blast
  obtain s2 where 2: "zseek_out os offout s1 = Done () s2" "zfiles F X s2" "zin s2 = zin s1"
    using zseek_ok(2) [OF assms(1) 1(2)] assms(4) by blast
  obtain s3 where 3: "zmalloc os s2 = (True, s3)" "zfiles F X s3" "zin s3 = zin s2"
    using assms(1) 2(2) by (simp add: zmalloc_def os_reliable_def zfiles_def)
  obtain s4 where "copy_loop os n s3 = Done () s4" "zfiles F (X @ take n (drop offin F)) s4"
    using copy_loop_ok [OF assms(1) 3(2), of n] 1(3) 2(3) 3(3) assms(3) by auto
  then show ?thesis using 1 2 3 by (simp add: xfilecopy_def)
qed

lemma inflate_contractD:
  assumes "inflate_contract inflate R" "R z d u" "0 < n" "prefix c d \<or> prefix d c" "inflate z c n = (ret, used, out, z')"
  shows "length out \<le> n" "prefix out u" "used \<le> length c" "used \<le> length d" "R z' (drop used d) (drop (length out) u)"
    "ret = Z_STREAM_END \<and> used = length d \<and> out = u
     \<or> (ret = Z_OK \<or> ret = Z_BUF_ERROR) \<and> (length out = n \<or> used = length c \<and> length c < length d)"
proof -
  note c = assms(1) [unfolded inflate_contract_def, rule_format, of z d u n c, simplified assms(5) prod.case]
  show "length out \<le> n" "prefix out u" "used \<le> length c" "used \<le> length d" "R z' (drop used d) (drop (length out) u)"
    "ret = Z_STREAM_END \<and> used = length d \<and> out = u
     \<or> (ret = Z_OK \<or> ret = Z_BUF_ERROR) \<and> (length out = n \<or> used = length c \<and> length c < length d)"
    using c assms(2-4) by blast+
qed

lemma prefix_drop:
  assumes "prefix c d \<or> prefix d c"
  shows "prefix (drop k c) (drop k d) \<or> prefix (drop k d) (drop k c)"
  using assms by (auto simp: prefix_def)

text \<open>The inner loop writes as much as the chunk allows: it ends the stream, or the chunk is used up.\<close>

lemma inflate_inner_ok:
  assumes "os_reliable os" "inflate_contract inflate R"
  shows "R z d u \<Longrightarrow> prefix c d \<or> prefix d c \<Longrightarrow> zfiles F X s
    \<Longrightarrow> \<exists>ret z' p s'. inflate_inner os inflate z c s = Some (Done (ret, z') s') \<and> zfiles F (X @ p) s' \<and> zin s' = zin s
      \<and> (ret = Z_STREAM_END \<and> p = u
         \<or> ret \<noteq> Z_STREAM_END \<and> prefix p u \<and> R z' (drop (length c) d) (drop (length p) u) \<and> length c < length d)"
proof (induction "length u" arbitrary: z d u c X s rule: less_induct)
  case less
  obtain ret used out z1 where i: "inflate z c CHUNK = (ret, used, out, z1)" by (metis prod_cases4)
  have pos: "0 < CHUNK" by (simp add: CHUNK_def)
  note D = inflate_contractD [OF assms(2) less.prems(1) pos less.prems(2) i]
  obtain s1 where w: "zwrite os out s = Done () s1" "zfiles F (X @ out) s1" "zin s1 = zin s"
    using zwrite_ok [OF assms(1) less.prems(3)] by blast
  have unf: "inflate_inner os inflate z c s =
    (if length out = CHUNK then inflate_inner os inflate z1 (drop used c) s1 else Some (Done (ret, z1) s1))"
    using D(1,6) w(1) by (subst inflate_inner.simps) (auto simp: i)
  show ?case
  proof (cases "length out = CHUNK")
    case False
    then show ?thesis using D(2,5,6) w unf by (intro exI [of _ ret] exI [of _ z1] exI [of _ out] exI [of _ s1]) auto
  next
    case True
    have lt: "length (drop (length out) u) < length u" using True pos D(2) by (auto dest: prefix_length_le)
    from less.hyps [OF lt D(5) prefix_drop [OF less.prems(2), of used] w(2)] obtain ret2 z2 p s2 where
      r: "inflate_inner os inflate z1 (drop used c) s1 = Some (Done (ret2, z2) s2)" "zfiles F (X @ out @ p) s2" "zin s2 = zin s1"
      and cs: "ret2 = Z_STREAM_END \<and> p = drop (length out) u
         \<or> ret2 \<noteq> Z_STREAM_END \<and> prefix p (drop (length out) u)
           \<and> R z2 (drop (length (drop used c)) (drop used d)) (drop (length p) (drop (length out) u))
           \<and> length (drop used c) < length (drop used d)" by auto
    have pre: "u = out @ drop (length out) u" using D(2) by (auto simp: prefix_def)
    have "ret2 = Z_STREAM_END \<and> out @ p = u
         \<or> ret2 \<noteq> Z_STREAM_END \<and> prefix (out @ p) u \<and> R z2 (drop (length c) d) (drop (length (out @ p)) u) \<and> length c < length d"
      using cs
    proof
      assume "ret2 = Z_STREAM_END \<and> p = drop (length out) u"
      then show ?thesis using pre by simp
    next
      assume a: "ret2 \<noteq> Z_STREAM_END \<and> prefix p (drop (length out) u)
           \<and> R z2 (drop (length (drop used c)) (drop used d)) (drop (length p) (drop (length out) u))
           \<and> length (drop used c) < length (drop used d)"
      have "prefix (out @ p) u" using a pre by (metis same_prefix_prefix)
      moreover have "length c < length d" using a D(3,4) by (simp only: length_drop) arith
      moreover have "R z2 (drop (length c) d) (drop (length (out @ p)) u)" using a D(3) by (simp add: add.commute)
      ultimately show ?thesis using a by blast
    qed
    then show ?thesis using r w(3) True unf
      by (intro exI [of _ ret2] exI [of _ z2] exI [of _ "out @ p"] exI [of _ s2]) simp
  qed
qed

text \<open>The outer loop, on a file that continues with the compressed data.\<close>

lemma inflate_outer_ok:
  assumes "os_reliable os" "inflate_contract inflate R"
  shows "R z d u \<Longrightarrow> d \<noteq> [] \<Longrightarrow> prefix d (drop (f_pos (zin s)) F) \<Longrightarrow> zfiles F X s
    \<Longrightarrow> \<exists>s'. inflate_outer os inflate ret z s = Some (Done Z_STREAM_END s') \<and> zfiles F (X @ u) s'"
proof (induction "length d" arbitrary: z d u X s ret rule: less_induct)
  case less
  let ?c = "take CHUNK (drop (f_pos (zin s)) F)"
  have ne: "?c \<noteq> []" using less.prems(2,3) by (auto simp: CHUNK_def prefix_def)
  obtain s1 where r: "zread os CHUNK s = (Some ?c, s1)" "zfiles F X s1"
    "f_pos (zin s1) = f_pos (zin s) + min CHUNK (length F - f_pos (zin s))" using zread_ok [OF assms(1) less.prems(4)] by blast
  have pos1: "f_pos (zin s1) = f_pos (zin s) + length ?c" using r(3) by simp
  have cmp: "prefix ?c d \<or> prefix d ?c"
    using less.prems(3) by (meson prefix_same_cases take_is_prefix)
  from inflate_inner_ok [OF assms less.prems(1) cmp r(2)] obtain ret1 z1 p s2 where
    i: "inflate_inner os inflate z ?c s1 = Some (Done (ret1, z1) s2)" "zfiles F (X @ p) s2" "zin s2 = zin s1"
    and cs: "ret1 = Z_STREAM_END \<and> p = u
      \<or> ret1 \<noteq> Z_STREAM_END \<and> prefix p u \<and> R z1 (drop (length ?c) d) (drop (length p) u) \<and> length ?c < length d" by blast
  have unf: "inflate_outer os inflate ret z s =
    (if ret1 \<noteq> Z_STREAM_END then inflate_outer os inflate ret1 z1 s2 else Some (Done ret1 s2))"
    using r(1) i(1) ne by (subst inflate_outer.simps) simp
  from cs show ?case
  proof
    assume "ret1 = Z_STREAM_END \<and> p = u"
    then show ?thesis using unf i(2) by auto
  next
    assume a: "ret1 \<noteq> Z_STREAM_END \<and> prefix p u \<and> R z1 (drop (length ?c) d) (drop (length p) u) \<and> length ?c < length d"
    have lt: "length (drop (length ?c) d) < length d" "drop (length ?c) d \<noteq> []" using a ne less.prems(2) by auto
    have "prefix (drop (length ?c) d) (drop (f_pos (zin s2)) F)"
    proof -
      obtain r where "drop (f_pos (zin s)) F = d @ r" using less.prems(3) by (auto simp: prefix_def)
      then have "drop (length ?c) (drop (f_pos (zin s)) F) = drop (length ?c) d @ r" using a by simp
      then have "drop (f_pos (zin s2)) F = drop (length ?c) d @ r"
        by (metis drop_drop i(3) pos1 add.commute)
      then show ?thesis by simp
    qed
    from less.hyps [OF lt(1) _ lt(2) this i(2)] a obtain s3 where
      "inflate_outer os inflate ret1 z1 s2 = Some (Done Z_STREAM_END s3)" "zfiles F ((X @ p) @ drop (length p) u) s3" by blast
    moreover have "p @ drop (length p) u = u" using a by (auto simp: prefix_def)
    ultimately show ?thesis using unf a by auto
  qed
qed

lemma xdecompress_ok:
  assumes "os_reliable os" "inflate_contract inflate R" "R z d u" "d \<noteq> []" "prefix d (drop offin F)"
    and "zfiles F X s" "offout = length X"
  shows "\<exists>s'. xdecompress os inflate (Some z) offin offout n s = Done () s' \<and> zfiles F (X @ u) s'"
proof -
  obtain s1 where 1: "zseek_in os offin s = Done () s1" "zfiles F X s1" "f_pos (zin s1) = offin"
    using zseek_ok(1) [OF assms(1,6)] by blast
  obtain s2 where 2: "zseek_out os offout s1 = Done () s2" "zfiles F X s2" "zin s2 = zin s1"
    using zseek_ok(2) [OF assms(1) 1(2)] assms(7) by blast
  obtain s3 where "inflate_outer os inflate Z_OK z s2 = Some (Done Z_STREAM_END s3)" "zfiles F (X @ u) s3"
    using inflate_outer_ok [OF assms(1-4) _ 2(2)] assms(5) 1(3) 2(3) by metis
  then show ?thesis using 1 2 by (simp add: xdecompress_def)
qed

section \<open>Finding the footer\<close>

lemma get32_take:
  assumes "i + 4 \<le> length zf"
  shows "get32 (take 4 (drop i zf)) 0 = get32 zf i"
  using assms by (simp add: get32_def add.commute)

lemma get32_drop: "i \<le> length zf \<Longrightarrow> get32 (drop i zf) 0 = get32 zf i"
  using get_skip(2) [of "take i zf" "drop i zf" 0] by simp

lemma find_footer_ok:
  assumes os: "os_reliable os" and F: "F = pre @ directory es @ put_footer footer @ tail" and "es \<noteq> []"
    and off: "unat (cf_central_directory_offset footer) = length pre" and "cf_signature footer = MAGIC_CENTRAL_FOOTER"
    and sig: "c_signature (ze_central (hd es)) = MAGIC_CENTRAL_HEADER"
    and none: "\<And>i. length pre + length (directory es) < i \<Longrightarrow> i + 4 \<le> length F \<Longrightarrow> get32 F i \<noteq> MAGIC_CENTRAL_FOOTER"
  shows "zfiles F X s \<Longrightarrow> length pre + length (directory es) < n \<Longrightarrow> n + 3 \<le> length F
    \<Longrightarrow> \<exists>s'. find_footer os n s = Done (Some footer) s' \<and> zfiles F X s'"
proof (induction n arbitrary: s)
  case 0
  then show ?case by simp
next
  case (Suc i)
  let ?fp = "length pre + length (directory es)"
  obtain s1 where 1: "xseekread os i 4 s = Done (take 4 (drop i F)) s1" "zfiles F X s1"
    using xseekread_ok [OF os Suc.prems(1), of i 4] Suc.prems(3) by auto
  have m: "get32 (take 4 (drop i F)) 0 = get32 F i" by (rule get32_take) (use Suc.prems(3) in simp)
  show ?case
  proof (cases "i = ?fp")
    case False
    then have "get32 F i \<noteq> MAGIC_CENTRAL_FOOTER" using none Suc.prems(2,3) by simp
    then show ?thesis using 1 m Suc.IH [OF 1(2)] False Suc.prems(2,3) by simp
  next
    case True
    have d: "drop i F = put_footer footer @ tail" using True F by simp
    have "get32 F i = MAGIC_CENTRAL_FOOTER"
      using assms(5) get32_drop [of i F] d True F by simp
    moreover obtain s2 where 2: "xseekread os i 22 s1 = Done (put_footer footer) s2" "zfiles F X s2"
      using xseekread_ok [OF os 1(2), of i 22] True F by auto
    moreover obtain e es' where "es = e # es'" using assms(3) by (cases es) auto
    then obtain s3 where "xseekread os (length pre) 46 s2 = Done (put_central (ze_central (hd es))) s3" "zfiles F X s3"
      using xseekread_ok [OF os 2(2), of "length pre" 46] F by (auto simp: directory_def central_bytes_def)
    ultimately show ?thesis using 1 m off sig get_put_footer [of footer "[]"] get_put_central [of "ze_central (hd es)" "[]"]
      by (auto simp: sizeof_footer_def sizeof_central_def Let_def)
  qed
qed

section \<open>The entries\<close>

text \<open>The compressed data of an entry that is to be inflated is what zlib inflates to \<open>plain e\<close>.\<close>

definition inflates :: "('z \<Rightarrow> u8 list \<Rightarrow> u8 list \<Rightarrow> bool) \<Rightarrow> 'z option \<Rightarrow> bool \<Rightarrow> (zentry \<Rightarrow> u8 list) \<Rightarrow> zentry \<Rightarrow> bool" where
  "inflates R init dec plain e \<longleftrightarrow>
    (inflated dec e \<longrightarrow> (\<exists>z. init = Some z \<and> R z (ze_data e) (plain e)) \<and> ze_data e \<noteq> []
       \<and> length (plain e) = unat (c_size_uncompressed (ze_central e)))"

lemma adjusted_fields:
  assumes "dir_fields e" "inflates R init dec plain e"
  shows "unat (c_size_compressed (ze_central (adjusted dec plain off e))) = length (content dec plain e)"
    and "l_size_compressed (ze_local (adjusted dec plain off e)) = c_size_compressed (ze_central (adjusted dec plain off e))"
  using assms by (auto simp: adjusted_def new_central_def new_local_def content_def inflates_def inflated_def dir_fields_def Let_def)

text \<open>The data of an entry, copied or inflated.\<close>

lemma entry_data_ok:
  assumes os: "os_reliable os" and con: "inflate_contract inflate R" and e: "located F e" and inf: "inflates R init dec plain e"
    and s: "zfiles F X s" and out: "off = length X"
  shows "\<exists>s'. (if dec \<and> c_compression_method (ze_central e) = 8
      then xdecompress os inflate init (data_offset e) off (length (ze_data e)) s
      else xfilecopy os (data_offset e) off (length (ze_data e)) s) = Done () s' \<and> zfiles F (X @ content dec plain e) s'"
proof -
  have dat: "take (length (ze_data e)) (drop (data_offset e) F) = ze_data e" using e by (simp add: located_def)
  show ?thesis
  proof (cases "inflated dec e")
    case True
    then obtain z where z: "init = Some z" "R z (ze_data e) (plain e)" "ze_data e \<noteq> []" using inf by (auto simp: inflates_def)
    have p: "prefix (ze_data e) (drop (data_offset e) F)" using dat take_is_prefix by metis
    show ?thesis using xdecompress_ok [OF os con z(2,3) p s out] True z(1) by (simp add: inflated_def content_def)
  next
    case False
    have b: "length (ze_data e) \<le> length F - data_offset e" using arg_cong [OF dat, of length] by simp
    show ?thesis using xfilecopy_ok [OF os s b out] dat False by (auto simp: inflated_def content_def)
  qed
qed

lemma entry_in_dir:
  assumes "drop idx dir = central_bytes e @ rest" "idx \<le> length dir"
  shows "get_central (drop idx dir) = ze_central e"
    and "take (length (ze_name e)) (drop (idx + 46) dir) = ze_name e"
    and "length dir = idx + length (central_bytes e) + length rest"
    and "drop idx (take idx dir @ put_central h @ drop (idx + 46) dir) = put_central h @ ze_name e @ ze_extra e @ ze_comment e @ rest"
proof -
  have d: "drop (idx + 46) dir = ze_name e @ ze_extra e @ ze_comment e @ rest"
  proof -
    have "drop (idx + 46) dir = drop 46 (drop idx dir)" by (simp add: add.commute)
    then show ?thesis by (simp add: assms(1) central_bytes_def)
  qed
  show "get_central (drop idx dir) = ze_central e" by (simp add: assms(1) central_bytes_def)
  show "take (length (ze_name e)) (drop (idx + 46) dir) = ze_name e" by (simp add: d)
  show "length dir = idx + length (central_bytes e) + length rest" using arg_cong [OF assms(1), of length] assms(2) by simp
  show "drop idx (take idx dir @ put_central h @ drop (idx + 46) dir) = put_central h @ ze_name e @ ze_extra e @ ze_comment e @ rest"
    using assms(2) by (simp add: d)
qed

lemma adjust_entry_ok:
  assumes os: "os_reliable os" and con: "inflate_contract inflate R" and e: "located F e" and inf: "inflates R init dec plain e"
    and dir: "drop idx dir = central_bytes e @ rest" and idx: "idx \<le> length dir" and dout: "length dout \<le> idx" and s: "zfiles F X s"
    and fit: "length X + length (local_bytes (adjusted dec plain (length X) e)) < 2 ^ 32"
  defines "e' \<equiv> adjusted dec plain (length X) e"
  shows "\<exists>s'. adjust_entry os inflate init dec dir idx (of_nat (length X)) dout s
      = Done (take idx dir @ put_central (ze_central e') @ drop (idx + 46) dir, of_nat (length (X @ local_bytes e')),
          dout @ central_bytes e') s' \<and> zfiles F (X @ local_bytes e') s'"
proof -
  let ?h = "ze_central e" and ?n = "length (ze_name e)" and ?X1 = "X @ put_local (ze_local e')" and ?o = "of_nat (length X) :: u32"
  let ?X2 = "?X1 @ ze_name e" and ?c = "content dec plain e" and ?d' = "take idx dir @ put_central (ze_central e') @ drop (idx + 46) dir"
  have f: "dir_fields e" and l: "take 30 (drop (unat (c_offset ?h)) F) = put_local (ze_local e)" using e by (simp_all add: located_def)
  have n: "unat (c_length_filename ?h) = ?n" "?n < 1024" "unat (c_length_extra ?h) = length (ze_extra e)"
    "unat (c_size_compressed ?h) = length (ze_data e)" using f by (simp_all add: dir_fields_def)
  have lb: "local_bytes e' = put_local (ze_local e') @ ze_name e @ ?c" and cb: "central_bytes e' = put_central (ze_central e') @ ze_name e"
    and h': "ze_central e' = new_central dec ?o ?h" "ze_local e' = new_local (new_central dec ?o ?h) (ze_local e)"
    by (simp_all add: local_bytes_def central_bytes_def e'_def adjusted_def Let_def)
  have fit2: "length X + 30 + ?n + length ?c < 2 ^ 32" using fit lb by (simp add: e'_def)
  have o0: "unat ?o = length X" and o1: "unat (?o + 30) = length ?X1" and o2: "unat (?o + 30 + of_nat ?n) = length ?X2"
    using fit2 unat_of_nat_small [where 'a = 32, of "length X"] unat_of_nat_small [where 'a = 32, of "length X + 30"]
      unat_of_nat_small [where 'a = 32, of "length X + 30 + ?n"] by simp_all
  have o3: "?o + 30 + of_nat ?n + l_size_compressed (ze_local e') = of_nat (length (X @ local_bytes e'))"
  proof -
    have "l_size_compressed (ze_local e') = of_nat (length ?c)"
      using adjusted_fields [OF f inf, of "length X", folded e'_def] by (metis word_unat_eq_iff unat_of_nat_small unsigned_less)
    then show ?thesis by (simp add: lb)
  qed
  have locr: "unat (c_offset ?h) + 30 \<le> length F" using arg_cong [OF l, of length] by simp
  obtain s1 where 1: "xseekread os (unat (c_offset ?h)) 30 s = Done (put_local (ze_local e)) s1" "zfiles F X s1"
    using xseekread_ok [OF os s locr] l by auto
  obtain s2 where 2: "xseekwrite os (unat ?o) (put_local (ze_local e')) s1 = Done () s2" "zfiles F ?X1 s2"
    using xseekwrite_ok [OF os 1(2) o0] by blast
  obtain s3 where 3: "xseekwrite os (unat (?o + 30)) (ze_name e) s2 = Done () s3" "zfiles F ?X2 s3"
    using xseekwrite_ok [OF os 2(2) o1] by blast
  obtain s4 where 4: "(if dec \<and> c_compression_method ?h = 8
      then xdecompress os inflate init (data_offset e) (unat (?o + 30 + of_nat ?n)) (length (ze_data e)) s3
      else xfilecopy os (data_offset e) (unat (?o + 30 + of_nat ?n)) (length (ze_data e)) s3) = Done () s4"
    "zfiles F (?X2 @ ?c) s4" using entry_data_ok [OF os con e inf 3(2) o2] by blast
  have g: "get_local (put_local (ze_local e)) = ze_local e" using get_put_local [of _ "[]"] by simp
  have off: "unat (c_offset ?h) + 30 + ?n + length (ze_extra e) = data_offset e" by (simp add: data_offset_def)
  have lh: "new_local (ze_central e') (ze_local e) = ze_local e'" by (simp add: h')
  note E = entry_in_dir [OF dir idx]
  have bnd: "\<not> length dir < idx + 46 + ?n" "\<not> length dir < length dout + 46 + ?n" using E(3) dout by (simp_all add: central_bytes_def)
  have tk: "take (46 + ?n) (drop idx ?d') = central_bytes e'" unfolding E(4) cb by simp
  have "adjust_entry os inflate init dec dir idx ?o dout s = Done (?d', of_nat (length (X @ local_bytes e')), dout @ central_bytes e') s4"
    unfolding adjust_entry_def Let_def E(1) n(1) sizeof_central_def sizeof_local_def h'(1) [symmetric]
    by (simp only: E(2) n(3,4) bnd if_False 1(1) zbind_simps g lh of_nat_numeral 2(1) 3(1) off 4(1) o3 tk simp_thms not_le n(2) linorder_not_le [THEN iffD2, OF n(2)])
  then show ?thesis using 4(2) lb by auto
qed

lemma locals_Cons [simp]: "locals (e # es) = local_bytes e @ locals es" "locals [] = []"
  by (simp_all add: locals_def)

lemma directory_Cons [simp]: "directory (e # es) = central_bytes e @ directory es" "directory [] = []"
  by (simp_all add: directory_def)

lemma entry_size_eq: "dir_fields e \<Longrightarrow> entry_size (ze_central e) = length (central_bytes e)"
  by (simp add: entry_size_def sizeof_central_def dir_fields_def central_bytes_def)

lemma adjust_loop_ok:
  assumes os: "os_reliable os" and con: "inflate_contract inflate R" and sig: "cf_signature footer = MAGIC_CENTRAL_FOOTER"
  shows "(\<forall>e \<in> set es. located F e \<and> inflates R init dec plain e) \<Longrightarrow> drop idx dir = directory es @ put_footer footer @ tail
    \<Longrightarrow> length dir = dsz \<Longrightarrow> idx \<le> dsz \<Longrightarrow> length dout \<le> idx \<Longrightarrow> zfiles F X s
    \<Longrightarrow> length X + length (locals (adjust_all dec plain (length X) es)) < 2 ^ 32
    \<Longrightarrow> \<exists>s'. adjust_loop os inflate init dec dsz dir idx (of_nat (length X)) dout s
        = Done (of_nat (length (X @ locals (adjust_all dec plain (length X) es))), dout @ directory (adjust_all dec plain (length X) es)) s'
      \<and> zfiles F (X @ locals (adjust_all dec plain (length X) es)) s'"
proof (induction es arbitrary: dir idx dout X s)
  case Nil
  have "length dir = idx + 22 + length tail" using arg_cong [OF Nil.prems(2), of length] Nil.prems(3,4) by simp
  moreover have "get32 dir idx = MAGIC_CENTRAL_FOOTER" using get32_drop [of idx dir] Nil.prems(2-4) sig by simp
  ultimately show ?case using Nil.prems
    by (subst adjust_loop.simps) (simp add: MAGIC_CENTRAL_FOOTER_def MAGIC_CENTRAL_HEADER_def)
next
  case (Cons e es)
  let ?e = "adjusted dec plain (length X) e" and ?dir = "take idx dir @ put_central (ze_central (adjusted dec plain (length X) e)) @ drop (idx + 46) dir"
  let ?X = "X @ local_bytes ?e"
  have d: "drop idx dir = central_bytes e @ directory es @ put_footer footer @ tail" using Cons.prems(2) by simp
  have e: "located F e" "inflates R init dec plain e" "dir_fields e" using Cons.prems(1) by (simp_all add: located_def)
  have il: "idx \<le> length dir" using Cons.prems(3,4) by simp
  note E = entry_in_dir [OF d il]
  have cl: "length (central_bytes e) = 46 + length (ze_name e) + length (ze_extra e) + length (ze_comment e)" by (simp add: central_bytes_def)
  have fit: "length X + length (local_bytes ?e) < 2 ^ 32" using Cons.prems(7) by (simp add: Let_def)
  obtain s1 where 1: "adjust_entry os inflate init dec dir idx (of_nat (length X)) dout s
      = Done (?dir, of_nat (length ?X), dout @ central_bytes ?e) s1" "zfiles F ?X s1"
    using adjust_entry_ok [OF os con e(1,2) d il Cons.prems(5,6) fit] by blast
  have "drop (idx + length (central_bytes e)) ?dir = drop (length (central_bytes e)) (drop idx ?dir)" by (simp only: drop_drop add.commute)
  then have nd: "drop (idx + length (central_bytes e)) ?dir = directory es @ put_footer footer @ tail"
    unfolding E(4) by (simp add: cl)
  have ln: "length ?dir = dsz" using Cons.prems(3) E(3) cl by simp
  have m: "get32 dir idx = MAGIC_CENTRAL_HEADER" using get32_drop [OF il] d e(3) by (simp add: central_bytes_def dir_fields_def MAGIC_CENTRAL_HEADER_def)
  have "idx + length (central_bytes e) \<le> dsz" "length (dout @ central_bytes ?e) \<le> idx + length (central_bytes e)"
    "length ?X + length (locals (adjust_all dec plain (length ?X) es)) < 2 ^ 32"
    using Cons.prems(3,5,7) E(3) cl by (simp_all add: central_bytes_def adjusted_def Let_def add.assoc)
  from Cons.IH [OF _ nd ln this(1,2) 1(2) this(3)] Cons.prems(1) obtain s2 where
    2: "adjust_loop os inflate init dec dsz ?dir (idx + length (central_bytes e)) (of_nat (length ?X)) (dout @ central_bytes ?e) s1
        = Done (of_nat (length (?X @ locals (adjust_all dec plain (length ?X) es))),
            (dout @ central_bytes ?e) @ directory (adjust_all dec plain (length ?X) es)) s2"
      "zfiles F (?X @ locals (adjust_all dec plain (length ?X) es)) s2" by auto
  have "adjust_loop os inflate init dec dsz dir idx (of_nat (length X)) dout s
      = adjust_loop os inflate init dec dsz ?dir (idx + length (central_bytes e)) (of_nat (length ?X)) (dout @ central_bytes ?e) s1"
    using 1(1) m Cons.prems(3) E(3) cl entry_size_eq [OF e(3)]
    by (subst adjust_loop.simps) (simp add: E(1) sizeof_central_def)
  then show ?case using 2 by (simp add: Let_def)
qed

section \<open>The program\<close>

lemma file_scan_start:
  assumes "4 \<le> n" "n < 2 ^ 31"
  shows "nat (sint (of_nat n - 4 :: u32) + 1) = n - 3"
proof -
  have "(of_nat n - 4 :: u32) = word_of_int (int n - 4)" by simp
  then have "sint (of_nat n - 4 :: u32) = int n - 4"
    using assms by (simp only: int_word_sint) simp
  then show ?thesis using assms by simp
qed

definition zstart :: "u8 list \<Rightarrow> zio" where
  "zstart F = \<lparr>zcalls = 0, zin = \<lparr>f_data = F, f_pos = 0\<rparr>, zout = \<lparr>f_data = [], f_pos = 0\<rparr>\<rparr>"

lemma entry_ok_nonempty: "entry_ok pre e \<Longrightarrow> pre \<noteq> []"
  by (auto simp: entry_ok_def local_bytes_def put_local_def le32_def)

lemma zip_file_located:
  assumes "zip_file F es footer" "\<forall>e \<in> set es. length (ze_lextra e) = length (ze_extra e)"
  shows "\<forall>e \<in> set es. located F e"
  using assms by (auto simp: zip_file_def intro!: entry_located)

lemma zip_file_footer:
  assumes "os_reliable os" "zip_file F es footer"
  shows "\<exists>s'. find_footer os (nat (sint (of_nat (length F) - 4 :: u32) + 1)) (zstart F) = Done (Some footer) s' \<and> zfiles F [] s'"
    and "drop (unat (cf_central_directory_offset footer)) F = directory es @ put_footer footer
      @ drop (unat (cf_central_directory_offset footer) + length (directory es) + 22) F"
    and "unat (of_nat (length F) - cf_central_directory_offset footer) = length F - unat (cf_central_directory_offset footer)"
    and "cf_central_directory_offset footer \<noteq> 0" "unat (cf_central_directory_offset footer) \<le> length F"
proof -
  from assms(2) obtain pre tail where F: "F = pre @ directory es @ put_footer footer @ tail" and en: "es \<noteq> []"
    and off: "unat (cf_central_directory_offset footer) = length pre" and en2: "\<forall>e \<in> set es. entry_ok pre e"
    and none': "\<forall>i < length F. length F - length tail - 22 < i \<longrightarrow> i + 4 \<le> length F \<longrightarrow> get32 F i \<noteq> 0x06054b50"
    unfolding zip_file_def directory_def by blast
  have none: "get32 F i \<noteq> MAGIC_CENTRAL_FOOTER" if "length F - length tail - 22 < i" "i + 4 \<le> length F" for i
    using none' that by (simp add: MAGIC_CENTRAL_FOOTER_def)
  have ne: "pre \<noteq> []" "es \<noteq> []" using en en2 entry_ok_nonempty [of pre "hd es"] by simp_all
  have r: "cf_signature footer = MAGIC_CENTRAL_FOOTER" "length F < 2 ^ 31" "\<forall>e \<in> set es. entry_ok pre e"
    using assms(2) en2 by (simp_all add: zip_file_def MAGIC_CENTRAL_FOOTER_def)
  have sg: "c_signature (ze_central (hd es)) = MAGIC_CENTRAL_HEADER"
    using r(3) ne(2) by (simp add: entry_ok_def dir_fields_def MAGIC_CENTRAL_HEADER_def)
  have z: "zfiles F [] (zstart F)" by (simp add: zfiles_def zstart_def)
  have l: "length F = length pre + length (directory es) + 22 + length tail" by (simp add: F)
  have "\<exists>s'. find_footer os (length F - 3) (zstart F) = Done (Some footer) s' \<and> zfiles F [] s'"
    by (rule find_footer_ok [OF assms(1) F ne(2) off r(1) sg _ z]) (use l none in auto)
  then show "\<exists>s'. find_footer os (nat (sint (of_nat (length F) - 4 :: u32) + 1)) (zstart F) = Done (Some footer) s' \<and> zfiles F [] s'"
    using file_scan_start [of "length F"] l r(2) by simp
  show "drop (unat (cf_central_directory_offset footer)) F = directory es @ put_footer footer
      @ drop (unat (cf_central_directory_offset footer) + length (directory es) + 22) F" by (simp add: F off)
  have u: "unat (of_nat (length F) :: u32) = length F" using r(2) by (simp add: unat_of_nat_small)
  then have "cf_central_directory_offset footer \<le> of_nat (length F)" using off l by (simp add: word_le_nat_alt)
  then show "unat (of_nat (length F) - cf_central_directory_offset footer) = length F - unat (cf_central_directory_offset footer)"
    by (simp add: unat_sub u)
  show "cf_central_directory_offset footer \<noteq> 0" "unat (cf_central_directory_offset footer) \<le> length F"
    using off ne(1) l by auto
qed

lemma adjust_write_ok:
  assumes "os_reliable os" "zfiles F X s" "length X + length dout < 2 ^ 32"
  shows "\<exists>s'. adjust_write os footer (of_nat (length X), dout) s = Done () s'
    \<and> zfiles F (X @ dout @ put_footer (footer\<lparr>cf_central_directory_size := of_nat (length dout),
         cf_central_directory_offset := of_nat (length X), cf_length_comment := 0\<rparr>)) s'"
proof -
  have u: "unat (of_nat (length X) :: u32) = length X" "unat (of_nat (length X) + of_nat (length dout) :: u32) = length (X @ dout)"
    using assms(3) unat_of_nat_small [where 'a = 32, of "length X + length dout"] by (simp_all add: unat_of_nat_small)
  obtain s1 where 1: "xseekwrite os (unat (of_nat (length X) :: u32)) dout s = Done () s1" "zfiles F (X @ dout) s1"
    using xseekwrite_ok [OF assms(1,2) u(1)] by blast
  from xseekwrite_ok [OF assms(1) 1(2) u(2)] 1(1) show ?thesis by (simp add: adjust_write_def Let_def)
qed

lemma zipadjust_run:
  assumes "os_reliable os" "inflate_contract inflate R" "zip_file F es footer" "\<forall>e \<in> set es. inflates R init dec plain e"
    and "length (rewritten (adjust_all dec plain 0 es) footer) < 2 ^ 32"
    and "\<forall>e \<in> set es. length (ze_lextra e) = length (ze_extra e)"
  shows "\<exists>s'. zipadjust os inflate init True True dec (zstart F) = Done () s'
    \<and> f_data (zout s') = rewritten (adjust_all dec plain 0 es) footer"
proof -
  let ?p = "unat (cf_central_directory_offset footer)" and ?E = "adjust_all dec plain 0 es"
  note Z = zip_file_footer [OF assms(1,3)]
  obtain s1 where 1: "find_footer os (nat (sint (of_nat (length F) - 4 :: u32) + 1)) (zstart F) = Done (Some footer) s1" "zfiles F [] s1"
    using Z(1) by blast
  obtain s3 where m: "zmalloc os s1 = (True, s3)" "zfiles F [] s3"
    using 1(2) assms(1) by (simp add: zmalloc_def os_reliable_def zfiles_def)
  obtain s4 where m2: "zmalloc os s3 = (True, s4)" "zfiles F [] s4"
    using m(2) assms(1) by (simp add: zmalloc_def os_reliable_def zfiles_def)
  obtain s5 where r: "xseekread os ?p (length F - ?p) s4 = Done (drop ?p F) s5" "zfiles F [] s5"
    using xseekread_ok [OF assms(1) m2(2), of ?p "length F - ?p"] Z(5) by auto
  have s6: "zfiles F [] (s5\<lparr>zout := \<lparr>f_data = [], f_pos = 0\<rparr>\<rparr>)" using r(2) by (simp add: zfiles_def)
  have fit: "length (locals ?E) + length (directory ?E) < 2 ^ 32" using assms(5) by (simp add: rewritten_def)
  have en: "\<forall>e \<in> set es. located F e \<and> inflates R init dec plain e" and sig: "cf_signature footer = MAGIC_CENTRAL_FOOTER"
    using zip_file_located [OF assms(3,6)] assms(3,4) by (simp_all add: zip_file_def MAGIC_CENTRAL_FOOTER_def)
  obtain s7 where 7: "adjust_loop os inflate init dec (length F - ?p) (drop ?p F) 0 0 [] (s5\<lparr>zout := \<lparr>f_data = [], f_pos = 0\<rparr>\<rparr>)
      = Done (of_nat (length (locals ?E)), directory ?E) s7" "zfiles F (locals ?E) s7"
    using adjust_loop_ok [OF assms(1,2) sig en, of 0 "drop ?p F", unfolded drop_0, OF Z(2) _ _ _ s6] fit by (auto simp: drop_0)
  obtain s8 where 8: "adjust_write os footer (of_nat (length (locals ?E)), directory ?E) s7 = Done () s8"
      "zfiles F (rewritten ?E footer) s8"
    using adjust_write_ok [OF assms(1) 7(2) fit, of footer] by (auto simp: rewritten_def new_footer_def)
  have "zipadjust os inflate init True True dec (zstart F) = Done () s8"
    using 1(1) m(1) m2(1) r(1) 7(1) 8(1) Z(3,4) by (simp add: zipadjust_def Let_def) (simp add: zstart_def)
  then show ?thesis using 8(2) by (auto simp: zfiles_def)
qed

section \<open>The bytes\<close>

lemma new_central_idem: "new_central dec off (new_central dec off h) = new_central dec off h"
  by (simp add: new_central_def Let_def c_not_def)

lemma adjusted_again:
  "adjusted dec plain' off (adjusted dec plain off e) = adjusted dec plain off e"
  by (simp add: adjusted_def Let_def new_central_idem content_def inflated_def)
     (simp add: new_central_def new_local_def Let_def)

lemma adjust_all_again: "adjust_all dec plain' off (adjust_all dec plain off es) = adjust_all dec plain off es"
  by (induction es arbitrary: off) (simp_all add: Let_def adjusted_again)

lemma adjust_all_not_inflated: "e \<in> set (adjust_all dec plain off es) \<Longrightarrow> \<not> inflated dec e"
  by (induction es arbitrary: off)
     (auto simp: Let_def adjusted_def inflated_def new_central_def split: if_splits)

lemma word_of_length: "unat (w :: 'a :: len word) = n \<Longrightarrow> w = of_nat n"
  by auto

lemma adjusted_headers:
  fixes off :: nat
  assumes "dir_fields e" "local_fields e" "inflates R init dec plain e"
  defines "h \<equiv> ze_central (adjusted dec plain off e)" and "l \<equiv> ze_local (adjusted dec plain off e)"
  shows "c_flags h = 0" "c_compression_method h = canon_method dec e" "c_size_compressed h = of_nat (length (content dec plain e))"
    and "c_length_filename h = of_nat (length (ze_name e))" "l_length_filename l = of_nat (length (ze_name e))"
    and "l_flags l = 0" "l_compression_method l = canon_method dec e" "l_size_compressed l = c_size_compressed h"
  using word_of_length [OF adjusted_fields(1) [OF assms(1,3)], of off] assms(1,2)
  by (auto simp: h_def l_def adjusted_def new_central_def new_local_def c_not_def canon_method_def inflated_def Let_def
      dir_fields_def local_fields_def intro!: word_of_length)

lemma adjusted_bytes:
  assumes "dir_fields e" "local_fields e" "inflates R init dec plain e"
  shows "local_bytes (adjusted dec plain off e) = canon_local dec plain e"
    and "central_bytes (adjusted dec plain off e) = canon_central dec plain off e"
proof -
  let ?a = "adjusted dec plain off e"
  have same: "l_signature (ze_local ?a) = 0x04034b50" "c_signature (ze_central ?a) = 0x02014b50"
    "l_extract_version (ze_local ?a) = l_extract_version (ze_local e)"
    "l_last_modified_time (ze_local ?a) = l_last_modified_time (ze_local e)"
    "l_last_modified_date (ze_local ?a) = l_last_modified_date (ze_local e)"
    "l_crc32 (ze_local ?a) = c_crc32 (ze_central e)" "l_size_uncompressed (ze_local ?a) = c_size_uncompressed (ze_central e)"
    "l_length_extra (ze_local ?a) = 0" "c_version_made (ze_central ?a) = c_version_made (ze_central e)"
    "c_version_needed (ze_central ?a) = c_version_needed (ze_central e)"
    "c_last_modified_time (ze_central ?a) = c_last_modified_time (ze_central e)"
    "c_last_modified_date (ze_central ?a) = c_last_modified_date (ze_central e)"
    "c_crc32 (ze_central ?a) = c_crc32 (ze_central e)" "c_size_uncompressed (ze_central ?a) = c_size_uncompressed (ze_central e)"
    "c_length_extra (ze_central ?a) = 0" "c_length_comment (ze_central ?a) = 0"
    "c_disk_start (ze_central ?a) = c_disk_start (ze_central e)" "c_attr_internal (ze_central ?a) = c_attr_internal (ze_central e)"
    "c_attr_external (ze_central ?a) = c_attr_external (ze_central e)" "c_offset (ze_central ?a) = of_nat off"
    "ze_name ?a = ze_name e" "ze_extra ?a = []" "ze_lextra ?a = []" "ze_comment ?a = []" "ze_descr ?a = []"
    "ze_data ?a = content dec plain e"
    using assms(1,2) by (auto simp: adjusted_def new_central_def new_local_def Let_def dir_fields_def local_fields_def)
  note H = adjusted_headers [OF assms, of off]
  show "local_bytes ?a = canon_local dec plain e" "central_bytes ?a = canon_central dec plain off e"
    by (simp_all add: local_bytes_def central_bytes_def put_local_def put_central_def canon_local_def canon_central_def same H)
qed

lemma adjust_all_bytes:
  assumes "\<forall>e \<in> set es. dir_fields e \<and> local_fields e \<and> inflates R init dec plain e"
  shows "locals (adjust_all dec plain off es) = concat (map (canon_local dec plain) es)"
    and "directory (adjust_all dec plain off es) = canon_directory dec plain off es"
  using assms by (induction es arbitrary: off) (simp_all add: Let_def adjusted_bytes [where R = R and init = init])

lemma rewritten_canonical:
  assumes "zip_file F es footer" "\<forall>e \<in> set es. inflates R init dec plain e"
  shows "rewritten (adjust_all dec plain 0 es) footer = canonical_zip dec plain es"
proof -
  have e: "\<forall>e \<in> set es. dir_fields e \<and> local_fields e \<and> inflates R init dec plain e"
    using assms by (auto simp: zip_file_def entry_ok_def)
  have f: "cf_signature footer = 0x06054b50" "cf_disk_number footer = 0" "cf_disk_number_central_directory footer = 0"
    "cf_central_directory_entries_this_disk footer = of_nat (length es)"
    "cf_central_directory_entries_total footer = of_nat (length es)"
    using assms(1) by (auto simp: zip_file_def intro: word_of_length)
  show ?thesis by (simp add: rewritten_def canonical_zip_def new_footer_def put_footer_def Let_def f adjust_all_bytes [OF e])
qed

section \<open>The result is a zip file\<close>

lemma adjusted_entry_ok:
  assumes "dir_fields e" "local_fields e" "inflates R init dec plain e"
    and "length Y + length (local_bytes (adjusted dec plain (length Y) e)) < 2 ^ 32"
  shows "entry_ok (Y @ local_bytes (adjusted dec plain (length Y) e) @ Z) (adjusted dec plain (length Y) e)"
proof -
  let ?e = "adjusted dec plain (length Y) e"
  have o: "c_offset (ze_central ?e) = of_nat (length Y)" "ze_extra ?e = []" "ze_comment ?e = []" "ze_name ?e = ze_name e"
    "ze_data ?e = content dec plain e" "ze_lextra ?e = []" "ze_descr ?e = []"
    "c_signature (ze_central ?e) = c_signature (ze_central e)"
    "c_length_filename (ze_central ?e) = c_length_filename (ze_central e)"
    "c_length_extra (ze_central ?e) = 0" "c_length_comment (ze_central ?e) = 0"
    by (simp_all add: adjusted_def Let_def new_central_def)
  then have u: "unat (c_offset (ze_central ?e)) = length Y" using assms(4) by (simp add: unat_of_nat_small)
  have "dir_fields ?e" using adjusted_fields(1) [OF assms(1,3)] o assms(1) by (simp add: dir_fields_def)
  moreover have "local_fields ?e" using assms(1,2)
    by (auto simp: local_fields_def dir_fields_def adjusted_def new_central_def new_local_def c_not_def Let_def)
  ultimately show ?thesis by (simp add: entry_ok_def u)
qed

lemma adjust_all_entry_ok:
  assumes "\<forall>e \<in> set es. dir_fields e \<and> local_fields e \<and> inflates R init dec plain e"
    and "length Y + length (locals (adjust_all dec plain (length Y) es)) < 2 ^ 32"
  shows "\<forall>e \<in> set (adjust_all dec plain (length Y) es). entry_ok (Y @ locals (adjust_all dec plain (length Y) es) @ Z) e"
  using assms
proof (induction es arbitrary: Y)
  case (Cons e es)
  let ?e = "adjusted dec plain (length Y) e"
  let ?E = "adjust_all dec plain (length (Y @ local_bytes ?e)) es"
  have "entry_ok (Y @ local_bytes ?e @ locals ?E @ Z) ?e"
    using adjusted_entry_ok [of e R init dec plain Y "locals ?E @ Z"] Cons.prems by (simp add: Let_def)
  moreover have "\<forall>e' \<in> set ?E. entry_ok ((Y @ local_bytes ?e) @ locals ?E @ Z) e'"
    using Cons.IH [of "Y @ local_bytes ?e"] Cons.prems by (simp add: Let_def add.assoc)
  ultimately show ?case by (simp add: Let_def)
qed simp

lemma length_adjust_all [simp]: "length (adjust_all dec plain off es) = length es"
  by (induction es arbitrary: off) (simp_all add: Let_def)

lemma adjust_all_fields:
  "map ze_name (adjust_all dec plain off es) = map ze_name es"
  "map ze_data (adjust_all dec plain off es) = map (content dec plain) es"
  "map (\<lambda>e. c_crc32 (ze_central e)) (adjust_all dec plain off es) = map (\<lambda>e. c_crc32 (ze_central e)) es"
  "\<forall>e \<in> set (adjust_all dec plain off es). ze_extra e = [] \<and> ze_lextra e = [] \<and> ze_comment e = [] \<and> ze_descr e = []"
  by (induction es arbitrary: off) (simp_all add: Let_def adjusted_def new_central_def)

lemma rewritten_zip_file:
  assumes "zip_file F es footer" "\<forall>e \<in> set es. inflates R init dec plain e"
  defines "E \<equiv> adjust_all dec plain 0 es" and "C \<equiv> canonical_zip dec plain es"
  assumes "length C < 2 ^ 31" and "\<forall>i. 0 < i \<and> i \<le> 18 \<longrightarrow> get32 C (length C - 22 + i) \<noteq> 0x06054b50"
  shows "zip_file C E (new_footer E footer)"
proof -
  let ?f = "new_footer E footer"
  have C: "C = locals E @ directory E @ put_footer ?f"
    using rewritten_canonical [OF assms(1,2)] by (simp add: C_def E_def rewritten_def)
  have es: "es \<noteq> []" "\<forall>e \<in> set es. dir_fields e \<and> local_fields e \<and> inflates R init dec plain e"
    using assms(1,2) by (auto simp: zip_file_def entry_ok_def)
  have len: "length (locals E) < 2 ^ 31" "length (directory E) < 2 ^ 31" using assms(5) by (simp_all add: C)
  have ok: "\<forall>e \<in> set E. entry_ok (locals E) e"
    using adjust_all_entry_ok [OF es(2), of "[]" "[]"] len by (simp add: E_def)
  have none: "get32 C i \<noteq> 0x06054b50" if "length C - 22 < i" "i + 4 \<le> length C" for i
    using assms(6) [rule_format, of "i - (length C - 22)"] that by simp
  have "unat (cf_central_directory_offset ?f) = length (locals E)" "unat (cf_central_directory_size ?f) = length (directory E)"
    "cf_length_comment ?f = 0" using len by (simp_all add: new_footer_def unat_of_nat_small)
  moreover have "cf_signature ?f = 0x06054b50" "cf_disk_number ?f = 0" "cf_disk_number_central_directory ?f = 0"
    "unat (cf_central_directory_entries_this_disk ?f) = length E" "unat (cf_central_directory_entries_total ?f) = length E"
    using assms(1) by (simp_all add: zip_file_def new_footer_def E_def)
  moreover have "E \<noteq> []" using es(1) length_adjust_all [of dec plain 0 es] unfolding E_def by (metis length_0_conv)
  ultimately show ?thesis using ok none assms(5)
    unfolding zip_file_def by (intro conjI exI [of _ "locals E"] exI [of _ "[]"]) (simp_all add: C directory_def)
qed

section \<open>A sample\<close>

text \<open>An inflater for data that is stored as it is: the stream holds the bytes still to come.\<close>

definition stored_inflate :: "u8 list inflater" where
  "stored_inflate z c n =
    (let m = min n (min (length c) (length z)) in
     (if m = length z then Z_STREAM_END else Z_OK, m, take m c, drop m z))"

lemma stored_inflate_contract: "inflate_contract stored_inflate (\<lambda>z d u. z = d \<and> u = d)"
  unfolding inflate_contract_def
proof (intro allI impI)
  fix z d u c :: "u8 list" and n :: nat
  assume a: "(z = d \<and> u = d) \<and> 0 < n \<and> (prefix c d \<or> prefix d c)"
  define m where "m = min n (min (length c) (length d))"
  have t: "take m c = take m d" using a by (auto simp: prefix_def m_def)
  have "m \<le> n" "m \<le> length c" "m \<le> length d" "m = length d \<or> m = n \<or> m = length c \<and> length c < length d"
    by (auto simp: m_def)
  moreover have "length (take m c) = m" by (simp add: m_def)
  ultimately show "case stored_inflate z c n of (ret, used, out, z') \<Rightarrow>
      length out \<le> n \<and> prefix out u \<and> used \<le> length c \<and> used \<le> length d \<and> (z' = drop used d \<and> drop (length out) u = drop used d)
      \<and> (ret = Z_STREAM_END \<and> used = length d \<and> out = u
         \<or> (ret = Z_OK \<or> ret = Z_BUF_ERROR) \<and> (length out = n \<or> used = length c \<and> length c < length d))"
    using a t by (auto simp: stored_inflate_def Let_def m_def [symmetric] take_is_prefix)
qed

definition sample_os :: os where
  "sample_os = \<lparr>os_rd = \<lambda>k n. Some n, os_wr = \<lambda>k n. Some n, os_sk = \<lambda>k. True, os_mal = \<lambda>k. True\<rparr>"

lemma sample_os_reliable: "os_reliable sample_os"
  by (simp add: os_reliable_def sample_os_def)

definition sample_entry :: zentry where
  "sample_entry = \<lparr>
     ze_central = \<lparr>c_signature = 0x02014b50, c_version_made = 20, c_version_needed = 20, c_flags = 0x808, c_compression_method = 8,
       c_last_modified_time = 0, c_last_modified_date = 0, c_crc32 = 7, c_size_compressed = 3, c_size_uncompressed = 3,
       c_length_filename = 1, c_length_extra = 4, c_length_comment = 2, c_disk_start = 0, c_attr_internal = 0,
       c_attr_external = 0, c_offset = 0\<rparr>,
     ze_local = \<lparr>l_signature = 0x04034b50, l_extract_version = 20, l_flags = 0x808, l_compression_method = 8,
       l_last_modified_time = 0, l_last_modified_date = 0, l_crc32 = 0, l_size_compressed = 0, l_size_uncompressed = 0,
       l_length_filename = 1, l_length_extra = 4\<rparr>,
     ze_name = [97], ze_extra = [52, 18, 0, 0], ze_comment = [104, 105], ze_lextra = [52, 18, 0, 0], ze_data = [1, 2, 3],
     ze_descr = [80, 75, 7, 8, 7, 0, 0, 0, 3, 0, 0, 0, 3, 0, 0, 0]\<rparr>"

definition sample_footer :: central_footer where
  "sample_footer = \<lparr>cf_signature = 0x06054b50, cf_disk_number = 0, cf_disk_number_central_directory = 0,
     cf_central_directory_entries_this_disk = 1, cf_central_directory_entries_total = 1, cf_central_directory_size = 53,
     cf_central_directory_offset = 54, cf_length_comment = 0\<rparr>"

definition sample_zip :: "u8 list" where
  "sample_zip = local_bytes sample_entry @ central_bytes sample_entry @ put_footer sample_footer"

lemma sample_lengths:
  "length (local_bytes sample_entry) = 54" "length (central_bytes sample_entry) = 53" "length sample_zip = 129"
  by (simp_all add: sample_zip_def sample_entry_def local_bytes_def central_bytes_def)

lemma sample_entry_ok: "entry_ok (local_bytes sample_entry) sample_entry"
proof -
  have "descriptor_ok sample_entry" by code_simp
  then have "local_fields sample_entry" by (simp add: local_fields_def Let_def) (simp add: sample_entry_def bit_numeral_word_iff)
  moreover have "dir_fields sample_entry" by (simp add: dir_fields_def sample_entry_def)
  moreover have "unat (c_offset (ze_central sample_entry)) = 0" by (simp add: sample_entry_def)
  ultimately show ?thesis by (simp add: entry_ok_def)
qed

lemma sample_zip_file: "zip_file sample_zip [sample_entry] sample_footer"
proof -
  have "list_all (\<lambda>i. get32 sample_zip i \<noteq> 0x06054b50) [108 ..< 126]" by code_simp
  then have "get32 sample_zip i \<noteq> 0x06054b50" if "107 < i" "i + 4 \<le> 129" for i
    using that list_all_uptD [of "\<lambda>i. get32 sample_zip i \<noteq> 0x06054b50" 108 126 i] by simp
  then show ?thesis unfolding zip_file_def
    by (intro conjI exI [of _ "local_bytes sample_entry"] exI [of _ "[]"])
       (simp_all add: sample_lengths sample_entry_ok, simp_all add: sample_zip_def sample_footer_def)
qed

lemma sample_inflates: "inflates (\<lambda>z d u. z = d \<and> u = d) (Some [1, 2, 3]) True ze_data sample_entry"
  by (simp add: inflates_def sample_entry_def)

lemma sample_extras: "length (ze_lextra sample_entry) = length (ze_extra sample_entry)"
  by (simp add: sample_entry_def)

definition sample_out :: "u8 list" where
  "sample_out = canonical_zip True ze_data [sample_entry]"

lemma sample_out_length: "length sample_out = 103"
  by (simp add: sample_out_def canonical_zip_def canon_local_def canon_central_def sample_entry_def content_def Let_def)

section \<open>Properties\<close>

text \<open>C14. On a zip file \<open>zipadjust\<close> ends and writes exactly the canonical form of its entries, \<open>canonical_zip\<close>, which is
  spelled out byte by byte: local headers that agree with the central directory, flags 0, no extra fields, no comments, no data
  descriptors, data inflated where asked for, offsets that add up.  The hypotheses: the system calls transfer data without failing
  (\<open>os_reliable\<close>); the inflater keeps zlib's contract and inflates the entries that are to be inflated to their announced
  size; the input is a zip file below 2 GiB with local headers as they have to be (\<open>zip_file\<close>), no encryption, names below 1024 bytes
  and no second footer signature behind its footer; each entry has a local extra field of the same length as its central one,
  since the program looks for the data with the central length; and the result stays below 4 GiB.\<close>

theorem zipadjust_canonical:
  assumes "os_reliable os" and "inflate_contract inflate R" and "zip_file F es footer"
    and "\<forall>e \<in> set es. inflates R init dec plain e" and "\<forall>e \<in> set es. length (ze_lextra e) = length (ze_extra e)"
    and "length (canonical_zip dec plain es) < 2 ^ 32"
  shows "\<exists>s'. zipadjust os inflate init True True dec (zstart F) = Done () s' \<and> f_data (zout s') = canonical_zip dec plain es"
  using zipadjust_run [OF assms(1-4) _ assms(5)] assms(6) by (simp add: rewritten_canonical [OF assms(3,4)])

theorem zipadjust_canonical_witness:
  "\<exists>s'. zipadjust sample_os stored_inflate (Some [1, 2, 3]) True True True (zstart sample_zip) = Done () s'
    \<and> f_data (zout s') = canonical_zip True ze_data [sample_entry]"
  using zipadjust_canonical [OF sample_os_reliable stored_inflate_contract sample_zip_file, of "Some [1, 2, 3]" True ze_data]
    sample_inflates sample_extras sample_out_length by (simp add: sample_out_def)

text \<open>C15. The output of \<open>zipadjust\<close> is a zip file again, under the same specification of zip files, with the names,
  contents and checksums of the entries in their order and without extra fields, comments and data descriptors; and a second run, which
  inflates nothing, reproduces it byte for byte.  The hypotheses are those of the canonical form, with a result below 2 GiB in whose
  footer the footer's signature does not occur a second time (a field of it could have that value).\<close>

theorem zipadjust_idempotent:
  assumes "os_reliable os" and "inflate_contract inflate R" and "zip_file F es footer"
    and "\<forall>e \<in> set es. inflates R init dec plain e" and "\<forall>e \<in> set es. length (ze_lextra e) = length (ze_extra e)"
    and "length (canonical_zip dec plain es) < 2 ^ 31"
    and "\<forall>i. 0 < i \<and> i \<le> 18 \<longrightarrow>
      get32 (canonical_zip dec plain es) (length (canonical_zip dec plain es) - 22 + i) \<noteq> 0x06054b50"
  shows "\<exists>s1 s2 es' footer'. zipadjust os inflate init True True dec (zstart F) = Done () s1
    \<and> zip_file (f_data (zout s1)) es' footer'
    \<and> map ze_name es' = map ze_name es \<and> map ze_data es' = map (content dec plain) es
    \<and> map (\<lambda>e. c_crc32 (ze_central e)) es' = map (\<lambda>e. c_crc32 (ze_central e)) es
    \<and> (\<forall>e \<in> set es'. ze_extra e = [] \<and> ze_lextra e = [] \<and> ze_comment e = [] \<and> ze_descr e = [])
    \<and> zipadjust os inflate None True True dec (zstart (f_data (zout s1))) = Done () s2
    \<and> f_data (zout s2) = f_data (zout s1)"
proof -
  let ?E = "adjust_all dec plain 0 es" and ?C = "canonical_zip dec plain es"
  let ?f = "new_footer ?E footer"
  have z: "zip_file ?C ?E ?f" by (rule rewritten_zip_file [OF assms(3,4,6,7)])
  note c = rewritten_canonical [OF assms(3,4)] and m = adjust_all_fields [of dec plain 0 es]
  have c2: "rewritten (adjust_all dec plain 0 ?E) ?f = ?C"
    using c by (simp add: adjust_all_again rewritten_def new_footer_def)
  have i: "\<forall>e \<in> set ?E. inflates R None dec plain e" using adjust_all_not_inflated by (auto simp: inflates_def)
  obtain s1 where 1: "zipadjust os inflate init True True dec (zstart F) = Done () s1" "f_data (zout s1) = ?C"
    using zipadjust_run [OF assms(1-4) _ assms(5)] assms(6) c by auto
  obtain s2 where 2: "zipadjust os inflate None True True dec (zstart ?C) = Done () s2" "f_data (zout s2) = ?C"
    using zipadjust_run [OF assms(1,2) z i] assms(6) c2 m(4) by auto
  from 1 2 z m show ?thesis by (intro exI [of _ s1] exI [of _ s2] exI [of _ ?E] exI [of _ ?f]) simp
qed

theorem zipadjust_idempotent_witness:
  "\<exists>s1 s2 es' footer'. zipadjust sample_os stored_inflate (Some [1, 2, 3]) True True True (zstart sample_zip) = Done () s1
    \<and> zip_file (f_data (zout s1)) es' footer'
    \<and> map ze_name es' = [[97]] \<and> map ze_data es' = [[1, 2, 3]]
    \<and> zipadjust sample_os stored_inflate None True True True (zstart (f_data (zout s1))) = Done () s2
    \<and> f_data (zout s2) = f_data (zout s1)"
proof -
  have "list_all (\<lambda>i. get32 sample_out (81 + i) \<noteq> 0x06054b50) [1 ..< 19]" by code_simp
  then have "\<forall>i. 0 < i \<and> i \<le> 18 \<longrightarrow> get32 sample_out (length sample_out - 22 + i) \<noteq> 0x06054b50"
    using list_all_uptD [of "\<lambda>i. get32 sample_out (81 + i) \<noteq> 0x06054b50" 1 19] by (simp add: sample_out_length)
  moreover have "map ze_name [sample_entry] = [[97]]" "map (content True ze_data) [sample_entry] = [[1, 2, 3]]"
    by (simp_all add: sample_entry_def content_def)
  ultimately show ?thesis
    using zipadjust_idempotent [OF sample_os_reliable stored_inflate_contract sample_zip_file, of "Some [1, 2, 3]" True ze_data]
      sample_inflates sample_extras sample_out_length unfolding sample_out_def by fastforce
qed

end
