(* ===== verification/Dedelta.thy ===== *)
theory Dedelta
  imports Xd3_Process Native_Files
begin

text \<open>
  delta.c: applying a delta to a source file.  The function reads the delta in chunks, feeds it to
  \<open>xd3_decode_input\<close>, writes what the decoder outputs and loads the source blocks it asks for.

  \<open>source\<close> and \<open>stream.src\<close> are the same object, so its fields live in the stream.  The struct is a local
  variable of which only some fields are set; the others are the parameter \<open>garbage\<close>.  Results of calls that
  the code stores in unsigned variables are converted as in C.  A run ends with \<open>ok\<close>, with an error message
  (the function returns at once and leaves the files open and the output in place), in undefined behaviour,
  or not at all.
\<close>

record dio =
  d_calls :: nat
  d_source :: fstate
  d_delta :: fstate
  d_out :: fstate

datatype dend = D_ok dio | D_error string dio | D_undef | D_endless

definition DCHUNK :: nat where "DCHUNK = 256 * 1024"

text \<open>What \<open>read\<close> leaves in a buffer.\<close>

definition into_buffer :: "u8 list \<Rightarrow> u8 list \<Rightarrow> u8 list" where
  "into_buffer bs buf = bs @ drop (length bs) buf"

definition d_source_init :: "xd3_source \<Rightarrow> u8 list \<Rightarrow> xd3_source" where
  "d_source_init garbage bsource =
    garbage\<lparr>blksize := of_nat DCHUNK, curblkno := -1, curblk := Some bsource, max_winsize := of_nat DCHUNK\<rparr>"

text \<open>\<open>size_t r = read(fdelta, bdelta, CHUNK)\<close> and what follows: \<open>r <= 0\<close> holds at the end of the file only, and
  \<open>xd3_avail_input\<close> takes 32 bits of \<open>r\<close>.  The result is the buffer, \<open>eof\<close>, the stream and the files.\<close>

definition read_delta :: "os \<Rightarrow> u8 list \<Rightarrow> xd3_stream \<Rightarrow> dio \<Rightarrow> u8 list \<times> bool \<times> xd3_stream \<times> dio" where
  "read_delta os bdelta st io =
    (case sys_read os (d_calls io) DCHUNK (d_delta io) of
       (None, f) \<Rightarrow> (bdelta, False, xd3_avail_input bdelta 0xFFFFFFFF st, io\<lparr>d_calls := Suc (d_calls io), d_delta := f\<rparr>)
     | (Some bs, f) \<Rightarrow>
         (let buf = into_buffer bs bdelta;
              st1 = (if bs = [] then xd3_set_flags XD3_FLUSH st else st) in
          (buf, bs = [], xd3_avail_input buf (of_nat (length bs)) st1, io\<lparr>d_calls := Suc (d_calls io), d_delta := f\<rparr>)))"

text \<open>The case \<open>XD3_OUTPUT\<close>.\<close>

definition write_out :: "os \<Rightarrow> xd3_stream \<Rightarrow> dio \<Rightarrow> bool \<times> xd3_stream \<times> dio" where
  "write_out os st io =
    (if avail_out st > 0 then
       (case sys_write os (d_calls io) (take (unat (avail_out st)) (stream_out st)) (d_out io) of
          (r, f) \<Rightarrow> (r = Some (unat (avail_out st)), xd3_consume_output st, io\<lparr>d_calls := Suc (d_calls io), d_out := f\<rparr>))
     else (True, xd3_consume_output st, io))"

text \<open>The case \<open>XD3_GETSRCBLK\<close>: seek, read, set \<open>onblk\<close> and \<open>curblkno\<close>.  \<open>None\<close> is "Seek error".  An offset of
  \<open>2^63\<close> or more is negative as \<open>off_t\<close>.\<close>

definition load_block :: "os \<Rightarrow> xd3_source \<Rightarrow> dio \<Rightarrow> (xd3_source \<times> dio) option" where
  "load_block os s io =
    (let off = ucast (blksize s) * getblkno s; io1 = io\<lparr>d_calls := Suc (d_calls io)\<rparr> in
     if \<not> os_sk os (d_calls io) \<or> off \<ge> 2 ^ 63 then None
     else
       (case sys_read os (d_calls io1) (unat (blksize s)) ((d_source io1)\<lparr>f_pos := unat off\<rparr>) of
          (None, f) \<Rightarrow> Some (s\<lparr>onblk := 0xFFFFFFFF, curblkno := getblkno s\<rparr>, io1\<lparr>d_calls := Suc (d_calls io1), d_source := f\<rparr>)
        | (Some bs, f) \<Rightarrow>
            Some (s\<lparr>onblk := of_nat (length bs), curblkno := getblkno s, curblk := map_option (into_buffer bs) (curblk s)\<rparr>,
              io1\<lparr>d_calls := Suc (d_calls io1), d_source := f\<rparr>)))"

text \<open>The loop, entered at the label \<open>process\<close>.\<close>

partial_function (option) dedelta_loop ::
    "os \<Rightarrow> decode_memory_fun \<Rightarrow> u8 list \<Rightarrow> bool \<Rightarrow> xd3_stream \<Rightarrow> dio \<Rightarrow> ((xd3_stream \<times> dio) + dend) option" where
  "dedelta_loop os dm bdelta eof st io =
    (case xd3_decode_input dm st of
       (r, st1) \<Rightarrow>
         if r = XD3_INPUT then
           (if eof then Some (Inl (st1, io))
            else (case read_delta os bdelta st1 io of
                    (buf, eof2, st2, io2) \<Rightarrow> dedelta_loop os dm buf eof2 st2 io2))
         else if r = XD3_OUTPUT then
           (if length (stream_out st1) < unat (avail_out st1) then Some (Inr D_undef)
            else (case write_out os st1 io of
                    (okw, st2, io2) \<Rightarrow> if okw then dedelta_loop os dm bdelta eof st2 io2 else Some (Inr (D_error ''Write error'' io2))))
         else if r = XD3_GETSRCBLK then
           (case src st1 of
              None \<Rightarrow> Some (Inr D_undef)
            | Some s \<Rightarrow>
               (case load_block os s io of
                  None \<Rightarrow> Some (Inr (D_error ''Seek error'' io))
                | Some (s2, io2) \<Rightarrow> dedelta_loop os dm bdelta eof (st1\<lparr>src := Some s2\<rparr>) io2))
         else if r = XD3_GOTHEADER \<or> r = XD3_WINSTART \<or> r = XD3_WINFINISH then dedelta_loop os dm bdelta eof st1 io
         else if r = C_UB then Some (Inr D_undef)
         else if r = C_LOOP then Some (Inr D_endless)
         else Some (Inr (D_error ''Error #3'' io)))"

declare dedelta_loop.simps [code]

text \<open>Behind the loop: the result of \<open>xd3_close_stream\<close> is not looked at.\<close>

definition dedelta_finish :: "xd3_stream \<Rightarrow> dio \<Rightarrow> dend" where
  "dedelta_finish st io =
    (case xd3_close_stream st of
       (rc, st1) \<Rightarrow> if rc = C_UB then D_undef
         else (case xd3_free_stream st1 of (rf, _) \<Rightarrow> if rf = C_UB then D_undef else D_ok io))"

text \<open>The three descriptors are open; \<open>malloc\<close> and \<open>junk\<close> are the allocator and the content of fresh memory for the
  stream, \<open>bsource\<close> and \<open>bdelta\<close> the content of the two buffers.\<close>

definition dedelta ::
    "os \<Rightarrow> (nat \<Rightarrow> u32 \<Rightarrow> u32 \<Rightarrow> bool) \<Rightarrow> (nat \<Rightarrow> u8) \<Rightarrow> xd3_source \<Rightarrow> u8 list \<Rightarrow> u8 list \<Rightarrow> dio \<Rightarrow> dend" where
  "dedelta os malloc junk garbage bsource bdelta io0 =
    (let k = d_calls io0; io = io0\<lparr>d_calls := k + 2\<rparr> in
     if \<not> os_mal os k \<or> \<not> os_mal os (k + 1) then D_error ''Malloc failed'' io
     else
       (case xd3_config_stream malloc junk (Some ((xd3_init_config 0)\<lparr>cfg_winsize := 32768\<rparr>)) of
          (r, st) \<Rightarrow>
            if r \<noteq> XD3_OK then D_error ''Error #1'' io
            else
              (case xd3_set_source (d_source_init garbage bsource) st of
                 (r2, st2) \<Rightarrow>
                   if r2 \<noteq> XD3_OK then D_error ''Error #2'' io
                   else
                     (case read_delta os bdelta st2 io of
                        (buf, eof, st3, io3) \<Rightarrow>
                          (case dedelta_loop os (table_decoder malloc junk) buf eof st3 io3 of
                             None \<Rightarrow> D_endless
                           | Some (Inr e) \<Rightarrow> e
                           | Some (Inl (st4, io4)) \<Rightarrow> dedelta_finish st4 io4)))))"

section \<open>Loading source blocks\<close>


section \<open>Starting\<close>

definition dedelta_stream :: "(nat \<Rightarrow> u32 \<Rightarrow> u32 \<Rightarrow> bool) \<Rightarrow> (nat \<Rightarrow> u8) \<Rightarrow> xd3_stream" where
  "dedelta_stream malloc junk = (null_stream malloc junk)\<lparr>winsize := 32768, sprevsz := XD3_DEFAULT_SPREVSZ,
     iopt_size := XD3_ALLOCSIZE div sizeof_rinst, iopt_unlimited := True, code_table_desc := Some rfc3284_code_table_desc,
     sprevmask := XD3_DEFAULT_SPREVSZ - 1, smatcher := smatcher_default\<rparr>"

lemma dedelta_config:
  "xd3_config_stream malloc junk (Some ((xd3_init_config 0)\<lparr>cfg_winsize := 32768\<rparr>)) = (XD3_OK, dedelta_stream malloc junk)"
proof -
  have "smatcher (null_stream malloc junk) = smatcher_null" "flags (null_stream malloc junk) = 0"
    by (simp_all add: null_stream_defs)
  then show ?thesis
    by (simp add: xd3_config_stream_def xd3_init_config_def null_config_def config_initial_def pow2_checks config_secondary_def
      config_table_def config_sprev_def config_smatcher_def Let_def flag_set_def smatcher_null_def smatch_def
      dedelta_stream_def null_stream_defs)
qed

lemma dedelta_set_source:
  "xd3_set_source (d_source_init garbage bsource) st = (XD3_OK, st\<lparr>src := Some ((d_source_init garbage bsource)\<lparr>
     srclen := 0, srcbase := 0, shiftby := 18, maskby := 262143\<rparr>)\<rparr>)"
proof -
  have p: "xd3_check_pow2 262144 = (XD3_OK, 18)" "(ucast (262144 :: u32) :: u64) = 262144" "unat (18 :: u32) = 18"
    "push_bit 18 1 - 1 = (262143 :: u32)" "max 262144 (ucast XD3_ALLOCSIZE) = (262144 :: u64)" by code_simp+
  show ?thesis by (simp add: xd3_set_source_def d_source_init_def DCHUNK_def Let_def p)
qed

section \<open>A truncated delta\<close>

lemma decode_header_magic:
  assumes "enc_state st = ENC_INIT" "dec_state st = DEC_VCHEAD" "dec_magic st = [0, 0, 0, 0]" "dec_magicbytes st = 0"
    and "next_in st = [0xD6, 0xC3, 0xC4, 0] @ r" "avail_in st = 4"
  shows "xd3_decode_input dm st = (XD3_INPUT, st\<lparr>total_in := total_in st + 4, avail_in := 0, next_in := r,
     dec_magic := [0xD6, 0xC3, 0xC4, 0], dec_magicbytes := 4, dec_state := DEC_HDRIND, msg := Some ''further input required''\<rparr>)"
proof -
  have "xd3_decode_bytes [0, 0, 0, 0] 0 4 st = (XD3_OK, [0xD6, 0xC3, 0xC4, 0], 4,
      st\<lparr>total_in := total_in st + 4, avail_in := 0, next_in := r\<rparr>)"
    using assms by (subst xd3_decode_bytes.simps) (simp add: DECODE_INPUT_def write_at_def Let_def xd3_decode_bytes.simps)
  then show ?thesis using assms
    by (simp add: xd3_decode_input_def dec_vchead_def dec_hdrind_def xd3_decode_byte_def fail_with_def set_msg_def
      VCDIFF_MAGIC1_def VCDIFF_MAGIC2_def VCDIFF_MAGIC3_def)
qed

lemma decode_header_wait:
  assumes "enc_state st = ENC_INIT" "dec_state st = DEC_HDRIND" "avail_in st = 0"
  shows "xd3_decode_input dm st = (XD3_INPUT, st\<lparr>msg := Some ''further input required''\<rparr>)"
  using assms by (simp add: xd3_decode_input_def dec_hdrind_def xd3_decode_byte_def fail_with_def set_msg_def)

text \<open>Nothing has been allocated yet.\<close>

definition nothing_allocated :: "xd3_stream \<Rightarrow> bool" where
  "nothing_allocated st \<longleftrightarrow> iopt_alloc st = 0 \<and> large_table st = None \<and> small_table st = None \<and> small_prev st = None
     \<and> hdr_out st = [] \<and> data_out st = [] \<and> inst_out st = [] \<and> addr_out st = [] \<and> enc_free st = []
     \<and> near_array (acache st) = None \<and> same_array (acache st) = None \<and> sect_copied1 (inst_sect st) = None
     \<and> sect_copied1 (addr_sect st) = None \<and> sect_copied1 (data_sect st) = None \<and> dec_buffer st = None \<and> dec_lastwin st = None
     \<and> buf_in st = None \<and> dec_appheader st = None \<and> dec_codetbl st = None \<and> code_table_alloc st = None"

lemma free_nothing: "nothing_allocated st \<Longrightarrow> fst (xd3_free_stream st) = XD3_OK"
  by (simp add: nothing_allocated_def xd3_free_stream_def free_buffers_def free_heads_def Let_def xd3_free_opt_def free_out_def)

section \<open>Properties\<close>


definition sample_dio :: dio where
  "sample_dio = \<lparr>d_calls = 0, d_source = \<lparr>f_data = [10, 11, 12, 13, 14], f_pos = 0\<rparr>, d_delta = \<lparr>f_data = [0xD6, 0xC3, 0xC4, 0], f_pos = 0\<rparr>,
     d_out = \<lparr>f_data = [], f_pos = 0\<rparr>\<rparr>"

definition good_os :: os where
  "good_os = \<lparr>os_rd = \<lambda>k n. Some n, os_wr = \<lambda>k n. Some n, os_sk = \<lambda>k. True, os_mal = \<lambda>k. True\<rparr>"

lemma good_os_reliable: "os_reliable good_os"
  by (simp add: os_reliable_def good_os_def)


text \<open>C39. \<open>dedelta\<close> does not look at the result of \<open>xd3_close_stream\<close>, so a delta that ends in the middle is accepted: on
  the first four bytes of a VCDIFF file alone the function reports success and leaves an empty output,
  although closing the stream reports an error.\<close>

theorem dedelta_accepts_truncated:
  assumes "os_reliable os" and "d_delta io = \<lparr>f_data = [0xD6, 0xC3, 0xC4, 0], f_pos = 0\<rparr>"
  shows "\<exists>io' buf st3 io3 st4. dedelta os malloc junk garbage bsource bdelta io = D_ok io' \<and> d_out io' = d_out io
    \<and> dedelta_loop os (table_decoder malloc junk) buf False st3 io3 = Some (Inl (st4, io'))
    \<and> fst (xd3_close_stream st4) = XD3_INTERNAL"
proof -
  let ?dm = "table_decoder malloc junk" and ?io = "io\<lparr>d_calls := d_calls io + 2\<rparr>"
  let ?s = "(d_source_init garbage bsource)\<lparr>srclen := 0, srcbase := 0, shiftby := 18, maskby := 262143\<rparr>"
  define st2 where "st2 = (dedelta_stream malloc junk)\<lparr>src := Some ?s\<rparr>"
  define buf where "buf = [0xD6, 0xC3, 0xC4, 0] @ drop 4 bdelta"
  define st3 where "st3 = xd3_avail_input buf 4 st2"
  define io3 where "io3 = ?io\<lparr>d_calls := Suc (d_calls io + 2), d_delta := \<lparr>f_data = [0xD6, 0xC3, 0xC4, 0], f_pos = 4\<rparr>\<rparr>"
  define io4 where "io4 = io3\<lparr>d_calls := Suc (d_calls io3)\<rparr>"
  define st4 where "st4 = st3\<lparr>total_in := total_in st3 + 4, avail_in := 0, next_in := buf,
     dec_magic := [0xD6, 0xC3, 0xC4, 0], dec_magicbytes := 4, dec_state := DEC_HDRIND, msg := Some ''further input required'',
     flags := XD3_FLUSH\<rparr>"
  have four: "Suc (Suc (Suc (Suc 0))) = 4" by simp
  have r1: "read_delta os bdelta st2 ?io = (buf, False, st3, io3)"
    using assms by (simp add: read_delta_def sys_read_reliable DCHUNK_def Let_def into_buffer_def buf_def st3_def io3_def four)
  let ?st = "st3\<lparr>total_in := total_in st3 + 4, avail_in := 0, next_in := drop 4 bdelta,
     dec_magic := [0xD6, 0xC3, 0xC4, 0], dec_magicbytes := 4, dec_state := DEC_HDRIND, msg := Some ''further input required''\<rparr>"
  have d1: "xd3_decode_input ?dm st3 = (XD3_INPUT, ?st)"
    by (rule decode_header_magic) (simp_all add: st3_def st2_def xd3_avail_input_def buf_def dedelta_stream_def null_stream_defs)
  have r2: "read_delta os buf ?st io3 = (buf, True, xd3_avail_input buf 0 (xd3_set_flags XD3_FLUSH ?st), io4)"
    using assms(1) by (simp add: read_delta_def sys_read_reliable Let_def into_buffer_def io3_def io4_def)
  have d2: "xd3_decode_input ?dm (xd3_avail_input buf 0 (xd3_set_flags XD3_FLUSH ?st)) = (XD3_INPUT, st4)"
    by (subst decode_header_wait)
      (simp_all add: xd3_avail_input_def xd3_set_flags_def st3_def st2_def dedelta_stream_def null_stream_defs st4_def)
  have loop: "dedelta_loop os ?dm buf False st3 io3 = Some (Inl (st4, io4))"
    by (subst dedelta_loop.simps, simp add: d1 r2, subst dedelta_loop.simps, simp add: d2)
  have e: "enc_state st4 = ENC_INIT" "dec_state st4 = DEC_HDRIND" "nothing_allocated (set_msg m st4)" for m
    by (simp_all add: st4_def st3_def st2_def xd3_avail_input_def dedelta_stream_def null_stream_defs nothing_allocated_def
      null_cache_def set_msg_def)
  then have c: "xd3_close_stream st4 = (XD3_INTERNAL, set_msg ''EOF in decode'' st4)"
    by (simp add: xd3_close_stream_def fail_with_def)
  then have "dedelta_finish st4 io4 = D_ok io4"
    using free_nothing [OF e(3), of "''EOF in decode''"]
    by (cases "xd3_free_stream (set_msg ''EOF in decode'' st4)") (simp add: dedelta_finish_def)
  then have "dedelta os malloc junk garbage bsource bdelta io = D_ok io4"
    using assms(1) r1 loop by (simp add: dedelta_def Let_def dedelta_config dedelta_set_source st2_def os_reliable_def)
  moreover have "d_out io4 = d_out io" by (simp add: io4_def io3_def)
  ultimately show ?thesis using loop c by (metis fst_conv)
qed

theorem dedelta_accepts_truncated_witness:
  "\<exists>io'. dedelta good_os (\<lambda>_ _ _. True) (\<lambda>_. 0) (memory_source [] 0) [] [] sample_dio = D_ok io' \<and> f_data (d_out io') = []"
  using dedelta_accepts_truncated [OF good_os_reliable, of sample_dio "\<lambda>_ _ _. True" "\<lambda>_. 0" "memory_source [] 0" "[]" "[]"]
  by (auto simp: sample_dio_def)

end
