(* ===== verification/Spec2Isabelle.thy ===== *)
theory Spec2Isabelle
  imports Xd3_Prelude Xd3_Integer Xd3_Arith Xd3_Adler Xd3_Codetable Xd3_Hash Xd3_Addrcache Xd3_Output
    Xd3_Stream Xd3_Decode Xd3_Decode_Emit Xd3_Decode_Input Xd3_Decode_Spec
    Xd3_List Xd3_Encoder Xd3_Iopt Xd3_Match Xd3_Encode Xd3_Process
    Xd3_Encode_Spec Xd3_Encode_Window Xd3_Encode_Flush Xd3_Roundtrip Xd3_Match_Spec Xd3_String_Match
    Xd3_File Xd3_Stream_Decode Xd3_Stream_Encode Xd3_Stream_Windows Xd3_Stream_Roundtrip
    Xd3_Merge Xd3_Merge_Spec
    Xd3_Second Xd3_Second_Spec Xd3_Second_Contract Xd3_Djw Xd3_Djw_Decode Xd3_Djw_Encode Xd3_Djw_Heap Xd3_Djw_Tree Xd3_Djw_Codes
    Xd3_Djw_Mtf Xd3_Djw_Prefix Xd3_Djw_Tables Xd3_Djw_Choice Xd3_Djw_Sectors Xd3_Djw_Spec Xd3_Djw_Section
    Native_Files Zipadjust Zipadjust_Spec Dedelta
begin

text \<open>
  A model of the native code of OpenDelta (src/jni): the library part of xdelta3 3.0.7, the program zipadjust and the
  program dedelta.

  \<^bold>\<open>The program.\<close>  OpenDelta updates the flash image of a phone by binary deltas.  On the server, zipadjust rewrites
  the old and the new image, which are zip files, into a canonical form with stored entries, and xdelta3
  computes a VCDIFF (RFC 3284) delta between the results.  On the phone, the application runs zipadjust
  (src/jni/zipadjust.c) on the image it has and applies the delta with dedelta (src/jni/delta.c), which drives the
  decoder of xdelta3.  That the phone gets the same bytes as the server rests on two facts: zipadjust has one
  output for one input, and decoding inverts encoding.

  \<^bold>\<open>Build.\<close>  src/jni/Android.mk compiles with \<open>-Ofast\<close> and sets nothing else, so the configuration is that of the defaults in
  xdelta3.h and xdelta3.c: \<open>XD3_ENCODER=1\<close>, no generic encode tables, no main program, no secondary compressor, \<open>usize_t\<close> of 32 and
  \<open>xoff_t\<close> of 64 bits, little-endian, assertions off.
  Two types of the platform are taken wide: \<open>off_t\<close> of the file calls as 64 bits, as it is on 64-bit systems (on 32-bit Android it has 32, and
  files stay below 2 GiB), and the parameter \<open>int n\<close> of \<open>xd3_forward_match\<close> as a natural number (windows are far below 2^31).
  Secondary compression, which that build leaves out, is modelled as it is with \<open>SECONDARY_DJW=1\<close>; the coder theories
  are those of the build without it.
  Undefined behaviour of the C (access outside an object, use after free, a missing pointer) is the return value
  \<open>C_UB\<close>, a loop that never ends is \<open>C_LOOP\<close> (both in \<open>Xd3_Prelude\<close>) or the value \<open>None\<close> of a \<open>partial_function\<close>.

  \<^bold>\<open>Theories.\<close>  In the order of their dependence; the source file follows in parentheses.
    \<^item> \<open>Xd3_Prelude\<close>: machine integers, return codes (xdelta3.h), sequencing of calls, shared lemmas.
    \<^item> \<open>Xd3_Integer\<close> (xdelta3.c, variable-length integers): \<open>EMIT_INTEGER_TYPE\<close>, \<open>READ_INTEGER_TYPE\<close>, sizes.  A locale over
      the word length holds the round trip; it is interpreted at 32 and 64 bits.
    \<^item> \<open>Xd3_Arith\<close> (xdelta3.c, xdelta3.h): powers of two, rounding, block arithmetic by shift and mask.
    \<^item> \<open>Xd3_Adler\<close> (xdelta3.c): the unrolled \<open>adler32\<close> and the checksum of RFC 1950.
    \<^item> \<open>Xd3_Codetable\<close> (xdelta3.c): code tables, the choosers of opcodes, table strings.
    \<^item> \<open>Xd3_Hash\<close> (xdelta3-hash.h): rolling checksums, hash sizes, runs.
    \<^item> \<open>Xd3_List\<close> (xdelta3-list.h): the intrusive lists as pointer operations on a heap of links, refined to sequences.
      The encoder theories use lists of instructions.
    \<^item> \<open>Xd3_Addrcache\<close> (xdelta3.c): the address cache, both directions.
    \<^item> \<open>Xd3_Output\<close> (xdelta3.c): the allocator's interface and the page chains of the sections.
    \<^item> \<open>Xd3_Stream\<close> (xdelta3.c, xdelta3.h): reentrant input, source blocks, \<open>xd3_set_source\<close>.
    \<^item> \<open>Xd3_Decode\<close>, \<open>Xd3_Decode_Emit\<close>, \<open>Xd3_Decode_Input\<close> (xdelta3-decode.h): buffers and sections; instructions and their
      execution; the state machine \<open>xd3_decode_input\<close>, one definition per state.
    \<^item> \<open>Xd3_Decode_Spec\<close>: what a VCDIFF window means, over byte lists and unbounded numbers (\<open>vrun\<close>, \<open>vwindow\<close>), and the
      refinement of that by the decoder.
    \<^item> \<open>Xd3_Encoder\<close>, \<open>Xd3_Iopt\<close>, \<open>Xd3_Match\<close>, \<open>Xd3_Encode\<close> (xdelta3.c, xdelta3-cfgs.h): encoder state and single
      instructions; the instruction buffer; string matching; headers, setup and the state machine \<open>xd3_encode_input\<close>.
    \<^item> \<open>Xd3_Match_Spec\<close>, \<open>Xd3_String_Match\<close>: what the match comparisons compute; the buffer that string matching leaves.
    \<^item> \<open>Xd3_Process\<close> (xdelta3.c): configuration, freeing, closing, coding a whole input in memory.
    \<^item> \<open>Xd3_Encode_Spec\<close>, \<open>Xd3_Encode_Window\<close>, \<open>Xd3_Encode_Flush\<close>: sections that grow and opcodes; the invariant of a window
      being written; resolving overlaps and flushing the buffer.
    \<^item> \<open>Xd3_Roundtrip\<close>: the windows the encoder writes decode to its input.
    \<^item> \<open>Xd3_File\<close>: the files written without a source, as bytes: header, windows, what they mean (\<open>encodes_file\<close>).
      \<open>Xd3_Stream_Decode\<close>: \<open>xd3_decode_memory\<close> reads every such file.  \<open>Xd3_Stream_Encode\<close>, \<open>Xd3_Stream_Windows\<close>: headers, output
      and turns of the encoder.  \<open>Xd3_Stream_Roundtrip\<close>: \<open>xd3_encode_stream\<close> writes such a file, from the configuration on.
    \<^item> \<open>Xd3_Merge\<close> (xdelta3-merge.h) and \<open>Xd3_Merge_Spec\<close>: collecting decoded windows, composing two deltas.
    \<^item> \<open>Xd3_Second\<close> (xdelta3-second.h): bit streams, the interface of a secondary compressor, the routines that replace a
      section by its compressed form.  \<open>Xd3_Second_Spec\<close>: readers and writers over bit strings.  \<open>Xd3_Second_Contract\<close>:
      the section routines over a locale \<open>sec_compressor\<close>, the contract of a compressor.
    \<^item> \<open>Xd3_Djw\<close>, \<open>Xd3_Djw_Decode\<close>, \<open>Xd3_Djw_Encode\<close> (xdelta3-djw.h): the static Huffman compressor: tree building, canonical
      codes, move-to-front and run codes; the decoder; the encoder with its choice of groups of tables.
    \<^item> \<open>Xd3_Djw_Heap\<close>, \<open>Xd3_Djw_Tree\<close>, \<open>Xd3_Djw_Codes\<close>, \<open>Xd3_Djw_Mtf\<close>, \<open>Xd3_Djw_Prefix\<close>, \<open>Xd3_Djw_Tables\<close>, \<open>Xd3_Djw_Choice\<close>,
      \<open>Xd3_Djw_Sectors\<close>: the parts of its correctness, from the heap to the bytes of the sectors.  \<open>Xd3_Djw_Spec\<close>: the encoder as a
      whole.  \<open>Xd3_Djw_Section\<close>: the instance of \<open>sec_compressor\<close> and the properties.
    \<^item> \<open>Native_Files\<close>: files and system calls, with their results as a parameter.
    \<^item> \<open>Zipadjust\<close> (zipadjust.c) and \<open>Zipadjust_Spec\<close>: the program, zip files as the format has them, their canonical
      form.
    \<^item> \<open>Dedelta\<close> (delta.c): the driver, over the model of \<open>xd3_decode_input\<close>.

  \<^bold>\<open>State.\<close>  \<open>xd3_stream\<close> is one C struct.  The records \<open>xd3_base\<close>, \<open>xd3_io\<close>, \<open>xd3_dechdr\<close>, \<open>xd3_decoder\<close>, \<open>xd3_enccfg\<close>,
  \<open>xd3_matching\<close> and \<open>xd3_stream\<close> extend one another, so that each operation is stated on the part of the struct it uses
  and applies to the whole.  Output buffers of the decoder are blocks of a heap \<open>out_heap\<close>, because windows alias
  them; section chains are lists of pages.

  \<^bold>\<open>What is shown.\<close>
    \<^item> Decoder (\<open>Xd3_Decode_Spec\<close>): a window with any source, block size and code table is decoded to what its
      instructions mean, or refused; no access leaves a buffer, as long as sizes do not carry 32-bit sums over.
      Where they do, the bound check can be passed: \<open>run_size_check_wraps\<close>.
    \<^item> Encoder (\<open>Xd3_Encode_Window\<close> to \<open>Xd3_Roundtrip\<close>): the sections written for true matches and runs decode to the
      input, through splitting of overlaps, opcode pairing, address modes and the choice of the source window;
      with the decoder this is a round trip of windows.
    \<^item> String matching (\<open>Xd3_String_Match\<close>): without a source, with an unlimited instruction buffer and nonzero chain lengths, the
      search ends, stays in its tables, and what it hands to the writer decodes to the input.  The configuration does not enforce the
      chain lengths for a soft matcher.
    \<^item> Whole streams (\<open>Xd3_Stream_Roundtrip\<close>): under a configuration \<open>plain_encoding\<close> (unlimited instruction buffer, a built-in matcher,
      the default allocator) without a source and with memory that does not fail, \<open>xd3_encode_stream\<close> on a nonempty input below 2^32 bytes
      ends and returns one delta, or \<open>ENOSPC\<close> exactly where the output buffer is shorter than that; \<open>xd3_decode_memory\<close> ends on the delta and
      returns the input if the delta has at most 8 megabytes, which \<open>xd3_process_stream\<close> hands to the decoder in one piece, and the
      output buffer has room.  The decoder's side is stated for all files of the shape \<open>encodes_file\<close>: no application header, no code
      table, no copy windows.
    \<^item> Merging (\<open>Xd3_Merge_Spec\<close>): the composed delta means what the two deltas mean one after the other, for first deltas without
      \<open>VCD_TARGET\<close> windows and targets of up to 64 megabytes.
    \<^item> Secondary compression (\<open>Xd3_Djw_Tree\<close>, \<open>Xd3_Djw_Section\<close>): code lengths are those of a prefix code whatever the
      frequencies; the encoder stays inside its arrays, whose sizes are part of the model (the tree builder's, the selectors' as
      allocated, those of the code lengths), and ends; what it writes is decoded to its input, and sections survive the way through
      \<open>xd3_encode_secondary\<close> and \<open>xd3_decode_secondary\<close>.  With several groups the round trip is stated for up to 17000
      bytes: a table that overflows 20 bits needs 17711 (a Fibonacci number), and after an overflow symbols that do not
      occur get codes, which the transfer of the tables does not expect.
    \<^item> Building blocks: integers, address cache, opcodes, table strings, checksums, hash sizes, block arithmetic,
      pages, lists and match comparison do what their callers rely on.
    \<^item> zipadjust (\<open>Zipadjust_Spec\<close>): on a zip file, specified with its local headers, data descriptors, directory and footer, it ends and
      writes the canonical form, which is spelled out in bytes; the result is again a zip file with the same names and contents and
      a fixed point.  The local and central extra fields of an entry have to have the same length, since the program uses the
      wrong one, and all flags are cleared, where the program means to clear one.
    \<^item> dedelta: the driver hands the decoder the blocks it asks for; it reports success on truncated deltas.

  \<^bold>\<open>Parameters.\<close>  The allocator (which calls succeed), the content of fresh memory, the client's \<open>getblk\<close>, the system calls
  (how much each transfers and whether it fails) and zlib's \<open>inflate\<close> are arguments of the definitions.  Hypotheses on
  them are named (\<open>os_reliable\<close>, \<open>inflate_contract\<close>, \<open>src_serves\<close>, \<open>mem_ok\<close>) and have instances in the witnesses.

  \<^bold>\<open>Loops.\<close>  Loops that end on all inputs are recursive functions with a measure.  Loops of the source whose
  progress depends on data carry a progress test and return \<open>C_LOOP\<close> without progress; that they do not is part of
  the properties.  The outer loops of \<open>xd3_process_stream\<close>, \<open>dedelta\<close> and the round-up functions are partial functions;
  their termination is stated where it holds.  In \<open>Xd3_Process\<close> decoding a custom code table calls the decoder on the
  table's delta; the nesting is bounded by the length of the input, since each level's delta is a proper part of
  the one around it.

  \<^bold>\<open>Not modelled.\<close>  The adaptive Huffman compressor and the one that calls liblzma (xdelta3-fgk.h, -lzma.h); the command-line
  program with its block cache and self test (xdelta3-main.h, -blkcache.h, -test.h): the build leaves them out.  The JNI
  functions and the two \<open>main\<close> functions convert arguments and make one call.  The Java application and the server
  scripts are not native code.

  \<^bold>\<open>Next.\<close>  String matching against a source; whole streams with a bounded instruction buffer, as \<open>xd3_encode_memory\<close>
  configures it; the reentrancy of the whole decoder state machine, which deltas over 8 megabytes need.
\<close>

end
